(* ===== verification/Prelude.thy ===== *)
theory Prelude
  imports Main "HOL-Library.Sublist" "HOL-Library.Char_ord" "HOL-Library.List_Lexorder" "HOL-Library.Word"
    "HOL-Library.Code_Target_Nat"
begin

text \<open>
  Shared layer of the development: Go's \<open>(value, error)\<close> results as sums, loops that
  return at the first error, and operations over an explicit world (a file system, a lock, a
  clock) as functions that return the result and the new world.  The collections
  \<open>result_simps\<close> and \<open>io_simps\<close> carry the component proofs.
\<close>

named_theorems result_simps \<open>rewriting of results that are values of a sum or option\<close>
named_theorems io_simps \<open>unfolding of operations over an explicit world\<close>
named_theorems model_defs \<open>the definitions of pure helpers, unfolded together\<close>

section \<open>Results\<close>

type_synonym ('e, 'a) result = "'e + 'a"

fun bindE :: "('e, 'a) result \<Rightarrow> ('a \<Rightarrow> ('e, 'b) result) \<Rightarrow> ('e, 'b) result" where
  "bindE (Inl e) f = Inl e"
| "bindE (Inr x) f = f x"

lemma bindE_Inr_iff [result_simps]:
  "bindE m f = Inr y \<longleftrightarrow> (\<exists>x. m = Inr x \<and> f x = Inr y)"
  by (cases m) auto

lemma bindE_Inl_iff [result_simps]:
  "bindE m f = Inl e \<longleftrightarrow> m = Inl e \<or> (\<exists>x. m = Inr x \<and> f x = Inl e)"
  by (cases m) auto

text \<open>A guard: the early \<open>return err\<close> of the source.\<close>

definition failE :: "bool \<Rightarrow> 'e \<Rightarrow> ('e, 'a) result \<Rightarrow> ('e, 'a) result" where
  "failE b e k = (if b then Inl e else k)"

lemma failE_Inr_iff [result_simps]: "failE b e k = Inr y \<longleftrightarrow> \<not> b \<and> k = Inr y"
  by (simp add: failE_def)

lemma failE_Inl_iff [result_simps]:
  "failE b e k = Inl e' \<longleftrightarrow> (b \<and> e' = e) \<or> (\<not> b \<and> k = Inl e')"
  by (auto simp: failE_def)

lemma failE_simps [simp]: "failE True e k = Inl e" "failE False e k = k"
  by (simp_all add: failE_def)

text \<open>A loop that converts each element and returns at the first error.\<close>

fun mapE :: "('a \<Rightarrow> ('e, 'b) result) \<Rightarrow> 'a list \<Rightarrow> ('e, 'b list) result" where
  "mapE f [] = Inr []"
| "mapE f (x # xs) = bindE (f x) (\<lambda>y. bindE (mapE f xs) (\<lambda>ys. Inr (y # ys)))"

lemma mapE_Inr_iff: "mapE f xs = Inr ys \<longleftrightarrow> list_all2 (\<lambda>x y. f x = Inr y) xs ys"
  by (induction xs arbitrary: ys) (auto simp: result_simps list_all2_Cons1)

lemma mapE_Inr_all: "mapE f xs = Inr ys \<Longrightarrow> x \<in> set xs \<Longrightarrow> \<exists>y \<in> set ys. f x = Inr y"
  by (induction xs arbitrary: ys) (auto simp: result_simps)

lemma mapE_Inr_from: "mapE f xs = Inr ys \<Longrightarrow> y \<in> set ys \<Longrightarrow> \<exists>x \<in> set xs. f x = Inr y"
  by (induction xs arbitrary: ys) (auto simp: result_simps)

lemma mapE_Inr_Nil [simp]: "mapE f xs = Inr [] \<longleftrightarrow> xs = []"
  by (cases xs) (auto simp: result_simps)

lemma mapE_total: "(\<And>x. x \<in> set xs \<Longrightarrow> \<exists>y. f x = Inr y) \<Longrightarrow> \<exists>ys. mapE f xs = Inr ys"
  by (induction xs) (auto simp: result_simps)

text \<open>A loop that only checks: the first error it meets, or none.\<close>

fun first_err :: "('a \<Rightarrow> 'e option) \<Rightarrow> 'a list \<Rightarrow> 'e option" where
  "first_err f [] = None"
| "first_err f (x # xs) = (case f x of Some e \<Rightarrow> Some e | None \<Rightarrow> first_err f xs)"

lemma first_err_None_iff [result_simps]: "first_err f xs = None \<longleftrightarrow> (\<forall>x \<in> set xs. f x = None)"
  by (induction xs) (auto split: option.splits)

lemma first_err_SomeD: "first_err f xs = Some e \<Longrightarrow> \<exists>x \<in> set xs. f x = Some e"
  by (induction xs) (auto split: option.splits)

lemma first_err_append:
  "first_err f (xs @ ys) = (case first_err f xs of Some e \<Rightarrow> Some e | None \<Rightarrow> first_err f ys)"
  by (induction xs) (auto split: option.splits)

section \<open>Operations over an explicit world\<close>

type_synonym ('w, 'e, 'a) io = "'w \<Rightarrow> ('e, 'a) result \<times> 'w"

definition returnIO :: "'a \<Rightarrow> ('w, 'e, 'a) io" where
  "returnIO x w = (Inr x, w)"

definition throwIO :: "'e \<Rightarrow> ('w, 'e, 'a) io" where
  "throwIO e w = (Inl e, w)"

definition bindIO :: "('w, 'e, 'a) io \<Rightarrow> ('a \<Rightarrow> ('w, 'e, 'b) io) \<Rightarrow> ('w, 'e, 'b) io" where
  "bindIO m f w = (case m w of (Inl e, w') \<Rightarrow> (Inl e, w') | (Inr x, w') \<Rightarrow> f x w')"

definition whenE :: "bool \<Rightarrow> 'e \<Rightarrow> ('w, 'e, unit) io" where
  "whenE b e = (if b then throwIO e else returnIO ())"

definition liftE :: "('e, 'a) result \<Rightarrow> ('w, 'e, 'a) io" where
  "liftE r w = (r, w)"

definition getIO :: "('w \<Rightarrow> 'a) \<Rightarrow> ('w, 'e, 'a) io" where
  "getIO f w = (Inr (f w), w)"

definition updIO :: "('w \<Rightarrow> 'w) \<Rightarrow> ('w, 'e, unit) io" where
  "updIO f w = (Inr (), f w)"

text \<open>\<open>catchIO\<close>: the source inspects the error instead of returning it.\<close>

definition catchIO :: "('w, 'e, 'a) io \<Rightarrow> ('w, 'f, ('e, 'a) result) io" where
  "catchIO m w = (case m w of (r, w') \<Rightarrow> (Inr r, w'))"

lemma io_unit_simps [simp]:
  "returnIO x w = (Inr x, w)" "throwIO e w = (Inl e, w)" "liftE r w = (r, w)"
  "getIO f w = (Inr (f w), w)" "updIO g w = (Inr (), g w)"
  "whenE True e w = (Inl e, w)" "whenE False e w = (Inr (), w)"
  by (simp_all add: returnIO_def throwIO_def liftE_def getIO_def updIO_def whenE_def)

lemma bindIO_Inr: "m w = (Inr x, w') \<Longrightarrow> bindIO m f w = f x w'"
  by (simp add: bindIO_def)

lemma bindIO_Inl: "m w = (Inl e, w') \<Longrightarrow> bindIO m f w = (Inl e, w')"
  by (simp add: bindIO_def)

lemma bindIO_InrE:
  assumes "bindIO m f w = (Inr y, w'')"
  obtains x w' where "m w = (Inr x, w')" and "f x w' = (Inr y, w'')"
  using assms by (auto simp: bindIO_def split: prod.splits sum.splits)

text \<open>
  A world predicate that an operation keeps whatever its result, and its closure under the
  combinators: the invariant proofs are built from these.
\<close>

definition keeps :: "('w \<Rightarrow> bool) \<Rightarrow> ('w, 'e, 'a) io \<Rightarrow> bool" where
  "keeps P m \<longleftrightarrow> (\<forall>w. P w \<longrightarrow> P (snd (m w)))"

lemma keepsI: "(\<And>w. P w \<Longrightarrow> P (snd (m w))) \<Longrightarrow> keeps P m"
  by (simp add: keeps_def)

lemma keepsD: "keeps P m \<Longrightarrow> P w \<Longrightarrow> P (snd (m w))"
  by (simp add: keeps_def)

lemma keeps_unit [simp, intro]:
  "keeps P (returnIO x)" "keeps P (throwIO e)" "keeps P (liftE r)" "keeps P (getIO f)"
  "keeps P (whenE b e)"
  by (simp_all add: keeps_def whenE_def)

lemma keeps_bind [intro]:
  assumes "keeps P m" and "\<And>x. keeps P (f x)"
  shows "keeps P (bindIO m f)"
proof (rule keepsI)
  fix w assume "P w"
  with assms(1) have "P (snd (m w))" by (rule keepsD)
  then show "P (snd (bindIO m f w))"
    using assms(2) by (auto simp: bindIO_def keeps_def split: prod.splits sum.splits)
qed

lemma keeps_catch [intro]: "keeps P m \<Longrightarrow> keeps P (catchIO m)"
  by (auto simp: keeps_def catchIO_def split: prod.splits)

text \<open>\<open>finallyIO\<close>: a deferred clean-up that runs whatever the result and whose own error is dropped.\<close>

definition finallyIO :: "('w, 'e, 'a) io \<Rightarrow> ('w, 'f, 'b) io \<Rightarrow> ('w, 'e, 'a) io" where
  "finallyIO m c w = (case m w of (r, w') \<Rightarrow> (r, snd (c w')))"

lemma keeps_finally [intro]: "keeps P m \<Longrightarrow> keeps P c \<Longrightarrow> keeps P (finallyIO m c)"
  by (auto simp: keeps_def finallyIO_def split: prod.splits)

lemma keeps_if [intro]: "keeps P m \<Longrightarrow> keeps P n \<Longrightarrow> keeps P (if b then m else n)"
  by simp

lemma keeps_upd: "(\<And>w. P w \<Longrightarrow> P (f w)) \<Longrightarrow> keeps P (updIO f)"
  by (simp add: keeps_def)

section \<open>Generic lemmas on lists and maps\<close>

lemma list_ex_set_iff: "list_ex P xs \<longleftrightarrow> (\<exists>x \<in> set xs. P x)"
  by (simp add: list_ex_iff)

lemma filter_length_pos_iff: "0 < length (filter P xs) \<longleftrightarrow> (\<exists>x \<in> set xs. P x)"
  by (auto simp: filter_empty_conv simp flip: length_greater_0_conv)

lemma map_delete_SomeD: "(m(k := None)) x = Some y \<Longrightarrow> x \<noteq> k \<and> m x = Some y"
  by (simp split: if_splits)

end
