(* ===== verification/GoStrings.thy ===== *)
theory GoStrings
  imports Prelude
begin

text \<open>
  What the program uses of Go's \<open>strings\<close>, \<open>strconv\<close>, \<open>path\<close> and \<open>encoding/hex\<close>, on Go
  strings as byte lists (a HOL \<open>char\<close> is a byte, so \<open>length\<close> is Go's \<open>len\<close>).
  \<open>strings.ToLower\<close> lowers ASCII and the two non-ASCII runes whose lower case is ASCII (the
  Kelvin sign and the dotted capital I); every other multi-byte rune stays multi-byte there,
  and is left as it is here.
\<close>

section \<open>strings\<close>

definition trim_prefix :: "string \<Rightarrow> string \<Rightarrow> string" where
  "trim_prefix s p = (if prefix p s then drop (length p) s else s)"

definition trim_suffix :: "string \<Rightarrow> string \<Rightarrow> string" where
  "trim_suffix s p = (if suffix p s then take (length s - length p) s else s)"

definition cut_prefix :: "string \<Rightarrow> string \<Rightarrow> string \<times> bool" where
  "cut_prefix s p = (if prefix p s then (drop (length p) s, True) else (s, False))"

definition contains_any :: "string \<Rightarrow> string \<Rightarrow> bool" where
  "contains_any s cs = list_ex (\<lambda>c. c \<in> set cs) s"

text \<open>\<open>strings.Cut\<close> with a one-byte separator: text before, text after, found.\<close>

fun str_cut :: "char \<Rightarrow> string \<Rightarrow> string \<times> string \<times> bool" where
  "str_cut c [] = ([], [], False)"
| "str_cut c (x # s) =
     (if x = c then ([], s, True)
      else (case str_cut c s of (b, a, f) \<Rightarrow> (x # b, a, f)))"

fun split_on :: "char \<Rightarrow> string \<Rightarrow> string list" where
  "split_on c [] = [[]]"
| "split_on c (x # s) =
     (if x = c then [] # split_on c s
      else (case split_on c s of [] \<Rightarrow> [[x]] | w # ws \<Rightarrow> (x # w) # ws))"

fun join_with :: "string \<Rightarrow> string list \<Rightarrow> string" where
  "join_with sep [] = []"
| "join_with sep [w] = w"
| "join_with sep (w # v # ws) = w @ sep @ join_with sep (v # ws)"

definition lower_char :: "char \<Rightarrow> char" where
  "lower_char c = (if CHR ''A'' \<le> c \<and> c \<le> CHR ''Z'' then char_of (of_char c + 32 :: nat) else c)"

fun to_lower :: "string \<Rightarrow> string" where
  "to_lower [] = []"
| "to_lower (c # s) =
     (if c = CHR 0xE2 \<and> take 2 s = [CHR 0x84, CHR 0xAA] then CHR ''k'' # to_lower (drop 2 s)
      else if c = CHR 0xC4 \<and> take 1 s = [CHR 0xB0] then CHR ''i'' # to_lower (drop 1 s)
      else lower_char c # to_lower s)"

definition equal_fold_ascii :: "string \<Rightarrow> string \<Rightarrow> bool" where
  "equal_fold_ascii s t \<longleftrightarrow> map lower_char s = map lower_char t"

text \<open>The UTF-8 encodings of \<open>unicode.IsSpace\<close>.\<close>

definition space_runes :: "string list" where
  "space_runes =
     [[CHR 0x09], [CHR 0x0A], [CHR 0x0B], [CHR 0x0C], [CHR 0x0D], [CHR 0x20],
      [CHR 0xC2, CHR 0x85], [CHR 0xC2, CHR 0xA0], [CHR 0xE1, CHR 0x9A, CHR 0x80],
      [CHR 0xE2, CHR 0x80, CHR 0x80], [CHR 0xE2, CHR 0x80, CHR 0x81],
      [CHR 0xE2, CHR 0x80, CHR 0x82], [CHR 0xE2, CHR 0x80, CHR 0x83],
      [CHR 0xE2, CHR 0x80, CHR 0x84], [CHR 0xE2, CHR 0x80, CHR 0x85],
      [CHR 0xE2, CHR 0x80, CHR 0x86], [CHR 0xE2, CHR 0x80, CHR 0x87],
      [CHR 0xE2, CHR 0x80, CHR 0x88], [CHR 0xE2, CHR 0x80, CHR 0x89],
      [CHR 0xE2, CHR 0x80, CHR 0x8A], [CHR 0xE2, CHR 0x80, CHR 0xA8],
      [CHR 0xE2, CHR 0x80, CHR 0xA9], [CHR 0xE2, CHR 0x80, CHR 0xAF],
      [CHR 0xE2, CHR 0x81, CHR 0x9F], [CHR 0xE3, CHR 0x80, CHR 0x80]]"

definition space_at :: "string \<Rightarrow> nat" where
  "space_at s = (case find (\<lambda>r. prefix r s) space_runes of None \<Rightarrow> 0 | Some r \<Rightarrow> length r)"

definition space_before :: "string \<Rightarrow> nat" where
  "space_before s = (case find (\<lambda>r. suffix r s) space_runes of None \<Rightarrow> 0 | Some r \<Rightarrow> length r)"

text \<open>Both trims stop after at most \<open>length s\<close> rounds, the fuel they are given.\<close>

fun trim_left_n :: "nat \<Rightarrow> string \<Rightarrow> string" where
  "trim_left_n 0 s = s"
| "trim_left_n (Suc n) s = (if space_at s = 0 then s else trim_left_n n (drop (space_at s) s))"

fun trim_right_n :: "nat \<Rightarrow> string \<Rightarrow> string" where
  "trim_right_n 0 s = s"
| "trim_right_n (Suc n) s =
     (if space_before s = 0 then s else trim_right_n n (take (length s - space_before s) s))"

definition trim_space :: "string \<Rightarrow> string" where
  "trim_space s = (let t = trim_left_n (length s) s in trim_right_n (length t) t)"

fun fields_n :: "nat \<Rightarrow> string \<Rightarrow> string \<Rightarrow> string list" where
  "fields_n 0 acc s = (if acc = [] then [] else [rev acc])"
| "fields_n (Suc n) acc s =
     (case s of [] \<Rightarrow> (if acc = [] then [] else [rev acc])
      | c # s' \<Rightarrow>
          if space_at s = 0 then fields_n n (c # acc) s'
          else (if acc = [] then [] else [rev acc]) @ fields_n n [] (drop (space_at s) s))"

definition fields :: "string \<Rightarrow> string list" where
  "fields s = fields_n (Suc (length s)) [] s"

section \<open>strconv\<close>

definition is_digit :: "char \<Rightarrow> bool" where
  "is_digit c \<longleftrightarrow> CHR ''0'' \<le> c \<and> c \<le> CHR ''9''"

definition digit_val :: "char \<Rightarrow> nat" where
  "digit_val c = of_char c - 48"

definition dec_val :: "string \<Rightarrow> nat" where
  "dec_val s = foldl (\<lambda>v c. 10 * v + digit_val c) 0 s"

text \<open>\<open>strconv.ParseUint(s, 10, bits)\<close>; the two error kinds are not told apart by any caller.\<close>

definition parse_uint :: "nat \<Rightarrow> string \<Rightarrow> nat option" where
  "parse_uint bits s =
     (if s \<noteq> [] \<and> list_all is_digit s \<and> dec_val s < 2 ^ bits then Some (dec_val s) else None)"

definition atoi :: "string \<Rightarrow> int option" where
  "atoi s = (case s of [] \<Rightarrow> None
     | c # t \<Rightarrow>
         if c = CHR ''-'' then
           (if t \<noteq> [] \<and> list_all is_digit t \<and> dec_val t \<le> 2 ^ 63 then Some (- int (dec_val t)) else None)
         else
           (let u = (if c = CHR ''+'' then t else s) in
            if u \<noteq> [] \<and> list_all is_digit u \<and> dec_val u < 2 ^ 63 then Some (int (dec_val u)) else None))"

definition parse_bool :: "string \<Rightarrow> bool option" where
  "parse_bool s =
     (if s \<in> set [''1'', ''t'', ''T'', ''TRUE'', ''true'', ''True''] then Some True
      else if s \<in> set [''0'', ''f'', ''F'', ''FALSE'', ''false'', ''False''] then Some False
      else None)"

definition digit_char :: "nat \<Rightarrow> char" where
  "digit_char d = char_of (48 + d)"

fun show_nat :: "nat \<Rightarrow> string" where
  "show_nat n = (if n < 10 then [digit_char n] else show_nat (n div 10) @ [digit_char (n mod 10)])"

declare show_nat.simps [simp del]

definition is_lower_hex :: "char \<Rightarrow> bool" where
  "is_lower_hex c \<longleftrightarrow> is_digit c \<or> (CHR ''a'' \<le> c \<and> c \<le> CHR ''f'')"

definition is_hex :: "char \<Rightarrow> bool" where
  "is_hex c \<longleftrightarrow> is_lower_hex c \<or> (CHR ''A'' \<le> c \<and> c \<le> CHR ''F'')"

text \<open>\<open>hex.DecodeString\<close> succeeds exactly on an even number of hex digits.\<close>

definition hex_decodes :: "string \<Rightarrow> bool" where
  "hex_decodes s \<longleftrightarrow> even (length s) \<and> list_all is_hex s"

text \<open>The regular expressions \<open>[a-f0-9]{n}\<close>, anchored at both ends.\<close>

definition lower_hex_n :: "nat \<Rightarrow> string \<Rightarrow> bool" where
  "lower_hex_n n s \<longleftrightarrow> length s = n \<and> list_all is_lower_hex s"

section \<open>path\<close>

text \<open>\<open>path.Clean\<close> (\<open>filepath.Clean\<close> on Linux): the components, with a stack for \<open>..\<close>.\<close>

fun clean_parts :: "bool \<Rightarrow> string list \<Rightarrow> string list \<Rightarrow> string list" where
  "clean_parts rooted stk [] = rev stk"
| "clean_parts rooted stk (w # ws) =
     (if w = [] \<or> w = ''.'' then clean_parts rooted stk ws
      else if w = ''..'' then
        (case stk of
           [] \<Rightarrow> (if rooted then clean_parts rooted [] ws else clean_parts rooted [''..''] ws)
         | v # stk' \<Rightarrow>
             if v = ''..'' then clean_parts rooted (''..'' # stk) ws
             else clean_parts rooted stk' ws)
      else clean_parts rooted (w # stk) ws)"

definition is_abs :: "string \<Rightarrow> bool" where
  "is_abs p \<longleftrightarrow> prefix ''/'' p"

definition path_clean :: "string \<Rightarrow> string" where
  "path_clean p =
     (let rooted = is_abs p;
          body = join_with ''/'' (clean_parts rooted [] (split_on CHR ''/'' p)) in
      if rooted then ''/'' @ body else if body = [] then ''.'' else body)"

text \<open>\<open>filepath.Dir\<close>: what is before the last slash, cleaned.\<close>

definition path_dir :: "string \<Rightarrow> string" where
  "path_dir p = path_clean (rev (dropWhile (\<lambda>c. c \<noteq> CHR ''/'') (rev p)))"

section \<open>Lemmas\<close>

lemma show_nat_nonempty [simp]: "show_nat n \<noteq> []"
  by (subst show_nat.simps) simp

lemma is_digit_digit_char: "d < 10 \<Longrightarrow> is_digit (digit_char d)"
  by (simp add: is_digit_def digit_char_def less_eq_char_def)

lemma digit_val_digit_char: "d < 10 \<Longrightarrow> digit_val (digit_char d) = d"
  by (simp add: digit_val_def digit_char_def)

lemma show_nat_digits: "list_all is_digit (show_nat n)"
proof (induction n rule: show_nat.induct)
  case (1 n)
  then show ?case
    by (subst show_nat.simps) (simp add: is_digit_digit_char)
qed

lemma dec_val_append: "dec_val (s @ [c]) = 10 * dec_val s + digit_val c"
  by (simp add: dec_val_def)

lemma dec_val_show_nat [simp]: "dec_val (show_nat n) = n"
proof (induction n rule: show_nat.induct)
  case (1 n)
  show ?case
  proof (cases "n < 10")
    case True
    then show ?thesis by (subst show_nat.simps) (simp add: dec_val_def digit_val_digit_char)
  next
    case False
    with 1 show ?thesis
      by (subst show_nat.simps) (simp add: dec_val_append digit_val_digit_char)
  qed
qed

lemma parse_uint_show_nat: "n < 2 ^ bits \<Longrightarrow> parse_uint bits (show_nat n) = Some n"
  by (simp add: parse_uint_def show_nat_digits)

lemma parse_uint_SomeD: "parse_uint bits s = Some n \<Longrightarrow> n < 2 ^ bits"
  by (auto simp: parse_uint_def split: if_splits)

lemma cut_append: "c \<notin> set b \<Longrightarrow> str_cut c (b @ c # a) = (b, a, True)"
  by (induction b) auto

lemma cut_none: "c \<notin> set s \<Longrightarrow> str_cut c s = (s, [], False)"
  by (induction s) auto

lemma cut_found: "str_cut c s = (b, a, True) \<Longrightarrow> s = b @ c # a \<and> c \<notin> set b"
  by (induction s arbitrary: b) (auto split: if_splits prod.splits)

lemma cut_not_found: "str_cut c s = (b, a, False) \<Longrightarrow> b = s \<and> a = [] \<and> c \<notin> set s"
  by (induction s arbitrary: b) (auto split: if_splits prod.splits)

lemma cut_length: "str_cut c s = (b, a, f) \<Longrightarrow> length a \<le> length s \<and> (s \<noteq> [] \<longrightarrow> length a < length s)"
  by (induction s arbitrary: b) (auto split: if_splits prod.splits)

lemma lower_hex_digits: "lower_hex_n n s \<Longrightarrow> c \<in> set s \<Longrightarrow> is_lower_hex c"
  by (auto simp: lower_hex_n_def list_all_iff)

lemma lower_hex_no_slash: "lower_hex_n n s \<Longrightarrow> CHR ''/'' \<notin> set s"
  by (auto dest: lower_hex_digits simp: is_lower_hex_def is_digit_def less_eq_char_def)

lemma split_on_single: "c \<notin> set s \<Longrightarrow> split_on c s = [s]"
  by (induction s) auto

lemma digit_not_punct: "is_digit c \<Longrightarrow> c \<noteq> CHR '','' \<and> c \<noteq> CHR ''-'' \<and> c \<noteq> CHR ''+'' \<and> c \<noteq> CHR ''.'' \<and> c \<noteq> CHR '':'' \<and> c \<noteq> CHR ''/''"
  by (auto simp: is_digit_def less_eq_char_def)

lemma atoi_show_nat:
  assumes "n < 2 ^ 63"
  shows "atoi (show_nat n) = Some (int n)"
proof -
  obtain c t where ct: "show_nat n = c # t" using show_nat_nonempty [of n] by (cases "show_nat n") auto
  have all: "list_all is_digit (c # t)" using show_nat_digits [of n] ct by simp
  have val: "dec_val (c # t) = n" using dec_val_show_nat [of n] ct by simp
  have "c \<noteq> CHR ''-''" "c \<noteq> CHR ''+''" using all digit_not_punct [of c] by auto
  then have "atoi (c # t) = (if list_all is_digit (c # t) \<and> dec_val (c # t) < 2 ^ 63
      then Some (int (dec_val (c # t))) else None)"
    by (simp only: atoi_def list.case Let_def if_False) simp
  with all val assms ct show ?thesis by simp
qed

end
