(* ===== verification/GoNetip.thy ===== *)
theory GoNetip
  imports GoStrings
begin

text \<open>
  What the program uses of Go's \<open>net/netip\<close> and \<open>net.SplitHostPort\<close>/\<open>JoinHostPort\<close>:
  addresses are 32-bit and 128-bit words, an IPv6 address carries its zone, and the parsers
  follow the library's scanners.  The library's distinct parse errors are one \<open>None\<close>: no
  caller of the program tells them apart.
\<close>

section \<open>Addresses\<close>

datatype addr = AddrInvalid | Addr4 "32 word" | Addr6 "128 word" string

definition octet :: "string \<Rightarrow> nat option" where
  "octet s =
     (if s \<noteq> [] \<and> list_all is_digit s \<and> (length s = 1 \<or> hd s \<noteq> CHR ''0'') \<and> dec_val s \<le> 255
      then Some (dec_val s) else None)"

text \<open>\<open>parseIPv4Fields\<close>: four decimal octets without leading zeros.\<close>

definition parse4 :: "string \<Rightarrow> nat option" where
  "parse4 s = (case split_on CHR ''.'' s of
       [a, b, c, d] \<Rightarrow>
         (case (octet a, octet b, octet c, octet d) of
            (Some a, Some b, Some c, Some d) \<Rightarrow> Some (((a * 256 + b) * 256 + c) * 256 + d)
          | _ \<Rightarrow> None)
     | _ \<Rightarrow> None)"

definition hex_digit_val :: "char \<Rightarrow> nat" where
  "hex_digit_val c =
     (if is_digit c then of_char c - 48
      else if CHR ''a'' \<le> c \<and> c \<le> CHR ''f'' then of_char c - 87 else of_char c - 55)"

definition hex_val :: "string \<Rightarrow> nat" where
  "hex_val s = foldl (\<lambda>v c. 16 * v + hex_digit_val c) 0 s"

text \<open>
  The loop of \<open>parseIPv6\<close>: \<open>n\<close> 16-bit slots are left, \<open>acc\<close> holds the groups read,
  \<open>ell\<close> the position of \<open>::\<close>.
\<close>

fun groups6 :: "nat \<Rightarrow> nat list \<Rightarrow> nat option \<Rightarrow> string \<Rightarrow> (nat list \<times> nat option \<times> string) option" where
  "groups6 0 acc ell s = Some (acc, ell, s)"
| "groups6 (Suc n) acc ell s =
     (let d = takeWhile is_hex s; r = dropWhile is_hex s in
      if d = [] \<or> 4 < length d then None
      else (case r of
          [] \<Rightarrow> Some (acc @ [hex_val d], ell, [])
        | c # r1 \<Rightarrow>
            if c = CHR ''.'' then
              (if ell = None \<and> length acc \<noteq> 6 then None
               else if 6 < length acc then None
               else map_option (\<lambda>v. (acc @ [v div 65536, v mod 65536], ell, [])) (parse4 s))
            else if c \<noteq> CHR '':'' \<or> r1 = [] then None
            else if hd r1 = CHR '':'' then
              (if ell \<noteq> None then None
               else if tl r1 = [] then Some (acc @ [hex_val d], Some (Suc (length acc)), [])
               else groups6 n (acc @ [hex_val d]) (Some (Suc (length acc))) (tl r1))
            else groups6 n (acc @ [hex_val d]) ell r1))"

definition word_of_groups :: "nat list \<Rightarrow> 128 word" where
  "word_of_groups gs = word_of_nat (foldl (\<lambda>v g. 65536 * v + g) 0 gs)"

definition parse6 :: "string \<Rightarrow> addr option" where
  "parse6 inp = (case str_cut CHR ''%'' inp of (s, zone, found) \<Rightarrow>
     if found \<and> zone = [] then None
     else if s = ''::'' then Some (Addr6 0 zone)
     else (case (if prefix ''::'' s then groups6 8 [] (Some 0) (drop 2 s) else groups6 8 [] None s) of
         None \<Rightarrow> None
       | Some (acc, ell, rest) \<Rightarrow>
           if rest \<noteq> [] then None
           else if length acc < 8 then
             (case ell of None \<Rightarrow> None
              | Some e \<Rightarrow> Some (Addr6 (word_of_groups
                            (take e acc @ replicate (8 - length acc) 0 @ drop e acc)) zone))
           else if ell \<noteq> None then None
           else Some (Addr6 (word_of_groups acc) zone)))"

definition parse_addr :: "string \<Rightarrow> addr option" where
  "parse_addr s = (case find (\<lambda>c. c = CHR ''.'' \<or> c = CHR '':'' \<or> c = CHR ''%'') s of
       None \<Rightarrow> None
     | Some c \<Rightarrow>
         if c = CHR ''.'' then map_option (\<lambda>v. Addr4 (word_of_nat v)) (parse4 s)
         else if c = CHR '':'' then parse6 s else None)"

fun addr_zone :: "addr \<Rightarrow> string" where
  "addr_zone (Addr6 w z) = z"
| "addr_zone _ = []"

fun addr_valid :: "addr \<Rightarrow> bool" where
  "addr_valid AddrInvalid = False"
| "addr_valid _ = True"

fun is4 :: "addr \<Rightarrow> bool" where
  "is4 (Addr4 w) = True"
| "is4 _ = False"

fun is6 :: "addr \<Rightarrow> bool" where
  "is6 (Addr6 w z) = True"
| "is6 _ = False"

fun bit_len :: "addr \<Rightarrow> int" where
  "bit_len AddrInvalid = 0"
| "bit_len (Addr4 w) = 32"
| "bit_len (Addr6 w z) = 128"

fun is4in6 :: "addr \<Rightarrow> bool" where
  "is4in6 (Addr6 w z) = (drop_bit 32 w = 0xffff)"
| "is4in6 _ = False"

fun unmap :: "addr \<Rightarrow> addr" where
  "unmap (Addr6 w z) = (if is4in6 (Addr6 w z) then Addr4 (ucast w) else Addr6 w z)"
| "unmap a = a"

definition v6u16 :: "128 word \<Rightarrow> nat \<Rightarrow> nat" where
  "v6u16 w i = unat (take_bit 16 (drop_bit (112 - 16 * i) w))"

definition string4 :: "32 word \<Rightarrow> string" where
  "string4 w = (let n = unat w in
     join_with ''.'' [show_nat (n div 16777216), show_nat (n div 65536 mod 256),
       show_nat (n div 256 mod 256), show_nat (n mod 256)])"

fun show_hex :: "nat \<Rightarrow> string" where
  "show_hex n =
     (let d = (\<lambda>k. if k < 10 then char_of (48 + k) else char_of (87 + k)) in
      if n < 16 then [d n] else show_hex (n div 16) @ [d (n mod 16)])"

declare show_hex.simps [simp del]

text \<open>The longest run of two or more zero groups, the first on a tie.\<close>

fun best_run :: "nat \<Rightarrow> nat list \<Rightarrow> nat \<times> nat \<Rightarrow> nat \<times> nat" where
  "best_run i [] b = b"
| "best_run i (g # gs) (s, l) =
     (let r = length (takeWhile (\<lambda>x. x = 0) (g # gs)) in
      best_run (Suc i) gs (if 2 \<le> r \<and> l < r then (i, r) else (s, l)))"

definition string6 :: "128 word \<Rightarrow> string" where
  "string6 w = (let gs = map (v6u16 w) [0..<8] in
     case best_run 0 gs (0, 0) of (s, l) \<Rightarrow>
       if l = 0 then join_with '':'' (map show_hex gs)
       else join_with '':'' (map show_hex (take s gs)) @ ''::''
            @ join_with '':'' (map show_hex (drop (s + l) gs)))"

fun addr_string :: "addr \<Rightarrow> string" where
  "addr_string AddrInvalid = ''invalid IP''"
| "addr_string (Addr4 w) = string4 w"
| "addr_string (Addr6 w z) =
     (if is4in6 (Addr6 w z) then ''::ffff:'' @ string4 (ucast w) else string6 w)
     @ (if z = [] then [] else CHR ''%'' # z)"

section \<open>Prefixes\<close>

record netprefix =
  paddr :: addr
  pbits :: int

fun without_zone :: "addr \<Rightarrow> addr" where
  "without_zone (Addr6 w z) = Addr6 w []"
| "without_zone a = a"

text \<open>\<open>PrefixFrom\<close> drops the zone; a length out of range makes the prefix invalid (\<open>-1\<close>).\<close>

definition prefix_from :: "addr \<Rightarrow> int \<Rightarrow> netprefix" where
  "prefix_from a b =
     \<lparr>paddr = without_zone a,
      pbits = (if a \<noteq> AddrInvalid \<and> 0 \<le> b \<and> b \<le> bit_len a then b else -1)\<rparr>"

definition parse_prefix :: "string \<Rightarrow> netprefix option" where
  "parse_prefix s = (case str_cut CHR ''/'' (rev s) of (b, a, found) \<Rightarrow>
     if \<not> found then None
     else (case parse_addr (rev a) of
         None \<Rightarrow> None
       | Some ip \<Rightarrow>
           if is6 ip \<and> addr_zone ip \<noteq> [] then None
           else (let bits = rev b in
             if 1 < length bits \<and> (hd bits < CHR ''1'' \<or> CHR ''9'' < hd bits) then None
             else (case atoi bits of
                 None \<Rightarrow> None
               | Some n \<Rightarrow> if n < 0 \<or> (if is6 ip then 128 else 32) < n then None
                           else Some (prefix_from ip n)))))"

text \<open>The leading \<open>n\<close> bits of a word kept, the rest zeroed.\<close>

definition keep_high :: "nat \<Rightarrow> ('a::len) word \<Rightarrow> 'a word" where
  "keep_high n w = push_bit (LENGTH('a) - n) (drop_bit (LENGTH('a) - n) w)"

fun mask_addr :: "int \<Rightarrow> addr \<Rightarrow> addr" where
  "mask_addr b AddrInvalid = AddrInvalid"
| "mask_addr b (Addr4 w) = Addr4 (keep_high (nat b) w)"
| "mask_addr b (Addr6 w z) = Addr6 (keep_high (nat b) w) []"

definition masked :: "netprefix \<Rightarrow> netprefix" where
  "masked p = (if pbits p < 0 then \<lparr>paddr = AddrInvalid, pbits = -1\<rparr>
               else p\<lparr>paddr := mask_addr (pbits p) (paddr p)\<rparr>)"

fun high_bits_agree :: "int \<Rightarrow> addr \<Rightarrow> addr \<Rightarrow> bool" where
  "high_bits_agree b (Addr4 v) (Addr4 w) = (drop_bit (32 - nat b) v = drop_bit (32 - nat b) w)"
| "high_bits_agree b (Addr6 v y) (Addr6 w z) = (drop_bit (128 - nat b) v = drop_bit (128 - nat b) w)"
| "high_bits_agree b _ _ = False"

definition prefix_contains :: "netprefix \<Rightarrow> addr \<Rightarrow> bool" where
  "prefix_contains p ip \<longleftrightarrow> 0 \<le> pbits p \<and> addr_zone ip = [] \<and> high_bits_agree (pbits p) (paddr p) ip"

definition prefix_overlaps :: "netprefix \<Rightarrow> netprefix \<Rightarrow> bool" where
  "prefix_overlaps p q \<longleftrightarrow> 0 \<le> pbits p \<and> 0 \<le> pbits q \<and>
     (p = q \<or>
      (is4 (paddr p) = is4 (paddr q) \<and>
       (min (pbits p) (pbits q) = 0 \<or> high_bits_agree (min (pbits p) (pbits q)) (paddr p) (paddr q))))"

section \<open>Address classes\<close>

text \<open>\<open>in4 a b c d n\<close>: the IPv4 block \<open>a.b.c.d/n\<close>; \<open>in6 g n\<close>: a block given by its first group.\<close>

definition in4 :: "32 word \<Rightarrow> nat \<Rightarrow> 32 word \<Rightarrow> bool" where
  "in4 base n w \<longleftrightarrow> drop_bit (32 - n) w = drop_bit (32 - n) base"

fun go_is_private :: "addr \<Rightarrow> bool" where
  "go_is_private (Addr4 w) = (in4 0x0A000000 8 w \<or> in4 0xAC100000 12 w \<or> in4 0xC0A80000 16 w)"
| "go_is_private (Addr6 w z) = (drop_bit 121 w = 0x7E)"
| "go_is_private AddrInvalid = False"

fun is_loopback :: "addr \<Rightarrow> bool" where
  "is_loopback (Addr4 w) = in4 0x7F000000 8 w"
| "is_loopback (Addr6 w z) = (w = 1)"
| "is_loopback AddrInvalid = False"

fun is_link_local_unicast :: "addr \<Rightarrow> bool" where
  "is_link_local_unicast (Addr4 w) = in4 0xA9FE0000 16 w"
| "is_link_local_unicast (Addr6 w z) = (drop_bit 118 w = 0x3FA)"
| "is_link_local_unicast AddrInvalid = False"

fun is_link_local_multicast :: "addr \<Rightarrow> bool" where
  "is_link_local_multicast (Addr4 w) = in4 0xE0000000 24 w"
| "is_link_local_multicast (Addr6 w z) =
     (drop_bit 8 (drop_bit 112 w) = 0xFF \<and> take_bit 4 (drop_bit 112 w) = 2)"
| "is_link_local_multicast AddrInvalid = False"

fun is_unspecified :: "addr \<Rightarrow> bool" where
  "is_unspecified (Addr4 w) = (w = 0)"
| "is_unspecified (Addr6 w z) = (w = 0 \<and> z = [])"
| "is_unspecified AddrInvalid = False"

section \<open>Authorities\<close>

text \<open>
  \<open>net.SplitHostPort\<close>: the last colon separates the port; brackets quote a host with colons.
\<close>

definition split_host_port :: "string \<Rightarrow> (string \<times> string) option" where
  "split_host_port hp = (case str_cut CHR '':'' (rev hp) of (rport, rhost, found) \<Rightarrow>
     if \<not> found then None
     else (let port = rev rport; before = rev rhost in
       if prefix ''['' hp then
         (case str_cut CHR '']'' hp of (inner, after, closed) \<Rightarrow>
            if \<not> closed then None
            else if after \<noteq> CHR '':'' # port then None
            else if CHR ''['' \<in> set (tl hp) \<or> CHR '']'' \<in> set after then None
            else Some (tl inner, port))
       else if CHR '':'' \<in> set before then None
       else if CHR ''['' \<in> set hp \<or> CHR '']'' \<in> set hp then None
       else Some (before, port)))"

definition join_host_port :: "string \<Rightarrow> string \<Rightarrow> string" where
  "join_host_port host port =
     (if CHR '':'' \<in> set host then ''['' @ host @ '']:'' @ port else host @ '':'' @ port)"

section \<open>Lemmas\<close>

text \<open>An IPv4 block is an interval of the address read as a number.\<close>

lemma in4_iff: "in4 base n w \<longleftrightarrow> unat w div 2 ^ (32 - n) = unat base div 2 ^ (32 - n)"
  by (simp add: in4_def word_unat_eq_iff unat_drop_bit_eq drop_bit_eq_div [where ?'a = nat])

lemma high_bits_agree4_iff:
  "high_bits_agree b (Addr4 v) (Addr4 w) \<longleftrightarrow> unat v div 2 ^ (32 - nat b) = unat w div 2 ^ (32 - nat b)"
  by (simp add: word_unat_eq_iff unat_drop_bit_eq drop_bit_eq_div [where ?'a = nat])

lemma block_interval:
  assumes "unat w div k \<noteq> q" and "0 < k"
  shows "unat w \<notin> {q * k..q * k + (k - 1)}"
proof
  assume "unat w \<in> {q * k..q * k + (k - 1)}"
  then have "q * k \<le> unat w" "unat w < q * k + k" using assms(2) by (simp_all, linarith)
  then have "unat w div k = q" by (intro div_nat_eqI) (simp_all add: mult.commute)
  with assms(1) show False ..
qed

lemma in4_interval:
  assumes "\<not> in4 base n w" and "unat base div 2 ^ (32 - n) = q"
  shows "unat w \<notin> {q * 2 ^ (32 - n)..q * 2 ^ (32 - n) + (2 ^ (32 - n) - 1)}"
  using assms by (intro block_interval) (simp_all add: in4_iff)

text \<open>The characters of printed addresses.\<close>

definition host_char :: "char \<Rightarrow> bool" where
  "host_char c \<longleftrightarrow> is_digit c \<or> (CHR ''a'' \<le> c \<and> c \<le> CHR ''z'') \<or> c = CHR ''-'' \<or> c = CHR ''.'' \<or> c = CHR '':''"

lemma digit_host_char: "is_digit c \<Longrightarrow> host_char c"
  by (simp add: host_char_def)

lemma show_nat_host_chars: "c \<in> set (show_nat n) \<Longrightarrow> host_char c"
  using show_nat_digits [of n] by (auto simp: list_all_iff digit_host_char)

lemma show_hex_host_chars: "c \<in> set (show_hex n) \<Longrightarrow> host_char c"
proof (induction n rule: show_hex.induct)
  case (1 n)
  have d: "host_char (if k < 10 then char_of (48 + k) else char_of (87 + k))" if "k < 16" for k :: nat
    using that by (auto simp: host_char_def is_digit_def less_eq_char_def)
  show ?case
  proof (cases "n < 16")
    case True
    with 1(2) d [of n] show ?thesis by (subst (asm) show_hex.simps) (auto simp: Let_def)
  next
    case False
    with 1(2) have "c \<in> set (show_hex (n div 16)) \<or>
        c = (if n mod 16 < 10 then char_of (48 + n mod 16) else char_of (87 + n mod 16))"
      by (subst (asm) show_hex.simps) (auto simp: Let_def)
    with 1(1) False d [of "n mod 16"] show ?thesis by auto
  qed
qed

lemma join_with_chars:
  "c \<in> set (join_with sep ws) \<Longrightarrow> c \<in> set sep \<or> (\<exists>w \<in> set ws. c \<in> set w)"
  by (induction sep ws rule: join_with.induct) auto

lemma addr_string_chars:
  assumes "c \<in> set (addr_string a)" and "addr_zone a = []" and "addr_valid a"
  shows "host_char c"
proof -
  have 4: "c \<in> set (string4 w) \<Longrightarrow> host_char c" for w
    by (auto simp: string4_def Let_def host_char_def [of "CHR ''.''"] dest!: join_with_chars
        intro: show_nat_host_chars)
  have 6: "c \<in> set (string6 w) \<Longrightarrow> host_char c" for w
    by (auto simp: string6_def Let_def host_char_def [of "CHR '':''"] dest!: join_with_chars in_set_takeD in_set_dropD
        intro: show_hex_host_chars split: if_splits prod.splits)
  have f: "host_char (CHR ''f'')" "host_char (CHR '':'')"
    by (simp_all add: host_char_def less_eq_char_def)
  show ?thesis using assms 4 6 f by (cases a) (auto split: if_splits)
qed

lemma parse6_valid: "parse6 h = Some ip \<Longrightarrow> addr_valid ip"
  unfolding parse6_def by (force split: option.splits if_splits prod.splits)

lemma parse_addr_valid: "parse_addr h = Some ip \<Longrightarrow> addr_valid ip"
  by (auto simp: parse_addr_def split: option.splits if_splits dest: parse6_valid)

lemma unmap_valid [simp]: "addr_valid (unmap a) \<longleftrightarrow> addr_valid a"
  by (cases a) auto

lemma unmap_zone: "addr_zone ip = [] \<Longrightarrow> addr_zone (unmap ip) = []"
  by (cases ip) auto

lemma unmap_idem [simp]: "unmap (unmap a) = unmap a"
  by (cases a) auto

end
