(* ===== verification/NetworkPolicy.thy ===== *)
theory NetworkPolicy
  imports GoNetip
begin

text \<open>
  \<open>internal/networkpolicy\<close>: compilation of destination rules, the two checks of a compiled
  policy, their composition, the dialer that connects only to checked addresses, and the
  connection-free preflight.  A context is the value of its \<open>Err()\<close>.
\<close>

section \<open>Destinations, rules and errors\<close>

record destination =
  dhost :: string
  dport :: "16 word"

datatype net_error =
    CtxErr string
  | DeniedAuthority
  | Denial string destination
  | InvalidAuthority | InvalidHost | InvalidPort
  | BadDomain string net_error | BadCIDR string | AmbiguousMapped string | BadPort int
  | PolicyRequired | NoAddress string | ResolveFailed net_error | OtherError string

type_synonym ctx = "string option"

definition ctx_err :: "ctx \<Rightarrow> net_error option" where
  "ctx_err c = map_option CtxErr c"

text \<open>\<open>errors.Is(err, ErrDenied)\<close>\<close>

fun is_denied :: "net_error \<Rightarrow> bool" where
  "is_denied DeniedAuthority = True"
| "is_denied (Denial c d) = True"
| "is_denied (BadDomain v e) = is_denied e"
| "is_denied (ResolveFailed e) = is_denied e"
| "is_denied _ = False"

record rules =
  allow_domains :: "string list"
  deny_domains :: "string list"
  allow_cidrs :: "string list"
  deny_cidrs :: "string list"
  allow_ports :: "int list"
  deny_ports :: "int list"
  block_private :: bool
  default_deny :: bool

definition no_rules :: rules where
  "no_rules = \<lparr>allow_domains = [], deny_domains = [], allow_cidrs = [], deny_cidrs = [],
     allow_ports = [], deny_ports = [], block_private = False, default_deny = False\<rparr>"

section \<open>Host names\<close>

definition label_ok :: "string \<Rightarrow> bool" where
  "label_ok l \<longleftrightarrow> l \<noteq> [] \<and> length l \<le> 63 \<and> hd l \<noteq> CHR ''-'' \<and> last l \<noteq> CHR ''-'' \<and>
     list_all (\<lambda>c. (CHR ''a'' \<le> c \<and> c \<le> CHR ''z'') \<or> is_digit c \<or> c = CHR ''-'') l"

function labels_ok :: "string \<Rightarrow> bool" where
  "labels_ok s = (if s = [] then True
     else (case str_cut CHR ''.'' s of (l, rest, _) \<Rightarrow> label_ok l \<and> labels_ok rest))"
  by pat_completeness auto
termination
  by (relation "measure length") (auto dest!: cut_length [OF sym])

declare labels_ok.simps [simp del]

definition host_literal :: "string \<Rightarrow> string option" where
  "host_literal h =
     (if CHR '':'' \<in> set h \<or> (h \<noteq> [] \<and> is_digit (hd h)) then
        (case parse_addr h of
           Some ip \<Rightarrow> if addr_zone ip = [] then Some (addr_string (unmap ip)) else None
         | None \<Rightarrow> None)
      else None)"

definition normalize_host :: "string \<Rightarrow> (net_error, string) result" where
  "normalize_host h = (case host_literal h of
       Some s \<Rightarrow> Inr s
     | None \<Rightarrow>
         (let t = to_lower (trim_suffix h ''.'') in
          failE (t = [] \<or> 253 < length t \<or> suffix ''.'' t) InvalidHost
          (failE (\<not> labels_ok t) InvalidHost (Inr t))))"

definition parse_domain :: "string \<Rightarrow> (net_error, string \<times> bool) result" where
  "parse_domain value = (case cut_prefix (trim_space value) ''='' of (h, exact) \<Rightarrow>
     bindE (normalize_host (if exact then h else trim_prefix h ''.'')) (\<lambda>n. Inr (n, exact)))"

definition parse_destination :: "string \<Rightarrow> string \<Rightarrow> (net_error, destination) result" where
  "parse_destination authority default_port =
     bindE (case split_host_port authority of
              Some hp \<Rightarrow> Inr hp
            | None \<Rightarrow>
                if default_port = [] then Inl InvalidAuthority
                else if prefix ''['' authority \<and> suffix '']'' authority
                  then Inr (take (length authority - 2) (drop 1 authority), default_port)
                else if contains_any authority '':[]'' then Inl InvalidAuthority
                else Inr (authority, default_port))
       (\<lambda>(host, port). bindE (normalize_host host) (\<lambda>h.
          case parse_uint 16 port of
            None \<Rightarrow> Inl InvalidPort
          | Some n \<Rightarrow> if n = 0 then Inl InvalidPort
                      else Inr \<lparr>dhost = h, dport = word_of_nat n\<rparr>))"

definition destination_string :: "destination \<Rightarrow> string" where
  "destination_string d = join_host_port (dhost d) (show_nat (unat (dport d)))"

section \<open>The domain index\<close>

record domain_index =
  ix_exact :: "string set"
  ix_suffix :: "string set"

definition is_ip_literal :: "string \<Rightarrow> bool" where
  "is_ip_literal s \<longleftrightarrow> parse_addr s \<noteq> None"

definition index_add :: "domain_index \<Rightarrow> string \<Rightarrow> domain_index" where
  "index_add ix domain = (case cut_prefix domain ''='' of (n, exact) \<Rightarrow>
     \<lparr>ix_exact = insert n (ix_exact ix),
      ix_suffix = (if \<not> is_ip_literal n \<and> \<not> exact then insert n (ix_suffix ix) else ix_suffix ix)\<rparr>)"

definition index_domains :: "string list \<Rightarrow> domain_index" where
  "index_domains ds = foldl index_add \<lparr>ix_exact = {}, ix_suffix = {}\<rparr> ds"

text \<open>The loop of \<open>matches\<close>: strip one label at a time.\<close>

function suffix_loop :: "string set \<Rightarrow> string \<Rightarrow> bool" where
  "suffix_loop ss host = (case str_cut CHR ''.'' host of (_, rest, found) \<Rightarrow>
     if \<not> found then False else rest \<in> ss \<or> suffix_loop ss rest)"
  by pat_completeness auto
termination
  by (relation "measure (\<lambda>(ss, h). length h)") (auto dest!: cut_found [OF sym])

declare suffix_loop.simps [simp del]

definition index_matches :: "domain_index \<Rightarrow> string \<Rightarrow> bool" where
  "index_matches ix host \<longleftrightarrow> host \<in> ix_exact ix \<or> suffix_loop (ix_suffix ix) host"

section \<open>Compilation\<close>

record compiled =
  c_allow_domains :: "string list"
  c_deny_domains :: "string list"
  c_allow_index :: domain_index
  c_deny_index :: domain_index
  c_allow_cidrs :: "netprefix list"
  c_deny_cidrs :: "netprefix list"
  c_allow_ports :: "16 word set"
  c_deny_ports :: "16 word set"
  c_block_private :: bool
  c_default_deny :: bool

definition compile_domain :: "string \<Rightarrow> (net_error, string) result" where
  "compile_domain value = (case parse_domain value of
       Inl e \<Rightarrow> Inl (BadDomain value e)
     | Inr (host, exact) \<Rightarrow> Inr (if exact then CHR ''='' # host else host))"

definition compile_cidr :: "string \<Rightarrow> (net_error, netprefix) result" where
  "compile_cidr value =
     bindE (case parse_prefix value of
              Some p \<Rightarrow> Inr p
            | None \<Rightarrow> (case parse_addr value of
                Some ip \<Rightarrow> if addr_zone ip \<noteq> [] then Inl (BadCIDR value)
                            else Inr (prefix_from ip (bit_len ip))
              | None \<Rightarrow> Inl (BadCIDR value)))
       (\<lambda>p. if is4in6 (paddr p)
             then (if pbits p < 96 then Inl (AmbiguousMapped value)
                   else Inr (masked (prefix_from (unmap (paddr p)) (pbits p - 96))))
             else Inr (masked p))"

definition compile_port :: "int \<Rightarrow> (net_error, 16 word) result" where
  "compile_port n = failE (n < 1 \<or> 65535 < n) (BadPort n) (Inr (word_of_int n))"

definition compile_rules :: "rules \<Rightarrow> (net_error, compiled) result" where
  "compile_rules r =
     bindE (mapE compile_domain (allow_domains r)) (\<lambda>ad.
     bindE (mapE compile_domain (deny_domains r)) (\<lambda>dd.
     bindE (mapE compile_cidr (allow_cidrs r)) (\<lambda>ac.
     bindE (mapE compile_cidr (deny_cidrs r)) (\<lambda>dc.
     bindE (mapE compile_port (allow_ports r)) (\<lambda>ap.
     bindE (mapE compile_port (deny_ports r)) (\<lambda>dp.
       Inr \<lparr>c_allow_domains = ad, c_deny_domains = dd,
            c_allow_index = index_domains ad, c_deny_index = index_domains dd,
            c_allow_cidrs = ac, c_deny_cidrs = dc,
            c_allow_ports = set ap, c_deny_ports = set dp,
            c_block_private = block_private r, c_default_deny = default_deny r\<rparr>))))))"

section \<open>The checks of a compiled policy\<close>

definition matches_cidr :: "addr \<Rightarrow> netprefix list \<Rightarrow> bool" where
  "matches_cidr ip ps = list_ex (\<lambda>p. prefix_contains p ip) ps"

definition carrier_grade_nat :: netprefix where
  "carrier_grade_nat = \<lparr>paddr = Addr4 0x64400000, pbits = 10\<rparr>"

definition is_private :: "addr \<Rightarrow> bool" where
  "is_private a = (let ip = unmap a in
     \<not> addr_valid ip \<or> go_is_private ip \<or> is_loopback ip \<or> is_link_local_unicast ip \<or>
     is_link_local_multicast ip \<or> is_unspecified ip \<or> prefix_contains carrier_grade_nat ip)"

definition grants_nothing :: "compiled \<Rightarrow> bool" where
  "grants_nothing p \<longleftrightarrow> c_default_deny p \<and> c_allow_domains p = [] \<and> c_allow_cidrs p = []"

definition check_destination :: "compiled \<Rightarrow> ctx \<Rightarrow> destination \<Rightarrow> net_error option" where
  "check_destination p ctx d =
     (case ctx_err ctx of Some e \<Rightarrow> Some e | None \<Rightarrow>
      (case normalize_host (dhost d) of
         Inl e \<Rightarrow> Some DeniedAuthority
       | Inr host \<Rightarrow>
           if dport d = 0 then Some DeniedAuthority
           else if index_matches (c_deny_index p) host then Some (Denial ''domain_denied'' d)
           else if dport d \<in> c_deny_ports p then Some (Denial ''port_denied'' d)
           else if grants_nothing p then Some (Denial ''default_denied'' d)
           else if c_allow_domains p \<noteq> [] \<and> \<not> index_matches (c_allow_index p) host
             then Some (Denial ''domain_not_allowed'' d)
           else if c_allow_ports p \<noteq> {} \<and> dport d \<notin> c_allow_ports p
             then Some (Denial ''port_not_allowed'' d)
           else None))"

definition check_address :: "compiled \<Rightarrow> ctx \<Rightarrow> destination \<Rightarrow> addr \<Rightarrow> net_error option" where
  "check_address p ctx d a =
     (case ctx_err ctx of Some e \<Rightarrow> Some e | None \<Rightarrow>
      (let ip = unmap a in
       if grants_nothing p then Some (Denial ''default_denied'' d)
       else if \<not> addr_valid ip \<or> addr_zone ip \<noteq> [] then Some (Denial ''invalid_address'' d)
       else if c_block_private p \<and> is_private ip then Some (Denial ''private_address'' d)
       else if matches_cidr ip (c_deny_cidrs p) then Some (Denial ''address_denied'' d)
       else if c_allow_cidrs p \<noteq> [] \<and> \<not> matches_cidr ip (c_allow_cidrs p)
         then Some (Denial ''address_not_allowed'' d)
       else None))"

section \<open>Policies and their composition\<close>

record policy =
  pol_destination :: "ctx \<Rightarrow> destination \<Rightarrow> net_error option"
  pol_address :: "ctx \<Rightarrow> destination \<Rightarrow> addr \<Rightarrow> net_error option"

definition compiled_policy :: "compiled \<Rightarrow> policy" where
  "compiled_policy p = \<lparr>pol_destination = check_destination p, pol_address = check_address p\<rparr>"

text \<open>\<open>All\<close>: a nil member is skipped, the first error wins.\<close>

definition combined :: "policy option list \<Rightarrow> policy" where
  "combined ps =
     \<lparr>pol_destination = (\<lambda>c d. first_err
        (\<lambda>q. case q of None \<Rightarrow> None | Some p \<Rightarrow> pol_destination p c d) ps),
      pol_address = (\<lambda>c d a. first_err
        (\<lambda>q. case q of None \<Rightarrow> None | Some p \<Rightarrow> pol_address p c d a) ps)\<rparr>"

text \<open>\<open>errors.As\<close> for a \<open>*Denial\<close> walks the chain of wrapped errors.\<close>

fun denial_code :: "net_error \<Rightarrow> string option" where
  "denial_code (Denial c d) = Some c"
| "denial_code (BadDomain v e) = denial_code e"
| "denial_code (ResolveFailed e) = denial_code e"
| "denial_code _ = None"

definition reason :: "net_error \<Rightarrow> string" where
  "reason e = (case denial_code e of Some c \<Rightarrow> c
                | None \<Rightarrow> if is_denied e then ''policy_denied'' else ''connection_failed'')"

section \<open>The dialer\<close>

text \<open>
  The resolver and the connector are the caller's.  Every lookup and every connection attempt
  is recorded, in order, so that claims about what was dialled can be stated.
\<close>

datatype dial_event = Lookup string | Dial string

type_synonym resolver = "ctx \<Rightarrow> string \<Rightarrow> (net_error, addr list) result"
type_synonym 'conn connector = "ctx \<Rightarrow> string \<Rightarrow> string \<Rightarrow> (net_error, 'conn) result"

definition dial_target :: "destination \<Rightarrow> addr \<Rightarrow> string" where
  "dial_target d ip = join_host_port (addr_string (unmap ip)) (show_nat (unat (dport d)))"

fun dial_loop ::
  "'conn connector \<Rightarrow> ctx \<Rightarrow> string \<Rightarrow> destination \<Rightarrow> net_error \<Rightarrow> addr list \<Rightarrow>
   (net_error, 'conn) result \<times> dial_event list" where
  "dial_loop connect ctx network dst last_err [] = (Inl last_err, [])"
| "dial_loop connect ctx network dst last_err (ip # ips) =
     (case connect ctx network (dial_target dst ip) of
        Inr conn \<Rightarrow> (Inr conn, [Dial (dial_target dst ip)])
      | Inl e \<Rightarrow> (case dial_loop connect ctx network dst e ips of
                    (r, tr) \<Rightarrow> (r, Dial (dial_target dst ip) # tr)))"

definition dial_context ::
  "policy option \<Rightarrow> resolver \<Rightarrow> 'conn connector \<Rightarrow> ctx \<Rightarrow> string \<Rightarrow> string \<Rightarrow>
   (net_error, 'conn) result \<times> dial_event list" where
  "dial_context pol resolve connect ctx network authority =
     (case parse_destination authority [] of
        Inl e \<Rightarrow> (Inl e, [])
      | Inr dst \<Rightarrow>
        (case pol of None \<Rightarrow> (Inl PolicyRequired, []) | Some p \<Rightarrow>
        (case pol_destination p ctx dst of Some e \<Rightarrow> (Inl e, []) | None \<Rightarrow>
        (case (case parse_addr (dhost dst) of
                 Some ip \<Rightarrow> (Inr [ip], [])
               | None \<Rightarrow> (resolve ctx (dhost dst), [Lookup (dhost dst)])) of
           (Inl e, tr) \<Rightarrow> (Inl e, tr)
         | (Inr addresses, tr) \<Rightarrow>
             if addresses = [] then (Inl (NoAddress (dhost dst)), tr)
             else (case first_err (pol_address p ctx dst) addresses of
                     Some e \<Rightarrow> (Inl e, tr)
                   | None \<Rightarrow> (case dial_loop connect ctx network dst (OtherError []) addresses of
                       (r, tr') \<Rightarrow> (r, tr @ tr')))))))"

section \<open>The preflight\<close>

datatype stage = StageDestination | StageAddress

record decision =
  dec_destination :: destination
  dec_allowed :: bool
  dec_code :: string
  dec_stage :: stage
  dec_checked :: nat
  dec_complete :: bool

text \<open>The address loop of \<open>Explain\<close>; the result carries a decision beside an error.\<close>

fun explain_loop :: "policy \<Rightarrow> ctx \<Rightarrow> destination \<Rightarrow> decision \<Rightarrow> addr list \<Rightarrow> decision \<times> net_error option" where
  "explain_loop p ctx d res [] =
     (res\<lparr>dec_allowed := True, dec_complete := True, dec_code := ''allowed''\<rparr>, None)"
| "explain_loop p ctx d res (ip # ips) =
     (let res1 = res\<lparr>dec_checked := Suc (dec_checked res)\<rparr> in
      case pol_address p ctx d ip of
        Some e \<Rightarrow> if \<not> is_denied e then (res1, Some e)
                  else (res1\<lparr>dec_code := reason e, dec_complete := True\<rparr>, None)
      | None \<Rightarrow> explain_loop p ctx d res1 ips)"

definition explain ::
  "ctx \<Rightarrow> rules \<Rightarrow> string \<Rightarrow> bool \<Rightarrow> resolver \<Rightarrow> decision option \<times> net_error option" where
  "explain ctx r authority resolve resolver =
     (case compile_rules r of Inl e \<Rightarrow> (None, Some e) | Inr c \<Rightarrow>
      (case parse_destination authority ''443'' of Inl e \<Rightarrow> (None, Some e) | Inr d \<Rightarrow>
       (let p = compiled_policy c;
            res = \<lparr>dec_destination = d, dec_allowed = False, dec_code = ''address_not_checked'',
                   dec_stage = StageDestination, dec_checked = 0, dec_complete = False\<rparr> in
        case pol_destination p ctx d of
          Some e \<Rightarrow> if \<not> is_denied e then (Some res, Some e)
                    else (Some (res\<lparr>dec_code := reason e, dec_complete := True\<rparr>), None)
        | None \<Rightarrow>
            if \<not> resolve then (Some (res\<lparr>dec_allowed := True\<rparr>), None)
            else (case (case parse_addr (dhost d) of Some ip \<Rightarrow> Inr [ip] | None \<Rightarrow> resolver ctx (dhost d)) of
                Inl e \<Rightarrow> (Some res, Some (ResolveFailed e))
              | Inr addresses \<Rightarrow>
                  (let res1 = res\<lparr>dec_stage := StageAddress\<rparr> in
                   if addresses = [] then (Some res1, Some (OtherError ''destination has no addresses''))
                   else (case explain_loop p ctx d res1 addresses of (res2, e) \<Rightarrow> (Some res2, e)))))))"

section \<open>Containment of domain rules\<close>

definition domain_within :: "string \<Rightarrow> string \<Rightarrow> (net_error, bool) result" where
  "domain_within child parent =
     bindE (parse_domain child) (\<lambda>(c, cx).
     bindE (parse_domain parent) (\<lambda>(p, px).
       (let parent_exact = (px \<or> is_ip_literal p); child_exact = (cx \<or> is_ip_literal c) in
        if parent_exact then Inr (child_exact \<and> c = p)
        else Inr (c = p \<or> suffix (CHR ''.'' # p) c))))"

section \<open>The index and the linear scan of the rules\<close>

text \<open>What a compiled domain rule means, without the index.\<close>

definition rule_matches :: "string \<Rightarrow> string \<Rightarrow> bool" where
  "rule_matches rule host = (case cut_prefix rule ''='' of (n, exact) \<Rightarrow>
     host = n \<or> (\<not> exact \<and> \<not> is_ip_literal n \<and> suffix (CHR ''.'' # n) host))"

lemma suffix_dot_step:
  assumes "CHR ''.'' \<notin> set b"
  shows "suffix (CHR ''.'' # s) (b @ CHR ''.'' # rest) \<longleftrightarrow> s = rest \<or> suffix (CHR ''.'' # s) rest"
proof
  assume "suffix (CHR ''.'' # s) (b @ CHR ''.'' # rest)"
  then obtain z where z: "b @ CHR ''.'' # rest = z @ CHR ''.'' # s" by (auto simp: suffix_def)
  then consider us where "b = z @ us" "us @ CHR ''.'' # rest = CHR ''.'' # s"
    | us where "z = b @ us" "CHR ''.'' # rest = us @ CHR ''.'' # s"
    by (auto simp: append_eq_append_conv2)
  then show "s = rest \<or> suffix (CHR ''.'' # s) rest"
  proof cases
    case 1
    with assms show ?thesis by (cases us) auto
  next
    case 2
    then show ?thesis by (cases us) (auto simp: suffix_def)
  qed
next
  assume "s = rest \<or> suffix (CHR ''.'' # s) rest"
  then show "suffix (CHR ''.'' # s) (b @ CHR ''.'' # rest)"
  proof
    assume "s = rest"
    then show ?thesis by (auto simp: suffix_def)
  next
    assume "suffix (CHR ''.'' # s) rest"
    then have "suffix (CHR ''.'' # s) ((b @ [CHR ''.'']) @ rest)" by (rule suffix_appendI)
    then show ?thesis by simp
  qed
qed

lemma suffix_dotD: "suffix (c # s) h \<Longrightarrow> c \<in> set h"
  by (auto simp: suffix_def)

lemma suffix_loop_iff: "suffix_loop ss host \<longleftrightarrow> (\<exists>s \<in> ss. suffix (CHR ''.'' # s) host)"
proof (induction ss host rule: suffix_loop.induct)
  case (1 ss host)
  obtain b rest f where c: "str_cut CHR ''.'' host = (b, rest, f)" by (metis prod_cases3)
  show ?case
  proof (cases f)
    case False
    with c have "CHR ''.'' \<notin> set host" by (auto dest: cut_not_found)
    with False c show ?thesis by (subst suffix_loop.simps) (auto dest: suffix_dotD)
  next
    case True
    with c have h: "host = b @ CHR ''.'' # rest" "CHR ''.'' \<notin> set b" by (auto dest: cut_found)
    have "suffix_loop ss host \<longleftrightarrow> rest \<in> ss \<or> suffix_loop ss rest"
      using True c by (subst suffix_loop.simps) simp
    also have "\<dots> \<longleftrightarrow> (\<exists>s \<in> ss. s = rest \<or> suffix (CHR ''.'' # s) rest)"
      using "1.IH" True c by fastforce
    also have "\<dots> \<longleftrightarrow> (\<exists>s \<in> ss. suffix (CHR ''.'' # s) host)"
      unfolding h(1) using h(2) by (simp add: suffix_dot_step)
    finally show ?thesis .
  qed
qed

lemma foldl_index_add:
  "ix_exact (foldl index_add ix ds) = ix_exact ix \<union> (fst \<circ> (\<lambda>d. cut_prefix d ''='')) ` set ds"
  "ix_suffix (foldl index_add ix ds) = ix_suffix ix \<union>
     {n. \<exists>d \<in> set ds. cut_prefix d ''='' = (n, False) \<and> \<not> is_ip_literal n}"
  by (induction ds arbitrary: ix) (auto simp: index_add_def split: prod.splits if_splits)

lemma rule_matches_alt:
  "rule_matches d host \<longleftrightarrow> fst (cut_prefix d ''='') = host \<or>
     (\<exists>n. cut_prefix d ''='' = (n, False) \<and> \<not> is_ip_literal n \<and> suffix (CHR ''.'' # n) host)"
  unfolding rule_matches_def by (cases "cut_prefix d ''=''") auto

lemma index_matches_iff: "index_matches (index_domains ds) host \<longleftrightarrow> (\<exists>d \<in> set ds. rule_matches d host)"
proof -
  have "index_matches (index_domains ds) host \<longleftrightarrow>
      (\<exists>d \<in> set ds. fst (cut_prefix d ''='') = host) \<or>
      (\<exists>n. (\<exists>d \<in> set ds. cut_prefix d ''='' = (n, False) \<and> \<not> is_ip_literal n) \<and>
           suffix (CHR ''.'' # n) host)"
    unfolding index_matches_def index_domains_def by (auto simp: foldl_index_add suffix_loop_iff)
  then show ?thesis unfolding rule_matches_alt by blast
qed

section \<open>What the rules permit\<close>

text \<open>
  The meaning of \<open>Rules\<close>, stated on the rules as configured: no index, no prefix table.
\<close>

definition domains_match :: "string list \<Rightarrow> string \<Rightarrow> bool" where
  "domains_match vs host =
     list_ex (\<lambda>v. case compile_domain v of Inl e \<Rightarrow> False | Inr c \<Rightarrow> rule_matches c host) vs"

definition cidrs_match :: "string list \<Rightarrow> addr \<Rightarrow> bool" where
  "cidrs_match vs ip =
     list_ex (\<lambda>v. case compile_cidr v of Inl e \<Rightarrow> False | Inr p \<Rightarrow> prefix_contains p ip) vs"

definition rules_grant_nothing :: "rules \<Rightarrow> bool" where
  "rules_grant_nothing r \<longleftrightarrow> default_deny r \<and> allow_domains r = [] \<and> allow_cidrs r = []"

definition permits_destination :: "rules \<Rightarrow> destination \<Rightarrow> bool" where
  "permits_destination r d = (case normalize_host (dhost d) of Inl e \<Rightarrow> False | Inr host \<Rightarrow>
     dport d \<noteq> 0 \<and> \<not> rules_grant_nothing r \<and>
     \<not> domains_match (deny_domains r) host \<and> uint (dport d) \<notin> set (deny_ports r) \<and>
     (allow_domains r = [] \<or> domains_match (allow_domains r) host) \<and>
     (allow_ports r = [] \<or> uint (dport d) \<in> set (allow_ports r)))"

definition permits_address :: "rules \<Rightarrow> addr \<Rightarrow> bool" where
  "permits_address r a = (let ip = unmap a in
     addr_valid ip \<and> addr_zone ip = [] \<and> \<not> rules_grant_nothing r \<and>
     \<not> (block_private r \<and> is_private ip) \<and> \<not> cidrs_match (deny_cidrs r) ip \<and>
     (allow_cidrs r = [] \<or> cidrs_match (allow_cidrs r) ip))"

lemma compile_rules_Inr:
  assumes "compile_rules r = Inr p"
  shows "mapE compile_domain (allow_domains r) = Inr (c_allow_domains p)"
    and "mapE compile_domain (deny_domains r) = Inr (c_deny_domains p)"
    and "mapE compile_cidr (allow_cidrs r) = Inr (c_allow_cidrs p)"
    and "mapE compile_cidr (deny_cidrs r) = Inr (c_deny_cidrs p)"
    and "\<exists>ps. mapE compile_port (allow_ports r) = Inr ps \<and> c_allow_ports p = set ps"
    and "\<exists>ps. mapE compile_port (deny_ports r) = Inr ps \<and> c_deny_ports p = set ps"
    and "c_allow_index p = index_domains (c_allow_domains p)"
    and "c_deny_index p = index_domains (c_deny_domains p)"
    and "c_block_private p = block_private r" and "c_default_deny p = default_deny r"
  using assms by (auto simp: compile_rules_def result_simps)

lemma mapE_list_ex:
  assumes "mapE f vs = Inr cs"
  shows "(\<exists>c \<in> set cs. P c) \<longleftrightarrow> list_ex (\<lambda>v. case f v of Inl e \<Rightarrow> False | Inr c \<Rightarrow> P c) vs"
  using assms by (induction vs arbitrary: cs) (auto simp: result_simps)

lemma compile_port_Inr: "compile_port n = Inr w \<longleftrightarrow> 1 \<le> n \<and> n \<le> 65535 \<and> w = word_of_int n"
  by (auto simp: compile_port_def result_simps)

lemma compile_port_uint: "compile_port n = Inr w \<Longrightarrow> uint w = n"
  by (auto simp: compile_port_Inr uint_word_of_int)

lemma compile_ports_mem:
  assumes "mapE compile_port ns = Inr ps"
  shows "w \<in> set ps \<longleftrightarrow> uint w \<in> set ns"
proof
  assume "w \<in> set ps"
  with assms obtain n where "n \<in> set ns" "compile_port n = Inr w" by (auto dest: mapE_Inr_from)
  then show "uint w \<in> set ns" by (simp add: compile_port_uint)
next
  assume "uint w \<in> set ns"
  with assms obtain v where "v \<in> set ps" "compile_port (uint w) = Inr v"
    by (auto dest: mapE_Inr_all)
  then show "w \<in> set ps" by (metis compile_port_uint word_uint_eqI)
qed

lemma mapE_Inr_empty: "mapE f vs = Inr cs \<Longrightarrow> cs = [] \<longleftrightarrow> vs = []"
  by auto

lemma compiled_domains_match:
  assumes "compile_rules r = Inr p"
  shows "index_matches (c_deny_index p) h \<longleftrightarrow> domains_match (deny_domains r) h"
    and "index_matches (c_allow_index p) h \<longleftrightarrow> domains_match (allow_domains r) h"
  using compile_rules_Inr [OF assms]
  by (simp_all add: index_matches_iff domains_match_def mapE_list_ex)

lemma compiled_cidrs_match:
  assumes "compile_rules r = Inr p"
  shows "matches_cidr ip (c_deny_cidrs p) \<longleftrightarrow> cidrs_match (deny_cidrs r) ip"
    and "matches_cidr ip (c_allow_cidrs p) \<longleftrightarrow> cidrs_match (allow_cidrs r) ip"
  using compile_rules_Inr [OF assms]
  by (simp_all add: matches_cidr_def list_ex_iff cidrs_match_def mapE_list_ex)

lemma compiled_empty:
  assumes "compile_rules r = Inr p"
  shows "c_allow_domains p = [] \<longleftrightarrow> allow_domains r = []"
    and "c_allow_cidrs p = [] \<longleftrightarrow> allow_cidrs r = []"
    and "c_allow_ports p = {} \<longleftrightarrow> allow_ports r = []"
    and "grants_nothing p \<longleftrightarrow> rules_grant_nothing r"
  using compile_rules_Inr [OF assms]
  by (auto simp: grants_nothing_def rules_grant_nothing_def dest: mapE_Inr_empty)

lemma compiled_ports:
  assumes "compile_rules r = Inr p"
  shows "w \<in> c_deny_ports p \<longleftrightarrow> uint w \<in> set (deny_ports r)"
    and "w \<in> c_allow_ports p \<longleftrightarrow> uint w \<in> set (allow_ports r)"
  using compile_rules_Inr(5,6) [OF assms] by (auto simp: compile_ports_mem)

lemmas compiled_simps = compiled_domains_match compiled_cidrs_match compiled_empty compiled_ports

lemma check_destination_permits:
  "compile_rules r = Inr p \<Longrightarrow> check_destination p None d = None \<longleftrightarrow> permits_destination r d"
  by (auto simp: check_destination_def ctx_err_def permits_destination_def compiled_simps Let_def
      split: sum.splits)

lemma check_address_permits:
  "compile_rules r = Inr p \<Longrightarrow> check_address p None d a = None \<longleftrightarrow> permits_address r a"
  by (auto simp: check_address_def ctx_err_def permits_address_def compiled_simps Let_def
      compile_rules_Inr(9))

section \<open>The contract of a policy\<close>

text \<open>
  What the dialer and the preflight rely on: an ended context is reported as such, and under a
  live one every error of a check is a denial.
\<close>

locale policy_contract =
  fixes dest :: "ctx \<Rightarrow> destination \<Rightarrow> net_error option"
    and address :: "ctx \<Rightarrow> destination \<Rightarrow> addr \<Rightarrow> net_error option"
  assumes dest_ended: "dest (Some m) d = Some (CtxErr m)"
    and address_ended: "address (Some m) d a = Some (CtxErr m)"
    and dest_denied: "dest None d = Some e \<Longrightarrow> is_denied e"
    and address_denied: "address None d a = Some e \<Longrightarrow> is_denied e"
begin

abbreviation as_policy :: policy where
  "as_policy \<equiv> \<lparr>pol_destination = dest, pol_address = address\<rparr>"

lemma explain_loop_live:
  "explain_loop as_policy None d res ips = (dec, e) \<Longrightarrow> \<not> dec_allowed res \<Longrightarrow>
   e = None \<and> dec_complete dec \<and> (dec_allowed dec \<longleftrightarrow> (\<forall>ip \<in> set ips. address None d ip = None))"
  by (induction ips arbitrary: res)
    (auto simp: Let_def dest: address_denied address_denied [OF sym] split: option.splits if_splits)

lemma dial_ended_silent:
  "\<exists>e. dial_context (Some as_policy) resolve connect (Some m) network authority = (Inl e, [])"
  by (auto simp: dial_context_def dest_ended split: sum.splits)

lemma dial_connects_iff:
  assumes "parse_destination authority [] = Inr d"
    and "(case parse_addr (dhost d) of Some ip \<Rightarrow> Inr [ip] | None \<Rightarrow> resolve None (dhost d)) = Inr ips"
    and "ips \<noteq> []"
  shows "(\<exists>a. Dial a \<in> set (snd (dial_context (Some as_policy) resolve connect None network authority)))
     \<longleftrightarrow> dest None d = None \<and> (\<forall>ip \<in> set ips. address None d ip = None)"
proof -
  have some: "\<exists>a. Dial a \<in> set (snd (dial_loop connect None network d e0 ips))" for e0
    using assms(3) by (cases ips) (auto split: sum.splits prod.splits)
  show ?thesis
  proof (cases "dest None d = None \<and> (\<forall>ip \<in> set ips. address None d ip = None)")
    case True
    then have "first_err (address None d) ips = None" by (simp add: first_err_None_iff)
    with True assms some show ?thesis
      by (auto simp: dial_context_def split: option.splits prod.splits) (metis snd_conv)+
  next
    case False
    then have "dest None d \<noteq> None \<or> first_err (address None d) ips \<noteq> None"
      by (auto simp: first_err_None_iff)
    with False assms show ?thesis
      by (auto simp: dial_context_def split: option.splits prod.splits)
  qed
qed

end

lemma check_destination_denied: "check_destination p None d = Some e \<Longrightarrow> is_denied e"
  by (auto simp: check_destination_def ctx_err_def split: sum.splits if_splits)

lemma check_address_denied: "check_address p None d a = Some e \<Longrightarrow> is_denied e"
  by (auto simp: check_address_def ctx_err_def Let_def split: if_splits)

interpretation compiled_contract: policy_contract "check_destination p" "check_address p"
  for p :: compiled
  by unfold_locales
    (simp_all add: check_destination_denied check_address_denied,
     simp_all add: check_destination_def check_address_def ctx_err_def)

section \<open>Lemmas on normalised hosts and domain rules\<close>

lemma labels_ok_chars: "labels_ok s \<Longrightarrow> c \<in> set s \<Longrightarrow> host_char c"
proof (induction s rule: labels_ok.induct)
  case (1 s)
  obtain l rest f where cut: "str_cut CHR ''.'' s = (l, rest, f)" by (metis prod_cases3)
  from 1(3) have ne: "s \<noteq> []" by auto
  with 1(2) cut have ok: "label_ok l" "labels_ok rest" by (subst (asm) labels_ok.simps, simp)+
  from cut have s: "s = l \<or> s = l @ CHR ''.'' # rest" by (cases f) (auto dest: cut_found cut_not_found)
  have l: "host_char c" if "c \<in> set l"
    using ok(1) that by (auto simp: label_ok_def host_char_def list_all_iff)
  have r: "host_char c" if "c \<in> set rest"
    using 1(1) [OF ne cut [symmetric] refl ok(2) that] .
  from s 1(3) l r show ?case by (auto simp: host_char_def)
qed

lemma normalize_host_chars:
  assumes "normalize_host h = Inr n" and "c \<in> set n"
  shows "host_char c"
proof (cases "host_literal h")
  case None
  with assms show ?thesis
    by (auto simp: normalize_host_def Let_def result_simps dest: labels_ok_chars)
next
  case (Some s)
  from Some assms show ?thesis
    by (auto simp: normalize_host_def host_literal_def split: if_splits option.splits
        intro: addr_string_chars simp: unmap_zone parse_addr_valid)
qed

lemma normalize_host_no_eq: "normalize_host h = Inr n \<Longrightarrow> \<not> prefix ''='' n"
  by (auto simp: prefix_def host_char_def is_digit_def less_eq_char_def dest: normalize_host_chars)

lemma compile_domain_cut:
  assumes "parse_domain v = Inr (n, exact)"
  shows "compile_domain v = Inr (if exact then CHR ''='' # n else n)"
    and "cut_prefix (if exact then CHR ''='' # n else n) ''='' = (n, exact)"
proof -
  show "compile_domain v = Inr (if exact then CHR ''='' # n else n)"
    using assms by (simp add: compile_domain_def)
  obtain h where "normalize_host h = Inr n"
    using assms by (auto simp: parse_domain_def result_simps split: prod.splits)
  then have "\<not> prefix ''='' n" by (rule normalize_host_no_eq)
  then show "cut_prefix (if exact then CHR ''='' # n else n) ''='' = (n, exact)"
    by (simp add: cut_prefix_def)
qed

lemma compile_domain_parse:
  assumes "compile_domain v = Inr r"
  obtains n exact where "parse_domain v = Inr (n, exact)" and "cut_prefix r ''='' = (n, exact)"
  using assms compile_domain_cut(2) [of v]
  by (auto simp: compile_domain_def split: sum.splits prod.splits)

text \<open>The hosts a rule matches, by whether it is exact.\<close>

lemma rule_matches_exact:
  "cut_prefix r ''='' = (n, x) \<Longrightarrow> x \<or> is_ip_literal n \<Longrightarrow> rule_matches r h \<longleftrightarrow> h = n"
  by (auto simp: rule_matches_def)

lemma rule_matches_suffix:
  "cut_prefix r ''='' = (n, x) \<Longrightarrow> \<not> (x \<or> is_ip_literal n) \<Longrightarrow>
   rule_matches r h \<longleftrightarrow> h = n \<or> suffix (CHR ''.'' # n) h"
  by (auto simp: rule_matches_def)

lemma suffix_dot_trans:
  "suffix (c # p) n \<Longrightarrow> suffix (d # n) h \<Longrightarrow> suffix (c # p) h"
  by (meson suffix_ConsI suffix_order.trans suffix_order.refl)

lemma domain_within_correct:
  assumes "compile_domain child = Inr c" and "compile_domain parent = Inr p"
  shows "domain_within child parent = Inr (\<forall>h. rule_matches c h \<longrightarrow> rule_matches p h)"
proof -
  obtain cn cx where c: "parse_domain child = Inr (cn, cx)" "cut_prefix c ''='' = (cn, cx)"
    using assms(1) by (rule compile_domain_parse)
  obtain pn px where p: "parse_domain parent = Inr (pn, px)" "cut_prefix p ''='' = (pn, px)"
    using assms(2) by (rule compile_domain_parse)
  define ce where "ce \<longleftrightarrow> cx \<or> is_ip_literal cn"
  define pe where "pe \<longleftrightarrow> px \<or> is_ip_literal pn"
  have cm: "rule_matches c h \<longleftrightarrow> h = cn \<or> (\<not> ce \<and> suffix (CHR ''.'' # cn) h)" for h
    using c(2) by (auto simp: ce_def rule_matches_def)
  have pm: "rule_matches p h \<longleftrightarrow> h = pn \<or> (\<not> pe \<and> suffix (CHR ''.'' # pn) h)" for h
    using p(2) by (auto simp: pe_def rule_matches_def)
  have sub: "suffix (CHR ''.'' # cn) (''a.'' @ cn)" "''a.'' @ cn \<noteq> cn"
    by (auto simp: suffix_def)
  have "(\<forall>h. rule_matches c h \<longrightarrow> rule_matches p h) \<longleftrightarrow>
      (if pe then ce \<and> cn = pn else cn = pn \<or> suffix (CHR ''.'' # pn) cn)"
  proof (cases pe)
    case True
    then show ?thesis using sub unfolding cm pm by (metis (no_types, lifting))
  next
    case False
    then show ?thesis unfolding cm pm by (auto intro: suffix_dot_trans)
  qed
  then show ?thesis
    using c(1) p(1) by (simp add: domain_within_def Let_def ce_def pe_def)
qed

section \<open>Lemmas on the dialer\<close>

lemma dial_loop_trace:
  "\<exists>n. snd (dial_loop connect ctx network d e ips) = map (\<lambda>ip. Dial (dial_target d ip)) (take n ips)"
proof (induction ips arbitrary: e)
  case (Cons ip ips)
  show ?case
  proof (cases "connect ctx network (dial_target d ip)")
    case (Inl e')
    from Cons.IH [of e'] obtain n where
      "snd (dial_loop connect ctx network d e' ips) = map (\<lambda>ip. Dial (dial_target d ip)) (take n ips)" ..
    with Inl have "snd (dial_loop connect ctx network d e (ip # ips)) =
        map (\<lambda>ip. Dial (dial_target d ip)) (take (Suc n) (ip # ips))"
      by (cases "dial_loop connect ctx network d e' ips") simp
    then show ?thesis ..
  next
    case (Inr conn)
    then have "snd (dial_loop connect ctx network d e (ip # ips)) =
        map (\<lambda>ip. Dial (dial_target d ip)) (take 1 (ip # ips))" by simp
    then show ?thesis ..
  qed
qed simp

lemma dial_loop_result:
  "(\<exists>ip \<in> set ips. \<exists>c. connect ctx network (dial_target d ip) = Inr c) \<longleftrightarrow>
   (\<exists>c. fst (dial_loop connect ctx network d e ips) = Inr c)"
proof (induction ips arbitrary: e)
  case (Cons ip ips)
  show ?case
  proof (cases "connect ctx network (dial_target d ip)")
    case (Inl e')
    then have "fst (dial_loop connect ctx network d e (ip # ips)) =
        fst (dial_loop connect ctx network d e' ips)"
      by (simp add: case_prod_unfold)
    with Inl Cons.IH [of e'] show ?thesis by simp
  qed simp
qed simp

section \<open>Properties\<close>

text \<open>A configuration the witnesses run: one allowed suffix, one denied port, no private address.\<close>

definition sample_rules :: rules where
  "sample_rules = no_rules\<lparr>allow_domains := [''a.io''], deny_ports := [22],
     deny_cidrs := [''9.9.9.0/24''], block_private := True\<rparr>"

definition sample_destination :: destination where
  "sample_destination = \<lparr>dhost = ''x.a.io'', dport = 443\<rparr>"

definition sample_compiled :: compiled where
  "sample_compiled = \<lparr>c_allow_domains = [''a.io''], c_deny_domains = [],
     c_allow_index = \<lparr>ix_exact = {''a.io''}, ix_suffix = {''a.io''}\<rparr>,
     c_deny_index = \<lparr>ix_exact = {}, ix_suffix = {}\<rparr>,
     c_allow_cidrs = [], c_deny_cidrs = [\<lparr>paddr = Addr4 0x09090900, pbits = 24\<rparr>],
     c_allow_ports = {}, c_deny_ports = {22}, c_block_private = True, c_default_deny = False\<rparr>"

lemma sample_compiles: "compile_rules sample_rules = Inr sample_compiled"
  by code_simp

text \<open>C36: compilation is faithful.  On every rule set that compiles, the two checks of the compiled
  policy (hash index, prefix table, port sets) accept exactly the destinations and addresses that
  the rules as configured permit: denials override allowances, the nonempty allow lists are
  intersected, and under default-deny an empty domain and CIDR grant permits nothing.\<close>

theorem compiled_checks_refine_rules:
  assumes "compile_rules r = Inr p"
  shows "(check_destination p None d = None \<longleftrightarrow> permits_destination r d) \<and>
         (check_address p None d a = None \<longleftrightarrow> permits_address r a)"
  using assms check_destination_permits check_address_permits by blast

lemma compiled_checks_refine_rules_witness:
  "permits_destination sample_rules sample_destination \<and>
   \<not> permits_address sample_rules (Addr4 0x09090907) \<and>
   permits_address sample_rules (Addr4 0x08080808)"
proof -
  have "check_destination sample_compiled None sample_destination = None"
    "check_address sample_compiled None sample_destination (Addr4 0x09090907) \<noteq> None"
    "check_address sample_compiled None sample_destination (Addr4 0x08080808) = None"
    by code_simp+
  then show ?thesis using compiled_checks_refine_rules [OF sample_compiles] by metis
qed

text \<open>the domain index built once by \<open>indexDomains\<close> answers a lookup exactly as a scan of
  every compiled rule would: equality, or, for a bare DNS name that is no IP literal, a suffix at
  a label boundary.\<close>

theorem index_equals_scan:
  "index_matches (index_domains ds) host \<longleftrightarrow> list_ex (\<lambda>d. rule_matches d host) ds"
  by (simp add: index_matches_iff list_ex_iff)

text \<open>\<open>DomainWithin\<close> decides containment of rules: on two rules that compile it returns true
  exactly when every host the child rule matches is matched by the parent rule, exact names, bare
  suffixes and IP literals included.\<close>

theorem domain_within_decides:
  assumes "compile_domain child = Inr c" and "compile_domain parent = Inr p"
  shows "domain_within child parent = Inr (\<forall>h. rule_matches c h \<longrightarrow> rule_matches p h)"
  using assms by (rule domain_within_correct)

lemma domain_within_decides_witness:
  "\<exists>h. rule_matches ''a.io'' h \<and> \<not> rule_matches ''=a.io'' h"
proof -
  have "compile_domain '' .A.io. '' = Inr ''a.io''" "compile_domain ''=a.io'' = Inr ''=a.io''"
    "domain_within '' .A.io. '' ''=a.io'' = Inr False"
    by code_simp+
  with domain_within_decides [of "'' .A.io. ''" "''a.io''" "''=a.io''" "''=a.io''"]
  show ?thesis by auto
qed

text \<open>with \<open>BlockPrivate\<close> a check never accepts an IPv4 address, mapped or not, in the
  unspecified, loopback, link-local (metadata, multicast), RFC 1918 or carrier-grade NAT ranges, here as
  numeric intervals.\<close>

theorem private_never_allowed:
  assumes "c_block_private p" and "check_address p c d a = None" and "unmap a = Addr4 w"
  shows "unat w \<noteq> 0 \<and>
    unat w \<notin> {0x0A000000..0x0AFFFFFF} \<and> unat w \<notin> {0x7F000000..0x7FFFFFFF} \<and>
    unat w \<notin> {0xA9FE0000..0xA9FEFFFF} \<and> unat w \<notin> {0xAC100000..0xAC1FFFFF} \<and>
    unat w \<notin> {0xC0A80000..0xC0A8FFFF} \<and> unat w \<notin> {0x64400000..0x647FFFFF} \<and>
    unat w \<notin> {0xE0000000..0xE00000FF}"
proof -
  have "\<not> is_private (Addr4 w)"
    using assms by (auto simp: check_address_def ctx_err_def Let_def split: option.splits if_splits)
  then have p: "w \<noteq> 0" "\<not> in4 0x0A000000 8 w" "\<not> in4 0x7F000000 8 w" "\<not> in4 0xA9FE0000 16 w"
    "\<not> in4 0xAC100000 12 w" "\<not> in4 0xC0A80000 16 w" "\<not> in4 0x64400000 10 w" "\<not> in4 0xE0000000 24 w"
    by (auto simp: is_private_def prefix_contains_def carrier_grade_nat_def in4_def)
  have "unat w \<noteq> 0" using p(1) by (simp add: unat_eq_zero)
  moreover have "unat w \<notin> {0x0A000000..0x0AFFFFFF}" using in4_interval [OF p(2) refl] by simp
  moreover have "unat w \<notin> {0x7F000000..0x7FFFFFFF}" using in4_interval [OF p(3) refl] by simp
  moreover have "unat w \<notin> {0xA9FE0000..0xA9FEFFFF}" using in4_interval [OF p(4) refl] by simp
  moreover have "unat w \<notin> {0xAC100000..0xAC1FFFFF}" using in4_interval [OF p(5) refl] by simp
  moreover have "unat w \<notin> {0xC0A80000..0xC0A8FFFF}" using in4_interval [OF p(6) refl] by simp
  moreover have "unat w \<notin> {0x64400000..0x647FFFFF}" using in4_interval [OF p(7) refl] by simp
  moreover have "unat w \<notin> {0xE0000000..0xE00000FF}" using in4_interval [OF p(8) refl] by simp
  ultimately show ?thesis by blast
qed

lemma private_never_allowed_witness:
  "check_address sample_compiled None sample_destination (Addr6 0xFFFF08080808 []) = None \<and>
   unat (0x08080808 :: 32 word) \<notin> {0x0A000000..0x0AFFFFFF}"
proof -
  have "c_block_private sample_compiled" by code_simp
  moreover have "check_address sample_compiled None sample_destination (Addr6 0xFFFF08080808 []) = None"
    by code_simp
  moreover have "unmap (Addr6 0xFFFF08080808 []) = Addr4 0x08080808" by code_simp
  ultimately show ?thesis using private_never_allowed by blast
qed

text \<open>\<open>All\<close> lets no member weaken another: the composition accepts a destination (an address)
  exactly when every non-nil member does, and when it refuses, the error is that of a member.\<close>

theorem combined_intersects:
  "(pol_destination (combined ps) c d = None \<longleftrightarrow>
      (\<forall>p. Some p \<in> set ps \<longrightarrow> pol_destination p c d = None)) \<and>
   (pol_address (combined ps) c d a = None \<longleftrightarrow>
      (\<forall>p. Some p \<in> set ps \<longrightarrow> pol_address p c d a = None)) \<and>
   (pol_destination (combined ps) c d = Some e \<longrightarrow>
      (\<exists>p. Some p \<in> set ps \<and> pol_destination p c d = Some e)) \<and>
   (pol_address (combined ps) c d a = Some e \<longrightarrow>
      (\<exists>p. Some p \<in> set ps \<and> pol_address p c d a = Some e))"
proof -
  have none: "first_err (\<lambda>q. case q of None \<Rightarrow> None | Some p \<Rightarrow> f p) ps = None \<longleftrightarrow>
      (\<forall>p. Some p \<in> set ps \<longrightarrow> f p = None)" for f :: "policy \<Rightarrow> net_error option"
    by (auto simp: first_err_None_iff split: option.splits)
  have some: "\<exists>p. Some p \<in> set ps \<and> f p = Some e"
    if "first_err (\<lambda>q. case q of None \<Rightarrow> None | Some p \<Rightarrow> f p) ps = Some e"
    for f :: "policy \<Rightarrow> net_error option"
    using first_err_SomeD [OF that] by (auto split: option.splits)
  show ?thesis using some by (simp add: combined_def none)
qed

lemma combined_intersects_witness:
  "pol_address (combined [None, Some \<lparr>pol_destination = (\<lambda>c d. None), pol_address = (\<lambda>c d a. None)\<rparr>,
     Some (compiled_policy sample_compiled)]) None sample_destination (Addr4 0x7F000001) \<noteq> None"
proof -
  have "pol_address (compiled_policy sample_compiled) None sample_destination (Addr4 0x7F000001) \<noteq> None"
    by code_simp
  then show ?thesis
    using combined_intersects [of "[None, Some \<lparr>pol_destination = (\<lambda>c d. None),
      pol_address = (\<lambda>c d a. None)\<rparr>, Some (compiled_policy sample_compiled)]" None sample_destination
      "Addr4 0x7F000001"] by (metis list.set_intros(1,2))
qed

text \<open>C35: a dial never reaches an unchecked address.  The whole trace of \<open>DialContext\<close> is at most
  one lookup of the requested host followed by attempts on a prefix of the answer; when anything
  is attempted, the policy has accepted the destination and \<^emph>\<open>every\<close> address of the answer, and
  each attempt names a checked address and the checked port (no second lookup, so no rebinding).\<close>

theorem dial_only_checked:
  assumes "snd (dial_context (Some p) resolve connect ctx network authority) = tr"
    and "Dial a \<in> set tr"
  shows "\<exists>d ips n. parse_destination authority [] = Inr d \<and> pol_destination p ctx d = None \<and>
     (case parse_addr (dhost d) of Some ip \<Rightarrow> ips = [ip] | None \<Rightarrow> resolve ctx (dhost d) = Inr ips) \<and>
     (\<forall>ip \<in> set ips. pol_address p ctx d ip = None) \<and>
     tr = (if parse_addr (dhost d) = None then [Lookup (dhost d)] else []) @
          map (\<lambda>ip. Dial (dial_target d ip)) (take n ips)"
proof -
  from assms obtain d where d: "parse_destination authority [] = Inr d" "pol_destination p ctx d = None"
    by (cases "parse_destination authority []"; cases "pol_destination p ctx (projr (parse_destination authority []))")
      (auto simp: dial_context_def)
  define look where "look = (if parse_addr (dhost d) = None then [Lookup (dhost d)] else [])"
  have "\<exists>ips. (case parse_addr (dhost d) of Some ip \<Rightarrow> ips = [ip] | None \<Rightarrow> resolve ctx (dhost d) = Inr ips) \<and>
     first_err (pol_address p ctx d) ips = None \<and>
     tr = look @ snd (dial_loop connect ctx network d (OtherError []) ips)"
    using assms d unfolding dial_context_def look_def
    by (auto simp: case_prod_unfold split: option.splits sum.splits if_splits)
  then obtain ips where ips: "case parse_addr (dhost d) of Some ip \<Rightarrow> ips = [ip] | None \<Rightarrow> resolve ctx (dhost d) = Inr ips"
    "first_err (pol_address p ctx d) ips = None"
    "tr = look @ snd (dial_loop connect ctx network d (OtherError []) ips)" by blast
  obtain n where "snd (dial_loop connect ctx network d (OtherError []) ips) =
      map (\<lambda>ip. Dial (dial_target d ip)) (take n ips)"
    using dial_loop_trace by blast
  with ips d show ?thesis unfolding look_def first_err_None_iff by blast
qed

text \<open>A resolver with two public addresses and a connector that reaches only the second one.\<close>

definition sample_resolve :: resolver where
  "sample_resolve c h = Inr [Addr4 0x08080808, Addr4 0x08080404]"

definition sample_connect :: "string connector" where
  "sample_connect c n a = (if a = ''8.8.4.4:443'' then Inr a else Inl (OtherError ''refused''))"

definition sample_policy :: policy where
  "sample_policy = compiled_policy sample_compiled"

lemma dial_only_checked_witness:
  "pol_destination sample_policy None sample_destination = None \<and>
   pol_address sample_policy None sample_destination (Addr4 0x08080808) = None"
proof -
  have d: "parse_destination ''x.a.io:443'' [] = Inr sample_destination"
    "parse_addr ''x.a.io'' = None" by code_simp+
  have "Dial ''8.8.8.8:443'' \<in> set (snd (dial_context (Some sample_policy) sample_resolve
      sample_connect None ''tcp'' ''x.a.io:443''))" by code_simp
  from dial_only_checked [OF refl this] d show ?thesis
    by (auto simp: sample_resolve_def sample_destination_def)
qed

text \<open>the dialer is live.  When the authority parses, the policy accepts the destination and every
  address of a nonempty answer, and some address can be connected, the dial returns a connection
  (it does not stop at the first unreachable address).\<close>

theorem dial_reaches:
  assumes "parse_destination authority [] = Inr d" and "pol_destination p ctx d = None"
    and "case parse_addr (dhost d) of Some ip \<Rightarrow> ips = [ip] | None \<Rightarrow> resolve ctx (dhost d) = Inr ips"
    and "\<forall>ip \<in> set ips. pol_address p ctx d ip = None"
    and "\<exists>ip \<in> set ips. \<exists>c. connect ctx network (dial_target d ip) = Inr c"
  shows "\<exists>c. fst (dial_context (Some p) resolve connect ctx network authority) = Inr c"
proof -
  have "first_err (pol_address p ctx d) ips = None" using assms(4) by (simp add: first_err_None_iff)
  moreover have "ips \<noteq> []" using assms(5) by auto
  moreover have "\<exists>c. fst (dial_loop connect ctx network d (OtherError []) ips) = Inr c"
    using assms(5) unfolding dial_loop_result [where e = "OtherError []"] .
  ultimately show ?thesis
    using assms(1-3) by (auto simp: dial_context_def case_prod_unfold split: option.splits)
qed

lemma dial_reaches_witness:
  "\<exists>c. fst (dial_context (Some sample_policy) sample_resolve sample_connect None ''tcp''
     ''x.a.io:443'') = Inr c"
proof (rule dial_reaches [where ips = "[Addr4 0x08080808, Addr4 0x08080404]"])
  show "parse_destination ''x.a.io:443'' [] = Inr sample_destination" by code_simp
  show "pol_destination sample_policy None sample_destination = None" by code_simp
  have "parse_addr (dhost sample_destination) = None" by code_simp
  then show "case parse_addr (dhost sample_destination) of
      None \<Rightarrow> sample_resolve None (dhost sample_destination) =
        Inr [Addr4 0x08080808, Addr4 0x08080404]
    | Some ip \<Rightarrow> [Addr4 0x08080808, Addr4 0x08080404] = [ip]"
    by (simp add: sample_resolve_def)
  show "\<forall>ip \<in> set [Addr4 0x08080808, Addr4 0x08080404].
      pol_address sample_policy None sample_destination ip = None" by code_simp
  have "sample_connect None ''tcp''
      (dial_target sample_destination (Addr4 0x08080404)) =
      Inr ''8.8.4.4:443''" by code_simp
  then show "\<exists>ip \<in> set [Addr4 0x08080808, Addr4 0x08080404].
      \<exists>c. sample_connect None ''tcp'' (dial_target sample_destination ip) = Inr c" by auto
qed

lemma parse_destination_default:
  "parse_destination authority [] = Inr d \<Longrightarrow> parse_destination authority dp = Inr d"
  by (cases "split_host_port authority") (auto simp: parse_destination_def)

text \<open>An authority without a port, a plain host: \<open>DialContext\<close> refuses it, and reads with \<open>:443\<close> what \<open>Explain\<close> reads.\<close>

lemma dial_needs_port:
  "split_host_port authority = None \<Longrightarrow> Dial a \<notin> set (snd (dial_context p resolver connect ctx network authority))"
  by (simp add: dial_context_def parse_destination_def Let_def split: option.splits)

lemma split_host_443:
  assumes "CHR '':'' \<notin> set host" and "CHR ''['' \<notin> set host" and "CHR '']'' \<notin> set host"
  shows "split_host_port (host @ '':443'') = Some (host, ''443'')"
proof -
  have "\<not> prefix ''['' (host @ '':443'')" using assms(2) by (cases host) auto
  then show ?thesis using assms by (simp add: split_host_port_def)
qed

lemma default_port_named:
  assumes "\<not> contains_any host '':[]''" and "split_host_port host = None"
  shows "parse_destination (host @ '':443'') [] = parse_destination host ''443''"
proof -
  have c: "CHR '':'' \<notin> set host" "CHR ''['' \<notin> set host" "CHR '']'' \<notin> set host"
    using assms(1) by (auto simp: contains_any_def list_ex_iff)
  then have "\<not> prefix ''['' host" by (cases host) auto
  with assms split_host_443 [OF c] show ?thesis by (simp only: parse_destination_def option.case if_False if_True refl) simp
qed

text \<open>C40: the preflight tells the truth.  With resolution, on a live context, \<open>Explain\<close> either
  completes or reports a failed lookup or an empty answer; a completed answer is "allowed" exactly
  when \<open>DialContext\<close> under the same rules and resolver goes on to dial.  \<open>Explain\<close> takes port 443 for
  an authority that names none, which \<open>DialContext\<close> refuses; so the dialled address is any that
  names the host and the port \<open>Explain\<close> has read, its own authority where that has a port.\<close>

theorem explain_agrees_with_dial:
  assumes "compile_rules r = Inr c" and "parse_destination authority ''443'' = Inr d"
    and "explain None r authority True resolver = (Some dec, None)"
    and "parse_destination address [] = Inr d"
  shows "dec_complete dec \<and> dec_destination dec = d \<and>
    (dec_allowed dec \<longleftrightarrow> (\<exists>a. Dial a \<in> set (snd
        (dial_context (Some (compiled_policy c)) resolver connect None network address))))"
proof (cases "check_destination c None d")
  case (Some e)
  then have "is_denied e" by (rule check_destination_denied)
  with Some assms show ?thesis
    by (auto simp: explain_def compiled_policy_def Let_def dial_context_def)
next
  case None
  let ?look = "case parse_addr (dhost d) of Some ip \<Rightarrow> Inr [ip] | None \<Rightarrow> resolver None (dhost d)"
  from None assms obtain ips where
    ips: "?look = Inr ips" "ips \<noteq> []" and
    loop: "explain_loop (compiled_policy c) None d
      \<lparr>dec_destination = d, dec_allowed = False, dec_code = ''address_not_checked'',
       dec_stage = StageAddress, dec_checked = 0, dec_complete = False\<rparr> ips = (dec, None)"
    by (auto simp: explain_def compiled_policy_def Let_def case_prod_unfold prod_eq_iff
        split: sum.splits if_splits)
  have dest: "dec_destination dec = d"
    if "explain_loop q None d res ips = (dec, None)" "dec_destination res = d" for q res
    using that by (induction ips arbitrary: res) (auto simp: Let_def split: option.splits if_splits)
  from compiled_contract.explain_loop_live [of c d _ ips dec None] loop
  have "dec_complete dec" "dec_allowed dec \<longleftrightarrow> (\<forall>ip \<in> set ips. check_address c None d ip = None)"
    by (auto simp: compiled_policy_def)
  with None compiled_contract.dial_connects_iff [where p = c and resolve = resolver and ips = ips
      and connect = connect and network = network, OF assms(4) ips] dest [OF loop]
  show ?thesis by (simp add: compiled_policy_def)
qed

lemma explain_agrees_with_dial_witness:
  "\<exists>a. Dial a \<in> set (snd (dial_context (Some (compiled_policy sample_compiled)) sample_resolve
     sample_connect None ''tcp'' ''x.a.io:443''))"
proof -
  have d: "parse_destination ''x.a.io:443'' [] = Inr sample_destination"
    "parse_destination ''x.a.io'' ''443'' = Inr sample_destination" by code_simp+
  have "parse_addr (dhost sample_destination) = None"
    "check_destination sample_compiled None sample_destination = None"
    "check_address sample_compiled None sample_destination (Addr4 0x08080808) = None"
    "check_address sample_compiled None sample_destination (Addr4 0x08080404) = None"
    by code_simp+
  with d have "explain None sample_rules ''x.a.io'' True sample_resolve =
     (Some \<lparr>dec_destination = sample_destination, dec_allowed = True, dec_code = ''allowed'',
       dec_stage = StageAddress, dec_checked = 2, dec_complete = True\<rparr>, None)"
    by (simp add: explain_def sample_compiles compiled_policy_def Let_def sample_resolve_def)
  from explain_agrees_with_dial [OF sample_compiles d(2) this d(1)] show ?thesis by auto
qed

end
