(* ===== verification/WorkerEgress.thy ===== *)
theory WorkerEgress
  imports NetworkPolicy "HOL-Library.Multiset"
begin

text \<open>
  \<open>internal/workeregress\<close>: a host policy narrowed for one worker, the presets, the launch
  arguments of the policy proxy and their parser, and the inspection and creation of that proxy
  against a container engine.  The engine is external: its answer to a call is a parameter that
  may depend on the whole history of calls, and the history is the state.
\<close>

section \<open>Narrowing\<close>

datatype egress_error =
    EmptyAllowlist | HostGrantsNothing | ExceedsHost string | PolicyErr net_error
  | OfflineGrants | ApiNeedsDomains | UnknownPreset string
  | BadDefaultDeny | BadBlockPrivate | IncompleteArgs | BadPortArg string | UnsupportedFlag string
  | NotEgress | NotManaged | UnsupportedEndpoint | NoPinnedMapping | BadPinnedIdentities
  | AmbiguousProxy | UnmappedProxy | NoAdvertisedPolicy | AddressDrifted | IdentityMismatch
  | NeedsPrivateBlock | IncompatibleImage | NetworkNotManaged | ProxyMismatch | EngineErr string

text \<open>The inner loop of \<open>Rules\<close>: stops at the first allowed entry that contains the domain.\<close>

fun within_any :: "string \<Rightarrow> string list \<Rightarrow> (net_error, bool) result" where
  "within_any domain [] = Inr False"
| "within_any domain (a # as) = (case domain_within domain a of
       Inl e \<Rightarrow> Inl e
     | Inr b \<Rightarrow> if b then Inr True else within_any domain as)"

fun domains_granted :: "string list \<Rightarrow> string list \<Rightarrow> egress_error option" where
  "domains_granted allowed [] = None"
| "domains_granted allowed (d # ds) =
     (if allowed = [] then domains_granted allowed ds
      else (case within_any d allowed of
          Inl e \<Rightarrow> Some (PolicyErr e)
        | Inr b \<Rightarrow> if b then domains_granted allowed ds else Some (ExceedsHost d)))"

definition narrow_rules :: "rules \<Rightarrow> string list \<Rightarrow> (egress_error, rules) result" where
  "narrow_rules host domains =
     (if domains = [] then Inl EmptyAllowlist
      else case compile_rules host of Inl e \<Rightarrow> Inl (PolicyErr e) | Inr c \<Rightarrow>
        if default_deny host \<and> allow_domains host = [] \<and> allow_cidrs host = [] then Inl HostGrantsNothing
        else case domains_granted (allow_domains host) domains of Some e \<Rightarrow> Inl e | None \<Rightarrow>
          (let host' = host\<lparr>allow_domains := domains, block_private := True\<rparr> in
           case compile_rules host' of Inl e \<Rightarrow> Inl (PolicyErr e) | Inr c' \<Rightarrow> Inr host'))"

definition configured :: "rules \<Rightarrow> bool" where
  "configured r \<longleftrightarrow> default_deny r \<or>
     0 < length (allow_domains r) + length (deny_domains r) + length (allow_cidrs r) +
         length (deny_cidrs r) + length (allow_ports r) + length (deny_ports r)"

text \<open>
  The identity of a rule set: \<open>digest\<close> stands for the hex SHA-256 of the JSON encoding of
  the version and the rules, each list sorted first.
\<close>

definition canonical :: "rules \<Rightarrow> rules" where
  "canonical r = r\<lparr>allow_domains := sort (allow_domains r), deny_domains := sort (deny_domains r),
     allow_cidrs := sort (allow_cidrs r), deny_cidrs := sort (deny_cidrs r),
     allow_ports := sort (allow_ports r), deny_ports := sort (deny_ports r)\<rparr>"

definition rules_id :: "(rules \<Rightarrow> string) \<Rightarrow> rules \<Rightarrow> string" where
  "rules_id digest r = digest (canonical r)"

definition proxy_name :: "(rules \<Rightarrow> string) \<Rightarrow> rules \<Rightarrow> string" where
  "proxy_name digest r = ''codex-http-policy-'' @ take 16 (rules_id digest r)"

section \<open>Presets\<close>

record preset =
  pre_name :: string
  pre_offline :: bool
  pre_domains :: "string list"

definition presets :: "preset list" where
  "presets =
     [\<lparr>pre_name = ''offline'', pre_offline = True, pre_domains = []\<rparr>,
      \<lparr>pre_name = ''test'', pre_offline = True, pre_domains = []\<rparr>,
      \<lparr>pre_name = ''dependencies'', pre_offline = False,
       pre_domains = [''registry.npmjs.org'', ''pypi.org'', ''files.pythonhosted.org'',
         ''proxy.golang.org'', ''sum.golang.org'']\<rparr>,
      \<lparr>pre_name = ''api'', pre_offline = False, pre_domains = []\<rparr>]"

text \<open>The result carries the rules and whether general egress is off.\<close>

fun preset_loop :: "rules \<Rightarrow> string \<Rightarrow> string list \<Rightarrow> preset list \<Rightarrow> (egress_error, rules \<times> bool) result" where
  "preset_loop host name domains [] = Inl (UnknownPreset name)"
| "preset_loop host name domains (p # ps) =
     (if pre_name p \<noteq> name then preset_loop host name domains ps
      else if pre_offline p then (if domains \<noteq> [] then Inl OfflineGrants else Inr (host, True))
      else (let ds = (if name = ''dependencies'' \<and> domains = [] then pre_domains p else domains) in
        if ds = [] then Inl ApiNeedsDomains
        else bindE (narrow_rules host ds) (\<lambda>r. Inr (r, False))))"

definition resolve_preset :: "rules \<Rightarrow> string \<Rightarrow> string list \<Rightarrow> (egress_error, rules \<times> bool) result" where
  "resolve_preset host name domains =
     (if name = [] then
        (if domains = [] then
           (case compile_rules host of Inl e \<Rightarrow> Inl (PolicyErr e)
            | Inr c \<Rightarrow> Inr (host, default_deny host \<and> allow_domains host = [] \<and> allow_cidrs host = []))
         else bindE (narrow_rules host domains) (\<lambda>r. Inr (r, False)))
      else preset_loop host name domains presets)"

section \<open>The launch arguments of the proxy\<close>

definition show_int :: "int \<Rightarrow> string" where
  "show_int n = (if n < 0 then CHR ''-'' # show_nat (nat (- n)) else show_nat (nat n))"

definition flag_args :: "string \<Rightarrow> string list \<Rightarrow> string list" where
  "flag_args flag vs = concat (map (\<lambda>v. [flag, v]) vs)"

definition proxy_args :: "rules \<Rightarrow> string list" where
  "proxy_args r =
     [''proxy'', ''serve'', ''--listen'', ''0.0.0.0:18082'', ''--role'', ''egress'', ''--block-private'',
      if default_deny r then ''--forward-default-deny'' else ''--forward-default-deny=false''] @
     flag_args ''--forward-allow-domain'' (allow_domains r) @
     flag_args ''--forward-deny-domain'' (deny_domains r) @
     flag_args ''--forward-allow-cidr'' (allow_cidrs r) @
     flag_args ''--forward-deny-cidr'' (deny_cidrs r) @
     flag_args ''--forward-allow-port'' (map show_int (allow_ports r)) @
     flag_args ''--forward-deny-port'' (map show_int (deny_ports r))"

fun parse_ports :: "string list \<Rightarrow> (egress_error, int list) result" where
  "parse_ports [] = Inr []"
| "parse_ports (s # ss) = (case atoi s of
       None \<Rightarrow> Inl (BadPortArg s)
     | Some n \<Rightarrow> bindE (parse_ports ss) (\<lambda>ns. Inr (n # ns)))"

text \<open>The switch on a known flag with its value; the state is the rules and the role so far.\<close>

definition apply_flag :: "string \<Rightarrow> string \<Rightarrow> rules \<times> string \<Rightarrow> (egress_error, rules \<times> string) result" where
  "apply_flag key v st = (case st of (r, role) \<Rightarrow>
     if key = ''--role'' then Inr (r, v)
     else if key = ''--forward-allow-domain'' then Inr (r\<lparr>allow_domains := allow_domains r @ [v]\<rparr>, role)
     else if key = ''--forward-deny-domain'' then Inr (r\<lparr>deny_domains := deny_domains r @ [v]\<rparr>, role)
     else if key = ''--forward-allow-cidr'' then Inr (r\<lparr>allow_cidrs := allow_cidrs r @ [v]\<rparr>, role)
     else if key = ''--forward-deny-cidr'' then Inr (r\<lparr>deny_cidrs := deny_cidrs r @ [v]\<rparr>, role)
     else if key = ''--forward-allow-port'' then
       bindE (parse_ports (split_on CHR '','' v)) (\<lambda>ns. Inr (r\<lparr>allow_ports := allow_ports r @ ns\<rparr>, role))
     else if key = ''--forward-deny-port'' then
       bindE (parse_ports (split_on CHR '','' v)) (\<lambda>ns. Inr (r\<lparr>deny_ports := deny_ports r @ ns\<rparr>, role))
     else Inl (UnsupportedFlag key))"

datatype arg_kind = DefaultDenyArg | BlockPrivateArg | KnownArg | OtherArg

definition arg_kind_of :: "string \<Rightarrow> arg_kind" where
  "arg_kind_of key =
     (if key = ''--forward-default-deny'' then DefaultDenyArg
      else if key = ''--block-private'' then BlockPrivateArg
      else if key = ''--role'' \<or> prefix ''--forward-'' key then KnownArg else OtherArg)"

text \<open>A boolean flag: its inline value, or true.\<close>

definition bool_flag :: "bool \<Rightarrow> string \<Rightarrow> egress_error \<Rightarrow> (egress_error, bool) result" where
  "bool_flag inline v e =
     (if inline then (case parse_bool v of None \<Rightarrow> Inl e | Some b \<Rightarrow> Inr b) else Inr True)"

fun proxy_arg_loop :: "string list \<Rightarrow> rules \<times> string \<Rightarrow> (egress_error, rules \<times> string) result" where
  "proxy_arg_loop [] st = Inr st"
| "proxy_arg_loop (a # as) st = (case str_cut CHR ''='' a of (key, v, inline) \<Rightarrow>
     (case arg_kind_of key of
        DefaultDenyArg \<Rightarrow> (case bool_flag inline v BadDefaultDeny of Inl e \<Rightarrow> Inl e
          | Inr b \<Rightarrow> proxy_arg_loop as (apfst (\<lambda>r. r\<lparr>default_deny := b\<rparr>) st))
      | BlockPrivateArg \<Rightarrow> (case bool_flag inline v BadBlockPrivate of Inl e \<Rightarrow> Inl e
          | Inr b \<Rightarrow> proxy_arg_loop as (apfst (\<lambda>r. r\<lparr>block_private := b\<rparr>) st))
      | OtherArg \<Rightarrow> proxy_arg_loop as st
      | KnownArg \<Rightarrow>
          (if inline then
             (case apply_flag key v st of Inl e \<Rightarrow> Inl e | Inr st' \<Rightarrow> proxy_arg_loop as st')
           else (case as of [] \<Rightarrow> Inl IncompleteArgs
             | v' # as' \<Rightarrow> (case apply_flag key v' st of Inl e \<Rightarrow> Inl e
                           | Inr st' \<Rightarrow> proxy_arg_loop as' st')))))"

definition parse_proxy_rules :: "string list \<Rightarrow> (egress_error, rules) result" where
  "parse_proxy_rules args =
     bindE (proxy_arg_loop args (no_rules, [])) (\<lambda>(r, role).
       if role \<noteq> ''egress'' then Inl NotEgress
       else case compile_rules r of Inl e \<Rightarrow> Inl (PolicyErr e) | Inr c \<Rightarrow> Inr r)"

section \<open>Containers as the engine reports them\<close>

record container_config =
  cfg_image :: string
  cfg_labels :: "string \<rightharpoonup> string"
  cfg_env :: "string list"
  cfg_cmd :: "string list"

record container_state =
  st_running :: bool
  st_paused :: bool
  st_status :: string

record endpoint =
  ep_network :: string
  ep_ip :: string
  ep_ip6 :: string

record container =
  ct_id :: string
  ct_config :: "container_config option"
  ct_state :: "container_state option"
  ct_extra_hosts :: "string list option"
  ct_networks :: "(string \<times> endpoint option) list option"

text \<open>Reading a Go map of strings: a missing key is the empty string.\<close>

definition label :: "(string \<rightharpoonup> string) \<Rightarrow> string \<Rightarrow> string" where
  "label m k = (case m k of None \<Rightarrow> [] | Some v \<Rightarrow> v)"

definition trim_brackets :: "string \<Rightarrow> string" where
  "trim_brackets s =
     (let b = (\<lambda>c. c = CHR ''['' \<or> c = CHR '']'') in rev (dropWhile b (rev (dropWhile b s))))"

text \<open>
  The search of \<open>proxyReference\<close> over the worker's host mapping.  \<open>decode_names\<close> stands for
  the JSON decoding of the label into a list of names.
\<close>

fun mapped_proxy :: "(string \<Rightarrow> bool) \<Rightarrow> addr \<Rightarrow> string \<Rightarrow> string list \<Rightarrow> (egress_error, string) result" where
  "mapped_proxy allowed ip found [] = Inr found"
| "mapped_proxy allowed ip found (entry # es) = (case str_cut CHR '':'' entry of (name, address, ok) \<Rightarrow>
     if \<not> ok \<or> \<not> allowed name then mapped_proxy allowed ip found es
     else (case parse_addr (trim_brackets address) of
         None \<Rightarrow> mapped_proxy allowed ip found es
       | Some candidate \<Rightarrow>
           if unmap candidate \<noteq> unmap ip then mapped_proxy allowed ip found es
           else if found \<noteq> [] \<and> found \<noteq> name then Inl AmbiguousProxy
           else mapped_proxy allowed ip name es))"

definition proxy_reference ::
  "(string \<Rightarrow> string list option) \<Rightarrow> container \<Rightarrow> string \<Rightarrow> (egress_error, string) result" where
  "proxy_reference decode_names worker host = (case parse_addr host of None \<Rightarrow> Inr host | Some ip \<Rightarrow>
     (case (ct_config worker, ct_extra_hosts worker) of
        (Some cfg, Some hosts) \<Rightarrow>
          (case decode_names (label (cfg_labels cfg) ''codex-dock.proxy-hosts'') of
             None \<Rightarrow> Inl BadPinnedIdentities
           | Some names \<Rightarrow>
               bindE (mapped_proxy (\<lambda>n. n \<in> set names) ip [] hosts) (\<lambda>found.
                 if found = [] then Inl UnmappedProxy else Inr found))
      | _ \<Rightarrow> Inl NoPinnedMapping))"

definition endpoint_has :: "endpoint \<Rightarrow> addr \<Rightarrow> bool" where
  "endpoint_has e ip \<longleftrightarrow> list_ex (\<lambda>a. case parse_addr a of None \<Rightarrow> False
     | Some c \<Rightarrow> unmap c = unmap ip) [ep_ip e, ep_ip6 e]"

definition proxy_shares_address :: "container \<Rightarrow> container \<Rightarrow> addr \<Rightarrow> bool" where
  "proxy_shares_address worker proxy ip = (case (ct_networks worker, ct_networks proxy) of
     (Some wn, Some pn) \<Rightarrow> list_ex (\<lambda>(name, front). case front of
          None \<Rightarrow> False
        | Some f \<Rightarrow> ep_network f \<noteq> [] \<and>
            (case map_of pn name of
               Some (Some other) \<Rightarrow> ep_network other = ep_network f \<and> endpoint_has other ip
             | _ \<Rightarrow> False)) wn
   | _ \<Rightarrow> False)"

record snapshot =
  sn_worker :: string
  sn_proxy :: string
  sn_policy_id :: string
  sn_general :: bool
  sn_quarantined :: bool
  sn_pending :: bool
  sn_rules :: rules

definition http_proxy_of :: "string list \<Rightarrow> string" where
  "http_proxy_of env = (case find (prefix ''HTTP_PROXY='') env of
     None \<Rightarrow> [] | Some e \<Rightarrow> trim_prefix e ''HTTP_PROXY='')"

definition quarantine_pending :: "container \<Rightarrow> bool" where
  "quarantine_pending c = (case ct_state c of None \<Rightarrow> True | Some s \<Rightarrow>
     st_running s \<or> st_paused s \<or> (st_status s \<noteq> ''created'' \<and> st_status s \<noteq> ''exited''))"

text \<open>
  The engine lookup and the URL parser are parameters; \<open>parse_url\<close> gives whether a user part is
  present and the host name.  \<open>inspect\<close> returns the snapshot beside an error, as the source does.
\<close>

type_synonym lookup = "string \<Rightarrow> (egress_error, container) result"
type_synonym url_parser = "string \<Rightarrow> (bool \<times> string) option"

definition inspect_proxy ::
  "(rules \<Rightarrow> string) \<Rightarrow> lookup \<Rightarrow> container \<Rightarrow> string \<Rightarrow> string \<Rightarrow>
   (egress_error, string \<times> string \<times> rules) result" where
  "inspect_proxy digest find_ct v host reference =
     bindE (find_ct reference) (\<lambda>p.
     (case ct_config p of None \<Rightarrow> Inl NoAdvertisedPolicy | Some pc \<Rightarrow>
       (let policy_label = label (cfg_labels pc) ''io.codex-dock.forward-policy'' in
        if policy_label = [] then Inl NoAdvertisedPolicy
        else if (case parse_addr host of None \<Rightarrow> False | Some ip \<Rightarrow> \<not> proxy_shares_address v p ip)
          then Inl AddressDrifted
        else bindE (parse_proxy_rules (cfg_cmd pc)) (\<lambda>r.
          if rules_id digest r \<noteq> policy_label then Inl IdentityMismatch
          else Inr (ct_id p, rules_id digest r, r)))))"

definition inspect ::
  "(rules \<Rightarrow> string) \<Rightarrow> (string \<Rightarrow> string list option) \<Rightarrow> url_parser \<Rightarrow> lookup \<Rightarrow> string \<Rightarrow>
   snapshot option \<times> egress_error option" where
  "inspect digest decode_names parse_url find_ct worker =
     (case find_ct worker of Inl e \<Rightarrow> (None, Some e) | Inr v \<Rightarrow>
      (case ct_config v of None \<Rightarrow> (None, Some NotManaged) | Some cfg \<Rightarrow>
       if label (cfg_labels cfg) ''codex-dock.managed'' \<noteq> ''true'' then (None, Some NotManaged)
       else
        (let q = (label (cfg_labels cfg) ''codex-dock.quarantined'' = ''true'');
             s = \<lparr>sn_worker = ct_id v, sn_proxy = [], sn_policy_id = [], sn_general = False,
                  sn_quarantined = q, sn_pending = q \<and> quarantine_pending v, sn_rules = no_rules\<rparr>;
             endpoint = http_proxy_of (cfg_env cfg) in
         if q \<and> \<not> sn_pending s then (Some s, None)
         else if endpoint = [] then (Some s, None)
         else (case parse_url endpoint of
             None \<Rightarrow> (Some s, Some UnsupportedEndpoint)
           | Some (user, host) \<Rightarrow>
               if user \<or> host = [] then (Some s, Some UnsupportedEndpoint)
               else (case bindE (proxy_reference decode_names v host) (inspect_proxy digest find_ct v host) of
                   Inl e \<Rightarrow> (Some s, Some e)
                 | Inr (pid, policy_id, r) \<Rightarrow>
                     (Some (s\<lparr>sn_proxy := pid, sn_policy_id := policy_id, sn_rules := r,
                        sn_general := True\<rparr>), None))))))"

section \<open>Creating the proxy\<close>

record create_spec =
  cs_image :: string
  cs_user :: string
  cs_cmd :: "string list"
  cs_labels :: "string \<rightharpoonup> string"
  cs_runtime :: string
  cs_cap_drop :: "string list"
  cs_security_opt :: "string list"
  cs_network :: string

datatype engine_call =
    ImageInspect string
  | NetworkInspect string
  | NetworkCreate string string string "string \<rightharpoonup> string"
  | ContainerInspect string
  | ContainerCreate string create_spec
  | ContainerStart string

datatype engine_reply =
    Failed string
  | Missing
  | Done
  | ImageIs "(string \<rightharpoonup> string) option"
  | NetworkIs string "string \<rightharpoonup> string"
  | ContainerIs container
  | Created string

type_synonym engine = "engine_call list \<Rightarrow> engine_call \<Rightarrow> engine_reply"
type_synonym 'a engine_io = "(engine_call list, egress_error, 'a) io"

definition call :: "engine \<Rightarrow> engine_call \<Rightarrow> engine_reply engine_io" where
  "call en c h = (Inr (en h c), h @ [c])"

definition effectful :: "engine_call \<Rightarrow> bool" where
  "effectful c = (case c of NetworkCreate _ _ _ _ \<Rightarrow> True | ContainerCreate _ _ \<Rightarrow> True
     | ContainerStart _ \<Rightarrow> True | _ \<Rightarrow> False)"

text \<open>A call that answers \<open>Done\<close> or an id, anything else being the call's error.\<close>

definition call_done :: "engine \<Rightarrow> engine_call \<Rightarrow> unit engine_io" where
  "call_done en c = bindIO (call en c) (\<lambda>r. case r of
     Done \<Rightarrow> returnIO () | Created _ \<Rightarrow> returnIO ()
   | Failed m \<Rightarrow> throwIO (EngineErr m) | _ \<Rightarrow> throwIO (EngineErr ''unexpected reply''))"

definition image_ok :: "string \<Rightarrow> (string \<rightharpoonup> string) option \<Rightarrow> bool" where
  "image_ok version ls = (case ls of None \<Rightarrow> False | Some m \<Rightarrow>
     label m ''io.codex-dock.proxy-protocol'' = ''external-store-v1'' \<and>
     label m ''io.codex-dock.proxy-build'' = version)"

definition proxy_labels :: "(rules \<Rightarrow> string) \<Rightarrow> rules \<Rightarrow> (string \<rightharpoonup> string)" where
  "proxy_labels digest r = [''io.codex-dock.proxy-layout'' \<mapsto> ''split-v3-oauth-state'',
     ''io.codex-dock.forward-policy'' \<mapsto> rules_id digest r]"

definition proxy_spec :: "(rules \<Rightarrow> string) \<Rightarrow> string \<Rightarrow> string \<Rightarrow> rules \<Rightarrow> create_spec" where
  "proxy_spec digest img net r =
     \<lparr>cs_image = img, cs_user = ''0:0'', cs_cmd = proxy_args r, cs_labels = proxy_labels digest r,
      cs_runtime = ''runc'', cs_cap_drop = [''ALL''], cs_security_opt = [''no-new-privileges:true''],
      cs_network = net\<rparr>"

definition proxy_usable :: "(rules \<Rightarrow> string) \<Rightarrow> string \<Rightarrow> rules \<Rightarrow> container \<Rightarrow> bool" where
  "proxy_usable digest img r c = (case (ct_config c, ct_state c) of
     (Some cfg, Some st) \<Rightarrow> cfg_image cfg = img \<and>
        label (cfg_labels cfg) ''io.codex-dock.proxy-layout'' = ''split-v3-oauth-state'' \<and>
        label (cfg_labels cfg) ''io.codex-dock.forward-policy'' = rules_id digest r
   | _ \<Rightarrow> False)"

definition ensure_network :: "engine \<Rightarrow> string \<Rightarrow> string \<Rightarrow> unit engine_io" where
  "ensure_network en net bridge = bindIO (call en (NetworkInspect net)) (\<lambda>r. case r of
     NetworkIs driver ls \<Rightarrow>
       whenE (driver \<noteq> ''bridge'' \<or> label ls ''codex-dock.managed'' \<noteq> ''true'') NetworkNotManaged
   | Missing \<Rightarrow> call_done en (NetworkCreate net ''bridge'' bridge [''codex-dock.managed'' \<mapsto> ''true''])
   | Failed m \<Rightarrow> throwIO (EngineErr m)
   | _ \<Rightarrow> throwIO (EngineErr ''unexpected reply''))"

definition ensure_container ::
  "engine \<Rightarrow> (rules \<Rightarrow> string) \<Rightarrow> string \<Rightarrow> string \<Rightarrow> rules \<Rightarrow> string \<Rightarrow> unit engine_io" where
  "ensure_container en digest img net r name = bindIO (call en (ContainerInspect name)) (\<lambda>reply. case reply of
     ContainerIs c \<Rightarrow>
       bindIO (whenE (\<not> proxy_usable digest img r c) ProxyMismatch) (\<lambda>_.
         if (case ct_state c of Some st \<Rightarrow> st_running st | None \<Rightarrow> False) then returnIO ()
         else call_done en (ContainerStart name))
   | Missing \<Rightarrow>
       bindIO (call en (ContainerCreate name (proxy_spec digest img net r))) (\<lambda>reply. case reply of
         Created cid \<Rightarrow> call_done en (ContainerStart cid)
       | Failed m \<Rightarrow> throwIO (EngineErr m)
       | _ \<Rightarrow> throwIO (EngineErr ''unexpected reply''))
   | Failed m \<Rightarrow> throwIO (EngineErr m)
   | _ \<Rightarrow> throwIO (EngineErr ''unexpected reply''))"

definition ensure ::
  "engine \<Rightarrow> (rules \<Rightarrow> string) \<Rightarrow> string \<Rightarrow> string \<Rightarrow> string \<Rightarrow> string \<Rightarrow> rules \<Rightarrow> string engine_io" where
  "ensure en digest version net bridge image0 r =
     bindIO (whenE (\<not> block_private r \<or> \<not> configured r) NeedsPrivateBlock) (\<lambda>_.
     bindIO (liftE (case compile_rules r of Inl e \<Rightarrow> Inl (PolicyErr e) | Inr c \<Rightarrow> Inr ())) (\<lambda>_.
     (let img = (if image0 = [] then ''codex-dock-proxy:latest'' else image0);
          name = proxy_name digest r in
      bindIO (call en (ImageInspect img)) (\<lambda>reply. case reply of
        ImageIs ls \<Rightarrow>
          bindIO (whenE (\<not> image_ok version ls) IncompatibleImage) (\<lambda>_.
          bindIO (ensure_network en net bridge) (\<lambda>_.
          bindIO (ensure_container en digest img net r name) (\<lambda>_.
            returnIO (''http://'' @ name @ '':18082''))))
      | Failed m \<Rightarrow> throwIO (EngineErr m)
      | _ \<Rightarrow> throwIO (EngineErr ''unexpected reply'')))))"

section \<open>Narrowing lemmas\<close>

lemma within_any_True:
  "within_any d as = Inr True \<Longrightarrow> \<exists>a \<in> set as. domain_within d a = Inr True"
  by (induction as) (auto split: sum.splits if_splits)

lemma domains_granted_None:
  "domains_granted as ds = None \<Longrightarrow> as \<noteq> [] \<Longrightarrow> d \<in> set ds \<Longrightarrow> within_any d as = Inr True"
  by (induction ds) (auto split: sum.splits if_splits)

lemma narrow_rules_Inr:
  assumes "narrow_rules host ds = Inr r"
  shows "ds \<noteq> []" and "\<exists>c. compile_rules host = Inr c" and "\<exists>c. compile_rules r = Inr c"
    and "\<not> rules_grant_nothing host" and "domains_granted (allow_domains host) ds = None"
    and "r = host\<lparr>allow_domains := ds, block_private := True\<rparr>"
  using assms
  by (auto simp: narrow_rules_def rules_grant_nothing_def Let_def split: if_splits sum.splits option.splits)

lemma domains_match_iff:
  "domains_match vs h \<longleftrightarrow> (\<exists>v \<in> set vs. \<exists>c. compile_domain v = Inr c \<and> rule_matches c h)"
proof -
  have "(case compile_domain v of Inl e \<Rightarrow> False | Inr c \<Rightarrow> rule_matches c h) \<longleftrightarrow>
      (\<exists>c. compile_domain v = Inr c \<and> rule_matches c h)" for v
    by (cases "compile_domain v") auto
  then show ?thesis by (simp add: domains_match_def list_ex_iff)
qed

lemma narrow_domains_match:
  assumes "narrow_rules host ds = Inr r" and "domains_match ds h" and "allow_domains host \<noteq> []"
  shows "domains_match (allow_domains host) h"
proof -
  note n = narrow_rules_Inr [OF assms(1)]
  obtain v c where v: "v \<in> set ds" "compile_domain v = Inr c" "rule_matches c h"
    using assms(2) by (auto simp: domains_match_iff)
  have "within_any v (allow_domains host) = Inr True"
    using domains_granted_None [OF n(5) assms(3) v(1)] .
  then obtain a where a: "a \<in> set (allow_domains host)" "domain_within v a = Inr True"
    by (auto dest: within_any_True)
  obtain hc where "compile_rules host = Inr hc" using n(2) by blast
  then have "mapE compile_domain (allow_domains host) = Inr (c_allow_domains hc)"
    by (rule compile_rules_Inr)
  from mapE_Inr_all [OF this a(1)] obtain p where p: "compile_domain a = Inr p" by auto
  from domain_within_correct [OF v(2) p] a(2) v(3) have "rule_matches p h" by simp
  with a(1) p show ?thesis by (auto simp: domains_match_iff)
qed

lemma narrow_permits:
  assumes "narrow_rules host ds = Inr r"
  shows "permits_destination r d \<Longrightarrow> permits_destination host d"
    and "permits_address r a \<Longrightarrow> permits_address host a"
  using narrow_rules_Inr(4,6) [OF assms] narrow_domains_match [OF assms]
  by (auto simp: permits_destination_def permits_address_def Let_def rules_grant_nothing_def
      narrow_rules_Inr(1) [OF assms] split: sum.splits)

lemma preset_loop_Inr:
  "preset_loop host name ds ps = Inr (r, off) \<Longrightarrow>
   (off \<and> r = host \<and> ds = []) \<or> (\<not> off \<and> (\<exists>ds'. narrow_rules host ds' = Inr r \<and> (ds \<noteq> [] \<longrightarrow> ds' = ds)))"
  by (induction ps) (auto simp: Let_def result_simps split: if_splits)

lemma resolve_preset_Inr:
  assumes "resolve_preset host name ds = Inr (r, off)"
  shows "r = host \<and> ds = [] \<or> \<not> off \<and> (\<exists>ds'. narrow_rules host ds' = Inr r \<and> (ds \<noteq> [] \<longrightarrow> ds' = ds))"
  using assms preset_loop_Inr [of host name ds presets r off]
  by (auto simp: resolve_preset_def result_simps split: if_splits sum.splits)

section \<open>Round trip of the launch arguments\<close>

lemma loop_flag_args:
  assumes "str_cut CHR ''='' key = (key, [], False)" and "arg_kind_of key = KnownArg"
    and "\<And>v r. v \<in> set vs \<Longrightarrow> apply_flag key v (r, role) = Inr (upd v r, role)"
  shows "proxy_arg_loop (flag_args key vs @ rest) (r, role) = proxy_arg_loop rest (fold upd vs r, role)"
  using assms(3) by (induction vs arbitrary: r) (simp_all add: flag_args_def assms(1,2))

lemma fold_append_fields:
  "fold (\<lambda>v r. r\<lparr>allow_domains := allow_domains r @ [v]\<rparr>) vs r = r\<lparr>allow_domains := allow_domains r @ vs\<rparr>"
  "fold (\<lambda>v r. r\<lparr>deny_domains := deny_domains r @ [v]\<rparr>) vs r = r\<lparr>deny_domains := deny_domains r @ vs\<rparr>"
  "fold (\<lambda>v r. r\<lparr>allow_cidrs := allow_cidrs r @ [v]\<rparr>) vs r = r\<lparr>allow_cidrs := allow_cidrs r @ vs\<rparr>"
  "fold (\<lambda>v r. r\<lparr>deny_cidrs := deny_cidrs r @ [v]\<rparr>) vs r = r\<lparr>deny_cidrs := deny_cidrs r @ vs\<rparr>"
  by (induction vs arbitrary: r) simp_all

lemma loop_allow_ports:
  assumes "\<forall>n \<in> set ns. parse_ports (split_on CHR '','' (show_int n)) = Inr [n]"
  shows "proxy_arg_loop (flag_args ''--forward-allow-port'' (map show_int ns) @ rest) (r, role) =
     proxy_arg_loop rest (r\<lparr>allow_ports := allow_ports r @ ns\<rparr>, role)"
  using assms by (induction ns arbitrary: r) (simp_all add: flag_args_def arg_kind_of_def apply_flag_def)

lemma loop_deny_ports:
  assumes "\<forall>n \<in> set ns. parse_ports (split_on CHR '','' (show_int n)) = Inr [n]"
  shows "proxy_arg_loop (flag_args ''--forward-deny-port'' (map show_int ns) @ rest) (r, role) =
     proxy_arg_loop rest (r\<lparr>deny_ports := deny_ports r @ ns\<rparr>, role)"
  using assms by (induction ns arbitrary: r) (simp_all add: flag_args_def arg_kind_of_def apply_flag_def)

lemma loop_domains_cidrs:
  "proxy_arg_loop (flag_args ''--forward-allow-domain'' vs @ rest) (r, role) =
     proxy_arg_loop rest (r\<lparr>allow_domains := allow_domains r @ vs\<rparr>, role)"
  "proxy_arg_loop (flag_args ''--forward-deny-domain'' vs @ rest) (r, role) =
     proxy_arg_loop rest (r\<lparr>deny_domains := deny_domains r @ vs\<rparr>, role)"
  "proxy_arg_loop (flag_args ''--forward-allow-cidr'' vs @ rest) (r, role) =
     proxy_arg_loop rest (r\<lparr>allow_cidrs := allow_cidrs r @ vs\<rparr>, role)"
  "proxy_arg_loop (flag_args ''--forward-deny-cidr'' vs @ rest) (r, role) =
     proxy_arg_loop rest (r\<lparr>deny_cidrs := deny_cidrs r @ vs\<rparr>, role)"
  using loop_flag_args [where key = "''--forward-allow-domain''" and
      upd = "\<lambda>v r. r\<lparr>allow_domains := allow_domains r @ [v]\<rparr>"]
    loop_flag_args [where key = "''--forward-deny-domain''" and
      upd = "\<lambda>v r. r\<lparr>deny_domains := deny_domains r @ [v]\<rparr>"]
    loop_flag_args [where key = "''--forward-allow-cidr''" and
      upd = "\<lambda>v r. r\<lparr>allow_cidrs := allow_cidrs r @ [v]\<rparr>"]
    loop_flag_args [where key = "''--forward-deny-cidr''" and
      upd = "\<lambda>v r. r\<lparr>deny_cidrs := deny_cidrs r @ [v]\<rparr>"]
  by (simp_all add: arg_kind_of_def apply_flag_def fold_append_fields)

lemma show_port_parses:
  assumes "1 \<le> n" and "n \<le> 65535"
  shows "parse_ports (split_on CHR '','' (show_int n)) = Inr [n]"
proof -
  have "CHR '','' \<notin> set (show_int n)"
    using assms show_nat_digits [of "nat n"] digit_not_punct by (auto simp: show_int_def list_all_iff)
  moreover have "atoi (show_int n) = Some n"
    using assms atoi_show_nat [of "nat n"] by (simp add: show_int_def)
  ultimately show ?thesis by (simp add: split_on_single)
qed

lemma compiled_ports_parse:
  assumes "compile_rules r = Inr c" and "n \<in> set (allow_ports r) \<union> set (deny_ports r)"
  shows "parse_ports (split_on CHR '','' (show_int n)) = Inr [n]"
proof -
  have "\<exists>w. compile_port n = Inr w"
    using assms(2) compile_rules_Inr(5,6) [OF assms(1)] by (auto dest: mapE_Inr_all)
  then show ?thesis by (auto simp: compile_port_Inr intro: show_port_parses)
qed

lemma proxy_args_loop:
  assumes "compile_rules r = Inr c" and "block_private r"
  shows "proxy_arg_loop (proxy_args r) (no_rules, []) = Inr (r, ''egress'')"
proof -
  have a: "proxy_arg_loop (flag_args ''--forward-allow-port'' (map show_int (allow_ports r)) @ rest) (q, role) =
     proxy_arg_loop rest (q\<lparr>allow_ports := allow_ports q @ allow_ports r\<rparr>, role)" for rest q role
    by (rule loop_allow_ports) (auto intro: compiled_ports_parse [OF assms(1)])
  have d: "proxy_arg_loop (flag_args ''--forward-deny-port'' (map show_int (deny_ports r)) @ rest) (q, role) =
     proxy_arg_loop rest (q\<lparr>deny_ports := deny_ports q @ deny_ports r\<rparr>, role)" for rest q role
    by (rule loop_deny_ports) (auto intro: compiled_ports_parse [OF assms(1)])
  note d0 = d [of "[]", simplified]
  have hd: "proxy_arg_loop ([''proxy'', ''serve'', ''--listen'', ''0.0.0.0:18082'', ''--role'', ''egress'',
      ''--block-private'', if default_deny r then ''--forward-default-deny'' else ''--forward-default-deny=false''] @ rest)
      (no_rules, []) = proxy_arg_loop rest (no_rules\<lparr>block_private := True, default_deny := default_deny r\<rparr>, ''egress'')"
    for rest
    by (simp add: arg_kind_of_def apply_flag_def bool_flag_def parse_bool_def)
  show ?thesis
    unfolding proxy_args_def hd loop_domains_cidrs a d0
    using assms(2) by (simp add: no_rules_def)
qed

section \<open>Lemmas on the engine calls\<close>

text \<open>The calls an operation adds to the history.\<close>

definition calls_within :: "(engine_call \<Rightarrow> bool) \<Rightarrow> 'a engine_io \<Rightarrow> bool" where
  "calls_within P m \<longleftrightarrow> (\<forall>h. \<exists>cs. snd (m h) = h @ cs \<and> list_all P cs)"

lemma calls_within_unit [simp, intro]:
  "calls_within P (returnIO x)" "calls_within P (throwIO e)" "calls_within P (liftE r)"
  "calls_within P (whenE b e)"
  by (simp_all add: calls_within_def whenE_def)

lemma calls_within_call [simp]: "calls_within P (call en c) \<longleftrightarrow> P c"
  by (simp add: calls_within_def call_def)

lemma calls_within_bind:
  assumes "calls_within P m" and "\<And>x. calls_within P (f x)"
  shows "calls_within P (bindIO m f)"
  unfolding calls_within_def
proof
  fix h
  obtain cs where cs: "snd (m h) = h @ cs" "list_all P cs"
    using assms(1) unfolding calls_within_def by blast
  show "\<exists>cs. snd (bindIO m f h) = h @ cs \<and> list_all P cs"
  proof (cases "fst (m h)")
    case (Inl e)
    with cs show ?thesis by (cases "m h") (auto simp: bindIO_def)
  next
    case (Inr x)
    obtain cs' where "snd (f x (h @ cs)) = (h @ cs) @ cs'" "list_all P cs'"
      using assms(2) [of x] unfolding calls_within_def by blast
    with Inr cs show ?thesis by (cases "m h") (auto simp: bindIO_def)
  qed
qed

lemma calls_within_done: "P c \<Longrightarrow> calls_within P (call_done en c)"
  unfolding call_done_def by (rule calls_within_bind) (auto split: engine_reply.split)

text \<open>What the creation of the proxy may ask of the engine.\<close>

definition proxy_call :: "(rules \<Rightarrow> string) \<Rightarrow> rules \<Rightarrow> engine_call \<Rightarrow> bool" where
  "proxy_call digest r c = (case c of
     ContainerCreate name spec \<Rightarrow>
       name = proxy_name digest r \<and> parse_proxy_rules (cs_cmd spec) = Inr r \<and>
       label (cs_labels spec) ''io.codex-dock.forward-policy'' = rules_id digest r \<and>
       cs_cap_drop spec = [''ALL''] \<and> cs_security_opt spec = [''no-new-privileges:true'']
   | _ \<Rightarrow> True)"

lemma proxy_args_parse:
  "compile_rules r = Inr c \<Longrightarrow> block_private r \<Longrightarrow> parse_proxy_rules (proxy_args r) = Inr r"
  by (simp add: parse_proxy_rules_def proxy_args_loop)

lemma ensure_calls:
  assumes "compile_rules r = Inr c" and "block_private r"
  shows "calls_within (proxy_call digest r) (ensure en digest version net bridge img r)"
proof -
  have nw: "calls_within (proxy_call digest r) (ensure_network en net bridge)"
    unfolding ensure_network_def
    by (intro calls_within_bind) (auto simp: proxy_call_def intro: calls_within_done split: engine_reply.split)
  have create: "proxy_call digest r (ContainerCreate (proxy_name digest r) (proxy_spec digest i net r))" for i
    using proxy_args_parse [OF assms]
    by (simp add: proxy_call_def proxy_spec_def proxy_labels_def label_def)
  have ct: "calls_within (proxy_call digest r) (ensure_container en digest i net r (proxy_name digest r))" for i
    unfolding ensure_container_def
    by (intro calls_within_bind)
      (auto simp: create proxy_call_def [of _ _ "ContainerInspect _"] proxy_call_def [of _ _ "ContainerStart _"]
        intro!: calls_within_done calls_within_bind split: engine_reply.split option.split)
  show ?thesis
    unfolding ensure_def Let_def
    by (intro calls_within_bind)
      (auto simp: nw ct proxy_call_def [of _ _ "ImageInspect _"]
        intro!: calls_within_bind split: engine_reply.split)
qed

section \<open>Properties\<close>

definition sample_host :: rules where
  "sample_host = no_rules\<lparr>allow_domains := [''a.io''], deny_ports := [22], default_deny := True\<rparr>"

text \<open>C1: a worker never widens the host policy.  Whatever preset and domains are asked for, when
  resolution succeeds every destination and every address the resulting rules permit is permitted
  by the host rules; and a narrowed worker (not the host policy itself) blocks private addresses
  and reaches only the domains that were asked for.\<close>

theorem worker_never_widens_host:
  assumes "resolve_preset host name domains = Inr (r, off)"
  shows "(permits_destination r d \<longrightarrow> permits_destination host d) \<and>
    (permits_address r a \<longrightarrow> permits_address host a) \<and>
    (domains \<noteq> [] \<longrightarrow> \<not> off \<and> block_private r \<and> allow_domains r = domains)"
proof -
  consider "r = host" "domains = []" | ds' where "\<not> off" "narrow_rules host ds' = Inr r"
      "domains \<noteq> [] \<longrightarrow> ds' = domains"
    using resolve_preset_Inr [OF assms] by blast
  then show ?thesis
  proof cases
    case 2
    then show ?thesis using narrow_permits [OF 2(2)] narrow_rules_Inr(6) [OF 2(2)] by simp
  qed simp
qed

lemma worker_never_widens_host_witness:
  "permits_destination sample_host sample_destination"
proof -
  have r: "resolve_preset sample_host ''api'' [''x.a.io''] =
      Inr (sample_host\<lparr>allow_domains := [''x.a.io''], block_private := True\<rparr>, False)" by code_simp
  have "permits_destination (sample_host\<lparr>allow_domains := [''x.a.io''], block_private := True\<rparr>)
      sample_destination" by code_simp
  with worker_never_widens_host [OF r] show ?thesis by blast
qed

text \<open>the launch arguments of a policy proxy round-trip.  For every rule set that compiles and
  blocks private addresses, parsing the argument vector built for the proxy returns exactly these
  rules, whatever the configured strings contain.\<close>

theorem proxy_args_roundtrip:
  assumes "compile_rules r = Inr c" and "block_private r"
  shows "parse_proxy_rules (proxy_args r) = Inr r"
  using assms by (rule proxy_args_parse)

lemma proxy_args_roundtrip_witness:
  "parse_proxy_rules (proxy_args sample_rules) = Inr sample_rules"
  by (rule proxy_args_roundtrip [OF sample_compiles]) code_simp

text \<open>creating the proxy is guarded.  Any call that changes the engine is made only for rules that
  block private addresses, restrict something and compile; and the only container it ever creates
  carries the policy's name and identity, drops every capability, and its command parses back to
  exactly these rules, so that a later inspection reports them.\<close>

theorem ensure_guarded:
  assumes "snd (ensure en digest version net bridge img r []) = cs" and "c \<in> set cs"
  shows "block_private r \<and> configured r \<and> (\<exists>p. compile_rules r = Inr p) \<and> proxy_call digest r c"
proof -
  have guard: "block_private r \<and> configured r"
    using assms by (cases "block_private r \<and> configured r") (auto simp: ensure_def bindIO_def)
  moreover have "\<exists>p. compile_rules r = Inr p"
    using assms guard by (cases "compile_rules r") (auto simp: ensure_def bindIO_def)
  moreover from this guard obtain p where "compile_rules r = Inr p" "block_private r" by blast
  then have "calls_within (proxy_call digest r) (ensure en digest version net bridge img r)"
    by (rule ensure_calls)
  then have "list_all (proxy_call digest r) cs"
    unfolding calls_within_def using assms(1) by (metis append_Nil)
  with assms(2) have "proxy_call digest r c" by (simp add: list_all_iff)
  ultimately show ?thesis by blast
qed

definition sample_engine :: engine where
  "sample_engine h c = (case c of
     ImageInspect i \<Rightarrow> ImageIs (Some [''io.codex-dock.proxy-protocol'' \<mapsto> ''external-store-v1'',
       ''io.codex-dock.proxy-build'' \<mapsto> ''1''])
   | NetworkInspect n \<Rightarrow> Missing | NetworkCreate n d b l \<Rightarrow> Done
   | ContainerInspect n \<Rightarrow> Missing | ContainerCreate n s \<Rightarrow> Created ''id'' | ContainerStart n \<Rightarrow> Done)"

lemma ensure_sample_calls:
  assumes "compile_rules r = Inr c" and "block_private r" and "configured r"
  shows "snd (ensure sample_engine digest ''1'' ''net'' ''br'' ''img'' r []) =
    [ImageInspect ''img'', NetworkInspect ''net'',
     NetworkCreate ''net'' ''bridge'' ''br'' [''codex-dock.managed'' \<mapsto> ''true''],
     ContainerInspect (proxy_name digest r),
     ContainerCreate (proxy_name digest r) (proxy_spec digest ''img'' ''net'' r), ContainerStart ''id'']"
  using assms
  by (simp add: ensure_def bindIO_def call_def sample_engine_def image_ok_def label_def
      ensure_network_def ensure_container_def call_done_def Let_def)

lemma ensure_guarded_witness:
  "proxy_call (\<lambda>r. ''0123456789abcdef00'') sample_rules
     (ContainerCreate ''codex-http-policy-0123456789abcdef''
       (proxy_spec (\<lambda>r. ''0123456789abcdef00'') ''img'' ''net'' sample_rules))"
proof -
  have "block_private sample_rules" "configured sample_rules"
    "proxy_name (\<lambda>r. ''0123456789abcdef00'') sample_rules = ''codex-http-policy-0123456789abcdef''"
    by code_simp+
  with ensure_sample_calls [OF sample_compiles] have
    "ContainerCreate ''codex-http-policy-0123456789abcdef''
       (proxy_spec (\<lambda>r. ''0123456789abcdef00'') ''img'' ''net'' sample_rules) \<in>
     set (snd (ensure sample_engine (\<lambda>r. ''0123456789abcdef00'') ''1'' ''net'' ''br'' ''img'' sample_rules []))"
    by simp
  from ensure_guarded [OF refl this] show ?thesis by blast
qed

text \<open>an inspection that reports general egress reports the truth: the rules are those the running
  proxy's command parses to, they compile, their identity is the label the proxy advertises, and a
  quarantined worker that has stopped never reports general egress.\<close>

theorem inspect_reports_running_policy:
  assumes "inspect digest decode_names parse_url find_ct worker = (Some s, None)" and "sn_general s"
  shows "\<exists>reference p pc. find_ct reference = Inr p \<and> ct_config p = Some pc \<and> sn_proxy s = ct_id p \<and>
     parse_proxy_rules (cfg_cmd pc) = Inr (sn_rules s) \<and> (\<exists>c. compile_rules (sn_rules s) = Inr c) \<and>
     label (cfg_labels pc) ''io.codex-dock.forward-policy'' = sn_policy_id s \<and>
     sn_policy_id s = rules_id digest (sn_rules s) \<and> (\<not> sn_quarantined s \<or> sn_pending s)"
proof -
  have ip: "\<exists>p pc. find_ct reference = Inr p \<and> ct_config p = Some pc \<and> pid = ct_id p \<and>
      parse_proxy_rules (cfg_cmd pc) = Inr r \<and>
      label (cfg_labels pc) ''io.codex-dock.forward-policy'' = policy_id \<and> policy_id = rules_id digest r"
    if "inspect_proxy digest find_ct v host reference = Inr (pid, policy_id, r)" for v host reference pid policy_id r
    using that by (auto simp: inspect_proxy_def result_simps Let_def split: option.splits if_splits)
  have comp: "\<exists>c. compile_rules r = Inr c" if "parse_proxy_rules args = Inr r" for args r
    using that by (auto simp: parse_proxy_rules_def result_simps split: if_splits sum.splits)
  obtain v host reference where
    v: "inspect_proxy digest find_ct v host reference = Inr (sn_proxy s, sn_policy_id s, sn_rules s)"
    and q: "\<not> sn_quarantined s \<or> sn_pending s"
    using assms by (auto simp: inspect_def Let_def result_simps split: sum.splits option.splits if_splits)
  from ip [OF v] obtain p pc where "find_ct reference = Inr p" "ct_config p = Some pc" "sn_proxy s = ct_id p"
    "parse_proxy_rules (cfg_cmd pc) = Inr (sn_rules s)"
    "label (cfg_labels pc) ''io.codex-dock.forward-policy'' = sn_policy_id s"
    "sn_policy_id s = rules_id digest (sn_rules s)" by blast
  with q comp show ?thesis by blast
qed

definition sample_worker :: container where
  "sample_worker = \<lparr>ct_id = ''w1'', ct_config = Some \<lparr>cfg_image = ''i'',
     cfg_labels = [''codex-dock.managed'' \<mapsto> ''true''], cfg_env = [''A=1'', ''HTTP_PROXY=http://p:18082''],
     cfg_cmd = []\<rparr>, ct_state = None, ct_extra_hosts = None, ct_networks = None\<rparr>"

definition sample_proxy :: container where
  "sample_proxy = \<lparr>ct_id = ''p1'', ct_config = Some \<lparr>cfg_image = ''i'',
     cfg_labels = [''io.codex-dock.forward-policy'' \<mapsto> ''id''], cfg_env = [],
     cfg_cmd = proxy_args sample_rules\<rparr>, ct_state = None, ct_extra_hosts = None, ct_networks = None\<rparr>"

definition sample_find :: lookup where
  "sample_find n = (if n = ''w'' then Inr sample_worker else if n = ''p'' then Inr sample_proxy
     else Inl (EngineErr ''no such container''))"

lemma inspect_reports_running_policy_witness:
  "\<exists>pc. ct_config sample_proxy = Some pc \<and> parse_proxy_rules (cfg_cmd pc) = Inr sample_rules"
proof -
  have p: "parse_addr ''p'' = None" "block_private sample_rules" by code_simp+
  have "parse_proxy_rules (proxy_args sample_rules) = Inr sample_rules"
    by (rule proxy_args_parse [OF sample_compiles p(2)])
  with p have "inspect (\<lambda>r. ''id'') (\<lambda>s. None) (\<lambda>u. Some (False, ''p'')) sample_find ''w'' =
     (Some \<lparr>sn_worker = ''w1'', sn_proxy = ''p1'', sn_policy_id = ''id'', sn_general = True,
        sn_quarantined = False, sn_pending = False, sn_rules = sample_rules\<rparr>, None)"
    by (simp add: inspect_def inspect_proxy_def sample_find_def sample_worker_def sample_proxy_def
        label_def http_proxy_of_def trim_prefix_def proxy_reference_def rules_id_def Let_def)
  from inspect_reports_running_policy [OF this] show ?thesis
    by (auto simp: sample_find_def sample_proxy_def sample_worker_def split: if_splits)
qed

text \<open>the policy identity does not depend on the order in which rules are written: two rule sets
  whose lists are permutations of one another get the same proxy, and the identity's canonical
  form permits the same destinations and addresses.\<close>

theorem policy_identity_canonical:
  assumes "mset (allow_domains r) = mset (allow_domains s)" and "mset (deny_domains r) = mset (deny_domains s)"
    and "mset (allow_cidrs r) = mset (allow_cidrs s)" and "mset (deny_cidrs r) = mset (deny_cidrs s)"
    and "mset (allow_ports r) = mset (allow_ports s)" and "mset (deny_ports r) = mset (deny_ports s)"
    and "block_private r = block_private s" and "default_deny r = default_deny s"
  shows "proxy_name digest r = proxy_name digest s \<and>
    (permits_destination r d \<longleftrightarrow> permits_destination s d) \<and> (permits_address r a \<longleftrightarrow> permits_address s a)"
proof -
  have sort: "sort vs = sort ws" if "mset vs = mset ws" for vs ws :: "'b::linorder list"
    using that by (metis sorted_list_of_multiset_mset)
  have can: "canonical r = canonical s"
    by (intro rules.equality) (simp_all add: canonical_def assms(7,8) sort [OF assms(1)] sort [OF assms(2)]
        sort [OF assms(3)] sort [OF assms(4)] sort [OF assms(5)] sort [OF assms(6)])
  have dm: "domains_match vs h = domains_match ws h" "cidrs_match vs x = cidrs_match ws x"
    if "mset vs = mset ws" for vs ws h x
    using mset_eq_setD [OF that] by (simp_all add: domains_match_def cidrs_match_def list_ex_iff)
  have empty: "allow_domains r = [] \<longleftrightarrow> allow_domains s = []" "allow_cidrs r = [] \<longleftrightarrow> allow_cidrs s = []"
    "allow_ports r = [] \<longleftrightarrow> allow_ports s = []"
    using assms(1,3,5) by (metis mset_zero_iff)+
  have "permits_destination r d = permits_destination s d"
    unfolding permits_destination_def rules_grant_nothing_def
    by (simp only: dm [OF assms(1)] dm [OF assms(2)] empty mset_eq_setD [OF assms(5)]
        mset_eq_setD [OF assms(6)] assms(8))
  moreover have "permits_address r a = permits_address s a"
    unfolding permits_address_def rules_grant_nothing_def
    by (simp only: dm [OF assms(3)] dm [OF assms(4)] empty assms(7,8))
  ultimately show ?thesis by (simp add: proxy_name_def rules_id_def can)
qed

lemma policy_identity_canonical_witness:
  "proxy_name (\<lambda>r. concat (allow_domains r)) (no_rules\<lparr>allow_domains := [''b.io'', ''a.io'']\<rparr>) =
   proxy_name (\<lambda>r. concat (allow_domains r)) (no_rules\<lparr>allow_domains := [''a.io'', ''b.io'']\<rparr>)"
  using policy_identity_canonical [of "no_rules\<lparr>allow_domains := [''b.io'', ''a.io'']\<rparr>"
      "no_rules\<lparr>allow_domains := [''a.io'', ''b.io'']\<rparr>"]
  by (simp add: no_rules_def)

end
