(* ===== verification/WorkerPolicy.thy ===== *)
theory WorkerPolicy
  imports GoStrings "HOL-Library.Multiset"
begin

text \<open>
  \<open>internal/workerpolicy\<close>: validation of the restrictions a worker may be launched with, and its
  temporary filesystems: normalisation, the memory budget in 64-bit arithmetic, the saved label
  and the comparison with what the guest observed.  Durations are integers of nanoseconds.  The
  JSON encoding of a storage list is the parameter \<open>marshal\<close>, its decoding \<open>decode\<close>, which
  also says whether data follows the value.
\<close>

section \<open>Filesystem, lifecycle and environment restrictions\<close>

datatype policy_error =
    RestrictedPath string | NegativeDuration | BadImageId | BadImageDigest | NegativeReadiness
  | EmptyProbe | EmptyHook | TooManyFilesystems | UncleanTarget | UnsupportedMedium | BadSize
  | ProtectedOverlap | FilesystemOverlap | LabelLimit | OverBudget | BadStorageJSON
  | TrailingStorageData | EmptyStorage | ObservationMismatch string

record filesystem =
  deny_read :: "string list"
  deny_write :: "string list"

definition restricted_path_ok :: "string \<Rightarrow> bool" where
  "restricted_path_ok p \<longleftrightarrow>
     prefix ''/workspace/'' p \<and> path_clean p = p \<and> \<not> contains_any p [CHR 0x00, CHR 0x0A, CHR 0x0D]"

definition validate_filesystem :: "filesystem \<Rightarrow> policy_error option" where
  "validate_filesystem f = first_err
     (first_err (\<lambda>p. if restricted_path_ok p then None else Some (RestrictedPath p)))
     [deny_read f, deny_write f]"

record lifecycle =
  max_lifetime :: int
  idle_timeout :: int
  retention :: int

definition validate_lifecycle :: "lifecycle \<Rightarrow> policy_error option" where
  "validate_lifecycle l = first_err (\<lambda>d. if d < 0 then Some NegativeDuration else None)
     [max_lifetime l, idle_timeout l, retention l]"

record environment =
  image_id :: string
  start_hooks :: "string list list"
  readiness :: "string list"
  readiness_timeout :: int

definition validate_environment :: "environment \<Rightarrow> policy_error option" where
  "validate_environment e =
     (if image_id e \<noteq> [] \<and> (\<not> prefix ''sha256:'' (image_id e) \<or> length (image_id e) \<noteq> 71)
        then Some BadImageId
      else if image_id e \<noteq> [] \<and> \<not> hex_decodes (trim_prefix (image_id e) ''sha256:'')
        then Some BadImageDigest
      else if readiness_timeout e < 0 then Some NegativeReadiness
      else if readiness e \<noteq> [] \<and> hd (readiness e) = [] then Some EmptyProbe
      else first_err (\<lambda>cmd. if cmd = [] \<or> hd cmd = [] then Some EmptyHook else None) (start_hooks e))"

section \<open>Temporary filesystems\<close>

record temp_storage =
  ts_target :: string
  ts_max_bytes :: "64 word"
  ts_medium :: string
  ts_lifetime :: string
  ts_executable :: bool

definition paths_overlap :: "string \<Rightarrow> string \<Rightarrow> bool" where
  "paths_overlap a b \<longleftrightarrow> a = ''/'' \<or> b = ''/'' \<or> a = b \<or> prefix (b @ ''/'') a \<or> prefix (a @ ''/'') b"

definition protected_paths :: "string list" where
  "protected_paths = [''/proc'', ''/sys'', ''/dev'', ''/run/codex-dock-guard'', ''/run/codex-dock-control'',
     ''/etc/hosts'', ''/etc/resolv.conf'', ''/etc/hostname'']"

definition with_defaults :: "temp_storage \<Rightarrow> temp_storage" where
  "with_defaults v = v\<lparr>ts_medium := (if ts_medium v = [] then ''memory'' else ts_medium v),
     ts_lifetime := (if ts_lifetime v = [] then ''vm'' else ts_lifetime v)\<rparr>"

definition target_ok :: "string \<Rightarrow> bool" where
  "target_ok t \<longleftrightarrow> is_abs t \<and> path_clean t = t \<and> t \<noteq> ''/'' \<and>
     \<not> contains_any t [CHR 0x00, CHR 0x0D, CHR 0x0A, CHR 0x09]"

definition size_ok :: "64 word \<Rightarrow> bool" where
  "size_ok n \<longleftrightarrow> 4096 \<le> sint n \<and> sint n \<le> 2 * 2 ^ 30 \<and> sint n mod 4096 = 0"

text \<open>One round of the loop of \<open>NormalizeTemporaryStorage\<close>; \<open>previous\<close> holds the earlier elements.\<close>

definition normalize_entry :: "temp_storage list \<Rightarrow> temp_storage \<Rightarrow> (policy_error, temp_storage) result" where
  "normalize_entry previous v0 =
     (let v = with_defaults v0 in
      if \<not> target_ok (ts_target v) then Inl UncleanTarget
      else if ts_medium v \<noteq> ''memory'' \<or> ts_lifetime v \<noteq> ''vm'' then Inl UnsupportedMedium
      else if \<not> size_ok (ts_max_bytes v) then Inl BadSize
      else if list_ex (paths_overlap (ts_target v)) protected_paths then Inl ProtectedOverlap
      else if list_ex (\<lambda>p. paths_overlap (ts_target v) (ts_target p)) previous then Inl FilesystemOverlap
      else Inr v)"

fun normalize_loop :: "temp_storage list \<Rightarrow> temp_storage list \<Rightarrow> (policy_error, temp_storage list) result" where
  "normalize_loop previous [] = Inr previous"
| "normalize_loop previous (v # vs) =
     (case normalize_entry previous v of Inl e \<Rightarrow> Inl e | Inr v' \<Rightarrow> normalize_loop (previous @ [v']) vs)"

definition label_limit :: "string \<Rightarrow> bool" where
  "label_limit s \<longleftrightarrow> 4096 < length s + length ''codex-dock.temporary-storage''"

definition normalize_temporary ::
  "(temp_storage list \<Rightarrow> string) \<Rightarrow> temp_storage list \<Rightarrow> (policy_error, temp_storage list) result" where
  "normalize_temporary marshal inp =
     (if inp = [] then Inr []
      else if 16 < length inp then Inl TooManyFilesystems
      else bindE (normalize_loop [] inp) (\<lambda>res.
        (let sorted = sort_key ts_target res in
         if label_limit (marshal sorted) then Inl LabelLimit else Inr sorted)))"

text \<open>The budget loop, with \<open>used\<close> a signed 64-bit sum.\<close>

fun budget_loop :: "64 word \<Rightarrow> 64 word \<Rightarrow> temp_storage list \<Rightarrow> policy_error option" where
  "budget_loop guest used [] = None"
| "budget_loop guest used (v # vs) =
     (if sint (ts_max_bytes v) \<le> 0 \<or> sint (guest - used) < sint (ts_max_bytes v) then Some OverBudget
      else budget_loop guest (used + ts_max_bytes v) vs)"

definition validate_budget :: "temp_storage list \<Rightarrow> 64 word \<Rightarrow> policy_error option" where
  "validate_budget storage guest = budget_loop guest 0 storage"

definition parse_temporary ::
  "(temp_storage list \<Rightarrow> string) \<Rightarrow> (string \<Rightarrow> (temp_storage list \<times> bool) option) \<Rightarrow> string \<Rightarrow>
   (policy_error, temp_storage list) result" where
  "parse_temporary marshal decode raw =
     (if raw = [] then Inr []
      else if label_limit raw then Inl LabelLimit
      else case decode raw of None \<Rightarrow> Inl BadStorageJSON | Some (storage, trailing) \<Rightarrow>
        if trailing then Inl TrailingStorageData
        else if storage = [] then Inl EmptyStorage
        else normalize_temporary marshal storage)"

definition mount_options :: "temp_storage \<Rightarrow> string" where
  "mount_options v = ''rw,nosuid,nodev,size='' @
     (if sint (ts_max_bytes v) < 0 then CHR ''-'' # show_nat (nat (- sint (ts_max_bytes v)))
      else show_nat (nat (sint (ts_max_bytes v)))) @
     '',mode=0700,'' @ (if ts_executable v then ''exec'' else ''noexec'')"

section \<open>The guest's observation\<close>

record observation =
  ob_target :: string
  ob_filesystem :: "64 word"
  ob_max_bytes :: "64 word"
  ob_uid :: "32 word"
  ob_gid :: "32 word"
  ob_mode :: "32 word"
  ob_flags :: "64 word"

definition observation_ok :: "temp_storage \<Rightarrow> observation \<Rightarrow> 32 word \<Rightarrow> 32 word \<Rightarrow> bool \<Rightarrow> bool" where
  "observation_ok spec got uid gid initial \<longleftrightarrow> \<not>
     (ob_target got \<noteq> ts_target spec \<or> ob_filesystem got \<noteq> 0x01021994 \<or>
      ob_max_bytes got \<noteq> ts_max_bytes spec \<or> ob_uid got \<noteq> uid \<or> ob_gid got \<noteq> gid \<or>
      (initial \<and> ob_mode got \<noteq> 448) \<or> and (ob_flags got) 1 \<noteq> 0 \<or>
      and (ob_flags got) (or 2 4) \<noteq> or 2 4 \<or> ((and (ob_flags got) 8 = 0) \<noteq> ts_executable spec))"

definition validate_observation ::
  "temp_storage \<Rightarrow> observation \<Rightarrow> 32 word \<Rightarrow> 32 word \<Rightarrow> bool \<Rightarrow> policy_error option" where
  "validate_observation spec got uid gid initial =
     (if observation_ok spec got uid gid initial then None else Some (ObservationMismatch (ts_target spec)))"

section \<open>Lemmas\<close>

lemma paths_overlap_sym: "paths_overlap a b \<longleftrightarrow> paths_overlap b a"
  by (auto simp: paths_overlap_def)

lemma paths_overlap_refl [simp]: "paths_overlap a a"
  by (simp add: paths_overlap_def)

definition entry_ok :: "temp_storage \<Rightarrow> bool" where
  "entry_ok v \<longleftrightarrow> target_ok (ts_target v) \<and> ts_medium v = ''memory'' \<and> ts_lifetime v = ''vm'' \<and>
     size_ok (ts_max_bytes v) \<and> \<not> list_ex (paths_overlap (ts_target v)) protected_paths"

definition disjoint_targets :: "temp_storage list \<Rightarrow> bool" where
  "disjoint_targets vs \<longleftrightarrow> sorted_wrt (\<lambda>a b. \<not> paths_overlap (ts_target a) (ts_target b)) vs"

lemma normalize_entry_Inr:
  "normalize_entry previous v = Inr w \<longleftrightarrow> w = with_defaults v \<and> entry_ok w \<and>
     (\<forall>p \<in> set previous. \<not> paths_overlap (ts_target w) (ts_target p))"
  by (auto simp: normalize_entry_def entry_ok_def Let_def list_ex_iff)

lemma disjoint_targets_snoc:
  "disjoint_targets (vs @ [v]) \<longleftrightarrow> disjoint_targets vs \<and> (\<forall>p \<in> set vs. \<not> paths_overlap (ts_target v) (ts_target p))"
  by (auto simp: disjoint_targets_def sorted_wrt_append paths_overlap_sym [of "ts_target v"])

lemma normalize_loop_Inr:
  "normalize_loop previous vs = Inr res \<Longrightarrow> disjoint_targets previous \<Longrightarrow> list_all entry_ok previous \<Longrightarrow>
   res = previous @ map with_defaults vs \<and> disjoint_targets res \<and> list_all entry_ok res"
proof (induction vs arbitrary: previous)
  case (Cons v vs)
  then obtain w where w: "normalize_entry previous v = Inr w"
    and rest: "normalize_loop (previous @ [w]) vs = Inr res" by (auto split: sum.splits)
  from w Cons.prems have "disjoint_targets (previous @ [w])" "list_all entry_ok (previous @ [w])" "w = with_defaults v"
    by (auto simp: normalize_entry_Inr disjoint_targets_snoc)
  with Cons.IH [OF rest] show ?case by auto
qed simp

lemma normalize_loop_total:
  "list_all entry_ok vs \<Longrightarrow> disjoint_targets (previous @ vs) \<Longrightarrow> normalize_loop previous vs = Inr (previous @ vs)"
proof (induction vs arbitrary: previous)
  case (Cons v vs)
  have "with_defaults v = v" using Cons.prems(1) by (simp add: with_defaults_def entry_ok_def)
  moreover have "\<forall>p \<in> set previous. \<not> paths_overlap (ts_target v) (ts_target p)"
    using Cons.prems(2) by (auto simp: disjoint_targets_def sorted_wrt_append paths_overlap_sym)
  ultimately have "normalize_entry previous v = Inr v"
    using Cons.prems(1) by (simp add: normalize_entry_Inr)
  then show ?case using Cons by simp
qed simp

lemma disjoint_targets_iff:
  "disjoint_targets vs \<longleftrightarrow>
     (\<forall>i j. i < length vs \<longrightarrow> j < length vs \<longrightarrow> i \<noteq> j \<longrightarrow> \<not> paths_overlap (ts_target (vs ! i)) (ts_target (vs ! j)))"
proof -
  show ?thesis
    unfolding disjoint_targets_def sorted_wrt_iff_nth_less
  proof (intro iffI allI impI)
    fix i j
    assume a: "\<forall>i j. i < j \<longrightarrow> j < length vs \<longrightarrow> \<not> paths_overlap (ts_target (vs ! i)) (ts_target (vs ! j))"
      and "i < length vs" "j < length vs" "i \<noteq> j"
    then show "\<not> paths_overlap (ts_target (vs ! i)) (ts_target (vs ! j))"
      using paths_overlap_sym [of "ts_target (vs ! i)" "ts_target (vs ! j)"] by (cases "i < j") auto
  qed auto
qed

lemma disjoint_targets_distinct: "disjoint_targets vs \<Longrightarrow> distinct vs"
  unfolding disjoint_targets_iff distinct_conv_nth by (metis paths_overlap_refl)

lemma disjoint_targets_set:
  "disjoint_targets vs \<longleftrightarrow> distinct vs \<and>
     (\<forall>a \<in> set vs. \<forall>b \<in> set vs. a \<noteq> b \<longrightarrow> \<not> paths_overlap (ts_target a) (ts_target b))"
proof
  assume d: "disjoint_targets vs"
  then have "distinct vs" by (rule disjoint_targets_distinct)
  with d show "distinct vs \<and> (\<forall>a \<in> set vs. \<forall>b \<in> set vs. a \<noteq> b \<longrightarrow> \<not> paths_overlap (ts_target a) (ts_target b))"
    unfolding disjoint_targets_iff by (metis in_set_conv_nth)
next
  assume "distinct vs \<and> (\<forall>a \<in> set vs. \<forall>b \<in> set vs. a \<noteq> b \<longrightarrow> \<not> paths_overlap (ts_target a) (ts_target b))"
  then show "disjoint_targets vs" unfolding disjoint_targets_iff by (metis nth_eq_iff_index_eq nth_mem)
qed

lemma disjoint_targets_sort [simp]: "disjoint_targets (sort_key f vs) \<longleftrightarrow> disjoint_targets vs"
  by (simp add: disjoint_targets_set)

lemma normalize_temporary_Inr:
  assumes "normalize_temporary marshal inp = Inr res"
  shows "res = sort_key ts_target (map with_defaults inp)" and "disjoint_targets res"
    and "list_all entry_ok res" and "length res \<le> 16" and "res \<noteq> [] \<Longrightarrow> \<not> label_limit (marshal res)"
  using assms normalize_loop_Inr [of "[]" inp]
  by (auto simp: normalize_temporary_def result_simps Let_def list_all_iff disjoint_targets_def [of "[]"]
      split: if_splits)

lemma sint_diff_in_range:
  fixes a b :: "64 word"
  assumes "0 \<le> sint b" and "sint b \<le> sint a"
  shows "sint (a - b) = sint a - sint b"
proof -
  have "sint a < 2 ^ 63" using sint_lt [of a] by simp
  with assms show ?thesis by (simp add: sint_word_ariths signed_take_bit_int_eq_self)
qed

lemma sint_add_in_range:
  fixes a b :: "64 word"
  assumes "0 \<le> sint a" and "0 \<le> sint b" and "sint a + sint b < 2 ^ 63"
  shows "sint (a + b) = sint a + sint b"
  using assms by (simp add: sint_word_ariths signed_take_bit_int_eq_self)

lemma budget_loop_iff:
  assumes "0 \<le> sint used" and "sint used \<le> sint guest"
  shows "budget_loop guest used vs = None \<longleftrightarrow> (\<forall>v \<in> set vs. 0 < sint (ts_max_bytes v)) \<and>
     sint used + sum_list (map (\<lambda>v. sint (ts_max_bytes v)) vs) \<le> sint guest"
  using assms
proof (induction vs arbitrary: used)
  case (Cons v vs)
  let ?n = "sint (ts_max_bytes v)"
  have diff: "sint (guest - used) = sint guest - sint used"
    using Cons.prems by (rule sint_diff_in_range)
  have nonneg: "0 \<le> sum_list (map (\<lambda>v. sint (ts_max_bytes v)) vs)" if "\<forall>v \<in> set vs. 0 < sint (ts_max_bytes v)"
    using that by (intro sum_list_nonneg) auto
  show ?case
  proof (cases "0 < ?n \<and> ?n \<le> sint guest - sint used")
    case True
    have "sint guest < 2 ^ 63" using sint_lt [of guest] by simp
    with True Cons.prems have "sint (used + ts_max_bytes v) = sint used + ?n"
      by (intro sint_add_in_range) auto
    with True Cons.prems Cons.IH [of "used + ts_max_bytes v"] show ?thesis
      by (simp add: diff add.assoc)
  next
    case False
    then have "budget_loop guest used (v # vs) \<noteq> None" by (auto simp: diff)
    moreover have "\<not> ((\<forall>w \<in> set (v # vs). 0 < sint (ts_max_bytes w)) \<and>
        sint used + sum_list (map (\<lambda>v. sint (ts_max_bytes v)) (v # vs)) \<le> sint guest)"
      using False nonneg by auto
    ultimately show ?thesis by blast
  qed
qed simp

section \<open>Properties\<close>

definition sample_storage :: "temp_storage list" where
  "sample_storage =
     [\<lparr>ts_target = ''/t/b'', ts_max_bytes = 8192, ts_medium = [], ts_lifetime = ''vm'', ts_executable = True\<rparr>,
      \<lparr>ts_target = ''/t/a'', ts_max_bytes = 4096, ts_medium = ''memory'', ts_lifetime = [], ts_executable = False\<rparr>]"

definition sample_normal :: "temp_storage list" where
  "sample_normal =
     [\<lparr>ts_target = ''/t/a'', ts_max_bytes = 4096, ts_medium = ''memory'', ts_lifetime = ''vm'', ts_executable = False\<rparr>,
      \<lparr>ts_target = ''/t/b'', ts_max_bytes = 8192, ts_medium = ''memory'', ts_lifetime = ''vm'', ts_executable = True\<rparr>]"

lemma sample_normalizes: "normalize_temporary (\<lambda>_. []) sample_storage = Inr sample_normal"
  by code_simp

text \<open>a normalised storage list is safe to mount.  It holds exactly the requested filesystems with
  their defaults, at most sixteen, in order of their targets; every target is a clean absolute path
  that overlaps no bootstrap, kernel or network path, every size is page-aligned within 4 KiB..2
  GiB, and no two targets are equal or nested.\<close>

theorem normalized_storage_safe:
  assumes "normalize_temporary marshal inp = Inr res"
  shows "mset res = mset (map with_defaults inp) \<and> length res \<le> 16 \<and> sorted (map ts_target res) \<and>
    list_all (\<lambda>v. target_ok (ts_target v) \<and> \<not> list_ex (paths_overlap (ts_target v)) protected_paths \<and>
      4096 \<le> sint (ts_max_bytes v) \<and> sint (ts_max_bytes v) \<le> 2147483648 \<and>
      sint (ts_max_bytes v) mod 4096 = 0) res \<and>
    sorted_wrt (\<lambda>a b. \<not> paths_overlap (ts_target a) (ts_target b)) res"
  using normalize_temporary_Inr [OF assms]
  by (auto simp: entry_ok_def list_all_iff size_ok_def disjoint_targets_def mset_sort)

lemma normalized_storage_safe_witness:
  "sorted (map ts_target sample_normal) \<and> mset sample_normal = mset (map with_defaults sample_storage)"
  using normalized_storage_safe [OF sample_normalizes] by blast

text \<open>a saved storage label is stable.  Whenever the JSON decoder inverts the encoder on the
  normalised list, parsing the saved label of a successful normalisation returns this very list;
  in particular normalisation is idempotent.\<close>

theorem saved_storage_roundtrip:
  assumes "normalize_temporary marshal inp = Inr res" and "inp \<noteq> []"
    and "decode (marshal res) = Some (res, False)" and "marshal res \<noteq> []"
  shows "parse_temporary marshal decode (marshal res) = Inr res \<and> normalize_temporary marshal res = Inr res"
proof -
  note n = normalize_temporary_Inr [OF assms(1)]
  have "length res = length inp" by (subst n(1)) simp
  with assms(2) have ne: "res \<noteq> []" by auto
  have "normalize_loop [] res = Inr res" using normalize_loop_total [of res "[]"] n(2,3) by simp
  moreover have "sorted (map ts_target res)" by (subst n(1)) simp
  then have "sort_key ts_target res = res" by (rule sort_key_id_if_sorted)
  ultimately have "normalize_temporary marshal res = Inr res"
    using n(4,5) ne by (simp add: normalize_temporary_def Let_def)
  with assms(3,4) n(5) ne show ?thesis by (simp add: parse_temporary_def)
qed

lemma saved_storage_roundtrip_witness:
  "parse_temporary (\<lambda>_. ''x'') (\<lambda>_. Some (sample_normal, False)) ''x'' = Inr sample_normal"
proof -
  have "normalize_temporary (\<lambda>_. ''x'') sample_storage = Inr sample_normal" "sample_storage \<noteq> []" by code_simp+
  from saved_storage_roundtrip [OF this, of "\<lambda>_. Some (sample_normal, False)"] show ?thesis by simp
qed

text \<open>the memory budget is exact despite 64-bit arithmetic.  The check accepts a nonempty list
  exactly when every ceiling is positive and their sum, in unbounded integers, is at most the
  guest's memory: no intermediate subtraction or addition wraps, whatever values the input holds.\<close>

theorem budget_exact:
  "validate_budget (v # vs) guest = None \<longleftrightarrow>
     list_all (\<lambda>w. 0 < sint (ts_max_bytes w)) (v # vs) \<and>
     sum_list (map (\<lambda>w. sint (ts_max_bytes w)) (v # vs)) \<le> sint guest"
proof (cases "0 \<le> sint guest")
  case True
  then show ?thesis using budget_loop_iff [of 0 guest "v # vs"] by (simp add: validate_budget_def list_all_iff)
next
  case False
  have "0 \<le> sum_list (map (\<lambda>w. sint (ts_max_bytes w)) vs)" if "list_all (\<lambda>w. 0 < sint (ts_max_bytes w)) vs"
    using that by (intro sum_list_nonneg) (auto simp: list_all_iff)
  with False show ?thesis by (auto simp: validate_budget_def)
qed

text \<open>an accepted observation fixes the mount: a tmpfs of exactly the declared size, owned by the
  worker, with \<open>nosuid\<close> and \<open>nodev\<close> set (bits 1 and 2), not read-only (bit 0), \<open>noexec\<close> (bit 3) exactly
  when the filesystem was not declared executable, and on first observation mode 0700.\<close>

theorem observation_flags:
  assumes "validate_observation spec got uid gid initial = None"
  shows "bit (ob_flags got) 1 \<and> bit (ob_flags got) 2 \<and> \<not> bit (ob_flags got) 0 \<and>
    (bit (ob_flags got) 3 \<longleftrightarrow> \<not> ts_executable spec) \<and> unat (ob_max_bytes got) = unat (ts_max_bytes spec) \<and>
    ob_target got = ts_target spec \<and> ob_uid got = uid \<and> ob_gid got = gid \<and> (initial \<longrightarrow> ob_mode got = 448)"
proof -
  have ok: "observation_ok spec got uid gid initial"
    using assms by (simp add: validate_observation_def split: if_splits)
  have b0: "and (ob_flags got) 1 = 0" and b12: "and (ob_flags got) (or 2 4) = or 2 4"
    and b3: "(and (ob_flags got) 8 = 0) = ts_executable spec"
    using ok by (auto simp: observation_ok_def)
  have zero: "and f (2 ^ n) = 0 \<longleftrightarrow> \<not> bit f n" for f :: "64 word" and n
    by (rule and_exp_eq_0_iff_not_bit)
  have "\<not> bit (ob_flags got) 0" using b0 zero [of "ob_flags got" 0] by simp
  moreover have "bit (ob_flags got) 1" "bit (ob_flags got) 2"
    using arg_cong [OF b12, of "\<lambda>w. bit w 1"] arg_cong [OF b12, of "\<lambda>w. bit w 2"]
    by (simp_all add: bit_and_iff bit_or_iff)
  moreover have "bit (ob_flags got) 3 \<longleftrightarrow> \<not> ts_executable spec" using b3 zero [of "ob_flags got" 3] by simp
  ultimately show ?thesis using ok by (auto simp: observation_ok_def)
qed

lemma observation_flags_witness: "bit (0x6 :: 64 word) 1 \<and> \<not> bit (0x6 :: 64 word) 0"
proof -
  have "validate_observation (sample_normal ! 1) \<lparr>ob_target = ''/t/b'', ob_filesystem = 0x01021994,
     ob_max_bytes = 8192, ob_uid = 0, ob_gid = 0, ob_mode = 448, ob_flags = 6\<rparr> 0 0 True = None" by code_simp
  from observation_flags [OF this] show ?thesis by simp
qed

end
