(* ===== verification/PolicyEvents.thy ===== *)
theory PolicyEvents
  imports GoStrings
begin

text \<open>
  \<open>internal/policyevents\<close>: the bounded store of policy diagnostics (a ring of the last events, a
  sequence number that only grows, a writer that is cut off after a fixed number of lines) and the
  reader of such lines.  The clock is an argument of \<open>add\<close>; the writer is the list of the values
  encoded to it; the JSON decoding of a line is the parameter \<open>decode\<close>.
\<close>

section \<open>The store\<close>

record event =
  ev_type :: string
  ev_seq :: "64 word"
  ev_time :: int
  ev_policy_id :: string
  ev_worker :: string
  ev_run_id :: string
  ev_source :: string
  ev_destination :: string
  ev_code :: string

definition max_written_events :: nat where
  "max_written_events = 100000"

record store =
  es_written :: nat
  es_write_limit :: nat
  es_capacity :: nat
  es_sequence :: "64 word"
  es_events :: "event list"
  es_writer :: "event list option"

definition new_store :: "int \<Rightarrow> event list option \<Rightarrow> store" where
  "new_store capacity w =
     \<lparr>es_written = 0, es_write_limit = max_written_events,
      es_capacity = (if capacity < 1 then 512 else nat capacity),
      es_sequence = 0, es_events = [], es_writer = w\<rparr>"

definition limit_marker :: "event \<Rightarrow> event" where
  "limit_marker e = \<lparr>ev_type = ''cxd.policy'', ev_seq = ev_seq e, ev_time = ev_time e, ev_policy_id = [],
     ev_worker = [], ev_run_id = [], ev_source = [], ev_destination = [], ev_code = ''event_log_limit''\<rparr>"

definition stamp :: "64 word \<Rightarrow> int \<Rightarrow> event \<Rightarrow> event" where
  "stamp n now e = e\<lparr>ev_type := ''cxd.policy'', ev_seq := n, ev_time := now\<rparr>"

definition add :: "event \<Rightarrow> int \<Rightarrow> store \<Rightarrow> store" where
  "add e0 now s =
     (let n = es_sequence s + 1;
          e = stamp n now e0;
          s1 = s\<lparr>es_sequence := n,
                 es_events := (if length (es_events s) = es_capacity s
                   then list_update (tl (es_events s) @ [last (es_events s)]) (length (es_events s) - 1) e
                   else es_events s @ [e])\<rparr> in
      case es_writer s of None \<Rightarrow> s1 | Some w \<Rightarrow>
        if es_written s \<le> es_write_limit s
        then s1\<lparr>es_writer := Some (w @ [if es_written s = es_write_limit s then limit_marker e else e]),
                es_written := Suc (es_written s)\<rparr>
        else s1)"

definition add_opt :: "event \<Rightarrow> int \<Rightarrow> store option \<Rightarrow> store option" where
  "add_opt e now s = map_option (add e now) s"

definition since :: "64 word \<Rightarrow> store option \<Rightarrow> event list" where
  "since n s = (case s of None \<Rightarrow> [] | Some st \<Rightarrow> filter (\<lambda>e. n < ev_seq e) (es_events st))"

section \<open>The reader\<close>

text \<open>
  The lines of a scanner whose buffer holds 64 KiB: each line without its terminator and one
  trailing carriage return, and whether it stopped at a line that does not fit.
\<close>

definition scan_limit :: nat where
  "scan_limit = 65536"

definition drop_cr :: "string \<Rightarrow> string" where
  "drop_cr l = trim_suffix l [CHR 0x0D]"

fun scan_raw :: "string list \<Rightarrow> string list \<times> bool" where
  "scan_raw [] = ([], False)"
| "scan_raw (l # ls) =
     (if scan_limit \<le> length l then ([], True)
      else if ls = [] \<and> l = [] then ([], False)
      else (case scan_raw ls of (ws, long) \<Rightarrow> (drop_cr l # ws, long)))"

definition scan_lines :: "string \<Rightarrow> string list \<times> bool" where
  "scan_lines s = scan_raw (split_on CHR 0x0A s)"

definition event_of_line :: "(string \<Rightarrow> event option) \<Rightarrow> string \<Rightarrow> event option" where
  "event_of_line decode l0 =
     (let l = trim_space l0 in
      if \<not> prefix ''{'' l then None
      else case decode l of None \<Rightarrow> None
        | Some e \<Rightarrow> if ev_type e \<noteq> ''cxd.policy'' then None else Some e)"

text \<open>The visitor threads a state and may stop the reader with an error.\<close>

fun visit_lines ::
  "(string \<Rightarrow> event option) \<Rightarrow> ('s \<Rightarrow> event \<Rightarrow> 's \<times> 'e option) \<Rightarrow> string list \<Rightarrow> 's \<Rightarrow> 's \<times> 'e option" where
  "visit_lines decode visit [] st = (st, None)"
| "visit_lines decode visit (l # ls) st = (case event_of_line decode l of
       None \<Rightarrow> visit_lines decode visit ls st
     | Some e \<Rightarrow> (case visit st e of (st', Some err) \<Rightarrow> (st', Some err)
                  | (st', None) \<Rightarrow> visit_lines decode visit ls st'))"

datatype 'e read_error = VisitErr 'e | TooLong

definition read_events ::
  "(string \<Rightarrow> event option) \<Rightarrow> ('s \<Rightarrow> event \<Rightarrow> 's \<times> 'e option) \<Rightarrow> string \<Rightarrow> 's \<Rightarrow> 's \<times> 'e read_error option" where
  "read_events decode visit input st = (case scan_lines input of (ls, long) \<Rightarrow>
     (case visit_lines decode visit ls st of
        (st', Some e) \<Rightarrow> (st', Some (VisitErr e))
      | (st', None) \<Rightarrow> (st', if long then Some TooLong else None)))"

section \<open>Lemmas\<close>

text \<open>All the events ever added, stamped.\<close>

definition stamped :: "(event \<times> int) list \<Rightarrow> event list" where
  "stamped es = map (\<lambda>i. stamp (word_of_nat (Suc i)) (snd (es ! i)) (fst (es ! i))) [0..<length es]"

definition add_all :: "(event \<times> int) list \<Rightarrow> store \<Rightarrow> store" where
  "add_all es s = foldl (\<lambda>s (e, now). add e now s) s es"

lemma stamped_length [simp]: "length (stamped es) = length es"
  by (simp add: stamped_def)

lemma stamped_snoc: "stamped (es @ [(e, now)]) = stamped es @ [stamp (word_of_nat (Suc (length es))) now e]"
  by (simp add: stamped_def nth_append)

lemma add_events:
  assumes "0 < es_capacity s"
  shows "es_events (add e now s) =
    (if length (es_events s) = es_capacity s then tl (es_events s) else es_events s)
      @ [stamp (es_sequence s + 1) now e]"
proof (cases "length (es_events s) = es_capacity s")
  case True
  with assms have "es_events s \<noteq> []" by auto
  then have "list_update (tl (es_events s) @ [last (es_events s)]) (length (es_events s) - 1) x =
      tl (es_events s) @ [x]" for x
    by (simp add: list_update_append)
  with True show ?thesis by (simp add: add_def Let_def split: option.split)
qed (simp add: add_def Let_def split: option.split)

lemma add_fields:
  "es_capacity (add e now s) = es_capacity s" "es_sequence (add e now s) = es_sequence s + 1"
  "es_write_limit (add e now s) = es_write_limit s"
  by (simp_all add: add_def Let_def split: option.split)

lemma add_all_snoc: "add_all (es @ [(e, now)]) s = add e now (add_all es s)"
  by (simp add: add_all_def)

lemma add_all_fields:
  "es_capacity (add_all es s) = es_capacity s \<and> es_write_limit (add_all es s) = es_write_limit s \<and>
   es_sequence (add_all es s) = es_sequence s + word_of_nat (length es)"
  by (induction es rule: rev_induct) (auto simp: add_all_snoc add_fields add_all_def)

lemma ring_contents:
  assumes "0 < es_capacity s" and "es_events s = []" and "es_sequence s = 0"
  shows "es_events (add_all es s) = drop (length es - es_capacity s) (stamped es)"
proof (induction es rule: rev_induct)
  case (snoc p es)
  obtain e now where p: "p = (e, now)" by fastforce
  let ?s = "add_all es s"
  have cap: "es_capacity ?s = es_capacity s" and sq: "es_sequence ?s = word_of_nat (length es)"
    using add_all_fields [of es s] assms(3) by simp_all
  have "es_events (add_all (es @ [p]) s) =
      (if length (es_events ?s) = es_capacity s then tl (es_events ?s) else es_events ?s)
        @ [stamp (word_of_nat (Suc (length es))) now e]"
    using assms(1) cap sq by (simp add: p add_all_snoc add_events add.commute)
  also have "(if length (es_events ?s) = es_capacity s then tl (es_events ?s) else es_events ?s) =
      drop (Suc (length es) - es_capacity s) (stamped es)"
    unfolding snoc.IH using assms(1) by (auto simp: drop_Suc tl_drop Suc_diff_le)
  finally show ?case using assms(1) by (simp add: p stamped_snoc)
qed (use assms in \<open>simp add: add_all_def stamped_def\<close>)

lemma stamped_seq:
  assumes "i < length es" and "length es < 2 ^ 64"
  shows "ev_seq (stamped es ! i) = word_of_nat (Suc i)" and "unat (ev_seq (stamped es ! i)) = Suc i"
proof -
  show seq: "ev_seq (stamped es ! i) = word_of_nat (Suc i)"
    using assms(1) by (simp add: stamped_def stamp_def)
  show "unat (ev_seq (stamped es ! i)) = Suc i"
    unfolding seq using assms by (simp add: unat_of_nat del: of_nat_Suc)
qed

lemma since_stamped:
  assumes "length es < 2 ^ 64"
  shows "filter (\<lambda>e. n < ev_seq e) (drop m (stamped es)) = drop (max m (unat n)) (stamped es)"
proof -
  have "filter (\<lambda>e. n < ev_seq e) (drop m xs) = drop (max m (unat n)) xs"
    if "\<And>i. i < length xs \<Longrightarrow> unat (ev_seq (xs ! i)) = Suc i" for xs
    using that
  proof (induction xs rule: rev_induct)
    case (snoc x xs)
    have x: "unat (ev_seq x) = Suc (length xs)" using snoc.prems [of "length xs"] by simp
    have "unat (ev_seq (xs ! i)) = Suc i" if "i < length xs" for i
      using snoc.prems [of i] that by (simp add: nth_append)
    then have IH: "filter (\<lambda>e. n < ev_seq e) (drop m xs) = drop (max m (unat n)) xs"
      by (rule snoc.IH)
    have "n < ev_seq x \<longleftrightarrow> unat n \<le> length xs" by (simp add: word_less_nat_alt x less_Suc_eq_le)
    with IH show ?case by (cases "m \<le> length xs") (auto simp: max_def)
  qed simp
  from this [of "stamped es"] show ?thesis using stamped_seq(2) [OF _ assms] by simp
qed

lemma writer_contents:
  assumes "es_writer s = Some w0" and "es_written s = 0" and "es_sequence s = 0"
  shows "es_writer (add_all es s) = Some (w0 @ take (es_write_limit s) (stamped es) @
      (if es_write_limit s < length es then [limit_marker (stamped es ! es_write_limit s)] else [])) \<and>
    es_written (add_all es s) = min (length es) (Suc (es_write_limit s))"
proof (induction es rule: rev_induct)
  case (snoc p es)
  obtain e now where p: "p = (e, now)" by fastforce
  let ?s = "add_all es s" let ?L = "es_write_limit s"
  have f: "es_write_limit ?s = ?L" "es_sequence ?s = word_of_nat (length es)"
    using add_all_fields [of es s] assms(3) by simp_all
  consider "length es < ?L" | "length es = ?L" | "?L < length es" by linarith
  then show ?case
  proof cases
    case 1
    with snoc f show ?thesis
      by (simp add: p add_all_snoc add_def Let_def stamped_snoc add.commute)
  next
    case 2
    with snoc f show ?thesis
      by (simp add: p add_all_snoc add_def Let_def stamped_snoc add.commute nth_append)
  next
    case 3
    with snoc f show ?thesis
      by (simp add: p add_all_snoc add_def Let_def stamped_snoc nth_append)
  qed
qed (use assms in \<open>simp add: add_all_def stamped_def\<close>)

section \<open>Properties\<close>

definition sample_event :: "string \<Rightarrow> event" where
  "sample_event c = \<lparr>ev_type = [], ev_seq = 0, ev_time = 0, ev_policy_id = [], ev_worker = [],
     ev_run_id = [], ev_source = [], ev_destination = [], ev_code = c\<rparr>"

text \<open>the event store is a ring over a gap-free sequence.  After any number of additions to a new
  store it holds at most its capacity, and a reader that asks for what follows number \<open>k\<close> gets, in
  order, exactly the added events numbered above \<open>k\<close>, less only those older than the capacity.\<close>

theorem since_returns_suffix:
  assumes "length es < 2 ^ 64" and "cap = (if c < 1 then 512 else nat c)"
  shows "since k (Some (add_all es (new_store c w))) =
      drop (max (length es - cap) (unat k)) (stamped es) \<and>
    length (es_events (add_all es (new_store c w))) \<le> cap"
proof -
  have "es_events (add_all es (new_store c w)) = drop (length es - cap) (stamped es)"
    using ring_contents [of "new_store c w" es] assms(2) by (simp add: new_store_def)
  with since_stamped [OF assms(1), of k "length es - cap"] show ?thesis by (simp add: since_def)
qed

definition sample_events :: "(event \<times> int) list" where
  "sample_events = [(sample_event ''a'', 0), (sample_event ''b'', 1), (sample_event ''c'', 2)]"

lemma since_returns_suffix_witness:
  "map ev_code (since 1 (Some (add_all sample_events (new_store 2 None)))) = [''b'', ''c'']"
proof -
  have "length sample_events < 2 ^ 64" "(2 :: nat) = (if (2 :: int) < 1 then 512 else nat 2)"
    by (simp_all add: sample_events_def)
  note since_returns_suffix [OF this, of 1 None]
  moreover have "map ev_code (drop (max (length sample_events - 2) (unat (1 :: 64 word))) (stamped sample_events)) =
      [''b'', ''c'']" by code_simp
  ultimately show ?thesis by simp
qed

text \<open>the event log is bounded.  Whatever is added, a store with a writer emits the first 100000
  events unchanged and then a single \<open>event_log_limit\<close> line carrying the next number, never more.\<close>

theorem writer_bounded:
  "es_writer (add_all es (new_store c (Some w))) =
     Some (w @ take 100000 (stamped es) @
       (if 100000 < length es then [limit_marker (stamped es ! 100000)] else []))"
  using writer_contents [of "new_store c (Some w)" w es] by (simp add: new_store_def max_written_events_def)

end
