(* ===== verification/CredentialStore.thy ===== *)
theory CredentialStore
  imports GoStrings "HOL-Library.AList"
begin

text \<open>
  \<open>pkg/cxd/credentialstore\<close>, the plaintext file store: the credential records and their validity,
  the private directory with its lock, and the operations \<open>Create\<close>, \<open>Load\<close>, \<open>SaveRefresh\<close> and
  \<open>Names\<close> over an explicit file system.  Every system call consults a fault schedule and every
  \<open>ctx.Err()\<close> a cancellation schedule, so that each error return of the code is a behaviour of the
  model.  Files hold structured contents: the JSON of a profile or of an encrypted record, or bytes
  that are neither; \<open>cw_len\<close> is the length of the encoding.
\<close>

section \<open>Credentials\<close>

record openai_oauth =
  oa_id_token :: string
  oa_access :: string
  oa_refresh :: string
  oa_account :: string
  oa_last_refresh :: string
  oa_expires :: int
  oa_token_type :: string

record anthropic_oauth =
  an_access :: string
  an_refresh :: string
  an_expires :: int
  an_subscription :: string
  an_scopes :: "string list"

record credentials =
  cr_version :: string
  cr_connection :: string
  cr_openai_key :: string
  cr_openai :: "openai_oauth option"
  cr_anthropic_key :: string
  cr_anthropic :: "anthropic_oauth option"

datatype store_error =
    NotFound | Conflict | Locked | UnlockFailed | MigrationRequired | MigrationPending
  | BadProfileName | InsecureStorage | ENoEnt | EExist | ELoop | ENotDir | EIO | ContextEnded
  | RandomFailed | BadProfileFile | NoSingleMode | BadKey | IncompleteOpenAI | IncompleteAnthropic
  | TooLarge | ProfileExists | RefreshMode | BadProvider | BadPassphrase | UnsupportedRecord
  | WrongBackend | ReadBackFailed | BackupDiffers | NotEncryptedCreate | KeyringErr string

definition has_control :: "string \<Rightarrow> bool" where
  "has_control s \<longleftrightarrow> contains_any s [CHR 0x00, CHR 0x0D, CHR 0x0A]"

definition valid_value :: "string \<Rightarrow> bool" where
  "valid_value s \<longleftrightarrow> s \<noteq> [] \<and> \<not> has_control s"

definition validate_credentials :: "credentials \<Rightarrow> store_error option" where
  "validate_credentials v =
     (if \<not> valid_value (cr_version v) \<or> \<not> valid_value (cr_connection v) \<or>
         (cr_openai_key v \<noteq> [] \<and> cr_openai v \<noteq> None) \<or>
         (cr_anthropic_key v \<noteq> [] \<and> cr_anthropic v \<noteq> None) \<or>
         (cr_openai_key v = [] \<and> cr_openai v = None \<and> cr_anthropic_key v = [] \<and> cr_anthropic v = None)
        then Some NoSingleMode
      else if (cr_openai_key v \<noteq> [] \<and> \<not> valid_value (cr_openai_key v)) \<or>
         (cr_anthropic_key v \<noteq> [] \<and> \<not> valid_value (cr_anthropic_key v)) then Some BadKey
      else if (case cr_openai v of None \<Rightarrow> False | Some o1 \<Rightarrow>
           \<not> valid_value (oa_access o1) \<or> \<not> valid_value (oa_refresh o1) \<or> has_control (oa_account o1))
        then Some IncompleteOpenAI
      else if (case cr_anthropic v of None \<Rightarrow> False | Some a1 \<Rightarrow>
           \<not> valid_value (an_access a1) \<or> has_control (an_refresh a1))
        then Some IncompleteAnthropic
      else None)"

text \<open>The regular expression \<open>^[a-z0-9][a-z0-9_-]{0,62}$\<close>.\<close>

definition profile_first_char :: "char \<Rightarrow> bool" where
  "profile_first_char c \<longleftrightarrow> is_digit c \<or> (CHR ''a'' \<le> c \<and> c \<le> CHR ''z'')"

definition valid_profile_name :: "string \<Rightarrow> bool" where
  "valid_profile_name n \<longleftrightarrow> (case n of [] \<Rightarrow> False | c # cs \<Rightarrow>
     profile_first_char c \<and> length cs \<le> 62 \<and>
     list_all (\<lambda>d. profile_first_char d \<or> d = CHR ''_'' \<or> d = CHR ''-'') cs)"

section \<open>The file system\<close>

record file_profile =
  fp_schema :: int
  fp_name :: string
  fp_credentials :: credentials

record encrypted_header =
  eh_schema :: int
  eh_name :: string
  eh_key_id :: string
  eh_backend :: string
  eh_memory :: nat
  eh_time :: nat
  eh_parallelism :: nat
  eh_salt :: string
  eh_wrap_nonce :: string
  eh_wrapped_key :: string
  eh_recipient :: string

record encrypted_record =
  er_header :: encrypted_header
  er_nonce :: string
  er_ciphertext :: string
  er_mac :: string

datatype content = ProfileJSON file_profile | RecordJSON encrypted_record | OtherBytes string

datatype file_kind = Regular | Directory | Symlink | Special

record file_entry =
  fe_kind :: file_kind
  fe_owner :: int
  fe_perm :: nat
  fe_nlink :: nat
  fe_content :: content

record cworld =
  cw_dir :: "file_entry option"
  cw_files :: "(string \<times> file_entry) list"
  cw_euid :: int
  cw_faults :: "bool list"
  cw_ctx :: "bool list"
  cw_random :: "string list"
  cw_contended :: nat
  cw_len :: "content \<Rightarrow> nat"

type_synonym 'a sio = "(cworld, store_error, 'a) io"

text \<open>A system call that may fail, and a look at the context.\<close>

definition sys :: "unit sio" where
  "sys w = (case cw_faults w of [] \<Rightarrow> (Inr (), w)
     | f # fs \<Rightarrow> (if f then Inl EIO else Inr (), w\<lparr>cw_faults := fs\<rparr>))"

definition ctx_check :: "unit sio" where
  "ctx_check w = (case cw_ctx w of [] \<Rightarrow> (Inr (), w)
     | c # cs \<Rightarrow> (if c then Inl ContextEnded else Inr (), w\<lparr>cw_ctx := cs\<rparr>))"

definition file_at :: "cworld \<Rightarrow> string \<Rightarrow> file_entry option" where
  "file_at w n = map_of (cw_files w) n"

definition put_file :: "string \<Rightarrow> file_entry \<Rightarrow> cworld \<Rightarrow> cworld" where
  "put_file n e w = w\<lparr>cw_files := AList.update n e (cw_files w)\<rparr>"

definition drop_file :: "string \<Rightarrow> cworld \<Rightarrow> cworld" where
  "drop_file n w = w\<lparr>cw_files := AList.delete n (cw_files w)\<rparr>"

text \<open>A file the process creates: regular, its own, mode 0600, one link.\<close>

definition own_file :: "int \<Rightarrow> content \<Rightarrow> file_entry" where
  "own_file euid c = \<lparr>fe_kind = Regular, fe_owner = euid, fe_perm = 384, fe_nlink = 1, fe_content = c\<rparr>"

definition private_entry :: "bool \<Rightarrow> int \<Rightarrow> file_entry \<Rightarrow> bool" where
  "private_entry directory euid e \<longleftrightarrow> fe_owner e = euid \<and>
     fe_perm e = (if directory then 448 else 384) \<and>
     (if directory then fe_kind e = Directory else fe_kind e = Regular \<and> fe_nlink e = 1)"

definition open_directory :: "unit sio" where
  "open_directory = bindIO sys (\<lambda>_. bindIO (getIO cw_dir) (\<lambda>d. case d of
     None \<Rightarrow> throwIO ENoEnt
   | Some e \<Rightarrow>
       bindIO (whenE (fe_kind e = Symlink) ELoop) (\<lambda>_.
       bindIO (whenE (fe_kind e \<noteq> Directory) ENotDir) (\<lambda>_.
       bindIO sys (\<lambda>_. bindIO (getIO cw_euid) (\<lambda>u.
         whenE (\<not> private_entry True u e) InsecureStorage))))))"

datatype open_mode = ReadOnly | CreateIfAbsent | CreateExclusive

text \<open>\<open>privateFile\<close> of an opened file; the result is its contents at that moment.\<close>

definition check_opened :: "string \<Rightarrow> content sio" where
  "check_opened n = bindIO sys (\<lambda>_. bindIO (getIO (\<lambda>w. (file_at w n, cw_euid w))) (\<lambda>(f, u). case f of
     None \<Rightarrow> throwIO ENoEnt
   | Some e \<Rightarrow> bindIO (whenE (\<not> private_entry False u e) InsecureStorage) (\<lambda>_. returnIO (fe_content e))))"

definition open_file :: "open_mode \<Rightarrow> string \<Rightarrow> content sio" where
  "open_file m n = bindIO sys (\<lambda>_. bindIO (getIO (\<lambda>w. (file_at w n, cw_euid w))) (\<lambda>(f, u). case f of
     None \<Rightarrow>
       if m = ReadOnly then throwIO ENoEnt
       else bindIO (updIO (put_file n (own_file u (OtherBytes [])))) (\<lambda>_. check_opened n)
   | Some e \<Rightarrow>
       if m = CreateExclusive then throwIO EExist
       else if fe_kind e = Symlink then throwIO ELoop
       else check_opened n))"

section \<open>The lock\<close>

text \<open>
  \<open>cw_contended\<close> is the number of times another process still holds the lock; the loop ends when it
  is free or the context has ended.
\<close>

fun flock_loop :: "nat \<Rightarrow> unit sio" where
  "flock_loop 0 = bindIO ctx_check (\<lambda>_. sys)"
| "flock_loop (Suc n) = bindIO ctx_check (\<lambda>_. bindIO ctx_check (\<lambda>_. flock_loop n))"

definition acquire :: "unit sio" where
  "acquire = bindIO (getIO cw_contended) (\<lambda>n.
     bindIO (updIO (\<lambda>w. w\<lparr>cw_contended := 0\<rparr>)) (\<lambda>_. flock_loop n))"

definition locked :: "string \<Rightarrow> 'a sio \<Rightarrow> 'a sio" where
  "locked name fn =
     bindIO ctx_check (\<lambda>_.
     bindIO (whenE (name \<noteq> [] \<and> \<not> valid_profile_name name) BadProfileName) (\<lambda>_.
     bindIO open_directory (\<lambda>_.
     bindIO (open_file CreateIfAbsent ''.lock'') (\<lambda>_.
     bindIO acquire (\<lambda>_.
     bindIO ctx_check (\<lambda>_. fn))))))"

section \<open>Reading and writing a profile\<close>

definition profile_file :: "string \<Rightarrow> string" where
  "profile_file name = name @ ''.json''"

definition vault_file :: "string \<Rightarrow> string" where
  "vault_file name = name @ ''.vault''"

definition max_profile :: nat where
  "max_profile = 1048576"

definition profile_of_content :: "(content \<Rightarrow> nat) \<Rightarrow> string \<Rightarrow> content \<Rightarrow> (store_error, credentials) result" where
  "profile_of_content len name c = (case c of
     ProfileJSON p \<Rightarrow>
       if max_profile < len c \<or> fp_schema p \<noteq> 1 \<or> fp_name p \<noteq> name then Inl BadProfileFile
       else (case validate_credentials (fp_credentials p) of Some e \<Rightarrow> Inl e | None \<Rightarrow> Inr (fp_credentials p))
   | _ \<Rightarrow> Inl BadProfileFile)"

definition read_profile :: "string \<Rightarrow> credentials sio" where
  "read_profile name = bindIO (catchIO (open_file ReadOnly (profile_file name))) (\<lambda>r. case r of
     Inl e \<Rightarrow> throwIO (if e = ENoEnt then NotFound else e)
   | Inr c \<Rightarrow> bindIO sys (\<lambda>_. bindIO (getIO cw_len) (\<lambda>len. liftE (profile_of_content len name c))))"

definition new_version :: "string sio" where
  "new_version w = (case cw_random w of [] \<Rightarrow> (Inl RandomFailed, w)
     | r # rs \<Rightarrow> (Inr r, w\<lparr>cw_random := rs\<rparr>))"

text \<open>A failed write leaves some other bytes in the file.\<close>

definition write_file :: "string \<Rightarrow> content \<Rightarrow> unit sio" where
  "write_file n c = bindIO (getIO cw_euid) (\<lambda>u. bindIO (catchIO sys) (\<lambda>r. case r of
     Inl e \<Rightarrow> bindIO (updIO (put_file n (own_file u (OtherBytes ''partial'')))) (\<lambda>_. throwIO e)
   | Inr _ \<Rightarrow> updIO (put_file n (own_file u c))))"

definition rename_file :: "string \<Rightarrow> string \<Rightarrow> unit sio" where
  "rename_file a b = bindIO sys (\<lambda>_. bindIO (getIO (\<lambda>w. file_at w a)) (\<lambda>f. case f of
     None \<Rightarrow> throwIO ENoEnt
   | Some e \<Rightarrow> updIO (\<lambda>w. put_file b e (drop_file a w))))"

definition unlink_file :: "string \<Rightarrow> unit sio" where
  "unlink_file n = bindIO sys (\<lambda>_. bindIO (getIO (\<lambda>w. file_at w n)) (\<lambda>f. case f of
     None \<Rightarrow> throwIO ENoEnt | Some e \<Rightarrow> updIO (drop_file n)))"

definition temp_name :: "string \<Rightarrow> string" where
  "temp_name i = ''.profile-'' @ i"

definition write_profile_data :: "string \<Rightarrow> content \<Rightarrow> unit sio" where
  "write_profile_data filename c =
     bindIO new_version (\<lambda>i.
     bindIO (open_file CreateExclusive (temp_name i)) (\<lambda>_.
     finallyIO
       (bindIO (write_file (temp_name i) c) (\<lambda>_.
        bindIO sys (\<lambda>_.
        bindIO sys (\<lambda>_.
        bindIO ctx_check (\<lambda>_.
        bindIO (rename_file (temp_name i) filename) (\<lambda>_. sys))))))
       (unlink_file (temp_name i))))"

definition write_profile :: "string \<Rightarrow> credentials \<Rightarrow> unit sio" where
  "write_profile name cr =
     (case validate_credentials cr of Some e \<Rightarrow> throwIO e | None \<Rightarrow>
      (let c = ProfileJSON \<lparr>fp_schema = 1, fp_name = name, fp_credentials = cr\<rparr> in
       bindIO (getIO cw_len) (\<lambda>len. bindIO (whenE (max_profile < len c) TooLarge) (\<lambda>_.
         write_profile_data (profile_file name) c))))"

text \<open>\<open>profileVaultPresent\<close> and the guard that an encrypted profile is not read as plaintext.\<close>

definition file_present :: "string \<Rightarrow> bool sio" where
  "file_present n = bindIO (catchIO (open_file ReadOnly n)) (\<lambda>r. case r of
     Inl e \<Rightarrow> if e = ENoEnt then returnIO False else throwIO e
   | Inr _ \<Rightarrow> returnIO True)"

definition vault_present :: "string \<Rightarrow> bool sio" where
  "vault_present name = bindIO (file_present (vault_file name)) (\<lambda>b.
     if b then bindIO sys (\<lambda>_. returnIO True) else returnIO False)"

definition refuse_vault :: "string \<Rightarrow> unit sio" where
  "refuse_vault name = bindIO (vault_present name) (\<lambda>b. whenE b Locked)"

section \<open>The operations of the file store\<close>

definition create :: "string \<Rightarrow> credentials \<Rightarrow> unit sio" where
  "create name cr =
     bindIO (whenE (\<not> valid_profile_name name) BadProfileName) (\<lambda>_.
     locked name
       (bindIO (refuse_vault name) (\<lambda>_.
        bindIO (catchIO (read_profile name)) (\<lambda>r. case r of
          Inr _ \<Rightarrow> throwIO ProfileExists
        | Inl e \<Rightarrow>
            if e \<noteq> NotFound then throwIO e
            else
              bindIO new_version (\<lambda>v. bindIO new_version (\<lambda>cv.
                write_profile name (cr\<lparr>cr_version := v, cr_connection := cv\<rparr>)))))))"

definition load :: "string \<Rightarrow> credentials sio" where
  "load name =
     bindIO (whenE (\<not> valid_profile_name name) BadProfileName) (\<lambda>_.
     locked name (bindIO (refuse_vault name) (\<lambda>_. read_profile name)))"

definition refresh_allowed :: "string \<Rightarrow> credentials \<Rightarrow> credentials \<Rightarrow> store_error option" where
  "refresh_allowed provider old next =
     (if provider = ''openai'' then
        (if cr_openai old = None \<or> cr_openai next = None \<or> cr_openai_key old \<noteq> cr_openai_key next \<or>
            cr_anthropic_key old \<noteq> cr_anthropic_key next \<or> cr_anthropic old \<noteq> cr_anthropic next
         then Some RefreshMode else None)
      else if provider = ''anthropic'' then
        (if cr_anthropic old = None \<or> cr_anthropic next = None \<or> cr_anthropic_key old \<noteq> cr_anthropic_key next \<or>
            cr_openai_key old \<noteq> cr_openai_key next \<or> cr_openai old \<noteq> cr_openai next
         then Some RefreshMode else None)
      else Some BadProvider)"

definition save_refresh :: "string \<Rightarrow> string \<Rightarrow> string \<Rightarrow> credentials \<Rightarrow> string sio" where
  "save_refresh name expected provider next =
     bindIO (whenE (\<not> valid_profile_name name) BadProfileName) (\<lambda>_.
     locked name
       (bindIO (refuse_vault name) (\<lambda>_.
        bindIO (read_profile name) (\<lambda>old.
        bindIO (whenE (cr_version old \<noteq> expected \<or> cr_connection old \<noteq> cr_connection next) Conflict) (\<lambda>_.
        bindIO (liftE (case refresh_allowed provider old next of Some e \<Rightarrow> Inl e | None \<Rightarrow> Inr ())) (\<lambda>_.
        bindIO new_version (\<lambda>v.
        bindIO (write_profile name (next\<lparr>cr_version := v\<rparr>)) (\<lambda>_. returnIO v))))))))"

definition cut_suffix :: "string \<Rightarrow> string \<Rightarrow> string \<times> bool" where
  "cut_suffix s p = (if suffix p s then (take (length s - length p) s, True) else (s, False))"

definition names :: "string list sio" where
  "names = locked [] (bindIO sys (\<lambda>_. getIO (\<lambda>w.
     sort (filter valid_profile_name
       (map fst (filter snd (map (\<lambda>(f, e). cut_suffix f ''.json'') (cw_files w))))))))"

text \<open>\<open>NewFileStore\<close>: the directory is created when absent, then checked.\<close>

definition new_file_store :: "unit sio" where
  "new_file_store =
     bindIO sys (\<lambda>_.
     bindIO (updIO (\<lambda>w. case cw_dir w of Some d \<Rightarrow> w | None \<Rightarrow>
       w\<lparr>cw_dir := Some \<lparr>fe_kind = Directory, fe_owner = cw_euid w, fe_perm = 448, fe_nlink = 2,
          fe_content = OtherBytes []\<rparr>\<rparr>)) (\<lambda>_.
     bindIO open_directory (\<lambda>_. sys)))"

section \<open>What an operation leaves untouched\<close>

text \<open>
  The published files: everything but the lock and the temporary files.  \<open>stable V E\<close> says that the
  published files are \<open>V\<close> and the environment is \<open>E\<close>.
\<close>

definition published :: "cworld \<Rightarrow> string \<Rightarrow> file_entry option" where
  "published w n = (if prefix ''.'' n then None else file_at w n)"

definition environment :: "cworld \<Rightarrow> int \<times> (content \<Rightarrow> nat)" where
  "environment w = (cw_euid w, cw_len w)"

definition stable :: "(string \<Rightarrow> file_entry option) \<Rightarrow> int \<times> (content \<Rightarrow> nat) \<Rightarrow> cworld \<Rightarrow> bool" where
  "stable V E w \<longleftrightarrow> published w = V \<and> environment w = E"

lemma file_at_simps [simp]:
  "file_at (w\<lparr>cw_faults := fs\<rparr>) = file_at w" "file_at (w\<lparr>cw_ctx := cs\<rparr>) = file_at w"
  "file_at (w\<lparr>cw_random := rs\<rparr>) = file_at w" "file_at (w\<lparr>cw_contended := n\<rparr>) = file_at w"
  by (auto simp: file_at_def)

lemma file_at_put: "file_at (put_file n e w) = (file_at w)(n \<mapsto> e)"
  by (auto simp: file_at_def put_file_def update_conv)

lemma file_at_drop: "file_at (drop_file n w) = (file_at w)(n := None)"
  by (auto simp: file_at_def drop_file_def delete_conv)

lemma published_simps [simp]:
  "published (w\<lparr>cw_faults := fs\<rparr>) = published w" "published (w\<lparr>cw_ctx := cs\<rparr>) = published w"
  "published (w\<lparr>cw_random := rs\<rparr>) = published w" "published (w\<lparr>cw_contended := k\<rparr>) = published w"
  by (auto simp: published_def)

lemma environment_simps [simp]:
  "environment (w\<lparr>cw_faults := fs\<rparr>) = environment w" "environment (w\<lparr>cw_ctx := cs\<rparr>) = environment w"
  "environment (w\<lparr>cw_random := rs\<rparr>) = environment w" "environment (w\<lparr>cw_contended := k\<rparr>) = environment w"
  "environment (put_file n e w) = environment w" "environment (drop_file n w) = environment w"
  by (auto simp: environment_def put_file_def drop_file_def)

lemma published_hidden:
  "prefix ''.'' n \<Longrightarrow> published (put_file n e w) = published w"
  "prefix ''.'' n \<Longrightarrow> published (drop_file n w) = published w"
  by (auto simp: published_def file_at_put file_at_drop fun_eq_iff)

lemma published_cong: "file_at w = file_at w' \<Longrightarrow> published w = published w'"
  by (simp add: published_def fun_eq_iff)

lemma temp_hidden [simp]: "prefix ''.'' (temp_name i)" "prefix ''.'' ''.lock''"
  by (simp_all add: temp_name_def)

lemma stable_sys [simp, intro]: "keeps (stable V E) sys" "keeps (stable V E) ctx_check"
  "keeps (stable V E) new_version"
  by (auto simp: keeps_def stable_def sys_def ctx_check_def new_version_def split: list.split)

lemma stable_open_directory [simp, intro]: "keeps (stable V E) open_directory"
  unfolding open_directory_def by (auto intro!: keeps_bind split: option.split)

lemma stable_check_opened [simp, intro]: "keeps (stable V E) (check_opened n)"
  unfolding check_opened_def by (auto intro!: keeps_bind split: option.split)

lemma stable_open_file [intro]:
  assumes "m = ReadOnly \<or> prefix ''.'' n"
  shows "keeps (stable V E) (open_file m n)"
  unfolding open_file_def
  using assms
  by (auto split: option.split intro!: keeps_bind keeps_upd simp: stable_def published_hidden)

lemma stable_flock_loop [simp, intro]: "keeps (stable V E) (flock_loop n)"
  by (induction n) (auto intro!: keeps_bind)

lemma stable_acquire [simp, intro]: "keeps (stable V E) acquire"
  unfolding acquire_def by (intro keeps_bind keeps_upd) (auto simp: stable_def)

lemma stable_locked [intro]:
  assumes "keeps (stable V E) fn"
  shows "keeps (stable V E) (locked name fn)"
  unfolding locked_def using assms by (intro keeps_bind) (auto intro!: stable_open_file)

lemma stable_read_profile [simp, intro]: "keeps (stable V E) (read_profile name)"
  unfolding read_profile_def by (intro keeps_bind keeps_catch) (auto split: sum.split intro!: keeps_bind)

lemma stable_file_present [simp, intro]: "keeps (stable V E) (file_present n)"
  unfolding file_present_def by (intro keeps_bind keeps_catch) (auto split: sum.split)

lemma stable_refuse_vault [simp, intro]: "keeps (stable V E) (refuse_vault name)"
  unfolding refuse_vault_def vault_present_def by (intro keeps_bind) auto

lemma stable_write_hidden: "prefix ''.'' n \<Longrightarrow> keeps (stable V E) (write_file n c)"
  unfolding write_file_def
  by (intro keeps_bind keeps_catch) (auto split: sum.split intro!: keeps_upd simp: stable_def published_hidden)

lemma stable_unlink_hidden: "prefix ''.'' n \<Longrightarrow> keeps (stable V E) (unlink_file n)"
  unfolding unlink_file_def
  by (intro keeps_bind) (auto split: option.split intro!: keeps_upd simp: stable_def published_hidden)

text \<open>Steps that only consume a schedule keep all files.\<close>

definition same_files :: "(string \<Rightarrow> file_entry option) \<Rightarrow> int \<times> (content \<Rightarrow> nat) \<Rightarrow> cworld \<Rightarrow> bool" where
  "same_files F E w \<longleftrightarrow> file_at w = F \<and> environment w = E"

lemma same_files_sys [simp, intro]: "keeps (same_files F E) sys" "keeps (same_files F E) ctx_check"
  by (auto simp: keeps_def same_files_def sys_def ctx_check_def split: list.split)

section \<open>Publishing is atomic\<close>

text \<open>The part of \<open>writeProfileData\<close> before the clean-up, once the temporary file holds the contents.\<close>

lemma write_file_Inr:
  "write_file n c w = (Inr x, w') \<Longrightarrow> file_at w' = (file_at w)(n \<mapsto> own_file (cw_euid w) c) \<and> environment w' = environment w"
  by (auto simp: write_file_def bindIO_def catchIO_def sys_def file_at_put split: list.splits if_splits)

definition publish :: "string \<Rightarrow> string \<Rightarrow> unit sio" where
  "publish temp filename = bindIO sys (\<lambda>_. bindIO sys (\<lambda>_. bindIO ctx_check (\<lambda>_.
     bindIO (rename_file temp filename) (\<lambda>_. sys))))"

lemma rename_file_cases:
  assumes "rename_file a b w = (r, w')" and "file_at w a = Some e"
  shows "environment w' = environment w \<and>
    ((\<exists>x. r = Inl x) \<and> file_at w' = file_at w \<or> r = Inr () \<and> file_at w' = (file_at w)(a := None, b \<mapsto> e))"
  using assms
  by (auto simp: rename_file_def bindIO_def sys_def file_at_put file_at_drop split: list.splits if_splits)

lemma bind_same_files:
  assumes "keeps (same_files F E) m" and "same_files F E w" and "bindIO m f w = (r, w')"
  shows "(\<exists>e. r = Inl e \<and> same_files F E w') \<or> (\<exists>x w1. same_files F E w1 \<and> f x w1 = (r, w'))"
  using assms keepsD [OF assms(1,2)] by (cases "m w") (auto simp: bindIO_def split: sum.splits)

lemma publish_cases:
  assumes "publish temp filename w = (r, w')" and "file_at w temp = Some e"
  shows "environment w' = environment w \<and>
    (file_at w' = file_at w \<and> (\<exists>x. r = Inl x) \<or> file_at w' = (file_at w)(temp := None, filename \<mapsto> e))"
proof -
  define F E where "F = file_at w" and "E = environment w"
  have s: "same_files F E w" by (simp add: same_files_def F_def E_def)
  have tail: "same_files F E w' \<and> (\<exists>x. r = Inl x) \<or> environment w' = E \<and> file_at w' = F(temp := None, filename \<mapsto> e)"
    if "bindIO (rename_file temp filename) (\<lambda>_. sys) w3 = (r, w')" "same_files F E w3" for w3
  proof -
    obtain r4 w4 where r4: "rename_file temp filename w3 = (r4, w4)" by fastforce
    from rename_file_cases [OF r4] that(2) assms(2) have
      "environment w4 = E \<and> ((\<exists>x. r4 = Inl x) \<and> file_at w4 = F \<or> r4 = Inr () \<and> file_at w4 = F(temp := None, filename \<mapsto> e))"
      by (simp add: same_files_def F_def)
    then show ?thesis
    proof
      assume env: "environment w4 = E"
        and "(\<exists>x. r4 = Inl x) \<and> file_at w4 = F \<or> r4 = Inr () \<and> file_at w4 = F(temp := None, filename \<mapsto> e)"
      then show ?thesis
      proof (elim disjE conjE exE)
        fix x assume "r4 = Inl x" "file_at w4 = F"
        with that(1) r4 env show ?thesis by (auto simp: bindIO_def same_files_def)
      next
        assume "r4 = Inr ()" "file_at w4 = F(temp := None, filename \<mapsto> e)"
        moreover from this that(1) r4 have "sys w4 = (r, w')" by (simp add: bindIO_def)
        ultimately show ?thesis using env by (auto simp: sys_def split: list.splits)
      qed
    qed
  qed
  have "same_files F E w' \<and> (\<exists>x. r = Inl x) \<or> environment w' = E \<and> file_at w' = F(temp := None, filename \<mapsto> e)"
    using bind_same_files [OF same_files_sys(1) s assms(1) [unfolded publish_def]]
  proof (elim disjE exE conjE)
    fix w1 assume w1: "same_files F E w1"
      and m1: "bindIO sys (\<lambda>_. bindIO ctx_check (\<lambda>_. bindIO (rename_file temp filename) (\<lambda>_. sys))) w1 = (r, w')"
    show ?thesis using bind_same_files [OF same_files_sys(1) w1 m1]
    proof (elim disjE exE conjE)
      fix w2 assume w2: "same_files F E w2"
        and m2: "bindIO ctx_check (\<lambda>_. bindIO (rename_file temp filename) (\<lambda>_. sys)) w2 = (r, w')"
      show ?thesis using bind_same_files [OF same_files_sys(2) w2 m2] tail by blast
    qed blast
  qed blast
  then show ?thesis by (auto simp: same_files_def F_def E_def)
qed

lemma bind_stable:
  assumes "bindIO m f w = (r, w')" and "keeps (stable V E) m" and "stable V E w"
  obtains (fail) e where "r = Inl e" and "stable V E w'"
    | (step) x w1 where "m w = (Inr x, w1)" and "stable V E w1" and "f x w1 = (r, w')"
  using assms(1) keepsD [OF assms(2,3)]
  by (cases "m w") (auto simp: bindIO_def split: sum.splits intro: fail step)

lemma stable_refl: "stable (published w) (environment w) w"
  by (simp add: stable_def)

lemma write_profile_data_cases:
  assumes "write_profile_data fname c w = (r, w')" and "\<not> prefix ''.'' fname"
  shows "environment w' = environment w \<and>
    (published w' = published w \<and> (\<exists>e. r = Inl e) \<or>
     published w' = (published w)(fname \<mapsto> own_file (cw_euid w) c))"
proof -
  define V E where "V = published w" and "E = environment w"
  have s: "stable V E w" by (simp add: stable_def V_def E_def)
  have wd: "write_profile_data fname c = bindIO new_version (\<lambda>i.
      bindIO (open_file CreateExclusive (temp_name i)) (\<lambda>_.
      finallyIO (bindIO (write_file (temp_name i) c) (\<lambda>_. publish (temp_name i) fname)) (unlink_file (temp_name i))))"
    by (simp add: write_profile_data_def publish_def)
  have fin_step: "environment w' = E \<and> (published w' = V \<and> (\<exists>e. r = Inl e) \<or> published w' = V(fname \<mapsto> own_file (fst E) c))"
    if fin: "finallyIO (bindIO (write_file (temp_name i) c) (\<lambda>_. publish (temp_name i) fname)) (unlink_file (temp_name i)) w2 = (r, w')"
      and s2: "stable V E w2" for i w2
  proof -
    obtain r3 w3 where m: "bindIO (write_file (temp_name i) c) (\<lambda>_. publish (temp_name i) fname) w2 = (r3, w3)"
      by fastforce
    with fin have r: "r = r3" and w': "w' = snd (unlink_file (temp_name i) w3)" by (auto simp: finallyIO_def)
    have clean: "stable V' E w'" if "stable V' E w3" for V'
      using keepsD [OF stable_unlink_hidden that] w' by simp
    have "keeps (stable V E) (write_file (temp_name i) c)" by (rule stable_write_hidden) simp
    from m this s2 show ?thesis
    proof (cases rule: bind_stable)
      case (fail e)
      then show ?thesis using clean [of V] r by (auto simp: stable_def)
    next
      case (step _ w4)
      then have f4: "file_at w4 = (file_at w2)(temp_name i \<mapsto> own_file (cw_euid w2) c)" "environment w4 = environment w2"
        using write_file_Inr by blast+
      have e2: "cw_euid w2 = fst E" using s2 by (auto simp: stable_def environment_def)
      from publish_cases [OF step(3), of "own_file (cw_euid w2) c"] f4
      have p: "environment w3 = E" "file_at w3 = file_at w4 \<and> (\<exists>x. r3 = Inl x) \<or>
          file_at w3 = (file_at w4)(temp_name i := None, fname \<mapsto> own_file (cw_euid w2) c)"
        using s2 by (auto simp: stable_def)
      have pub: "published w3 = V \<and> (\<exists>x. r3 = Inl x) \<or> published w3 = V(fname \<mapsto> own_file (fst E) c)"
        using p(2)
      proof
        assume "file_at w3 = file_at w4 \<and> (\<exists>x. r3 = Inl x)"
        then have "published w3 = published w4" by (auto intro: published_cong)
        with \<open>file_at w3 = file_at w4 \<and> (\<exists>x. r3 = Inl x)\<close> step(2) show ?thesis by (simp add: stable_def)
      next
        assume a: "file_at w3 = (file_at w4)(temp_name i := None, fname \<mapsto> own_file (cw_euid w2) c)"
        have v: "V = published w4" using step(2) by (simp add: stable_def)
        have "published w3 n = (V(fname \<mapsto> own_file (fst E) c)) n" for n
          using assms(2) e2 temp_hidden(1) [of i] unfolding v published_def a by auto
        then show ?thesis by blast
      qed
      then show ?thesis using clean [of "published w3"] p(1) r by (auto simp: stable_def)
    qed
  qed
  have e: "cw_euid w = fst E" by (simp add: E_def environment_def)
  from assms(1) [unfolded wd] stable_sys(3) s show ?thesis
  proof (cases rule: bind_stable)
    case (fail e)
    then show ?thesis by (simp add: stable_def V_def E_def)
  next
    case (step i w1)
    have "keeps (stable V E) (open_file CreateExclusive (temp_name i))" by (rule stable_open_file) simp
    from step(3) this step(2) show ?thesis
    proof (cases rule: bind_stable)
      case (fail e)
      then show ?thesis by (simp add: stable_def V_def E_def)
    next
      case (step _ w2)
      from fin_step [OF step(3,2)] show ?thesis using e by (simp add: V_def E_def)
    qed
  qed
qed

section \<open>The stored credentials\<close>

text \<open>What the published files say a profile is; private, well-formed and valid, or nothing.\<close>

definition stored_in :: "(string \<Rightarrow> file_entry option) \<Rightarrow> int \<times> (content \<Rightarrow> nat) \<Rightarrow> string \<Rightarrow> credentials option" where
  "stored_in V E name = (case V (profile_file name) of None \<Rightarrow> None | Some e \<Rightarrow>
     if \<not> private_entry False (fst E) e then None
     else (case profile_of_content (snd E) name (fe_content e) of Inl _ \<Rightarrow> None | Inr c \<Rightarrow> Some c))"

definition stored :: "cworld \<Rightarrow> string \<Rightarrow> credentials option" where
  "stored w name = stored_in (published w) (environment w) name"

lemma stored_stable: "stable V E w \<Longrightarrow> stored w = stored_in V E"
  by (auto simp: stored_def stable_def)

lemma profile_file_inj [simp]: "profile_file a = profile_file b \<longleftrightarrow> a = b"
  by (simp add: profile_file_def)

lemma valid_name_not_hidden: "valid_profile_name n \<Longrightarrow> \<not> prefix ''.'' (n @ s)"
  by (cases n) (auto simp: valid_profile_name_def profile_first_char_def is_digit_def less_eq_char_def)

lemma check_opened_Inr:
  "check_opened n w = (Inr c, w') \<Longrightarrow>
     \<exists>e. file_at w n = Some e \<and> private_entry False (cw_euid w) e \<and> c = fe_content e \<and> file_at w' = file_at w"
  by (auto simp: check_opened_def bindIO_def sys_def whenE_def split: list.splits option.splits if_splits)

lemma open_read_Inr:
  assumes "open_file ReadOnly n w = (Inr c, w')"
  shows "\<exists>e. file_at w n = Some e \<and> private_entry False (cw_euid w) e \<and> c = fe_content e"
proof -
  obtain w1 where "check_opened n w1 = (Inr c, w')" "file_at w1 = file_at w" "cw_euid w1 = cw_euid w"
    using assms by (auto simp: open_file_def bindIO_def sys_def split: list.splits option.splits if_splits)
  from check_opened_Inr [OF this(1)] this(2,3) show ?thesis by (metis)
qed

lemma read_profile_Inr:
  assumes "read_profile name w = (Inr c, w')" and "valid_profile_name name"
  shows "stored w name = Some c"
proof -
  define V E where "V = published w" and "E = environment w"
  have s: "stable V E w" by (simp add: stable_def V_def E_def)
  have k: "keeps (stable V E) (catchIO (open_file ReadOnly (profile_file name)))"
    by (intro keeps_catch stable_open_file) simp
  from assms(1) [unfolded read_profile_def] k s show ?thesis
  proof (cases rule: bind_stable)
    case (step r w1)
    then obtain d where d: "r = Inr d" by (cases r) auto
    with step(1) have op: "open_file ReadOnly (profile_file name) w = (Inr d, w1)"
      by (auto simp: catchIO_def split: prod.splits)
    from open_read_Inr [OF op] obtain e where e: "file_at w (profile_file name) = Some e"
      "private_entry False (cw_euid w) e" "d = fe_content e" by blast
    from step(3) d have "bindIO sys (\<lambda>_. bindIO (getIO cw_len) (\<lambda>len. liftE (profile_of_content len name d))) w1 = (Inr c, w')"
      by simp
    then have "profile_of_content (snd E) name d = Inr c"
      using step(2) by (auto simp: bindIO_def sys_def stable_def environment_def split: list.splits if_splits)
    moreover have "published w (profile_file name) = Some e"
      using e(1) valid_name_not_hidden [OF assms(2)] by (simp add: published_def profile_file_def)
    ultimately show ?thesis
      using e by (simp add: stored_def stored_in_def E_def environment_def)
  qed simp
qed

lemma write_profile_cases:
  assumes "write_profile name cr w = (r, w')" and "valid_profile_name name"
  shows "environment w' = environment w \<and>
    (published w' = published w \<and> (\<exists>e. r = Inl e) \<or>
     (\<exists>e. published w' = (published w)(profile_file name \<mapsto> e)) \<and> stored w' name = Some cr)"
proof (cases "validate_credentials cr")
  case (Some e)
  with assms(1) show ?thesis by (auto simp: write_profile_def)
next
  case None
  let ?c = "ProfileJSON \<lparr>fp_schema = 1, fp_name = name, fp_credentials = cr\<rparr>"
  show ?thesis
  proof (cases "max_profile < cw_len w ?c")
    case True
    with assms(1) None show ?thesis by (auto simp: write_profile_def Let_def bindIO_def)
  next
    case False
    with assms(1) None have "write_profile_data (profile_file name) ?c w = (r, w')"
      by (simp add: write_profile_def Let_def bindIO_def)
    from write_profile_data_cases [OF this] valid_name_not_hidden [OF assms(2)]
    have c: "environment w' = environment w" "published w' = published w \<and> (\<exists>e. r = Inl e) \<or>
        published w' = (published w)(profile_file name \<mapsto> own_file (cw_euid w) ?c)"
      by (simp_all add: profile_file_def)
    have "stored w' name = Some cr" if "published w' = (published w)(profile_file name \<mapsto> own_file (cw_euid w) ?c)"
      using that c(1) False None
      by (simp add: stored_def stored_in_def own_file_def private_entry_def profile_of_content_def environment_def)
    with c show ?thesis by blast
  qed
qed

lemma locked_cases:
  assumes "locked name fn w = (r, w')" and "stable V E w"
  obtains (fail) e where "r = Inl e" and "stable V E w'"
    | (run) w1 where "stable V E w1" and "fn w1 = (r, w')" and "name = [] \<or> valid_profile_name name"
proof -
  let ?rest = "bindIO acquire (\<lambda>_. bindIO ctx_check (\<lambda>_. fn))"
  have fin: "(\<exists>e. r = Inl e \<and> stable V E w') \<or> (\<exists>w1. stable V E w1 \<and> fn w1 = (r, w'))"
    if "?rest w2 = (r, w')" "stable V E w2" for w2
    using that(1) stable_acquire that(2)
  proof (cases rule: bind_stable)
    case (step x w3)
    from step(3) stable_sys(2) step(2) show ?thesis by (cases rule: bind_stable) blast+
  qed blast
  have op: "(\<exists>e. r = Inl e \<and> stable V E w') \<or> (\<exists>w1. stable V E w1 \<and> fn w1 = (r, w'))"
    if "bindIO (open_file CreateIfAbsent ''.lock'') (\<lambda>_. ?rest) w2 = (r, w')" "stable V E w2" for w2
  proof -
    have k: "keeps (stable V E) (open_file CreateIfAbsent ''.lock'')" by (rule stable_open_file) simp
    from that(1) k that(2) show ?thesis by (cases rule: bind_stable) (use fin in blast)+
  qed
  have dir: "(\<exists>e. r = Inl e \<and> stable V E w') \<or> (\<exists>w1. stable V E w1 \<and> fn w1 = (r, w'))"
    if "bindIO open_directory (\<lambda>_. bindIO (open_file CreateIfAbsent ''.lock'') (\<lambda>_. ?rest)) w2 = (r, w')" "stable V E w2" for w2
    using that(1) stable_open_directory that(2) by (cases rule: bind_stable) (use op in blast)+
  from assms(1) [unfolded locked_def] stable_sys(2) assms(2) show thesis
  proof (cases rule: bind_stable)
    case (step x w1)
    show thesis
    proof (cases "name \<noteq> [] \<and> \<not> valid_profile_name name")
      case True
      with step show thesis by (intro fail [of BadProfileName]) (auto simp: bindIO_def whenE_def)
    next
      case False
      with step(3) have "bindIO open_directory (\<lambda>_. bindIO (open_file CreateIfAbsent ''.lock'') (\<lambda>_. ?rest)) w1 = (r, w')"
        by (simp add: bindIO_def whenE_def)
      from dir [OF this step(2)] False show thesis by (elim disjE exE conjE) (auto intro: fail run)
    qed
  qed (rule fail)
qed

lemma bind_whenE:
  assumes "bindIO (whenE b e) f w = (r, w')"
  obtains "b" and "r = Inl e" and "w' = w" | "\<not> b" and "f () w = (r, w')"
  using assms by (cases b) (auto simp: bindIO_def)

text \<open>Each mutating operation either leaves the published files alone, or publishes one profile.\<close>

lemma save_refresh_cases:
  assumes "save_refresh name expected provider next w = (r, w')"
  obtains (fail) e where "r = Inl e" and "published w' = published w" and "environment w' = environment w"
    | (ok) old v f where "stored w name = Some old" and "cr_version old = expected"
      and "cr_connection old = cr_connection next" and "refresh_allowed provider old next = None"
      and "published w' = (published w)(profile_file name \<mapsto> f)" and "environment w' = environment w"
      and "stored w' name = Some (next\<lparr>cr_version := v\<rparr>)" and "\<And>x. r = Inr x \<Longrightarrow> x = v"
proof -
  define V E where "V = published w" and "E = environment w"
  have s: "stable V E w" by (simp add: stable_def V_def E_def)
  have fl: thesis if "r = Inl e" "stable V E w'" for e
    using fail [OF that(1)] that(2) by (simp add: stable_def V_def E_def)
  from assms [unfolded save_refresh_def] show thesis
  proof (cases rule: bind_whenE)
    case 1
    with s show thesis by (intro fl) auto
  next
    case 2
    from 2(2) s show thesis
    proof (cases rule: locked_cases)
      case (fail e)
      then show thesis by (rule fl)
    next
      case (run w1)
      from run(2) stable_refuse_vault run(1) show thesis
      proof (cases rule: bind_stable)
        case (fail e)
        then show thesis by (rule fl)
      next
        case (step _ w2)
        from step(3) stable_read_profile step(2) show thesis
        proof (cases rule: bind_stable)
          case (fail e)
          then show thesis by (rule fl)
        next
          case (step old w3)
          have old: "stored w name = Some old"
            using read_profile_Inr [OF step(1)] 2(1) \<open>stable V E w2\<close> s by (simp add: stored_stable)
          from step(3) show thesis
          proof (cases rule: bind_whenE)
            case 1
            with step(2) show thesis by (intro fl) auto
          next
            case ver: 2
            show thesis
            proof (cases "refresh_allowed provider old next")
              case (Some e)
              with ver(2) step(2) show thesis by (intro fl [of e]) (auto simp: bindIO_def)
            next
              case None
              with ver(2) have "bindIO new_version (\<lambda>v. bindIO (write_profile name (next\<lparr>cr_version := v\<rparr>)) (\<lambda>_. returnIO v)) w3 = (r, w')"
                by (simp add: bindIO_def)
              from this stable_sys(3) step(2) show thesis
              proof (cases rule: bind_stable)
                case (fail e)
                then show thesis by (rule fl)
              next
                case (step v w4)
                obtain r5 w5 where w5: "write_profile name (next\<lparr>cr_version := v\<rparr>) w4 = (r5, w5)" by fastforce
                with step(3) have w': "w' = w5" and r: "r = (case r5 of Inl e \<Rightarrow> Inl e | Inr _ \<Rightarrow> Inr v)"
                  by (auto simp: bindIO_def split: sum.splits)
                have v4: "published w4 = V" "environment w4 = E" using step(2) by (simp_all add: stable_def)
                have "valid_profile_name name" using 2(1) by simp
                from write_profile_cases [OF w5 this] v4
                have env: "environment w5 = E" and pub: "published w5 = V \<and> (\<exists>e. r5 = Inl e) \<or>
                    (\<exists>f. published w5 = V(profile_file name \<mapsto> f)) \<and> stored w5 name = Some (next\<lparr>cr_version := v\<rparr>)"
                  by simp_all
                from pub show thesis
                proof (elim disjE conjE exE)
                  fix e assume "published w5 = V" "r5 = Inl e"
                  with r env w' show thesis by (intro fl [of e]) (simp_all add: stable_def)
                next
                  fix f assume f: "stored w5 name = Some (next\<lparr>cr_version := v\<rparr>)" "published w5 = V(profile_file name \<mapsto> f)"
                  have "x = v" if "r = Inr x" for x using that r by (cases r5) auto
                  with f env w' ver(1) show thesis
                    by (intro ok [OF old _ _ None]) (simp_all add: V_def E_def)
                qed
              qed
            qed
          qed
        qed
      qed
    qed
  qed
qed

lemma load_cases:
  assumes "load name w = (r, w')"
  shows "published w' = published w" and "environment w' = environment w"
    and "\<And>c. r = Inr c \<Longrightarrow> stored w name = Some c"
proof -
  define V E where "V = published w" and "E = environment w"
  have s: "stable V E w" by (simp add: stable_def V_def E_def)
  have "stable V E w' \<and> (\<forall>c. r = Inr c \<longrightarrow> stored w name = Some c)"
    using assms [unfolded load_def]
  proof (cases rule: bind_whenE)
    case 2
    from 2(2) s show ?thesis
    proof (cases rule: locked_cases)
      case (run w1)
      from run(2) stable_refuse_vault run(1) show ?thesis
      proof (cases rule: bind_stable)
        case (step _ w2)
        have "stable V E w'" using keepsD [OF stable_read_profile step(2)] step(3) by (metis snd_conv)
        moreover have "stored w name = Some c" if "r = Inr c" for c
          using read_profile_Inr [of name w2 c w'] step 2(1) that s by (simp add: stored_stable)
        ultimately show ?thesis by blast
      qed simp
    qed simp
  qed (use s in simp)
  then show "published w' = published w" "environment w' = environment w"
    "\<And>c. r = Inr c \<Longrightarrow> stored w name = Some c"
    by (simp_all add: stable_def V_def E_def)
qed

lemma open_read_ENoEnt:
  "open_file ReadOnly n w = (Inl ENoEnt, w') \<Longrightarrow> file_at w n = None"
  by (auto simp: open_file_def check_opened_def bindIO_def sys_def whenE_def
      split: list.splits option.splits if_splits)

lemma profile_of_content_not_found: "profile_of_content len name c \<noteq> Inl NotFound"
  by (auto simp: profile_of_content_def validate_credentials_def split: content.splits if_splits option.splits)

lemma read_profile_not_found:
  assumes "read_profile name w = (Inl NotFound, w')" and "valid_profile_name name"
  shows "published w (profile_file name) = None"
proof -
  obtain r1 w1 where o: "open_file ReadOnly (profile_file name) w = (r1, w1)" by fastforce
  have "r1 = Inl ENoEnt"
  proof (cases r1)
    case (Inl e)
    with assms(1) o show ?thesis
      by (auto simp: read_profile_def bindIO_def catchIO_def open_file_def check_opened_def sys_def whenE_def
          split: if_splits list.splits option.splits)
  next
    case (Inr d)
    with assms(1) o profile_of_content_not_found show ?thesis
      by (auto simp: read_profile_def bindIO_def catchIO_def sys_def split: list.splits if_splits)
  qed
  with o have "file_at w (profile_file name) = None" by (auto dest: open_read_ENoEnt)
  then show ?thesis by (simp add: published_def)
qed

lemma create_cases:
  assumes "create name cr w = (r, w')"
  obtains (fail) e where "r = Inl e" and "published w' = published w" and "environment w' = environment w"
    | (ok) v cv f where "published w (profile_file name) = None" and "environment w' = environment w"
      and "published w' = (published w)(profile_file name \<mapsto> f)"
      and "stored w' name = Some (cr\<lparr>cr_version := v, cr_connection := cv\<rparr>)"
proof -
  define V E where "V = published w" and "E = environment w"
  have s: "stable V E w" by (simp add: stable_def V_def E_def)
  have fl: thesis if "r = Inl e" "stable V E w'" for e
    using fail [OF that(1)] that(2) by (simp add: stable_def V_def E_def)
  from assms [unfolded create_def] show thesis
  proof (cases rule: bind_whenE)
    case 1
    with s show thesis by (intro fl) auto
  next
    case 2
    have vn: "valid_profile_name name" using 2(1) by simp
    from 2(2) s show thesis
    proof (cases rule: locked_cases)
      case (fail e)
      then show thesis by (rule fl)
    next
      case (run w1)
      from run(2) stable_refuse_vault run(1) show thesis
      proof (cases rule: bind_stable)
        case (fail e)
        then show thesis by (rule fl)
      next
        case (step _ w2)
        from step(3) keeps_catch [OF stable_read_profile] step(2) show thesis
        proof (cases rule: bind_stable)
          case (fail e)
          then show thesis by (rule fl)
        next
          case (step q w3)
          show thesis
          proof (cases "q = Inl NotFound")
            case False
            with step show thesis by (cases q) (auto intro: fl split: if_splits)
          next
            case True
            with step(1) have "read_profile name w2 = (Inl NotFound, w3)"
              by (auto simp: catchIO_def split: prod.splits)
            with vn have absent: "published w2 (profile_file name) = None" by (rule read_profile_not_found [rotated])
            with \<open>stable V E w2\<close> have absent: "V (profile_file name) = None" by (simp add: stable_def)
            from True step(3) have "bindIO new_version (\<lambda>v. bindIO new_version (\<lambda>cv.
                write_profile name (cr\<lparr>cr_version := v, cr_connection := cv\<rparr>))) w3 = (r, w')" by simp
            from this stable_sys(3) step(2) show thesis
            proof (cases rule: bind_stable)
              case (fail e)
              then show thesis by (rule fl)
            next
              case (step v w4)
              from step(3) stable_sys(3) step(2) show thesis
              proof (cases rule: bind_stable)
                case (fail e)
                then show thesis by (rule fl)
              next
                case (step cv w5)
                have v5: "published w5 = V" "environment w5 = E" using step(2) by (simp_all add: stable_def)
                from write_profile_cases [OF step(3) vn] v5 have env: "environment w' = E"
                  and pub: "published w' = V \<and> (\<exists>e. r = Inl e) \<or>
                    (\<exists>f. published w' = V(profile_file name \<mapsto> f)) \<and>
                    stored w' name = Some (cr\<lparr>cr_version := v, cr_connection := cv\<rparr>)"
                  by simp_all
                from pub show thesis
                proof (elim disjE conjE exE)
                  fix e assume "published w' = V" "r = Inl e"
                  with env show thesis by (intro fl [of e]) (simp_all add: stable_def)
                next
                  fix f assume "stored w' name = Some (cr\<lparr>cr_version := v, cr_connection := cv\<rparr>)"
                    "published w' = V(profile_file name \<mapsto> f)"
                  with absent env show thesis by (intro ok) (simp_all add: V_def E_def)
                qed
              qed
            qed
          qed
        qed
      qed
    qed
  qed
qed

section \<open>The store contract\<close>

text \<open>
  What \<open>Store\<close> promises to an auth proxy: loads observe, a save is a compare-and-swap on the version
  that keeps the connection, and no save touches another profile.  A save that fails may still have
  become durable, which is why a proxy revokes its case then.
\<close>

locale credential_store =
  fixes ld :: "string \<Rightarrow> ('s, store_error, credentials) io"
    and sv :: "string \<Rightarrow> string \<Rightarrow> string \<Rightarrow> credentials \<Rightarrow> ('s, store_error, string) io"
    and cur :: "'s \<Rightarrow> string \<Rightarrow> credentials option"
  assumes load_sound: "ld n s = (lr, s') \<Longrightarrow> cur s' = cur s"
    and load_value: "ld n s = (Inr c, s') \<Longrightarrow> cur s n = Some c"
    and save_cases: "sv n x p c s = (r, s') \<Longrightarrow> (\<exists>e. r = Inl e \<and> cur s' = cur s) \<or>
      (\<exists>old v. cur s n = Some old \<and> cr_version old = x \<and> cr_connection old = cr_connection c \<and>
         cur s' = (cur s)(n \<mapsto> c\<lparr>cr_version := v\<rparr>) \<and> (\<forall>y. r = Inr y \<longrightarrow> y = v))"
begin

lemma save_Inr:
  assumes "sv n x p c s = (Inr v, s')"
  shows "cur s' = (cur s)(n \<mapsto> c\<lparr>cr_version := v\<rparr>)"
    and "\<exists>old. cur s n = Some old \<and> cr_version old = x \<and> cr_connection old = cr_connection c"
  using save_cases [OF assms] by auto

lemma stale_save:
  assumes "cur s n = Some old" and "cr_version old \<noteq> x" and "sv n x p c s = (r, s')"
  shows "(\<exists>e. r = Inl e) \<and> cur s' = cur s"
  using save_cases [OF assms(3)] assms(1,2) by auto

lemma second_save_loses:
  assumes "sv n x p c s = (Inr v, s')" and "v \<noteq> x" and "sv n x q d s' = (r, s'')"
  shows "(\<exists>e. r = Inl e) \<and> cur s'' = cur s'"
  using stale_save [of s' n "c\<lparr>cr_version := v\<rparr>" x q d r s''] save_Inr(1) [OF assms(1)] assms(2,3) by simp

lemma load_after_save:
  assumes "sv n x p c s = (Inr v, s')" and "ld n s' = (Inr d, s'')"
  shows "d = c\<lparr>cr_version := v\<rparr>"
  using load_value [OF assms(2)] save_Inr(1) [OF assms(1)] by simp

text \<open>Any number of refreshes, by any callers, in any order.\<close>

fun saves :: "(string \<times> string \<times> string \<times> credentials) list \<Rightarrow> 's \<Rightarrow> 's" where
  "saves [] s = s"
| "saves ((n, x, p, c) # ops) s = saves ops (snd (sv n x p c s))"

lemma saves_keep_connection:
  "cur s n = Some c0 \<Longrightarrow> \<exists>c. cur (saves ops s) n = Some c \<and> cr_connection c = cr_connection c0"
proof (induction ops arbitrary: s c0)
  case (Cons op ops)
  obtain m x p c where op: "op = (m, x, p, c)" by (cases op) auto
  obtain r s' where sv: "sv m x p c s = (r, s')" by fastforce
  have "\<exists>c1. cur s' n = Some c1 \<and> cr_connection c1 = cr_connection c0"
    using save_cases [OF sv] Cons.prems by (cases "m = n") auto
  then show ?case using Cons.IH op sv by fastforce
qed simp

lemma saves_absent: "cur s n = None \<Longrightarrow> cur (saves ops s) n = None"
proof (induction ops arbitrary: s)
  case (Cons op ops)
  obtain m x p c where op: "op = (m, x, p, c)" by (cases op) auto
  obtain r s' where sv: "sv m x p c s = (r, s')" by fastforce
  have "cur s' n = None" using save_cases [OF sv] Cons.prems by (cases "m = n") auto
  then show ?case using Cons.IH op sv by simp
qed simp

end

lemma stored_update:
  assumes "published w' = (published w)(profile_file n \<mapsto> f)" and "environment w' = environment w"
    and "stored w' n = Some c"
  shows "stored w' = (stored w)(n \<mapsto> c)"
proof
  fix m
  show "stored w' m = ((stored w)(n \<mapsto> c)) m"
    using assms by (cases "m = n") (simp_all add: stored_def stored_in_def)
qed

interpretation file_store: credential_store load save_refresh stored
proof
  fix n s r s'
  assume "load n s = (r, s')"
  then show "stored s' = stored s" using load_cases(1,2) by (simp add: stored_def [abs_def])
next
  fix n s c s'
  assume "load n s = (Inr c, s')"
  then show "stored s n = Some c" using load_cases(3) by blast
next
  fix n x p c s r s'
  assume "save_refresh n x p c s = (r, s')"
  then show "(\<exists>e. r = Inl e \<and> stored s' = stored s) \<or>
      (\<exists>old v. stored s n = Some old \<and> cr_version old = x \<and> cr_connection old = cr_connection c \<and>
         stored s' = (stored s)(n \<mapsto> c\<lparr>cr_version := v\<rparr>) \<and> (\<forall>y. r = Inr y \<longrightarrow> y = v))"
  proof (cases rule: save_refresh_cases)
    case (fail e)
    then show ?thesis by (simp add: stored_def [abs_def])
  next
    case (ok old v f)
    then show ?thesis using stored_update [OF ok(5,6,7)] by blast
  qed
qed

section \<open>Properties\<close>

definition sample_oauth :: "string \<Rightarrow> openai_oauth" where
  "sample_oauth t = \<lparr>oa_id_token = [], oa_access = t, oa_refresh = t, oa_account = [], oa_last_refresh = [],
     oa_expires = 0, oa_token_type = ''Bearer''\<rparr>"

definition sample_credentials :: "string \<Rightarrow> string \<Rightarrow> credentials" where
  "sample_credentials v t = \<lparr>cr_version = v, cr_connection = ''c0'', cr_openai_key = [],
     cr_openai = Some (sample_oauth t), cr_anthropic_key = ''k'', cr_anthropic = None\<rparr>"

definition sample_store :: "bool list \<Rightarrow> cworld" where
  "sample_store faults =
     \<lparr>cw_dir = Some \<lparr>fe_kind = Directory, fe_owner = 7, fe_perm = 448, fe_nlink = 2, fe_content = OtherBytes []\<rparr>,
      cw_files = [(''p.json'', own_file 7 (ProfileJSON \<lparr>fp_schema = 1, fp_name = ''p'',
         fp_credentials = sample_credentials ''v0'' ''t0''\<rparr>))],
      cw_euid = 7, cw_faults = faults, cw_ctx = [], cw_random = [''v1'', ''r1'', ''v2'', ''r2''], cw_contended = 1,
      cw_len = (\<lambda>_. 100)\<rparr>"

text \<open>C7: \<open>SaveRefresh\<close> of the file store is a compare-and-swap.  A save that succeeds found the expected
  version and the same connection, replaces exactly this profile by the new credentials under the
  returned version, and every further save against the old version fails without changing any
  profile, so of two concurrent refreshes of one generation at most one wins.\<close>

theorem save_refresh_cas:
  assumes "save_refresh n x p c w = (Inr v, w')"
  shows "(\<exists>old. stored w n = Some old \<and> cr_version old = x \<and> cr_connection old = cr_connection c) \<and>
    stored w' = (stored w)(n \<mapsto> c\<lparr>cr_version := v\<rparr>) \<and>
    (v \<noteq> x \<longrightarrow> (\<exists>e. fst (save_refresh n x q d w') = Inl e) \<and>
       stored (snd (save_refresh n x q d w')) = stored w')"
proof -
  have "(\<exists>e. fst (save_refresh n x q d w') = Inl e) \<and> stored (snd (save_refresh n x q d w')) = stored w'" if "v \<noteq> x"
    using file_store.second_save_loses [OF assms that] by (metis prod.collapse)
  with file_store.save_Inr [OF assms] show ?thesis by blast
qed

lemma save_refresh_cas_witness:
  "stored (snd (save_refresh ''p'' ''v0'' ''openai'' (sample_credentials [] ''t1'') (sample_store []))) ''p'' =
     Some (sample_credentials ''v1'' ''t1'')"
proof -
  have "fst (save_refresh ''p'' ''v0'' ''openai'' (sample_credentials [] ''t1'') (sample_store [])) = Inr ''v1''"
    by code_simp
  then obtain w' where w': "save_refresh ''p'' ''v0'' ''openai'' (sample_credentials [] ''t1'') (sample_store []) =
      (Inr ''v1'', w')" by (metis prod.collapse)
  from save_refresh_cas [OF w'] w' show ?thesis by (simp add: sample_credentials_def)
qed

text \<open>whatever system call fails and whenever the context ends, a save leaves a published profile that
  is either untouched or exactly the complete new record, and touches no other published file; if it
  reports success the new record is the one stored, under the version it returns.\<close>

theorem save_refresh_atomic:
  assumes "save_refresh n x p c w = (r, w')"
  shows "(\<exists>f. published w' = (published w)(profile_file n := f)) \<and>
    (stored w' = stored w \<or> (\<exists>v. stored w' n = Some (c\<lparr>cr_version := v\<rparr>))) \<and>
    (case r of Inl e \<Rightarrow> True | Inr v \<Rightarrow> stored w' n = Some (c\<lparr>cr_version := v\<rparr>))"
  using assms
proof (cases rule: save_refresh_cases)
  case (fail e)
  have "\<exists>f. published w = (published w)(profile_file n := f)"
    by (rule exI [of _ "published w (profile_file n)"]) simp
  with fail show ?thesis by (simp add: stored_def [abs_def])
next
  case (ok old v f)
  then show ?thesis by (auto split: sum.split)
qed

lemma save_refresh_atomic_witness:
  "\<exists>w'. save_refresh ''p'' ''v0'' ''openai'' (sample_credentials [] ''t1'')
       (sample_store (replicate 13 False @ [True])) = (Inl EIO, w') \<and>
     (stored w' = stored (sample_store (replicate 13 False @ [True])) \<or>
      (\<exists>v. stored w' ''p'' = Some (sample_credentials [] ''t1''\<lparr>cr_version := v\<rparr>)))"
proof -
  let ?r = "save_refresh ''p'' ''v0'' ''openai'' (sample_credentials [] ''t1'')
      (sample_store (replicate 13 False @ [True]))"
  have "fst ?r = Inl EIO" by code_simp
  then obtain w' where w': "?r = (Inl EIO, w')" by (cases ?r) auto
  from save_refresh_atomic [OF w'] have
    "stored w' = stored (sample_store (replicate 13 False @ [True])) \<or>
      (\<exists>v. stored w' ''p'' = Some (sample_credentials [] ''t1''\<lparr>cr_version := v\<rparr>))" by (rule conjunct1 [OF conjunct2])
  with w' show ?thesis by blast
qed

text \<open>\<open>Create\<close> never replaces a profile: whatever it returns, a file that was already published under
  the profile's name (well-formed or not) is still there unchanged, and no other file is touched;
  and when it publishes, the stored record carries freshly generated versions.\<close>

theorem create_never_replaces:
  assumes "create n c w = (r, w')"
  shows "(published w (profile_file n) \<noteq> None \<longrightarrow> published w' = published w \<and> (\<exists>e. r = Inl e)) \<and>
    (\<exists>f. published w' = (published w)(profile_file n := f)) \<and>
    (published w' \<noteq> published w \<longrightarrow>
       (\<exists>v cv. stored w' n = Some (c\<lparr>cr_version := v, cr_connection := cv\<rparr>)))"
  using assms
proof (cases rule: create_cases)
  case (fail e)
  then have "published w' = (published w)(profile_file n := published w (profile_file n))" by simp
  with fail show ?thesis by (metis (no_types, lifting))
next
  case (ok v cv f)
  then show ?thesis by auto
qed

lemma create_never_replaces_witness:
  "published (snd (create ''p'' (sample_credentials [] ''t9'') (sample_store []))) = published (sample_store []) \<and>
   fst (create ''p'' (sample_credentials [] ''t9'') (sample_store [])) = Inl ProfileExists"
proof -
  let ?r = "create ''p'' (sample_credentials [] ''t9'') (sample_store [])"
  have "fst ?r = Inl ProfileExists" "published (sample_store []) (profile_file ''p'') \<noteq> None" by code_simp+
  moreover have "?r = (fst ?r, snd ?r)" by simp
  ultimately show ?thesis using create_never_replaces by blast
qed

text \<open>a refresh is confined to its provider.  When a save for one provider succeeds, the API keys and
  the other provider's OAuth record are what they were, and the refreshed provider stays in OAuth
  mode.\<close>

theorem refresh_confined:
  assumes "save_refresh n x p c w = (Inr v, w')"
  shows "\<exists>old new. stored w n = Some old \<and> stored w' n = Some new \<and>
    cr_openai_key new = cr_openai_key old \<and> cr_anthropic_key new = cr_anthropic_key old \<and>
    (if p = ''openai'' then cr_anthropic new = cr_anthropic old \<and> cr_openai new \<noteq> None
     else p = ''anthropic'' \<and> cr_openai new = cr_openai old \<and> cr_anthropic new \<noteq> None)"
  using assms
proof (cases rule: save_refresh_cases)
  case (ok old v' f)
  then show ?thesis by (auto simp: refresh_allowed_def split: if_splits)
qed simp

lemma refresh_confined_witness:
  "\<exists>old new. stored (sample_store []) ''p'' = Some old \<and> cr_anthropic_key old = ''k'' \<and>
     stored (snd (save_refresh ''p'' ''v0'' ''openai'' (sample_credentials [] ''t1'') (sample_store []))) ''p'' = Some new \<and>
     cr_anthropic_key new = ''k''"
proof -
  let ?r = "save_refresh ''p'' ''v0'' ''openai'' (sample_credentials [] ''t1'') (sample_store [])"
  have f: "fst ?r = Inr ''v1''" and s: "stored (sample_store []) ''p'' = Some (sample_credentials ''v0'' ''t0'')"
    by code_simp+
  from f have "?r = (Inr ''v1'', snd ?r)" by (metis prod.collapse)
  from refresh_confined [OF this] s show ?thesis by (auto simp: sample_credentials_def)
qed

text \<open>no sequence of refreshes, by any number of proxies and with any failures, changes the connection
  a profile belongs to, and none creates a profile.\<close>

theorem refreshes_keep_connection:
  "map_option cr_connection (stored (file_store.saves ops w) n) = map_option cr_connection (stored w n)"
  using file_store.saves_keep_connection [of w n _ ops] file_store.saves_absent [of w n ops]
  by (cases "stored w n") auto

end
