(* ===== verification/Identity.thy ===== *)
theory Identity
  imports GoStrings
begin

text \<open>
  \<open>pkg/cxd/identity\<close>: the execution identity and the model policy attached to a worker token.  A
  model policy is a pointer in the code: \<open>None\<close> inherits the proxy's policy, \<open>Some []\<close> denies all.
\<close>

record identity =
  id_case :: string
  id_run :: string
  id_connection :: string
  id_provider :: string

datatype identity_error = BadIdentity | BadTokenProvider | TooManyModels | InexactModel

definition empty_identity :: identity where
  "empty_identity = \<lparr>id_case = [], id_run = [], id_connection = [], id_provider = []\<rparr>"

definition identity_empty :: "identity \<Rightarrow> bool" where
  "identity_empty v \<longleftrightarrow> v = empty_identity"

definition identity_field_ok :: "string \<Rightarrow> bool" where
  "identity_field_ok f \<longleftrightarrow> f \<noteq> [] \<and> length f \<le> 256 \<and> \<not> contains_any f [CHR 0x00, CHR 0x0D, CHR 0x0A]"

definition validate_identity :: "identity \<Rightarrow> identity_error option" where
  "validate_identity v =
     (if \<not> list_all identity_field_ok [id_case v, id_run v, id_connection v] then Some BadIdentity
      else if id_provider v \<noteq> ''openai'' \<and> id_provider v \<noteq> ''anthropic'' then Some BadTokenProvider
      else None)"

type_synonym model_policy = "string list option"

definition model_ok :: "string \<Rightarrow> bool" where
  "model_ok m \<longleftrightarrow> m \<noteq> [] \<and> length m \<le> 256 \<and>
     \<not> contains_any m [CHR ''*'', CHR ''?'', CHR '','', CHR 0x5C, CHR 0x22, CHR '' '', CHR 0x09, CHR 0x0D, CHR 0x0A, CHR 0x00]"

definition validate_model_policy :: "model_policy \<Rightarrow> identity_error option" where
  "validate_model_policy p = (case p of None \<Rightarrow> None | Some ms \<Rightarrow>
     if 256 < length ms then Some TooManyModels
     else if list_all model_ok ms then None else Some InexactModel)"

definition clone_policy :: "model_policy \<Rightarrow> model_policy" where
  "clone_policy p = map_option (\<lambda>ms. ms) p"

lemma clone_policy_id [simp]: "clone_policy p = p"
  by (cases p) (simp_all add: clone_policy_def)

lemma empty_identity_invalid: "validate_identity empty_identity \<noteq> None"
  by (simp add: validate_identity_def empty_identity_def identity_field_ok_def)

end
