(* ===== verification/TokenProxy.thy ===== *)
theory TokenProxy
  imports Identity CredentialStore
begin

text \<open>
  The token side of \<open>internal/authproxy\<close>: issuing, restoring, revoking and expiring worker tokens,
  the two indexes and the leases that change with them, the check of the credential generation, and
  the authentication of a worker request.  Each operation runs under the proxy's lock and is one
  step.  A lease stands for the cancellable context of a record: it ends when it is cancelled or
  when its deadline passes.  Times are nanoseconds; the clock is an argument.
\<close>

section \<open>State\<close>

record token_record =
  tr_token :: string
  tr_container :: string
  tr_expires :: int
  tr_issued :: int
  tr_identity :: identity
  tr_policy :: model_policy
  tr_lease :: nat

record proxy_config =
  pc_case_id :: string
  pc_profile :: string
  pc_token_ttl :: int
  pc_admin_secret :: string
  pc_allowed_models :: "string list"
  pc_block_private :: bool

record proxy =
  px_tokens :: "(string \<times> token_record) list"
  px_by_value :: "string \<rightharpoonup> token_record"
  px_revoked_runs :: "identity set"
  px_case_revoked :: bool
  px_cancelled :: "nat set"
  px_next_lease :: nat
  px_store_version :: string
  px_connection :: string
  px_store_creds :: credentials

datatype proxy_error =
    PolicyInvalid identity_error | IdentityInvalid identity_error | IdentityMismatch
  | RandomFailure | CaseRevoked | GenerationLoad store_error | GenerationConflict
  | BadPlaceholder | BadTTL | PlaceholderTaken | OtherCase | RequestEnded
  | EmptyVersion | RefreshType | RefreshProvider | SaveFailed store_error

text \<open>A \<open>time.Duration\<close> product wraps in 64 bits.\<close>

definition wrap64 :: "int \<Rightarrow> int" where
  "wrap64 k = signed_take_bit 63 k"

definition new_token_record :: "string \<Rightarrow> string \<Rightarrow> int \<Rightarrow> int \<Rightarrow> nat \<Rightarrow> token_record" where
  "new_token_record name token ttl now lease =
     \<lparr>tr_token = token, tr_container = name, tr_expires = now + wrap64 (ttl * 1000000000),
      tr_issued = now, tr_identity = empty_identity, tr_policy = None, tr_lease = lease\<rparr>"

section \<open>The two indexes\<close>

definition token_at :: "proxy \<Rightarrow> string \<Rightarrow> token_record option" where
  "token_at p name = map_of (px_tokens p) name"

definition remove_token :: "string \<Rightarrow> proxy \<Rightarrow> proxy" where
  "remove_token name p = (case token_at p name of None \<Rightarrow> p | Some rec \<Rightarrow>
     p\<lparr>px_cancelled := insert (tr_lease rec) (px_cancelled p),
       px_by_value := (px_by_value p)(tr_token rec := None),
       px_tokens := AList.delete name (px_tokens p)\<rparr>)"

definition replace_token :: "token_record \<Rightarrow> proxy \<Rightarrow> proxy" where
  "replace_token rec p =
     (let q = remove_token (tr_container rec) p in
      q\<lparr>px_tokens := AList.update (tr_container rec) rec (px_tokens q),
        px_by_value := (px_by_value q)(tr_token rec \<mapsto> rec)\<rparr>)"

text \<open>A range over the token map that removes the records satisfying a condition.\<close>

fun remove_where :: "(token_record \<Rightarrow> bool) \<Rightarrow> (string \<times> token_record) list \<Rightarrow> proxy \<Rightarrow> proxy" where
  "remove_where P [] p = p"
| "remove_where P ((name, rec) # rest) p =
     remove_where P rest (if P rec then remove_token name p else p)"

definition revoke_case_tokens :: "proxy \<Rightarrow> proxy" where
  "revoke_case_tokens p = remove_where (\<lambda>_. True) (px_tokens p) (p\<lparr>px_case_revoked := True\<rparr>)"

definition expire_tokens :: "int \<Rightarrow> proxy \<Rightarrow> proxy" where
  "expire_tokens now p = remove_where (\<lambda>rec. tr_expires rec < now) (px_tokens p) p"

definition revoke_token :: "string \<Rightarrow> proxy \<Rightarrow> proxy" where
  "revoke_token name p = remove_token name p"

section \<open>The credential generation\<close>

definition credential_scope :: "proxy_config \<Rightarrow> string" where
  "credential_scope cfg = (if pc_profile cfg \<noteq> [] then pc_profile cfg else pc_case_id cfg)"

text \<open>
  The store's answer to \<open>Load\<close> is an argument, \<open>None\<close> when no store is configured.
\<close>

type_synonym generation = "(string \<Rightarrow> (store_error, credentials) result) option"

definition check_case_generation :: "proxy_config \<Rightarrow> generation \<Rightarrow> proxy \<Rightarrow> proxy_error option \<times> proxy" where
  "check_case_generation cfg gen p = (case gen of None \<Rightarrow> (None, p) | Some ld \<Rightarrow>
     (case ld (credential_scope cfg) of
        Inl e \<Rightarrow> (Some (GenerationLoad e), if e = NotFound then revoke_case_tokens p else p)
      | Inr c \<Rightarrow>
          if cr_version c \<noteq> px_store_version p \<or> cr_connection c \<noteq> px_connection p
          then (Some GenerationConflict, revoke_case_tokens p) else (None, p)))"

definition check_token_identity :: "proxy_config \<Rightarrow> proxy \<Rightarrow> identity \<Rightarrow> proxy_error option" where
  "check_token_identity cfg p i =
     (if pc_case_id cfg \<noteq> [] \<or> (pc_profile cfg \<noteq> [] \<and> \<not> identity_empty i) then
        (if validate_identity i \<noteq> None \<or> id_case i \<noteq> credential_scope cfg \<or> id_connection i \<noteq> px_connection p
         then Some IdentityMismatch else None)
      else if \<not> identity_empty i then map_option IdentityInvalid (validate_identity i)
      else None)"

section \<open>Issue, restore, revoke\<close>

text \<open>\<open>random\<close> is the result of \<open>generateToken\<close>: 32 random bytes in hex behind \<open>cdx-\<close>, or a failure.\<close>

definition issue_commit ::
  "string \<Rightarrow> int \<Rightarrow> string \<Rightarrow> int \<Rightarrow> identity \<Rightarrow> model_policy \<Rightarrow> proxy \<Rightarrow> (proxy_error, string) result \<times> proxy" where
  "issue_commit token now name ttl i pol p =
     (let lease = px_next_lease p;
          rec = (new_token_record name token ttl now lease)\<lparr>tr_identity := i, tr_policy := clone_policy pol\<rparr>;
          q = p\<lparr>px_next_lease := Suc lease\<rparr> in
      if px_case_revoked q \<or> i \<in> px_revoked_runs q
      then (Inl CaseRevoked, q\<lparr>px_cancelled := insert lease (px_cancelled q)\<rparr>)
      else (Inr token, replace_token rec q))"

definition issue_token ::
  "proxy_config \<Rightarrow> generation \<Rightarrow> string option \<Rightarrow> int \<Rightarrow> string \<Rightarrow> int \<Rightarrow> identity \<Rightarrow> model_policy \<Rightarrow> proxy \<Rightarrow>
   (proxy_error, string) result \<times> proxy" where
  "issue_token cfg gen random now name ttl i pol p =
     (case validate_model_policy pol of Some e \<Rightarrow> (Inl (PolicyInvalid e), p) | None \<Rightarrow>
      (case check_case_generation cfg gen p of
        (Some e, p1) \<Rightarrow> (Inl e, p1)
      | (None, p1) \<Rightarrow>
         (case check_token_identity cfg p1 i of Some e \<Rightarrow> (Inl e, p1) | None \<Rightarrow>
          (case random of None \<Rightarrow> (Inl RandomFailure, p1)
           | Some token \<Rightarrow> issue_commit token now name ttl i pol p1))))"

definition placeholder_ok :: "string \<Rightarrow> string \<Rightarrow> bool" where
  "placeholder_ok name token \<longleftrightarrow> \<not> (name = [] \<or> 255 < length name \<or>
     contains_any name [CHR 0x0D, CHR 0x0A, CHR 0x00] \<or> \<not> prefix ''cdx-'' token \<or> length token \<noteq> 68) \<and>
     hex_decodes (trim_prefix token ''cdx-'')"

definition restore_ttl :: "proxy_config \<Rightarrow> int \<Rightarrow> int" where
  "restore_ttl cfg ttl = (if ttl \<le> 0 then pc_token_ttl cfg else ttl)"

definition restore_commit ::
  "string \<Rightarrow> int \<Rightarrow> string \<Rightarrow> int \<Rightarrow> identity \<Rightarrow> model_policy \<Rightarrow> proxy \<Rightarrow> proxy_error option \<times> proxy" where
  "restore_commit token now name ttl i pol p =
     (if px_case_revoked p \<or> i \<in> px_revoked_runs p then (Some CaseRevoked, p)
      else if (case px_by_value p token of None \<Rightarrow> False | Some rec \<Rightarrow> tr_container rec \<noteq> name)
        then (Some PlaceholderTaken, p)
      else (let lease = px_next_lease p;
                rec = (new_token_record name token ttl now lease)\<lparr>tr_identity := i, tr_policy := clone_policy pol\<rparr> in
            (None, replace_token rec (p\<lparr>px_next_lease := Suc lease\<rparr>))))"

definition restore_token ::
  "proxy_config \<Rightarrow> generation \<Rightarrow> int \<Rightarrow> string \<Rightarrow> string \<Rightarrow> int \<Rightarrow> identity \<Rightarrow> model_policy \<Rightarrow> proxy \<Rightarrow>
   proxy_error option \<times> proxy" where
  "restore_token cfg gen now name token ttl0 i pol p =
     (case validate_model_policy pol of Some e \<Rightarrow> (Some (PolicyInvalid e), p) | None \<Rightarrow>
      (case check_case_generation cfg gen p of
        (Some e, p1) \<Rightarrow> (Some e, p1)
      | (None, p1) \<Rightarrow>
         (case check_token_identity cfg p1 i of Some e \<Rightarrow> (Some e, p1) | None \<Rightarrow>
          if \<not> placeholder_ok name token then (Some BadPlaceholder, p1)
          else (let ttl = restore_ttl cfg ttl0 in
            if ttl \<le> 0 \<or> 365 * 24 * 3600 < ttl then (Some BadTTL, p1)
            else restore_commit token now name ttl i pol p1))))"

definition revoke_run_commit :: "identity \<Rightarrow> proxy \<Rightarrow> proxy" where
  "revoke_run_commit i p = remove_where (\<lambda>rec. tr_identity rec = i) (px_tokens p)
     (p\<lparr>px_revoked_runs := insert i (px_revoked_runs p)\<rparr>)"

definition revoke_run :: "proxy_config \<Rightarrow> bool \<Rightarrow> identity \<Rightarrow> proxy \<Rightarrow> proxy_error option \<times> proxy" where
  "revoke_run cfg ended i p =
     (if ended then (Some RequestEnded, p)
      else case validate_identity i of Some e \<Rightarrow> (Some (IdentityInvalid e), p) | None \<Rightarrow>
        if pc_case_id cfg \<noteq> [] \<and> id_case i \<noteq> pc_case_id cfg then (Some OtherCase, p)
        else (None, revoke_run_commit i p))"

section \<open>Authenticating a worker request\<close>

definition provider_route_allowed :: "string \<Rightarrow> string \<Rightarrow> bool" where
  "provider_route_allowed provider path =
     (if provider = [] \<or> provider = ''any'' then True
      else if provider = ''openai'' then prefix ''/v1/'' path \<or> prefix ''/chatgpt/'' path
      else if provider = ''anthropic'' then prefix ''/anthropic/'' path
      else False)"

text \<open>
  The token a request presents: from \<open>Authorization\<close> (all its values) and, on the Anthropic routes,
  \<open>X-Api-Key\<close>; repeated or contradicting headers present none.
\<close>

definition bearer_token :: "string list \<Rightarrow> string option" where
  "bearer_token values = (case values of
     [] \<Rightarrow> Some []
   | [v] \<Rightarrow> (case GoStrings.fields v of [scheme, t] \<Rightarrow> if equal_fold_ascii scheme ''Bearer'' then Some t else None
                        | _ \<Rightarrow> None)
   | _ \<Rightarrow> None)"

definition presented_token :: "string list \<Rightarrow> string list \<Rightarrow> bool \<Rightarrow> string option" where
  "presented_token auths keys allow_key = (case bearer_token auths of None \<Rightarrow> None | Some t \<Rightarrow>
     if \<not> allow_key then Some t
     else (case keys of
         [] \<Rightarrow> Some t
       | [k] \<Rightarrow> if k = [] \<or> (t \<noteq> [] \<and> t \<noteq> k) then None else Some k
       | _ \<Rightarrow> None))"

definition lease_live :: "proxy \<Rightarrow> int \<Rightarrow> token_record \<Rightarrow> bool" where
  "lease_live p now rec \<longleftrightarrow> now < tr_expires rec \<and> tr_lease rec \<notin> px_cancelled p"

text \<open>
  \<open>workerRequest\<close>: the lease and the model policy the request runs under.  \<open>route_ok\<close> is the
  provider check of the request's path.
\<close>

definition worker_request ::
  "(string \<Rightarrow> bool) \<Rightarrow> int \<Rightarrow> string list \<Rightarrow> string list \<Rightarrow> bool \<Rightarrow> proxy \<Rightarrow> (nat \<times> model_policy) option" where
  "worker_request route_ok now auths keys allow_key p =
     (case presented_token auths keys allow_key of None \<Rightarrow> None | Some token \<Rightarrow>
        if token = [] then None
        else (case px_by_value p token of None \<Rightarrow> None | Some rec \<Rightarrow>
          if lease_live p now rec \<and> route_ok (id_provider (tr_identity rec))
          then Some (tr_lease rec, tr_policy rec) else None))"

text \<open>\<open>handleToken\<close>: the container's own token, from the header's value, while it has not expired.\<close>

definition token_lookup :: "int \<Rightarrow> string \<Rightarrow> proxy \<Rightarrow> token_record option" where
  "token_lookup now token p =
     (if token = [] then None else (case px_by_value p token of None \<Rightarrow> None
        | Some rec \<Rightarrow> if tr_expires rec < now then None else Some rec))"

section \<open>Persisting a refresh\<close>

text \<open>
  The store branch of \<open>persistOAuthState\<close>, over any store.  The dynamic type of the refreshed
  credentials is a constructor.  The new generation is published in memory only after it is
  durable, and a save that fails revokes the case.
\<close>

datatype refresh_value = OpenAIValue openai_oauth | AnthropicValue anthropic_oauth | OtherValue

definition refreshed_credentials ::
  "string \<Rightarrow> refresh_value \<Rightarrow> credentials \<Rightarrow> (proxy_error, credentials) result" where
  "refreshed_credentials provider value c =
     (if provider = ''openai'' then
        (case value of OpenAIValue v \<Rightarrow> Inr (c\<lparr>cr_openai := Some v\<rparr>) | _ \<Rightarrow> Inl RefreshType)
      else if provider = ''anthropic'' then
        (case value of AnthropicValue v \<Rightarrow> Inr (c\<lparr>cr_anthropic := Some v\<rparr>) | _ \<Rightarrow> Inl RefreshType)
      else Inl RefreshProvider)"

definition persist_oauth_state ::
  "(string \<Rightarrow> string \<Rightarrow> string \<Rightarrow> credentials \<Rightarrow> ('s, store_error, string) io) \<Rightarrow> proxy_config \<Rightarrow> string \<Rightarrow>
   refresh_value \<Rightarrow> proxy \<Rightarrow> 's \<Rightarrow> proxy_error option \<times> proxy \<times> 's" where
  "persist_oauth_state sv cfg provider value p s =
     (case refreshed_credentials provider value (px_store_creds p) of
        Inl e \<Rightarrow> (Some e, p, s)
      | Inr c \<Rightarrow>
          (case sv (credential_scope cfg) (px_store_version p) provider c s of
             (Inl e, s') \<Rightarrow> (Some (SaveFailed e), revoke_case_tokens p, s')
           | (Inr v, s') \<Rightarrow>
               if v = [] then (Some EmptyVersion, revoke_case_tokens p, s')
               else (None, p\<lparr>px_store_creds := c\<lparr>cr_version := v\<rparr>, px_store_version := v\<rparr>, s')))"

section \<open>The proxy as a transition system\<close>

text \<open>
  The critical sections the operations are made of.  The checks before a commit may have been made
  in an earlier state, so a commit may happen in any state; a fresh random token is one that no
  record carries.
\<close>

datatype proxy_step =
    IssueCommit string int string int identity model_policy
  | RestoreCommit string int string int identity model_policy
  | Revoke string
  | RevokeRun identity
  | RevokeCase
  | Expire int
  | Refreshed credentials

definition step_enabled :: "proxy_step \<Rightarrow> proxy \<Rightarrow> bool" where
  "step_enabled s p = (case s of IssueCommit token now name ttl i pol \<Rightarrow> px_by_value p token = None | _ \<Rightarrow> True)"

definition apply_step :: "proxy_step \<Rightarrow> proxy \<Rightarrow> proxy" where
  "apply_step s p = (case s of
     IssueCommit token now name ttl i pol \<Rightarrow> snd (issue_commit token now name ttl i pol p)
   | RestoreCommit token now name ttl i pol \<Rightarrow> snd (restore_commit token now name ttl i pol p)
   | Revoke name \<Rightarrow> revoke_token name p
   | RevokeRun i \<Rightarrow> revoke_run_commit i p
   | RevokeCase \<Rightarrow> revoke_case_tokens p
   | Expire now \<Rightarrow> expire_tokens now p
   | Refreshed c \<Rightarrow> p\<lparr>px_store_creds := c, px_store_version := cr_version c\<rparr>)"

definition initial_proxy :: "credentials \<Rightarrow> proxy" where
  "initial_proxy c =
     \<lparr>px_tokens = [], px_by_value = Map.empty, px_revoked_runs = {}, px_case_revoked = False,
      px_cancelled = {}, px_next_lease = 0, px_store_version = cr_version c,
      px_connection = cr_connection c, px_store_creds = c\<rparr>"

inductive proxy_run :: "proxy \<Rightarrow> proxy \<Rightarrow> bool" where
  run_refl: "proxy_run p p"
| run_step: "proxy_run p q \<Longrightarrow> step_enabled s q \<Longrightarrow> proxy_run p (apply_step s q)"

section \<open>The invariant of the indexes and the leases\<close>

definition index_inv :: "proxy \<Rightarrow> bool" where
  "index_inv p \<longleftrightarrow> distinct (map fst (px_tokens p)) \<and>
     (\<forall>n rec. token_at p n = Some rec \<longrightarrow> tr_container rec = n \<and> px_by_value p (tr_token rec) = Some rec) \<and>
     (\<forall>v rec. px_by_value p v = Some rec \<longrightarrow> tr_token rec = v \<and> token_at p (tr_container rec) = Some rec)"

definition lease_inv :: "proxy \<Rightarrow> bool" where
  "lease_inv p \<longleftrightarrow> px_cancelled p \<subseteq> {..<px_next_lease p} \<and>
     (\<forall>n rec. token_at p n = Some rec \<longrightarrow> tr_lease rec < px_next_lease p \<and> tr_lease rec \<notin> px_cancelled p) \<and>
     (\<forall>l < px_next_lease p. l \<notin> px_cancelled p \<longrightarrow> (\<exists>n rec. token_at p n = Some rec \<and> tr_lease rec = l)) \<and>
     (\<forall>n m r s. token_at p n = Some r \<longrightarrow> token_at p m = Some s \<longrightarrow> tr_lease r = tr_lease s \<longrightarrow> n = m)"

definition revocation_inv :: "proxy \<Rightarrow> bool" where
  "revocation_inv p \<longleftrightarrow> (px_case_revoked p \<longrightarrow> token_at p = Map.empty) \<and>
     (\<forall>n rec. token_at p n = Some rec \<longrightarrow> tr_identity rec \<notin> px_revoked_runs p)"

definition proxy_inv :: "proxy \<Rightarrow> bool" where
  "proxy_inv p \<longleftrightarrow> index_inv p \<and> lease_inv p \<and> revocation_inv p"

lemma token_at_cong: "px_tokens p = px_tokens q \<Longrightarrow> token_at p = token_at q"
  by (simp add: token_at_def fun_eq_iff)

lemma token_at_fields [simp]:
  "token_at (p\<lparr>px_next_lease := k\<rparr>) = token_at p" "token_at (p\<lparr>px_revoked_runs := R\<rparr>) = token_at p"
  "token_at (p\<lparr>px_case_revoked := b\<rparr>) = token_at p" "token_at (p\<lparr>px_store_version := v\<rparr>) = token_at p"
  "token_at (p\<lparr>px_cancelled := C\<rparr>) = token_at p" "token_at (p\<lparr>px_store_creds := c\<rparr>) = token_at p"
  by (auto intro!: token_at_cong)

lemma remove_token_at: "token_at (remove_token n p) = (token_at p)(n := None)"
  by (auto simp: remove_token_def token_at_def delete_conv fun_eq_iff split: option.split)

lemma remove_token_simps [simp]:
  "px_next_lease (remove_token n p) = px_next_lease p" "px_revoked_runs (remove_token n p) = px_revoked_runs p"
  "px_case_revoked (remove_token n p) = px_case_revoked p" "px_store_version (remove_token n p) = px_store_version p"
  by (simp_all add: remove_token_def split: option.split)

lemma remove_token_cancelled:
  "px_cancelled (remove_token n p) =
     (case token_at p n of None \<Rightarrow> px_cancelled p | Some rec \<Rightarrow> insert (tr_lease rec) (px_cancelled p))"
  by (simp add: remove_token_def split: option.split)

lemma remove_token_by_value:
  "px_by_value (remove_token n p) =
     (case token_at p n of None \<Rightarrow> px_by_value p | Some rec \<Rightarrow> (px_by_value p)(tr_token rec := None))"
  by (simp add: remove_token_def split: option.split)

lemma index_inv_remove:
  assumes "index_inv p"
  shows "index_inv (remove_token n p)"
proof (cases "token_at p n")
  case None
  then show ?thesis using assms by (simp add: remove_token_def)
next
  case (Some rec)
  have d: "distinct (map fst (px_tokens (remove_token n p)))"
    using assms Some by (simp add: index_inv_def remove_token_def distinct_delete)
  note i = assms [unfolded index_inv_def]
  show ?thesis
    unfolding index_inv_def remove_token_at remove_token_by_value Some option.case
  proof (intro conjI allI impI d)
    fix m r
    assume a: "((token_at p)(n := None)) m = Some r"
    then have m: "m \<noteq> n" "token_at p m = Some r" by (auto split: if_splits)
    with i have r: "tr_container r = m" "px_by_value p (tr_token r) = Some r" by blast+
    show "tr_container r = m" by (rule r)
    from i Some have "tr_container rec = n" by blast
    with m r have "tr_token r \<noteq> tr_token rec" using i Some by (metis option.inject)
    with r show "((px_by_value p)(tr_token rec := None)) (tr_token r) = Some r" by simp
  next
    fix v r
    assume a: "((px_by_value p)(tr_token rec := None)) v = Some r"
    then have v: "v \<noteq> tr_token rec" "px_by_value p v = Some r" by (auto split: if_splits)
    with i have r: "tr_token r = v" "token_at p (tr_container r) = Some r" by blast+
    show "tr_token r = v" by (rule r)
    have "tr_container r \<noteq> n" using Some r v by auto
    with r show "((token_at p)(n := None)) (tr_container r) = Some r" by simp
  qed
qed

lemma lease_inv_remove:
  assumes "lease_inv p"
  shows "lease_inv (remove_token n p)"
proof (cases "token_at p n")
  case None
  then show ?thesis using assms by (simp add: remove_token_def)
next
  case (Some rec)
  note l = assms [unfolded lease_inv_def]
  show ?thesis
    unfolding lease_inv_def remove_token_at remove_token_cancelled Some option.case remove_token_simps
  proof (intro conjI allI impI)
    show "insert (tr_lease rec) (px_cancelled p) \<subseteq> {..<px_next_lease p}" using l Some by auto
  next
    fix m r assume "((token_at p)(n := None)) m = Some r"
    then have m: "m \<noteq> n" "token_at p m = Some r" by (auto split: if_splits)
    then show "tr_lease r < px_next_lease p" using l by blast
    show "tr_lease r \<notin> insert (tr_lease rec) (px_cancelled p)" using l m Some by blast
  next
    fix k assume "k < px_next_lease p" "k \<notin> insert (tr_lease rec) (px_cancelled p)"
    then obtain m r where "token_at p m = Some r" "tr_lease r = k" "k \<noteq> tr_lease rec" using l by blast
    moreover from this Some have "m \<noteq> n" by auto
    ultimately show "\<exists>m r. ((token_at p)(n := None)) m = Some r \<and> tr_lease r = k" by auto
  next
    fix m1 m2 r s
    assume "((token_at p)(n := None)) m1 = Some r" "((token_at p)(n := None)) m2 = Some s" "tr_lease r = tr_lease s"
    then show "m1 = m2" using l by (auto split: if_splits)
  qed
qed

lemma remove_where_at:
  "distinct (map fst ts) \<Longrightarrow> token_at (remove_where P ts p) n =
     (case map_of ts n of Some rec \<Rightarrow> if P rec then None else token_at p n | None \<Rightarrow> token_at p n)"
proof (induction ts arbitrary: p)
  case (Cons t ts)
  obtain m rec where t: "t = (m, rec)" by fastforce
  have "map_of ts m = None" using Cons.prems t by (simp add: map_of_eq_None_iff)
  then show ?case using Cons t by (auto simp: remove_token_at split: option.split)
qed simp

lemma remove_where_inv:
  "index_inv p \<Longrightarrow> index_inv (remove_where P ts p)" "lease_inv p \<Longrightarrow> lease_inv (remove_where P ts p)"
  by (induction P ts p rule: remove_where.induct) (auto simp: index_inv_remove lease_inv_remove)

lemma remove_where_fields [simp]:
  "px_next_lease (remove_where P ts p) = px_next_lease p" "px_revoked_runs (remove_where P ts p) = px_revoked_runs p"
  "px_case_revoked (remove_where P ts p) = px_case_revoked p" "px_store_version (remove_where P ts p) = px_store_version p"
  by (induction P ts p rule: remove_where.induct) auto

lemma remove_where_all:
  assumes "index_inv p" and "px_tokens q = px_tokens p"
  shows "token_at (remove_where P (px_tokens p) q) n =
    (case token_at p n of Some rec \<Rightarrow> if P rec then None else Some rec | None \<Rightarrow> None)"
proof -
  have "distinct (map fst (px_tokens p))" using assms(1) by (simp add: index_inv_def)
  from remove_where_at [OF this, of P q n] show ?thesis
    using token_at_cong [OF assms(2)] by (simp add: token_at_def split: option.split)
qed

lemma index_inv_fields [simp]:
  "index_inv (p\<lparr>px_next_lease := k\<rparr>) = index_inv p" "index_inv (p\<lparr>px_revoked_runs := R\<rparr>) = index_inv p"
  "index_inv (p\<lparr>px_case_revoked := b\<rparr>) = index_inv p" "index_inv (p\<lparr>px_store_version := v\<rparr>) = index_inv p"
  "index_inv (p\<lparr>px_cancelled := C\<rparr>) = index_inv p" "index_inv (p\<lparr>px_store_creds := c\<rparr>) = index_inv p"
  by (simp_all add: index_inv_def)

lemma lease_inv_fields [simp]:
  "lease_inv (p\<lparr>px_revoked_runs := R\<rparr>) = lease_inv p"
  "lease_inv (p\<lparr>px_case_revoked := b\<rparr>) = lease_inv p" "lease_inv (p\<lparr>px_store_version := v\<rparr>) = lease_inv p"
  "lease_inv (p\<lparr>px_store_creds := c\<rparr>) = lease_inv p"
  by (simp_all add: lease_inv_def)

lemma replace_token_at:
  "token_at (replace_token rec p) = (token_at p)(tr_container rec \<mapsto> rec)"
proof -
  have "token_at (q\<lparr>px_tokens := AList.update n rec (px_tokens q), px_by_value := B\<rparr>) = (token_at q)(n \<mapsto> rec)" for q n B
    by (simp add: token_at_def update_conv fun_eq_iff)
  then show ?thesis by (simp add: replace_token_def Let_def remove_token_at)
qed

lemma replace_token_simps [simp]:
  "px_next_lease (replace_token rec p) = px_next_lease p" "px_revoked_runs (replace_token rec p) = px_revoked_runs p"
  "px_case_revoked (replace_token rec p) = px_case_revoked p"
  "px_cancelled (replace_token rec p) = px_cancelled (remove_token (tr_container rec) p)"
  "px_by_value (replace_token rec p) = (px_by_value (remove_token (tr_container rec) p))(tr_token rec \<mapsto> rec)"
  by (simp_all add: replace_token_def Let_def)

lemma index_inv_replace:
  assumes "index_inv p"
    and "\<And>old. px_by_value p (tr_token rec) = Some old \<Longrightarrow> tr_container old = tr_container rec"
  shows "index_inv (replace_token rec p)"
proof -
  let ?n = "tr_container rec" let ?q = "remove_token ?n p"
  have q: "index_inv ?q" using assms(1) by (rule index_inv_remove)
  have free: "px_by_value ?q (tr_token rec) = None"
  proof (rule ccontr)
    assume "px_by_value ?q (tr_token rec) \<noteq> None"
    then obtain old where o: "px_by_value ?q (tr_token rec) = Some old" by auto
    then have "px_by_value p (tr_token rec) = Some old"
      by (auto simp: remove_token_by_value split: option.splits if_splits)
    then have "tr_container old = ?n" by (rule assms(2))
    moreover from q o have "token_at ?q (tr_container old) = Some old" by (auto simp: index_inv_def)
    ultimately show False by (simp add: remove_token_at)
  qed
  have d: "distinct (map fst (px_tokens (replace_token rec p)))"
    using q by (simp add: replace_token_def Let_def index_inv_def distinct_update)
  have i1: "tr_container r = m" "px_by_value ?q (tr_token r) = Some r"
    if "m \<noteq> ?n" "token_at p m = Some r" for m r
  proof -
    have "((token_at p)(?n := None)) m = Some r" using that by simp
    then have "tr_container r = m \<and> px_by_value ?q (tr_token r) = Some r"
      using q unfolding index_inv_def remove_token_at by blast
    then show "tr_container r = m" "px_by_value ?q (tr_token r) = Some r" by blast+
  qed
  have i2: "tr_token r = v" "tr_container r \<noteq> ?n" "token_at p (tr_container r) = Some r"
    if "px_by_value ?q v = Some r" for v r
  proof -
    have "tr_token r = v \<and> ((token_at p)(?n := None)) (tr_container r) = Some r"
      using q that unfolding index_inv_def remove_token_at by blast
    then show "tr_token r = v" "tr_container r \<noteq> ?n" "token_at p (tr_container r) = Some r"
      by (auto split: if_splits)
  qed
  show ?thesis
    unfolding index_inv_def replace_token_at replace_token_simps
  proof (intro conjI allI impI d)
    fix n r assume "((token_at p)(?n \<mapsto> rec)) n = Some r"
    then have c: "n = ?n \<and> r = rec \<or> n \<noteq> ?n \<and> token_at p n = Some r" by (auto split: if_splits)
    then show "tr_container r = n" using i1(1) by blast
    show "((px_by_value ?q)(tr_token rec \<mapsto> rec)) (tr_token r) = Some r"
      using c
    proof
      assume "n \<noteq> ?n \<and> token_at p n = Some r"
      then have "px_by_value ?q (tr_token r) = Some r" using i1(2) by blast
      with free show ?thesis by auto
    qed simp
  next
    fix v r assume "((px_by_value ?q)(tr_token rec \<mapsto> rec)) v = Some r"
    then have c: "v = tr_token rec \<and> r = rec \<or> px_by_value ?q v = Some r" by (auto split: if_splits)
    then show "tr_token r = v" using i2(1) by blast
    from c show "((token_at p)(?n \<mapsto> rec)) (tr_container r) = Some r" using i2(2,3) by auto
  qed
qed

lemma lease_inv_replace:
  assumes "lease_inv p" and "tr_lease rec = px_next_lease p"
  shows "lease_inv (replace_token rec (p\<lparr>px_next_lease := Suc (px_next_lease p)\<rparr>))"
proof -
  let ?n = "tr_container rec" let ?q = "remove_token ?n p"
  have can: "px_cancelled (remove_token ?n (p\<lparr>px_next_lease := Suc (px_next_lease p)\<rparr>)) = px_cancelled ?q"
    by (simp add: remove_token_cancelled split: option.split)
  have nl: "px_next_lease (p\<lparr>px_next_lease := Suc (px_next_lease p)\<rparr>) = Suc (px_next_lease p)" by simp
  have q: "lease_inv ?q" using assms(1) by (rule lease_inv_remove)
  have l1: "px_cancelled ?q \<subseteq> {..<px_next_lease p}" using q by (simp add: lease_inv_def)
  have l2: "tr_lease r < px_next_lease p" "tr_lease r \<notin> px_cancelled ?q" if "m \<noteq> ?n" "token_at p m = Some r" for m r
  proof -
    have "((token_at p)(?n := None)) m = Some r" using that by simp
    then have "tr_lease r < px_next_lease p \<and> tr_lease r \<notin> px_cancelled ?q"
      using q unfolding lease_inv_def remove_token_at remove_token_simps by blast
    then show "tr_lease r < px_next_lease p" "tr_lease r \<notin> px_cancelled ?q" by blast+
  qed
  have l3: "\<exists>m r. m \<noteq> ?n \<and> token_at p m = Some r \<and> tr_lease r = k"
    if "k < px_next_lease p" "k \<notin> px_cancelled ?q" for k
  proof -
    have "\<exists>m r. ((token_at p)(?n := None)) m = Some r \<and> tr_lease r = k"
      using q that unfolding lease_inv_def remove_token_at remove_token_simps by blast
    then show ?thesis by (auto split: if_splits)
  qed
  have l4: "m1 = m2" if "m1 \<noteq> ?n" "m2 \<noteq> ?n" "token_at p m1 = Some r" "token_at p m2 = Some s" "tr_lease r = tr_lease s" for m1 m2 r s
    using assms(1) that unfolding lease_inv_def by blast
  have up: "m = ?n \<and> r = rec \<or> m \<noteq> ?n \<and> token_at p m = Some r" if "((token_at p)(?n \<mapsto> rec)) m = Some r" for m r
    using that by (auto split: if_splits)
  show ?thesis
    unfolding lease_inv_def replace_token_at replace_token_simps can token_at_fields nl
  proof (intro conjI allI impI)
    show "px_cancelled ?q \<subseteq> {..<Suc (px_next_lease p)}" using l1 by auto
  next
    fix m r assume "((token_at p)(?n \<mapsto> rec)) m = Some r"
    note c = up [OF this]
    then show "tr_lease r < Suc (px_next_lease p)" using l2(1) assms(2) by fastforce
    show "tr_lease r \<notin> px_cancelled ?q" using c
    proof
      assume "m = ?n \<and> r = rec"
      with l1 assms(2) show ?thesis by auto
    qed (use l2(2) in blast)
  next
    fix k assume k: "k < Suc (px_next_lease p)" "k \<notin> px_cancelled ?q"
    show "\<exists>m r. ((token_at p)(?n \<mapsto> rec)) m = Some r \<and> tr_lease r = k"
    proof (cases "k = px_next_lease p")
      case True
      then show ?thesis using assms(2) by (intro exI [of _ ?n] exI [of _ rec]) simp
    next
      case False
      with k obtain m r where "m \<noteq> ?n" "token_at p m = Some r" "tr_lease r = k" using l3 [of k] by auto
      then show ?thesis by (intro exI [of _ m] exI [of _ r]) simp
    qed
  next
    fix m1 m2 r s
    assume a: "((token_at p)(?n \<mapsto> rec)) m1 = Some r" "((token_at p)(?n \<mapsto> rec)) m2 = Some s" "tr_lease r = tr_lease s"
    from up [OF a(1)] up [OF a(2)] show "m1 = m2"
      using l4 a(3) l2(1) assms(2) by (elim disjE conjE) (simp, force, force, blast)
  qed
qed

lemma new_token_record_fields [simp]:
  "tr_container (new_token_record n t ttl now l) = n" "tr_token (new_token_record n t ttl now l) = t"
  "tr_lease (new_token_record n t ttl now l) = l"
  by (simp_all add: new_token_record_def)

lemma inv_insert_record:
  assumes "proxy_inv p" and "\<not> px_case_revoked p" and "tr_identity rec \<notin> px_revoked_runs p"
    and "tr_lease rec = px_next_lease p"
    and "\<And>old. px_by_value p (tr_token rec) = Some old \<Longrightarrow> tr_container old = tr_container rec"
  shows "proxy_inv (replace_token rec (p\<lparr>px_next_lease := Suc (px_next_lease p)\<rparr>))"
proof -
  have "index_inv (replace_token rec (p\<lparr>px_next_lease := Suc (px_next_lease p)\<rparr>))"
    using assms(1,5) by (intro index_inv_replace) (simp_all add: proxy_inv_def)
  moreover have "lease_inv (replace_token rec (p\<lparr>px_next_lease := Suc (px_next_lease p)\<rparr>))"
    using assms(1,4) by (intro lease_inv_replace) (simp_all add: proxy_inv_def)
  ultimately show ?thesis
    using assms(1-3) by (simp add: proxy_inv_def revocation_inv_def replace_token_at)
qed

lemma inv_issue_commit:
  assumes "proxy_inv p" and "px_by_value p token = None"
  shows "proxy_inv (snd (issue_commit token now name ttl i pol p))"
proof (cases "px_case_revoked p \<or> i \<in> px_revoked_runs p")
  case True
  have l: "lease_inv p" using assms(1) by (simp add: proxy_inv_def)
  then have "px_next_lease p \<noteq> tr_lease rec" if "token_at p n = Some rec" for n rec
    using that unfolding lease_inv_def by (metis less_irrefl)
  then have "lease_inv (p\<lparr>px_next_lease := Suc (px_next_lease p), px_cancelled := insert (px_next_lease p) (px_cancelled p)\<rparr>)"
    using l unfolding lease_inv_def by (simp add: less_Suc_eq) (metis insert_iff lessThan_iff less_Suc_eq subsetD subsetI)
  with True assms(1) show ?thesis
    by (auto simp: issue_commit_def Let_def proxy_inv_def revocation_inv_def)
next
  case False
  then show ?thesis
    using assms inv_insert_record [OF assms(1), of "(new_token_record name token ttl now (px_next_lease p))
      \<lparr>tr_identity := i, tr_policy := clone_policy pol\<rparr>"]
    by (simp add: issue_commit_def Let_def)
qed

lemma inv_restore_commit:
  assumes "proxy_inv p"
  shows "proxy_inv (snd (restore_commit token now name ttl i pol p))"
  using assms inv_insert_record [OF assms, of "(new_token_record name token ttl now (px_next_lease p))
      \<lparr>tr_identity := i, tr_policy := clone_policy pol\<rparr>"]
  by (auto simp: restore_commit_def Let_def split: option.splits)

lemma inv_remove_where:
  assumes "proxy_inv p"
  shows "proxy_inv (remove_where P (px_tokens p) p)"
proof -
  have "\<And>n rec. token_at (remove_where P (px_tokens p) p) n = Some rec \<Longrightarrow> token_at p n = Some rec"
    using remove_where_all [of p p P] assms by (auto simp: proxy_inv_def split: option.splits if_splits)
  moreover have "token_at (remove_where P (px_tokens p) p) = Map.empty" if "token_at p = Map.empty"
    using remove_where_all [of p p P] assms that by (auto simp: proxy_inv_def fun_eq_iff)
  ultimately show ?thesis
    using assms remove_where_inv [of p] unfolding proxy_inv_def revocation_inv_def by (simp, blast)
qed

lemma inv_revoke_case:
  assumes "proxy_inv p"
  shows "proxy_inv (revoke_case_tokens p)" and "token_at (revoke_case_tokens p) = Map.empty"
proof -
  have "token_at (revoke_case_tokens p) n = None" for n
    using remove_where_all [of p "p\<lparr>px_case_revoked := True\<rparr>" "\<lambda>_. True" n] assms
    by (simp add: revoke_case_tokens_def proxy_inv_def split: option.splits)
  then show e: "token_at (revoke_case_tokens p) = Map.empty" by blast
  show "proxy_inv (revoke_case_tokens p)"
    using assms remove_where_inv [of "p\<lparr>px_case_revoked := True\<rparr>"] e
    by (simp add: proxy_inv_def revocation_inv_def revoke_case_tokens_def)
qed

lemma revoke_run_at:
  assumes "index_inv p"
  shows "token_at (revoke_run_commit i p) n =
    (case token_at p n of Some rec \<Rightarrow> if tr_identity rec = i then None else Some rec | None \<Rightarrow> None)"
  unfolding revoke_run_commit_def by (rule remove_where_all [OF assms]) simp

lemma inv_revoke_run:
  assumes "proxy_inv p"
  shows "proxy_inv (revoke_run_commit i p)"
proof -
  have at: "token_at (revoke_run_commit i p) n = Some rec \<Longrightarrow> token_at p n = Some rec \<and> tr_identity rec \<noteq> i" for n rec
    using revoke_run_at [of p i n] assms by (auto simp: proxy_inv_def split: option.splits if_splits)
  have "token_at (revoke_run_commit i p) = Map.empty" if "token_at p = Map.empty"
    using revoke_run_at [of p i] assms that by (auto simp: proxy_inv_def fun_eq_iff)
  moreover have "index_inv (revoke_run_commit i p)" "lease_inv (revoke_run_commit i p)"
    using assms remove_where_inv [of "p\<lparr>px_revoked_runs := insert i (px_revoked_runs p)\<rparr>"]
    by (simp_all add: revoke_run_commit_def proxy_inv_def)
  moreover have "px_case_revoked (revoke_run_commit i p) = px_case_revoked p"
    "px_revoked_runs (revoke_run_commit i p) = insert i (px_revoked_runs p)"
    by (simp_all add: revoke_run_commit_def)
  ultimately show ?thesis
    using assms at unfolding proxy_inv_def revocation_inv_def by (metis insertE)
qed

lemma inv_remove_token: "proxy_inv p \<Longrightarrow> proxy_inv (remove_token n p)"
  unfolding proxy_inv_def revocation_inv_def
  by (auto simp: index_inv_remove lease_inv_remove remove_token_at)

lemma inv_step: "proxy_inv p \<Longrightarrow> step_enabled s p \<Longrightarrow> proxy_inv (apply_step s p)"
proof (cases s)
  case (Refreshed c)
  then show "proxy_inv p \<Longrightarrow> ?thesis" by (simp add: apply_step_def proxy_inv_def revocation_inv_def)
qed (simp_all add: apply_step_def step_enabled_def revoke_token_def expire_tokens_def
    inv_issue_commit inv_restore_commit inv_remove_token inv_remove_where inv_revoke_case inv_revoke_run)

end
