(* ===== verification/TokenSafety.thy ===== *)
theory TokenSafety
  imports TokenProxy
begin

text \<open>
  What the token operations of \<open>TokenProxy\<close> guarantee together: every operation is a run of the
  proxy's critical sections, every reachable state keeps its indexes, leases and revocations
  consistent, revocation is permanent, and two proxies that share a credential store cannot both
  keep serving after a refresh.
\<close>

section \<open>Runs\<close>

inductive_cases proxy_runE: "proxy_run p q"

lemma proxy_run_trans: "proxy_run q r \<Longrightarrow> proxy_run p q \<Longrightarrow> proxy_run p r"
  by (induction rule: proxy_run.induct) (auto intro: proxy_run.intros)

lemma proxy_run_single: "step_enabled s p \<Longrightarrow> proxy_run p (apply_step s p)"
  by (rule run_step [OF run_refl])

lemma initial_inv: "proxy_inv (initial_proxy c)"
  by (simp add: initial_proxy_def proxy_inv_def index_inv_def lease_inv_def revocation_inv_def token_at_def fun_eq_iff)

lemma run_inv: "proxy_run p q \<Longrightarrow> proxy_inv p \<Longrightarrow> proxy_inv q"
  by (induction rule: proxy_run.induct) (simp_all add: inv_step)

lemma reachable_inv: "proxy_run (initial_proxy c) p \<Longrightarrow> proxy_inv p"
  using run_inv initial_inv by blast

text \<open>Every exported operation is a run.\<close>

lemma run_revoke_case: "proxy_run p (revoke_case_tokens p)"
  using proxy_run_single [of RevokeCase p] by (simp add: step_enabled_def apply_step_def)

lemma run_generation: "proxy_run p (snd (check_case_generation cfg gen p))"
  by (auto simp: check_case_generation_def run_refl run_revoke_case split: option.split sum.split)

lemma generation_keeps_index:
  assumes "check_case_generation cfg gen p = (None, q)"
  shows "q = p"
  using assms by (auto simp: check_case_generation_def split: option.splits sum.splits if_splits)

lemma run_issue:
  assumes "\<forall>t. random = Some t \<longrightarrow> px_by_value p t = None"
  shows "proxy_run p (snd (issue_token cfg gen random now name ttl i pol p))"
proof -
  obtain e q where g: "check_case_generation cfg gen p = (e, q)" by fastforce
  then have pq: "proxy_run p q" using run_generation [of p cfg gen] by simp
  show ?thesis
  proof (cases e)
    case None
    with g have "q = p" using generation_keeps_index by blast
    with None g have "random = Some t \<Longrightarrow> proxy_run p (snd (issue_commit t now name ttl i pol p))" for t
      using proxy_run_single [of "IssueCommit t now name ttl i pol" p] assms
      by (simp add: step_enabled_def apply_step_def)
    with None g \<open>q = p\<close> show ?thesis by (auto simp: issue_token_def run_refl split: option.split)
  qed (use g pq in \<open>auto simp: issue_token_def run_refl split: option.split\<close>)
qed

lemma run_restore: "proxy_run p (snd (restore_token cfg gen now name token ttl i pol p))"
proof -
  obtain e q where g: "check_case_generation cfg gen p = (e, q)" by fastforce
  then have pq: "proxy_run p q" using run_generation [of p cfg gen] by simp
  have "proxy_run q (snd (restore_commit token now name k i pol q))" for k
    using proxy_run_single [of "RestoreCommit token now name k i pol" q] by (simp add: step_enabled_def apply_step_def)
  then have "proxy_run p (snd (restore_commit token now name k i pol q))" for k
    using pq proxy_run_trans by blast
  with g pq show ?thesis
    by (auto simp: restore_token_def Let_def run_refl split: option.split)
qed

lemma run_revoke_run: "proxy_run p (snd (revoke_run cfg ended i p))"
  using proxy_run_single [of "RevokeRun i" p]
  by (auto simp: revoke_run_def run_refl step_enabled_def apply_step_def split: option.split)

lemma run_revoke_token: "proxy_run p (revoke_token name p)"
  using proxy_run_single [of "Revoke name" p] by (simp add: step_enabled_def apply_step_def)

lemma run_expire: "proxy_run p (expire_tokens now p)"
  using proxy_run_single [of "Expire now" p] by (simp add: step_enabled_def apply_step_def)

lemma run_persist: "proxy_run p (fst (snd (persist_oauth_state sv cfg provider value p s)))"
proof -
  have "proxy_run p (p\<lparr>px_store_creds := c\<lparr>cr_version := v\<rparr>, px_store_version := v\<rparr>)" for c v
    using proxy_run_single [of "Refreshed (c\<lparr>cr_version := v\<rparr>)" p] by (simp add: step_enabled_def apply_step_def)
  then show ?thesis
    by (auto simp: persist_oauth_state_def run_refl run_revoke_case split: sum.split prod.split)
qed

lemmas operation_runs = run_generation run_issue run_restore run_revoke_run run_revoke_token run_expire run_persist

section \<open>What a run never undoes\<close>

lemma remove_token_conn [simp]:
  "px_connection (remove_token n p) = px_connection p" "px_store_creds (remove_token n p) = px_store_creds p"
  by (simp_all add: remove_token_def split: option.split)

lemma remove_where_conn [simp]:
  "px_connection (remove_where P ts p) = px_connection p"
  "px_store_creds (remove_where P ts p) = px_store_creds p"
  by (induction P ts p rule: remove_where.induct) auto

lemma remove_token_cancels: "px_cancelled p \<subseteq> px_cancelled (remove_token n p)"
  by (auto simp: remove_token_cancelled split: option.split)

lemma remove_where_cancels: "px_cancelled p \<subseteq> px_cancelled (remove_where P ts p)"
proof (induction P ts p rule: remove_where.induct)
  case (2 P name rec rest p)
  have "px_cancelled p \<subseteq> px_cancelled (if P rec then remove_token name p else p)"
    using remove_token_cancels [of p name] by simp
  also have "\<dots> \<subseteq> px_cancelled (remove_where P rest (if P rec then remove_token name p else p))" by (rule 2)
  finally show ?case by simp
qed simp

definition no_less :: "proxy \<Rightarrow> proxy \<Rightarrow> bool" where
  "no_less p q \<longleftrightarrow> px_cancelled p \<subseteq> px_cancelled q \<and> px_revoked_runs p \<subseteq> px_revoked_runs q \<and>
     (px_case_revoked p \<longrightarrow> px_case_revoked q) \<and> px_next_lease p \<le> px_next_lease q \<and>
     px_connection p = px_connection q"

lemma no_less_commit:
  "no_less p (snd (issue_commit token now name ttl i pol p))"
  "no_less p (snd (restore_commit token now name ttl i pol p))"
  using remove_token_cancels [of "p\<lparr>px_next_lease := Suc (px_next_lease p)\<rparr>" name]
  by (auto simp: issue_commit_def restore_commit_def no_less_def Let_def replace_token_def split: option.split)

lemma no_less_step: "no_less p (apply_step s p)"
proof (cases s)
  case (RevokeRun i)
  have "px_cancelled p \<subseteq> px_cancelled (revoke_run_commit i p)"
    using remove_where_cancels [of "p\<lparr>px_revoked_runs := insert i (px_revoked_runs p)\<rparr>"]
    by (simp add: revoke_run_commit_def)
  then show ?thesis using RevokeRun by (auto simp: apply_step_def no_less_def revoke_run_commit_def)
next
  case RevokeCase
  have "px_cancelled p \<subseteq> px_cancelled (revoke_case_tokens p)"
    using remove_where_cancels [of "p\<lparr>px_case_revoked := True\<rparr>"] by (simp add: revoke_case_tokens_def)
  then show ?thesis using RevokeCase by (auto simp: apply_step_def no_less_def revoke_case_tokens_def)
next
  case (IssueCommit token now name ttl i pol)
  then show ?thesis by (simp add: apply_step_def no_less_commit)
next
  case (RestoreCommit token now name ttl i pol)
  then show ?thesis by (simp add: apply_step_def no_less_commit)
qed (simp_all add: apply_step_def no_less_def revoke_token_def expire_tokens_def
    remove_token_cancels remove_where_cancels)

lemma run_no_less: "proxy_run p q \<Longrightarrow> no_less p q"
proof (induction rule: proxy_run.induct)
  case (run_step p q s)
  then show ?case using no_less_step [of q s] unfolding no_less_def by auto
qed (simp add: no_less_def)

text \<open>An authenticated request, and what the indexes say about it.\<close>

lemma worker_request_Some:
  assumes "worker_request rt now auths keys b p = Some (l, pol)"
  obtains token rec where "presented_token auths keys b = Some token" "token \<noteq> []"
    "px_by_value p token = Some rec" "now < tr_expires rec" "tr_lease rec \<notin> px_cancelled p"
    "rt (id_provider (tr_identity rec))" "l = tr_lease rec" "pol = tr_policy rec"
  using assms by (auto simp: worker_request_def lease_live_def split: option.splits if_splits)

lemma by_value_at:
  assumes "proxy_inv p" and "px_by_value p token = Some rec"
  shows "tr_token rec = token" and "token_at p (tr_container rec) = Some rec"
  using assms unfolding proxy_inv_def index_inv_def by blast+

lemma case_revoked_empty:
  assumes "proxy_inv p" and "px_case_revoked p"
  shows "px_by_value p = Map.empty" and "{..<px_next_lease p} \<subseteq> px_cancelled p"
proof -
  have e: "token_at p = Map.empty" using assms by (simp add: proxy_inv_def revocation_inv_def)
  show "px_by_value p = Map.empty"
  proof
    fix t show "px_by_value p t = None"
      using by_value_at(2) [OF assms(1), of t] e by (cases "px_by_value p t") auto
  qed
  show "{..<px_next_lease p} \<subseteq> px_cancelled p"
    using assms(1) e unfolding proxy_inv_def lease_inv_def by (metis lessThan_iff option.distinct(1) subsetI)
qed

section \<open>The shape of the operations\<close>

lemma issue_token_Inr:
  assumes "issue_token cfg gen random now name ttl i pol p = (Inr token, q)"
  shows "random = Some token" and "check_token_identity cfg p i = None" and "validate_model_policy pol = None"
    and "\<not> px_case_revoked p" and "i \<notin> px_revoked_runs p"
    and "q = replace_token ((new_token_record name token ttl now (px_next_lease p))
        \<lparr>tr_identity := i, tr_policy := pol\<rparr>) (p\<lparr>px_next_lease := Suc (px_next_lease p)\<rparr>)"
  using assms
  by (auto simp: issue_token_def issue_commit_def Let_def dest: generation_keeps_index
      split: option.splits prod.splits if_splits)

lemma restore_token_None:
  assumes "restore_token cfg gen now name token ttl i pol p = (None, q)"
  shows "check_token_identity cfg p i = None" and "validate_model_policy pol = None" and "placeholder_ok name token"
    and "0 < restore_ttl cfg ttl" and "restore_ttl cfg ttl \<le> 31536000"
    and "\<not> px_case_revoked p" and "i \<notin> px_revoked_runs p"
    and "\<And>old. px_by_value p token = Some old \<Longrightarrow> tr_container old = name"
    and "q = replace_token ((new_token_record name token (restore_ttl cfg ttl) now (px_next_lease p))
        \<lparr>tr_identity := i, tr_policy := pol\<rparr>) (p\<lparr>px_next_lease := Suc (px_next_lease p)\<rparr>)"
  using assms
  by (auto simp: restore_token_def restore_commit_def Let_def dest!: generation_keeps_index
      split: option.splits prod.splits if_splits)

lemma replace_token_next:
  "token_at (replace_token rec (p\<lparr>px_next_lease := k\<rparr>)) = (token_at p)(tr_container rec \<mapsto> rec)"
  by (simp add: replace_token_at)

lemma replaced_record:
  assumes "proxy_inv p" and "token_at p name = Some old" and "tr_container rec = name" and "tr_token rec \<noteq> tr_token old"
  shows "px_by_value (replace_token rec (p\<lparr>px_next_lease := k\<rparr>)) (tr_token old) = None"
    and "tr_lease old \<in> px_cancelled (replace_token rec (p\<lparr>px_next_lease := k\<rparr>))"
  using assms(2-4) by (simp_all add: remove_token_by_value remove_token_cancelled)

lemma lifetime_exact:
  assumes "0 \<le> ttl" and "ttl \<le> 9223372036"
  shows "tr_expires (new_token_record name token ttl now lease) = now + ttl * 1000000000"
proof -
  have "wrap64 (ttl * 1000000000) = ttl * 1000000000"
    unfolding wrap64_def using assms by (intro signed_take_bit_int_eq_self) simp_all
  then show ?thesis by (simp add: new_token_record_def)
qed

context credential_store
begin

lemma persist_race:
  assumes first: "persist_oauth_state sv cfg pr1 v1 p1 s = (None, q1, s1)"
    and same: "px_store_version p2 = px_store_version p1" and new: "px_store_version q1 \<noteq> px_store_version p1"
    and second: "persist_oauth_state sv cfg pr2 v2 p2 s1 = (e, q2, s2)"
    and typed: "refreshed_credentials pr2 v2 (px_store_creds p2) = Inr c2"
  shows "e \<noteq> None" and "q2 = revoke_case_tokens p2" and "cur s2 = cur s1"
    and "cur s1 (credential_scope cfg) = Some (px_store_creds q1)"
proof -
  let ?n = "credential_scope cfg"
  from first obtain c v where c: "refreshed_credentials pr1 v1 (px_store_creds p1) = Inr c"
    and sv1: "sv ?n (px_store_version p1) pr1 c s = (Inr v, s1)"
    and q1: "q1 = p1\<lparr>px_store_creds := c\<lparr>cr_version := v\<rparr>, px_store_version := v\<rparr>"
    by (auto simp: persist_oauth_state_def split: sum.splits prod.splits if_splits)
  from q1 new have v: "v \<noteq> px_store_version p1" by simp
  obtain r s2' where sv2: "sv ?n (px_store_version p1) pr2 c2 s1 = (r, s2')" by fastforce
  from second_save_loses [OF sv1 v sv2] obtain e' where e': "r = Inl e'" "cur s2' = cur s1" by blast
  have "(e, q2, s2) = (Some (SaveFailed e'), revoke_case_tokens p2, s2')"
    using second typed sv2 e'(1) same by (simp add: persist_oauth_state_def)
  with e' show "e \<noteq> None" "q2 = revoke_case_tokens p2" "cur s2 = cur s1" by simp_all
  show "cur s1 ?n = Some (px_store_creds q1)" using save_Inr(1) [OF sv1] q1 by simp
qed

lemma persist_publishes_durable:
  assumes "persist_oauth_state sv cfg pr v p s = (e, q, s')"
  shows "e = None \<Longrightarrow> cur s' (credential_scope cfg) = Some (px_store_creds q) \<and>
      px_store_version q = cr_version (px_store_creds q)"
    and "e \<noteq> None \<Longrightarrow> px_store_creds q = px_store_creds p"
    and "e \<noteq> None \<Longrightarrow> refreshed_credentials pr v (px_store_creds p) = Inr c \<Longrightarrow> q = revoke_case_tokens p"
  using assms
  by (auto simp: persist_oauth_state_def revoke_case_tokens_def dest: save_Inr(1) split: sum.splits prod.splits if_splits)

end

section \<open>Properties\<close>

definition sample_config :: proxy_config where
  "sample_config = \<lparr>pc_case_id = ''c1'', pc_profile = [], pc_token_ttl = 3600,
     pc_admin_secret = replicate 32 CHR ''s'', pc_allowed_models = [], pc_block_private = True\<rparr>"

definition sample_identity :: identity where
  "sample_identity = \<lparr>id_case = ''c1'', id_run = ''r1'', id_connection = ''c0'', id_provider = ''openai''\<rparr>"

definition sample_token :: "char \<Rightarrow> string" where
  "sample_token ch = ''cdx-'' @ replicate 64 ch"

definition sample_generation :: generation where
  "sample_generation = Some (\<lambda>_. Inr (sample_credentials ''v0'' ''t0''))"

definition sample_proxy :: proxy where
  "sample_proxy = initial_proxy (sample_credentials ''v0'' ''t0'')"

definition sample_issue :: "(proxy_error, string) result \<times> proxy" where
  "sample_issue = issue_token sample_config sample_generation (Some (sample_token CHR ''a'')) 0 ''w1'' 60
     sample_identity (Some [''m'']) sample_proxy"

definition sample_record :: token_record where
  "sample_record = \<lparr>tr_token = sample_token CHR ''a'', tr_container = ''w1'', tr_expires = 60000000000, tr_issued = 0,
     tr_identity = sample_identity, tr_policy = Some [''m''], tr_lease = 0\<rparr>"

lemma sample_checks:
  "validate_model_policy (Some [''m'']) = None" "wrap64 60000000000 = 60000000000"
  "check_token_identity sample_config sample_proxy sample_identity = None"
  by code_simp+

lemma sample_issue_value:
  "sample_issue = (Inr (sample_token CHR ''a''),
     sample_proxy\<lparr>px_tokens := [(''w1'', sample_record)], px_by_value := [sample_token CHR ''a'' \<mapsto> sample_record],
       px_next_lease := 1\<rparr>)"
proof -
  have g: "check_case_generation sample_config sample_generation sample_proxy = (None, sample_proxy)"
    by (simp add: check_case_generation_def sample_generation_def sample_proxy_def initial_proxy_def sample_credentials_def)
  have p: "token_at sample_proxy ''w1'' = None" "px_tokens sample_proxy = []"
    "px_by_value sample_proxy = Map.empty" "px_next_lease sample_proxy = 0" "\<not> px_case_revoked sample_proxy"
    "px_revoked_runs sample_proxy = {}"
    by (simp_all add: token_at_def sample_proxy_def initial_proxy_def)
  show ?thesis
    by (simp add: sample_issue_def issue_token_def g sample_checks issue_commit_def Let_def replace_token_def remove_token_def p
        new_token_record_def sample_record_def)
qed

lemma sample_issue_at:
  "token_at (snd sample_issue) ''w1'' = Some sample_record" "px_next_lease (snd sample_issue) = 1"
  "px_by_value (snd sample_issue) (sample_token CHR ''a'') = Some sample_record"
  "px_cancelled (snd sample_issue) = {}" "px_revoked_runs (snd sample_issue) = {}" "\<not> px_case_revoked (snd sample_issue)"
  by (simp_all add: sample_issue_value token_at_def sample_proxy_def initial_proxy_def)

lemma sample_issue_run: "proxy_run (initial_proxy (sample_credentials ''v0'' ''t0'')) (snd sample_issue)"
  using run_issue [of "Some (sample_token CHR ''a'')" sample_proxy]
  by (simp add: sample_issue_def sample_proxy_def initial_proxy_def)

lemma worker_request_iff:
  assumes "proxy_run (initial_proxy c) p"
  shows "worker_request rt now auths keys b p = Some (l, pol) \<longleftrightarrow>
    (\<exists>n rec. presented_token auths keys b = Some (tr_token rec) \<and> tr_token rec \<noteq> [] \<and> token_at p n = Some rec \<and>
       now < tr_expires rec \<and> rt (id_provider (tr_identity rec)) \<and> l = tr_lease rec \<and> pol = tr_policy rec \<and>
       l \<notin> px_cancelled p \<and> tr_identity rec \<notin> px_revoked_runs p \<and> \<not> px_case_revoked p)" (is "?L \<longleftrightarrow> ?R")
proof
  have inv: "proxy_inv p" using assms by (rule reachable_inv)
  assume ?L
  then obtain token rec where t: "presented_token auths keys b = Some token" "token \<noteq> []"
    and rec: "px_by_value p token = Some rec" and r: "now < tr_expires rec" "tr_lease rec \<notin> px_cancelled p"
    "rt (id_provider (tr_identity rec))" "l = tr_lease rec" "pol = tr_policy rec"
    by (rule worker_request_Some)
  from by_value_at [OF inv rec] have at: "tr_token rec = token" "token_at p (tr_container rec) = Some rec" .
  have "\<not> px_case_revoked p" using case_revoked_empty(1) [OF inv] rec by auto
  moreover have "tr_identity rec \<notin> px_revoked_runs p"
    using inv at(2) unfolding proxy_inv_def revocation_inv_def by blast
  ultimately show ?R using t r at by (intro exI [of _ "tr_container rec"] exI [of _ rec]) simp
next
  assume ?R
  then obtain n rec where r: "presented_token auths keys b = Some (tr_token rec)" "tr_token rec \<noteq> []"
    "token_at p n = Some rec" "now < tr_expires rec" "rt (id_provider (tr_identity rec))" "l = tr_lease rec"
    "pol = tr_policy rec" "l \<notin> px_cancelled p" by blast
  have "px_by_value p (tr_token rec) = Some rec"
    using reachable_inv [OF assms] r(3) unfolding proxy_inv_def index_inv_def by blast
  with r show ?L by (simp add: worker_request_def lease_live_def)
qed

text \<open>C3: authentication of a worker request is exact.  In every reachable state a request is let through,
  with a lease and a model policy, exactly when the token it presents is the current token of some
  worker's record, that record has not expired and its provider may use the route; the lease and the
  policy are the record's, the lease is live, and neither the record's run nor the case has been
  revoked.\<close>

theorem worker_request_exact:
  assumes "proxy_run (initial_proxy c) p"
  shows "worker_request rt now auths keys b p = Some (l, pol) \<longleftrightarrow>
    (\<exists>n rec. presented_token auths keys b = Some (tr_token rec) \<and> tr_token rec \<noteq> [] \<and> token_at p n = Some rec \<and>
       now < tr_expires rec \<and> rt (id_provider (tr_identity rec)) \<and> l = tr_lease rec \<and> pol = tr_policy rec \<and>
       l \<notin> px_cancelled p \<and> tr_identity rec \<notin> px_revoked_runs p \<and> \<not> px_case_revoked p)"
  using assms by (rule worker_request_iff)

lemma worker_request_exact_witness:
  "worker_request (\<lambda>p. p = ''openai'') 5 [''bearer '' @ sample_token CHR ''a''] [] False (snd sample_issue) =
     Some (0, Some [''m''])"
proof -
  have "presented_token [''bearer '' @ sample_token CHR ''a''] [] False = Some (sample_token CHR ''a'')" by code_simp
  then show ?thesis
    unfolding worker_request_exact [OF sample_issue_run]
    by (intro exI [of _ "''w1''"] exI [of _ sample_record])
      (simp add: sample_issue_at sample_record_def sample_identity_def sample_token_def)
qed

text \<open>C19: the proxy's bookkeeping is consistent in every reachable state, whatever the interleaving of issues,
  restores, revocations, expiries and refreshes: both indexes hold the same records, a container has
  one token and a token one container, a lease is live exactly while some record carries it, and no
  record of a revoked run, or of a revoked case, is held.\<close>

theorem reachable_consistent:
  assumes "proxy_run (initial_proxy c) p"
  shows "(\<forall>v rec. px_by_value p v = Some rec \<longleftrightarrow> tr_token rec = v \<and> token_at p (tr_container rec) = Some rec) \<and>
    (\<forall>l < px_next_lease p. l \<notin> px_cancelled p \<longleftrightarrow> (\<exists>n rec. token_at p n = Some rec \<and> tr_lease rec = l)) \<and>
    (\<forall>n rec. token_at p n = Some rec \<longrightarrow> tr_container rec = n \<and> tr_identity rec \<notin> px_revoked_runs p \<and>
       \<not> px_case_revoked p)"
proof -
  have i: "index_inv p" and l: "lease_inv p" and r: "revocation_inv p"
    using reachable_inv [OF assms] by (simp_all add: proxy_inv_def)
  have "px_by_value p v = Some rec \<longleftrightarrow> tr_token rec = v \<and> token_at p (tr_container rec) = Some rec" for v rec
    using i unfolding index_inv_def by blast
  moreover have "k \<notin> px_cancelled p \<longleftrightarrow> (\<exists>n rec. token_at p n = Some rec \<and> tr_lease rec = k)"
    if "k < px_next_lease p" for k
    using l that unfolding lease_inv_def by blast
  moreover have "tr_container rec = n \<and> tr_identity rec \<notin> px_revoked_runs p \<and> \<not> px_case_revoked p"
    if "token_at p n = Some rec" for n rec
    using i r that unfolding index_inv_def revocation_inv_def by (metis option.distinct(1))
  ultimately show ?thesis by blast
qed

lemma reachable_consistent_witness:
  "px_by_value (snd sample_issue) (sample_token CHR ''a'') = token_at (snd sample_issue) ''w1'' \<and>
   (0 \<notin> px_cancelled (snd sample_issue) \<longleftrightarrow> (\<exists>n rec. token_at (snd sample_issue) n = Some rec \<and> tr_lease rec = 0))"
proof -
  note c = reachable_consistent [OF sample_issue_run]
  let ?r = sample_record
  have r: "token_at (snd sample_issue) ''w1'' = Some ?r" "tr_token ?r = sample_token CHR ''a''"
    "tr_container ?r = ''w1''" and l: "0 < px_next_lease (snd sample_issue)"
    by (simp_all add: sample_issue_at sample_record_def)
  have "px_by_value (snd sample_issue) (sample_token CHR ''a'') = Some ?r"
    using r conjunct1 [OF c, rule_format, of "sample_token CHR ''a''" ?r] by simp
  moreover have "0 \<notin> px_cancelled (snd sample_issue) \<longleftrightarrow>
      (\<exists>n rec. token_at (snd sample_issue) n = Some rec \<and> tr_lease rec = 0)"
    by (rule conjunct1 [OF conjunct2 [OF c], rule_format, OF l])
  ultimately show ?thesis using r(1) by simp
qed

text \<open>C17: revoking a run is permanent.  Once \<open>RevokeRun\<close> has returned without an error, the leases of every
  token the run held stay cancelled, and in every later state, whatever else happened in between, no
  token authenticates as the run and neither an issue nor a restore can bring it back.\<close>

theorem revoke_run_permanent:
  assumes "proxy_run (initial_proxy c) p" and "revoke_run cfg False i p = (None, q)" and "proxy_run q r"
  shows "(\<forall>n rec. token_at p n = Some rec \<longrightarrow> tr_identity rec = i \<longrightarrow> tr_lease rec \<in> px_cancelled r) \<and>
    (\<forall>token rec. px_by_value r token = Some rec \<longrightarrow> tr_identity rec \<noteq> i) \<and>
    fst (issue_commit token now name ttl i pol r) = Inl CaseRevoked \<and>
    restore_commit token now name ttl i pol r = (Some CaseRevoked, r)"
proof -
  have q: "q = revoke_run_commit i p"
    using assms(2) by (auto simp: revoke_run_def split: option.splits if_splits)
  have pinv: "proxy_inv p" using assms(1) by (rule reachable_inv)
  then have qinv: "proxy_inv q" unfolding q by (rule inv_revoke_run)
  have rinv: "proxy_inv r" using run_inv [OF assms(3) qinv] .
  have nl: "no_less q r" using assms(3) by (rule run_no_less)
  have "i \<in> px_revoked_runs q" by (simp add: q revoke_run_commit_def)
  with nl have i: "i \<in> px_revoked_runs r" by (auto simp: no_less_def)
  have gone: "tr_lease rec \<in> px_cancelled r" if a: "token_at p n = Some rec" "tr_identity rec = i" for n rec
  proof -
    have pl: "lease_inv p" using pinv by (simp add: proxy_inv_def)
    have "tr_lease rec < px_next_lease q"
      using pl a(1) unfolding lease_inv_def q revoke_run_commit_def by simp
    moreover have "\<not> (\<exists>m s. token_at q m = Some s \<and> tr_lease s = tr_lease rec)"
    proof
      assume "\<exists>m s. token_at q m = Some s \<and> tr_lease s = tr_lease rec"
      then obtain m s where m: "token_at q m = Some s" "tr_lease s = tr_lease rec" by blast
      then have "token_at p m = Some s" "tr_identity s \<noteq> i"
        using revoke_run_at [of p i m] pinv by (auto simp: q proxy_inv_def split: option.splits if_splits)
      then have "m = n" "s = rec" using pl a(1) m(2) unfolding lease_inv_def by (metis, metis option.inject)
      with a \<open>tr_identity s \<noteq> i\<close> show False by simp
    qed
    ultimately have "tr_lease rec \<in> px_cancelled q" using qinv unfolding proxy_inv_def lease_inv_def by blast
    with nl show ?thesis by (auto simp: no_less_def)
  qed
  have "tr_identity rec \<noteq> i" if "px_by_value r token = Some rec" for token rec
    using by_value_at(2) [OF rinv that] rinv i unfolding proxy_inv_def revocation_inv_def by blast
  with gone i show ?thesis by (simp add: issue_commit_def restore_commit_def Let_def)
qed

lemma revoke_run_permanent_witness:
  "\<exists>rec. token_at (snd sample_issue) ''w1'' = Some rec \<and>
     tr_lease rec \<in> px_cancelled (expire_tokens 9 (snd (revoke_run sample_config False sample_identity (snd sample_issue))))"
proof -
  let ?q = "revoke_run sample_config False sample_identity (snd sample_issue)"
  have "validate_identity sample_identity = None" by code_simp
  then have q: "?q = (None, snd ?q)" by (simp add: revoke_run_def sample_identity_def sample_config_def)
  have "tr_identity sample_record = sample_identity" by (simp add: sample_record_def)
  with conjunct1 [OF revoke_run_permanent [OF sample_issue_run q run_expire]] sample_issue_at(1) show ?thesis by blast
qed

text \<open>revoking the case is permanent and complete.  After it, in every later state, no request of any
  worker is authenticated, every lease ever handed out is cancelled, and no token can be issued or
  restored.\<close>

theorem revoke_case_permanent:
  assumes "proxy_run (initial_proxy c) p" and "proxy_run (revoke_case_tokens p) r"
  shows "worker_request rt now auths keys b r = None \<and> {..<px_next_lease r} \<subseteq> px_cancelled r \<and>
    fst (issue_commit token now name ttl i pol r) = Inl CaseRevoked \<and>
    restore_commit token now name ttl i pol r = (Some CaseRevoked, r)"
proof -
  have "proxy_inv (revoke_case_tokens p)" using reachable_inv [OF assms(1)] by (rule inv_revoke_case)
  then have inv: "proxy_inv r" by (rule run_inv [OF assms(2)])
  have "px_case_revoked (revoke_case_tokens p)" by (simp add: revoke_case_tokens_def)
  with run_no_less [OF assms(2)] have r: "px_case_revoked r" by (simp add: no_less_def)
  from case_revoked_empty [OF inv r] r show ?thesis
    by (simp add: worker_request_def issue_commit_def restore_commit_def Let_def split: option.split)
qed

lemma revoke_case_permanent_witness:
  "worker_request (\<lambda>_. True) 5 [''Bearer '' @ sample_token CHR ''a''] [] False (revoke_case_tokens (snd sample_issue)) = None"
  using revoke_case_permanent [OF sample_issue_run run_refl] by blast

text \<open>issuing.  A successful issue returns the fresh random token, gives the named worker exactly one
  record, with the requested identity and policy, and leaves the others alone; the worker's previous
  token stops authenticating and its lease ends.  On a case proxy the identity is complete and belongs
  to this credential scope and connection.\<close>

theorem issue_token_effect:
  assumes "proxy_run (initial_proxy c) p" and "issue_token cfg gen random now name ttl i pol p = (Inr token, q)"
    and "px_by_value p token = None"
  shows "random = Some token \<and>
    (\<exists>rec. token_at q = (token_at p)(name \<mapsto> rec) \<and> px_by_value q token = Some rec \<and> tr_token rec = token \<and>
       tr_identity rec = i \<and> tr_policy rec = pol \<and> tr_lease rec \<notin> px_cancelled q) \<and>
    (\<forall>old. token_at p name = Some old \<longrightarrow> px_by_value q (tr_token old) = None \<and> tr_lease old \<in> px_cancelled q) \<and>
    (pc_case_id cfg \<noteq> [] \<longrightarrow> validate_identity i = None \<and> id_case i = credential_scope cfg \<and>
       id_connection i = px_connection p)"
proof -
  note iss = issue_token_Inr [OF assms(2)]
  let ?rec = "(new_token_record name token ttl now (px_next_lease p))\<lparr>tr_identity := i, tr_policy := pol\<rparr>"
  have pinv: "proxy_inv p" using assms(1) by (rule reachable_inv)
  have qinv: "proxy_inv q" unfolding iss(6) using pinv iss(4,5) assms(3) by (intro inv_insert_record) auto
  have at: "token_at q = (token_at p)(name \<mapsto> ?rec)" unfolding iss(6) by (simp add: replace_token_next)
  have bv: "px_by_value q token = Some ?rec" unfolding iss(6) by simp
  have live: "tr_lease ?rec \<notin> px_cancelled q"
    using qinv at unfolding proxy_inv_def lease_inv_def by (metis fun_upd_same)
  have "px_by_value q (tr_token old) = None \<and> tr_lease old \<in> px_cancelled q" if old: "token_at p name = Some old" for old
  proof -
    have "px_by_value p (tr_token old) = Some old" using pinv old unfolding proxy_inv_def index_inv_def by blast
    then have "tr_token ?rec \<noteq> tr_token old" using assms(3) by auto
    then show ?thesis
      using replaced_record [OF pinv old, of ?rec "Suc (px_next_lease p)"] by (simp add: iss(6))
  qed
  moreover have "validate_identity i = None \<and> id_case i = credential_scope cfg \<and> id_connection i = px_connection p"
    if "pc_case_id cfg \<noteq> []"
    using iss(2) that by (simp add: check_token_identity_def split: if_splits)
  ultimately show ?thesis using iss(1) at bv live by (intro conjI exI [of _ ?rec]) simp_all
qed

lemma issue_token_effect_witness:
  "\<exists>rec. px_by_value (snd sample_issue) (sample_token CHR ''a'') = Some rec \<and> tr_identity rec = sample_identity"
proof -
  have "issue_token sample_config sample_generation (Some (sample_token CHR ''a'')) 0 ''w1'' 60 sample_identity
      (Some [''m'']) sample_proxy = (Inr (sample_token CHR ''a''), snd sample_issue)"
    using sample_issue_value by (simp add: sample_issue_def)
  from issue_token_effect [OF _ this, of "sample_credentials ''v0'' ''t0''"] show ?thesis
    by (force simp: sample_proxy_def initial_proxy_def run_refl)
qed

text \<open>restoring.  A restore that succeeds binds a well-formed placeholder to the named worker only when no
  other worker holds it, changes no other worker's record, never bypasses a revocation, and gives it a
  lifetime of at most a year that is exact (no wrap-around).  One that fails changes no record unless it
  discovered that the case is gone.\<close>

theorem restore_token_effect:
  assumes "proxy_run (initial_proxy c) p" and "restore_token cfg gen now name token ttl i pol p = (e, q)"
  shows "(e = None \<longrightarrow> length token = 68 \<and> i \<notin> px_revoked_runs p \<and> \<not> px_case_revoked p \<and>
      (\<forall>n rec. token_at p n = Some rec \<longrightarrow> tr_token rec = token \<longrightarrow> n = name) \<and>
      (\<exists>rec. token_at q = (token_at p)(name \<mapsto> rec) \<and> tr_token rec = token \<and> tr_identity rec = i \<and> tr_policy rec = pol \<and>
         now < tr_expires rec \<and> tr_expires rec \<le> now + 31536000 * 1000000000)) \<and>
    (e \<noteq> None \<longrightarrow> token_at q = token_at p \<or> q = revoke_case_tokens p)"
proof (cases e)
  case None
  note res = restore_token_None [OF assms(2) [unfolded None]]
  let ?rec = "(new_token_record name token (restore_ttl cfg ttl) now (px_next_lease p))\<lparr>tr_identity := i, tr_policy := pol\<rparr>"
  have at: "token_at q = (token_at p)(name \<mapsto> ?rec)" unfolding res(9) by (simp add: replace_token_next)
  have life: "tr_expires ?rec = now + restore_ttl cfg ttl * 1000000000"
    using lifetime_exact [of "restore_ttl cfg ttl" name token now] res(4,5) by simp
  have "n = name" if "token_at p n = Some rec" "tr_token rec = token" for n rec
  proof -
    have "px_by_value p token = Some rec" "tr_container rec = n"
      using reachable_inv [OF assms(1)] that unfolding proxy_inv_def index_inv_def by blast+
    with res(8) show ?thesis by blast
  qed
  moreover have "length token = 68" using res(3) by (simp add: placeholder_ok_def)
  moreover have "\<exists>rec. token_at q = (token_at p)(name \<mapsto> rec) \<and> tr_token rec = token \<and> tr_identity rec = i \<and>
      tr_policy rec = pol \<and> now < tr_expires rec \<and> tr_expires rec \<le> now + 31536000 * 1000000000"
    using at life res(4,5) by (intro exI [of _ ?rec]) simp
  ultimately show ?thesis using None res(6,7) by blast
next
  case (Some x)
  have "token_at q = token_at p \<or> q = revoke_case_tokens p"
    using assms(2) Some
    by (auto simp: restore_token_def restore_commit_def check_case_generation_def Let_def
        split: option.splits prod.splits sum.splits if_splits)
  with Some show ?thesis by simp
qed

lemma restore_token_effect_witness:
  "\<exists>q. restore_token sample_config sample_generation 5 ''w2'' (sample_token CHR ''a'') 60 sample_identity None (snd sample_issue)
      = (Some PlaceholderTaken, q) \<and> (token_at q = token_at (snd sample_issue) \<or> q = revoke_case_tokens (snd sample_issue))"
proof -
  let ?r = "restore_token sample_config sample_generation 5 ''w2'' (sample_token CHR ''a'') 60 sample_identity None (snd sample_issue)"
  have "fst ?r = Some PlaceholderTaken" by code_simp
  then have "?r = (Some PlaceholderTaken, snd ?r)" by (metis prod.collapse)
  moreover from restore_token_effect [OF sample_issue_run this]
  have "token_at (snd ?r) = token_at (snd sample_issue) \<or> snd ?r = revoke_case_tokens (snd sample_issue)" by blast
  ultimately show ?thesis by blast
qed

text \<open>C12: two proxies over one file store.  When both refresh the same generation, the one whose save came
  first serves the credentials the store holds; the other one's save fails, whatever it tried to write,
  the store keeps the first one's record, and the second proxy revokes its case: it holds no token.\<close>

theorem refresh_race_one_serves:
  assumes "proxy_run (initial_proxy c) p2" and "px_store_version p2 = px_store_version p1"
    and "persist_oauth_state save_refresh cfg pr1 v1 p1 w = (None, q1, w1)"
    and "px_store_version q1 \<noteq> px_store_version p1"
    and "refreshed_credentials pr2 v2 (px_store_creds p2) = Inr c2"
    and "persist_oauth_state save_refresh cfg pr2 v2 p2 w1 = (e, q2, w2)"
  shows "e \<noteq> None \<and> stored w2 (credential_scope cfg) = Some (px_store_creds q1) \<and>
    px_store_version q1 = cr_version (px_store_creds q1) \<and> px_case_revoked q2 \<and> token_at q2 = Map.empty"
proof -
  note race = file_store.persist_race [OF assms(3,2,4,6,5)]
  have "stored w2 (credential_scope cfg) = Some (px_store_creds q1)" using race(3,4) by simp
  moreover have "px_store_version q1 = cr_version (px_store_creds q1)"
    using file_store.persist_publishes_durable(1) [OF assms(3)] by simp
  moreover have "px_case_revoked q2" "token_at q2 = Map.empty"
    using inv_revoke_case(2) [OF reachable_inv [OF assms(1)]] by (simp_all add: race(2), simp add: revoke_case_tokens_def)
  ultimately show ?thesis using race(1) by blast
qed

definition sample_profile_config :: proxy_config where
  "sample_profile_config = sample_config\<lparr>pc_case_id := [], pc_profile := ''p''\<rparr>"

lemma refresh_race_one_serves_witness:
  "\<exists>e q2 w2. persist_oauth_state save_refresh sample_profile_config ''openai'' (OpenAIValue (sample_oauth ''t2''))
      sample_proxy (snd (save_refresh ''p'' ''v0'' ''openai'' (sample_credentials ''v0'' ''t1'') (sample_store []))) =
      (Some e, q2, w2) \<and> stored w2 ''p'' = Some (sample_credentials ''v1'' ''t1'') \<and> px_case_revoked q2"
proof -
  let ?s = "save_refresh ''p'' ''v0'' ''openai'' (sample_credentials ''v0'' ''t1'') (sample_store [])"
  let ?c = sample_profile_config let ?v = "\<lambda>t. OpenAIValue (sample_oauth t)"
  let ?q1 = "sample_proxy\<lparr>px_store_creds := sample_credentials ''v1'' ''t1'', px_store_version := ''v1''\<rparr>"
  have n: "credential_scope ?c = ''p''" "px_store_version sample_proxy = ''v0''"
    "px_store_creds sample_proxy = sample_credentials ''v0'' ''t0''"
    by (simp_all add: credential_scope_def sample_profile_config_def sample_proxy_def initial_proxy_def sample_credentials_def)
  have r: "refreshed_credentials ''openai'' (?v t) (px_store_creds sample_proxy) = Inr (sample_credentials ''v0'' t)" for t
    by (simp add: refreshed_credentials_def n sample_credentials_def)
  have "fst ?s = Inr ''v1''" by code_simp
  then obtain w1 where s: "?s = (Inr ''v1'', w1)" by (metis prod.collapse)
  have "(sample_credentials ''v0'' ''t1'')\<lparr>cr_version := ''v1''\<rparr> = sample_credentials ''v1'' ''t1''"
    by (simp add: sample_credentials_def)
  with s have one: "persist_oauth_state save_refresh ?c ''openai'' (?v ''t1'') sample_proxy (sample_store []) =
      (None, ?q1, w1)"
    by (simp only: persist_oauth_state_def n(1,2) r sum.case prod.case) simp
  obtain e q2 w2 where two: "persist_oauth_state save_refresh ?c ''openai'' (?v ''t2'') sample_proxy (w1) = (e, q2, w2)"
    by (metis prod.collapse)
  have run: "proxy_run (initial_proxy (sample_credentials ''v0'' ''t0'')) sample_proxy"
    by (simp add: sample_proxy_def run_refl)
  have ne: "px_store_version ?q1 \<noteq> px_store_version sample_proxy" by (simp add: n)
  from refresh_race_one_serves [OF run refl one ne r two] two n s show ?thesis by auto
qed

text \<open>a proxy whose generation was replaced stops serving.  If the store now holds another version or
  connection, or nothing, under the proxy's scope, issuing and restoring fail and every token is
  revoked on the spot.\<close>

theorem stale_generation_revokes:
  assumes "proxy_run (initial_proxy c) p" and "validate_model_policy pol = None"
    and "ld (credential_scope cfg) = Inl NotFound \<or> (\<exists>d. ld (credential_scope cfg) = Inr d \<and>
        (cr_version d \<noteq> px_store_version p \<or> cr_connection d \<noteq> px_connection p))"
  shows "(\<exists>e. issue_token cfg (Some ld) random now name ttl i pol p = (Inl e, revoke_case_tokens p) \<and>
      restore_token cfg (Some ld) now name token ttl i pol p = (Some e, revoke_case_tokens p)) \<and>
    px_by_value (revoke_case_tokens p) = Map.empty"
proof -
  have "\<exists>e. check_case_generation cfg (Some ld) p = (Some e, revoke_case_tokens p)"
    using assms(3) by (auto simp: check_case_generation_def)
  then have "\<exists>e. issue_token cfg (Some ld) random now name ttl i pol p = (Inl e, revoke_case_tokens p) \<and>
      restore_token cfg (Some ld) now name token ttl i pol p = (Some e, revoke_case_tokens p)"
    using assms(2) by (auto simp: issue_token_def restore_token_def)
  moreover have "px_by_value (revoke_case_tokens p) = Map.empty"
    using case_revoked_empty(1) [OF inv_revoke_case(1) [OF reachable_inv [OF assms(1)]]]
    by (simp add: revoke_case_tokens_def)
  ultimately show ?thesis by blast
qed

lemma stale_generation_revokes_witness:
  "px_by_value (snd sample_issue) (sample_token CHR ''a'') \<noteq> None \<and>
   px_by_value (snd (issue_token sample_config (Some (\<lambda>_. Inr (sample_credentials ''v9'' ''t0''))) None 1 ''w2'' 60
     sample_identity None (snd sample_issue))) (sample_token CHR ''a'') = None"
proof -
  let ?ld = "\<lambda>_. Inr (sample_credentials ''v9'' ''t0'') :: (store_error, credentials) result"
  have "px_store_version (snd sample_issue) = ''v0''"
    by (simp add: sample_issue_value sample_proxy_def initial_proxy_def sample_credentials_def)
  then have g: "?ld (credential_scope sample_config) = Inl NotFound \<or> (\<exists>d. ?ld (credential_scope sample_config) = Inr d \<and>
        (cr_version d \<noteq> px_store_version (snd sample_issue) \<or> cr_connection d \<noteq> px_connection (snd sample_issue)))"
    by (simp add: sample_credentials_def)
  have pol: "validate_model_policy None = None" by (simp add: validate_model_policy_def)
  from stale_generation_revokes [OF sample_issue_run pol, of ?ld sample_config, OF g, of None 1 "''w2''" 60 sample_identity "[]"]
  obtain e where "issue_token sample_config (Some ?ld) None 1 ''w2'' 60 sample_identity None (snd sample_issue) =
      (Inl e, revoke_case_tokens (snd sample_issue))" "px_by_value (revoke_case_tokens (snd sample_issue)) = Map.empty"
    by blast
  then show ?thesis by (simp add: sample_issue_at)
qed

text \<open>the lifetime of an issued token is exact up to 9223372036 seconds; one second more wraps the
  64-bit product of nanoseconds and the token is issued already expired.\<close>

theorem issued_lifetime:
  assumes "0 \<le> ttl" and "ttl \<le> 9223372036"
  shows "tr_expires (new_token_record name token ttl now lease) = now + ttl * 1000000000 \<and>
    tr_expires (new_token_record name token 9223372037 now lease) < now"
proof -
  have "wrap64 9223372037000000000 < 0" by code_simp
  then have "tr_expires (new_token_record name token 9223372037 now lease) < now"
    by (simp add: new_token_record_def)
  with lifetime_exact [OF assms] show ?thesis by simp
qed

lemma issued_lifetime_witness:
  "tr_expires (new_token_record ''w'' ''t'' 3600 7 0) = 3600000000007"
  using issued_lifetime [of 3600 "''w''" "''t''" 7 0] by simp

end
