(* ===== verification/HttpModel.thy ===== *)
theory HttpModel
  imports GoStrings "HOL-Library.AList"
begin

text \<open>
  The requests and replies of the proxy's HTTP handlers, as the code sees them after \<open>net/http\<close>,
  \<open>net/url\<close> and \<open>encoding/json\<close> have parsed them.  Header names are kept in lower case (Go keeps
  them in a canonical case).  A body is the sequence of JSON values it decodes to, with the
  position where the first one ends, or a body that cannot be read.  Decoding into a struct
  follows \<open>encoding/json\<close>: keys match exactly or else case-insensitively, unknown keys are
  ignored, \<open>null\<close> leaves a field unchanged, later duplicates win, a wrong type is an error.
\<close>

section \<open>Headers\<close>

type_synonym headers = "(string \<times> string list) list"

definition h_values :: "headers \<Rightarrow> string \<Rightarrow> string list" where
  "h_values h k = (case map_of h k of None \<Rightarrow> [] | Some vs \<Rightarrow> vs)"

definition h_get :: "headers \<Rightarrow> string \<Rightarrow> string" where
  "h_get h k = (case h_values h k of [] \<Rightarrow> [] | v # _ \<Rightarrow> v)"

definition h_set :: "string \<Rightarrow> string \<Rightarrow> headers \<Rightarrow> headers" where
  "h_set k v h = AList.update k [v] h"

definition h_del :: "string \<Rightarrow> headers \<Rightarrow> headers" where
  "h_del k h = AList.delete k h"

lemma h_values_set [simp]: "h_values (h_set k v h) j = (if j = k then [v] else h_values h j)"
  by (simp add: h_values_def h_set_def update_conv)

lemma h_values_del [simp]: "h_values (h_del k h) j = (if j = k then [] else h_values h j)"
  by (simp add: h_values_def h_del_def delete_conv)

lemma h_values_filter: "h_values (filter (\<lambda>(k, vs). P k) h) j = (if P j then h_values h j else [])"
  by (induction h) (auto simp: h_values_def split: option.splits)

section \<open>URL paths\<close>

text \<open>\<open>net/url\<close>: \<open>Path\<close> is the decoded path; \<open>RawPath\<close> is kept only when the default encoding of \<open>Path\<close>
  is not the path as it was written.\<close>

definition hex_val :: "char \<Rightarrow> nat" where
  "hex_val c = (if is_digit c then of_char c - 48
     else if CHR ''a'' \<le> c \<and> c \<le> CHR ''f'' then of_char c - 87 else of_char c - 55)"

definition upper_hex :: "nat \<Rightarrow> char" where
  "upper_hex n = (if n < 10 then char_of (48 + n) else char_of (55 + n))"

fun unescape_path :: "string \<Rightarrow> string option" where
  "unescape_path [] = Some []"
| "unescape_path (c # s) =
     (if c \<noteq> CHR ''%'' then map_option (\<lambda>t. c # t) (unescape_path s)
      else case s of h # l # s' \<Rightarrow>
             if is_hex h \<and> is_hex l then map_option (\<lambda>t. char_of (16 * hex_val h + hex_val l) # t) (unescape_path s')
             else None
           | _ \<Rightarrow> None)"

definition is_alnum :: "char \<Rightarrow> bool" where
  "is_alnum c \<longleftrightarrow> is_digit c \<or> (CHR ''a'' \<le> c \<and> c \<le> CHR ''z'') \<or> (CHR ''A'' \<le> c \<and> c \<le> CHR ''Z'')"

definition path_literals :: string where
  "path_literals = ''-_.~$&+,/:;=@''"

definition escape_path :: "string \<Rightarrow> string" where
  "escape_path p = concat (map (\<lambda>c. if is_alnum c \<or> c \<in> set path_literals then [c]
     else [CHR ''%'', upper_hex (of_char c div 16), upper_hex (of_char c mod 16)]) p)"

definition url_path :: "string \<Rightarrow> (string \<times> string) option" where
  "url_path written = map_option (\<lambda>p. (p, if escape_path p = written then [] else written)) (unescape_path written)"

definition raw_path_literals :: string where
  "raw_path_literals = path_literals @ [CHR ''!'', CHR 0x27, CHR ''('', CHR '')'', CHR ''*'', CHR ''['', CHR '']'', CHR ''%'']"

definition escaped_path :: "string \<Rightarrow> string \<Rightarrow> string" where
  "escaped_path path raw =
     (if raw \<noteq> [] \<and> list_all (\<lambda>c. is_alnum c \<or> c \<in> set raw_path_literals) raw \<and> unescape_path raw = Some path then raw
      else if path = ''*'' then ''*'' else escape_path path)"

section \<open>JSON values\<close>

datatype json = JNull | JBool bool | JInt int | JNumber | JStr string | JArr "json list" | JObj "(string \<times> json) list"

definition decode_string :: "json \<Rightarrow> string \<Rightarrow> string option" where
  "decode_string j cur = (case j of JNull \<Rightarrow> Some cur | JStr s \<Rightarrow> Some s | _ \<Rightarrow> None)"

definition decode_int :: "json \<Rightarrow> int \<Rightarrow> int option" where
  "decode_int j cur = (case j of JNull \<Rightarrow> Some cur
     | JInt n \<Rightarrow> if - (2 ^ 63) \<le> n \<and> n < 2 ^ 63 then Some n else None
     | _ \<Rightarrow> None)"

text \<open>An array decodes into the slice it finds: \<open>null\<close> keeps the element that was there.\<close>

fun decode_elements :: "json list \<Rightarrow> string list \<Rightarrow> string list option" where
  "decode_elements [] old = Some []"
| "decode_elements (j # js) old =
     (case decode_string j (case old of [] \<Rightarrow> [] | s # _ \<Rightarrow> s) of None \<Rightarrow> None | Some s \<Rightarrow>
        map_option (\<lambda>ss. s # ss) (decode_elements js (tl old)))"

definition decode_strings :: "json \<Rightarrow> string list \<Rightarrow> string list option" where
  "decode_strings j cur = (case j of JNull \<Rightarrow> Some [] | JArr js \<Rightarrow> decode_elements js cur | _ \<Rightarrow> None)"

type_synonym 'a decoder = "json \<Rightarrow> 'a \<Rightarrow> 'a option"

text \<open>\<open>strings.EqualFold\<close>, and the fold of \<open>encoding/json\<close>, against an ASCII name: the long s (U+017F) folds like s, the Kelvin sign
  (U+212A) like k.\<close>

fun fold_runes :: "string \<Rightarrow> string" where
  "fold_runes [] = []"
| "fold_runes (c # s) =
     (if c = CHR 0xC5 \<and> prefix [CHR 0xBF] s then CHR ''s'' # fold_runes (drop 1 s)
      else if c = CHR 0xE2 \<and> prefix [CHR 0x84, CHR 0xAA] s then CHR ''k'' # fold_runes (drop 2 s)
      else lower_char c # fold_runes s)"

definition equal_fold :: "string \<Rightarrow> string \<Rightarrow> bool" where
  "equal_fold s t \<longleftrightarrow> fold_runes s = fold_runes t"

definition find_field :: "(string \<times> 'a decoder) list \<Rightarrow> string \<Rightarrow> 'a decoder option" where
  "find_field flds k = (case map_of flds k of Some d \<Rightarrow> Some d
     | None \<Rightarrow> map_option snd (find (\<lambda>(n, d). equal_fold n k) flds))"

fun decode_members :: "(string \<times> 'a decoder) list \<Rightarrow> (string \<times> json) list \<Rightarrow> 'a \<Rightarrow> 'a option" where
  "decode_members flds [] cur = Some cur"
| "decode_members flds ((k, j) # rest) cur =
     (case find_field flds k of None \<Rightarrow> decode_members flds rest cur
      | Some d \<Rightarrow> (case d j cur of None \<Rightarrow> None | Some nxt \<Rightarrow> decode_members flds rest nxt))"

definition decode_struct :: "(string \<times> 'a decoder) list \<Rightarrow> 'a decoder" where
  "decode_struct flds j cur = (case j of JNull \<Rightarrow> Some cur | JObj ms \<Rightarrow> decode_members flds ms cur | _ \<Rightarrow> None)"

section \<open>Requests and replies\<close>

datatype body =
    NoBody
  | Unreadable
  | Body nat nat "json list" bool \<comment> \<open>length, end of the first value, the values, clean end\<close>

record request =
  rq_method :: string
  rq_absolute :: bool \<comment> \<open>absolute form with a host\<close>
  rq_path :: string
  rq_raw_path :: string
  rq_raw_query :: string
  rq_query :: "(string \<times> string) list"
  rq_headers :: headers
  rq_body :: body
  rq_ended :: bool \<comment> \<open>the request's own context is done\<close>

definition query_get :: "request \<Rightarrow> string \<Rightarrow> string" where
  "query_get r k = (case map_of (rq_query r) k of None \<Rightarrow> [] | Some v \<Rightarrow> v)"

text \<open>\<open>json.NewDecoder(http.MaxBytesReader(w, r.Body, limit)).Decode\<close>: the first value, when it ends
  within the limit.\<close>

definition decode_body :: "nat \<Rightarrow> body \<Rightarrow> 'a decoder \<Rightarrow> 'a \<Rightarrow> 'a option" where
  "decode_body limit b d cur = (case b of
     Body len end (v # _) _ \<Rightarrow> if end \<le> limit then d v cur else None
   | _ \<Rightarrow> None)"

datatype reply_body = NoText | Text string | JsonReply "(string \<times> json) list" | Relayed string

record reply =
  rp_status :: nat
  rp_headers :: "(string \<times> string) list"
  rp_body :: reply_body

definition http_error :: "string \<Rightarrow> nat \<Rightarrow> reply" where
  "http_error msg code = \<lparr>rp_status = code, rp_headers = [], rp_body = Text msg\<rparr>"

definition status_only :: "nat \<Rightarrow> reply" where
  "status_only code = \<lparr>rp_status = code, rp_headers = [], rp_body = NoText\<rparr>"

definition json_reply :: "(string \<times> string) list \<Rightarrow> (string \<times> json) list \<Rightarrow> reply" where
  "json_reply hs ms = \<lparr>rp_status = 200, rp_headers = (''content-type'', ''application/json'') # hs, rp_body = JsonReply ms\<rparr>"

lemmas reply_defs = http_error_def status_only_def json_reply_def

text \<open>A request sent upstream.\<close>

record outgoing =
  og_method :: string
  og_url :: string
  og_headers :: headers
  og_body :: body
  og_redirects :: bool \<comment> \<open>redirects are followed\<close>

text \<open>A body the proxy encodes itself; its length is not tracked.\<close>

definition json_body :: "json \<Rightarrow> body" where
  "json_body j = Body 0 0 [j] True"

text \<open>What an upstream answers: a status, headers, and a body with its decoded JSON value.\<close>

record upstream_reply =
  ur_status :: nat
  ur_headers :: headers
  ur_body :: string
  ur_length :: nat
  ur_readable :: bool
  ur_json :: "json option"

definition is_websocket :: "request \<Rightarrow> bool" where
  "is_websocket r \<longleftrightarrow> equal_fold (h_get (rq_headers r) ''upgrade'') ''websocket'' \<and>
     sublist ''upgrade'' (to_lower (h_get (rq_headers r) ''connection''))"

end
