(* ===== verification/AdminApi.thy ===== *)
theory AdminApi
  imports TokenSafety HttpModel
begin

text \<open>
  The admin handlers of \<open>internal/authproxy/admin.go\<close> and \<open>restore.go\<close>, and the worker-facing
  \<open>/token\<close>, \<open>/health\<close> and \<open>/revoke\<close> handlers of \<open>tokens.go\<close>: each returns its reply and the new
  state of the proxy.  \<open>gen\<close> is the credential store's answer, \<open>random\<close> the bytes of a fresh token
  and \<open>now\<close> the clock.
\<close>

section \<open>Requests\<close>

record admin_request =
  ar_container :: string
  ar_token :: string
  ar_ttl :: int
  ar_identity :: identity
  ar_policy :: model_policy

definition empty_admin_request :: admin_request where
  "empty_admin_request = \<lparr>ar_container = [], ar_token = [], ar_ttl = 0, ar_identity = empty_identity, ar_policy = None\<rparr>"

definition decode_identity :: "identity decoder" where
  "decode_identity = decode_struct
     [(''case_id'', \<lambda>j v. map_option (\<lambda>s. v\<lparr>id_case := s\<rparr>) (decode_string j (id_case v))),
      (''run_id'', \<lambda>j v. map_option (\<lambda>s. v\<lparr>id_run := s\<rparr>) (decode_string j (id_run v))),
      (''connection_version'', \<lambda>j v. map_option (\<lambda>s. v\<lparr>id_connection := s\<rparr>) (decode_string j (id_connection v))),
      (''provider'', \<lambda>j v. map_option (\<lambda>s. v\<lparr>id_provider := s\<rparr>) (decode_string j (id_provider v)))]"

text \<open>A pointer: \<open>null\<close> resets it, an object allocates it first.\<close>

definition decode_policy :: "model_policy decoder" where
  "decode_policy j cur = (if j = JNull then Some None
     else map_option Some (decode_struct [(''allowed_models'', decode_strings)] j (case cur of None \<Rightarrow> [] | Some ms \<Rightarrow> ms)))"

definition field_container :: "string \<times> admin_request decoder" where
  "field_container = (''container'', \<lambda>j v. map_option (\<lambda>s. v\<lparr>ar_container := s\<rparr>) (decode_string j (ar_container v)))"

definition field_token :: "string \<times> admin_request decoder" where
  "field_token = (''token'', \<lambda>j v. map_option (\<lambda>s. v\<lparr>ar_token := s\<rparr>) (decode_string j (ar_token v)))"

definition field_ttl :: "string \<times> admin_request decoder" where
  "field_ttl = (''ttl'', \<lambda>j v. map_option (\<lambda>n. v\<lparr>ar_ttl := n\<rparr>) (decode_int j (ar_ttl v)))"

definition field_identity :: "string \<times> admin_request decoder" where
  "field_identity = (''identity'', \<lambda>j v. map_option (\<lambda>i. v\<lparr>ar_identity := i\<rparr>) (decode_identity j (ar_identity v)))"

definition field_policy :: "string \<times> admin_request decoder" where
  "field_policy = (''model_policy'', \<lambda>j v. map_option (\<lambda>q. v\<lparr>ar_policy := q\<rparr>) (decode_policy j (ar_policy v)))"

definition decode_issue :: "admin_request decoder" where
  "decode_issue = decode_struct [field_container, field_ttl, field_identity, field_policy]"

definition decode_restore :: "admin_request decoder" where
  "decode_restore = decode_struct [field_container, field_token, field_ttl, field_identity, field_policy]"

section \<open>Admin handlers\<close>

definition require_admin :: "proxy_config \<Rightarrow> request \<Rightarrow> bool" where
  "require_admin cfg r \<longleftrightarrow>
     pc_admin_secret cfg = [] \<or> h_get (rq_headers r) ''x-proxy-admin-secret'' = pc_admin_secret cfg"

definition unauthorized :: reply where
  "unauthorized = http_error ''unauthorized'' 401"

definition bad_method :: reply where
  "bad_method = http_error ''method not allowed'' 405"

text \<open>The method and secret checks every admin handler starts with.\<close>

definition admin_guard :: "proxy_config \<Rightarrow> string \<Rightarrow> request \<Rightarrow> proxy \<Rightarrow> (proxy \<Rightarrow> reply \<times> proxy) \<Rightarrow> reply \<times> proxy" where
  "admin_guard cfg verb r p k =
     (if rq_method r \<noteq> verb then (bad_method, p)
      else if \<not> require_admin cfg r then (unauthorized, p)
      else k p)"

text \<open>The text of an error; \<open>st\<close> renders the errors of the store and of the random source.\<close>

definition identity_text :: "identity_error \<Rightarrow> string" where
  "identity_text e = (case e of BadIdentity \<Rightarrow> ''invalid token identity'' | BadTokenProvider \<Rightarrow> ''invalid token provider''
     | TooManyModels \<Rightarrow> ''at most 256 allowed models may be configured''
     | InexactModel \<Rightarrow> ''allowed models must be exact, nonempty upstream IDs'')"

definition error_text :: "(store_error option \<Rightarrow> string) \<Rightarrow> proxy_error \<Rightarrow> string" where
  "error_text st e = (case e of
     PolicyInvalid i \<Rightarrow> identity_text i
   | IdentityInvalid i \<Rightarrow> identity_text i
   | IdentityMismatch \<Rightarrow> ''token identity does not match credential scope''
   | RandomFailure \<Rightarrow> st None
   | CaseRevoked \<Rightarrow> ''credential case or run was revoked''
   | GenerationLoad x \<Rightarrow> ''checking credential case: '' @ st (Some x)
   | GenerationConflict \<Rightarrow> st (Some Conflict)
   | BadPlaceholder \<Rightarrow> ''invalid worker placeholder''
   | BadTTL \<Rightarrow> ''invalid token TTL''
   | PlaceholderTaken \<Rightarrow> ''placeholder already belongs to another worker''
   | OtherCase \<Rightarrow> ''run belongs to another case''
   | RequestEnded \<Rightarrow> ''context canceled''
   | EmptyVersion \<Rightarrow> ''external credential store returned empty version''
   | RefreshType \<Rightarrow> ''invalid OAuth refresh''
   | RefreshProvider \<Rightarrow> ''unknown OAuth provider''
   | SaveFailed x \<Rightarrow> st (Some x))"

definition handle_admin_issue ::
  "(store_error option \<Rightarrow> string) \<Rightarrow> proxy_config \<Rightarrow> generation \<Rightarrow> string option \<Rightarrow> int \<Rightarrow> request \<Rightarrow> proxy \<Rightarrow> reply \<times> proxy" where
  "handle_admin_issue st cfg gen random now r p = admin_guard cfg ''POST'' r p (\<lambda>p.
     (case decode_body 98304 (rq_body r) decode_issue empty_admin_request of
        None \<Rightarrow> (http_error ''invalid json'' 400, p)
      | Some req \<Rightarrow>
          if ar_container req = [] then (http_error ''missing container'' 400, p)
          else (let ttl = (if ar_ttl req \<le> 0 then pc_token_ttl cfg else ar_ttl req) in
            case issue_token cfg gen random now (ar_container req) ttl (ar_identity req) (ar_policy req) p of
              (Inl e, q) \<Rightarrow> (http_error (error_text st e) 500, q)
            | (Inr t, q) \<Rightarrow> (json_reply [] [(''token'', JStr t)], q))))"

definition handle_admin_restore :: "(store_error option \<Rightarrow> string) \<Rightarrow> proxy_config \<Rightarrow> generation \<Rightarrow> int \<Rightarrow> request \<Rightarrow> proxy \<Rightarrow> reply \<times> proxy" where
  "handle_admin_restore st cfg gen now r p = admin_guard cfg ''POST'' r p (\<lambda>p.
     (case decode_body 98304 (rq_body r) decode_restore empty_admin_request of
        None \<Rightarrow> (http_error ''invalid json'' 400, p)
      | Some req \<Rightarrow>
          (case restore_token cfg gen now (ar_container req) (ar_token req) (ar_ttl req) (ar_identity req)
                  (ar_policy req) p of
             (Some e, q) \<Rightarrow> (http_error (error_text st e) 400, q)
           | (None, q) \<Rightarrow> (status_only 204, q))))"

definition revoke_container :: "request \<Rightarrow> proxy \<Rightarrow> reply \<times> proxy" where
  "revoke_container r p =
     (if query_get r ''container'' = [] then (http_error ''missing container param'' 400, p)
      else (status_only 200, revoke_token (query_get r ''container'') p))"

definition handle_admin_revoke :: "proxy_config \<Rightarrow> request \<Rightarrow> proxy \<Rightarrow> reply \<times> proxy" where
  "handle_admin_revoke cfg r p = admin_guard cfg ''POST'' r p (revoke_container r)"

definition handle_admin_revoke_run :: "proxy_config \<Rightarrow> request \<Rightarrow> proxy \<Rightarrow> reply \<times> proxy" where
  "handle_admin_revoke_run cfg r p = admin_guard cfg ''POST'' r p (\<lambda>p.
     (case decode_body 8192 (rq_body r) decode_identity empty_identity of
        None \<Rightarrow> (http_error ''invalid run identity'' 400, p)
      | Some i \<Rightarrow>
          if validate_identity i \<noteq> None \<or> (pc_case_id cfg \<noteq> [] \<and> id_case i \<noteq> pc_case_id cfg)
          then (http_error ''invalid run identity'' 400, p)
          else (case revoke_run cfg (rq_ended r) i p of
                  (Some e, q) \<Rightarrow> (http_error ''invalid run identity'' 400, q)
                | (None, q) \<Rightarrow> (status_only 204, q))))"

definition handle_admin_revoke_case :: "proxy_config \<Rightarrow> request \<Rightarrow> proxy \<Rightarrow> reply \<times> proxy" where
  "handle_admin_revoke_case cfg r p = admin_guard cfg ''POST'' r p (\<lambda>p.
     if credential_scope cfg = [] then (http_error ''not a case proxy'' 400, p)
     else (status_only 204, revoke_case_tokens p))"

text \<open>What \<open>/admin/mode\<close> reports of the credentials: the key, OAuth and Anthropic modes.\<close>

record held_credentials =
  hc_api_key :: string
  hc_oauth :: "openai_oauth option"
  hc_anthropic_key :: string
  hc_anthropic :: "anthropic_oauth option"

definition handle_admin_mode :: "proxy_config \<Rightarrow> held_credentials \<Rightarrow> request \<Rightarrow> proxy \<Rightarrow> reply \<times> proxy" where
  "handle_admin_mode cfg h r p = admin_guard cfg ''GET'' r p (\<lambda>p.
     (json_reply
        (if pc_profile cfg \<noteq> [] then [(''x-cxd-auth-profile'', pc_profile cfg), (''x-cxd-connection-version'', px_connection p)]
         else [])
        [(''worker_token_auth'', JBool True), (''model_authorization'', JBool True),
         (''model_policy_active'', JBool (pc_allowed_models cfg \<noteq> [])), (''credential_broker'', JBool True),
         (''openai_available'', JBool (hc_api_key h \<noteq> [] \<or> hc_oauth h \<noteq> None)),
         (''oauth_mode'', JBool (hc_oauth h \<noteq> None)),
         (''anthropic_available'', JBool (hc_anthropic h \<noteq> None \<or> hc_anthropic_key h \<noteq> [])),
         (''anthropic_oauth_mode'', JBool (hc_anthropic h \<noteq> None)), (''token_identity'', JBool True),
         (''token_model_policy'', JBool True), (''case_proxy'', JBool (pc_case_id cfg \<noteq> [])),
         (''independent_profile'', JBool (pc_profile cfg \<noteq> []))], p))"

section \<open>Worker-facing handlers\<close>

text \<open>
  \<open>workerIDToken\<close>.  The account claims are the plan, the FedRAMP flag and the account of the host's
  ID token (empty when its payload does not decode), with the stored account id taking precedence.
  \<open>claims\<close> decodes the middle part of a token (base64, JSON), \<open>encode\<close> is its inverse direction.
\<close>

record account_claims =
  ac_account :: string
  ac_plan :: string
  ac_fedramp :: bool

definition no_claims :: account_claims where
  "no_claims = \<lparr>ac_account = [], ac_plan = [], ac_fedramp = False\<rparr>"

record token_codec =
  tc_claims :: "string \<Rightarrow> account_claims option"
  tc_encode :: "json \<Rightarrow> string"

definition token_claims :: "token_codec \<Rightarrow> openai_oauth \<Rightarrow> account_claims" where
  "token_claims cd c =
     (let ac = (case split_on CHR ''.'' (oa_id_token c) of
                  [_, payload, _] \<Rightarrow> (case tc_claims cd payload of Some a \<Rightarrow> a | None \<Rightarrow> no_claims)
                | _ \<Rightarrow> no_claims) in
      if oa_account c \<noteq> [] then ac\<lparr>ac_account := oa_account c\<rparr> else ac)"

definition claims_json :: "account_claims \<Rightarrow> json" where
  "claims_json a = JObj [(''https://api.openai.com/auth'', JObj
     ((if ac_account a \<noteq> [] then [(''chatgpt_account_id'', JStr (ac_account a))] else []) @
      (if ac_plan a \<noteq> [] then [(''chatgpt_plan_type'', JStr (ac_plan a))] else []) @
      (if ac_fedramp a then [(''chatgpt_account_is_fedramp'', JBool True)] else [])))]"

definition worker_id_token :: "token_codec \<Rightarrow> openai_oauth \<Rightarrow> string" where
  "worker_id_token cd c = tc_encode cd (JObj [(''alg'', JStr ''none''), (''typ'', JStr ''JWT'')]) @ ''.'' @
     tc_encode cd (claims_json (token_claims cd c)) @ ''.cxd-placeholder''"

definition handle_token :: "token_codec \<Rightarrow> held_credentials \<Rightarrow> int \<Rightarrow> request \<Rightarrow> proxy \<Rightarrow> reply" where
  "handle_token cd h now r p =
     (if rq_method r \<noteq> ''GET'' then bad_method
      else if h_get (rq_headers r) ''x-codex-token'' = [] then http_error ''missing X-Codex-Token header'' 401
      else (case token_lookup now (h_get (rq_headers r) ''x-codex-token'') p of
              None \<Rightarrow> http_error ''token invalid or expired'' 401
            | Some rec \<Rightarrow> json_reply [(''cache-control'', ''no-store'')]
                (case hc_oauth h of
                   Some c \<Rightarrow> [(''oauth_access_token'', JStr (tr_token rec)), (''oauth_id_token'', JStr (worker_id_token cd c)),
                     (''oauth_account_id'', JStr (oa_account c)), (''oauth_last_refresh'', JStr (oa_last_refresh c)),
                     (''container_name'', JStr (tr_container rec))]
                 | None \<Rightarrow> [(''api_key'', JStr (tr_token rec)), (''container_name'', JStr (tr_container rec))])))"

definition handle_health :: "proxy \<Rightarrow> reply" where
  "handle_health p = json_reply [] [(''status'', JStr ''ok''), (''active_tokens'', JInt (int (length (px_tokens p))))]"

definition handle_revoke :: "request \<Rightarrow> proxy \<Rightarrow> reply \<times> proxy" where
  "handle_revoke r p = (if rq_method r \<noteq> ''POST'' then (bad_method, p) else revoke_container r p)"

section \<open>Properties\<close>

text \<open>with an admin secret configured, no admin request without exactly that secret changes anything.
  Every admin handler then answers 401 (or 405 for a wrong method) and leaves the tokens, the
  revocations and the generation untouched, whatever the body says.\<close>

theorem admin_needs_secret:
  assumes "pc_admin_secret cfg \<noteq> []" and "h_get (rq_headers r) ''x-proxy-admin-secret'' \<noteq> pc_admin_secret cfg"
    and "res \<in> {handle_admin_issue st cfg gen random now r p, handle_admin_restore st cfg gen now r p,
       handle_admin_revoke cfg r p, handle_admin_revoke_run cfg r p, handle_admin_revoke_case cfg r p,
       handle_admin_mode cfg h r p}"
  shows "snd res = p \<and> (fst res = unauthorized \<or> fst res = bad_method)"
  using assms
  by (auto simp: handle_admin_issue_def handle_admin_restore_def handle_admin_revoke_def handle_admin_revoke_run_def
      handle_admin_revoke_case_def handle_admin_mode_def admin_guard_def require_admin_def)

definition sample_admin_request :: "string \<Rightarrow> request" where
  "sample_admin_request secret = \<lparr>rq_method = ''POST'', rq_absolute = False, rq_path = ''/admin/revoke'', rq_raw_path = [],
     rq_raw_query = ''container=w1'', rq_query = [(''container'', ''w1'')],
     rq_headers = [(''x-proxy-admin-secret'', [secret])], rq_body = NoBody, rq_ended = False\<rparr>"

lemma admin_needs_secret_witness:
  "snd (handle_admin_revoke sample_config (sample_admin_request ''guess'') (snd sample_issue)) = snd sample_issue \<and>
   token_at (snd (handle_admin_revoke sample_config (sample_admin_request (replicate 32 CHR ''s'')) (snd sample_issue))) ''w1'' = None"
proof -
  have "pc_admin_secret sample_config \<noteq> []"
    "h_get (rq_headers (sample_admin_request ''guess'')) ''x-proxy-admin-secret'' \<noteq> pc_admin_secret sample_config"
    by code_simp+
  from admin_needs_secret [OF this, of "handle_admin_revoke sample_config (sample_admin_request ''guess'') (snd sample_issue)"]
  have "snd (handle_admin_revoke sample_config (sample_admin_request ''guess'') (snd sample_issue)) = snd sample_issue" by simp
  moreover have "token_at (snd (handle_admin_revoke sample_config (sample_admin_request (replicate 32 CHR ''s'')) (snd sample_issue)))
      ''w1'' = None" by code_simp
  ultimately show ?thesis by blast
qed

text \<open>what \<open>/token\<close> tells a worker does not depend on the host's secrets.  The reply is the same for any
  access token, refresh token, API keys, Anthropic login, and any header or signature of the ID token:
  only the account metadata of the login is disclosed.\<close>

theorem token_reply_secret_free:
  assumes "CHR ''.'' \<notin> set (hd1 @ hd2 @ body @ sig1 @ sig2)"
  shows "handle_token cd \<lparr>hc_api_key = k1, hc_oauth = map_option (\<lambda>c. c\<lparr>oa_access := a, oa_refresh := b,
       oa_id_token := hd1 @ ''.'' @ body @ ''.'' @ sig1\<rparr>) login, hc_anthropic_key = n1, hc_anthropic = l1\<rparr> now r p =
   handle_token cd \<lparr>hc_api_key = k2, hc_oauth = map_option (\<lambda>c. c\<lparr>oa_access := a', oa_refresh := b',
       oa_id_token := hd2 @ ''.'' @ body @ ''.'' @ sig2\<rparr>) login, hc_anthropic_key = n2, hc_anthropic = l2\<rparr> now r p"
proof -
  have split: "split_on CHR ''.'' (x @ ''.'' @ y) = x # split_on CHR ''.'' y" if "CHR ''.'' \<notin> set x" for x y
    using that by (induction x) auto
  have "split_on CHR ''.'' (h @ ''.'' @ body @ ''.'' @ s) = [h, body, s]"
    if "CHR ''.'' \<notin> set h" "CHR ''.'' \<notin> set body" "CHR ''.'' \<notin> set s" for h s
    using that split [of h] split [of body] split_on_single by metis
  then have "token_claims cd (c\<lparr>oa_access := a, oa_refresh := b, oa_id_token := hd1 @ ''.'' @ body @ ''.'' @ sig1\<rparr>) =
      token_claims cd (c\<lparr>oa_access := a', oa_refresh := b', oa_id_token := hd2 @ ''.'' @ body @ ''.'' @ sig2\<rparr>)" for c
    using assms by (simp add: token_claims_def Let_def)
  then show ?thesis by (cases login) (simp_all add: handle_token_def worker_id_token_def split: option.split)
qed

definition sample_codec :: token_codec where
  "sample_codec = \<lparr>tc_claims = (\<lambda>s. Some \<lparr>ac_account = s, ac_plan = ''plus'', ac_fedramp = False\<rparr>),
     tc_encode = (\<lambda>j. case j of JObj ms \<Rightarrow> concat (map fst ms) | _ \<Rightarrow> [])\<rparr>"

definition sample_token_request :: request where
  "sample_token_request = (sample_admin_request [])\<lparr>rq_method := ''GET'', rq_path := ''/token'',
     rq_headers := [(''x-codex-token'', [sample_token CHR ''a''])]\<rparr>"

lemma token_reply_secret_free_witness:
  "handle_token sample_codec \<lparr>hc_api_key = ''k'', hc_oauth = Some ((sample_oauth ''x'')\<lparr>oa_id_token := ''h.b.s''\<rparr>),
     hc_anthropic_key = [], hc_anthropic = None\<rparr> 5 sample_token_request (snd sample_issue) =
   handle_token sample_codec \<lparr>hc_api_key = [], hc_oauth = Some ((sample_oauth ''y'')\<lparr>oa_id_token := ''g.b.t''\<rparr>),
     hc_anthropic_key = ''n'', hc_anthropic = None\<rparr> 5 sample_token_request (snd sample_issue)"
  using token_reply_secret_free [of "''h''" "''g''" "''b''" "''s''" "''t''" sample_codec "''k''" "''x''" "''x''"
      "Some (sample_oauth [])" "[]" None 5 sample_token_request "snd sample_issue" "[]" "''y''" "''y''" "''n''" None]
  by (simp add: sample_oauth_def)

end
