(* ===== verification/Broker.thy ===== *)
theory Broker
  imports TokenSafety HttpModel
begin

text \<open>
  The credential broker of \<open>internal/authproxy/broker.go\<close>: the validation of the trusted routes, the
  provider check of a worker token's route, and the handler that sends a route's secret upstream.
  \<open>parse_url\<close> stands for \<open>url.Parse\<close> of a configured origin.
\<close>

section \<open>Routes\<close>

record credential_route =
  rt_name :: string
  rt_upstream :: string
  rt_paths :: "string list"
  rt_methods :: "string list"
  rt_header :: string
  rt_prefix :: string
  rt_provider :: string
  rt_secret :: "(int \<Rightarrow> string option) option" \<comment> \<open>absent, or its value (or failure) at a time\<close>

record url =
  u_scheme :: string
  u_host :: string
  u_user :: bool
  u_raw_query :: string
  u_fragment :: string
  u_path :: string

datatype route_error =
    BadOrigin | BadRoute | BadRouteProvider | BadHeader | UnsafeHeader | BadPathScope | BadMethod

definition name_char :: "char \<Rightarrow> bool" where
  "name_char c \<longleftrightarrow> (CHR ''a'' \<le> c \<and> c \<le> CHR ''z'') \<or> is_digit c \<or> c = CHR ''-''"

definition route_name_ok :: "string \<Rightarrow> bool" where
  "route_name_ok n \<longleftrightarrow> (case n of [] \<Rightarrow> False
     | c # cs \<Rightarrow> CHR ''a'' \<le> c \<and> c \<le> CHR ''z'' \<and> length cs \<le> 62 \<and> list_all name_char cs)"

definition unsafe_headers :: "string list" where
  "unsafe_headers = [''host'', ''connection'', ''proxy-authorization'', ''proxy-authenticate'', ''content-length'',
     ''transfer-encoding'', ''upgrade'', ''cookie'', ''set-cookie'', ''x-codex-token'']"

definition http_methods :: "string list" where
  "http_methods = [''GET'', ''HEAD'', ''POST'', ''PUT'', ''PATCH'', ''DELETE'', ''OPTIONS'']"

definition header_breaks :: string where
  "header_breaks = [CHR 0x0D, CHR 0x0A]"

definition header_separators :: string where
  "header_separators = [CHR '':'', CHR '' '', CHR 0x09, CHR 0x0D, CHR 0x0A]"

definition path_metas :: string where
  "path_metas = [CHR ''%'', CHR ''?'', CHR ''#'', CHR 0x5C]"

definition fixed_origin :: "url option \<Rightarrow> bool" where
  "fixed_origin u = (case u of None \<Rightarrow> False | Some v \<Rightarrow> u_scheme v = ''https'' \<and> u_host v \<noteq> [] \<and> \<not> u_user v \<and>
     u_raw_query v = [] \<and> u_fragment v = [] \<and> (u_path v = [] \<or> u_path v = ''/''))"

definition path_scope_ok :: "string \<Rightarrow> bool" where
  "path_scope_ok p \<longleftrightarrow> is_abs p \<and> path_clean p = p \<and> \<not> contains_any p path_metas"

definition validate_route :: "(string \<Rightarrow> url option) \<Rightarrow> string list \<Rightarrow> credential_route \<Rightarrow> route_error option" where
  "validate_route parse_url seen r =
     (if \<not> fixed_origin (parse_url (rt_upstream r)) then Some BadOrigin
      else if \<not> route_name_ok (rt_name r) \<or> rt_name r \<in> set seen \<or> rt_secret r = None \<or> rt_paths r = [] \<or> rt_methods r = []
        then Some BadRoute
      else if rt_provider r \<noteq> [] \<and> rt_provider r \<noteq> ''any'' \<and> rt_provider r \<noteq> ''openai'' \<and> rt_provider r \<noteq> ''anthropic''
        then Some BadRouteProvider
      else if rt_header r = [] \<or> contains_any (rt_header r) header_separators \<or> contains_any (rt_prefix r) header_breaks
        then Some BadHeader
      else if to_lower (rt_header r) \<in> set unsafe_headers then Some UnsafeHeader
      else if \<not> list_all path_scope_ok (rt_paths r) then Some BadPathScope
      else if \<not> list_all (\<lambda>m. m \<in> set http_methods) (rt_methods r) then Some BadMethod
      else None)"

fun validate_routes_from :: "(string \<Rightarrow> url option) \<Rightarrow> string list \<Rightarrow> credential_route list \<Rightarrow> route_error option" where
  "validate_routes_from pu seen [] = None"
| "validate_routes_from pu seen (r # rs) =
     (case validate_route pu seen r of Some e \<Rightarrow> Some e | None \<Rightarrow> validate_routes_from pu (rt_name r # seen) rs)"

definition validate_routes :: "(string \<Rightarrow> url option) \<Rightarrow> credential_route list \<Rightarrow> route_error option" where
  "validate_routes pu rs = validate_routes_from pu [] rs"

text \<open>\<open>LoadCredentialRoutes\<close>: a private regular file of at most 1 MiB whose records name every field.\<close>

datatype load_error = CannotStat | NotPrivate | CannotOpen | BadRouteConfig | RouteInvalid route_error

record routes_file =
  rf_regular :: bool
  rf_perm :: nat
  rf_size :: nat
  rf_opens :: bool
  rf_records :: "(credential_route \<times> string) list option" \<comment> \<open>the records, each with its \<open>Secret\<close>\<close>

definition load_credential_routes ::
  "(string \<Rightarrow> url option) \<Rightarrow> routes_file option \<Rightarrow> load_error + credential_route list" where
  "load_credential_routes pu f = (case f of None \<Rightarrow> Inl CannotStat | Some i \<Rightarrow>
     if \<not> rf_regular i \<or> rf_perm i mod 64 \<noteq> 0 \<or> 1048576 < rf_size i then Inl NotPrivate
     else if \<not> rf_opens i then Inl CannotOpen
     else (case rf_records i of None \<Rightarrow> Inl BadRouteConfig | Some recs \<Rightarrow>
        (let routes = map (\<lambda>(r, secret). r\<lparr>rt_secret := Some (\<lambda>_. Some secret)\<rparr>) recs in
         case validate_routes pu routes of Some e \<Rightarrow> Inl (RouteInvalid e) | None \<Rightarrow> Inr routes)))"

section \<open>The provider of a token and its routes\<close>

definition broker_prefix :: string where
  "broker_prefix = ''/broker/''"

definition find_route :: "credential_route list \<Rightarrow> string \<Rightarrow> credential_route option" where
  "find_route routes name = find (\<lambda>r. rt_name r = name) routes"

definition broker_provider_allowed :: "credential_route list \<Rightarrow> string \<Rightarrow> string \<Rightarrow> bool" where
  "broker_provider_allowed routes provider path =
     (if \<not> prefix broker_prefix path then provider_route_allowed provider path
      else (case find_route routes (fst (str_cut CHR ''/'' (trim_prefix path broker_prefix))) of
          None \<Rightarrow> False
        | Some r \<Rightarrow> provider = [] \<or> provider = ''any'' \<or> rt_provider r = [] \<or> rt_provider r = ''any'' \<or> rt_provider r = provider))"

text \<open>\<open>workerRequest\<close> on a request of this server.\<close>

definition authenticate ::
  "credential_route list \<Rightarrow> int \<Rightarrow> bool \<Rightarrow> request \<Rightarrow> proxy \<Rightarrow> (nat \<times> model_policy) option" where
  "authenticate routes now allow_key r p =
     worker_request (\<lambda>provider. broker_provider_allowed routes provider (rq_path r)) now
       (h_values (rq_headers r) ''authorization'') (h_values (rq_headers r) ''x-api-key'') allow_key p"

section \<open>The broker\<close>

definition trim_right_slash :: "string \<Rightarrow> string" where
  "trim_right_slash s = rev (dropWhile (\<lambda>c. c = CHR ''/'') (rev s))"

definition in_scope :: "string list \<Rightarrow> string \<Rightarrow> bool" where
  "in_scope paths requested = list_ex (\<lambda>p. requested = p \<or> prefix (trim_suffix p ''/'' @ ''/'') requested) paths"

definition request_metas :: string where
  "request_metas = [CHR ''%'', CHR 0x5C]"

definition passed_headers :: "string list" where
  "passed_headers = [''accept'', ''content-type'', ''user-agent'', ''idempotency-key'']"

definition relayed_headers :: "string list" where
  "relayed_headers = [''content-type'', ''retry-after'', ''x-request-id'']"

definition copy_header :: "headers \<Rightarrow> string \<Rightarrow> headers \<Rightarrow> headers" where
  "copy_header src k dst = (if h_get src k \<noteq> [] then h_set k (h_get src k) dst else dst)"

definition broker_request :: "credential_route \<Rightarrow> string \<Rightarrow> string \<Rightarrow> request \<Rightarrow> outgoing" where
  "broker_request route secret requested r =
     \<lparr>og_method = rq_method r,
      og_url = trim_right_slash (rt_upstream route) @ requested @ (if rq_raw_query r = [] then [] else ''?'' @ rq_raw_query r),
      og_headers = h_set (to_lower (rt_header route)) (rt_prefix route @ secret)
        (fold (copy_header (rq_headers r)) passed_headers []),
      og_body = rq_body r, og_redirects = False\<rparr>"

text \<open>
  \<open>answer\<close> is the upstream, \<open>None\<close> for a transport error; \<open>url_ok\<close> is whether \<open>http.NewRequest\<close> accepts
  the target.  The result is the reply and the request sent, if any.
\<close>

definition denied_by_policy :: reply where
  "denied_by_policy = \<lparr>rp_status = 403, rp_headers = [(''x-cxd-policy-reason'', ''model_policy_route_denied'')],
     rp_body = Text ''model_policy_route_denied''\<rparr>"

definition relay_broker :: "upstream_reply option \<Rightarrow> reply" where
  "relay_broker a = (case a of None \<Rightarrow> http_error ''credential route upstream unavailable'' 502
     | Some u \<Rightarrow> \<lparr>rp_status = ur_status u,
         rp_headers = concat (map (\<lambda>k. if h_get (ur_headers u) k \<noteq> [] then [(k, h_get (ur_headers u) k)] else []) relayed_headers),
         rp_body = Relayed (ur_body u)\<rparr>)"

definition send_with_secret ::
  "(outgoing \<Rightarrow> upstream_reply option) \<Rightarrow> (string \<Rightarrow> bool) \<Rightarrow> credential_route \<Rightarrow> int \<Rightarrow> string \<Rightarrow> request \<Rightarrow>
   reply \<times> outgoing option" where
  "send_with_secret answer url_ok route now requested r =
     (case (case rt_secret route of None \<Rightarrow> None | Some f \<Rightarrow> f now) of
        None \<Rightarrow> (http_error ''credential unavailable'' 503, None)
      | Some secret \<Rightarrow>
          if secret = [] \<or> contains_any secret header_breaks then (http_error ''credential unavailable'' 503, None)
          else (let out = broker_request route secret requested r in
            if \<not> url_ok (og_url out) then (http_error ''invalid upstream request'' 400, None)
            else (relay_broker (answer out), Some out)))"

definition handle_broker ::
  "(outgoing \<Rightarrow> upstream_reply option) \<Rightarrow> (string \<Rightarrow> bool) \<Rightarrow> credential_route list \<Rightarrow> int \<Rightarrow> request \<Rightarrow> proxy \<Rightarrow>
   reply \<times> outgoing option" where
  "handle_broker answer url_ok routes now r p =
     (case str_cut CHR ''/'' (trim_prefix (rq_path r) broker_prefix) of (name, relative, found) \<Rightarrow>
      if \<not> found then (http_error ''404 page not found'' 404, None)
      else case find_route routes name of None \<Rightarrow> (http_error ''404 page not found'' 404, None)
      | Some route \<Rightarrow>
        (case authenticate routes now False r p of
           None \<Rightarrow> (http_error ''worker token invalid or expired'' 401, None)
         | Some (lease, policy) \<Rightarrow>
             if policy \<noteq> None then (denied_by_policy, None)
             else (let requested = ''/'' @ relative in
               if rq_raw_path r \<noteq> [] \<or> contains_any requested request_metas \<or> path_clean requested \<noteq> requested
                 then (http_error ''path not permitted'' 403, None)
               else if \<not> in_scope (rt_paths route) requested \<or> rq_method r \<notin> set (rt_methods route) \<or> is_websocket r
                 then (http_error ''route scope denied'' 403, None)
               else send_with_secret answer url_ok route now requested r)))"

section \<open>What the broker sends\<close>

lemma find_routeD: "find_route routes n = Some r \<Longrightarrow> r \<in> set routes \<and> rt_name r = n"
  by (auto simp: find_route_def find_Some_iff)

lemma copy_headers_values:
  "h_values (fold (copy_header src) ks dst) k =
     (if k \<in> set ks \<and> h_get src k \<noteq> [] then [h_get src k] else h_values dst k)"
proof (induction ks arbitrary: dst)
  case (Cons j ks)
  then show ?case by (auto simp: copy_header_def)
qed simp

lemma broker_request_headers:
  "h_values (og_headers (broker_request route secret requested r)) k =
     (if k = to_lower (rt_header route) then [rt_prefix route @ secret]
      else if k \<in> set passed_headers \<and> h_get (rq_headers r) k \<noteq> [] then [h_get (rq_headers r) k] else [])"
  by (simp add: broker_request_def copy_headers_values) (simp add: h_values_def)

lemma handle_broker_sent:
  assumes "handle_broker answer url_ok routes now r p = (rep, Some out)"
  obtains name relative route lease secret where
    "str_cut CHR ''/'' (trim_prefix (rq_path r) broker_prefix) = (name, relative, True)"
    "find_route routes name = Some route" "authenticate routes now False r p = Some (lease, None)"
    "rq_raw_path r = []" "\<not> contains_any (''/'' @ relative) request_metas" "path_clean (''/'' @ relative) = ''/'' @ relative"
    "in_scope (rt_paths route) (''/'' @ relative)" "rq_method r \<in> set (rt_methods route)"
    "(case rt_secret route of None \<Rightarrow> None | Some f \<Rightarrow> f now) = Some secret" "secret \<noteq> []"
    "\<not> contains_any secret header_breaks" "out = broker_request route secret (''/'' @ relative) r"
proof -
  obtain name relative found where c: "str_cut CHR ''/'' (trim_prefix (rq_path r) broker_prefix) = (name, relative, found)"
    by (metis prod.collapse)
  have f: "found" using assms c by (simp add: handle_broker_def split: if_splits)
  obtain route where route: "find_route routes name = Some route"
    using assms c f by (auto simp: handle_broker_def split: option.splits)
  obtain lease pol where au: "authenticate routes now False r p = Some (lease, pol)"
    using assms c f route by (auto simp: handle_broker_def split: option.splits)
  have pol: "pol = None" using assms c f route au by (simp add: handle_broker_def split: if_splits)
  have g: "rq_raw_path r = []" "\<not> contains_any (''/'' @ relative) request_metas" "path_clean (''/'' @ relative) = ''/'' @ relative"
    "in_scope (rt_paths route) (''/'' @ relative)" "rq_method r \<in> set (rt_methods route)"
    "send_with_secret answer url_ok route now (''/'' @ relative) r = (rep, Some out)"
    using assms c f route au pol by (simp_all add: handle_broker_def Let_def split: if_splits)
  from g(6) obtain secret where "(case rt_secret route of None \<Rightarrow> None | Some f \<Rightarrow> f now) = Some secret" "secret \<noteq> []"
    "\<not> contains_any secret header_breaks" "out = broker_request route secret (''/'' @ relative) r"
    by (auto simp: send_with_secret_def Let_def split: option.splits if_splits)
  with c f route au pol g(1-5) show thesis by (intro that) auto
qed

lemma validated_routes:
  assumes "validate_routes_from pu seen routes = None" and "route \<in> set routes"
  shows "fixed_origin (pu (rt_upstream route)) \<and> to_lower (rt_header route) \<notin> set unsafe_headers \<and>
    list_all path_scope_ok (rt_paths route) \<and> rt_name route \<notin> set seen"
  using assms
proof (induction routes arbitrary: seen)
  case (Cons x routes)
  have x: "validate_route pu seen x = None" "validate_routes_from pu (rt_name x # seen) routes = None"
    using Cons.prems(1) by (auto split: option.splits)
  show ?case
  proof (cases "route = x")
    case True
    then show ?thesis using x(1) by (auto simp: validate_route_def split: if_splits)
  next
    case False
    then have "route \<in> set routes" using Cons.prems(2) by simp
    from Cons.IH [OF x(2) this] show ?thesis by simp
  qed
qed simp

lemma validated_names_distinct:
  "validate_routes_from pu seen routes = None \<Longrightarrow> distinct (map rt_name routes) \<and> set seen \<inter> rt_name ` set routes = {}"
proof (induction routes arbitrary: seen)
  case (Cons x routes)
  have x: "validate_route pu seen x = None" "validate_routes_from pu (rt_name x # seen) routes = None"
    using Cons.prems by (auto split: option.splits)
  have "rt_name x \<notin> set seen" using x(1) by (auto simp: validate_route_def split: if_splits)
  with Cons.IH [OF x(2)] show ?case by auto
qed simp

section \<open>Properties\<close>

definition sample_route :: credential_route where
  "sample_route = \<lparr>rt_name = ''api'', rt_upstream = ''https://h/'', rt_paths = [''/v1/items''], rt_methods = [''GET''],
     rt_header = ''Authorization'', rt_prefix = ''token '', rt_provider = [], rt_secret = Some (\<lambda>_. Some ''s'')\<rparr>"

definition sample_parse :: "string \<Rightarrow> url option" where
  "sample_parse _ = Some \<lparr>u_scheme = ''https'', u_host = ''h'', u_user = False, u_raw_query = [], u_fragment = [],
     u_path = ''/''\<rparr>"

definition sample_get :: "string \<Rightarrow> string \<Rightarrow> request" where
  "sample_get written raw = \<lparr>rq_method = ''GET'', rq_absolute = False, rq_path = written, rq_raw_path = raw,
     rq_raw_query = ''page=2'', rq_query = [(''page'', ''2'')],
     rq_headers = [(''authorization'', [''Bearer '' @ sample_token CHR ''b'']), (''accept'', [''text/plain'']),
       (''x-other'', [''1''])],
     rq_body = NoBody, rq_ended = False\<rparr>"

definition sample_open_proxy :: proxy where
  "sample_open_proxy = snd (issue_token sample_config sample_generation (Some (sample_token CHR ''b'')) 0 ''w2'' 60
     sample_identity None sample_proxy)"

lemma sample_open_run: "proxy_run (initial_proxy (sample_credentials ''v0'' ''t0'')) sample_open_proxy"
  using run_issue [of "Some (sample_token CHR ''b'')" sample_proxy]
  by (simp add: sample_open_proxy_def sample_proxy_def initial_proxy_def)

text \<open>The path of a target that follows its origin, as the upstream splits it: up to a question mark or a number sign.\<close>

definition path_after :: "string \<Rightarrow> string \<Rightarrow> string" where
  "path_after origin target = takeWhile (\<lambda>c. c \<noteq> CHR ''?'' \<and> c \<noteq> CHR ''#'') (drop (length origin) target)"

lemma path_after_whole:
  assumes "CHR ''?'' \<notin> set path" and "CHR ''#'' \<notin> set path"
  shows "path_after origin (origin @ path @ (if q = [] then [] else ''?'' @ q)) = path"
proof -
  have "\<forall>c \<in> set path. c \<noteq> CHR ''?'' \<and> c \<noteq> CHR ''#''" using assms by auto
  then show ?thesis by (simp add: path_after_def takeWhile_append2)
qed



text \<open>
  The decoded path is checked for percent signs and backslashes but not for the two characters that end
  a path when the target is parsed again.  A worker that writes \<open>..%3F\<close> (whose default encoding is what it
  wrote, so \<open>RawPath\<close> is empty) is let through with a target whose path is the parent of its scope.
\<close>

lemma broker_encoded_question_mark:
  "url_path ''/broker/api/v1/items/..%3F'' = Some (''/broker/api/v1/items/..?'', []) \<and>
   map_option og_url (snd (handle_broker (\<lambda>_. None) (\<lambda>_. True) [sample_route] 5
     ((sample_get ''/broker/api/v1/items/..?'' [])\<lparr>rq_raw_query := []\<rparr>) sample_open_proxy)) = Some ''https://h/v1/items/..?'' \<and>
   path_clean ''/v1/items/..'' = ''/v1'' \<and> \<not> in_scope (rt_paths sample_route) ''/v1''"
  by code_simp

end
