(* ===== verification/ModelAuth.thy ===== *)
theory ModelAuth
  imports AdminApi
begin

text \<open>
  Model authorization, \<open>internal/authproxy/models.go\<close>: which requests to the fixed AI routes are let
  through when the proxy or the worker's token restricts the models.  \<open>media\<close> is
  \<open>mime.ParseMediaType\<close>.
\<close>

definition model_body_limit :: nat where
  "model_body_limit = 8388608"

definition model_routes :: "string list" where
  "model_routes = [''/v1/responses'', ''/v1/responses/compact'', ''/v1/chat/completions'', ''/v1/completions'',
     ''/v1/embeddings'', ''/v1/moderations'', ''/chatgpt/codex/responses'', ''/chatgpt/codex/responses/compact'',
     ''/anthropic/v1/messages'', ''/anthropic/v1/messages/count_tokens'']"

definition messages_routes :: "string list" where
  "messages_routes = [''/anthropic/v1/messages'', ''/anthropic/v1/messages/count_tokens'']"

definition model_query_allowed :: "request \<Rightarrow> bool" where
  "model_query_allowed r \<longleftrightarrow> rq_raw_query r = [] \<or> (rq_path r \<in> set messages_routes \<and> rq_raw_query r = ''beta=true'')"

definition model_policy_active :: "proxy_config \<Rightarrow> model_policy \<Rightarrow> bool" where
  "model_policy_active cfg policy \<longleftrightarrow> pc_allowed_models cfg \<noteq> [] \<or> policy \<noteq> None"

definition model_key :: string where
  "model_key = ''model''"

text \<open>The loop over the members of the body: a duplicate key or a case variant of \<open>model\<close> is refused.\<close>

fun scan_members :: "(string \<times> json) list \<Rightarrow> string list \<Rightarrow> string \<Rightarrow> string option" where
  "scan_members [] seen model = Some model"
| "scan_members ((k, j) # ms) seen model =
     (if k \<in> set seen \<or> (equal_fold_ascii k model_key \<and> k \<noteq> model_key) then None
      else if k = model_key then
        (case decode_string j model of None \<Rightarrow> None | Some m \<Rightarrow> scan_members ms (k # seen) m)
      else scan_members ms (k # seen) model)"

datatype model_denial = WebSocketUnsupported | RouteDenied | InvalidBody | BodyLimit | ModelNotAllowed

definition denial_code :: "model_denial \<Rightarrow> string \<times> nat" where
  "denial_code d = (case d of
     WebSocketUnsupported \<Rightarrow> (''model_policy_websocket_unsupported'', 403)
   | RouteDenied \<Rightarrow> (''model_policy_route_denied'', 403)
   | InvalidBody \<Rightarrow> (''model_policy_invalid_body'', 400)
   | BodyLimit \<Rightarrow> (''model_policy_body_limit'', 413)
   | ModelNotAllowed \<Rightarrow> (''model_not_allowed'', 403))"

definition denial_reply :: "model_denial \<Rightarrow> reply" where
  "denial_reply d = (case denial_code d of (code, status) \<Rightarrow>
     \<lparr>rp_status = status, rp_headers = [(''x-cxd-policy-reason'', code)], rp_body = Text code\<rparr>)"

definition body_model :: "body \<Rightarrow> model_denial + string" where
  "body_model b = (case b of
     NoBody \<Rightarrow> Inl InvalidBody
   | Unreadable \<Rightarrow> Inl InvalidBody
   | Body len end vs clean \<Rightarrow>
       if model_body_limit < len then Inl BodyLimit
       else (case vs of
           [JObj ms] \<Rightarrow> if \<not> clean then Inl InvalidBody
             else (case scan_members ms [] [] of None \<Rightarrow> Inl InvalidBody | Some m \<Rightarrow> Inr m)
         | _ \<Rightarrow> Inl InvalidBody))"

definition model_listed :: "proxy_config \<Rightarrow> model_policy \<Rightarrow> string \<Rightarrow> bool" where
  "model_listed cfg policy model \<longleftrightarrow> model \<noteq> [] \<and>
     (pc_allowed_models cfg \<noteq> [] \<longrightarrow> model \<in> set (pc_allowed_models cfg)) \<and>
     (case policy of None \<Rightarrow> True | Some ms \<Rightarrow> model \<in> set ms)"

definition authorize_model ::
  "(string \<Rightarrow> string option) \<Rightarrow> proxy_config \<Rightarrow> model_policy \<Rightarrow> request \<Rightarrow> model_denial option" where
  "authorize_model media cfg policy r =
     (if \<not> model_policy_active cfg policy then None
      else if is_websocket r then Some WebSocketUnsupported
      else if rq_method r \<noteq> ''POST'' \<or> \<not> model_query_allowed r \<or> escaped_path (rq_path r) (rq_raw_path r) \<noteq> rq_path r \<or>
         h_get (rq_headers r) ''content-encoding'' \<noteq> [] then Some RouteDenied
      else if rq_path r \<notin> set model_routes then Some RouteDenied
      else if media (h_get (rq_headers r) ''content-type'') \<noteq> Some ''application/json'' then Some InvalidBody
      else (case body_model (rq_body r) of Inl d \<Rightarrow> Some d
        | Inr model \<Rightarrow> if model_listed cfg policy model then None else Some ModelNotAllowed))"

lemma scan_members_model:
  "scan_members ms seen m0 = Some m \<Longrightarrow>
     (\<forall>k j. (k, j) \<in> set ms \<longrightarrow> equal_fold_ascii k model_key \<longrightarrow> k = model_key) \<and>
     distinct (map fst ms) \<and> set seen \<inter> fst ` set ms = {} \<and>
     (m = m0 \<or> (model_key, JStr m) \<in> set ms)"
proof (induction ms arbitrary: seen m0)
  case (Cons x ms)
  obtain k j where x: "x = (k, j)" by fastforce
  have g: "k \<notin> set seen" "equal_fold_ascii k model_key \<Longrightarrow> k = model_key"
    using Cons.prems x by (auto split: if_splits)
  show ?case
  proof (cases "k = model_key")
    case True
    then obtain m1 where m1: "decode_string j m0 = Some m1" "scan_members ms (k # seen) m1 = Some m"
      using Cons.prems x by (auto split: if_splits option.splits)
    have "m1 = m0 \<or> j = JStr m1" using m1(1) by (auto simp: decode_string_def split: json.splits)
    with Cons.IH [OF m1(2)] g x True show ?thesis by auto
  next
    case False
    then have "scan_members ms (k # seen) m0 = Some m" using Cons.prems x by (auto split: if_splits)
    from Cons.IH [OF this] g x show ?thesis by auto
  qed
qed simp

lemma body_model_Inr:
  assumes "body_model b = Inr m" and "m \<noteq> []"
  obtains len fin ms where "b = Body len fin [JObj ms] True" "len \<le> model_body_limit"
    "(model_key, JStr m) \<in> set ms" "distinct (map fst ms)"
    "\<forall>k j. (k, j) \<in> set ms \<longrightarrow> equal_fold_ascii k model_key \<longrightarrow> k = model_key"
proof -
  obtain len fin ms where b: "b = Body len fin [JObj ms] True" "len \<le> model_body_limit"
    "scan_members ms [] [] = Some m"
    using assms(1) by (auto simp: body_model_def split: body.splits list.splits json.splits option.splits if_splits)
  from scan_members_model [OF b(3)] b assms(2) show thesis by (intro that) auto
qed

section \<open>Properties\<close>

definition sample_post :: "json \<Rightarrow> request" where
  "sample_post j = \<lparr>rq_method = ''POST'', rq_absolute = False, rq_path = ''/v1/responses'', rq_raw_path = [],
     rq_raw_query = [], rq_query = [],
     rq_headers = [(''authorization'', [''Bearer '' @ sample_token CHR ''a'']), (''content-type'', [''application/json'']),
       (''chatgpt-account-id'', [''other'']), (''x-codex-token'', [''t'']), (''connection'', [''close''])],
     rq_body = Body 20 20 [j] True, rq_ended = False\<rparr>"

text \<open>C23: model authorization is exact and unambiguous.  Under an active model policy a request passes only as
  a plain POST to a known route whose body is one JSON object with distinct keys and exactly one
  spelling of \<open>model\<close>, whose value is a listed model of the proxy and of the worker's token; so no reading
  of the body by the upstream can select another model.\<close>

theorem model_policy_exact:
  assumes "authorize_model media cfg policy r = None" and "model_policy_active cfg policy"
  shows "\<not> is_websocket r \<and> rq_method r = ''POST'' \<and> rq_path r \<in> set model_routes \<and>
    (\<exists>len fin ms model. rq_body r = Body len fin [JObj ms] True \<and> len \<le> model_body_limit \<and> distinct (map fst ms) \<and>
       (\<forall>k j. (k, j) \<in> set ms \<longrightarrow> equal_fold_ascii k model_key \<longrightarrow> k = model_key \<and> j = JStr model) \<and>
       (model_key, JStr model) \<in> set ms \<and>
       (pc_allowed_models cfg = [] \<or> model \<in> set (pc_allowed_models cfg)) \<and>
       (case policy of None \<Rightarrow> True | Some allowed \<Rightarrow> model \<in> set allowed))"
proof -
  obtain model where m: "body_model (rq_body r) = Inr model" "model_listed cfg policy model"
    and g: "\<not> is_websocket r" "rq_method r = ''POST''" "rq_path r \<in> set model_routes"
    using assms by (auto simp: authorize_model_def split: if_splits sum.splits)
  have ne: "model \<noteq> []" using m(2) by (simp add: model_listed_def)
  from m(1) ne obtain len fin ms where b: "rq_body r = Body len fin [JObj ms] True" "len \<le> model_body_limit"
    "(model_key, JStr model) \<in> set ms" "distinct (map fst ms)"
    "\<forall>k j. (k, j) \<in> set ms \<longrightarrow> equal_fold_ascii k model_key \<longrightarrow> k = model_key"
    by (rule body_model_Inr)
  have "k = model_key \<and> j = JStr model" if "(k, j) \<in> set ms" "equal_fold_ascii k model_key" for k j
    using b(5) that b(3,4) by (auto dest: eq_key_imp_eq_value)
  moreover have "pc_allowed_models cfg = [] \<or> model \<in> set (pc_allowed_models cfg)"
    "case policy of None \<Rightarrow> True | Some allowed \<Rightarrow> model \<in> set allowed"
    using m(2) by (auto simp: model_listed_def)
  ultimately show ?thesis using b(1-4) g by blast
qed

lemma model_policy_exact_witness:
  "authorize_model Some sample_config (Some [''m'']) (sample_post (JObj [(''stream'', JBool True), (''model'', JStr ''m'')])) = None \<and>
   authorize_model Some sample_config (Some [''m'']) (sample_post (JObj [(''model'', JStr ''m''), (''Model'', JStr ''x'')])) \<noteq> None \<and>
   (\<exists>len fin ms. rq_body (sample_post (JObj [(''stream'', JBool True), (''model'', JStr ''m'')])) = Body len fin [JObj ms] True \<and>
      (model_key, JStr ''m'') \<in> set ms)"
proof -
  let ?r = "sample_post (JObj [(''stream'', JBool True), (''model'', JStr ''m'')])"
  have a: "authorize_model Some sample_config (Some [''m'']) ?r = None"
    and d: "authorize_model Some sample_config (Some [''m'']) (sample_post (JObj [(''model'', JStr ''m''), (''Model'', JStr ''x'')])) =
      Some InvalidBody" by code_simp+
  have "model_policy_active sample_config (Some [''m''])" by (simp add: model_policy_active_def)
  from model_policy_exact [OF a this] a d show ?thesis by auto
qed

end
