(* ===== verification/OAuthRefresh.thy ===== *)
theory OAuthRefresh
  imports ModelAuth
begin

text \<open>
  The two OAuth refreshes of \<open>internal/authproxy\<close>: \<open>handleOAuthTokenRefresh\<close> of \<open>openai.go\<close>, which a
  worker calls with its own token, and \<open>refreshAnthropicOAuthIfNeeded\<close> of \<open>anthropic.go\<close>, which runs
  before an Anthropic request.  The issuer and \<open>persistOAuthState\<close> are arguments; the latter is
  \<open>persist_oauth_state\<close> over a store, or the legacy state file.  A refresh queued behind another one
  sees the tokens twice, before and after it holds the lock, so the two states are arguments.
\<close>

type_synonym 's persister = "string \<Rightarrow> refresh_value \<Rightarrow> proxy \<Rightarrow> 's \<Rightarrow> proxy_error option \<times> proxy \<times> 's"

section \<open>Error codes shown to a worker\<close>

definition refresh_failed :: string where
  "refresh_failed = ''oauth_refresh_failed''"

definition permanent_codes :: "string list" where
  "permanent_codes = [''refresh_token_expired'', ''refresh_token_reused'', ''refresh_token_invalidated'', ''invalid_grant'']"

definition error_fields :: "json \<Rightarrow> (json \<times> string) option" where
  "error_fields j = decode_struct
     [(''error'', \<lambda>v s. Some (v, snd s)), (''code'', \<lambda>v s. map_option (\<lambda>c. (fst s, c)) (decode_string v (snd s)))]
     j (JNull, [])"

definition nested_code :: "json \<Rightarrow> string option" where
  "nested_code j = decode_struct [(''code'', decode_string)] j []"

definition worker_refresh_error_code :: "json option \<Rightarrow> string" where
  "worker_refresh_error_code body = (case (case body of None \<Rightarrow> None | Some j \<Rightarrow> error_fields j) of
     None \<Rightarrow> refresh_failed
   | Some (e, c) \<Rightarrow>
       (let nested = (case nested_code e of Some n \<Rightarrow> if trim_space n \<noteq> [] then n else c | None \<Rightarrow> c);
            code = (case decode_string e [] of Some t \<Rightarrow> if trim_space t \<noteq> [] then t else nested | None \<Rightarrow> nested);
            l = to_lower (trim_space code) in
        if l \<in> set permanent_codes then l else refresh_failed))"

lemma worker_refresh_error_code_fixed:
  "worker_refresh_error_code body \<in> set (refresh_failed # permanent_codes)"
  by (simp add: worker_refresh_error_code_def Let_def split: option.split prod.split)

section \<open>The OpenAI refresh a worker asks for\<close>

definition refresh_token_key :: string where
  "refresh_token_key = ''refresh_token''"

definition openai_token_url :: string where
  "openai_token_url = ''https://auth.openai.com/oauth/token''"

definition bad_token :: reply where
  "bad_token = http_error ''token invalid or expired'' 401"

definition refresh_lookup :: "int \<Rightarrow> string \<Rightarrow> proxy \<Rightarrow> token_record option" where
  "refresh_lookup now token p = (case px_by_value p token of None \<Rightarrow> None
     | Some rec \<Rightarrow> if tr_expires rec < now \<or> id_provider (tr_identity rec) = ''anthropic'' then None else Some rec)"

definition refresh_current :: "int \<Rightarrow> string \<Rightarrow> token_record \<Rightarrow> proxy \<Rightarrow> bool" where
  "refresh_current now token rec p = (case token_at p (tr_container rec) of None \<Rightarrow> False
     | Some cur \<Rightarrow> tr_token cur = token \<and> \<not> tr_expires cur < now)"

text \<open>The worker's JSON object with only \<open>refresh_token\<close> replaced; an empty body is the empty object.\<close>

datatype body_object = BodyFailed | BodyNotJson | BodyNull | Members "(string \<times> json) list"

definition object_of_body :: "body \<Rightarrow> body_object" where
  "object_of_body b = (case b of
     NoBody \<Rightarrow> Members []
   | Unreadable \<Rightarrow> BodyFailed
   | Body len fin vs clean \<Rightarrow>
       if len = 0 then Members []
       else (case vs of [JObj ms] \<Rightarrow> if clean then Members (fold (\<lambda>(k, v). AList.update k v) ms []) else BodyNotJson
              | [JNull] \<Rightarrow> if clean then BodyNull else BodyNotJson
              | _ \<Rightarrow> BodyNotJson))"

definition refresh_request :: "string \<Rightarrow> (string \<times> json) list \<Rightarrow> outgoing" where
  "refresh_request secret ms = \<lparr>og_method = ''POST'', og_url = openai_token_url,
     og_headers = [(''content-type'', [''application/json''])],
     og_body = json_body (JObj (AList.update refresh_token_key (JStr secret) ms)), og_redirects = True\<rparr>"

definition string_member :: "(string \<times> json) list \<Rightarrow> string \<Rightarrow> string" where
  "string_member ms k = (case map_of (rev ms) k of Some (JStr s) \<Rightarrow> s | _ \<Rightarrow> [])"

definition refreshed_oauth :: "(string \<times> json) list \<Rightarrow> openai_oauth \<Rightarrow> openai_oauth" where
  "refreshed_oauth ms c =
     (let c1 = c\<lparr>oa_access := string_member ms ''access_token''\<rparr>;
          c2 = (if string_member ms ''id_token'' \<noteq> [] then c1\<lparr>oa_id_token := string_member ms ''id_token''\<rparr> else c1) in
      if string_member ms refresh_token_key \<noteq> [] then c2\<lparr>oa_refresh := string_member ms refresh_token_key\<rparr> else c2)"

definition no_store :: "(string \<times> string) list" where
  "no_store = [(''cache-control'', ''no-store'')]"

text \<open>From the issuer's answer to the reply, the new credentials and the state after persisting.\<close>

definition refresh_rejected :: "upstream_reply \<Rightarrow> reply" where
  "refresh_rejected u = \<lparr>rp_status = ur_status u, rp_headers = (''content-type'', ''application/json'') # no_store,
     rp_body = JsonReply [(''error'', JStr (worker_refresh_error_code (ur_json u)))]\<rparr>"

definition refresh_accepted :: "token_codec \<Rightarrow> token_record \<Rightarrow> openai_oauth \<Rightarrow> reply" where
  "refresh_accepted cd rec c =
     json_reply no_store [(''access_token'', JStr (tr_token rec)), (''id_token'', JStr (worker_id_token cd c))]"

definition finish_refresh ::
  "token_codec \<Rightarrow> 's persister \<Rightarrow> token_record \<Rightarrow> openai_oauth \<Rightarrow> upstream_reply option \<Rightarrow> proxy \<Rightarrow> 's \<Rightarrow>
   reply \<times> openai_oauth \<times> proxy \<times> 's" where
  "finish_refresh cd pers rec c ans p s = (case ans of
     None \<Rightarrow> (http_error ''calling OAuth endpoint failed'' 502, c, p, s)
   | Some u \<Rightarrow>
       if \<not> ur_readable u then (http_error ''reading OAuth response'' 500, c, p, s)
       else if ur_status u \<noteq> 200 then (refresh_rejected u, c, p, s)
       else (case (case ur_json u of Some (JObj ms) \<Rightarrow> Some ms | Some JNull \<Rightarrow> Some [] | _ \<Rightarrow> None) of
            None \<Rightarrow> (http_error ''parsing OAuth response'' 500, c, p, s)
          | Some ms \<Rightarrow>
              if string_member ms ''access_token'' = [] then (http_error ''OAuth response missing access token'' 502, c, p, s)
              else (let nxt = refreshed_oauth ms c in
                case pers ''openai'' (OpenAIValue nxt) p s of
                  (Some e, p', s') \<Rightarrow> (http_error ''saving OAuth refresh failed'' 502, c, p', s')
                | (None, p', s') \<Rightarrow> (refresh_accepted cd rec nxt, nxt, p', s'))))"

text \<open>
  The handler.  \<open>p0\<close>, \<open>now0\<close>: the state and time of the first look-up; \<open>p\<close>, \<open>now\<close>: those after the refresh
  lock is held.  The result: the reply, the request to the issuer if one was sent, and the new
  credentials, proxy and store.
\<close>

definition refresh_with_body ::
  "token_codec \<Rightarrow> 's persister \<Rightarrow> (outgoing \<Rightarrow> upstream_reply option) \<Rightarrow> token_record \<Rightarrow> openai_oauth \<Rightarrow> request \<Rightarrow>
   held_credentials \<Rightarrow> proxy \<Rightarrow> 's \<Rightarrow> reply \<times> outgoing option \<times> held_credentials \<times> proxy \<times> 's" where
  "refresh_with_body cd pers answer rec c r h p s = (case object_of_body (rq_body r) of
     BodyFailed \<Rightarrow> (http_error ''reading request body'' 400, None, h, p, s)
   | BodyNotJson \<Rightarrow> (http_error ''parsing request body'' 400, None, h, p, s)
   | BodyNull \<Rightarrow> (http_error ''request body must be a JSON object'' 400, None, h, p, s)
   | Members ms \<Rightarrow>
       (let out = refresh_request (oa_refresh c) ms in
        case finish_refresh cd pers rec c (answer out) p s of
          (rep, nxt, p', s') \<Rightarrow> (rep, Some out, h\<lparr>hc_oauth := Some nxt\<rparr>, p', s')))"

definition handle_oauth_refresh ::
  "token_codec \<Rightarrow> 's persister \<Rightarrow> (outgoing \<Rightarrow> upstream_reply option) \<Rightarrow> int \<Rightarrow> proxy \<Rightarrow> int \<Rightarrow> request \<Rightarrow>
   held_credentials \<Rightarrow> proxy \<Rightarrow> 's \<Rightarrow> reply \<times> outgoing option \<times> held_credentials \<times> proxy \<times> 's" where
  "handle_oauth_refresh cd pers answer now0 p0 now r h p s =
     (if rq_method r \<noteq> ''POST'' then (bad_method, None, h, p, s)
      else if query_get r ''cdx'' = [] then (http_error ''missing cdx param'' 401, None, h, p, s)
      else (case refresh_lookup now0 (query_get r ''cdx'') p0 of None \<Rightarrow> (bad_token, None, h, p, s)
       | Some rec \<Rightarrow>
          if \<not> refresh_current now (query_get r ''cdx'') rec p then (bad_token, None, h, p, s)
          else (case hc_oauth h of None \<Rightarrow> (http_error ''not in OAuth mode'' 400, None, h, p, s)
           | Some c \<Rightarrow> refresh_with_body cd pers answer rec c r h p s)))"

section \<open>The Anthropic refresh before a request\<close>

datatype refresh_error =
    ExpiredNoRefresh | RefreshRequest | RefreshStatus nat | ResponseTooLarge | InvalidRefresh | SaveRefreshFailed proxy_error

definition anthropic_token_url :: string where
  "anthropic_token_url = ''https://platform.claude.com/v1/oauth/token''"

definition anthropic_client_id :: string where
  "anthropic_client_id = ''9d1c250a-e61b-44d9-88ed-5944d1962f5e''"

definition unix_milli :: "int \<Rightarrow> int" where
  "unix_milli now = now div 1000000"

definition anthropic_refresh_request :: "string \<Rightarrow> outgoing" where
  "anthropic_refresh_request secret = \<lparr>og_method = ''POST'', og_url = anthropic_token_url,
     og_headers = [(''content-type'', [''application/json''])],
     og_body = json_body (JObj [(''client_id'', JStr anthropic_client_id), (''grant_type'', JStr ''refresh_token''),
       (refresh_token_key, JStr secret)]), og_redirects = True\<rparr>"

record token_response =
  ts_access :: string
  ts_refresh :: string
  ts_expires_in :: int

definition decode_token_response :: "token_response decoder" where
  "decode_token_response = decode_struct
     [(''access_token'', \<lambda>j v. map_option (\<lambda>s. v\<lparr>ts_access := s\<rparr>) (decode_string j (ts_access v))),
      (refresh_token_key, \<lambda>j v. map_option (\<lambda>s. v\<lparr>ts_refresh := s\<rparr>) (decode_string j (ts_refresh v))),
      (''expires_in'', \<lambda>j v. map_option (\<lambda>n. v\<lparr>ts_expires_in := n\<rparr>) (decode_int j (ts_expires_in v)))]"

definition accept_refresh :: "upstream_reply option \<Rightarrow> refresh_error + token_response" where
  "accept_refresh ans = (case ans of None \<Rightarrow> Inl RefreshRequest | Some u \<Rightarrow>
     if \<not> ur_readable u \<or> ur_status u \<noteq> 200 then Inl (RefreshStatus (ur_status u))
     else if 1048576 < ur_length u then Inl ResponseTooLarge
     else (case (case ur_json u of None \<Rightarrow> None
              | Some j \<Rightarrow> decode_token_response j \<lparr>ts_access = [], ts_refresh = [], ts_expires_in = 0\<rparr>) of
        None \<Rightarrow> Inl InvalidRefresh
      | Some t \<Rightarrow> if ts_access t = [] \<or> ts_expires_in t \<le> 0 \<or> 31536000 < ts_expires_in t then Inl InvalidRefresh else Inr t))"

definition needs_refresh :: "int \<Rightarrow> anthropic_oauth \<Rightarrow> bool" where
  "needs_refresh now a \<longleftrightarrow> an_expires a \<noteq> 0 \<and> \<not> unix_milli now < wrap64 (an_expires a - 60000)"

definition refreshed_anthropic :: "int \<Rightarrow> token_response \<Rightarrow> anthropic_oauth \<Rightarrow> anthropic_oauth" where
  "refreshed_anthropic now t a =
     (let b = a\<lparr>an_access := ts_access t, an_expires := unix_milli now + ts_expires_in t * 1000\<rparr> in
      if ts_refresh t \<noteq> [] then b\<lparr>an_refresh := ts_refresh t\<rparr> else b)"

definition refresh_anthropic ::
  "'s persister \<Rightarrow> (outgoing \<Rightarrow> upstream_reply option) \<Rightarrow> int \<Rightarrow> int \<Rightarrow> held_credentials \<Rightarrow> proxy \<Rightarrow> 's \<Rightarrow>
   refresh_error option \<times> outgoing option \<times> held_credentials \<times> proxy \<times> 's" where
  "refresh_anthropic pers answer now later h p s = (case hc_anthropic h of None \<Rightarrow> (None, None, h, p, s)
   | Some a \<Rightarrow>
       if \<not> needs_refresh now a then (None, None, h, p, s)
       else if an_refresh a = [] then
         (if an_expires a \<le> unix_milli now then Some ExpiredNoRefresh else None, None, h, p, s)
       else (let out = anthropic_refresh_request (an_refresh a) in
         case accept_refresh (answer out) of
           Inl e \<Rightarrow> (Some e, Some out, h, p, s)
         | Inr t \<Rightarrow>
             (let nxt = refreshed_anthropic later t a in
              case pers ''anthropic'' (AnthropicValue nxt) p s of
                (Some e, p', s') \<Rightarrow> (Some (SaveRefreshFailed e), Some out, h, p', s')
              | (None, p', s') \<Rightarrow> (None, Some out, h\<lparr>hc_anthropic := Some nxt\<rparr>, p', s'))))"

section \<open>What a refresh may change\<close>

lemma finish_refresh_cases:
  assumes "finish_refresh cd pers rec c ans p s = (rep, nxt, p', s')"
  obtains (kept) "nxt = c" "p' = p" "s' = s" "rp_status rep \<noteq> 200"
  | (unsaved) e v where "nxt = c" "pers ''openai'' (OpenAIValue v) p s = (Some e, p', s')" "rp_status rep = 502"
  | (saved) u ms where "ans = Some u" "ur_status u = 200" "nxt = refreshed_oauth ms c"
      "string_member ms ''access_token'' \<noteq> []" "pers ''openai'' (OpenAIValue nxt) p s = (None, p', s')"
      "rep = refresh_accepted cd rec nxt"
proof (cases ans)
  case None
  then show ?thesis using assms by (intro kept) (auto simp: finish_refresh_def http_error_def)
next
  case (Some u)
  note f = assms [unfolded finish_refresh_def Some option.case]
  show ?thesis
  proof (cases "\<not> ur_readable u \<or> ur_status u \<noteq> 200")
    case True
    with f show ?thesis
      by (intro kept) (auto simp: refresh_rejected_def http_error_def split: if_splits)
  next
    case False
    let ?ms = "case ur_json u of Some (JObj ms) \<Rightarrow> Some ms | Some JNull \<Rightarrow> Some [] | _ \<Rightarrow> None"
    show ?thesis
    proof (cases ?ms)
      case None
      with f False show ?thesis by (intro kept) (auto simp: http_error_def)
    next
      case ms: (Some ms)
      show ?thesis
      proof (cases "string_member ms ''access_token'' = []")
        case True
        with f False ms show ?thesis by (intro kept) (auto simp: http_error_def)
      next
        case has: False
        obtain e q t where pr: "pers ''openai'' (OpenAIValue (refreshed_oauth ms c)) p s = (e, q, t)"
          by (metis prod.collapse)
        show ?thesis
        proof (cases e)
          case None
          with f False ms has pr \<open>ans = Some u\<close> show ?thesis by (intro saved [of u ms]) (auto simp: Let_def)
        next
          case (Some x)
          with f False ms has pr show ?thesis by (intro unsaved) (auto simp: http_error_def Let_def)
        qed
      qed
    qed
  qed
qed

text \<open>The dummy ID token carries neither the access nor the refresh token.\<close>

lemma worker_id_token_secret_free: "worker_id_token cd (c\<lparr>oa_access := a, oa_refresh := t\<rparr>) = worker_id_token cd c"
  by (simp add: worker_id_token_def token_claims_def Let_def)


definition sample_issuer :: "outgoing \<Rightarrow> upstream_reply option" where
  "sample_issuer _ = Some \<lparr>ur_status = 200, ur_headers = [], ur_body = [], ur_length = 10, ur_readable = True,
     ur_json = Some (JObj [(''access_token'', JStr ''a9''), (''refresh_token'', JStr ''r9'')])\<rparr>"

definition sample_held :: held_credentials where
  "sample_held = \<lparr>hc_api_key = [], hc_oauth = Some (sample_oauth ''t0''), hc_anthropic_key = ''k'', hc_anthropic = None\<rparr>"

definition sample_refresh_request :: request where
  "sample_refresh_request = (sample_admin_request [])\<lparr>rq_path := ''/oauth/token'',
     rq_query := [(''cdx'', sample_token CHR ''a'')], rq_body := NoBody\<rparr>"


end
