(* ===== verification/ReverseProxy.thy ===== *)
theory ReverseProxy
  imports OAuthRefresh Broker
begin

text \<open>
  The reverse routes of \<open>internal/authproxy\<close>: \<open>reverseProxy\<close> of \<open>reverse.go\<close>, the upgrade request of
  \<open>handleWebSocketProxy\<close> in \<open>websocket.go\<close>, the credential injectors of \<open>openai.go\<close> and
  \<open>anthropic.go\<close>, and the three handlers that call them.  The environment holds what the code asks of
  the network and the clock; the result lists every request sent, in order.
\<close>

section \<open>Injecting the host's credentials\<close>

definition bearer :: "string \<Rightarrow> string" where
  "bearer t = ''Bearer '' @ t"

definition account_header :: string where
  "account_header = ''chatgpt-account-id''"

definition inject_credentials :: "held_credentials \<Rightarrow> headers \<Rightarrow> headers" where
  "inject_credentials h hs = (case hc_oauth h of
     Some c \<Rightarrow>
       (let a = h_set ''authorization'' (bearer (oa_access c)) hs in
        if oa_account c \<noteq> [] then h_set account_header (oa_account c) a else a)
   | None \<Rightarrow> if hc_api_key h \<noteq> [] then h_set ''authorization'' (bearer (hc_api_key h)) hs else hs)"

definition oauth_beta :: string where
  "oauth_beta = ''oauth-2025-04-20''"

definition beta_header :: string where
  "beta_header = ''anthropic-beta''"

definition merge_beta_header :: "headers \<Rightarrow> headers" where
  "merge_beta_header hs =
     (if h_get hs beta_header = [] then h_set beta_header oauth_beta hs
      else if list_ex (\<lambda>part. equal_fold_ascii (trim_space part) oauth_beta) (split_on CHR '','' (h_get hs beta_header)) then hs
      else h_set beta_header (h_get hs beta_header @ '','' @ oauth_beta) hs)"

definition inject_anthropic :: "held_credentials \<Rightarrow> headers \<Rightarrow> headers" where
  "inject_anthropic h hs0 =
     (let hs = (if h_get hs0 ''anthropic-version'' = [] then h_set ''anthropic-version'' ''2023-06-01'' hs0 else hs0) in
      case hc_anthropic h of
        Some a \<Rightarrow> merge_beta_header (h_set ''authorization'' (bearer (an_access a)) (h_del ''x-api-key'' hs))
      | None \<Rightarrow> if hc_anthropic_key h \<noteq> [] then h_set ''x-api-key'' (hc_anthropic_key h) (h_del ''authorization'' hs) else hs)"

section \<open>The requests sent\<close>

definition hop_by_hop :: "string list" where
  "hop_by_hop = [''connection'', ''keep-alive'', ''proxy-authenticate'', ''proxy-authorization'', ''te'', ''trailers'',
     ''transfer-encoding'', ''upgrade'']"

definition worker_credentials :: "string list" where
  "worker_credentials = [''x-codex-token'', ''authorization'', ''x-api-key'']"

definition forwarded_headers :: "headers \<Rightarrow> headers" where
  "forwarded_headers h = filter (\<lambda>(k, vs). k \<notin> set hop_by_hop \<and> k \<notin> set worker_credentials) h"

definition target_url :: "string \<Rightarrow> string \<Rightarrow> request \<Rightarrow> string" where
  "target_url strip base r = base @ trim_prefix (escaped_path (rq_path r) (rq_raw_path r)) strip @
     (if rq_raw_query r = [] then [] else ''?'' @ rq_raw_query r)"

definition http_forward :: "(headers \<Rightarrow> headers) \<Rightarrow> bool \<Rightarrow> string \<Rightarrow> request \<Rightarrow> outgoing" where
  "http_forward inject restricted target r =
     \<lparr>og_method = rq_method r, og_url = target, og_headers = inject (forwarded_headers (rq_headers r)),
      og_body = rq_body r, og_redirects = \<not> restricted\<rparr>"

text \<open>The upgrade request of a WebSocket keeps the hop-by-hop headers.\<close>

definition websocket_forward :: "(headers \<Rightarrow> headers) \<Rightarrow> string \<Rightarrow> request \<Rightarrow> outgoing" where
  "websocket_forward inject target r =
     \<lparr>og_method = rq_method r, og_url = target,
      og_headers = inject (h_del account_header (h_del ''x-codex-token'' (h_del ''x-api-key'' (h_del ''authorization'' (rq_headers r))))),
      og_body = NoBody, og_redirects = False\<rparr>"

definition relay :: "upstream_reply \<Rightarrow> reply" where
  "relay u = \<lparr>rp_status = ur_status u, rp_headers = concat (map (\<lambda>(k, vs). map (\<lambda>v. (k, v)) vs) (ur_headers u)),
     rp_body = Relayed (ur_body u)\<rparr>"

section \<open>The reverse proxy\<close>

record environment =
  ev_answer :: "outgoing \<Rightarrow> upstream_reply option"
  ev_url_ok :: "string \<Rightarrow> bool"
  ev_media :: "string \<Rightarrow> string option"
  ev_now :: int
  ev_later :: int
  ev_ended :: bool \<comment> \<open>the worker's lease or request ended before the injection\<close>

definition anthropic_strip :: string where
  "anthropic_strip = ''/anthropic''"

definition forward_upstream ::
  "environment \<Rightarrow> proxy_config \<Rightarrow> model_policy \<Rightarrow> string \<Rightarrow> string \<Rightarrow> (headers \<Rightarrow> headers) \<Rightarrow> request \<Rightarrow>
   reply \<times> outgoing option" where
  "forward_upstream ev cfg policy strip base inject r =
     (let target = target_url strip base r in
      if \<not> ev_url_ok ev target then
        (http_error (if is_websocket r then ''invalid target URL'' else ''creating upstream request'') 500, None)
      else if is_websocket r then
        (let out = websocket_forward inject target r in
         case ev_answer ev out of
           None \<Rightarrow> (http_error ''connecting to upstream WebSocket'' 502, Some out)
         | Some u \<Rightarrow> (relay u, Some out))
      else if ev_ended ev then (http_error ''worker request canceled or expired'' 401, None)
      else
        (let out = http_forward inject (model_policy_active cfg policy) target r in
         case ev_answer ev out of
           None \<Rightarrow> (http_error ''upstream error'' 502, Some out)
         | Some u \<Rightarrow> (relay u, Some out)))"

text \<open>The state a request works on: the credentials held in memory, the tokens and the store.\<close>

type_synonym 's server_state = "held_credentials \<times> proxy \<times> 's"

definition reverse_proxy ::
  "environment \<Rightarrow> 's persister \<Rightarrow> credential_route list \<Rightarrow> proxy_config \<Rightarrow> string \<Rightarrow> string \<Rightarrow>
   (held_credentials \<Rightarrow> headers \<Rightarrow> headers) \<Rightarrow> request \<Rightarrow> 's server_state \<Rightarrow>
   reply \<times> outgoing list \<times> outgoing option \<times> 's server_state" where
  "reverse_proxy ev pers routes cfg strip base inject r st = (case st of (h, p, s) \<Rightarrow>
     (case authenticate routes (ev_now ev) (strip = anthropic_strip) r p of
        None \<Rightarrow> (http_error ''worker token invalid or expired'' 401, [], None, st)
      | Some (lease, policy) \<Rightarrow>
         (case authorize_model (ev_media ev) cfg policy r of
            Some d \<Rightarrow> (denial_reply d, [], None, st)
          | None \<Rightarrow>
              (case (if strip = anthropic_strip then refresh_anthropic pers (ev_answer ev) (ev_now ev) (ev_later ev) h p s
                     else (None, None, h, p, s)) of
                 (Some e, out, h', p', s') \<Rightarrow>
                   (http_error ''Anthropic credential refresh failed'' 502, (case out of None \<Rightarrow> [] | Some o1 \<Rightarrow> [o1]), None, h', p', s')
               | (None, out, h', p', s') \<Rightarrow>
                   (case forward_upstream ev cfg policy strip base (inject h') r of
                      (rep, fwd) \<Rightarrow> (rep, (case out of None \<Rightarrow> [] | Some o1 \<Rightarrow> [o1]), fwd, h', p', s'))))))"

definition chatgpt_url :: string where
  "chatgpt_url = ''https://chatgpt.com/backend-api''"

definition api_upstream_url :: string where
  "api_upstream_url = ''https://api.openai.com/v1''"

definition anthropic_upstream_url :: string where
  "anthropic_upstream_url = ''https://api.anthropic.com''"

definition handle_api_proxy ::
  "environment \<Rightarrow> 's persister \<Rightarrow> credential_route list \<Rightarrow> proxy_config \<Rightarrow> request \<Rightarrow> 's server_state \<Rightarrow>
   reply \<times> outgoing list \<times> outgoing option \<times> 's server_state" where
  "handle_api_proxy ev pers routes cfg r st =
     reverse_proxy ev pers routes cfg ''/v1''
       (if hc_oauth (fst st) \<noteq> None then chatgpt_url @ ''/codex'' else api_upstream_url) inject_credentials r st"

definition handle_chatgpt_proxy ::
  "environment \<Rightarrow> 's persister \<Rightarrow> credential_route list \<Rightarrow> proxy_config \<Rightarrow> request \<Rightarrow> 's server_state \<Rightarrow>
   reply \<times> outgoing list \<times> outgoing option \<times> 's server_state" where
  "handle_chatgpt_proxy ev pers routes cfg r st = reverse_proxy ev pers routes cfg ''/chatgpt'' chatgpt_url inject_credentials r st"

definition handle_anthropic_proxy ::
  "environment \<Rightarrow> 's persister \<Rightarrow> credential_route list \<Rightarrow> proxy_config \<Rightarrow> request \<Rightarrow> 's server_state \<Rightarrow>
   reply \<times> outgoing list \<times> outgoing option \<times> 's server_state" where
  "handle_anthropic_proxy ev pers routes cfg r st =
     reverse_proxy ev pers routes cfg anthropic_strip anthropic_upstream_url inject_anthropic r st"

section \<open>Lemmas\<close>

lemma forwarded_values:
  "h_values (forwarded_headers h) k = (if k \<in> set hop_by_hop \<or> k \<in> set worker_credentials then [] else h_values h k)"
  unfolding forwarded_headers_def by (subst h_values_filter) auto

lemma key_distinct:
  "account_header \<noteq> ''authorization''" "account_header \<noteq> ''x-api-key''" "account_header \<noteq> ''x-codex-token''"
  "beta_header \<noteq> ''authorization''" "beta_header \<noteq> ''x-api-key''" "beta_header \<noteq> ''x-codex-token''"
  by (simp_all add: account_header_def beta_header_def)

lemma merge_beta_values: "k \<noteq> beta_header \<Longrightarrow> h_values (merge_beta_header hs) k = h_values hs k"
  by (simp add: merge_beta_header_def)

lemma inject_credentials_at:
  "k \<noteq> account_header \<Longrightarrow> h_values (inject_credentials h hs) k =
     (if k = ''authorization'' then
        (case hc_oauth h of Some c \<Rightarrow> [bearer (oa_access c)]
         | None \<Rightarrow> if hc_api_key h \<noteq> [] then [bearer (hc_api_key h)] else h_values hs k)
      else h_values hs k)"
  by (simp add: inject_credentials_def Let_def split: option.split)

lemma inject_anthropic_at:
  "k \<noteq> beta_header \<Longrightarrow> k \<noteq> ''anthropic-version'' \<Longrightarrow> h_values (inject_anthropic h hs) k =
     (case hc_anthropic h of
        Some a \<Rightarrow> if k = ''authorization'' then [bearer (an_access a)] else if k = ''x-api-key'' then [] else h_values hs k
      | None \<Rightarrow> if hc_anthropic_key h = [] then h_values hs k
          else if k = ''x-api-key'' then [hc_anthropic_key h] else if k = ''authorization'' then [] else h_values hs k)"
  by (simp add: inject_anthropic_def Let_def merge_beta_values split: option.split)

lemma inject_credentials_account:
  "h_values (inject_credentials h hs) account_header =
     (case hc_oauth h of Some c \<Rightarrow> if oa_account c \<noteq> [] then [oa_account c] else h_values hs account_header
      | None \<Rightarrow> h_values hs account_header)"
  using key_distinct by (simp add: inject_credentials_def Let_def split: option.split)

lemma forward_upstream_sent:
  assumes "forward_upstream ev cfg policy strip base inject r = (rep, Some out)"
  shows "og_url out = target_url strip base r \<and> og_method out = rq_method r \<and>
    (if is_websocket r then out = websocket_forward inject (target_url strip base r) r
     else \<not> ev_ended ev \<and> out = http_forward inject (model_policy_active cfg policy) (target_url strip base r) r)"
  using assms
  by (auto simp: forward_upstream_def Let_def http_forward_def websocket_forward_def split: if_splits option.splits)

text \<open>Before the injection no credential header of the worker is left, and its account header only over HTTP.\<close>

lemma forward_upstream_base:
  assumes "forward_upstream ev cfg policy strip base inject r = (rep, Some out)"
  shows "\<exists>hs. og_headers out = inject hs \<and> (\<forall>k \<in> set worker_credentials. h_values hs k = []) \<and>
    h_values hs account_header = (if is_websocket r then [] else h_values (rq_headers r) account_header)"
proof (cases "is_websocket r")
  case True
  with forward_upstream_sent [OF assms] have "og_headers out =
    inject (h_del account_header (h_del ''x-codex-token'' (h_del ''x-api-key'' (h_del ''authorization'' (rq_headers r)))))"
    by (simp add: websocket_forward_def)
  with True show ?thesis using key_distinct by (auto simp: worker_credentials_def)
next
  case False
  with forward_upstream_sent [OF assms] have "og_headers out = inject (forwarded_headers (rq_headers r))"
    by (simp add: http_forward_def)
  moreover have "account_header \<notin> set hop_by_hop \<union> set worker_credentials" by code_simp
  ultimately show ?thesis using False by (auto simp: forwarded_values)
qed

lemma refresh_anthropic_sent:
  assumes "refresh_anthropic pers answer now later h p s = (e, out, h', p', s')"
  shows "hc_oauth h' = hc_oauth h \<and> hc_api_key h' = hc_api_key h \<and> hc_anthropic_key h' = hc_anthropic_key h \<and>
    (\<forall>o1. out = Some o1 \<longrightarrow> (\<exists>a. hc_anthropic h = Some a \<and> needs_refresh now a \<and> an_refresh a \<noteq> [] \<and> o1 = anthropic_refresh_request (an_refresh a)))"
  using assms by (auto simp: refresh_anthropic_def Let_def split: option.splits if_splits sum.splits prod.splits)

lemma injected_openai:
  assumes "\<forall>k \<in> set worker_credentials. h_values hs k = []"
  shows "h_values (inject_credentials h hs) ''x-codex-token'' = []" "h_values (inject_credentials h hs) ''x-api-key'' = []"
    "h_values (inject_credentials h hs) ''authorization'' = (case hc_oauth h of Some c \<Rightarrow> [''Bearer '' @ oa_access c]
       | None \<Rightarrow> if hc_api_key h \<noteq> [] then [''Bearer '' @ hc_api_key h] else [])"
proof -
  have e: "h_values hs ''x-codex-token'' = []" "h_values hs ''x-api-key'' = []" "h_values hs ''authorization'' = []"
    using assms by (simp_all add: worker_credentials_def)
  show "h_values (inject_credentials h hs) ''x-codex-token'' = []" "h_values (inject_credentials h hs) ''x-api-key'' = []"
    "h_values (inject_credentials h hs) ''authorization'' = (case hc_oauth h of Some c \<Rightarrow> [''Bearer '' @ oa_access c]
       | None \<Rightarrow> if hc_api_key h \<noteq> [] then [''Bearer '' @ hc_api_key h] else [])"
    by (simp_all add: inject_credentials_at account_header_def e bearer_def split: option.split)
qed

lemma injected_anthropic:
  assumes "\<forall>k \<in> set worker_credentials. h_values hs k = []"
  shows "h_values (inject_anthropic h hs) ''x-codex-token'' = []"
    "h_values (inject_anthropic h hs) ''authorization'' = (case hc_anthropic h of Some a \<Rightarrow> [''Bearer '' @ an_access a] | None \<Rightarrow> [])"
    "h_values (inject_anthropic h hs) ''x-api-key'' =
       (if hc_anthropic h = None \<and> hc_anthropic_key h \<noteq> [] then [hc_anthropic_key h] else [])"
    "h_values (inject_anthropic h hs) account_header = h_values hs account_header"
proof -
  have e: "h_values hs ''x-codex-token'' = []" "h_values hs ''x-api-key'' = []" "h_values hs ''authorization'' = []"
    using assms by (simp_all add: worker_credentials_def)
  show "h_values (inject_anthropic h hs) ''x-codex-token'' = []"
    "h_values (inject_anthropic h hs) ''authorization'' = (case hc_anthropic h of Some a \<Rightarrow> [''Bearer '' @ an_access a] | None \<Rightarrow> [])"
    "h_values (inject_anthropic h hs) ''x-api-key'' =
       (if hc_anthropic h = None \<and> hc_anthropic_key h \<noteq> [] then [hc_anthropic_key h] else [])"
    "h_values (inject_anthropic h hs) account_header = h_values hs account_header"
    by (simp_all add: inject_anthropic_at account_header_def beta_header_def e bearer_def split: option.split)
qed

text \<open>What a reverse route does when it sends anything at all.\<close>

lemma reverse_proxy_cases:
  assumes "reverse_proxy ev pers routes cfg strip base inject r (h, p, s) = (rep, outs, fwd, h', p', s')"
  obtains (silent) "outs = []" "fwd = None" "h' = h"
  | (sent) lease policy e out where "authenticate routes (ev_now ev) (strip = anthropic_strip) r p = Some (lease, policy)"
    "authorize_model (ev_media ev) cfg policy r = None"
    "(if strip = anthropic_strip then refresh_anthropic pers (ev_answer ev) (ev_now ev) (ev_later ev) h p s
      else (None, None, h, p, s)) = (e, out, h', p', s')"
    "outs = (case out of None \<Rightarrow> [] | Some o1 \<Rightarrow> [o1])"
    "fwd \<noteq> None \<longrightarrow> forward_upstream ev cfg policy strip base (inject h') r = (rep, fwd)"
  using assms by (auto simp: reverse_proxy_def split: option.splits prod.splits)

text \<open>
  Over HTTP a worker's own account header reaches the upstream when the host's login has no account id;
  over a WebSocket it does not.
\<close>

lemma account_header_passes:
  assumes "hc_oauth h = Some c" and "oa_account c = []"
  shows "h_values (og_headers (http_forward (inject_credentials h) b t r)) account_header = h_values (rq_headers r) account_header"
    and "h_values (og_headers (websocket_forward (inject_credentials h) t r)) account_header = []"
proof -
  have "account_header \<notin> set hop_by_hop \<union> set worker_credentials" "account_header \<noteq> ''authorization''" by code_simp+
  then show "h_values (og_headers (http_forward (inject_credentials h) b t r)) account_header = h_values (rq_headers r) account_header"
    "h_values (og_headers (websocket_forward (inject_credentials h) t r)) account_header = []"
    using assms by (simp_all add: http_forward_def websocket_forward_def inject_credentials_def Let_def forwarded_values)
qed

section \<open>Properties\<close>


definition sample_environment :: environment where
  "sample_environment = \<lparr>ev_answer = (\<lambda>_. None), ev_url_ok = (\<lambda>_. True), ev_media = Some, ev_now = 5, ev_later = 5,
     ev_ended = False\<rparr>"


end
