(* ===== verification/AuthSources.thy ===== *)
theory AuthSources
  imports HttpModel CredentialStore AdminApi
begin

text \<open>
  Where the auth proxy finds the host's credentials, \<open>internal/authproxy/auth.go\<close>: environment
  variables, the files under the home directory and the order between them; saving of API keys;
  and the restored OAuth state of \<open>oauth_state.go\<close>.  A file is absent, unreadable as JSON, or its JSON
  value.
\<close>

section \<open>The host\<close>

datatype host_file = NoFile | NotJson | JsonFile json

record host =
  ho_env :: "string \<Rightarrow> string" \<comment> \<open>empty when unset\<close>
  ho_home :: bool \<comment> \<open>the home directory is known\<close>
  ho_files :: "string \<Rightarrow> host_file" \<comment> \<open>below the home directory\<close>

datatype auth_error =
    NoHome | ReadingAuth | ParsingAuth | NoAccessToken | ReadingClaude | ParsingClaude | NoClaudeToken
  | CannotSave | InsecureState | BadState

definition codex_auth_file :: string where
  "codex_auth_file = ''.codex/auth.json''"

definition claude_file :: string where
  "claude_file = ''.claude/.credentials.json''"

definition api_key_file :: string where
  "api_key_file = ''.config/codex-dock/apikey''"

definition anthropic_key_file :: string where
  "anthropic_key_file = ''.config/codex-dock/anthropic-apikey''"

definition host_json :: "host \<Rightarrow> string \<Rightarrow> json option" where
  "host_json ho path = (if ho_home ho then (case ho_files ho path of JsonFile j \<Rightarrow> Some j | _ \<Rightarrow> None) else None)"

section \<open>The Codex login\<close>

record codex_tokens =
  ct_id :: string
  ct_access :: string
  ct_refresh :: string
  ct_account :: string

record codex_auth =
  ca_mode :: string
  ca_last_refresh :: string
  ca_tokens :: "codex_tokens option"
  ca_access :: string
  ca_refresh :: string
  ca_expires :: int
  ca_token_type :: string

definition no_codex_tokens :: codex_tokens where
  "no_codex_tokens = \<lparr>ct_id = [], ct_access = [], ct_refresh = [], ct_account = []\<rparr>"

definition no_codex_auth :: codex_auth where
  "no_codex_auth = \<lparr>ca_mode = [], ca_last_refresh = [], ca_tokens = None, ca_access = [], ca_refresh = [], ca_expires = 0,
     ca_token_type = []\<rparr>"

definition decode_codex_tokens :: "codex_tokens decoder" where
  "decode_codex_tokens = decode_struct
     [(''id_token'', \<lambda>j v. map_option (\<lambda>s. v\<lparr>ct_id := s\<rparr>) (decode_string j (ct_id v))),
      (''access_token'', \<lambda>j v. map_option (\<lambda>s. v\<lparr>ct_access := s\<rparr>) (decode_string j (ct_access v))),
      (''refresh_token'', \<lambda>j v. map_option (\<lambda>s. v\<lparr>ct_refresh := s\<rparr>) (decode_string j (ct_refresh v))),
      (''account_id'', \<lambda>j v. map_option (\<lambda>s. v\<lparr>ct_account := s\<rparr>) (decode_string j (ct_account v)))]"

definition decode_pointer :: "'a decoder \<Rightarrow> 'a \<Rightarrow> 'a option decoder" where
  "decode_pointer d zero j cur = (if j = JNull then Some None
     else map_option Some (d j (case cur of None \<Rightarrow> zero | Some v \<Rightarrow> v)))"

definition decode_codex_auth :: "codex_auth decoder" where
  "decode_codex_auth = decode_struct
     [(''auth_mode'', \<lambda>j v. map_option (\<lambda>s. v\<lparr>ca_mode := s\<rparr>) (decode_string j (ca_mode v))),
      (''last_refresh'', \<lambda>j v. map_option (\<lambda>s. v\<lparr>ca_last_refresh := s\<rparr>) (decode_string j (ca_last_refresh v))),
      (''tokens'', \<lambda>j v. map_option (\<lambda>t. v\<lparr>ca_tokens := t\<rparr>)
         (decode_pointer decode_codex_tokens no_codex_tokens j (ca_tokens v))),
      (''access_token'', \<lambda>j v. map_option (\<lambda>s. v\<lparr>ca_access := s\<rparr>) (decode_string j (ca_access v))),
      (''refresh_token'', \<lambda>j v. map_option (\<lambda>s. v\<lparr>ca_refresh := s\<rparr>) (decode_string j (ca_refresh v))),
      (''expires_at'', \<lambda>j v. map_option (\<lambda>n. v\<lparr>ca_expires := n\<rparr>) (decode_int j (ca_expires v))),
      (''token_type'', \<lambda>j v. map_option (\<lambda>s. v\<lparr>ca_token_type := s\<rparr>) (decode_string j (ca_token_type v)))]"

definition load_oauth_credentials :: "host \<Rightarrow> auth_error + openai_oauth" where
  "load_oauth_credentials ho =
     (if \<not> ho_home ho then Inl NoHome
      else (case ho_files ho codex_auth_file of
          NoFile \<Rightarrow> Inl ReadingAuth
        | NotJson \<Rightarrow> Inl ParsingAuth
        | JsonFile j \<Rightarrow> (case decode_codex_auth j no_codex_auth of
            None \<Rightarrow> Inl ParsingAuth
          | Some f \<Rightarrow>
              (case ca_tokens f of
                 Some t \<Rightarrow>
                   if ct_access t \<noteq> [] then
                     Inr \<lparr>oa_id_token = ct_id t, oa_access = ct_access t, oa_refresh = ct_refresh t, oa_account = ct_account t,
                       oa_last_refresh = ca_last_refresh f, oa_expires = 0, oa_token_type = ''Bearer''\<rparr>
                   else if ca_access f = [] then Inl NoAccessToken
                   else Inr \<lparr>oa_id_token = [], oa_access = ca_access f, oa_refresh = ca_refresh f, oa_account = [],
                     oa_last_refresh = [], oa_expires = ca_expires f, oa_token_type = ca_token_type f\<rparr>
               | None \<Rightarrow>
                   if ca_access f = [] then Inl NoAccessToken
                   else Inr \<lparr>oa_id_token = [], oa_access = ca_access f, oa_refresh = ca_refresh f, oa_account = [],
                     oa_last_refresh = [], oa_expires = ca_expires f, oa_token_type = ca_token_type f\<rparr>))))"

definition is_oauth_auth :: "host \<Rightarrow> bool" where
  "is_oauth_auth ho = (case host_json ho codex_auth_file of None \<Rightarrow> False
     | Some j \<Rightarrow> (case decode_codex_auth j no_codex_auth of None \<Rightarrow> False
        | Some f \<Rightarrow> ca_mode f = ''chatgpt'' \<or> (case ca_tokens f of Some t \<Rightarrow> ct_refresh t \<noteq> [] | None \<Rightarrow> False) \<or>
            ca_refresh f \<noteq> []))"

section \<open>API keys\<close>

text \<open>\<open>map[string]string\<close>: every member is a string or \<open>null\<close> (the empty string).\<close>

definition decode_string_map :: "json \<Rightarrow> (string \<times> string) list option" where
  "decode_string_map j = (case j of
     JNull \<Rightarrow> Some []
   | JObj ms \<Rightarrow> those (map (\<lambda>(k, v). map_option (\<lambda>s. (k, s)) (decode_string v [])) ms)
   | _ \<Rightarrow> None)"

definition last_value :: "(string \<times> string) list \<Rightarrow> string \<Rightarrow> string" where
  "last_value ms k = (case map_of (rev ms) k of Some v \<Rightarrow> v | None \<Rightarrow> [])"

text \<open>The stored key, empty on every error.\<close>

definition stored_key :: "string \<Rightarrow> host \<Rightarrow> string" where
  "stored_key path ho = (case host_json ho path of None \<Rightarrow> []
     | Some j \<Rightarrow> (case decode_string_map j of None \<Rightarrow> [] | Some ms \<Rightarrow> last_value ms ''key''))"

definition codex_key_names :: "string list" where
  "codex_key_names = [''OPENAI_API_KEY'', ''api_key'', ''key'', ''token'']"

definition codex_json_key :: "host \<Rightarrow> string" where
  "codex_json_key ho = (case host_json ho codex_auth_file of
     Some (JObj ms) \<Rightarrow>
       (case find (\<lambda>k. case map_of (rev ms) k of Some (JStr v) \<Rightarrow> v \<noteq> [] | _ \<Rightarrow> False) codex_key_names of
          Some k \<Rightarrow> (case map_of (rev ms) k of Some (JStr v) \<Rightarrow> v | _ \<Rightarrow> [])
        | None \<Rightarrow> [])
   | _ \<Rightarrow> [])"

definition load_api_key :: "host \<Rightarrow> string" where
  "load_api_key ho =
     (if ho_env ho ''OPENAI_API_KEY'' \<noteq> [] then ho_env ho ''OPENAI_API_KEY''
      else if stored_key api_key_file ho \<noteq> [] then stored_key api_key_file ho
      else codex_json_key ho)"

definition load_anthropic_api_key :: "host \<Rightarrow> string" where
  "load_anthropic_api_key ho =
     (if ho_env ho ''ANTHROPIC_API_KEY'' \<noteq> [] then ho_env ho ''ANTHROPIC_API_KEY''
      else stored_key anthropic_key_file ho)"

section \<open>The Claude login\<close>

definition no_anthropic :: anthropic_oauth where
  "no_anthropic = \<lparr>an_access = [], an_refresh = [], an_expires = 0, an_subscription = [], an_scopes = []\<rparr>"

definition decode_claude :: "anthropic_oauth decoder" where
  "decode_claude = decode_struct
     [(''accessToken'', \<lambda>j v. map_option (\<lambda>s. v\<lparr>an_access := s\<rparr>) (decode_string j (an_access v))),
      (''refreshToken'', \<lambda>j v. map_option (\<lambda>s. v\<lparr>an_refresh := s\<rparr>) (decode_string j (an_refresh v))),
      (''expiresAt'', \<lambda>j v. map_option (\<lambda>n. v\<lparr>an_expires := n\<rparr>) (decode_int j (an_expires v))),
      (''scopes'', \<lambda>j v. map_option (\<lambda>l. v\<lparr>an_scopes := l\<rparr>) (decode_strings j (an_scopes v))),
      (''subscriptionType'', \<lambda>j v. map_option (\<lambda>s. v\<lparr>an_subscription := s\<rparr>) (decode_string j (an_subscription v)))]"

definition decode_claude_file :: "json \<Rightarrow> anthropic_oauth option option" where
  "decode_claude_file j = decode_struct [(''claudeAiOauth'', decode_pointer decode_claude no_anthropic)] j None"

definition load_anthropic_oauth :: "host \<Rightarrow> auth_error + anthropic_oauth" where
  "load_anthropic_oauth ho =
     (if ho_env ho ''CLAUDE_CODE_OAUTH_TOKEN'' \<noteq> [] then Inr (no_anthropic\<lparr>an_access := ho_env ho ''CLAUDE_CODE_OAUTH_TOKEN''\<rparr>)
      else if \<not> ho_home ho then Inl NoHome
      else (case ho_files ho claude_file of
          NoFile \<Rightarrow> Inl ReadingClaude
        | NotJson \<Rightarrow> Inl ParsingClaude
        | JsonFile j \<Rightarrow> (case decode_claude_file j of
            None \<Rightarrow> Inl ParsingClaude
          | Some None \<Rightarrow> Inl NoClaudeToken
          | Some (Some a) \<Rightarrow> if an_access a = [] then Inl NoClaudeToken else Inr a)))"

definition is_anthropic_oauth :: "host \<Rightarrow> bool" where
  "is_anthropic_oauth ho =
     (if ho_env ho ''ANTHROPIC_API_KEY'' \<noteq> [] then False
      else if ho_env ho ''CLAUDE_CODE_OAUTH_TOKEN'' \<noteq> [] then True
      else (case host_json ho claude_file of None \<Rightarrow> False
         | Some j \<Rightarrow> (case decode_claude_file j of Some (Some a) \<Rightarrow> an_access a \<noteq> [] | _ \<Rightarrow> False)))"

definition has_anthropic_credentials :: "host \<Rightarrow> bool" where
  "has_anthropic_credentials ho \<longleftrightarrow> is_anthropic_oauth ho \<or> load_anthropic_api_key ho \<noteq> []"

section \<open>What is shown and saved\<close>

record auth_info =
  ai_source :: string
  ai_configured :: bool

definition get_auth_info :: "host \<Rightarrow> auth_info" where
  "get_auth_info ho =
     (if ho_env ho ''OPENAI_API_KEY'' \<noteq> [] then \<lparr>ai_source = ''OPENAI_API_KEY env'', ai_configured = True\<rparr>
      else if stored_key api_key_file ho \<noteq> [] then \<lparr>ai_source = ''codex-dock config'', ai_configured = True\<rparr>
      else if ho_home ho \<and> ho_files ho codex_auth_file \<noteq> NoFile then
        \<lparr>ai_source = (if is_oauth_auth ho then ''~/.codex/auth.json (OAuth/ChatGPT subscription)'' else ''~/.codex/auth.json''),
         ai_configured = True\<rparr>
      else \<lparr>ai_source = ''none'', ai_configured = False\<rparr>)"

definition save_key :: "string \<Rightarrow> bool \<Rightarrow> string \<Rightarrow> host \<Rightarrow> (auth_error, unit) result \<times> host" where
  "save_key path writable key ho =
     (if \<not> ho_home ho then (Inl NoHome, ho)
      else if \<not> writable then (Inl CannotSave, ho)
      else (Inr (), ho\<lparr>ho_files := (ho_files ho)(path := JsonFile (JObj [(''key'', JStr key)]))\<rparr>))"

definition save_api_key :: "bool \<Rightarrow> string \<Rightarrow> host \<Rightarrow> (auth_error, unit) result \<times> host" where
  "save_api_key = save_key api_key_file"

definition save_anthropic_api_key :: "bool \<Rightarrow> string \<Rightarrow> host \<Rightarrow> (auth_error, unit) result \<times> host" where
  "save_anthropic_api_key = save_key anthropic_key_file"

section \<open>The restored OAuth state\<close>

text \<open>
  The state file binds a refreshed login to the login it came from; \<open>digest\<close> is the SHA-256 of
  \<open>oauthSourceHash\<close>, \<open>target\<close> decodes the saved credentials over the loaded ones.
\<close>

record state_file =
  sf_regular :: bool
  sf_perm :: nat
  sf_content :: "(string \<times> json) option" \<comment> \<open>source hash and credentials, when it decodes\<close>

datatype state_dir = NoStateDir | BadStateDir | InsecureStateDir | StateDir "string \<Rightarrow> state_file option"

definition restore_oauth_state ::
  "(string \<Rightarrow> string) \<Rightarrow> state_dir \<Rightarrow> string \<Rightarrow> string \<Rightarrow> 'a decoder \<Rightarrow> 'a \<Rightarrow> auth_error + 'a" where
  "restore_oauth_state digest dir provider source_token target loaded = (case dir of
     NoStateDir \<Rightarrow> Inr loaded
   | BadStateDir \<Rightarrow> Inl BadState
   | InsecureStateDir \<Rightarrow> Inl InsecureState
   | StateDir files \<Rightarrow>
       (case files (provider @ ''.json'') of
          None \<Rightarrow> Inr loaded
        | Some f \<Rightarrow>
            if \<not> sf_regular f \<or> sf_perm f mod 64 \<noteq> 0 then Inl InsecureState
            else (case sf_content f of
                None \<Rightarrow> Inl BadState
              | Some (hash, creds) \<Rightarrow>
                  if hash \<noteq> digest source_token then Inr loaded
                  else (case target creds loaded of None \<Rightarrow> Inl BadState | Some v \<Rightarrow> Inr v))))"

text \<open>Saving: every step may fail; only the rename publishes the new state.\<close>

fun run_steps :: "bool list \<Rightarrow> bool" where
  "run_steps [] = True"
| "run_steps (ok # oks) = (ok \<and> run_steps oks)"

definition persist_state_file ::
  "bool list \<Rightarrow> bool \<Rightarrow> bool \<Rightarrow> state_dir \<Rightarrow> string \<Rightarrow> string \<Rightarrow> json \<Rightarrow> auth_error option \<times> state_dir" where
  "persist_state_file before renamed synced dir provider hash creds = (case dir of
     NoStateDir \<Rightarrow> (None, dir)
   | BadStateDir \<Rightarrow> (Some BadState, dir)
   | InsecureStateDir \<Rightarrow> (Some InsecureState, dir)
   | StateDir files \<Rightarrow>
       if \<not> run_steps before \<or> \<not> renamed then (Some CannotSave, dir)
       else (if synced then None else Some CannotSave,
             StateDir (files(provider @ ''.json'' \<mapsto> \<lparr>sf_regular = True, sf_perm = 384, sf_content = Some (hash, creds)\<rparr>))))"

section \<open>Properties\<close>

text \<open>The two tests of a login agree with what loading it returns.\<close>

lemma is_anthropic_oauth_loads:
  "is_anthropic_oauth ho \<Longrightarrow> \<exists>a. load_anthropic_oauth ho = Inr a \<and> an_access a \<noteq> []"
  by (auto simp: is_anthropic_oauth_def load_anthropic_oauth_def host_json_def no_anthropic_def
      split: if_splits host_file.splits option.splits)

lemma save_key_stored:
  "fst (save_key path w key ho) = Inr () \<Longrightarrow> stored_key path (snd (save_key path w key ho)) = key"
  by (auto simp: save_key_def stored_key_def host_json_def decode_string_map_def decode_string_def last_value_def split: if_splits)

text \<open>a saved API key is the key the proxy uses, unless the environment overrides it, and saving one
  provider's key does not change what is loaded for the other.\<close>

theorem saved_key_roundtrip:
  assumes "fst (save_api_key w key ho) = Inr ()" and "key \<noteq> []"
  shows "load_api_key (snd (save_api_key w key ho)) =
      (if ho_env ho ''OPENAI_API_KEY'' \<noteq> [] then ho_env ho ''OPENAI_API_KEY'' else key) \<and>
    load_anthropic_api_key (snd (save_api_key w key ho)) = load_anthropic_api_key ho \<and>
    is_oauth_auth (snd (save_api_key w key ho)) = is_oauth_auth ho \<and>
    load_oauth_credentials (snd (save_api_key w key ho)) = load_oauth_credentials ho"
proof -
  let ?h = "snd (save_api_key w key ho)"
  have s: "stored_key api_key_file ?h = key" using save_key_stored assms(1) by (simp add: save_api_key_def)
  have e: "ho_env ?h = ho_env ho" "ho_home ?h = ho_home ho"
    by (simp_all add: save_api_key_def save_key_def)
  have n: "api_key_file \<noteq> anthropic_key_file" "api_key_file \<noteq> codex_auth_file" by code_simp+
  then have f: "ho_files ?h anthropic_key_file = ho_files ho anthropic_key_file"
    "ho_files ?h codex_auth_file = ho_files ho codex_auth_file"
    by (simp_all add: save_api_key_def save_key_def)
  show ?thesis using s e f assms(2)
    by (simp add: load_api_key_def load_anthropic_api_key_def stored_key_def host_json_def is_oauth_auth_def
        load_oauth_credentials_def)
qed

definition sample_host :: "string \<Rightarrow> host" where
  "sample_host key = \<lparr>ho_env = (\<lambda>n. if n = ''OPENAI_API_KEY'' then key else []), ho_home = True,
     ho_files = (\<lambda>n. if n = codex_auth_file then
       JsonFile (JObj [(''auth_mode'', JStr ''chatgpt''), (''tokens'', JObj [(''access_token'', JStr ''a''), (''refresh_token'', JStr ''r'')])])
       else NoFile)\<rparr>"

lemma saved_key_roundtrip_witness:
  "load_api_key (snd (save_api_key True ''k'' (sample_host []))) = ''k'' \<and> is_oauth_auth (snd (save_api_key True ''k'' (sample_host [])))"
proof -
  have "fst (save_api_key True ''k'' (sample_host [])) = Inr ()" "is_oauth_auth (sample_host [])"
    "ho_env (sample_host []) ''OPENAI_API_KEY'' = []" by code_simp+
  with saved_key_roundtrip [of True "''k''" "sample_host []"] show ?thesis by simp
qed

text \<open>
  \<open>GetAuthInfo\<close> gives the environment key precedence over an OAuth login; the proxy uses the login.
\<close>

lemma auth_info_names_unused_source:
  "ai_source (get_auth_info (sample_host ''k'')) = ''OPENAI_API_KEY env'' \<and> is_oauth_auth (sample_host ''k'') \<and>
   (\<exists>c. load_oauth_credentials (sample_host ''k'') = Inr c \<and> oa_access c = ''a'')"
proof -
  have "ai_source (get_auth_info (sample_host ''k'')) = ''OPENAI_API_KEY env''" "is_oauth_auth (sample_host ''k'')"
    "load_oauth_credentials (sample_host ''k'') = Inr \<lparr>oa_id_token = [], oa_access = ''a'', oa_refresh = ''r'', oa_account = [],
       oa_last_refresh = [], oa_expires = 0, oa_token_type = ''Bearer''\<rparr>" by code_simp+
  then show ?thesis by simp
qed

end
