(* ===== verification/ProxyServer.thy ===== *)
theory ProxyServer
  imports ReverseProxy AuthSources NetworkPolicy PolicyEvents
begin

text \<open>
  The auth proxy as a server: the configuration and \<open>NewProxy\<close> of \<open>proxy.go\<close>, the upstream proxy and CA
  of \<open>upstream.go\<close>, the egress policy of \<open>transport.go\<close>, the listeners' routes that \<open>Start\<close> registers,
  the worker-facing dispatch and the two forward handlers of \<open>forward.go\<close>, and \<open>Stop\<close>.
\<close>

section \<open>Configuration\<close>

record server_config =
  sc_proxy :: proxy_config
  sc_role :: string
  sc_routes :: "credential_route list"
  sc_routes_file :: string
  sc_broker_only :: bool
  sc_upstream :: string
  sc_ca_bundle :: string
  sc_policy_id :: string
  sc_store :: generation
  sc_admin_listen :: string
  sc_oauth_dir :: string
  sc_forward_domains :: "string list"
  sc_forward_rules :: rules
  sc_egress_policy :: "policy option"

datatype setup_error =
    ProfileNeedsStore | ModelsInvalid identity_error | ModelsOnEgress | RoutesOnEgress | RoutesFile load_error
  | RoutesInvalid route_error | UnknownRole | StoreNeedsAdmin | NoCertificates | BadUpstream
  | ForwardTwice | ForwardInvalid net_error | BrokerNeedsRoutes | StoreScope | ProfileName
  | StoreLoad store_error | BadGeneration | NoProvider | IncompleteOAuth | ProfileWithoutStore | HostLogin auth_error

definition is_egress :: "server_config \<Rightarrow> bool" where
  "is_egress cfg \<longleftrightarrow> sc_role cfg = ''egress''"

text \<open>What \<open>NewProxy\<close> reads outside: URLs, the CA pool, the routes file, the host's logins, saved state.\<close>

record outside =
  ot_parse :: "string \<Rightarrow> url option"
  ot_certs :: "string \<Rightarrow> bool"
  ot_routes :: "string \<Rightarrow> routes_file option"
  ot_host :: host
  ot_openai_state :: "openai_oauth \<Rightarrow> auth_error + openai_oauth"
  ot_anthropic_state :: "anthropic_oauth \<Rightarrow> auth_error + anthropic_oauth"

record server =
  sv_config :: server_config
  sv_held :: held_credentials
  sv_proxy :: proxy
  sv_policy :: "policy option"
  sv_upstream :: "url option"

definition slash :: char where
  "slash = CHR ''/''"

text \<open>\<open>url.URL.Hostname\<close>: the host without a port and without the brackets of an IPv6 address.\<close>

definition url_hostname :: "string \<Rightarrow> string" where
  "url_hostname h = (let (port, rest) = (takeWhile (\<lambda>c. c \<noteq> CHR '':'') (rev h), dropWhile (\<lambda>c. c \<noteq> CHR '':'') (rev h));
       host = (if rest \<noteq> [] \<and> list_all is_digit port then rev (tl rest) else h) in
     if prefix ''['' host \<and> suffix '']'' host then butlast (tl host) else host)"

definition configure_upstream :: "outside \<Rightarrow> server_config \<Rightarrow> setup_error + url option" where
  "configure_upstream ot cfg =
     (if sc_ca_bundle cfg \<noteq> [] \<and> \<not> ot_certs ot (sc_ca_bundle cfg) then Inl NoCertificates
      else if sc_upstream cfg = [] then Inr None
      else (case ot_parse ot (sc_upstream cfg) of None \<Rightarrow> Inl BadUpstream
         | Some u \<Rightarrow>
             if url_hostname (u_host u) = [] \<or> u_user u \<or> (u_scheme u \<noteq> ''http'' \<and> u_scheme u \<noteq> ''https'') \<or> u_raw_query u \<noteq> [] \<or>
                u_fragment u \<noteq> [] \<or> \<not> list_all (\<lambda>c. c = slash) (u_path u)
             then Inl BadUpstream else Inr (Some u)))"

definition compile_forward_policy :: "server_config \<Rightarrow> setup_error + policy" where
  "compile_forward_policy cfg =
     (let rs = sc_forward_rules cfg in
      if sc_forward_domains cfg \<noteq> [] \<and> allow_domains rs \<noteq> [] then Inl ForwardTwice
      else (let rs1 = (if sc_forward_domains cfg \<noteq> [] then rs\<lparr>allow_domains := sc_forward_domains cfg\<rparr> else rs);
                rs2 = rs1\<lparr>block_private := block_private rs1 \<or> pc_block_private (sc_proxy cfg)\<rparr> in
            case compile_rules rs2 of Inl e \<Rightarrow> Inl (ForwardInvalid e)
            | Inr c \<Rightarrow> Inr (combined [Some (compiled_policy c), sc_egress_policy cfg])))"

section \<open>NewProxy\<close>

definition check_config :: "outside \<Rightarrow> server_config \<Rightarrow> setup_error + server_config" where
  "check_config ot cfg =
     (let pc = sc_proxy cfg in
      failE (pc_profile pc \<noteq> [] \<and> (sc_store cfg = None \<or> sc_broker_only cfg \<or> is_egress cfg)) ProfileNeedsStore
     (bindE (case validate_model_policy (Some (pc_allowed_models pc)) of Some e \<Rightarrow> Inl (ModelsInvalid e) | None \<Rightarrow> Inr ()) (\<lambda>_.
      failE (is_egress cfg \<and> pc_allowed_models pc \<noteq> []) ModelsOnEgress
     (failE (is_egress cfg \<and> (sc_routes cfg \<noteq> [] \<or> sc_routes_file cfg \<noteq> [])) RoutesOnEgress
     (bindE (if sc_routes_file cfg = [] then Inr (sc_routes cfg)
             else (case load_credential_routes (ot_parse ot) (ot_routes ot (sc_routes_file cfg)) of
                 Inl e \<Rightarrow> Inl (RoutesFile e) | Inr rs \<Rightarrow> Inr (sc_routes cfg @ rs))) (\<lambda>routes.
      bindE (case validate_routes (ot_parse ot) routes of Some e \<Rightarrow> Inl (RoutesInvalid e) | None \<Rightarrow> Inr ()) (\<lambda>_.
      failE (is_egress cfg \<and> routes \<noteq> []) RoutesOnEgress
     (failE (sc_role cfg \<notin> {[], ''auth'', ''egress''}) UnknownRole
     (failE (sc_store cfg \<noteq> None \<and> (is_egress cfg \<or> length (pc_admin_secret pc) < 32 \<or> sc_admin_listen cfg = [])) StoreNeedsAdmin
     (Inr (cfg\<lparr>sc_routes := routes\<rparr>)))))))))))"

definition no_credentials :: held_credentials where
  "no_credentials = \<lparr>hc_api_key = [], hc_oauth = None, hc_anthropic_key = [], hc_anthropic = None\<rparr>"

definition empty_generation :: credentials where
  "empty_generation = \<lparr>cr_version = [], cr_connection = [], cr_openai_key = [], cr_openai = None, cr_anthropic_key = [],
     cr_anthropic = None\<rparr>"

definition complete_generation :: "credentials \<Rightarrow> setup_error option" where
  "complete_generation c =
     (if cr_version c = [] \<or> cr_connection c = [] \<or> (cr_openai_key c \<noteq> [] \<and> cr_openai c \<noteq> None) \<or>
         (cr_anthropic_key c \<noteq> [] \<and> cr_anthropic c \<noteq> None) then Some BadGeneration
      else if cr_openai_key c = [] \<and> cr_openai c = None \<and> cr_anthropic_key c = [] \<and> cr_anthropic c = None then Some NoProvider
      else if (case cr_openai c of Some v \<Rightarrow> oa_access v = [] \<or> oa_refresh v = [] | None \<Rightarrow> False) \<or>
         (case cr_anthropic c of Some v \<Rightarrow> an_access v = [] | None \<Rightarrow> False) then Some IncompleteOAuth
      else None)"

definition held_of_generation :: "credentials \<Rightarrow> held_credentials" where
  "held_of_generation c = \<lparr>hc_api_key = cr_openai_key c, hc_oauth = cr_openai c, hc_anthropic_key = cr_anthropic_key c,
     hc_anthropic = cr_anthropic c\<rparr>"

definition load_generation :: "server_config \<Rightarrow> (string \<Rightarrow> (store_error, credentials) result) \<Rightarrow> setup_error + credentials" where
  "load_generation cfg ld =
     (let pc = sc_proxy cfg in
      failE ((pc_case_id pc = []) = (pc_profile pc = []) \<or> sc_oauth_dir cfg \<noteq> []) StoreScope
     (failE (pc_profile pc \<noteq> [] \<and> \<not> valid_profile_name (pc_profile pc)) ProfileName
     (case ld (credential_scope pc) of Inl e \<Rightarrow> Inl (StoreLoad e)
      | Inr c \<Rightarrow> (case complete_generation c of Some e \<Rightarrow> Inl e | None \<Rightarrow> Inr c))))"

definition host_openai :: "outside \<Rightarrow> setup_error + (string \<times> openai_oauth option)" where
  "host_openai ot =
     (if is_oauth_auth (ot_host ot) then
        (case load_oauth_credentials (ot_host ot) of Inl e \<Rightarrow> Inl (HostLogin e)
         | Inr c \<Rightarrow> (case ot_openai_state ot c of Inl e \<Rightarrow> Inl (HostLogin e) | Inr c' \<Rightarrow> Inr ([], Some c')))
      else Inr (load_api_key (ot_host ot), None))"

definition host_anthropic :: "outside \<Rightarrow> setup_error + (string \<times> anthropic_oauth option)" where
  "host_anthropic ot =
     (if is_anthropic_oauth (ot_host ot) then
        (case load_anthropic_oauth (ot_host ot) of Inl e \<Rightarrow> Inl (HostLogin e)
         | Inr a \<Rightarrow> (case ot_anthropic_state ot a of Inl e \<Rightarrow> Inl (HostLogin e) | Inr a' \<Rightarrow> Inr ([], Some a')))
      else Inr (load_anthropic_api_key (ot_host ot), None))"

definition host_credentials :: "outside \<Rightarrow> setup_error + held_credentials" where
  "host_credentials ot =
     bindE (host_openai ot) (\<lambda>(key, oauth). bindE (host_anthropic ot) (\<lambda>(akey, aoauth).
       Inr \<lparr>hc_api_key = key, hc_oauth = oauth, hc_anthropic_key = akey, hc_anthropic = aoauth\<rparr>))"

definition new_proxy :: "outside \<Rightarrow> server_config \<Rightarrow> setup_error + server" where
  "new_proxy ot cfg0 =
     bindE (check_config ot cfg0) (\<lambda>cfg. bindE (configure_upstream ot cfg) (\<lambda>up.
       (let plain = \<lparr>sv_config = cfg, sv_held = no_credentials, sv_proxy = initial_proxy empty_generation, sv_policy = None,
              sv_upstream = up\<rparr> in
        if is_egress cfg then bindE (compile_forward_policy cfg) (\<lambda>pol. Inr (plain\<lparr>sv_policy := Some pol\<rparr>))
        else if sc_broker_only cfg then (if sc_routes cfg = [] then Inl BrokerNeedsRoutes else Inr plain)
        else (case sc_store cfg of
            Some ld \<Rightarrow> bindE (load_generation cfg ld) (\<lambda>c.
              Inr (plain\<lparr>sv_held := held_of_generation c, sv_proxy := initial_proxy c\<rparr>))
          | None \<Rightarrow>
              if pc_profile (sc_proxy cfg) \<noteq> [] then Inl ProfileWithoutStore
              else bindE (host_credentials ot) (\<lambda>h. Inr (plain\<lparr>sv_held := h\<rparr>))))))"

section \<open>Routes of the listeners\<close>

datatype handler =
    Health | Token | RevokeToken | OAuthRefresh | ApiRoute | ChatGPTRoute | AnthropicRoute | BrokerRoute
  | AdminIssue | AdminRestore | AdminRevoke | AdminRevokeRun | AdminRevokeCase | AdminMode

definition admin_routes :: "(string \<times> handler) list" where
  "admin_routes = [(''/admin/issue'', AdminIssue), (''/admin/restore'', AdminRestore), (''/admin/revoke'', AdminRevoke),
     (''/admin/revoke-run'', AdminRevokeRun), (''/admin/revoke-case'', AdminRevokeCase), (''/admin/mode'', AdminMode)]"

definition worker_routes :: "(string \<times> handler) list" where
  "worker_routes = [(''/token'', Token), (''/revoke'', RevokeToken), (''/oauth/token'', OAuthRefresh), (''/v1/'', ApiRoute),
     (''/chatgpt/'', ChatGPTRoute), (''/anthropic/'', AnthropicRoute)]"

definition worker_mux :: "server_config \<Rightarrow> (string \<times> handler) list" where
  "worker_mux cfg = (''/health'', Health) #
     (if is_egress cfg then [] else worker_routes @ (if sc_routes cfg \<noteq> [] then [(''/broker/'', BrokerRoute)] else []) @
        (if sc_admin_listen cfg = [] then admin_routes else []))"

definition admin_mux :: "server_config \<Rightarrow> (string \<times> handler) list" where
  "admin_mux cfg = (if is_egress cfg \<or> sc_admin_listen cfg = [] then [] else admin_routes)"

text \<open>\<open>ServeMux\<close>: a pattern ending in a slash is a subtree; the longest matching pattern wins.\<close>

definition pattern_matches :: "string \<Rightarrow> string \<Rightarrow> bool" where
  "pattern_matches pat path \<longleftrightarrow> (if suffix ''/'' pat then prefix pat path else pat = path)"

fun longest :: "(string \<times> handler) list \<Rightarrow> string \<Rightarrow> (string \<times> handler) option" where
  "longest [] path = None"
| "longest ((pat, h) # rest) path = (case longest rest path of
     None \<Rightarrow> if pattern_matches pat path then Some (pat, h) else None
   | Some (pat', h') \<Rightarrow> if pattern_matches pat path \<and> length pat' < length pat then Some (pat, h) else Some (pat', h'))"

definition mux_handler :: "(string \<times> handler) list \<Rightarrow> string \<Rightarrow> handler option" where
  "mux_handler mux path = map_option snd (longest mux path)"

section \<open>The worker-facing listener\<close>

datatype worker_dispatch = NotForwarding | ForwardConnect | ForwardHttp | Reverse "handler option"

definition worker_facing :: "server_config \<Rightarrow> request \<Rightarrow> worker_dispatch" where
  "worker_facing cfg r =
     (if rq_method r = ''CONNECT'' \<or> rq_absolute r then
        (if \<not> is_egress cfg then NotForwarding
         else if rq_method r = ''CONNECT'' then ForwardConnect else ForwardHttp)
      else Reverse (mux_handler (worker_mux cfg) (rq_path r)))"

text \<open>Denials are recorded and reported with their reason.\<close>

fun denied_destination :: "net_error \<Rightarrow> string" where
  "denied_destination (Denial c d) = destination_string d"
| "denied_destination (BadDomain v e) = denied_destination e"
| "denied_destination (ResolveFailed e) = denied_destination e"
| "denied_destination _ = []"

definition denial_event :: "server_config \<Rightarrow> string \<Rightarrow> net_error \<Rightarrow> event" where
  "denial_event cfg source e = \<lparr>ev_type = [], ev_seq = 0, ev_time = 0, ev_policy_id = sc_policy_id cfg, ev_worker = [], ev_run_id = [],
     ev_source = source, ev_destination = denied_destination e, ev_code = reason e\<rparr>"

definition forward_error :: "net_error \<Rightarrow> (net_error \<Rightarrow> string) \<Rightarrow> reply" where
  "forward_error e msg = (if is_denied e then
       \<lparr>rp_status = 403, rp_headers = [(''x-cxd-policy-reason'', reason e)], rp_body = Text (msg e)\<rparr>
     else http_error (msg e) 502)"

datatype 'conn connect_result = Refused reply "event option" | Tunnel 'conn

definition forward_connect ::
  "server \<Rightarrow> resolver \<Rightarrow> 'conn connector \<Rightarrow> (net_error \<Rightarrow> string) \<Rightarrow> ctx \<Rightarrow> string \<Rightarrow> string \<Rightarrow>
   'conn connect_result \<times> dial_event list" where
  "forward_connect sv resolve connect msg ctx source host =
     (case (case sv_policy sv of Some pol \<Rightarrow> Inr pol | None \<Rightarrow> compile_forward_policy (sv_config sv)) of
        Inl e \<Rightarrow> (Refused (http_error ''invalid egress policy'' 500) None, [])
      | Inr pol \<Rightarrow>
          (case dial_context (Some pol) resolve connect ctx ''tcp'' host of
             (Inl e, tr) \<Rightarrow> (Refused (forward_error e msg)
                (if is_denied e then Some (denial_event (sv_config sv) source e) else None), tr)
           | (Inr conn, tr) \<Rightarrow> (Tunnel conn, tr)))"

text \<open>\<open>policyTransport\<close> checks the destination of every hop before the base transport is used.\<close>

definition policy_transport :: "policy \<Rightarrow> ctx \<Rightarrow> url \<Rightarrow> net_error option" where
  "policy_transport pol ctx u =
     (if u_user u then Some DeniedAuthority
      else if u_scheme u \<noteq> ''http'' \<and> u_scheme u \<noteq> ''https'' then Some DeniedAuthority
      else (case parse_destination (u_host u) (if u_scheme u = ''http'' then ''80'' else ''443'') of
          Inl e \<Rightarrow> Some DeniedAuthority
        | Inr dst \<Rightarrow> pol_destination pol ctx dst))"

text \<open>The hops of one client request: each redirect's URL goes through the transport; the first refusal
  ends the request.  The result is the hops that reached the base transport.\<close>

fun follow_hops :: "policy \<Rightarrow> ctx \<Rightarrow> url list \<Rightarrow> url list \<times> net_error option" where
  "follow_hops pol ctx [] = ([], None)"
| "follow_hops pol ctx (u # us) = (case policy_transport pol ctx u of
     Some e \<Rightarrow> ([], Some e)
   | None \<Rightarrow> (case follow_hops pol ctx us of (sent, e) \<Rightarrow> (u # sent, e)))"

definition stop_proxy :: "proxy \<Rightarrow> proxy" where
  "stop_proxy p = p\<lparr>px_cancelled := px_cancelled p \<union> (tr_lease \<circ> snd) ` set (px_tokens p), px_tokens := [],
     px_by_value := Map.empty\<rparr>"

section \<open>What a constructed server is\<close>

lemma check_config_Inr:
  assumes "check_config ot cfg0 = Inr cfg"
  shows "is_egress cfg \<Longrightarrow> sc_routes cfg = [] \<and> pc_allowed_models (sc_proxy cfg) = []"
    and "sc_store cfg \<noteq> None \<Longrightarrow> \<not> is_egress cfg \<and> 32 \<le> length (pc_admin_secret (sc_proxy cfg)) \<and> sc_admin_listen cfg \<noteq> []"
    and "validate_routes (ot_parse ot) (sc_routes cfg) = None" and "is_egress cfg = is_egress cfg0"
proof -
  from assms obtain routes u where
    m: "\<not> (is_egress cfg0 \<and> pc_allowed_models (sc_proxy cfg0) \<noteq> [])" and
    v: "(case validate_routes (ot_parse ot) routes of Some e \<Rightarrow> Inl (RoutesInvalid e) | None \<Rightarrow> Inr ()) = (Inr u :: setup_error + unit)" and
    r: "\<not> (is_egress cfg0 \<and> routes \<noteq> [])" and
    s: "\<not> (sc_store cfg0 \<noteq> None \<and> (is_egress cfg0 \<or> length (pc_admin_secret (sc_proxy cfg0)) < 32 \<or> sc_admin_listen cfg0 = []))" and
    c: "cfg = cfg0\<lparr>sc_routes := routes\<rparr>"
    unfolding check_config_def Let_def bindE_Inr_iff failE_Inr_iff by (elim exE conjE) (rule that, (assumption | simp)+)
  show e: "is_egress cfg = is_egress cfg0" by (simp add: c is_egress_def)
  show "is_egress cfg \<Longrightarrow> sc_routes cfg = [] \<and> pc_allowed_models (sc_proxy cfg) = []" using m r by (simp add: c e is_egress_def)
  show "sc_store cfg \<noteq> None \<Longrightarrow> \<not> is_egress cfg \<and> 32 \<le> length (pc_admin_secret (sc_proxy cfg)) \<and> sc_admin_listen cfg \<noteq> []"
    using s by (simp add: c is_egress_def)
  show "validate_routes (ot_parse ot) (sc_routes cfg) = None" using v by (simp add: c split: option.splits)
qed

lemma new_proxy_Inr:
  assumes "new_proxy ot cfg0 = Inr sv"
  shows "check_config ot cfg0 = Inr (sv_config sv)"
    and "is_egress (sv_config sv) \<Longrightarrow> sv_held sv = no_credentials \<and> sv_policy sv \<noteq> None"
    and "sc_store (sv_config sv) = Some ld \<Longrightarrow> \<not> is_egress (sv_config sv) \<Longrightarrow> \<not> sc_broker_only (sv_config sv) \<Longrightarrow>
       \<exists>c. load_generation (sv_config sv) ld = Inr c \<and> sv_held sv = held_of_generation c \<and> sv_proxy sv = initial_proxy c"
  using assms
  by (auto simp: new_proxy_def Let_def result_simps split: option.splits if_splits)

lemma longest_in: "longest mux path = Some (pat, h) \<Longrightarrow> (pat, h) \<in> set mux \<and> pattern_matches pat path"
  by (induction mux path arbitrary: pat h rule: longest.induct) (auto split: option.splits if_splits prod.splits)

lemma mux_handler_in: "mux_handler mux path = Some h \<Longrightarrow> h \<in> snd ` set mux"
  by (force simp: mux_handler_def dest!: longest_in)

definition is_admin :: "handler \<Rightarrow> bool" where
  "is_admin h \<longleftrightarrow> h \<in> snd ` set admin_routes"

lemma worker_routes_not_admin: "h \<in> snd ` set worker_routes \<Longrightarrow> \<not> is_admin h"
  by (auto simp: worker_routes_def is_admin_def admin_routes_def)

lemma stop_invariant:
  assumes "proxy_inv p"
  shows "{..<px_next_lease p} \<subseteq> px_cancelled (stop_proxy p)"
proof
  fix l assume l: "l \<in> {..<px_next_lease p}"
  show "l \<in> px_cancelled (stop_proxy p)"
  proof (cases "l \<in> px_cancelled p")
    case True
    then show ?thesis by (simp add: stop_proxy_def)
  next
    case False
    then obtain n rec where r: "token_at p n = Some rec" "tr_lease rec = l"
      using l assms unfolding proxy_inv_def lease_inv_def by blast
    then have "(n, rec) \<in> set (px_tokens p)" by (simp add: token_at_def map_of_SomeD)
    with r(2) show ?thesis by (force simp: stop_proxy_def)
  qed
qed

text \<open>Every hop of a forwarded request that reached the network was allowed by the policy.\<close>

lemma follow_hops_allowed:
  "follow_hops pol ctx us = (sent, e) \<Longrightarrow> u \<in> set sent \<Longrightarrow> policy_transport pol ctx u = None"
  by (induction us arbitrary: sent e) (auto split: option.splits prod.splits)

section \<open>Properties\<close>

definition plain_config :: "string \<Rightarrow> server_config" where
  "plain_config role = \<lparr>sc_proxy = sample_config\<lparr>pc_case_id := []\<rparr>, sc_role = role, sc_routes = [], sc_routes_file = [],
     sc_broker_only = False, sc_upstream = [], sc_ca_bundle = [], sc_policy_id = [], sc_store = None, sc_admin_listen = [],
     sc_oauth_dir = [], sc_forward_domains = [''example.com''], sc_forward_rules = no_rules, sc_egress_policy = None\<rparr>"

definition sample_outside :: outside where
  "sample_outside = \<lparr>ot_parse = sample_parse, ot_certs = (\<lambda>_. True), ot_routes = (\<lambda>_. None), ot_host = sample_host [],
     ot_openai_state = Inr, ot_anthropic_state = Inr\<rparr>"

text \<open>C24: the proxy roles are separated by construction.  A server that \<open>NewProxy\<close> builds for general egress
  holds no credential, has a policy, and serves nothing but its health endpoint beside forwarding; one
  that holds credentials never forwards general traffic; and with a credential store the admin handlers
  cannot be reached through the worker-facing listener.\<close>

theorem roles_separated:
  assumes "new_proxy ot cfg0 = Inr sv"
  shows "(is_egress (sv_config sv) \<longrightarrow> sv_held sv = no_credentials \<and> sv_policy sv \<noteq> None \<and> admin_mux (sv_config sv) = [] \<and>
      (\<forall>r h. worker_facing (sv_config sv) r = Reverse (Some h) \<longrightarrow> h = Health)) \<and>
    (sv_held sv \<noteq> no_credentials \<longrightarrow> (\<forall>r. worker_facing (sv_config sv) r \<noteq> ForwardConnect \<and>
       worker_facing (sv_config sv) r \<noteq> ForwardHttp)) \<and>
    (sc_store (sv_config sv) \<noteq> None \<longrightarrow> 32 \<le> length (pc_admin_secret (sc_proxy (sv_config sv))) \<and>
      (\<forall>r h. worker_facing (sv_config sv) r = Reverse (Some h) \<longrightarrow> \<not> is_admin h))"
proof -
  let ?c = "sv_config sv"
  note n = new_proxy_Inr [OF assms]
  note k = check_config_Inr [OF n(1)]
  have mux: "h \<in> snd ` set (worker_mux ?c)" if "worker_facing ?c r = Reverse (Some h)" for r h
    using that mux_handler_in by (auto simp: worker_facing_def split: if_splits)
  have "h = Health" if "is_egress ?c" "worker_facing ?c r = Reverse (Some h)" for r h
    using mux [OF that(2)] that(1) by (simp add: worker_mux_def)
  moreover have "\<not> is_admin h" if s: "sc_store ?c \<noteq> None" "worker_facing ?c r = Reverse (Some h)" for r h
  proof -
    have "h = Health \<or> h \<in> snd ` set worker_routes \<or> h = BrokerRoute"
      using mux [OF s(2)] k(2) [OF s(1)] by (auto simp: worker_mux_def split: if_splits)
    then show ?thesis using worker_routes_not_admin by (auto simp: is_admin_def admin_routes_def)
  qed
  moreover have "worker_facing ?c r \<noteq> ForwardConnect \<and> worker_facing ?c r \<noteq> ForwardHttp"
    if "sv_held sv \<noteq> no_credentials" for r
  proof -
    have "\<not> is_egress ?c" using that n(2) by blast
    then show ?thesis by (simp add: worker_facing_def)
  qed
  ultimately show ?thesis using n(2) k(2) by (simp add: admin_mux_def)
qed

lemma roles_separated_witness:
  "\<exists>sv. new_proxy sample_outside (plain_config ''egress'') = Inr sv \<and> sv_held sv = no_credentials \<and>
     worker_facing (sv_config sv) (sample_get ''/v1/models'' []) = Reverse None \<and>
   (\<exists>sa. new_proxy sample_outside (plain_config []) = Inr sa \<and>
      worker_facing (sv_config sa) ((sample_get [] [])\<lparr>rq_method := ''CONNECT''\<rparr>) = NotForwarding)"
proof -
  have "\<not> isl (new_proxy sample_outside (plain_config ''egress''))" "\<not> isl (new_proxy sample_outside (plain_config []))"
    by code_simp+
  then obtain sv sa where s: "new_proxy sample_outside (plain_config ''egress'') = Inr sv"
      "new_proxy sample_outside (plain_config []) = Inr sa" by (metis isl_def sum.exhaust_sel)
  have e: "is_egress (sv_config sv)" "\<not> is_egress (sv_config sa)"
    using check_config_Inr(4) [OF new_proxy_Inr(1) [OF s(1)]] check_config_Inr(4) [OF new_proxy_Inr(1) [OF s(2)]]
    by (simp_all add: is_egress_def plain_config_def)
  have "mux_handler [(''/health'', Health)] ''/v1/models'' = None" by code_simp
  then have "worker_facing (sv_config sv) (sample_get ''/v1/models'' []) = Reverse None"
    using e by (simp add: worker_facing_def worker_mux_def sample_get_def)
  moreover have "worker_facing (sv_config sa) ((sample_get [] [])\<lparr>rq_method := ''CONNECT''\<rparr>) = NotForwarding"
    using e by (simp add: worker_facing_def)
  moreover have "sv_held sv = no_credentials" using roles_separated [OF s(1)] e by blast
  ultimately show ?thesis using s by blast
qed

text \<open>stopping a proxy ends everything it granted.  After \<open>Stop\<close> every lease ever handed out is
  cancelled and no request presents a token that is accepted.\<close>

theorem stop_ends_all_leases:
  assumes "proxy_run (initial_proxy c) p"
  shows "{..<px_next_lease p} \<subseteq> px_cancelled (stop_proxy p) \<and>
    worker_request rt now auths keys b (stop_proxy p) = None \<and> handle_token cd h now r (stop_proxy p) \<noteq> json_reply hs ms"
proof -
  have "px_by_value (stop_proxy p) = Map.empty" by (simp add: stop_proxy_def)
  then have "worker_request rt now auths keys b (stop_proxy p) = None" "token_lookup now t (stop_proxy p) = None" for t
    by (simp_all add: worker_request_def token_lookup_def split: option.split)
  moreover have "http_error m n \<noteq> json_reply hs ms" for m n by (simp add: reply_defs)
  ultimately show ?thesis
    using stop_invariant [OF reachable_inv [OF assms]] by (simp add: handle_token_def bad_method_def)
qed

lemma stop_ends_all_leases_witness:
  "0 \<in> px_cancelled (stop_proxy (snd sample_issue)) \<and> 0 \<notin> px_cancelled (snd sample_issue)"
proof -
  have "{..<px_next_lease (snd sample_issue)} \<subseteq> px_cancelled (stop_proxy (snd sample_issue))"
    using stop_ends_all_leases [OF sample_issue_run] by blast
  then show ?thesis by (simp add: sample_issue_at subset_eq)
qed

end
