(* ===== verification/Triples.thy ===== *)
theory Triples
  imports Prelude
begin

text \<open>
  Triples for operations over an explicit world: from a world with \<open>P\<close> the operation either returns a
  value and a world with \<open>Q\<close>, or an error and a world with \<open>R\<close>.  The rules are weakest-precondition
  rules, so that \<open>rule triple_bind\<close> walks an operation backwards.
\<close>

definition triple :: "('w \<Rightarrow> bool) \<Rightarrow> ('w, 'e, 'a) io \<Rightarrow> ('a \<Rightarrow> 'w \<Rightarrow> bool) \<Rightarrow> ('e \<Rightarrow> 'w \<Rightarrow> bool) \<Rightarrow> bool" where
  "triple P m Q R \<longleftrightarrow> (\<forall>w. P w \<longrightarrow> (case m w of (Inr x, w') \<Rightarrow> Q x w' | (Inl e, w') \<Rightarrow> R e w'))"

lemma tripleI:
  "(\<And>w x w'. P w \<Longrightarrow> m w = (Inr x, w') \<Longrightarrow> Q x w') \<Longrightarrow>
   (\<And>w e w'. P w \<Longrightarrow> m w = (Inl e, w') \<Longrightarrow> R e w') \<Longrightarrow> triple P m Q R"
  by (auto simp: triple_def split: prod.splits sum.splits)

lemma triple_Inr: "triple P m Q R \<Longrightarrow> P w \<Longrightarrow> m w = (Inr x, w') \<Longrightarrow> Q x w'"
  by (fastforce simp: triple_def)

lemma triple_Inl: "triple P m Q R \<Longrightarrow> P w \<Longrightarrow> m w = (Inl e, w') \<Longrightarrow> R e w'"
  by (fastforce simp: triple_def)

lemma triple_snd:
  assumes "triple P m (\<lambda>_. I) (\<lambda>_. I)" and "P w"
  shows "I (snd (m w))"
proof (cases "m w")
  case (Pair r w')
  with assms show ?thesis by (cases r) (auto dest: triple_Inr triple_Inl)
qed

lemma triple_bind:
  assumes m: "triple P m Q R" and f: "\<And>x. triple (Q x) (f x) S R"
  shows "triple P (bindIO m f) S R"
  unfolding triple_def
proof (intro allI impI)
  fix w assume p: "P w"
  obtain r w' where mw: "m w = (r, w')" by (cases "m w")
  show "case bindIO m f w of (Inr x, w') \<Rightarrow> S x w' | (Inl e, w') \<Rightarrow> R e w'"
  proof (cases r)
    case (Inl e)
    with mw triple_Inl [OF m p] show ?thesis by (simp add: bindIO_def)
  next
    case (Inr x)
    with mw have "Q x w'" using triple_Inr [OF m p] by simp
    then have "case f x w' of (Inr y, w'') \<Rightarrow> S y w'' | (Inl e, w'') \<Rightarrow> R e w''"
      using f [of x] unfolding triple_def by simp
    with Inr mw show ?thesis by (simp add: bindIO_def)
  qed
qed

text \<open>Both results of a sequence, as rewriting: these unfold a short operation completely.\<close>

lemma bindIO_Inr_iff: "bindIO m f w = (Inr y, w'') \<longleftrightarrow> (\<exists>x w'. m w = (Inr x, w') \<and> f x w' = (Inr y, w''))"
  by (auto simp: bindIO_def split: prod.splits sum.splits)

lemma bindIO_Inl_iff:
  "bindIO m f w = (Inl e, w'') \<longleftrightarrow> m w = (Inl e, w'') \<or> (\<exists>x w'. m w = (Inr x, w') \<and> f x w' = (Inl e, w''))"
  by (auto simp: bindIO_def split: prod.splits sum.splits)

lemma whenE_iff:
  "whenE b e w = (Inr u, w') \<longleftrightarrow> \<not> b \<and> w' = w" "whenE b e w = (Inl e', w') \<longleftrightarrow> b \<and> e' = e \<and> w' = w"
  by (auto simp: whenE_def)

lemma catchIO_iff: "catchIO m w = (Inr r, w') \<longleftrightarrow> m w = (r, w')" "catchIO m w = (Inl e, w') \<longleftrightarrow> False"
  by (auto simp: catchIO_def split: prod.splits)

lemmas io_iffs = bindIO_Inr_iff bindIO_Inl_iff whenE_iff catchIO_iff

lemma triple_pre: "triple P' m Q R \<Longrightarrow> (\<And>w. P w \<Longrightarrow> P' w) \<Longrightarrow> triple P m Q R"
  by (fastforce simp: triple_def)

lemma triple_post:
  "triple P m Q' R' \<Longrightarrow> (\<And>x w. Q' x w \<Longrightarrow> Q x w) \<Longrightarrow> (\<And>e w. R' e w \<Longrightarrow> R e w) \<Longrightarrow> triple P m Q R"
  by (fastforce simp: triple_def split: prod.splits sum.splits)

lemma triple_conj:
  "triple P m Q R \<Longrightarrow> triple P' m Q' R' \<Longrightarrow>
   triple (\<lambda>w. P w \<and> P' w) m (\<lambda>x w. Q x w \<and> Q' x w) (\<lambda>e w. R e w \<and> R' e w)"
  by (fastforce simp: triple_def split: prod.splits sum.splits)

lemma triple_return: "(\<And>w. P w \<Longrightarrow> Q x w) \<Longrightarrow> triple P (returnIO x) Q R"
  by (simp add: triple_def)

lemma triple_throw: "(\<And>w. P w \<Longrightarrow> R e w) \<Longrightarrow> triple P (throwIO e) Q R"
  by (simp add: triple_def)

lemma triple_get: "(\<And>w. P w \<Longrightarrow> Q (f w) w) \<Longrightarrow> triple P (getIO f) Q R"
  by (simp add: triple_def)

lemma triple_upd: "(\<And>w. P w \<Longrightarrow> Q () (f w)) \<Longrightarrow> triple P (updIO f) Q R"
  by (simp add: triple_def)

lemma triple_when:
  "(\<And>w. P w \<Longrightarrow> b \<Longrightarrow> R e w) \<Longrightarrow> (\<And>w. P w \<Longrightarrow> \<not> b \<Longrightarrow> Q () w) \<Longrightarrow> triple P (whenE b e) Q R"
  by (cases b) (simp_all add: triple_def)

lemma triple_lift:
  "(\<And>w x. P w \<Longrightarrow> r = Inr x \<Longrightarrow> Q x w) \<Longrightarrow> (\<And>w e. P w \<Longrightarrow> r = Inl e \<Longrightarrow> R e w) \<Longrightarrow> triple P (liftE r) Q R"
  by (cases r) (simp_all add: triple_def)

lemma triple_catch:
  assumes "triple P m (\<lambda>x w. Q (Inr x) w) (\<lambda>e w. Q (Inl e) w)"
  shows "triple P (catchIO m) Q R"
  unfolding triple_def
proof (intro allI impI)
  fix w assume "P w"
  obtain r w' where "m w = (r, w')" by (cases "m w")
  with assms \<open>P w\<close> have "Q r w'" by (cases r) (auto dest: triple_Inr triple_Inl)
  with \<open>m w = (r, w')\<close> show "case catchIO m w of (Inr x, w') \<Rightarrow> Q x w' | (Inl e, w') \<Rightarrow> R e w'"
    by (simp add: catchIO_def)
qed

lemma triple_if:
  "(b \<Longrightarrow> triple P m Q R) \<Longrightarrow> (\<not> b \<Longrightarrow> triple P n Q R) \<Longrightarrow> triple P (if b then m else n) Q R"
  by simp

text \<open>A fact about the starting world that the operation's precondition fixes.\<close>

lemma triple_assume: "(\<And>w0. P w0 \<Longrightarrow> triple (\<lambda>w. w = w0) m Q R) \<Longrightarrow> triple P m Q R"
  by (fastforce simp: triple_def)

lemma triple_fact: "(\<And>w. P w \<Longrightarrow> B) \<Longrightarrow> (B \<Longrightarrow> triple P m Q R) \<Longrightarrow> triple P m Q R"
  by (fastforce simp: triple_def)

section \<open>Operations that leave the observed part of the world alone\<close>

text \<open>\<open>quiet v m\<close>: the operation \<open>m\<close> keeps the view \<open>v\<close> of the world.\<close>

definition quiet :: "('w \<Rightarrow> 'v) \<Rightarrow> ('w, 'e, 'a) io \<Rightarrow> bool" where
  "quiet v m \<longleftrightarrow> (\<forall>w. v (snd (m w)) = v w)"

lemma quiet_triple: "quiet v m \<Longrightarrow> triple (\<lambda>w. I (v w)) m (\<lambda>_ w. I (v w)) (\<lambda>_ w. I (v w))"
  by (intro tripleI) (metis quiet_def snd_conv)+

lemma quietD: "quiet v m \<Longrightarrow> m w = (r, w') \<Longrightarrow> v w' = v w"
  by (metis quiet_def snd_conv)

lemma quiet_unit [simp, intro]:
  "quiet v (returnIO x)" "quiet v (throwIO e)" "quiet v (liftE r)" "quiet v (getIO f)" "quiet v (whenE b e)"
  by (simp_all add: quiet_def whenE_def)

lemma quiet_upd: "(\<And>w. v (f w) = v w) \<Longrightarrow> quiet v (updIO f)"
  by (simp add: quiet_def)

lemma quiet_bind [intro]:
  assumes "quiet v m" and "\<And>x. quiet v (f x)"
  shows "quiet v (bindIO m f)"
  using assms by (auto simp: quiet_def bindIO_def split: prod.splits sum.splits) (metis snd_conv)+

lemma quiet_catch [intro]: "quiet v m \<Longrightarrow> quiet v (catchIO m)"
  by (auto simp: quiet_def catchIO_def split: prod.splits) (metis snd_conv)

lemma quiet_if [intro]: "(b \<Longrightarrow> quiet v m) \<Longrightarrow> (\<not> b \<Longrightarrow> quiet v n) \<Longrightarrow> quiet v (if b then m else n)"
  by simp

end
