(* ===== verification/KataResources.thy ===== *)
theory KataResources
  imports GoStrings
begin

text \<open>
  \<open>internal/kataguard\<close>: the resource profiles of Kata workers (\<open>resources.go\<close>,
  \<open>profile_registry.go\<close>) and the trusted path walk of \<open>manifest.go\<close>.  A profile is the pinned
  capacity contract of one worker; the node has three built-in profiles and at most 32 of its own.
  The \<open>int64\<close> fields are integers: the checks bound every operand before a sum is taken.
\<close>

section \<open>Errors of the node\<close>

text \<open>
  Every error value of the package.  Only \<open>os.ErrNotExist\<close>, the engine's own not-found (\<open>ENoWorker\<close>),
  \<open>ErrCapacity\<close> and \<open>ErrLaunchConflict\<close> are told apart by code; the others carry their message, one
  constructor for each.
\<close>

datatype profile_fault = BadName | BuiltinName | OutOfBounds | TooManyProfiles | DuplicateProfile
  | UnknownProfile | ProfileChanged | ProfilesChanged | UnsupportedPIDs

datatype trust_fault = NotCleanPath | UntrustedType | UntrustedOwner | Malformed | TrailingData | TooLong
  | UntrustedSocket

datatype manifest_fault = ConfigMismatch | CacheMode | FSArgs | Registration | DaemonConfig
  | UnsupportedManifest | MissingAsset string | NotExecutable string | ChecksumMismatch string
  | BindingMismatch string | GuestPolicy | ManifestChanged | NotAttested | MissingController string

datatype guard_fault = MaxWorkers | BadEndpoint | BadCgroupRoot | BadAllocation | BadWorker
  | UntrustedRecord | OtherWorker | NotOwner | LimitMismatch string | Occupied | UnknownGroup

datatype process_fault = UnexpectedProcess | OtherIdentity | MovedOut | IdentityChanged | NotInside string
  | OwnershipMismatch | BadPid | UnreadableProcess

datatype inventory_fault = VMRequired | VMNotFound string | AmbiguousVM | HasContainer | Untracked
  | OrphanRunning | RecentReservation | EngineDown | StillPresent | WorkerChanged

datatype launch_fault = BadDigest | BadLaunchRecord | BadLaunchState | LeaseNotCurrent | ResultMismatch

datatype node_fault = OtherEndpoint | UnknownAction | OtherNodeProfile | VersionMismatch string string
  | NoCoherentCache | NodeProfileChanged

datatype kata_error =
    ENotFound | ENoWorker | EIOFault | ECanceled | EExists | EBusy | ECapacity | EConflict
  | EProfile profile_fault | ETrust trust_fault | EManifest manifest_fault | EGuard guard_fault
  | EProcess process_fault | EInventory inventory_fault | ELaunch launch_fault | ENode node_fault

section \<open>Profiles\<close>

record resource_profile =
  rp_name :: string
  rp_cpus :: int
  rp_guest :: int
  rp_host :: int
  rp_pids :: int

definition mib :: int where "mib = 2 ^ 20"

definition guest_memory :: int where "guest_memory = 2048 * 1024 * 1024"
definition host_memory :: int where "host_memory = 3072 * 1024 * 1024"
definition small_guest_memory :: int where "small_guest_memory = 1024 * 1024 * 1024"
definition small_host_memory :: int where "small_host_memory = 2048 * 1024 * 1024"
definition compact_guest_memory :: int where "compact_guest_memory = 512 * 1024 * 1024"
definition compact_host_memory :: int where "compact_host_memory = 768 * 1024 * 1024"

lemmas memory_sizes = guest_memory_def host_memory_def small_guest_memory_def small_host_memory_def
  compact_guest_memory_def compact_host_memory_def mib_def

definition current_profile :: resource_profile where
  "current_profile = \<lparr>rp_name = ''standard'', rp_cpus = 1, rp_guest = guest_memory,
     rp_host = host_memory, rp_pids = 512\<rparr>"

definition small_profile :: resource_profile where
  "small_profile = \<lparr>rp_name = ''small'', rp_cpus = 1, rp_guest = small_guest_memory,
     rp_host = small_host_memory, rp_pids = 512\<rparr>"

definition compact_profile :: resource_profile where
  "compact_profile = \<lparr>rp_name = ''compact'', rp_cpus = 1, rp_guest = compact_guest_memory,
     rp_host = compact_host_memory, rp_pids = 512\<rparr>"

definition lookup_profile :: "string \<Rightarrow> resource_profile option" where
  "lookup_profile n =
     (if n = [] \<or> n = ''standard'' then Some current_profile
      else if n = ''small'' then Some small_profile
      else if n = ''compact'' then Some compact_profile
      else None)"

definition builtin_profiles :: "resource_profile list" where
  "builtin_profiles = [current_profile, small_profile, compact_profile]"

definition show_int :: "int \<Rightarrow> string" where
  "show_int i = (if i < 0 then CHR ''-'' # show_nat (nat (- i)) else show_nat (nat i))"

definition cpu_quota :: "resource_profile \<Rightarrow> string" where
  "cpu_quota p = show_int (rp_cpus p * 100000) @ '' 100000''"

text \<open>The regular expression \<open>^[a-z][a-z0-9-]{0,62}$\<close>.\<close>

definition resource_profile_name :: "string \<Rightarrow> bool" where
  "resource_profile_name n \<longleftrightarrow> (case n of [] \<Rightarrow> False | c # cs \<Rightarrow>
     CHR ''a'' \<le> c \<and> c \<le> CHR ''z'' \<and> length cs \<le> 62 \<and>
     list_all (\<lambda>d. (CHR ''a'' \<le> d \<and> d \<le> CHR ''z'') \<or> is_digit d \<or> d = CHR ''-'') cs)"

definition profile_out_of_bounds :: "resource_profile \<Rightarrow> bool" where
  "profile_out_of_bounds p \<longleftrightarrow>
     rp_cpus p < 1 \<or> 64 < rp_cpus p \<or>
     rp_guest p < compact_guest_memory \<or> guest_memory < rp_guest p \<or> rp_guest p mod mib \<noteq> 0 \<or>
     rp_host p < rp_guest p + 256 * mib \<or> host_memory < rp_host p \<or> rp_host p mod mib \<noteq> 0 \<or>
     rp_pids p < 64 \<or> 4096 < rp_pids p"

definition validate_custom_profile :: "resource_profile \<Rightarrow> kata_error option" where
  "validate_custom_profile p =
     (if \<not> resource_profile_name (rp_name p) then Some (EProfile BadName)
      else if lookup_profile (rp_name p) \<noteq> None then Some (EProfile BuiltinName)
      else if profile_out_of_bounds p then Some (EProfile OutOfBounds)
      else None)"

section \<open>The registry\<close>

text \<open>
  A file the node reads: its state on disk as the reader meets it.  The JSON decoder of the
  standard library is not modelled; the document is what it decodes with unknown fields refused.
\<close>

datatype 'a document = Unreadable kata_error | Oversized | Undecodable | Trailing | Document 'a

definition decoded :: "'a document \<Rightarrow> (kata_error, 'a) result" where
  "decoded d = (case d of Unreadable e \<Rightarrow> Inl e | Oversized \<Rightarrow> Inl (ETrust TooLong)
     | Undecodable \<Rightarrow> Inl (ETrust Malformed) | Trailing \<Rightarrow> Inl (ETrust TrailingData) | Document x \<Rightarrow> Inr x)"

text \<open>The loop over the decoded profiles, with the names already seen.\<close>

fun check_profiles :: "string list \<Rightarrow> resource_profile list \<Rightarrow> kata_error option" where
  "check_profiles seen [] = None"
| "check_profiles seen (p # ps) =
     (case validate_custom_profile p of
        Some e \<Rightarrow> Some e
      | None \<Rightarrow>
          if rp_name p \<in> set seen then Some (EProfile DuplicateProfile)
          else check_profiles (rp_name p # seen) ps)"

definition accept_profiles :: "resource_profile list \<Rightarrow> (kata_error, resource_profile list) result" where
  "accept_profiles ps =
     (if 32 < length ps then Inl (EProfile TooManyProfiles)
      else case check_profiles [] ps of Some e \<Rightarrow> Inl e | None \<Rightarrow> Inr ps)"

text \<open>\<open>Guard.resourceProfile\<close> and \<open>Guard.resourceProfiles\<close>, over the node's own profiles.\<close>

definition registry_lookup :: "resource_profile list \<Rightarrow> string \<Rightarrow> resource_profile option" where
  "registry_lookup ps n =
     (case lookup_profile n of Some p \<Rightarrow> Some p | None \<Rightarrow> find (\<lambda>p. rp_name p = n) ps)"

definition registry_profiles :: "resource_profile list \<Rightarrow> resource_profile list" where
  "registry_profiles ps = builtin_profiles @ ps"

section \<open>Trusted paths\<close>

datatype node_kind = RegularNode | DirNode | SymlinkNode | SocketNode | OtherNode

record node_stat =
  ns_kind :: node_kind
  ns_uid :: int
  ns_perm :: nat
  ns_sticky :: bool
  ns_file :: string

text \<open>\<open>ns_file\<close> is the identity that \<open>os.SameFile\<close> compares (device and inode).\<close>

type_synonym stat_fun = "string \<Rightarrow> (kata_error, node_stat) result"

definition clean_path :: "string \<Rightarrow> bool" where
  "clean_path p \<longleftrightarrow> is_abs p \<and> path_clean p = p \<and> p \<noteq> ''/'' \<and>
     \<not> contains_any p [CHR 0x0D, CHR 0x0A, CHR 0x00]"

text \<open>
  The paths \<open>current\<close> takes: the clean path itself, then every ancestor below \<open>/\<close>.
\<close>

definition path_of_parts :: "string list \<Rightarrow> string" where
  "path_of_parts ws = ''/'' @ join_with ''/'' ws"

definition path_parts :: "string \<Rightarrow> string list" where
  "path_parts p = split_on CHR ''/'' (drop 1 p)"

definition path_chain :: "string \<Rightarrow> string list" where
  "path_chain p = (let ws = path_parts p in
     map (\<lambda>k. path_of_parts (take k ws)) (rev [1..<Suc (length ws)]))"

definition group_or_world_writable :: "node_stat \<Rightarrow> bool" where
  "group_or_world_writable s \<longleftrightarrow> ns_perm s div 16 mod 2 = 1 \<or> ns_perm s div 2 mod 2 = 1"

definition trusted_owner :: "int \<Rightarrow> node_stat \<Rightarrow> bool" where
  "trusted_owner euid s \<longleftrightarrow> ns_uid s = 0 \<or> ns_uid s = euid"

definition root_owner :: "node_stat \<Rightarrow> bool" where
  "root_owner s \<longleftrightarrow> ns_uid s = 0"

definition trusted_step :: "stat_fun \<Rightarrow> int \<Rightarrow> string \<Rightarrow> bool \<Rightarrow> string \<Rightarrow> kata_error option" where
  "trusted_step lstat euid path directory current =
     (case lstat current of Inl e \<Rightarrow> Some e
      | Inr s \<Rightarrow>
          if ns_kind s = SymlinkNode \<or> ((current \<noteq> path \<or> directory) \<and> ns_kind s \<noteq> DirNode) \<or>
             (current = path \<and> \<not> directory \<and> ns_kind s \<noteq> RegularNode) then Some (ETrust UntrustedType)
          else if \<not> trusted_owner euid s \<or>
             (group_or_world_writable s \<and> (current = path \<or> \<not> ns_sticky s)) then Some (ETrust UntrustedOwner)
          else None)"

definition trusted_path :: "stat_fun \<Rightarrow> int \<Rightarrow> string \<Rightarrow> bool \<Rightarrow> kata_error option" where
  "trusted_path lstat euid path directory =
     (if \<not> clean_path path then Some (ETrust NotCleanPath)
      else first_err (trusted_step lstat euid path directory) (path_chain path))"

definition require :: "kata_error option \<Rightarrow> (kata_error, unit) result" where
  "require e = (case e of Some x \<Rightarrow> Inl x | None \<Rightarrow> Inr ())"

text \<open>\<open>loadResourceProfiles\<close>: the file must be trusted before it is opened.\<close>

definition load_profiles ::
  "stat_fun \<Rightarrow> int \<Rightarrow> (string \<Rightarrow> resource_profile list document) \<Rightarrow> string \<Rightarrow> (kata_error, resource_profile list) result" where
  "load_profiles lstat euid doc path =
     (if path = [] then Inr []
      else bindE (require (trusted_path lstat euid path False)) (\<lambda>_.
        bindE (decoded (doc path)) accept_profiles))"

section \<open>Well-formed profiles and registries\<close>

definition profile_in_envelope :: "resource_profile \<Rightarrow> bool" where
  "profile_in_envelope p \<longleftrightarrow>
     1 \<le> rp_cpus p \<and> rp_cpus p \<le> 64 \<and>
     compact_guest_memory \<le> rp_guest p \<and> rp_guest p \<le> guest_memory \<and>
     rp_guest p + 256 * mib \<le> rp_host p \<and> rp_host p \<le> host_memory \<and>
     64 \<le> rp_pids p \<and> rp_pids p \<le> 4096 \<and> mib dvd rp_guest p \<and> mib dvd rp_host p"

definition registry_ok :: "resource_profile list \<Rightarrow> bool" where
  "registry_ok ps \<longleftrightarrow> distinct (map rp_name (registry_profiles ps)) \<and>
     (\<forall>p \<in> set (registry_profiles ps). profile_in_envelope p \<and> resource_profile_name (rp_name p)) \<and>
     length ps \<le> 32"

lemma require_simps [simp]: "require (Some e) = Inl e" "require None = Inr ()"
  by (simp_all add: require_def)

lemma require_Inr [result_simps]: "require e = Inr u \<longleftrightarrow> e = None"
  by (cases e) simp_all

lemma decoded_Inr [result_simps]: "decoded d = Inr x \<longleftrightarrow> d = Document x"
  by (cases d) (simp_all add: decoded_def)

lemma lookup_profile_name:
  "lookup_profile n = Some p \<Longrightarrow> p \<in> set builtin_profiles \<and> (n = [] \<and> p = current_profile \<or> rp_name p = n)"
  by (auto simp: lookup_profile_def builtin_profiles_def current_profile_def small_profile_def
      compact_profile_def split: if_splits)

lemma lookup_builtin: "p \<in> set builtin_profiles \<Longrightarrow> lookup_profile (rp_name p) = Some p"
  by (auto simp: lookup_profile_def builtin_profiles_def current_profile_def small_profile_def
      compact_profile_def)

lemma builtin_in_envelope: "p \<in> set builtin_profiles \<Longrightarrow> profile_in_envelope p"
  by (auto simp: builtin_profiles_def current_profile_def small_profile_def compact_profile_def
      profile_in_envelope_def memory_sizes)

lemma builtin_names: "p \<in> set builtin_profiles \<Longrightarrow> resource_profile_name (rp_name p)"
  by (auto simp: builtin_profiles_def current_profile_def small_profile_def compact_profile_def
      resource_profile_name_def less_eq_char_def is_digit_def)

lemma builtin_distinct: "distinct (map rp_name builtin_profiles)"
  by (simp add: builtin_profiles_def current_profile_def small_profile_def compact_profile_def)

lemma validate_custom_None:
  "validate_custom_profile p = None \<longleftrightarrow>
     resource_profile_name (rp_name p) \<and> lookup_profile (rp_name p) = None \<and> profile_in_envelope p"
  by (auto simp: validate_custom_profile_def profile_out_of_bounds_def profile_in_envelope_def mod_eq_0_iff_dvd
      split: if_splits)

lemma check_profiles_None:
  "check_profiles seen ps = None \<longleftrightarrow>
     (\<forall>p \<in> set ps. validate_custom_profile p = None \<and> rp_name p \<notin> set seen) \<and> distinct (map rp_name ps)"
  by (induction ps arbitrary: seen) (auto simp: image_iff split: option.splits if_splits)

lemma accept_profiles_Inr:
  "accept_profiles ps = Inr qs \<longleftrightarrow> qs = ps \<and> length ps \<le> 32 \<and> distinct (map rp_name ps) \<and>
     (\<forall>p \<in> set ps. validate_custom_profile p = None)"
  using check_profiles_None [of "[]" ps] by (cases "check_profiles [] ps") (auto simp: accept_profiles_def)

lemma accept_registry_ok:
  assumes "accept_profiles ps = Inr qs"
  shows "registry_ok qs"
proof -
  have a: "qs = ps" "length ps \<le> 32" "distinct (map rp_name ps)"
    and v: "\<And>p. p \<in> set ps \<Longrightarrow> validate_custom_profile p = None"
    using assms by (auto simp: accept_profiles_Inr)
  have "rp_name b \<noteq> rp_name p" if "b \<in> set builtin_profiles" "p \<in> set ps" for b p
    using lookup_builtin [OF that(1)] v [OF that(2)] by (auto simp: validate_custom_None)
  then have "distinct (map rp_name (registry_profiles ps))"
    using a(3) builtin_distinct by (auto simp: registry_profiles_def)
  moreover have "profile_in_envelope p \<and> resource_profile_name (rp_name p)" if "p \<in> set (registry_profiles ps)" for p
    using that v [of p] builtin_in_envelope builtin_names
    by (auto simp: registry_profiles_def validate_custom_None)
  ultimately show ?thesis using a by (simp add: registry_ok_def)
qed

lemma find_SomeD: "find P xs = Some x \<Longrightarrow> x \<in> set xs \<and> P x"
  by (induction xs) (auto split: if_splits)

lemma registry_lookup_listed:
  "registry_lookup ps n = Some p \<Longrightarrow> p \<in> set (registry_profiles ps) \<and> (n = [] \<or> rp_name p = n)"
  by (auto simp: registry_lookup_def registry_profiles_def dest: lookup_profile_name find_SomeD
      split: option.splits)

lemma find_name_distinct:
  "distinct (map f xs) \<Longrightarrow> x \<in> set xs \<Longrightarrow> find (\<lambda>y. f y = f x) xs = Some x"
  by (induction xs) (auto simp: rev_image_eqI)

lemma registry_lookup_name:
  assumes "registry_ok ps" and "p \<in> set (registry_profiles ps)"
  shows "registry_lookup ps (rp_name p) = Some p"
proof (cases "p \<in> set builtin_profiles")
  case True
  then show ?thesis by (simp add: registry_lookup_def lookup_builtin)
next
  case False
  with assms(2) have p: "p \<in> set ps" by (simp add: registry_profiles_def)
  have d: "distinct (map rp_name ps)" and sep: "rp_name ` set builtin_profiles \<inter> rp_name ` set ps = {}"
    using assms(1) by (auto simp: registry_ok_def registry_profiles_def)
  have nonempty: "rp_name p \<noteq> []"
    using assms by (auto simp: registry_ok_def resource_profile_name_def)
  have "lookup_profile (rp_name p) = None"
  proof (cases "lookup_profile (rp_name p)")
    case (Some q)
    then have "q \<in> set builtin_profiles" "rp_name q = rp_name p"
      using lookup_profile_name [OF Some] nonempty by auto
    with sep p show ?thesis by (metis IntI empty_iff imageI)
  qed
  then show ?thesis using find_name_distinct [OF d p] by (simp add: registry_lookup_def)
qed

lemma load_registry_ok:
  assumes "load_profiles lstat euid doc path = Inr ps"
  shows "registry_ok ps"
proof (cases "path = []")
  case True
  with assms have "ps = []" by (simp add: load_profiles_def)
  then show ?thesis using accept_registry_ok [of "[]"] by (simp add: accept_profiles_def)
next
  case False
  with assms show ?thesis by (auto simp: load_profiles_def result_simps intro: accept_registry_ok)
qed

text \<open>C30: A resource-profile file the node accepts gives a well-formed registry: with the three
  built-in profiles, all names are distinct and valid and every profile stays in the pinned CPU,
  memory and PID envelope; every listed profile is what its name looks up, every successful lookup is
  a listed profile, and the empty name means the standard one.\<close>

theorem registry_well_formed:
  assumes "load_profiles lstat euid doc path = Inr ps"
  shows "registry_ok ps \<and>
    (\<forall>n p. registry_lookup ps n = Some p \<longrightarrow>
       p \<in> set (registry_profiles ps) \<and> profile_in_envelope p \<and> (n = [] \<or> rp_name p = n)) \<and>
    (\<forall>q \<in> set (registry_profiles ps). registry_lookup ps (rp_name q) = Some q) \<and>
    registry_lookup ps [] = Some current_profile"
proof (intro conjI allI impI ballI)
  show ok: "registry_ok ps" using assms by (rule load_registry_ok)
  fix n p assume l: "registry_lookup ps n = Some p"
  show "p \<in> set (registry_profiles ps)" "n = [] \<or> rp_name p = n" using registry_lookup_listed [OF l] by auto
  with ok show "profile_in_envelope p" by (simp add: registry_ok_def)
next
  fix q assume "q \<in> set (registry_profiles ps)"
  with load_registry_ok [OF assms] show "registry_lookup ps (rp_name q) = Some q" by (rule registry_lookup_name)
qed (simp add: registry_lookup_def lookup_profile_def)

definition sample_profile :: resource_profile where
  "sample_profile = \<lparr>rp_name = ''wide'', rp_cpus = 8, rp_guest = 1024 * mib, rp_host = 1280 * mib, rp_pids = 4096\<rparr>"

definition sample_dir_stat :: node_stat where
  "sample_dir_stat = \<lparr>ns_kind = DirNode, ns_uid = 0, ns_perm = 493, ns_sticky = False, ns_file = ''d''\<rparr>"

definition sample_file_stat :: node_stat where
  "sample_file_stat = \<lparr>ns_kind = RegularNode, ns_uid = 0, ns_perm = 420, ns_sticky = False, ns_file = ''f''\<rparr>"

definition sample_lstat :: stat_fun where
  "sample_lstat p = (if p = ''/etc'' then Inr sample_dir_stat
     else if p = ''/etc/p'' then Inr sample_file_stat else Inl ENotFound)"

lemma sample_trusted: "trusted_path sample_lstat 0 ''/etc/p'' False = None"
  by code_simp

lemma sample_accepted: "accept_profiles [sample_profile] = Inr [sample_profile]"
  by code_simp

text \<open>A profile file with one eight-core profile.\<close>

theorem registry_well_formed_witness:
  "registry_ok [sample_profile] \<and> registry_lookup [sample_profile] ''wide'' = Some sample_profile \<and>
   profile_in_envelope sample_profile"
proof -
  have l: "load_profiles sample_lstat 0 (\<lambda>_. Document [sample_profile]) ''/etc/p'' = Inr [sample_profile]"
    by (simp add: load_profiles_def sample_trusted sample_accepted decoded_def)
  have "sample_profile \<in> set (registry_profiles [sample_profile])" by (simp add: registry_profiles_def)
  moreover have "rp_name sample_profile = ''wide''" by (simp add: sample_profile_def)
  ultimately show ?thesis using registry_well_formed [OF l] by metis
qed

section \<open>What a trusted path is\<close>

lemma path_chain_nonempty: "path_chain p \<noteq> []"
proof -
  have "path_parts p \<noteq> []" unfolding path_parts_def by (cases "drop 1 p") (auto split: list.splits)
  then show ?thesis by (simp add: path_chain_def Let_def Suc_le_eq)
qed

lemma trusted_step_None:
  "trusted_step lstat euid path directory current = None \<longleftrightarrow>
     (\<exists>s. lstat current = Inr s \<and> trusted_owner euid s \<and>
        ns_kind s = (if current = path \<and> \<not> directory then RegularNode else DirNode) \<and>
        (group_or_world_writable s \<longrightarrow> current \<noteq> path \<and> ns_sticky s))"
  by (auto simp: trusted_step_def split: sum.splits)

lemma trusted_path_chain:
  assumes "trusted_path lstat euid path directory = None" and "current \<in> set (path_chain path)"
  shows "\<exists>s. lstat current = Inr s \<and> trusted_owner euid s \<and>
        ns_kind s = (if current = path \<and> \<not> directory then RegularNode else DirNode) \<and>
        (group_or_world_writable s \<longrightarrow> current \<noteq> path \<and> ns_sticky s)"
  using assms by (auto simp: trusted_path_def first_err_None_iff trusted_step_None split: if_splits)

end
