(* ===== verification/KataManifest.thy ===== *)
theory KataManifest
  imports KataResources
begin

text \<open>
  \<open>internal/kataguard/manifest.go\<close>, \<open>guest_policy.go\<close> and the construction and validation of a
  guard in \<open>host_linux.go\<close>: sealing the installed Kata files into a manifest, loading it again with
  every check, and attesting the dedicated containerd process.  The host is a record of what its
  files, links and processes answer; decoded TOML and JSON documents, SHA-256 and the ELF reader are
  answers of the host.  A Go map is an association list in a fixed order of its keys.
\<close>

section \<open>Documents\<close>

record asset =
  as_path :: string
  as_sha :: string

record manifest =
  mf_version :: int
  mf_profile :: string
  mf_runtime :: string
  mf_assets :: "(string \<times> asset) list"

datatype toml_value = TBool bool | TString string | TArray nat | TOther

text \<open>\<open>hy_cpus_zero\<close>: the decoded float \<open>overhead_vcpus\<close> equals 0.\<close>

record hypervisor =
  hy_kernel :: string
  hy_image :: string
  hy_shared :: string
  hy_cache :: string
  hy_args :: "string list"
  hy_hook :: string
  hy_memory :: int
  hy_max :: int
  hy_overhead :: int
  hy_cpus_zero :: bool

record kata_config =
  kc_hypervisors :: "(string \<times> hypervisor) list"
  kc_runtime :: "(string \<times> toml_value) list"
  kc_annotations :: "toml_value option"

record daemon_config =
  dc_version :: int
  dc_root :: string
  dc_state :: string
  dc_address :: string
  dc_tcp :: string

record guest_policy_doc =
  gp_schema :: int
  gp_pids :: int
  gp_policy :: string
  gp_image :: string

record elf_info =
  el_class64 :: bool
  el_x86_64 :: bool
  el_interp :: bool

record proc_entry =
  pe_name :: string
  pe_exe :: "(kata_error, node_stat) result"
  pe_base :: "(kata_error, node_stat) result"
  pe_cmdline :: "(kata_error, string) result"

record node_host =
  nh_lstat :: stat_fun
  nh_stat :: stat_fun
  nh_euid :: int
  nh_sha :: "string \<Rightarrow> (kata_error, string) result"
  nh_manifest :: "string \<Rightarrow> manifest document"
  nh_policy :: "string \<Rightarrow> guest_policy_doc document"
  nh_config :: "string \<Rightarrow> kata_config document"
  nh_daemon :: "string \<Rightarrow> daemon_config document"
  nh_profiles :: "string \<Rightarrow> resource_profile list document"
  nh_links :: "string \<Rightarrow> (kata_error, string) result"
  nh_lookpath :: "string \<Rightarrow> (kata_error, string) result"
  nh_elf :: "string \<Rightarrow> elf_info document"
  nh_write :: "string \<Rightarrow> manifest \<Rightarrow> kata_error option"
  nh_mkdir :: "string \<Rightarrow> kata_error option"
  nh_cgroup2 :: "string \<Rightarrow> bool"
  nh_features :: "string \<Rightarrow> string list option"
  nh_processes :: "(kata_error, proc_entry list) result"
  nh_read :: "string \<Rightarrow> (kata_error, string) result"
  nh_digest :: "manifest \<Rightarrow> string"

definition pinned_profile :: string where
  "pinned_profile = ''kata-dragonball-containerd-guard-v2''"

definition pinned_runtime :: string where
  "pinned_runtime = ''io.containerd.kata.v2''"

definition trusted_file :: "node_host \<Rightarrow> string \<Rightarrow> kata_error option" where
  "trusted_file h p = trusted_path (nh_lstat h) (nh_euid h) p False"

definition trusted_dir :: "node_host \<Rightarrow> string \<Rightarrow> kata_error option" where
  "trusted_dir h p = trusted_path (nh_lstat h) (nh_euid h) p True"

section \<open>The guest policy\<close>

definition guest_pid_policy :: string where
  "guest_pid_policy = ''oci-annotation-v1''"

definition guest_policy_of :: "guest_policy_doc \<Rightarrow> string \<Rightarrow> (kata_error, bool) result" where
  "guest_policy_of p img =
     (if gp_pids p \<noteq> 512 \<or> gp_image p \<noteq> img then Inl (EManifest GuestPolicy)
      else if gp_schema p = 1 \<and> gp_policy p = [] then Inr False
      else if gp_schema p \<noteq> 2 \<or> gp_policy p \<noteq> guest_pid_policy then Inl (EManifest GuestPolicy)
      else Inr True)"

definition read_guest_policy :: "node_host \<Rightarrow> string \<Rightarrow> string \<Rightarrow> (kata_error, bool) result" where
  "read_guest_policy h path img =
     bindE (require (trusted_file h path)) (\<lambda>_.
     bindE (decoded (nh_policy h path)) (\<lambda>p. guest_policy_of p img))"

section \<open>The Kata and containerd configurations\<close>

definition dragonball :: string where "dragonball = ''dragonball''"

definition fs_extra_args :: "string list" where
  "fs_extra_args = [''--thread-pool-size=1'', ''-o'', ''open,no_writeback_cache'']"

definition hypervisor_matches :: "hypervisor \<Rightarrow> bool" where
  "hypervisor_matches v \<longleftrightarrow> hy_shared v = ''inline-virtio-fs'' \<and> hy_hook v = ''/usr/share/codex-dock/hooks'' \<and>
     hy_memory v = 2560 \<and> hy_max v = 4096 \<and> hy_overhead v = 512 \<and> hy_cpus_zero v"

definition runtime_matches :: "(string \<times> toml_value) list \<Rightarrow> bool" where
  "runtime_matches rt \<longleftrightarrow> map_of rt ''disable_guest_seccomp'' = Some (TBool False) \<and>
     map_of rt ''sandbox_cgroup_only'' = Some (TBool True) \<and>
     map_of rt ''static_sandbox_resource_mgmt'' = Some (TBool True) \<and>
     map_of rt ''hypervisor_name'' = Some (TString dragonball)"

definition kata_config_error :: "kata_config \<Rightarrow> kata_error option" where
  "kata_config_error k =
     (case map_of (kc_hypervisors k) dragonball of
        None \<Rightarrow> Some (EManifest ConfigMismatch)
      | Some v \<Rightarrow>
          if length (kc_hypervisors k) \<noteq> 1 \<or> \<not> hypervisor_matches v \<or> \<not> runtime_matches (kc_runtime k) \<or>
             kc_annotations k \<noteq> Some (TArray 0) then Some (EManifest ConfigMismatch)
          else if hy_cache v \<noteq> ''none'' then Some (EManifest CacheMode)
          else if hy_args v \<noteq> fs_extra_args then Some (EManifest FSArgs)
          else None)"

definition daemon_config_error :: "daemon_config \<Rightarrow> kata_error option" where
  "daemon_config_error d =
     (if dc_version d \<noteq> 3 \<or> \<not> clean_path (dc_root d) \<or> \<not> clean_path (dc_state d) \<or>
         \<not> clean_path (dc_address d) \<or> dc_tcp d \<noteq> [] then Some (EManifest DaemonConfig) else None)"

definition read_config :: "node_host \<Rightarrow> string \<Rightarrow> string \<Rightarrow> string \<Rightarrow> (kata_error, kata_config \<times> daemon_config) result" where
  "read_config h kata daemon runtime =
     bindE (decoded (nh_config h kata)) (\<lambda>k.
     bindE (require (kata_config_error k)) (\<lambda>_.
     failE (runtime \<noteq> pinned_runtime) (EManifest Registration)
     (bindE (decoded (nh_daemon h daemon)) (\<lambda>d.
      bindE (require (daemon_config_error d)) (\<lambda>_. Inr (k, d))))))"

text \<open>\<open>k.Hypervisor["dragonball"]\<close>, present once \<open>readConfig\<close> has accepted the file.\<close>

definition dragonball_of :: "kata_config \<Rightarrow> string \<times> string" where
  "dragonball_of k = (case map_of (kc_hypervisors k) dragonball of
     Some v \<Rightarrow> (hy_kernel v, hy_image v) | None \<Rightarrow> ([], []))"

section \<open>Assets\<close>

definition executable_assets :: "string list" where
  "executable_assets = [''launcher'', ''runtime'', ''containerd'', ''ip'', ''nft'', ''sysctl'', ''runc'',
     ''runc-shim'', ''logger'']"

definition executable_asset :: "string \<Rightarrow> bool" where
  "executable_asset n \<longleftrightarrow> n \<in> set executable_assets"

definition any_executable_bit :: "node_stat \<Rightarrow> bool" where
  "any_executable_bit s \<longleftrightarrow> ns_perm s div 64 mod 2 = 1 \<or> ns_perm s div 8 mod 2 = 1 \<or> ns_perm s mod 2 = 1"

definition check_executable :: "node_host \<Rightarrow> string \<Rightarrow> string \<Rightarrow> (kata_error, unit) result" where
  "check_executable h name path =
     (if executable_asset name then
        bindE (nh_stat h path) (\<lambda>s. failE (\<not> any_executable_bit s) (EManifest (NotExecutable name)) (Inr ()))
      else Inr ())"

definition verify_asset :: "node_host \<Rightarrow> string \<times> asset \<Rightarrow> (kata_error, unit) result" where
  "verify_asset h = (\<lambda>(name, a).
     bindE (require (trusted_file h (as_path a))) (\<lambda>_.
     bindE (check_executable h name (as_path a)) (\<lambda>_.
     bindE (nh_sha h (as_path a)) (\<lambda>actual.
     failE (length (as_sha a) \<noteq> 64 \<or> actual \<noteq> as_sha a) (EManifest (ChecksumMismatch name)) (Inr ())))))"

text \<open>
  The workers run concurrently and one failing asset's error is kept; here it is the first in key
  order.  Which of several errors is reported is not claimed.
\<close>

definition verify_assets :: "node_host \<Rightarrow> (string \<times> asset) list \<Rightarrow> (kata_error, unit) result" where
  "verify_assets h as = bindE (mapE (verify_asset h) as) (\<lambda>_. Inr ())"

definition required_assets :: "string list" where
  "required_assets = [''config'', ''daemon'', ''containerd'', ''launcher'', ''runtime'', ''kernel'', ''image'',
     ''ip'', ''nft'', ''sysctl'', ''runc'', ''runc-shim'', ''logger'']"

definition asset_path :: "manifest \<Rightarrow> string \<Rightarrow> string" where
  "asset_path m n = (case map_of (mf_assets m) n of Some a \<Rightarrow> as_path a | None \<Rightarrow> [])"

definition asset_sha :: "manifest \<Rightarrow> string \<Rightarrow> string" where
  "asset_sha m n = (case map_of (mf_assets m) n of Some a \<Rightarrow> as_sha a | None \<Rightarrow> [])"

definition manifest_error :: "manifest \<Rightarrow> kata_error option" where
  "manifest_error m =
     (if mf_version m \<noteq> 2 \<or> mf_profile m \<noteq> pinned_profile \<or> mf_runtime m \<noteq> pinned_runtime
        then Some (EManifest UnsupportedManifest)
      else first_err (\<lambda>n. if map_of (mf_assets m) n = None then Some (EManifest (MissingAsset n)) else None)
        required_assets)"

definition check_guest_policy :: "node_host \<Rightarrow> manifest \<Rightarrow> (kata_error, unit) result" where
  "check_guest_policy h m =
     (case map_of (mf_assets m) ''guest-policy'' of None \<Rightarrow> Inr ()
      | Some a \<Rightarrow> bindE (read_guest_policy h (as_path a) (asset_sha m ''image'')) (\<lambda>supported.
          failE (\<not> supported) (EManifest GuestPolicy) (Inr ())))"

definition check_bindings :: "node_host \<Rightarrow> manifest \<Rightarrow> (kata_error, unit) result" where
  "check_bindings h m =
     bindE (read_config h (asset_path m ''config'') (asset_path m ''daemon'') (mf_runtime m)) (\<lambda>(k, d).
     bindE (nh_links h (fst (dragonball_of k))) (\<lambda>kernel.
     failE (asset_path m ''kernel'' \<noteq> kernel) (EManifest (BindingMismatch ''kernel''))
     (failE (asset_path m ''image'' \<noteq> snd (dragonball_of k)) (EManifest (BindingMismatch ''image'')) (Inr ()))))"

definition load_manifest :: "node_host \<Rightarrow> string \<Rightarrow> (kata_error, manifest) result" where
  "load_manifest h path =
     bindE (require (trusted_file h path)) (\<lambda>_.
     bindE (decoded (nh_manifest h path)) (\<lambda>m.
     bindE (require (manifest_error m)) (\<lambda>_.
     bindE (verify_assets h (mf_assets m)) (\<lambda>_.
     bindE (check_guest_policy h m) (\<lambda>_.
     bindE (check_bindings h m) (\<lambda>_. Inr m))))))"

section \<open>Sealing\<close>

definition check_launcher :: "node_host \<Rightarrow> string \<Rightarrow> (kata_error, unit) result" where
  "check_launcher h launcher =
     bindE (decoded (nh_elf h launcher)) (\<lambda>e.
     failE (\<not> el_class64 e \<or> \<not> el_x86_64 e) (EManifest (NotExecutable ''launcher''))
     (failE (el_interp e) (EManifest (NotExecutable ''launcher'')) (Inr ())))"

definition default_shim :: string where
  "default_shim = ''/opt/kata/runtime-rs/bin/containerd-shim-kata-v2''"

definition shim_of :: "string list \<Rightarrow> string" where
  "shim_of shims = (case shims of [] \<Rightarrow> default_shim | s # ss \<Rightarrow> s)"

definition node_tools :: "(string \<times> string) list" where
  "node_tools = [(''ip'', ''ip''), (''logger'', ''codex-dock-io-logger''), (''nft'', ''nft''), (''runc'', ''runc''),
     (''runc-shim'', ''containerd-shim-runc-v2''), (''sysctl'', ''sysctl'')]"

definition tool_path :: "node_host \<Rightarrow> string list \<Rightarrow> string \<times> string \<Rightarrow> (kata_error, string \<times> string) result" where
  "tool_path h shims = (\<lambda>(key, name).
     bindE (if key = ''logger'' \<and> length shims = 2 \<and> shims ! 1 \<noteq> [] then Inr (shims ! 1) else nh_lookpath h name) (\<lambda>p.
     bindE (nh_links h p) (\<lambda>q. Inr (key, q))))"

definition seal_paths :: "kata_config \<Rightarrow> string \<Rightarrow> string \<Rightarrow> string \<Rightarrow> string \<Rightarrow> string \<Rightarrow> (string \<times> string) list" where
  "seal_paths k kata daemon containerd launcher shim =
     [(''config'', kata), (''containerd'', containerd), (''daemon'', daemon), (''image'', snd (dragonball_of k)),
      (''kernel'', fst (dragonball_of k)), (''launcher'', launcher), (''runtime'', shim)]"

definition seal_asset :: "node_host \<Rightarrow> string \<times> string \<Rightarrow> (kata_error, string \<times> asset) result" where
  "seal_asset h = (\<lambda>(name, path0).
     bindE (if name = ''kernel'' then nh_links h path0 else Inr path0) (\<lambda>path.
     bindE (require (trusted_file h path)) (\<lambda>_.
     bindE (check_executable h name path) (\<lambda>_.
     bindE (nh_sha h path) (\<lambda>sum. Inr (name, \<lparr>as_path = path, as_sha = sum\<rparr>))))))"

definition policy_file :: "string \<Rightarrow> string" where
  "policy_file img = path_clean (path_of_parts (butlast (path_parts img)) @ ''/assets.lock.json'')"

definition seal_policy :: "node_host \<Rightarrow> manifest \<Rightarrow> (kata_error, manifest) result" where
  "seal_policy h m = (let file = policy_file (asset_path m ''image'') in
     case nh_lstat h file of
       Inl e \<Rightarrow> if e = ENotFound then Inr m else Inl e
     | Inr s \<Rightarrow>
         bindE (read_guest_policy h file (asset_sha m ''image'')) (\<lambda>supported.
           if supported then bindE (nh_sha h file) (\<lambda>sum.
             Inr (m\<lparr>mf_assets := mf_assets m @ [(''guest-policy'', \<lparr>as_path = file, as_sha = sum\<rparr>)]\<rparr>))
           else Inr m))"

text \<open>\<open>O_CREATE|O_EXCL\<close> refuses every existing entry, links included; then the write and the sync.\<close>

definition write_exclusive :: "node_host \<Rightarrow> string \<Rightarrow> manifest \<Rightarrow> kata_error option" where
  "write_exclusive h output m = (case nh_lstat h output of
     Inr s \<Rightarrow> Some EExists | Inl e \<Rightarrow> if e = ENotFound then nh_write h output m else Some e)"

definition seal ::
  "node_host \<Rightarrow> string \<Rightarrow> string \<Rightarrow> string \<Rightarrow> string \<Rightarrow> string \<Rightarrow> string \<Rightarrow> string list \<Rightarrow> (kata_error, manifest) result" where
  "seal h kata daemon containerd launcher runtime output shims =
     failE (2 < length shims) (EManifest UnsupportedManifest)
     (bindE (check_launcher h launcher) (\<lambda>_.
      bindE (read_config h kata daemon runtime) (\<lambda>(k, d).
      bindE (mapE (tool_path h shims) node_tools) (\<lambda>tools.
      bindE (mapE (seal_asset h) (seal_paths k kata daemon containerd launcher (shim_of shims) @ tools)) (\<lambda>as.
      bindE (seal_policy h \<lparr>mf_version = 2, mf_profile = pinned_profile, mf_runtime = runtime, mf_assets = as\<rparr>) (\<lambda>m.
      bindE (require (write_exclusive h output m)) (\<lambda>_. Inr m)))))))"

section \<open>What loading and sealing give\<close>

lemma bindE_Inr_unit [result_simps]: "bindE m (\<lambda>_. Inr x) = Inr y \<longleftrightarrow> y = x \<and> (\<exists>z. m = Inr z)"
  by (cases m) auto

lemma verify_assets_Inr:
  "verify_assets h as = Inr () \<longleftrightarrow> (\<forall>na \<in> set as. verify_asset h na = Inr ())"
proof
  assume "verify_assets h as = Inr ()"
  then obtain us where "mapE (verify_asset h) as = Inr us" by (auto simp: verify_assets_def result_simps)
  then show "\<forall>na \<in> set as. verify_asset h na = Inr ()" using mapE_Inr_all by fastforce
next
  assume "\<forall>na \<in> set as. verify_asset h na = Inr ()"
  then have "\<exists>us. mapE (verify_asset h) as = Inr us" by (intro mapE_total) blast
  then show "verify_assets h as = Inr ()" by (auto simp: verify_assets_def)
qed

lemma manifest_error_None:
  "manifest_error m = None \<longleftrightarrow> mf_version m = 2 \<and> mf_profile m = pinned_profile \<and> mf_runtime m = pinned_runtime \<and>
     (\<forall>n \<in> set required_assets. map_of (mf_assets m) n \<noteq> None)"
  by (auto simp: manifest_error_def first_err_None_iff)

lemma load_manifest_Inr:
  "load_manifest h path = Inr m \<longleftrightarrow> trusted_file h path = None \<and> nh_manifest h path = Document m \<and>
     manifest_error m = None \<and> (\<forall>na \<in> set (mf_assets m). verify_asset h na = Inr ()) \<and>
     check_guest_policy h m = Inr () \<and> check_bindings h m = Inr ()"
  by (auto simp: load_manifest_def result_simps verify_assets_Inr)

lemma read_config_Inr:
  "read_config h kata daemon runtime = Inr (k, d) \<longleftrightarrow>
     nh_config h kata = Document k \<and> kata_config_error k = None \<and> runtime = pinned_runtime \<and>
     nh_daemon h daemon = Document d \<and> daemon_config_error d = None"
  by (auto simp: read_config_def result_simps)

lemma verify_asset_Inr:
  "verify_asset h (n, a) = Inr () \<longleftrightarrow> trusted_file h (as_path a) = None \<and>
     check_executable h n (as_path a) = Inr () \<and> length (as_sha a) = 64 \<and> nh_sha h (as_path a) = Inr (as_sha a)"
  by (auto simp: verify_asset_def result_simps)

lemma kata_config_None:
  assumes "kata_config_error k = None"
  shows "\<exists>v. kc_hypervisors k = [(dragonball, v)] \<and> hypervisor_matches v \<and> runtime_matches (kc_runtime k) \<and>
     kc_annotations k = Some (TArray 0) \<and> hy_cache v = ''none'' \<and> hy_args v = fs_extra_args"
proof -
  obtain v where m: "map_of (kc_hypervisors k) dragonball = Some v" and one: "length (kc_hypervisors k) = 1"
    and rest: "hypervisor_matches v" "runtime_matches (kc_runtime k)" "kc_annotations k = Some (TArray 0)"
      "hy_cache v = ''none''" "hy_args v = fs_extra_args"
    using assms by (auto simp: kata_config_error_def split: option.splits if_splits)
  obtain x where "kc_hypervisors k = [x]" using one by (auto simp: length_Suc_conv)
  with m have "kc_hypervisors k = [(dragonball, v)]" by (cases x) (auto split: if_splits)
  with rest show ?thesis by blast
qed

text \<open>What a pinned asset and a pinned configuration are.\<close>

definition pinned_asset :: "node_host \<Rightarrow> string \<Rightarrow> asset \<Rightarrow> bool" where
  "pinned_asset h n a \<longleftrightarrow> clean_path (as_path a) \<and> length (as_sha a) = 64 \<and> nh_sha h (as_path a) = Inr (as_sha a) \<and>
     (\<forall>c \<in> set (path_chain (as_path a)). \<exists>s. nh_lstat h c = Inr s \<and> trusted_owner (nh_euid h) s \<and>
        ns_kind s = (if c = as_path a then RegularNode else DirNode) \<and>
        (group_or_world_writable s \<longrightarrow> c \<noteq> as_path a \<and> ns_sticky s)) \<and>
     (executable_asset n \<longrightarrow> (\<exists>s. nh_stat h (as_path a) = Inr s \<and> any_executable_bit s))"

definition pinned_config :: "node_host \<Rightarrow> manifest \<Rightarrow> kata_config \<Rightarrow> daemon_config \<Rightarrow> hypervisor \<Rightarrow> bool" where
  "pinned_config h m k d v \<longleftrightarrow>
     nh_config h (asset_path m ''config'') = Document k \<and> nh_daemon h (asset_path m ''daemon'') = Document d \<and>
     kc_hypervisors k = [(dragonball, v)] \<and> hypervisor_matches v \<and> runtime_matches (kc_runtime k) \<and>
     kc_annotations k = Some (TArray 0) \<and> hy_cache v = ''none'' \<and> dc_tcp d = [] \<and>
     nh_links h (hy_kernel v) = Inr (asset_path m ''kernel'') \<and> hy_image v = asset_path m ''image''"

lemma verified_asset_pinned:
  assumes v: "verify_asset h (n, a) = Inr ()"
  shows "pinned_asset h n a"
proof -
  have t: "trusted_path (nh_lstat h) (nh_euid h) (as_path a) False = None"
    using v by (simp add: verify_asset_Inr trusted_file_def)
  then have "clean_path (as_path a)" by (simp add: trusted_path_def split: if_splits)
  moreover have "executable_asset n \<longrightarrow> (\<exists>s. nh_stat h (as_path a) = Inr s \<and> any_executable_bit s)"
    using v by (auto simp: verify_asset_Inr check_executable_def result_simps)
  ultimately show ?thesis using v trusted_path_chain [OF t] by (simp add: pinned_asset_def verify_asset_Inr)
qed

lemma checked_bindings_pinned:
  assumes "check_bindings h m = Inr ()"
  shows "\<exists>k d v. pinned_config h m k d v"
proof -
  obtain k d where r: "read_config h (asset_path m ''config'') (asset_path m ''daemon'') (mf_runtime m) = Inr (k, d)"
    and b: "nh_links h (fst (dragonball_of k)) = Inr (asset_path m ''kernel'')" "asset_path m ''image'' = snd (dragonball_of k)"
    using assms by (auto simp: check_bindings_def result_simps)
  note rc = read_config_Inr [THEN iffD1, OF r]
  obtain v where v: "kc_hypervisors k = [(dragonball, v)]" "hypervisor_matches v" "runtime_matches (kc_runtime k)"
      "kc_annotations k = Some (TArray 0)" "hy_cache v = ''none''"
    using kata_config_None rc by blast
  have "dc_tcp d = []" using rc by (simp add: daemon_config_error_def split: if_splits)
  moreover have "dragonball_of k = (hy_kernel v, hy_image v)" using v(1) by (simp add: dragonball_of_def)
  ultimately have "pinned_config h m k d v" using rc v b by (simp add: pinned_config_def)
  then show ?thesis by blast
qed

text \<open>C20: A manifest the node loads pins the node completely: every required asset is in it; each
  asset's path is clean and absolute and cannot be replaced by another user (every ancestor a directory
  of root or the node, not writable by others unless sticky), its file hashes to the pinned SHA-256 of 64
  digits and is executable where the node runs it; the pinned Kata configuration has exactly the
  Dragonball hypervisor with guest seccomp, sandbox-only cgroups, static sizing, no guest-chosen
  annotations and no virtio-fs cache; and the configuration's kernel and image are the hashed ones.\<close>

theorem loaded_manifest_pinned:
  assumes "load_manifest h path = Inr m"
  shows "mf_version m = 2 \<and> mf_profile m = pinned_profile \<and> mf_runtime m = pinned_runtime \<and>
    (\<forall>n \<in> set required_assets. map_of (mf_assets m) n \<noteq> None) \<and>
    (\<forall>(n, a) \<in> set (mf_assets m). pinned_asset h n a) \<and>
    (\<exists>k d v. pinned_config h m k d v)"
proof (intro conjI)
  note l = load_manifest_Inr [THEN iffD1, OF assms]
  show "mf_version m = 2" "mf_profile m = pinned_profile" "mf_runtime m = pinned_runtime"
    "\<forall>n \<in> set required_assets. map_of (mf_assets m) n \<noteq> None"
    using l by (auto simp: manifest_error_None)
  show "\<forall>(n, a) \<in> set (mf_assets m). pinned_asset h n a" using l verified_asset_pinned by blast
  show "\<exists>k d v. pinned_config h m k d v" using l checked_bindings_pinned by blast
qed

section \<open>Sealing and loading again\<close>

lemma first_err_cong_None:
  "first_err f xs = None \<Longrightarrow> (\<And>x. x \<in> set xs \<Longrightarrow> f x = None \<Longrightarrow> g x = None) \<Longrightarrow> first_err g xs = None"
  by (simp add: first_err_None_iff)

text \<open>Creating one new file leaves every path that was trusted before trusted.\<close>

lemma trusted_path_new_file:
  assumes "trusted_path l u p dir = None" and "l output = Inl e"
  shows "trusted_path (l(output := Inr s)) u p dir = None"
proof -
  have "l c \<noteq> Inl e" if "trusted_step l u p dir c = None" for c using that by (auto simp: trusted_step_None)
  then have "trusted_step (l(output := Inr s)) u p dir c = None" if "trusted_step l u p dir c = None" for c
    using that assms(2) by (cases "c = output") (auto simp: trusted_step_def)
  with assms(1) show ?thesis
    by (auto simp: trusted_path_def intro: first_err_cong_None split: if_splits)
qed

text \<open>The host after \<open>Seal\<close> has written its output: one new private regular file with that document.\<close>

definition sealed_stat :: "node_host \<Rightarrow> node_stat" where
  "sealed_stat h = \<lparr>ns_kind = RegularNode, ns_uid = nh_euid h, ns_perm = 384, ns_sticky = False, ns_file = ''sealed''\<rparr>"

definition after_seal :: "node_host \<Rightarrow> string \<Rightarrow> manifest \<Rightarrow> node_host" where
  "after_seal h output m = h\<lparr>nh_lstat := (nh_lstat h)(output := Inr (sealed_stat h)),
     nh_manifest := (nh_manifest h)(output := Document m)\<rparr>"

definition seal_directory_trusted :: "node_host \<Rightarrow> string \<Rightarrow> bool" where
  "seal_directory_trusted h output \<longleftrightarrow> clean_path output \<and> output \<in> set (path_chain output) \<and>
     (\<forall>c \<in> set (path_chain output). c \<noteq> output \<longrightarrow> trusted_step (nh_lstat h) (nh_euid h) output False c = None)"

lemma mapE_keys:
  assumes "mapE f xs = Inr ys" and "\<And>x y. f x = Inr y \<Longrightarrow> fst y = fst x"
  shows "map fst ys = map fst xs"
  using assms(1) by (induction xs arbitrary: ys) (auto simp: result_simps dest: assms(2))

lemma seal_asset_Inr:
  assumes "seal_asset h (n, p) = Inr (n', a)"
  shows "n' = n" and "trusted_file h (as_path a) = None" and "check_executable h n (as_path a) = Inr ()"
    and "nh_sha h (as_path a) = Inr (as_sha a)"
    and "if n = ''kernel'' then nh_links h p = Inr (as_path a) else as_path a = p"
  using assms by (auto simp: seal_asset_def result_simps split: if_splits)

lemma seal_asset_key: "seal_asset h x = Inr y \<Longrightarrow> fst y = fst x"
  by (cases x; cases y) (auto dest: seal_asset_Inr)

lemma tool_path_key: "tool_path h shims x = Inr y \<Longrightarrow> fst y = fst x"
  by (cases x) (auto simp: tool_path_def result_simps)

definition sealed_names :: "string list" where
  "sealed_names = map fst (seal_paths \<lparr>kc_hypervisors = [], kc_runtime = [], kc_annotations = None\<rparr> [] [] [] [] [] @ node_tools)"

lemma sealed_names_seal_paths: "map fst (seal_paths k a b c d e @ node_tools) = sealed_names"
  by (simp add: sealed_names_def seal_paths_def)

lemma sealed_names_ok:
  "distinct sealed_names" "set required_assets = set sealed_names" "''guest-policy'' \<notin> set sealed_names"
  by (auto simp: sealed_names_def seal_paths_def node_tools_def required_assets_def)

text \<open>What a successful \<open>Seal\<close> has read, and the assets it has recorded.\<close>

definition sealed_assets :: "node_host \<Rightarrow> (string \<times> string) list \<Rightarrow> (string \<times> asset) list \<Rightarrow> bool" where
  "sealed_assets h paths as \<longleftrightarrow> map fst as = sealed_names \<and>
     (\<forall>(n, a) \<in> set as. trusted_file h (as_path a) = None \<and> check_executable h n (as_path a) = Inr () \<and>
        nh_sha h (as_path a) = Inr (as_sha a)) \<and>
     (\<forall>(n, p) \<in> set paths. \<exists>a. map_of as n = Some a \<and>
        (if n = ''kernel'' then nh_links h p = Inr (as_path a) else as_path a = p))"

lemma sealed_assets_intro:
  assumes t: "mapE (tool_path h shims) node_tools = Inr tools"
    and a: "mapE (seal_asset h) (seal_paths k kata daemon containerd launcher shim @ tools) = Inr as"
  shows "sealed_assets h (seal_paths k kata daemon containerd launcher shim) as"
proof -
  let ?paths = "seal_paths k kata daemon containerd launcher shim"
  have "map fst tools = map fst node_tools" using t tool_path_key by (rule mapE_keys)
  moreover have "map fst as = map fst (?paths @ tools)" using a seal_asset_key by (rule mapE_keys)
  ultimately have keys: "map fst as = sealed_names" using sealed_names_seal_paths by simp
  have dist: "distinct (map fst as)" using keys sealed_names_ok by simp
  have "trusted_file h (as_path b) = None \<and> check_executable h n (as_path b) = Inr () \<and> nh_sha h (as_path b) = Inr (as_sha b)"
    if m: "(n, b) \<in> set as" for n b
  proof -
    obtain x where "seal_asset h x = Inr (n, b)" using mapE_Inr_from [OF a m] by blast
    then obtain p where "seal_asset h (n, p) = Inr (n, b)" using seal_asset_Inr(1) by (cases x) blast
    then show ?thesis using seal_asset_Inr by blast
  qed
  moreover have "\<exists>b. map_of as n = Some b \<and> (if n = ''kernel'' then nh_links h p = Inr (as_path b) else as_path b = p)"
    if m: "(n, p) \<in> set ?paths" for n p
  proof -
    have "(n, p) \<in> set (?paths @ tools)" using m by simp
    then obtain y where y: "y \<in> set as" "seal_asset h (n, p) = Inr y" using mapE_Inr_all [OF a] by blast
    then obtain b where "y = (n, b)" using seal_asset_key [of h "(n, p)" y] by (metis fst_conv prod.collapse)
    with y have "map_of as n = Some b" "seal_asset h (n, p) = Inr (n, b)" using dist by auto
    then show ?thesis using seal_asset_Inr(5) by blast
  qed
  ultimately show ?thesis using keys unfolding sealed_assets_def by blast
qed

lemma seal_policy_Inr:
  assumes "seal_policy h m = Inr m'" and "map_of (mf_assets m) ''guest-policy'' = None"
  shows "m' = m \<or> (\<exists>a. m' = m\<lparr>mf_assets := mf_assets m @ [(''guest-policy'', a)]\<rparr> \<and>
     read_guest_policy h (as_path a) (asset_sha m ''image'') = Inr True \<and> nh_sha h (as_path a) = Inr (as_sha a))"
proof (cases "m' = m")
  case False
  then obtain s where "nh_lstat h (policy_file (asset_path m ''image'')) = Inr s"
    using assms by (auto simp: seal_policy_def Let_def split: sum.splits if_splits)
  then obtain sum where "read_guest_policy h (policy_file (asset_path m ''image'')) (asset_sha m ''image'') = Inr True"
      "nh_sha h (policy_file (asset_path m ''image'')) = Inr sum"
      "m' = m\<lparr>mf_assets := mf_assets m @ [(''guest-policy'', \<lparr>as_path = policy_file (asset_path m ''image''), as_sha = sum\<rparr>)]\<rparr>"
    using assms False by (auto simp: seal_policy_def Let_def result_simps split: if_splits)
  then show ?thesis by (intro disjI2 exI [of _ "\<lparr>as_path = policy_file (asset_path m ''image''), as_sha = sum\<rparr>"]) simp
qed simp

lemma seal_Inr:
  assumes "seal h kata daemon containerd launcher runtime output shims = Inr m"
  shows "\<exists>k d as. read_config h kata daemon runtime = Inr (k, d) \<and>
    sealed_assets h (seal_paths k kata daemon containerd launcher (shim_of shims)) as \<and>
    seal_policy h \<lparr>mf_version = 2, mf_profile = pinned_profile, mf_runtime = runtime, mf_assets = as\<rparr> = Inr m \<and>
    write_exclusive h output m = None"
  using assms unfolding seal_def by (fastforce simp: result_simps intro: sealed_assets_intro)

lemma after_seal_simps:
  "nh_sha (after_seal h out m) = nh_sha h" "nh_stat (after_seal h out m) = nh_stat h"
  "nh_config (after_seal h out m) = nh_config h" "nh_daemon (after_seal h out m) = nh_daemon h"
  "nh_policy (after_seal h out m) = nh_policy h" "nh_links (after_seal h out m) = nh_links h"
  "nh_euid (after_seal h out m) = nh_euid h" "nh_manifest (after_seal h out m) out = Document m"
  by (simp_all add: after_seal_def)

lemma after_seal_trusted:
  assumes "nh_lstat h out = Inl e" and "trusted_file h p = None"
  shows "trusted_file (after_seal h out m) p = None"
  using trusted_path_new_file [of "nh_lstat h" "nh_euid h" p False out e "sealed_stat h"] assms
  by (simp add: trusted_file_def after_seal_def)

lemma after_seal_output:
  assumes "seal_directory_trusted h out"
  shows "trusted_file (after_seal h out m) out = None"
proof -
  have "trusted_step ((nh_lstat h)(out := Inr (sealed_stat h))) (nh_euid h) out False c = None"
    if "c \<in> set (path_chain out)" for c
  proof (cases "c = out")
    case True
    then show ?thesis
      by (auto simp: trusted_step_None sealed_stat_def trusted_owner_def group_or_world_writable_def)
  next
    case False
    then have "trusted_step (nh_lstat h) (nh_euid h) out False c = None"
      using assms that unfolding seal_directory_trusted_def by blast
    then show ?thesis using False by (simp add: trusted_step_def)
  qed
  then have "first_err (trusted_step ((nh_lstat h)(out := Inr (sealed_stat h))) (nh_euid h) out False) (path_chain out) = None"
    by (simp add: first_err_None_iff)
  then show ?thesis using assms
    by (simp add: trusted_file_def trusted_path_def after_seal_def seal_directory_trusted_def)
qed

lemma after_seal_guest_policy:
  assumes "nh_lstat h out = Inl e" and "read_guest_policy h p img = Inr b"
  shows "read_guest_policy (after_seal h out m) p img = Inr b"
  using assms after_seal_trusted [OF assms(1)] by (simp add: read_guest_policy_def after_seal_simps result_simps)

lemma map_of_append_other: "n \<noteq> k \<Longrightarrow> map_of (as @ [(k, x)]) n = map_of as n"
  by (induction as) auto

lemma sealed_bindings:
  assumes "read_config h kata daemon runtime = Inr (k, d)"
    and "sealed_assets h (seal_paths k kata daemon containerd launcher shim) as"
    and "mf_runtime m = runtime" and "\<And>n. n \<noteq> ''guest-policy'' \<Longrightarrow> map_of (mf_assets m) n = map_of as n"
  shows "check_bindings h m = Inr ()"
proof -
  let ?paths = "seal_paths k kata daemon containerd launcher shim"
  have p: "\<exists>a. map_of (mf_assets m) n = Some a \<and> (if n = ''kernel'' then nh_links h q = Inr (as_path a) else as_path a = q)"
    if "(n, q) \<in> set ?paths" for n q
  proof -
    have "n \<noteq> ''guest-policy''" using that by (auto simp: seal_paths_def)
    then show ?thesis using assms(2,4) that unfolding sealed_assets_def by fastforce
  qed
  have "asset_path m ''config'' = kata" "asset_path m ''daemon'' = daemon" "asset_path m ''image'' = snd (dragonball_of k)"
    using p [of "''config''" kata] p [of "''daemon''" daemon] p [of "''image''" "snd (dragonball_of k)"]
    by (auto simp: seal_paths_def asset_path_def)
  moreover have "nh_links h (fst (dragonball_of k)) = Inr (asset_path m ''kernel'')"
    using p [of "''kernel''" "fst (dragonball_of k)"] by (auto simp: seal_paths_def asset_path_def)
  ultimately show ?thesis using assms(1,3) by (simp add: check_bindings_def)
qed

text \<open>C38: Sealing and loading round trip.  When \<open>Seal\<close> succeeds on a host whose hashes have 64 digits
  and the output's directories are trusted, loading the sealed file, on the same host with only that new
  file in it, accepts it and returns exactly the manifest that was written.\<close>

theorem seal_load_roundtrip:
  assumes seal: "seal h kata daemon containerd launcher runtime output shims = Inr m"
    and digest: "\<And>p x. nh_sha h p = Inr x \<Longrightarrow> length x = 64"
    and dir: "seal_directory_trusted h output"
  shows "load_manifest (after_seal h output m) output = Inr m"
proof -
  obtain k d as where rc: "read_config h kata daemon runtime = Inr (k, d)"
    and sa: "sealed_assets h (seal_paths k kata daemon containerd launcher (shim_of shims)) as"
    and sp: "seal_policy h \<lparr>mf_version = 2, mf_profile = pinned_profile, mf_runtime = runtime, mf_assets = as\<rparr> = Inr m"
    and wr: "write_exclusive h output m = None"
    using seal_Inr [OF seal] by blast
  let ?m0 = "\<lparr>mf_version = 2, mf_profile = pinned_profile, mf_runtime = runtime, mf_assets = as\<rparr>"
  let ?h = "after_seal h output m"
  have absent: "nh_lstat h output = Inl ENotFound"
    using wr by (auto simp: write_exclusive_def split: sum.splits if_splits)
  have keys: "map fst as = sealed_names" using sa by (simp add: sealed_assets_def)
  then have "''guest-policy'' \<notin> fst ` set as" using sealed_names_ok(3) by (metis set_map)
  then have nogp: "map_of as ''guest-policy'' = None" by (simp add: map_of_eq_None_iff)
  then have gp: "m = ?m0 \<or> (\<exists>a. m = ?m0\<lparr>mf_assets := as @ [(''guest-policy'', a)]\<rparr> \<and>
     read_guest_policy h (as_path a) (asset_sha ?m0 ''image'') = Inr True \<and> nh_sha h (as_path a) = Inr (as_sha a))"
    using seal_policy_Inr [OF sp] by simp
  then have same: "map_of (mf_assets m) n = map_of as n" if "n \<noteq> ''guest-policy''" for n
    using that by (auto simp: map_add_def split: option.split)
  have runtime: "mf_runtime m = runtime" "mf_version m = 2" "mf_profile m = pinned_profile" using gp by auto
  have "n \<in> set sealed_names \<Longrightarrow> map_of (mf_assets m) n \<noteq> None" for n
    using same [of n] keys sealed_names_ok(3) by (metis map_of_eq_None_iff set_map)
  then have "manifest_error m = None"
    using rc runtime sealed_names_ok(2) by (simp add: manifest_error_None read_config_Inr)
  moreover have "verify_asset ?h (n, a) = Inr ()" if m: "(n, a) \<in> set (mf_assets m)" for n a
  proof -
    have "trusted_file h (as_path a) = None \<and> check_executable h n (as_path a) = Inr () \<and> nh_sha h (as_path a) = Inr (as_sha a)"
    proof (cases "(n, a) \<in> set as")
      case True then show ?thesis using sa unfolding sealed_assets_def by blast
    next
      case False
      then show ?thesis using gp m
        by (auto simp: read_guest_policy_def result_simps check_executable_def executable_asset_def executable_assets_def)
    qed
    moreover from this have "length (as_sha a) = 64" by (intro digest) blast
    moreover have "check_executable ?h n (as_path a) = check_executable h n (as_path a)"
      by (simp add: check_executable_def after_seal_simps)
    ultimately show ?thesis using after_seal_trusted [OF absent, of "as_path a" m]
      by (simp add: verify_asset_Inr after_seal_simps)
  qed
  moreover have "check_guest_policy ?h m = Inr ()"
  proof -
    have "asset_sha m ''image'' = asset_sha ?m0 ''image''" using same [of "''image''"] by (simp add: asset_sha_def)
    then show ?thesis using gp nogp after_seal_guest_policy [OF absent]
      by (auto simp: check_guest_policy_def map_add_def)
  qed
  moreover have "check_bindings ?h m = Inr ()"
    using sealed_bindings [OF rc sa runtime(1) same] by (simp add: check_bindings_def read_config_def after_seal_simps)
  ultimately show ?thesis
    using after_seal_output [OF dir] by (simp add: load_manifest_Inr after_seal_simps split_paired_all)
qed

section \<open>A sample node\<close>

definition sample_hypervisor :: hypervisor where
  "sample_hypervisor = \<lparr>hy_kernel = ''/vmlinux'', hy_image = ''/guest.img'', hy_shared = ''inline-virtio-fs'',
     hy_cache = ''none'', hy_args = fs_extra_args, hy_hook = ''/usr/share/codex-dock/hooks'', hy_memory = 2560,
     hy_max = 4096, hy_overhead = 512, hy_cpus_zero = True\<rparr>"

definition sample_kata_config :: kata_config where
  "sample_kata_config = \<lparr>kc_hypervisors = [(dragonball, sample_hypervisor)],
     kc_runtime = [(''disable_guest_seccomp'', TBool False), (''sandbox_cgroup_only'', TBool True),
       (''static_sandbox_resource_mgmt'', TBool True), (''hypervisor_name'', TString dragonball)],
     kc_annotations = Some (TArray 0)\<rparr>"

definition sample_daemon :: daemon_config where
  "sample_daemon = \<lparr>dc_version = 3, dc_root = ''/r'', dc_state = ''/s'', dc_address = ''/s/c.sock'', dc_tcp = []\<rparr>"

definition sample_sha :: string where "sample_sha = replicate 64 CHR ''a''"

definition sample_node_lstat :: stat_fun where
  "sample_node_lstat p = (if p = ''/out'' then Inl ENotFound else
     Inr \<lparr>ns_kind = RegularNode, ns_uid = 0, ns_perm = 493, ns_sticky = False, ns_file = p\<rparr>)"

definition sample_host :: node_host where
  "sample_host = \<lparr>nh_lstat = sample_node_lstat, nh_stat = sample_node_lstat, nh_euid = 0, nh_sha = (\<lambda>_. Inr sample_sha),
     nh_manifest = (\<lambda>_. Undecodable),
     nh_policy = (\<lambda>_. Document \<lparr>gp_schema = 2, gp_pids = 512, gp_policy = guest_pid_policy, gp_image = sample_sha\<rparr>),
     nh_config = (\<lambda>_. Document sample_kata_config), nh_daemon = (\<lambda>_. Document sample_daemon),
     nh_profiles = (\<lambda>_. Document [sample_profile]), nh_links = Inr, nh_lookpath = (\<lambda>n. Inr (''/'' @ n)),
     nh_elf = (\<lambda>_. Document \<lparr>el_class64 = True, el_x86_64 = True, el_interp = False\<rparr>),
     nh_write = (\<lambda>_ _. None), nh_mkdir = (\<lambda>_. None), nh_cgroup2 = (\<lambda>_. True), nh_features = (\<lambda>_. None),
     nh_processes = Inr [], nh_read = (\<lambda>_. Inr ''cpu memory pids''), nh_digest = (\<lambda>m. sample_sha)\<rparr>"

definition sample_asset :: "string \<Rightarrow> asset" where
  "sample_asset p = \<lparr>as_path = p, as_sha = sample_sha\<rparr>"

definition sample_manifest :: manifest where
  "sample_manifest = \<lparr>mf_version = 2, mf_profile = pinned_profile, mf_runtime = pinned_runtime, mf_assets =
     [(''config'', sample_asset ''/kata.toml''), (''containerd'', sample_asset ''/containerd''),
      (''daemon'', sample_asset ''/containerd.toml''), (''image'', sample_asset ''/guest.img''),
      (''kernel'', sample_asset ''/vmlinux''), (''launcher'', sample_asset ''/launcher''),
      (''runtime'', sample_asset ''/shim''), (''ip'', sample_asset ''/ip''),
      (''logger'', sample_asset ''/codex-dock-io-logger''), (''nft'', sample_asset ''/nft''),
      (''runc'', sample_asset ''/runc''), (''runc-shim'', sample_asset ''/containerd-shim-runc-v2''),
      (''sysctl'', sample_asset ''/sysctl''), (''guest-policy'', sample_asset ''/assets.lock.json'')]\<rparr>"

lemma sample_sealed:
  "seal sample_host ''/kata.toml'' ''/containerd.toml'' ''/containerd'' ''/launcher'' pinned_runtime ''/out'' [''/shim'']
     = Inr sample_manifest"
  by code_simp

lemma sample_seal_directory: "seal_directory_trusted sample_host ''/out''"
  by code_simp

text \<open>A node whose guest image supports the dynamic PID policy, sealed to \<open>/out\<close>.\<close>

theorem seal_load_roundtrip_witness:
  "load_manifest (after_seal sample_host ''/out'' sample_manifest) ''/out'' = Inr sample_manifest"
  by (rule seal_load_roundtrip [OF sample_sealed _ sample_seal_directory])
    (auto simp: sample_host_def sample_sha_def)

lemma sample_loaded: "load_manifest (sample_host\<lparr>nh_manifest := (\<lambda>_. Document sample_manifest)\<rparr>) ''/m'' = Inr sample_manifest"
  by code_simp

theorem loaded_manifest_pinned_witness:
  "pinned_asset (sample_host\<lparr>nh_manifest := (\<lambda>_. Document sample_manifest)\<rparr>) ''runtime'' (sample_asset ''/shim'')"
proof -
  have "(''runtime'', sample_asset ''/shim'') \<in> set (mf_assets sample_manifest)" by (simp add: sample_manifest_def)
  then show ?thesis using loaded_manifest_pinned [OF sample_loaded] by blast
qed

end
