(* ===== verification/KataGuard.thy ===== *)
theory KataGuard
  imports KataManifest
begin

text \<open>
  The guard of \<open>host_linux.go\<close>: its construction from a node configuration, the validation of the
  node before every operation (manifest, profiles, containerd process, sockets, controllers), and the
  names and limits of the cgroup of an allocation.
\<close>

section \<open>The guard\<close>

record guard_config =
  gc_manifest :: string
  gc_root :: string
  gc_state :: string
  gc_endpoint :: string
  gc_profiles :: string
  gc_max :: int

record guard =
  gd_config :: guard_config
  gd_manifest :: manifest
  gd_profiles :: "resource_profile list"
  gd_temporary :: bool

text \<open>
  \<open>url.Parse\<close> as far as the endpoint test looks: the path of a \<open>unix:\<close> URL with no host, user, query
  or fragment.  A control character, a bad escape or a non-empty authority is refused.  An opaque
  \<open>unix:x\<close> gives a path that is not absolute, which the caller refuses like Go's empty one.
\<close>

definition url_control :: "char \<Rightarrow> bool" where
  "url_control c \<longleftrightarrow> c < CHR 0x20 \<or> c = CHR 0x7F"

definition hex_digit_val :: "char \<Rightarrow> nat" where
  "hex_digit_val c = (if is_digit c then of_char c - 48
     else if c \<le> CHR ''F'' then of_char c - 55 else of_char c - 87)"

fun path_unescape :: "string \<Rightarrow> string option" where
  "path_unescape [] = Some []"
| "path_unescape (c # s) =
     (if c = CHR 0x25 then
        (case s of a # b # t \<Rightarrow>
           if is_hex a \<and> is_hex b then
             map_option ((#) (char_of (16 * hex_digit_val a + hex_digit_val b))) (path_unescape t)
           else None
         | _ \<Rightarrow> None)
      else map_option ((#) c) (path_unescape s))"

definition unix_endpoint :: "string \<Rightarrow> string option" where
  "unix_endpoint raw =
     (case str_cut CHR ''#'' raw of (u, fragment, _) \<Rightarrow>
      case str_cut CHR '':'' u of (scheme, rest0, colon) \<Rightarrow>
      case str_cut CHR ''?'' rest0 of (rest, query, _) \<Rightarrow>
        if list_ex url_control raw \<or> fragment \<noteq> [] \<or> \<not> colon \<or> \<not> equal_fold_ascii scheme ''unix'' \<or> query \<noteq> []
        then None
        else if prefix ''//'' rest \<and> \<not> prefix ''///'' rest then None
        else path_unescape (if prefix ''//'' rest then drop 2 rest else rest))"

definition cgroup_fs :: string where "cgroup_fs = ''/sys/fs/cgroup''"

definition endpoint_error :: "guard_config \<Rightarrow> kata_error option" where
  "endpoint_error c = (case unix_endpoint (gc_endpoint c) of
     None \<Rightarrow> Some (EGuard BadEndpoint)
   | Some p \<Rightarrow> if clean_path p then None else Some (EGuard BadEndpoint))"

definition supports_pid_profiles :: "manifest \<Rightarrow> bool" where
  "supports_pid_profiles m \<longleftrightarrow> map_of (mf_assets m) ''guest-policy'' \<noteq> None"

definition launcher_temporary_storage :: "node_host \<Rightarrow> string \<Rightarrow> bool" where
  "launcher_temporary_storage h p = (case nh_features h p of None \<Rightarrow> False
     | Some fs \<Rightarrow> list_ex (\<lambda>f. f = ''temporary-storage-probe-v1'') fs)"

definition default_workers :: "guard_config \<Rightarrow> guard_config" where
  "default_workers c = (if gc_max c = 0 then c\<lparr>gc_max := 2\<rparr> else c)"

definition load_node_profiles :: "node_host \<Rightarrow> string \<Rightarrow> (kata_error, resource_profile list) result" where
  "load_node_profiles h p = load_profiles (nh_lstat h) (nh_euid h) (nh_profiles h) p"

definition new_guard :: "node_host \<Rightarrow> guard_config \<Rightarrow> (kata_error, guard) result" where
  "new_guard h c0 = (let c = default_workers c0 in
     failE (gc_max c < 1 \<or> 64 < gc_max c) (EGuard MaxWorkers)
     (bindE (require (endpoint_error c)) (\<lambda>_.
      bindE (require (trusted_dir h (gc_root c))) (\<lambda>_.
      failE (\<not> prefix (cgroup_fs @ ''/'') (gc_root c)) (EGuard BadCgroupRoot)
      (failE (\<not> nh_cgroup2 h (gc_root c)) (EGuard BadCgroupRoot)
      (bindE (require (nh_mkdir h (gc_state c))) (\<lambda>_.
       bindE (require (trusted_dir h (gc_state c))) (\<lambda>_.
       bindE (load_manifest h (gc_manifest c)) (\<lambda>m.
       bindE (load_node_profiles h (gc_profiles c)) (\<lambda>ps.
       failE (list_ex (\<lambda>p. rp_pids p \<noteq> 512) ps \<and> \<not> supports_pid_profiles m) (EProfile UnsupportedPIDs)
         (Inr \<lparr>gd_config = c, gd_manifest = m, gd_profiles = ps,
            gd_temporary = launcher_temporary_storage h (asset_path m ''launcher'')\<rparr>)))))))))))"

definition stamp :: "node_host \<Rightarrow> guard \<Rightarrow> string" where
  "stamp h g = nh_digest h (gd_manifest g)"

definition launcher :: "guard \<Rightarrow> string" where
  "launcher g = asset_path (gd_manifest g) ''launcher''"

definition lookup :: "guard \<Rightarrow> string \<Rightarrow> resource_profile option" where
  "lookup g n = registry_lookup (gd_profiles g) n"

section \<open>The containerd process\<close>

definition config_flag :: "string \<Rightarrow> bool" where
  "config_flag a \<longleftrightarrow> a = ''--config'' \<or> a = ''-c''"

definition config_prefix :: string where "config_prefix = ''--config=''"

definition override_flags :: "string list" where
  "override_flags = [''--address'', ''-a'', ''--root'', ''--state'']"

definition overrides_flag :: "string \<Rightarrow> bool" where
  "overrides_flag a \<longleftrightarrow> list_ex (\<lambda>f. a = f \<or> prefix (f @ ''='') a) override_flags"

text \<open>The loop over the arguments with \<open>valid\<close>, \<open>overrides\<close> and \<open>configs\<close>; \<open>args[i+1]\<close> is the head of the rest.\<close>

fun scan_args :: "string \<Rightarrow> string list \<Rightarrow> bool \<times> bool \<times> nat \<Rightarrow> bool \<times> bool \<times> nat" where
  "scan_args d [] st = st"
| "scan_args d (a # rest) (valid, overrides, configs) =
     (let (v1, c1) =
            (if config_flag a then (valid \<or> (case rest of [] \<Rightarrow> False | b # _ \<Rightarrow> b = d), Suc configs)
             else (valid, configs));
          (v2, c2) = (if prefix config_prefix a then (trim_prefix a config_prefix = d, Suc c1) else (v1, c1))
      in scan_args d rest (v2, overrides \<or> overrides_flag a, c2))"

fun trim_right_nul :: "string \<Rightarrow> string" where
  "trim_right_nul s = rev (dropWhile (\<lambda>c. c = CHR 0x00) (rev s))"

definition cmdline_args :: "string \<Rightarrow> string list" where
  "cmdline_args s = split_on CHR 0x00 (trim_right_nul s)"

definition attested_args :: "string \<Rightarrow> string list \<Rightarrow> bool" where
  "attested_args d args = (case scan_args d args (False, False, 0) of
     (valid, overrides, configs) \<Rightarrow> valid \<and> configs = 1 \<and> \<not> overrides)"

definition attested_process :: "string \<Rightarrow> string \<Rightarrow> proc_entry \<Rightarrow> bool" where
  "attested_process want d p \<longleftrightarrow> atoi (pe_name p) \<noteq> None \<and>
     (case pe_exe p of Inl _ \<Rightarrow> False | Inr e \<Rightarrow> ns_file e = want) \<and>
     (case pe_base p of Inl _ \<Rightarrow> False | Inr b \<Rightarrow> root_owner b) \<and>
     (case pe_cmdline p of Inl _ \<Rightarrow> False | Inr s \<Rightarrow> attested_args d (cmdline_args s))"

definition attest_containerd :: "node_host \<Rightarrow> manifest \<Rightarrow> (kata_error, unit) result" where
  "attest_containerd h m =
     bindE (nh_stat h (asset_path m ''containerd'')) (\<lambda>want.
     bindE (nh_processes h) (\<lambda>ps.
     failE (length (filter (attested_process (ns_file want) (asset_path m ''daemon'')) ps) \<noteq> 1)
       (EManifest NotAttested) (Inr ())))"

definition path_parent :: "string \<Rightarrow> string" where
  "path_parent p = path_clean (path_of_parts (butlast (path_parts p)))"

definition check_containerd_paths :: "node_host \<Rightarrow> daemon_config \<Rightarrow> (kata_error, unit) result" where
  "check_containerd_paths h d =
     bindE (require (first_err (trusted_dir h) [dc_root d, dc_state d])) (\<lambda>_.
     bindE (require (trusted_dir h (path_parent (dc_address d)))) (\<lambda>_.
     (case nh_stat h (dc_address d) of
        Inl _ \<Rightarrow> Inl (ETrust UntrustedSocket)
      | Inr s \<Rightarrow> failE (ns_kind s \<noteq> SocketNode \<or> \<not> root_owner s) (ETrust UntrustedSocket) (Inr ()))))"

definition controller_files :: "string list" where
  "controller_files = [''cgroup.controllers'', ''cgroup.subtree_control'']"

definition controllers :: "string list" where
  "controllers = [''cpu'', ''memory'', ''pids'']"

definition check_controller_file :: "node_host \<Rightarrow> string \<Rightarrow> string \<Rightarrow> (kata_error, unit) result" where
  "check_controller_file h root name =
     bindE (nh_read h (root @ ''/'' @ name)) (\<lambda>data.
       require (first_err (\<lambda>c. if c \<in> set (GoStrings.fields data) then None else Some (EManifest (MissingController c))) controllers))"

definition check_controllers :: "node_host \<Rightarrow> string \<Rightarrow> (kata_error, unit) result" where
  "check_controllers h root = bindE (mapE (check_controller_file h root) controller_files) (\<lambda>_. Inr ())"

definition validate :: "node_host \<Rightarrow> bool \<Rightarrow> guard \<Rightarrow> string \<Rightarrow> (kata_error, unit) result" where
  "validate h ctx_ended g runtime =
     failE ctx_ended ECanceled
     (bindE (load_manifest h (gc_manifest (gd_config g))) (\<lambda>m.
      bindE (load_node_profiles h (gc_profiles (gd_config g))) (\<lambda>ps.
      failE (ps \<noteq> gd_profiles g) (EProfile ProfilesChanged)
      (failE (mf_runtime m \<noteq> runtime) (EManifest Registration)
      (failE (gd_manifest g \<noteq> m) (EManifest ManifestChanged)
      (bindE (read_config h (asset_path m ''config'') (asset_path m ''daemon'') runtime) (\<lambda>(k, d).
       bindE (attest_containerd h m) (\<lambda>_.
       bindE (check_containerd_paths h d) (\<lambda>_.
       check_controllers h (gc_root (gd_config g)))))))))))"

section \<open>Allocations, cgroups and limits\<close>

definition valid_allocation :: "string \<Rightarrow> bool" where
  "valid_allocation aid \<longleftrightarrow> lower_hex_n 32 aid"

definition valid_worker :: "string \<Rightarrow> bool" where
  "valid_worker w \<longleftrightarrow> lower_hex_n 64 w"

definition group_prefix :: string where "group_prefix = ''cdx-''"

definition group_entry :: "string \<Rightarrow> string" where
  "group_entry aid = group_prefix @ aid"

definition group_path :: "guard \<Rightarrow> string \<Rightarrow> (kata_error, string) result" where
  "group_path g aid =
     (if \<not> valid_allocation aid then Inl (EGuard BadAllocation)
      else Inr (path_clean (gc_root (gd_config g) @ ''/'' @ group_entry aid)))"

definition parent :: "guard \<Rightarrow> string \<Rightarrow> (kata_error, string) result" where
  "parent g aid = bindE (group_path g aid) (\<lambda>p. Inr (trim_prefix p cgroup_fs))"

definition group_limits :: "resource_profile \<Rightarrow> (string \<times> string) list" where
  "group_limits p = [(''cpu.max'', cpu_quota p), (''memory.max'', show_int (rp_host p)), (''memory.swap.max'', ''0''),
     (''pids.max'', show_int (rp_pids p)), (''memory.oom.group'', ''1'')]"

definition protected_paths :: "node_host \<Rightarrow> guard \<Rightarrow> string list" where
  "protected_paths h g = (let c = gd_config g; m = gd_manifest g in
     [gc_manifest c, gc_state c, gc_root c, ''/proc'', cgroup_fs, ''/dev/kvm'', ''/run/netns'',
      ''/run/codex-dock-buildkit'', ''/var/lib/codex-dock-buildkit'', ''/var/lib/codex-dock-setup'',
      ''/var/cache/codex-dock-setup'', ''/opt/codex-dock/releases''] @
     (if gc_profiles c \<noteq> [] then [gc_profiles c] else []) @
     (case read_config h (asset_path m ''config'') (asset_path m ''daemon'') (mf_runtime m) of
        Inl _ \<Rightarrow> [] | Inr (k, d) \<Rightarrow> [dc_root d, dc_state d, dc_address d]) @
     (case unix_endpoint (gc_endpoint c) of None \<Rightarrow> []
      | Some p \<Rightarrow> p # (case nh_links h p of Inl _ \<Rightarrow> [] | Inr q \<Rightarrow> [q])) @
     map (as_path \<circ> snd) (mf_assets m))"

section \<open>What a validated node is\<close>

definition config_arg :: "string \<Rightarrow> bool" where
  "config_arg a \<longleftrightarrow> config_flag a \<or> prefix config_prefix a"

lemma config_flag_no_prefix: "config_flag a \<Longrightarrow> \<not> prefix config_prefix a"
  by (auto simp: config_flag_def config_prefix_def)

lemma scan_args_overrides: "fst (snd (scan_args d args (v, ov, c))) \<longleftrightarrow> ov \<or> list_ex overrides_flag args"
  by (induction args arbitrary: v ov c) (auto simp: Let_def)

lemma scan_args_count: "snd (snd (scan_args d args (v, ov, c))) = c + length (filter config_arg args)"
  by (induction args arbitrary: v ov c) (auto simp: Let_def config_arg_def dest: config_flag_no_prefix)

lemma scan_args_no_config: "filter config_arg args = [] \<Longrightarrow> fst (scan_args d args (v, ov, c)) = v"
  by (induction args arbitrary: v ov c) (auto simp: Let_def config_arg_def split: if_splits)

lemma scan_args_one_config:
  assumes "fst (scan_args d args (False, ov, c))" and "length (filter config_arg args) = 1"
  shows "\<exists>pre a post. args = pre @ a # post \<and> filter config_arg (pre @ post) = [] \<and>
     (config_flag a \<and> (\<exists>rest. post = d # rest) \<or> a = config_prefix @ d)"
  using assms
proof (induction args arbitrary: ov c)
  case (Cons a rest)
  show ?case
  proof (cases "config_arg a")
    case True
    with Cons.prems(2) have none: "filter config_arg rest = []" by simp
    have "config_flag a \<and> (\<exists>r. rest = d # r) \<or> a = config_prefix @ d"
    proof (cases "config_flag a")
      case f: True
      then have "\<not> prefix config_prefix a" by (rule config_flag_no_prefix)
      with f Cons.prems(1) scan_args_no_config [OF none] show ?thesis
        by (auto simp: Let_def split: list.splits)
    next
      case f: False
      with True have p: "prefix config_prefix a" by (simp add: config_arg_def)
      with f Cons.prems(1) scan_args_no_config [OF none] have "trim_prefix a config_prefix = d" by (simp add: Let_def)
      with p show ?thesis by (auto simp: trim_prefix_def elim: prefixE)
    qed
    with none show ?thesis by (intro exI [of _ "[]"] exI [of _ a] exI [of _ rest]) simp
  next
    case False
    with Cons.prems(2) have "length (filter config_arg rest) = 1" by simp
    moreover from False Cons.prems(1) have "fst (scan_args d rest (False, ov \<or> overrides_flag a, c))"
      by (simp add: Let_def config_arg_def)
    ultimately obtain pre b post where "rest = pre @ b # post" "filter config_arg (pre @ post) = []"
        "config_flag b \<and> (\<exists>r. post = d # r) \<or> b = config_prefix @ d"
      using Cons.IH by blast
    with False show ?thesis by (intro exI [of _ "a # pre"] exI [of _ b] exI [of _ post]) simp
  qed
qed simp

text \<open>The command line of the attested process: one configuration argument, the pinned file, no override.\<close>

definition pinned_command :: "string \<Rightarrow> string list \<Rightarrow> bool" where
  "pinned_command d args \<longleftrightarrow> \<not> list_ex overrides_flag args \<and>
     (\<exists>pre a post. args = pre @ a # post \<and> filter config_arg (pre @ post) = [] \<and>
        (config_flag a \<and> (\<exists>rest. post = d # rest) \<or> a = config_prefix @ d))"

lemma attested_args_pinned:
  assumes "attested_args d args"
  shows "pinned_command d args"
proof -
  obtain v ov c where s: "scan_args d args (False, False, 0) = (v, ov, c)" by (cases "scan_args d args (False, False, 0)") auto
  with assms have "v" "\<not> ov" "c = 1" by (auto simp: attested_args_def)
  moreover have "\<not> list_ex overrides_flag args" using s \<open>\<not> ov\<close> scan_args_overrides [of d args False False 0] by simp
  moreover have "length (filter config_arg args) = 1" using s \<open>c = 1\<close> scan_args_count [of d args False False 0] by simp
  moreover have "fst (scan_args d args (False, False, 0))" using s \<open>v\<close> by simp
  ultimately show ?thesis unfolding pinned_command_def using scan_args_one_config by blast
qed

lemma check_controllers_Inr:
  "check_controllers h root = Inr () \<longleftrightarrow> (\<forall>f \<in> set controller_files. check_controller_file h root f = Inr ())"
proof
  assume "check_controllers h root = Inr ()"
  then show "\<forall>f \<in> set controller_files. check_controller_file h root f = Inr ()"
    by (fastforce simp: check_controllers_def result_simps dest: mapE_Inr_all)
next
  assume "\<forall>f \<in> set controller_files. check_controller_file h root f = Inr ()"
  then have "\<exists>us. mapE (check_controller_file h root) controller_files = Inr us" by (intro mapE_total) blast
  then show "check_controllers h root = Inr ()" by (auto simp: check_controllers_def)
qed

lemma validate_Inr:
  assumes "validate h ended g runtime = Inr ()"
  shows "\<not> ended" and "load_manifest h (gc_manifest (gd_config g)) = Inr (gd_manifest g)"
    and "load_node_profiles h (gc_profiles (gd_config g)) = Inr (gd_profiles g)"
    and "mf_runtime (gd_manifest g) = runtime" and "attest_containerd h (gd_manifest g) = Inr ()"
    and "check_controllers h (gc_root (gd_config g)) = Inr ()"
    and "\<exists>k d. read_config h (asset_path (gd_manifest g) ''config'') (asset_path (gd_manifest g) ''daemon'') runtime = Inr (k, d) \<and>
       check_containerd_paths h d = Inr ()"
  using assms by (auto simp: validate_def result_simps)

text \<open>A validation that succeeds attests the whole node: the operation is not cancelled; the sealed
  manifest on disk still loads, completely verified, and is the one the guard was built with; the profile
  file is unchanged; exactly one process entry runs the pinned containerd binary, owned by root, with
  exactly one configuration argument naming the pinned file and no argument that overrides its address,
  root or state; and the allocation tree enables the CPU, memory and PID controllers.\<close>

theorem validated_node:
  assumes "validate h ended g runtime = Inr ()"
  shows "\<not> ended \<and> load_manifest h (gc_manifest (gd_config g)) = Inr (gd_manifest g) \<and>
    load_node_profiles h (gc_profiles (gd_config g)) = Inr (gd_profiles g) \<and> runtime = pinned_runtime \<and>
    (\<exists>want ps p. nh_stat h (asset_path (gd_manifest g) ''containerd'') = Inr want \<and> nh_processes h = Inr ps \<and>
       filter (attested_process (ns_file want) (asset_path (gd_manifest g) ''daemon'')) ps = [p] \<and>
       (\<exists>e b cmd. pe_exe p = Inr e \<and> ns_file e = ns_file want \<and> pe_base p = Inr b \<and> ns_uid b = 0 \<and>
          pe_cmdline p = Inr cmd \<and> pinned_command (asset_path (gd_manifest g) ''daemon'') (cmdline_args cmd))) \<and>
    (\<forall>f \<in> set controller_files. \<exists>data. nh_read h (gc_root (gd_config g) @ ''/'' @ f) = Inr data \<and>
       set controllers \<subseteq> set (GoStrings.fields data))"
proof (intro conjI)
  note v = validate_Inr [OF assms]
  show "\<not> ended" "load_manifest h (gc_manifest (gd_config g)) = Inr (gd_manifest g)"
    "load_node_profiles h (gc_profiles (gd_config g)) = Inr (gd_profiles g)" using v by auto
  show "runtime = pinned_runtime" using v(7) by (auto simp: read_config_Inr)
  let ?d = "asset_path (gd_manifest g) ''daemon''"
  obtain want ps where w: "nh_stat h (asset_path (gd_manifest g) ''containerd'') = Inr want" "nh_processes h = Inr ps"
      "length (filter (attested_process (ns_file want) ?d) ps) = 1"
    using v(5) by (auto simp: attest_containerd_def result_simps)
  then obtain p where p: "filter (attested_process (ns_file want) ?d) ps = [p]" by (auto simp: length_Suc_conv)
  then have "p \<in> set (filter (attested_process (ns_file want) ?d) ps)" by simp
  then have "attested_process (ns_file want) ?d p" by simp
  then have "\<exists>e b cmd. pe_exe p = Inr e \<and> ns_file e = ns_file want \<and> pe_base p = Inr b \<and> ns_uid b = 0 \<and>
      pe_cmdline p = Inr cmd \<and> pinned_command ?d (cmdline_args cmd)"
    using attested_args_pinned by (auto simp: attested_process_def root_owner_def split: sum.splits)
  with w(1,2) p show "\<exists>want ps p. nh_stat h (asset_path (gd_manifest g) ''containerd'') = Inr want \<and> nh_processes h = Inr ps \<and>
       filter (attested_process (ns_file want) ?d) ps = [p] \<and>
       (\<exists>e b cmd. pe_exe p = Inr e \<and> ns_file e = ns_file want \<and> pe_base p = Inr b \<and> ns_uid b = 0 \<and>
          pe_cmdline p = Inr cmd \<and> pinned_command ?d (cmdline_args cmd))" by blast
  show "\<forall>f \<in> set controller_files. \<exists>data. nh_read h (gc_root (gd_config g) @ ''/'' @ f) = Inr data \<and>
       set controllers \<subseteq> set (GoStrings.fields data)"
  proof
    fix f assume "f \<in> set controller_files"
    then have "check_controller_file h (gc_root (gd_config g)) f = Inr ()" using v(6) by (simp add: check_controllers_Inr)
    then show "\<exists>data. nh_read h (gc_root (gd_config g) @ ''/'' @ f) = Inr data \<and> set controllers \<subseteq> set (GoStrings.fields data)"
      by (auto simp: check_controller_file_def result_simps split: if_splits)
  qed
qed

section \<open>What a new guard is\<close>

lemma new_guard_Inr:
  assumes "new_guard h c = Inr g"
  shows "gd_config g = default_workers c" and "1 \<le> gc_max (gd_config g)" and "gc_max (gd_config g) \<le> 64"
    and "load_manifest h (gc_manifest c) = Inr (gd_manifest g)"
    and "load_node_profiles h (gc_profiles c) = Inr (gd_profiles g)"
    and "prefix (cgroup_fs @ ''/'') (gc_root c)" and "endpoint_error c = None"
    and "trusted_dir h (gc_root c) = None" and "trusted_dir h (gc_state c) = None"
    and "(\<forall>p \<in> set (gd_profiles g). rp_pids p = 512) \<or> supports_pid_profiles (gd_manifest g)"
  using assms
  by (auto simp: new_guard_def Let_def result_simps default_workers_def endpoint_error_def list_ex_iff split: if_splits)

section \<open>A sample guard\<close>

definition sample_dirs :: "string list" where
  "sample_dirs = [''/r'', ''/s'', ''/state'', ''/sys'']"

definition sample_guard_stat :: stat_fun where
  "sample_guard_stat p = Inr \<lparr>ns_kind = (if p \<in> set sample_dirs \<or> prefix ''/sys/'' p then DirNode
       else if p = ''/s/c.sock'' then SocketNode else RegularNode),
     ns_uid = 0, ns_perm = 493, ns_sticky = False, ns_file = p\<rparr>"

definition sample_process :: proc_entry where
  "sample_process = \<lparr>pe_name = ''412'', pe_exe = sample_guard_stat ''/containerd'', pe_base = sample_guard_stat ''/r'',
     pe_cmdline = Inr (''containerd'' @ [CHR 0x00] @ ''--config'' @ [CHR 0x00] @ ''/containerd.toml'' @ [CHR 0x00])\<rparr>"

definition sample_node :: node_host where
  "sample_node = sample_host\<lparr>nh_lstat := sample_guard_stat, nh_stat := sample_guard_stat,
     nh_manifest := (\<lambda>_. Document sample_manifest), nh_processes := Inr [sample_process]\<rparr>"

definition sample_guard_config :: guard_config where
  "sample_guard_config = \<lparr>gc_manifest = ''/m'', gc_root = ''/sys/fs/cgroup/cdx'', gc_state = ''/state'',
     gc_endpoint = ''unix:///run/oaiso/node.sock'', gc_profiles = ''/profiles.json'', gc_max = 0\<rparr>"

definition sample_guard :: guard where
  "sample_guard = \<lparr>gd_config = sample_guard_config\<lparr>gc_max := 2\<rparr>, gd_manifest = sample_manifest,
     gd_profiles = [sample_profile], gd_temporary = False\<rparr>"

lemma sample_new_guard: "new_guard sample_node sample_guard_config = Inr sample_guard"
  by code_simp

lemma sample_validates: "validate sample_node False sample_guard pinned_runtime = Inr ()"
  by code_simp

text \<open>A node with one containerd process, started as \<open>containerd --config /containerd.toml\<close>.\<close>

theorem validated_node_witness:
  "load_manifest sample_node ''/m'' = Inr sample_manifest \<and>
   (\<exists>(p :: proc_entry) cmd. pe_cmdline p = Inr cmd \<and> pinned_command ''/containerd.toml'' (cmdline_args cmd))"
proof -
  have e: "asset_path (gd_manifest sample_guard) ''daemon'' = ''/containerd.toml''" "gd_manifest sample_guard = sample_manifest"
      "gc_manifest (gd_config sample_guard) = ''/m''"
    by (simp_all add: sample_guard_def sample_manifest_def asset_path_def sample_asset_def sample_guard_config_def)
  from validated_node [OF sample_validates] show ?thesis unfolding e [symmetric]
    by blast
qed

end
