(* ===== verification/KataLedger.thy ===== *)
theory KataLedger
  imports KataGuard Triples "HOL-Library.AList"
begin

text \<open>
  \<open>ledger_linux.go\<close> and the reservations of \<open>host_linux.go\<close>: the allocation records under the
  node's state directory, the tree of cgroups, and the operations \<open>ReserveProfile\<close> and
  \<open>trackAllocation\<close> over an explicit world.  Every system call consults a fault schedule and every
  look at the context a cancellation schedule.  Times are nanoseconds since Go's zero time, so a clock
  never reads 0.  The engine's containers and \<open>/proc\<close> are what the world answers.
\<close>

section \<open>The world of the node\<close>

record allocation =
  al_version :: int
  al_id :: string
  al_worker :: string
  al_stamp :: string
  al_name :: string
  al_profile :: string
  al_created :: int
  al_budget :: "resource_profile option"

record record_file =
  rf_trust :: "kata_error option"
  rf_doc :: "allocation document"

text \<open>
  An entry of the cgroup root.  \<open>gn_tree\<close> lists the cgroup and those below it in the order of
  \<open>filepath.WalkDir\<close>, each by its path relative to the entry, with the process ids that its
  \<open>cgroup.procs\<close> names, one a line.
\<close>

record group_node =
  gn_dir :: bool
  gn_root :: bool
  gn_perm :: nat
  gn_files :: "(string \<times> string) list"
  gn_tree :: "(string list \<times> string list) list"

record host_settings =
  hs_memory :: int
  hs_swap :: int
  hs_nano_cpus :: int
  hs_pids :: "int option"
  hs_parent :: string
  hs_runtime :: string

record worker_info =
  wi_id :: string
  wi_name :: string
  wi_labels :: "(string \<times> string) list option"
  wi_host :: "host_settings option"
  wi_state :: "string option"
  wi_created :: int

record proc_info =
  pi_before :: "(kata_error, string) result"
  pi_exe :: "(kata_error, node_stat) result"
  pi_cmdline :: "(kata_error, string) result"
  pi_cgroup :: "(kata_error, string) result"
  pi_after :: "(kata_error, string) result"

record launch_record =
  la_version :: int
  la_key :: string
  la_fingerprint :: string
  la_name :: string
  la_state :: string
  la_attempt :: int
  la_lease :: string
  la_worker :: string
  la_updated :: int

record launch_file =
  lf_trust :: "kata_error option"
  lf_doc :: "launch_record document"

record kworld =
  kw_host :: node_host
  kw_dir_made :: bool
  kw_dir_trust :: "kata_error option"
  kw_records :: "(string \<times> record_file) list"
  kw_groups :: "(string \<times> group_node) list"
  kw_fresh :: "(string \<times> string) list"
  kw_kernel :: "string \<Rightarrow> string \<Rightarrow> string option"
  kw_engine_up :: bool
  kw_workers :: "string \<Rightarrow> (kata_error, worker_info) result"
  kw_listed :: "string list"
  kw_proc :: "string \<Rightarrow> proc_info"
  kw_launch_trust :: "kata_error option"
  kw_launches :: "(string \<times> launch_file) list"
  kw_random :: "string list"
  kw_now :: int
  kw_faults :: "bool list"
  kw_ctx :: "bool list"
  kw_contended :: nat

type_synonym 'a kio = "(kworld, kata_error, 'a) io"

definition ksys :: "unit kio" where
  "ksys w = (case kw_faults w of [] \<Rightarrow> (Inr (), w)
     | f # fs \<Rightarrow> (if f then Inl EIOFault else Inr (), w\<lparr>kw_faults := fs\<rparr>))"

definition kctx_ended :: "bool kio" where
  "kctx_ended w = (case kw_ctx w of [] \<Rightarrow> (Inr False, w) | c # cs \<Rightarrow> (Inr c, w\<lparr>kw_ctx := cs\<rparr>))"

definition kctx :: "unit kio" where
  "kctx = bindIO kctx_ended (\<lambda>c. whenE c ECanceled)"

section \<open>The admission lock\<close>

text \<open>\<open>kw_contended\<close>: how often \<open>flock\<close> still finds the lock taken.  A pause ends early with the context.\<close>

fun admission_loop :: "nat \<Rightarrow> unit kio" where
  "admission_loop 0 = bindIO kctx (\<lambda>_. ksys)"
| "admission_loop (Suc n) = bindIO kctx (\<lambda>_. bindIO kctx (\<lambda>_. admission_loop n))"

definition admission_lock :: "unit kio" where
  "admission_lock = bindIO ksys (\<lambda>_. bindIO (getIO kw_contended) (\<lambda>n.
     bindIO (updIO (\<lambda>w. w\<lparr>kw_contended := 0\<rparr>)) (\<lambda>_. admission_loop n)))"

section \<open>Allocation records\<close>

definition record_dir :: "unit kio" where
  "record_dir = bindIO ksys (\<lambda>_. bindIO (getIO kw_dir_made) (\<lambda>made.
     bindIO (if made then returnIO () else bindIO (updIO (\<lambda>w. w\<lparr>kw_dir_made := True\<rparr>)) (\<lambda>_. ksys)) (\<lambda>_.
     bindIO (getIO kw_dir_trust) (\<lambda>t. liftE (require t)))))"

definition zero_profile :: resource_profile where
  "zero_profile = \<lparr>rp_name = [], rp_cpus = 0, rp_guest = 0, rp_host = 0, rp_pids = 0\<rparr>"

definition profile_or_zero :: "guard \<Rightarrow> string \<Rightarrow> resource_profile" where
  "profile_or_zero g n = (case lookup g n of Some p \<Rightarrow> p | None \<Rightarrow> zero_profile)"

definition record_error :: "node_host \<Rightarrow> guard \<Rightarrow> string \<Rightarrow> allocation \<Rightarrow> kata_error option" where
  "record_error h g aid r =
     (if al_version r \<noteq> 1 \<or> al_id r \<noteq> aid \<or> al_stamp r \<noteq> stamp h g \<or> al_created r = 0 \<or>
         (al_worker r \<noteq> [] \<and> \<not> valid_worker (al_worker r)) then Some (EGuard UntrustedRecord)
      else case lookup g (al_profile r) of
        None \<Rightarrow> Some (EProfile UnknownProfile)
      | Some p \<Rightarrow>
          if (lookup_profile (al_profile r) = None \<and> al_budget r = None) \<or>
             (al_budget r \<noteq> None \<and> al_budget r \<noteq> Some p) then Some (EProfile ProfileChanged)
          else None)"

definition read_record :: "guard \<Rightarrow> string \<Rightarrow> allocation kio" where
  "read_record g aid =
     bindIO (whenE (\<not> valid_allocation aid) (EGuard BadAllocation)) (\<lambda>_.
     bindIO record_dir (\<lambda>_.
     bindIO (getIO (\<lambda>w. (map_of (kw_records w) aid, kw_host w))) (\<lambda>(f, h). case f of
       None \<Rightarrow> throwIO ENotFound
     | Some rf \<Rightarrow>
         bindIO (liftE (require (rf_trust rf))) (\<lambda>_.
         bindIO ksys (\<lambda>_.
         bindIO (liftE (decoded (rf_doc rf))) (\<lambda>r.
         bindIO (liftE (require (record_error h g aid r))) (\<lambda>_. returnIO r)))))))"

text \<open>
  Create, encode, sync, close and rename of a temporary file that no reader looks at and that is
  removed whatever happens; then the sync of the directory, whose failure leaves the record renamed.
\<close>

definition own_record :: "allocation \<Rightarrow> record_file" where
  "own_record r = \<lparr>rf_trust = None, rf_doc = Document r\<rparr>"

definition put_record :: "allocation \<Rightarrow> kworld \<Rightarrow> kworld" where
  "put_record r w = w\<lparr>kw_records := AList.update (al_id r) (own_record r) (kw_records w)\<rparr>"

definition write_record :: "allocation \<Rightarrow> unit kio" where
  "write_record r =
     bindIO (whenE (\<not> valid_allocation (al_id r)) (EGuard BadAllocation)) (\<lambda>_.
     bindIO record_dir (\<lambda>_.
     bindIO ksys (\<lambda>_. bindIO ksys (\<lambda>_. bindIO ksys (\<lambda>_. bindIO ksys (\<lambda>_. bindIO ksys (\<lambda>_.
     bindIO (updIO (put_record r)) (\<lambda>_. ksys))))))))"

definition drop_record :: "string \<Rightarrow> kworld \<Rightarrow> kworld" where
  "drop_record aid w = w\<lparr>kw_records := AList.delete aid (kw_records w)\<rparr>"

definition remove_record :: "string \<Rightarrow> unit kio" where
  "remove_record aid =
     bindIO (whenE (\<not> valid_allocation aid) (EGuard BadAllocation)) (\<lambda>_.
     bindIO record_dir (\<lambda>_. bindIO ksys (\<lambda>_. bindIO (updIO (drop_record aid)) (\<lambda>_. ksys))))"

section \<open>Binding a worker\<close>

definition label :: "worker_info \<Rightarrow> string \<Rightarrow> string" where
  "label i k = (case wi_labels i of None \<Rightarrow> [] | Some ls \<Rightarrow> (case map_of ls k of None \<Rightarrow> [] | Some v \<Rightarrow> v))"

definition managed_label :: string where "managed_label = ''codex-dock.managed''"
definition isolation_label :: string where "isolation_label = ''codex-dock.isolation''"
definition allocation_label :: string where "allocation_label = ''codex-dock.allocation''"
definition profile_label :: string where "profile_label = ''codex-dock.verified-profile''"
definition resource_label :: string where "resource_label = ''codex-dock.resource-profile''"

text \<open>The container's settings are those of the allocation's profile.\<close>

definition settings_match :: "guard \<Rightarrow> resource_profile \<Rightarrow> string \<Rightarrow> host_settings \<Rightarrow> bool" where
  "settings_match g p parent_path s \<longleftrightarrow>
     hs_memory s = rp_guest p \<and> hs_swap s = rp_guest p \<and> hs_nano_cpus s = rp_cpus p * 1000000000 \<and>
     hs_pids s = Some (rp_pids p) \<and> hs_parent s = parent_path \<and> hs_runtime s = mf_runtime (gd_manifest g)"

definition parent_or_empty :: "guard \<Rightarrow> string \<Rightarrow> string" where
  "parent_or_empty g aid = (case parent g aid of Inr p \<Rightarrow> p | Inl _ \<Rightarrow> [])"

definition owns_allocation :: "node_host \<Rightarrow> guard \<Rightarrow> string \<Rightarrow> resource_profile \<Rightarrow> worker_info \<Rightarrow> bool" where
  "owns_allocation h g aid p i \<longleftrightarrow> wi_labels i \<noteq> None \<and>
     label i managed_label = ''true'' \<and> label i isolation_label = ''kata'' \<and> label i allocation_label = aid \<and>
     label i profile_label = stamp h g \<and> label i resource_label = rp_name p \<and>
     (case wi_host i of None \<Rightarrow> False | Some s \<Rightarrow> settings_match g p (parent_or_empty g aid) s)"

definition bind_worker :: "guard \<Rightarrow> string \<Rightarrow> string \<Rightarrow> allocation \<Rightarrow> allocation kio" where
  "bind_worker g aid worker r =
     bindIO ksys (\<lambda>_.
     bindIO (getIO (\<lambda>w. (kw_host w, kw_workers w worker))) (\<lambda>(h, res).
     bindIO (liftE res) (\<lambda>i.
     bindIO (whenE (\<not> owns_allocation h g aid (profile_or_zero g (al_profile r)) i) (EGuard NotOwner)) (\<lambda>_.
       returnIO (r\<lparr>al_worker := worker, al_name := trim_prefix (wi_name i) ''/''\<rparr>)))))"

definition new_allocation :: "node_host \<Rightarrow> guard \<Rightarrow> int \<Rightarrow> string \<Rightarrow> resource_profile \<Rightarrow> allocation" where
  "new_allocation h g now aid b =
     \<lparr>al_version = 1, al_id = aid, al_worker = [], al_stamp = stamp h g, al_name = [], al_profile = rp_name b,
      al_created = now, al_budget = (if lookup_profile (rp_name b) = None then Some b else None)\<rparr>"

definition default_profile :: "string option \<Rightarrow> string" where
  "default_profile req = (case req of None \<Rightarrow> ''standard'' | Some p \<Rightarrow> p)"

definition current_record :: "guard \<Rightarrow> string \<Rightarrow> string option \<Rightarrow> allocation kio" where
  "current_record g aid requested =
     bindIO (catchIO (read_record g aid)) (\<lambda>res. case res of
       Inr r \<Rightarrow> returnIO r
     | Inl e \<Rightarrow>
         if e \<noteq> ENotFound then throwIO e
         else (case lookup g (default_profile requested) of
           None \<Rightarrow> throwIO (EProfile UnknownProfile)
         | Some b \<Rightarrow> getIO (\<lambda>w. new_allocation (kw_host w) g (kw_now w) aid b)))"

definition requested_changed :: "guard \<Rightarrow> string option \<Rightarrow> allocation \<Rightarrow> bool" where
  "requested_changed g requested r \<longleftrightarrow> (case requested of None \<Rightarrow> False
     | Some p \<Rightarrow> p \<noteq> [] \<and> p \<noteq> rp_name (profile_or_zero g (al_profile r)))"

definition track_allocation :: "guard \<Rightarrow> string \<Rightarrow> string \<Rightarrow> string option \<Rightarrow> unit kio" where
  "track_allocation g aid worker requested =
     bindIO (current_record g aid requested) (\<lambda>r.
     bindIO (whenE (requested_changed g requested r) (EProfile ProfileChanged)) (\<lambda>_.
     bindIO (whenE (al_worker r \<noteq> [] \<and> worker \<noteq> [] \<and> al_worker r \<noteq> worker) (EGuard OtherWorker)) (\<lambda>_.
     bindIO (if worker = [] then returnIO r else bind_worker g aid worker r) (\<lambda>r'.
       write_record r'))))"

section \<open>Reserving\<close>

definition str_contains :: "string \<Rightarrow> string \<Rightarrow> bool" where
  "str_contains s t \<longleftrightarrow> list_ex (prefix t) (suffixes s)"

definition group_at :: "kworld \<Rightarrow> string \<Rightarrow> group_node option" where
  "group_at w aid = map_of (kw_groups w) (group_entry aid)"

definition put_group :: "string \<Rightarrow> group_node \<Rightarrow> kworld \<Rightarrow> kworld" where
  "put_group aid n w = w\<lparr>kw_groups := AList.update (group_entry aid) n (kw_groups w)\<rparr>"

definition drop_group :: "string \<Rightarrow> kworld \<Rightarrow> kworld" where
  "drop_group aid w = w\<lparr>kw_groups := AList.delete (group_entry aid) (kw_groups w)\<rparr>"

definition lstat_group :: "string \<Rightarrow> bool kio" where
  "lstat_group aid = bindIO ksys (\<lambda>_. getIO (\<lambda>w. group_at w aid \<noteq> None))"

definition read_control :: "string \<Rightarrow> string \<Rightarrow> string kio" where
  "read_control aid name = bindIO ksys (\<lambda>_. bindIO (getIO (\<lambda>w. group_at w aid)) (\<lambda>n. case n of
     None \<Rightarrow> throwIO ENotFound
   | Some nd \<Rightarrow> (case map_of (gn_files nd) name of None \<Rightarrow> throwIO ENotFound | Some v \<Rightarrow> returnIO v)))"

definition write_control :: "string \<Rightarrow> string \<times> string \<Rightarrow> unit kio" where
  "write_control aid = (\<lambda>(name, value). bindIO ksys (\<lambda>_.
     bindIO (getIO (\<lambda>w. (group_at w aid, kw_kernel w name value))) (\<lambda>(n, k). case (n, k) of
       (Some nd, Some v) \<Rightarrow> updIO (put_group aid (nd\<lparr>gn_files := AList.update name v (gn_files nd)\<rparr>))
     | _ \<Rightarrow> throwIO EIOFault)))"

fun each :: "('a \<Rightarrow> unit kio) \<Rightarrow> 'a list \<Rightarrow> unit kio" where
  "each f [] = returnIO ()"
| "each f (x # xs) = bindIO (f x) (\<lambda>_. each f xs)"

definition check_limit :: "string \<Rightarrow> string \<times> string \<Rightarrow> unit kio" where
  "check_limit aid = (\<lambda>(name, want). bindIO (read_control aid name) (\<lambda>v.
     whenE (trim_space v \<noteq> want) (EGuard (LimitMismatch name))))"

definition check_limits :: "guard \<Rightarrow> string \<Rightarrow> unit kio" where
  "check_limits g aid = bindIO (read_record g aid) (\<lambda>r.
     each (check_limit aid) (group_limits (profile_or_zero g (al_profile r))))"

text \<open>\<open>os.Remove\<close> of a cgroup: the kernel refuses one with processes or children.\<close>

definition rmdir_at :: "string \<Rightarrow> string list \<Rightarrow> unit kio" where
  "rmdir_at aid path = bindIO ksys (\<lambda>_. bindIO (getIO (\<lambda>w. group_at w aid)) (\<lambda>n. case n of
     None \<Rightarrow> throwIO ENotFound
   | Some nd \<Rightarrow>
       (case map_of (gn_tree nd) path of
          None \<Rightarrow> throwIO ENotFound
        | Some procs \<Rightarrow>
            bindIO (whenE (procs \<noteq> [] \<or> list_ex (\<lambda>(p, _). strict_prefix path p) (gn_tree nd)) EBusy) (\<lambda>_.
            updIO (if path = [] then drop_group aid
                   else put_group aid (nd\<lparr>gn_tree := AList.delete path (gn_tree nd)\<rparr>))))))"

definition mkdir_group :: "string \<Rightarrow> unit kio" where
  "mkdir_group aid = bindIO ksys (\<lambda>_. bindIO (getIO (\<lambda>w. (group_at w aid, kw_fresh w))) (\<lambda>(n, fresh).
     if n \<noteq> None then throwIO EExists
     else updIO (put_group aid \<lparr>gn_dir = True, gn_root = True, gn_perm = 493, gn_files = fresh, gn_tree = [([], [])]\<rparr>)))"

definition count_groups :: "kworld \<Rightarrow> nat" where
  "count_groups w = length (filter (\<lambda>(n, _). prefix group_prefix n) (kw_groups w))"

definition populated_text :: string where "populated_text = ''populated 1''"

definition reserve_existing :: "guard \<Rightarrow> string \<Rightarrow> resource_profile \<Rightarrow> unit kio" where
  "reserve_existing g aid p =
     bindIO (check_limits g aid) (\<lambda>_.
     bindIO (read_control aid ''cgroup.events'') (\<lambda>ev.
     bindIO (whenE (str_contains ev populated_text) (EGuard Occupied)) (\<lambda>_.
     track_allocation g aid [] (Some (rp_name p)))))"

definition configure_group :: "guard \<Rightarrow> string \<Rightarrow> resource_profile \<Rightarrow> unit kio" where
  "configure_group g aid p =
     bindIO (each (write_control aid) (group_limits p)) (\<lambda>_.
     bindIO (check_limits g aid) (\<lambda>_.
     write_control aid (''cgroup.subtree_control'', ''+cpu +memory +pids'')))"

text \<open>The reservation is persisted before its cgroup exists.\<close>

definition reserve_new :: "guard \<Rightarrow> string \<Rightarrow> resource_profile \<Rightarrow> unit kio" where
  "reserve_new g aid p =
     bindIO ksys (\<lambda>_.
     bindIO (getIO count_groups) (\<lambda>n.
     bindIO (whenE (gc_max (gd_config g) \<le> int n) ECapacity) (\<lambda>_.
     bindIO (track_allocation g aid [] (Some (rp_name p))) (\<lambda>_.
     bindIO (mkdir_group aid) (\<lambda>_.
     bindIO (catchIO (configure_group g aid p)) (\<lambda>res. case res of
       Inr _ \<Rightarrow> returnIO ()
     | Inl e \<Rightarrow> bindIO (catchIO (rmdir_at aid [])) (\<lambda>_. throwIO e)))))))"

definition reserve_profile :: "guard \<Rightarrow> string \<Rightarrow> string \<Rightarrow> string kio" where
  "reserve_profile g aid name =
     (case lookup g name of
        None \<Rightarrow> throwIO (EProfile UnknownProfile)
      | Some p \<Rightarrow>
          bindIO (liftE (group_path g aid)) (\<lambda>path.
          bindIO admission_lock (\<lambda>_.
          bindIO (lstat_group aid) (\<lambda>present.
          bindIO (if present then reserve_existing g aid p else reserve_new g aid p) (\<lambda>_.
            returnIO (trim_prefix path cgroup_fs))))))"

section \<open>The observed ledger\<close>

text \<open>
  What the proofs follow: the node's files, the records, the cgroups and the clock.  The operations
  below change nothing else of it, and the schedules do not show in it.
\<close>

type_synonym worker_view = "string \<Rightarrow> (kata_error, worker_info) result"

definition at :: "kata_error option \<Rightarrow> node_host \<Rightarrow> worker_view \<Rightarrow> (string \<times> record_file) list \<Rightarrow> (string \<times> group_node) list \<Rightarrow> kworld \<Rightarrow> bool" where
  "at d h ws rs gs w \<longleftrightarrow> kw_dir_trust w = d \<and> kw_host w = h \<and> kw_workers w = ws \<and> kw_records w = rs \<and> kw_groups w = gs \<and> 0 < kw_now w"

definition core :: "kworld \<Rightarrow> kata_error option \<times> node_host \<times> worker_view \<times> (string \<times> record_file) list \<times> (string \<times> group_node) list \<times> int" where
  "core w = (kw_dir_trust w, kw_host w, kw_workers w, kw_records w, kw_groups w, kw_now w)"

lemma at_core: "core w = core w' \<Longrightarrow> at d h ws rs gs w \<longleftrightarrow> at d h ws rs gs w'"
  by (simp add: core_def at_def)

lemma quiet_at: "quiet core m \<Longrightarrow> triple (at d h ws rs gs) m (\<lambda>_. at d h ws rs gs) (\<lambda>_. at d h ws rs gs)"
  by (intro tripleI) (metis quietD at_core)+

lemma quiet_ksys [simp, intro]: "quiet core ksys"
  by (simp add: quiet_def ksys_def core_def split: list.split)

lemma quiet_kctx_ended [simp, intro]: "quiet core kctx_ended"
  by (simp add: quiet_def kctx_ended_def core_def split: list.split)

lemma quiet_kctx [simp, intro]: "quiet core kctx"
  unfolding kctx_def by (intro quiet_bind quiet_unit quiet_kctx_ended)

lemma quiet_admission_loop [simp, intro]: "quiet core (admission_loop n)"
  by (induction n) (auto intro!: quiet_bind)

lemma quiet_admission_lock [simp, intro]: "quiet core admission_lock"
  unfolding admission_lock_def by (intro quiet_bind quiet_ksys quiet_unit quiet_upd quiet_admission_loop) (simp add: core_def)

lemma quiet_record_dir [simp, intro]: "quiet core record_dir"
  unfolding record_dir_def by (intro quiet_bind quiet_ksys quiet_unit quiet_upd quiet_if) (simp add: core_def)

lemma record_dir_triple:
  "triple (at d h ws rs gs) record_dir (\<lambda>_ w. at d h ws rs gs w \<and> d = None) (\<lambda>_. at d h ws rs gs)"
  unfolding record_dir_def
proof (rule triple_bind [where Q = "\<lambda>_. at d h ws rs gs"], rule quiet_at, simp,
    rule triple_bind [where Q = "\<lambda>_. at d h ws rs gs"], simp add: triple_get,
    rule triple_bind [where Q = "\<lambda>_. at d h ws rs gs"])
  fix made :: bool
  show "triple (at d h ws rs gs) (if made then returnIO () else bindIO (updIO (kw_dir_made_update (\<lambda>_. True))) (\<lambda>_. ksys))
      (\<lambda>_. at d h ws rs gs) (\<lambda>_. at d h ws rs gs)"
    by (intro quiet_at quiet_if quiet_bind quiet_unit quiet_upd quiet_ksys) (simp add: core_def)
  show "triple (at d h ws rs gs) (bindIO (getIO kw_dir_trust) (\<lambda>t. liftE (require t)))
      (\<lambda>_ w. at d h ws rs gs w \<and> d = None) (\<lambda>_. at d h ws rs gs)"
    by (rule triple_bind [where Q = "\<lambda>t w. at d h ws rs gs w \<and> t = d"])
      (auto intro!: triple_get triple_lift simp: at_def result_simps)
qed

lemma ksys_triple: "triple (at d h ws rs gs) ksys (\<lambda>_. at d h ws rs gs) (\<lambda>_. at d h ws rs gs)"
  by (rule quiet_at) simp

section \<open>Reading and writing records\<close>

text \<open>A record of the ledger as its readers accept it.\<close>

definition record_ok :: "node_host \<Rightarrow> guard \<Rightarrow> string \<Rightarrow> record_file \<Rightarrow> bool" where
  "record_ok h g aid rf \<longleftrightarrow> valid_allocation aid \<and> rf_trust rf = None \<and>
     (\<exists>r. rf_doc rf = Document r \<and> record_error h g aid r = None)"

definition records_ok :: "node_host \<Rightarrow> guard \<Rightarrow> (string \<times> record_file) list \<Rightarrow> bool" where
  "records_ok h g rs \<longleftrightarrow> (\<forall>aid rf. map_of rs aid = Some rf \<longrightarrow> record_ok h g aid rf)"

definition recorded :: "(string \<times> record_file) list \<Rightarrow> string \<Rightarrow> allocation option" where
  "recorded rs aid = (case map_of rs aid of None \<Rightarrow> None
     | Some rf \<Rightarrow> (case rf_doc rf of Document r \<Rightarrow> Some r | _ \<Rightarrow> None))"

lemma recorded_update [simp]: "recorded (AList.update aid (own_record r) rs) = (recorded rs)(aid \<mapsto> r)"
  by (auto simp: recorded_def own_record_def update_conv' fun_eq_iff)

lemma recorded_delete [simp]: "recorded (AList.delete aid rs) = (recorded rs)(aid := None)"
  by (auto simp: recorded_def delete_conv' fun_eq_iff)

lemma records_ok_recorded:
  "records_ok h g rs \<Longrightarrow> recorded rs aid = Some r \<Longrightarrow> valid_allocation aid \<and> record_error h g aid r = None"
  by (fastforce simp: recorded_def records_ok_def record_ok_def split: option.splits document.splits)

lemma records_ok_absent: "records_ok h g rs \<Longrightarrow> recorded rs aid = None \<longleftrightarrow> map_of rs aid = None"
  by (fastforce simp: recorded_def records_ok_def record_ok_def split: option.splits document.splits)

lemma records_ok_update:
  "records_ok h g rs \<Longrightarrow> valid_allocation aid \<Longrightarrow> record_error h g aid r = None \<Longrightarrow>
   records_ok h g (AList.update aid (own_record r) rs)"
  by (auto simp: records_ok_def record_ok_def own_record_def update_conv')

lemma records_ok_delete: "records_ok h g rs \<Longrightarrow> records_ok h g (AList.delete aid rs)"
  by (auto simp: records_ok_def delete_conv' split: if_splits)

lemma record_error_id: "record_error h g aid r = None \<Longrightarrow> al_id r = aid"
  by (auto simp: record_error_def split: if_splits)

lemma recorded_Some:
  "map_of rs aid = Some rf \<Longrightarrow> rf_doc rf = Document r \<Longrightarrow> recorded rs aid = Some r"
  by (simp add: recorded_def)

definition same_core :: "kworld \<Rightarrow> kworld \<Rightarrow> bool" where
  "same_core w' w \<longleftrightarrow> kw_dir_trust w' = kw_dir_trust w \<and> kw_host w' = kw_host w \<and> kw_workers w' = kw_workers w \<and> kw_records w' = kw_records w \<and>
     kw_groups w' = kw_groups w \<and> kw_now w' = kw_now w"

lemma quiet_same: "quiet core m \<Longrightarrow> m w = (r, w') \<Longrightarrow> same_core w' w"
  by (drule (1) quietD) (simp add: core_def same_core_def)

lemma ksys_step: "ksys w = (r, w') \<Longrightarrow> same_core w' w \<and> (\<forall>e. r = Inl e \<longrightarrow> e = EIOFault)"
  using quiet_same [OF quiet_ksys] by (auto simp: ksys_def split: list.splits if_splits)

lemma record_dir_step:
  assumes "record_dir w = (r, w')"
  shows "same_core w' w \<and> (case r of Inr _ \<Rightarrow> kw_dir_trust w = None
     | Inl e \<Rightarrow> e = EIOFault \<or> kw_dir_trust w = Some e)"
proof
  show "same_core w' w" using assms by (rule quiet_same [OF quiet_record_dir])
  show "case r of Inr _ \<Rightarrow> kw_dir_trust w = None | Inl e \<Rightarrow> e = EIOFault \<or> kw_dir_trust w = Some e"
    using assms
    by (cases r) (auto simp: record_dir_def io_iffs result_simps require_def ksys_def
        split: list.splits if_splits option.splits)
qed

lemmas quiet_steps = ksys_step record_dir_step quiet_same [OF quiet_kctx] quiet_same [OF quiet_admission_lock]

lemma record_error_not_found: "require (record_error h g aid r) \<noteq> Inl ENotFound"
  by (auto simp: record_error_def require_def split: option.splits)

lemma records_okD:
  assumes "records_ok h g rs" and "map_of rs aid = Some rf"
  shows "\<exists>r. rf_trust rf = None \<and> rf_doc rf = Document r \<and> recorded rs aid = Some r \<and> record_error h g aid r = None"
proof -
  obtain r where "rf_trust rf = None" "rf_doc rf = Document r" "record_error h g aid r = None"
    using assms by (auto simp: records_ok_def record_ok_def)
  then show ?thesis using assms(2) by (auto simp: recorded_def)
qed

lemma decoded_Document [simp]: "decoded (Document x) = Inr x"
  by (simp add: decoded_def)

lemma read_record_triple:
  assumes ok: "records_ok h g rs"
  shows "triple (at d h ws rs gs) (read_record g aid)
     (\<lambda>r w. at d h ws rs gs w \<and> recorded rs aid = Some r \<and> valid_allocation aid \<and> record_error h g aid r = None)
     (\<lambda>e w. at d h ws rs gs w \<and> (e = ENotFound \<longrightarrow> valid_allocation aid \<and> (recorded rs aid = None \<or> d \<noteq> None)))"
proof (cases "map_of rs aid")
  case None
  then have "recorded rs aid = None" by (simp add: recorded_def)
  with None show ?thesis
    by (intro tripleI)
      (auto simp: read_record_def io_iffs result_simps same_core_def at_def dest!: quiet_steps)
next
  case (Some rf)
  then obtain r where r: "rf_trust rf = None" "rf_doc rf = Document r" "recorded rs aid = Some r" "record_error h g aid r = None"
    using records_okD [OF ok] by blast
  with Some show ?thesis
    by (intro tripleI)
      (auto simp: read_record_def io_iffs result_simps same_core_def at_def record_error_not_found
        dest!: quiet_steps)
qed

section \<open>Tracking an allocation\<close>

text \<open>A record that \<open>trackAllocation\<close> makes for an allocation without one.\<close>

definition fresh_record :: "guard \<Rightarrow> string option \<Rightarrow> allocation \<Rightarrow> bool" where
  "fresh_record g req r \<longleftrightarrow> al_worker r = [] \<and>
     (\<exists>b. lookup g (default_profile req) = Some b \<and> al_profile r = rp_name b)"

lemma new_allocation_ok:
  assumes "registry_ok (gd_profiles g)" and "lookup g n = Some b" and "0 < now" and "valid_allocation aid"
  shows "record_error h g aid (new_allocation h g now aid b) = None"
proof -
  have "b \<in> set (registry_profiles (gd_profiles g))"
    using assms(2) registry_lookup_listed by (auto simp: lookup_def)
  then have "lookup g (rp_name b) = Some b" using registry_lookup_name [OF assms(1)] by (simp add: lookup_def)
  with assms(3) show ?thesis by (simp add: record_error_def new_allocation_def)
qed

lemma new_allocation_simps:
  "al_worker (new_allocation h g now aid b) = []" "al_profile (new_allocation h g now aid b) = rp_name b"
  by (simp_all add: new_allocation_def)

lemma current_record_triple:
  assumes ok: "records_ok h g rs" and reg: "registry_ok (gd_profiles g)"
  shows "triple (at d h ws rs gs) (current_record g aid req)
     (\<lambda>r w. at d h ws rs gs w \<and> valid_allocation aid \<and> record_error h g aid r = None \<and>
        (recorded rs aid = Some r \<or> (recorded rs aid = None \<or> d \<noteq> None) \<and> fresh_record g req r))
     (\<lambda>_. at d h ws rs gs)"
  unfolding current_record_def
proof (rule triple_bind [where Q = "\<lambda>res w. at d h ws rs gs w \<and> (case res of
      Inr r \<Rightarrow> recorded rs aid = Some r \<and> valid_allocation aid \<and> record_error h g aid r = None
    | Inl e \<Rightarrow> e = ENotFound \<longrightarrow> valid_allocation aid \<and> (recorded rs aid = None \<or> d \<noteq> None))"], goal_cases)
  case 1
  show ?case by (rule triple_catch) (rule triple_post [OF read_record_triple [OF ok]], auto)
next
  case (2 res)
  show ?case
    by (cases res)
      (auto simp: fresh_record_def at_def new_allocation_simps intro!: triple_return triple_throw triple_get
        new_allocation_ok [OF reg] split: option.splits)
qed

lemma ksys_keeps:
  "triple (\<lambda>w. at d h ws rs gs w \<and> B) ksys (\<lambda>_ w. at d h ws rs gs w \<and> B) (\<lambda>_ w. at d h ws rs gs w \<and> B)"
  using ksys_triple [of d h ws rs gs] by (cases B) (simp_all add: triple_def)

lemma write_record_triple:
  "triple (at d h ws rs gs) (write_record r)
     (\<lambda>_ w. d = None \<and> at d h ws (AList.update (al_id r) (own_record r) rs) gs w)
     (\<lambda>_ w. at d h ws rs gs w \<or> d = None \<and> at d h ws (AList.update (al_id r) (own_record r) rs) gs w)"
    (is "triple ?P _ ?Q ?R")
proof -
  have s: "triple (\<lambda>w. at d h ws rs gs w \<and> d = None) ksys (\<lambda>_ w. at d h ws rs gs w \<and> d = None) ?R"
    by (rule triple_post [OF ksys_keeps]) auto
  have p: "triple (\<lambda>w. at d h ws rs gs w \<and> d = None) (bindIO (updIO (put_record r)) (\<lambda>_. ksys)) ?Q ?R"
  proof (rule triple_bind [where Q = "\<lambda>_ w. at d h ws (AList.update (al_id r) (own_record r) rs) gs w \<and> d = None"], goal_cases)
    case 1 show ?case by (rule triple_upd) (simp add: at_def put_record_def)
  next
    case 2 show ?case by (rule triple_post [OF ksys_keeps]) auto
  qed
  show ?thesis
    unfolding write_record_def
  proof (rule triple_bind [where Q = "\<lambda>_. at d h ws rs gs"], goal_cases)
    case 1
    show ?case by (intro triple_when) auto
  next
    case 2
    have "triple (at d h ws rs gs) record_dir (\<lambda>_ w. at d h ws rs gs w \<and> d = None) ?R"
      by (rule triple_post [OF record_dir_triple]) auto
    then show ?case by (rule triple_bind) (intro triple_bind [OF s] p)
  qed
qed

text \<open>A binding to \<open>worker\<close>: containerd describes that worker as the owner of the allocation.\<close>

definition verified_owner :: "node_host \<Rightarrow> worker_view \<Rightarrow> guard \<Rightarrow> string \<Rightarrow> string \<Rightarrow> allocation \<Rightarrow> bool" where
  "verified_owner h ws g aid worker r \<longleftrightarrow> (\<exists>i. ws worker = Inr i \<and>
     owns_allocation h g aid (profile_or_zero g (al_profile r)) i \<and> al_name r = trim_prefix (wi_name i) ''/'')"

lemma quiet_bind_worker: "quiet core (bind_worker g aid worker r)"
  unfolding bind_worker_def by (intro quiet_bind quiet_ksys) (auto intro!: quiet_bind split: prod.split)

lemma bind_worker_Inr:
  assumes "bind_worker g aid worker r w = (Inr r', w')"
  shows "\<exists>i. kw_workers w worker = Inr i \<and> owns_allocation (kw_host w) g aid (profile_or_zero g (al_profile r)) i \<and>
     r' = r\<lparr>al_worker := worker, al_name := trim_prefix (wi_name i) ''/''\<rparr>"
  using assms by (auto simp: bind_worker_def io_iffs same_core_def dest!: ksys_step)

lemma bind_worker_triple:
  "triple (at d h ws rs gs) (bind_worker g aid worker r)
     (\<lambda>r' w. at d h ws rs gs w \<and> verified_owner h ws g aid worker r' \<and> (\<exists>n. r' = r\<lparr>al_worker := worker, al_name := n\<rparr>))
     (\<lambda>_. at d h ws rs gs)"
proof (rule tripleI)
  fix w r' w' assume a: "at d h ws rs gs w" and b: "bind_worker g aid worker r w = (Inr r', w')"
  have "at d h ws rs gs w'" using a at_core quietD [OF quiet_bind_worker b] by blast
  moreover obtain i where "ws worker = Inr i" "owns_allocation h g aid (profile_or_zero g (al_profile r)) i"
      "r' = r\<lparr>al_worker := worker, al_name := trim_prefix (wi_name i) ''/''\<rparr>"
    using bind_worker_Inr [OF b] a by (auto simp: at_def)
  ultimately show "at d h ws rs gs w' \<and> verified_owner h ws g aid worker r' \<and> (\<exists>n. r' = r\<lparr>al_worker := worker, al_name := n\<rparr>)"
    by (auto simp: verified_owner_def)
next
  fix w e w' assume "at d h ws rs gs w" and b: "bind_worker g aid worker r w = (Inl e, w')"
  then show "at d h ws rs gs w'" using at_core quietD [OF quiet_bind_worker b] by blast
qed

text \<open>
  What \<open>trackAllocation\<close> does to the record of one allocation: it makes a fresh one, keeps it, or binds
  the worker; the profile, the creation time and an existing binding never change.
\<close>

definition tracked :: "node_host \<Rightarrow> worker_view \<Rightarrow> guard \<Rightarrow> string \<Rightarrow> string \<Rightarrow> string option \<Rightarrow> allocation option \<Rightarrow> allocation \<Rightarrow> bool" where
  "tracked h ws g aid worker req old r \<longleftrightarrow> record_error h g aid r = None \<and> \<not> requested_changed g req r \<and>
     (case old of
        None \<Rightarrow> al_worker r = worker \<and> (\<exists>b. lookup g (default_profile req) = Some b \<and> al_profile r = rp_name b)
      | Some r0 \<Rightarrow> al_profile r = al_profile r0 \<and> al_created r = al_created r0 \<and> al_budget r = al_budget r0 \<and>
          al_worker r = (if worker = [] then al_worker r0 else worker) \<and>
          (al_worker r0 = [] \<or> worker = [] \<or> al_worker r0 = worker)) \<and>
     (worker \<noteq> [] \<longrightarrow> verified_owner h ws g aid worker r)"

lemma record_error_bound:
  "record_error h g aid r = None \<Longrightarrow> valid_worker worker \<Longrightarrow>
     record_error h g aid (r\<lparr>al_worker := worker, al_name := n\<rparr>) = None"
  by (auto simp: record_error_def split: if_splits option.splits)

lemma track_triple:
  assumes ok: "records_ok h g rs" and reg: "registry_ok (gd_profiles g)" and wk: "worker = [] \<or> valid_worker worker"
  shows "triple (at d h ws rs gs) (track_allocation g aid worker req)
     (\<lambda>_ w. \<exists>r. valid_allocation aid \<and> tracked h ws g aid worker req (recorded rs aid) r \<and>
        at d h ws (AList.update aid (own_record r) rs) gs w)
     (\<lambda>_ w. at d h ws rs gs w \<or> (\<exists>r. valid_allocation aid \<and> tracked h ws g aid worker req (recorded rs aid) r \<and>
        at d h ws (AList.update aid (own_record r) rs) gs w))"
    (is "triple ?P _ ?Q ?R")
  unfolding track_allocation_def
proof (rule triple_bind, rule triple_post [OF current_record_triple [OF ok reg]], assumption, simp, goal_cases)
  case (1 r)
  let ?C = "valid_allocation aid \<and> record_error h g aid r = None \<and>
        (recorded rs aid = Some r \<or> (recorded rs aid = None \<or> d \<noteq> None) \<and> fresh_record g req r)"
  let ?T = "\<lambda>r'. d = None \<longrightarrow> valid_allocation aid \<and> tracked h ws g aid worker req (recorded rs aid) r'"
  show ?case
  proof (rule triple_fact [where B = ?C], blast)
    assume c: ?C
    have old: "recorded rs aid = Some r \<or> d \<noteq> None \<or> recorded rs aid = None \<and> fresh_record g req r" using c by blast
    have b: "triple (at d h ws rs gs) (if worker = [] then returnIO r else bind_worker g aid worker r)
        (\<lambda>r' w. at d h ws rs gs w \<and> ?T r' \<and> al_id r' = aid) ?R"
      if q: "\<not> requested_changed g req r" and w: "\<not> (al_worker r \<noteq> [] \<and> worker \<noteq> [] \<and> al_worker r \<noteq> worker)"
    proof (rule triple_if)
      assume "worker = []"
      then have "?T r \<and> al_id r = aid"
        using c old q record_error_id [of h g aid r] by (auto simp: tracked_def fresh_record_def)
      then show "triple (at d h ws rs gs) (returnIO r) (\<lambda>r' w. at d h ws rs gs w \<and> ?T r' \<and> al_id r' = aid) ?R"
        by (intro triple_return) blast
    next
      assume n: "worker \<noteq> []"
      have "?T r' \<and> al_id r' = aid" if "verified_owner h ws g aid worker r'" "r' = r\<lparr>al_worker := worker, al_name := m\<rparr>" for r' m
      proof -
        have "record_error h g aid r' = None" using c wk n that record_error_bound by simp
        moreover have "\<not> requested_changed g req r'" using q that by (simp add: requested_changed_def split: option.splits)
        ultimately show ?thesis
          using c old w n that record_error_id [of h g aid r'] by (auto simp: tracked_def fresh_record_def)
      qed
      then show "triple (at d h ws rs gs) (bind_worker g aid worker r) (\<lambda>r' w. at d h ws rs gs w \<and> ?T r' \<and> al_id r' = aid) ?R"
        by (intro triple_post [OF bind_worker_triple]) blast+
    qed
    have wr: "triple (\<lambda>w. at d h ws rs gs w \<and> ?T r' \<and> al_id r' = aid) (write_record r') ?Q ?R" for r'
    proof (rule triple_fact [where B = "?T r' \<and> al_id r' = aid"], blast)
      assume t: "?T r' \<and> al_id r' = aid"
      show "triple (\<lambda>w. at d h ws rs gs w \<and> ?T r' \<and> al_id r' = aid) (write_record r') ?Q ?R"
        by (rule triple_pre [where P' = "at d h ws rs gs"], rule triple_post [OF write_record_triple]) (use t in blast)+
    qed
    have k: "triple (at d h ws rs gs) (whenE x e) (\<lambda>_ w. at d h ws rs gs w \<and> \<not> x) ?R" for x e
      by (intro triple_when) auto
    show "triple (\<lambda>w. at d h ws rs gs w \<and> ?C) (bindIO (whenE (requested_changed g req r) (EProfile ProfileChanged)) (\<lambda>_.
       bindIO (whenE (al_worker r \<noteq> [] \<and> worker \<noteq> [] \<and> al_worker r \<noteq> worker) (EGuard OtherWorker)) (\<lambda>_.
       bindIO (if worker = [] then returnIO r else bind_worker g aid worker r) (\<lambda>r'. write_record r')))) ?Q ?R"
    proof (rule triple_pre [where P' = "at d h ws rs gs"], rule triple_bind [OF k], rule triple_fact, erule conjunct2, goal_cases)
      case (1 u)
      show ?case
        by (rule triple_pre [where P' = "at d h ws rs gs"], rule triple_bind [OF k], rule triple_fact, erule conjunct2,
            rule triple_pre [where P' = "at d h ws rs gs"], rule triple_bind [OF b], rule 1, assumption, rule wr) auto
    qed auto
  qed
qed

section \<open>Cgroups and their limits\<close>

definition count_entries :: "(string \<times> group_node) list \<Rightarrow> nat" where
  "count_entries gs = length (filter (\<lambda>(n, _). prefix group_prefix n) gs)"

lemma count_groups_entries: "count_groups w = count_entries (kw_groups w)"
  by (simp add: count_groups_def count_entries_def)

lemma group_entry_prefix [simp]: "prefix group_prefix (group_entry aid)"
  by (simp add: group_entry_def)

lemma group_entry_inject [simp]: "group_entry a = group_entry b \<longleftrightarrow> a = b"
  by (simp add: group_entry_def)

lemma count_entries_update:
  "count_entries (AList.update (group_entry aid) n gs) =
     (if map_of gs (group_entry aid) = None then Suc (count_entries gs) else count_entries gs)"
  by (induction gs) (auto simp: count_entries_def)

lemma count_entries_delete: "count_entries (AList.delete k gs) \<le> count_entries gs"
  by (induction gs) (auto simp: count_entries_def)

definition limits_hold :: "resource_profile \<Rightarrow> group_node \<Rightarrow> bool" where
  "limits_hold p n \<longleftrightarrow> (\<forall>(name, want) \<in> set (group_limits p). \<exists>v. map_of (gn_files n) name = Some v \<and> trim_space v = want)"

lemma quiet_read_control [simp, intro]: "quiet core (read_control aid name)"
  unfolding read_control_def by (intro quiet_bind quiet_ksys quiet_unit) (auto split: option.split)

lemma read_control_Inr:
  assumes "read_control aid name w = (Inr v, w')"
  shows "\<exists>nd. group_at w aid = Some nd \<and> map_of (gn_files nd) name = Some v"
proof -
  obtain w1 where "ksys w = (Inr (), w1)"
    and r: "(case group_at w1 aid of None \<Rightarrow> throwIO ENotFound
      | Some nd \<Rightarrow> (case map_of (gn_files nd) name of None \<Rightarrow> throwIO ENotFound | Some v \<Rightarrow> returnIO v)) w1 = (Inr v, w')"
    using assms by (auto simp: read_control_def io_iffs)
  then have "group_at w1 aid = group_at w aid" using ksys_step by (auto simp: same_core_def group_at_def)
  with r show ?thesis by (auto split: option.splits)
qed

lemma quiet_check_limit [simp, intro]: "quiet core (check_limit aid x)"
  by (cases x) (auto simp: check_limit_def intro!: quiet_bind)

lemma check_limit_Inr:
  "check_limit aid (name, want) w = (Inr u, w') \<Longrightarrow>
     \<exists>nd v. group_at w aid = Some nd \<and> map_of (gn_files nd) name = Some v \<and> trim_space v = want"
  by (auto simp: check_limit_def io_iffs dest!: read_control_Inr)

lemma quiet_each [intro]: "(\<And>x. quiet v (f x)) \<Longrightarrow> quiet v (each f xs)"
  by (induction xs) auto

lemma quiet_each_check [simp, intro]: "quiet core (each (check_limit aid) ls)"
  by (rule quiet_each) simp

lemma same_core_group: "same_core w' w \<Longrightarrow> group_at w' aid = group_at w aid"
  by (simp add: same_core_def group_at_def)

lemma each_check_Inr:
  assumes "each (check_limit aid) ls w = (Inr u, w')" and "group_at w aid = Some nd"
  shows "\<forall>(name, want) \<in> set ls. \<exists>v. map_of (gn_files nd) name = Some v \<and> trim_space v = want"
  using assms
proof (induction ls arbitrary: w)
  case (Cons l ls)
  obtain name want where l: "l = (name, want)" by (cases l)
  obtain w1 where h: "check_limit aid l w = (Inr (), w1)" and t: "each (check_limit aid) ls w1 = (Inr u, w')"
    using Cons.prems(1) by (auto simp: io_iffs)
  have "group_at w1 aid = Some nd"
    using quiet_same [OF quiet_check_limit h] Cons.prems(2) by (simp add: same_core_group)
  from Cons.IH [OF t this] check_limit_Inr [OF h [unfolded l]] Cons.prems(2) show ?case by (auto simp: l)
qed simp

text \<open>\<open>checkLimits\<close> succeeds only when every limit of the recorded profile is in force.\<close>

definition within_limits :: "guard \<Rightarrow> (string \<times> record_file) list \<Rightarrow> (string \<times> group_node) list \<Rightarrow> string \<Rightarrow> bool" where
  "within_limits g rs gs aid \<longleftrightarrow> (\<exists>r nd. recorded rs aid = Some r \<and> map_of gs (group_entry aid) = Some nd \<and>
     limits_hold (profile_or_zero g (al_profile r)) nd)"

lemma group_limits_nonempty: "group_limits p \<noteq> []"
  by (simp add: group_limits_def)

lemma each_check_group:
  "each (check_limit aid) ls w = (Inr u, w') \<Longrightarrow> ls \<noteq> [] \<Longrightarrow> \<exists>nd. group_at w aid = Some nd"
  by (cases ls; cases "hd ls") (auto simp: io_iffs dest!: check_limit_Inr)

lemma at_same: "at d h ws rs gs w \<Longrightarrow> same_core w' w \<Longrightarrow> at d h ws rs gs w'"
  by (simp add: at_def same_core_def)

lemma at_group: "at d h ws rs gs w \<Longrightarrow> group_at w aid = map_of gs (group_entry aid)"
  by (simp add: at_def group_at_def)

lemma check_limits_triple:
  assumes ok: "records_ok h g rs"
  shows "triple (at d h ws rs gs) (check_limits g aid) (\<lambda>_ w. at d h ws rs gs w \<and> within_limits g rs gs aid) (\<lambda>_. at d h ws rs gs)"
  unfolding check_limits_def
proof (rule triple_bind, rule triple_post [OF read_record_triple [OF ok]], assumption, simp, rule tripleI, goal_cases)
  case (1 r w u w')
  then have a: "at d h ws rs gs w" and r: "recorded rs aid = Some r" by auto
  obtain nd where nd: "group_at w aid = Some nd"
    using each_check_group [OF 1(2) group_limits_nonempty] by blast
  with each_check_Inr [OF 1(2) this] r a have "within_limits g rs gs aid"
    unfolding within_limits_def limits_hold_def by (auto simp: at_group)
  moreover have "same_core w' w" by (rule quiet_same [OF quiet_each_check 1(2)])
  ultimately show ?case using at_same [OF a] by blast
next
  case (2 r w e w')
  have "same_core w' w" by (rule quiet_same [OF quiet_each_check 2(2)])
  with 2 show ?case using at_same by blast
qed

section \<open>Reservations\<close>

text \<open>A new cgroup while it is configured: only its own entry is in the tree beside those before.\<close>

definition configuring :: "kata_error option \<Rightarrow> node_host \<Rightarrow> worker_view \<Rightarrow> (string \<times> record_file) list \<Rightarrow> (string \<times> group_node) list \<Rightarrow>
    string \<Rightarrow> (group_node \<Rightarrow> bool) \<Rightarrow> kworld \<Rightarrow> bool" where
  "configuring d h ws rs gs aid P w \<longleftrightarrow>
     (\<exists>n. P n \<and> gn_tree n = [([], [])] \<and> at d h ws rs (AList.update (group_entry aid) n gs) w)"

lemma configuring_group: "configuring d h ws rs gs aid P w \<Longrightarrow> \<exists>n. group_at w aid = Some n \<and> P n \<and> gn_tree n = [([], [])] \<and>
    at d h ws rs (AList.update (group_entry aid) n gs) w"
  by (auto simp: configuring_def at_group update_conv')

lemma write_control_triple:
  assumes keep: "\<And>n v. P n \<Longrightarrow> P (n\<lparr>gn_files := AList.update name v (gn_files n)\<rparr>)"
  shows "triple (configuring d h ws rs gs aid P) (write_control aid (name, value))
     (\<lambda>_. configuring d h ws rs gs aid P) (\<lambda>_. configuring d h ws rs gs aid P)"
proof -
  have q: "configuring d h ws rs gs aid P w'" if "configuring d h ws rs gs aid P w" "same_core w' w" for w w'
    using that at_same by (auto simp: configuring_def)
  have u: "configuring d h ws rs gs aid P (put_group aid (n\<lparr>gn_files := AList.update name v (gn_files n)\<rparr>) w)"
    if c: "configuring d h ws rs gs aid P w" and n: "group_at w aid = Some n" for w n v
  proof -
    have "P n \<and> gn_tree n = [([], [])] \<and> at d h ws rs (AList.update (group_entry aid) n gs) w"
      using configuring_group [OF c] n by auto
    with keep show ?thesis
      by (auto simp: configuring_def put_group_def at_def
          intro!: exI [of _ "n\<lparr>gn_files := AList.update name v (gn_files n)\<rparr>"])
  qed
  show ?thesis
  proof (rule tripleI)
    fix w x w' assume c: "configuring d h ws rs gs aid P w" and e: "write_control aid (name, value) w = (Inr x, w')"
    obtain w1 where k: "ksys w = (Inr (), w1)" using e by (auto simp: write_control_def io_iffs)
    with q c have c1: "configuring d h ws rs gs aid P w1" using ksys_step by blast
    with k e show "configuring d h ws rs gs aid P w'"
      by (auto simp: write_control_def io_iffs u split: option.splits)
  next
    fix w e w' assume c: "configuring d h ws rs gs aid P w" and "write_control aid (name, value) w = (Inl e, w')"
    then have "same_core w' w"
      by (auto simp: write_control_def io_iffs dest!: ksys_step split: option.splits)
    with q c show "configuring d h ws rs gs aid P w'" by blast
  qed
qed

lemma triple_each:
  "(\<And>x. x \<in> set xs \<Longrightarrow> triple I (f x) (\<lambda>_. I) R) \<Longrightarrow> triple I (each f xs) (\<lambda>_. I) R"
  by (induction xs) (auto intro!: triple_return triple_bind)

lemma limits_hold_other:
  "limits_hold p n \<Longrightarrow> name \<notin> fst ` set (group_limits p) \<Longrightarrow> limits_hold p (n\<lparr>gn_files := AList.update name v (gn_files n)\<rparr>)"
  by (force simp: limits_hold_def update_conv')

lemma triple_ex: "(\<And>n. triple (P n) m Q R) \<Longrightarrow> triple (\<lambda>w. \<exists>n. P n w) m Q R"
  by (fastforce simp: triple_def)

lemma configure_triple:
  assumes ok: "records_ok h g rs" and r: "recorded rs aid = Some r"
  shows "triple (configuring d h ws rs gs aid (\<lambda>_. True)) (configure_group g aid p)
     (\<lambda>_. configuring d h ws rs gs aid (limits_hold (profile_or_zero g (al_profile r))))
     (\<lambda>_. configuring d h ws rs gs aid (\<lambda>_. True))"
    (is "triple ?C _ ?Q ?R")
proof -
  let ?p = "profile_or_zero g (al_profile r)"
  have weak: "configuring d h ws rs gs aid (limits_hold ?p) w \<Longrightarrow> ?C w" for w by (auto simp: configuring_def)
  have w1: "triple ?C (each (write_control aid) (group_limits p)) (\<lambda>_. ?C) ?R"
    by (rule triple_each) (use write_control_triple [of "\<lambda>_. True"] in auto)
  have c: "triple ?C (check_limits g aid) ?Q ?R"
    unfolding configuring_def [of d h ws rs gs aid "\<lambda>_. True"]
  proof (rule triple_ex)
    fix n
    let ?gs = "AList.update (group_entry aid) n gs"
    show "triple (\<lambda>w. True \<and> gn_tree n = [([], [])] \<and> at d h ws rs ?gs w) (check_limits g aid)
       (\<lambda>_. configuring d h ws rs gs aid (limits_hold ?p))
       (\<lambda>_ w. \<exists>n. True \<and> gn_tree n = [([], [])] \<and> at d h ws rs (AList.update (group_entry aid) n gs) w)"
    proof (rule triple_fact [where B = "gn_tree n = [([], [])]"], blast, rule triple_pre [where P' = "at d h ws rs ?gs"],
        rule triple_post [OF check_limits_triple [OF ok]])
      fix w assume t: "gn_tree n = [([], [])]" and a: "at d h ws rs ?gs w \<and> within_limits g rs ?gs aid"
      then have "limits_hold ?p n" using r by (auto simp: within_limits_def update_conv')
      with t a show "configuring d h ws rs gs aid (limits_hold ?p) w" by (auto simp: configuring_def)
    qed auto
  qed
  have s: "triple (configuring d h ws rs gs aid (limits_hold ?p)) (write_control aid (''cgroup.subtree_control'', v)) ?Q ?R" for v
    by (rule triple_post [OF write_control_triple]) (auto simp: weak group_limits_def intro!: limits_hold_other)
  show ?thesis unfolding configure_group_def by (rule triple_bind [OF w1], rule triple_bind [OF c], rule s)
qed

lemma mkdir_group_triple:
  assumes "map_of gs (group_entry aid) = None"
  shows "triple (at d h ws rs gs) (mkdir_group aid) (\<lambda>_. configuring d h ws rs gs aid (\<lambda>_. True)) (\<lambda>_. at d h ws rs gs)"
proof (rule tripleI)
  fix w u w' assume a: "at d h ws rs gs w" and m: "mkdir_group aid w = (Inr u, w')"
  obtain w1 where k: "ksys w = (Inr (), w1)" using m by (auto simp: mkdir_group_def io_iffs)
  have a1: "at d h ws rs gs w1" using a k ksys_step at_same by blast
  obtain n where "w' = put_group aid n w1" "gn_tree n = [([], [])]"
    using k m by (auto simp: mkdir_group_def io_iffs split: if_splits)
  with a1 show "configuring d h ws rs gs aid (\<lambda>_. True) w'"
    by (auto simp: configuring_def put_group_def at_def)
next
  fix w e w' assume a: "at d h ws rs gs w" and m: "mkdir_group aid w = (Inl e, w')"
  then have "same_core w' w" by (auto simp: mkdir_group_def io_iffs dest!: ksys_step split: if_splits)
  with a show "at d h ws rs gs w'" by (rule at_same)
qed

lemma rmdir_fresh_triple:
  assumes "map_of gs (group_entry aid) = None"
  shows "triple (configuring d h ws rs gs aid (\<lambda>_. True)) (rmdir_at aid [])
     (\<lambda>_. at d h ws rs gs) (\<lambda>_. configuring d h ws rs gs aid (\<lambda>_. True))"
proof (rule tripleI)
  fix w u w' assume c: "configuring d h ws rs gs aid (\<lambda>_. True) w" and m: "rmdir_at aid [] w = (Inr u, w')"
  obtain w1 where k: "ksys w = (Inr (), w1)" using m by (auto simp: rmdir_at_def io_iffs)
  have "configuring d h ws rs gs aid (\<lambda>_. True) w1"
    using c k ksys_step at_same unfolding configuring_def by blast
  then obtain n where n: "group_at w1 aid = Some n" "gn_tree n = [([], [])]"
      and a: "at d h ws rs (AList.update (group_entry aid) n gs) w1" using configuring_group by blast
  have "group_entry aid \<notin> fst ` set gs" using assms by (simp add: map_of_eq_None_iff)
  with k m n a show "at d h ws rs gs w'"
    by (auto simp: rmdir_at_def io_iffs drop_group_def at_def delete_update_same)
next
  fix w e w' assume c: "configuring d h ws rs gs aid (\<lambda>_. True) w" and m: "rmdir_at aid [] w = (Inl e, w')"
  then have "same_core w' w" by (auto simp: rmdir_at_def io_iffs dest!: ksys_step split: option.splits)
  with c at_same show "configuring d h ws rs gs aid (\<lambda>_. True) w'" unfolding configuring_def by blast
qed

text \<open>
  What \<open>ReserveProfile\<close> may leave, whatever its result: the ledger as it was, or a tracked record for
  the one allocation and then, only when there was no cgroup for it and capacity was left, its cgroup.
\<close>

definition reserve_effect :: "node_host \<Rightarrow> worker_view \<Rightarrow> guard \<Rightarrow> string \<Rightarrow> string \<Rightarrow> (string \<times> record_file) list \<Rightarrow> (string \<times> group_node) list \<Rightarrow>
    (string \<times> record_file) list \<Rightarrow> (string \<times> group_node) list \<Rightarrow> bool" where
  "reserve_effect h ws g aid p rs gs rs' gs' \<longleftrightarrow> (rs' = rs \<and> gs' = gs) \<or>
     (\<exists>r. valid_allocation aid \<and> tracked h ws g aid [] (Some p) (recorded rs aid) r \<and>
        rs' = AList.update aid (own_record r) rs \<and>
        (gs' = gs \<or> map_of gs (group_entry aid) = None \<and> int (count_entries gs) < gc_max (gd_config g) \<and>
           (\<exists>n. gs' = AList.update (group_entry aid) n gs)))"

definition reserve_left :: "kata_error option \<Rightarrow> node_host \<Rightarrow> worker_view \<Rightarrow> guard \<Rightarrow> string \<Rightarrow> string \<Rightarrow> (string \<times> record_file) list \<Rightarrow>
    (string \<times> group_node) list \<Rightarrow> kworld \<Rightarrow> bool" where
  "reserve_left d h ws g aid p rs gs w \<longleftrightarrow> (\<exists>rs' gs'. reserve_effect h ws g aid p rs gs rs' gs' \<and> at d h ws rs' gs' w)"

definition reserve_done :: "kata_error option \<Rightarrow> node_host \<Rightarrow> worker_view \<Rightarrow> guard \<Rightarrow> string \<Rightarrow> string \<Rightarrow> (string \<times> record_file) list \<Rightarrow>
    (string \<times> group_node) list \<Rightarrow> kworld \<Rightarrow> bool" where
  "reserve_done d h ws g aid p rs gs w \<longleftrightarrow> (\<exists>rs' gs'. reserve_effect h ws g aid p rs gs rs' gs' \<and> at d h ws rs' gs' w \<and>
     (\<exists>r. rs' = AList.update aid (own_record r) rs \<and> tracked h ws g aid [] (Some p) (recorded rs aid) r) \<and>
     within_limits g rs' gs' aid)"

lemma at_left: "at d h ws rs gs w \<Longrightarrow> reserve_left d h ws g aid p rs gs w"
  by (auto simp: reserve_left_def reserve_effect_def)

lemma tracked_left:
  "valid_allocation aid \<Longrightarrow> tracked h ws g aid [] (Some p) (recorded rs aid) r \<Longrightarrow>
     at d h ws (AList.update aid (own_record r) rs) gs w \<Longrightarrow> reserve_left d h ws g aid p rs gs w"
  by (auto simp: reserve_left_def reserve_effect_def)

lemma lstat_group_triple:
  "triple (at d h ws rs gs) (lstat_group aid) (\<lambda>b w. at d h ws rs gs w \<and> b = (map_of gs (group_entry aid) \<noteq> None)) (\<lambda>_. at d h ws rs gs)"
  unfolding lstat_group_def
  by (rule triple_bind [OF ksys_triple], rule triple_get) (simp add: at_group)

lemma reserve_existing_triple:
  assumes ok: "records_ok h g rs" and reg: "registry_ok (gd_profiles g)"
  shows "triple (at d h ws rs gs) (reserve_existing g aid p)
     (\<lambda>_. reserve_done d h ws g aid (rp_name p) rs gs) (\<lambda>_. reserve_left d h ws g aid (rp_name p) rs gs)"
    (is "triple _ _ ?Q ?R")
  unfolding reserve_existing_def
proof (rule triple_bind, rule triple_post [OF check_limits_triple [OF ok]], assumption, rule at_left, assumption,
    rule triple_fact, erule conjunct2, goal_cases)
  case (1 u)
  let ?P = "at d h ws rs gs"
  have c: "triple ?P (read_control aid n) (\<lambda>_. ?P) ?R" for n
    by (rule triple_post [OF quiet_at]) (auto intro: at_left)
  have k: "triple ?P (whenE b e) (\<lambda>_. ?P) ?R" for b e by (intro triple_when) (auto intro: at_left)
  have t: "triple ?P (track_allocation g aid [] (Some (rp_name p))) ?Q ?R"
  proof (rule triple_post [OF track_triple [OF ok reg]], simp)
    fix w assume "\<exists>r. valid_allocation aid \<and> tracked h ws g aid [] (Some (rp_name p)) (recorded rs aid) r \<and>
        at d h ws (AList.update aid (own_record r) rs) gs w"
    then obtain r where v: "valid_allocation aid" and tr: "tracked h ws g aid [] (Some (rp_name p)) (recorded rs aid) r"
      and a: "at d h ws (AList.update aid (own_record r) rs) gs w" by blast
    have "within_limits g (AList.update aid (own_record r) rs) gs aid"
      using 1 tr by (auto simp: within_limits_def tracked_def)
    with v tr a show "?Q () w" by (auto simp: reserve_done_def reserve_effect_def)
  qed (auto intro: at_left tracked_left)
  show ?case by (rule triple_pre [where P' = ?P], rule triple_bind [OF c], rule triple_bind [OF k], rule t) auto
qed

lemma reserve_new_triple:
  assumes ok: "records_ok h g rs" and reg: "registry_ok (gd_profiles g)" and none: "map_of gs (group_entry aid) = None"
  shows "triple (at d h ws rs gs) (reserve_new g aid p)
     (\<lambda>_. reserve_done d h ws g aid (rp_name p) rs gs) (\<lambda>_. reserve_left d h ws g aid (rp_name p) rs gs)"
    (is "triple ?P _ ?Q ?R")
proof -
  have conf: "triple (at d h ws (AList.update aid (own_record r) rs) gs)
      (bindIO (mkdir_group aid) (\<lambda>_. bindIO (catchIO (configure_group g aid p)) (\<lambda>res. case res of
         Inr _ \<Rightarrow> returnIO () | Inl e \<Rightarrow> bindIO (catchIO (rmdir_at aid [])) (\<lambda>_. throwIO e)))) ?Q ?R"
    if v: "valid_allocation aid" and tr: "tracked h ws g aid [] (Some (rp_name p)) (recorded rs aid) r"
      and cap: "int (count_entries gs) < gc_max (gd_config g)" for r
  proof -
    let ?rs = "AList.update aid (own_record r) rs"
    have ok': "records_ok h g ?rs" using ok v tr by (simp add: records_ok_update tracked_def)
    have rec: "recorded ?rs aid = Some r" by simp
    have left: "configuring d h ws ?rs gs aid P w \<Longrightarrow> reserve_left d h ws g aid (rp_name p) rs gs w" for P w
      using v tr cap none by (auto simp: configuring_def reserve_left_def reserve_effect_def)
    have dn: "configuring d h ws ?rs gs aid (limits_hold (profile_or_zero g (al_profile r))) w \<Longrightarrow> ?Q () w" for w
    proof -
      assume "configuring d h ws ?rs gs aid (limits_hold (profile_or_zero g (al_profile r))) w"
      then obtain n where l: "limits_hold (profile_or_zero g (al_profile r)) n"
        and a: "at d h ws ?rs (AList.update (group_entry aid) n gs) w" by (auto simp: configuring_def)
      have "within_limits g ?rs (AList.update (group_entry aid) n gs) aid"
        using l rec by (auto simp: within_limits_def update_conv')
      moreover have "reserve_effect h ws g aid (rp_name p) rs gs ?rs (AList.update (group_entry aid) n gs)"
        using v tr cap none by (auto simp: reserve_effect_def)
      ultimately show "?Q () w" using a tr unfolding reserve_done_def by blast
    qed
    have m: "triple (at d h ws ?rs gs) (mkdir_group aid) (\<lambda>_. configuring d h ws ?rs gs aid (\<lambda>_. True)) ?R"
      by (rule triple_post [OF mkdir_group_triple [OF none]]) (use v tr in \<open>auto intro: tracked_left\<close>)
    have c: "triple (configuring d h ws ?rs gs aid (\<lambda>_. True)) (catchIO (configure_group g aid p))
        (\<lambda>res w. configuring d h ws ?rs gs aid (\<lambda>_. True) w \<and> (\<forall>x. res = Inr x \<longrightarrow> ?Q () w)) ?R"
      by (rule triple_catch, rule triple_post [OF configure_triple [OF ok' rec]]) (auto simp: configuring_def dn)
    have rm: "triple (configuring d h ws ?rs gs aid (\<lambda>_. True)) (catchIO (rmdir_at aid [])) (\<lambda>_. ?R e) ?R" for e
      by (rule triple_catch, rule triple_post [OF rmdir_fresh_triple [OF none]]) (use v tr left in \<open>auto intro: tracked_left\<close>)
    show ?thesis
    proof (rule triple_bind [OF m], rule triple_bind [OF c], goal_cases)
      case (1 u res)
      show ?case
      proof (cases res)
        case (Inl e)
        then show ?thesis
          by (auto intro!: triple_pre [where P = "\<lambda>w. configuring d h ws ?rs gs aid (\<lambda>_. True) w"] triple_bind [OF rm] triple_throw)
      qed (auto intro!: triple_return)
    qed
  qed
  have t: "triple ?P (track_allocation g aid [] (Some (rp_name p)))
     (\<lambda>_ w. \<exists>r. valid_allocation aid \<and> tracked h ws g aid [] (Some (rp_name p)) (recorded rs aid) r \<and>
        at d h ws (AList.update aid (own_record r) rs) gs w) ?R"
    by (rule triple_post [OF track_triple [OF ok reg]]) (auto intro: at_left tracked_left)
  have s: "triple ?P ksys (\<lambda>_. ?P) ?R" by (rule triple_post [OF ksys_triple]) (auto intro: at_left)
  have n: "triple ?P (getIO count_groups) (\<lambda>n w. ?P w \<and> n = count_entries gs) ?R"
    by (rule triple_get) (simp add: at_def count_groups_entries)
  have k: "triple (\<lambda>w. ?P w \<and> n = count_entries gs) (whenE (gc_max (gd_config g) \<le> int n) ECapacity)
      (\<lambda>_ w. ?P w \<and> int (count_entries gs) < gc_max (gd_config g)) ?R" for n
    by (intro triple_when) (auto intro: at_left)
  show ?thesis
    unfolding reserve_new_def
  proof (rule triple_bind [OF s], rule triple_bind [OF n], rule triple_bind [OF k], rule triple_fact, erule conjunct2,
      rule triple_pre [where P' = ?P], rule triple_bind [OF t], rule triple_ex, goal_cases)
    case (1 u n u' u'' r)
    show ?case
    proof (rule triple_fact [where B = "valid_allocation aid \<and> tracked h ws g aid [] (Some (rp_name p)) (recorded rs aid) r"], blast)
      assume "valid_allocation aid \<and> tracked h ws g aid [] (Some (rp_name p)) (recorded rs aid) r"
      with conf 1 have "triple (at d h ws (AList.update aid (own_record r) rs) gs)
        (bindIO (mkdir_group aid) (\<lambda>_. bindIO (catchIO (configure_group g aid p)) (\<lambda>res. case res of
           Inr _ \<Rightarrow> returnIO () | Inl e \<Rightarrow> bindIO (catchIO (rmdir_at aid [])) (\<lambda>_. throwIO e)))) ?Q ?R" by blast
      then show "triple (\<lambda>w. valid_allocation aid \<and> tracked h ws g aid [] (Some (rp_name p)) (recorded rs aid) r \<and>
          at d h ws (AList.update aid (own_record r) rs) gs w)
        (bindIO (mkdir_group aid) (\<lambda>_. bindIO (catchIO (configure_group g aid p)) (\<lambda>res. case res of
           Inr _ \<Rightarrow> returnIO () | Inl e \<Rightarrow> bindIO (catchIO (rmdir_at aid [])) (\<lambda>_. throwIO e)))) ?Q ?R"
        by (rule triple_pre) blast
    qed
  qed auto
qed

section \<open>The ledger invariant\<close>

text \<open>
  Every record is one its readers accept, every cgroup of a valid allocation has its record, and the
  cgroups stay within the node's capacity.
\<close>

definition ledger_ok :: "guard \<Rightarrow> node_host \<Rightarrow> (string \<times> record_file) list \<Rightarrow> (string \<times> group_node) list \<Rightarrow> bool" where
  "ledger_ok g h rs gs \<longleftrightarrow> records_ok h g rs \<and>
     (\<forall>aid. valid_allocation aid \<and> map_of gs (group_entry aid) \<noteq> None \<longrightarrow> recorded rs aid \<noteq> None) \<and>
     int (count_entries gs) \<le> gc_max (gd_config g)"

definition node_ok :: "guard \<Rightarrow> kworld \<Rightarrow> bool" where
  "node_ok g w \<longleftrightarrow> registry_ok (gd_profiles g) \<and> 0 < kw_now w \<and> ledger_ok g (kw_host w) (kw_records w) (kw_groups w)"

lemma reserve_effect_ok:
  assumes "ledger_ok g h rs gs" and "reserve_effect h ws g aid p rs gs rs' gs'"
  shows "ledger_ok g h rs' gs'"
proof -
  have "records_ok h g rs'"
    using assms by (auto simp: ledger_ok_def reserve_effect_def tracked_def intro: records_ok_update)
  moreover have "recorded rs' a \<noteq> None" if "valid_allocation a" "map_of gs' (group_entry a) \<noteq> None" for a
    using assms that by (auto simp: ledger_ok_def reserve_effect_def update_conv' split: if_splits)
  moreover have "int (count_entries gs') \<le> gc_max (gd_config g)"
    using assms by (auto simp: ledger_ok_def reserve_effect_def count_entries_update)
  ultimately show ?thesis by (simp add: ledger_ok_def)
qed

lemma reserve_effect_others:
  assumes "reserve_effect h ws g aid p rs gs rs' gs'" and "a \<noteq> aid"
  shows "recorded rs' a = recorded rs a" and "map_of gs' (group_entry a) = map_of gs (group_entry a)"
  using assms by (auto simp: reserve_effect_def update_conv')

lemma requested_same_profile:
  assumes "registry_ok (gd_profiles g)" and "lookup g n = Some p" and "record_error h g aid r = None"
    and "\<not> requested_changed g (Some (rp_name p)) r"
  shows "lookup g (al_profile r) = Some p"
proof -
  have p: "p \<in> set (registry_profiles (gd_profiles g))"
    using assms(2) registry_lookup_listed by (auto simp: lookup_def)
  obtain q where q: "lookup g (al_profile r) = Some q" using assms(3) by (auto simp: record_error_def split: if_splits option.splits)
  then have q': "q \<in> set (registry_profiles (gd_profiles g))"
    using registry_lookup_listed by (auto simp: lookup_def)
  have "rp_name p \<noteq> []" using assms(1) p by (auto simp: registry_ok_def resource_profile_name_def)
  with assms(4) q have e: "rp_name p = rp_name q" by (simp add: requested_changed_def profile_or_zero_def)
  have "p = q"
    using registry_lookup_name [OF assms(1) p] registry_lookup_name [OF assms(1) q'] unfolding e by simp
  with q show ?thesis by simp
qed

lemma reserve_profile_triple:
  assumes ok: "records_ok h g rs" and reg: "registry_ok (gd_profiles g)" and p: "lookup g name = Some p"
  shows "triple (at d h ws rs gs) (reserve_profile g aid name)
     (\<lambda>path w. reserve_done d h ws g aid (rp_name p) rs gs w \<and> parent g aid = Inr path)
     (\<lambda>_. reserve_left d h ws g aid (rp_name p) rs gs)"
    (is "triple ?P _ ?Q ?R")
proof -
  have l: "triple ?P (liftE (group_path g aid)) (\<lambda>path w. ?P w \<and> group_path g aid = Inr path) ?R"
    by (rule triple_lift) (auto intro: at_left)
  have a: "triple ?P admission_lock (\<lambda>_. ?P) ?R" by (rule triple_post [OF quiet_at]) (auto intro: at_left)
  have s: "triple ?P (lstat_group aid) (\<lambda>b w. ?P w \<and> b = (map_of gs (group_entry aid) \<noteq> None)) ?R"
    by (rule triple_post [OF lstat_group_triple]) (auto intro: at_left)
  have r: "triple ?P (if b then reserve_existing g aid p else reserve_new g aid p)
      (\<lambda>_. reserve_done d h ws g aid (rp_name p) rs gs) ?R" if "b = (map_of gs (group_entry aid) \<noteq> None)" for b
    using that reserve_existing_triple [OF ok reg] reserve_new_triple [OF ok reg] by simp
  show ?thesis
    unfolding reserve_profile_def p option.case
  proof (rule triple_bind [OF l], rule triple_fact, erule conjunct2, rule triple_pre [where P' = ?P],
      rule triple_bind [OF a], rule triple_bind [OF s], rule triple_fact, erule conjunct2,
      rule triple_pre [where P' = ?P], rule triple_bind [OF r], assumption, rule triple_return, goal_cases)
    case (1 path u b u' w)
    then show ?case by (simp add: parent_def)
  qed auto
qed

text \<open>C13: A reservation, whatever its result and wherever a call fails, keeps the ledger invariant
  (every record acceptable, no cgroup without its record, never more cgroups than the node's maximum) and
  touches no other allocation.  When it succeeds, the record names the requested profile, the cgroup is
  there with every limit of that profile in force, and the returned path is the allocation's parent; an
  earlier record keeps its profile, creation time and worker.\<close>

theorem reserve_sound:
  assumes "node_ok g w" and "reserve_profile g aid name w = (res, w')"
  shows "node_ok g w' \<and>
    (\<forall>a. a \<noteq> aid \<longrightarrow> recorded (kw_records w') a = recorded (kw_records w) a \<and> group_at w' a = group_at w a) \<and>
    (\<forall>path. res = Inr path \<longrightarrow> parent g aid = Inr path \<and>
       (\<exists>p r nd. lookup g name = Some p \<and> recorded (kw_records w') aid = Some r \<and>
          lookup g (al_profile r) = Some p \<and> group_at w' aid = Some nd \<and> limits_hold p nd \<and>
          (\<forall>r0. recorded (kw_records w) aid = Some r0 \<longrightarrow> al_profile r = al_profile r0 \<and>
             al_created r = al_created r0 \<and> al_worker r = al_worker r0)))"
proof (cases "lookup g name")
  case None
  with assms(2) have "res = Inl (EProfile UnknownProfile)" "w' = w" by (simp_all add: reserve_profile_def)
  with assms(1) show ?thesis by simp
next
  case (Some p)
  let ?rs = "kw_records w" and ?gs = "kw_groups w" and ?h = "kw_host w" and ?ws = "kw_workers w" and ?d = "kw_dir_trust w"
  have reg: "registry_ok (gd_profiles g)" and led: "ledger_ok g ?h ?rs ?gs" and "0 < kw_now w"
    using assms(1) by (auto simp: node_ok_def)
  then have at0: "at ?d ?h ?ws ?rs ?gs w" and ok: "records_ok ?h g ?rs" by (auto simp: at_def ledger_ok_def)
  note tr = reserve_profile_triple [OF ok reg Some, of ?d ?ws ?gs aid]
  have left: "reserve_left ?d ?h ?ws g aid (rp_name p) ?rs ?gs w'"
  proof (cases res)
    case (Inl e)
    with triple_Inl [OF tr at0] assms(2) show ?thesis by blast
  next
    case (Inr path)
    with triple_Inr [OF tr at0] assms(2) show ?thesis by (auto simp: reserve_done_def reserve_left_def)
  qed
  then obtain rs' gs' where e: "reserve_effect ?h ?ws g aid (rp_name p) ?rs ?gs rs' gs'" and a: "at ?d ?h ?ws rs' gs' w'"
    by (auto simp: reserve_left_def)
  have "node_ok g w'" using reg a reserve_effect_ok [OF led e] by (simp add: node_ok_def at_def)
  moreover have "\<forall>a. a \<noteq> aid \<longrightarrow> recorded (kw_records w') a = recorded ?rs a \<and> group_at w' a = group_at w a"
    using reserve_effect_others [OF e] a by (auto simp: at_def group_at_def)
  moreover have "parent g aid = Inr path \<and>
       (\<exists>p r nd. lookup g name = Some p \<and> recorded (kw_records w') aid = Some r \<and>
          lookup g (al_profile r) = Some p \<and> group_at w' aid = Some nd \<and> limits_hold p nd \<and>
          (\<forall>r0. recorded ?rs aid = Some r0 \<longrightarrow> al_profile r = al_profile r0 \<and>
             al_created r = al_created r0 \<and> al_worker r = al_worker r0))" if "res = Inr path" for path
  proof -
    have "reserve_done ?d ?h ?ws g aid (rp_name p) ?rs ?gs w'" "parent g aid = Inr path"
      using triple_Inr [OF tr at0] assms(2) that by auto
    then obtain rs'' gs'' r where a': "at ?d ?h ?ws rs'' gs'' w'" and rs'': "rs'' = AList.update aid (own_record r) ?rs"
      and t: "tracked ?h ?ws g aid [] (Some (rp_name p)) (recorded ?rs aid) r" and l: "within_limits g rs'' gs'' aid"
      by (auto simp: reserve_done_def)
    have lk: "lookup g (al_profile r) = Some p"
      using requested_same_profile [OF reg Some, of ?h aid r] t by (simp add: tracked_def)
    have "recorded (kw_records w') aid = Some r" using a' rs'' by (simp add: at_def)
    moreover obtain nd where "group_at w' aid = Some nd" "limits_hold p nd"
      using l a' rs'' lk by (auto simp: within_limits_def at_group profile_or_zero_def)
    moreover have "\<forall>r0. recorded ?rs aid = Some r0 \<longrightarrow> al_profile r = al_profile r0 \<and>
        al_created r = al_created r0 \<and> al_worker r = al_worker r0" using t by (auto simp: tracked_def)
    ultimately show ?thesis using Some lk \<open>parent g aid = Inr path\<close> by blast
  qed
  ultimately show ?thesis by blast
qed

section \<open>A sample world\<close>

definition sample_aid :: string where "sample_aid = replicate 32 CHR ''a''"

definition sample_world :: kworld where
  "sample_world = \<lparr>kw_host = sample_node, kw_dir_made = False, kw_dir_trust = None, kw_records = [], kw_groups = [],
     kw_fresh = [], kw_kernel = (\<lambda>_ v. Some v), kw_engine_up = True, kw_workers = (\<lambda>_. Inl ENoWorker), kw_listed = [],
     kw_proc = (\<lambda>_. \<lparr>pi_before = Inl ENotFound, pi_exe = Inl ENotFound, pi_cmdline = Inl ENotFound,
        pi_cgroup = Inl ENotFound, pi_after = Inl ENotFound\<rparr>),
     kw_launch_trust = None, kw_launches = [], kw_random = [], kw_now = 1000, kw_faults = [], kw_ctx = [], kw_contended = 1\<rparr>"

lemma sample_registry: "registry_ok (gd_profiles sample_guard)"
  using accept_registry_ok [OF sample_accepted] by (simp add: sample_guard_def)

lemma sample_world_ok: "node_ok sample_guard sample_world"
  using sample_registry
  by (simp add: node_ok_def ledger_ok_def records_ok_def sample_world_def count_entries_def sample_guard_def)

lemma sample_reserved:
  "fst (reserve_profile sample_guard sample_aid ''wide'' sample_world) = Inr (''/cdx/cdx-'' @ sample_aid)"
  by code_simp

lemma sample_wide: "lookup sample_guard ''wide'' = Some sample_profile"
  by code_simp

text \<open>The first reservation of an empty node, whose lock is contended once.\<close>

theorem reserve_sound_witness:
  "\<exists>w' nd. reserve_profile sample_guard sample_aid ''wide'' sample_world = (Inr (''/cdx/cdx-'' @ sample_aid), w') \<and>
     node_ok sample_guard w' \<and> group_at w' sample_aid = Some nd \<and> limits_hold sample_profile nd"
proof -
  obtain w' where r: "reserve_profile sample_guard sample_aid ''wide'' sample_world = (Inr (''/cdx/cdx-'' @ sample_aid), w')"
    using sample_reserved by (metis prod.collapse)
  from reserve_sound [OF sample_world_ok r] sample_wide
  have "node_ok sample_guard w'" "\<exists>nd. group_at w' sample_aid = Some nd \<and> limits_hold sample_profile nd" by auto
  with r show ?thesis by blast
qed

end
