(* ===== verification/KataProcs.thy ===== *)
theory KataProcs
  imports KataLedger
begin

text \<open>
  The processes of an allocation: walking its cgroups and attesting every occupant
  (\<open>walkGroups\<close>, \<open>scanProcesses\<close> of \<open>host_linux.go\<close>), and what builds on the attestation:
  \<open>Verify\<close>, the retirement of a worker's supervisor (\<open>retire_linux.go\<close>) and the clean-up of a failed
  start (\<open>abort_linux.go\<close>).  A scan that stops at an error also returns what it had attested.
\<close>

section \<open>Walking the cgroups of an allocation\<close>

definition supervisor :: string where "supervisor = ''supervisor''"

definition known_group :: "string \<Rightarrow> string list \<Rightarrow> bool" where
  "known_group worker path \<longleftrightarrow> path = [] \<or> last path = worker \<or> last path = ''kata_'' @ worker \<or> last path = supervisor"

definition read_procs :: "string \<Rightarrow> string list \<Rightarrow> string list kio" where
  "read_procs aid path = bindIO ksys (\<lambda>_. bindIO (getIO (\<lambda>w. group_at w aid)) (\<lambda>n. case n of
     None \<Rightarrow> throwIO ENotFound
   | Some nd \<Rightarrow> (case map_of (gn_tree nd) path of None \<Rightarrow> throwIO ENotFound | Some s \<Rightarrow> returnIO s)))"

text \<open>The walk visits the allocation's own cgroup first, then those below it.\<close>

definition walk_order :: "group_node \<Rightarrow> string list list" where
  "walk_order nd = [] # filter (\<lambda>p. p \<noteq> []) (map fst (gn_tree nd))"

definition tree_paths :: "string \<Rightarrow> string list list kio" where
  "tree_paths aid = bindIO ksys (\<lambda>_. bindIO (getIO (\<lambda>w. group_at w aid)) (\<lambda>n. case n of
     None \<Rightarrow> throwIO ENotFound | Some nd \<Rightarrow> returnIO (walk_order nd)))"

definition absolute_group :: "guard \<Rightarrow> string \<Rightarrow> string list \<Rightarrow> string" where
  "absolute_group g aid path = (case group_path g aid of Inl _ \<Rightarrow> [] | Inr p \<Rightarrow> join_with ''/'' (p # path))"

text \<open>The group as \<open>/proc/pid/cgroup\<close> names it.\<close>

definition relative_group :: "guard \<Rightarrow> string \<Rightarrow> string list \<Rightarrow> string" where
  "relative_group g aid path = ''0::'' @ trim_prefix (absolute_group g aid path) cgroup_fs"

section \<open>Attesting a process\<close>

definition proc_start :: "string \<Rightarrow> string" where
  "proc_start stat =
     (if CHR '')'' \<notin> set stat then []
      else (let fs = GoStrings.fields (rev (takeWhile (\<lambda>c. c \<noteq> CHR '')'') (rev stat))) in
        if length fs < 20 then [] else fs ! 19))"

definition attested_kinds :: "string list" where
  "attested_kinds = [''runtime'', ''logger'']"

text \<open>The first kind whose pinned binary the process runs; a pinned binary that cannot be read is an error.\<close>

fun match_kind :: "node_host \<Rightarrow> guard \<Rightarrow> string \<Rightarrow> string list \<Rightarrow> (kata_error, string option) result" where
  "match_kind h g exe [] = Inr None"
| "match_kind h g exe (n # ns) = bindE (nh_stat h (asset_path (gd_manifest g) n)) (\<lambda>want.
     if ns_file want = exe then Inr (Some n) else match_kind h g exe ns)"

definition attest_process ::
  "node_host \<Rightarrow> guard \<Rightarrow> string \<Rightarrow> string \<Rightarrow> proc_info \<Rightarrow> (kata_error, string option) result" where
  "attest_process h g worker grp i =
     (case pi_before i of Inl e \<Rightarrow> (if e = ENotFound then Inr None else Inl e)
      | Inr before \<Rightarrow>
     (case pi_exe i of Inl e \<Rightarrow> (if e = ENotFound then Inr None else Inl e)
      | Inr exe \<Rightarrow>
     bindE (match_kind h g (ns_file exe) attested_kinds) (\<lambda>k. case k of
        None \<Rightarrow> Inl (EProcess UnexpectedProcess)
      | Some kind \<Rightarrow>
     bindE (pi_cmdline i) (\<lambda>args.
     failE (\<not> str_contains args worker) (EProcess OtherIdentity)
     (bindE (pi_cgroup i) (\<lambda>cg.
      failE (trim_space cg \<noteq> grp) (EProcess MovedOut)
      (bindE (pi_after i) (\<lambda>after.
       failE (proc_start before = [] \<or> proc_start before \<noteq> proc_start after) (EProcess IdentityChanged)
         (Inr (Some kind))))))))))"

type_synonym vm_process = "int \<times> string"

definition pid_number :: "string \<Rightarrow> int" where
  "pid_number s = (case atoi s of Some n \<Rightarrow> n | None \<Rightarrow> 0)"

definition scan_pid :: "guard \<Rightarrow> string \<Rightarrow> string \<Rightarrow> string \<Rightarrow> vm_process option kio" where
  "scan_pid g worker grp pid =
     bindIO (whenE (parse_uint 32 pid = None) (EProcess BadPid)) (\<lambda>_.
     bindIO (getIO (\<lambda>w. attest_process (kw_host w) g worker grp (kw_proc w pid))) (\<lambda>r.
     bindIO (liftE r) (\<lambda>k. returnIO (map_option (\<lambda>kind. (pid_number pid, kind)) k))))"

fun scan_pids :: "guard \<Rightarrow> string \<Rightarrow> string \<Rightarrow> string list \<Rightarrow> vm_process list \<Rightarrow> (vm_process list \<times> kata_error option) kio" where
  "scan_pids g worker grp [] acc = returnIO (acc, None)"
| "scan_pids g worker grp (pid # pids) acc =
     bindIO (catchIO (scan_pid g worker grp pid)) (\<lambda>r. case r of
       Inl e \<Rightarrow> returnIO (acc, Some e)
     | Inr None \<Rightarrow> scan_pids g worker grp pids acc
     | Inr (Some p) \<Rightarrow> scan_pids g worker grp pids (acc @ [p]))"

fun scan_groups :: "guard \<Rightarrow> string \<Rightarrow> string \<Rightarrow> string list list \<Rightarrow> vm_process list \<Rightarrow> (vm_process list \<times> kata_error option) kio" where
  "scan_groups g aid worker [] acc = returnIO (acc, None)"
| "scan_groups g aid worker (path # paths) acc =
     (if \<not> known_group worker path then returnIO (acc, Some (EGuard UnknownGroup))
      else bindIO (catchIO (read_procs aid path)) (\<lambda>r. case r of
        Inl e \<Rightarrow> returnIO (acc, Some e)
      | Inr s \<Rightarrow>
          bindIO (scan_pids g worker (relative_group g aid path) s acc) (\<lambda>(acc', e). case e of
            Some x \<Rightarrow> returnIO (acc', Some x)
          | None \<Rightarrow> scan_groups g aid worker paths acc')))"

definition runtime_kind :: string where "runtime_kind = ''runtime''"

definition scan_start :: "guard \<Rightarrow> string \<Rightarrow> string \<Rightarrow> string list list kio" where
  "scan_start g aid worker =
     bindIO kctx (\<lambda>_.
     bindIO (whenE (\<not> valid_worker worker) (EGuard BadWorker)) (\<lambda>_.
     bindIO (liftE (group_path g aid)) (\<lambda>_.
     bindIO (check_limits g aid) (\<lambda>_. tree_paths aid))))"

definition scan_processes :: "guard \<Rightarrow> string \<Rightarrow> string \<Rightarrow> bool \<Rightarrow> (vm_process list \<times> kata_error option) kio" where
  "scan_processes g aid worker complete =
     bindIO (catchIO (scan_start g aid worker)) (\<lambda>r. case r of
       Inl e \<Rightarrow> returnIO ([], Some e)
     | Inr paths \<Rightarrow>
         bindIO (scan_groups g aid worker paths []) (\<lambda>(ps, e). returnIO (ps, case e of
           Some x \<Rightarrow> Some x
         | None \<Rightarrow> if complete \<and> \<not> list_ex (\<lambda>p. snd p = runtime_kind) ps then Some (EProcess (NotInside runtime_kind)) else None)))"

definition scan :: "guard \<Rightarrow> string \<Rightarrow> string \<Rightarrow> bool \<Rightarrow> vm_process list kio" where
  "scan g aid worker complete = bindIO (scan_processes g aid worker complete) (\<lambda>(ps, e). case e of
     Some x \<Rightarrow> throwIO x | None \<Rightarrow> returnIO ps)"

section \<open>Verify, retire and abort\<close>

definition validate_node :: "guard \<Rightarrow> unit kio" where
  "validate_node g = bindIO kctx_ended (\<lambda>ended. bindIO (getIO (\<lambda>w. validate (kw_host w) ended g (mf_runtime (gd_manifest g)))) liftE)"

definition target_path :: "string list" where "target_path = [supervisor]"

definition mkdir_supervisor :: "string \<Rightarrow> unit kio" where
  "mkdir_supervisor aid = bindIO ksys (\<lambda>_. bindIO (getIO (\<lambda>w. group_at w aid)) (\<lambda>n. case n of
     None \<Rightarrow> throwIO ENotFound
   | Some nd \<Rightarrow>
       if map_of (gn_tree nd) target_path \<noteq> None then returnIO ()
       else updIO (put_group aid (nd\<lparr>gn_tree := gn_tree nd @ [(target_path, [])]\<rparr>))))"

text \<open>
  Writing a process id to \<open>supervisor/cgroup.procs\<close> moves the process there, and \<open>/proc\<close> names its new group.
\<close>

definition without_pid :: "string \<Rightarrow> string list \<Rightarrow> string list" where
  "without_pid pid s = filter (\<lambda>p. p \<noteq> pid) s"

definition with_pid :: "string \<Rightarrow> string list \<Rightarrow> string list" where
  "with_pid pid s = without_pid pid s @ [pid]"

definition move_tree :: "string \<Rightarrow> (string list \<times> string list) list \<Rightarrow> (string list \<times> string list) list" where
  "move_tree pid t = map (\<lambda>(p, s). (p, if p = target_path then with_pid pid s else without_pid pid s)) t"

definition move_pid :: "guard \<Rightarrow> string \<Rightarrow> string \<Rightarrow> unit kio" where
  "move_pid g aid pid = bindIO ksys (\<lambda>_. bindIO (getIO (\<lambda>w. group_at w aid)) (\<lambda>n. case n of
     None \<Rightarrow> throwIO ENotFound
   | Some nd \<Rightarrow>
       bindIO (whenE (map_of (gn_tree nd) target_path = None) ENotFound) (\<lambda>_.
       bindIO (updIO (put_group aid (nd\<lparr>gn_tree := move_tree pid (gn_tree nd)\<rparr>))) (\<lambda>_.
       updIO (\<lambda>w. w\<lparr>kw_proc := (kw_proc w)(pid := (kw_proc w pid)\<lparr>pi_cgroup := Inr (relative_group g aid target_path)\<rparr>)\<rparr>)))))"

definition check_moved :: "guard \<Rightarrow> string \<Rightarrow> string \<Rightarrow> unit kio" where
  "check_moved g aid pid = bindIO (getIO (\<lambda>w. pi_cgroup (kw_proc w pid))) (\<lambda>cg. case cg of
     Inl e \<Rightarrow> if e = ENotFound then returnIO () else throwIO e
   | Inr s \<Rightarrow> whenE (trim_space s \<noteq> relative_group g aid target_path) (EProcess MovedOut))"

text \<open>\<open>pidfd_open\<close> and the stop signal find the process gone when \<open>/proc\<close> does; \<open>SIGCONT\<close> changes nothing here.\<close>

definition move_retired :: "guard \<Rightarrow> string \<Rightarrow> string \<Rightarrow> int \<Rightarrow> unit kio" where
  "move_retired g aid worker pid =
     bindIO (getIO (\<lambda>w. pi_before (kw_proc w (show_int pid)))) (\<lambda>b.
     if b = Inl ENotFound then returnIO ()
     else bindIO ksys (\<lambda>_.
       bindIO (scan g aid worker False) (\<lambda>ps.
       if \<not> list_ex (\<lambda>p. fst p = pid) ps then returnIO ()
       else bindIO ksys (\<lambda>_.
         bindIO (scan g aid worker False) (\<lambda>_.
         bindIO (move_pid g aid (show_int pid)) (\<lambda>_. check_moved g aid (show_int pid)))))))"

definition retire_process :: "guard \<Rightarrow> string \<Rightarrow> string \<Rightarrow> vm_process \<Rightarrow> unit kio" where
  "retire_process g aid worker = (\<lambda>(pid, kind).
     bindIO (whenE (kind \<notin> set attested_kinds) (EProcess UnexpectedProcess)) (\<lambda>_.
     bindIO (getIO (\<lambda>w. pi_cgroup (kw_proc w (show_int pid)))) (\<lambda>cg. case cg of
       Inl e \<Rightarrow> if e = ENotFound then returnIO () else throwIO e
     | Inr s \<Rightarrow> if trim_space s = relative_group g aid target_path then returnIO () else move_retired g aid worker pid)))"

definition own_allocation :: "guard \<Rightarrow> string \<Rightarrow> string \<Rightarrow> unit kio" where
  "own_allocation g aid worker = bindIO (read_record g aid) (\<lambda>r.
     whenE (al_worker r \<noteq> [] \<and> al_worker r \<noteq> worker) (EProcess OwnershipMismatch))"

definition retire :: "guard \<Rightarrow> string \<Rightarrow> string \<Rightarrow> unit kio" where
  "retire g aid worker =
     bindIO (validate_node g) (\<lambda>_.
     bindIO (own_allocation g aid worker) (\<lambda>_.
     bindIO (scan g aid worker False) (\<lambda>ps.
     if ps = [] then returnIO ()
     else bindIO (liftE (group_path g aid)) (\<lambda>_.
       bindIO (mkdir_supervisor aid) (\<lambda>_.
       bindIO (getIO (\<lambda>w. trusted_dir (kw_host w) (absolute_group g aid target_path))) (\<lambda>t.
       bindIO (liftE (require t)) (\<lambda>_.
       bindIO (each (retire_process g aid worker) ps) (\<lambda>_. check_limits g aid))))))))"

definition verify :: "guard \<Rightarrow> string \<Rightarrow> string \<Rightarrow> unit kio" where
  "verify g aid worker =
     bindIO (validate_node g) (\<lambda>_.
     bindIO admission_lock (\<lambda>_.
     bindIO (scan g aid worker True) (\<lambda>_.
     bindIO (track_allocation g aid worker None) (\<lambda>_. retire g aid worker))))"

text \<open>Writing \<open>cgroup.kill\<close> kills every process of the cgroup and those below it.\<close>

definition kill_group :: "string \<Rightarrow> unit kio" where
  "kill_group aid = bindIO ksys (\<lambda>_. bindIO (getIO (\<lambda>w. group_at w aid)) (\<lambda>n. case n of
     None \<Rightarrow> throwIO ENotFound
   | Some nd \<Rightarrow> updIO (put_group aid (nd\<lparr>gn_tree := map (\<lambda>(p, s). (p, [])) (gn_tree nd)\<rparr>))))"

definition abort_create :: "guard \<Rightarrow> string \<Rightarrow> string \<Rightarrow> unit kio" where
  "abort_create g aid worker =
     bindIO (validate_node g) (\<lambda>_.
     bindIO (own_allocation g aid worker) (\<lambda>_.
     bindIO (liftE (group_path g aid)) (\<lambda>_.
     bindIO (getIO (\<lambda>w. group_at w aid)) (\<lambda>n.
     if n = None then returnIO ()
     else bindIO (scan g aid worker False) (\<lambda>ps.
       if ps = [] then returnIO () else kill_group aid)))))"

section \<open>Operations that only read\<close>

text \<open>The world without its schedules: what an operation that only looks leaves as it is.\<close>

definition still :: "kworld \<Rightarrow> kworld" where
  "still w = w\<lparr>kw_faults := [], kw_ctx := [], kw_contended := 0, kw_dir_made := True\<rparr>"

lemma still_core: "still w' = still w \<Longrightarrow> core w' = core w"
proof -
  have "core (still v) = core v" for v by (simp add: core_def still_def)
  then show "still w' = still w \<Longrightarrow> core w' = core w" by metis
qed

lemma still_proc: "still w' = still w \<Longrightarrow> kw_proc w' = kw_proc w"
proof -
  have "kw_proc (still v) = kw_proc v" for v by (simp add: still_def)
  then show "still w' = still w \<Longrightarrow> kw_proc w' = kw_proc w" by metis
qed

lemma still_same: "still w' = still w \<Longrightarrow> same_core w' w"
  by (drule still_core) (simp add: core_def same_core_def)

lemma quiet_core: "quiet still m \<Longrightarrow> quiet core m"
  unfolding quiet_def using still_core by blast

lemma quiet_still_steps [simp, intro]:
  "quiet still ksys" "quiet still kctx_ended"
  by (auto simp: quiet_def ksys_def kctx_ended_def still_def split: list.split)

lemma quiet_still_kctx [simp, intro]: "quiet still kctx"
  unfolding kctx_def by (intro quiet_bind quiet_unit quiet_still_steps)

lemma quiet_still_record_dir [simp, intro]: "quiet still record_dir"
  unfolding record_dir_def by (intro quiet_bind quiet_still_steps quiet_unit quiet_upd quiet_if) (simp add: still_def)

lemma quiet_still_read_record [simp, intro]: "quiet still (read_record g aid)"
  unfolding read_record_def
  by (intro quiet_bind quiet_unit quiet_still_record_dir) (auto intro!: quiet_bind split: prod.split option.split)

lemma quiet_still_read_control [simp, intro]: "quiet still (read_control aid name)"
  unfolding read_control_def by (intro quiet_bind quiet_still_steps quiet_unit) (auto split: option.split)

lemma quiet_still_check_limits [simp, intro]: "quiet still (check_limits g aid)"
proof -
  have "quiet still (check_limit aid x)" for x by (cases x) (auto simp: check_limit_def intro!: quiet_bind)
  then show ?thesis unfolding check_limits_def by (intro quiet_bind quiet_still_read_record quiet_each)
qed

lemma quiet_still_admission_lock [simp, intro]: "quiet still admission_lock"
proof -
  have "quiet still (admission_loop n)" for n by (induction n) (auto intro!: quiet_bind)
  then show ?thesis unfolding admission_lock_def
    by (intro quiet_bind quiet_still_steps quiet_unit quiet_upd) (simp_all add: still_def)
qed

lemma quiet_still_reads [simp, intro]: "quiet still (read_procs aid path)" "quiet still (tree_paths aid)"
  unfolding read_procs_def tree_paths_def
  by (intro quiet_bind quiet_still_steps quiet_unit; auto split: option.split)+

lemma quiet_still_scan_pid [simp, intro]: "quiet still (scan_pid g worker grp pid)"
  unfolding scan_pid_def by (intro quiet_bind quiet_unit)

lemma quiet_still_scan_pids [simp, intro]: "quiet still (scan_pids g worker grp pids acc)"
proof (induction pids arbitrary: acc)
  case (Cons pid pids)
  show ?case unfolding scan_pids.simps
  proof (rule quiet_bind, rule quiet_catch, rule quiet_still_scan_pid)
    fix r :: "(kata_error, vm_process option) result"
    show "quiet still (case r of Inl e \<Rightarrow> returnIO (acc, Some e) | Inr None \<Rightarrow> scan_pids g worker grp pids acc
        | Inr (Some p) \<Rightarrow> scan_pids g worker grp pids (acc @ [p]))"
      by (cases r) (simp_all add: Cons.IH split: option.split)
  qed
qed simp

lemma quiet_still_scan_groups [simp, intro]: "quiet still (scan_groups g aid worker paths acc)"
proof (induction paths arbitrary: acc)
  case (Cons path paths)
  have t: "quiet still (case x of (acc', e) \<Rightarrow> (case e of Some y \<Rightarrow> returnIO (acc', Some y)
      | None \<Rightarrow> scan_groups g aid worker paths acc'))" for x :: "vm_process list \<times> kata_error option"
    by (cases x) (simp add: Cons.IH split: option.split)
  show ?case unfolding scan_groups.simps
  proof (rule quiet_if, rule quiet_unit(1), rule quiet_bind, rule quiet_catch, rule quiet_still_reads(1))
    fix r :: "(kata_error, string list) result"
    show "quiet still (case r of Inl e \<Rightarrow> returnIO (acc, Some e)
      | Inr s \<Rightarrow> bindIO (scan_pids g worker (relative_group g aid path) s acc) (\<lambda>(acc', e). case e of
            Some x \<Rightarrow> returnIO (acc', Some x) | None \<Rightarrow> scan_groups g aid worker paths acc'))"
      using quiet_bind [OF quiet_still_scan_pids t] by (cases r) simp_all
  qed
qed simp

lemma quiet_still_scan_start [simp, intro]: "quiet still (scan_start g aid worker)"
  unfolding scan_start_def by (intro quiet_bind quiet_unit quiet_still_kctx quiet_still_check_limits quiet_still_reads)

lemma quiet_still_scan_processes [simp, intro]: "quiet still (scan_processes g aid worker complete)"
  unfolding scan_processes_def
proof (rule quiet_bind, rule quiet_catch, rule quiet_still_scan_start)
  fix r :: "(kata_error, string list list) result"
  have "quiet still (bindIO (scan_groups g aid worker paths []) (\<lambda>(ps, e). returnIO (ps, f ps e)))" for paths f
    by (rule quiet_bind, rule quiet_still_scan_groups) (simp split: prod.split)
  then show "quiet still (case r of Inl e \<Rightarrow> returnIO ([], Some e)
     | Inr paths \<Rightarrow>
         bindIO (scan_groups g aid worker paths []) (\<lambda>(ps, e). returnIO (ps, case e of
           Some x \<Rightarrow> Some x
         | None \<Rightarrow> if complete \<and> \<not> list_ex (\<lambda>p. snd p = runtime_kind) ps then Some (EProcess (NotInside runtime_kind)) else None)))"
    by (cases r) simp_all
qed

lemma quiet_still_scan [simp, intro]: "quiet still (scan g aid worker complete)"
  unfolding scan_def by (rule quiet_bind, rule quiet_still_scan_processes) (simp split: prod.split option.split)

lemma quiet_still_validate [simp, intro]: "quiet still (validate_node g)"
  unfolding validate_node_def by (intro quiet_bind quiet_still_steps quiet_unit)

lemma quiet_still_own [simp, intro]: "quiet still (own_allocation g aid worker)"
  unfolding own_allocation_def by (intro quiet_bind quiet_still_read_record quiet_unit)

lemma quiet_step: "quiet still m \<Longrightarrow> m w = (r, w') \<Longrightarrow> still w' = still w"
  by (rule quietD)

section \<open>What a scan has attested\<close>

text \<open>
  A process that has been attested: it runs a pinned runtime or logger binary, its command line carries
  the worker's identity, it is in the group it was found in, and it is the same process before and after.
\<close>

definition attested :: "node_host \<Rightarrow> guard \<Rightarrow> string \<Rightarrow> string \<Rightarrow> proc_info \<Rightarrow> string \<Rightarrow> bool" where
  "attested h g worker grp i kind \<longleftrightarrow> kind \<in> set attested_kinds \<and>
     (\<exists>exe want args cg before after. pi_exe i = Inr exe \<and> nh_stat h (asset_path (gd_manifest g) kind) = Inr want \<and>
        ns_file want = ns_file exe \<and> pi_cmdline i = Inr args \<and> str_contains args worker \<and>
        pi_cgroup i = Inr cg \<and> trim_space cg = grp \<and> pi_before i = Inr before \<and> pi_after i = Inr after \<and>
        proc_start before \<noteq> [] \<and> proc_start before = proc_start after)"

definition vanished :: "proc_info \<Rightarrow> bool" where
  "vanished i \<longleftrightarrow> pi_before i = Inl ENotFound \<or> pi_exe i = Inl ENotFound"

lemma match_kind_Some:
  "match_kind h g exe ns = Inr (Some k) \<Longrightarrow> k \<in> set ns \<and> (\<exists>want. nh_stat h (asset_path (gd_manifest g) k) = Inr want \<and> ns_file want = exe)"
  by (induction ns) (auto simp: result_simps split: if_splits)

lemma attest_process_Some:
  assumes "attest_process h g worker grp i = Inr (Some k)"
  shows "attested h g worker grp i k"
proof -
  obtain exe where e: "pi_exe i = Inr exe" "match_kind h g (ns_file exe) attested_kinds = Inr (Some k)"
    using assms by (auto simp: attest_process_def result_simps split: sum.splits if_splits option.splits)
  with assms match_kind_Some [OF e(2)] show ?thesis
    by (auto simp: attest_process_def attested_def result_simps split: sum.splits if_splits)
qed

lemma attest_process_None: "attest_process h g worker grp i = Inr None \<Longrightarrow> vanished i"
  by (auto simp: attest_process_def vanished_def result_simps split: sum.splits if_splits option.splits)

text \<open>What one pid, one group and the whole scan have established about a world.\<close>

definition pid_checked :: "kworld \<Rightarrow> guard \<Rightarrow> string \<Rightarrow> string \<Rightarrow> vm_process list \<Rightarrow> string \<Rightarrow> bool" where
  "pid_checked w g worker grp ps pid \<longleftrightarrow> vanished (kw_proc w pid) \<or>
     (\<exists>k. attested (kw_host w) g worker grp (kw_proc w pid) k \<and> (pid_number pid, k) \<in> set ps)"

definition found_in :: "kworld \<Rightarrow> guard \<Rightarrow> string \<Rightarrow> string \<Rightarrow> string list \<Rightarrow> vm_process \<Rightarrow> bool" where
  "found_in w g worker grp pids q \<longleftrightarrow>
     (\<exists>pid \<in> set pids. fst q = pid_number pid \<and> attested (kw_host w) g worker grp (kw_proc w pid) (snd q))"

lemma still_host: "still w' = still w \<Longrightarrow> kw_host w' = kw_host w"
  by (drule still_same) (simp add: same_core_def)

lemma scan_pid_Inr:
  assumes "scan_pid g worker grp pid w = (Inr x, w')"
  shows "case x of None \<Rightarrow> vanished (kw_proc w pid)
    | Some q \<Rightarrow> fst q = pid_number pid \<and> attested (kw_host w) g worker grp (kw_proc w pid) (snd q)"
  using assms
  by (auto simp: scan_pid_def io_iffs dest!: attest_process_None attest_process_Some split: option.split)

lemma scan_pids_Inr:
  assumes "scan_pids g worker grp pids acc w = (Inr (ps, None), w')"
  shows "\<exists>qs. ps = acc @ qs \<and> (\<forall>pid \<in> set pids. pid_checked w g worker grp ps pid) \<and>
    (\<forall>q \<in> set qs. found_in w g worker grp pids q)"
  using assms
proof (induction pids arbitrary: acc w)
  case (Cons pid pids)
  obtain r w1 where p: "scan_pid g worker grp pid w = (r, w1)" by (cases "scan_pid g worker grp pid w")
  obtain x where x: "r = Inr x" using Cons.prems p by (cases r) (auto simp: io_iffs)
  have st: "still w1 = still w" using quiet_step [OF quiet_still_scan_pid p] .
  then have same: "kw_proc w1 = kw_proc w" "kw_host w1 = kw_host w" by (auto dest: still_proc still_host)
  note one = scan_pid_Inr [OF p [unfolded x]]
  define acc1 where "acc1 = acc @ (case x of None \<Rightarrow> [] | Some q \<Rightarrow> [q])"
  have "scan_pids g worker grp pids acc1 w1 = (Inr (ps, None), w')"
    using Cons.prems p x by (cases x) (auto simp: io_iffs acc1_def)
  from Cons.IH [OF this] obtain qs where qs: "ps = acc1 @ qs" "\<forall>pid \<in> set pids. pid_checked w1 g worker grp ps pid"
      "\<forall>q \<in> set qs. found_in w1 g worker grp pids q" by blast
  have "pid_checked w g worker grp ps pid"
    using one qs(1) by (cases x) (auto simp: pid_checked_def acc1_def)
  moreover have "\<forall>q \<in> set (case x of None \<Rightarrow> [] | Some q \<Rightarrow> [q]). found_in w g worker grp (pid # pids) q"
    using one by (cases x) (auto simp: found_in_def)
  moreover have "\<forall>q \<in> set qs. found_in w g worker grp (pid # pids) q" using qs(3) same by (auto simp: found_in_def)
  moreover have "\<forall>pid \<in> set pids. pid_checked w g worker grp ps pid" using qs(2) same by (simp add: pid_checked_def)
  ultimately show ?case using qs(1)
    by (intro exI [of _ "(case x of None \<Rightarrow> [] | Some q \<Rightarrow> [q]) @ qs"]) (auto simp: acc1_def)
qed simp

lemma read_procs_Inr:
  assumes "read_procs aid path w = (Inr s, w')"
  shows "\<exists>nd. group_at w aid = Some nd \<and> map_of (gn_tree nd) path = Some s"
proof -
  obtain w1 where "ksys w = (Inr (), w1)"
    and r: "(case group_at w1 aid of None \<Rightarrow> throwIO ENotFound
      | Some nd \<Rightarrow> (case map_of (gn_tree nd) path of None \<Rightarrow> throwIO ENotFound | Some v \<Rightarrow> returnIO v)) w1 = (Inr s, w')"
    using assms by (auto simp: read_procs_def io_iffs)
  then have "group_at w1 aid = group_at w aid" using ksys_step by (auto simp: same_core_def group_at_def)
  with r show ?thesis by (auto split: option.splits)
qed

definition group_checked :: "kworld \<Rightarrow> guard \<Rightarrow> string \<Rightarrow> string \<Rightarrow> vm_process list \<Rightarrow> string list \<Rightarrow> bool" where
  "group_checked w g aid worker ps path \<longleftrightarrow> known_group worker path \<and>
     (\<exists>nd s. group_at w aid = Some nd \<and> map_of (gn_tree nd) path = Some s \<and>
        (\<forall>pid \<in> set s. pid_checked w g worker (relative_group g aid path) ps pid))"

definition found_below :: "kworld \<Rightarrow> guard \<Rightarrow> string \<Rightarrow> string \<Rightarrow> string list list \<Rightarrow> vm_process \<Rightarrow> bool" where
  "found_below w g aid worker paths q \<longleftrightarrow> (\<exists>path \<in> set paths. \<exists>nd s. group_at w aid = Some nd \<and>
     map_of (gn_tree nd) path = Some s \<and> found_in w g worker (relative_group g aid path) s q)"

lemma still_view: "still w' = still w \<Longrightarrow> kw_proc w' = kw_proc w \<and> kw_host w' = kw_host w \<and> group_at w' aid = group_at w aid"
  by (intro conjI; (rule still_proc | rule still_host | rule same_core_group, rule still_same))

lemma pid_checked_mono: "pid_checked w g worker grp ps pid \<Longrightarrow> set ps \<subseteq> set ps' \<Longrightarrow> pid_checked w g worker grp ps' pid"
  by (auto simp: pid_checked_def)

lemma scan_groups_Inr:
  assumes "scan_groups g aid worker paths acc w = (Inr (ps, None), w')"
  shows "\<exists>qs. ps = acc @ qs \<and> (\<forall>path \<in> set paths. group_checked w g aid worker ps path) \<and>
    (\<forall>q \<in> set qs. found_below w g aid worker paths q)"
  using assms
proof (induction paths arbitrary: acc w)
  case (Cons path paths)
  have known: "known_group worker path" using Cons.prems by (auto split: if_splits)
  obtain r w1 where p: "read_procs aid path w = (r, w1)" by (cases "read_procs aid path w")
  obtain s where s: "r = Inr s" using Cons.prems p known by (cases r) (auto simp: io_iffs)
  let ?grp = "relative_group g aid path"
  obtain acc1 w2 where a: "scan_pids g worker ?grp s acc w1 = (Inr (acc1, None), w2)"
    and rest: "scan_groups g aid worker paths acc1 w2 = (Inr (ps, None), w')"
    using Cons.prems p s known by (auto simp: io_iffs split: option.splits)
  have st1: "still w1 = still w" using quiet_step [OF quiet_still_reads(1) p] .
  have st2: "still w2 = still w" using quiet_step [OF quiet_still_scan_pids a] st1 by simp
  note v1 = still_view [OF st1, of aid] and v2 = still_view [OF st2, of aid]
  obtain nd where nd: "group_at w aid = Some nd" "map_of (gn_tree nd) path = Some s"
    using read_procs_Inr [OF p [unfolded s]] by blast
  obtain qs1 where q1: "acc1 = acc @ qs1" "\<forall>pid \<in> set s. pid_checked w1 g worker ?grp acc1 pid"
      "\<forall>q \<in> set qs1. found_in w1 g worker ?grp s q" using scan_pids_Inr [OF a] by blast
  obtain qs2 where q2: "ps = acc1 @ qs2" "\<forall>path \<in> set paths. group_checked w2 g aid worker ps path"
      "\<forall>q \<in> set qs2. found_below w2 g aid worker paths q" using Cons.IH [OF rest] by blast
  have "group_checked w g aid worker ps path"
    using known nd q1(2) q2(1) v1 by (auto simp: group_checked_def pid_checked_def)
  moreover have "\<forall>path \<in> set paths. group_checked w g aid worker ps path"
    using q2(2) v2 by (simp add: group_checked_def pid_checked_def)
  moreover have "\<forall>q \<in> set qs1. found_below w g aid worker (path # paths) q"
    using q1(3) nd v1 by (auto simp: found_below_def found_in_def)
  moreover have "\<forall>q \<in> set qs2. found_below w g aid worker (path # paths) q"
    using q2(3) v2 by (auto simp: found_below_def found_in_def)
  ultimately show ?case using q1(1) q2(1) by (intro exI [of _ "qs1 @ qs2"]) auto
qed simp

text \<open>A scan that succeeded: every group below the allocation is known and every occupant attested.\<close>

definition scanned :: "kworld \<Rightarrow> guard \<Rightarrow> string \<Rightarrow> string \<Rightarrow> vm_process list \<Rightarrow> bool" where
  "scanned w g aid worker ps \<longleftrightarrow> valid_worker worker \<and> (\<exists>nd. group_at w aid = Some nd \<and>
     (\<forall>path \<in> set (walk_order nd). group_checked w g aid worker ps path) \<and>
     (\<forall>q \<in> set ps. found_below w g aid worker (walk_order nd) q))"

lemma tree_paths_Inr:
  assumes "tree_paths aid w = (Inr ps, w')"
  shows "\<exists>nd. group_at w aid = Some nd \<and> ps = walk_order nd"
proof -
  obtain w1 where "ksys w = (Inr (), w1)"
    and r: "(case group_at w1 aid of None \<Rightarrow> throwIO ENotFound | Some nd \<Rightarrow> returnIO (walk_order nd)) w1 = (Inr ps, w')"
    using assms by (auto simp: tree_paths_def io_iffs)
  then have "group_at w1 aid = group_at w aid" using ksys_step by (auto simp: same_core_def group_at_def)
  with r show ?thesis by (auto split: option.splits)
qed

lemma scan_start_Inr:
  assumes "scan_start g aid worker w = (Inr paths, w')"
  shows "valid_worker worker \<and> (\<exists>nd. group_at w aid = Some nd \<and> paths = walk_order nd)"
proof -
  obtain w1 u w2 where "kctx w = (Inr (), w1)" "check_limits g aid w1 = (Inr u, w2)" "tree_paths aid w2 = (Inr paths, w')"
      and v: "valid_worker worker"
    using assms by (auto simp: scan_start_def io_iffs)
  then have "still w2 = still w" using quiet_step quiet_still_kctx quiet_still_check_limits by metis
  then have "group_at w2 aid = group_at w aid" using still_view by blast
  with tree_paths_Inr [OF \<open>tree_paths aid w2 = _\<close>] v show ?thesis by simp
qed

lemma scan_processes_None:
  assumes "scan_processes g aid worker complete w = (Inr (ps, None), w')"
  shows "scanned w g aid worker ps \<and> (complete \<longrightarrow> (\<exists>p \<in> set ps. snd p = runtime_kind))"
proof -
  obtain r w1 where s: "scan_start g aid worker w = (r, w1)" by (cases "scan_start g aid worker w")
  obtain paths where r: "r = Inr paths" using assms s by (cases r) (auto simp: scan_processes_def io_iffs)
  have g: "scan_groups g aid worker paths [] w1 = (Inr (ps, None), w')"
      and c: "complete \<longrightarrow> list_ex (\<lambda>p. snd p = runtime_kind) ps"
    using assms s r by (auto simp: scan_processes_def io_iffs split: option.splits if_splits)
  have "still w1 = still w" using quiet_step [OF quiet_still_scan_start s] .
  note v = still_view [OF this, of aid]
  from scan_groups_Inr [OF g] have "\<forall>path \<in> set paths. group_checked w g aid worker ps path"
      "\<forall>q \<in> set ps. found_below w g aid worker paths q"
    using v by (auto simp: group_checked_def pid_checked_def found_below_def found_in_def)
  with scan_start_Inr [OF s [unfolded r]] c show ?thesis by (auto simp: scanned_def list_ex_iff)
qed

lemma scan_Inr:
  assumes "scan g aid worker complete w = (Inr ps, w')"
  shows "scanned w g aid worker ps" and "complete \<Longrightarrow> \<exists>p \<in> set ps. snd p = runtime_kind" and "still w' = still w"
proof -
  have "scan_processes g aid worker complete w = (Inr (ps, None), w')"
    using assms by (auto simp: scan_def io_iffs split: option.splits)
  then show "scanned w g aid worker ps" "complete \<Longrightarrow> \<exists>p \<in> set ps. snd p = runtime_kind"
    using scan_processes_None by blast+
  show "still w' = still w" using quiet_step [OF quiet_still_scan assms] .
qed

section \<open>An operation confined to one envelope\<close>

definition tree_pids :: "group_node \<Rightarrow> string set" where
  "tree_pids nd = (\<Union>s \<in> snd ` set (gn_tree nd). set s)"

definition envelope_pids :: "kworld \<Rightarrow> string \<Rightarrow> string set" where
  "envelope_pids w aid = (case group_at w aid of None \<Rightarrow> {} | Some nd \<Rightarrow> tree_pids nd)"

text \<open>The kernel writes process ids in canonical decimal.\<close>

definition canonical_pids :: "kworld \<Rightarrow> string \<Rightarrow> bool" where
  "canonical_pids w aid \<longleftrightarrow> (\<forall>pid \<in> envelope_pids w aid. \<exists>n < 2 ^ 32. pid = show_nat n)"

text \<open>
  From one world to a later one only the inside of the envelope has changed: the same groups exist, the
  allocation's control files and the set of its processes are the same, and a process of it may have
  moved to its supervisor group.
\<close>

definition confined :: "guard \<Rightarrow> string \<Rightarrow> kworld \<Rightarrow> kworld \<Rightarrow> bool" where
  "confined g aid w0 w \<longleftrightarrow>
     kw_dir_trust w = kw_dir_trust w0 \<and> kw_host w = kw_host w0 \<and> kw_workers w = kw_workers w0 \<and>
     kw_records w = kw_records w0 \<and> kw_now w = kw_now w0 \<and>
     map fst (kw_groups w) = map fst (kw_groups w0) \<and> (\<forall>a. a \<noteq> aid \<longrightarrow> group_at w a = group_at w0 a) \<and>
     map_option gn_files (group_at w aid) = map_option gn_files (group_at w0 aid) \<and>
     envelope_pids w aid = envelope_pids w0 aid \<and>
     (\<forall>pid. kw_proc w pid = kw_proc w0 pid \<or> pid \<in> envelope_pids w0 aid \<and>
        kw_proc w pid = (kw_proc w0 pid)\<lparr>pi_cgroup := Inr (relative_group g aid target_path)\<rparr>)"

lemma confined_refl: "confined g aid w w"
  by (simp add: confined_def)

lemma still_groups: "still w' = still w \<Longrightarrow> kw_groups w' = kw_groups w"
  by (drule still_same) (simp add: same_core_def)

lemma confined_still: "confined g aid w0 w \<Longrightarrow> still w' = still w \<Longrightarrow> confined g aid w0 w'"
  using still_same [of w' w] still_proc [of w' w]
  by (simp add: confined_def same_core_def group_at_def envelope_pids_def)

lemma quiet_still_triple:
  assumes "quiet still m" and "\<And>w w'. still w' = still w \<Longrightarrow> P w \<Longrightarrow> P w'"
  shows "triple P m (\<lambda>_. P) (\<lambda>_. P)"
  by (rule tripleI) (use assms quiet_step in blast)+

lemma confined_quiet: "quiet still m \<Longrightarrow> triple (confined g aid w0) m (\<lambda>_. confined g aid w0) (\<lambda>_. confined g aid w0)"
  by (erule quiet_still_triple) (rule confined_still)

lemma confined_quiet_and:
  assumes "quiet still m"
  shows "triple (\<lambda>w. confined g aid w0 w \<and> B) m (\<lambda>_ w. confined g aid w0 w \<and> B) (\<lambda>_. confined g aid w0)"
  by (rule triple_post [OF quiet_still_triple [OF assms]]) (use confined_still in blast)+

lemma confined_node_ok:
  assumes "node_ok g w0" and "confined g aid w0 w"
  shows "node_ok g w"
proof -
  have keys: "map fst (kw_groups w) = map fst (kw_groups w0)" using assms(2) by (simp add: confined_def)
  have "map_of (kw_groups w) k = None \<longleftrightarrow> map_of (kw_groups w0) k = None" for k
    using keys by (metis map_of_eq_None_iff set_map)
  moreover have "count_entries gs = length (filter (prefix group_prefix) (map fst gs))" for gs
    by (induction gs) (auto simp: count_entries_def)
  then have "count_entries (kw_groups w) = count_entries (kw_groups w0)" using keys by metis
  ultimately show ?thesis using assms by (simp add: node_ok_def ledger_ok_def confined_def)
qed

lemma put_group_keys:
  "group_at w aid = Some nd \<Longrightarrow> map fst (kw_groups (put_group aid n w)) = map fst (kw_groups w)"
  by (force simp: put_group_def group_at_def AList.update_keys dest!: map_of_SomeD)

lemma put_group_simps [simp]:
  "kw_dir_trust (put_group aid n w) = kw_dir_trust w" "kw_host (put_group aid n w) = kw_host w"
  "kw_workers (put_group aid n w) = kw_workers w" "kw_records (put_group aid n w) = kw_records w"
  "kw_now (put_group aid n w) = kw_now w" "kw_proc (put_group aid n w) = kw_proc w"
  by (simp_all add: put_group_def)

lemma group_at_put: "group_at (put_group aid n w) a = (if a = aid then Some n else group_at w a)"
  by (simp add: group_at_def put_group_def update_conv')

lemma put_group_confined:
  assumes "confined g aid w0 w" and "group_at w aid = Some nd" and "gn_files n = gn_files nd" and "tree_pids n = tree_pids nd"
  shows "confined g aid w0 (put_group aid n w)"
  using assms put_group_keys [OF assms(2), of n]
  by (simp add: confined_def group_at_put envelope_pids_def)

lemma mkdir_supervisor_confined:
  "triple (confined g aid w0) (mkdir_supervisor aid) (\<lambda>_. confined g aid w0) (\<lambda>_. confined g aid w0)"
  unfolding mkdir_supervisor_def
proof (rule triple_bind [OF confined_quiet], simp, rule triple_bind [where Q = "\<lambda>n w. confined g aid w0 w \<and> n = group_at w aid"],
    simp add: triple_get, goal_cases)
  case (1 u n)
  show ?case
  proof (cases n)
    case (Some nd)
    have "confined g aid w0 (put_group aid (nd\<lparr>gn_tree := gn_tree nd @ [(target_path, [])]\<rparr>) w)"
      if "confined g aid w0 w" "Some nd = group_at w aid" for w
      by (rule put_group_confined [OF that(1)]) (use that in \<open>auto simp: tree_pids_def\<close>)
    with Some show ?thesis by (auto intro!: triple_return triple_upd)
  qed (auto intro!: triple_throw)
qed

lemma moved_tree_pids:
  assumes "pid \<in> tree_pids nd" and "map_of (gn_tree nd) target_path = Some s"
  shows "tree_pids (nd\<lparr>gn_tree := move_tree pid (gn_tree nd)\<rparr>) = tree_pids nd" (is "?L = ?R")
proof
  have t: "(target_path, s) \<in> set (gn_tree nd)" using assms(2) by (rule map_of_SomeD)
  show "?L \<subseteq> ?R"
    using assms(1) t by (auto simp: tree_pids_def move_tree_def with_pid_def without_pid_def split: if_splits) (force)+
  show "?R \<subseteq> ?L"
  proof
    fix q assume "q \<in> ?R"
    then obtain p u where pu: "(p, u) \<in> set (gn_tree nd)" "q \<in> set u" by (auto simp: tree_pids_def)
    show "q \<in> ?L"
    proof (cases "q = pid")
      case True
      have "(target_path, with_pid pid s) \<in> set (move_tree pid (gn_tree nd))" using t by (force simp: move_tree_def)
      then show ?thesis using True by (force simp: tree_pids_def with_pid_def)
    next
      case False
      have "(p, if p = target_path then with_pid pid u else without_pid pid u) \<in> set (move_tree pid (gn_tree nd))"
        using pu(1) by (force simp: move_tree_def)
      moreover have "q \<in> set (if p = target_path then with_pid pid u else without_pid pid u)"
        using pu(2) False by (simp add: with_pid_def without_pid_def)
      ultimately show ?thesis unfolding tree_pids_def by (force intro!: rev_image_eqI)
    qed
  qed
qed

lemma move_pid_confined:
  "triple (\<lambda>w. confined g aid w0 w \<and> pid \<in> envelope_pids w0 aid) (move_pid g aid pid)
     (\<lambda>_. confined g aid w0) (\<lambda>_. confined g aid w0)"
proof (rule triple_fact, erule conjunct2, rule triple_pre [where P' = "confined g aid w0"])
  assume pid: "pid \<in> envelope_pids w0 aid"
  show "triple (confined g aid w0) (move_pid g aid pid) (\<lambda>_. confined g aid w0) (\<lambda>_. confined g aid w0)"
    unfolding move_pid_def
  proof (rule triple_bind [OF confined_quiet], simp, rule triple_bind [where Q = "\<lambda>n w. confined g aid w0 w \<and> n = group_at w aid"],
      simp add: triple_get, goal_cases)
    case (1 u n)
    show ?case
    proof (cases n)
      case (Some nd)
      let ?upd = "\<lambda>w. w\<lparr>kw_proc := (kw_proc w)(pid := (kw_proc w pid)\<lparr>pi_cgroup := Inr (relative_group g aid target_path)\<rparr>)\<rparr>"
      have g1: "triple (\<lambda>w. confined g aid w0 w \<and> Some nd = group_at w aid) (whenE (map_of (gn_tree nd) target_path = None) ENotFound)
          (\<lambda>_ w. confined g aid w0 w \<and> Some nd = group_at w aid \<and> map_of (gn_tree nd) target_path \<noteq> None) (\<lambda>_. confined g aid w0)"
        by (intro triple_when) auto
      have g2: "confined g aid w0 (put_group aid (nd\<lparr>gn_tree := move_tree pid (gn_tree nd)\<rparr>) w)"
        if "confined g aid w0 w" "Some nd = group_at w aid" "map_of (gn_tree nd) target_path \<noteq> None" for w
      proof -
        have "pid \<in> tree_pids nd" using pid that by (auto simp: confined_def envelope_pids_def split: option.splits)
        then have "tree_pids (nd\<lparr>gn_tree := move_tree pid (gn_tree nd)\<rparr>) = tree_pids nd" using that(3) moved_tree_pids by blast
        then show ?thesis using that by (intro put_group_confined [of g aid w0 w nd]) auto
      qed
      have g3: "confined g aid w0 (?upd w)" if "confined g aid w0 w" for w
      proof -
        let ?r = "\<lambda>i. i\<lparr>pi_cgroup := Inr (relative_group g aid target_path)\<rparr>"
        have "kw_proc w pid = kw_proc w0 pid \<or> kw_proc w pid = ?r (kw_proc w0 pid)" using that by (auto simp: confined_def)
        then have "?r (kw_proc w pid) = ?r (kw_proc w0 pid)" by (elim disjE) simp_all
        then show ?thesis using that pid by (simp add: confined_def group_at_def envelope_pids_def)
      qed
      show ?thesis unfolding Some option.case
        by (rule triple_bind [OF g1], rule triple_bind [where Q = "\<lambda>_. confined g aid w0"])
          (auto intro!: triple_upd g2 g3)
    qed (auto intro!: triple_throw)
  qed
qed auto

lemma found_below_pid:
  assumes "found_below w g aid worker paths q"
  shows "\<exists>pid \<in> envelope_pids w aid. fst q = pid_number pid"
proof -
  obtain path nd s pid where "group_at w aid = Some nd" "map_of (gn_tree nd) path = Some s" "pid \<in> set s" "fst q = pid_number pid"
    using assms by (auto simp: found_below_def found_in_def)
  moreover from this have "pid \<in> tree_pids nd" by (force simp: tree_pids_def dest: map_of_SomeD)
  ultimately show ?thesis by (auto simp: envelope_pids_def)
qed

lemma canonical_pid_text:
  assumes "canonical_pids w aid" and "pid \<in> envelope_pids w aid"
  shows "show_int (pid_number pid) = pid"
proof -
  obtain n where n: "n < 2 ^ 32" "pid = show_nat n" using assms by (auto simp: canonical_pids_def)
  then have "n < 2 ^ 63" by simp
  from atoi_show_nat [OF this] n(2) show ?thesis by (simp add: pid_number_def show_int_def)
qed

lemma scanned_pids:
  "scanned w g aid worker ps \<Longrightarrow> q \<in> set ps \<Longrightarrow> \<exists>pid \<in> envelope_pids w aid. fst q = pid_number pid"
  by (auto simp: scanned_def intro: found_below_pid)

lemma confined_pids: "confined g aid w0 w \<Longrightarrow> envelope_pids w aid = envelope_pids w0 aid"
  by (simp add: confined_def)

lemma scan_confined:
  assumes canon: "canonical_pids w0 aid"
  shows "triple (confined g aid w0) (scan g aid worker c)
     (\<lambda>ps w. confined g aid w0 w \<and> (\<forall>q \<in> set ps. show_int (fst q) \<in> envelope_pids w0 aid)) (\<lambda>_. confined g aid w0)"
proof (rule tripleI)
  fix w ps w' assume a: "confined g aid w0 w" and s: "scan g aid worker c w = (Inr ps, w')"
  have "show_int (fst q) \<in> envelope_pids w0 aid" if m: "q \<in> set ps" for q
  proof -
    obtain pid where "pid \<in> envelope_pids w aid" "fst q = pid_number pid"
      using scanned_pids [OF scan_Inr(1) [OF s] m] by blast
    then show ?thesis using canonical_pid_text [OF canon] confined_pids [OF a] by auto
  qed
  with confined_still [OF a] scan_Inr(3) [OF s]
  show "confined g aid w0 w' \<and> (\<forall>q \<in> set ps. show_int (fst q) \<in> envelope_pids w0 aid)" by blast
next
  fix w e w' assume "confined g aid w0 w" and "scan g aid worker c w = (Inl e, w')"
  then show "confined g aid w0 w'" using confined_still quiet_step [OF quiet_still_scan] by blast
qed

lemma move_retired_confined:
  assumes canon: "canonical_pids w0 aid"
  shows "triple (confined g aid w0) (move_retired g aid worker pid) (\<lambda>_. confined g aid w0) (\<lambda>_. confined g aid w0)"
proof -
  let ?P = "confined g aid w0"
  have c: "triple ?P (check_moved g aid p) (\<lambda>_. ?P) (\<lambda>_. ?P)" for p
    unfolding check_moved_def
    by (rule triple_bind [OF confined_quiet]) (auto intro!: triple_return triple_throw triple_when split: sum.split)
  let ?B = "show_int pid \<in> envelope_pids w0 aid"
  have inner: "triple (\<lambda>w. ?P w \<and> (\<forall>q \<in> set ps. show_int (fst q) \<in> envelope_pids w0 aid))
     (if \<not> list_ex (\<lambda>p. fst p = pid) ps then returnIO ()
       else bindIO ksys (\<lambda>_. bindIO (scan g aid worker False) (\<lambda>_.
         bindIO (move_pid g aid (show_int pid)) (\<lambda>_. check_moved g aid (show_int pid))))) (\<lambda>_. ?P) (\<lambda>_. ?P)" for ps
  proof (rule triple_if)
    assume "\<not> \<not> list_ex (\<lambda>p. fst p = pid) ps"
    then have B: "\<forall>q \<in> set ps. show_int (fst q) \<in> envelope_pids w0 aid \<Longrightarrow> ?B" by (auto simp: list_ex_iff)
    show "triple (\<lambda>w. ?P w \<and> (\<forall>q \<in> set ps. show_int (fst q) \<in> envelope_pids w0 aid))
      (bindIO ksys (\<lambda>_. bindIO (scan g aid worker False) (\<lambda>_.
         bindIO (move_pid g aid (show_int pid)) (\<lambda>_. check_moved g aid (show_int pid))))) (\<lambda>_. ?P) (\<lambda>_. ?P)"
      by (rule triple_pre [where P' = "\<lambda>w. ?P w \<and> ?B"], rule triple_bind [OF confined_quiet_and], simp,
        rule triple_bind [OF confined_quiet_and], simp, rule triple_bind [OF move_pid_confined], rule c) (use B in blast)
  qed (auto intro: triple_return)
  show ?thesis
    unfolding move_retired_def
    by (rule triple_bind [OF confined_quiet], simp, rule triple_if, simp add: triple_return,
      rule triple_bind [OF confined_quiet], simp, rule triple_bind [OF scan_confined [OF canon]], rule inner)
qed

lemma retire_confined_triple:
  assumes canon: "canonical_pids w0 aid"
  shows "triple (confined g aid w0) (retire g aid worker) (\<lambda>_. confined g aid w0) (\<lambda>_. confined g aid w0)"
proof -
  let ?P = "confined g aid w0"
  have p: "triple ?P (retire_process g aid worker q) (\<lambda>_. ?P) (\<lambda>_. ?P)" for q
    unfolding retire_process_def
    by (cases q; simp, rule triple_bind [OF confined_quiet], simp, rule triple_bind [OF confined_quiet], simp)
      (auto intro!: triple_return triple_throw move_retired_confined [OF canon] split: sum.split)
  show ?thesis
    unfolding retire_def
    by (rule triple_bind [OF confined_quiet], simp, rule triple_bind [OF confined_quiet], simp,
      rule triple_bind [OF triple_post [OF scan_confined [OF canon]]], assumption, assumption, rule triple_if, rule triple_return,
      simp, rule triple_pre [where P' = ?P], rule triple_bind [OF confined_quiet], simp, rule triple_bind [OF mkdir_supervisor_confined],
      rule triple_bind [OF confined_quiet], simp, rule triple_bind [OF confined_quiet], simp,
      rule triple_bind [OF triple_each [OF p]], rule confined_quiet, simp, simp)
qed

section \<open>Verification binds a worker\<close>

lemma still_at: "still w' = still w \<Longrightarrow> at d h ws rs gs w \<Longrightarrow> at d h ws rs gs w'"
  using at_same still_same by blast

lemma own_allocation_Inr:
  assumes ok: "records_ok (kw_host w) g (kw_records w)" and now: "0 < kw_now w" and o: "own_allocation g aid worker w = (Inr u, w')"
  shows "\<exists>r. recorded (kw_records w) aid = Some r \<and> (al_worker r = [] \<or> al_worker r = worker)"
proof -
  obtain r w1 where r: "read_record g aid w = (Inr r, w1)" and a: "al_worker r = [] \<or> al_worker r = worker"
    using o by (auto simp: own_allocation_def io_iffs)
  have "at (kw_dir_trust w) (kw_host w) (kw_workers w) (kw_records w) (kw_groups w) w" using now by (simp add: at_def)
  from triple_Inr [OF read_record_triple [OF ok] this r] a show ?thesis by blast
qed

lemma own_allocation_valid:
  "scan g aid worker c w = (Inr ps, w') \<Longrightarrow> valid_worker worker"
  using scan_Inr(1) by (auto simp: scanned_def)

text \<open>What \<open>Verify\<close> has done to the records before it retires the supervisor.\<close>

definition verified :: "kworld \<Rightarrow> guard \<Rightarrow> string \<Rightarrow> string \<Rightarrow> kworld \<Rightarrow> bool" where
  "verified w g aid worker v \<longleftrightarrow> (\<exists>r ps. tracked (kw_host w) (kw_workers w) g aid worker None (recorded (kw_records w) aid) r \<and>
     valid_allocation aid \<and> scanned w g aid worker ps \<and> (\<exists>p \<in> set ps. snd p = runtime_kind) \<and>
     at (kw_dir_trust w) (kw_host w) (kw_workers w) (AList.update aid (own_record r) (kw_records w)) (kw_groups w) v)"

definition verify_left :: "kworld \<Rightarrow> guard \<Rightarrow> string \<Rightarrow> string \<Rightarrow> kworld \<Rightarrow> bool" where
  "verify_left w g aid worker v \<longleftrightarrow> still v = still w \<or>
     at (kw_dir_trust w) (kw_host w) (kw_workers w) (kw_records w) (kw_groups w) v \<or>
     (\<exists>v0. verified w g aid worker v0 \<and> confined g aid v0 v)"

lemma verify_triple:
  assumes ok: "node_ok g w" and canon: "canonical_pids w aid"
  shows "triple (\<lambda>v. v = w) (verify g aid worker)
     (\<lambda>_ v. \<exists>v0. verified w g aid worker v0 \<and> confined g aid v0 v) (\<lambda>_. verify_left w g aid worker)"
    (is "triple _ _ ?Q ?R")
proof -
  let ?S = "\<lambda>v. still v = still w"
  let ?at = "at (kw_dir_trust w) (kw_host w) (kw_workers w) (kw_records w) (kw_groups w)"
  have reg: "registry_ok (gd_profiles g)" and now: "0 < kw_now w" and recs: "records_ok (kw_host w) g (kw_records w)"
    using ok by (auto simp: node_ok_def ledger_ok_def)
  have at0: "?at v" if "?S v" for v using still_at [OF that] now by (auto simp: at_def)
  have s: "quiet still m \<Longrightarrow> triple ?S m (\<lambda>_. ?S) ?R" for m :: "unit kio"
    by (rule triple_post [OF quiet_still_triple]) (auto simp: verify_left_def)
  have sc: "triple ?S (scan g aid worker True)
     (\<lambda>_ v. ?at v \<and> valid_worker worker \<and> (\<exists>ps. scanned w g aid worker ps \<and> (\<exists>p \<in> set ps. snd p = runtime_kind))) ?R"
  proof (rule tripleI)
    fix v ps v' assume st: "?S v" and x: "scan g aid worker True v = (Inr ps, v')"
    have "scanned v g aid worker ps" "\<exists>p \<in> set ps. snd p = runtime_kind" using scan_Inr [OF x] by auto
    moreover have "scanned v g aid worker ps = scanned w g aid worker ps"
      using still_view [OF st, of aid]
      by (simp add: scanned_def group_checked_def pid_checked_def found_below_def found_in_def)
    moreover have "?at v'" using at0 scan_Inr(3) [OF x] st by simp
    ultimately show "?at v' \<and> valid_worker worker \<and> (\<exists>ps. scanned w g aid worker ps \<and> (\<exists>p \<in> set ps. snd p = runtime_kind))"
      by (auto simp: scanned_def)
  next
    fix v e v' assume "?S v" and "scan g aid worker True v = (Inl e, v')"
    then show "?R e v'" using quiet_step [OF quiet_still_scan] by (auto simp: verify_left_def)
  qed
  have tr: "triple (\<lambda>v. ?at v \<and> valid_worker worker \<and> (\<exists>ps. scanned w g aid worker ps \<and> (\<exists>p \<in> set ps. snd p = runtime_kind)))
      (track_allocation g aid worker None) (\<lambda>_. verified w g aid worker) ?R"
  proof (rule triple_fact, erule conjunct2, rule triple_pre [where P' = ?at])
    assume f: "valid_worker worker \<and> (\<exists>ps. scanned w g aid worker ps \<and> (\<exists>p \<in> set ps. snd p = runtime_kind))"
    then have "worker = [] \<or> valid_worker worker" by blast
    from track_triple [OF recs reg this, of "kw_dir_trust w" "kw_workers w" "kw_groups w" aid None]
    show "triple ?at (track_allocation g aid worker None) (\<lambda>_. verified w g aid worker) ?R"
    proof (rule triple_post)
      fix e v assume "?at v \<or> (\<exists>r. valid_allocation aid \<and>
          tracked (kw_host w) (kw_workers w) g aid worker None (recorded (kw_records w) aid) r \<and>
          at (kw_dir_trust w) (kw_host w) (kw_workers w) (AList.update aid (own_record r) (kw_records w)) (kw_groups w) v)"
      then have "?at v \<or> verified w g aid worker v" using f unfolding verified_def by blast
      then show "verify_left w g aid worker v" using confined_refl unfolding verify_left_def by blast
    qed (use f in \<open>auto simp: verified_def\<close>)
  qed auto
  have rt: "triple (verified w g aid worker) (retire g aid worker) ?Q ?R"
  proof (rule triple_assume)
    fix v0 assume v: "verified w g aid worker v0"
    then have "kw_groups v0 = kw_groups w" by (auto simp: verified_def at_def)
    then have "canonical_pids v0 aid" using canon by (simp add: canonical_pids_def envelope_pids_def group_at_def)
    from retire_confined_triple [OF this] have "triple (\<lambda>v. v = v0) (retire g aid worker) (\<lambda>_. confined g aid v0) (\<lambda>_. confined g aid v0)"
      by (rule triple_pre) (simp add: confined_refl)
    then show "triple (\<lambda>v. v = v0) (retire g aid worker) ?Q ?R"
      by (rule triple_post) (use v in \<open>auto simp: verify_left_def\<close>)
  qed
  show ?thesis
    unfolding verify_def
    by (rule triple_pre [where P' = ?S], rule triple_bind [OF s], simp, rule triple_bind [OF s], simp,
      rule triple_bind [OF sc], rule triple_bind [OF tr], rule rt, simp)
qed

lemma tracked_ledger_ok:
  assumes "ledger_ok g h rs gs" and "valid_allocation aid" and "tracked h ws g aid worker req (recorded rs aid) r"
  shows "ledger_ok g h (AList.update aid (own_record r) rs) gs"
  using assms by (auto simp: ledger_ok_def tracked_def intro: records_ok_update)

text \<open>C14: Verification of a worker, whatever its result, keeps the ledger invariant and touches no other
  allocation, and an allocation once bound to a worker stays bound to that worker.  When it succeeds the
  record is bound to the worker; containerd had described that worker as the managed Kata container that
  owns this allocation with exactly the profile's limits; every process found below the allocation had
  been attested as a pinned runtime or logger of that worker in its own cgroup, at least one of them the
  runtime; and the processes of the envelope are the same, still inside it.\<close>

theorem verify_binds:
  assumes ok: "node_ok g w" and canon: "canonical_pids w aid" and v: "verify g aid worker w = (res, w')"
  shows "node_ok g w' \<and>
    (\<forall>a. a \<noteq> aid \<longrightarrow> recorded (kw_records w') a = recorded (kw_records w) a \<and> group_at w' a = group_at w a) \<and>
    envelope_pids w' aid = envelope_pids w aid \<and>
    (\<forall>r0. recorded (kw_records w) aid = Some r0 \<and> al_worker r0 \<noteq> [] \<longrightarrow>
       (\<exists>r. recorded (kw_records w') aid = Some r \<and> al_worker r = al_worker r0)) \<and>
    (res = Inr () \<longrightarrow> (\<exists>r ps. recorded (kw_records w') aid = Some r \<and> al_worker r = worker \<and>
       verified_owner (kw_host w) (kw_workers w) g aid worker r \<and> scanned w g aid worker ps \<and>
       (\<exists>p \<in> set ps. snd p = runtime_kind)))"
proof -
  note t = verify_triple [OF ok canon, of worker]
  have led: "ledger_ok g (kw_host w) (kw_records w) (kw_groups w)" "registry_ok (gd_profiles g)"
    using ok by (auto simp: node_ok_def)
  have wk: "worker \<noteq> []" if "verified w g aid worker v0" for v0
    using that by (auto simp: verified_def scanned_def valid_worker_def lower_hex_n_def)
  have left: "verify_left w g aid worker w'"
    using triple_Inr [OF t] triple_Inl [OF t] v by (cases res) (auto simp: verify_left_def)
  have plain: ?thesis if "kw_records w' = kw_records w" "kw_groups w' = kw_groups w" "kw_host w' = kw_host w" "0 < kw_now w'" "res \<noteq> Inr ()"
    using that led by (simp add: node_ok_def group_at_def envelope_pids_def)
  have good: ?thesis if v0: "verified w g aid worker v0" and c: "confined g aid v0 w'" for v0
  proof -
    obtain r ps where tr: "tracked (kw_host w) (kw_workers w) g aid worker None (recorded (kw_records w) aid) r"
      and va: "valid_allocation aid" and sc: "scanned w g aid worker ps" "\<exists>p \<in> set ps. snd p = runtime_kind"
      and a: "at (kw_dir_trust w) (kw_host w) (kw_workers w) (AList.update aid (own_record r) (kw_records w)) (kw_groups w) v0"
      using v0 by (auto simp: verified_def)
    have "node_ok g v0" using tracked_ledger_ok [OF led(1) va tr] led(2) a by (simp add: node_ok_def at_def)
    then have n: "node_ok g w'" using c by (rule confined_node_ok)
    have rec: "recorded (kw_records w') = (recorded (kw_records w))(aid \<mapsto> r)" using a c by (simp add: at_def confined_def)
    have grp: "group_at v0 x = group_at w x" for x using a by (simp add: at_def group_at_def)
    have "al_worker r = worker" using tr wk [OF v0] by (auto simp: tracked_def split: option.splits)
    moreover have "\<forall>r0. recorded (kw_records w) aid = Some r0 \<and> al_worker r0 \<noteq> [] \<longrightarrow> al_worker r = al_worker r0"
      using tr wk [OF v0] by (auto simp: tracked_def)
    moreover have "envelope_pids w' aid = envelope_pids w aid"
      using confined_pids [OF c] grp by (simp add: envelope_pids_def)
    moreover have "verified_owner (kw_host w) (kw_workers w) g aid worker r" using tr wk [OF v0] by (simp add: tracked_def)
    moreover have "\<forall>a. a \<noteq> aid \<longrightarrow> recorded (kw_records w') a = recorded (kw_records w) a \<and> group_at w' a = group_at w a"
      using rec c grp by (simp add: confined_def)
    moreover have "recorded (kw_records w') aid = Some r" using rec by simp
    ultimately show ?thesis using n sc by (intro conjI) blast+
  qed
  show ?thesis
  proof (cases "res = Inr ()")
    case True
    then have "\<exists>v0. verified w g aid worker v0 \<and> confined g aid v0 w'" using triple_Inr [OF t refl] v by simp
    then show ?thesis by (elim exE conjE) (rule good)
  next
    case False
    from left [unfolded verify_left_def] show ?thesis
    proof (elim disjE exE conjE)
      assume "still w' = still w"
      then have "same_core w' w" by (rule still_same)
      then show ?thesis using False ok by (intro plain) (auto simp: same_core_def node_ok_def)
    next
      assume "at (kw_dir_trust w) (kw_host w) (kw_workers w) (kw_records w) (kw_groups w) w'"
      then show ?thesis using False by (intro plain) (auto simp: at_def)
    qed (rule good)
  qed
qed

section \<open>A failed start kills only attested processes\<close>

lemma kill_group_cases:
  assumes "kill_group aid w = (r, w')"
  shows "still w' = still w \<or> (\<exists>nd w1. still w1 = still w \<and> group_at w aid = Some nd \<and>
     w' = put_group aid (nd\<lparr>gn_tree := map (\<lambda>(p, s). (p, [])) (gn_tree nd)\<rparr>) w1)"
proof -
  obtain r1 w1 where k: "ksys w = (r1, w1)" by (cases "ksys w")
  have s: "still w1 = still w" using quiet_step [OF quiet_still_steps(1) k] .
  show ?thesis
  proof (cases r1)
    case (Inl e)
    then show ?thesis using assms k s by (simp add: kill_group_def bindIO_def)
  next
    case (Inr u)
    then show ?thesis using assms k s still_view [OF s, of aid]
      by (cases "group_at w aid") (auto simp: kill_group_def bindIO_def)
  qed
qed

text \<open>The steps of \<open>AbortCreate\<close> before it writes \<open>cgroup.kill\<close>.\<close>

lemma abort_create_cases:
  assumes "abort_create g aid worker w = (res, w')"
  shows "still w' = still w \<or> (\<exists>u w1 w2 ps w3 r. validate_node g w = (Inr (), w1) \<and> own_allocation g aid worker w1 = (Inr u, w2) \<and>
     scan g aid worker False w2 = (Inr ps, w3) \<and> ps \<noteq> [] \<and> kill_group aid w3 = (r, w'))"
proof -
  obtain r1 w1 where v: "validate_node g w = (r1, w1)" by (cases "validate_node g w")
  obtain r2 w2 where o: "own_allocation g aid worker w1 = (r2, w2)" by (cases "own_allocation g aid worker w1")
  obtain r3 w3 where s: "scan g aid worker False w2 = (r3, w3)" by (cases "scan g aid worker False w2")
  have st: "still w1 = still w" "still w2 = still w" "still w3 = still w"
    using quiet_step [OF quiet_still_validate v] quiet_step [OF quiet_still_own o] quiet_step [OF quiet_still_scan s] by simp_all
  show ?thesis
  proof (cases "(\<exists>e. r1 = Inl e) \<or> (\<exists>e. r2 = Inl e) \<or> (\<exists>e. group_path g aid = Inl e) \<or> group_at w2 aid = None \<or> (\<exists>e. r3 = Inl e) \<or> r3 = Inr []")
    case True
    then have "still w' = still w"
      using assms v o s st
      by (cases r1; cases r2; cases "group_path g aid"; cases r3) (auto simp: abort_create_def bindIO_def split: if_splits)
    then show ?thesis ..
  next
    case False
    then obtain u ps where r: "r1 = Inr ()" "r2 = Inr u" "r3 = Inr ps" "ps \<noteq> []" "group_at w2 aid \<noteq> None"
      "\<exists>p. group_path g aid = Inr p"
      by (cases r1; cases r2; cases r3; cases "group_path g aid") auto
    then have "kill_group aid w3 = (res, w')" using assms v o s by (auto simp: abort_create_def bindIO_def)
    with r v o s show ?thesis by blast
  qed
qed

text \<open>The clean-up of a failed start changes at most the processes of its own envelope, and kills them
  only after the node validated, the allocation's record was unbound or bound to that very worker, and a
  scan attested every occupant, of which there was at least one, as a pinned runtime or logger of the
  worker.  No record, no control file and no other allocation changes, and the ledger invariant stays.\<close>

theorem abort_kills_attested:
  assumes ok: "node_ok g w" and a: "abort_create g aid worker w = (res, w')"
  shows "node_ok g w' \<and> kw_records w' = kw_records w \<and> (\<forall>b. b \<noteq> aid \<longrightarrow> group_at w' b = group_at w b) \<and>
    map_option gn_files (group_at w' aid) = map_option gn_files (group_at w aid) \<and>
    (group_at w' aid \<noteq> group_at w aid \<longrightarrow>
       (\<exists>r ps. recorded (kw_records w) aid = Some r \<and> (al_worker r = [] \<or> al_worker r = worker) \<and>
          ps \<noteq> [] \<and> scanned w g aid worker ps) \<and> envelope_pids w' aid = {})"
proof (cases "still w' = still w")
  case True
  then have s: "same_core w' w" by (rule still_same)
  then have "group_at w' b = group_at w b" for b by (rule same_core_group)
  with s ok show ?thesis by (simp add: same_core_def node_ok_def)
next
  case False
  obtain u w1 w2 ps w3 r where v: "validate_node g w = (Inr (), w1)" and o: "own_allocation g aid worker w1 = (Inr u, w2)"
    and s: "scan g aid worker False w2 = (Inr ps, w3)" "ps \<noteq> []" and k: "kill_group aid w3 = (r, w')"
    using abort_create_cases [OF a] False by blast
  have st: "still w1 = still w" "still w2 = still w" "still w3 = still w"
    using quiet_step [OF quiet_still_validate v] quiet_step [OF quiet_still_own o] scan_Inr(3) [OF s(1)] by simp_all
  obtain nd w4 where w4: "still w4 = still w3" and nd: "group_at w3 aid = Some nd"
    and w': "w' = put_group aid (nd\<lparr>gn_tree := map (\<lambda>(p, s). (p, [])) (gn_tree nd)\<rparr>) w4"
    using kill_group_cases [OF k] st False by auto
  have sc: "same_core w4 w" using w4 st(3) by (intro still_same) simp
  have grp: "group_at w4 b = group_at w b" "group_at w3 b = group_at w b" for b
    using same_core_group [OF sc] still_view [OF st(3)] by auto
  have "same_core w1 w" using st(1) by (rule still_same)
  then have "\<exists>r. recorded (kw_records w) aid = Some r \<and> (al_worker r = [] \<or> al_worker r = worker)"
    using own_allocation_Inr [OF _ _ o] ok by (simp add: same_core_def node_ok_def ledger_ok_def)
  moreover have "scanned w g aid worker ps"
    using scan_Inr(1) [OF s(1)] still_view [OF st(2), of aid]
    by (simp add: scanned_def group_checked_def pid_checked_def found_below_def found_in_def)
  moreover have "envelope_pids w' aid = {}" by (auto simp: w' envelope_pids_def group_at_put tree_pids_def)
  moreover have "node_ok g w'"
  proof -
    have keys: "map fst (kw_groups w') = map fst (kw_groups w)"
      using put_group_keys [of w4 aid nd] grp nd sc by (simp add: w' same_core_def)
    have "count_entries gs = length (filter (prefix group_prefix) (map fst gs))" for gs
      by (induction gs) (auto simp: count_entries_def)
    then have "count_entries (kw_groups w') = count_entries (kw_groups w)" using keys by metis
    moreover have "map_of (kw_groups w') x = None \<longleftrightarrow> map_of (kw_groups w) x = None" for x
      using keys by (metis map_of_eq_None_iff set_map)
    ultimately show ?thesis using ok sc by (simp add: node_ok_def ledger_ok_def same_core_def w')
  qed
  moreover have "\<forall>b. b \<noteq> aid \<longrightarrow> group_at w' b = group_at w b" using grp by (simp add: w' group_at_put)
  moreover have "kw_records w' = kw_records w" using sc by (simp add: w' same_core_def)
  moreover have "map_option gn_files (group_at w' aid) = map_option gn_files (group_at w aid)"
    using nd grp by (simp add: w' group_at_put)
  ultimately show ?thesis using s(2) by (intro conjI) blast+
qed

section \<open>A sample worker\<close>

definition sample_worker :: string where "sample_worker = replicate 64 CHR ''b''"

definition sample_stat :: string where
  "sample_stat = ''77 (shim) S 1 77 77 0 -1 4194304 1 1 1 1 0 0 0 0 20 0 9 0 5150 1''"

definition sample_sandbox :: "string list" where
  "sample_sandbox = [supervisor]"

definition sample_proc :: proc_info where
  "sample_proc = \<lparr>pi_before = Inr sample_stat, pi_exe = sample_guard_stat ''/shim'',
     pi_cmdline = Inr (''shim -id '' @ sample_worker), pi_cgroup = Inr (relative_group sample_guard sample_aid sample_sandbox),
     pi_after = Inr sample_stat\<rparr>"

definition sample_settings :: host_settings where
  "sample_settings = \<lparr>hs_memory = rp_guest sample_profile, hs_swap = rp_guest sample_profile, hs_nano_cpus = 8000000000,
     hs_pids = Some 4096, hs_parent = ''/cdx/cdx-'' @ sample_aid, hs_runtime = pinned_runtime\<rparr>"

definition sample_info :: worker_info where
  "sample_info = \<lparr>wi_id = sample_worker, wi_name = ''/dock'', wi_labels = Some [(managed_label, ''true''), (isolation_label, ''kata''),
     (allocation_label, sample_aid), (profile_label, sample_sha), (resource_label, ''wide'')],
     wi_host = Some sample_settings, wi_state = Some ''running'', wi_created = 900\<rparr>"

definition sample_usage :: "(string \<times> string) list" where
  "sample_usage = [(''memory.current'', ''4096''), (''pids.current'', ''3''), (''memory.events'', ''oom 0'')]"

definition sample_group :: group_node where
  "sample_group = \<lparr>gn_dir = True, gn_root = True, gn_perm = 493,
     gn_files = (''cgroup.events'', ''populated 1 frozen 0'') # group_limits sample_profile @ sample_usage,
     gn_tree = [([], []), (sample_sandbox, [''77''])]\<rparr>"

definition sample_reservation :: allocation where
  "sample_reservation = new_allocation sample_node sample_guard 900 sample_aid sample_profile"

definition sample_running :: kworld where
  "sample_running = sample_world\<lparr>kw_records := [(sample_aid, own_record sample_reservation)],
     kw_groups := [(group_entry sample_aid, sample_group)],
     kw_workers := (\<lambda>n. if n = sample_worker then Inr sample_info else Inl ENoWorker),
     kw_proc := (kw_proc sample_world)(''77'' := sample_proc), kw_dir_made := True, kw_contended := 0\<rparr>"

text \<open>
  Values of the sample, evaluated one by one; the operations on it follow by rewriting.
\<close>

definition sample_limits :: "(string \<times> string) list" where
  "sample_limits = [(''cpu.max'', ''800000 100000''), (''memory.max'', ''1342177280''), (''memory.swap.max'', ''0''),
     (''pids.max'', ''4096''), (''memory.oom.group'', ''1'')]"

lemma sample_group_limits: "group_limits sample_profile = sample_limits"
  by code_simp

lemma sample_limits_trimmed: "list_all (\<lambda>(n, v). trim_space v = v) sample_limits"
  by code_simp

lemma sample_ids: "valid_allocation sample_aid" "valid_worker sample_worker"
  by code_simp+

lemma sample_group_path: "\<exists>p. group_path sample_guard sample_aid = Inr p"
  by (simp add: group_path_def sample_ids)

lemma sample_wide_profile: "profile_or_zero sample_guard ''wide'' = sample_profile"
  using sample_wide by (simp add: profile_or_zero_def)

lemma sample_attested:
  "attest_process sample_node sample_guard sample_worker (relative_group sample_guard sample_aid sample_sandbox) sample_proc
     = Inr (Some runtime_kind)"
  by code_simp

lemma sample_pid: "parse_uint 32 ''77'' = Some 77" "pid_number ''77'' = 77" "show_int 77 = ''77''"
  by code_simp+

lemma sample_owner: "owns_allocation sample_node sample_guard sample_aid sample_profile sample_info"
  by code_simp

lemma sample_supervisor_trusted: "trusted_dir sample_node (absolute_group sample_guard sample_aid target_path) = None"
  by code_simp

lemma sample_moved: "trim_space (relative_group sample_guard sample_aid target_path) = relative_group sample_guard sample_aid target_path"
  by code_simp

lemma sample_runtime: "mf_runtime (gd_manifest sample_guard) = pinned_runtime"
  by (simp add: sample_guard_def sample_manifest_def)

definition sample_allocation :: "allocation \<Rightarrow> bool" where
  "sample_allocation r \<longleftrightarrow> record_error sample_node sample_guard sample_aid r = None \<and> al_profile r = ''wide'' \<and>
     (al_worker r = [] \<or> al_worker r = sample_worker)"

definition sample_state :: "allocation \<Rightarrow> kworld \<Rightarrow> bool" where
  "sample_state r w \<longleftrightarrow> kw_host w = sample_node \<and> kw_faults w = [] \<and> kw_ctx w = [] \<and> kw_dir_made w \<and> kw_dir_trust w = None \<and>
     kw_contended w = 0 \<and> kw_records w = [(sample_aid, own_record r)] \<and> kw_groups w = [(group_entry sample_aid, sample_group)] \<and>
     kw_proc w ''77'' = sample_proc \<and> sample_allocation r"

lemma sample_steps:
  assumes "sample_state r w"
  shows "ksys w = (Inr (), w)" "kctx_ended w = (Inr False, w)" "kctx w = (Inr (), w)" "record_dir w = (Inr (), w)"
    "admission_lock w = (Inr (), w)" "validate_node sample_guard w = (Inr (), w)"
    "group_at w sample_aid = Some sample_group"
  using assms sample_validates
  by (simp_all add: sample_state_def ksys_def kctx_ended_def kctx_def record_dir_def admission_lock_def validate_node_def
      bindIO_def sample_runtime group_at_def)

lemma sample_read:
  assumes "sample_state r w"
  shows "read_record sample_guard sample_aid w = (Inr r, w)"
  using assms sample_steps [OF assms]
  by (simp add: read_record_def bindIO_def sample_ids sample_state_def sample_allocation_def own_record_def)

lemma sample_control:
  assumes "sample_state r w" and "map_of (gn_files sample_group) n = Some v"
  shows "read_control sample_aid n w = (Inr v, w)"
  using assms(2) sample_steps [OF assms(1)] by (simp add: read_control_def bindIO_def)

lemma each_same: "(\<And>x. x \<in> set xs \<Longrightarrow> f x w = (Inr (), w)) \<Longrightarrow> each f xs w = (Inr (), w)"
  by (induction xs) (simp_all add: bindIO_def)

lemma sample_check:
  assumes "sample_state r w"
  shows "check_limits sample_guard sample_aid w = (Inr (), w)"
proof -
  have "check_limit sample_aid x w = (Inr (), w)" if m: "x \<in> set sample_limits" for x
  proof -
    obtain n v where x: "x = (n, v)" by (cases x)
    have "map_of (gn_files sample_group) n = Some v"
      using m x by (auto simp: sample_group_def sample_group_limits sample_limits_def)
    moreover have "trim_space v = v"
      using m x sample_limits_trimmed by (auto simp: list_all_iff)
    ultimately show ?thesis by (simp add: x check_limit_def bindIO_def sample_control [OF assms])
  qed
  then have "each (check_limit sample_aid) sample_limits w = (Inr (), w)" by (rule each_same)
  then show ?thesis using assms
    by (simp add: check_limits_def bindIO_def sample_read [OF assms] sample_state_def sample_allocation_def
        sample_wide_profile sample_group_limits)
qed

lemma sample_walk: "walk_order sample_group = [[], sample_sandbox]" "map_of (gn_tree sample_group) [] = Some []"
  "map_of (gn_tree sample_group) sample_sandbox = Some [''77'']"
  by (simp_all add: walk_order_def sample_group_def sample_sandbox_def)

lemma sample_known: "known_group sample_worker []" "known_group sample_worker sample_sandbox"
  by (simp_all add: known_group_def sample_sandbox_def)

lemma sample_scan:
  assumes s: "sample_state r w"
  shows "scan sample_guard sample_aid sample_worker c w = (Inr [(77, runtime_kind)], w)"
proof -
  note st = sample_steps [OF s]
  obtain p where p: "group_path sample_guard sample_aid = Inr p" using sample_group_path by blast
  have "scan_start sample_guard sample_aid sample_worker w = (Inr [[], sample_sandbox], w)"
    by (simp add: scan_start_def bindIO_def st sample_ids p sample_check [OF s] tree_paths_def sample_walk)
  moreover have "read_procs sample_aid [] w = (Inr [], w)" "read_procs sample_aid sample_sandbox w = (Inr [''77''], w)"
    by (simp_all add: read_procs_def bindIO_def st sample_walk)
  moreover have "scan_pid sample_guard sample_worker (relative_group sample_guard sample_aid sample_sandbox) ''77'' w
      = (Inr (Some (77, runtime_kind)), w)"
    using s sample_attested sample_pid by (simp add: scan_pid_def bindIO_def sample_state_def)
  ultimately show ?thesis
    by (simp add: scan_def scan_processes_def catchIO_def bindIO_def sample_known)
qed

lemma sample_retire:
  assumes s: "sample_state r w"
  shows "retire sample_guard sample_aid sample_worker w = (Inr (), w)"
proof -
  note st = sample_steps [OF s]
  obtain p where p: "group_path sample_guard sample_aid = Inr p" using sample_group_path by blast
  have o: "own_allocation sample_guard sample_aid sample_worker w = (Inr (), w)"
    using s by (simp add: own_allocation_def bindIO_def sample_read [OF s] sample_state_def sample_allocation_def)
      (metis io_unit_simps(7))
  have m: "mkdir_supervisor sample_aid w = (Inr (), w)"
    by (simp add: mkdir_supervisor_def bindIO_def st sample_group_def sample_sandbox_def target_path_def)
  have "retire_process sample_guard sample_aid sample_worker (77, runtime_kind) w = (Inr (), w)"
    using s sample_moved by (simp add: retire_process_def bindIO_def attested_kinds_def runtime_kind_def sample_state_def
        sample_pid sample_proc_def sample_sandbox_def target_path_def)
  with o m p st s show ?thesis
    by (simp add: retire_def bindIO_def sample_scan [OF s] sample_check [OF s] sample_supervisor_trusted sample_state_def)
qed

lemma sample_reservation_ok: "record_error sample_node sample_guard sample_aid sample_reservation = None"
  by code_simp

definition sample_bound :: allocation where
  "sample_bound = sample_reservation\<lparr>al_worker := sample_worker, al_name := ''dock''\<rparr>"

lemma sample_profile_name: "al_profile sample_reservation = ''wide''" "al_worker sample_reservation = []" "al_id sample_reservation = sample_aid"
  by (simp_all add: sample_reservation_def new_allocation_def sample_profile_def)

lemma sample_bound_id: "al_id sample_bound = sample_aid"
  by (simp add: sample_bound_def sample_profile_name)

lemma sample_bound_ok: "record_error sample_node sample_guard sample_aid sample_bound = None"
  using record_error_bound [OF sample_reservation_ok sample_ids(2)] by (simp add: sample_bound_def)

lemma sample_states: "sample_state sample_reservation sample_running" "sample_state sample_bound (put_record sample_bound sample_running)"
  using sample_reservation_ok sample_bound_ok sample_profile_name
  by (simp_all add: sample_state_def sample_allocation_def sample_running_def sample_world_def put_record_def sample_bound_def)

lemma sample_known_worker: "kw_workers sample_running sample_worker = Inr sample_info"
  by (simp add: sample_running_def)

lemma sample_track:
  "track_allocation sample_guard sample_aid sample_worker None sample_running = (Inr (), put_record sample_bound sample_running)"
proof -
  note st = sample_steps [OF sample_states(1)] and st' = sample_steps [OF sample_states(2)]
  have "bind_worker sample_guard sample_aid sample_worker sample_reservation sample_running = (Inr sample_bound, sample_running)"
    using sample_states(1) sample_owner sample_known_worker
    by (simp add: bind_worker_def bindIO_def st sample_state_def sample_profile_name sample_wide_profile sample_bound_def
        sample_info_def trim_prefix_def)
  moreover have "write_record sample_bound sample_running = (Inr (), put_record sample_bound sample_running)"
    by (simp add: write_record_def bindIO_def st st' sample_ids sample_bound_id)
  moreover have "sample_worker \<noteq> []" by (simp add: sample_worker_def)
  ultimately show ?thesis
    by (simp add: track_allocation_def current_record_def catchIO_def bindIO_def sample_read [OF sample_states(1)]
        requested_changed_def sample_profile_name)
qed

lemma sample_verified:
  "verify sample_guard sample_aid sample_worker sample_running = (Inr (), put_record sample_bound sample_running)"
  by (simp add: verify_def bindIO_def sample_steps [OF sample_states(1)] sample_scan [OF sample_states(1)] sample_track
      sample_retire [OF sample_states(2)])

definition sample_killed :: group_node where
  "sample_killed = sample_group\<lparr>gn_tree := [([], []), (sample_sandbox, [])]\<rparr>"

lemma sample_aborted:
  "abort_create sample_guard sample_aid sample_worker sample_running = (Inr (), put_group sample_aid sample_killed sample_running)"
proof -
  note s = sample_states(1) and st = sample_steps [OF sample_states(1)]
  obtain p where p: "group_path sample_guard sample_aid = Inr p" using sample_group_path by blast
  have "own_allocation sample_guard sample_aid sample_worker sample_running = (Inr (), sample_running)"
    by (simp add: own_allocation_def bindIO_def sample_read [OF s] sample_profile_name)
  moreover have "kill_group sample_aid sample_running = (Inr (), put_group sample_aid sample_killed sample_running)"
    by (simp add: kill_group_def bindIO_def st sample_killed_def sample_group_def)
  ultimately show ?thesis
    by (simp add: abort_create_def bindIO_def st p sample_scan [OF s])
qed

lemma sample_running_ok: "node_ok sample_guard sample_running"
proof -
  have "gc_max (gd_config sample_guard) = 2" by (simp add: sample_guard_def sample_guard_config_def)
  then show ?thesis using sample_registry sample_reservation_ok sample_ids
    by (auto simp: node_ok_def ledger_ok_def records_ok_def record_ok_def own_record_def sample_running_def sample_world_def
        count_entries_def recorded_def split: if_splits)
qed

lemma sample_canonical: "canonical_pids sample_running sample_aid"
proof -
  have "show_nat 77 = ''77''" by code_simp
  then show ?thesis
    by (auto simp: canonical_pids_def envelope_pids_def group_at_def sample_running_def sample_group_def tree_pids_def
        intro!: exI [of _ 77])
qed

text \<open>A running worker with one shim, already in its supervisor group, verified for the first time.\<close>

theorem verify_binds_witness:
  "node_ok sample_guard (put_record sample_bound sample_running) \<and>
   (\<exists>r. recorded (kw_records (put_record sample_bound sample_running)) sample_aid = Some r \<and> al_worker r = sample_worker)"
  using verify_binds [OF sample_running_ok sample_canonical sample_verified] by blast

theorem abort_kills_attested_witness:
  "\<exists>ps. ps \<noteq> [] \<and> scanned sample_running sample_guard sample_aid sample_worker ps \<and>
     envelope_pids (put_group sample_aid sample_killed sample_running) sample_aid = {}"
proof -
  have "group_at (put_group sample_aid sample_killed sample_running) sample_aid \<noteq> group_at sample_running sample_aid"
    using sample_steps(7) [OF sample_states(1)] by (simp add: group_at_put sample_killed_def sample_group_def)
  with abort_kills_attested [OF sample_running_ok sample_aborted] show ?thesis by blast
qed

end
