(* ===== verification/KataRelease.thy ===== *)
theory KataRelease
  imports KataProcs
begin

text \<open>
  \<open>Release\<close> of \<open>host_linux.go\<close>: it never kills or moves a process, and waits until the allocation's
  cgroups are empty or the context ends.  The wait is a loop that may run for as long as processes
  remain, so it is a partial function: \<open>None\<close> is a call that does not return.  Between two rounds the
  rest of the node acts: \<open>env n\<close> is what happened during the \<open>n\<close>-th pause of 50 ms, \<open>ended n\<close> that the
  context was done in that pause.
\<close>

section \<open>One round\<close>

text \<open>The walk of one round: the groups in walk order, and whether any is occupied.\<close>

fun walk_round :: "string \<Rightarrow> string \<Rightarrow> string list list \<Rightarrow> bool \<Rightarrow> bool kio" where
  "walk_round aid worker [] occupied = returnIO occupied"
| "walk_round aid worker (path # paths) occupied =
     bindIO (whenE (\<not> known_group worker path) (EGuard UnknownGroup)) (\<lambda>_.
     bindIO (read_procs aid path) (\<lambda>s. walk_round aid worker paths (occupied \<or> s \<noteq> [])))"

definition walk :: "guard \<Rightarrow> string \<Rightarrow> string \<Rightarrow> (string list list \<times> bool) kio" where
  "walk g aid worker =
     bindIO (liftE (group_path g aid)) (\<lambda>_.
     bindIO (check_limits g aid) (\<lambda>_.
     bindIO (tree_paths aid) (\<lambda>paths.
     bindIO (walk_round aid worker paths False) (\<lambda>occupied. returnIO (paths, occupied)))))"

definition remove_groups :: "string \<Rightarrow> string list list \<Rightarrow> unit kio" where
  "remove_groups aid paths = each (rmdir_at aid) (rev paths)"

datatype round = Finished "(kata_error, unit) result" | Waiting

definition release_round :: "guard \<Rightarrow> string \<Rightarrow> string \<Rightarrow> kworld \<Rightarrow> round \<times> kworld" where
  "release_round g aid worker w =
     (case walk g aid worker w of
        (Inl e, w1) \<Rightarrow> (Finished (Inl e), w1)
      | (Inr (paths, occupied), w1) \<Rightarrow>
          if occupied then (Waiting, w1)
          else (case bindIO (remove_groups aid paths) (\<lambda>_. remove_record aid) w1 of (r, w2) \<Rightarrow> (Finished r, w2)))"

section \<open>The loop\<close>

partial_function (option) release_loop ::
  "(nat \<Rightarrow> kworld \<Rightarrow> kworld) \<Rightarrow> (nat \<Rightarrow> bool) \<Rightarrow> guard \<Rightarrow> string \<Rightarrow> string \<Rightarrow> nat \<Rightarrow> kworld \<Rightarrow> ((kata_error, unit) result \<times> kworld) option" where
  "release_loop env ended g aid worker n w =
     (case release_round g aid worker w of
        (Finished r, w1) \<Rightarrow> Some (r, w1)
      | (Waiting, w1) \<Rightarrow>
          if ended n then Some (Inl ECanceled, w1)
          else release_loop env ended g aid worker (Suc n) (env n w1))"

text \<open>The checks before the loop; the result says whether the cgroup is there.\<close>

definition release_start :: "guard \<Rightarrow> string \<Rightarrow> string \<Rightarrow> bool kio" where
  "release_start g aid worker =
     bindIO (catchIO (read_record g aid)) (\<lambda>res.
     bindIO (case res of
         Inr r \<Rightarrow> whenE (al_worker r \<noteq> [] \<and> worker \<noteq> [] \<and> al_worker r \<noteq> worker) (EGuard OtherWorker)
       | Inl e \<Rightarrow> whenE (e \<noteq> ENotFound) e) (\<lambda>_.
     bindIO (liftE (group_path g aid)) (\<lambda>_. getIO (\<lambda>w. group_at w aid \<noteq> None))))"

definition release_unlocked ::
  "(nat \<Rightarrow> kworld \<Rightarrow> kworld) \<Rightarrow> (nat \<Rightarrow> bool) \<Rightarrow> guard \<Rightarrow> string \<Rightarrow> string \<Rightarrow> kworld \<Rightarrow> ((kata_error, unit) result \<times> kworld) option" where
  "release_unlocked env ended g aid worker w =
     (case release_start g aid worker w of
        (Inl e, w1) \<Rightarrow> Some (Inl e, w1)
      | (Inr present, w1) \<Rightarrow>
          if present then release_loop env ended g aid worker 0 w1
          else Some (remove_record aid w1))"

definition release ::
  "(nat \<Rightarrow> kworld \<Rightarrow> kworld) \<Rightarrow> (nat \<Rightarrow> bool) \<Rightarrow> guard \<Rightarrow> string \<Rightarrow> string \<Rightarrow> kworld \<Rightarrow> ((kata_error, unit) result \<times> kworld) option" where
  "release env ended g aid worker w =
     (case admission_lock w of
        (Inl e, w1) \<Rightarrow> Some (Inl e, w1)
      | (Inr _, w1) \<Rightarrow> release_unlocked env ended g aid worker w1)"

section \<open>The rounds\<close>

text \<open>The world after \<open>k\<close> rounds and pauses, and whether round \<open>k\<close> waits.\<close>

fun world_after ::
  "(nat \<Rightarrow> kworld \<Rightarrow> kworld) \<Rightarrow> guard \<Rightarrow> string \<Rightarrow> string \<Rightarrow> nat \<Rightarrow> kworld \<Rightarrow> nat \<Rightarrow> kworld" where
  "world_after env g aid worker n w 0 = w"
| "world_after env g aid worker n w (Suc k) =
     world_after env g aid worker (Suc n) (env n (snd (release_round g aid worker w))) k"

definition waits :: "(nat \<Rightarrow> kworld \<Rightarrow> kworld) \<Rightarrow> guard \<Rightarrow> string \<Rightarrow> string \<Rightarrow> nat \<Rightarrow> kworld \<Rightarrow> nat \<Rightarrow> bool" where
  "waits env g aid worker n w k \<longleftrightarrow> fst (release_round g aid worker (world_after env g aid worker n w k)) = Waiting"

lemma release_loop_ends: "ended (n + k) \<Longrightarrow> release_loop env ended g aid worker n w \<noteq> None"
proof (induction k arbitrary: n w)
  case 0
  then show ?case by (subst release_loop.simps) (auto split: prod.split round.split)
next
  case (Suc k)
  from Suc.IH [of "Suc n"] Suc.prems show ?case by (subst release_loop.simps) (auto split: prod.split round.split)
qed

lemmas release_loop_induct = release_loop.raw_induct [rotated, consumes 1, case_names step]

text \<open>A process that never leaves keeps a release waiting.\<close>

lemma sample_waits: "sample_state r w \<Longrightarrow> release_round sample_guard sample_aid sample_worker w = (Waiting, w)"
proof -
  assume s: "sample_state r w"
  obtain p where p: "group_path sample_guard sample_aid = Inr p" using sample_group_path by blast
  show ?thesis
    by (simp add: release_round_def walk_def bindIO_def p sample_check [OF s] tree_paths_def read_procs_def
        sample_steps [OF s] sample_walk sample_known)
qed

section \<open>What a release leaves\<close>

text \<open>
  From one world to a later one of the same release, between two pauses: only the allocation's own
  cgroups and record may have gone, the cgroups first.
\<close>

definition cleared :: "string \<Rightarrow> kworld \<Rightarrow> kworld \<Rightarrow> bool" where
  "cleared aid w0 w \<longleftrightarrow> kw_host w = kw_host w0 \<and> kw_now w = kw_now w0 \<and> kw_proc w = kw_proc w0 \<and>
     (kw_records w = kw_records w0 \<or> kw_records w = AList.delete aid (kw_records w0) \<and> group_at w aid = None) \<and>
     (\<forall>a. a \<noteq> aid \<longrightarrow> group_at w a = group_at w0 a) \<and> (group_at w aid \<noteq> None \<longrightarrow> group_at w0 aid \<noteq> None) \<and>
     count_entries (kw_groups w) \<le> count_entries (kw_groups w0)"

lemma cleared_refl: "cleared aid w w"
  by (simp add: cleared_def)

lemma cleared_still: "cleared aid w0 w \<Longrightarrow> still w' = still w \<Longrightarrow> cleared aid w0 w'"
  using still_same [of w' w] still_proc [of w' w] by (simp add: cleared_def same_core_def group_at_def)

lemma cleared_quiet: "quiet still m \<Longrightarrow> triple (cleared aid w0) m (\<lambda>_. cleared aid w0) (\<lambda>_. cleared aid w0)"
  by (erule quiet_still_triple) (rule cleared_still)

lemma cleared_node_ok:
  assumes "node_ok g w0" and "cleared aid w0 w"
  shows "node_ok g w"
proof -
  have "records_ok (kw_host w) g (kw_records w)"
    using assms by (auto simp: node_ok_def ledger_ok_def cleared_def intro: records_ok_delete)
  moreover have "recorded (kw_records w) a \<noteq> None" if v: "valid_allocation a" and m: "map_of (kw_groups w) (group_entry a) \<noteq> None" for a
  proof -
    have "group_at w0 a \<noteq> None" using m assms(2) by (cases "a = aid") (auto simp: cleared_def group_at_def)
    then have "recorded (kw_records w0) a \<noteq> None" using assms(1) v by (auto simp: node_ok_def ledger_ok_def group_at_def)
    moreover have "kw_records w = kw_records w0 \<or> kw_records w = AList.delete aid (kw_records w0) \<and> a \<noteq> aid"
      using m assms(2) by (auto simp: cleared_def group_at_def)
    ultimately show ?thesis by auto
  qed
  ultimately show ?thesis using assms by (auto simp: node_ok_def ledger_ok_def cleared_def)
qed

lemma cleared_others:
  "cleared aid w0 w \<Longrightarrow> a \<noteq> aid \<Longrightarrow> group_at w a = group_at w0 a \<and> recorded (kw_records w) a = recorded (kw_records w0) a"
  by (auto simp: cleared_def)

lemma cleared_put:
  assumes "cleared aid w0 w" and "group_at w aid = Some nd"
  shows "cleared aid w0 (put_group aid n w)"
proof -
  have "map fst (kw_groups (put_group aid n w)) = map fst (kw_groups w)" using put_group_keys [OF assms(2)] .
  moreover have "count_entries gs = length (filter (prefix group_prefix) (map fst gs))" for gs
    by (induction gs) (auto simp: count_entries_def)
  ultimately have "count_entries (kw_groups (put_group aid n w)) = count_entries (kw_groups w)" by metis
  then show ?thesis using assms by (simp add: cleared_def group_at_put)
qed

lemma cleared_drop: "cleared aid w0 w \<Longrightarrow> cleared aid w0 (drop_group aid w) \<and> group_at (drop_group aid w) aid = None"
  using count_entries_delete [of "group_entry aid" "kw_groups w"]
  by (auto simp: cleared_def drop_group_def group_at_def delete_conv')

text \<open>And in a release no process has left its cgroup: a process in a cgroup of any allocation is in it still.\<close>

definition lives :: "string \<Rightarrow> string list \<Rightarrow> string \<Rightarrow> kworld \<Rightarrow> bool" where
  "lives a path pid w \<longleftrightarrow> (\<exists>nd s. group_at w a = Some nd \<and> map_of (gn_tree nd) path = Some s \<and> pid \<in> set s)"

definition let_go :: "string \<Rightarrow> kworld \<Rightarrow> kworld \<Rightarrow> bool" where
  "let_go aid w0 w \<longleftrightarrow> cleared aid w0 w \<and> (\<forall>a path pid. lives a path pid w0 \<longrightarrow> lives a path pid w)"

lemma let_go_refl: "let_go aid w w"
  by (simp add: let_go_def cleared_refl)

lemma let_go_cleared: "let_go aid w0 w \<Longrightarrow> cleared aid w0 w"
  by (simp add: let_go_def)

lemma let_go_still: "let_go aid w0 w \<Longrightarrow> still w' = still w \<Longrightarrow> let_go aid w0 w'"
  using still_view [of w' w] by (auto simp: let_go_def lives_def intro: cleared_still)

lemma let_go_quiet: "quiet still m \<Longrightarrow> triple (let_go aid w0) m (\<lambda>_. let_go aid w0) (\<lambda>_. let_go aid w0)"
  by (erule quiet_still_triple) (rule let_go_still)

lemma let_go_put:
  assumes "let_go aid w0 w" and "group_at w aid = Some nd" and "map_of (gn_tree nd) path = Some []"
  shows "let_go aid w0 (put_group aid (nd\<lparr>gn_tree := AList.delete path (gn_tree nd)\<rparr>) w)"
proof -
  have "lives a p pid w \<Longrightarrow> lives a p pid (put_group aid (nd\<lparr>gn_tree := AList.delete path (gn_tree nd)\<rparr>) w)" for a p pid
    using assms(2,3) by (auto simp: lives_def group_at_put delete_conv')
  with assms(1) cleared_put [OF _ assms(2)] show ?thesis by (auto simp: let_go_def)
qed

text \<open>A cgroup that the kernel lets go has no process, and none below it has one.\<close>

lemma let_go_drop:
  assumes "let_go aid w0 w" and "group_at w aid = Some nd" and "map_of (gn_tree nd) [] = Some []"
    and "\<not> list_ex (\<lambda>(p, _). strict_prefix [] p) (gn_tree nd)"
  shows "let_go aid w0 (drop_group aid w) \<and> group_at (drop_group aid w) aid = None"
proof -
  have "path = []" if "map_of (gn_tree nd) path = Some s" for path s
    using assms(4) map_of_SomeD [OF that] by (cases path) (auto simp: list_ex_iff strict_prefix_def)
  with assms(2,3) have "\<not> lives aid path pid w" for path pid by (fastforce simp: lives_def)
  then have "lives a path pid w \<Longrightarrow> lives a path pid (drop_group aid w)" for a path pid
    by (cases "a = aid") (auto simp: lives_def drop_group_def group_at_def delete_conv')
  with assms(1) cleared_drop [of aid w0 w] show ?thesis by (simp add: let_go_def)
qed

lemma rmdir_let_go:
  "triple (let_go aid w0) (rmdir_at aid path) (\<lambda>_ w. let_go aid w0 w \<and> (path = [] \<longrightarrow> group_at w aid = None)) (\<lambda>_. let_go aid w0)"
  unfolding rmdir_at_def
proof (rule triple_bind [OF let_go_quiet], simp, rule triple_bind [where Q = "\<lambda>n w. let_go aid w0 w \<and> n = group_at w aid"],
    simp add: triple_get, goal_cases)
  case (1 u n)
  show ?case
  proof (cases n)
    case (Some nd)
    show ?thesis
    proof (cases "map_of (gn_tree nd) path")
      case None
      then show ?thesis by (auto simp: Some intro!: triple_throw)
    next
      fix procs assume p: "map_of (gn_tree nd) path = Some procs"
      let ?P = "\<lambda>w. let_go aid w0 w \<and> Some nd = group_at w aid"
      let ?busy = "procs \<noteq> [] \<or> list_ex (\<lambda>(p, _). strict_prefix path p) (gn_tree nd)"
      have c: "triple ?P (whenE ?busy EBusy) (\<lambda>_ w. ?P w \<and> \<not> ?busy) (\<lambda>_. let_go aid w0)"
        by (rule triple_when) auto
      have u: "triple (\<lambda>w. ?P w \<and> \<not> ?busy)
          (updIO (if path = [] then drop_group aid else put_group aid (nd\<lparr>gn_tree := AList.delete path (gn_tree nd)\<rparr>)))
          (\<lambda>_ w. let_go aid w0 w \<and> (path = [] \<longrightarrow> group_at w aid = None)) (\<lambda>_. let_go aid w0)"
      proof (rule triple_upd)
        fix w assume w: "?P w \<and> \<not> ?busy"
        with p have e: "map_of (gn_tree nd) path = Some []" by simp
        show "let_go aid w0 ((if path = [] then drop_group aid else put_group aid (nd\<lparr>gn_tree := AList.delete path (gn_tree nd)\<rparr>)) w) \<and>
            (path = [] \<longrightarrow> group_at ((if path = [] then drop_group aid
              else put_group aid (nd\<lparr>gn_tree := AList.delete path (gn_tree nd)\<rparr>)) w) aid = None)"
          using w e let_go_drop [of aid w0 w nd] let_go_put [of aid w0 w nd path] by (cases "path = []") (simp_all add: eq_commute)
      qed
      show ?thesis unfolding Some p option.case by (rule triple_bind [OF c u])
    qed
  qed (auto intro!: triple_throw)
qed

lemma each_rmdir_let_go:
  "triple (let_go aid w0) (each (rmdir_at aid) (ps @ [[]])) (\<lambda>_ w. let_go aid w0 w \<and> group_at w aid = None) (\<lambda>_. let_go aid w0)"
proof (induction ps)
  case Nil
  show ?case unfolding append_Nil each.simps
    by (rule triple_bind [OF rmdir_let_go]) (auto intro!: triple_return)
next
  case (Cons p ps)
  show ?case unfolding append_Cons each.simps
    by (rule triple_bind [OF rmdir_let_go], rule triple_pre [OF Cons.IH]) simp
qed

lemma remove_record_let_go:
  "triple (\<lambda>w. let_go aid w0 w \<and> group_at w aid = None) (remove_record aid)
     (\<lambda>_ w. let_go aid w0 w \<and> group_at w aid = None \<and> recorded (kw_records w) aid = None) (\<lambda>_. let_go aid w0)"
proof -
  let ?P = "\<lambda>w. let_go aid w0 w \<and> group_at w aid = None"
  let ?Q = "\<lambda>w. let_go aid w0 w \<and> group_at w aid = None \<and> recorded (kw_records w) aid = None"
  have gone: "?P w'" if "still w' = still w" "?P w" for w w'
    using that(2) let_go_still [OF _ that(1)] same_core_group [OF still_same [OF that(1)], of aid] by simp
  have q: "triple ?P m (\<lambda>_. ?P) (\<lambda>_. let_go aid w0)" if "quiet still m" for m :: "unit kio"
    by (rule triple_post [OF quiet_still_triple [OF that gone]]) blast+
  have u: "?Q (drop_record aid w)" if "?P w" for w
    using that by (auto simp: let_go_def cleared_def drop_record_def group_at_def delete_idem lives_def)
  have left: "?Q w'" if "still w' = still w" "?Q w" for w w'
    using that gone [OF that(1)] still_same [OF that(1)] by (simp add: same_core_def)
  have k: "triple ?Q ksys (\<lambda>_. ?Q) (\<lambda>_. let_go aid w0)"
    by (rule triple_post [OF quiet_still_triple [OF quiet_still_steps(1) left]]) blast+
  show ?thesis unfolding remove_record_def
    by (rule triple_bind [OF q], simp, rule triple_bind [OF q], simp, rule triple_bind [OF q], simp,
        rule triple_bind [where Q = "\<lambda>_. ?Q"], rule triple_upd, erule u, rule k)
qed

section \<open>A round and the loop\<close>

text \<open>The processes of every cgroup of the allocation have left.\<close>

definition emptied :: "string \<Rightarrow> kworld \<Rightarrow> bool" where
  "emptied aid w \<longleftrightarrow> (\<exists>nd. group_at w aid = Some nd \<and> (\<forall>path \<in> set (walk_order nd). map_of (gn_tree nd) path = Some []))"

lemma quiet_still_walk_round [simp, intro]: "quiet still (walk_round aid worker paths b)"
  by (induction paths arbitrary: b) (auto intro!: quiet_bind)

lemma quiet_still_walk [simp, intro]: "quiet still (walk g aid worker)"
  unfolding walk_def by (intro quiet_bind quiet_unit quiet_still_check_limits quiet_still_reads quiet_still_walk_round)

lemma walk_round_free:
  "walk_round aid worker paths b w = (Inr False, w') \<Longrightarrow> group_at w aid = Some nd \<Longrightarrow>
     \<not> b \<and> (\<forall>path \<in> set paths. map_of (gn_tree nd) path = Some [])"
proof (induction paths arbitrary: b w)
  case (Cons p ps)
  obtain s w1 where r: "read_procs aid p w = (Inr s, w1)" and t: "walk_round aid worker ps (b \<or> s \<noteq> []) w1 = (Inr False, w')"
    using Cons.prems(1) by (auto simp: io_iffs)
  have "group_at w1 aid = Some nd" using Cons.prems(2) still_view [OF quiet_step [OF quiet_still_reads(1) r]] by metis
  from Cons.IH [OF t this] read_procs_Inr [OF r] Cons.prems(2) show ?case by auto
qed simp

lemma walk_Inr:
  assumes "walk g aid worker w = (Inr (paths, occupied), w')"
  shows "\<exists>nd. group_at w aid = Some nd \<and> paths = walk_order nd \<and> (\<not> occupied \<longrightarrow> emptied aid w)"
proof -
  obtain u w1 w2 where c: "check_limits g aid w = (Inr u, w1)" and t: "tree_paths aid w1 = (Inr paths, w2)"
    and r: "walk_round aid worker paths False w2 = (Inr occupied, w')"
    using assms by (auto simp: walk_def io_iffs split: sum.splits)
  have g1: "group_at w1 aid = group_at w aid" using still_view [OF quiet_step [OF quiet_still_check_limits c]] by blast
  have g2: "group_at w2 aid = group_at w1 aid" using still_view [OF quiet_step [OF quiet_still_reads(2) t]] by blast
  obtain nd where nd: "group_at w1 aid = Some nd" "paths = walk_order nd" using tree_paths_Inr [OF t] by blast
  then have "\<not> occupied \<longrightarrow> emptied aid w" using walk_round_free [of aid worker paths False w2 w' nd] r g1 g2 by (auto simp: emptied_def)
  with nd g1 show ?thesis by metis
qed

lemma remove_groups_let_go:
  "triple (let_go aid w0) (bindIO (remove_groups aid (walk_order nd)) (\<lambda>_. remove_record aid))
     (\<lambda>_ w. let_go aid w0 w \<and> group_at w aid = None \<and> recorded (kw_records w) aid = None) (\<lambda>_. let_go aid w0)"
  unfolding remove_groups_def walk_order_def rev.simps
  by (rule triple_bind [OF each_rmdir_let_go remove_record_let_go])

lemma release_round_cases:
  assumes "release_round g aid worker w = (x, w')"
  shows "let_go aid w w' \<and> (x = Waiting \<longrightarrow> still w' = still w) \<and>
     (x = Finished (Inr ()) \<longrightarrow> group_at w' aid = None \<and> recorded (kw_records w') aid = None \<and> emptied aid w)"
proof (cases "walk g aid worker w")
  case (Pair r w1)
  have s: "still w1 = still w" using quiet_step [OF quiet_still_walk Pair] .
  then have c: "let_go aid w w1" by (rule let_go_still [OF let_go_refl])
  show ?thesis
  proof (cases r)
    case (Inl e)
    then show ?thesis using assms Pair c by (auto simp: release_round_def)
  next
    case (Inr po)
    obtain paths occupied where po: "po = (paths, occupied)" by (cases po)
    obtain nd where nd: "paths = walk_order nd" "\<not> occupied \<longrightarrow> emptied aid w"
      using walk_Inr [of g aid worker w paths occupied w1] Pair Inr po by auto
    show ?thesis
    proof (cases occupied)
      case True
      then show ?thesis using assms Pair Inr po c s by (auto simp: release_round_def)
    next
      case False
      then obtain r2 where x: "x = Finished r2" "bindIO (remove_groups aid (walk_order nd)) (\<lambda>_. remove_record aid) w1 = (r2, w')"
        using assms Pair Inr po nd(1) by (auto simp: release_round_def split: prod.splits)
      with remove_groups_let_go [of aid w nd] c nd(2) False show ?thesis
        by (cases r2) (auto dest: triple_Inr triple_Inl)
    qed
  qed
qed

lemma release_loop_end:
  "release_loop env ended g aid worker n w = Some (res, w') \<Longrightarrow>
   \<exists>k. (\<forall>j < k. waits env g aid worker n w j) \<and> let_go aid (world_after env g aid worker n w k) w' \<and>
     (res = Inr () \<longrightarrow> group_at w' aid = None \<and> recorded (kw_records w') aid = None \<and>
        emptied aid (world_after env g aid worker n w k))"
proof (induction n w "(res, w')" rule: release_loop_induct)
  case (step loop env ended g aid worker n w)
  obtain x w1 where r: "release_round g aid worker w = (x, w1)" by (cases "release_round g aid worker w")
  note c = release_round_cases [OF r]
  show ?case
  proof (cases "x = Waiting \<and> \<not> ended n")
    case True
    then have "loop env ended g aid worker (Suc n) (env n w1) = Some (res, w')" using step(2) r by simp
    from step(1) [OF this] obtain k where k: "\<forall>j < k. waits env g aid worker (Suc n) (env n w1) j"
      "let_go aid (world_after env g aid worker (Suc n) (env n w1) k) w'"
      "res = Inr () \<longrightarrow> group_at w' aid = None \<and> recorded (kw_records w') aid = None \<and>
        emptied aid (world_after env g aid worker (Suc n) (env n w1) k)" by blast
    have "\<forall>j < Suc k. waits env g aid worker n w j"
    proof (intro allI impI)
      fix j assume "j < Suc k"
      then show "waits env g aid worker n w j" using k(1) True r by (cases j) (auto simp: waits_def)
    qed
    with k(2,3) r show ?thesis by (intro exI [of _ "Suc k"]) simp
  next
    case False
    then have "(res, w') = (case x of Finished f \<Rightarrow> (f, w1) | Waiting \<Rightarrow> (Inl ECanceled, w1))"
      using step(2) r by (cases x) (auto split: if_splits)
    then show ?thesis using c by (intro exI [of _ 0]) (cases x; auto)
  qed
qed

section \<open>Release as a whole\<close>

lemma world_after_keeps:
  assumes still: "\<And>v v'. still v' = still v \<Longrightarrow> I v \<Longrightarrow> I v'" and env: "\<And>n v. I v \<Longrightarrow> I (env n v)"
  shows "I w \<Longrightarrow> \<forall>j < k. waits env g aid worker n w j \<Longrightarrow> I (world_after env g aid worker n w k)"
proof (induction k arbitrary: n w)
  case (Suc k)
  obtain x w1 where r: "release_round g aid worker w = (x, w1)" by (cases "release_round g aid worker w")
  have "x = Waiting" using Suc.prems(2) r by (auto simp: waits_def dest: spec [of _ 0])
  then have "I w1" using still [of w1 w] Suc.prems(1) release_round_cases [OF r] by blast
  moreover have "\<forall>j < k. waits env g aid worker (Suc n) (env n w1) j"
  proof (intro allI impI)
    fix j assume "j < k"
    then show "waits env g aid worker (Suc n) (env n w1) j" using Suc.prems(2) r by (auto simp: waits_def dest: spec [of _ "Suc j"])
  qed
  ultimately show ?case using Suc.IH [of "env n w1" "Suc n"] env r by simp
qed simp

lemma quiet_still_release_start [simp, intro]: "quiet still (release_start g aid worker)"
  unfolding release_start_def
proof (rule quiet_bind, rule quiet_catch, rule quiet_still_read_record, rule quiet_bind)
  fix res :: "(kata_error, allocation) result"
  show "quiet still (case res of Inr r \<Rightarrow> whenE (al_worker r \<noteq> [] \<and> worker \<noteq> [] \<and> al_worker r \<noteq> worker) (EGuard OtherWorker)
      | Inl e \<Rightarrow> whenE (e \<noteq> ENotFound) e)"
    by (cases res) simp_all
qed (auto intro!: quiet_bind)

lemma release_start_Inr:
  assumes "release_start g aid worker w = (Inr present, w')"
  shows "still w' = still w \<and> present = (group_at w aid \<noteq> None)"
proof -
  have s: "still w' = still w" using quiet_step [OF quiet_still_release_start assms] .
  have "present = (group_at w' aid \<noteq> None)" using assms by (auto simp: release_start_def io_iffs)
  with s show ?thesis using still_view [OF s, of aid] by simp
qed

lemma release_unlocked_keeps:
  assumes c: "\<And>v v'. let_go aid v v' \<Longrightarrow> I v \<Longrightarrow> I v'" and env: "\<And>n v. I v \<Longrightarrow> I (env n v)" and w: "I w"
    and r: "release_unlocked env ended g aid worker w = Some (res, w')"
  shows "I w'"
proof -
  have still: "I v'" if "still v' = still v" "I v" for v v' using c [OF let_go_still [OF let_go_refl that(1)] that(2)] .
  obtain x w1 where s: "release_start g aid worker w = (x, w1)" by (cases "release_start g aid worker w")
  have w1: "I w1" using still [OF quiet_step [OF quiet_still_release_start s] w] .
  consider "w' = w1" | "release_loop env ended g aid worker 0 w1 = Some (res, w')"
    | "remove_record aid w1 = (res, w')" "group_at w1 aid = None"
  proof (cases x)
    case (Inr present)
    then have "present = (group_at w1 aid \<noteq> None)"
      using release_start_Inr [of g aid worker w present w1] s still_view [of w1 w aid] by simp
    with Inr r s that show ?thesis by (auto simp: release_unlocked_def split: if_splits)
  qed (use r s that in \<open>auto simp: release_unlocked_def\<close>)
  then show ?thesis
  proof cases
    case 2
    from release_loop_end [OF this] obtain k where k: "\<forall>j < k. waits env g aid worker 0 w1 j"
      "let_go aid (world_after env g aid worker 0 w1 k) w'" by blast
    have "I (world_after env g aid worker 0 w1 k)"
      by (rule world_after_keeps [where I = I]) (use still env w1 k(1) in blast)+
    with c k(2) show ?thesis by blast
  next
    case 3
    then have "let_go aid w1 w'" using remove_record_let_go [of aid w1] let_go_refl [of aid w1]
      by (cases res) (auto dest: triple_Inr triple_Inl)
    with c w1 show ?thesis by blast
  qed (use w1 in simp)
qed

lemma release_unlocked_done:
  assumes r: "release_unlocked env ended g aid worker w = Some (Inr (), w')"
  shows "group_at w' aid = None \<and> recorded (kw_records w') aid = None \<and>
    (group_at w aid = None \<or> (\<exists>v k. still v = still w \<and> emptied aid (world_after env g aid worker 0 v k)))"
proof -
  obtain present w1 where s: "release_start g aid worker w = (Inr present, w1)"
    using r by (auto simp: release_unlocked_def split: prod.splits sum.splits)
  have p: "still w1 = still w" "present = (group_at w aid \<noteq> None)" using release_start_Inr [OF s] by blast+
  show ?thesis
  proof (cases present)
    case True
    then have "release_loop env ended g aid worker 0 w1 = Some (Inr (), w')" using r s by (simp add: release_unlocked_def)
    from release_loop_end [OF this] p(1) show ?thesis by blast
  next
    case False
    then have "remove_record aid w1 = (Inr (), w')" using r s by (simp add: release_unlocked_def)
    moreover have "group_at w1 aid = None" using False p still_view [OF p(1), of aid] by simp
    ultimately show ?thesis using triple_Inr [OF remove_record_let_go [of aid w1]] let_go_refl [of aid w1] False p(2) by blast
  qed
qed

lemma release_unlocked_foreign:
  assumes ok: "node_ok g w" "kw_dir_trust w = None" and a: "recorded (kw_records w) aid = Some r0"
    and f: "al_worker r0 \<noteq> []" "worker \<noteq> []" "al_worker r0 \<noteq> worker"
  shows "\<exists>e w1. release_unlocked env ended g aid worker w = Some (Inl e, w1) \<and> still w1 = still w"
proof -
  have at: "at (kw_dir_trust w) (kw_host w) (kw_workers w) (kw_records w) (kw_groups w) w"
    and rok: "records_ok (kw_host w) g (kw_records w)" using ok(1) by (auto simp: at_def node_ok_def ledger_ok_def)
  obtain x w1 where s: "release_start g aid worker w = (x, w1)" by (cases "release_start g aid worker w")
  have "\<exists>e. x = Inl e"
  proof (cases x)
    case (Inr present)
    then obtain rr w2 where c: "read_record g aid w = (rr, w2)" and
      b: "case rr of Inr r \<Rightarrow> \<not> (al_worker r \<noteq> [] \<and> worker \<noteq> [] \<and> al_worker r \<noteq> worker) | Inl e \<Rightarrow> e = ENotFound"
      using s by (fastforce simp: release_start_def io_iffs split: sum.splits)
    show ?thesis
    proof (cases rr)
      case (Inl e)
      then show ?thesis using b c triple_Inl [OF read_record_triple [OF rok] at, of aid e w2] a ok(2) by simp
    next
      case (Inr r)
      with c have "recorded (kw_records w) aid = Some r" using triple_Inr [OF read_record_triple [OF rok] at] by blast
      with Inr b a f show ?thesis by simp
    qed
  qed simp
  with s quiet_step [OF quiet_still_release_start s] show ?thesis by (auto simp: release_unlocked_def)
qed

definition untouched :: "string \<Rightarrow> kworld \<Rightarrow> kworld \<Rightarrow> bool" where
  "untouched a w w' \<longleftrightarrow> group_at w' a = group_at w a \<and> recorded (kw_records w') a = recorded (kw_records w) a"

text \<open>C15: A release keeps the ledger invariant whatever fails and whatever the rest of the node does while
  it waits, as long as that keeps it too.  It touches no other allocation.  It neither kills nor moves a process: what
  the node reads of the processes stays as it is, and a process in a cgroup of any allocation, its own included, is
  in that cgroup still, unless what happens during a pause ends it.  It succeeds only with the allocation's cgroup and record both gone, and then either there was
  no cgroup to begin with or, after some pause, every cgroup of the allocation was empty.  A caller that
  names another worker than the record's changes nothing and gets an error.\<close>

theorem release_sound:
  assumes ok: "node_ok g w" and env: "\<And>n v. node_ok g v \<Longrightarrow> node_ok g (env n v)"
    and r: "release env ended g aid worker w = Some (res, w')"
  shows "node_ok g w' \<and>
    (\<forall>a. a \<noteq> aid \<and> (\<forall>n v. untouched a v (env n v)) \<longrightarrow> untouched a w w') \<and>
    ((\<forall>n v. kw_proc (env n v) = kw_proc v) \<longrightarrow> kw_proc w' = kw_proc w) \<and>
    (\<forall>a path pid. (\<forall>n v. lives a path pid v \<longrightarrow> lives a path pid (env n v)) \<longrightarrow> lives a path pid w \<longrightarrow> lives a path pid w') \<and>
    (res = Inr () \<longrightarrow> group_at w' aid = None \<and> recorded (kw_records w') aid = None \<and>
       (group_at w aid = None \<or> (\<exists>v k. still v = still w \<and> emptied aid (world_after env g aid worker 0 v k)))) \<and>
    (\<forall>r0. kw_dir_trust w = None \<and> recorded (kw_records w) aid = Some r0 \<and> al_worker r0 \<noteq> [] \<and> worker \<noteq> [] \<and>
       al_worker r0 \<noteq> worker \<longrightarrow> res \<noteq> Inr () \<and> still w' = still w)"
proof -
  obtain x w1 where a: "admission_lock w = (x, w1)" by (cases "admission_lock w")
  have s: "still w1 = still w" using quiet_step [OF quiet_still_admission_lock a] .
  have v: "group_at w1 a = group_at w a" "kw_proc w1 = kw_proc w" "kw_records w1 = kw_records w" "kw_dir_trust w1 = kw_dir_trust w" for a
    using still_view [OF s] still_same [OF s] by (auto simp: same_core_def)
  have l: "let_go aid w w1" using let_go_still [OF let_go_refl s] .
  then have c: "cleared aid w w1" by (rule let_go_cleared)
  show ?thesis
  proof (cases x)
    case (Inl e)
    then have "res = Inl e" "w' = w1" using r a by (auto simp: release_def)
    moreover have "lives a path pid w \<longrightarrow> lives a path pid w1" for a path pid using l by (simp add: let_go_def)
    ultimately show ?thesis using cleared_node_ok [OF ok c] v s by (simp add: untouched_def)
  next
    case (Inr u)
    then have u: "release_unlocked env ended g aid worker w1 = Some (res, w')" using r a by (simp add: release_def)
    have ok1: "node_ok g w1" by (rule cleared_node_ok [OF ok c])
    have keep: "I w'" if "\<And>v v'. let_go aid v v' \<Longrightarrow> I v \<Longrightarrow> I v'" "\<And>n v. I v \<Longrightarrow> I (env n v)" "I w1" for I
      using release_unlocked_keeps [of aid I env w1 ended g worker res w'] that u by blast
    have 1: "node_ok g w'" by (rule keep) (use cleared_node_ok let_go_cleared env ok1 in blast)+
    have 2: "untouched a w w'" if "a \<noteq> aid" "\<forall>n v. untouched a v (env n v)" for a
      by (rule keep [of "untouched a w"]) (use that cleared_others [OF let_go_cleared] v in \<open>auto simp: untouched_def\<close>)
    have 3: "kw_proc w' = kw_proc w" if "\<forall>n v. kw_proc (env n v) = kw_proc v"
      by (rule keep [of "\<lambda>v. kw_proc v = kw_proc w"]) (use that v in \<open>auto simp: let_go_def cleared_def\<close>)
    have 4: "group_at w' aid = None \<and> recorded (kw_records w') aid = None \<and>
       (group_at w aid = None \<or> (\<exists>v k. still v = still w \<and> emptied aid (world_after env g aid worker 0 v k)))" if "res = Inr ()"
      using release_unlocked_done [of env ended g aid worker w1 w'] u that s v(1) by metis
    have 5: "res \<noteq> Inr () \<and> still w' = still w"
      if "kw_dir_trust w = None" "recorded (kw_records w) aid = Some r0" "al_worker r0 \<noteq> []" "worker \<noteq> []" "al_worker r0 \<noteq> worker" for r0
      using release_unlocked_foreign [of g w1 aid r0 worker env ended] ok1 that u v s by auto
    have 6: "lives a path pid w'" if "\<forall>n v. lives a path pid v \<longrightarrow> lives a path pid (env n v)" "lives a path pid w" for a path pid
      by (rule keep [of "lives a path pid"]) (use that l in \<open>auto simp: let_go_def\<close>)
    show ?thesis using 1 2 3 4 5 6 by (intro conjI) blast+
  qed
qed

text \<open>A sample: the worker's shim exits during the first pause, and the release then finds the group empty.\<close>

definition all_exit :: "nat \<Rightarrow> kworld \<Rightarrow> kworld" where
  "all_exit n w = w\<lparr>kw_groups := map (\<lambda>(k, nd). (k, nd\<lparr>gn_tree := map (\<lambda>(p, s). (p, [])) (gn_tree nd)\<rparr>)) (kw_groups w)\<rparr>"

lemma all_exit_ok: "node_ok g w \<Longrightarrow> node_ok g (all_exit n w)"
proof -
  have keys: "map fst (kw_groups (all_exit n w)) = map fst (kw_groups w)" by (induction "kw_groups w") (auto simp: all_exit_def)
  have "map_of (kw_groups (all_exit n w)) k = None \<longleftrightarrow> map_of (kw_groups w) k = None" for k
    using keys by (metis map_of_eq_None_iff set_map)
  moreover have "count_entries gs = length (filter (prefix group_prefix) (map fst gs))" for gs
    by (induction gs) (auto simp: count_entries_def)
  then have "count_entries (kw_groups (all_exit n w)) = count_entries (kw_groups w)" using keys by metis
  moreover have "kw_host (all_exit n w) = kw_host w" "kw_now (all_exit n w) = kw_now w" "kw_records (all_exit n w) = kw_records w"
    by (simp_all add: all_exit_def)
  ultimately show "node_ok g w \<Longrightarrow> node_ok g (all_exit n w)" by (simp only: node_ok_def ledger_ok_def) blast
qed

text \<open>The sample allocation with no process left, in any world.\<close>

definition sample_emptied :: "allocation \<Rightarrow> kworld \<Rightarrow> bool" where
  "sample_emptied r w \<longleftrightarrow> kw_host w = sample_node \<and> kw_faults w = [] \<and> kw_dir_made w \<and> kw_dir_trust w = None \<and>
     kw_records w = [(sample_aid, own_record r)] \<and> kw_groups w = [(group_entry sample_aid, sample_killed)] \<and> sample_allocation r"

lemma no_faults: "kw_faults w = [] \<Longrightarrow> ksys w = (Inr (), w)" "kw_faults w = [] \<Longrightarrow> kw_dir_made w \<Longrightarrow> kw_dir_trust w = None \<Longrightarrow> record_dir w = (Inr (), w)"
  by (simp_all add: ksys_def record_dir_def bindIO_def)

lemma sample_killed_simps: "gn_files sample_killed = gn_files sample_group" "gn_tree sample_killed = [([], []), (sample_sandbox, [])]"
  by (simp_all add: sample_killed_def)

lemma sample_emptied_read:
  assumes "sample_emptied r w"
  shows "read_record sample_guard sample_aid w = (Inr r, w)"
  using assms by (simp add: sample_emptied_def read_record_def bindIO_def no_faults sample_ids own_record_def sample_allocation_def)

lemma sample_emptied_check:
  assumes e: "sample_emptied r w"
  shows "check_limits sample_guard sample_aid w = (Inr (), w)"
proof -
  have g: "group_at w sample_aid = Some sample_killed" "ksys w = (Inr (), w)"
    using e by (simp_all add: sample_emptied_def group_at_def no_faults)
  have "check_limit sample_aid x w = (Inr (), w)" if m: "x \<in> set sample_limits" for x
  proof -
    obtain n v where x: "x = (n, v)" by (cases x)
    have "map_of (gn_files sample_group) n = Some v"
      using m x by (auto simp: sample_group_def sample_group_limits sample_limits_def)
    moreover have "trim_space v = v" using m x sample_limits_trimmed by (auto simp: list_all_iff)
    ultimately show ?thesis using g by (simp add: x check_limit_def read_control_def bindIO_def sample_killed_simps)
  qed
  then have "each (check_limit sample_aid) sample_limits w = (Inr (), w)" by (rule each_same)
  then show ?thesis using e
    by (simp add: check_limits_def bindIO_def sample_emptied_read [OF e] sample_emptied_def sample_allocation_def
        sample_wide_profile sample_group_limits)
qed

lemma sample_emptied_round:
  assumes e: "sample_emptied r w"
  shows "fst (release_round sample_guard sample_aid sample_worker w) = Finished (Inr ())"
proof -
  have g: "group_at w sample_aid = Some sample_killed" and k: "kw_faults w = []" "kw_dir_made w" "kw_dir_trust w = None"
    using e by (simp_all add: sample_emptied_def group_at_def)
  obtain p where p: "group_path sample_guard sample_aid = Inr p" using sample_group_path by blast
  have o: "walk_order sample_killed = [[], sample_sandbox]" "sample_sandbox \<noteq> []"
    by (simp_all add: walk_order_def sample_killed_simps sample_sandbox_def)
  have "walk sample_guard sample_aid sample_worker w = (Inr ([[], sample_sandbox], False), w)"
    using g k o by (simp add: walk_def bindIO_def p sample_emptied_check [OF e] tree_paths_def read_procs_def no_faults sample_known
        sample_killed_simps)
  moreover have "fst (bindIO (remove_groups sample_aid [[], sample_sandbox]) (\<lambda>_. remove_record sample_aid) w) = Inr ()"
    using g k o by (simp add: remove_groups_def rmdir_at_def bindIO_def no_faults sample_killed_simps remove_record_def sample_ids
        group_at_put put_group_def drop_group_def drop_record_def group_at_def update_conv')
  ultimately show ?thesis by (auto simp: release_round_def split: prod.split)
qed

lemma sample_second_round:
  "fst (release_round sample_guard sample_aid sample_worker (all_exit 0 sample_running)) = Finished (Inr ())"
proof (rule sample_emptied_round)
  have "gn_tree sample_group = [([], []), (sample_sandbox, [''77''])]" by (simp add: sample_group_def)
  then show "sample_emptied sample_reservation (all_exit 0 sample_running)"
    using sample_states(1) by (simp add: sample_emptied_def sample_state_def all_exit_def sample_killed_def)
qed

theorem release_sound_witness:
  "\<exists>w'. release all_exit (\<lambda>_. False) sample_guard sample_aid sample_worker sample_running = Some (Inr (), w') \<and>
     node_ok sample_guard w' \<and> group_at w' sample_aid = None \<and> recorded (kw_records w') sample_aid = None"
proof -
  let ?release = "release all_exit (\<lambda>_. False) sample_guard sample_aid sample_worker sample_running"
  note st = sample_steps [OF sample_states(1)]
  obtain w' where w': "release_round sample_guard sample_aid sample_worker (all_exit 0 sample_running) = (Finished (Inr ()), w')"
    using sample_second_round by (metis prod.collapse)
  have "release_start sample_guard sample_aid sample_worker sample_running = (Inr True, sample_running)"
    using sample_group_path st
    by (auto simp: release_start_def catchIO_def bindIO_def sample_read [OF sample_states(1)] sample_profile_name)
  then have r: "?release = Some (Inr (), w')"
    using sample_waits [OF sample_states(1)] w'
    by (simp add: release_def release_unlocked_def st release_loop.simps)
  from release_sound [OF sample_running_ok all_exit_ok r] r show ?thesis by blast
qed

section \<open>When a release returns\<close>

text \<open>An operation that leaves the whole world as it is when no call fails.\<close>

definition calm :: "kworld \<Rightarrow> bool" where
  "calm w \<longleftrightarrow> kw_faults w = [] \<and> kw_dir_made w \<and> kw_dir_trust w = None"

definition inert :: "'a kio \<Rightarrow> bool" where
  "inert m \<longleftrightarrow> (\<forall>w. calm w \<longrightarrow> snd (m w) = w)"

lemma inert_unit [simp, intro]: "inert (returnIO x)" "inert (throwIO e)" "inert (liftE r)" "inert (getIO f)" "inert (whenE b e)"
    "inert (Pair y)"
  by (auto simp: inert_def whenE_def)

lemma inert_bind: "inert m \<Longrightarrow> (\<And>x. inert (f x)) \<Longrightarrow> inert (bindIO m f)"
  by (auto simp: inert_def bindIO_def split: prod.split sum.split)

lemma calm_ksys: "calm w \<Longrightarrow> ksys w = (Inr (), w)"
  by (simp add: calm_def no_faults)

lemma calm_record_dir: "calm w \<Longrightarrow> record_dir w = (Inr (), w)"
  by (simp add: calm_def no_faults)

lemma inert_ksys [simp, intro]: "inert ksys" "inert record_dir"
  by (simp_all add: inert_def calm_ksys calm_record_dir)

lemma inert_reads [simp, intro]: "inert (read_record g aid)" "inert (read_control aid n)" "inert (check_limit aid x)"
    "inert (tree_paths aid)" "inert (read_procs aid path)"
  unfolding read_record_def read_control_def check_limit_def tree_paths_def read_procs_def
  by (auto intro!: inert_bind split: option.split prod.split)

lemma inert_check_limits [simp, intro]: "inert (check_limits g aid)"
proof -
  have e: "inert (each (check_limit aid) xs)" for xs by (induction xs) (auto intro!: inert_bind)
  show ?thesis unfolding check_limits_def by (rule inert_bind) (simp_all add: e)
qed

lemma inert_same: "inert m \<Longrightarrow> calm w \<Longrightarrow> m w = (fst (m w), w)"
  by (metis inert_def prod.collapse)

text \<open>What the rest of the node does, pause after pause, to an allocation that is only waited for.\<close>

primrec course :: "(nat \<Rightarrow> kworld \<Rightarrow> kworld) \<Rightarrow> kworld \<Rightarrow> nat \<Rightarrow> kworld" where
  "course env w 0 = w"
| "course env w (Suc n) = env n (course env w n)"

text \<open>Some process is in a cgroup of the allocation.\<close>

definition occupied_by :: "string \<Rightarrow> kworld \<Rightarrow> bool" where
  "occupied_by aid w \<longleftrightarrow> (\<exists>path pid. lives aid path pid w)"

text \<open>
  Nothing stands in the way of the release: no call fails, the limits are those of the record, and the
  allocation has its cgroup, with only cgroups below it that the worker's runtime makes, each listed once and
  after those it is in.
\<close>

definition undisturbed :: "guard \<Rightarrow> string \<Rightarrow> string \<Rightarrow> kworld \<Rightarrow> bool" where
  "undisturbed g aid worker w \<longleftrightarrow> calm w \<and> fst (check_limits g aid w) = Inr () \<and>
     (\<exists>nd. group_at w aid = Some nd \<and> distinct (map fst (gn_tree nd)) \<and> map_of (gn_tree nd) [] \<noteq> None \<and>
        list_all (\<lambda>(p, s). known_group worker p) (gn_tree nd) \<and>
        sorted_wrt (\<lambda>(p, s) (q, t). \<not> strict_prefix q p) (gn_tree nd))"

lemma undisturbed_tree:
  "undisturbed g aid worker w \<Longrightarrow> \<exists>nd. group_at w aid = Some nd \<and> distinct (map fst (gn_tree nd)) \<and> map_of (gn_tree nd) [] \<noteq> None \<and>
     list_all (\<lambda>(p, s). known_group worker p) (gn_tree nd) \<and> sorted_wrt (\<lambda>(p, s) (q, t). \<not> strict_prefix q p) (gn_tree nd)"
  unfolding undisturbed_def by blast

lemma undisturbed_calm: "undisturbed g aid worker w \<Longrightarrow> calm w \<and> fst (check_limits g aid w) = Inr ()"
  by (simp add: undisturbed_def)

lemma lives_tree:
  assumes "group_at w aid = Some nd" and "distinct (map fst (gn_tree nd))"
  shows "occupied_by aid w \<longleftrightarrow> (\<exists>(p, s) \<in> set (gn_tree nd). s \<noteq> [])"
proof
  assume "occupied_by aid w"
  then obtain path pid s where "map_of (gn_tree nd) path = Some s" "pid \<in> set s" using assms(1) by (auto simp: occupied_by_def lives_def)
  then have "(path, s) \<in> set (gn_tree nd)" "s \<noteq> []" by (auto dest: map_of_SomeD)
  then show "\<exists>(p, s) \<in> set (gn_tree nd). s \<noteq> []" by blast
next
  assume "\<exists>(p, s) \<in> set (gn_tree nd). s \<noteq> []"
  then obtain p s where "(p, s) \<in> set (gn_tree nd)" "s \<noteq> []" by blast
  then have "map_of (gn_tree nd) p = Some s" "hd s \<in> set s" using assms(2) by simp_all
  with assms(1) show "occupied_by aid w" unfolding occupied_by_def lives_def by blast
qed

lemma read_procs_calm: "calm w \<Longrightarrow> group_at w aid = Some nd \<Longrightarrow> map_of (gn_tree nd) p = Some s \<Longrightarrow> read_procs aid p w = (Inr s, w)"
  by (simp add: read_procs_def bindIO_def calm_ksys)

lemma walk_round_calm:
  assumes "calm w" and "group_at w aid = Some nd"
  shows "\<forall>p \<in> set ps. known_group worker p \<and> map_of (gn_tree nd) p \<noteq> None \<Longrightarrow>
    walk_round aid worker ps b w = (Inr (b \<or> (\<exists>p \<in> set ps. map_of (gn_tree nd) p \<noteq> Some [])), w)"
proof (induction ps arbitrary: b)
  case (Cons p ps)
  then obtain s where s: "map_of (gn_tree nd) p = Some s" "known_group worker p" by auto
  have "walk_round aid worker (p # ps) b w = walk_round aid worker ps (b \<or> s \<noteq> []) w"
    using s(2) read_procs_calm [OF assms s(1)] by (simp add: bindIO_def)
  moreover have "walk_round aid worker ps (b \<or> s \<noteq> []) w = (Inr ((b \<or> s \<noteq> []) \<or> (\<exists>p \<in> set ps. map_of (gn_tree nd) p \<noteq> Some [])), w)"
    using Cons by simp
  ultimately show ?case using s(1) by simp
qed simp

lemma walk_calm:
  assumes u: "undisturbed g aid worker w" and nd: "group_at w aid = Some nd"
  shows "walk g aid worker w = (Inr (walk_order nd, occupied_by aid w), w)"
proof -
  from u nd have c: "calm w" and l: "fst (check_limits g aid w) = Inr ()" and d: "distinct (map fst (gn_tree nd))"
    and r: "map_of (gn_tree nd) [] \<noteq> None" and k: "list_all (\<lambda>(p, s). known_group worker p) (gn_tree nd)"
    by (auto simp: undisturbed_def)
  have l: "check_limits g aid w = (Inr (), w)" using inert_same [OF inert_check_limits c] l by metis
  then obtain rec v where "read_record g aid w = (Inr rec, v)" by (auto simp: check_limits_def io_iffs)
  then have "valid_allocation aid" by (auto simp: KataLedger.read_record_def io_iffs)
  then obtain q where q: "group_path g aid = Inr q" by (auto simp: group_path_def)
  have "known_group worker p \<and> map_of (gn_tree nd) p \<noteq> None" if "p \<in> set (walk_order nd)" for p
    using that k r by (cases "p = []") (auto simp: walk_order_def list_all_iff known_group_def map_of_eq_None_iff)
  then have w: "walk_round aid worker (walk_order nd) False w = (Inr (\<exists>p \<in> set (walk_order nd). map_of (gn_tree nd) p \<noteq> Some []), w)"
    using walk_round_calm [OF c nd, of "walk_order nd" worker False] by simp
  have "(\<exists>p \<in> set (walk_order nd). map_of (gn_tree nd) p \<noteq> Some []) \<longleftrightarrow> occupied_by aid w"
    unfolding lives_tree [OF nd d]
  proof
    assume "\<exists>p \<in> set (walk_order nd). map_of (gn_tree nd) p \<noteq> Some []"
    then obtain p where "p \<in> set (walk_order nd)" "map_of (gn_tree nd) p \<noteq> Some []" by blast
    moreover from this(1) r have "map_of (gn_tree nd) p \<noteq> None" by (auto simp: walk_order_def map_of_eq_None_iff)
    ultimately show "\<exists>(p, s) \<in> set (gn_tree nd). s \<noteq> []" by (force dest: map_of_SomeD)
  next
    assume "\<exists>(p, s) \<in> set (gn_tree nd). s \<noteq> []"
    then obtain p s where "(p, s) \<in> set (gn_tree nd)" "s \<noteq> []" by blast
    moreover from this(1) have "p \<in> set (walk_order nd)" by (force simp: walk_order_def)
    moreover have "map_of (gn_tree nd) p = Some s" using d \<open>(p, s) \<in> set (gn_tree nd)\<close> by simp
    ultimately show "\<exists>p \<in> set (walk_order nd). map_of (gn_tree nd) p \<noteq> Some []" by (intro bexI [of _ p]) simp_all
  qed
  with w nd c q l show ?thesis by (simp add: walk_def bindIO_def tree_paths_def calm_ksys)
qed

text \<open>Emptied cgroups are removed one by one, those below first.\<close>

lemma delete_append: "AList.delete p (xs @ [(p, s)]) = AList.delete p xs"
  by (induction xs) auto

lemma rmdir_below:
  assumes "calm w" and "group_at w aid = Some nd" and "gn_tree nd = xs @ [(p, [])]" and "p \<noteq> []"
    and "distinct (map fst (gn_tree nd))" and "sorted_wrt (\<lambda>(p, s) (q, t). \<not> strict_prefix q p) (gn_tree nd)"
  shows "rmdir_at aid p w = (Inr (), put_group aid (nd\<lparr>gn_tree := xs\<rparr>) w)"
proof -
  have n: "p \<notin> fst ` set xs" using assms(3,5) by auto
  then have "map_of (gn_tree nd) p = Some []" "AList.delete p (gn_tree nd) = xs"
    using assms(3) delete_append [of p xs] map_of_eq_None_iff [of xs p] by (simp_all add: map_add_def)
  moreover have "\<not> list_ex (\<lambda>(q, _). strict_prefix p q) (gn_tree nd)"
    using assms(3,6) by (auto simp: list_ex_iff sorted_wrt_append)
  ultimately show ?thesis using assms(1,2,4) by (simp add: rmdir_at_def bindIO_def calm_ksys whenE_def)
qed

lemma remove_rest:
  "calm w \<Longrightarrow> group_at w aid = Some nd \<Longrightarrow> gn_tree nd = ([], []) # rest \<Longrightarrow> \<forall>(p, s) \<in> set rest. s = [] \<Longrightarrow>
   distinct (map fst (gn_tree nd)) \<Longrightarrow> sorted_wrt (\<lambda>(p, s) (q, t). \<not> strict_prefix q p) (gn_tree nd) \<Longrightarrow>
   \<exists>w'. each (rmdir_at aid) (rev (map fst rest)) w = (Inr (), w') \<and> calm w' \<and> group_at w' aid = Some (nd\<lparr>gn_tree := [([], [])]\<rparr>)"
proof (induction rest arbitrary: nd w rule: rev_induct)
  case Nil
  then have "nd\<lparr>gn_tree := [([], [])]\<rparr> = nd" by (cases nd) simp
  with Nil show ?case by simp
next
  case (snoc x xs)
  obtain p where x: "x = (p, [])" using snoc.prems(4) by (cases x) auto
  let ?nd = "nd\<lparr>gn_tree := ([], []) # xs\<rparr>" and ?w = "put_group aid (nd\<lparr>gn_tree := ([], []) # xs\<rparr>) w"
  have "gn_tree nd = (([], []) # xs) @ [(p, [])]" "p \<noteq> []" using snoc.prems(3,5) x by auto
  then have r: "rmdir_at aid p w = (Inr (), ?w)" using rmdir_below snoc.prems(1,2,5,6) by blast
  have "calm ?w" "group_at ?w aid = Some ?nd" using snoc.prems(1,2) by (simp_all add: calm_def put_group_def group_at_def update_conv')
  moreover have "\<forall>(p, s) \<in> set xs. s = []" "distinct (map fst (gn_tree ?nd))" "sorted_wrt (\<lambda>(p, s) (q, t). \<not> strict_prefix q p) (gn_tree ?nd)"
    using snoc.prems(3-6) x by (auto simp: sorted_wrt_append)
  ultimately obtain w' where "each (rmdir_at aid) (rev (map fst xs)) ?w = (Inr (), w')" "calm w'"
    "group_at w' aid = Some (?nd\<lparr>gn_tree := [([], [])]\<rparr>)" using snoc.IH [of ?w ?nd] by auto
  with r x show ?case by (simp add: bindIO_def)
qed

lemma root_first:
  assumes "distinct (map fst t)" and "map_of t [] \<noteq> None" and "sorted_wrt (\<lambda>(p, s) (q, u). \<not> strict_prefix q p) t"
  shows "\<exists>s rest. t = ([], s) # rest \<and> [] \<notin> fst ` set rest"
proof (cases t)
  case (Cons x rest)
  obtain p s where x: "x = (p, s)" by (cases x)
  have "p = []"
  proof (rule ccontr)
    assume "p \<noteq> []"
    with assms(2) Cons x obtain u where "([], u) \<in> set rest" by (auto dest: map_of_SomeD)
    with assms(3) Cons x \<open>p \<noteq> []\<close> show False by (auto simp: strict_prefix_def)
  qed
  with Cons x assms(1) show ?thesis by auto
qed (use assms(2) in simp)

lemma each_append: "each f (xs @ ys) = bindIO (each f xs) (\<lambda>_. each f ys)"
  by (induction xs) (auto simp: bindIO_def fun_eq_iff split: prod.split sum.split)

lemma empty_round:
  assumes u: "undisturbed g aid worker w" and e: "\<not> occupied_by aid w"
  shows "\<exists>w'. release_round g aid worker w = (Finished (Inr ()), w')"
proof -
  obtain nd where nd: "group_at w aid = Some nd" "distinct (map fst (gn_tree nd))" "map_of (gn_tree nd) [] \<noteq> None"
    "sorted_wrt (\<lambda>(p, s) (q, t). \<not> strict_prefix q p) (gn_tree nd)" using undisturbed_tree [OF u] by blast
  have c: "calm w" and l: "fst (check_limits g aid w) = Inr ()" using undisturbed_calm [OF u] by simp_all
  have v: "valid_allocation aid"
    using l inert_same [OF inert_check_limits c, of g aid] by (auto simp: check_limits_def KataLedger.read_record_def io_iffs)
  obtain s rest where t: "gn_tree nd = ([], s) # rest" "[] \<notin> fst ` set rest" using root_first [OF nd(2,3,4)] by blast
  have "\<forall>(p, s) \<in> set (gn_tree nd). s = []" using e lives_tree [OF nd(1,2)] by blast
  with t have k: "gn_tree nd = ([], []) # rest" "\<forall>(p, s) \<in> set rest. s = []" by auto
  have o: "walk_order nd = [] # map fst rest" using t by (auto simp: walk_order_def intro!: filter_True)
  obtain w1 where w1: "each (rmdir_at aid) (rev (map fst rest)) w = (Inr (), w1)" "calm w1" "group_at w1 aid = Some (nd\<lparr>gn_tree := [([], [])]\<rparr>)"
    using remove_rest [OF c nd(1) k nd(2,4)] by blast
  have "rmdir_at aid [] w1 = (Inr (), drop_group aid w1)"
    using w1(2,3) by (simp add: rmdir_at_def bindIO_def calm_ksys)
  then have g: "remove_groups aid (walk_order nd) w = (Inr (), drop_group aid w1)"
    using w1(1) o by (simp add: remove_groups_def each_append bindIO_def)
  have d: "calm (drop_group aid w1)" "calm (drop_record aid (drop_group aid w1))"
    using w1(2) by (simp_all add: calm_def drop_group_def drop_record_def)
  then have "remove_record aid (drop_group aid w1) = (Inr (), drop_record aid (drop_group aid w1))"
    using v by (simp add: remove_record_def bindIO_def calm_ksys calm_record_dir)
  with g e walk_calm [OF u nd(1)] show ?thesis by (simp add: release_round_def bindIO_def)
qed

lemma occupied_round: "undisturbed g aid worker w \<Longrightarrow> occupied_by aid w \<Longrightarrow> release_round g aid worker w = (Waiting, w)"
  using walk_calm [of g aid worker w] undisturbed_tree [of g aid worker w] by (auto simp: release_round_def)

lemma loop_course:
  "\<forall>j < k. undisturbed g aid worker (course env w j) \<and> occupied_by aid (course env w j) \<and> \<not> ended j \<Longrightarrow>
   release_loop env ended g aid worker 0 w = release_loop env ended g aid worker k (course env w k)"
proof (induction k)
  case (Suc k)
  then have "release_round g aid worker (course env w k) = (Waiting, course env w k)" "\<not> ended k" by (simp_all add: occupied_round)
  then have "release_loop env ended g aid worker k (course env w k) = release_loop env ended g aid worker (Suc k) (course env w (Suc k))"
    by (subst release_loop.simps) simp
  with Suc show ?case by simp
qed simp

lemma loop_forever:
  assumes "\<And>n. undisturbed g aid worker (course env w n) \<and> occupied_by aid (course env w n) \<and> \<not> ended n"
  shows "release_loop env ended g aid worker n (course env w n) = None"
proof -
  have "release_loop e d a b c n v = Some y \<Longrightarrow> e = env \<Longrightarrow> d = ended \<Longrightarrow> a = g \<Longrightarrow> b = aid \<Longrightarrow> c = worker \<Longrightarrow> v = course env w n \<Longrightarrow> False"
    for e d a b c n v y
  proof (induction rule: release_loop_induct)
    case (step loop e d a b c n v y)
    have "release_round g aid worker (course env w n) = (Waiting, course env w n)" "\<not> ended n" using assms occupied_round by blast+
    then have "loop e d a b c (Suc n) (e n v) = Some y" using step(2-8) by simp
    from step(1) [OF this] step(3-8) show ?case by simp
  qed
  then show ?thesis by (metis not_None_eq)
qed

text \<open>C39: Waiting for an occupied allocation ends exactly when it should.  The record can be read and names no other worker than
  the caller.  Take what the rest of the node does during the pauses (\<open>course\<close>), in which no call fails and nothing else changes the allocation's limits or adds a foreign cgroup.  If the first
  moment at which no process is left in any cgroup of the allocation comes before the context ends, the release succeeds there and
  removes the cgroups and the record; if the context ends in a pause while there has always been a process, it
  returns the cancellation and has changed nothing itself; and if there is always a process and the context never ends, it never
  returns.\<close>

theorem release_returns:
  assumes calm: "\<And>n. undisturbed g aid worker (course env w n)" and start: "kw_ctx w = []" "kw_contended w = 0"
    and rd: "fst (read_record g aid w) = Inr r" "al_worker r = [] \<or> worker = [] \<or> al_worker r = worker"
  shows "(\<forall>k. (\<forall>j < k. occupied_by aid (course env w j) \<and> \<not> ended j) \<and> \<not> occupied_by aid (course env w k) \<longrightarrow>
      (\<exists>w'. release env ended g aid worker w = Some (Inr (), w') \<and> group_at w' aid = None \<and> recorded (kw_records w') aid = None)) \<and>
    (\<forall>k. (\<forall>j \<le> k. occupied_by aid (course env w j)) \<and> (\<forall>j < k. \<not> ended j) \<and> ended k \<longrightarrow>
      release env ended g aid worker w = Some (Inl ECanceled, course env w k)) \<and>
    ((\<forall>k. occupied_by aid (course env w k) \<and> \<not> ended k) \<longrightarrow> release env ended g aid worker w = None)"
proof -
  have u0: "undisturbed g aid worker w" using calm [of 0] by simp
  then have c: "calm w" and g: "group_at w aid \<noteq> None" and l: "fst (check_limits g aid w) = Inr ()" by (auto simp: undisturbed_def)
  have rw: "read_record g aid w = (Inr r, w)" using inert_same [OF inert_reads(1) c] rd(1) by metis
  then have "valid_allocation aid" by (auto simp: KataLedger.read_record_def io_iffs)
  then obtain q where "group_path g aid = Inr q" by (auto simp: group_path_def)
  with rw rd(2) g have s: "release_start g aid worker w = (Inr True, w)" by (auto simp: release_start_def bindIO_def catchIO_def whenE_def)
  have e: "w\<lparr>kw_contended := 0\<rparr> = w" using start(2) by simp
  have "admission_lock w = (Inr (), w)"
    using c start by (simp add: admission_lock_def bindIO_def calm_ksys kctx_def kctx_ended_def e)
  then have r: "release env ended g aid worker w = release_loop env ended g aid worker 0 w"
    using s by (simp add: release_def release_unlocked_def)
  show ?thesis
  proof (intro conjI allI impI)
    fix k assume k: "(\<forall>j < k. occupied_by aid (course env w j) \<and> \<not> ended j) \<and> \<not> occupied_by aid (course env w k)"
    then obtain w' where w': "release_round g aid worker (course env w k) = (Finished (Inr ()), w')" using empty_round calm by blast
    then have "release_loop env ended g aid worker k (course env w k) = Some (Inr (), w')" by (subst release_loop.simps) simp
    then have "release env ended g aid worker w = Some (Inr (), w')" using r loop_course [of k g aid worker env w ended] calm k by simp
    with release_round_cases [OF w']
    show "\<exists>w'. release env ended g aid worker w = Some (Inr (), w') \<and> group_at w' aid = None \<and> recorded (kw_records w') aid = None"
      by blast
  next
    fix k assume k: "(\<forall>j \<le> k. occupied_by aid (course env w j)) \<and> (\<forall>j < k. \<not> ended j) \<and> ended k"
    then have "release_round g aid worker (course env w k) = (Waiting, course env w k)" using occupied_round calm by blast
    then have "release_loop env ended g aid worker k (course env w k) = Some (Inl ECanceled, course env w k)"
      using k by (subst release_loop.simps) simp
    then show "release env ended g aid worker w = Some (Inl ECanceled, course env w k)"
      using r loop_course [of k g aid worker env w ended] calm k by simp
  next
    assume "\<forall>k. occupied_by aid (course env w k) \<and> \<not> ended k"
    then show "release env ended g aid worker w = None" using r loop_forever [of g aid worker env w ended 0] calm by simp
  qed
qed

text \<open>The sample: the shim that exits during the first pause; one that never does, under a context that ends in the third
  pause and under one that never ends.\<close>

lemma sample_undisturbed:
  "undisturbed sample_guard sample_aid sample_worker sample_running"
  "undisturbed sample_guard sample_aid sample_worker (all_exit n sample_running)"
  "all_exit n (all_exit m sample_running) = all_exit m sample_running"
proof -
  have t: "gn_tree sample_group = [([], []), (sample_sandbox, [''77''])]" by (simp add: sample_group_def)
  then have e: "sample_emptied sample_reservation (all_exit 0 sample_running)"
    using sample_states(1) by (simp add: sample_emptied_def sample_state_def all_exit_def sample_killed_def)
  have a: "all_exit n w = all_exit 0 w" for n w by (simp add: all_exit_def)
  have k: "known_group sample_worker sample_sandbox" "known_group sample_worker []" "sample_sandbox \<noteq> []"
    using sample_known by (simp_all add: known_group_def sample_sandbox_def)
  show "undisturbed sample_guard sample_aid sample_worker sample_running"
    using sample_check [OF sample_states(1)] sample_states(1) t k
    by (auto simp: undisturbed_def calm_def sample_state_def group_at_def strict_prefix_def)
  show "undisturbed sample_guard sample_aid sample_worker (all_exit n sample_running)"
    unfolding a [of n] using sample_emptied_check [OF e] e k
    by (auto simp: undisturbed_def calm_def sample_emptied_def group_at_def sample_killed_simps strict_prefix_def)
  show "all_exit n (all_exit m sample_running) = all_exit m sample_running"
    by (simp add: all_exit_def comp_def case_prod_unfold)
qed

theorem release_returns_witness:
  "(\<exists>w'. release all_exit (\<lambda>_. False) sample_guard sample_aid sample_worker sample_running = Some (Inr (), w') \<and>
     group_at w' sample_aid = None) \<and>
   release (\<lambda>_ w. w) (\<lambda>n. n = 3) sample_guard sample_aid sample_worker sample_running = Some (Inl ECanceled, sample_running) \<and>
   release (\<lambda>_ w. w) (\<lambda>_. False) sample_guard sample_aid sample_worker sample_running = None"
proof -
  have s: "kw_ctx sample_running = []" "kw_contended sample_running = 0" by (simp_all add: sample_running_def sample_world_def)
  have r: "fst (read_record sample_guard sample_aid sample_running) = Inr sample_reservation"
    "al_worker sample_reservation = [] \<or> sample_worker = [] \<or> al_worker sample_reservation = sample_worker"
    using sample_read [OF sample_states(1)] by (simp_all add: sample_reservation_def new_allocation_def)
  have c1: "course all_exit sample_running (Suc n) = all_exit 0 sample_running" for n
  proof (induction n)
    case (Suc n)
    have "course all_exit sample_running (Suc (Suc n)) = all_exit (Suc n) (course all_exit sample_running (Suc n))" by (rule course.simps)
    then show ?case using Suc sample_undisturbed(3) by simp
  qed simp
  have u1: "undisturbed sample_guard sample_aid sample_worker (course all_exit sample_running n)" for n
    using sample_undisturbed(1,2) c1 by (cases n) auto
  have c2: "course (\<lambda>_ w. w) sample_running n = sample_running" for n by (induction n) simp_all
  have u2: "undisturbed sample_guard sample_aid sample_worker (course (\<lambda>_ w. w) sample_running n)" for n
    using sample_undisturbed(1) c2 by simp
  have o: "occupied_by sample_aid sample_running" "\<not> occupied_by sample_aid (all_exit 0 sample_running)"
    using sample_states(1) by (auto simp: occupied_by_def lives_def sample_state_def group_at_def sample_group_def all_exit_def sample_sandbox_def)
  have "(\<forall>j < 1. occupied_by sample_aid (course all_exit sample_running j) \<and> \<not> False) \<and> \<not> occupied_by sample_aid (course all_exit sample_running 1)"
    using o c1 [of 0] by simp
  with release_returns [OF u1 s r, of "\<lambda>_. False"]
  have "\<exists>w'. release all_exit (\<lambda>_. False) sample_guard sample_aid sample_worker sample_running = Some (Inr (), w') \<and> group_at w' sample_aid = None"
    by blast
  moreover have "release (\<lambda>_ w. w) (\<lambda>n. n = 3) sample_guard sample_aid sample_worker sample_running = Some (Inl ECanceled, sample_running)"
    using release_returns [OF u2 s r, of "\<lambda>n. n = 3"] o(1) unfolding c2 by (elim conjE allE [of _ 3]) simp
  moreover have "release (\<lambda>_ w. w) (\<lambda>_. False) sample_guard sample_aid sample_worker sample_running = None"
    using release_returns [OF u2 s r, of "\<lambda>_. False"] o(1) unfolding c2 by blast
  ultimately show ?thesis by blast
qed

end
