(* ===== verification/KataInventory.thy ===== *)
theory KataInventory
  imports KataRelease "HOL-Library.Multiset"
begin

text \<open>
  The inventory of a node (\<open>inventory.go\<close>, \<open>inventory_linux.go\<close>): what containerd lists and what the host
  shows are observed separately and reconciled, and an orphan is recovered only when containerd confirms
  that its worker is absent.  Error texts are kept as constructors; only their number matters to the
  code.  The ids of a Go map are visited in any order; here in the order they were found, and the
  listing is sorted in the end.
\<close>

section \<open>What is reported\<close>

datatype vm_problem =
    Failed kata_error | UntrustedEnvelope | NoReservation | BadPopulated | MissingPopulated | UnknownChild
  | ConflictingIdentity | NodeUnverified | ProfileMismatch | OtherReservation | DuplicateAllocation
  | VerifiedMissing | ProcessesRemain string

datatype inventory_problem = UnexpectedEntry string | UnexpectedRecord | EngineUnavailable kata_error
  | NodeVerification kata_error

record vm =
  vm_id :: string
  vm_name :: string
  vm_profile :: string
  vm_allocation :: string
  vm_container :: string
  vm_present :: bool
  vm_engine :: string
  vm_state :: string
  vm_cgroup :: string
  vm_allocated :: bool
  vm_populated :: bool
  vm_tracked :: bool
  vm_verified :: bool
  vm_orphan :: bool
  vm_created :: int
  vm_processes :: "vm_process list"
  vm_resources :: "(string \<times> string) list"
  vm_problems :: "vm_problem list"

record inventory =
  inv_observed :: int
  inv_available :: bool
  inv_problems :: "inventory_problem list"
  inv_vms :: "vm list"

definition zero_vm :: vm where
  "zero_vm = \<lparr>vm_id = [], vm_name = [], vm_profile = [], vm_allocation = [], vm_container = [], vm_present = False,
     vm_engine = [], vm_state = [], vm_cgroup = [], vm_allocated = False, vm_populated = False, vm_tracked = False,
     vm_verified = False, vm_orphan = False, vm_created = 0, vm_processes = [], vm_resources = [], vm_problems = []\<rparr>"

definition add_problem :: "vm_problem \<Rightarrow> vm \<Rightarrow> vm" where
  "add_problem p v = v\<lparr>vm_problems := vm_problems v @ [p]\<rparr>"

section \<open>Classification and reconciliation\<close>

definition unknown_state :: string where "unknown_state = ''unknown''"
definition inconsistent_state :: string where "inconsistent_state = ''inconsistent''"
definition orphan_running :: string where "orphan_running = ''orphan-running''"
definition orphan_empty :: string where "orphan_empty = ''orphan-empty''"
definition active_states :: "string list" where "active_states = [''running'', ''paused'']"

definition classify_vm :: "bool \<Rightarrow> vm \<Rightarrow> vm" where
  "classify_vm available v =
     (if \<not> available then v\<lparr>vm_state := unknown_state\<rparr>
      else if \<not> vm_present v then
        v\<lparr>vm_orphan := True, vm_state := (if vm_populated v then orphan_running else orphan_empty)\<rparr>
      else if vm_problems v \<noteq> [] then v\<lparr>vm_state := inconsistent_state\<rparr>
      else if vm_engine v \<in> set active_states then
        (if vm_allocated v \<and> vm_populated v \<and> vm_verified v then v\<lparr>vm_state := vm_engine v\<rparr>
         else add_problem VerifiedMissing (v\<lparr>vm_state := inconsistent_state\<rparr>))
      else if vm_populated v then add_problem (ProcessesRemain (vm_engine v)) (v\<lparr>vm_state := inconsistent_state\<rparr>)
      else v\<lparr>vm_state := (if vm_engine v = [] then unknown_state else vm_engine v)\<rparr>)"

text \<open>\<open>sort.Slice\<close> by id; ids are distinct, so stability does not show.\<close>

definition sort_vms :: "vm list \<Rightarrow> vm list" where
  "sort_vms vs = sort_key vm_id vs"

definition allocation_count :: "vm list \<Rightarrow> string \<Rightarrow> nat" where
  "allocation_count engine a = (if a = [] then 0 else length (filter (\<lambda>v. vm_allocation v = a) engine))"

definition merge_vm :: "(string \<times> vm) list \<Rightarrow> vm \<Rightarrow> vm" where
  "merge_vm hosts record =
     (case map_of hosts (vm_allocation record) of
        None \<Rightarrow> record
      | Some host \<Rightarrow>
          (let v = host\<lparr>vm_id := vm_id record, vm_name := vm_name record, vm_profile := vm_profile record,
               vm_present := True, vm_engine := vm_engine record, vm_problems := vm_problems host @ vm_problems record\<rparr>;
             v' = (if vm_container host \<noteq> [] \<and> vm_container host \<noteq> vm_container record
                   then add_problem OtherReservation v else v)
           in v'\<lparr>vm_container := vm_container record\<rparr>))"

definition reconcile_record :: "(string \<times> vm) list \<Rightarrow> vm list \<Rightarrow> bool \<Rightarrow> vm \<Rightarrow> vm" where
  "reconcile_record hosts engine available record =
     (let v = merge_vm hosts record in
      classify_vm available (if 1 < allocation_count engine (vm_allocation record) then add_problem DuplicateAllocation v else v))"

definition unclaimed :: "(string \<times> vm) list \<Rightarrow> vm list \<Rightarrow> (string \<times> vm) list" where
  "unclaimed hosts engine = filter (\<lambda>(a, _). a \<notin> vm_allocation ` set engine) hosts"

definition reconcile_vms :: "(string \<times> vm) list \<Rightarrow> vm list \<Rightarrow> bool \<Rightarrow> vm list" where
  "reconcile_vms hosts engine available =
     sort_vms (map (reconcile_record hosts engine available) engine @
       map (\<lambda>(_, host). classify_vm available host) (unclaimed hosts engine))"

section \<open>Finding one VM and deciding on recovery\<close>

definition refers_to :: "string \<Rightarrow> vm \<Rightarrow> bool" where
  "refers_to value v \<longleftrightarrow> vm_id v = value \<or> vm_name v = value \<or> vm_allocation v = value \<or> vm_container v = value \<or>
     (12 \<le> length value \<and> (prefix value (vm_id v) \<or> (vm_allocation v \<noteq> [] \<and> prefix value (vm_allocation v)) \<or>
        (vm_container v \<noteq> [] \<and> prefix value (vm_container v))))"

definition resolve_vm :: "inventory \<Rightarrow> string \<Rightarrow> (kata_error, vm) result" where
  "resolve_vm listing value =
     (if value = [] then Inl (EInventory VMRequired)
      else case filter (refers_to value) (inv_vms listing) of
          [] \<Rightarrow> Inl (EInventory (VMNotFound value))
        | [v] \<Rightarrow> Inr v
        | _ \<Rightarrow> Inl (EInventory AmbiguousVM))"

definition recovery_grace :: int where "recovery_grace = 5 * 60 * 1000000000"

definition can_recover :: "vm \<Rightarrow> bool \<Rightarrow> int \<Rightarrow> kata_error option" where
  "can_recover v force now =
     (if \<not> vm_orphan v \<or> vm_present v then Some (EInventory HasContainer)
      else if \<not> vm_tracked v then Some (EInventory Untracked)
      else if vm_populated v \<and> \<not> force then Some (EInventory OrphanRunning)
      else if vm_container v = [] \<and> now - vm_created v < recovery_grace then Some (EInventory RecentReservation)
      else None)"

section \<open>What containerd lists\<close>

definition inspect_worker :: "string \<Rightarrow> worker_info kio" where
  "inspect_worker i = bindIO ksys (\<lambda>_. bindIO (getIO (\<lambda>w. kw_workers w i)) liftE)"

definition managed_kata :: "worker_info \<Rightarrow> bool" where
  "managed_kata i \<longleftrightarrow> wi_labels i \<noteq> None \<and> wi_host i \<noteq> None \<and> label i managed_label = ''true'' \<and> label i isolation_label = ''kata''"

definition settings_fit :: "node_host \<Rightarrow> guard \<Rightarrow> worker_info \<Rightarrow> bool" where
  "settings_fit h g i = (case (parent g (label i allocation_label), lookup g (label i resource_label), wi_host i) of
     (Inr path, Some p, Some s) \<Rightarrow> settings_match g p path s \<and> label i profile_label = stamp h g
   | _ \<Rightarrow> False)"

definition engine_vm :: "node_host \<Rightarrow> guard \<Rightarrow> worker_info \<Rightarrow> vm" where
  "engine_vm h g i =
     (let v = zero_vm\<lparr>vm_id := wi_id i, vm_container := wi_id i, vm_present := True, vm_name := trim_prefix (wi_name i) ''/'',
          vm_allocation := label i allocation_label, vm_profile := rp_name (profile_or_zero g (label i resource_label)),
          vm_engine := (case wi_state i of None \<Rightarrow> [] | Some s \<Rightarrow> s), vm_created := wi_created i\<rparr>
      in if settings_fit h g i then v else add_problem ProfileMismatch v)"

fun containerd_rows :: "guard \<Rightarrow> string list \<Rightarrow> vm list kio" where
  "containerd_rows g [] = returnIO []"
| "containerd_rows g (row # rows) =
     bindIO (catchIO (inspect_worker row)) (\<lambda>r. case r of
       Inl e \<Rightarrow> if e = ENoWorker then containerd_rows g rows else throwIO e
     | Inr i \<Rightarrow>
         bindIO (whenE (\<not> managed_kata i) (EInventory WorkerChanged)) (\<lambda>_.
         bindIO (getIO kw_host) (\<lambda>h.
         bindIO (containerd_rows g rows) (\<lambda>vs. returnIO (engine_vm h g i # vs)))))"

definition containerd_vms :: "guard \<Rightarrow> vm list kio" where
  "containerd_vms g =
     bindIO ksys (\<lambda>_. bindIO ksys (\<lambda>_.
     bindIO (getIO (\<lambda>w. (kw_engine_up w, kw_listed w))) (\<lambda>(up, rows).
     bindIO (whenE (\<not> up) EIOFault) (\<lambda>_. containerd_rows g rows))))"

section \<open>What the host shows\<close>

definition group_path_or_empty :: "guard \<Rightarrow> string \<Rightarrow> string" where
  "group_path_or_empty g aid = (case group_path g aid of Inl _ \<Rightarrow> [] | Inr p \<Rightarrow> p)"

definition host_vm :: "guard \<Rightarrow> string \<Rightarrow> vm" where
  "host_vm g aid = zero_vm\<lparr>vm_id := aid, vm_allocation := aid, vm_cgroup := group_path_or_empty g aid\<rparr>"

definition observe_record :: "guard \<Rightarrow> string \<Rightarrow> vm kio" where
  "observe_record g aid = bindIO (catchIO (read_record g aid)) (\<lambda>res. let v = host_vm g aid in
     returnIO (case res of
       Inr r \<Rightarrow> v\<lparr>vm_tracked := True, vm_profile := rp_name (profile_or_zero g (al_profile r)), vm_name := al_name r,
          vm_container := al_worker r, vm_created := al_created r\<rparr>
     | Inl e \<Rightarrow> if e = ENotFound then v else add_problem (Failed e) v))"

text \<open>The key and value pairs of \<open>cgroup.events\<close>, with \<open>found\<close>.\<close>

definition populated_key :: string where "populated_key = ''populated''"

definition event_pair :: "string \<Rightarrow> string \<Rightarrow> bool \<times> vm \<Rightarrow> bool \<times> vm" where
  "event_pair k x fv =
     (if k = populated_key then
        (True, let v' = (snd fv)\<lparr>vm_populated := (x = [CHR ''1''])\<rparr> in
           if x \<noteq> [CHR ''0''] \<and> x \<noteq> [CHR ''1''] then add_problem BadPopulated v' else v')
      else fv)"

fun scan_events :: "string list \<Rightarrow> bool \<times> vm \<Rightarrow> bool \<times> vm" where
  "scan_events (k # x # rest) fv = scan_events rest (event_pair k x fv)"
| "scan_events _ fv = fv"

definition read_events :: "string \<Rightarrow> vm \<Rightarrow> vm" where
  "read_events data v = (case scan_events (GoStrings.fields data) (False, v) of
     (found, v') \<Rightarrow> if found then v' else add_problem MissingPopulated v')"

definition observe_events :: "string \<Rightarrow> vm \<Rightarrow> vm kio" where
  "observe_events aid v = bindIO (catchIO (read_control aid ''cgroup.events'')) (\<lambda>res. returnIO (case res of
     Inl e \<Rightarrow> add_problem (Failed e) v | Inr data \<Rightarrow> read_events data v))"

definition observe_child :: "string \<Rightarrow> vm \<Rightarrow> vm" where
  "observe_child name v =
     (let worker = trim_prefix name ''kata_'' in
      if name = supervisor then v
      else if \<not> valid_worker worker then add_problem UnknownChild v
      else if vm_container v \<noteq> [] \<and> vm_container v \<noteq> worker then add_problem ConflictingIdentity v
      else v\<lparr>vm_container := worker\<rparr>)"

definition child_groups :: "group_node \<Rightarrow> string list" where
  "child_groups nd = concat (map (\<lambda>p. if length p = 1 then p else []) (map fst (gn_tree nd)))"

definition observe_children :: "string \<Rightarrow> vm \<Rightarrow> vm kio" where
  "observe_children aid v = bindIO (catchIO ksys) (\<lambda>res. case res of
     Inl e \<Rightarrow> returnIO (add_problem (Failed e) v)
   | Inr _ \<Rightarrow> getIO (\<lambda>w. case group_at w aid of None \<Rightarrow> add_problem (Failed ENotFound) v
       | Some nd \<Rightarrow> fold observe_child (child_groups nd) v))"

definition resource_files :: "string list" where
  "resource_files = [''cpu.max'', ''memory.max'', ''memory.current'', ''memory.peak'', ''memory.swap.max'', ''pids.max'',
     ''pids.current'', ''memory.events'']"

definition optional_file :: string where "optional_file = ''memory.peak''"

fun observe_resources :: "string \<Rightarrow> string list \<Rightarrow> vm \<Rightarrow> vm kio" where
  "observe_resources aid [] v = returnIO v"
| "observe_resources aid (n # ns) v =
     bindIO (catchIO (read_control aid n)) (\<lambda>res. observe_resources aid ns (case res of
       Inl e \<Rightarrow> if n = optional_file \<and> e = ENotFound then v else add_problem (Failed e) v
     | Inr s \<Rightarrow> v\<lparr>vm_resources := vm_resources v @ [(n, trim_space s)]\<rparr>))"

definition observe_processes :: "guard \<Rightarrow> string \<Rightarrow> vm \<Rightarrow> vm kio" where
  "observe_processes g aid v =
     (if vm_populated v then
        bindIO (scan_processes g aid (vm_container v) True) (\<lambda>(ps, e). returnIO (case e of
          None \<Rightarrow> v\<lparr>vm_processes := ps, vm_verified := True\<rparr>
        | Some x \<Rightarrow> add_problem (Failed x) (v\<lparr>vm_processes := ps, vm_verified := False\<rparr>)))
      else bindIO (catchIO (check_limits g aid)) (\<lambda>res. returnIO (case res of
          Inl e \<Rightarrow> add_problem (Failed e) v | Inr _ \<Rightarrow> v)))"

definition untrusted_node :: "group_node \<Rightarrow> bool" where
  "untrusted_node nd \<longleftrightarrow> \<not> gn_dir nd \<or> \<not> gn_root nd \<or> gn_perm nd div 16 mod 2 = 1 \<or> gn_perm nd div 2 mod 2 = 1"

definition observe_group :: "guard \<Rightarrow> string \<Rightarrow> vm \<Rightarrow> vm kio" where
  "observe_group g aid v =
     (let v1 = v\<lparr>vm_allocated := True\<rparr>; v2 = (if vm_tracked v1 then v1 else add_problem NoReservation v1) in
      bindIO (observe_events aid v2) (\<lambda>v3.
      bindIO (observe_children aid v3) (\<lambda>v4.
      bindIO (observe_resources aid resource_files v4) (\<lambda>v5. observe_processes g aid v5))))"

definition observe_envelope :: "guard \<Rightarrow> string \<Rightarrow> vm kio" where
  "observe_envelope g aid =
     bindIO (observe_record g aid) (\<lambda>v.
     bindIO (catchIO ksys) (\<lambda>res. case res of
       Inl e \<Rightarrow> returnIO (add_problem (Failed e) v)
     | Inr _ \<Rightarrow> bindIO (getIO (\<lambda>w. group_at w aid)) (\<lambda>n. case n of
         None \<Rightarrow> returnIO v
       | Some nd \<Rightarrow> if untrusted_node nd then returnIO (add_problem UntrustedEnvelope v) else observe_group g aid v)))"

section \<open>The inventory\<close>

definition group_ids :: "(string \<times> group_node) list \<Rightarrow> string list \<times> inventory_problem list" where
  "group_ids gs =
     (let es = filter (\<lambda>(n, _). prefix group_prefix n) gs;
          good = (\<lambda>(n, nd). gn_dir nd \<and> valid_allocation (trim_prefix n group_prefix)) in
      (map (\<lambda>(n, _). trim_prefix n group_prefix) (filter good es),
       map (\<lambda>(n, _). UnexpectedEntry n) (filter (\<lambda>e. \<not> good e) es)))"

definition record_ids :: "(string \<times> record_file) list \<Rightarrow> string list \<times> inventory_problem list" where
  "record_ids rs = (filter valid_allocation (map fst rs), map (\<lambda>_. UnexpectedRecord) (filter (\<lambda>i. \<not> valid_allocation i) (map fst rs)))"

fun observe_all :: "guard \<Rightarrow> string list \<Rightarrow> (string \<times> vm) list kio" where
  "observe_all g [] = returnIO []"
| "observe_all g (aid # ids) =
     bindIO kctx (\<lambda>_. bindIO (observe_envelope g aid) (\<lambda>v.
     bindIO (observe_all g ids) (\<lambda>hosts. returnIO ((aid, v) # hosts))))"

definition distrust :: "vm \<Rightarrow> vm" where
  "distrust v = add_problem NodeUnverified (v\<lparr>vm_verified := False\<rparr>)"

definition inventory_unlocked :: "guard \<Rightarrow> inventory kio" where
  "inventory_unlocked g =
     bindIO ksys (\<lambda>_.
     bindIO (getIO (\<lambda>w. (kw_now w, group_ids (kw_groups w)))) (\<lambda>(now, gids, gproblems).
     bindIO record_dir (\<lambda>_.
     bindIO ksys (\<lambda>_.
     bindIO (getIO (\<lambda>w. record_ids (kw_records w))) (\<lambda>(rids, rproblems).
     bindIO (observe_all g (remdups (gids @ rids))) (\<lambda>hosts.
     bindIO (catchIO (containerd_vms g)) (\<lambda>engine.
     bindIO (catchIO (validate_node g)) (\<lambda>node.
       let available = (case engine of Inl _ \<Rightarrow> False | Inr _ \<Rightarrow> True);
           rows = (case engine of Inl _ \<Rightarrow> [] | Inr vs \<Rightarrow> vs);
           hosts' = (case node of Inl _ \<Rightarrow> map (\<lambda>(a, v). (a, distrust v)) hosts | Inr _ \<Rightarrow> hosts)
       in returnIO \<lparr>inv_observed = now, inv_available = available,
            inv_problems = gproblems @ rproblems @ (case engine of Inl e \<Rightarrow> [EngineUnavailable e] | Inr _ \<Rightarrow> []) @
              (case node of Inl e \<Rightarrow> [NodeVerification e] | Inr _ \<Rightarrow> []),
            inv_vms = reconcile_vms hosts' rows available\<rparr>))))))))"

definition take_inventory :: "guard \<Rightarrow> inventory kio" where
  "take_inventory g = bindIO admission_lock (\<lambda>_. inventory_unlocked g)"

section \<open>Recovering an orphan\<close>

text \<open>Everything before the release: what is checked, and the processes that are killed.\<close>

definition confirm_absent :: "vm \<Rightarrow> unit kio" where
  "confirm_absent v =
     (if vm_container v = [] then returnIO ()
      else bindIO ksys (\<lambda>_. bindIO (catchIO (inspect_worker (vm_container v))) (\<lambda>r.
        whenE (r \<noteq> Inl ENoWorker) (EInventory StillPresent))))"

definition recover_start :: "guard \<Rightarrow> string \<Rightarrow> bool \<Rightarrow> vm kio" where
  "recover_start g value force =
     bindIO admission_lock (\<lambda>_.
     bindIO (inventory_unlocked g) (\<lambda>listing.
     bindIO (whenE (\<not> inv_available listing) (EInventory EngineDown)) (\<lambda>_.
     bindIO (liftE (resolve_vm listing value)) (\<lambda>v.
     bindIO (getIO kw_now) (\<lambda>now.
     bindIO (liftE (require (can_recover v force now))) (\<lambda>_.
     bindIO (confirm_absent v) (\<lambda>_.
     bindIO (validate_node g) (\<lambda>_. returnIO v))))))))"

definition recover_kill :: "guard \<Rightarrow> vm \<Rightarrow> unit kio" where
  "recover_kill g v =
     (if vm_populated v then bindIO (scan g (vm_allocation v) (vm_container v) False) (\<lambda>_. kill_group (vm_allocation v))
      else returnIO ())"

definition recover_orphan ::
  "(nat \<Rightarrow> kworld \<Rightarrow> kworld) \<Rightarrow> (nat \<Rightarrow> bool) \<Rightarrow> guard \<Rightarrow> string \<Rightarrow> bool \<Rightarrow> kworld \<Rightarrow> ((kata_error, unit) result \<times> kworld) option" where
  "recover_orphan env ended g value force w =
     (case recover_start g value force w of
        (Inl e, w1) \<Rightarrow> Some (Inl e, w1)
      | (Inr v, w1) \<Rightarrow>
          (case recover_kill g v w1 of
             (Inl e, w2) \<Rightarrow> Some (Inl e, w2)
           | (Inr _, w2) \<Rightarrow> release_unlocked env ended g (vm_allocation v) (vm_container v) w2))"

section \<open>Taking an inventory changes nothing\<close>

lemma quiet_case_sum [intro]:
  "(\<And>e. r = Inl e \<Longrightarrow> quiet v (f e)) \<Longrightarrow> (\<And>x. r = Inr x \<Longrightarrow> quiet v (h x)) \<Longrightarrow> quiet v (case r of Inl e \<Rightarrow> f e | Inr x \<Rightarrow> h x)"
  by (cases r) simp_all

lemma quiet_case_option [intro]:
  "(n = None \<Longrightarrow> quiet v f) \<Longrightarrow> (\<And>x. n = Some x \<Longrightarrow> quiet v (h x)) \<Longrightarrow> quiet v (case n of None \<Rightarrow> f | Some x \<Rightarrow> h x)"
  by (cases n) simp_all

lemma quiet_case_prod [intro]: "(\<And>a b. p = (a, b) \<Longrightarrow> quiet v (f a b)) \<Longrightarrow> quiet v (case p of (a, b) \<Rightarrow> f a b)"
  by (cases p) simp

lemmas quiet_cases = quiet_bind quiet_catch quiet_if quiet_case_sum quiet_case_option quiet_case_prod quiet_unit

lemma quiet_inspect [simp, intro]: "quiet still (inspect_worker i)"
  unfolding inspect_worker_def by (intro quiet_cases quiet_still_steps)

lemma quiet_rows [simp, intro]: "quiet still (containerd_rows g rows)"
proof (induction rows)
  case (Cons row rows)
  show ?case unfolding containerd_rows.simps by (intro quiet_cases quiet_inspect Cons)
qed (simp only: containerd_rows.simps quiet_unit)

lemma quiet_containerd [simp, intro]: "quiet still (containerd_vms g)"
  unfolding containerd_vms_def by (intro quiet_cases quiet_still_steps quiet_rows)

lemma quiet_observe [simp, intro]:
  "quiet still (observe_record g aid)" "quiet still (observe_events aid v)" "quiet still (observe_children aid v)"
  "quiet still (observe_processes g aid v)"
  unfolding observe_record_def observe_events_def observe_children_def observe_processes_def Let_def
  by (intro quiet_cases quiet_still_read_record quiet_still_read_control quiet_still_steps quiet_still_scan_processes
      quiet_still_check_limits)+

lemma quiet_resources [simp, intro]: "quiet still (observe_resources aid ns v)"
  by (induction ns arbitrary: v) (auto intro!: quiet_cases)

lemma quiet_envelope [simp, intro]: "quiet still (observe_envelope g aid)"
  unfolding observe_envelope_def observe_group_def Let_def
  by (intro quiet_cases quiet_observe quiet_still_steps quiet_resources)

lemma quiet_observe_all [simp, intro]: "quiet still (observe_all g ids)"
proof (induction ids)
  case (Cons aid ids)
  show ?case unfolding observe_all.simps by (intro quiet_cases quiet_still_kctx quiet_envelope Cons)
qed (simp only: observe_all.simps quiet_unit)

lemma quiet_inventory_unlocked [simp, intro]: "quiet still (inventory_unlocked g)"
  unfolding inventory_unlocked_def Let_def
  by (intro quiet_cases quiet_still_steps quiet_still_record_dir quiet_observe_all quiet_containerd quiet_still_validate)

lemma quiet_inventory [simp, intro]: "quiet still (take_inventory g)"
  unfolding take_inventory_def by (intro quiet_cases quiet_still_admission_lock quiet_inventory_unlocked)

lemma quiet_confirm [simp, intro]: "quiet still (confirm_absent v)"
  unfolding confirm_absent_def by (intro quiet_cases quiet_still_steps quiet_inspect)

lemma quiet_recover_start [simp, intro]: "quiet still (recover_start g value force)"
  unfolding recover_start_def confirm_absent_def
  by (intro quiet_cases quiet_still_steps quiet_still_admission_lock quiet_inventory_unlocked quiet_inspect quiet_still_validate)

section \<open>What an observed envelope says\<close>

text \<open>The fields that the steps of an observation leave alone.\<close>

lemma add_problem_simps [simp]:
  "vm_id (add_problem p v) = vm_id v" "vm_allocation (add_problem p v) = vm_allocation v"
  "vm_container (add_problem p v) = vm_container v" "vm_present (add_problem p v) = vm_present v"
  "vm_orphan (add_problem p v) = vm_orphan v" "vm_verified (add_problem p v) = vm_verified v"
  "vm_tracked (add_problem p v) = vm_tracked v" "vm_created (add_problem p v) = vm_created v"
  "vm_processes (add_problem p v) = vm_processes v" "vm_populated (add_problem p v) = vm_populated v"
  "vm_allocated (add_problem p v) = vm_allocated v" "vm_engine (add_problem p v) = vm_engine v"
  "vm_state (add_problem p v) = vm_state v"
  "vm_problems (add_problem p v) \<noteq> []"
  by (simp_all add: add_problem_def)

definition same_subject :: "vm \<Rightarrow> vm \<Rightarrow> bool" where
  "same_subject v' v \<longleftrightarrow> vm_id v' = vm_id v \<and> vm_allocation v' = vm_allocation v \<and> vm_present v' = vm_present v \<and>
     vm_orphan v' = vm_orphan v \<and> vm_verified v' = vm_verified v \<and> vm_tracked v' = vm_tracked v \<and>
     vm_created v' = vm_created v \<and> (vm_container v \<noteq> [] \<longrightarrow> vm_container v' = vm_container v)"

lemma same_subject_refl [simp]: "same_subject v v"
  by (simp add: same_subject_def)

lemma same_subject_trans: "same_subject v3 v2 \<Longrightarrow> same_subject v2 v1 \<Longrightarrow> same_subject v3 v1"
  by (auto simp: same_subject_def)

lemma same_subject_problem [simp]: "same_subject (add_problem p v') v \<longleftrightarrow> same_subject v' v"
  by (simp add: same_subject_def)

lemma scan_events_subject: "same_subject (snd (scan_events fs fv)) (snd fv)"
proof (induction fs fv rule: scan_events.induct)
  case (1 k x rest fv)
  have "same_subject (snd (event_pair k x fv)) (snd fv)" by (auto simp: event_pair_def Let_def same_subject_def)
  with 1 show ?case using same_subject_trans by simp
qed simp_all

lemma read_events_subject: "same_subject (read_events data v) v"
  using scan_events_subject [of "GoStrings.fields data" "(False, v)"] by (auto simp: read_events_def split: prod.split)

lemma observe_child_subject: "same_subject (observe_child n v) v"
  by (auto simp: observe_child_def Let_def same_subject_def)

lemma fold_child_subject: "same_subject (fold observe_child ns v) v"
  by (induction ns arbitrary: v) (auto intro: same_subject_trans observe_child_subject)

lemma observe_resources_Inr: "observe_resources aid ns v w = (Inr v', w') \<Longrightarrow> same_subject v' v"
proof (induction ns arbitrary: v w)
  case (Cons n ns)
  obtain res w1 where "observe_resources aid ns (case res of
       Inl e \<Rightarrow> if n = optional_file \<and> e = ENotFound then v else add_problem (Failed e) v
     | Inr s \<Rightarrow> v\<lparr>vm_resources := vm_resources v @ [(n, trim_space s)]\<rparr>) w1 = (Inr v', w')"
    using Cons.prems by (auto simp: io_iffs)
  from Cons.IH [OF this] show ?case by (rule same_subject_trans) (simp add: same_subject_def split: sum.split)
qed simp

lemma observe_events_Inr: "observe_events aid v w = (Inr v', w') \<Longrightarrow> same_subject v' v"
  by (auto simp: observe_events_def io_iffs read_events_subject split: sum.split)

lemma observe_children_Inr: "observe_children aid v w = (Inr v', w') \<Longrightarrow> same_subject v' v"
  by (cases "ksys w"; cases "fst (ksys w)")
    (auto simp: observe_children_def bindIO_def catchIO_def fold_child_subject split: option.splits)

text \<open>What the process scan adds: \<open>HostVerified\<close> holds only after a complete scan of the envelope.\<close>

definition host_attested :: "kworld \<Rightarrow> guard \<Rightarrow> vm \<Rightarrow> bool" where
  "host_attested w g v \<longleftrightarrow> scanned w g (vm_allocation v) (vm_container v) (vm_processes v) \<and>
     (\<exists>pid. (pid, runtime_kind) \<in> set (vm_processes v))"

lemma observe_processes_Inr:
  assumes "observe_processes g aid v w = (Inr v', w')" and "vm_allocation v = aid" and "\<not> vm_verified v"
  shows "same_subject v' (v\<lparr>vm_verified := vm_verified v'\<rparr>) \<and> vm_container v' = vm_container v \<and>
    (vm_verified v' \<longrightarrow> host_attested w g v')"
proof (cases "vm_populated v")
  case True
  then obtain ps e where s: "scan_processes g aid (vm_container v) True w = (Inr (ps, e), w')"
    and v': "v' = (case e of None \<Rightarrow> v\<lparr>vm_processes := ps, vm_verified := True\<rparr>
        | Some x \<Rightarrow> add_problem (Failed x) (v\<lparr>vm_processes := ps, vm_verified := False\<rparr>))"
    using assms(1) by (auto simp: observe_processes_def io_iffs)
  show ?thesis
  proof (cases e)
    case None
    have "scan g aid (vm_container v) True w = (Inr ps, w')" using s None by (simp add: scan_def bindIO_def)
    from scan_Inr(1,2) [OF this] have "scanned w g aid (vm_container v) ps" "\<exists>p \<in> set ps. snd p = runtime_kind" by auto
    then show ?thesis using v' None assms(2) by (force simp: same_subject_def host_attested_def)
  qed (use v' in \<open>simp add: same_subject_def\<close>)
next
  case False
  obtain r w1 where "check_limits g aid w = (r, w1)" by (cases "check_limits g aid w")
  with False assms show ?thesis
    by (cases r) (auto simp: observe_processes_def bindIO_def catchIO_def same_subject_def)
qed

lemma scanned_still: "still w' = still w \<Longrightarrow> scanned w' g aid worker ps \<longleftrightarrow> scanned w g aid worker ps"
  using still_view [of w' w aid]
  unfolding scanned_def group_checked_def found_below_def found_in_def pid_checked_def by simp

lemma host_attested_still: "still w' = still w \<Longrightarrow> host_attested w' g v \<longleftrightarrow> host_attested w g v"
  unfolding host_attested_def using scanned_still by blast

text \<open>An observed envelope: the facts about the world it was observed in.\<close>

definition host_fact :: "kworld \<Rightarrow> guard \<Rightarrow> string \<Rightarrow> vm \<Rightarrow> bool" where
  "host_fact w g aid v \<longleftrightarrow> vm_id v = aid \<and> vm_allocation v = aid \<and> \<not> vm_present v \<and> \<not> vm_orphan v \<and>
     (vm_verified v \<longrightarrow> host_attested w g v) \<and>
     (vm_tracked v \<longrightarrow> (\<exists>r. recorded (kw_records w) aid = Some r \<and> vm_created v = al_created r \<and>
        (al_worker r \<noteq> [] \<longrightarrow> vm_container v = al_worker r)))"

lemma observe_record_Inr:
  assumes ok: "node_ok g w" and o: "observe_record g aid w = (Inr v, w')"
  shows "host_fact w g aid v \<and> \<not> vm_verified v"
proof -
  have at: "at (kw_dir_trust w) (kw_host w) (kw_workers w) (kw_records w) (kw_groups w) w"
    and rok: "records_ok (kw_host w) g (kw_records w)" using ok by (auto simp: at_def node_ok_def ledger_ok_def)
  obtain res where r: "read_record g aid w = (res, w')" using o by (auto simp: observe_record_def io_iffs Let_def)
  show ?thesis
  proof (cases res)
    case (Inl e)
    with o r show ?thesis
      by (auto simp: observe_record_def bindIO_def catchIO_def host_fact_def host_vm_def zero_vm_def Let_def split: if_splits)
  next
    case (Inr al)
    with r have "recorded (kw_records w) aid = Some al" using triple_Inr [OF read_record_triple [OF rok] at] by blast
    with Inr o r show ?thesis
      by (auto simp: observe_record_def bindIO_def catchIO_def host_fact_def host_vm_def zero_vm_def Let_def)
  qed
qed

lemma host_fact_subject:
  assumes "host_fact w g aid v" and "same_subject v' (v\<lparr>vm_verified := vm_verified v'\<rparr>)" and "vm_verified v' \<Longrightarrow> host_attested w g v'"
  shows "host_fact w g aid v'"
  using assms by (force simp: host_fact_def same_subject_def)

lemma observe_group_Inr:
  assumes f: "host_fact w g aid v" "\<not> vm_verified v" and o: "observe_group g aid v w0 = (Inr v', w')" and s: "still w0 = still w"
  shows "host_fact w g aid v'"
proof -
  let ?v1 = "v\<lparr>vm_allocated := True\<rparr>"
  let ?v2 = "if vm_tracked ?v1 then ?v1 else add_problem NoReservation ?v1"
  obtain v3 w1 v4 w2 v5 w3 where o3: "observe_events aid ?v2 w0 = (Inr v3, w1)" and o4: "observe_children aid v3 w1 = (Inr v4, w2)"
    and o5: "observe_resources aid resource_files v4 w2 = (Inr v5, w3)" and o6: "observe_processes g aid v5 w3 = (Inr v', w')"
    using o by (auto simp: observe_group_def Let_def io_iffs)
  have "same_subject ?v2 v" by (auto simp: same_subject_def)
  with observe_events_Inr [OF o3] observe_children_Inr [OF o4] observe_resources_Inr [OF o5]
  have v5: "same_subject v5 v" using same_subject_trans by blast
  have "still w3 = still w"
    using s quiet_step [OF quiet_observe(2) o3] quiet_step [OF quiet_observe(3) o4] quiet_step [OF quiet_resources o5] by metis
  moreover have "vm_allocation v5 = aid" "\<not> vm_verified v5" using v5 f by (auto simp: same_subject_def host_fact_def)
  from observe_processes_Inr [OF o6 this]
  have p: "same_subject v' (v5\<lparr>vm_verified := vm_verified v'\<rparr>)" "vm_verified v' \<longrightarrow> host_attested w3 g v'" by blast+
  ultimately have "vm_verified v' \<longrightarrow> host_attested w g v'" using host_attested_still by blast
  moreover have "same_subject v' (v\<lparr>vm_verified := vm_verified v'\<rparr>)" using p(1) v5 by (auto simp: same_subject_def)
  ultimately show ?thesis using host_fact_subject [OF f(1)] by blast
qed

lemma observe_envelope_Inr:
  assumes ok: "node_ok g w" and o: "observe_envelope g aid w = (Inr v, w')"
  shows "host_fact w g aid v"
proof -
  obtain v0 w1 where r: "observe_record g aid w = (Inr v0, w1)" using o by (auto simp: observe_envelope_def io_iffs)
  have f: "host_fact w g aid v0" "\<not> vm_verified v0" using observe_record_Inr [OF ok r] by blast+
  have p: "host_fact w g aid (add_problem q v0)" for q using f by (simp add: host_fact_def)
  obtain x w2 where k: "ksys w1 = (x, w2)" by (cases "ksys w1")
  have s: "still w2 = still w"
    using quiet_step [OF quiet_observe(1) r] quiet_step [OF quiet_still_steps(1) k] by metis
  show ?thesis
  proof (cases x)
    case (Inl e)
    with o r k p show ?thesis by (auto simp: observe_envelope_def bindIO_def catchIO_def)
  next
    case (Inr u)
    with o r k have "(case group_at w2 aid of None \<Rightarrow> returnIO v0 | Some nd \<Rightarrow>
        if untrusted_node nd then returnIO (add_problem UntrustedEnvelope v0) else observe_group g aid v0) w2 = (Inr v, w')"
      by (auto simp: observe_envelope_def bindIO_def catchIO_def)
    then show ?thesis using f p observe_group_Inr [OF f _ s] by (auto split: option.splits if_splits)
  qed
qed

lemma node_ok_still: "still w' = still w \<Longrightarrow> node_ok g w' \<longleftrightarrow> node_ok g w"
  using cleared_node_ok cleared_still [OF cleared_refl] by metis

lemma host_fact_still: "still w' = still w \<Longrightarrow> host_fact w' g aid v \<longleftrightarrow> host_fact w g aid v"
  using still_same [of w' w] host_attested_still [of w' w] by (simp add: host_fact_def same_core_def)

lemma observe_all_Inr:
  "node_ok g w \<Longrightarrow> observe_all g ids w = (Inr hosts, w') \<Longrightarrow>
   map fst hosts = ids \<and> (\<forall>(a, v) \<in> set hosts. host_fact w g a v)"
proof (induction ids arbitrary: w hosts)
  case (Cons a ids)
  obtain w1 v w2 hs where k: "kctx w = (Inr (), w1)" and o: "observe_envelope g a w1 = (Inr v, w2)"
    and t: "observe_all g ids w2 = (Inr hs, w')" and h: "hosts = (a, v) # hs"
    using Cons.prems(2) by (auto simp: io_iffs)
  have s1: "still w1 = still w" using quiet_step [OF quiet_still_kctx k] .
  have s2: "still w2 = still w" using quiet_step [OF quiet_envelope o] s1 by simp
  have "node_ok g w1" "node_ok g w2" using Cons.prems(1) node_ok_still s1 s2 by blast+
  from Cons.IH [OF this(2) t] observe_envelope_Inr [OF this(1) o] s1 s2 h show ?case
    using host_fact_still [OF s1] host_fact_still [OF s2] by auto
qed simp

section \<open>What the reconciled listing says\<close>

lemma classify_simps [simp]:
  "vm_id (classify_vm b v) = vm_id v" "vm_allocation (classify_vm b v) = vm_allocation v"
  "vm_container (classify_vm b v) = vm_container v" "vm_present (classify_vm b v) = vm_present v"
  "vm_verified (classify_vm b v) = vm_verified v" "vm_tracked (classify_vm b v) = vm_tracked v"
  "vm_created (classify_vm b v) = vm_created v" "vm_processes (classify_vm b v) = vm_processes v"
  "vm_populated (classify_vm b v) = vm_populated v" "vm_engine (classify_vm b v) = vm_engine v"
  by (simp_all add: classify_vm_def add_problem_def)

lemma classify_orphan: "vm_orphan (classify_vm b v) \<longleftrightarrow> vm_orphan v \<or> (b \<and> \<not> vm_present v)"
  by (simp add: classify_vm_def)

lemma fixed_states: "unknown_state \<notin> set active_states" "inconsistent_state \<notin> set active_states"
  "orphan_running \<notin> set active_states" "orphan_empty \<notin> set active_states" "[] \<notin> set active_states"
  by (simp_all add: unknown_state_def inconsistent_state_def orphan_running_def orphan_empty_def active_states_def)

lemma classify_active:
  "vm_state (classify_vm b v) \<in> set active_states \<Longrightarrow>
   b \<and> vm_present v \<and> vm_problems v = [] \<and> vm_engine v = vm_state (classify_vm b v) \<and> vm_populated v \<and> vm_verified v"
  using fixed_states by (auto simp: classify_vm_def split: if_splits)

lemma classify_unavailable: "\<not> b \<Longrightarrow> vm_state (classify_vm b v) = unknown_state"
  by (simp add: classify_vm_def)

lemma merge_simps [simp]:
  "vm_id (merge_vm hosts r) = vm_id r" "vm_container (merge_vm hosts r) = vm_container r"
  by (simp_all add: merge_vm_def Let_def split: option.split)

lemma reconcile_record_simps [simp]:
  "vm_id (reconcile_record hosts engine b r) = vm_id r" "vm_container (reconcile_record hosts engine b r) = vm_container r"
  "vm_present (reconcile_record hosts engine b r) = vm_present (merge_vm hosts r)"
  by (simp_all add: reconcile_record_def Let_def)

lemma reconcile_vms_cases:
  assumes "v \<in> set (reconcile_vms hosts engine b)"
  obtains (listed) r where "r \<in> set engine" "v = reconcile_record hosts engine b r"
    | (host) a h where "(a, h) \<in> set hosts" "a \<notin> vm_allocation ` set engine" "v = classify_vm b h"
  using assms by (auto simp: reconcile_vms_def sort_vms_def unclaimed_def)

lemma reconcile_vms_ids:
  "sorted (map vm_id (reconcile_vms hosts engine b)) \<and>
   mset (map vm_id (reconcile_vms hosts engine b)) = mset (map vm_id engine) + mset (map (vm_id \<circ> snd) (unclaimed hosts engine))"
proof -
  let ?L = "map (reconcile_record hosts engine b) engine" and ?H = "map (\<lambda>(_, host). classify_vm b host) (unclaimed hosts engine)"
  have "mset (map vm_id (reconcile_vms hosts engine b)) = mset (map vm_id (?L @ ?H))"
    unfolding reconcile_vms_def sort_vms_def mset_map mset_sort ..
  also have "map vm_id (?L @ ?H) = map vm_id engine @ map (vm_id \<circ> snd) (unclaimed hosts engine)" by auto
  finally have "mset (map vm_id (reconcile_vms hosts engine b)) = mset (map vm_id engine) + mset (map (vm_id \<circ> snd) (unclaimed hosts engine))"
    by simp
  then show ?thesis by (simp add: reconcile_vms_def sort_vms_def)
qed

text \<open>A record containerd lists and the host's envelope agree on the worker when no problem was added.\<close>

lemma merge_active:
  assumes "host_fact w g (vm_allocation r) h" and m: "map_of hosts (vm_allocation r) = Some h"
    and a: "vm_problems (merge_vm hosts r) = []" "vm_verified (merge_vm hosts r)"
  shows "host_attested w g (merge_vm hosts r) \<and> vm_allocation (merge_vm hosts r) = vm_allocation r"
proof -
  have c: "vm_container h = [] \<or> vm_container h = vm_container r" and v: "vm_verified h"
    using a m by (auto simp: merge_vm_def Let_def split: if_splits)
  then have h: "host_attested w g h" using assms(1) by (simp add: host_fact_def)
  then have "valid_worker (vm_container h)" by (simp add: host_attested_def scanned_def)
  then have "vm_container h \<noteq> []" by (auto simp: valid_worker_def lower_hex_n_def)
  with c have e: "vm_container h = vm_container r" by simp
  have "vm_allocation h = vm_allocation r" using assms(1) by (simp add: host_fact_def)
  with m e h show ?thesis by (simp add: merge_vm_def Let_def host_attested_def)
qed

lemma containerd_rows_Inr:
  "containerd_rows g rows w = (Inr vs, w') \<Longrightarrow>
   (\<forall>v \<in> set vs. \<exists>i info. i \<in> set rows \<and> kw_workers w i = Inr info \<and> managed_kata info \<and> v = engine_vm (kw_host w) g info) \<and>
   (\<forall>i info. i \<in> set rows \<longrightarrow> kw_workers w i = Inr info \<longrightarrow> engine_vm (kw_host w) g info \<in> set vs)"
proof (induction rows arbitrary: w vs)
  case (Cons row rows)
  obtain x w1 where i: "inspect_worker row w = (x, w1)" by (cases "inspect_worker row w")
  have s: "kw_workers w1 = kw_workers w" "kw_host w1 = kw_host w"
    using still_same [OF quiet_step [OF quiet_inspect i]] by (auto simp: same_core_def)
  have x: "x = Inl EIOFault \<or> x = kw_workers w row"
  proof -
    obtain k w2 where k: "ksys w = (k, w2)" by (cases "ksys w")
    with ksys_step [OF k] i show ?thesis by (cases k) (auto simp: inspect_worker_def bindIO_def same_core_def)
  qed
  show ?case
  proof (cases x)
    case (Inl e)
    with Cons.prems i have "e = ENoWorker" "containerd_rows g rows w1 = (Inr vs, w')"
      by (auto simp: bindIO_def catchIO_def split: if_splits)
    note ih = Cons.IH [OF this(2), unfolded s]
    have "kw_workers w row = Inl e" using x Inl \<open>e = ENoWorker\<close> by auto
    then have "i \<in> set rows" if "i \<in> set (row # rows)" "kw_workers w i = Inr info" for i info using that by auto
    with ih show ?thesis by (simp only: list.set) blast
  next
    case (Inr info)
    then have "managed_kata info" "\<exists>us. containerd_rows g rows w1 = (Inr us, w') \<and> vs = engine_vm (kw_host w1) g info # us"
      using Cons.prems i by (auto simp: bindIO_def catchIO_def whenE_def split: if_splits prod.splits sum.splits)
    then obtain us where us: "managed_kata info" "containerd_rows g rows w1 = (Inr us, w')" "vs = engine_vm (kw_host w1) g info # us" by blast
    note ih = Cons.IH [OF us(2), unfolded s]
    have row: "kw_workers w row = Inr info" using x Inr by auto
    have "engine_vm (kw_host w) g y \<in> set vs" if "i \<in> set (row # rows)" "kw_workers w i = Inr y" for i y
      using that row ih us(3) s by auto
    moreover have "\<exists>i y. i \<in> set (row # rows) \<and> kw_workers w i = Inr y \<and> managed_kata y \<and> v = engine_vm (kw_host w) g y"
      if "v \<in> set vs" for v
    proof (cases "v \<in> set us")
      case True
      with ih show ?thesis by fastforce
    next
      case False
      then have "v = engine_vm (kw_host w) g info" using that us(3) s by simp
      with row us(1) show ?thesis by (intro exI [of _ row] exI [of _ info]) simp
    qed
    ultimately show ?thesis by blast
  qed
qed simp

lemma containerd_vms_Inr:
  assumes "containerd_vms g w = (Inr vs, w')"
  shows "kw_engine_up w \<and> (\<forall>v \<in> set vs. \<exists>i info. i \<in> set (kw_listed w) \<and> kw_workers w i = Inr info \<and> managed_kata info \<and>
       v = engine_vm (kw_host w) g info) \<and>
     (\<forall>i info. i \<in> set (kw_listed w) \<longrightarrow> kw_workers w i = Inr info \<longrightarrow> engine_vm (kw_host w) g info \<in> set vs)"
proof -
  obtain w1 w2 where k: "ksys w = (Inr (), w1)" "ksys w1 = (Inr (), w2)" and up: "kw_engine_up w2"
    and r: "containerd_rows g (kw_listed w2) w2 = (Inr vs, w')"
    using assms by (auto simp: containerd_vms_def io_iffs split: prod.splits)
  have "still w2 = still w" using quiet_step [OF quiet_still_steps(1) k(1)] quiet_step [OF quiet_still_steps(1) k(2)] by simp
  moreover have "kw_engine_up (still x) = kw_engine_up x" "kw_listed (still x) = kw_listed x" "kw_workers (still x) = kw_workers x"
    "kw_host (still x) = kw_host x" for x by (simp_all add: still_def)
  ultimately have "kw_engine_up w2 = kw_engine_up w" "kw_listed w2 = kw_listed w" "kw_workers w2 = kw_workers w" "kw_host w2 = kw_host w"
    by metis+
  with containerd_rows_Inr [OF r] up show ?thesis by simp
qed

section \<open>The inventory as a whole\<close>

definition node_ids :: "kworld \<Rightarrow> string list" where
  "node_ids w = remdups (fst (group_ids (kw_groups w)) @ fst (record_ids (kw_records w)))"

definition listed_worker :: "kworld \<Rightarrow> worker_info \<Rightarrow> bool" where
  "listed_worker w info \<longleftrightarrow> (\<exists>i. i \<in> set (kw_listed w) \<and> kw_workers w i = Inr info)"

definition reconciled :: "kworld \<Rightarrow> guard \<Rightarrow> (string \<times> vm) list \<Rightarrow> vm list \<Rightarrow> bool \<Rightarrow> bool" where
  "reconciled w g hosts engine b \<longleftrightarrow> map fst hosts = node_ids w \<and> (\<forall>(a, v) \<in> set hosts. host_fact w g a v) \<and>
     (if b then kw_engine_up w \<and> (\<forall>v \<in> set engine. \<exists>info. listed_worker w info \<and> managed_kata info \<and> v = engine_vm (kw_host w) g info) \<and>
        (\<forall>info. listed_worker w info \<longrightarrow> engine_vm (kw_host w) g info \<in> set engine)
      else engine = [])"

lemma distrust_fact: "host_fact w g a v \<Longrightarrow> host_fact w g a (distrust v)"
  by (simp add: host_fact_def distrust_def)

lemma node_ids_still: "still w' = still w \<Longrightarrow> node_ids w' = node_ids w"
  using still_same [of w' w] by (simp add: same_core_def node_ids_def)

lemma listed_still: "still w' = still w \<Longrightarrow> listed_worker w' = listed_worker w \<and> kw_engine_up w' = kw_engine_up w \<and> kw_host w' = kw_host w"
proof -
  have "kw_engine_up (still x) = kw_engine_up x" "kw_listed (still x) = kw_listed x" "kw_workers (still x) = kw_workers x"
    "kw_host (still x) = kw_host x" for x by (simp_all add: still_def)
  then show "still w' = still w \<Longrightarrow> listed_worker w' = listed_worker w \<and> kw_engine_up w' = kw_engine_up w \<and> kw_host w' = kw_host w"
    unfolding listed_worker_def fun_eq_iff by metis
qed

lemma reconciled_still: "still w' = still w \<Longrightarrow> reconciled w' g hosts engine b \<longleftrightarrow> reconciled w g hosts engine b"
  using node_ids_still [of w' w] listed_still [of w' w] host_fact_still [of w' w] by (simp add: reconciled_def)

lemma inventory_unlocked_Inr:
  assumes ok: "node_ok g w" and i: "inventory_unlocked g w = (Inr L, w')"
  shows "\<exists>hosts engine. inv_vms L = reconcile_vms hosts engine (inv_available L) \<and> reconciled w g hosts engine (inv_available L)"
proof -
  obtain w1 u2 w2 u3 w3 hosts0 w4 eng w5 node where
    k1: "ksys w = (Inr (), w1)" and d: "record_dir w1 = (Inr u2, w2)" and k2: "ksys w2 = (Inr u3, w3)"
    and o: "observe_all g (remdups (fst (group_ids (kw_groups w1)) @ fst (record_ids (kw_records w3)))) w3 = (Inr hosts0, w4)"
    and e: "containerd_vms g w4 = (eng, w5)" and v: "validate_node g w5 = (node, w')"
    and L: "inv_vms L = reconcile_vms (case node of Inl _ \<Rightarrow> map (\<lambda>(a, v). (a, distrust v)) hosts0 | Inr _ \<Rightarrow> hosts0)
        (case eng of Inl _ \<Rightarrow> [] | Inr vs \<Rightarrow> vs) (case eng of Inl _ \<Rightarrow> False | Inr _ \<Rightarrow> True)"
      "inv_available L = (case eng of Inl _ \<Rightarrow> False | Inr _ \<Rightarrow> True)"
    using i unfolding inventory_unlocked_def Let_def case_prod_unfold by (auto simp: io_iffs case_prod_unfold)
  have s: "still w1 = still w" "still w3 = still w" "still w4 = still w"
    using quiet_step [OF quiet_still_steps(1) k1] quiet_step [OF quiet_still_record_dir d] quiet_step [OF quiet_still_steps(1) k2]
      quiet_step [OF quiet_observe_all o] by simp_all
  have ids: "remdups (fst (group_ids (kw_groups w1)) @ fst (record_ids (kw_records w3))) = node_ids w"
    using still_same [OF s(1)] still_same [OF s(2)] by (simp add: same_core_def node_ids_def)
  have "node_ok g w3" using ok node_ok_still [OF s(2)] by simp
  from observe_all_Inr [OF this o [unfolded ids]] have h0: "map fst hosts0 = node_ids w" "\<forall>(a, v) \<in> set hosts0. host_fact w g a v"
    using host_fact_still [OF s(2)] by auto
  let ?hosts = "case node of Inl _ \<Rightarrow> map (\<lambda>(a, v). (a, distrust v)) hosts0 | Inr _ \<Rightarrow> hosts0"
  let ?engine = "case eng of Inl _ \<Rightarrow> [] | Inr vs \<Rightarrow> vs"
  have "map fst ?hosts = node_ids w \<and> (\<forall>(a, v) \<in> set ?hosts. host_fact w g a v)"
  proof (cases node)
    case (Inl x)
    have "map (fst \<circ> (\<lambda>(a, v). (a, distrust v))) hosts0 = map fst hosts0" by (rule map_cong) auto
    with Inl h0 show ?thesis by (auto simp: distrust_fact)
  qed (use h0 in simp)
  moreover have "if inv_available L then kw_engine_up w \<and>
      (\<forall>v \<in> set ?engine. \<exists>info. listed_worker w info \<and> managed_kata info \<and> v = engine_vm (kw_host w) g info) \<and>
        (\<forall>info. listed_worker w info \<longrightarrow> engine_vm (kw_host w) g info \<in> set ?engine) else ?engine = []"
  proof (cases eng)
    case (Inr vs)
    from containerd_vms_Inr [OF e [unfolded this]] Inr L(2) listed_still [OF s(3)] show ?thesis
      unfolding listed_worker_def fun_eq_iff by fastforce
  qed (use L(2) in simp)
  ultimately show ?thesis using L(1) unfolding L(2) [symmetric] reconciled_def by blast
qed

lemma engine_vm_simps [simp]:
  "vm_allocation (engine_vm h g i) = label i allocation_label" "vm_id (engine_vm h g i) = wi_id i"
  "vm_container (engine_vm h g i) = wi_id i" "\<not> vm_verified (engine_vm h g i)" "\<not> vm_orphan (engine_vm h g i)"
  "vm_present (engine_vm h g i)"
  by (simp_all add: engine_vm_def Let_def zero_vm_def)

lemma reconciled_host: "reconciled w g hosts engine b \<Longrightarrow> (a, h) \<in> set hosts \<Longrightarrow> host_fact w g a h"
  by (auto simp: reconciled_def)

lemma reconciled_engine:
  "reconciled w g hosts engine b \<Longrightarrow> r \<in> set engine \<Longrightarrow> b \<and> vm_present r \<and> \<not> vm_verified r \<and> \<not> vm_orphan r"
  by (fastforce simp: reconciled_def split: if_splits)

lemma merged_vm:
  assumes "reconciled w g hosts engine b" and "r \<in> set engine"
  shows "vm_present (merge_vm hosts r) \<and> \<not> vm_orphan (merge_vm hosts r) \<and> vm_allocation (merge_vm hosts r) = vm_allocation r"
proof (cases "map_of hosts (vm_allocation r)")
  case None
  with reconciled_engine [OF assms] show ?thesis by (simp add: merge_vm_def)
next
  case (Some h)
  with reconciled_host [OF assms(1) map_of_SomeD [OF Some]] show ?thesis
    by (simp add: merge_vm_def Let_def host_fact_def)
qed

lemma reconciled_orphan:
  assumes r: "reconciled w g hosts engine b" and m: "v \<in> set (reconcile_vms hosts engine b)" and o: "vm_orphan v"
  shows "kw_engine_up w \<and> (\<forall>info. listed_worker w info \<longrightarrow> label info allocation_label \<noteq> vm_allocation v)"
  using m
proof (cases rule: reconcile_vms_cases)
  case (listed c)
  with o merged_vm [OF r listed(1)] show ?thesis by (auto simp: reconcile_record_def Let_def classify_orphan split: if_splits)
next
  case (host a h)
  have f: "host_fact w g a h" using r host(1) by (auto simp: reconciled_def)
  then have b: "b" using o by (simp add: host(3) classify_orphan host_fact_def)
  have "label info allocation_label \<noteq> a" if "listed_worker w info" for info
  proof -
    have "engine_vm (kw_host w) g info \<in> set engine" using r b that by (simp add: reconciled_def)
    then show ?thesis using host(2) by (metis engine_vm_simps(1) image_eqI)
  qed
  moreover have "vm_allocation v = a" using f by (simp add: host(3) host_fact_def)
  ultimately show ?thesis using r b by (simp add: reconciled_def)
qed

lemma inventory_orphan:
  assumes ok: "node_ok g w" and i: "inventory_unlocked g w = (Inr L, w')" and v: "v \<in> set (inv_vms L)" "vm_orphan v"
  shows "kw_engine_up w \<and> (\<forall>info. listed_worker w info \<longrightarrow> label info allocation_label \<noteq> vm_allocation v)"
  using inventory_unlocked_Inr [OF ok i] reconciled_orphan [of w g _ _ "inv_available L" v] v by auto

text \<open>The inventory never guesses.  While containerd cannot be asked every VM is unknown and none is an
  orphan.  A VM is an orphan exactly when it has no containerd record, and then no worker containerd lists
  carries its allocation.  A VM shown as running or paused is one containerd reports so, without any
  problem, and every process in its envelope has been attested as a pinned binary of that very worker, the
  Kata runtime among them.  Taking the inventory changes nothing on the node.\<close>

theorem inventory_sound:
  assumes ok: "node_ok g w" and i: "inventory_unlocked g w = (Inr L, w')"
  shows "still w' = still w \<and>
    (\<forall>v \<in> set (inv_vms L).
       (\<not> inv_available L \<longrightarrow> vm_state v = unknown_state \<and> \<not> vm_orphan v) \<and>
       (vm_orphan v \<longleftrightarrow> inv_available L \<and> \<not> vm_present v) \<and>
       (vm_orphan v \<longrightarrow> kw_engine_up w \<and> (\<forall>info. listed_worker w info \<longrightarrow> label info allocation_label \<noteq> vm_allocation v)) \<and>
       (vm_state v \<in> set active_states \<longrightarrow> (\<exists>info. listed_worker w info \<and> managed_kata info \<and> vm_container v = wi_id info \<and>
          label info allocation_label = vm_allocation v \<and> vm_state v = vm_engine v) \<and> host_attested w g v))"
proof -
  obtain hosts engine where L: "inv_vms L = reconcile_vms hosts engine (inv_available L)" and r: "reconciled w g hosts engine (inv_available L)"
    using inventory_unlocked_Inr [OF assms] by blast
  have "(\<not> inv_available L \<longrightarrow> vm_state v = unknown_state \<and> \<not> vm_orphan v) \<and> (vm_orphan v \<longleftrightarrow> inv_available L \<and> \<not> vm_present v) \<and>
       (vm_orphan v \<longrightarrow> kw_engine_up w \<and> (\<forall>info. listed_worker w info \<longrightarrow> label info allocation_label \<noteq> vm_allocation v)) \<and>
       (vm_state v \<in> set active_states \<longrightarrow> (\<exists>info. listed_worker w info \<and> managed_kata info \<and> vm_container v = wi_id info \<and>
          label info allocation_label = vm_allocation v \<and> vm_state v = vm_engine v) \<and> host_attested w g v)"
    if m: "v \<in> set (inv_vms L)" for v
    using m unfolding L
  proof (cases rule: reconcile_vms_cases)
    case (listed c)
    note e = reconciled_engine [OF r listed(1)] and mv = merged_vm [OF r listed(1)]
    define u where "u = (if 1 < allocation_count engine (vm_allocation c) then add_problem DuplicateAllocation (merge_vm hosts c) else merge_vm hosts c)"
    have v: "v = classify_vm (inv_available L) u" by (simp add: listed(2) reconcile_record_def Let_def u_def)
    have u: "vm_present u" "\<not> vm_orphan u" using mv by (simp_all add: u_def)
    have act: "(\<exists>info. listed_worker w info \<and> managed_kata info \<and> vm_container v = wi_id info \<and>
          label info allocation_label = vm_allocation v \<and> vm_state v = vm_engine v) \<and> host_attested w g v"
      if a: "vm_state v \<in> set active_states"
    proof -
      have c: "vm_problems u = []" "vm_verified u" "vm_engine u = vm_state v" using classify_active a unfolding v by blast+
      then have eq: "u = merge_vm hosts c" by (auto simp: u_def split: if_splits)
      obtain h where h: "map_of hosts (vm_allocation c) = Some h"
        using c(2) e unfolding eq by (cases "map_of hosts (vm_allocation c)") (auto simp: merge_vm_def)
      have "host_attested w g u" using merge_active [OF reconciled_host [OF r map_of_SomeD [OF h]] h] c eq by simp
      then have "host_attested w g v" by (simp add: v host_attested_def)
      moreover obtain info where "listed_worker w info" "managed_kata info" "c = engine_vm (kw_host w) g info"
        using r e listed(1) by (auto simp: reconciled_def)
      moreover have "vm_container v = vm_container c" "vm_allocation v = vm_allocation c" "vm_state v = vm_engine v"
        using mv c(3) by (simp_all add: v eq)
      ultimately show ?thesis by auto
    qed
    have "vm_present v" "\<not> vm_orphan v" using u by (simp_all add: v classify_orphan)
    with e act show ?thesis by blast
  next
    case (host a h)
    note f = reconciled_host [OF r host(1)]
    have p: "\<not> vm_present v" and q: "vm_orphan v \<longleftrightarrow> inv_available L"
      using f by (simp_all add: host(3) classify_orphan host_fact_def)
    have "vm_state v \<notin> set active_states" using classify_active p host(3) by fastforce
    then show ?thesis using p q classify_unavailable host(3) reconciled_orphan [OF r m [unfolded L]] by blast
  qed
  with quiet_step [OF quiet_inventory_unlocked i] show ?thesis by blast
qed

lemma node_ids_mem:
  assumes "valid_allocation aid" and "recorded (kw_records w) aid \<noteq> None \<or> (\<exists>nd. group_at w aid = Some nd \<and> gn_dir nd)"
  shows "aid \<in> set (node_ids w)"
  using assms(2)
proof
  assume "recorded (kw_records w) aid \<noteq> None"
  then have "aid \<in> fst ` set (kw_records w)" by (auto simp: recorded_def split: option.splits dest: map_of_SomeD intro: rev_image_eqI)
  with assms(1) show ?thesis by (auto simp: node_ids_def record_ids_def)
next
  assume "\<exists>nd. group_at w aid = Some nd \<and> gn_dir nd"
  then obtain nd where "(group_entry aid, nd) \<in> set (kw_groups w)" "gn_dir nd" by (auto simp: group_at_def dest: map_of_SomeD)
  moreover have "trim_prefix (group_entry aid) group_prefix = aid" by (simp add: group_entry_def trim_prefix_def)
  ultimately have "aid \<in> set (fst (group_ids (kw_groups w)))" using assms(1) by (force simp: group_ids_def Let_def)
  then show ?thesis by (simp add: node_ids_def)
qed

text \<open>The inventory loses nothing.  It is sorted by id; every allocation with a record or a cgroup
  appears in it, orphaned, unknown or merged with its worker; and once containerd answered, every Kata
  worker it lists appears under its own id and allocation.\<close>

theorem inventory_complete:
  assumes ok: "node_ok g w" and i: "inventory_unlocked g w = (Inr L, w')"
  shows "sorted (map vm_id (inv_vms L)) \<and>
    (\<forall>aid. valid_allocation aid \<longrightarrow> recorded (kw_records w) aid \<noteq> None \<or> (\<exists>nd. group_at w aid = Some nd \<and> gn_dir nd) \<longrightarrow>
       (\<exists>v \<in> set (inv_vms L). vm_allocation v = aid)) \<and>
    (inv_available L \<longrightarrow> (\<forall>info. listed_worker w info \<longrightarrow>
       (\<exists>v \<in> set (inv_vms L). vm_id v = wi_id info \<and> vm_present v \<and> vm_allocation v = label info allocation_label)))"
proof -
  obtain hosts engine where L: "inv_vms L = reconcile_vms hosts engine (inv_available L)" and r: "reconciled w g hosts engine (inv_available L)"
    using inventory_unlocked_Inr [OF assms] by blast
  have listed: "\<exists>v \<in> set (inv_vms L). vm_id v = vm_id c \<and> vm_present v \<and> vm_allocation v = vm_allocation c" if "c \<in> set engine" for c
  proof -
    have "reconcile_record hosts engine (inv_available L) c \<in> set (inv_vms L)" using that by (simp add: L reconcile_vms_def sort_vms_def)
    moreover have "vm_allocation (reconcile_record hosts engine (inv_available L) c) = vm_allocation (merge_vm hosts c)"
      by (simp add: reconcile_record_def Let_def)
    ultimately show ?thesis using merged_vm [OF r that] by (metis reconcile_record_simps(1,3))
  qed
  have host: "\<exists>v \<in> set (inv_vms L). vm_allocation v = aid" if a: "aid \<in> set (node_ids w)" for aid
  proof (cases "aid \<in> vm_allocation ` set engine")
    case True
    then obtain c where "c \<in> set engine" "vm_allocation c = aid" by blast
    with listed show ?thesis by blast
  next
    case False
    have "aid \<in> set (map fst hosts)" using a r by (simp add: reconciled_def)
    then obtain h where h: "(aid, h) \<in> set hosts" by auto
    with False have "classify_vm (inv_available L) h \<in> set (inv_vms L)" by (force simp: L reconcile_vms_def sort_vms_def unclaimed_def)
    moreover have "vm_allocation h = aid" using reconciled_host [OF r h] by (simp add: host_fact_def)
    ultimately show ?thesis by (intro bexI) auto
  qed
  have "\<exists>v \<in> set (inv_vms L). vm_id v = wi_id info \<and> vm_present v \<and> vm_allocation v = label info allocation_label"
    if "inv_available L" "listed_worker w info" for info
    using listed [of "engine_vm (kw_host w) g info"] r that by (simp add: reconciled_def)
  with host node_ids_mem reconcile_vms_ids show ?thesis unfolding L by blast
qed

section \<open>Recovery\<close>

text \<open>What holds of a VM that may be recovered.\<close>

definition recoverable :: "kworld \<Rightarrow> guard \<Rightarrow> string \<Rightarrow> bool \<Rightarrow> vm \<Rightarrow> bool" where
  "recoverable w g value force v \<longleftrightarrow> refers_to value v \<and> kw_engine_up w \<and>
     (\<forall>info. listed_worker w info \<longrightarrow> label info allocation_label \<noteq> vm_allocation v) \<and>
     (vm_container v \<noteq> [] \<longrightarrow> kw_workers w (vm_container v) = Inl ENoWorker) \<and> (vm_populated v \<longrightarrow> force) \<and>
     (\<exists>r. recorded (kw_records w) (vm_allocation v) = Some r \<and>
        (al_worker r \<noteq> [] \<longrightarrow> kw_workers w (al_worker r) = Inl ENoWorker) \<and>
        (vm_container v = [] \<longrightarrow> recovery_grace \<le> kw_now w - al_created r))"

lemma resolve_vm_Inr: "resolve_vm L value = Inr v \<Longrightarrow> v \<in> set (inv_vms L) \<and> refers_to value v"
proof -
  assume "resolve_vm L value = Inr v"
  then have "filter (refers_to value) (inv_vms L) = [v]" by (auto simp: resolve_vm_def split: if_splits list.splits)
  then have "v \<in> set (filter (refers_to value) (inv_vms L))" by simp
  then show ?thesis by simp
qed

lemma confirm_absent_Inr:
  assumes "confirm_absent v w = (Inr u, w')"
  shows "vm_container v \<noteq> [] \<longrightarrow> kw_workers w (vm_container v) = Inl ENoWorker"
proof (intro impI)
  assume c: "vm_container v \<noteq> []"
  obtain w1 w2 where k: "ksys w = (Inr (), w1)" and i: "inspect_worker (vm_container v) w1 = (Inl ENoWorker, w2)"
    using assms c by (auto simp: confirm_absent_def io_iffs)
  obtain x w3 where k2: "ksys w1 = (x, w3)" by (cases "ksys w1")
  have "kw_workers w3 = kw_workers w" using ksys_step [OF k] ksys_step [OF k2] by (simp add: same_core_def)
  with i k2 ksys_step [OF k2] show "kw_workers w (vm_container v) = Inl ENoWorker"
    by (cases x) (auto simp: inspect_worker_def bindIO_def)
qed

lemma recover_start_Inr:
  assumes ok: "node_ok g w" and s: "recover_start g value force w = (Inr v, w')"
  shows "still w' = still w \<and> recoverable w g value force v"
proof -
  obtain u1 w1 L w2 u3 w3 u4 where a: "admission_lock w = (Inr u1, w1)" and i: "inventory_unlocked g w1 = (Inr L, w2)"
    and av: "inv_available L" and rv: "resolve_vm L value = Inr v" and cr: "can_recover v force (kw_now w2) = None"
    and ca: "confirm_absent v w2 = (Inr u3, w3)" and va: "validate_node g w3 = (Inr u4, w')"
    using s by (auto simp: recover_start_def io_iffs require_Inr)
  have s1: "still w1 = still w" using quiet_step [OF quiet_still_admission_lock a] .
  have s2: "still w2 = still w" using quiet_step [OF quiet_inventory_unlocked i] s1 by simp
  have w2: "kw_now w2 = kw_now w" "kw_workers w2 = kw_workers w" using still_same [OF s2] by (simp_all add: same_core_def)
  have ok1: "node_ok g w1" using ok node_ok_still [OF s1] by simp
  obtain hosts engine where L: "inv_vms L = reconcile_vms hosts engine (inv_available L)" and r: "reconciled w1 g hosts engine (inv_available L)"
    using inventory_unlocked_Inr [OF ok1 i] by blast
  have v: "v \<in> set (inv_vms L)" "refers_to value v" using resolve_vm_Inr [OF rv] by blast+
  have can: "vm_orphan v" "\<not> vm_present v" "vm_tracked v" "vm_populated v \<longrightarrow> force"
    "vm_container v = [] \<longrightarrow> recovery_grace \<le> kw_now w - vm_created v"
    using cr w2 by (auto simp: can_recover_def split: if_splits)
  have own: "kw_engine_up w1 \<and> (\<forall>info. listed_worker w1 info \<longrightarrow> label info allocation_label \<noteq> vm_allocation v)"
    using inventory_orphan [OF ok1 i v(1) can(1)] .
  obtain h where h: "host_fact w1 g (vm_allocation v) h" "v = classify_vm (inv_available L) h"
    using v(1) unfolding L
  proof (cases rule: reconcile_vms_cases)
    case (listed c)
    with merged_vm [OF r listed(1)] can(2) show ?thesis by simp
  next
    case (host a h)
    have "vm_allocation v = a" using reconciled_host [OF r host(1)] by (simp add: host(3) host_fact_def)
    with that reconciled_host [OF r host(1)] host(3) show ?thesis by blast
  qed
  then obtain rec where rec: "recorded (kw_records w1) (vm_allocation v) = Some rec" "vm_created v = al_created rec"
    "al_worker rec \<noteq> [] \<longrightarrow> vm_container v = al_worker rec"
    using can(3) by (auto simp: host_fact_def)
  have "kw_records w1 = kw_records w" using still_same [OF s1] by (simp add: same_core_def)
  moreover have "kw_engine_up w1 = kw_engine_up w" "listed_worker w1 = listed_worker w" using listed_still [OF s1] by auto
  moreover have "still w' = still w"
    using quiet_step [OF quiet_still_validate va] s2 quiet_step [OF quiet_confirm ca] by simp
  ultimately show ?thesis using own rec can v(2) confirm_absent_Inr [OF ca] w2(2) unfolding recoverable_def by auto
qed

lemma recover_kill_cases:
  assumes k: "recover_kill g v w = (res, w')"
  shows "(still w' = still w \<or> vm_populated v \<and> (\<exists>ps. scanned w g (vm_allocation v) (vm_container v) ps)) \<and> cleared (vm_allocation v) w w'"
proof (cases "vm_populated v")
  case False
  with k show ?thesis by (simp add: recover_kill_def cleared_refl)
next
  case True
  obtain x w1 where s: "scan g (vm_allocation v) (vm_container v) False w = (x, w1)" by (cases "scan g (vm_allocation v) (vm_container v) False w")
  have st: "still w1 = still w" using quiet_step [OF quiet_still_scan s] .
  have c: "cleared (vm_allocation v) w w1" using cleared_still [OF cleared_refl st] .
  show ?thesis
  proof (cases x)
    case (Inl e)
    with k s True st c show ?thesis by (auto simp: recover_kill_def bindIO_def)
  next
    case (Inr ps)
    with k s True have kg: "kill_group (vm_allocation v) w1 = (res, w')" by (simp add: recover_kill_def bindIO_def)
    have "scanned w g (vm_allocation v) (vm_container v) ps" using scan_Inr(1) s Inr by blast
    moreover have "cleared (vm_allocation v) w w'"
      using kill_group_cases [OF kg]
    proof
      assume "still w' = still w1"
      with c show ?thesis by (rule cleared_still)
    next
      assume "\<exists>nd w2. still w2 = still w1 \<and> group_at w1 (vm_allocation v) = Some nd \<and>
         w' = put_group (vm_allocation v) (nd\<lparr>gn_tree := map (\<lambda>(p, s). (p, [])) (gn_tree nd)\<rparr>) w2"
      then obtain nd w2 where w2: "still w2 = still w1" "group_at w1 (vm_allocation v) = Some nd"
        "w' = put_group (vm_allocation v) (nd\<lparr>gn_tree := map (\<lambda>(p, s). (p, [])) (gn_tree nd)\<rparr>) w2" by blast
      have "group_at w2 (vm_allocation v) = Some nd" using w2(2) still_view [OF w2(1), of "vm_allocation v"] by simp
      from cleared_put [OF cleared_still [OF c w2(1)] this] w2(3) show ?thesis by simp
    qed
    ultimately show ?thesis using True by blast
  qed
qed

text \<open>C16: Recovering an orphan is safe.  Whatever its result it keeps the ledger invariant and touches no
  other allocation.  It changes anything at all only for a VM that the given reference names, that is
  tracked by a record, that no worker containerd lists owns, and whose recorded worker, and the worker
  named by its cgroup, containerd itself reports as absent; an allocation that never had a worker must be
  five minutes old.  Processes are killed only when forced and only after every one of them has been attested.\<close>

theorem recover_orphan_safe:
  assumes ok: "node_ok g w" and env: "\<And>n v. node_ok g v \<Longrightarrow> node_ok g (env n v)"
    and r: "recover_orphan env ended g value force w = Some (res, w')"
  shows "node_ok g w' \<and>
    (still w' = still w \<and> res \<noteq> Inr () \<or>
     (\<exists>v w1. recoverable w g value force v \<and>
        (\<forall>a. a \<noteq> vm_allocation v \<and> (\<forall>n x. untouched a x (env n x)) \<longrightarrow> untouched a w w') \<and>
        (still w1 = still w \<or> force \<and> vm_populated v \<and> (\<exists>ps. scanned w g (vm_allocation v) (vm_container v) ps)) \<and>
        (release_unlocked env ended g (vm_allocation v) (vm_container v) w1 = Some (res, w') \<or> w' = w1 \<and> res \<noteq> Inr ())))"
proof -
  obtain x w1 where s: "recover_start g value force w = (x, w1)" by (cases "recover_start g value force w")
  have st: "still w1 = still w" using quiet_step [OF quiet_recover_start s] .
  have ok1: "node_ok g w1" using ok node_ok_still [OF st] by simp
  show ?thesis
  proof (cases x)
    case (Inl e)
    with r s st ok1 show ?thesis by (auto simp: recover_orphan_def)
  next
    case (Inr v)
    then have rc: "recoverable w g value force v" using recover_start_Inr [OF ok] s by blast
    obtain y w2 where k: "recover_kill g v w1 = (y, w2)" by (cases "recover_kill g v w1")
    note c = recover_kill_cases [OF k]
    have ok2: "node_ok g w2" using cleared_node_ok [OF ok1] c by blast
    have sc: "scanned w1 = scanned w" using scanned_still [OF st] by (simp add: fun_eq_iff)
    have killed: "still w2 = still w \<or> force \<and> vm_populated v \<and> (\<exists>ps. scanned w g (vm_allocation v) (vm_container v) ps)"
      using c st rc unfolding sc by (auto simp: recoverable_def)
    have others: "untouched a w w2" if "a \<noteq> vm_allocation v" for a
    proof -
      have "untouched a w1 w2" using cleared_others [of _ w1 w2] c that by (auto simp: untouched_def)
      with still_same [OF st] show ?thesis by (simp add: untouched_def same_core_def group_at_def)
    qed
    show ?thesis
    proof (cases y)
      case (Inl e)
      then have "w' = w2 \<and> res \<noteq> Inr ()" using r s Inr k by (auto simp: recover_orphan_def)
      with ok2 rc killed others show ?thesis by blast
    next
      case (Inr u)
      then have ru: "release_unlocked env ended g (vm_allocation v) (vm_container v) w2 = Some (res, w')"
        using r s \<open>x = Inr v\<close> k by (simp add: recover_orphan_def)
      have ok': "node_ok g w'"
        by (rule release_unlocked_keeps [where I = "node_ok g", OF _ _ ok2 ru]) (use cleared_node_ok let_go_cleared env in blast)+
      have "untouched a w w'" if "a \<noteq> vm_allocation v" "\<forall>n x. untouched a x (env n x)" for a
        by (rule release_unlocked_keeps [where I = "untouched a w", OF _ _ others [OF that(1)] ru])
          (use that cleared_others [OF let_go_cleared] in \<open>auto simp: untouched_def\<close>)
      with ok' rc killed ru show ?thesis by blast
    qed
  qed
qed

section \<open>Samples\<close>

text \<open>The sample worker as containerd lists it, and the same envelope once containerd has lost the worker.\<close>

definition sample_listed :: kworld where
  "sample_listed = sample_running\<lparr>kw_records := [(sample_aid, own_record sample_bound)], kw_listed := [sample_worker]\<rparr>"

definition sample_orphan :: kworld where
  "sample_orphan = sample_running\<lparr>kw_records := [(sample_aid, own_record sample_bound)], kw_workers := (\<lambda>_. Inl ENoWorker)\<rparr>"

lemma sample_worlds: "sample_state sample_bound sample_listed" "sample_state sample_bound sample_orphan"
  using sample_states(2) by (simp_all add: sample_state_def sample_listed_def sample_orphan_def put_record_def sample_running_def sample_bound_id)

lemma sample_worlds_ok: "node_ok sample_guard sample_listed" "node_ok sample_guard sample_orphan"
proof -
  have "gc_max (gd_config sample_guard) = 2" by (simp add: sample_guard_def sample_guard_config_def)
  then show "node_ok sample_guard sample_listed" "node_ok sample_guard sample_orphan"
    using sample_registry sample_bound_ok sample_ids
    by (auto simp: node_ok_def ledger_ok_def records_ok_def record_ok_def own_record_def sample_listed_def sample_orphan_def
        sample_running_def sample_world_def count_entries_def recorded_def split: if_splits)
qed

lemma sample_listings: "fst (group_ids [(group_entry sample_aid, sample_group)]) = [sample_aid]"
  "fst (record_ids [(sample_aid, own_record r)]) = [sample_aid]"
  by (simp_all add: group_ids_def record_ids_def Let_def sample_ids sample_group_def trim_prefix_def group_entry_def)

definition sample_seen :: vm where
  "sample_seen = (host_vm sample_guard sample_aid)\<lparr>vm_tracked := True, vm_profile := ''wide'', vm_name := ''dock'',
     vm_container := sample_worker, vm_created := 900\<rparr>"

definition sample_resources :: "(string \<times> string) list" where
  "sample_resources = [(''cpu.max'', ''800000 100000''), (''memory.max'', ''1342177280''), (''memory.current'', ''4096''),
     (''memory.swap.max'', ''0''), (''pids.max'', ''4096''), (''pids.current'', ''3''), (''memory.events'', ''oom 0'')]"

definition sample_vm :: vm where
  "sample_vm = sample_seen\<lparr>vm_allocated := True, vm_populated := True, vm_resources := sample_resources,
     vm_processes := [(77, runtime_kind)], vm_verified := True\<rparr>"

lemma sample_bound_fields: "al_name sample_bound = ''dock''" "al_worker sample_bound = sample_worker" "al_created sample_bound = 900"
  "al_profile sample_bound = ''wide''" "rp_name sample_profile = ''wide''"
  by (simp_all add: sample_bound_def sample_reservation_def new_allocation_def sample_profile_def)

lemma sample_read_events: "GoStrings.fields ''populated 1 frozen 0'' = [populated_key, ''1'', ''frozen'', ''0'']"
  by code_simp

lemma sample_trims: "trim_space ''800000 100000'' = ''800000 100000''" "trim_space ''1342177280'' = ''1342177280''"
  "trim_space ''0'' = ''0''" "trim_space ''4096'' = ''4096''" "trim_space ''3'' = ''3''" "trim_space ''oom 0'' = ''oom 0''"
  by code_simp+

lemma sample_files:
  "map_of (gn_files sample_group) ''cgroup.events'' = Some ''populated 1 frozen 0''"
  "map_of (gn_files sample_group) ''cpu.max'' = Some ''800000 100000''"
  "map_of (gn_files sample_group) ''memory.max'' = Some ''1342177280''"
  "map_of (gn_files sample_group) ''memory.current'' = Some ''4096''"
  "map_of (gn_files sample_group) ''memory.swap.max'' = Some ''0''"
  "map_of (gn_files sample_group) ''pids.max'' = Some ''4096''"
  "map_of (gn_files sample_group) ''pids.current'' = Some ''3''"
  "map_of (gn_files sample_group) ''memory.events'' = Some ''oom 0''"
  "map_of (gn_files sample_group) ''memory.peak'' = None"
  by (simp_all add: sample_group_def sample_group_limits sample_limits_def sample_usage_def)

lemma observe_resources_found:
  assumes "\<And>n. n \<in> set ns \<Longrightarrow> read_control aid n w = (case f n of None \<Rightarrow> Inl ENotFound | Some s \<Rightarrow> Inr s, w)"
    and "\<And>n. n \<in> set ns \<Longrightarrow> f n = None \<Longrightarrow> n = optional_file"
  shows "observe_resources aid ns v w =
     (Inr (v\<lparr>vm_resources := vm_resources v @ concat (map (\<lambda>n. case f n of None \<Rightarrow> [] | Some s \<Rightarrow> [(n, trim_space s)]) ns)\<rparr>), w)"
  using assms
proof (induction ns arbitrary: v)
  case (Cons n ns)
  then show ?case by (cases "f n") (simp_all add: bindIO_def catchIO_def)
qed simp

lemma sample_observed:
  assumes s: "sample_state sample_bound w"
  shows "observe_envelope sample_guard sample_aid w = (Inr sample_vm, w)"
proof -
  note st = sample_steps [OF s]
  let ?v1 = "sample_seen\<lparr>vm_allocated := True\<rparr>"
  let ?v2 = "?v1\<lparr>vm_populated := True\<rparr>"
  let ?v3 = "?v2\<lparr>vm_resources := sample_resources\<rparr>"
  have rec: "observe_record sample_guard sample_aid w = (Inr sample_seen, w)"
    by (simp add: observe_record_def bindIO_def catchIO_def sample_read [OF s] sample_bound_fields sample_wide_profile sample_seen_def)
  have ctl: "read_control sample_aid n w = (case map_of (gn_files sample_group) n of None \<Rightarrow> Inl ENotFound | Some v \<Rightarrow> Inr v, w)" for n
    by (cases "map_of (gn_files sample_group) n") (use st in \<open>simp_all add: read_control_def bindIO_def\<close>)
  have ev: "observe_events sample_aid ?v1 w = (Inr ?v2, w)"
    by (simp add: observe_events_def bindIO_def catchIO_def ctl sample_files read_events_def sample_read_events event_pair_def populated_key_def
        sample_seen_def host_vm_def zero_vm_def)
  have ch: "observe_children sample_aid ?v2 w = (Inr ?v2, w)"
    using st by (simp add: observe_children_def bindIO_def catchIO_def child_groups_def sample_group_def sample_sandbox_def observe_child_def)
  have rs: "observe_resources sample_aid resource_files ?v2 w = (Inr ?v3, w)"
  proof (subst observe_resources_found [where f = "map_of (gn_files sample_group)"])
    show "n = optional_file" if "n \<in> set resource_files" "map_of (gn_files sample_group) n = None" for n
      using that sample_files by (auto simp: resource_files_def optional_file_def)
  qed (simp_all add: ctl resource_files_def sample_files sample_trims, simp add: sample_resources_def sample_seen_def host_vm_def zero_vm_def)
  have "scan sample_guard sample_aid sample_worker True w = (Inr [(77, runtime_kind)], w)" by (rule sample_scan [OF s])
  then have "scan_processes sample_guard sample_aid sample_worker True w = (Inr ([(77, runtime_kind)], None), w)"
    by (auto simp: scan_def io_iffs split: option.splits)
  then have ps: "observe_processes sample_guard sample_aid ?v3 w = (Inr sample_vm, w)"
    by (simp add: observe_processes_def bindIO_def sample_vm_def sample_seen_def)
  have "\<not> untrusted_node sample_group" by (simp add: untrusted_node_def sample_group_def)
  moreover have "vm_tracked ?v1" by (simp add: sample_seen_def)
  ultimately show ?thesis
    using st rec ev ch rs ps by (simp add: observe_envelope_def observe_group_def Let_def bindIO_def catchIO_def)
qed

lemma sample_inventory:
  assumes s: "sample_state sample_bound w" and c: "containerd_vms sample_guard w = (Inr rows, w)"
  shows "\<exists>L. inventory_unlocked sample_guard w = (Inr L, w) \<and> inv_available L \<and>
    inv_vms L = reconcile_vms [(sample_aid, sample_vm)] rows True"
proof -
  note st = sample_steps [OF s]
  have "kw_groups w = [(group_entry sample_aid, sample_group)]" "kw_records w = [(sample_aid, own_record sample_bound)]"
    using s by (simp_all add: sample_state_def)
  then show ?thesis
    using st sample_observed [OF s] c sample_listings
    by (simp add: inventory_unlocked_def bindIO_def catchIO_def case_prod_unfold Let_def)
qed

lemma sample_listed_rows: "containerd_vms sample_guard sample_listed = (Inr [engine_vm sample_node sample_guard sample_info], sample_listed)"
proof -
  have w: "kw_engine_up sample_listed" "kw_listed sample_listed = [sample_worker]" "kw_workers sample_listed sample_worker = Inr sample_info"
    "kw_host sample_listed = sample_node" "managed_kata sample_info"
    by (simp_all add: sample_listed_def sample_running_def sample_world_def managed_kata_def sample_info_def label_def managed_label_def
        isolation_label_def)
  then show ?thesis
    using sample_steps [OF sample_worlds(1)] by (simp add: containerd_vms_def bindIO_def catchIO_def inspect_worker_def)
qed

lemma sample_orphan_rows: "containerd_vms sample_guard sample_orphan = (Inr [], sample_orphan)"
  using sample_steps [OF sample_worlds(2)]
  by (simp add: containerd_vms_def bindIO_def) (simp add: sample_orphan_def sample_running_def sample_world_def)

lemma sample_fits: "settings_fit sample_node sample_guard sample_info"
  by code_simp

lemma sample_labels: "label sample_info allocation_label = sample_aid" "wi_id sample_info = sample_worker" "wi_state sample_info = Some ''running''"
  by (simp_all add: sample_info_def label_def allocation_label_def managed_label_def isolation_label_def)

lemma sample_listed_state: "\<exists>v. reconcile_vms [(sample_aid, sample_vm)] [engine_vm sample_node sample_guard sample_info] True = [v] \<and> vm_state v = ''running''"
proof -
  have "engine_vm sample_node sample_guard sample_info = zero_vm\<lparr>vm_id := sample_worker, vm_container := sample_worker, vm_present := True,
      vm_name := trim_prefix (wi_name sample_info) ''/'', vm_allocation := sample_aid,
      vm_profile := rp_name (profile_or_zero sample_guard (label sample_info resource_label)), vm_engine := ''running'',
      vm_created := wi_created sample_info\<rparr>"
    by (simp add: engine_vm_def sample_fits sample_labels)
  then show ?thesis
    by (simp add: reconcile_vms_def sort_vms_def unclaimed_def reconcile_record_def merge_vm_def allocation_count_def Let_def
        classify_vm_def active_states_def zero_vm_def sample_vm_def sample_seen_def host_vm_def)
qed

theorem inventory_sound_witness:
  "\<exists>L v. fst (inventory_unlocked sample_guard sample_listed) = Inr L \<and> inv_vms L = [v] \<and> vm_state v = ''running'' \<and>
     host_attested sample_listed sample_guard v"
proof -
  obtain L where i: "inventory_unlocked sample_guard sample_listed = (Inr L, sample_listed)"
    and L: "inv_vms L = reconcile_vms [(sample_aid, sample_vm)] [engine_vm sample_node sample_guard sample_info] True"
    using sample_inventory [OF sample_worlds(1) sample_listed_rows] by blast
  obtain v where v: "inv_vms L = [v]" "vm_state v = ''running''" using sample_listed_state L by auto
  then have "vm_state v \<in> set active_states" by (simp add: active_states_def)
  with inventory_sound [OF sample_worlds_ok(1) i] v i show ?thesis by auto
qed

theorem inventory_complete_witness:
  "\<exists>L. fst (inventory_unlocked sample_guard sample_listed) = Inr L \<and>
     (\<exists>v. v \<in> set (inv_vms L) \<and> vm_id v = sample_worker \<and> vm_present v \<and> vm_allocation v = sample_aid)"
proof -
  obtain L where i: "inventory_unlocked sample_guard sample_listed = (Inr L, sample_listed)" and a: "inv_available L"
    using sample_inventory [OF sample_worlds(1) sample_listed_rows] by blast
  have "listed_worker sample_listed sample_info"
    by (auto simp: listed_worker_def sample_listed_def sample_running_def intro!: exI [of _ sample_worker])
  with inventory_complete [OF sample_worlds_ok(1) i] a i sample_labels show ?thesis by (fastforce simp: sample_labels)
qed

lemma sample_recovery:
  "\<exists>v. recover_start sample_guard sample_aid True sample_orphan = (Inr v, sample_orphan) \<and> vm_allocation v = sample_aid \<and>
     vm_container v = sample_worker \<and> vm_populated v"
proof -
  note st = sample_steps [OF sample_worlds(2)]
  obtain L where i: "inventory_unlocked sample_guard sample_orphan = (Inr L, sample_orphan)" and a: "inv_available L"
    and L: "inv_vms L = reconcile_vms [(sample_aid, sample_vm)] [] True"
    using sample_inventory [OF sample_worlds(2) sample_orphan_rows] by blast
  let ?v = "classify_vm True sample_vm"
  have v: "vm_id ?v = sample_aid" "vm_allocation ?v = sample_aid" "vm_container ?v = sample_worker" "vm_populated ?v" "vm_tracked ?v"
    "\<not> vm_present ?v" "vm_orphan ?v"
    by (simp_all add: classify_vm_def sample_vm_def sample_seen_def host_vm_def zero_vm_def)
  have "inv_vms L = [?v]" by (simp add: L reconcile_vms_def sort_vms_def unclaimed_def)
  moreover have "sample_aid \<noteq> []" "sample_worker \<noteq> []" by (simp_all add: sample_aid_def sample_worker_def)
  ultimately have r: "resolve_vm L sample_aid = Inr ?v" using v by (simp add: resolve_vm_def refers_to_def)
  have "can_recover ?v True now = None" for now using v \<open>sample_worker \<noteq> []\<close> by (simp add: can_recover_def)
  moreover have "confirm_absent ?v sample_orphan = (Inr (), sample_orphan)"
  proof -
    have "kw_workers sample_orphan = (\<lambda>_. Inl ENoWorker)" by (simp add: sample_orphan_def)
    with st v show ?thesis by (simp add: confirm_absent_def bindIO_def catchIO_def inspect_worker_def)
  qed
  ultimately have "recover_start sample_guard sample_aid True sample_orphan = (Inr ?v, sample_orphan)"
    using st i a r by (simp add: recover_start_def bindIO_def)
  with v show ?thesis by blast
qed

lemma sample_recover_release:
  "fst (release_round sample_guard sample_aid sample_worker (put_group sample_aid sample_killed sample_orphan)) = Finished (Inr ())"
  by (rule sample_emptied_round [where r = sample_bound])
    (use sample_worlds(2) in \<open>simp add: sample_emptied_def sample_state_def put_group_def\<close>)

lemma sample_orphan_killed:
  "recover_kill sample_guard v sample_orphan = (Inr (), put_group sample_aid sample_killed sample_orphan)"
  if "vm_allocation v = sample_aid" "vm_container v = sample_worker" "vm_populated v"
  using that sample_steps [OF sample_worlds(2)]
  by (simp add: recover_kill_def bindIO_def sample_scan [OF sample_worlds(2)] kill_group_def sample_killed_def sample_group_def)

lemma sample_orphan_start:
  "release_start sample_guard sample_aid sample_worker (put_group sample_aid sample_killed sample_orphan) =
     (Inr True, put_group sample_aid sample_killed sample_orphan)"
proof -
  let ?w = "put_group sample_aid sample_killed sample_orphan"
  have "sample_emptied sample_bound ?w"
    using sample_worlds(2) by (simp add: sample_emptied_def sample_state_def put_group_def)
  from sample_emptied_read [OF this] show ?thesis
    using sample_group_path by (auto simp: release_start_def catchIO_def bindIO_def sample_bound_fields group_at_put)
qed

text \<open>The worker is gone from containerd while its shim still runs; forced recovery kills it and frees the envelope.\<close>

theorem recover_orphan_safe_witness:
  "\<exists>w'. recover_orphan (\<lambda>_ w. w) (\<lambda>_. False) sample_guard sample_aid True sample_orphan = Some (Inr (), w') \<and>
     node_ok sample_guard w' \<and> (\<exists>v. recoverable sample_orphan sample_guard sample_aid True v)"
proof -
  obtain v where v: "recover_start sample_guard sample_aid True sample_orphan = (Inr v, sample_orphan)"
    "vm_allocation v = sample_aid" "vm_container v = sample_worker" "vm_populated v"
    using sample_recovery by blast
  obtain w' where w': "release_round sample_guard sample_aid sample_worker (put_group sample_aid sample_killed sample_orphan) = (Finished (Inr ()), w')"
    using sample_recover_release by (metis prod.collapse)
  have r: "recover_orphan (\<lambda>_ w. w) (\<lambda>_. False) sample_guard sample_aid True sample_orphan = Some (Inr (), w')"
    using v w' sample_orphan_killed [OF v(2-4)] sample_orphan_start
    by (simp add: recover_orphan_def release_unlocked_def release_loop.simps)
  have "node_ok sample_guard x \<Longrightarrow> node_ok sample_guard x" for x .
  from recover_orphan_safe [OF sample_worlds_ok(2) this r] r show ?thesis by blast
qed

end
