(* ===== verification/KataLaunch.thy ===== *)
theory KataLaunch
  imports KataInventory
begin

text \<open>
  Idempotent launches of externally identified requests (\<open>launch.go\<close>): a durable record for each request
  key, leased to one caller at a time.  SHA-256 is the parameter \<open>sha\<close>; random leases come from the
  schedule \<open>kw_random\<close>, already in hexadecimal.  \<open>FindRequest\<close> of \<open>engine/backend.go\<close> is modelled over the
  workers the engine knows by name.
\<close>

section \<open>Records\<close>

definition digest_ok :: "string \<Rightarrow> bool" where
  "digest_ok s \<longleftrightarrow> lower_hex_n 64 s"

definition request_name :: "string \<Rightarrow> string" where
  "request_name key = ''cxd-'' @ take 32 key"

definition request_allocation :: "(string \<Rightarrow> string) \<Rightarrow> string \<Rightarrow> string" where
  "request_allocation sha key = take 32 (sha (''allocation:'' @ key))"

definition lease_period :: int where "lease_period = 5 * 60 * 1000000000"

definition pending_state :: string where "pending_state = ''pending''"
definition complete_state :: string where "complete_state = ''complete''"
definition failed_state :: string where "failed_state = ''failed''"
definition cleanup_state :: string where "cleanup_state = ''cleanup-pending''"

definition launch_states :: "string list" where
  "launch_states = [pending_state, complete_state, failed_state, cleanup_state]"

definition launch_dir :: "unit kio" where
  "launch_dir = bindIO ksys (\<lambda>_. bindIO (getIO kw_launch_trust) (\<lambda>t. liftE (require t)))"

definition launch_error :: "string \<Rightarrow> launch_record \<Rightarrow> kata_error option" where
  "launch_error key r =
     (if la_version r \<noteq> 1 \<or> la_key r \<noteq> key \<or> \<not> digest_ok (la_fingerprint r) \<or> la_name r \<noteq> request_name key \<or> la_updated r = 0
        then Some (ELaunch BadLaunchRecord)
      else if la_state r \<notin> set launch_states then Some (ELaunch BadLaunchState)
      else None)"

definition read_launch :: "string \<Rightarrow> launch_record kio" where
  "read_launch key =
     bindIO (whenE (\<not> digest_ok key) (ELaunch BadDigest)) (\<lambda>_.
     bindIO launch_dir (\<lambda>_.
     bindIO ksys (\<lambda>_.
     bindIO (getIO (\<lambda>w. map_of (kw_launches w) key)) (\<lambda>f. case f of
       None \<Rightarrow> throwIO ENotFound
     | Some lf \<Rightarrow>
         bindIO (liftE (require (lf_trust lf))) (\<lambda>_.
         bindIO ksys (\<lambda>_.
         bindIO (liftE (decoded (lf_doc lf))) (\<lambda>r.
         bindIO (liftE (require (launch_error key r))) (\<lambda>_. returnIO r))))))))"

definition own_launch :: "launch_record \<Rightarrow> launch_file" where
  "own_launch r = \<lparr>lf_trust = None, lf_doc = Document r\<rparr>"

definition put_launch :: "launch_record \<Rightarrow> kworld \<Rightarrow> kworld" where
  "put_launch r w = w\<lparr>kw_launches := AList.update (la_key r) (own_launch r) (kw_launches w)\<rparr>"

text \<open>Create, encode, sync, close and rename of a temporary file, then open and sync of the directory.\<close>

definition write_launch :: "launch_record \<Rightarrow> unit kio" where
  "write_launch r =
     bindIO launch_dir (\<lambda>_.
     bindIO ksys (\<lambda>_. bindIO ksys (\<lambda>_. bindIO ksys (\<lambda>_. bindIO ksys (\<lambda>_. bindIO ksys (\<lambda>_.
     bindIO (updIO (put_launch r)) (\<lambda>_. bindIO ksys (\<lambda>_. ksys))))))))"

section \<open>Operations\<close>

definition request_key_label :: string where "request_key_label = ''codex-dock.request-key''"
definition fingerprint_label :: string where "fingerprint_label = ''codex-dock.request-fingerprint''"

text \<open>\<open>FindRequest\<close>: id, key and fingerprint of the worker of that name, if there is one.\<close>

definition find_request :: "string \<Rightarrow> (string \<times> string \<times> string) option kio" where
  "find_request name = bindIO (catchIO (inspect_worker name)) (\<lambda>res. case res of
     Inl e \<Rightarrow> if e = ENoWorker then returnIO None else throwIO e
   | Inr i \<Rightarrow> bindIO (whenE (trim_prefix (wi_name i) ''/'' \<noteq> name) EIOFault) (\<lambda>_.
       returnIO (Some (wi_id i, label i request_key_label, label i fingerprint_label))))"

definition next_lease :: "string kio" where
  "next_lease w = (case kw_random w of [] \<Rightarrow> (Inl EIOFault, w) | l # ls \<Rightarrow> (Inr l, w\<lparr>kw_random := ls\<rparr>))"

definition fresh_launch :: "string \<Rightarrow> string \<Rightarrow> launch_record" where
  "fresh_launch key fp = \<lparr>la_version = 1, la_key = key, la_fingerprint = fp, la_name = request_name key, la_state = failed_state,
     la_attempt = 0, la_lease = [], la_worker = [], la_updated = 0\<rparr>"

definition completed :: "string \<Rightarrow> int \<Rightarrow> launch_record \<Rightarrow> launch_record" where
  "completed i now r = r\<lparr>la_state := complete_state, la_worker := i, la_lease := [], la_updated := now\<rparr>"

definition claimed :: "string \<Rightarrow> int \<Rightarrow> launch_record \<Rightarrow> launch_record" where
  "claimed l now r = r\<lparr>la_attempt := la_attempt r + 1, la_state := pending_state, la_lease := l, la_worker := [], la_updated := now\<rparr>"

definition aborted :: "string \<Rightarrow> int \<Rightarrow> launch_record \<Rightarrow> launch_record" where
  "aborted worker now r =
     (if worker = [] then r\<lparr>la_state := failed_state, la_lease := [], la_updated := now\<rparr>
      else r\<lparr>la_state := cleanup_state, la_worker := worker, la_lease := [], la_updated := now\<rparr>)"

text \<open>What an operation decides: an answer, or a record that is stored and answered even if storing fails.\<close>

datatype launch_answer = Answer launch_record | Store launch_record

definition claim_record :: "string \<Rightarrow> string \<Rightarrow> (launch_record \<times> bool) kio" where
  "claim_record key fp = bindIO (catchIO (read_launch key)) (\<lambda>res. case res of
     Inr r \<Rightarrow> if la_fingerprint r \<noteq> fp then throwIO EConflict else returnIO (r, False)
   | Inl e \<Rightarrow> if e = ENotFound then returnIO (fresh_launch key fp, True) else throwIO e)"

text \<open>Whether a live or uncertain reservation of an earlier attempt must be recovered first.\<close>

definition reservation_left :: "(string \<Rightarrow> string) \<Rightarrow> guard \<Rightarrow> string \<Rightarrow> bool kio" where
  "reservation_left sha g key =
     bindIO (take_inventory g) (\<lambda>L.
     bindIO (whenE (\<not> inv_available L) (EInventory EngineDown)) (\<lambda>_.
     returnIO (list_ex (\<lambda>v. vm_allocation v = request_allocation sha key) (inv_vms L))))"

definition claim_free :: "(string \<Rightarrow> string) \<Rightarrow> guard \<Rightarrow> string \<Rightarrow> launch_record \<Rightarrow> bool \<Rightarrow> launch_answer kio" where
  "claim_free sha g key r fresh =
     bindIO (if \<not> fresh \<and> (la_state r = pending_state \<or> la_state r = failed_state) then reservation_left sha g key
             else returnIO False) (\<lambda>left.
     if left then returnIO (Answer (r\<lparr>la_lease := []\<rparr>))
     else bindIO next_lease (\<lambda>l. bindIO (getIO kw_now) (\<lambda>now. returnIO (Store (claimed l now r)))))"

definition claim_known :: "(string \<Rightarrow> string) \<Rightarrow> guard \<Rightarrow> string \<Rightarrow> string \<Rightarrow> launch_record \<Rightarrow> bool \<Rightarrow> launch_answer kio" where
  "claim_known sha g key fp r fresh =
    (if la_state r = complete_state \<or> la_state r = cleanup_state then returnIO (Answer r)
     else bindIO (getIO kw_now) (\<lambda>now.
       if la_state r = pending_state \<and> now - la_updated r < lease_period then returnIO (Answer (r\<lparr>la_lease := []\<rparr>))
       else bindIO (find_request (la_name r)) (\<lambda>found. case found of
         Some (i, k, f) \<Rightarrow>
           bindIO (whenE (k \<noteq> key \<or> f \<noteq> fp) EConflict) (\<lambda>_.
           bindIO (getIO kw_now) (\<lambda>now'. returnIO (Store (completed i now' r))))
       | None \<Rightarrow> claim_free sha g key r fresh)))"

definition claim_decide :: "(string \<Rightarrow> string) \<Rightarrow> guard \<Rightarrow> string \<Rightarrow> string \<Rightarrow> launch_answer kio" where
  "claim_decide sha g key fp =
     bindIO (whenE (\<not> digest_ok key \<or> \<not> digest_ok fp) (ELaunch BadDigest)) (\<lambda>_.
     bindIO kctx (\<lambda>_.
     bindIO (claim_record key fp) (\<lambda>(r, fresh). claim_known sha g key fp r fresh)))"

definition finish_decide :: "string \<Rightarrow> string \<Rightarrow> string \<Rightarrow> launch_answer kio" where
  "finish_decide key lease worker =
     bindIO (read_launch key) (\<lambda>r.
     bindIO (whenE (la_state r \<noteq> pending_state \<or> la_lease r \<noteq> lease \<or> lease = []) (ELaunch LeaseNotCurrent)) (\<lambda>_.
     bindIO (find_request (la_name r)) (\<lambda>found. case found of
       None \<Rightarrow> throwIO (ELaunch ResultMismatch)
     | Some (i, k, f) \<Rightarrow>
         bindIO (whenE (i \<noteq> worker \<or> k \<noteq> key \<or> f \<noteq> la_fingerprint r) (ELaunch ResultMismatch)) (\<lambda>_.
         bindIO (getIO kw_now) (\<lambda>now. returnIO (Store (completed i now r)))))))"

definition abort_decide :: "string \<Rightarrow> string \<Rightarrow> string \<Rightarrow> launch_answer kio" where
  "abort_decide key lease worker =
     bindIO (read_launch key) (\<lambda>r.
     bindIO (whenE (la_state r \<noteq> pending_state \<or> la_lease r \<noteq> lease \<or> lease = []) (ELaunch LeaseNotCurrent)) (\<lambda>_.
     bindIO (getIO kw_now) (\<lambda>now. returnIO (Store (aborted worker now r)))))"

text \<open>\<open>return r, g.writeLaunch(r)\<close>: the record is returned beside the error of storing it.\<close>

definition zero_launch :: launch_record where
  "zero_launch = \<lparr>la_version = 0, la_key = [], la_fingerprint = [], la_name = [], la_state = [], la_attempt = 0, la_lease = [],
     la_worker = [], la_updated = 0\<rparr>"

definition settle :: "launch_answer kio \<Rightarrow> (launch_record \<times> kata_error option) kio" where
  "settle m = bindIO (catchIO m) (\<lambda>d. case d of
     Inl e \<Rightarrow> returnIO (zero_launch, Some e)
   | Inr (Answer r) \<Rightarrow> returnIO (r, None)
   | Inr (Store r) \<Rightarrow> bindIO (catchIO (write_launch r)) (\<lambda>x. returnIO (r, case x of Inl e \<Rightarrow> Some e | Inr _ \<Rightarrow> None)))"

definition claim_launch :: "(string \<Rightarrow> string) \<Rightarrow> guard \<Rightarrow> string \<Rightarrow> string \<Rightarrow> (launch_record \<times> kata_error option) kio" where
  "claim_launch sha g key fp = settle (claim_decide sha g key fp)"

definition finish_launch :: "string \<Rightarrow> string \<Rightarrow> string \<Rightarrow> (launch_record \<times> kata_error option) kio" where
  "finish_launch key lease worker = settle (finish_decide key lease worker)"

definition abort_launch :: "string \<Rightarrow> string \<Rightarrow> string \<Rightarrow> (launch_record \<times> kata_error option) kio" where
  "abort_launch key lease worker = settle (abort_decide key lease worker)"

section \<open>The abstract launch\<close>

text \<open>
  A request is absent, unreadable, or has a fingerprint, a number of attempts and a phase.  The clients
  rely on this machine only.
\<close>

datatype phase = Held string int | Done string | Failed_phase | Cleanup string

datatype launch_view = Absent | Broken | Entry string int phase

definition phase_of :: "launch_record \<Rightarrow> phase" where
  "phase_of r =
     (if la_state r = pending_state then Held (la_lease r) (la_updated r)
      else if la_state r = complete_state then Done (la_worker r)
      else if la_state r = cleanup_state then Cleanup (la_worker r)
      else Failed_phase)"

definition entry_of :: "launch_record \<Rightarrow> launch_view" where
  "entry_of r = Entry (la_fingerprint r) (la_attempt r) (phase_of r)"

definition launch_at :: "kworld \<Rightarrow> string \<Rightarrow> launch_record option" where
  "launch_at w key = (case map_of (kw_launches w) key of None \<Rightarrow> None
     | Some lf \<Rightarrow> (if lf_trust lf \<noteq> None then None else case lf_doc lf of
         Document r \<Rightarrow> if launch_error key r = None then Some r else None | _ \<Rightarrow> None))"

definition view_at :: "kworld \<Rightarrow> string \<Rightarrow> launch_view" where
  "view_at w key = (case map_of (kw_launches w) key of None \<Rightarrow> Absent
     | Some lf \<Rightarrow> (case launch_at w key of None \<Rightarrow> Broken | Some r \<Rightarrow> entry_of r))"

definition open_phase :: "int \<Rightarrow> phase \<Rightarrow> bool" where
  "open_phase now p \<longleftrightarrow> (case p of Failed_phase \<Rightarrow> True | Held l t \<Rightarrow> t + lease_period \<le> now | _ \<Rightarrow> False)"

inductive launch_step :: "int \<Rightarrow> launch_view \<Rightarrow> launch_view \<Rightarrow> bool" where
  first_claim: "launch_step now Absent (Entry fp 1 (Held l now))"
| found_first: "launch_step now Absent (Entry fp 0 (Done i))"
| claim_again: "open_phase now p \<Longrightarrow> launch_step now (Entry fp n p) (Entry fp (n + 1) (Held l now))"
| found_later: "open_phase now p \<Longrightarrow> launch_step now (Entry fp n p) (Entry fp n (Done i))"
| finish: "launch_step now (Entry fp n (Held l t)) (Entry fp n (Done i))"
| abort: "launch_step now (Entry fp n (Held l t)) (Entry fp n Failed_phase)"
| abort_cleanup: "launch_step now (Entry fp n (Held l t)) (Entry fp n (Cleanup i))"

inductive_cases launch_step_entryE: "launch_step now (Entry fp n p) v"


section \<open>What the operations do to the world\<close>

text \<open>The world without its schedules, random leases included.\<close>

definition base :: "kworld \<Rightarrow> kworld" where
  "base w = (still w)\<lparr>kw_random := []\<rparr>"

lemma quiet_base: "quiet still m \<Longrightarrow> quiet base m"
  by (simp add: quiet_def base_def)

lemma still_base: "still w' = still w \<Longrightarrow> base w' = base w"
  by (simp add: base_def)

lemma base_fields:
  assumes "base w' = base w"
  shows "kw_launches w' = kw_launches w" "kw_launch_trust w' = kw_launch_trust w" "kw_now w' = kw_now w"
proof -
  have "kw_launches (base x) = kw_launches x" "kw_launch_trust (base x) = kw_launch_trust x" "kw_now (base x) = kw_now x" for x
    by (simp_all add: base_def still_def)
  with assms show "kw_launches w' = kw_launches w" "kw_launch_trust w' = kw_launch_trust w" "kw_now w' = kw_now w" by metis+
qed

lemma view_cong:
  assumes l: "kw_launches w' = kw_launches w"
  shows "launch_at w' k = launch_at w k" and "view_at w' k = view_at w k"
proof -
  from l show a: "launch_at w' k = launch_at w k" by (simp add: launch_at_def)
  from l show "view_at w' k = view_at w k" by (simp only: view_at_def a)
qed

lemmas base_view = view_cong [OF base_fields(1)]

lemma quiet_launch_dir [simp, intro]: "quiet still launch_dir"
  unfolding launch_dir_def by (intro quiet_cases quiet_still_steps)

lemma quiet_read_launch [simp, intro]: "quiet still (read_launch key)"
  unfolding read_launch_def by (intro quiet_cases quiet_launch_dir quiet_still_steps)

lemma quiet_find [simp, intro]: "quiet still (find_request n)"
  unfolding find_request_def by (intro quiet_cases quiet_inspect)

lemma quiet_next_lease [simp, intro]: "quiet base next_lease"
  by (simp add: quiet_def next_lease_def base_def still_def split: list.split)

lemma quiet_reservation [simp, intro]: "quiet still (reservation_left sha g key)"
  unfolding reservation_left_def by (intro quiet_cases quiet_inventory)

lemma quiet_decide [simp, intro]:
  "quiet base (claim_decide sha g key fp)" "quiet base (finish_decide key l i)" "quiet base (abort_decide key l i)"
  unfolding claim_decide_def claim_known_def claim_record_def claim_free_def finish_decide_def abort_decide_def
  by (intro quiet_cases quiet_next_lease | rule quiet_base, (rule quiet_read_launch quiet_find quiet_reservation quiet_still_kctx))+

lemma base_step: "quiet base m \<Longrightarrow> m w = (r, w') \<Longrightarrow> base w' = base w"
  by (rule quietD)

text \<open>No file vanishes between the look at it and the reading of it.\<close>

definition no_races :: "kworld \<Rightarrow> bool" where
  "no_races w \<longleftrightarrow> kw_launch_trust w \<noteq> Some ENotFound \<and> (\<forall>k lf. map_of (kw_launches w) k = Some lf \<longrightarrow>
     lf_trust lf \<noteq> Some ENotFound \<and> lf_doc lf \<noteq> Unreadable ENotFound)"

lemma launch_error_not_found: "require (launch_error k r) \<noteq> Inl ENotFound"
  by (simp add: launch_error_def require_def)

lemma decoded_not_found: "decoded d = Inl ENotFound \<longleftrightarrow> d = Unreadable ENotFound"
  by (auto simp: decoded_def split: document.splits)

lemma ksys_not_found: "ksys w \<noteq> (Inl ENotFound, w')"
  by (simp add: ksys_def split: list.split)

lemma launch_dir_cases:
  assumes "launch_dir w = (res, w1)"
  shows "still w1 = still w \<and> (res = Inl ENotFound \<longrightarrow> kw_launch_trust w = Some ENotFound)"
proof -
  have s: "still w1 = still w" by (rule quiet_step [OF quiet_launch_dir assms])
  have "kw_launch_trust w1 = kw_launch_trust w" by (rule base_fields(2) [OF still_base [OF s]])
  with assms s ksys_not_found show ?thesis by (auto simp: launch_dir_def io_iffs require_def split: option.splits)
qed

lemma read_launch_cases:
  assumes r: "read_launch key w = (res, w')"
  shows "still w' = still w" and "\<And>x. res = Inr x \<Longrightarrow> launch_at w key = Some x \<and> digest_ok key"
    and "no_races w \<Longrightarrow> res = Inl ENotFound \<Longrightarrow> map_of (kw_launches w) key = None"
proof -
  show "still w' = still w" by (rule quiet_step [OF quiet_read_launch r])
  have view: "kw_launches w1 = kw_launches w" if "still w1 = still w" for w1
    using base_fields(1) [OF still_base [OF that]] .
  show "launch_at w key = Some x \<and> digest_ok key" if e: "res = Inr x" for x
  proof -
    obtain w1 w2 lf w3 where d: "launch_dir w = (Inr (), w1)" and k1: "ksys w1 = (Inr (), w2)"
      and lf: "map_of (kw_launches w2) key = Some lf" and t: "require (lf_trust lf) = Inr ()" and k2: "ksys w2 = (Inr (), w3)"
      and x: "decoded (lf_doc lf) = Inr x" "require (launch_error key x) = Inr ()" and key: "digest_ok key"
      using r unfolding e by (auto simp: read_launch_def io_iffs split: option.splits)
    have "still w2 = still w" using launch_dir_cases [OF d] quiet_step [OF quiet_still_steps(1) k1] by simp
    from view [OF this] lf t x key show ?thesis by (simp add: launch_at_def require_Inr decoded_Inr)
  qed
  show "map_of (kw_launches w) key = None" if n: "no_races w" and e: "res = Inl ENotFound"
  proof (rule ccontr)
    assume "map_of (kw_launches w) key \<noteq> None"
    then obtain lf where lf: "map_of (kw_launches w) key = Some lf" by blast
    obtain x w1 where d: "launch_dir w = (x, w1)" by (cases "launch_dir w")
    have x: "x \<noteq> Inl ENotFound" using launch_dir_cases [OF d] n by (auto simp: no_races_def)
    obtain y w2 where k: "ksys w1 = (y, w2)" by (cases "ksys w1")
    have "still w2 = still w" using launch_dir_cases [OF d] quiet_step [OF quiet_still_steps(1) k] by simp
    note v = view [OF this]
    have nf: "require (lf_trust lf) \<noteq> Inl ENotFound" "decoded (lf_doc lf) \<noteq> Inl ENotFound"
      using n lf by (auto simp: no_races_def decoded_not_found require_def split: option.splits)
    from r e d k x show False
      using lf v nf ksys_not_found launch_error_not_found
      by (auto simp: read_launch_def io_iffs split: option.splits)
  qed
qed

lemma put_launch_fields [simp]: "kw_now (put_launch r w) = kw_now w" "kw_launch_trust (put_launch r w) = kw_launch_trust w"
  "map_of (kw_launches (put_launch r w)) = (map_of (kw_launches w))(la_key r \<mapsto> own_launch r)"
  by (simp_all add: put_launch_def update_conv')

lemma write_launch_cases:
  assumes "write_launch r w = (x, w')"
  shows "base w' = base w \<and> (\<exists>e. x = Inl e) \<or> base w' = base (put_launch r w)"
proof -
  let ?pre = "bindIO launch_dir (\<lambda>_. bindIO ksys (\<lambda>_. bindIO ksys (\<lambda>_. bindIO ksys (\<lambda>_. bindIO ksys (\<lambda>_. ksys)))))"
  have eq: "write_launch r w = bindIO ?pre (\<lambda>_. bindIO (updIO (put_launch r)) (\<lambda>_. bindIO ksys (\<lambda>_. ksys))) w"
    by (auto simp: write_launch_def bindIO_def split: prod.splits sum.splits)
  obtain y w1 where p: "?pre w = (y, w1)" by (cases "?pre w")
  have "quiet still ?pre" by (intro quiet_cases quiet_launch_dir quiet_still_steps)
  from this p have s: "still w1 = still w" by (rule quiet_step)
  show ?thesis
  proof (cases y)
    case (Inl e)
    with eq p assms s show ?thesis by (auto simp: bindIO_def intro: still_base)
  next
    case (Inr u)
    let ?post = "bindIO ksys (\<lambda>_. ksys)"
    have "?post (put_launch r w1) = (x, w')" using eq p Inr assms by (simp add: bindIO_def)
    then have "still w' = still (put_launch r w1)" by (rule quiet_step [rotated]) (intro quiet_cases quiet_still_steps)
    moreover have "base (put_launch r v) = (base v)\<lparr>kw_launches := AList.update (la_key r) (own_launch r) (kw_launches v)\<rparr>" for v
      by (simp add: base_def still_def put_launch_def)
    ultimately show ?thesis using still_base base_fields(1) [OF still_base [OF s]] s by metis
  qed
qed

lemma settle_cases:
  assumes q: "quiet base m" and s: "settle m w = (res, w')"
  obtains (failed) e w1 where "m w = (Inl e, w1)" "res = Inr (zero_launch, Some e)" "base w' = base w"
    | (answered) r w1 where "m w = (Inr (Answer r), w1)" "res = Inr (r, None)" "base w' = base w"
    | (stored) r w1 e where "m w = (Inr (Store r), w1)" "res = Inr (r, e)" "base w' = base (put_launch r w)"
    | (unstored) r w1 e where "m w = (Inr (Store r), w1)" "res = Inr (r, Some e)" "base w' = base w"
proof -
  obtain d w1 where d: "m w = (d, w1)" by (cases "m w")
  have b: "base w1 = base w" by (rule base_step [OF q d])
  show thesis
  proof (cases d)
    case (Inl e)
    with d s b failed show ?thesis by (simp add: settle_def bindIO_def catchIO_def)
  next
    case (Inr a)
    show ?thesis
    proof (cases a)
      case (Answer r)
      with Inr d s b answered show ?thesis by (simp add: settle_def bindIO_def catchIO_def)
    next
      case (Store r)
      obtain x w2 where x: "write_launch r w1 = (x, w2)" by (cases "write_launch r w1")
      with Store Inr d s have res: "res = Inr (r, case x of Inl e \<Rightarrow> Some e | Inr _ \<Rightarrow> None)" "w' = w2"
        by (simp_all add: settle_def bindIO_def catchIO_def)
      have p: "base (put_launch r w1) = base (put_launch r w)"
      proof -
        have "base (put_launch r v) = (base v)\<lparr>kw_launches := AList.update (la_key r) (own_launch r) (kw_launches v)\<rparr>" for v
          by (simp add: base_def still_def put_launch_def)
        with b base_fields(1) [OF b] show ?thesis by metis
      qed
      from write_launch_cases [OF x] show ?thesis
      proof
        assume a: "base w2 = base w1 \<and> (\<exists>e. x = Inl e)"
        then obtain e where "x = Inl e" by blast
        with a unstored Store Inr d res b show ?thesis by simp
      next
        assume "base w2 = base (put_launch r w1)"
        with stored Store Inr d res p show ?thesis by simp
      qed
    qed
  qed
qed


section \<open>Decisions are steps of the abstract launch\<close>

definition usable :: "kworld \<Rightarrow> string \<Rightarrow> string \<Rightarrow> launch_record \<Rightarrow> bool \<Rightarrow> bool" where
  "usable w key fp r fresh \<longleftrightarrow> digest_ok fp \<and>
     (if fresh then r = fresh_launch key fp \<and> map_of (kw_launches w) key = None
      else launch_at w key = Some r \<and> la_fingerprint r = fp)"

definition still_open :: "int \<Rightarrow> launch_record \<Rightarrow> bool" where
  "still_open now r \<longleftrightarrow> la_state r = failed_state \<or> la_state r = pending_state \<and> lease_period \<le> now - la_updated r"

definition storable :: "kworld \<Rightarrow> string \<Rightarrow> launch_record \<Rightarrow> bool" where
  "storable w key r \<longleftrightarrow> la_key r = key \<and> launch_error key r = None \<and> launch_step (kw_now w) (view_at w key) (entry_of r)"

lemma state_names [simp]: "pending_state \<noteq> failed_state" "pending_state \<noteq> complete_state" "pending_state \<noteq> cleanup_state"
  "failed_state \<noteq> complete_state" "failed_state \<noteq> cleanup_state" "complete_state \<noteq> cleanup_state"
  "failed_state \<noteq> pending_state" "complete_state \<noteq> pending_state" "cleanup_state \<noteq> pending_state"
  "complete_state \<noteq> failed_state" "cleanup_state \<noteq> failed_state" "cleanup_state \<noteq> complete_state"
  by (simp_all add: pending_state_def failed_state_def complete_state_def cleanup_state_def)

lemma launch_at_view: "launch_at w key = Some r \<Longrightarrow> view_at w key = entry_of r \<and> launch_error key r = None"
  by (auto simp: launch_at_def view_at_def split: option.splits if_splits document.splits)

lemma entry_of_new [simp]:
  "entry_of (claimed l now r) = Entry (la_fingerprint r) (la_attempt r + 1) (Held l now)"
  "entry_of (completed i now r) = Entry (la_fingerprint r) (la_attempt r) (Done i)"
  "entry_of (aborted i now r) = Entry (la_fingerprint r) (la_attempt r) (if i = [] then Failed_phase else Cleanup i)"
  by (simp_all add: entry_of_def phase_of_def claimed_def completed_def aborted_def)

lemma launch_error_new:
  assumes "la_version r = 1" "la_key r = key" "digest_ok (la_fingerprint r)" "la_name r = request_name key" "now \<noteq> 0"
  shows "launch_error key (claimed l now r) = None" "launch_error key (completed i now r) = None"
    "launch_error key (aborted i now r) = None"
  using assms by (simp_all add: launch_error_def launch_states_def claimed_def completed_def aborted_def)

lemma launch_errorD:
  assumes "launch_error key r = None"
  shows "la_version r = 1" "la_key r = key" "digest_ok (la_fingerprint r)" "la_name r = request_name key"
    "la_state r \<in> set launch_states"
  using assms by (auto simp: launch_error_def split: if_splits)

lemma key_new [simp]: "la_key (claimed l now r) = la_key r" "la_key (completed i now r) = la_key r" "la_key (aborted i now r) = la_key r"
  by (simp_all add: claimed_def completed_def aborted_def)

lemma usable_fields:
  assumes "usable w key fp r fresh"
  shows "la_version r = 1" "la_key r = key" "digest_ok (la_fingerprint r)" "la_name r = request_name key" "la_fingerprint r = fp"
    "la_state r \<in> set launch_states"
  using assms launch_errorD [of key r] launch_at_view [of w key r]
  by (auto simp: usable_def fresh_launch_def launch_states_def split: if_splits)

lemma still_open_phase: "still_open now r \<Longrightarrow> open_phase now (phase_of r)"
  by (auto simp: still_open_def open_phase_def phase_of_def)

lemma usable_storable:
  assumes u: "usable w key fp r fresh" and o: "still_open (kw_now w) r" and n: "0 < kw_now w"
  shows "storable w key (claimed l (kw_now w) r)" and "storable w key (completed i (kw_now w) r)"
proof -
  note f = usable_fields [OF u]
  have e: "launch_error key (claimed l (kw_now w) r) = None" "launch_error key (completed i (kw_now w) r) = None"
    using launch_error_new [OF f(1-4), of "kw_now w"] n by simp_all
  have "launch_step (kw_now w) (view_at w key) (Entry fp (la_attempt r + 1) (Held l (kw_now w))) \<and>
        launch_step (kw_now w) (view_at w key) (Entry fp (la_attempt r) (Done i))"
  proof (cases fresh)
    case True
    with u have "r = fresh_launch key fp" "view_at w key = Absent" by (simp_all add: usable_def view_at_def)
    then show ?thesis by (simp add: fresh_launch_def first_claim found_first)
  next
    case False
    with u have "view_at w key = Entry fp (la_attempt r) (phase_of r)"
      using launch_at_view [of w key r] by (simp add: usable_def entry_of_def)
    then show ?thesis using claim_again found_later still_open_phase [OF o] by simp
  qed
  with e f show "storable w key (claimed l (kw_now w) r)" "storable w key (completed i (kw_now w) r)"
    by (simp_all add: storable_def)
qed

lemma held_storable:
  assumes r: "launch_at w key = Some r" and p: "la_state r = pending_state" and n: "0 < kw_now w"
  shows "storable w key (completed i (kw_now w) r)" and "storable w key (aborted i (kw_now w) r)"
proof -
  note v = launch_at_view [OF r]
  note f = launch_errorD [OF conjunct2 [OF v]]
  have e: "launch_error key (completed i (kw_now w) r) = None" "launch_error key (aborted i (kw_now w) r) = None"
    using launch_error_new [OF f(1-4), of "kw_now w"] n by simp_all
  from v p have "view_at w key = Entry (la_fingerprint r) (la_attempt r) (Held (la_lease r) (la_updated r))"
    by (simp add: entry_of_def phase_of_def)
  with e f show "storable w key (completed i (kw_now w) r)" "storable w key (aborted i (kw_now w) r)"
    by (auto simp: storable_def intro: finish abort abort_cleanup)
qed

lemma claim_record_cases:
  assumes c: "claim_record key fp w = (Inr (r, fresh), w')" and n: "no_races w" and d: "digest_ok fp"
  shows "usable w key fp r fresh" and "still w' = still w"
proof -
  obtain res w1 where rd: "read_launch key w = (res, w1)" by (cases "read_launch key w")
  note rc = read_launch_cases [OF rd]
  show "usable w key fp r fresh" "still w' = still w"
    using c rc n d rd
    by (auto simp: claim_record_def usable_def bindIO_def catchIO_def throwIO_def returnIO_def split: sum.splits if_splits)
qed

text \<open>What an operation may answer about the record as it stands, or store instead of it.\<close>

definition decided :: "kworld \<Rightarrow> string \<Rightarrow> launch_answer \<Rightarrow> bool" where
  "decided w key a \<longleftrightarrow> (case a of
     Answer r \<Rightarrow> \<exists>r0. launch_at w key = Some r0 \<and> (r = r0\<lparr>la_lease := []\<rparr> \<or> r = r0 \<and> la_state r \<noteq> pending_state)
   | Store r \<Rightarrow> storable w key r)"

lemma claim_free_cases:
  assumes c: "claim_free sha g key r fresh w1 = (Inr a, w')" and b: "base w1 = base w" and u: "usable w key fp r fresh"
    and o: "still_open (kw_now w) r" and n: "0 < kw_now w"
  shows "decided w key a" and "a = Store x \<Longrightarrow> \<exists>l. x = claimed l (kw_now w) r"
proof -
  obtain left w2 where l: "(if \<not> fresh \<and> (la_state r = pending_state \<or> la_state r = failed_state) then reservation_left sha g key
      else returnIO False) w1 = (Inr left, w2)"
    and rest: "(if left then returnIO (Answer (r\<lparr>la_lease := []\<rparr>))
      else bindIO next_lease (\<lambda>l. bindIO (getIO kw_now) (\<lambda>now. returnIO (Store (claimed l now r))))) w2 = (Inr a, w')"
    using c by (auto simp: claim_free_def io_iffs)
  have "base w2 = base w1"
    using l by (auto simp: io_iffs split: if_splits dest: still_base [OF quiet_step [OF quiet_reservation]])
  then have b2: "kw_now w2 = kw_now w" using base_fields(3) b by metis
  show "decided w key a"
  proof (cases left)
    case True
    with l have "\<not> fresh" by (auto simp: io_iffs split: if_splits)
    with True rest u show ?thesis by (auto simp: decided_def usable_def io_iffs)
  next
    case False
    with rest obtain k w3 where k: "next_lease w2 = (Inr k, w3)" and a: "a = Store (claimed k (kw_now w3) r)"
      by (auto simp: io_iffs)
    have "kw_now w3 = kw_now w2" by (rule base_fields(3) [OF base_step [OF quiet_next_lease k]])
    with a b2 usable_storable(1) [OF u o n] show ?thesis by (simp add: decided_def)
  qed
  show "\<exists>l. x = claimed l (kw_now w) r" if "a = Store x"
  proof -
    from that rest obtain k w3 where k: "next_lease w2 = (Inr k, w3)" and a: "x = claimed k (kw_now w3) r"
      by (auto simp: io_iffs split: if_splits)
    have "kw_now w3 = kw_now w2" by (rule base_fields(3) [OF base_step [OF quiet_next_lease k]])
    with a b2 show ?thesis by auto
  qed
qed


lemma still_base_step: "quiet still m \<Longrightarrow> m w = (r, w') \<Longrightarrow> base w' = base w"
  by (rule still_base) (rule quiet_step)

lemma claim_decide_cases:
  assumes c: "claim_decide sha g key fp w = (Inr a, w')" and n: "no_races w" and now: "0 < kw_now w"
  shows "decided w key a"
    and "a = Store x \<Longrightarrow> \<exists>r fresh. usable w key fp r fresh \<and> still_open (kw_now w) r \<and>
      ((\<exists>l. x = claimed l (kw_now w) r) \<or> (\<exists>i. x = completed i (kw_now w) r))"
proof -
  obtain w1 r fresh w2 where dig: "digest_ok fp" and k: "kctx w = (Inr (), w1)" and cr: "claim_record key fp w1 = (Inr (r, fresh), w2)"
    and known: "claim_known sha g key fp r fresh w2 = (Inr a, w')"
    using c by (auto simp: claim_decide_def io_iffs)
  note rest = known [unfolded claim_known_def]
  have s1: "still w1 = still w" by (rule quiet_step [OF quiet_still_kctx k])
  have b1: "base w1 = base w" by (rule still_base [OF s1])
  have n1: "no_races w1" using n base_fields [OF b1] by (simp add: no_races_def)
  note cc = claim_record_cases [OF cr n1 dig]
  have b2: "base w2 = base w" using still_base [OF cc(2)] b1 by simp
  have u: "usable w key fp r fresh"
    using cc(1) base_fields(1) [OF b1] base_view(1) [OF b1] by (simp add: usable_def split: if_splits)
  note nw = base_fields(3) [OF b2]
  note st = usable_fields(6) [OF u]
  have both: "decided w key a \<and> (a = Store x \<longrightarrow> (\<exists>r fresh. usable w key fp r fresh \<and> still_open (kw_now w) r \<and>
      ((\<exists>l. x = claimed l (kw_now w) r) \<or> (\<exists>i. x = completed i (kw_now w) r))))" for x
  proof (cases "la_state r = complete_state \<or> la_state r = cleanup_state")
    case True
    then have "a = Answer r" and "\<not> fresh" using rest u by (auto simp: io_iffs usable_def fresh_launch_def)
    with u True show ?thesis by (auto simp: decided_def usable_def)
  next
    case False
    show ?thesis
    proof (cases "la_state r = pending_state \<and> kw_now w - la_updated r < lease_period")
      case True
      then have "a = Answer (r\<lparr>la_lease := []\<rparr>)" and "\<not> fresh"
        using rest u False nw by (auto simp: io_iffs usable_def fresh_launch_def)
      with u show ?thesis by (auto simp: decided_def usable_def)
    next
      case late: False
      with False st have o: "still_open (kw_now w) r"
        by (auto simp: still_open_def launch_states_def)
      obtain found w3 where fr: "find_request (la_name r) w2 = (Inr found, w3)"
        and fin: "(case found of
         Some (i, k, f) \<Rightarrow>
           bindIO (whenE (k \<noteq> key \<or> f \<noteq> fp) EConflict) (\<lambda>_.
           bindIO (getIO kw_now) (\<lambda>now'. returnIO (Store (completed i now' r))))
       | None \<Rightarrow> claim_free sha g key r fresh) w3 = (Inr a, w')"
        using rest False late nw by (auto simp: io_iffs simp del: disj_not1)
      have b3: "base w3 = base w" using still_base_step [OF quiet_find fr] b2 by simp
      show ?thesis
      proof (cases found)
        case None
        with fin have "claim_free sha g key r fresh w3 = (Inr a, w')" by simp
        from claim_free_cases [OF this b3 u o now] u o show ?thesis by blast
      next
        case (Some ikf)
        obtain i k f where ikf: "ikf = (i, k, f)" by (cases ikf)
        with Some fin base_fields(3) [OF b3] have "a = Store (completed i (kw_now w) r)" by (auto simp: io_iffs)
        with u o usable_storable(2) [OF u o now] show ?thesis by (auto simp: decided_def)
      qed
    qed
  qed
  from both show "decided w key a" by blast
  from both show "a = Store x \<Longrightarrow> \<exists>r fresh. usable w key fp r fresh \<and> still_open (kw_now w) r \<and>
      ((\<exists>l. x = claimed l (kw_now w) r) \<or> (\<exists>i. x = completed i (kw_now w) r))" by blast
qed

lemma holder_cases:
  assumes "read_launch key w = (Inr r, w1)" and "0 < kw_now w" and "la_state r = pending_state"
  shows "launch_at w key = Some r" and "base w1 = base w"
    and "storable w key (completed i (kw_now w) r)" and "storable w key (aborted i (kw_now w) r)"
proof -
  show l: "launch_at w key = Some r" using read_launch_cases(2) [OF assms(1)] by blast
  show "base w1 = base w" by (rule still_base [OF read_launch_cases(1) [OF assms(1)]])
  from held_storable [OF l assms(3,2)]
  show "storable w key (completed i (kw_now w) r)" "storable w key (aborted i (kw_now w) r)" .
qed

lemma finish_decide_cases:
  assumes c: "finish_decide key lease worker w = (Inr a, w')" and now: "0 < kw_now w"
  shows "decided w key a" and "\<exists>r. launch_at w key = Some r \<and> la_state r = pending_state \<and> la_lease r = lease \<and> lease \<noteq> [] \<and>
    a = Store (completed worker (kw_now w) r)"
proof -
  obtain r w1 w2 where rd: "read_launch key w = (Inr r, w1)" and p: "la_state r = pending_state" "la_lease r = lease" "lease \<noteq> []"
    and fr: "\<exists>x. find_request (la_name r) w1 = (x, w2)" and a: "a = Store (completed worker (kw_now w2) r)"
    using c unfolding finish_decide_def case_prod_unfold by (auto simp: io_iffs split: option.splits)
  note h = holder_cases [OF rd now p(1)]
  have "base w2 = base w1" using fr by (auto intro: still_base_step [OF quiet_find])
  then have "kw_now w2 = kw_now w" using h(2) base_fields(3) by metis
  with a h p show "decided w key a" "\<exists>r. launch_at w key = Some r \<and> la_state r = pending_state \<and> la_lease r = lease \<and> lease \<noteq> [] \<and>
    a = Store (completed worker (kw_now w) r)" by (auto simp: decided_def)
qed

lemma abort_decide_cases:
  assumes c: "abort_decide key lease worker w = (Inr a, w')" and now: "0 < kw_now w"
  shows "decided w key a" and "\<exists>r. launch_at w key = Some r \<and> la_state r = pending_state \<and> la_lease r = lease \<and> lease \<noteq> [] \<and>
    a = Store (aborted worker (kw_now w) r)"
proof -
  obtain r w1 where rd: "read_launch key w = (Inr r, w1)" and p: "la_state r = pending_state" "la_lease r = lease" "lease \<noteq> []"
    and a: "a = Store (aborted worker (kw_now w1) r)"
    using c by (auto simp: abort_decide_def io_iffs)
  note h = holder_cases [OF rd now p(1)]
  from a base_fields(3) [OF h(2)] h p show "decided w key a" "\<exists>r. launch_at w key = Some r \<and> la_state r = pending_state \<and> la_lease r = lease \<and> lease \<noteq> [] \<and>
    a = Store (aborted worker (kw_now w) r)" by (auto simp: decided_def)
qed

section \<open>Calls\<close>

datatype launch_call = Claim string string | Finish string string string | Abort string string string

fun call_key :: "launch_call \<Rightarrow> string" where
  "call_key (Claim key fp) = key"
| "call_key (Finish key lease worker) = key"
| "call_key (Abort key lease worker) = key"

fun decide :: "(string \<Rightarrow> string) \<Rightarrow> guard \<Rightarrow> launch_call \<Rightarrow> launch_answer kio" where
  "decide sha g (Claim key fp) = claim_decide sha g key fp"
| "decide sha g (Finish key lease worker) = finish_decide key lease worker"
| "decide sha g (Abort key lease worker) = abort_decide key lease worker"

fun perform :: "(string \<Rightarrow> string) \<Rightarrow> guard \<Rightarrow> launch_call \<Rightarrow> (launch_record \<times> kata_error option) kio" where
  "perform sha g (Claim key fp) = claim_launch sha g key fp"
| "perform sha g (Finish key lease worker) = finish_launch key lease worker"
| "perform sha g (Abort key lease worker) = abort_launch key lease worker"

lemma perform_settle: "perform sha g c = settle (decide sha g c)"
  by (cases c) (simp_all add: claim_launch_def finish_launch_def abort_launch_def)

lemma quiet_decide_call [simp, intro]: "quiet base (decide sha g c)"
  by (cases c) (simp_all only: decide.simps quiet_decide)

lemma decide_decided:
  assumes "decide sha g c w = (Inr a, w')" "no_races w" "0 < kw_now w"
  shows "decided w (call_key c) a"
  using assms by (cases c) (auto dest: claim_decide_cases(1) finish_decide_cases(1) abort_decide_cases(1))

lemma view_put:
  assumes "storable w key r"
  shows "view_at (put_launch r w) k = (if k = key then entry_of r else view_at w k)"
proof -
  from assms have r: "la_key r = key" "launch_error key r = None" by (simp_all add: storable_def)
  then have "launch_at (put_launch r w) k = (if k = key then Some r else launch_at w k)" for k
    by (simp add: launch_at_def own_launch_def)
  then show ?thesis unfolding view_at_def by (simp add: r split: option.split)
qed

text \<open>Every call leaves the other records alone, and its own one as it was or one step further.\<close>

lemma perform_cases:
  assumes p: "perform sha g c w = (res, w')" and n: "no_races w" and now: "0 < kw_now w"
  obtains (kept) "base w' = base w" "\<And>r. res = Inr (r, None) \<Longrightarrow> \<exists>w1. decide sha g c w = (Inr (Answer r), w1) \<and> decided w (call_key c) (Answer r)"
    | (stepped) r e w1 where "decide sha g c w = (Inr (Store r), w1)" "res = Inr (r, e)" "storable w (call_key c) r" "base w' = base (put_launch r w)"
proof -
  show thesis
    using quiet_decide_call p [unfolded perform_settle]
  proof (cases rule: settle_cases)
    case (failed e w1)
    with kept show ?thesis by simp
  next
    case (answered r w1)
    with kept decide_decided [OF answered(1) n now] show ?thesis by simp
  next
    case (stored r w1 e)
    with stepped decide_decided [OF stored(1) n now] show ?thesis by (simp add: decided_def)
  next
    case (unstored r w1 e)
    with kept show ?thesis by simp
  qed
qed

lemma perform_view:
  assumes p: "perform sha g c w = (res, w')" and n: "no_races w" and now: "0 < kw_now w"
  shows "k \<noteq> call_key c \<Longrightarrow> view_at w' k = view_at w k"
    and "view_at w' (call_key c) = view_at w (call_key c) \<or> launch_step (kw_now w) (view_at w (call_key c)) (view_at w' (call_key c))"
    and "no_races w'" and "kw_now w' = kw_now w"
proof -
  have "(k \<noteq> call_key c \<longrightarrow> view_at w' k = view_at w k) \<and>
    (view_at w' (call_key c) = view_at w (call_key c) \<or> launch_step (kw_now w) (view_at w (call_key c)) (view_at w' (call_key c))) \<and>
    no_races w' \<and> kw_now w' = kw_now w"
    using p n now
  proof (cases rule: perform_cases)
    case kept
    with n base_fields [OF kept(1)] base_view [OF kept(1)] show ?thesis by (simp add: no_races_def)
  next
    case (stepped r e w1)
    note b = base_fields [OF stepped(4)] base_view [OF stepped(4)]
    have "no_races w'" using n b(1,2) by (auto simp: no_races_def own_launch_def)
    with b stepped(3) view_put [OF stepped(3)] show ?thesis by (simp add: storable_def)
  qed
  then show "k \<noteq> call_key c \<Longrightarrow> view_at w' k = view_at w k"
    "view_at w' (call_key c) = view_at w (call_key c) \<or> launch_step (kw_now w) (view_at w (call_key c)) (view_at w' (call_key c))"
    "no_races w'" "kw_now w' = kw_now w" by blast+
qed


section \<open>Properties\<close>

lemma perform_answer:
  assumes p: "perform sha g c w = (Inr (r, None), w')" and n: "no_races w" and now: "0 < kw_now w"
  shows "\<exists>r0. launch_at w' (call_key c) = Some r0 \<and> (r = r0 \<or> r = r0\<lparr>la_lease := []\<rparr>)"
  using p n now
proof (cases rule: perform_cases)
  case kept
  from kept(2) [OF refl] base_view(1) [OF kept(1)] show ?thesis by (auto simp: decided_def)
next
  case (stepped r' e w1)
  then have r: "r' = r" by simp
  from stepped(3) have "launch_at (put_launch r' w) (call_key c) = Some r'"
    by (auto simp: storable_def launch_at_def own_launch_def)
  with r base_view(1) [OF stepped(4)] show ?thesis by simp
qed

text \<open>C18: The launch operations refine the abstract launch: \<open>claimLaunch\<close>, \<open>finishLaunch\<close> and \<open>abortLaunch\<close>,
  whatever fails on the way, leave the records of all other request keys as they are, and the record of their own key
  either as it was or one step of \<open>launch_step\<close> further at the present time; the record they return without an error is
  the durable one, possibly with its lease taken out.\<close>

theorem launch_refines:
  assumes "perform sha g c w = (res, w')" and "no_races w" and "0 < kw_now w"
  shows "(k \<noteq> call_key c \<longrightarrow> view_at w' k = view_at w k) \<and>
    (view_at w' (call_key c) = view_at w (call_key c) \<or> launch_step (kw_now w) (view_at w (call_key c)) (view_at w' (call_key c))) \<and>
    (res = Inr (r, None) \<longrightarrow> (\<exists>r0. launch_at w' (call_key c) = Some r0 \<and> (r = r0 \<or> r = r0\<lparr>la_lease := []\<rparr>)))"
  using perform_view(1,2) [OF assms] perform_answer assms by blast

lemma view_launch_at: "view_at w key = Entry fp n p \<Longrightarrow> \<exists>r. launch_at w key = Some r \<and> entry_of r = Entry fp n p"
  by (auto simp: view_at_def split: option.splits)

lemma held_record:
  assumes "entry_of r = Entry fp n (Held l t)" and "launch_error key r = None"
  shows "la_state r = pending_state" "la_lease r = l" "la_updated r = t"
  using assms by (auto simp: entry_of_def phase_of_def split: if_splits)

lemma held_usable:
  assumes v: "view_at w key = Entry fp n (Held l t)" and u: "usable w key f r fresh" and live: "kw_now w - t < lease_period"
  shows "\<not> still_open (kw_now w) r"
proof -
  from view_launch_at [OF v] obtain r0 where r0: "launch_at w key = Some r0" "entry_of r0 = Entry fp n (Held l t)" by blast
  from r0(1) have "map_of (kw_launches w) key \<noteq> None" by (auto simp: launch_at_def split: option.splits)
  with u r0(1) have "r = r0" by (auto simp: usable_def split: if_splits)
  with held_record [OF r0(2) conjunct2 [OF launch_at_view [OF r0(1)]]] live show ?thesis by (auto simp: still_open_def)
qed

lemma live_lease_kept:
  assumes p: "perform sha g c w = (res, w')" and n: "no_races w" and now: "0 < kw_now w"
    and v: "view_at w (call_key c) = Entry fp m (Held l t)" and live: "kw_now w - t < lease_period"
    and other: "\<And>i. c \<noteq> Finish (call_key c) l i" "\<And>i. c \<noteq> Abort (call_key c) l i"
  shows "view_at w' (call_key c) = view_at w (call_key c)" and "res = Inr (r, None) \<Longrightarrow> la_lease r = []"
proof -
  from view_launch_at [OF v] obtain r0 where r0: "launch_at w (call_key c) = Some r0" "entry_of r0 = Entry fp m (Held l t)" by blast
  note h = held_record [OF r0(2) conjunct2 [OF launch_at_view [OF r0(1)]]]
  have no_store: False if d: "decide sha g c w = (Inr (Store x), w1)" for x w1
  proof (cases c)
    case (Claim key f)
    with d claim_decide_cases(2) [of sha g key f w "Store x" w1 x] n now held_usable [OF v _ live]
    show ?thesis by auto
  next
    case (Finish key k i)
    with d finish_decide_cases(2) [of key k i w "Store x" w1] now r0(1) h other(1) [of i] show ?thesis by auto
  next
    case (Abort key k i)
    with d abort_decide_cases(2) [of key k i w "Store x" w1] now r0(1) h other(2) [of i] show ?thesis by auto
  qed
  have "view_at w' (call_key c) = view_at w (call_key c) \<and> (res = Inr (r, None) \<longrightarrow> la_lease r = [])"
    using p n now
  proof (cases rule: perform_cases)
    case kept
    with base_view(2) [OF kept(1)] r0(1) h(1) show ?thesis by (auto simp: decided_def dest!: kept(2))
  next
    case (stepped x e w1)
    with no_store show ?thesis by blast
  qed
  then show "view_at w' (call_key c) = view_at w (call_key c)" "res = Inr (r, None) \<Longrightarrow> la_lease r = []" by blast+
qed

lemma granted:
  assumes p: "perform sha g (Claim key fp) w = (Inr (r, None), w')" and n: "no_races w" and now: "0 < kw_now w"
    and s: "la_state r = pending_state" and l: "la_lease r \<noteq> []"
  shows "view_at w' key = Entry fp (la_attempt r) (Held (la_lease r) (kw_now w))"
  using p n now
proof (cases rule: perform_cases)
  case kept
  with kept(2) [OF refl] s l show ?thesis by (auto simp: decided_def)
next
  case (stepped x e w1)
  then have x: "x = r" by simp
  from claim_decide_cases(2) [OF _ n now, of sha g key fp "Store r" w1 r] stepped(1) x obtain r0 fresh where
    u: "usable w key fp r0 fresh" and o: "(\<exists>k. r = claimed k (kw_now w) r0) \<or> (\<exists>i. r = completed i (kw_now w) r0)" by auto
  from o s obtain k where k: "r = claimed k (kw_now w) r0" by (auto simp: completed_def)
  then have e: "entry_of r = Entry fp (la_attempt r) (Held (la_lease r) (kw_now w))"
    using usable_fields(5) [OF u] by (simp add: entry_of_def phase_of_def claimed_def)
  have "view_at w' key = view_at (put_launch r w) key" using base_view(2) [OF stepped(4)] x by simp
  with e view_put [OF stepped(3), of key] x show ?thesis by simp
qed

text \<open>A launch lease is exclusive: while a request is held under a lease younger than five minutes, the only calls
  that change its record or are answered with a lease are \<open>finishLaunch\<close> and \<open>abortLaunch\<close> with exactly that lease;
  and a lease that \<open>claimLaunch\<close> hands out without an error is on disk, with its attempt, as the one live hold of the
  request from the present time on.\<close>

theorem launch_exclusive:
  assumes "perform sha g c w = (res, w')" and "no_races w" and "0 < kw_now w"
  shows "(view_at w (call_key c) = Entry fp n (Held l t) \<and> kw_now w - t < lease_period \<and>
      (view_at w' (call_key c) \<noteq> view_at w (call_key c) \<or> res = Inr (r, None) \<and> la_lease r \<noteq> []) \<longrightarrow>
      (\<exists>i. c = Finish (call_key c) l i \<or> c = Abort (call_key c) l i)) \<and>
    (c = Claim key f \<and> res = Inr (r, None) \<and> la_state r = pending_state \<and> la_lease r \<noteq> [] \<longrightarrow>
      view_at w' key = Entry f (la_attempt r) (Held (la_lease r) (kw_now w)))"
  using live_lease_kept [OF assms] granted [of sha g key f w r w'] assms by blast

text \<open>Calls of any caller in any order; between two calls time passes and everything but the records may change.\<close>

inductive launch_run :: "(string \<Rightarrow> string) \<Rightarrow> guard \<Rightarrow> kworld \<Rightarrow> kworld \<Rightarrow> bool" for sha g where
  start: "launch_run sha g w w"
| call: "launch_run sha g w w1 \<Longrightarrow> perform sha g c w1 = (res, w2) \<Longrightarrow> launch_run sha g w w2"
| elapse: "launch_run sha g w w1 \<Longrightarrow> kw_launches w2 = kw_launches w1 \<Longrightarrow> no_races w2 \<Longrightarrow> 0 < kw_now w2 \<Longrightarrow> launch_run sha g w w2"

definition settled_phase :: "phase \<Rightarrow> bool" where
  "settled_phase p \<longleftrightarrow> (case p of Done i \<Rightarrow> True | Cleanup i \<Rightarrow> True | _ \<Rightarrow> False)"

lemma step_entry:
  assumes "launch_step now (Entry fp n p) v"
  shows "\<not> settled_phase p \<and> (\<exists>m q. v = Entry fp m q \<and> n \<le> m \<and> m \<le> n + 1)"
  using assms by (cases rule: launch_step_entryE) (auto simp: settled_phase_def open_phase_def split: phase.splits)

lemma run_entry:
  assumes "launch_run sha g w w'" and "no_races w" and "0 < kw_now w" and "view_at w key = Entry fp n p"
  shows "no_races w' \<and> 0 < kw_now w' \<and>
    (\<exists>m q. view_at w' key = Entry fp m q \<and> n \<le> m \<and> (settled_phase p \<longrightarrow> m = n \<and> q = p))"
  using assms
proof (induction rule: launch_run.induct)
  case (start w)
  then show ?case by simp
next
  case (call w w1 c res w2)
  then obtain m q where v: "no_races w1" "0 < kw_now w1" "view_at w1 key = Entry fp m q" "n \<le> m"
    and keep: "settled_phase p \<longrightarrow> m = n \<and> q = p" by blast
  note pv = perform_view [OF call(2) v(1,2)]
  show ?case
  proof (cases "view_at w2 key = view_at w1 key")
    case True
    with v keep pv(3,4) show ?thesis by simp
  next
    case False
    with pv(1) [of key] have "key = call_key c" by blast
    with False pv(2) v(3) have "launch_step (kw_now w1) (Entry fp m q) (view_at w2 key)" by metis
    from step_entry [OF this] keep v pv(3,4) show ?thesis by auto
  qed
next
  case (elapse w w1 w2)
  with view_cong(2) [of w2 w1 key] show ?case by simp
qed

text \<open>A settled launch never changes: over any run of calls by any callers and any passing of time, a request keeps its
  fingerprint, its number of attempts never falls, and once it is complete or waits for cleanup its record stays exactly that,
  with the same worker, so that replays of the request can never start a second worker.\<close>

theorem launch_settled:
  assumes "launch_run sha g w w'" and "no_races w" and "0 < kw_now w" and "view_at w key = Entry fp n p"
  shows "\<exists>m q. view_at w' key = Entry fp m q \<and> n \<le> m \<and> (settled_phase p \<longrightarrow> m = n \<and> q = p)"
  using run_entry [OF assms] by blast


section \<open>A sample request\<close>

definition sample_key :: string where "sample_key = replicate 64 CHR ''c''"
definition sample_print :: string where "sample_print = replicate 64 CHR ''d''"

definition sample_idle :: kworld where "sample_idle = sample_world\<lparr>kw_random := [''0a'', ''0b'']\<rparr>"
definition sample_held :: kworld where
  "sample_held = put_launch (claimed ''0a'' 1000 (fresh_launch sample_key sample_print)) (sample_world\<lparr>kw_random := [''0b'']\<rparr>)"

lemma sample_digests: "digest_ok sample_key" "digest_ok sample_print"
  by code_simp+

lemma sample_launch_worlds: "no_races sample_idle" "no_races sample_held" "0 < kw_now sample_idle" "0 < kw_now sample_held"
  "view_at sample_held sample_key = Entry sample_print 1 (Held ''0a'' 1000)" "kw_now sample_held = 1000"
proof -
  show "no_races sample_idle" "no_races sample_held" "0 < kw_now sample_idle" "0 < kw_now sample_held" "kw_now sample_held = 1000"
    by (auto simp: no_races_def sample_idle_def sample_held_def sample_world_def own_launch_def claimed_def fresh_launch_def split: if_splits)
  show "view_at sample_held sample_key = Entry sample_print 1 (Held ''0a'' 1000)" by code_simp
qed

lemma sample_quiet:
  assumes "kw_faults w = []" "kw_ctx w = []" "kw_launch_trust w = None"
  shows "ksys w = (Inr (), w)" "kctx w = (Inr (), w)" "launch_dir w = (Inr (), w)"
  using assms by (simp_all add: ksys_def kctx_def kctx_ended_def launch_dir_def bindIO_def getIO_def liftE_def require_def whenE_def returnIO_def)

lemma sample_launch_fields:
  "kw_faults sample_idle = []" "kw_ctx sample_idle = []" "kw_launch_trust sample_idle = None" "kw_launches sample_idle = []"
  "kw_engine_up sample_idle" "kw_workers sample_idle n = Inl ENoWorker" "kw_random sample_idle = [''0a'', ''0b'']" "kw_now sample_idle = 1000"
  by (simp_all add: sample_idle_def sample_world_def)

lemma sample_granted:
  "perform id sample_guard (Claim sample_key sample_print) sample_idle =
     (Inr (claimed ''0a'' 1000 (fresh_launch sample_key sample_print), None), sample_held)"
proof -
  note io = bindIO_def getIO_def updIO_def catchIO_def liftE_def require_def whenE_def returnIO_def throwIO_def
  note q = sample_quiet [OF sample_launch_fields(1-3)]
  let ?r = "fresh_launch sample_key sample_print"
  have r: "read_launch sample_key sample_idle = (Inl ENotFound, sample_idle)"
    by (simp add: read_launch_def io q sample_digests sample_launch_fields)
  have f: "find_request n sample_idle = (Inr None, sample_idle)" for n
    by (simp add: find_request_def inspect_worker_def io q sample_launch_fields)
  have s: "la_state ?r = failed_state" by (simp add: fresh_launch_def)
  let ?w = "sample_world\<lparr>kw_random := [''0b'']\<rparr>"
  have l: "next_lease sample_idle = (Inr ''0a'', ?w)" by (simp add: next_lease_def sample_idle_def)
  have d: "claim_decide id sample_guard sample_key sample_print sample_idle = (Inr (Store (claimed ''0a'' 1000 ?r)), ?w)"
    by (simp add: claim_decide_def claim_known_def claim_record_def claim_free_def io q r f s l sample_digests sample_launch_fields)
      (simp add: sample_world_def)
  have q2: "ksys w = (Inr (), w)" "launch_dir w = (Inr (), w)" if "w = ?w \<or> w = sample_held" for w
    using that by (auto intro!: sample_quiet simp: sample_held_def put_launch_def sample_world_def)
  have "write_launch (claimed ''0a'' 1000 ?r) ?w = (Inr (), sample_held)"
    by (simp add: write_launch_def io q2 flip: sample_held_def)
  with d show ?thesis by (simp add: claim_launch_def settle_def io)
qed

theorem launch_refines_witness:
  "launch_step 1000 Absent (view_at sample_held sample_key) \<and>
     launch_at sample_held sample_key = Some (claimed ''0a'' 1000 (fresh_launch sample_key sample_print))"
proof -
  have "view_at sample_idle sample_key = Absent" "view_at sample_held sample_key \<noteq> Absent"
    using sample_launch_worlds(5) by (simp_all add: view_at_def sample_launch_fields)
  moreover have "launch_error sample_key (claimed ''0a'' 1000 (fresh_launch sample_key sample_print)) = None" by code_simp
  then have "launch_at sample_held sample_key = Some (claimed ''0a'' 1000 (fresh_launch sample_key sample_print))"
    by (simp add: launch_at_def sample_held_def own_launch_def fresh_launch_def)
  ultimately show ?thesis
    using launch_refines [OF sample_granted sample_launch_worlds(1,3), of sample_key] sample_launch_fields
    by (auto simp: claimed_def)
qed

theorem launch_exclusive_witness:
  "\<exists>res w'. perform id sample_guard (Abort sample_key ''0b'' []) sample_held = (res, w') \<and>
     view_at w' sample_key = Entry sample_print 1 (Held ''0a'' 1000)"
proof -
  obtain res w' where p: "perform id sample_guard (Abort sample_key ''0b'' []) sample_held = (res, w')"
    by (meson surj_pair)
  from launch_exclusive [OF p sample_launch_worlds(2,4), of sample_print 1 "''0a''" 1000] sample_launch_worlds(5,6) p
  show ?thesis by (auto simp: lease_period_def)
qed

text \<open>The holder gave the request up but left worker \<open>w\<close>; a claim long after still finds that.\<close>

definition sample_left :: kworld where
  "sample_left = (put_launch (aborted ''w'' 1000 (claimed ''0a'' 1000 (fresh_launch sample_key sample_print))) sample_held)\<lparr>kw_now := 9000000000000\<rparr>"

lemma sample_left_facts: "no_races sample_left" "0 < kw_now sample_left" "view_at sample_left sample_key = Entry sample_print 1 (Cleanup ''w'')"
proof -
  show "no_races sample_left" "0 < kw_now sample_left"
    using sample_launch_worlds(2) by (auto simp: sample_left_def no_races_def own_launch_def)
  show "view_at sample_left sample_key = Entry sample_print 1 (Cleanup ''w'')" by code_simp
qed

theorem launch_settled_witness:
  "\<exists>res w'. perform id sample_guard (Claim sample_key sample_print) sample_left = (res, w') \<and>
     view_at w' sample_key = Entry sample_print 1 (Cleanup ''w'')"
proof -
  obtain res w' where p: "perform id sample_guard (Claim sample_key sample_print) sample_left = (res, w')"
    by (meson surj_pair)
  have "launch_run id sample_guard sample_left w'" by (rule call [OF start p])
  from launch_settled [OF this sample_left_facts] p show ?thesis by (auto simp: settled_phase_def)
qed

end
