(* ===== verification/KataNode.thy ===== *)
theory KataNode
  imports KataLaunch
begin

text \<open>
  The node service and its client (\<open>broker.go\<close>): the claim of the service's socket, the dispatch of requests
  to the guard, the client's calls and what a client remembers of its node.  JSON is not modelled: a request
  body is what it decodes to, or one of the ways reading it fails; the predicates \<open>small\<close> and \<open>fits\<close> say
  which requests and replies stay under the 4 KiB and 1 MiB the two sides read.  An error travels as its
  constructor instead of its message.  Where a failed \<open>readLaunch\<close> or \<open>Inventory\<close> returns what it had read
  so far beside its error, the reply of the model has the zero value.
\<close>

section \<open>Messages\<close>

record node_info =
  ni_protocol :: int
  ni_build :: string
  ni_capabilities :: "string list"
  ni_profile :: string
  ni_endpoint :: string
  ni_stamp :: string
  ni_launcher :: string
  ni_root :: string
  ni_cache :: string
  ni_protected :: "string list"

record node_request =
  nq_action :: string
  nq_runtime :: string
  nq_allocation :: string
  nq_worker :: string
  nq_endpoint :: string
  nq_profile :: string
  nq_key :: string
  nq_print :: string
  nq_lease :: string
  nq_worker_id :: string
  nq_force :: bool

record node_reply =
  ny_error :: "kata_error option"
  ny_code :: string
  ny_parent :: string
  ny_info :: node_info
  ny_inventory :: inventory
  ny_launch :: launch_record
  ny_profiles :: "resource_profile list"

definition zero_info :: node_info where
  "zero_info = \<lparr>ni_protocol = 0, ni_build = [], ni_capabilities = [], ni_profile = [], ni_endpoint = [], ni_stamp = [],
     ni_launcher = [], ni_root = [], ni_cache = [], ni_protected = []\<rparr>"

definition zero_inventory :: inventory where
  "zero_inventory = \<lparr>inv_observed = 0, inv_available = False, inv_problems = [], inv_vms = []\<rparr>"

definition zero_request :: node_request where
  "zero_request = \<lparr>nq_action = [], nq_runtime = [], nq_allocation = [], nq_worker = [], nq_endpoint = [], nq_profile = [],
     nq_key = [], nq_print = [], nq_lease = [], nq_worker_id = [], nq_force = False\<rparr>"

definition zero_reply :: node_reply where
  "zero_reply = \<lparr>ny_error = None, ny_code = [], ny_parent = [], ny_info = zero_info, ny_inventory = zero_inventory,
     ny_launch = zero_launch, ny_profiles = []\<rparr>"

section \<open>The socket\<close>

text \<open>
  \<open>Serve\<close> up to its guard.  \<open>pr_dial\<close> is the result of dialling the socket (whether it was refused),
  \<open>pr_again\<close> the second look at it, \<open>pr_remove\<close> the result of its removal.
\<close>

record probe =
  pr_refused :: bool
  pr_again :: "(kata_error, node_stat) result"
  pr_remove :: "kata_error option"

datatype serve_fault = NotRoot | BadSocket | UntrustedOld | SocketActive | SocketChanged | GuardFault kata_error

definition replace_socket :: "probe \<Rightarrow> node_stat \<Rightarrow> (serve_fault, bool) result" where
  "replace_socket p info =
     (if ns_kind info \<noteq> SocketNode \<or> \<not> root_owner info then Inl UntrustedOld
      else if \<not> pr_refused p then Inl SocketActive
      else case pr_again p of
        Inl _ \<Rightarrow> Inl SocketChanged
      | Inr s \<Rightarrow> if ns_file s \<noteq> ns_file info then Inl SocketChanged
          else (case pr_remove p of Some e \<Rightarrow> Inl (GuardFault e) | None \<Rightarrow> Inr True))"

text \<open>The result says whether a stale socket was removed.\<close>

definition claim_socket :: "node_host \<Rightarrow> probe \<Rightarrow> string \<Rightarrow> (serve_fault, bool) result" where
  "claim_socket h p socket =
     (if nh_euid h \<noteq> 0 then Inl NotRoot
      else if \<not> clean_path socket then Inl BadSocket
      else case trusted_dir h (path_dir socket) of
        Some e \<Rightarrow> Inl (GuardFault e)
      | None \<Rightarrow> (case nh_lstat h socket of
          Inr info \<Rightarrow> replace_socket p info
        | Inl e \<Rightarrow> if e = ENotFound then Inr False else Inl (GuardFault e)))"

definition start_guard :: "node_host \<Rightarrow> bool \<Rightarrow> guard_config \<Rightarrow> (kata_error, guard) result" where
  "start_guard h ended c =
     bindE (new_guard h c) (\<lambda>g.
     bindE (validate h ended g (mf_runtime (gd_manifest g))) (\<lambda>_.
     bindE (read_config h (asset_path (gd_manifest g) ''config'') (asset_path (gd_manifest g) ''daemon'') (mf_runtime (gd_manifest g)))
       (\<lambda>_. Inr g)))"

definition serve_start :: "node_host \<Rightarrow> probe \<Rightarrow> bool \<Rightarrow> guard_config \<Rightarrow> string \<Rightarrow> (serve_fault, guard) result" where
  "serve_start h p ended c socket =
     bindE (claim_socket h p socket) (\<lambda>_.
     (case start_guard h ended c of Inl e \<Rightarrow> Inl (GuardFault e) | Inr g \<Rightarrow> Inr g))"

section \<open>Dispatch\<close>

text \<open>What the service is started with: its guard, its socket and the build of its binary.\<close>

record node_service =
  sv_guard :: guard
  sv_socket :: string
  sv_build :: string

definition base_capabilities :: "string list" where
  "base_capabilities = [''request-status-v1'', ''request-cleanup-v1'', ''resource-profiles-v1'', ''operator-resource-profiles-v1'',
     ''filesystem-policy-v1'', ''idle-activity-v1'', ''idle-safe-v1'', ''create-before-start-v1'', ''exec-options-v1'',
     ''background-jobs-v1'', ''exec-pty-resize-v1'', ''image-digest-v1'', ''worker-quarantine-v1'']"

definition capabilities :: "guard \<Rightarrow> string list" where
  "capabilities g = base_capabilities @ (if gd_temporary g then [''bounded-tmpfs-v1''] else []) @
     (if supports_pid_profiles (gd_manifest g) then [''dynamic-pid-profiles-v1''] else [])"

definition node_info_of :: "node_host \<Rightarrow> node_service \<Rightarrow> node_info" where
  "node_info_of h sv = (let g = sv_guard sv in
     \<lparr>ni_protocol = 2, ni_build = sv_build sv, ni_capabilities = capabilities g, ni_profile = pinned_profile,
      ni_endpoint = gc_endpoint (gd_config g), ni_stamp = stamp h g, ni_launcher = launcher g,
      ni_root = gc_root (gd_config g), ni_cache = ''none'', ni_protected = protected_paths h g @ [sv_socket sv]\<rparr>)"

text \<open>A reply is filled in with the result of an operation, or with its error.\<close>

definition outcome :: "('a \<Rightarrow> node_reply) \<Rightarrow> (kata_error, 'a) result \<Rightarrow> node_reply" where
  "outcome fill r = (case r of Inl e \<Rightarrow> zero_reply\<lparr>ny_error := Some e\<rparr> | Inr x \<Rightarrow> fill x)"

definition run_reply :: "('a \<Rightarrow> node_reply) \<Rightarrow> 'a kio \<Rightarrow> kworld \<Rightarrow> (node_reply \<times> kworld) option" where
  "run_reply fill m w = (case m w of (r, w') \<Rightarrow> Some (outcome fill r, w'))"

definition parent_reply :: "string \<Rightarrow> node_reply" where "parent_reply p = zero_reply\<lparr>ny_parent := p\<rparr>"
definition launch_reply :: "launch_record \<times> kata_error option \<Rightarrow> node_reply" where
  "launch_reply x = zero_reply\<lparr>ny_launch := fst x, ny_error := snd x\<rparr>"

definition validate_action :: "node_service \<Rightarrow> string \<Rightarrow> node_reply kio" where
  "validate_action sv runtime =
     bindIO kctx_ended (\<lambda>ended.
     bindIO (getIO (\<lambda>w. validate (kw_host w) ended (sv_guard sv) runtime)) (\<lambda>v.
     bindIO (getIO (\<lambda>w. node_info_of (kw_host w) sv)) (\<lambda>info.
     returnIO (zero_reply\<lparr>ny_error := (case v of Inl e \<Rightarrow> Some e | Inr _ \<Rightarrow> None), ny_info := info\<rparr>))))"

definition all_profiles :: "guard \<Rightarrow> resource_profile list" where
  "all_profiles g = builtin_profiles @ gd_profiles g"

definition status_action :: "string \<Rightarrow> launch_record kio" where
  "status_action key = bindIO (read_launch key) (\<lambda>r. returnIO (r\<lparr>la_lease := []\<rparr>))"

text \<open>\<open>env\<close> and \<open>ended\<close> are what happens in the pauses of a waiting release, and when its context has ended.\<close>

definition dispatch ::
  "(string \<Rightarrow> string) \<Rightarrow> (nat \<Rightarrow> kworld \<Rightarrow> kworld) \<Rightarrow> (nat \<Rightarrow> bool) \<Rightarrow> node_service \<Rightarrow> node_request \<Rightarrow> kworld \<Rightarrow> (node_reply \<times> kworld) option" where
  "dispatch sha env ended sv q w = (let g = sv_guard sv; a = nq_action q in
     if nq_endpoint q \<noteq> gc_endpoint (gd_config g) then Some (zero_reply\<lparr>ny_error := Some (ENode OtherEndpoint)\<rparr>, w)
     else if a = ''validate'' then run_reply id (validate_action sv (nq_runtime q)) w
     else if a = ''inventory'' then run_reply (\<lambda>L. zero_reply\<lparr>ny_inventory := L\<rparr>) (take_inventory g) w
     else if a = ''profiles'' then Some (zero_reply\<lparr>ny_profiles := all_profiles g\<rparr>, w)
     else if a = ''recover-orphan'' then
       map_option (map_prod (outcome (\<lambda>_. zero_reply)) id) (recover_orphan env ended g (nq_allocation q) (nq_force q) w)
     else if a = ''reserve'' then run_reply parent_reply (reserve_profile g (nq_allocation q) (nq_profile q)) w
     else if a = ''verify'' then run_reply (\<lambda>_. zero_reply) (verify g (nq_allocation q) (nq_worker q)) w
     else if a = ''release'' then
       map_option (map_prod (outcome (\<lambda>_. zero_reply)) id) (release env ended g (nq_allocation q) (nq_worker q) w)
     else if a = ''launch-claim'' then run_reply launch_reply (claim_launch sha g (nq_key q) (nq_print q)) w
     else if a = ''launch-finish'' then run_reply launch_reply (finish_launch (nq_key q) (nq_lease q) (nq_worker_id q)) w
     else if a = ''launch-abort'' then run_reply launch_reply (abort_launch (nq_key q) (nq_lease q) (nq_worker_id q)) w
     else if a = ''launch-status'' then run_reply (\<lambda>r. zero_reply\<lparr>ny_launch := r\<rparr>) (status_action (nq_key q)) w
     else Some (zero_reply\<lparr>ny_error := Some (ENode UnknownAction)\<rparr>, w))"

definition error_code :: "kata_error option \<Rightarrow> string" where
  "error_code e = (if e = Some ENotFound then ''request_not_found''
     else if e = Some EConflict then ''request_conflict''
     else if e = Some ECapacity then ''capacity_exhausted'' else [])"

definition finished :: "node_reply \<Rightarrow> nat \<times> node_reply" where
  "finished y = (if ny_error y = None then 200 else 409, y\<lparr>ny_code := error_code (ny_error y)\<rparr>)"

text \<open>The HTTP handler: requests for other paths go to the engine.\<close>

datatype node_answer = Engine | Plain nat | Replied nat node_reply

definition node_path :: string where "node_path = ''/v1/node''"

definition handle_node ::
  "(string \<Rightarrow> string) \<Rightarrow> (nat \<Rightarrow> kworld \<Rightarrow> kworld) \<Rightarrow> (nat \<Rightarrow> bool) \<Rightarrow> node_service \<Rightarrow> string \<Rightarrow> string \<Rightarrow> node_request document \<Rightarrow> kworld \<Rightarrow>
   (node_answer \<times> kworld) option" where
  "handle_node sha env ended sv path verb body w =
     (if path \<noteq> node_path then Some (Engine, w)
      else if verb \<noteq> ''POST'' then Some (Plain 404, w)
      else case decoded body of
        Inl _ \<Rightarrow> Some (Plain 400, w)
      | Inr q \<Rightarrow> map_option (map_prod (case_prod Replied \<circ> finished) id) (dispatch sha env ended sv q w))"

section \<open>The client\<close>

record node_client =
  nc_endpoint :: string
  nc_socket :: string
  nc_build :: string
  nc_info :: node_info

datatype client_error = Link kata_error | NodeError string "kata_error option" | Local kata_error

text \<open>\<open>Connect\<close>: the socket must be root's, in a trusted directory, and closed to others.\<close>

definition connect :: "node_host \<Rightarrow> string \<Rightarrow> string \<Rightarrow> string \<Rightarrow> (kata_error, node_client) result" where
  "connect h build socket endpoint =
     bindE (nh_links h socket) (\<lambda>canonical.
     bindE (require (trusted_dir h (path_dir canonical))) (\<lambda>_.
     bindE (nh_lstat h canonical) (\<lambda>s.
     failE (ns_kind s \<noteq> SocketNode \<or> ns_perm s mod 8 \<noteq> 0 \<or> \<not> root_owner s) (ETrust UntrustedSocket)
       (Inr \<lparr>nc_endpoint = endpoint, nc_socket = canonical, nc_build = build, nc_info = zero_info\<rparr>))))"

text \<open>
  A link carries a request and brings back the status and reply, or fails; \<open>None\<close> when the node never
  answers.  \<open>call\<close> is the client's side of it.
\<close>

type_synonym 'w link = "node_request \<Rightarrow> 'w \<Rightarrow> ((kata_error, nat \<times> node_reply) result \<times> 'w) option"

definition received :: "(kata_error, nat \<times> node_reply) result \<Rightarrow> (client_error, node_reply) result" where
  "received x = (case x of
     Inl e \<Rightarrow> Inl (Link e)
   | Inr (status, y) \<Rightarrow> if status \<noteq> 200 \<or> ny_error y \<noteq> None then Inl (NodeError (ny_code y) (ny_error y)) else Inr y)"

definition call :: "'w link \<Rightarrow> node_client \<Rightarrow> node_request \<Rightarrow> 'w \<Rightarrow> ((client_error, node_reply) result \<times> 'w) option" where
  "call link c q w = map_option (map_prod received id) (link (q\<lparr>nq_endpoint := nc_endpoint c\<rparr>) w)"

text \<open>The requests of the client's operations.\<close>

definition validate_request :: "string \<Rightarrow> node_request" where
  "validate_request runtime = zero_request\<lparr>nq_action := ''validate'', nq_runtime := runtime\<rparr>"
definition reserve_request :: "string \<Rightarrow> string \<Rightarrow> node_request" where
  "reserve_request aid profile = zero_request\<lparr>nq_action := ''reserve'', nq_allocation := aid, nq_profile := profile\<rparr>"
definition verify_request :: "string \<Rightarrow> string \<Rightarrow> node_request" where
  "verify_request aid worker = zero_request\<lparr>nq_action := ''verify'', nq_allocation := aid, nq_worker := worker\<rparr>"
definition release_request :: "string \<Rightarrow> string \<Rightarrow> node_request" where
  "release_request aid worker = zero_request\<lparr>nq_action := ''release'', nq_allocation := aid, nq_worker := worker\<rparr>"
definition inventory_request :: node_request where
  "inventory_request = zero_request\<lparr>nq_action := ''inventory''\<rparr>"
definition profiles_request :: node_request where
  "profiles_request = zero_request\<lparr>nq_action := ''profiles''\<rparr>"
definition recover_request :: "string \<Rightarrow> bool \<Rightarrow> node_request" where
  "recover_request aid force = zero_request\<lparr>nq_action := ''recover-orphan'', nq_allocation := aid, nq_force := force\<rparr>"
definition claim_request :: "string \<Rightarrow> string \<Rightarrow> node_request" where
  "claim_request key fp = zero_request\<lparr>nq_action := ''launch-claim'', nq_key := key, nq_print := fp\<rparr>"
definition status_request :: "string \<Rightarrow> node_request" where
  "status_request key = zero_request\<lparr>nq_action := ''launch-status'', nq_key := key\<rparr>"
definition finish_request :: "string \<Rightarrow> string \<Rightarrow> string \<Rightarrow> node_request" where
  "finish_request key lease worker = zero_request\<lparr>nq_action := ''launch-finish'', nq_key := key, nq_lease := lease, nq_worker_id := worker\<rparr>"
definition abort_request :: "string \<Rightarrow> string \<Rightarrow> string \<Rightarrow> node_request" where
  "abort_request key lease worker = zero_request\<lparr>nq_action := ''launch-abort'', nq_key := key, nq_lease := lease, nq_worker_id := worker\<rparr>"

definition dev_build :: string where "dev_build = ''dev''"

definition accept_info :: "node_client \<Rightarrow> node_info \<Rightarrow> (kata_error, node_client) result" where
  "accept_info c i =
     (if ni_profile i \<noteq> pinned_profile \<or> ni_endpoint i \<noteq> nc_endpoint c \<or> length (ni_stamp i) \<noteq> 64 \<or> \<not> clean_path (ni_root i) \<or>
         \<not> clean_path (ni_launcher i) then Inl (ENode OtherNodeProfile)
      else if nc_build c \<noteq> dev_build \<and> ni_build i \<noteq> nc_build c then Inl (ENode (VersionMismatch (nc_build c) (ni_build i)))
      else if ni_cache i \<noteq> ''none'' then Inl (ENode NoCoherentCache)
      else if ni_stamp (nc_info c) \<noteq> [] \<and> ni_stamp i \<noteq> ni_stamp (nc_info c) then Inl (ENode NodeProfileChanged)
      else Inr (c\<lparr>nc_info := i\<rparr>))"

text \<open>The client keeps what it knew unless validation succeeds.\<close>

definition client_validate :: "'w link \<Rightarrow> node_client \<Rightarrow> string \<Rightarrow> 'w \<Rightarrow> (client_error option \<times> node_client \<times> 'w) option" where
  "client_validate link c runtime w = map_option (\<lambda>(r, w'). case r of
       Inl e \<Rightarrow> (Some e, c, w')
     | Inr y \<Rightarrow> (case accept_info c (ny_info y) of Inl e \<Rightarrow> (Some (Local e), c, w') | Inr c' \<Rightarrow> (None, c', w')))
     (call link c (validate_request runtime) w)"

definition hex_digits :: string where "hex_digits = ''0123456789abcdef''"

text \<open>\<open>strings.Trim(id, digits) == ""\<close> when every character is such a digit.  \<open>filepath.Join\<close> skips an empty root.\<close>

definition client_parent :: "node_client \<Rightarrow> string \<Rightarrow> (kata_error, string) result" where
  "client_parent c aid =
     (if length aid \<noteq> 32 \<or> \<not> set aid \<subseteq> set hex_digits then Inl (EGuard BadAllocation)
      else Inr (trim_prefix (path_clean ((if ni_root (nc_info c) = [] then [] else ni_root (nc_info c) @ ''/'') @ group_entry aid)) cgroup_fs))"

definition client_protected :: "node_client \<Rightarrow> string list" where
  "client_protected c = ni_protected (nc_info c) @ [nc_socket c]"

text \<open>The link to this node: dialling and reading the reply can fail, the latter after the node has acted.\<close>

definition node_link ::
  "(node_request \<Rightarrow> bool) \<Rightarrow> (node_reply \<Rightarrow> bool) \<Rightarrow> (string \<Rightarrow> string) \<Rightarrow> (nat \<Rightarrow> kworld \<Rightarrow> kworld) \<Rightarrow> (nat \<Rightarrow> bool) \<Rightarrow> node_service \<Rightarrow> kworld link" where
  "node_link small fits sha env ended sv q w =
     (case ksys w of
        (Inl e, w1) \<Rightarrow> Some (Inl e, w1)
      | (Inr _, w1) \<Rightarrow>
          map_option (\<lambda>(a, w2). case ksys w2 of
             (Inl e, w3) \<Rightarrow> (Inl e, w3)
           | (Inr _, w3) \<Rightarrow> (case a of
               Replied s y \<Rightarrow> (if fits y then Inr (s, y) else Inl (ETrust TooLong), w3)
             | _ \<Rightarrow> (Inl (ETrust Malformed), w3)))
          (handle_node sha env ended sv node_path ''POST'' (if small q then Document q else Oversized) w1))"


section \<open>What the guard's operations leave alone\<close>

text \<open>The launch records belong to the launch operations only; everything else of the ledger does not.\<close>

definition papers :: "kworld \<Rightarrow> (string \<times> launch_file) list \<times> kata_error option \<times> int" where
  "papers w = (kw_launches w, kw_launch_trust w, kw_now w)"

lemma papers_still: "quiet still m \<Longrightarrow> quiet papers m"
proof -
  have "papers (still w) = papers w" for w by (simp add: papers_def still_def)
  then show "quiet still m \<Longrightarrow> quiet papers m" by (metis quiet_def)
qed

lemma papers_put [simp]: "papers (put_record r w) = papers w" "papers (drop_record a w) = papers w"
  "papers (put_group a n w) = papers w" "papers (drop_group a w) = papers w"
  "papers (w\<lparr>kw_proc := f\<rparr>) = papers w"
  by (simp_all add: papers_def put_record_def drop_record_def put_group_def drop_group_def)

lemmas papers_quiet = quiet_still_steps [THEN papers_still] quiet_still_kctx [THEN papers_still] quiet_still_record_dir [THEN papers_still]
  quiet_still_read_record [THEN papers_still] quiet_still_read_control [THEN papers_still]
  quiet_still_check_limits [THEN papers_still] quiet_still_admission_lock [THEN papers_still]
  quiet_still_scan [THEN papers_still] quiet_still_validate [THEN papers_still] quiet_still_own [THEN papers_still]
  quiet_still_reads [THEN papers_still] quiet_still_walk [THEN papers_still] quiet_still_release_start [THEN papers_still]
  quiet_recover_start [THEN papers_still]

lemma papers_track [simp, intro]: "quiet papers (track_allocation g aid worker q)"
  unfolding track_allocation_def current_record_def bind_worker_def write_record_def
  by (intro quiet_cases papers_quiet quiet_upd papers_put)

lemma papers_groups [simp, intro]: "quiet papers (mkdir_group a)" "quiet papers (rmdir_at a ps)" "quiet papers (write_control a x)"
  "quiet papers (remove_record a)" "quiet papers (kill_group a)" "quiet papers (mkdir_supervisor a)" "quiet papers (move_pid g a pid)"
  unfolding mkdir_group_def rmdir_at_def write_control_def remove_record_def kill_group_def mkdir_supervisor_def move_pid_def
  by (intro quiet_cases papers_quiet quiet_upd papers_put; simp split: if_split)+

lemma papers_reserve [simp, intro]: "quiet papers (reserve_profile g aid n)"
proof -
  have "quiet papers (reserve_existing g aid p)" for p
    unfolding reserve_existing_def by (intro quiet_cases papers_quiet papers_track)
  moreover have "quiet papers (reserve_new g aid p)" for p
    unfolding reserve_new_def configure_group_def by (intro quiet_cases papers_quiet papers_track papers_groups quiet_each)
  ultimately show ?thesis
    unfolding reserve_profile_def lstat_group_def by (intro quiet_cases papers_quiet)
qed

lemma papers_retire [simp, intro]: "quiet papers (retire g aid worker)"
proof -
  have "quiet papers (check_moved g aid p)" for p unfolding check_moved_def by (intro quiet_cases papers_quiet)
  then have "quiet papers (move_retired g aid worker p)" for p
    unfolding move_retired_def by (intro quiet_cases papers_quiet papers_groups)
  then have "quiet papers (retire_process g aid worker q)" for q
    unfolding retire_process_def by (cases q; simp; intro quiet_cases papers_quiet)
  then show ?thesis unfolding retire_def by (intro quiet_cases papers_quiet papers_groups quiet_each)
qed

lemma papers_guard [simp, intro]: "quiet papers (verify g aid worker)" "quiet papers (abort_create g aid worker)"
  "quiet papers (recover_kill g v)"
  unfolding verify_def abort_create_def recover_kill_def
  by (intro quiet_cases papers_quiet papers_track papers_groups papers_retire)+

lemma papers_round: "release_round g aid worker w = (x, w') \<Longrightarrow> papers w' = papers w"
proof -
  assume r: "release_round g aid worker w = (x, w')"
  obtain y w1 where k: "walk g aid worker w = (y, w1)" by (cases "walk g aid worker w")
  have w1: "papers w1 = papers w" using quietD [OF papers_still [OF quiet_still_walk] k] .
  have "quiet papers (each (rmdir_at aid) ps)" for ps by (intro quiet_each papers_groups)
  then have q: "quiet papers (bindIO (remove_groups aid paths) (\<lambda>_. remove_record aid))" for paths
    unfolding remove_groups_def by (intro quiet_bind papers_groups)
  show ?thesis using r k w1
    by (auto simp: release_round_def split: sum.splits if_splits prod.splits dest: quietD [OF q])
qed

text \<open>What holds in every world of a wait holds at its end.\<close>

lemma release_loop_keeps:
  "release_loop env ended g aid worker n w = Some (res, w') \<Longrightarrow>
   (\<And>v x v'. release_round g aid worker v = (x, v') \<Longrightarrow> I v \<Longrightarrow> I v') \<Longrightarrow> (\<And>n v. I v \<Longrightarrow> I (env n v)) \<Longrightarrow> I w \<Longrightarrow> I w'"
proof (induction n w "(res, w')" rule: release_loop_induct)
  case (step loop env ended g aid worker n w)
  obtain x w1 where r: "release_round g aid worker w = (x, w1)" by (cases "release_round g aid worker w")
  have "I w1" using step.prems r by blast
  show ?case
  proof (cases "x = Waiting \<and> \<not> ended n")
    case True
    then have "loop env ended g aid worker (Suc n) (env n w1) = Some (res, w')" using step(2) r by simp
    from step(1) [OF this] step.prems \<open>I w1\<close> show ?thesis by blast
  next
    case False
    then show ?thesis using step(2) r \<open>I w1\<close> by (cases x) (auto split: if_splits)
  qed
qed

lemma release_unlocked_papers:
  assumes I: "\<And>v v'. papers v' = papers v \<Longrightarrow> I v \<Longrightarrow> I v'" and env: "\<And>n v. I v \<Longrightarrow> I (env n v)" and w: "I w"
    and r: "release_unlocked env ended g aid worker w = Some (res, w')"
  shows "I w'"
proof -
  obtain x w1 where s: "release_start g aid worker w = (x, w1)" by (cases "release_start g aid worker w")
  have w1: "I w1" using I [OF quietD [OF papers_still [OF quiet_still_release_start] s] w] .
  have "I w'" if "release_loop env ended g aid worker 0 w1 = Some (res, w')"
    by (rule release_loop_keeps [OF that, where I = I]) (use I papers_round env w1 in blast)+
  moreover have "I w'" if "remove_record aid w1 = (res, w')"
    using I [OF quietD [OF papers_groups(4) that] w1] .
  ultimately show ?thesis using r s w1 by (auto simp: release_unlocked_def split: sum.splits if_splits)
qed

section \<open>Every operation keeps the ledger invariant\<close>

text \<open>The kernel lists process ids in canonical decimal.\<close>

definition kernel_listing :: "kworld \<Rightarrow> bool" where
  "kernel_listing w \<longleftrightarrow> (\<forall>aid. canonical_pids w aid)"

text \<open>
  What the rest of the node does between two steps of the service: time passes, processes come and go,
  containerd's workers, the schedules and the node's files change; the manifest's digest, the service's
  own records and the names of the cgroups under its root do not.
\<close>

definition passes :: "kworld \<Rightarrow> kworld \<Rightarrow> bool" where
  "passes w w' \<longleftrightarrow> nh_digest (kw_host w') = nh_digest (kw_host w) \<and> kw_records w' = kw_records w \<and>
     kw_launches w' = kw_launches w \<and> kw_launch_trust w' = kw_launch_trust w \<and>
     map fst (kw_groups w') = map fst (kw_groups w) \<and> kw_now w \<le> kw_now w'"

lemma passes_ok:
  assumes "node_ok g w" and p: "passes w w'"
  shows "node_ok g w'"
proof -
  have "stamp (kw_host w') g = stamp (kw_host w) g" using p by (simp add: passes_def stamp_def)
  then have "record_error (kw_host w') g = record_error (kw_host w) g" by (simp add: record_error_def fun_eq_iff)
  then have "records_ok (kw_host w') g = records_ok (kw_host w) g"
    by (simp add: records_ok_def record_ok_def fun_eq_iff)
  moreover have keys: "map fst (kw_groups w') = map fst (kw_groups w)" using p by (simp add: passes_def)
  moreover have "map_of (kw_groups w') x = None \<longleftrightarrow> map_of (kw_groups w) x = None" for x
    using keys by (metis map_of_eq_None_iff set_map)
  moreover have "count_entries gs = length (filter (prefix group_prefix) (map fst gs))" for gs
    by (induction gs) (auto simp: count_entries_def)
  then have "count_entries (kw_groups w') = count_entries (kw_groups w)" using keys by metis
  ultimately show ?thesis using assms by (simp add: node_ok_def ledger_ok_def passes_def)
qed

lemma reserve_keeps:
  assumes ok: "node_ok g w" and r: "reserve_profile g aid name w = (res, w')"
  shows "node_ok g w'"
proof (cases "lookup g name")
  case None
  with r ok show ?thesis by (simp add: reserve_profile_def)
next
  case (Some p)
  have led: "registry_ok (gd_profiles g)" "ledger_ok g (kw_host w) (kw_records w) (kw_groups w)" "0 < kw_now w"
    using ok by (auto simp: node_ok_def)
  then have at0: "at (kw_dir_trust w) (kw_host w) (kw_workers w) (kw_records w) (kw_groups w) w"
    and recs: "records_ok (kw_host w) g (kw_records w)" by (auto simp: at_def ledger_ok_def)
  note tr = reserve_profile_triple [OF recs led(1) Some, of "kw_dir_trust w" "kw_workers w" "kw_groups w" aid]
  have "reserve_left (kw_dir_trust w) (kw_host w) (kw_workers w) g aid (rp_name p) (kw_records w) (kw_groups w) w'"
    using triple_Inl [OF tr at0] triple_Inr [OF tr at0] r by (cases res) (auto simp: reserve_done_def reserve_left_def)
  then show ?thesis using led reserve_effect_ok by (auto simp: reserve_left_def node_ok_def at_def)
qed

lemma verify_keeps:
  assumes ok: "node_ok g w" and canon: "canonical_pids w aid" and v: "verify g aid worker w = (res, w')"
  shows "node_ok g w'"
proof -
  have led: "ledger_ok g (kw_host w) (kw_records w) (kw_groups w)" "registry_ok (gd_profiles g)" using ok by (auto simp: node_ok_def)
  note t = verify_triple [OF ok canon, of worker]
  have "verify_left w g aid worker w'"
    using triple_Inr [OF t] triple_Inl [OF t] v by (cases res) (auto simp: verify_left_def)
  then show ?thesis
    unfolding verify_left_def
  proof (elim disjE exE conjE)
    assume "still w' = still w"
    with ok node_ok_still show ?thesis by blast
  next
    assume "at (kw_dir_trust w) (kw_host w) (kw_workers w) (kw_records w) (kw_groups w) w'"
    with ok show ?thesis by (simp add: node_ok_def at_def)
  next
    fix v0 assume v0: "verified w g aid worker v0" and c: "confined g aid v0 w'"
    have "node_ok g v0"
      using v0 tracked_ledger_ok [OF led(1)] led(2) by (auto simp: verified_def node_ok_def at_def)
    then show ?thesis using c by (rule confined_node_ok)
  qed
qed

lemma retire_keeps:
  assumes "node_ok g w" and "canonical_pids w aid" and r: "retire g aid worker w = (res, w')"
  shows "node_ok g w'"
proof -
  have "confined g aid w w'"
    using triple_Inr [OF retire_confined_triple [OF assms(2)] confined_refl] triple_Inl [OF retire_confined_triple [OF assms(2)] confined_refl] r
    by (cases res) blast+
  with assms(1) show ?thesis by (rule confined_node_ok)
qed

lemma abort_keeps:
  assumes ok: "node_ok g w" and a: "abort_create g aid worker w = (res, w')"
  shows "node_ok g w'"
  using abort_create_cases [OF a]
proof (elim disjE exE conjE)
  assume "still w' = still w"
  with ok node_ok_still show ?thesis by blast
next
  fix u w1 w2 ps w3 r
  assume s: "validate_node g w = (Inr (), w1)" "own_allocation g aid worker w1 = (Inr u, w2)" "scan g aid worker False w2 = (Inr ps, w3)"
    and k: "kill_group aid w3 = (r, w')"
  have st: "still w3 = still w"
    using quiet_step [OF quiet_still_validate s(1)] quiet_step [OF quiet_still_own s(2)] quiet_step [OF quiet_still_scan s(3)] by simp
  then have c: "cleared aid w w3" by (rule cleared_still [OF cleared_refl])
  have "cleared aid w w'"
    using kill_group_cases [OF k]
  proof (elim disjE exE conjE)
    assume "still w' = still w3"
    with c show ?thesis by (rule cleared_still)
  next
    fix nd w4 assume w4: "still w4 = still w3" and nd: "group_at w3 aid = Some nd"
      and w': "w' = put_group aid (nd\<lparr>gn_tree := map (\<lambda>(p, s). (p, [])) (gn_tree nd)\<rparr>) w4"
    have "group_at w4 aid = Some nd" using still_view [OF w4, of aid] nd by simp
    from cleared_put [OF cleared_still [OF c w4] this] w' show ?thesis by simp
  qed
  with ok show ?thesis by (rule cleared_node_ok)
qed

lemma release_keeps:
  assumes ok: "node_ok g w" and env: "\<And>n v. passes v (env n v)" and r: "release_unlocked env ended g aid worker w = Some (res, w')"
  shows "node_ok g w'"
  by (rule release_unlocked_keeps [where I = "node_ok g", OF _ _ ok r]) (use cleared_node_ok let_go_cleared passes_ok env in blast)+

lemma release_locked:
  assumes "release env ended g aid worker w = Some (res, w')"
  obtains e where "admission_lock w = (Inl e, w')" "res = Inl e"
    | u w1 where "admission_lock w = (Inr u, w1)" "release_unlocked env ended g aid worker w1 = Some (res, w')"
  using assms by (auto simp: release_def split: prod.splits sum.splits)

lemma recover_orphan_cases:
  assumes "recover_orphan env ended g value force w = Some (res, w')"
  obtains e where "recover_start g value force w = (Inl e, w')" "res = Inl e"
    | v w1 e where "recover_start g value force w = (Inr v, w1)" "recover_kill g v w1 = (Inl e, w')" "res = Inl e"
    | v w1 u w2 where "recover_start g value force w = (Inr v, w1)" "recover_kill g v w1 = (Inr u, w2)"
        "release_unlocked env ended g (vm_allocation v) (vm_container v) w2 = Some (res, w')"
  using assms by (auto simp: recover_orphan_def split: prod.splits sum.splits)

lemma node_ok_base: "node_ok g w \<Longrightarrow> base w' = base w \<or> base w' = base (put_launch r w) \<Longrightarrow> node_ok g w'"
proof -
  have f: "kw_host (base v) = kw_host v \<and> kw_now (base v) = kw_now v \<and> kw_records (base v) = kw_records v \<and> kw_groups (base v) = kw_groups v" for v
    by (simp add: base_def still_def)
  have p: "kw_host (put_launch r w) = kw_host w \<and> kw_now (put_launch r w) = kw_now w \<and> kw_records (put_launch r w) = kw_records w \<and>
    kw_groups (put_launch r w) = kw_groups w" by (simp add: put_launch_def)
  assume ok: "node_ok g w" and "base w' = base w \<or> base w' = base (put_launch r w)"
  then have "kw_host w' = kw_host w \<and> kw_now w' = kw_now w \<and> kw_records w' = kw_records w \<and> kw_groups w' = kw_groups w"
    using f [of w'] f [of w] f [of "put_launch r w"] p by metis
  with ok show "node_ok g w'" by (simp add: node_ok_def)
qed

lemma perform_keeps: "node_ok g w \<Longrightarrow> perform sha g c w = (res, w') \<Longrightarrow> node_ok g w'"
proof -
  assume ok: "node_ok g w" and "perform sha g c w = (res, w')"
  then have "settle (decide sha g c) w = (res, w')" by (simp add: perform_settle)
  with quiet_decide_call show "node_ok g w'" by (cases rule: settle_cases) (use node_ok_base [OF ok] in blast)+
qed

section \<open>Dispatch as a whole\<close>

lemma run_reply_Some: "run_reply f m w = Some (y, w') \<longleftrightarrow> (\<exists>r. m w = (r, w') \<and> y = outcome f r)"
  by (auto simp: run_reply_def split: prod.splits)

lemma quiet_reading [simp, intro]: "quiet still (validate_action sv rt)" "quiet still (status_action key)"
  unfolding validate_action_def status_action_def by (intro quiet_cases quiet_still_steps quiet_read_launch)+

lemma no_leases [simp]: "la_lease zero_launch = []" "ny_launch zero_reply = zero_launch" "ny_error zero_reply = None"
  by (simp_all add: zero_launch_def zero_reply_def)

lemma run_reply_read:
  assumes q: "quiet still m" and r: "run_reply f m w = Some (y, w')" and l: "\<And>x. m w = (Inr x, w') \<Longrightarrow> la_lease (ny_launch (f x)) = []"
  shows "still w' = still w" and "la_lease (ny_launch y) = []"
proof -
  from r obtain x where x: "m w = (x, w')" "y = outcome f x" by (auto simp: run_reply_Some)
  from q x(1) show "still w' = still w" by (rule quiet_step)
  from x l show "la_lease (ny_launch y) = []" by (cases x) (auto simp: outcome_def)
qed

text \<open>The node's requests, by what they do.\<close>

lemma dispatch_cases:
  assumes d: "dispatch sha env ended sv q w = Some (y, w')"
  obtains (refused) e where "y = zero_reply\<lparr>ny_error := Some (ENode e)\<rparr>" "w' = w"
    | (read) "nq_action q \<in> {''validate'', ''inventory'', ''profiles'', ''launch-status''}" "still w' = still w" "la_lease (ny_launch y) = []"
    | (recover) r where "nq_action q = ''recover-orphan''" "y = outcome (\<lambda>_. zero_reply) r"
        "recover_orphan env ended (sv_guard sv) (nq_allocation q) (nq_force q) w = Some (r, w')"
    | (reserve) r where "nq_action q = ''reserve''" "y = outcome parent_reply r" "reserve_profile (sv_guard sv) (nq_allocation q) (nq_profile q) w = (r, w')"
    | (verified) r where "nq_action q = ''verify''" "y = outcome (\<lambda>_. zero_reply) r" "verify (sv_guard sv) (nq_allocation q) (nq_worker q) w = (r, w')"
    | (release) r where "nq_action q = ''release''" "y = outcome (\<lambda>_. zero_reply) r"
        "release env ended (sv_guard sv) (nq_allocation q) (nq_worker q) w = Some (r, w')"
    | (launch) r where "nq_action q \<in> {''launch-claim'', ''launch-finish'', ''launch-abort''}" "y = outcome launch_reply r"
        "perform sha (sv_guard sv) (if nq_action q = ''launch-claim'' then Claim (nq_key q) (nq_print q)
           else if nq_action q = ''launch-finish'' then Finish (nq_key q) (nq_lease q) (nq_worker_id q)
           else Abort (nq_key q) (nq_lease q) (nq_worker_id q)) w = (r, w')"
proof -
  let ?g = "sv_guard sv"
  consider (other) "nq_endpoint q \<noteq> gc_endpoint (gd_config ?g)" | (here) "nq_endpoint q = gc_endpoint (gd_config ?g)" by blast
  then show thesis
  proof cases
    case other
    with d refused show ?thesis by (auto simp: dispatch_def)
  next
    case here
    note dd = d [unfolded dispatch_def Let_def here, simplified]
    show ?thesis
    proof (cases "nq_action q = ''validate''")
      case True
      with dd have r: "run_reply id (validate_action sv (nq_runtime q)) w = Some (y, w')" by simp
      have "la_lease (ny_launch (id x)) = []" if "validate_action sv (nq_runtime q) w = (Inr x, w')" for x
        using that by (auto simp: validate_action_def io_iffs)
      with run_reply_read [OF quiet_reading(1) r] True read show ?thesis by blast
    next
      case nv: False
      show ?thesis
      proof (cases "nq_action q = ''inventory''")
        case True
        with nv dd have r: "run_reply (\<lambda>L. zero_reply\<lparr>ny_inventory := L\<rparr>) (take_inventory ?g) w = Some (y, w')" by simp
        from run_reply_read [OF quiet_inventory r] True read show ?thesis by simp
      next
        case ni: False
        show ?thesis
        proof (cases "nq_action q = ''launch-status''")
          case True
          with nv ni dd have r: "run_reply (\<lambda>r. zero_reply\<lparr>ny_launch := r\<rparr>) (status_action (nq_key q)) w = Some (y, w')" by simp
          have "la_lease x = []" if "status_action (nq_key q) w = (Inr x, w')" for x
            using that by (auto simp: status_action_def io_iffs)
          with run_reply_read [OF quiet_reading(2) r] True read show ?thesis by simp
        next
          case False
          have k: "nq_action q = ''profiles'' \<Longrightarrow> thesis" "nq_action q = ''recover-orphan'' \<Longrightarrow> thesis"
            "nq_action q = ''reserve'' \<Longrightarrow> thesis" "nq_action q = ''verify'' \<Longrightarrow> thesis" "nq_action q = ''release'' \<Longrightarrow> thesis"
            using dd read recover reserve verified release by (auto simp: run_reply_Some)
          have l: "nq_action q = ''launch-claim'' \<Longrightarrow> thesis" "nq_action q = ''launch-finish'' \<Longrightarrow> thesis"
            "nq_action q = ''launch-abort'' \<Longrightarrow> thesis"
            using dd launch by (auto simp: run_reply_Some)
          show ?thesis
          proof (rule ccontr)
            assume n: "\<not> thesis"
            have "nq_action q \<noteq> ''profiles''" "nq_action q \<noteq> ''recover-orphan''" "nq_action q \<noteq> ''reserve''" "nq_action q \<noteq> ''verify''"
              "nq_action q \<noteq> ''release''" "nq_action q \<noteq> ''launch-claim''" "nq_action q \<noteq> ''launch-finish''" "nq_action q \<noteq> ''launch-abort''"
              using n k l by blast+
            with dd nv ni False have "y = zero_reply\<lparr>ny_error := Some (ENode UnknownAction)\<rparr>" "w' = w" by simp_all
            with refused n show False by blast
          qed
        qed
      qed
    qed
  qed
qed

text \<open>A property of the world that the guard's operations, the pauses and the launch operations keep is kept by every request.\<close>

lemma still_papers: "still w' = still w \<Longrightarrow> papers w' = papers w"
proof -
  have "papers (still v) = papers v" for v by (simp add: papers_def still_def)
  then show "still w' = still w \<Longrightarrow> papers w' = papers w" by metis
qed

lemma quiet_keeps: "(\<And>v v'. papers v' = papers v \<Longrightarrow> I v \<Longrightarrow> I v') \<Longrightarrow> quiet papers m \<Longrightarrow> m w = (r, w') \<Longrightarrow> I w \<Longrightarrow> I w'"
  using quietD by metis

lemma dispatch_papers:
  assumes I: "\<And>v v'. papers v' = papers v \<Longrightarrow> I v \<Longrightarrow> I v'" and env: "\<And>n v. I v \<Longrightarrow> I (env n v)"
    and launch': "\<And>c v r v'. perform sha (sv_guard sv) c v = (r, v') \<Longrightarrow> I v \<Longrightarrow> I v'"
    and w: "I w" and d: "dispatch sha env ended sv q w = Some (y, w')"
  shows "I w'"
  using d
proof (cases rule: dispatch_cases)
  case (read)
  from I [OF still_papers [OF read(2)] w] show ?thesis .
next
  case (recover r)
  from recover(3) show ?thesis
  proof (cases rule: recover_orphan_cases)
    case (1 e)
    from I [OF still_papers [OF quiet_step [OF quiet_recover_start 1(1)]] w] show ?thesis .
  next
    case (2 v w1 e)
    note w1 = I [OF still_papers [OF quiet_step [OF quiet_recover_start 2(1)]] w]
    from I [OF quietD [OF papers_guard(3) 2(2)] w1] show ?thesis .
  next
    case (3 v w1 u w2)
    note w1 = I [OF still_papers [OF quiet_step [OF quiet_recover_start 3(1)]] w]
    note w2 = I [OF quietD [OF papers_guard(3) 3(2)] w1]
    show ?thesis by (rule release_unlocked_papers [where I = I, OF I env w2 3(3)])
  qed
next
  case (release r)
  from release(3) show ?thesis
  proof (cases rule: release_locked)
    case (1 e)
    from I [OF still_papers [OF quiet_step [OF quiet_still_admission_lock 1(1)]] w] show ?thesis .
  next
    case (2 u w1)
    note w1 = I [OF still_papers [OF quiet_step [OF quiet_still_admission_lock 2(1)]] w]
    show ?thesis by (rule release_unlocked_papers [where I = I, OF I env w1 2(2)])
  qed
next
  case (reserve r)
  from I [OF quietD [OF papers_reserve reserve(3)] w] show ?thesis .
next
  case (verified r)
  from I [OF quietD [OF papers_guard(1) verified(3)] w] show ?thesis .
next
  case (launch r)
  from launch' [OF launch(3) w] show ?thesis .
qed (use w in simp)

lemma dispatch_keeps:
  assumes ok: "node_ok (sv_guard sv) w" and pids: "kernel_listing w" and env: "\<And>n v. passes v (env n v)"
    and d: "dispatch sha env ended sv q w = Some (y, w')"
  shows "node_ok (sv_guard sv) w'"
  using d
proof (cases rule: dispatch_cases)
  case read
  with ok node_ok_still show ?thesis by blast
next
  case (recover r)
  from recover(3) show ?thesis
  proof (cases rule: recover_orphan_cases)
    case (1 e)
    with ok node_ok_still quiet_step [OF quiet_recover_start] show ?thesis by blast
  next
    case (2 v w1 e)
    then have "node_ok (sv_guard sv) w1" using ok node_ok_still quiet_step [OF quiet_recover_start] by blast
    with recover_kill_cases [OF 2(2)] show ?thesis using cleared_node_ok by blast
  next
    case (3 v w1 u w2)
    then have "node_ok (sv_guard sv) w1" using ok node_ok_still quiet_step [OF quiet_recover_start] by blast
    with recover_kill_cases [OF 3(2)] have "node_ok (sv_guard sv) w2" using cleared_node_ok by blast
    then show ?thesis using env 3(3) by (rule release_keeps)
  qed
next
  case (release r)
  from release(3) show ?thesis
  proof (cases rule: release_locked)
    case (1 e)
    with ok node_ok_still quiet_step [OF quiet_still_admission_lock] show ?thesis by blast
  next
    case (2 u w1)
    then have "node_ok (sv_guard sv) w1" using ok node_ok_still quiet_step [OF quiet_still_admission_lock] by blast
    then show ?thesis using env 2(2) by (rule release_keeps)
  qed
next
  case (reserve r)
  from reserve_keeps [OF ok reserve(3)] show ?thesis .
next
  case (verified r)
  have "canonical_pids w (nq_allocation q)" using pids by (simp add: kernel_listing_def)
  from verify_keeps [OF ok this verified(3)] show ?thesis .
next
  case (launch r)
  from perform_keeps [OF ok launch(3)] show ?thesis .
qed (use ok in simp)

section \<open>Runs of the node\<close>

text \<open>Requests of any client, the two callbacks of the engine, and the rest of the node, in any order.\<close>

inductive node_run :: "(string \<Rightarrow> string) \<Rightarrow> (nat \<Rightarrow> kworld \<Rightarrow> kworld) \<Rightarrow> (nat \<Rightarrow> bool) \<Rightarrow> node_service \<Rightarrow> kworld \<Rightarrow> kworld \<Rightarrow> bool"
  for sha env ended sv w where
  started: "node_run sha env ended sv w w"
| served: "node_run sha env ended sv w v \<Longrightarrow> kernel_listing v \<Longrightarrow> handle_node sha env ended sv path verb body v = Some (a, v') \<Longrightarrow>
    node_run sha env ended sv w v'"
| retired: "node_run sha env ended sv w v \<Longrightarrow> kernel_listing v \<Longrightarrow> retire (sv_guard sv) aid worker v = (r, v') \<Longrightarrow>
    node_run sha env ended sv w v'"
| aborted: "node_run sha env ended sv w v \<Longrightarrow> abort_create (sv_guard sv) aid worker v = (r, v') \<Longrightarrow> node_run sha env ended sv w v'"
| passed: "node_run sha env ended sv w v \<Longrightarrow> passes v v' \<Longrightarrow> node_run sha env ended sv w v'"

inductive_cases node_runE: "node_run sha env ended sv w v"

lemma handle_node_cases:
  assumes "handle_node sha env ended sv path verb body w = Some (a, w')"
  obtains (none) "w' = w" "a = Engine \<or> (\<exists>n. a = Plain n)"
    | (done_node) q y where "dispatch sha env ended sv q w = Some (y, w')" "a = Replied (fst (finished y)) (snd (finished y))" "decoded body = Inr q"
proof (cases "path \<noteq> node_path \<or> verb \<noteq> ''POST''")
  case True
  with assms none show ?thesis by (auto simp: handle_node_def split: if_splits)
next
  case False
  show ?thesis
  proof (cases "decoded body")
    case (Inl e)
    with False assms none show ?thesis by (auto simp: handle_node_def)
  next
    case (Inr q)
    with False assms obtain y where "dispatch sha env ended sv q w = Some (y, w')" "a = case_prod Replied (finished y)"
      by (auto simp: handle_node_def)
    with done_node Inr show ?thesis by (simp add: case_prod_unfold)
  qed
qed

text \<open>Where the record of a request can go.\<close>

definition launched :: "string \<Rightarrow> string \<Rightarrow> int \<Rightarrow> phase \<Rightarrow> kworld \<Rightarrow> bool" where
  "launched key fp n p w \<longleftrightarrow> no_races w \<and> 0 < kw_now w \<and>
     (\<exists>m q. view_at w key = Entry fp m q \<and> n \<le> m \<and> (settled_phase p \<longrightarrow> m = n \<and> q = p))"

lemma launched_papers: "papers w' = papers w \<Longrightarrow> launched key fp n p w \<Longrightarrow> launched key fp n p w'"
  using view_cong(2) [of w' w key] by (auto simp: papers_def launched_def no_races_def)

lemma launched_passes: "passes w w' \<Longrightarrow> launched key fp n p w \<Longrightarrow> launched key fp n p w'"
  using view_cong(2) [of w' w key] by (auto simp: passes_def launched_def no_races_def)

lemma launched_perform:
  assumes "perform sha g c w = (r, w')" and l: "launched key fp n p w"
  shows "launched key fp n p w'"
proof -
  from l obtain m q where v: "no_races w" "0 < kw_now w" "view_at w key = Entry fp m q" "n \<le> m" "settled_phase p \<longrightarrow> m = n \<and> q = p"
    by (auto simp: launched_def)
  have "launch_run sha g w w'" using assms(1) start call by metis
  from run_entry [OF this v(1,2,3)] v(4,5) show ?thesis by (auto simp: launched_def)
qed

lemma dispatch_launched:
  assumes "\<And>n v. passes v (env n v)" and "dispatch sha env ended sv q w = Some (y, w')" and "launched key fp n p w"
  shows "launched key fp n p w'"
proof (rule dispatch_papers [where I = "launched key fp n p", OF _ _ _ assms(3,2)])
  show "launched key fp n p v'" if "papers v' = papers v" "launched key fp n p v" for v v'
    using that by (rule launched_papers)
  show "launched key fp n p (env k v)" if "launched key fp n p v" for k v
    using assms(1) that by (rule launched_passes)
  show "launched key fp n p v'" if "perform sha (sv_guard sv) c v = (r, v')" "launched key fp n p v" for c v r v'
    using that by (rule launched_perform)
qed

lemma node_run_keeps:
  assumes "node_run sha env ended sv w w'" and "node_ok (sv_guard sv) w" and env: "\<And>n v. passes v (env n v)"
  shows "node_ok (sv_guard sv) w' \<and> (launched key fp n p w \<longrightarrow> launched key fp n p w')"
  using assms(1,2)
proof (induction rule: node_run.induct)
  case (served v path verb body a v')
  from served.hyps(3) show ?case
  proof (cases rule: handle_node_cases)
    case none
    with served show ?thesis by simp
  next
    case (done_node q y)
    with served dispatch_keeps [OF _ _ env done_node(1)] dispatch_launched [OF env done_node(1)] show ?thesis by blast
  qed
next
  case (retired v aid worker r v')
  then have "node_ok (sv_guard sv) v'" using retire_keeps by (auto simp: kernel_listing_def)
  moreover have "papers v' = papers v" using quietD [OF papers_retire retired.hyps(3)] .
  ultimately show ?case using retired launched_papers by blast
next
  case (aborted v aid worker r v')
  moreover have "papers v' = papers v" using quietD [OF papers_guard(2) aborted.hyps(2)] .
  ultimately show ?case using abort_keeps launched_papers by blast
next
  case (passed v v')
  then show ?case using passes_ok launched_passes by blast
qed simp

section \<open>Properties\<close>

text \<open>C2: The node as a whole keeps its books: from a node whose ledger is in order, after any sequence of HTTP requests
  (well-formed or not), engine callbacks and pauses in which the rest of the node does what it likes with processes,
  workers and files, the ledger is in order again, and a launch request that had a record still has it, with the same
  fingerprint and no fewer attempts, and exactly the same record once it is complete or waits for its cleanup.\<close>

theorem node_invariant:
  assumes "node_run sha env ended sv w w'" and "node_ok (sv_guard sv) w" and "\<And>n v. passes v (env n v)"
  shows "node_ok (sv_guard sv) w' \<and>
    (no_races w \<and> view_at w key = Entry fp n p \<longrightarrow>
      (\<exists>m q. view_at w' key = Entry fp m q \<and> n \<le> m \<and> (settled_phase p \<longrightarrow> m = n \<and> q = p)))"
proof -
  have "launched key fp n p w" if "no_races w" "view_at w key = Entry fp n p"
    using that assms(2) by (auto simp: launched_def node_ok_def)
  with node_run_keeps [OF assms, of key fp n p] show ?thesis by (auto simp: launched_def)
qed

lemma settle_no_lease:
  assumes "quiet base m" and "settle m w = (Inr (r, e), w')" and "\<And>a w1. m w = (Inr a, w1) \<Longrightarrow> \<exists>x. a = Store x \<and> la_lease x = []"
  shows "la_lease r = []"
  using assms(1,2) by (cases rule: settle_cases) (auto dest: assms(3))

lemma perform_lease:
  assumes "0 < kw_now w" and "perform sha g c w = (Inr (r, e), w')" and "la_lease r \<noteq> []"
  shows "\<exists>key fp. c = Claim key fp"
proof (cases c)
  case (Finish key l i)
  have "la_lease r = []"
    by (rule settle_no_lease [OF quiet_decide(2) assms(2) [unfolded Finish perform.simps finish_launch_def]])
      (auto dest!: finish_decide_cases(2) [OF _ assms(1)] simp: completed_def)
  with assms(3) show ?thesis by simp
next
  case (Abort key l i)
  have "la_lease r = []"
    by (rule settle_no_lease [OF quiet_decide(3) assms(2) [unfolded Abort perform.simps abort_launch_def]])
      (auto dest!: abort_decide_cases(2) [OF _ assms(1)] simp: aborted_def)
  with assms(3) show ?thesis by simp
qed simp


lemma reserve_parent: "reserve_profile g aid name w = (Inr p, w') \<Longrightarrow> parent g aid = Inr p"
  by (auto simp: reserve_profile_def parent_def io_iffs split: option.splits)

text \<open>What the service answers: 200 exactly when there is no error and 409 otherwise, and the code names a
  missing file, a conflict or exhausted capacity and nothing else; a request for another endpoint is an error and changes
  nothing; looking (validate, inventory, profiles, status) changes nothing; and a lease is only ever sent in the reply to
  a claim, never to a status query or to a caller that finishes or gives up.\<close>

theorem dispatch_outcome:
  assumes d: "dispatch sha env ended sv q w = Some (y, w')" and f: "finished y = (s, z)" and now: "0 < kw_now w"
  shows "(s = 200 \<longleftrightarrow> ny_error z = None) \<and> (s = 200 \<or> s = 409) \<and>
    (ny_code z \<noteq> [] \<longleftrightarrow> ny_error z \<in> Some ` {ENotFound, EConflict, ECapacity}) \<and>
    (nq_endpoint q \<noteq> gc_endpoint (gd_config (sv_guard sv)) \<longrightarrow> s = 409 \<and> w' = w) \<and>
    (nq_action q \<in> {''validate'', ''inventory'', ''profiles'', ''launch-status''} \<longrightarrow> still w' = still w) \<and>
    (la_lease (ny_launch z) \<noteq> [] \<longrightarrow> nq_action q = ''launch-claim'')"
proof -
  have s: "s = (if ny_error y = None then 200 else 409)" and z: "z = y\<lparr>ny_code := error_code (ny_error y)\<rparr>"
    using f by (simp_all add: finished_def)
  have "nq_endpoint q \<noteq> gc_endpoint (gd_config (sv_guard sv)) \<Longrightarrow> s = 409 \<and> w' = w"
    using d s by (auto simp: dispatch_def zero_reply_def)
  moreover have "nq_action q \<in> {''validate'', ''inventory'', ''profiles'', ''launch-status''} \<longrightarrow> still w' = still w"
    using d by (cases rule: dispatch_cases) auto
  moreover have "la_lease (ny_launch y) \<noteq> [] \<longrightarrow> nq_action q = ''launch-claim''"
    using d
  proof (cases rule: dispatch_cases)
    case (launch r)
    show ?thesis
    proof (intro impI)
      assume l: "la_lease (ny_launch y) \<noteq> []"
      then obtain x e where r: "r = Inr (x, e)" "la_lease x \<noteq> []"
        using launch(2) by (cases r) (auto simp: outcome_def launch_reply_def)
      from perform_lease [OF now launch(3) [unfolded r(1)] r(2)] show "nq_action q = ''launch-claim''"
        by (auto split: if_splits)
    qed
  qed (auto simp: outcome_def parent_reply_def split: sum.splits)
  ultimately show ?thesis using s z by (auto simp: error_code_def)
qed

lemma release_unlocked_returns: "\<exists>k. ended k \<Longrightarrow> release_unlocked env ended g aid worker w \<noteq> None"
  using release_loop_ends [of ended 0 _ env g aid worker] by (auto simp: release_unlocked_def split: prod.splits sum.splits)

text \<open>Every request is answered: all of them at once, except that a release or a recovery waits for the processes of
  its allocation, and these too return under the 30 seconds' timeout that the service puts on every request.\<close>

theorem dispatch_returns:
  assumes "nq_action q \<notin> {''release'', ''recover-orphan''} \<or> (\<exists>k. ended k)"
  shows "\<exists>y w'. dispatch sha env ended sv q w = Some (y, w')"
proof -
  have rel: "\<exists>y w'. release env ended g a b w = Some (y, w')" if "\<exists>k. ended k" for g a b
    using release_unlocked_returns [OF that] by (auto simp: release_def split: prod.split sum.split)
  have rec: "\<exists>y w'. recover_orphan env ended g a b w = Some (y, w')" if "\<exists>k. ended k" for g a b
    using release_unlocked_returns [OF that] by (auto simp: recover_orphan_def split: prod.split sum.split)
  show ?thesis
  proof (cases "nq_action q = ''release'' \<or> nq_action q = ''recover-orphan''")
    case True
    with assms have e: "\<exists>k. ended k" by auto
    obtain y v where "release env ended (sv_guard sv) (nq_allocation q) (nq_worker q) w = Some (y, v)" using rel [OF e] by blast
    moreover obtain y' v' where "recover_orphan env ended (sv_guard sv) (nq_allocation q) (nq_force q) w = Some (y', v')" using rec [OF e] by blast
    ultimately show ?thesis using True by (auto simp: dispatch_def Let_def)
  qed (auto simp: dispatch_def Let_def run_reply_def split: prod.splits)
qed

section \<open>The client against any node\<close>

lemma received_Inr: "received x = Inr y \<longleftrightarrow> x = Inr (200, y) \<and> ny_error y = None"
  by (cases x) (auto simp: received_def split: if_splits)

lemma client_validate_cases:
  assumes "client_validate link c rt w = Some (e, c', w')"
  obtains (failed) x where "call link c (validate_request rt) w = Some (Inl x, w')" "e = Some x" "c' = c"
    | (denied) y x where "call link c (validate_request rt) w = Some (Inr y, w')" "accept_info c (ny_info y) = Inl x" "e = Some (Local x)" "c' = c"
    | (accepted) y where "call link c (validate_request rt) w = Some (Inr y, w')" "accept_info c (ny_info y) = Inr c'" "e = None"
proof -
  obtain r v where r: "call link c (validate_request rt) w = Some (r, v)" using assms by (auto simp: client_validate_def)
  note o = assms [unfolded client_validate_def r, simplified]
  show thesis
  proof (cases r)
    case (Inl x)
    from o Inl have "e = Some x" "c' = c" "v = w'" by simp_all
    with failed r Inl show ?thesis by blast
  next
    case (Inr y)
    show ?thesis
    proof (cases "accept_info c (ny_info y)")
      case (Inl x)
      from o Inr Inl have "e = Some (Local x)" "c' = c" "v = w'" by simp_all
      with denied r Inr Inl show ?thesis by blast
    next
      case a: (Inr d)
      from o Inr a have "e = None" "c' = d" "v = w'" by simp_all
      with accepted r Inr a show ?thesis by blast
    qed
  qed
qed

text \<open>What a client relies on: the status tells errors, a node serves one endpoint, and says so when it is validated.\<close>

locale node_api =
  fixes link :: "'w link" and endpoint :: string
  assumes status: "link q w = Some (Inr (s, y), w') \<Longrightarrow> s = 200 \<longleftrightarrow> ny_error y = None"
    and elsewhere: "link q w = Some (Inr (s, y), w') \<Longrightarrow> nq_endpoint q \<noteq> endpoint \<Longrightarrow> ny_error y \<noteq> None"
    and says: "link q w = Some (Inr (s, y), w') \<Longrightarrow> ny_error y = None \<Longrightarrow> nq_action q = ''validate'' \<Longrightarrow> ni_endpoint (ny_info y) = endpoint"
begin

lemma call_Inr: "call link c q w = Some (Inr y, w') \<longleftrightarrow> (\<exists>s. link (q\<lparr>nq_endpoint := nc_endpoint c\<rparr>) w = Some (Inr (s, y), w') \<and> ny_error y = None)"
proof
  assume "call link c q w = Some (Inr y, w')"
  then obtain x where "link (q\<lparr>nq_endpoint := nc_endpoint c\<rparr>) w = Some (x, w')" "received x = Inr y" by (auto simp: call_def)
  then show "\<exists>s. link (q\<lparr>nq_endpoint := nc_endpoint c\<rparr>) w = Some (Inr (s, y), w') \<and> ny_error y = None"
    by (auto simp: received_Inr)
next
  assume "\<exists>s. link (q\<lparr>nq_endpoint := nc_endpoint c\<rparr>) w = Some (Inr (s, y), w') \<and> ny_error y = None"
  then obtain s where s: "link (q\<lparr>nq_endpoint := nc_endpoint c\<rparr>) w = Some (Inr (s, y), w')" "ny_error y = None" by blast
  then have "s = 200" using status by blast
  with s have "received (Inr (s, y)) = Inr y" by (simp add: received_Inr)
  with s show "call link c q w = Some (Inr y, w')" by (simp add: call_def)
qed

lemma call_here: "call link c q w = Some (Inr y, w') \<Longrightarrow> nc_endpoint c = endpoint"
  using elsewhere by (fastforce simp: call_Inr)

lemma validated_here: "client_validate link c rt w = Some (None, c', w') \<Longrightarrow> nc_endpoint c = endpoint \<and> ni_endpoint (nc_info c') = endpoint"
proof (erule client_validate_cases; simp)
  fix y assume c: "call link c (validate_request rt) w = Some (Inr y, w')" and a: "accept_info c (ny_info y) = Inr c'"
  have "c' = c\<lparr>nc_info := ny_info y\<rparr>" using a by (auto simp: accept_info_def split: if_splits)
  moreover obtain s where "link ((validate_request rt)\<lparr>nq_endpoint := nc_endpoint c\<rparr>) w = Some (Inr (s, y), w')" "ny_error y = None"
    using c by (auto simp: call_Inr)
  ultimately show "nc_endpoint c = endpoint \<and> ni_endpoint (nc_info c') = endpoint"
    using says call_here [OF c] by (simp add: validate_request_def)
qed

end

lemma handled_validate:
  assumes "dispatch sha env ended sv q w = Some (y, w')" and "nq_action q = ''validate''" and "ny_error y = None"
  shows "ny_info y = node_info_of (kw_host w) sv \<and> validate (kw_host w) False (sv_guard sv) (nq_runtime q) = Inr ()"
proof -
  have "nq_endpoint q = gc_endpoint (gd_config (sv_guard sv))"
  proof (rule ccontr)
    assume "nq_endpoint q \<noteq> gc_endpoint (gd_config (sv_guard sv))"
    with assms(1,3) show False by (auto simp: dispatch_def)
  qed
  with assms(1,2) have "run_reply id (validate_action sv (nq_runtime q)) w = Some (y, w')" by (simp add: dispatch_def)
  then obtain c w1 v where k: "kctx_ended w = (Inr c, w1)" and v: "v = validate (kw_host w1) c (sv_guard sv) (nq_runtime q)"
    and y: "y = zero_reply\<lparr>ny_error := (case v of Inl e \<Rightarrow> Some e | Inr _ \<Rightarrow> None), ny_info := node_info_of (kw_host w1) sv\<rparr>"
    by (auto simp: run_reply_Some validate_action_def bindIO_def getIO_def returnIO_def outcome_def kctx_ended_def split: list.splits)
  have h: "kw_host w1 = kw_host w" using k by (auto simp: kctx_ended_def split: list.splits)
  have "v = Inr ()" using assms(3) y by (cases v) auto
  moreover from this have "\<not> c" using v by (auto simp: validate_def)
  ultimately show ?thesis using y v h by simp
qed

lemma node_link_Inr:
  assumes "node_link small fits sha env ended sv q w = Some (Inr (s, y), w')"
  shows "\<exists>w1 y0 w2. still w1 = still w \<and> dispatch sha env ended sv q w1 = Some (y0, w2) \<and> still w' = still w2 \<and> (s, y) = finished y0"
proof -
  obtain k w1 where k: "ksys w = (k, w1)" by (cases "ksys w")
  have s1: "still w1 = still w" by (rule quiet_step [OF quiet_still_steps(1) k])
  obtain a w2 where h: "handle_node sha env ended sv node_path ''POST'' (if small q then Document q else Oversized) w1 = Some (a, w2)"
    and rest: "(case ksys w2 of (Inl e, w3) \<Rightarrow> (Inl e, w3)
       | (Inr _, w3) \<Rightarrow> (case a of Replied s y \<Rightarrow> (if fits y then Inr (s, y) else Inl (ETrust TooLong), w3) | _ \<Rightarrow> (Inl (ETrust Malformed), w3))) =
      (Inr (s, y), w')"
    using assms k by (auto simp: node_link_def split: sum.splits)
  obtain k2 w3 where k2: "ksys w2 = (k2, w3)" by (cases "ksys w2")
  have a: "a = Replied s y" "w3 = w'" using rest k2 by (auto split: sum.splits node_answer.splits if_splits)
  have "still w3 = still w2" by (rule quiet_step [OF quiet_still_steps(1) k2])
  with h a s1 show ?thesis by (cases rule: handle_node_cases) (auto simp: decoded_def split: if_splits)
qed

lemma finished_fields: "finished y0 = (s, y) \<Longrightarrow> (s = 200 \<longleftrightarrow> ny_error y = None) \<and> ny_error y = ny_error y0 \<and> ny_info y = ny_info y0 \<and> ny_parent y = ny_parent y0"
  by (auto simp: finished_def split: if_splits)

interpretation kata: node_api "node_link small fits sha env ended sv" "gc_endpoint (gd_config (sv_guard sv))"
  for small fits sha env ended sv
proof
  fix q w s y w' assume l: "node_link small fits sha env ended sv q w = Some (Inr (s, y), w')"
  obtain w1 y0 w2 where d: "dispatch sha env ended sv q w1 = Some (y0, w2)" "finished y0 = (s, y)"
    using node_link_Inr [OF l] by metis
  note f = finished_fields [OF d(2)]
  show "s = 200 \<longleftrightarrow> ny_error y = None" using f by blast
  show "ny_error y \<noteq> None" if "nq_endpoint q \<noteq> gc_endpoint (gd_config (sv_guard sv))"
    using d that f by (auto simp: dispatch_def)
  show "ni_endpoint (ny_info y) = gc_endpoint (gd_config (sv_guard sv))" if "ny_error y = None" "nq_action q = ''validate''"
    using handled_validate [OF d(1) that(2)] that f by (simp add: node_info_of_def Let_def)
qed

lemma hex_digits: "set aid \<subseteq> set hex_digits \<longleftrightarrow> list_all is_lower_hex aid"
proof -
  have "c \<in> set hex_digits \<longleftrightarrow> is_lower_hex c" for c
    by (cases c) (auto simp: hex_digits_def is_lower_hex_def is_digit_def less_eq_char_def)
  then show ?thesis by (auto simp: list_all_iff)
qed

lemma accept_info_Inr:
  assumes "accept_info c i = Inr c'"
  shows "c' = c\<lparr>nc_info := i\<rparr>" "ni_profile i = pinned_profile" "ni_endpoint i = nc_endpoint c" "length (ni_stamp i) = 64"
    "clean_path (ni_root i)" "clean_path (ni_launcher i)" "ni_cache i = ''none''" "nc_build c = dev_build \<or> ni_build i = nc_build c"
    "ni_stamp (nc_info c) = [] \<or> ni_stamp i = ni_stamp (nc_info c)"
  using assms by (auto simp: accept_info_def split: if_splits)

text \<open>A client pins its node: whatever is at the other end of the link, a validation that fails leaves the client as it
  was, one that succeeds was answered for the client's own endpoint with the pinned profile, a SHA-256 stamp, coherent
  sharing and, outside development builds, the client's own version; and once a client knows a stamp it never takes
  another one.\<close>

theorem client_pins_node:
  assumes "client_validate link c runtime w = Some (e, c', w')"
  shows "(e \<noteq> None \<longrightarrow> c' = c) \<and> nc_endpoint c' = nc_endpoint c \<and> nc_socket c' = nc_socket c \<and>
    (e = None \<longrightarrow> ni_profile (nc_info c') = pinned_profile \<and> ni_endpoint (nc_info c') = nc_endpoint c \<and>
       length (ni_stamp (nc_info c')) = 64 \<and> ni_cache (nc_info c') = ''none'' \<and>
       (nc_build c = dev_build \<or> ni_build (nc_info c') = nc_build c)) \<and>
    (ni_stamp (nc_info c) = [] \<or> ni_stamp (nc_info c') = ni_stamp (nc_info c))"
proof -
  show ?thesis
    using assms
  proof (cases rule: client_validate_cases)
    case (accepted y)
    with accept_info_Inr [OF accepted(2)] show ?thesis by auto
  qed simp_all
qed

text \<open>The client and the guard agree: a client that has validated this node holds exactly what the guard says of itself,
  the node was then valid for the runtime that was asked for, and for every allocation the client computes the same cgroup
  parent, or the same refusal, as the guard; so the parent a later reservation returns is the one the client expects.\<close>

theorem client_agrees:
  assumes v: "client_validate (node_link small fits sha env ended sv) c runtime w = Some (None, c', w')"
  shows "nc_info c' = node_info_of (kw_host w) sv \<and> validate (kw_host w) False (sv_guard sv) runtime = Inr () \<and>
    (\<forall>aid. client_parent c' aid = parent (sv_guard sv) aid) \<and>
    (\<forall>aid name u y u'. call (node_link small fits sha env ended sv) c' (reserve_request aid name) u = Some (Inr y, u') \<longrightarrow>
       client_parent c' aid = Inr (ny_parent y))"
proof -
  let ?link = "node_link small fits sha env ended sv" and ?g = "sv_guard sv"
  obtain y where y: "call ?link c (validate_request runtime) w = Some (Inr y, w')" and a: "accept_info c (ny_info y) = Inr c'"
    using v by (cases rule: client_validate_cases) simp_all
  let ?q = "(validate_request runtime)\<lparr>nq_endpoint := nc_endpoint c\<rparr>"
  obtain s where l: "?link ?q w = Some (Inr (s, y), w')" "ny_error y = None" using y by (auto simp: kata.call_Inr)
  obtain w1 y0 w2 where s1: "still w1 = still w" and d: "dispatch sha env ended sv ?q w1 = Some (y0, w2)" "finished y0 = (s, y)"
    using node_link_Inr [OF l(1)] by metis
  have q: "nq_action ?q = ''validate''" "nq_runtime ?q = runtime" by (simp_all add: validate_request_def)
  have "kw_host w1 = kw_host w" using still_same [OF s1] by (simp add: same_core_def)
  with handled_validate [OF d(1) q(1)] finished_fields [OF d(2)] l(2) q(2)
  have info: "ny_info y = node_info_of (kw_host w) sv" "validate (kw_host w) False ?g runtime = Inr ()" by simp_all
  note c' = accept_info_Inr [OF a]
  have root: "ni_root (nc_info c') = gc_root (gd_config ?g)" using c'(1) info(1) by (simp add: node_info_of_def Let_def)
  have "clean_path (gc_root (gd_config ?g))" using c'(5) info(1) by (simp add: node_info_of_def Let_def)
  then have ne: "gc_root (gd_config ?g) \<noteq> []" by (auto simp: clean_path_def is_abs_def)
  have par: "client_parent c' aid = parent ?g aid" for aid
    using root ne by (simp add: client_parent_def parent_def group_path_def valid_allocation_def lower_hex_n_def hex_digits)
  have "client_parent c' aid = Inr (ny_parent z)" if k: "call ?link c' (reserve_request aid name) u = Some (Inr z, u')" for aid name u z u'
  proof -
    let ?r = "(reserve_request aid name)\<lparr>nq_endpoint := nc_endpoint c'\<rparr>"
    obtain t where t: "?link ?r u = Some (Inr (t, z), u')" "ny_error z = None" using k by (auto simp: kata.call_Inr)
    obtain u1 z0 u2 where e: "dispatch sha env ended sv ?r u1 = Some (z0, u2)" "finished z0 = (t, z)" using node_link_Inr [OF t(1)] by metis
    note f = finished_fields [OF e(2)]
    have "nq_endpoint ?r = gc_endpoint (gd_config ?g)" using kata.call_here [OF k] by simp
    then have "run_reply parent_reply (reserve_profile ?g aid name) u1 = Some (z0, u2)"
      using e(1) by (simp add: dispatch_def reserve_request_def zero_request_def)
    then obtain r where r: "reserve_profile ?g aid name u1 = (r, u2)" "z0 = outcome parent_reply r" by (auto simp: run_reply_Some)
    obtain p where p: "r = Inr p" using r(2) f t(2) by (cases r) (auto simp: outcome_def)
    then have "ny_parent z = p" using r(2) f by (simp add: outcome_def parent_reply_def)
    with reserve_parent r(1) p par show ?thesis by simp
  qed
  with info par c'(1) show ?thesis by simp
qed

text \<open>The service starts only as root, on a socket in a trusted directory, with a guard that has just validated the
  node; a socket that is already there is replaced only when it is root's own, nobody listens on it, and it is still the
  same file when it is removed.\<close>

theorem serve_guarded:
  assumes "serve_start h p ended c socket = Inr g"
  shows "nh_euid h = 0 \<and> clean_path socket \<and> trusted_dir h (path_dir socket) = None \<and> gd_config g = default_workers c \<and>
    validate h False g (mf_runtime (gd_manifest g)) = Inr () \<and>
    (\<forall>info. nh_lstat h socket = Inr info \<longrightarrow> ns_kind info = SocketNode \<and> root_owner info \<and> pr_refused p \<and>
       (\<exists>s. pr_again p = Inr s \<and> ns_file s = ns_file info))"
proof -
  obtain b where b: "claim_socket h p socket = Inr b" and sg: "start_guard h ended c = Inr g"
    using assms by (auto simp: serve_start_def result_simps split: sum.splits)
  obtain u where n: "new_guard h c = Inr g" and v: "validate h ended g (mf_runtime (gd_manifest g)) = Inr u"
    using sg by (auto simp: start_guard_def result_simps)
  have "\<not> ended" using v by (auto simp: validate_def)
  moreover have "nh_euid h = 0 \<and> clean_path socket \<and> trusted_dir h (path_dir socket) = None"
    using b by (auto simp: claim_socket_def split: if_splits option.splits)
  moreover have "ns_kind info = SocketNode \<and> root_owner info \<and> pr_refused p \<and> (\<exists>s. pr_again p = Inr s \<and> ns_file s = ns_file info)"
    if "nh_lstat h socket = Inr info" for info
    using b that by (auto simp: claim_socket_def replace_socket_def split: if_splits option.splits sum.splits)
  ultimately show ?thesis using n v new_guard_Inr(1) [OF n] by auto
qed

section \<open>A sample service\<close>

definition sample_service :: node_service where
  "sample_service = \<lparr>sv_guard = sample_guard, sv_socket = ''/run/oaiso/node.sock'', sv_build = ''1.2''\<rparr>"

definition sample_client :: node_client where
  "sample_client = \<lparr>nc_endpoint = ''unix:///run/oaiso/node.sock'', nc_socket = ''/run/oaiso/node.sock'', nc_build = ''1.2'', nc_info = zero_info\<rparr>"

abbreviation sample_link :: "kworld link" where
  "sample_link \<equiv> node_link (\<lambda>_. True) (\<lambda>_. True) id (\<lambda>_ v. v) (\<lambda>_. True) sample_service"

abbreviation sample_dispatch :: "node_request \<Rightarrow> kworld \<Rightarrow> (node_reply \<times> kworld) option" where
  "sample_dispatch \<equiv> dispatch id (\<lambda>_ v. v) (\<lambda>_. True) sample_service"

definition sample_claim :: node_request where
  "sample_claim = (claim_request sample_key sample_print)\<lparr>nq_endpoint := ''unix:///run/oaiso/node.sock''\<rparr>"

lemma sample_endpoint: "gc_endpoint (gd_config sample_guard) = ''unix:///run/oaiso/node.sock''" "sv_guard sample_service = sample_guard"
  by (simp_all add: sample_service_def sample_guard_def sample_guard_config_def)

lemma sample_claimed:
  "sample_dispatch sample_claim w = run_reply launch_reply (perform id sample_guard (Claim sample_key sample_print)) w"
  by (simp add: dispatch_def Let_def sample_endpoint sample_claim_def claim_request_def zero_request_def)

lemma passes_refl: "passes w w"
  by (simp add: passes_def)

lemma sample_left_ok: "node_ok sample_guard sample_left" "kernel_listing sample_left"
  using sample_registry
  by (simp_all add: node_ok_def ledger_ok_def records_ok_def sample_left_def sample_held_def put_launch_def sample_world_def count_entries_def
      sample_guard_def kernel_listing_def canonical_pids_def envelope_pids_def group_at_def)

theorem node_invariant_witness:
  "\<exists>a w'. handle_node id (\<lambda>_ v. v) (\<lambda>_. True) sample_service node_path ''POST'' (Document sample_claim) sample_left = Some (a, w') \<and>
     node_ok sample_guard w' \<and> view_at w' sample_key = Entry sample_print 1 (Cleanup ''w'')"
proof -
  obtain r w' where p: "perform id sample_guard (Claim sample_key sample_print) sample_left = (r, w')" by (meson surj_pair)
  then have "sample_dispatch sample_claim sample_left = Some (outcome launch_reply r, w')" by (simp add: sample_claimed run_reply_def)
  then obtain a where a: "handle_node id (\<lambda>_ v. v) (\<lambda>_. True) sample_service node_path ''POST'' (Document sample_claim) sample_left = Some (a, w')"
    by (simp add: handle_node_def decoded_def)
  have run: "node_run id (\<lambda>_ v. v) (\<lambda>_. True) sample_service sample_left w'"
    by (rule served [OF started sample_left_ok(2) a])
  from node_invariant [OF run, unfolded sample_endpoint(2), OF sample_left_ok(1) passes_refl, of sample_key sample_print 1 "Cleanup ''w''"]
    sample_left_facts a show ?thesis by (auto simp: settled_phase_def)
qed

text \<open>The first claim of the sample request is answered with its lease.\<close>

theorem dispatch_outcome_witness:
  "\<exists>y w'. sample_dispatch sample_claim sample_idle = Some (y, w') \<and> fst (finished y) = 200 \<and> la_lease (ny_launch y) = ''0a'' \<and>
     nq_action sample_claim = ''launch-claim''"
proof -
  let ?r = "claimed ''0a'' 1000 (fresh_launch sample_key sample_print)"
  have d: "sample_dispatch sample_claim sample_idle = Some (launch_reply (?r, None), sample_held)"
    by (simp add: sample_claimed run_reply_def sample_granted outcome_def del: perform.simps)
  have l: "la_lease (ny_launch (launch_reply (?r, None))) = ''0a''" "ny_error (launch_reply (?r, None)) = None"
    by (simp_all add: launch_reply_def claimed_def)
  obtain s z where f: "finished (launch_reply (?r, None)) = (s, z)" by (meson surj_pair)
  have "ny_launch z = ny_launch (launch_reply (?r, None))" "ny_error z = None" using f l by (auto simp: finished_def)
  with dispatch_outcome [OF d f sample_launch_worlds(3)] d f l show ?thesis by auto
qed

theorem dispatch_returns_witness:
  "\<exists>y w'. sample_dispatch (release_request sample_aid sample_worker) sample_running = Some (y, w')"
  by (rule dispatch_returns) simp

lemma sample_connected:
  "call sample_link sample_client (validate_request pinned_runtime) sample_world =
     Some (Inr (zero_reply\<lparr>ny_info := node_info_of sample_node sample_service\<rparr>), sample_world)"
proof -
  let ?q = "(validate_request pinned_runtime)\<lparr>nq_endpoint := nc_endpoint sample_client\<rparr>"
  let ?y = "zero_reply\<lparr>ny_info := node_info_of sample_node sample_service\<rparr>"
  have w: "kw_host sample_world = sample_node" "kw_faults sample_world = []" "kw_ctx sample_world = []" by (simp_all add: sample_world_def)
  have k: "ksys sample_world = (Inr (), sample_world)" using w by (simp add: ksys_def)
  have "validate_action sample_service pinned_runtime sample_world = (Inr ?y, sample_world)"
    using w sample_validates
    by (simp add: validate_action_def bindIO_def getIO_def returnIO_def kctx_ended_def sample_endpoint zero_reply_def)
  then have "sample_dispatch ?q sample_world = Some (?y, sample_world)"
    by (simp add: dispatch_def Let_def sample_endpoint sample_client_def validate_request_def zero_request_def run_reply_def outcome_def)
  then show ?thesis
    by (simp add: call_def node_link_def k handle_node_def decoded_def finished_def received_def error_code_def zero_reply_def)
qed

definition succeeds :: "'e + 'a \<Rightarrow> bool" where
  "succeeds r \<longleftrightarrow> (case r of Inl _ \<Rightarrow> False | Inr _ \<Rightarrow> True)"

lemma succeeds_iff: "succeeds r \<longleftrightarrow> (\<exists>x. r = Inr x)"
  by (simp add: succeeds_def split: sum.split)

lemma sample_accepted_node: "succeeds (accept_info sample_client (node_info_of sample_node sample_service))"
  by code_simp

lemma sample_connection: "\<exists>c. client_validate sample_link sample_client pinned_runtime sample_world = Some (None, c, sample_world)"
  using sample_accepted_node by (auto simp: client_validate_def sample_connected succeeds_iff)

theorem client_pins_node_witness:
  "\<exists>c. client_validate sample_link sample_client pinned_runtime sample_world = Some (None, c, sample_world) \<and>
     ni_profile (nc_info c) = pinned_profile \<and> length (ni_stamp (nc_info c)) = 64"
  using sample_connection client_pins_node by metis

theorem client_agrees_witness:
  "\<exists>c. client_validate sample_link sample_client pinned_runtime sample_world = Some (None, c, sample_world) \<and>
     client_parent c sample_aid = Inr (''/cdx/cdx-'' @ sample_aid)"
proof -
  obtain c where c: "client_validate sample_link sample_client pinned_runtime sample_world = Some (None, c, sample_world)"
    using sample_connection by blast
  have "parent sample_guard sample_aid = Inr (''/cdx/cdx-'' @ sample_aid)" by code_simp
  with client_agrees [OF c] c show ?thesis by (auto simp: sample_endpoint)
qed

text \<open>A stale socket of root's is replaced.\<close>

definition sample_probe :: probe where
  "sample_probe = \<lparr>pr_refused = True, pr_again = sample_guard_stat ''/s/c.sock'', pr_remove = None\<rparr>"

lemma sample_started: "succeeds (serve_start sample_node sample_probe False sample_guard_config ''/s/c.sock'')"
  by code_simp

theorem serve_guarded_witness:
  "\<exists>g. serve_start sample_node sample_probe False sample_guard_config ''/s/c.sock'' = Inr g \<and>
     validate sample_node False g (mf_runtime (gd_manifest g)) = Inr ()"
  using sample_started serve_guarded [of sample_node sample_probe False sample_guard_config] by (auto simp: succeeds_iff)
end
