(* ===== verification/CredentialVault.thy ===== *)
theory CredentialVault
  imports CredentialStore Triples
begin

text \<open>
  \<open>pkg/cxd/credentialstore\<close>, the encrypted store (\<open>encrypted.go\<close>, \<open>encrypted_management.go\<close>,
  \<open>age_codec.go\<close>, \<open>encrypted_legacy.go\<close>): records sealed with age and authenticated with a separate
  key, the store's key in memory, and the operations that create, unlock, refresh, migrate and rewrap a
  profile, over the file system of \<open>CredentialStore\<close>.  The age library, HMAC, SHA-256, Argon2, XChaCha20 and
  the JSON encodings are the parameter \<open>cipher\<close>; what is random in them is drawn from \<open>cw_random\<close>.  A keyring
  is a map with calls that may fail.
\<close>

section \<open>The cipher\<close>

text \<open>
  \<open>ci_secret\<close> decodes the key bundle into schema, identity and authentication key; \<open>ci_new_secret\<close> makes one
  with its recipient.  \<open>ci_open\<close> is the legacy AEAD (key, nonce, box, additional data).
\<close>

record cipher =
  ci_secret :: "string \<Rightarrow> (int \<times> string \<times> string) option"
  ci_new_secret :: "string \<Rightarrow> string \<times> string"
  ci_identity :: "string \<Rightarrow> bool"
  ci_recipient :: "string \<Rightarrow> string"
  ci_recipient_ok :: "string \<Rightarrow> bool"
  ci_encrypt :: "string \<Rightarrow> string \<Rightarrow> string \<Rightarrow> string option"
  ci_decrypt :: "string \<Rightarrow> string \<Rightarrow> string option"
  ci_wrap :: "string \<Rightarrow> string \<Rightarrow> string \<Rightarrow> string option"
  ci_unwrap :: "string \<Rightarrow> string \<Rightarrow> string option"
  ci_mac :: "string \<Rightarrow> string \<Rightarrow> string"
  ci_sha :: "string \<Rightarrow> string"
  ci_header :: "encrypted_header \<Rightarrow> string"
  ci_profile :: "file_profile \<Rightarrow> string"
  ci_unprofile :: "string \<Rightarrow> file_profile option"
  ci_argon :: "string \<Rightarrow> encrypted_header \<Rightarrow> string"
  ci_open :: "string \<Rightarrow> string \<Rightarrow> string \<Rightarrow> string \<Rightarrow> string option"

definition age_schema :: int where "age_schema = 2"
definition unlock_key_max :: nat where "unlock_key_max = 1024"
definition passphrase_backend :: string where "passphrase_backend = ''passphrase''"
definition keyring_backend :: string where "keyring_backend = ''secret-service''"

definition data_aad :: "cipher \<Rightarrow> encrypted_header \<Rightarrow> string" where
  "data_aad ci h = ''oaiso/profile/data/v1'' @ [CHR 0x00] @ ci_header ci h"

definition wrap_aad :: "cipher \<Rightarrow> encrypted_header \<Rightarrow> string" where
  "wrap_aad ci h = ''oaiso/profile/key/v1'' @ [CHR 0x00] @ ci_header ci (h\<lparr>eh_wrap_nonce := [], eh_wrapped_key := []\<rparr>)"

section \<open>Keys and sealed records\<close>

text \<open>\<open>parseAgeSecret\<close>: identity and authentication key of a bundle.\<close>

definition parse_secret :: "cipher \<Rightarrow> string \<Rightarrow> (store_error, string \<times> string) result" where
  "parse_secret ci key = (if unlock_key_max < length key then Inl UnlockFailed
     else case ci_secret ci key of None \<Rightarrow> Inl UnlockFailed
     | Some (schema, identity, auth) \<Rightarrow>
         if schema \<noteq> 1 \<or> length auth \<noteq> 32 \<or> \<not> ci_identity ci identity then Inl UnlockFailed else Inr (identity, auth))"

definition limited :: "nat \<Rightarrow> string option \<Rightarrow> (store_error, string) result" where
  "limited limit r = (case r of None \<Rightarrow> Inl UnlockFailed | Some d \<Rightarrow> if limit < length d then Inl UnlockFailed else Inr d)"

definition decode_credentials :: "cipher \<Rightarrow> string \<Rightarrow> string \<Rightarrow> (store_error, credentials) result" where
  "decode_credentials ci d name = (case ci_unprofile ci d of None \<Rightarrow> Inl UnlockFailed
     | Some p \<Rightarrow> if fp_schema p \<noteq> 1 \<or> fp_name p \<noteq> name \<or> validate_credentials (fp_credentials p) \<noteq> None then Inl UnlockFailed
         else Inr (fp_credentials p))"

definition record_mac :: "cipher \<Rightarrow> encrypted_header \<Rightarrow> string \<Rightarrow> string \<Rightarrow> string" where
  "record_mac ci h ciphertext auth = ci_mac ci auth (''oaiso/age/profile/v2'' @ [CHR 0x00] @ data_aad ci h @ ciphertext)"

definition open_age :: "cipher \<Rightarrow> encrypted_record \<Rightarrow> string \<Rightarrow> string \<Rightarrow> (store_error, credentials) result" where
  "open_age ci r identity auth =
     (if ci_recipient ci identity \<noteq> eh_recipient (er_header r) \<or>
         er_mac r \<noteq> record_mac ci (er_header r) (er_ciphertext r) auth then Inl UnlockFailed
      else bindE (limited max_profile (ci_decrypt ci identity (er_ciphertext r)))
        (\<lambda>d. decode_credentials ci d (eh_name (er_header r))))"

definition legacy_open :: "cipher \<Rightarrow> encrypted_record \<Rightarrow> string \<Rightarrow> (store_error, credentials) result" where
  "legacy_open ci r key = (if length key \<noteq> 32 then Inl UnlockFailed
     else case ci_open ci key (er_nonce r) (er_ciphertext r) (data_aad ci (er_header r)) of None \<Rightarrow> Inl UnlockFailed
     | Some d \<Rightarrow> decode_credentials ci d (eh_name (er_header r)))"

definition open_encrypted :: "cipher \<Rightarrow> encrypted_record \<Rightarrow> string \<Rightarrow> (store_error, credentials) result" where
  "open_encrypted ci r key =
     (if eh_schema (er_header r) = 1 then legacy_open ci r key
      else bindE (parse_secret ci key) (\<lambda>(identity, auth). open_age ci r identity auth))"

definition legacy_keyring_key :: "cipher \<Rightarrow> encrypted_record \<Rightarrow> string \<Rightarrow> (store_error, string) result" where
  "legacy_keyring_key ci r wrapper = (if length wrapper \<noteq> 32 then Inl UnlockFailed
     else let h = er_header r in
       case ci_open ci wrapper (eh_wrap_nonce h) (eh_wrapped_key h) (wrap_aad ci h) of None \<Rightarrow> Inl UnlockFailed
     | Some key \<Rightarrow> (case legacy_open ci r key of Inl _ \<Rightarrow> Inl UnlockFailed | Inr _ \<Rightarrow> Inr key))"

definition legacy_passphrase_key :: "cipher \<Rightarrow> encrypted_record \<Rightarrow> string \<Rightarrow> (store_error, string) result" where
  "legacy_passphrase_key ci r pass =
     (if eh_backend (er_header r) \<noteq> passphrase_backend \<or> 4096 < length pass then Inl UnlockFailed
      else legacy_keyring_key ci r (ci_argon ci pass (er_header r)))"

definition passphrase_record_key :: "cipher \<Rightarrow> encrypted_record \<Rightarrow> string \<Rightarrow> (store_error, string) result" where
  "passphrase_record_key ci r pass =
     (if eh_backend (er_header r) \<noteq> passphrase_backend then Inl UnlockFailed
      else if eh_schema (er_header r) = 1 then legacy_passphrase_key ci r pass
      else if pass = [] \<or> 4096 < length pass then Inl UnlockFailed
      else bindE (limited unlock_key_max (ci_unwrap ci pass (eh_wrapped_key (er_header r)))) (\<lambda>key.
        case open_encrypted ci r key of Inl _ \<Rightarrow> Inl UnlockFailed | Inr _ \<Rightarrow> Inr key))"

definition valid_key_id :: "string \<Rightarrow> bool" where
  "valid_key_id k \<longleftrightarrow> hex_decodes k \<and> length k = 32"

definition valid_legacy :: "encrypted_header \<Rightarrow> bool" where
  "valid_legacy h \<longleftrightarrow>
     (if eh_backend h = passphrase_backend then
        64 * 1024 \<le> eh_memory h \<and> eh_memory h \<le> 128 * 1024 \<and> 3 \<le> eh_time h \<and> eh_time h \<le> 6 \<and>
        1 \<le> eh_parallelism h \<and> eh_parallelism h \<le> 4 \<and> length (eh_salt h) = 16
      else eh_backend h = keyring_backend \<and> eh_memory h = 0 \<and> eh_time h = 0 \<and> eh_parallelism h = 0 \<and> eh_salt h = [])"

definition valid_header :: "cipher \<Rightarrow> encrypted_header \<Rightarrow> bool" where
  "valid_header ci h \<longleftrightarrow> eh_schema h = age_schema \<and> eh_memory h = 0 \<and> eh_time h = 0 \<and> eh_parallelism h = 0 \<and> eh_salt h = [] \<and>
     eh_wrap_nonce h = [] \<and> length (eh_recipient h) \<le> 128 \<and> ci_recipient_ok ci (eh_recipient h) \<and>
     (if eh_backend h = passphrase_backend then eh_wrapped_key h \<noteq> [] \<and> length (eh_wrapped_key h) \<le> 4096
      else eh_backend h = keyring_backend \<and> eh_wrapped_key h = [])"

definition valid_record :: "cipher \<Rightarrow> encrypted_record \<Rightarrow> bool" where
  "valid_record ci r \<longleftrightarrow> (let h = er_header r in
     if eh_schema h = 1 then
       eh_recipient h = [] \<and> valid_legacy h \<and> length (eh_wrap_nonce h) = 24 \<and> length (eh_wrapped_key h) = 48 \<and>
       length (er_nonce r) = 24 \<and> 16 \<le> length (er_ciphertext r) \<and> er_mac r = []
     else valid_header ci h \<and> er_nonce r = [] \<and> length (er_mac r) = 32 \<and> 32 \<le> length (er_ciphertext r))"

text \<open>\<open>sealEncrypted\<close>, with the random bytes of age's encryption, or none when the source of randomness fails.\<close>

definition seal :: "cipher \<Rightarrow> string option \<Rightarrow> encrypted_header \<Rightarrow> string \<Rightarrow> credentials \<Rightarrow> (store_error, encrypted_record) result" where
  "seal ci rnd h key c =
     (if eh_schema h \<noteq> age_schema then Inl MigrationRequired
      else case validate_credentials c of Some e \<Rightarrow> Inl e
      | None \<Rightarrow> bindE (parse_secret ci key) (\<lambda>(identity, auth).
          failE (ci_recipient ci identity \<noteq> eh_recipient h) UnlockFailed
          (let d = ci_profile ci \<lparr>fp_schema = 1, fp_name = eh_name h, fp_credentials = c\<rparr> in
           failE (max_profile < length d) TooLarge
           (case Option.bind rnd (\<lambda>b. ci_encrypt ci b (ci_recipient ci identity) d) of None \<Rightarrow> Inl EIO
            | Some b \<Rightarrow> Inr \<lparr>er_header = h, er_nonce = [], er_ciphertext = b, er_mac = record_mac ci h b auth\<rparr>))))"

section \<open>The store\<close>

text \<open>
  What an unlocked store holds in memory, the disk, and the host's keyring.  \<open>vs_name\<close> is the one profile
  the store was opened for.
\<close>

record vault =
  vs_name :: string
  vs_key :: string
  vs_header :: encrypted_header
  vs_identity :: "string option"
  vs_auth :: string
  vs_disk :: cworld
  vs_ring :: "string \<Rightarrow> string option"

type_synonym 'a vio = "(vault, store_error, 'a) io"

definition on_disk :: "'a sio \<Rightarrow> 'a vio" where
  "on_disk m v = (case m (vs_disk v) of (r, d) \<Rightarrow> (r, v\<lparr>vs_disk := d\<rparr>))"

text \<open>The lock is released when the operation returns; nobody else is in the model meanwhile.\<close>

definition with_lock :: "string \<Rightarrow> 'a vio \<Rightarrow> 'a vio" where
  "with_lock name fn = bindIO (on_disk (locked name (returnIO ()))) (\<lambda>_. fn)"

definition zero_header :: encrypted_header where
  "zero_header = \<lparr>eh_schema = 0, eh_name = [], eh_key_id = [], eh_backend = [], eh_memory = 0, eh_time = 0, eh_parallelism = 0,
     eh_salt = [], eh_wrap_nonce = [], eh_wrapped_key = [], eh_recipient = []\<rparr>"

definition known_filesystems :: "int list" where
  "known_filesystems = [0xEF53, 0x01021994, 0x9123683E, 0x58465342, 0x794C7630, 0x2fc12fc1]"

definition new_encrypted_store :: "int \<Rightarrow> (string \<Rightarrow> string option) \<Rightarrow> string \<Rightarrow> (cworld, store_error, vault) io" where
  "new_encrypted_store fs ring name =
     bindIO (whenE (\<not> valid_profile_name name) BadProfileName) (\<lambda>_.
     bindIO new_file_store (\<lambda>_.
     bindIO open_directory (\<lambda>_.
     bindIO sys (\<lambda>_.
     bindIO (whenE (fs \<notin> set known_filesystems) InsecureStorage) (\<lambda>_.
     getIO (\<lambda>d. \<lparr>vs_name = name, vs_key = [], vs_header = zero_header, vs_identity = None, vs_auth = [], vs_disk = d, vs_ring = ring\<rparr>))))))"

definition max_record :: nat where "max_record = 2097152"

definition read_record :: "cipher \<Rightarrow> string \<Rightarrow> encrypted_record sio" where
  "read_record ci name = bindIO (catchIO (open_file ReadOnly (vault_file name))) (\<lambda>r. case r of
     Inl e \<Rightarrow> throwIO (if e = ENoEnt then NotFound else e)
   | Inr c \<Rightarrow> bindIO (catchIO sys) (\<lambda>s. bindIO (getIO cw_len) (\<lambda>len. case c of
       RecordJSON x \<Rightarrow>
         if s \<noteq> Inr () \<or> max_record < len c \<or> eh_name (er_header x) \<noteq> name \<or> \<not> valid_key_id (eh_key_id (er_header x)) \<or>
           \<not> valid_record ci x then throwIO UnsupportedRecord else returnIO x
     | _ \<Rightarrow> throwIO UnsupportedRecord)))"

definition write_record :: "encrypted_record \<Rightarrow> unit sio" where
  "write_record r = bindIO (getIO cw_len) (\<lambda>len. bindIO (whenE (max_record < len (RecordJSON r)) TooLarge) (\<lambda>_.
     write_profile_data (vault_file (eh_name (er_header r))) (RecordJSON r)))"

text \<open>\<open>setKey\<close>: an unusable age bundle leaves the store locked.\<close>

definition set_key :: "cipher \<Rightarrow> string \<Rightarrow> encrypted_header \<Rightarrow> vault \<Rightarrow> vault" where
  "set_key ci key h v =
     (if eh_schema h = age_schema then
        (case parse_secret ci key of
           Inl _ \<Rightarrow> v\<lparr>vs_key := [], vs_identity := None, vs_auth := [], vs_header := h\<rparr>
         | Inr (identity, auth) \<Rightarrow> v\<lparr>vs_key := key, vs_identity := Some identity, vs_auth := auth, vs_header := h\<rparr>)
      else v\<lparr>vs_key := key, vs_identity := None, vs_auth := [], vs_header := h\<rparr>)"

definition close_store :: "vault \<Rightarrow> vault" where
  "close_store v = v\<lparr>vs_key := [], vs_auth := [], vs_identity := None\<rparr>"

definition unlocked_key :: "string vio" where
  "unlocked_key = bindIO (getIO vs_key) (\<lambda>k. bindIO (whenE (k = [] \<or> unlock_key_max < length k) Locked) (\<lambda>_. returnIO k))"

definition unlock :: "cipher \<Rightarrow> string \<Rightarrow> unit vio" where
  "unlock ci pass = bindIO (getIO vs_name) (\<lambda>name. with_lock name
     (bindIO (on_disk (read_record ci name)) (\<lambda>r.
      bindIO (liftE (passphrase_record_key ci r pass)) (\<lambda>key.
      bindIO (on_disk ctx_check) (\<lambda>_. updIO (set_key ci key (er_header r)))))))"

definition unlock_with_key :: "cipher \<Rightarrow> string \<Rightarrow> unit vio" where
  "unlock_with_key ci key =
     bindIO (whenE (key = [] \<or> unlock_key_max < length key) UnlockFailed) (\<lambda>_.
     bindIO (getIO vs_name) (\<lambda>name. with_lock name
       (bindIO (on_disk (read_record ci name)) (\<lambda>r.
        bindIO (liftE (case open_encrypted ci r key of Inl _ \<Rightarrow> Inl UnlockFailed | Inr _ \<Rightarrow> Inr ())) (\<lambda>_.
        bindIO (on_disk ctx_check) (\<lambda>_. updIO (set_key ci key (er_header r))))))))"

section \<open>Making a protected key\<close>

definition protect_key :: "cipher \<Rightarrow> string \<Rightarrow> string \<Rightarrow> string \<Rightarrow> encrypted_header sio" where
  "protect_key ci name pass key =
     bindIO (liftE (parse_secret ci key)) (\<lambda>(identity, auth).
     bindIO (whenE (length pass < 12 \<or> 4096 < length pass) BadPassphrase) (\<lambda>_.
     bindIO new_version (\<lambda>rnd.
     bindIO (liftE (case ci_wrap ci rnd pass key of None \<Rightarrow> Inl EIO | Some x \<Rightarrow> Inr x)) (\<lambda>wrapped.
     bindIO new_version (\<lambda>kid.
     returnIO (zero_header\<lparr>eh_schema := age_schema, eh_name := name, eh_key_id := kid, eh_backend := passphrase_backend,
       eh_recipient := ci_recipient ci identity, eh_wrapped_key := wrapped\<rparr>))))))"

definition new_secret :: "cipher \<Rightarrow> (string \<times> string) sio" where
  "new_secret ci = bindIO new_version (\<lambda>rnd. returnIO (ci_new_secret ci rnd))"

definition new_passphrase_header :: "cipher \<Rightarrow> string \<Rightarrow> string \<Rightarrow> (encrypted_header \<times> string) sio" where
  "new_passphrase_header ci name pass =
     bindIO (new_secret ci) (\<lambda>(key, recipient). bindIO (protect_key ci name pass key) (\<lambda>h. returnIO (h, key)))"

definition new_connection :: "credentials \<Rightarrow> credentials sio" where
  "new_connection c = bindIO new_version (\<lambda>a. bindIO new_version (\<lambda>b.
     let c' = c\<lparr>cr_version := a, cr_connection := b\<rparr> in
     liftE (case validate_credentials c' of Some e \<Rightarrow> Inl e | None \<Rightarrow> Inr c')))"

definition seal_now :: "cipher \<Rightarrow> encrypted_header \<Rightarrow> string \<Rightarrow> credentials \<Rightarrow> encrypted_record sio" where
  "seal_now ci h key c = bindIO (catchIO new_version) (\<lambda>r.
     liftE (seal ci (case r of Inl e \<Rightarrow> None | Inr b \<Rightarrow> Some b) h key c))"

text \<open>A keyring call that fails has had no effect, or its effect; the store cannot tell.\<close>

definition ring_put :: "string \<Rightarrow> string \<Rightarrow> unit vio" where
  "ring_put kid key = bindIO (catchIO (on_disk sys)) (\<lambda>a. bindIO (catchIO (on_disk sys)) (\<lambda>b.
     bindIO (updIO (\<lambda>v. if a = Inr () then v\<lparr>vs_ring := (vs_ring v)(kid \<mapsto> key)\<rparr> else v)) (\<lambda>_.
     whenE (a \<noteq> Inr () \<or> b \<noteq> Inr ()) (KeyringErr ''put''))))"

definition ring_get :: "string \<Rightarrow> string vio" where
  "ring_get kid = bindIO (catchIO (on_disk sys)) (\<lambda>a. bindIO (getIO (\<lambda>v. vs_ring v kid)) (\<lambda>k. case k of
     None \<Rightarrow> throwIO (KeyringErr ''get'')
   | Some x \<Rightarrow> bindIO (whenE (a \<noteq> Inr ()) (KeyringErr ''get'')) (\<lambda>_. returnIO x)))"

definition new_keyring_header :: "cipher \<Rightarrow> string \<Rightarrow> bool \<Rightarrow> (encrypted_header \<times> string) vio" where
  "new_keyring_header ci name ring =
     bindIO (whenE (\<not> ring) (KeyringErr ''required'')) (\<lambda>_.
     bindIO (on_disk (new_secret ci)) (\<lambda>(key, recipient).
     bindIO (on_disk new_version) (\<lambda>kid.
     bindIO (ring_put kid key) (\<lambda>_.
     bindIO (catchIO (ring_get kid)) (\<lambda>got.
     bindIO (whenE (got \<noteq> Inr key) ReadBackFailed) (\<lambda>_.
     returnIO (zero_header\<lparr>eh_schema := age_schema, eh_name := name, eh_key_id := kid, eh_backend := keyring_backend,
       eh_recipient := recipient\<rparr>, key)))))))"

definition keyring_record_key :: "cipher \<Rightarrow> encrypted_record \<Rightarrow> bool \<Rightarrow> string vio" where
  "keyring_record_key ci r ring =
     bindIO (whenE (eh_backend (er_header r) \<noteq> keyring_backend \<or> \<not> ring) UnlockFailed) (\<lambda>_.
     bindIO (ring_get (eh_key_id (er_header r))) (\<lambda>key.
     if eh_schema (er_header r) = 1 then liftE (legacy_keyring_key ci r key)
     else liftE (case open_encrypted ci r key of Inl _ \<Rightarrow> Inl UnlockFailed | Inr _ \<Rightarrow> Inr key)))"

definition unlock_with_keyring :: "cipher \<Rightarrow> bool \<Rightarrow> unit vio" where
  "unlock_with_keyring ci ring = bindIO (getIO vs_name) (\<lambda>name. with_lock name
     (bindIO (on_disk (read_record ci name)) (\<lambda>r.
      bindIO (keyring_record_key ci r ring) (\<lambda>key.
      bindIO (on_disk ctx_check) (\<lambda>_. updIO (set_key ci key (er_header r)))))))"

section \<open>Creating a profile\<close>

definition refuse_existing :: "string \<Rightarrow> unit sio" where
  "refuse_existing name = bindIO (file_present (vault_file name)) (\<lambda>a. bindIO (whenE a ProfileExists) (\<lambda>_.
     bindIO (file_present (profile_file name)) (\<lambda>b. whenE b ProfileExists)))"

definition store_new :: "cipher \<Rightarrow> encrypted_header \<Rightarrow> string \<Rightarrow> credentials \<Rightarrow> unit vio" where
  "store_new ci h key c =
     bindIO (on_disk (seal_now ci h key c)) (\<lambda>r.
     bindIO (on_disk (write_record r)) (\<lambda>_. updIO (set_key ci key h)))"

definition create_with_passphrase :: "cipher \<Rightarrow> string \<Rightarrow> string \<Rightarrow> credentials \<Rightarrow> unit vio" where
  "create_with_passphrase ci name pass c = bindIO (getIO vs_name) (\<lambda>own.
     bindIO (whenE (name \<noteq> own \<or> length pass < 12 \<or> 4096 < length pass) BadPassphrase) (\<lambda>_. with_lock name
       (bindIO (on_disk (refuse_existing name)) (\<lambda>_.
        bindIO (on_disk (new_connection c)) (\<lambda>c'.
        bindIO (on_disk (new_passphrase_header ci name pass)) (\<lambda>(h, key). store_new ci h key c'))))))"

definition create_with_keyring :: "cipher \<Rightarrow> string \<Rightarrow> bool \<Rightarrow> credentials \<Rightarrow> unit vio" where
  "create_with_keyring ci name ring c = bindIO (getIO vs_name) (\<lambda>own.
     bindIO (whenE (name \<noteq> own \<or> \<not> ring) (KeyringErr ''profile'')) (\<lambda>_. with_lock name
       (bindIO (on_disk (refuse_existing name)) (\<lambda>_.
        bindIO (on_disk (new_connection c)) (\<lambda>c'.
        bindIO (new_keyring_header ci name ring) (\<lambda>(h, key). store_new ci h key c'))))))"

section \<open>Loading and refreshing\<close>

definition load_unlocked :: "cipher \<Rightarrow> credentials vio" where
  "load_unlocked ci = bindIO (getIO vs_name) (\<lambda>name.
     bindIO (on_disk (file_present (profile_file name))) (\<lambda>plain.
     bindIO (whenE plain MigrationPending) (\<lambda>_.
     bindIO (on_disk (read_record ci name)) (\<lambda>r.
     bindIO (getIO (\<lambda>v. (vs_header v, vs_identity v, vs_auth v, vs_key v))) (\<lambda>(h, identity, auth, key).
     bindIO (whenE (ci_sha ci (data_aad ci h) \<noteq> ci_sha ci (data_aad ci (er_header r))) Locked) (\<lambda>_.
     if eh_schema h = age_schema then
       (case identity of
          None \<Rightarrow> throwIO Locked
        | Some x \<Rightarrow> bindIO (whenE (length auth \<noteq> 32) Locked) (\<lambda>_. liftE (open_age ci r x auth)))
     else bindIO (whenE (eh_schema h \<noteq> 1 \<or> key = []) Locked) (\<lambda>_. liftE (legacy_open ci r key))))))))"

definition vault_load :: "cipher \<Rightarrow> string \<Rightarrow> credentials vio" where
  "vault_load ci name = bindIO (getIO vs_name) (\<lambda>own.
     bindIO (whenE (name \<noteq> own) NotFound) (\<lambda>_. with_lock name (load_unlocked ci)))"

definition vault_save :: "cipher \<Rightarrow> string \<Rightarrow> string \<Rightarrow> string \<Rightarrow> credentials \<Rightarrow> string vio" where
  "vault_save ci name expected provider next = bindIO (getIO vs_name) (\<lambda>own.
     bindIO (whenE (name \<noteq> own) NotFound) (\<lambda>_. with_lock name
       (bindIO (load_unlocked ci) (\<lambda>old.
        bindIO (getIO vs_header) (\<lambda>h.
        bindIO (whenE (eh_schema h \<noteq> age_schema) MigrationRequired) (\<lambda>_.
        bindIO (whenE (cr_version old \<noteq> expected \<or> cr_connection old \<noteq> cr_connection next) Conflict) (\<lambda>_.
        bindIO (liftE (case refresh_allowed provider old next of Some e \<Rightarrow> Inl e | None \<Rightarrow> Inr ())) (\<lambda>_.
        bindIO (on_disk new_version) (\<lambda>v.
        bindIO (getIO vs_key) (\<lambda>key.
        bindIO (on_disk (seal_now ci h key (next\<lparr>cr_version := v\<rparr>))) (\<lambda>r.
        bindIO (on_disk (write_record r)) (\<lambda>_. returnIO v))))))))))))"

section \<open>Migrations\<close>

definition same_content :: "credentials \<Rightarrow> credentials \<Rightarrow> bool" where
  "same_content a b \<longleftrightarrow> a\<lparr>cr_version := [], cr_connection := []\<rparr> = b\<lparr>cr_version := [], cr_connection := []\<rparr>"

text \<open>The new ciphertext is opened before it is written, and once more as it is read back.\<close>

definition persist_verified :: "cipher \<Rightarrow> encrypted_header \<Rightarrow> string \<Rightarrow> credentials \<Rightarrow> unit sio" where
  "persist_verified ci h key c =
     bindIO (seal_now ci h key c) (\<lambda>r.
     bindIO (liftE (open_encrypted ci r key)) (\<lambda>_.
     bindIO (write_record r) (\<lambda>_.
     bindIO (read_record ci (eh_name h)) (\<lambda>saved.
     bindIO (liftE (open_encrypted ci saved key)) (\<lambda>again. whenE (again \<noteq> c) Conflict)))))"

text \<open>What an earlier, interrupted run has left: the key and header to go on with, or nothing.\<close>

definition resume_encryption :: "cipher \<Rightarrow> string \<Rightarrow> credentials \<Rightarrow> encrypted_record \<Rightarrow> (store_error, (encrypted_header \<times> string) option) result" where
  "resume_encryption ci pass plain existing =
     bindE (passphrase_record_key ci existing pass) (\<lambda>key.
     bindE (open_encrypted ci existing key) (\<lambda>saved.
     failE (\<not> same_content plain saved) Conflict
       (Inr (if eh_schema (er_header existing) = age_schema then Some (er_header existing, key) else None))))"

definition encrypt_afresh :: "cipher \<Rightarrow> string \<Rightarrow> string \<Rightarrow> credentials \<Rightarrow> (encrypted_header \<times> string) sio" where
  "encrypt_afresh ci name pass plain =
     bindIO (new_passphrase_header ci name pass) (\<lambda>(h, key).
     bindIO (new_connection plain) (\<lambda>c.
     bindIO (persist_verified ci h key c) (\<lambda>_. returnIO (h, key))))"

definition encrypt_start :: "cipher \<Rightarrow> string \<Rightarrow> string \<Rightarrow> (encrypted_header \<times> string) sio" where
  "encrypt_start ci name pass =
     bindIO (read_profile name) (\<lambda>plain.
     bindIO (catchIO (read_record ci name)) (\<lambda>res. case res of
       Inl e \<Rightarrow> if e = NotFound then encrypt_afresh ci name pass plain else throwIO e
     | Inr existing \<Rightarrow> bindIO (liftE (resume_encryption ci pass plain existing)) (\<lambda>old. case old of
         Some hk \<Rightarrow> returnIO hk
       | None \<Rightarrow> encrypt_afresh ci name pass plain)))"

definition encrypt_plaintext :: "cipher \<Rightarrow> string \<Rightarrow> unit vio" where
  "encrypt_plaintext ci pass = bindIO (getIO vs_name) (\<lambda>name. with_lock name
     (bindIO (on_disk (encrypt_start ci name pass)) (\<lambda>(h, key).
      bindIO (on_disk ctx_check) (\<lambda>_.
      bindIO (on_disk (unlink_file (profile_file name))) (\<lambda>_.
      bindIO (on_disk sys) (\<lambda>_. updIO (set_key ci key h)))))))"

definition backup_file :: "string \<Rightarrow> string" where
  "backup_file name = name @ ''.vault.v1-backup''"

definition backup_legacy :: "string \<Rightarrow> encrypted_record \<Rightarrow> unit sio" where
  "backup_legacy name r = bindIO (catchIO (open_file ReadOnly (backup_file name))) (\<lambda>x. case x of
     Inr c \<Rightarrow> bindIO (catchIO sys) (\<lambda>s. bindIO (getIO cw_len) (\<lambda>len.
       whenE (s \<noteq> Inr () \<or> max_record < len c \<or> c \<noteq> RecordJSON r) BackupDiffers))
   | Inl e \<Rightarrow> if e \<noteq> ENoEnt then throwIO e else write_profile_data (backup_file name) (RecordJSON r))"

definition migration_key :: "cipher \<Rightarrow> string \<Rightarrow> bool \<Rightarrow> encrypted_record \<Rightarrow> string vio" where
  "migration_key ci pass ring r =
     (if eh_backend (er_header r) = passphrase_backend then liftE (passphrase_record_key ci r pass)
      else if eh_backend (er_header r) = keyring_backend then keyring_record_key ci r ring
      else throwIO UnlockFailed)"

definition migration_header :: "cipher \<Rightarrow> string \<Rightarrow> string \<Rightarrow> bool \<Rightarrow> encrypted_record \<Rightarrow> (encrypted_header \<times> string) vio" where
  "migration_header ci name pass ring r =
     (if eh_backend (er_header r) = passphrase_backend then on_disk (new_passphrase_header ci name pass)
      else new_keyring_header ci name ring)"

definition migrate_legacy :: "cipher \<Rightarrow> string \<Rightarrow> string \<Rightarrow> bool \<Rightarrow> encrypted_record \<Rightarrow> string \<Rightarrow> unit vio" where
  "migrate_legacy ci name pass ring r old_key =
     bindIO (liftE (open_encrypted ci r old_key)) (\<lambda>value.
     bindIO (on_disk (new_connection value)) (\<lambda>c.
     bindIO (migration_header ci name pass ring r) (\<lambda>(h, key).
     bindIO (on_disk (seal_now ci h key c)) (\<lambda>prepared.
     bindIO (liftE (open_encrypted ci prepared key)) (\<lambda>_.
     bindIO (on_disk (backup_legacy name r)) (\<lambda>_.
     bindIO (on_disk (persist_verified ci h key c)) (\<lambda>_. updIO (set_key ci key h))))))))"

definition migrate_to_age :: "cipher \<Rightarrow> string \<Rightarrow> bool \<Rightarrow> unit vio" where
  "migrate_to_age ci pass ring = bindIO (getIO vs_name) (\<lambda>name. with_lock name
     (bindIO (on_disk (file_present (profile_file name))) (\<lambda>plain.
      bindIO (whenE plain MigrationPending) (\<lambda>_.
      bindIO (on_disk (read_record ci name)) (\<lambda>r.
      bindIO (migration_key ci pass ring r) (\<lambda>old_key.
      if eh_schema (er_header r) = age_schema then updIO (set_key ci old_key (er_header r))
      else migrate_legacy ci name pass ring r old_key))))))"

definition change_passphrase :: "cipher \<Rightarrow> string \<Rightarrow> unit vio" where
  "change_passphrase ci pass = bindIO (getIO vs_name) (\<lambda>name. with_lock name
     (bindIO (load_unlocked ci) (\<lambda>value.
      bindIO (getIO vs_header) (\<lambda>previous.
      bindIO (whenE (eh_schema previous \<noteq> age_schema) MigrationRequired) (\<lambda>_.
      bindIO (whenE (eh_backend previous \<noteq> passphrase_backend) WrongBackend) (\<lambda>_.
      bindIO unlocked_key (\<lambda>key.
      bindIO (on_disk (protect_key ci name pass key)) (\<lambda>h.
      bindIO (on_disk (persist_verified ci h key value)) (\<lambda>_. updIO (set_key ci key h))))))))))"

section \<open>Choosing the store\<close>

datatype profile_store = PlainStore | VaultStore vault

definition open_profile :: "cipher \<Rightarrow> int \<Rightarrow> (string \<Rightarrow> string option) \<Rightarrow> string \<Rightarrow> (cworld, store_error, profile_store) io" where
  "open_profile ci fs ring name =
     bindIO new_file_store (\<lambda>_.
     bindIO (whenE (\<not> valid_profile_name name) BadProfileName) (\<lambda>_.
     bindIO open_directory (\<lambda>_.
     bindIO (catchIO (read_record ci name)) (\<lambda>res. case res of
       Inl e \<Rightarrow> if e = NotFound then returnIO PlainStore else throwIO e
     | Inr _ \<Rightarrow> bindIO (file_present (profile_file name)) (\<lambda>plain.
         bindIO (whenE plain MigrationPending) (\<lambda>_.
         bindIO (new_encrypted_store fs ring name) (\<lambda>v. returnIO (VaultStore v))))))))"

definition hex_encode :: "string \<Rightarrow> string" where
  "hex_encode s = concat (map (\<lambda>c. [''0123456789abcdef'' ! (of_char c div 16), ''0123456789abcdef'' ! (of_char c mod 16)]) s)"

text \<open>Public facts about a profile: backend, key id, fingerprint and format.\<close>

definition info :: "cipher \<Rightarrow> (string \<times> string \<times> string \<times> string) vio" where
  "info ci = bindIO (getIO vs_name) (\<lambda>name. with_lock name
     (bindIO (on_disk (read_record ci name)) (\<lambda>r. let h = er_header r in
      returnIO (eh_backend h, eh_key_id h, hex_encode (ci_sha ci (data_aad ci h)),
        if eh_schema h = 1 then ''legacy-v1'' else ''age''))))"

text \<open>The plaintext store's \<open>Create\<close> is refused.\<close>

definition vault_create :: "string \<Rightarrow> credentials \<Rightarrow> unit vio" where
  "vault_create name c = throwIO NotEncryptedCreate"

section \<open>Any sequence of operations\<close>

datatype vault_op =
    OpUnlock string | OpUnlockKey string | OpUnlockRing bool | OpClose | OpInfo
  | OpCreate string string credentials | OpCreateRing string bool credentials
  | OpLoad string | OpSave string string string credentials
  | OpEncrypt string | OpMigrate string bool | OpChange string

fun vault_step :: "cipher \<Rightarrow> vault_op \<Rightarrow> vault \<Rightarrow> vault" where
  "vault_step ci (OpUnlock pass) v = snd (unlock ci pass v)"
| "vault_step ci (OpUnlockKey key) v = snd (unlock_with_key ci key v)"
| "vault_step ci (OpUnlockRing ring) v = snd (unlock_with_keyring ci ring v)"
| "vault_step ci OpClose v = close_store v"
| "vault_step ci OpInfo v = snd (info ci v)"
| "vault_step ci (OpCreate name pass c) v = snd (create_with_passphrase ci name pass c v)"
| "vault_step ci (OpCreateRing name ring c) v = snd (create_with_keyring ci name ring c v)"
| "vault_step ci (OpLoad name) v = snd (vault_load ci name v)"
| "vault_step ci (OpSave name x p c) v = snd (vault_save ci name x p c v)"
| "vault_step ci (OpEncrypt pass) v = snd (encrypt_plaintext ci pass v)"
| "vault_step ci (OpMigrate pass ring) v = snd (migrate_to_age ci pass ring v)"
| "vault_step ci (OpChange pass) v = snd (change_passphrase ci pass v)"

fun vault_runs :: "cipher \<Rightarrow> vault_op list \<Rightarrow> vault \<Rightarrow> vault" where
  "vault_runs ci [] v = v"
| "vault_runs ci (x # ops) v = vault_runs ci ops (vault_step ci x v)"

section \<open>The key in memory\<close>

text \<open>The identity in memory is that of the key.\<close>

definition key_ok :: "cipher \<Rightarrow> vault \<Rightarrow> bool" where
  "key_ok ci v \<longleftrightarrow> (case vs_identity v of None \<Rightarrow> True | Some x \<Rightarrow> parse_secret ci (vs_key v) = Inr (x, vs_auth v))"

section \<open>What the published record says\<close>

definition usable :: "cipher \<Rightarrow> (content \<Rightarrow> nat) \<Rightarrow> string \<Rightarrow> encrypted_record \<Rightarrow> bool" where
  "usable ci len name x \<longleftrightarrow> len (RecordJSON x) \<le> max_record \<and> eh_name (er_header x) = name \<and>
     valid_key_id (eh_key_id (er_header x)) \<and> valid_record ci x"

definition record_in :: "cipher \<Rightarrow> (string \<Rightarrow> file_entry option) \<Rightarrow> int \<times> (content \<Rightarrow> nat) \<Rightarrow> string \<Rightarrow> encrypted_record option" where
  "record_in ci V E name = (case V (vault_file name) of None \<Rightarrow> None | Some e \<Rightarrow>
     if \<not> private_entry False (fst E) e then None
     else (case fe_content e of RecordJSON x \<Rightarrow> if usable ci (snd E) name x then Some x else None | _ \<Rightarrow> None))"

definition vault_record :: "cipher \<Rightarrow> vault \<Rightarrow> encrypted_record option" where
  "vault_record ci v = record_in ci (published (vs_disk v)) (environment (vs_disk v)) (vs_name v)"

text \<open>What the key in memory makes of a record.\<close>

definition open_with :: "cipher \<Rightarrow> vault \<Rightarrow> encrypted_record \<Rightarrow> (store_error, credentials) result" where
  "open_with ci v r =
     (if ci_sha ci (data_aad ci (vs_header v)) \<noteq> ci_sha ci (data_aad ci (er_header r)) then Inl Locked
      else if eh_schema (vs_header v) = age_schema then
        (case vs_identity v of None \<Rightarrow> Inl Locked
         | Some x \<Rightarrow> failE (length (vs_auth v) \<noteq> 32) Locked (open_age ci r x (vs_auth v)))
      else failE (eh_schema (vs_header v) \<noteq> 1 \<or> vs_key v = []) Locked (legacy_open ci r (vs_key v)))"

text \<open>The credentials an unlocked store shows.\<close>

definition vault_view :: "cipher \<Rightarrow> vault \<Rightarrow> credentials option" where
  "vault_view ci v =
     (if published (vs_disk v) (profile_file (vs_name v)) \<noteq> None then None
      else case vault_record ci v of None \<Rightarrow> None
      | Some r \<Rightarrow> (case open_with ci v r of Inl _ \<Rightarrow> None | Inr c \<Rightarrow> Some c))"

lemma vault_file_inj [simp]: "vault_file a = vault_file b \<longleftrightarrow> a = b"
  by (simp add: vault_file_def)

lemma files_differ [simp]:
  "profile_file a \<noteq> vault_file a" "vault_file a \<noteq> profile_file a" "backup_file a \<noteq> vault_file a"
  "vault_file a \<noteq> backup_file a"
  by (simp_all add: profile_file_def vault_file_def backup_file_def)

lemma read_record_Inr:
  assumes "read_record ci name w = (Inr x, w')"
  shows "\<exists>e. file_at w (vault_file name) = Some e \<and> private_entry False (cw_euid w) e \<and> fe_content e = RecordJSON x \<and>
    usable ci (cw_len w) name x"
proof -
  obtain c w1 where o: "open_file ReadOnly (vault_file name) w = (Inr c, w1)"
    and t: "bindIO (catchIO sys) (\<lambda>s. bindIO (getIO cw_len) (\<lambda>len. case c of
       RecordJSON x \<Rightarrow>
         if s \<noteq> Inr () \<or> max_record < len c \<or> eh_name (er_header x) \<noteq> name \<or> \<not> valid_key_id (eh_key_id (er_header x)) \<or>
           \<not> valid_record ci x then throwIO UnsupportedRecord else returnIO x
     | _ \<Rightarrow> throwIO UnsupportedRecord)) w1 = (Inr x, w')"
  proof -
    obtain q w1 where q: "open_file ReadOnly (vault_file name) w = (q, w1)" by fastforce
    show thesis
    proof (cases q)
      case (Inl e)
      with assms q show thesis by (simp add: read_record_def bindIO_def catchIO_def)
    next
      case (Inr c)
      with assms q show thesis by (intro that [of c w1]) (simp_all add: read_record_def bindIO_Inr_iff catchIO_iff)
    qed
  qed
  have k: "keeps (stable V E) (open_file ReadOnly (vault_file name))" for V E by (rule stable_open_file) simp
  have "environment w1 = environment w" using keepsD [OF k stable_refl, of w] o by (simp add: stable_def)
  then have l: "cw_len w1 = cw_len w" by (simp add: environment_def)
  from t have "c = RecordJSON x \<and> usable ci (cw_len w1) name x"
    by (auto simp: bindIO_def catchIO_def sys_def usable_def not_less split: list.splits content.splits if_splits prod.splits)
  with l open_read_Inr [OF o] show ?thesis by metis
qed

lemma stable_read_record [simp, intro]: "keeps (stable V E) (read_record ci name)"
  unfolding read_record_def
  by (intro keeps_bind keeps_catch stable_open_file) (auto split: sum.split content.split intro!: keeps_bind keeps_catch)

lemma read_record_published:
  assumes "read_record ci name w = (Inr x, w')" and "valid_profile_name name"
  shows "record_in ci (published w) (environment w) name = Some x"
  using read_record_Inr [OF assms(1)] valid_name_not_hidden [OF assms(2)]
  by (auto simp: record_in_def published_def environment_def vault_file_def)

lemma record_in_Some:
  assumes "record_in ci V E name = Some x"
  shows "\<exists>e. V (vault_file name) = Some e \<and> fe_content e = RecordJSON x \<and> usable ci (snd E) name x"
  using assms by (auto simp: record_in_def split: option.splits if_splits content.splits)

lemma absent_published:
  assumes "file_present n w = (Inr False, w')"
  shows "published w n = None"
proof -
  obtain q w1 where q: "open_file ReadOnly n w = (q, w1)" by fastforce
  with assms have "open_file ReadOnly n w = (Inl ENoEnt, w1)"
    by (cases q) (auto simp: file_present_def bindIO_def catchIO_def split: if_splits)
  then have "file_at w n = None" by (rule open_read_ENoEnt)
  then show ?thesis by (simp add: published_def)
qed

section \<open>Steps of the store\<close>

lemma bind_keeps:
  assumes "bindIO m f w = (r, w')" and "keeps P m" and "P w"
  obtains (fail) e where "r = Inl e" and "P w'"
    | (step) x w1 where "m w = (Inr x, w1)" and "P w1" and "f x w1 = (r, w')"
  using assms(1) keepsD [OF assms(2,3)]
  by (cases "m w") (auto simp: bindIO_def split: sum.splits intro: fail step)

text \<open>Published files, environment and memory are those of \<open>v0\<close>.\<close>

definition still_vault :: "vault \<Rightarrow> vault \<Rightarrow> bool" where
  "still_vault v0 v \<longleftrightarrow> stable (published (vs_disk v0)) (environment (vs_disk v0)) (vs_disk v) \<and> v = v0\<lparr>vs_disk := vs_disk v\<rparr>"

lemma still_refl [simp]: "still_vault v v"
  by (simp add: still_vault_def stable_def)

lemma still_trans: "still_vault a b \<Longrightarrow> still_vault b c \<Longrightarrow> still_vault a c"
  unfolding still_vault_def stable_def by (metis vault.surjective vault.update_convs(6))

lemma still_memory:
  assumes "still_vault a b"
  shows "vs_name b = vs_name a" "vs_key b = vs_key a" "vs_header b = vs_header a" "vs_identity b = vs_identity a"
    "vs_auth b = vs_auth a" "published (vs_disk b) = published (vs_disk a)"
    "environment (vs_disk b) = environment (vs_disk a)"
proof -
  from assms have b: "b = a\<lparr>vs_disk := vs_disk b\<rparr>" by (simp add: still_vault_def)
  then show "vs_name b = vs_name a" "vs_key b = vs_key a" "vs_header b = vs_header a" "vs_identity b = vs_identity a"
    "vs_auth b = vs_auth a" by (metis vault.select_convs vault.surjective vault.update_convs)+
  from assms show "published (vs_disk b) = published (vs_disk a)" "environment (vs_disk b) = environment (vs_disk a)"
    by (simp_all add: still_vault_def stable_def)
qed

lemma still_vault_view:
  assumes "still_vault a b"
  shows "vault_record ci b = vault_record ci a" "open_with ci b = open_with ci a" "vault_view ci b = vault_view ci a"
    "key_ok ci b = key_ok ci a"
proof -
  note m = still_memory [OF assms]
  show r: "vault_record ci b = vault_record ci a" by (simp add: vault_record_def m)
  show o: "open_with ci b = open_with ci a" by (rule ext) (simp only: open_with_def m)
  show "vault_view ci b = vault_view ci a" by (simp only: vault_view_def r o m)
  show "key_ok ci b = key_ok ci a" by (simp only: key_ok_def m)
qed

lemma still_on_disk [intro]:
  assumes "\<And>V E. keeps (stable V E) m"
  shows "keeps (still_vault v0) (on_disk m)"
proof (rule keepsI)
  fix v assume v: "still_vault v0 v"
  obtain r d where m: "m (vs_disk v) = (r, d)" by fastforce
  with keepsD [OF assms, of _ _ "vs_disk v"] v
  have "stable (published (vs_disk v0)) (environment (vs_disk v0)) d" by (simp add: still_vault_def)
  moreover have "v\<lparr>vs_disk := d\<rparr> = v0\<lparr>vs_disk := d\<rparr>" using v unfolding still_vault_def by (metis vault.surjective vault.update_convs(6))
  ultimately show "still_vault v0 (snd (on_disk m v))" using m by (simp add: on_disk_def still_vault_def)
qed

lemma on_disk_iff: "on_disk m v = (r, v') \<longleftrightarrow> (\<exists>d. m (vs_disk v) = (r, d) \<and> v' = v\<lparr>vs_disk := d\<rparr>)"
  by (auto simp: on_disk_def split: prod.splits)

lemma still_lock [simp, intro]: "keeps (still_vault v0) (on_disk (locked name (returnIO ())))"
  by (intro still_on_disk stable_locked) simp

lemma stable_seal_now [simp, intro]: "keeps (stable V E) (seal_now ci h key c)"
  unfolding seal_now_def by (intro keeps_bind keeps_catch) auto

lemma still_load_unlocked [simp, intro]: "keeps (still_vault v0) (load_unlocked ci)"
  unfolding load_unlocked_def by (auto intro!: keeps_bind still_on_disk split: prod.split option.split)

lemma load_unlocked_Inr:
  assumes "load_unlocked ci v = (Inr c, v')" and "valid_profile_name (vs_name v)"
  shows "still_vault v v' \<and> published (vs_disk v) (profile_file (vs_name v)) = None \<and>
    (\<exists>r. vault_record ci v = Some r \<and> open_with ci v r = Inr c)"
proof -
  have st: "still_vault v v'" using keepsD [OF still_load_unlocked still_refl] assms(1) by (metis snd_conv)
  obtain v1 r v2 where p: "on_disk (file_present (profile_file (vs_name v))) v = (Inr False, v1)"
    and r: "on_disk (read_record ci (vs_name v)) v1 = (Inr r, v2)"
    and o: "open_with ci v2 r = Inr c"
    using assms(1) unfolding load_unlocked_def
    by (auto simp: io_iffs open_with_def failE_def split: if_splits option.splits)
  have s1: "still_vault v v1" using keepsD [OF still_on_disk still_refl, of "file_present (profile_file (vs_name v))" v] p
    by auto
  moreover have "still_vault v1 v2" using keepsD [OF still_on_disk still_refl, of "read_record ci (vs_name v)" v1] r by auto
  ultimately have s2: "still_vault v v2" by (rule still_trans)
  from r obtain d where "read_record ci (vs_name v) (vs_disk v1) = (Inr r, d)" by (auto simp: on_disk_iff)
  from read_record_published [OF this assms(2)] have "vault_record ci v1 = Some r"
    using still_memory(1) [OF s1] by (simp add: vault_record_def)
  then have "vault_record ci v = Some r" using still_vault_view [OF s1] by simp
  moreover have "published (vs_disk v) (profile_file (vs_name v)) = None"
    using p absent_published by (auto simp: on_disk_iff)
  ultimately show ?thesis using st o still_vault_view(2) [OF s2] by metis
qed

lemma load_unlocked_view:
  assumes "load_unlocked ci v = (Inr c, v')" and "valid_profile_name (vs_name v)"
  shows "vault_view ci v = Some c"
  using load_unlocked_Inr [OF assms] by (auto simp: vault_view_def)

lemma write_record_cases:
  assumes "write_record r w = (x, w')" and "valid_profile_name (eh_name (er_header r))"
  shows "environment w' = environment w \<and>
    (published w' = published w \<and> (\<exists>e. x = Inl e) \<or>
     cw_len w (RecordJSON r) \<le> max_record \<and>
     published w' = (published w)(vault_file (eh_name (er_header r)) \<mapsto> own_file (cw_euid w) (RecordJSON r)))"
proof (cases "max_record < cw_len w (RecordJSON r)")
  case True
  with assms(1) show ?thesis by (auto simp: write_record_def bindIO_def)
next
  case False
  with assms(1) have "write_profile_data (vault_file (eh_name (er_header r))) (RecordJSON r) w = (x, w')"
    by (simp add: write_record_def bindIO_def)
  from write_profile_data_cases [OF this] valid_name_not_hidden [OF assms(2)] False show ?thesis
    by (auto simp: vault_file_def)
qed

lemma record_in_own:
  assumes "V (vault_file name) = Some (own_file (fst E) (RecordJSON r))"
  shows "record_in ci V E name = (if usable ci (snd E) name r then Some r else None)"
  using assms by (simp add: record_in_def private_entry_def own_file_def)

section \<open>Sealing and opening\<close>

lemma sealed_Inr:
  assumes "seal ci rnd h key c = Inr r"
  obtains x auth b where "parse_secret ci key = Inr (x, auth)" and "ci_recipient ci x = eh_recipient h"
    and "eh_schema h = age_schema" and "validate_credentials c = None"
    and "length (ci_profile ci \<lparr>fp_schema = 1, fp_name = eh_name h, fp_credentials = c\<rparr>) \<le> max_profile"
    and "\<exists>s. ci_encrypt ci s (ci_recipient ci x) (ci_profile ci \<lparr>fp_schema = 1, fp_name = eh_name h, fp_credentials = c\<rparr>) = Some b"
    and "r = \<lparr>er_header = h, er_nonce = [], er_ciphertext = b, er_mac = record_mac ci h b auth\<rparr>"
  using assms by (auto simp: seal_def failE_def Let_def result_simps bind_eq_Some_conv split: if_splits option.splits)

lemma seal_now_Inr: "seal_now ci h key c w = (Inr r, w') \<Longrightarrow> \<exists>rnd. seal ci rnd h key c = Inr r"
  by (auto simp: seal_now_def io_iffs)

text \<open>
  What the store relies on of age and HMAC: decrypting with an identity what was encrypted to its recipient,
  unwrapping what was wrapped with the same passphrase, and the sizes of their outputs.
\<close>

definition cipher_ok :: "cipher \<Rightarrow> bool" where
  "cipher_ok ci \<longleftrightarrow>
     (\<forall>s x d b. ci_identity ci x \<and> ci_encrypt ci s (ci_recipient ci x) d = Some b \<longrightarrow> ci_decrypt ci x b = Some d \<and> 32 \<le> length b) \<and>
     (\<forall>s pass key b. ci_wrap ci s pass key = Some b \<longrightarrow> ci_unwrap ci pass b = Some key) \<and>
     (\<forall>k d. length (ci_mac ci k d) = 32)"

text \<open>The JSON encoding of these credentials decodes to them; no other header has this header's digest.\<close>

definition encodes :: "cipher \<Rightarrow> string \<Rightarrow> credentials \<Rightarrow> bool" where
  "encodes ci name c \<longleftrightarrow> (let p = \<lparr>fp_schema = 1, fp_name = name, fp_credentials = c\<rparr> in ci_unprofile ci (ci_profile ci p) = Some p)"

definition pinned :: "cipher \<Rightarrow> encrypted_header \<Rightarrow> bool" where
  "pinned ci h \<longleftrightarrow> (\<forall>h'. ci_sha ci (data_aad ci h) = ci_sha ci (data_aad ci h') \<longrightarrow> h' = h)"

lemma parse_secret_Inr: "parse_secret ci key = Inr (x, auth) \<Longrightarrow> ci_identity ci x \<and> length auth = 32 \<and> length key \<le> unlock_key_max"
  by (auto simp: parse_secret_def split: option.splits if_splits)

lemma seal_opens:
  assumes "seal ci rnd h key c = Inr r" and "cipher_ok ci" and "encodes ci (eh_name h) c"
  shows "open_encrypted ci r key = Inr c"
  using assms(1)
proof (rule sealed_Inr)
  fix x auth b
  let ?d = "ci_profile ci \<lparr>fp_schema = 1, fp_name = eh_name h, fp_credentials = c\<rparr>"
  assume a: "parse_secret ci key = Inr (x, auth)" "ci_recipient ci x = eh_recipient h" "eh_schema h = age_schema"
    "validate_credentials c = None" "length ?d \<le> max_profile" "\<exists>s. ci_encrypt ci s (ci_recipient ci x) ?d = Some b"
    "r = \<lparr>er_header = h, er_nonce = [], er_ciphertext = b, er_mac = record_mac ci h b auth\<rparr>"
  then have "ci_decrypt ci x b = Some ?d" using assms(2) parse_secret_Inr [OF a(1)] unfolding cipher_ok_def by blast
  with a assms(3) show ?thesis
    by (simp add: open_encrypted_def open_age_def limited_def decode_credentials_def encodes_def Let_def age_schema_def)
qed

lemma seal_header: "seal ci rnd h key c = Inr r \<Longrightarrow> er_header r = h \<and> eh_schema h = age_schema"
  by (erule sealed_Inr) simp

lemma seal_valid:
  assumes "seal ci rnd h key c = Inr r" and "cipher_ok ci" and "valid_header ci h"
  shows "valid_record ci r"
  using assms(1)
proof (rule sealed_Inr)
  fix x auth b
  let ?d = "ci_profile ci \<lparr>fp_schema = 1, fp_name = eh_name h, fp_credentials = c\<rparr>"
  assume a: "parse_secret ci key = Inr (x, auth)" "eh_schema h = age_schema" "\<exists>s. ci_encrypt ci s (ci_recipient ci x) ?d = Some b"
    "r = \<lparr>er_header = h, er_nonce = [], er_ciphertext = b, er_mac = record_mac ci h b auth\<rparr>"
  then have "32 \<le> length b" using assms(2) parse_secret_Inr [OF a(1)] unfolding cipher_ok_def by blast
  moreover have "length (er_mac r) = 32" using assms(2) a(4) by (simp add: record_mac_def cipher_ok_def)
  ultimately show ?thesis using a assms(3) by (simp add: valid_record_def Let_def age_schema_def)
qed

text \<open>The key an operation puts in memory opens what it opened.\<close>

lemma open_with_set_key:
  assumes "open_encrypted ci r key = Inr c" and "eh_schema (er_header r) = age_schema"
  shows "open_with ci (set_key ci key (er_header r) v) r = Inr c"
proof -
  obtain x auth where p: "parse_secret ci key = Inr (x, auth)" and o: "open_age ci r x auth = Inr c"
    using assms by (auto simp: open_encrypted_def age_schema_def result_simps)
  with assms(2) parse_secret_Inr [OF p] show ?thesis by (simp add: open_with_def set_key_def)
qed

section \<open>Operations that keep a fact and give another\<close>

text \<open>The operation keeps \<open>I\<close>, and a value it returns satisfies \<open>B\<close>.\<close>

definition gives :: "('w \<Rightarrow> bool) \<Rightarrow> ('w, 'e, 'a) io \<Rightarrow> ('a \<Rightarrow> bool) \<Rightarrow> bool" where
  "gives I m B \<longleftrightarrow> triple I m (\<lambda>x w. I w \<and> B x) (\<lambda>_. I)"

lemma gives_keeps: "gives I m B \<Longrightarrow> keeps I m"
  unfolding gives_def by (rule keepsI) (erule triple_snd [OF triple_post], auto)

lemma keeps_gives: "keeps I m \<Longrightarrow> gives I m (\<lambda>_. True)"
  unfolding gives_def by (rule tripleI) (auto dest: keepsD)

lemma givesI: "keeps I m \<Longrightarrow> (\<And>w x w'. I w \<Longrightarrow> m w = (Inr x, w') \<Longrightarrow> B x) \<Longrightarrow> gives I m B"
  unfolding gives_def by (rule tripleI) (auto dest: keepsD)

lemma gives_bind: "gives I m B \<Longrightarrow> (\<And>x. B x \<Longrightarrow> gives I (f x) C) \<Longrightarrow> gives I (bindIO m f) C"
  unfolding gives_def by (erule triple_bind) (auto simp: triple_def)

lemma gives_keeps_bind: "gives I m B \<Longrightarrow> (\<And>x. B x \<Longrightarrow> keeps I (f x)) \<Longrightarrow> keeps I (bindIO m f)"
  using gives_bind [of I m B f "\<lambda>_. True"] gives_keeps keeps_gives by blast

lemma keeps_gives_bind: "keeps I m \<Longrightarrow> (\<And>x. gives I (f x) C) \<Longrightarrow> gives I (bindIO m f) C"
  using gives_bind keeps_gives by blast

lemma gives_catch: "gives I m B \<Longrightarrow> gives I (catchIO m) (\<lambda>r. \<forall>x. r = Inr x \<longrightarrow> B x)"
  unfolding gives_def by (rule triple_catch, erule triple_post) auto

lemma gives_return: "B x \<Longrightarrow> gives I (returnIO x) B"
  by (simp add: gives_def triple_def)

lemma gives_throw: "gives I (throwIO e) B"
  by (simp add: gives_def triple_def)

lemma gives_lift: "(\<And>x. r = Inr x \<Longrightarrow> B x) \<Longrightarrow> gives I (liftE r) B"
  by (cases r) (simp_all add: gives_def triple_def)

lemma gives_get: "(\<And>w. I w \<Longrightarrow> B (f w)) \<Longrightarrow> gives I (getIO f) B"
  by (simp add: gives_def triple_def)

section \<open>What is written is sealed\<close>

text \<open>
  \<open>F\<close> are the files there were.  A header is one of theirs, or carries no key but one wrapped with a passphrase; a record
  is one of theirs, or its ciphertext is an encryption to its header's recipient, with nothing else beside it but
  its authentication.
\<close>

definition clean_header :: "cipher \<Rightarrow> (string \<Rightarrow> file_entry option) \<Rightarrow> encrypted_header \<Rightarrow> bool" where
  "clean_header ci F h \<longleftrightarrow> (\<exists>m e r. F m = Some e \<and> fe_content e = RecordJSON r \<and> er_header r = h) \<or>
     eh_salt h = [] \<and> eh_wrap_nonce h = [] \<and> (eh_wrapped_key h = [] \<or> (\<exists>rnd pass key. ci_wrap ci rnd pass key = Some (eh_wrapped_key h)))"

definition sealed_record :: "cipher \<Rightarrow> encrypted_record \<Rightarrow> bool" where
  "sealed_record ci r \<longleftrightarrow> er_nonce r = [] \<and>
     (\<exists>rnd p. ci_encrypt ci rnd (eh_recipient (er_header r)) (ci_profile ci p) = Some (er_ciphertext r)) \<and>
     (\<exists>auth. er_mac r = record_mac ci (er_header r) (er_ciphertext r) auth)"

definition allowed_record :: "cipher \<Rightarrow> (string \<Rightarrow> file_entry option) \<Rightarrow> encrypted_record \<Rightarrow> bool" where
  "allowed_record ci F r \<longleftrightarrow> (\<exists>m e. F m = Some e \<and> fe_content e = RecordJSON r) \<or> sealed_record ci r \<and> clean_header ci F (er_header r)"

text \<open>A temporary file is first empty, and holds a part of a record when writing it fails.\<close>

fun allowed_content :: "cipher \<Rightarrow> (string \<Rightarrow> file_entry option) \<Rightarrow> content \<Rightarrow> bool" where
  "allowed_content ci F (ProfileJSON p) = False"
| "allowed_content ci F (RecordJSON r) = allowed_record ci F r"
| "allowed_content ci F (OtherBytes b) = (b = [] \<or> b = ''partial'')"

definition sealed_in :: "cipher \<Rightarrow> (string \<Rightarrow> file_entry option) \<Rightarrow> cworld \<Rightarrow> bool" where
  "sealed_in ci F w \<longleftrightarrow> (\<forall>n e. file_at w n = Some e \<longrightarrow> F n = Some e \<or> allowed_content ci F (fe_content e))"

lemma allowed_header: "allowed_record ci F r \<Longrightarrow> clean_header ci F (er_header r)"
  by (auto simp: allowed_record_def clean_header_def)

lemma allowed_own_file [simp]: "fe_content (own_file u c) = c"
  by (simp add: own_file_def)

lemma sealed_in_simps [simp]:
  "sealed_in ci F (w\<lparr>cw_faults := fs\<rparr>) = sealed_in ci F w" "sealed_in ci F (w\<lparr>cw_ctx := cs\<rparr>) = sealed_in ci F w"
  "sealed_in ci F (w\<lparr>cw_random := rs\<rparr>) = sealed_in ci F w" "sealed_in ci F (w\<lparr>cw_contended := k\<rparr>) = sealed_in ci F w"
  by (simp_all add: sealed_in_def)

lemma sealed_put: "sealed_in ci F w \<Longrightarrow> allowed_content ci F (fe_content e) \<Longrightarrow> sealed_in ci F (put_file n e w)"
  by (auto simp: sealed_in_def file_at_put split: if_splits)

lemma sealed_drop: "sealed_in ci F w \<Longrightarrow> sealed_in ci F (drop_file n w)"
  by (auto simp: sealed_in_def file_at_drop split: if_splits)

lemma sealed_sys [simp, intro]: "keeps (sealed_in ci F) sys" "keeps (sealed_in ci F) ctx_check" "keeps (sealed_in ci F) new_version"
  by (auto simp: keeps_def sys_def ctx_check_def new_version_def split: list.split)

lemma sealed_open_directory [simp, intro]: "keeps (sealed_in ci F) open_directory"
  unfolding open_directory_def by (auto intro!: keeps_bind split: option.split)

lemma sealed_check_opened [simp, intro]: "keeps (sealed_in ci F) (check_opened n)"
  unfolding check_opened_def by (auto intro!: keeps_bind split: option.split)

lemma sealed_open_file [simp, intro]: "keeps (sealed_in ci F) (open_file m n)"
  unfolding open_file_def by (auto intro!: keeps_bind keeps_upd sealed_put split: option.split)

lemma sealed_flock_loop [simp, intro]: "keeps (sealed_in ci F) (flock_loop n)"
  by (induction n) (auto intro!: keeps_bind)

lemma sealed_acquire [simp, intro]: "keeps (sealed_in ci F) acquire"
  unfolding acquire_def by (intro keeps_bind keeps_upd) auto

lemma sealed_locked [intro]: "keeps (sealed_in ci F) fn \<Longrightarrow> keeps (sealed_in ci F) (locked name fn)"
  unfolding locked_def by (intro keeps_bind) auto

lemma sealed_read_profile [simp, intro]: "keeps (sealed_in ci F) (read_profile name)"
  unfolding read_profile_def by (intro keeps_bind keeps_catch) (auto split: sum.split intro!: keeps_bind)

lemma sealed_file_present [simp, intro]: "keeps (sealed_in ci F) (file_present n)"
  unfolding file_present_def by (intro keeps_bind keeps_catch) (auto split: sum.split)

lemma sealed_unlink [simp, intro]: "keeps (sealed_in ci F) (unlink_file n)"
  unfolding unlink_file_def by (intro keeps_bind) (auto split: option.split intro!: keeps_upd sealed_drop)

lemma sealed_read_record [simp, intro]: "keeps (sealed_in ci F) (read_record cj name)"
  unfolding read_record_def by (intro keeps_bind keeps_catch) (auto split: sum.split content.split intro!: keeps_bind)

lemma read_record_gives: "gives (sealed_in ci F) (read_record cj name) (allowed_record ci F)"
proof (rule givesI [OF sealed_read_record])
  fix w r w' assume w: "sealed_in ci F w" and r: "read_record cj name w = (Inr r, w')"
  from read_record_Inr [OF r] obtain e where "file_at w (vault_file name) = Some e" "fe_content e = RecordJSON r" by blast
  with w show "allowed_record ci F r" by (fastforce simp: sealed_in_def allowed_record_def)
qed

lemma sealed_write_file: "allowed_record ci F r \<Longrightarrow> keeps (sealed_in ci F) (write_file n (RecordJSON r))"
  unfolding write_file_def by (intro keeps_bind keeps_catch) (auto split: sum.split intro!: keeps_upd sealed_put)

lemma sealed_publish:
  assumes "file_at w a = Some e" and "allowed_content ci F (fe_content e)" and "sealed_in ci F w"
  shows "sealed_in ci F (snd (publish a b w))"
proof -
  obtain r w' where p: "publish a b w = (r, w')" by fastforce
  from publish_cases [OF p assms(1)] have "file_at w' = file_at w \<or> file_at w' = (file_at w)(a := None, b \<mapsto> e)" by blast
  then have "sealed_in ci F w'" using assms(2,3) unfolding sealed_in_def by (metis fun_upd_apply option.inject option.distinct(1))
  with p show ?thesis by simp
qed

lemma sealed_write_and_publish:
  assumes "allowed_record ci F r"
  shows "keeps (sealed_in ci F) (bindIO (write_file a (RecordJSON r)) (\<lambda>_. publish a b))"
proof (rule keepsI)
  fix w assume p: "sealed_in ci F w"
  obtain x w1 where w: "write_file a (RecordJSON r) w = (x, w1)" by fastforce
  have p1: "sealed_in ci F w1" using keepsD [OF sealed_write_file [OF assms] p, of a] w by simp
  show "sealed_in ci F (snd (bindIO (write_file a (RecordJSON r)) (\<lambda>_. publish a b) w))"
  proof (cases x)
    case (Inl e)
    with w p1 show ?thesis by (simp add: bindIO_def)
  next
    case (Inr u)
    with w have "file_at w1 a = Some (own_file (cw_euid w) (RecordJSON r))" using write_file_Inr by fastforce
    from sealed_publish [OF this _ p1] assms w Inr show ?thesis by (simp add: bindIO_def)
  qed
qed

lemma sealed_write_data: "allowed_record ci F r \<Longrightarrow> keeps (sealed_in ci F) (write_profile_data n (RecordJSON r))"
  unfolding write_profile_data_def publish_def [symmetric]
  by (intro keeps_bind keeps_finally sealed_write_and_publish sealed_sys sealed_open_file sealed_unlink)

lemma sealed_write_record: "allowed_record ci F r \<Longrightarrow> keeps (sealed_in ci F) (write_record r)"
  unfolding write_record_def by (intro keeps_bind) (auto intro: sealed_write_data)

lemma seal_now_gives: "clean_header ci F h \<Longrightarrow> gives (sealed_in ci F) (seal_now ci h key c) (allowed_record ci F)"
proof (rule givesI)
  show "keeps (sealed_in ci F) (seal_now ci h key c)" unfolding seal_now_def by (intro keeps_bind keeps_catch) auto
  fix w r w' assume h: "clean_header ci F h" and "seal_now ci h key c w = (Inr r, w')"
  then obtain rnd where "seal ci rnd h key c = Inr r" using seal_now_Inr by blast
  then show "allowed_record ci F r"
  proof (rule sealed_Inr)
    fix x auth b
    assume "ci_recipient ci x = eh_recipient h" and r: "r = \<lparr>er_header = h, er_nonce = [], er_ciphertext = b, er_mac = record_mac ci h b auth\<rparr>"
      and "\<exists>s. ci_encrypt ci s (ci_recipient ci x) (ci_profile ci \<lparr>fp_schema = 1, fp_name = eh_name h, fp_credentials = c\<rparr>) = Some b"
    then have "sealed_record ci r" unfolding sealed_record_def by auto
    with h r show ?thesis by (simp add: allowed_record_def)
  qed
qed

lemma sealed_new_secret [simp, intro]: "keeps (sealed_in ci F) (new_secret cj)"
  unfolding new_secret_def by (intro keeps_bind) auto

lemma protect_key_gives: "gives (sealed_in ci F) (protect_key ci name pass key) (clean_header ci F)"
proof (rule givesI)
  show "keeps (sealed_in ci F) (protect_key ci name pass key)"
    unfolding protect_key_def by (auto intro!: keeps_bind split: prod.split)
  fix w h w' assume "protect_key ci name pass key w = (Inr h, w')"
  then show "clean_header ci F h"
    by (auto simp: protect_key_def io_iffs clean_header_def zero_header_def split: option.splits)
qed

lemma new_passphrase_header_gives: "gives (sealed_in ci F) (new_passphrase_header ci name pass) (\<lambda>(h, key). clean_header ci F h)"
  unfolding new_passphrase_header_def
  by (rule keeps_gives_bind) (auto intro!: gives_bind [OF protect_key_gives] gives_return split: prod.split)

lemma sealed_new_connection [simp, intro]: "keeps (sealed_in ci F) (new_connection c)"
  unfolding new_connection_def by (auto intro!: keeps_bind simp: Let_def)

lemma sealed_refuse_existing [simp, intro]: "keeps (sealed_in ci F) (refuse_existing name)"
  unfolding refuse_existing_def by (auto intro!: keeps_bind)

lemma sealed_persist_verified: "clean_header ci F h \<Longrightarrow> keeps (sealed_in ci F) (persist_verified ci h key c)"
  unfolding persist_verified_def
  by (rule gives_keeps_bind [OF seal_now_gives], assumption) (auto intro!: keeps_bind sealed_write_record)

lemma encrypt_afresh_gives: "gives (sealed_in ci F) (encrypt_afresh ci name pass plain) (\<lambda>(h, key). clean_header ci F h)"
  unfolding encrypt_afresh_def
  by (rule gives_bind [OF new_passphrase_header_gives])
    (auto intro!: keeps_gives_bind sealed_persist_verified gives_return split: prod.splits)

lemma resume_header: "resume_encryption ci pass plain r = Inr (Some (h, key)) \<Longrightarrow> h = er_header r"
  by (auto simp: resume_encryption_def result_simps failE_def split: if_splits)

lemma encrypt_start_gives: "gives (sealed_in ci F) (encrypt_start ci name pass) (\<lambda>(h, key). clean_header ci F h)"
proof -
  have e: "gives (sealed_in ci F) (case res of
       Inl e \<Rightarrow> if e = NotFound then encrypt_afresh ci name pass plain else throwIO e
     | Inr existing \<Rightarrow> bindIO (liftE (resume_encryption ci pass plain existing)) (\<lambda>old. case old of
         Some hk \<Rightarrow> returnIO hk
       | None \<Rightarrow> encrypt_afresh ci name pass plain)) (\<lambda>(h, key). clean_header ci F h)"
    if a: "\<forall>x. res = Inr x \<longrightarrow> allowed_record ci F x" for res plain
  proof (cases res)
    case (Inl err)
    then show ?thesis by (simp add: encrypt_afresh_gives gives_throw)
  next
    case (Inr x)
    with a have h: "clean_header ci F (er_header x)" by (simp add: allowed_header)
    have "gives (sealed_in ci F) (liftE (resume_encryption ci pass plain x)) (\<lambda>old. \<forall>h key. old = Some (h, key) \<longrightarrow> clean_header ci F h)"
      by (rule gives_lift) (use resume_header h in blast)
    then have "gives (sealed_in ci F) (bindIO (liftE (resume_encryption ci pass plain x)) (\<lambda>old. case old of
         Some hk \<Rightarrow> returnIO hk | None \<Rightarrow> encrypt_afresh ci name pass plain)) (\<lambda>(h, key). clean_header ci F h)"
      by (rule gives_bind) (auto intro: encrypt_afresh_gives gives_return split: option.split)
    with Inr show ?thesis by simp
  qed
  show ?thesis unfolding encrypt_start_def
    by (rule keeps_gives_bind [OF sealed_read_profile], rule gives_bind [OF gives_catch [OF read_record_gives]], erule e)
qed

lemma sealed_backup_legacy: "allowed_record ci F r \<Longrightarrow> keeps (sealed_in ci F) (backup_legacy name r)"
  unfolding backup_legacy_def by (auto intro!: keeps_bind keeps_catch sealed_write_data split: sum.split)

section \<open>What every operation keeps\<close>

definition sound_vault :: "cipher \<Rightarrow> (string \<Rightarrow> file_entry option) \<Rightarrow> string \<Rightarrow> vault \<Rightarrow> bool" where
  "sound_vault ci F name v \<longleftrightarrow> sealed_in ci F (vs_disk v) \<and> key_ok ci v \<and> vs_name v = name \<and> clean_header ci F (vs_header v)"

lemma sound_set_key: "clean_header ci F h \<Longrightarrow> sound_vault ci F N v \<Longrightarrow> sound_vault ci F N (set_key ci key h v)"
  by (auto simp: sound_vault_def set_key_def key_ok_def split: sum.split)

lemma sound_close: "sound_vault ci F N v \<Longrightarrow> sound_vault ci F N (close_store v)"
  by (auto simp: sound_vault_def close_store_def key_ok_def)

lemma on_disk_gives:
  assumes "gives (sealed_in ci F) m B"
  shows "gives (sound_vault ci F N) (on_disk m) B"
proof (rule givesI)
  have s: "sound_vault ci F N (v\<lparr>vs_disk := d\<rparr>)" if "sound_vault ci F N v" "sealed_in ci F d" for v d
    using that by (simp add: sound_vault_def key_ok_def split: option.splits)
  show "keeps (sound_vault ci F N) (on_disk m)"
  proof (rule keepsI)
    fix v assume v: "sound_vault ci F N v"
    obtain r d where m: "m (vs_disk v) = (r, d)" by fastforce
    with keepsD [OF gives_keeps [OF assms], of "vs_disk v"] v have "sealed_in ci F d" by (simp add: sound_vault_def)
    from s [OF v this] m show "sound_vault ci F N (snd (on_disk m v))" by (simp add: on_disk_def)
  qed
  fix v x v' assume v: "sound_vault ci F N v" and "on_disk m v = (Inr x, v')"
  then obtain d where "m (vs_disk v) = (Inr x, d)" by (auto simp: on_disk_def split: prod.splits)
  with v triple_Inr [OF assms [unfolded gives_def]] show "B x" by (auto simp: sound_vault_def)
qed

lemma sound_on_disk [intro]: "keeps (sealed_in ci F) m \<Longrightarrow> keeps (sound_vault ci F N) (on_disk m)"
  by (rule gives_keeps [OF on_disk_gives [OF keeps_gives]])

lemmas read_gives = on_disk_gives [OF read_record_gives]
lemmas seals_gives = on_disk_gives [OF seal_now_gives]

lemma header_gives: "gives (sound_vault ci F N) (getIO vs_header) (clean_header ci F)"
  by (rule gives_get) (simp add: sound_vault_def)

lemma sound_write [intro]: "allowed_record ci F r \<Longrightarrow> keeps (sound_vault ci F N) (on_disk (write_record r))"
  by (intro sound_on_disk sealed_write_record)

lemma sound_with_lock [intro]: "keeps (sound_vault ci F N) fn \<Longrightarrow> keeps (sound_vault ci F N) (with_lock name fn)"
  unfolding with_lock_def by (intro keeps_bind sound_on_disk sealed_locked) auto

lemma sound_upd_key [intro]: "clean_header ci F h \<Longrightarrow> keeps (sound_vault ci F N) (updIO (set_key ci key h))"
  by (intro keeps_upd sound_set_key)

lemma sound_ring_put [simp, intro]: "keeps (sound_vault ci F N) (ring_put kid key)"
  unfolding ring_put_def by (intro keeps_bind keeps_catch keeps_upd) (auto simp: sound_vault_def key_ok_def split: option.splits)

lemma sound_ring_get [simp, intro]: "keeps (sound_vault ci F N) (ring_get kid)"
  unfolding ring_get_def by (auto intro!: keeps_bind keeps_catch split: option.split)

lemma new_keyring_header_gives: "gives (sound_vault ci F N) (new_keyring_header ci name ring) (\<lambda>(h, key). clean_header ci F h)"
proof (rule givesI)
  show "keeps (sound_vault ci F N) (new_keyring_header ci name ring)"
    unfolding new_keyring_header_def by (auto intro!: keeps_bind keeps_catch split: prod.split)
  fix v x v' assume "new_keyring_header ci name ring v = (Inr x, v')"
  then show "case x of (h, key) \<Rightarrow> clean_header ci F h"
    by (auto simp: new_keyring_header_def io_iffs clean_header_def zero_header_def)
qed

lemma sound_keyring_record_key [simp, intro]: "keeps (sound_vault ci F N) (keyring_record_key ci r ring)"
  unfolding keyring_record_key_def by (auto intro!: keeps_bind)

lemma sound_unlocked_key [simp, intro]: "keeps (sound_vault ci F N) unlocked_key"
  unfolding unlocked_key_def by (auto intro!: keeps_bind)

lemma sound_load_unlocked [simp, intro]: "keeps (sound_vault ci F N) (load_unlocked ci)"
  unfolding load_unlocked_def by (auto intro!: keeps_bind split: prod.split option.split)

lemma sound_store_new: "clean_header ci F h \<Longrightarrow> keeps (sound_vault ci F N) (store_new ci h key c)"
  unfolding store_new_def by (rule gives_keeps_bind [OF seals_gives], assumption) (auto intro!: keeps_bind)

lemma migration_header_gives: "gives (sound_vault ci F N) (migration_header ci name pass ring r) (\<lambda>(h, key). clean_header ci F h)"
  unfolding migration_header_def by (simp add: on_disk_gives [OF new_passphrase_header_gives] new_keyring_header_gives)

lemma sound_migrate_legacy: 
  assumes "allowed_record ci F r"
  shows "keeps (sound_vault ci F N) (migrate_legacy ci name pass ring r k)"
  unfolding migrate_legacy_def
  by (rule keeps_bind, simp, rule keeps_bind, blast, rule gives_keeps_bind [OF migration_header_gives])
    (use assms in \<open>auto intro!: keeps_bind sound_on_disk sealed_backup_legacy sealed_persist_verified gives_keeps [OF seal_now_gives]\<close>)

lemma sound_migration_key [simp, intro]: "keeps (sound_vault ci F N) (migration_key ci pass ring r)"
  unfolding migration_key_def by auto

lemma sound_unlocks:
  "keeps (sound_vault ci F N) (unlock ci pass)" "keeps (sound_vault ci F N) (unlock_with_key ci key)"
  "keeps (sound_vault ci F N) (unlock_with_keyring ci ring)" "keeps (sound_vault ci F N) (info ci)"
  unfolding unlock_def unlock_with_key_def unlock_with_keyring_def info_def
  by (auto intro!: keeps_bind sound_with_lock gives_keeps_bind [OF read_gives] dest: allowed_header simp: Let_def)

lemma sound_creates:
  "keeps (sound_vault ci F N) (create_with_passphrase ci name pass c)"
  "keeps (sound_vault ci F N) (create_with_keyring ci name ring c)"
proof -
  have p: "keeps (sound_vault ci F N) (bindIO (on_disk (new_passphrase_header ci name pass)) (\<lambda>(h, key). store_new ci h key c'))" for c'
    by (rule gives_keeps_bind [OF on_disk_gives [OF new_passphrase_header_gives]]) (auto intro: sound_store_new)
  show "keeps (sound_vault ci F N) (create_with_passphrase ci name pass c)"
    unfolding create_with_passphrase_def by (auto intro!: p keeps_bind sound_with_lock)
  have r: "keeps (sound_vault ci F N) (bindIO (new_keyring_header ci name ring) (\<lambda>(h, key). store_new ci h key c'))" for c'
    by (rule gives_keeps_bind [OF new_keyring_header_gives]) (auto intro: sound_store_new)
  show "keeps (sound_vault ci F N) (create_with_keyring ci name ring c)"
    unfolding create_with_keyring_def by (auto intro!: r keeps_bind sound_with_lock)
qed

lemma sound_load_save:
  "keeps (sound_vault ci F N) (vault_load ci name)" "keeps (sound_vault ci F N) (vault_save ci name x p c)"
proof -
  show "keeps (sound_vault ci F N) (vault_load ci name)" unfolding vault_load_def by (auto intro!: keeps_bind sound_with_lock)
  have s: "keeps (sound_vault ci F N) (bindIO (on_disk (seal_now ci h key n)) (\<lambda>r. bindIO (on_disk (write_record r)) (\<lambda>_. returnIO v)))"
    if "clean_header ci F h" for h key n and v :: string
    by (rule gives_keeps_bind [OF seals_gives [OF that]]) (auto intro!: keeps_bind)
  show "keeps (sound_vault ci F N) (vault_save ci name x p c)" unfolding vault_save_def
    by (auto intro!: keeps_bind sound_with_lock gives_keeps_bind [OF header_gives] s)
qed

lemma sound_migrations:
  "keeps (sound_vault ci F N) (encrypt_plaintext ci pass)" "keeps (sound_vault ci F N) (migrate_to_age ci pass ring)"
  "keeps (sound_vault ci F N) (change_passphrase ci pass)"
proof -
  have e: "keeps (sound_vault ci F N) (bindIO (on_disk (encrypt_start ci name pass)) (\<lambda>(h, key).
      bindIO (on_disk ctx_check) (\<lambda>_. bindIO (on_disk (unlink_file (profile_file name))) (\<lambda>_.
      bindIO (on_disk sys) (\<lambda>_. updIO (set_key ci key h))))))" for name
    by (rule gives_keeps_bind [OF on_disk_gives [OF encrypt_start_gives]]) (auto intro!: keeps_bind)
  show "keeps (sound_vault ci F N) (encrypt_plaintext ci pass)"
    unfolding encrypt_plaintext_def by (auto intro!: e keeps_bind sound_with_lock)
  have m: "keeps (sound_vault ci F N) (bindIO (on_disk (read_record ci name)) (\<lambda>r.
      bindIO (migration_key ci pass ring r) (\<lambda>old_key.
      if eh_schema (er_header r) = age_schema then updIO (set_key ci old_key (er_header r))
      else migrate_legacy ci name pass ring r old_key)))" for name
    by (rule gives_keeps_bind [OF read_gives]) (auto intro!: keeps_bind sound_migrate_legacy dest: allowed_header)
  show "keeps (sound_vault ci F N) (migrate_to_age ci pass ring)"
    unfolding migrate_to_age_def by (auto intro!: m keeps_bind sound_with_lock)
  have c: "keeps (sound_vault ci F N) (bindIO (on_disk (protect_key ci name pass key)) (\<lambda>h.
      bindIO (on_disk (persist_verified ci h key x)) (\<lambda>_. updIO (set_key ci key h))))" for name key x
    by (rule gives_keeps_bind [OF on_disk_gives [OF protect_key_gives]]) (auto intro!: keeps_bind sound_on_disk sealed_persist_verified)
  show "keeps (sound_vault ci F N) (change_passphrase ci pass)"
    unfolding change_passphrase_def by (auto intro!: c keeps_bind sound_with_lock)
qed

lemma sound_step: "sound_vault ci F N v \<Longrightarrow> sound_vault ci F N (vault_step ci op v)"
  by (cases op) (simp_all add: keepsD [OF sound_unlocks(1)] keepsD [OF sound_unlocks(2)] keepsD [OF sound_unlocks(3)]
    keepsD [OF sound_unlocks(4)] keepsD [OF sound_creates(1)] keepsD [OF sound_creates(2)] keepsD [OF sound_load_save(1)]
    keepsD [OF sound_load_save(2)] keepsD [OF sound_migrations(1)] keepsD [OF sound_migrations(2)]
    keepsD [OF sound_migrations(3)] sound_close)

lemma sound_runs: "sound_vault ci F N v \<Longrightarrow> sound_vault ci F N (vault_runs ci ops v)"
  by (induction ops arbitrary: v) (simp_all add: sound_step)

lemma new_encrypted_store_Inr:
  assumes "new_encrypted_store fs ring name w = (Inr v, w')"
  shows "vs_disk v = w' \<and> vs_name v = name \<and> vs_identity v = None \<and> vs_key v = [] \<and> vs_header v = zero_header \<and>
    valid_profile_name name"
  using assms by (auto simp: new_encrypted_store_def io_iffs)

lemma opened_sound:
  assumes "new_encrypted_store fs ring name w = (Inr v, w')"
  shows "sound_vault ci (file_at w') name (vault_runs ci ops v)"
proof -
  have "sealed_in ci (file_at w') w'" "clean_header ci (file_at w') zero_header"
    by (simp_all add: sealed_in_def clean_header_def zero_header_def)
  with new_encrypted_store_Inr [OF assms] show ?thesis by (intro sound_runs) (simp add: sound_vault_def key_ok_def)
qed

end
