(* ===== verification/VaultSafety.thy ===== *)
theory VaultSafety
  imports CredentialVault
begin

text \<open>
  What the encrypted store keeps safe: a refresh is a compare-and-swap on the sealed credentials, and the
  migrations and the change of a passphrase never leave a profile without a copy that can be opened.
\<close>

section \<open>The lock in front of every operation\<close>

lemma locked_returns: "locked name (returnIO ()) w = (Inr u, w') \<Longrightarrow> name = [] \<or> valid_profile_name name"
  by (auto simp: locked_def io_iffs)

lemma with_lock_cases:
  assumes "with_lock name fn v = (r, v')"
  obtains (fail) e where "r = Inl e" and "still_vault v v'"
    | (step) v1 where "still_vault v v1" and "name = [] \<or> valid_profile_name name" and "fn v1 = (r, v')"
  using assms [unfolded with_lock_def] still_lock still_refl [of v]
proof (cases rule: bind_keeps)
  case (fail e)
  then show ?thesis by (rule that(1))
next
  case (step u w1)
  from step(1) have "name = [] \<or> valid_profile_name name" by (auto simp: on_disk_iff dest: locked_returns)
  with step show ?thesis by (intro that(2))
qed

lemma still_disk_step:
  assumes "on_disk m v = (x, v')" and "\<And>V E. keeps (stable V E) m"
  shows "still_vault v v'"
  using keepsD [OF still_on_disk [OF assms(2)] still_refl] assms(1) by (metis snd_conv)

section \<open>Refreshing sealed credentials\<close>

text \<open>A sealed record written over the one an unlocked store shows.\<close>

lemma resealed_view:
  assumes "still_vault v v1" and "key_ok ci v" and "cipher_ok ci" and "pinned ci (vs_header v)"
    and "vault_view ci v = Some old" and "valid_profile_name (vs_name v)"
    and "seal ci rnd (vs_header v) (vs_key v) c = Inr r" and "encodes ci (vs_name v) c"
    and "cw_len (vs_disk v1) (RecordJSON r) \<le> max_record"
    and "published d = (published (vs_disk v1))(vault_file (vs_name v) \<mapsto> own_file (cw_euid (vs_disk v1)) (RecordJSON r))"
    and "environment d = environment (vs_disk v1)"
  shows "vault_view ci (v1\<lparr>vs_disk := d\<rparr>) = Some c"
proof -
  note m = still_memory [OF assms(1)]
  from assms(5) obtain r0 where pf: "published (vs_disk v) (profile_file (vs_name v)) = None"
    and r0: "vault_record ci v = Some r0" and o0: "open_with ci v r0 = Inr old"
    by (auto simp: vault_view_def split: if_splits option.splits sum.splits)
  have h: "er_header r = vs_header v" "eh_schema (vs_header v) = age_schema" using seal_header [OF assms(7)] by auto
  have h0: "er_header r0 = vs_header v"
    using o0 assms(4) unfolding open_with_def pinned_def by (metis Inl_Inr_False)
  have u: "usable ci (snd (environment (vs_disk v))) (vs_name v) r0"
    using record_in_Some r0 unfolding vault_record_def by blast
  then have vh: "valid_header ci (vs_header v)"
    using h0 h(2) by (auto simp: usable_def valid_record_def Let_def age_schema_def)
  have "usable ci (cw_len (vs_disk v1)) (vs_name v) r"
    using u h0 h(1) assms(9) seal_valid [OF assms(7,3) vh] by (simp add: usable_def)
  then have rec: "vault_record ci (v1\<lparr>vs_disk := d\<rparr>) = Some r"
    using assms(10,11) m by (auto simp: vault_record_def record_in_own environment_def)
  from h(2) o0 obtain x where x: "vs_identity v = Some x"
    unfolding open_with_def by (auto split: if_splits option.splits)
  with assms(2) have p: "parse_secret ci (vs_key v) = Inr (x, vs_auth v)" by (simp add: key_ok_def)
  have nm: "eh_name (vs_header v) = vs_name v" using u h0 by (simp add: usable_def)
  then have "open_encrypted ci r (vs_key v) = Inr c" using seal_opens [OF assms(7,3)] assms(8) by simp
  with p h have "open_age ci r x (vs_auth v) = Inr c" by (simp add: open_encrypted_def age_schema_def)
  then have "open_with ci (v1\<lparr>vs_disk := d\<rparr>) r = Inr c"
    using x m h parse_secret_Inr [OF p] by (simp add: open_with_def)
  moreover have "published d (profile_file (vs_name v)) = None" using pf assms(10) m by simp
  ultimately show ?thesis using rec m by (simp add: vault_view_def)
qed

lemma vault_save_cases:
  assumes "vault_save ci n x p c v = (r, v')"
    and "key_ok ci v" and "cipher_ok ci" and "pinned ci (vs_header v)" and "valid_profile_name (vs_name v)"
    and "\<And>s. encodes ci (vs_name v) (c\<lparr>cr_version := s\<rparr>)"
  obtains (fail) e where "r = Inl e" and "still_vault v v'"
    | (ok) old s f where "n = vs_name v" and "vault_view ci v = Some old" and "cr_version old = x"
      and "cr_connection old = cr_connection c" and "refresh_allowed p old c = None"
      and "vault_view ci v' = Some (c\<lparr>cr_version := s\<rparr>)"
      and "published (vs_disk v') = (published (vs_disk v))(vault_file n \<mapsto> f)"
      and "environment (vs_disk v') = environment (vs_disk v)"
      and "v' = v\<lparr>vs_disk := vs_disk v'\<rparr>" and "\<forall>y. r = Inr y \<longrightarrow> y = s"
proof (cases "n = vs_name v")
  case False
  with assms(1) have "r = Inl NotFound" "v' = v" by (auto simp: vault_save_def bindIO_def)
  then show ?thesis by (intro that(1)) auto
next
  case n: True
  let ?tail = "\<lambda>h s key. bindIO (on_disk (seal_now ci h key (c\<lparr>cr_version := s\<rparr>))) (\<lambda>rc.
        bindIO (on_disk (write_record rc)) (\<lambda>_. returnIO s))"
  from assms(1) n have "with_lock n (bindIO (load_unlocked ci) (\<lambda>old.
        bindIO (getIO vs_header) (\<lambda>h.
        bindIO (whenE (eh_schema h \<noteq> age_schema) MigrationRequired) (\<lambda>_.
        bindIO (whenE (cr_version old \<noteq> x \<or> cr_connection old \<noteq> cr_connection c) Conflict) (\<lambda>_.
        bindIO (liftE (case refresh_allowed p old c of Some e \<Rightarrow> Inl e | None \<Rightarrow> Inr ())) (\<lambda>_.
        bindIO (on_disk new_version) (\<lambda>s. bindIO (getIO vs_key) (\<lambda>key. ?tail h s key)))))))) v = (r, v')"
    by (simp add: vault_save_def bindIO_def)
  then show ?thesis
  proof (cases rule: with_lock_cases)
    case (fail e)
    then show ?thesis by (rule that(1))
  next
    case (step v1)
    note s1 = step(1)
    from step(3) still_load_unlocked s1 show ?thesis
    proof (cases rule: bind_keeps)
      case (fail e)
      then show ?thesis by (rule that(1))
    next
      case (step old v2)
      have vw: "vault_view ci v = Some old"
        using load_unlocked_view [OF step(1)] assms(5) still_vault_view [OF s1] still_memory [OF s1] by simp
      show ?thesis
      proof (cases "eh_schema (vs_header v2) \<noteq> age_schema \<or> cr_version old \<noteq> x \<or> cr_connection old \<noteq> cr_connection c \<or>
          refresh_allowed p old c \<noteq> None")
        case True
        with step(3) have "v' = v2 \<and> (\<exists>e. r = Inl e)" by (auto simp: bindIO_def whenE_def split: option.splits if_splits)
        with step(2) show ?thesis by (metis that(1))
      next
        case False
        with step(3) have "bindIO (on_disk new_version) (\<lambda>s. bindIO (getIO vs_key) (?tail (vs_header v2) s)) v2 = (r, v')"
          by (simp add: bindIO_def)
        from this still_on_disk [OF stable_sys(3)] step(2) show ?thesis
        proof (cases rule: bind_keeps)
          case (fail e)
          then show ?thesis by (rule that(1))
        next
          case (step s v3)
          have "vs_header v2 = vs_header v" "vs_key v3 = vs_key v" using \<open>still_vault v v2\<close> step(2) by (simp_all add: still_memory)
          with step(3) have "?tail (vs_header v) s (vs_key v) v3 = (r, v')" by (simp add: bindIO_def)
          from this still_on_disk [OF stable_seal_now] step(2) show ?thesis
          proof (cases rule: bind_keeps)
            case (fail e)
            then show ?thesis by (rule that(1))
          next
            case (step rc v4)
            from step(1) obtain rnd where sl: "seal ci rnd (vs_header v) (vs_key v) (c\<lparr>cr_version := s\<rparr>) = Inr rc"
              by (auto simp: on_disk_iff dest!: seal_now_Inr)
            obtain r0 where r0: "vault_record ci v = Some r0" "open_with ci v r0 = Inr old"
              using vw by (auto simp: vault_view_def split: if_splits option.splits sum.splits)
            have "er_header r0 = vs_header v"
              using r0(2) assms(4) unfolding open_with_def pinned_def by (metis Inl_Inr_False)
            moreover have "eh_name (er_header r0) = vs_name v"
              using record_in_Some r0(1) unfolding vault_record_def usable_def by blast
            ultimately have nm: "eh_name (er_header rc) = vs_name v" using seal_header [OF sl] by simp
            from step(3) obtain z d where w: "write_record rc (vs_disk v4) = (z, d)" and v': "v' = v4\<lparr>vs_disk := d\<rparr>"
              and z: "r = (case z of Inl e \<Rightarrow> Inl e | Inr _ \<Rightarrow> Inr s)"
              by (auto simp: bindIO_def on_disk_def split: prod.splits sum.splits)
            note m = still_memory [OF step(2)]
            from write_record_cases [OF w] nm assms(5) have env: "environment d = environment (vs_disk v4)"
              and pub: "published d = published (vs_disk v4) \<and> (\<exists>e. z = Inl e) \<or>
                cw_len (vs_disk v4) (RecordJSON rc) \<le> max_record \<and>
                published d = (published (vs_disk v4))(vault_file (vs_name v) \<mapsto> own_file (cw_euid (vs_disk v4)) (RecordJSON rc))"
              by simp_all
            have mem: "v' = v\<lparr>vs_disk := vs_disk v'\<rparr>"
              using step(2) v' unfolding still_vault_def by (metis vault.surjective vault.update_convs(6) vault.select_convs(6))
            from pub show ?thesis
            proof (elim disjE conjE exE)
              fix e assume "published d = published (vs_disk v4)" "z = Inl e"
              then have "still_vault v v'" using mem v' env m by (simp add: still_vault_def stable_def)
              then show ?thesis using z \<open>z = Inl e\<close> by (intro that(1)) auto
            next
              assume a: "cw_len (vs_disk v4) (RecordJSON rc) \<le> max_record"
                "published d = (published (vs_disk v4))(vault_file (vs_name v) \<mapsto> own_file (cw_euid (vs_disk v4)) (RecordJSON rc))"
              from resealed_view [OF step(2) assms(2-4) vw assms(5) sl assms(6) a env] False vw n a(2) env m mem z v'
              show ?thesis by (intro that(2)) (auto split: sum.splits)
            qed
          qed
        qed
      qed
    qed
  qed
qed

section \<open>A verified write\<close>

lemma persist_verified_cases:
  assumes "persist_verified ci h key c w = (x, w')" and "valid_profile_name (eh_name h)"
  obtains (fail) e where "x = Inl e" and "stable (published w) (environment w) w'"
    | (ok) r rnd where "seal ci rnd h key c = Inr r" and "environment w' = environment w"
      and "published w' = (published w)(vault_file (eh_name h) \<mapsto> own_file (cw_euid w) (RecordJSON r))"
      and "\<And>u. x = Inr u \<Longrightarrow> record_in ci (published w') (environment w') (eh_name h) = Some r \<and> open_encrypted ci r key = Inr c"
proof -
  let ?rest = "\<lambda>r. bindIO (write_record r) (\<lambda>_. bindIO (read_record ci (eh_name h)) (\<lambda>saved.
     bindIO (liftE (open_encrypted ci saved key)) (\<lambda>again. whenE (again \<noteq> c) Conflict)))"
  from assms(1) [unfolded persist_verified_def] stable_seal_now stable_refl [of w] show thesis
  proof (cases rule: bind_keeps)
    case (fail e)
    then show thesis by (rule that(1))
  next
    case (step r w1)
    note s1 = step(2)
    from step(1) obtain rnd where sl: "seal ci rnd h key c = Inr r" using seal_now_Inr by metis
    have nm: "eh_name (er_header r) = eh_name h" using seal_header [OF sl] by simp
    show thesis
    proof (cases "open_encrypted ci r key")
      case (Inl e)
      with step(3) have "x = Inl e" "w' = w1" by (simp_all add: bindIO_def)
      with s1 show thesis by (intro that(1)) simp_all
    next
      case (Inr c1)
      with step(3) have r: "?rest r w1 = (x, w')" by (simp add: bindIO_def)
      obtain y w2 where w2: "write_record r w1 = (y, w2)" by fastforce
      have u: "cw_euid w1 = cw_euid w" using s1 by (simp add: stable_def environment_def)
      from write_record_cases [OF w2] nm assms(2) s1 u have e2: "environment w2 = environment w"
        and p2: "published w2 = published w \<and> (\<exists>e. y = Inl e) \<or>
          published w2 = (published w)(vault_file (eh_name h) \<mapsto> own_file (cw_euid w) (RecordJSON r))"
        by (auto simp: stable_def)
      show thesis
      proof (cases y)
        case (Inl e)
        with r w2 have xw: "x = Inl e" "w' = w2" by (simp_all add: bindIO_def)
        from p2 show thesis
        proof (elim disjE conjE exE)
          fix e' assume "published w2 = published w"
          with xw e2 show thesis by (intro that(1)) (simp_all add: stable_def)
        next
          assume "published w2 = (published w)(vault_file (eh_name h) \<mapsto> own_file (cw_euid w) (RecordJSON r))"
          with xw e2 sl show thesis by (intro that(2)) simp_all
        qed
      next
        case y: (Inr _)
        with p2 have p: "published w2 = (published w)(vault_file (eh_name h) \<mapsto> own_file (cw_euid w) (RecordJSON r))" by simp
        from r w2 y have t: "bindIO (read_record ci (eh_name h)) (\<lambda>saved.
            bindIO (liftE (open_encrypted ci saved key)) (\<lambda>again. whenE (again \<noteq> c) Conflict)) w2 = (x, w')"
          by (simp add: bindIO_def)
        have "keeps (stable (published w2) (environment w2)) (bindIO (read_record ci (eh_name h)) (\<lambda>saved.
            bindIO (liftE (open_encrypted ci saved key)) (\<lambda>again. whenE (again \<noteq> c) Conflict)))"
          by (auto intro!: keeps_bind)
        from keepsD [OF this, of w2] t have st: "stable (published w2) (environment w2) w'" by (simp add: stable_def)
        have fin: "record_in ci (published w') (environment w') (eh_name h) = Some r \<and> open_encrypted ci r key = Inr c"
          if "x = Inr u1" for u1
        proof -
          from t that obtain saved w3 where rd: "read_record ci (eh_name h) w2 = (Inr saved, w3)"
            and op: "open_encrypted ci saved key = Inr c" by (auto simp: io_iffs)
          have rc: "record_in ci (published w2) (environment w2) (eh_name h) = Some saved"
            by (rule read_record_published [OF rd assms(2)])
          then have "saved = r" using p record_in_Some [OF rc] by (auto simp: own_file_def)
          with rc op st show ?thesis by (simp add: stable_def)
        qed
        show thesis using st p e2 sl fin by (intro that(2)) (auto simp: stable_def)
      qed
    qed
  qed
qed

lemma protect_key_Inr:
  assumes "protect_key ci name pass key w = (Inr h, w')"
  shows "\<exists>x auth rnd wrapped kid. parse_secret ci key = Inr (x, auth) \<and> 12 \<le> length pass \<and> length pass \<le> 4096 \<and>
    ci_wrap ci rnd pass key = Some wrapped \<and>
    h = zero_header\<lparr>eh_schema := age_schema, eh_name := name, eh_key_id := kid, eh_backend := passphrase_backend,
       eh_recipient := ci_recipient ci x, eh_wrapped_key := wrapped\<rparr>"
  using assms by (auto simp: protect_key_def io_iffs not_less split: option.splits) blast

lemma protected_by_passphrase:
  assumes "protect_key ci name pass key w = (Inr h, w')" and "er_header r = h" and "open_encrypted ci r key = Inr c"
    and "cipher_ok ci"
  shows "passphrase_record_key ci r pass = Inr key"
proof -
  from protect_key_Inr [OF assms(1)] obtain x auth rnd wrapped kid where p: "parse_secret ci key = Inr (x, auth)"
    "12 \<le> length pass" "length pass \<le> 4096" "ci_wrap ci rnd pass key = Some wrapped"
    and h: "h = zero_header\<lparr>eh_schema := age_schema, eh_name := name, eh_key_id := kid, eh_backend := passphrase_backend,
       eh_recipient := ci_recipient ci x, eh_wrapped_key := wrapped\<rparr>" by blast
  have "ci_unwrap ci pass wrapped = Some key" using assms(4) p(4) unfolding cipher_ok_def by blast
  with p h assms(2,3) parse_secret_Inr [OF p(1)] show ?thesis
    by (auto simp: passphrase_record_key_def limited_def age_schema_def)
qed

lemma stable_new_secret [simp, intro]: "keeps (stable V E) (new_secret ci)"
  unfolding new_secret_def by (intro keeps_bind) auto

lemma stable_protect_key [simp, intro]: "keeps (stable V E) (protect_key ci name pass key)"
  unfolding protect_key_def by (auto intro!: keeps_bind split: prod.split)

lemma stable_new_passphrase_header [simp, intro]: "keeps (stable V E) (new_passphrase_header ci name pass)"
  unfolding new_passphrase_header_def by (auto intro!: keeps_bind split: prod.split)

lemma stable_new_connection [simp, intro]: "keeps (stable V E) (new_connection c)"
  unfolding new_connection_def by (auto intro!: keeps_bind simp: Let_def)

lemma new_passphrase_header_Inr:
  assumes "new_passphrase_header ci name pass w = (Inr (h, key), w')"
  shows "\<exists>w1. protect_key ci name pass key w1 = (Inr h, w') \<and> eh_name h = name"
proof -
  from assms obtain w1 where p: "protect_key ci name pass key w1 = (Inr h, w')"
    by (auto simp: new_passphrase_header_def io_iffs)
  with protect_key_Inr [OF p] show ?thesis by auto
qed

lemma new_connection_Inr: "new_connection c w = (Inr c', w') \<Longrightarrow> same_content c c'"
  by (auto simp: new_connection_def io_iffs Let_def same_content_def split: option.splits)

section \<open>Encrypting a plaintext profile\<close>

text \<open>A record the passphrase opens to the same content.\<close>

definition sealed_copy :: "cipher \<Rightarrow> string \<Rightarrow> string \<Rightarrow> credentials \<Rightarrow> cworld \<Rightarrow> encrypted_header \<Rightarrow> string \<Rightarrow> bool" where
  "sealed_copy ci name pass c0 w h key \<longleftrightarrow> (\<exists>x c. record_in ci (published w) (environment w) name = Some x \<and>
     passphrase_record_key ci x pass = Inr key \<and> er_header x = h \<and> eh_schema h = age_schema \<and>
     open_encrypted ci x key = Inr c \<and> same_content c0 c)"

definition keeps_plain :: "string \<Rightarrow> cworld \<Rightarrow> cworld \<Rightarrow> bool" where
  "keeps_plain name w w' \<longleftrightarrow> published w' (profile_file name) = published w (profile_file name) \<and> environment w' = environment w"

lemma stable_keeps_plain: "stable (published w) (environment w) w' \<Longrightarrow> keeps_plain name w w'"
  by (simp add: stable_def keeps_plain_def)

lemma encrypt_afresh_cases:
  assumes "encrypt_afresh ci name pass c0 w = (r, w')" and "valid_profile_name name" and "cipher_ok ci"
  shows "keeps_plain name w w' \<and> (\<forall>h key. r = Inr (h, key) \<longrightarrow> sealed_copy ci name pass c0 w' h key)"
proof -
  define V E where "V = published w" and "E = environment w"
  have s: "stable V E w" by (simp add: V_def E_def stable_refl)
  have quit: ?thesis if "r = Inl e" "stable V E w'" for e
    using that stable_keeps_plain by (simp add: V_def E_def)
  from assms(1) [unfolded encrypt_afresh_def] stable_new_passphrase_header s show ?thesis
  proof (cases rule: bind_keeps)
    case (fail e)
    then show ?thesis by (rule quit)
  next
    case (step hk w1)
    obtain h key where hk: "hk = (h, key)" by fastforce
    from step(1) hk obtain w0 where pk: "protect_key ci name pass key w0 = (Inr h, w1)" and nm: "eh_name h = name"
      using new_passphrase_header_Inr by metis
    from step(3) hk have "bindIO (new_connection c0) (\<lambda>c. bindIO (persist_verified ci h key c) (\<lambda>_. returnIO (h, key))) w1 = (r, w')"
      by simp
    from this stable_new_connection step(2) show ?thesis
    proof (cases rule: bind_keeps)
      case (fail e)
      then show ?thesis by (rule quit)
    next
      case (step c w2)
      have sc: "same_content c0 c" using new_connection_Inr [OF step(1)] .
      obtain x w3 where p: "persist_verified ci h key c w2 = (x, w3)" by fastforce
      with step(3) have w': "w' = w3" and r: "r = (case x of Inl e \<Rightarrow> Inl e | Inr _ \<Rightarrow> Inr (h, key))"
        by (auto simp: bindIO_def split: sum.splits)
      have "valid_profile_name (eh_name h)" using nm assms(2) by simp
      from p this show ?thesis
      proof (cases rule: persist_verified_cases)
        case (fail e)
        then show ?thesis using step(2) r w' by (intro quit) (simp_all add: stable_def)
      next
        case (ok rc rnd)
        have "keeps_plain name w w'" using ok(2,3) step(2) w' nm by (simp add: keeps_plain_def stable_def V_def E_def)
        moreover have "sealed_copy ci name pass c0 w' h key" if "x = Inr u" for u
          unfolding sealed_copy_def
          using ok(4) [OF that] seal_header [OF ok(1)] sc w' nm protected_by_passphrase [OF pk _ _ assms(3)] by metis
        ultimately show ?thesis using r by (auto split: sum.splits)
      qed
    qed
  qed
qed

lemma resume_encryption_Inr:
  assumes "resume_encryption ci pass c0 x = Inr (Some (h, key))"
  shows "passphrase_record_key ci x pass = Inr key \<and> er_header x = h \<and> eh_schema h = age_schema \<and>
    (\<exists>c. open_encrypted ci x key = Inr c \<and> same_content c0 c)"
  using assms by (auto simp: resume_encryption_def result_simps failE_def split: if_splits)

lemma encrypt_start_cases:
  assumes "encrypt_start ci name pass w = (r, w')" and "valid_profile_name name" and "cipher_ok ci"
    and "stored w name = Some c0"
  shows "keeps_plain name w w' \<and> (\<forall>h key. r = Inr (h, key) \<longrightarrow> sealed_copy ci name pass c0 w' h key)"
proof -
  define V E where "V = published w" and "E = environment w"
  have s: "stable V E w" by (simp add: V_def E_def stable_refl)
  have quit: ?thesis if "r = Inl e" "stable V E w'" for e
    using that stable_keeps_plain by (simp add: V_def E_def)
  from assms(1) [unfolded encrypt_start_def] stable_read_profile s show ?thesis
  proof (cases rule: bind_keeps)
    case (fail e)
    then show ?thesis by (rule quit)
  next
    case (step plain w1)
    have pl: "plain = c0" using read_profile_Inr [OF step(1) assms(2)] assms(4) by simp
    have afresh: ?thesis if "encrypt_afresh ci name pass c0 w2 = (r, w')" "stable V E w2" for w2
      using encrypt_afresh_cases [OF that(1) assms(2,3)] that(2) by (simp add: keeps_plain_def stable_def V_def E_def)
    from step(3) keeps_catch [OF stable_read_record] step(2) show ?thesis
    proof (cases rule: bind_keeps)
      case (fail e)
      then show ?thesis by (rule quit)
    next
      case (step res w2)
      show ?thesis
      proof (cases res)
        case (Inl e)
        with step pl show ?thesis using afresh [of w2] quit [of e] by (cases "e = NotFound") auto
      next
        case (Inr x)
        with step(1) have rd: "read_record ci name w1 = (Inr x, w2)" by (simp add: catchIO_iff)
        show ?thesis
        proof (cases "resume_encryption ci pass c0 x")
          case (Inl e)
          with step Inr pl show ?thesis by (intro quit [of e]) (simp_all add: bindIO_def)
        next
          case q: (Inr old)
          show ?thesis
          proof (cases old)
            case None
            with step Inr q pl show ?thesis by (intro afresh [of w2]) (simp_all add: bindIO_def)
          next
            case (Some hk)
            with step Inr q pl have r: "r = Inr hk" "w' = w2" by (simp_all add: bindIO_def)
            have "record_in ci (published w1) (environment w1) name = Some x"
              by (rule read_record_published [OF rd assms(2)])
            then have "record_in ci (published w2) (environment w2) name = Some x"
              using step(2) \<open>stable V E w1\<close> by (simp add: stable_def)
            moreover obtain h key where "hk = (h, key)" by fastforce
            ultimately show ?thesis
              using resume_encryption_Inr [of ci pass c0 x h key] q Some r step(2)
              by (auto simp: sealed_copy_def keeps_plain_def stable_def V_def E_def)
          qed
        qed
      qed
    qed
  qed
qed

lemma unlink_file_cases:
  assumes "unlink_file n w = (r, w')" and "\<not> prefix ''.'' n"
  shows "environment w' = environment w \<and> (published w' = published w \<and> (\<exists>e. r = Inl e) \<or> published w' = (published w)(n := None))"
  using assms
  by (auto simp: unlink_file_def bindIO_def sys_def published_def file_at_drop fun_eq_iff split: list.splits option.splits if_splits)

lemma sealed_copy_still:
  assumes "sealed_copy ci name pass c0 w h key" and "environment w' = environment w"
    and "published w' (vault_file name) = published w (vault_file name)"
  shows "sealed_copy ci name pass c0 w' h key"
  using assms by (simp add: sealed_copy_def record_in_def)

lemma sealed_copy_view:
  assumes "sealed_copy ci (vs_name v) pass c0 (vs_disk v) h key" and "published (vs_disk v) (profile_file (vs_name v)) = None"
  shows "\<exists>c. vault_view ci (set_key ci key h v) = Some c \<and> same_content c0 c"
proof -
  have m: "vs_disk (set_key ci key h v) = vs_disk v" "vs_name (set_key ci key h v) = vs_name v"
    by (simp_all add: set_key_def split: sum.split)
  from assms(1) obtain x c where x: "vault_record ci v = Some x" "er_header x = h" "eh_schema h = age_schema"
    "open_encrypted ci x key = Inr c" "same_content c0 c" unfolding sealed_copy_def vault_record_def by blast
  from open_with_set_key [OF x(4)] x m assms(2) show ?thesis by (simp add: vault_view_def vault_record_def)
qed

lemma encrypt_finish:
  assumes "bindIO (on_disk ctx_check) (\<lambda>_. bindIO (on_disk (unlink_file (profile_file (vs_name v)))) (\<lambda>_.
      bindIO (on_disk sys) (\<lambda>_. updIO (set_key ci key h)))) v = (r, v')"
    and "sealed_copy ci (vs_name v) pass c0 (vs_disk v) h key" and "valid_profile_name (vs_name v)"
  shows "sealed_copy ci (vs_name v) pass c0 (vs_disk v') h key \<and> (\<forall>u. r = Inr u \<longrightarrow>
    published (vs_disk v') (profile_file (vs_name v)) = None \<and> (\<exists>c. vault_view ci v' = Some c \<and> same_content c0 c))"
proof -
  have nh: "\<not> prefix ''.'' (profile_file (vs_name v))" using valid_name_not_hidden [OF assms(3)] by (simp add: profile_file_def)
  have quit: ?thesis if "r = Inl e" "still_vault v v'" for e
    using that still_memory [OF that(2)] by (simp add: sealed_copy_still [OF assms(2)])
  from assms(1) still_on_disk [OF stable_sys(2)] still_refl [of v] show ?thesis
  proof (cases rule: bind_keeps)
    case (fail e)
    then show ?thesis by (rule quit)
  next
    case (step _ v1)
    note m1 = still_memory [OF step(2)]
    obtain x d where ux: "unlink_file (profile_file (vs_name v)) (vs_disk v1) = (x, d)" by fastforce
    from unlink_file_cases [OF this nh] have env: "environment d = environment (vs_disk v1)"
      and pub: "published d = published (vs_disk v1) \<and> (\<exists>e. x = Inl e) \<or>
        published d = (published (vs_disk v1))(profile_file (vs_name v) := None)" by simp_all
    have cp: "sealed_copy ci (vs_name v) pass c0 d h key"
      using sealed_copy_still [OF assms(2)] env pub m1 by auto
    show ?thesis
    proof (cases x)
      case (Inl e)
      with step(3) ux have "r = Inl e" "v' = v1\<lparr>vs_disk := d\<rparr>" by (simp_all add: bindIO_def on_disk_def)
      with cp show ?thesis by simp
    next
      case (Inr u)
      obtain y d2 where y: "sys d = (y, d2)" by fastforce
      have st: "published d2 = published d" "environment d2 = environment d"
        using keepsD [OF stable_sys(1) stable_refl, of d] y by (simp_all add: stable_def)
      have cp2: "sealed_copy ci (vs_name v) pass c0 d2 h key" using sealed_copy_still [OF cp] st by simp
      have gone: "published d2 (profile_file (vs_name v)) = None" using pub Inr st by auto
      show ?thesis
      proof (cases y)
        case e: (Inl e)
        with step(3) ux Inr y have "r = Inl e" "v' = v1\<lparr>vs_disk := d2\<rparr>" by (simp_all add: bindIO_def on_disk_def)
        with cp2 show ?thesis by simp
      next
        case i: (Inr u2)
        with step(3) ux Inr y have v': "v' = set_key ci key h (v1\<lparr>vs_disk := d2\<rparr>)" by (simp add: bindIO_def on_disk_def)
        have "vs_disk v' = d2" using v' by (simp add: set_key_def split: sum.split)
        with cp2 gone v' sealed_copy_view [of ci "v1\<lparr>vs_disk := d2\<rparr>"] m1 show ?thesis by simp
      qed
    qed
  qed
qed

lemma encrypt_plaintext_cases:
  assumes "encrypt_plaintext ci pass v = (r, v')" and "cipher_ok ci" and "valid_profile_name (vs_name v)"
    and "stored (vs_disk v) (vs_name v) = Some c0"
  shows "(published (vs_disk v') (profile_file (vs_name v)) = published (vs_disk v) (profile_file (vs_name v)) \<or>
      (\<exists>h key. sealed_copy ci (vs_name v) pass c0 (vs_disk v') h key)) \<and>
    (\<forall>u. r = Inr u \<longrightarrow> published (vs_disk v') (profile_file (vs_name v)) = None \<and>
      (\<exists>c. vault_view ci v' = Some c \<and> same_content c0 c))"
proof -
  let ?rest = "\<lambda>(h, key). bindIO (on_disk ctx_check) (\<lambda>_. bindIO (on_disk (unlink_file (profile_file (vs_name v)))) (\<lambda>_.
      bindIO (on_disk sys) (\<lambda>_. updIO (set_key ci key h))))"
  have "with_lock (vs_name v) (bindIO (on_disk (encrypt_start ci (vs_name v) pass)) ?rest) v = (r, v')"
    using assms(1) by (simp add: encrypt_plaintext_def bindIO_def)
  then show ?thesis
  proof (cases rule: with_lock_cases)
    case (fail e)
    then show ?thesis using still_memory(6) [of v v'] by simp
  next
    case (step v1)
    note m = still_memory [OF step(1)]
    obtain x d where e: "encrypt_start ci (vs_name v) pass (vs_disk v1) = (x, d)" by fastforce
    have "stored (vs_disk v1) (vs_name v) = Some c0" using assms(4) m by (simp add: stored_def)
    from encrypt_start_cases [OF e assms(3,2) this] have
      c: "published d (profile_file (vs_name v)) = published (vs_disk v) (profile_file (vs_name v))"
        "\<And>h key. x = Inr (h, key) \<Longrightarrow> sealed_copy ci (vs_name v) pass c0 d h key"
      using m by (simp_all add: keeps_plain_def)
    show ?thesis
    proof (cases x)
      case (Inl y)
      with step(3) e have "r = Inl y" "v' = v1\<lparr>vs_disk := d\<rparr>" by (simp_all add: bindIO_def on_disk_def)
      with c(1) show ?thesis by simp
    next
      case (Inr hk)
      obtain h key where hk: "hk = (h, key)" by fastforce
      let ?v2 = "v1\<lparr>vs_disk := d\<rparr>"
      from step(3) e Inr hk have "bindIO (on_disk ctx_check) (\<lambda>_. bindIO (on_disk (unlink_file (profile_file (vs_name ?v2)))) (\<lambda>_.
          bindIO (on_disk sys) (\<lambda>_. updIO (set_key ci key h)))) ?v2 = (r, v')"
        using m by (simp add: bindIO_def on_disk_def)
      from encrypt_finish [OF this, of pass c0] c(2) Inr hk m assms(3) show ?thesis by auto
    qed
  qed
qed

section \<open>Migrating a legacy record\<close>

text \<open>Steps that may use the keyring keep the published files.\<close>

definition held :: "vault \<Rightarrow> vault \<Rightarrow> bool" where
  "held v0 v \<longleftrightarrow> stable (published (vs_disk v0)) (environment (vs_disk v0)) (vs_disk v) \<and> vs_name v = vs_name v0"

lemma held_refl [simp]: "held v v"
  by (simp add: held_def stable_def)

lemma held_still: "still_vault v0 v \<Longrightarrow> held v0 v"
  unfolding held_def stable_def using still_memory by blast

lemma held_on_disk [intro]:
  assumes "\<And>V E. keeps (stable V E) m"
  shows "keeps (held v0) (on_disk m)"
proof (rule keepsI)
  fix v assume v: "held v0 v"
  obtain r d where m: "m (vs_disk v) = (r, d)" by fastforce
  with keepsD [OF assms, of _ _ "vs_disk v"] v
  have "stable (published (vs_disk v0)) (environment (vs_disk v0)) d" by (simp add: held_def)
  then show "held v0 (snd (on_disk m v))" using m v by (simp add: on_disk_def held_def)
qed

lemma held_ring_put [simp, intro]: "keeps (held v0) (ring_put kid key)"
  unfolding ring_put_def by (intro keeps_bind keeps_catch keeps_upd held_on_disk) (auto simp: held_def)

lemma held_ring_get [simp, intro]: "keeps (held v0) (ring_get kid)"
  unfolding ring_get_def by (auto intro!: keeps_bind keeps_catch held_on_disk split: option.split)

lemma held_new_keyring_header [simp, intro]: "keeps (held v0) (new_keyring_header ci name ring)"
  unfolding new_keyring_header_def by (auto intro!: keeps_bind keeps_catch held_on_disk split: prod.split)

lemma held_keyring_record_key [simp, intro]: "keeps (held v0) (keyring_record_key ci r ring)"
  unfolding keyring_record_key_def by (intro keeps_bind keeps_if held_ring_get keeps_unit)

lemma held_migration_key [simp, intro]: "keeps (held v0) (migration_key ci pass ring r)"
  unfolding migration_key_def by (intro keeps_if held_keyring_record_key keeps_unit)

lemma held_migration_header [simp, intro]: "keeps (held v0) (migration_header ci name pass ring r)"
  unfolding migration_header_def by (intro keeps_if held_new_keyring_header held_on_disk stable_new_passphrase_header)

lemma new_keyring_header_Inr: "new_keyring_header ci name ring v = (Inr (h, key), v') \<Longrightarrow> eh_name h = name"
  by (auto simp: new_keyring_header_def io_iffs)

lemma migration_header_Inr: "migration_header ci name pass ring r v = (Inr (h, key), v') \<Longrightarrow> eh_name h = name"
  using new_keyring_header_Inr new_passphrase_header_Inr
  by (fastforce simp: migration_header_def on_disk_iff split: if_splits)

lemma backup_legacy_cases:
  assumes "backup_legacy name r0 w = (x, w')" and "valid_profile_name name"
  shows "environment w' = environment w \<and> published w' (vault_file name) = published w (vault_file name) \<and>
    published w' (profile_file name) = published w (profile_file name) \<and>
    (\<forall>u. x = Inr u \<longrightarrow> (\<exists>e. published w' (backup_file name) = Some e \<and> fe_content e = RecordJSON r0))"
proof -
  define V E where "V = published w" and "E = environment w"
  have s: "stable V E w" by (simp add: V_def E_def stable_refl)
  have nh: "\<not> prefix ''.'' (backup_file name)" using valid_name_not_hidden [OF assms(2)] by (simp add: backup_file_def)
  have k: "keeps (stable V E) (open_file ReadOnly (backup_file name))" by (rule stable_open_file) simp
  obtain q w1 where o: "open_file ReadOnly (backup_file name) w = (q, w1)" by fastforce
  have s1: "stable V E w1" using keepsD [OF k s] o by simp
  have ne: "profile_file name \<noteq> backup_file name" by (simp add: profile_file_def backup_file_def)
  show ?thesis
  proof (cases q)
    case (Inr c)
    let ?cmp = "bindIO (catchIO sys) (\<lambda>s. bindIO (getIO cw_len) (\<lambda>len.
       whenE (s \<noteq> Inr () \<or> max_record < len c \<or> c \<noteq> RecordJSON r0) BackupDiffers))"
    from assms(1) o Inr have t: "?cmp w1 = (x, w')" by (simp add: backup_legacy_def bindIO_def catchIO_def)
    have "keeps (stable V E) ?cmp" by (intro keeps_bind keeps_catch) auto
    from keepsD [OF this s1] t have s2: "stable V E w'" by simp
    from open_read_Inr o Inr obtain e where e: "file_at w (backup_file name) = Some e" "fe_content e = c" by blast
    then have "V (backup_file name) = Some e" using nh by (simp add: V_def published_def)
    moreover have "c = RecordJSON r0" if "x = Inr u" for u using t that by (auto simp: io_iffs)
    ultimately show ?thesis using s2 e by (auto simp: stable_def V_def E_def)
  next
    case (Inl e)
    show ?thesis
    proof (cases "e = ENoEnt")
      case False
      with assms(1) o Inl s1 show ?thesis by (auto simp: backup_legacy_def bindIO_def catchIO_def stable_def V_def E_def)
    next
      case True
      with assms(1) o Inl have "write_profile_data (backup_file name) (RecordJSON r0) w1 = (x, w')"
        by (simp add: backup_legacy_def bindIO_def catchIO_def)
      from write_profile_data_cases [OF this nh] s1 ne show ?thesis by (auto simp: stable_def V_def E_def own_file_def)
    qed
  qed
qed

text \<open>Once the new ciphertext has been checked: the backup, the write, the key.\<close>

lemma backed_up:
  assumes "bindIO (on_disk (backup_legacy (vs_name v) r0)) (\<lambda>_.
      bindIO (on_disk (persist_verified ci h key c)) (\<lambda>_. updIO (set_key ci key h))) v5 = (r, v')"
    and "held v v5" and "eh_name h = vs_name v" and "same_content c0 c" and "open_encrypted ci r0 k = Inr c0"
    and "valid_profile_name (vs_name v)" and "published (vs_disk v) (profile_file (vs_name v)) = None"
  shows "(published (vs_disk v') (vault_file (vs_name v)) = published (vs_disk v) (vault_file (vs_name v)) \<or>
      (\<exists>e. published (vs_disk v') (backup_file (vs_name v)) = Some e \<and> fe_content e = RecordJSON r0)) \<and>
    (\<forall>u. r = Inr u \<longrightarrow> (\<exists>c0 c. open_encrypted ci r0 k = Inr c0 \<and> vault_view ci v' = Some c \<and> same_content c0 c))"
proof -
  obtain x d where b: "backup_legacy (vs_name v) r0 (vs_disk v5) = (x, d)" by fastforce
  from backup_legacy_cases [OF b assms(6)] assms(2,7)
  have b1: "environment d = environment (vs_disk v)" "published d (vault_file (vs_name v)) = published (vs_disk v) (vault_file (vs_name v))"
    "published d (profile_file (vs_name v)) = None"
    and b2: "\<And>u. x = Inr u \<Longrightarrow> \<exists>e. published d (backup_file (vs_name v)) = Some e \<and> fe_content e = RecordJSON r0"
    by (simp_all add: held_def stable_def)
  show ?thesis
  proof (cases x)
    case (Inl e)
    with assms(1) b have "r = Inl e" "v' = v5\<lparr>vs_disk := d\<rparr>" by (simp_all add: bindIO_def on_disk_def)
    with b1 show ?thesis by simp
  next
    case (Inr u)
    obtain e where bk: "published d (backup_file (vs_name v)) = Some e" "fe_content e = RecordJSON r0" using b2 Inr by blast
    obtain y d2 where y: "persist_verified ci h key c d = (y, d2)" by fastforce
    have vn: "valid_profile_name (eh_name h)" using assms(3,6) by simp
    have v': "vs_disk v' = d2 \<and> (case y of Inl e \<Rightarrow> r = Inl e | Inr _ \<Rightarrow> v' = set_key ci key h (v5\<lparr>vs_disk := d2\<rparr>))"
      using assms(1) b Inr y by (cases y) (auto simp: bindIO_def on_disk_def set_key_def split: sum.split)
    have nm: "vs_name v5 = vs_name v" using assms(2) by (simp add: held_def)
    from y vn show ?thesis
    proof (cases rule: persist_verified_cases)
      case (fail e')
      then show ?thesis using v' b1 by (simp add: stable_def)
    next
      case (ok rc rnd)
      have left: "published d2 (backup_file (vs_name v)) = Some e" using ok(3) bk assms(3) by simp
      have pf: "published d2 (profile_file (vs_name v)) = None" using ok(3) b1(3) assms(3) by simp
      have "\<exists>c0 c. open_encrypted ci r0 k = Inr c0 \<and> vault_view ci v' = Some c \<and> same_content c0 c" if ru: "r = Inr u1" for u1
      proof -
        obtain u2 where "y = Inr u2" using v' ru by (cases y) simp_all
        with v' ok(4) have r: "record_in ci (published d2) (environment d2) (vs_name v) = Some rc" "open_encrypted ci rc key = Inr c"
          "v' = set_key ci key h (v5\<lparr>vs_disk := d2\<rparr>)" using assms(3) by simp_all
        have "vs_name v' = vs_name v" using r(3) nm by (simp add: set_key_def split: sum.split)
        with r v' pf open_with_set_key [OF r(2)] seal_header [OF ok(1)] have "vault_view ci v' = Some c"
          by (auto simp: vault_view_def vault_record_def)
        with assms(4,5) show ?thesis by blast
      qed
      then show ?thesis using v' left bk(2) by blast
    qed
  qed
qed

lemma migrate_legacy_cases:
  assumes "migrate_legacy ci (vs_name v) pass ring r0 k v = (r, v')" and "valid_profile_name (vs_name v)"
    and "published (vs_disk v) (profile_file (vs_name v)) = None"
  shows "(published (vs_disk v') (vault_file (vs_name v)) = published (vs_disk v) (vault_file (vs_name v)) \<or>
      (\<exists>e. published (vs_disk v') (backup_file (vs_name v)) = Some e \<and> fe_content e = RecordJSON r0)) \<and>
    (\<forall>u. r = Inr u \<longrightarrow> (\<exists>c0 c. open_encrypted ci r0 k = Inr c0 \<and> vault_view ci v' = Some c \<and> same_content c0 c))"
proof -
  have quit: ?thesis if "r = Inl e" "held v v'" for e using that by (simp add: held_def stable_def)
  from assms(1) [unfolded migrate_legacy_def] keeps_unit(3) [where P = "held v"] held_refl [of v] show ?thesis
  proof (cases rule: bind_keeps)
    case (fail e)
    then show ?thesis by (rule quit)
  next
    case (step c0 v1)
    from step(1) have c0: "open_encrypted ci r0 k = Inr c0" and v1: "v1 = v" by simp_all
    from step(3) held_on_disk [OF stable_new_connection] step(2) show ?thesis
    proof (cases rule: bind_keeps)
      case (fail e)
      then show ?thesis by (rule quit)
    next
      case (step c v2)
      have sc: "same_content c0 c" using step(1) new_connection_Inr by (auto simp: on_disk_iff)
      from step(3) held_migration_header step(2) show ?thesis
      proof (cases rule: bind_keeps)
        case (fail e)
        then show ?thesis by (rule quit)
      next
        case (step hk v3)
        obtain h key where hk: "hk = (h, key)" by fastforce
        have nm: "eh_name h = vs_name v" using step(1) hk migration_header_Inr by simp
        let ?c = "bindIO (on_disk (backup_legacy (vs_name v) r0)) (\<lambda>_.
            bindIO (on_disk (persist_verified ci h key c)) (\<lambda>_. updIO (set_key ci key h)))"
        from step(3) hk have "bindIO (on_disk (seal_now ci h key c)) (\<lambda>prepared.
            bindIO (liftE (open_encrypted ci prepared key)) (\<lambda>_. ?c)) v3 = (r, v')" by simp
        from this held_on_disk [OF stable_seal_now] step(2) show ?thesis
        proof (cases rule: bind_keeps)
          case (fail e)
          then show ?thesis by (rule quit)
        next
          case (step pr v4)
          from step(3) keeps_unit(3) [where P = "held v"] step(2) show ?thesis
          proof (cases rule: bind_keeps)
            case (fail e)
            then show ?thesis by (rule quit)
          next
            case (step _ v5)
            from backed_up [OF step(3,2) nm sc c0 assms(2,3)] show ?thesis .
          qed
        qed
      qed
    qed
  qed
qed

lemma migrate_to_age_cases:
  assumes "migrate_to_age ci pass ring v = (r, v')" and "valid_profile_name (vs_name v)"
    and "vault_record ci v = Some r0" and "eh_schema (er_header r0) = 1"
  shows "(published (vs_disk v') (vault_file (vs_name v)) = published (vs_disk v) (vault_file (vs_name v)) \<or>
      (\<exists>e. published (vs_disk v') (backup_file (vs_name v)) = Some e \<and> fe_content e = RecordJSON r0)) \<and>
    (\<forall>u. r = Inr u \<longrightarrow> (\<exists>k c0 c. open_encrypted ci r0 k = Inr c0 \<and> vault_view ci v' = Some c \<and> same_content c0 c))"
proof -
  have quit: ?thesis if "r = Inl e" "held v v'" for e using that by (simp add: held_def stable_def)
  let ?go = "\<lambda>x. bindIO (migration_key ci pass ring x) (\<lambda>k.
      if eh_schema (er_header x) = age_schema then updIO (set_key ci k (er_header x))
      else migrate_legacy ci (vs_name v) pass ring x k)"
  have "with_lock (vs_name v) (bindIO (on_disk (file_present (profile_file (vs_name v)))) (\<lambda>plain.
      bindIO (whenE plain MigrationPending) (\<lambda>_. bindIO (on_disk (read_record ci (vs_name v))) ?go))) v = (r, v')"
    using assms(1) by (simp add: migrate_to_age_def bindIO_def)
  then show ?thesis
  proof (cases rule: with_lock_cases)
    case (fail e)
    then show ?thesis using held_still by (intro quit)
  next
    case (step v1)
    have h1: "held v v1" using held_still [OF step(1)] .
    from step(3) held_on_disk [OF stable_file_present] h1 show ?thesis
    proof (cases rule: bind_keeps)
      case (fail e)
      then show ?thesis by (rule quit)
    next
      case (step plain v2)
      show ?thesis
      proof (cases plain)
        case True
        with step show ?thesis by (intro quit [of MigrationPending]) (simp_all add: bindIO_def)
      next
        case False
        have pf: "published (vs_disk v) (profile_file (vs_name v)) = None"
          using step(1) False h1 by (auto simp: on_disk_iff held_def stable_def dest!: absent_published)
        from step(3) False have "bindIO (on_disk (read_record ci (vs_name v))) ?go v2 = (r, v')" by (simp add: bindIO_def)
        from this held_on_disk [OF stable_read_record] step(2) show ?thesis
        proof (cases rule: bind_keeps)
          case (fail e)
          then show ?thesis by (rule quit)
        next
          case (step x v3)
          obtain d where "read_record ci (vs_name v) (vs_disk v2) = (Inr x, d)" using step(1) by (auto simp: on_disk_iff)
          from read_record_published [OF this assms(2)] have x: "x = r0"
            using assms(3) \<open>held v v2\<close> by (simp add: vault_record_def held_def stable_def)
          from step(3) held_migration_key step(2) show ?thesis
          proof (cases rule: bind_keeps)
            case (fail e)
            then show ?thesis by (rule quit)
          next
            case (step k v4)
            from step(3) x assms(4) have "migrate_legacy ci (vs_name v) pass ring r0 k v4 = (r, v')"
              by (simp add: age_schema_def)
            moreover have e: "vs_name v4 = vs_name v" "published (vs_disk v4) = published (vs_disk v)"
              using step(2) by (simp_all add: held_def stable_def)
            ultimately show ?thesis using migrate_legacy_cases [of ci v4 pass ring r0 k r v'] assms(2) pf by auto
          qed
        qed
      qed
    qed
  qed
qed

section \<open>Changing the passphrase\<close>

definition rewrapped :: "cipher \<Rightarrow> string \<Rightarrow> string \<Rightarrow> credentials \<Rightarrow> string \<Rightarrow> cworld \<Rightarrow> bool" where
  "rewrapped ci name pass c key w \<longleftrightarrow> (\<exists>e x. published w (vault_file name) = Some e \<and> fe_content e = RecordJSON x \<and>
     open_encrypted ci x key = Inr c \<and> passphrase_record_key ci x pass = Inr key)"

lemma change_finish:
  assumes "bindIO (on_disk (persist_verified ci h (vs_key v) c)) (\<lambda>_. updIO (set_key ci (vs_key v) h)) v1 = (r, v')"
    and "still_vault v v1" and "protect_key ci (vs_name v) pass (vs_key v) w0 = (Inr h, w1)" and "cipher_ok ci"
    and "encodes ci (vs_name v) c" and "valid_profile_name (vs_name v)"
    and "published (vs_disk v) (profile_file (vs_name v)) = None"
  shows "(published (vs_disk v') (vault_file (vs_name v)) = published (vs_disk v) (vault_file (vs_name v)) \<or>
      rewrapped ci (vs_name v) pass c (vs_key v) (vs_disk v')) \<and>
    (\<forall>u. r = Inr u \<longrightarrow> rewrapped ci (vs_name v) pass c (vs_key v) (vs_disk v') \<and> vault_view ci v' = Some c)"
proof -
  note m = still_memory [OF assms(2)]
  have nm: "eh_name h = vs_name v" using protect_key_Inr [OF assms(3)] by auto
  obtain y d where y: "persist_verified ci h (vs_key v) c (vs_disk v1) = (y, d)" by fastforce
  have v': "vs_disk v' = d" "y = Inl e \<Longrightarrow> r = Inl e" "y = Inr u \<Longrightarrow> v' = set_key ci (vs_key v) h (v1\<lparr>vs_disk := d\<rparr>)" for e u
    using assms(1) y by (cases y; auto simp: bindIO_def on_disk_def set_key_def split: sum.split)+
  have "valid_profile_name (eh_name h)" using nm assms(6) by simp
  from y this show ?thesis
  proof (cases rule: persist_verified_cases)
    case (fail e)
    then show ?thesis using v' m by (simp add: stable_def)
  next
    case (ok rc rnd)
    have o: "open_encrypted ci rc (vs_key v) = Inr c" using seal_opens [OF ok(1) assms(4)] assms(5) nm by simp
    have hd: "er_header rc = h" "eh_schema h = age_schema" using seal_header [OF ok(1)] by auto
    have rw: "rewrapped ci (vs_name v) pass c (vs_key v) (vs_disk v')"
      using ok(3) nm v'(1) o protected_by_passphrase [OF assms(3) hd(1) o assms(4)]
      by (simp add: rewrapped_def own_file_def)
    have "vault_view ci v' = Some c" if ru: "r = Inr u1" for u1
    proof -
      obtain u2 where u2: "y = Inr u2" using v'(2) ru by (cases y) auto
      from v'(3) [OF u2] have s: "v' = set_key ci (vs_key v) h (v1\<lparr>vs_disk := d\<rparr>)" .
      have "vs_name v' = vs_name v" using s m by (simp add: set_key_def split: sum.split)
      moreover have "published d (profile_file (vs_name v)) = None" using ok(3) nm assms(7) m by simp
      ultimately show ?thesis
        using ok(4) [OF u2] s nm v'(1) open_with_set_key [OF o] hd by (simp add: vault_view_def vault_record_def)
    qed
    with rw show ?thesis by blast
  qed
qed

lemma change_passphrase_cases:
  assumes "change_passphrase ci pass v = (r, v')" and "cipher_ok ci" and "valid_profile_name (vs_name v)"
    and "vault_view ci v = Some c" and "encodes ci (vs_name v) c"
  shows "(published (vs_disk v') (vault_file (vs_name v)) = published (vs_disk v) (vault_file (vs_name v)) \<or>
      rewrapped ci (vs_name v) pass c (vs_key v) (vs_disk v')) \<and>
    (\<forall>u. r = Inr u \<longrightarrow> rewrapped ci (vs_name v) pass c (vs_key v) (vs_disk v') \<and> vault_view ci v' = Some c)"
proof -
  have quit: ?thesis if "r = Inl e" "still_vault v v'" for e using that still_memory [OF that(2)] by simp
  have pf: "published (vs_disk v) (profile_file (vs_name v)) = None"
    using assms(4) by (auto simp: vault_view_def split: if_splits)
  let ?go = "\<lambda>c key. bindIO (on_disk (protect_key ci (vs_name v) pass key)) (\<lambda>h.
      bindIO (on_disk (persist_verified ci h key c)) (\<lambda>_. updIO (set_key ci key h)))"
  have "with_lock (vs_name v) (bindIO (load_unlocked ci) (\<lambda>c.
      bindIO (getIO vs_header) (\<lambda>h.
      bindIO (whenE (eh_schema h \<noteq> age_schema) MigrationRequired) (\<lambda>_.
      bindIO (whenE (eh_backend h \<noteq> passphrase_backend) WrongBackend) (\<lambda>_.
      bindIO unlocked_key (?go c)))))) v = (r, v')"
    using assms(1) by (simp add: change_passphrase_def bindIO_def)
  then show ?thesis
  proof (cases rule: with_lock_cases)
    case (fail e)
    then show ?thesis by (rule quit)
  next
    case (step v1)
    note s1 = step(1)
    from step(3) still_load_unlocked s1 show ?thesis
    proof (cases rule: bind_keeps)
      case (fail e)
      then show ?thesis by (rule quit)
    next
      case (step c1 v2)
      have "vault_view ci v = Some c1"
        using load_unlocked_view [OF step(1)] assms(3) still_vault_view [OF s1] still_memory [OF s1] by simp
      with assms(4) have c1: "c1 = c" by simp
      show ?thesis
      proof (cases "eh_schema (vs_header v2) \<noteq> age_schema \<or> eh_backend (vs_header v2) \<noteq> passphrase_backend \<or>
          vs_key v2 = [] \<or> unlock_key_max < length (vs_key v2)")
        case True
        with step(3) have "v' = v2 \<and> (\<exists>e. r = Inl e)"
          by (auto simp: bindIO_def whenE_def unlocked_key_def split: if_splits)
        with step(2) show ?thesis by (metis quit)
      next
        case False
        with step(3) c1 still_memory [OF step(2)] have "?go c (vs_key v) v2 = (r, v')" by (simp add: bindIO_def unlocked_key_def)
        from this still_on_disk [OF stable_protect_key] step(2) show ?thesis
        proof (cases rule: bind_keeps)
          case (fail e)
          then show ?thesis by (rule quit)
        next
          case (step h v3)
          obtain w1 where "protect_key ci (vs_name v) pass (vs_key v) (vs_disk v2) = (Inr h, w1)"
            using step(1) by (auto simp: on_disk_iff)
          from change_finish [OF step(3,2) this assms(2,5,3) pf] show ?thesis .
        qed
      qed
    qed
  qed
qed

section \<open>Properties\<close>

text \<open>A transparent cipher with the required laws, and disks with a sealed, a plaintext and a legacy profile.\<close>

definition sample_cipher :: cipher where
  "sample_cipher = \<lparr>ci_secret = (\<lambda>s. Some (1, s, replicate 32 CHR ''a'')), ci_new_secret = (\<lambda>r. (r, CHR ''r'' # r)),
     ci_identity = (\<lambda>_. True), ci_recipient = (\<lambda>x. CHR ''r'' # x), ci_recipient_ok = (\<lambda>_. True),
     ci_encrypt = (\<lambda>_ _ d. Some (replicate 32 CHR ''x'' @ d)), ci_decrypt = (\<lambda>_ b. Some (drop 32 b)),
     ci_wrap = (\<lambda>_ p k. Some (p @ k)), ci_unwrap = (\<lambda>p b. Some (drop (length p) b)),
     ci_mac = (\<lambda>_ _. replicate 32 CHR ''m''), ci_sha = (\<lambda>d. d),
     ci_header = (\<lambda>h. if eh_schema h = 2 then eh_key_id h else ''legacy''),
     ci_profile = (\<lambda>p. cr_connection (fp_credentials p) @ CHR '':'' # cr_version (fp_credentials p)),
     ci_unprofile = (\<lambda>s. Some \<lparr>fp_schema = 1, fp_name = ''p'',
       fp_credentials = sample_credentials (tl (dropWhile (\<lambda>x. x \<noteq> CHR '':'') s)) ''t0''
         \<lparr>cr_connection := takeWhile (\<lambda>x. x \<noteq> CHR '':'') s\<rparr>\<rparr>),
     ci_argon = (\<lambda>_ _. replicate 32 CHR ''d''),
     ci_open = (\<lambda>_ _ b _. Some (if length b = 48 then take 32 b else b))\<rparr>"

definition sample_header :: encrypted_header where
  "sample_header = zero_header\<lparr>eh_schema := 2, eh_name := ''p'', eh_key_id := replicate 32 CHR ''7'', eh_backend := passphrase_backend,
     eh_recipient := ''rK'', eh_wrapped_key := ''correct horseK''\<rparr>"

definition pinning_cipher :: cipher where
  "pinning_cipher = sample_cipher\<lparr>ci_header := \<lambda>h. if h = sample_header then ''A'' else ''B''\<rparr>"

definition sample_sealed :: encrypted_record where
  "sample_sealed = \<lparr>er_header = sample_header, er_nonce = [], er_ciphertext = replicate 32 CHR ''x'' @ ''c0:v0'',
     er_mac = replicate 32 CHR ''m''\<rparr>"

definition sample_legacy :: encrypted_record where
  "sample_legacy = \<lparr>er_header = zero_header\<lparr>eh_schema := 1, eh_name := ''p'', eh_key_id := replicate 32 CHR ''5'',
       eh_backend := passphrase_backend, eh_memory := 65536, eh_time := 3, eh_parallelism := 1, eh_salt := replicate 16 CHR ''s'',
       eh_wrap_nonce := replicate 24 CHR ''n'', eh_wrapped_key := replicate 48 CHR ''k''\<rparr>,
     er_nonce = replicate 24 CHR ''n'', er_ciphertext = ''0123456789abcdef:v0'', er_mac = []\<rparr>"

definition sample_random :: "string list" where
  "sample_random = map (\<lambda>c. replicate 32 c) ''123456789abcdef''"

definition sample_disk :: "(string \<times> content) list \<Rightarrow> bool list \<Rightarrow> cworld" where
  "sample_disk files faults = (sample_store faults)\<lparr>cw_files := map (\<lambda>(n, c). (n, own_file 7 c)) files, cw_random := sample_random\<rparr>"

definition sealed_disk :: cworld where "sealed_disk = sample_disk [(''p.vault'', RecordJSON sample_sealed)] []"
definition legacy_disk :: cworld where "legacy_disk = sample_disk [(''p.vault'', RecordJSON sample_legacy)] []"
definition plain_disk :: cworld where
  "plain_disk = sample_disk [(''p.json'', ProfileJSON \<lparr>fp_schema = 1, fp_name = ''p'', fp_credentials = sample_credentials ''v0'' ''t0''\<rparr>)] []"

definition open_sample :: "cworld \<Rightarrow> (store_error, vault) result \<times> cworld" where
  "open_sample = new_encrypted_store 0xEF53 (\<lambda>_. None) ''p''"

definition opened :: "cworld \<Rightarrow> vault" where
  "opened w = (case fst (open_sample w) of Inr v \<Rightarrow> v | Inl _ \<Rightarrow> undefined)"

definition is_ok :: "('e, 'a) result \<Rightarrow> bool" where
  "is_ok r = (case r of Inl _ \<Rightarrow> False | Inr _ \<Rightarrow> True)"

lemma opened_eq: "is_ok (fst (open_sample w)) \<Longrightarrow> new_encrypted_store 0xEF53 (\<lambda>_. None) ''p'' w = (Inr (opened w), snd (open_sample w))"
  by (cases "open_sample w") (auto simp: opened_def open_sample_def is_ok_def split: sum.splits)

lemma sample_cipher_ok: "cipher_ok sample_cipher" "cipher_ok pinning_cipher"
  by (auto simp: cipher_ok_def sample_cipher_def pinning_cipher_def)

lemma sample_pinned: "pinned pinning_cipher sample_header"
  by (simp add: pinned_def pinning_cipher_def sample_cipher_def data_aad_def)

lemma sample_encodes: "encodes pinning_cipher ''p'' (sample_credentials [] ''t0''\<lparr>cr_version := s\<rparr>)"
  by (simp add: encodes_def pinning_cipher_def sample_cipher_def sample_credentials_def Let_def)

definition unlocked_sample :: vault where
  "unlocked_sample = vault_runs pinning_cipher [OpUnlock ''correct horse''] (opened sealed_disk)"

lemma samples_open [simp]:
  "is_ok (fst (open_sample sealed_disk))" "is_ok (fst (open_sample legacy_disk))" "is_ok (fst (open_sample plain_disk))"
  by code_simp+

lemma samples_named [simp]:
  "vs_name (opened sealed_disk) = ''p''" "vs_name (opened legacy_disk) = ''p''" "vs_name (opened plain_disk) = ''p''"
  "vs_name unlocked_sample = ''p''" "valid_profile_name ''p''"
  by code_simp+



text \<open>C9: A refresh of a sealed profile is a compare-and-swap, whatever happened since the store was opened.
  Either it fails and nothing published and nothing in memory has changed; or the expected version was
  the one the unlocked store showed, the connection is the same, the change is one this provider may
  make, and the store now shows the new credentials under a new version, with no other file touched.
  If it answers, it answers that version.\<close>

theorem vault_save_cas:
  assumes "new_encrypted_store fs ring name w = (Inr v0, w0)" and "v = vault_runs ci ops v0"
    and "cipher_ok ci" and "pinned ci (vs_header v)" and "\<And>s. encodes ci name (c\<lparr>cr_version := s\<rparr>)"
    and "vault_save ci n x p c v = (r, v')"
  shows "(\<exists>e. r = Inl e) \<and> still_vault v v' \<or>
    (\<exists>old s f. n = name \<and> vault_view ci v = Some old \<and> cr_version old = x \<and> cr_connection old = cr_connection c \<and>
       refresh_allowed p old c = None \<and> vault_view ci v' = Some (c\<lparr>cr_version := s\<rparr>) \<and>
       published (vs_disk v') = (published (vs_disk v))(vault_file n \<mapsto> f) \<and> v' = v\<lparr>vs_disk := vs_disk v'\<rparr> \<and>
       (\<forall>y. r = Inr y \<longrightarrow> y = s))"
proof -
  have k: "key_ok ci v" "vs_name v = name" using opened_sound [OF assms(1), of ci ops] assms(2) by (simp_all add: sound_vault_def)
  have vn: "valid_profile_name (vs_name v)" using new_encrypted_store_Inr [OF assms(1)] k by simp
  have en: "encodes ci (vs_name v) (c\<lparr>cr_version := s\<rparr>)" for s using assms(5) k by simp
  from assms(6) k(1) assms(3,4) vn en show ?thesis
  proof (cases rule: vault_save_cases)
    case (fail e)
    then show ?thesis by blast
  next
    case (ok old s f)
    then show ?thesis using k(2) by (intro disjI2 exI [of _ old] exI [of _ s] exI [of _ f]) simp
  qed
qed

lemma vault_save_cas_witness:
  "vault_view pinning_cipher (snd (vault_save pinning_cipher ''p'' ''v0'' ''openai'' (sample_credentials [] ''t0'') unlocked_sample)) =
     Some (sample_credentials (replicate 32 CHR ''1'') ''t0'')"
proof -
  let ?r = "vault_save pinning_cipher ''p'' ''v0'' ''openai'' (sample_credentials [] ''t0'') unlocked_sample"
  have h: "vs_header unlocked_sample = sample_header" and r: "fst ?r = Inr (replicate 32 CHR ''1'')" by code_simp+
  have s: "?r = (fst ?r, snd ?r)" by simp
  have "pinned pinning_cipher (vs_header unlocked_sample)" using sample_pinned h by simp
  from vault_save_cas [OF opened_eq [OF samples_open(1)] unlocked_sample_def sample_cipher_ok(2) this sample_encodes s] r
  show ?thesis by (auto simp: sample_credentials_def)
qed

text \<open>C10: Encrypting a plaintext profile never loses it.  Wherever the operation stops, the plaintext file is
  still there unchanged, or the vault holds a record that this passphrase opens to the same
  credentials; and when it succeeds the plaintext is gone and the unlocked store shows them.\<close>

theorem encryption_never_loses:
  assumes "encrypt_plaintext ci pass v = (r, v')" and "cipher_ok ci" and "valid_profile_name (vs_name v)"
    and "stored (vs_disk v) (vs_name v) = Some c0"
  shows "(published (vs_disk v') (profile_file (vs_name v)) = published (vs_disk v) (profile_file (vs_name v)) \<or>
      (\<exists>h key. sealed_copy ci (vs_name v) pass c0 (vs_disk v') h key)) \<and>
    (\<forall>u. r = Inr u \<longrightarrow> published (vs_disk v') (profile_file (vs_name v)) = None \<and>
      (\<exists>c. vault_view ci v' = Some c \<and> same_content c0 c))"
  by (rule encrypt_plaintext_cases [OF assms])

lemma encryption_never_loses_witness:
  "\<exists>c. vault_view sample_cipher (snd (encrypt_plaintext sample_cipher ''correct horse'' (opened plain_disk))) = Some c \<and>
     same_content (sample_credentials ''v0'' ''t0'') c"
proof -
  let ?r = "encrypt_plaintext sample_cipher ''correct horse'' (opened plain_disk)"
  have r: "fst ?r = Inr ()" and st: "stored (vs_disk (opened plain_disk)) ''p'' = Some (sample_credentials ''v0'' ''t0'')" by code_simp+
  have "?r = (fst ?r, snd ?r)" by simp
  from encryption_never_loses [OF this sample_cipher_ok(1)] r st show ?thesis by simp
qed

text \<open>C11: Migrating a legacy record to age never loses it.  Wherever the operation stops, and whatever the keyring
  does, the vault file is the one there was or the legacy record is in the backup file; and when it
  succeeds the unlocked store shows the credentials the legacy key opened.  Nothing is assumed of the
  cipher.\<close>

theorem migration_never_loses:
  assumes "migrate_to_age ci pass ring v = (r, v')" and "valid_profile_name (vs_name v)"
    and "vault_record ci v = Some r0" and "eh_schema (er_header r0) = 1"
  shows "(published (vs_disk v') (vault_file (vs_name v)) = published (vs_disk v) (vault_file (vs_name v)) \<or>
      (\<exists>e. published (vs_disk v') (backup_file (vs_name v)) = Some e \<and> fe_content e = RecordJSON r0)) \<and>
    (\<forall>u. r = Inr u \<longrightarrow> (\<exists>k c0 c. open_encrypted ci r0 k = Inr c0 \<and> vault_view ci v' = Some c \<and> same_content c0 c))"
  by (rule migrate_to_age_cases [OF assms])

lemma migration_never_loses_witness:
  "\<exists>e. published (vs_disk (snd (migrate_to_age sample_cipher ''correct horse'' False (opened legacy_disk)))) ''p.vault.v1-backup'' = Some e \<and>
     fe_content e = RecordJSON sample_legacy"
proof -
  let ?r = "migrate_to_age sample_cipher ''correct horse'' False (opened legacy_disk)"
  have rec: "vault_record sample_cipher (opened legacy_disk) = Some sample_legacy"
    and s: "eh_schema (er_header sample_legacy) = 1" by code_simp+
  have ne: "map_option fe_content (published (vs_disk (snd ?r)) ''p.vault'') \<noteq> map_option fe_content (published (vs_disk (opened legacy_disk)) ''p.vault'')"
    by code_simp
  have "?r = (fst ?r, snd ?r)" by simp
  from migration_never_loses [OF this _ rec s] ne show ?thesis by (auto simp: vault_file_def backup_file_def)
qed

text \<open>Changing the passphrase rewraps one key.  Wherever the operation stops, the vault file is the one there was
  or holds a record that the key in memory opens to the same credentials and the new passphrase opens
  to that key; a success is always the latter, and the store stays unlocked on the same credentials.\<close>

theorem passphrase_change_rewraps:
  assumes "change_passphrase ci pass v = (r, v')" and "cipher_ok ci" and "valid_profile_name (vs_name v)"
    and "vault_view ci v = Some c" and "encodes ci (vs_name v) c"
  shows "(published (vs_disk v') (vault_file (vs_name v)) = published (vs_disk v) (vault_file (vs_name v)) \<or>
      rewrapped ci (vs_name v) pass c (vs_key v) (vs_disk v')) \<and>
    (\<forall>u. r = Inr u \<longrightarrow> rewrapped ci (vs_name v) pass c (vs_key v) (vs_disk v') \<and> vault_view ci v' = Some c)"
  by (rule change_passphrase_cases [OF assms])

lemma passphrase_change_rewraps_witness:
  "rewrapped pinning_cipher ''p'' ''battery staple'' (sample_credentials ''v0'' ''t0'') (vs_key unlocked_sample)
     (vs_disk (snd (change_passphrase pinning_cipher ''battery staple'' unlocked_sample)))"
proof -
  let ?r = "change_passphrase pinning_cipher ''battery staple'' unlocked_sample"
  have r: "fst ?r = Inr ()" and vw: "vault_view pinning_cipher unlocked_sample = Some (sample_credentials ''v0'' ''t0'')" by code_simp+
  have en: "encodes pinning_cipher ''p'' (sample_credentials ''v0'' ''t0'')"
    using sample_encodes [of "''v0''"] by (simp add: sample_credentials_def)
  have "?r = (fst ?r, snd ?r)" by simp
  from passphrase_change_rewraps [OF this sample_cipher_ok(2) _ vw] en r show ?thesis by simp
qed

end
