(* ===== verification/EngineNetwork.thy ===== *)
theory EngineNetwork
  imports GoNetip Triples "HOL-Library.AList"
begin

text \<open>
  The node engine's networks (\<open>src/internal/engine/network.go\<close>, \<open>network_recovery.go\<close>, \<open>intents.go\<close>): the saved
  network and task records, the containers containerd reports, and of the kernel the links, firewall
  tables and network namespaces the engine commands.  Every command, file operation and containerd call
  consults a fault schedule: it may be refused, or take effect although its result is an error.
  \<open>ip\<close>, \<open>nft\<close> and the kernel behind them are modelled by their documented effect on these lists; the digest
  of a table is a parameter.
\<close>

section \<open>Records and the world\<close>

datatype engine_error =
    GFault | GNotFound | GExists | GAmbiguous | GChangedOwnership | GBadRecord | GDrift | GBadName | GBadNetwork
  | GNoForward | GNoSubnet | GSecondNetwork | GWorkerEgress | GNotWorkerOrProxy | GNoAddress | GBadEndpoint
  | GForeignInterface | GForeignBridge | GAttached | GNoDevice | GNoTable | GFirewallChanged | GHostAddress
  | GUntracked | GNamespaceChanged | GNotSingleWorker | GLive | GUnreconciled | GBadCgroup | GBadRequest

record endpoint =
  ep_network :: string
  ep_id :: string
  ep_ip :: string
  ep_gateway :: string
  ep_iface :: string

record peer =
  pe_name :: string
  pe_endpoint :: string
  pe_ipv4 :: string

record net_rec =
  nr_id :: string
  nr_name :: string
  nr_internal :: bool
  nr_labels :: "(string \<times> string) list"
  nr_options :: "(string \<times> string) list"
  nr_peers :: "(string \<times> peer) list"
  nr_subnet :: string
  nr_gateway :: string
  nr_slot :: int
  nr_bridge :: string
  nr_firewall :: string

record task_rec =
  tr_id :: string
  tr_name :: string
  tr_labels :: "(string \<times> string) list"
  tr_networks :: "(string \<times> endpoint) list"
  tr_runtime :: string
  tr_spec :: string
  tr_cgroup_parent :: string
  tr_spec_cgroup :: "string option"
  tr_netns :: "nat \<times> nat"

record native =
  na_id :: string
  na_owned :: bool
  na_labels :: "(string \<times> string) list"
  na_runtime :: string
  na_snapshot_key :: string
  na_snapshotter :: string
  na_spec :: string
  na_task :: bool

datatype link_role = BridgeLink | HostEnd | PeerEnd

record link =
  lk_role :: link_role
  lk_alias :: string
  lk_master :: string
  lk_up :: bool
  lk_addrs :: "string list"
  lk_pair :: "string \<times> string"

text \<open>Links are named per namespace; the host's namespace is the empty name.\<close>

datatype fault = Fine | Refused | Unconfirmed

record eworld =
  ew_nets :: "(string \<times> net_rec option) list"
  ew_recs :: "(string \<times> task_rec) list"
  ew_natives :: "native list"
  ew_links :: "((string \<times> string) \<times> link) list"
  ew_tables :: "(string \<times> string) list"
  ew_netns :: "(string \<times> nat \<times> nat) list"
  ew_cgroups :: "(string \<times> string) list"
  ew_host :: "string list list"
  ew_routes :: "string list option"
  ew_forward :: string
  ew_faults :: "fault list"
  ew_random :: "string list"
  ew_inodes :: "nat list"

record backend =
  bk_runtime :: string
  bk_runc_shim :: string
  bk_snapshotter :: string
  bk_hash :: "string \<Rightarrow> string"

type_synonym 'a eio = "(eworld, engine_error, 'a) io"

definition ecall :: "'a eio \<Rightarrow> 'a eio" where
  "ecall eff w = (case ew_faults w of [] \<Rightarrow> eff w
     | f # fs \<Rightarrow> (let w' = w\<lparr>ew_faults := fs\<rparr> in
        case f of Fine \<Rightarrow> eff w' | Refused \<Rightarrow> (Inl GFault, w') | Unconfirmed \<Rightarrow> (Inl GFault, snd (eff w'))))"

definition probe :: "unit eio" where
  "probe = ecall (returnIO ())"

definition label :: "(string \<times> string) list \<Rightarrow> string \<Rightarrow> string" where
  "label ls k = (case map_of ls k of None \<Rightarrow> [] | Some v \<Rightarrow> v)"

definition hex_id :: "string \<Rightarrow> bool" where
  "hex_id s \<longleftrightarrow> lower_hex_n 64 s"

text \<open>The regular expression \<open>^[a-zA-Z0-9][a-zA-Z0-9_.-]{0,127}$\<close>.\<close>

definition alnum :: "char \<Rightarrow> bool" where
  "alnum c \<longleftrightarrow> is_digit c \<or> (CHR ''a'' \<le> c \<and> c \<le> CHR ''z'') \<or> (CHR ''A'' \<le> c \<and> c \<le> CHR ''Z'')"

definition valid_name :: "string \<Rightarrow> bool" where
  "valid_name s \<longleftrightarrow> (case s of [] \<Rightarrow> False | c # cs \<Rightarrow> alnum c \<and> length cs \<le> 127 \<and>
     list_all (\<lambda>d. alnum d \<or> d \<in> set ''_.-'') cs)"

section \<open>Names\<close>

definition net_table :: "net_rec \<Rightarrow> string" where
  "net_table n = ''cdx_'' @ take 16 (nr_id n)"

definition slot_subnet :: "int \<Rightarrow> string" where
  "slot_subnet k = ''10.253.'' @ show_nat (nat k) @ ''.0/24''"

definition net_address :: "int \<Rightarrow> nat \<Rightarrow> string" where
  "net_address k host = ''10.253.'' @ show_nat (nat k) @ ''.'' @ show_nat host"

definition ns_name :: "string \<Rightarrow> string" where
  "ns_name cid = ''cdx-'' @ take 24 cid"

definition bridge_name :: "string \<Rightarrow> string" where
  "bridge_name nid = ''cdx'' @ take 12 nid"

definition veth_name :: "string \<Rightarrow> string \<Rightarrow> string" where
  "veth_name cid nid = ''v'' @ take 6 cid @ take 6 nid"

definition veth_peer :: "string \<Rightarrow> string \<Rightarrow> string" where
  "veth_peer cid nid = ''p'' @ take 6 cid @ take 6 nid"

definition bridge_alias :: "string \<Rightarrow> string" where
  "bridge_alias nid = ''codex-dock:'' @ nid"

definition veth_alias :: "string \<Rightarrow> string \<Rightarrow> string" where
  "veth_alias cid nid = ''codex-dock:'' @ cid @ '':'' @ nid"

definition managed :: "task_rec \<Rightarrow> bool" where
  "managed r \<longleftrightarrow> label (tr_labels r) ''codex-dock.managed'' = ''true''"

section \<open>The kernel\<close>

definition link_at :: "eworld \<Rightarrow> string \<times> string \<Rightarrow> link option" where
  "link_at w k = map_of (ew_links w) k"

definition link_add :: "string \<times> string \<Rightarrow> link \<Rightarrow> unit eio" where
  "link_add k l = ecall (bindIO (getIO (\<lambda>w. link_at w k)) (\<lambda>old. bindIO (whenE (old \<noteq> None) GExists) (\<lambda>_.
     updIO (\<lambda>w. w\<lparr>ew_links := (k, l) # ew_links w\<rparr>))))"

definition link_set :: "string \<times> string \<Rightarrow> (link \<Rightarrow> link) \<Rightarrow> unit eio" where
  "link_set k g = ecall (bindIO (getIO (\<lambda>w. link_at w k)) (\<lambda>old. case old of None \<Rightarrow> throwIO GNoDevice
     | Some l \<Rightarrow> updIO (\<lambda>w. w\<lparr>ew_links := AList.update k (g l) (ew_links w)\<rparr>)))"

text \<open>A pair is made and removed as a whole.\<close>

definition veth_add :: "string \<Rightarrow> string \<Rightarrow> unit eio" where
  "veth_add h p = ecall (bindIO (getIO (\<lambda>w. (link_at w ([], h), link_at w ([], p)))) (\<lambda>(a, b).
     bindIO (whenE (a \<noteq> None \<or> b \<noteq> None \<or> h = p) GExists) (\<lambda>_. updIO (\<lambda>w. w\<lparr>ew_links :=
       (([], h), \<lparr>lk_role = HostEnd, lk_alias = [], lk_master = [], lk_up = False, lk_addrs = [], lk_pair = ([], p)\<rparr>) #
       (([], p), \<lparr>lk_role = PeerEnd, lk_alias = [], lk_master = [], lk_up = False, lk_addrs = [], lk_pair = ([], h)\<rparr>) #
       ew_links w\<rparr>))))"

definition drop_links :: "(string \<times> string \<Rightarrow> bool) \<Rightarrow> eworld \<Rightarrow> eworld" where
  "drop_links P w = w\<lparr>ew_links := filter (\<lambda>(k, l). \<not> P k) (ew_links w)\<rparr>"

definition link_del :: "string \<Rightarrow> unit eio" where
  "link_del h = ecall (bindIO (getIO (\<lambda>w. link_at w ([], h))) (\<lambda>old. case old of None \<Rightarrow> throwIO GNoDevice
     | Some l \<Rightarrow> updIO (drop_links (\<lambda>k. k = ([], h) \<or> lk_role l \<noteq> BridgeLink \<and> k = lk_pair l))))"

text \<open>The peer end gets a new name or namespace, and its host end follows it.\<close>

definition rekey :: "string \<times> string \<Rightarrow> string \<times> string \<Rightarrow> link \<Rightarrow> eworld \<Rightarrow> eworld" where
  "rekey k k' l w = w\<lparr>ew_links := (k', l) # map (\<lambda>(x, y). if x = lk_pair l then (x, y\<lparr>lk_pair := k'\<rparr>) else (x, y))
     (filter (\<lambda>(x, y). x \<noteq> k) (ew_links w))\<rparr>"

definition link_rename :: "string \<times> string \<Rightarrow> string \<times> string \<Rightarrow> unit eio" where
  "link_rename k k' = ecall (bindIO (getIO (\<lambda>w. (link_at w k, link_at w k', map_of (ew_netns w) (fst k')))) (\<lambda>(a, b, ns).
     case a of None \<Rightarrow> throwIO GNoDevice
     | Some l \<Rightarrow> bindIO (whenE (b \<noteq> None \<or> ns = None) GExists) (\<lambda>_. updIO (rekey k k' l))))"

definition netns_add :: "string \<Rightarrow> unit eio" where
  "netns_add ns = ecall (bindIO (getIO (\<lambda>w. (map_of (ew_netns w) ns, ew_inodes w))) (\<lambda>(old, inodes).
     case inodes of [] \<Rightarrow> throwIO GFault
     | i # is \<Rightarrow> bindIO (whenE (old \<noteq> None) GExists) (\<lambda>_.
         updIO (\<lambda>w. w\<lparr>ew_netns := (ns, 4, i) # ew_netns w, ew_inodes := is\<rparr>))))"

text \<open>A namespace goes with its interfaces, and these with their host ends.\<close>

definition netns_del :: "string \<Rightarrow> unit eio" where
  "netns_del ns = ecall (bindIO (getIO (\<lambda>w. map_of (ew_netns w) ns)) (\<lambda>old. bindIO (whenE (old = None) GNoDevice) (\<lambda>_.
     updIO (\<lambda>w. drop_links (\<lambda>k. fst k = ns \<or> list_ex (\<lambda>(k', l). fst k' = ns \<and> k = lk_pair l) (ew_links w))
       (w\<lparr>ew_netns := AList.delete ns (ew_netns w)\<rparr>)))))"

definition nft_add :: "string \<Rightarrow> string \<Rightarrow> unit eio" where
  "nft_add t script = ecall (updIO (\<lambda>w. w\<lparr>ew_tables := AList.update t (label (ew_tables w) t @ script) (ew_tables w)\<rparr>))"

definition nft_delete :: "string \<Rightarrow> unit eio" where
  "nft_delete t = ecall (bindIO (getIO (\<lambda>w. map_of (ew_tables w) t)) (\<lambda>old. bindIO (whenE (old = None) GNoTable) (\<lambda>_.
     updIO (\<lambda>w. w\<lparr>ew_tables := AList.delete t (ew_tables w)\<rparr>))))"

section \<open>Saved records\<close>

definition net_file :: "string \<Rightarrow> string" where
  "net_file nid = nid @ ''.json''"

definition valid_net_record :: "string \<Rightarrow> net_rec \<Rightarrow> bool" where
  "valid_net_record file n \<longleftrightarrow> hex_id (nr_id n) \<and> file = net_file (nr_id n) \<and> nr_bridge n = bridge_name (nr_id n) \<and>
     1 \<le> nr_slot n \<and> nr_slot n \<le> 254"

fun read_nets :: "(string \<times> net_rec option) list \<Rightarrow> net_rec list eio" where
  "read_nets [] = returnIO []"
| "read_nets ((file, c) # rest) =
     (if \<not> suffix ''.json'' file then read_nets rest
      else bindIO probe (\<lambda>_. case c of None \<Rightarrow> throwIO GBadRecord
        | Some n \<Rightarrow> bindIO (whenE (\<not> valid_net_record file n) GBadRecord) (\<lambda>_.
            bindIO (read_nets rest) (\<lambda>ns. returnIO (n # ns)))))"

definition networks :: "net_rec list eio" where
  "networks = bindIO probe (\<lambda>_. bindIO probe (\<lambda>_. bindIO (getIO ew_nets) read_nets))"

definition find_network :: "string \<Rightarrow> net_rec eio" where
  "find_network value = bindIO networks (\<lambda>all.
     case filter (\<lambda>n. nr_id n = value \<or> nr_name n = value) all of
       [] \<Rightarrow> throwIO GNotFound | [n] \<Rightarrow> returnIO n | _ \<Rightarrow> throwIO GAmbiguous)"

text \<open>Temporary file, write, sync, close, rename, sync of the directory.\<close>

definition publish_file :: "(eworld \<Rightarrow> eworld) \<Rightarrow> unit eio" where
  "publish_file f = bindIO probe (\<lambda>_. bindIO probe (\<lambda>_. bindIO probe (\<lambda>_. bindIO probe (\<lambda>_.
     bindIO (ecall (updIO f)) (\<lambda>_. bindIO probe (\<lambda>_. probe))))))"

definition put_net :: "net_rec \<Rightarrow> eworld \<Rightarrow> eworld" where
  "put_net n w = w\<lparr>ew_nets := AList.update (net_file (nr_id n)) (Some n) (ew_nets w)\<rparr>"

definition put_rec :: "task_rec \<Rightarrow> eworld \<Rightarrow> eworld" where
  "put_rec r w = w\<lparr>ew_recs := AList.update (tr_id r) r (ew_recs w)\<rparr>"

definition save_network :: "net_rec \<Rightarrow> unit eio" where
  "save_network n = publish_file (put_net n)"

definition save_task :: "task_rec \<Rightarrow> unit eio" where
  "save_task r = bindIO probe (\<lambda>_. publish_file (put_rec r))"

section \<open>Loading a task\<close>

fun find_native :: "string \<Rightarrow> native list \<Rightarrow> native option \<Rightarrow> native option eio" where
  "find_native value [] found = returnIO found"
| "find_native value (c # cs) found = bindIO probe (\<lambda>_.
     if label (na_labels c) ''codex-dock.name'' = value \<or> 12 \<le> length value \<and> prefix value (na_id c)
     then bindIO (whenE (found \<noteq> None) GAmbiguous) (\<lambda>_. find_native value cs (Some c))
     else find_native value cs found)"

definition native_matches :: "backend \<Rightarrow> task_rec \<Rightarrow> native \<Rightarrow> bool" where
  "native_matches bk r c \<longleftrightarrow>
     list_all (\<lambda>(k, v). 4096 < length v \<or> label (na_labels c) k = v) (tr_labels r) \<and>
     label (na_labels c) ''codex-dock.name'' = tr_name r \<and>
     na_runtime c = (if tr_runtime r = ''runc'' then bk_runc_shim bk else bk_runtime bk) \<and>
     na_snapshot_key c = tr_id r \<and> na_snapshotter c = bk_snapshotter bk"

definition load_task :: "backend \<Rightarrow> string \<Rightarrow> (task_rec \<times> native) eio" where
  "load_task bk value =
     bindIO probe (\<lambda>_. bindIO (getIO ew_natives) (\<lambda>natives.
     bindIO (find_native value (filter na_owned natives) None) (\<lambda>found. case found of
       None \<Rightarrow>
         if hex_id value then
           bindIO probe (\<lambda>_. throwIO (if list_ex (\<lambda>c. na_id c = value) natives then GChangedOwnership else GNotFound))
         else throwIO GNotFound
     | Some c \<Rightarrow>
         bindIO probe (\<lambda>_. bindIO (getIO (\<lambda>w. map_of (ew_recs w) (na_id c))) (\<lambda>file. case file of
           None \<Rightarrow> throwIO GBadRecord
         | Some r \<Rightarrow>
             bindIO (whenE (tr_id r \<noteq> na_id c \<or> \<not> hex_id (tr_id r)) GBadRecord) (\<lambda>_.
             bindIO probe (\<lambda>_.
             bindIO (whenE (\<not> native_matches bk r c) GDrift) (\<lambda>_.
             bindIO probe (\<lambda>_.
             bindIO (whenE (na_spec c \<noteq> tr_spec r) GDrift) (\<lambda>_. returnIO (r, c)))))))))))"

section \<open>Bridges and firewalls\<close>

definition firewall_hash :: "backend \<Rightarrow> net_rec \<Rightarrow> string eio" where
  "firewall_hash bk n = bindIO probe (\<lambda>_. bindIO (getIO (\<lambda>w. map_of (ew_tables w) (net_table n))) (\<lambda>t.
     case t of None \<Rightarrow> throwIO GNoTable | Some s \<Rightarrow> returnIO (bk_hash bk s)))"

definition quoted :: "string \<Rightarrow> string" where
  "quoted s = CHR 0x22 # s @ [CHR 0x22]"

definition nl :: string where "nl = [CHR 0x0A]"

definition network_script :: "net_rec \<Rightarrow> string" where
  "network_script n = (let t = net_table n; b = quoted (nr_bridge n) in
     ''add table inet '' @ t @ nl @
     ''add chain inet '' @ t @ '' input { type filter hook input priority -10; policy accept; }'' @ nl @
     ''add chain inet '' @ t @ '' forward { type filter hook forward priority -10; policy accept; }'' @ nl @
     (if nr_internal n then
        ''add rule inet '' @ t @ '' input iifname '' @ b @ '' drop'' @ nl @
        ''add rule inet '' @ t @ '' forward iifname '' @ b @ '' oifname '' @ b @ '' accept'' @ nl @
        ''add rule inet '' @ t @ '' forward iifname '' @ b @ '' drop'' @ nl @
        ''add rule inet '' @ t @ '' forward oifname '' @ b @ '' drop'' @ nl
      else
        ''add chain inet '' @ t @ '' postrouting { type nat hook postrouting priority srcnat; policy accept; }'' @ nl @
        ''add rule inet '' @ t @ '' postrouting ip saddr '' @ slot_subnet (nr_slot n) @ '' oifname != '' @ b @ '' masquerade'' @ nl))"

definition materialize_network :: "backend \<Rightarrow> net_rec \<Rightarrow> net_rec eio" where
  "materialize_network bk n =
     bindIO (link_add ([], nr_bridge n) \<lparr>lk_role = BridgeLink, lk_alias = [], lk_master = [], lk_up = False, lk_addrs = [],
       lk_pair = ([], nr_bridge n)\<rparr>) (\<lambda>_.
     bindIO (link_set ([], nr_bridge n) (\<lambda>l. l\<lparr>lk_alias := bridge_alias (nr_id n)\<rparr>)) (\<lambda>_.
     bindIO (link_set ([], nr_bridge n) (\<lambda>l. l\<lparr>lk_up := True\<rparr>)) (\<lambda>_.
     bindIO (if nr_internal n then returnIO n
             else bindIO (link_set ([], nr_bridge n) (\<lambda>l. l\<lparr>lk_addrs := lk_addrs l @ [net_address (nr_slot n) 1 @ ''/24'']\<rparr>)) (\<lambda>_.
                  returnIO (n\<lparr>nr_gateway := net_address (nr_slot n) 1\<rparr>))) (\<lambda>n.
     bindIO (nft_add (net_table n) (network_script n)) (\<lambda>_.
     bindIO (firewall_hash bk n) (\<lambda>h.
     let n' = n\<lparr>nr_firewall := h\<rparr> in bindIO (save_network n') (\<lambda>_. returnIO n')))))))"

definition bridge_ports :: "eworld \<Rightarrow> string \<Rightarrow> string list" where
  "bridge_ports w b = map (\<lambda>(k, l). snd k) (filter (\<lambda>(k, l). fst k = [] \<and> lk_master l = b) (ew_links w))"

definition tracked :: "net_rec \<Rightarrow> string \<Rightarrow> bool" where
  "tracked n p \<longleftrightarrow> list_ex (\<lambda>(c, e). pe_endpoint e = p) (nr_peers n)"

definition verify_network :: "backend \<Rightarrow> net_rec \<Rightarrow> unit eio" where
  "verify_network bk n =
     bindIO probe (\<lambda>_. bindIO (getIO (\<lambda>w. link_at w ([], nr_bridge n))) (\<lambda>b. case b of
       None \<Rightarrow> throwIO GNoDevice
     | Some l \<Rightarrow>
         bindIO (whenE (trim_space (lk_alias l) \<noteq> bridge_alias (nr_id n)) GForeignBridge) (\<lambda>_.
         bindIO (firewall_hash bk n) (\<lambda>h.
         bindIO (whenE (nr_firewall n = [] \<or> nr_firewall n \<noteq> h) GFirewallChanged) (\<lambda>_.
         bindIO probe (\<lambda>_. bindIO probe (\<lambda>_.
         bindIO (whenE (nr_internal n \<and> list_ex (\<lambda>a. case parse_prefix a of None \<Rightarrow> False | Some p \<Rightarrow> is4 (paddr p)) (lk_addrs l))
           GHostAddress) (\<lambda>_.
         bindIO probe (\<lambda>_. bindIO (getIO (\<lambda>w. bridge_ports w (nr_bridge n))) (\<lambda>ports.
           whenE (\<not> list_all (tracked n) ports) GUntracked))))))))))"

section \<open>Creating and removing a network\<close>

fun free_slot :: "int set \<Rightarrow> netprefix list \<Rightarrow> int list \<Rightarrow> int" where
  "free_slot used host [] = 0"
| "free_slot used host (i # is) =
     (if i \<in> used then free_slot used host is
      else (case parse_prefix (slot_subnet i) of None \<Rightarrow> 0
        | Some c \<Rightarrow> if list_ex (\<lambda>p. prefix_overlaps p c) host then free_slot used host is else i))"

definition host_prefixes :: "string list list \<Rightarrow> string list \<Rightarrow> netprefix list" where
  "host_prefixes ifaces routes =
     List.map_filter parse_prefix (concat ifaces) @
     filter (\<lambda>p. pbits p \<noteq> 0) (List.map_filter parse_prefix routes)"

fun interface_addresses :: "string list list \<Rightarrow> unit eio" where
  "interface_addresses [] = returnIO ()"
| "interface_addresses (x # xs) = bindIO probe (\<lambda>_. interface_addresses xs)"

definition random_id :: "string eio" where
  "random_id w = (case ew_random w of [] \<Rightarrow> (Inl GFault, w) | r # rs \<Rightarrow> (Inr r, w\<lparr>ew_random := rs\<rparr>))"

text \<open>The first subnet that neither a saved network nor an address or route of the host uses.\<close>

definition choose_slot :: "net_rec list \<Rightarrow> int eio" where
  "choose_slot all =
     bindIO probe (\<lambda>_. bindIO (getIO ew_host) (\<lambda>ifaces. bindIO (interface_addresses ifaces) (\<lambda>_.
     bindIO probe (\<lambda>_. bindIO (getIO ew_routes) (\<lambda>routes. case routes of
       None \<Rightarrow> throwIO GFault
     | Some rs \<Rightarrow>
         let slot = free_slot (set (map nr_slot all)) (host_prefixes ifaces rs) [1..254] in
         bindIO (whenE (slot = 0) GNoSubnet) (\<lambda>_. returnIO slot))))))"

definition add_network ::
  "backend \<Rightarrow> string \<Rightarrow> bool \<Rightarrow> (string \<times> string) list \<Rightarrow> (string \<times> string) list \<Rightarrow> int \<Rightarrow> string eio" where
  "add_network bk name internal labels options slot = bindIO random_id (\<lambda>nid.
     let n = \<lparr>nr_id = nid, nr_name = name, nr_internal = internal, nr_labels = labels, nr_options = options, nr_peers = [],
       nr_subnet = slot_subnet slot, nr_gateway = [], nr_slot = slot, nr_bridge = bridge_name nid, nr_firewall = []\<rparr> in
     bindIO (save_network n) (\<lambda>_. bindIO (materialize_network bk n) (\<lambda>_. returnIO nid)))"

definition create_network ::
  "backend \<Rightarrow> string \<Rightarrow> string \<Rightarrow> bool \<Rightarrow> bool option \<Rightarrow> (string \<times> string) list \<Rightarrow> (string \<times> string) list \<Rightarrow> string eio" where
  "create_network bk name driver internal ipv6 labels options =
     bindIO (if internal then returnIO () else bindIO probe (\<lambda>_. bindIO (getIO ew_forward) (\<lambda>f.
       whenE (trim_space f \<noteq> ''1'') GNoForward))) (\<lambda>_.
     bindIO (whenE (\<not> valid_name name \<or> driver \<noteq> ''bridge'') GBadNetwork) (\<lambda>_.
     bindIO (whenE (ipv6 = Some True) GBadNetwork) (\<lambda>_.
     bindIO (catchIO (find_network name)) (\<lambda>old.
     bindIO (case old of Inr _ \<Rightarrow> throwIO GExists | Inl e \<Rightarrow> whenE (e \<noteq> GNotFound) e) (\<lambda>_.
     bindIO networks (\<lambda>all. bindIO (choose_slot all) (\<lambda>slot. add_network bk name internal labels options slot)))))))"

definition remove_network :: "net_rec \<Rightarrow> unit eio" where
  "remove_network n =
     bindIO (whenE (nr_peers n \<noteq> []) GAttached) (\<lambda>_.
     bindIO (catchIO probe) (\<lambda>p. bindIO (getIO (\<lambda>w. link_at w ([], nr_bridge n))) (\<lambda>b.
     bindIO (case p of Inl e \<Rightarrow> throwIO e
       | Inr _ \<Rightarrow> (case b of None \<Rightarrow> returnIO ()
         | Some l \<Rightarrow> bindIO (whenE (trim_space (lk_alias l) \<noteq> bridge_alias (nr_id n)) GForeignBridge) (\<lambda>_. link_del (nr_bridge n)))) (\<lambda>_.
     bindIO (catchIO (bindIO probe (\<lambda>_. getIO (\<lambda>w. map_of (ew_tables w) (net_table n))))) (\<lambda>t.
     bindIO (case t of Inr (Some s) \<Rightarrow> nft_delete (net_table n) | _ \<Rightarrow> returnIO ()) (\<lambda>_.
     ecall (updIO (\<lambda>w. w\<lparr>ew_nets := AList.delete (net_file (nr_id n)) (ew_nets w)\<rparr>))))))))"

section \<open>Namespaces and endpoints\<close>

text \<open>\<open>newNamespace\<close> changes the record in memory even when a later step of it fails.\<close>

definition try_namespace :: "task_rec \<Rightarrow> (task_rec \<times> engine_error option) eio" where
  "try_namespace r =
     bindIO (catchIO (bindIO (netns_add (ns_name (tr_id r))) (\<lambda>_.
       bindIO probe (\<lambda>_. getIO (\<lambda>w. map_of (ew_netns w) (ns_name (tr_id r))))))) (\<lambda>s. case s of
       Inl e \<Rightarrow> returnIO (r, Some e)
     | Inr None \<Rightarrow> returnIO (r, Some GFault)
     | Inr (Some ident) \<Rightarrow> let r' = r\<lparr>tr_netns := ident\<rparr> in
         bindIO (catchIO (bindIO (save_task r') (\<lambda>_. bindIO probe (\<lambda>_. probe)))) (\<lambda>x.
           returnIO (r', case x of Inl e \<Rightarrow> Some e | Inr _ \<Rightarrow> None)))"

definition new_namespace :: "task_rec \<Rightarrow> task_rec eio" where
  "new_namespace r = bindIO (try_namespace r) (\<lambda>(r', x). case x of None \<Rightarrow> returnIO r' | Some e \<Rightarrow> throwIO e)"

definition valid_iface :: "string \<Rightarrow> bool" where
  "valid_iface s \<longleftrightarrow> take 3 s = ''eth'' \<and> drop 3 s \<noteq> [] \<and> list_all is_digit (drop 3 s)"

definition materialize_endpoint :: "net_rec \<Rightarrow> task_rec \<Rightarrow> endpoint \<Rightarrow> unit eio" where
  "materialize_endpoint n r e = (let h = ep_id e; p = veth_peer (tr_id r) (nr_id n); ns = ns_name (tr_id r); i = ep_iface e in
     bindIO (whenE (h \<noteq> veth_name (tr_id r) (nr_id n) \<or> \<not> valid_iface i) GBadEndpoint) (\<lambda>_.
     bindIO (veth_add h p) (\<lambda>_.
     bindIO (link_set ([], h) (\<lambda>l. l\<lparr>lk_master := nr_bridge n\<rparr>)) (\<lambda>_.
     bindIO (link_set ([], h) (\<lambda>l. l\<lparr>lk_alias := veth_alias (tr_id r) (nr_id n)\<rparr>)) (\<lambda>_.
     bindIO (link_rename ([], p) (ns, p)) (\<lambda>_.
     bindIO (link_rename (ns, p) (ns, i)) (\<lambda>_.
     bindIO (link_set (ns, i) (\<lambda>l. l\<lparr>lk_addrs := lk_addrs l @ [ep_ip e @ ''/24'']\<rparr>)) (\<lambda>_.
     bindIO (link_set (ns, i) (\<lambda>l. l\<lparr>lk_up := True\<rparr>)) (\<lambda>_.
     bindIO (link_set ([], h) (\<lambda>l. l\<lparr>lk_up := True\<rparr>)) (\<lambda>_.
     if nr_internal n then returnIO () else probe))))))))))"

text \<open>The first free host number of the network, from 2; the first free interface name of the task.\<close>

fun free_host :: "int \<Rightarrow> string set \<Rightarrow> nat list \<Rightarrow> nat option" where
  "free_host slot used [] = None"
| "free_host slot used (k # ks) = (if net_address slot k @ ''/24'' \<in> used then free_host slot used ks else Some k)"

definition eth_name :: "nat \<Rightarrow> string" where
  "eth_name k = ''eth'' @ show_nat k"

fun free_iface :: "string set \<Rightarrow> nat list \<Rightarrow> string" where
  "free_iface used [] = []"
| "free_iface used (k # ks) = (if eth_name k \<in> used then free_iface used ks else eth_name k)"

definition connect :: "string \<Rightarrow> task_rec \<Rightarrow> unit eio" where
  "connect value r =
     bindIO (find_network value) (\<lambda>n.
     if map_of (tr_networks r) (nr_name n) \<noteq> None then returnIO ()
     else
     bindIO (whenE (\<not> nr_internal n \<and> managed r) GWorkerEgress) (\<lambda>_.
     bindIO (whenE (nr_internal n \<and> tr_networks r \<noteq> [] \<and> managed r) GSecondNetwork) (\<lambda>_.
     bindIO (whenE (nr_internal n \<and> \<not> managed r \<and> label (tr_labels r) ''io.codex-dock.proxy-layout'' = []) GNotWorkerOrProxy) (\<lambda>_.
     case free_host (nr_slot n) (set (map (pe_ipv4 \<circ> snd) (nr_peers n))) [2..<255] of
       None \<Rightarrow> throwIO GNoAddress
     | Some k \<Rightarrow>
         let ip = net_address (nr_slot n) k; h = veth_name (tr_id r) (nr_id n);
             i = free_iface (set (map (ep_iface \<circ> snd) (tr_networks r))) [0..<Suc (length (tr_networks r))];
             e = \<lparr>ep_network = nr_id n, ep_id = h, ep_ip = ip, ep_gateway = nr_gateway n, ep_iface = i\<rparr>;
             r' = r\<lparr>tr_networks := tr_networks r @ [(nr_name n, e)]\<rparr>;
             n' = n\<lparr>nr_peers := AList.update (tr_id r) \<lparr>pe_name = tr_name r, pe_endpoint = h, pe_ipv4 = ip @ ''/24''\<rparr> (nr_peers n)\<rparr> in
         bindIO (save_network n') (\<lambda>_. bindIO (save_task r') (\<lambda>_. materialize_endpoint n' r' e))))))"

definition delete_endpoint_link :: "net_rec \<Rightarrow> string \<Rightarrow> string \<Rightarrow> unit eio" where
  "delete_endpoint_link n cid ep =
     bindIO (whenE (\<not> hex_id cid \<or> ep \<noteq> veth_name cid (nr_id n)) GBadEndpoint) (\<lambda>_.
     bindIO probe (\<lambda>_. bindIO (getIO (\<lambda>w. link_at w ([], ep))) (\<lambda>l. case l of
       None \<Rightarrow> returnIO ()
     | Some l \<Rightarrow> bindIO (whenE (trim_space (lk_alias l) \<noteq> veth_alias cid (nr_id n)) GForeignInterface) (\<lambda>_. link_del ep))))"

definition disconnect :: "backend \<Rightarrow> net_rec \<Rightarrow> string \<Rightarrow> unit eio" where
  "disconnect bk n cid = (case map_of (nr_peers n) cid of None \<Rightarrow> returnIO ()
     | Some e \<Rightarrow>
         bindIO (whenE (\<not> hex_id cid \<or> pe_endpoint e \<noteq> veth_name cid (nr_id n)) GBadEndpoint) (\<lambda>_.
         bindIO (delete_endpoint_link n cid (pe_endpoint e)) (\<lambda>_.
         bindIO (save_network (n\<lparr>nr_peers := AList.delete cid (nr_peers n)\<rparr>)) (\<lambda>_.
         bindIO (catchIO (load_task bk cid)) (\<lambda>x. case x of
           Inl e \<Rightarrow> whenE (e \<noteq> GNotFound) e
         | Inr (r, c) \<Rightarrow> save_task (r\<lparr>tr_networks := AList.delete (nr_name n) (tr_networks r)\<rparr>))))))"

definition drop_namespace :: "task_rec \<Rightarrow> unit eio" where
  "drop_namespace r =
     bindIO probe (\<lambda>_. bindIO (getIO (\<lambda>w. map_of (ew_netns w) (ns_name (tr_id r)))) (\<lambda>s. case s of
       None \<Rightarrow> returnIO ()
     | Some ident \<Rightarrow> bindIO (whenE (ident \<noteq> tr_netns r) GNamespaceChanged) (\<lambda>_. netns_del (ns_name (tr_id r)))))"

fun disconnect_all :: "backend \<Rightarrow> string \<Rightarrow> net_rec list \<Rightarrow> unit eio" where
  "disconnect_all bk cid [] = returnIO ()"
| "disconnect_all bk cid (n # ns) = bindIO (disconnect bk n cid) (\<lambda>_. disconnect_all bk cid ns)"

definition remove_namespace :: "backend \<Rightarrow> task_rec \<Rightarrow> unit eio" where
  "remove_namespace bk r =
     bindIO networks (\<lambda>all. bindIO (disconnect_all bk (tr_id r) all) (\<lambda>_. drop_namespace r))"

text \<open>\<open>refreshWorkerNamespace\<close>, for a stopped worker of the VM runtime; its record has one endpoint.\<close>

definition refresh_worker_namespace :: "task_rec \<Rightarrow> unit eio" where
  "refresh_worker_namespace r =
     (case tr_networks r of
        [(name, e)] \<Rightarrow>
          if \<not> managed r then throwIO GNotSingleWorker
          else
            bindIO (find_network name) (\<lambda>n.
            bindIO (whenE (\<not> nr_internal n \<or> (case map_of (nr_peers n) (tr_id r) of None \<Rightarrow> [] | Some p \<Rightarrow> pe_endpoint p) \<noteq> ep_id e)
              GBadEndpoint) (\<lambda>_.
            bindIO (delete_endpoint_link n (tr_id r) (ep_id e)) (\<lambda>_.
            bindIO (drop_namespace r) (\<lambda>_.
            bindIO (new_namespace r) (\<lambda>r'.
            bindIO (find_network name) (\<lambda>n'. materialize_endpoint n' r' e))))))
      | _ \<Rightarrow> throwIO GNotSingleWorker)"

section \<open>Requests\<close>

datatype net_request =
    CreateNet string string bool "bool option" "(string \<times> string) list" "(string \<times> string) list"
  | ListNets | InspectNet string | DeleteNet string | ConnectNet string string | DisconnectNet string string

definition network_http :: "backend \<Rightarrow> net_request \<Rightarrow> net_rec list eio" where
  "network_http bk q = (case q of
     CreateNet name driver internal ipv6 labels options \<Rightarrow>
       bindIO (create_network bk name driver internal ipv6 labels options) (\<lambda>_. returnIO [])
   | ListNets \<Rightarrow> networks
   | InspectNet v \<Rightarrow> bindIO (find_network v) (\<lambda>n. bindIO (verify_network bk n) (\<lambda>_. returnIO [n]))
   | DeleteNet v \<Rightarrow> bindIO (find_network v) (\<lambda>n. bindIO (remove_network n) (\<lambda>_. returnIO []))
   | ConnectNet v c \<Rightarrow> bindIO (find_network v) (\<lambda>n. bindIO (load_task bk c) (\<lambda>(r, nat).
       bindIO (connect (nr_id n) r) (\<lambda>_. returnIO [])))
   | DisconnectNet v c \<Rightarrow> bindIO (find_network v) (\<lambda>n. bindIO (load_task bk c) (\<lambda>(r, nat).
       bindIO (disconnect bk n (tr_id r)) (\<lambda>_. returnIO []))))"

section \<open>Intents and recovery\<close>

definition kernel_idle :: "task_rec \<Rightarrow> unit eio" where
  "kernel_idle r = (let path = (if tr_cgroup_parent r \<noteq> [] then tr_cgroup_parent r
       else case tr_spec_cgroup r of Some p \<Rightarrow> p | None \<Rightarrow> ''/codex-dock-services/'' @ tr_id r) in
     bindIO (whenE (\<not> is_abs path \<or> path_clean path \<noteq> path \<or> path = ''/'') GBadCgroup) (\<lambda>_.
     bindIO probe (\<lambda>_. bindIO (getIO (\<lambda>w. map_of (ew_cgroups w) path)) (\<lambda>d. case d of
       None \<Rightarrow> returnIO ()
     | Some s \<Rightarrow> whenE (\<not> sublist ''populated 0'' s) GLive))))"

definition clear_intent :: "backend \<Rightarrow> task_rec \<Rightarrow> unit eio" where
  "clear_intent bk r =
     bindIO (kernel_idle r) (\<lambda>_.
     bindIO (remove_namespace bk r) (\<lambda>_.
     bindIO probe (\<lambda>_.
     ecall (updIO (\<lambda>w. w\<lparr>ew_recs := AList.delete (tr_id r) (ew_recs w)\<rparr>)))))"

definition cancel_creation :: "backend \<Rightarrow> task_rec \<Rightarrow> unit eio" where
  "cancel_creation bk r =
     bindIO probe (\<lambda>_. bindIO (getIO (\<lambda>w. find (\<lambda>c. na_id c = tr_id r) (ew_natives w))) (\<lambda>c. case c of
       None \<Rightarrow> clear_intent bk r
     | Some c \<Rightarrow>
         bindIO (load_task bk (tr_id r)) (\<lambda>_.
         bindIO probe (\<lambda>_.
         bindIO (whenE (na_task c) GLive) (\<lambda>_.
         bindIO (ecall (updIO (\<lambda>w. w\<lparr>ew_natives := filter (\<lambda>x. na_id x \<noteq> tr_id r) (ew_natives w)\<rparr>))) (\<lambda>_.
           clear_intent bk r))))))"

fun recover_intents :: "backend \<Rightarrow> (string \<times> task_rec) list \<Rightarrow> unit eio" where
  "recover_intents bk [] = returnIO ()"
| "recover_intents bk ((name, r) # rest) =
     bindIO (whenE (\<not> hex_id name) GBadRecord) (\<lambda>_.
     bindIO probe (\<lambda>_. bindIO (getIO (\<lambda>w. list_ex (\<lambda>c. na_id c = name) (ew_natives w))) (\<lambda>known.
     bindIO (if known then returnIO () else
       bindIO probe (\<lambda>_. bindIO (whenE (tr_id r \<noteq> name) GBadRecord) (\<lambda>_. clear_intent bk r))) (\<lambda>_.
     recover_intents bk rest))))"

text \<open>
  The part of \<open>create\<close> that reserves the private record, the namespace and the endpoint of a new task, and
  cancels the creation when one of them fails.
\<close>

definition reserve_task :: "backend \<Rightarrow> task_rec \<Rightarrow> string \<Rightarrow> unit eio" where
  "reserve_task bk spec mode =
     bindIO random_id (\<lambda>cid. let r = spec\<lparr>tr_id := cid, tr_networks := []\<rparr> in
     bindIO (save_task r) (\<lambda>_.
     bindIO (try_namespace r) (\<lambda>(r', x).
     bindIO (case x of None \<Rightarrow> catchIO (connect mode r') | Some e \<Rightarrow> returnIO (Inl e)) (\<lambda>y. case y of
       Inr _ \<Rightarrow> returnIO ()
     | Inl e \<Rightarrow> bindIO (catchIO (cancel_creation bk r')) (\<lambda>_. throwIO e)))))"

fun load_all :: "backend \<Rightarrow> native list \<Rightarrow> (task_rec \<times> bool) list eio" where
  "load_all bk [] = returnIO []"
| "load_all bk (c # cs) = bindIO (load_task bk (na_id c)) (\<lambda>(r, nat). bindIO probe (\<lambda>_.
     bindIO (load_all bk cs) (\<lambda>rs. returnIO ((r, na_task c) # rs))))"

fun occupants_idle :: "(task_rec \<times> bool) list \<Rightarrow> (string \<times> peer) list \<Rightarrow> unit eio" where
  "occupants_idle recs [] = returnIO ()"
| "occupants_idle recs ((cid, e) # rest) =
     (case find (\<lambda>(r, live). tr_id r = cid) recs of
        None \<Rightarrow> throwIO GUnreconciled
      | Some (r, live) \<Rightarrow> bindIO (whenE live GLive) (\<lambda>_. bindIO (kernel_idle r) (\<lambda>_. occupants_idle recs rest)))"

definition recover_network :: "backend \<Rightarrow> (task_rec \<times> bool) list \<Rightarrow> net_rec \<Rightarrow> unit eio" where
  "recover_network bk recs n =
     bindIO probe (\<lambda>_. bindIO (getIO (\<lambda>w. link_at w ([], nr_bridge n))) (\<lambda>b.
     if b = None then
       bindIO (occupants_idle recs (nr_peers n)) (\<lambda>_.
       bindIO (catchIO (firewall_hash bk n)) (\<lambda>h.
       bindIO (case h of Inl _ \<Rightarrow> returnIO ()
         | Inr x \<Rightarrow> bindIO (whenE (nr_firewall n = [] \<or> x \<noteq> nr_firewall n) GFirewallChanged) (\<lambda>_. nft_delete (net_table n))) (\<lambda>_.
       bindIO (materialize_network bk n) (\<lambda>_. returnIO ()))))
     else if nr_firewall n \<noteq> [] then verify_network bk n else returnIO ()))"

fun each :: "('a \<Rightarrow> unit eio) \<Rightarrow> 'a list \<Rightarrow> unit eio" where
  "each f [] = returnIO ()"
| "each f (x # xs) = bindIO (f x) (\<lambda>_. each f xs)"

definition delete_saved_endpoint :: "task_rec \<Rightarrow> string \<times> endpoint \<Rightarrow> unit eio" where
  "delete_saved_endpoint r p = bindIO (find_network (fst p)) (\<lambda>n. delete_endpoint_link n (tr_id r) (ep_id (snd p)))"

definition restore_endpoint :: "task_rec \<Rightarrow> string \<times> endpoint \<Rightarrow> unit eio" where
  "restore_endpoint r p = bindIO (find_network (fst p)) (\<lambda>n.
     bindIO (whenE ((case map_of (nr_peers n) (tr_id r) of None \<Rightarrow> [] | Some x \<Rightarrow> pe_endpoint x) \<noteq> ep_id (snd p)) GDrift) (\<lambda>_.
     materialize_endpoint n r (snd p)))"

definition recover_task :: "task_rec \<times> bool \<Rightarrow> unit eio" where
  "recover_task x = (case x of (r, live) \<Rightarrow>
     bindIO probe (\<lambda>_. bindIO (getIO (\<lambda>w. map_of (ew_netns w) (ns_name (tr_id r)))) (\<lambda>s. case s of
       Some ident \<Rightarrow> whenE (ident \<noteq> tr_netns r) GNamespaceChanged
     | None \<Rightarrow>
         bindIO (whenE live GLive) (\<lambda>_.
         bindIO (kernel_idle r) (\<lambda>_.
         bindIO (each (delete_saved_endpoint r) (tr_networks r)) (\<lambda>_.
         bindIO (new_namespace r) (\<lambda>r'.
           each (restore_endpoint r') (sort_key (ep_iface \<circ> snd) (tr_networks r')))))))))"

definition recover_networks :: "backend \<Rightarrow> native list \<Rightarrow> unit eio" where
  "recover_networks bk containers =
     bindIO (load_all bk containers) (\<lambda>recs.
     bindIO networks (\<lambda>nets.
     bindIO (each (recover_network bk recs) nets) (\<lambda>_.
     each recover_task recs)))"

definition recover_engine :: "backend \<Rightarrow> unit eio" where
  "recover_engine bk =
     bindIO probe (\<lambda>_. bindIO (getIO (\<lambda>w. filter na_owned (ew_natives w))) (\<lambda>all.
     bindIO probe (\<lambda>_. bindIO (getIO ew_recs) (\<lambda>tasks.
     bindIO (recover_intents bk tasks) (\<lambda>_. recover_networks bk all)))))"

section \<open>Runs\<close>

text \<open>
  Requests, task creations, restarts of workers and of the engine, and what happens to the node in between:
  containers, control groups, addresses and routes change, and a reboot loses links, tables and namespaces.
\<close>

datatype engine_op =
    NetRequest net_request
  | ReserveTask task_rec string
  | RefreshTask string
  | CancelTask string
  | Recover
  | NodeChange "native list" "(string \<times> string) list" "string list list" "string list option" string
  | NodeReboot

fun engine_step :: "backend \<Rightarrow> engine_op \<Rightarrow> unit eio" where
  "engine_step bk (NetRequest q) = bindIO (network_http bk q) (\<lambda>_. returnIO ())"
| "engine_step bk (ReserveTask spec mode) = reserve_task bk spec mode"
| "engine_step bk (RefreshTask v) = bindIO (load_task bk v) (\<lambda>(r, c). refresh_worker_namespace r)"
| "engine_step bk (CancelTask v) = bindIO (load_task bk v) (\<lambda>(r, c). cancel_creation bk r)"
| "engine_step bk Recover = recover_engine bk"
| "engine_step bk (NodeChange cs cg ifs rs fw) =
     updIO (\<lambda>w. w\<lparr>ew_natives := cs, ew_cgroups := cg, ew_host := ifs, ew_routes := rs, ew_forward := fw\<rparr>)"
| "engine_step bk NodeReboot = updIO (\<lambda>w. w\<lparr>ew_links := [], ew_tables := [], ew_netns := []\<rparr>)"

fun engine_run :: "backend \<Rightarrow> (fault list \<times> engine_op) list \<Rightarrow> eworld \<Rightarrow> eworld" where
  "engine_run bk [] w = w"
| "engine_run bk ((fs, q) # ops) w = engine_run bk ops (snd (engine_step bk q (w\<lparr>ew_faults := fs\<rparr>)))"

end
