(* ===== verification/EngineLinks.thy ===== *)
theory EngineLinks
  imports EngineNetwork
begin

text \<open>
  The networks of the node engine stay separate: over any operations, with any failing command, each saved
  network has its own subnet and each endpoint its own address, a worker has at most one network and it is
  internal, and every interface in a task's namespace is the end of an endpoint its record holds.
\<close>

section \<open>Views of the world\<close>

definition net_at :: "eworld \<Rightarrow> string \<Rightarrow> net_rec option" where
  "net_at w nid = (case map_of (ew_nets w) (net_file nid) of Some (Some n) \<Rightarrow> Some n | _ \<Rightarrow> None)"

definition rec_at :: "eworld \<Rightarrow> string \<Rightarrow> task_rec option" where
  "rec_at w cid = map_of (ew_recs w) cid"

lemma net_file_inj [simp]: "net_file a = net_file b \<longleftrightarrow> a = b"
  by (simp add: net_file_def)

lemma fault_views [simp]:
  "net_at (w\<lparr>ew_faults := fs\<rparr>) = net_at w" "rec_at (w\<lparr>ew_faults := fs\<rparr>) = rec_at w" "link_at (w\<lparr>ew_faults := fs\<rparr>) = link_at w"
  by (simp_all add: fun_eq_iff net_at_def rec_at_def link_at_def)

lemma link_views [simp]:
  "net_at (w\<lparr>ew_links := ls\<rparr>) = net_at w" "rec_at (w\<lparr>ew_links := ls\<rparr>) = rec_at w"
  by (simp_all add: fun_eq_iff net_at_def rec_at_def)

lemma other_views [simp]:
  "net_at (w\<lparr>ew_tables := ts\<rparr>) = net_at w" "rec_at (w\<lparr>ew_tables := ts\<rparr>) = rec_at w" "link_at (w\<lparr>ew_tables := ts\<rparr>) = link_at w"
  "net_at (w\<lparr>ew_netns := ns\<rparr>) = net_at w" "rec_at (w\<lparr>ew_netns := ns\<rparr>) = rec_at w" "link_at (w\<lparr>ew_netns := ns\<rparr>) = link_at w"
  "net_at (w\<lparr>ew_inodes := is\<rparr>) = net_at w" "rec_at (w\<lparr>ew_inodes := is\<rparr>) = rec_at w" "link_at (w\<lparr>ew_inodes := is\<rparr>) = link_at w"
  "net_at (w\<lparr>ew_natives := cs\<rparr>) = net_at w" "rec_at (w\<lparr>ew_natives := cs\<rparr>) = rec_at w" "link_at (w\<lparr>ew_natives := cs\<rparr>) = link_at w"
  "net_at (w\<lparr>ew_random := xs\<rparr>) = net_at w" "rec_at (w\<lparr>ew_random := xs\<rparr>) = rec_at w" "link_at (w\<lparr>ew_random := xs\<rparr>) = link_at w"
  "net_at (w\<lparr>ew_recs := rs\<rparr>) = net_at w" "link_at (w\<lparr>ew_recs := rs\<rparr>) = link_at w"
  "rec_at (w\<lparr>ew_nets := qs\<rparr>) = rec_at w" "link_at (w\<lparr>ew_nets := qs\<rparr>) = link_at w"
  by (simp_all add: fun_eq_iff net_at_def rec_at_def link_at_def)

lemma net_at_put [simp]: "net_at (put_net n w) = (net_at w)(nr_id n \<mapsto> n)"
  by (rule ext) (simp add: net_at_def put_net_def update_conv)

lemma rec_at_put [simp]: "rec_at (put_rec r w) = (rec_at w)(tr_id r \<mapsto> r)"
  by (rule ext) (simp add: rec_at_def put_rec_def update_conv)

lemma put_views [simp]:
  "rec_at (put_net n w) = rec_at w" "link_at (put_net n w) = link_at w"
  "net_at (put_rec r w) = net_at w" "link_at (put_rec r w) = link_at w"
  by (simp_all add: put_net_def put_rec_def)

lemma map_of_drop: "map_of (filter (\<lambda>(k, l). \<not> P k) xs) k = (if P k then None else map_of xs k)"
  by (induction xs) auto

lemma link_drop [simp]: "link_at (drop_links P w) k = (if P k then None else link_at w k)"
  by (simp add: link_at_def drop_links_def map_of_drop)

lemma drop_views [simp]: "net_at (drop_links P w) = net_at w" "rec_at (drop_links P w) = rec_at w"
  by (simp_all add: fun_eq_iff net_at_def rec_at_def drop_links_def)

lemma map_of_rekey:
  "map_of (map (\<lambda>(x, y). if x = j then (x, f y) else (x, y)) (filter (\<lambda>(x, y). x \<noteq> k) xs)) x =
     (if x = k then None else if x = j then map_option f (map_of xs x) else map_of xs x)"
proof (induction xs)
  case (Cons a xs)
  obtain y v where a: "a = (y, v)" by (cases a)
  show ?case
  proof (cases "x = k")
    case True
    with Cons a show ?thesis by (cases "y = k"; cases "y = j") auto
  next
    case False
    with Cons a show ?thesis by (cases "y = k"; cases "y = j"; cases "y = x") auto
  qed
qed simp

lemma link_rekey [simp]:
  "link_at (rekey k k' l w) x = (if x = k' then Some l else if x = k then None
     else if x = lk_pair l then map_option (\<lambda>y. y\<lparr>lk_pair := k'\<rparr>) (link_at w x) else link_at w x)"
  by (simp add: link_at_def rekey_def map_of_rekey)

lemma rekey_views [simp]: "net_at (rekey k k' l w) = net_at w" "rec_at (rekey k k' l w) = rec_at w"
  by (simp_all add: fun_eq_iff net_at_def rec_at_def rekey_def)

lemma link_cons [simp]:
  "link_at (w\<lparr>ew_links := (k, l) # ew_links w\<rparr>) x = (if x = k then Some l else link_at w x)"
  "link_at (w\<lparr>ew_links := (k, l) # (k', l') # ew_links w\<rparr>) x = (if x = k then Some l else if x = k' then Some l' else link_at w x)"
  by (simp_all add: link_at_def)

lemma link_update [simp]: "link_at (w\<lparr>ew_links := AList.update k l (ew_links w)\<rparr>) x = (if x = k then Some l else link_at w x)"
  by (simp add: link_at_def update_conv)

lemma quiet_pair [simp, intro]: "quiet v (Pair x)"
  by (simp add: quiet_def)

section \<open>The invariant\<close>

definition net_wf :: "net_rec \<Rightarrow> bool" where
  "net_wf n \<longleftrightarrow> valid_net_record (net_file (nr_id n)) n \<and> nr_subnet n = slot_subnet (nr_slot n) \<and>
     distinct (map fst (nr_peers n)) \<and> distinct (map (pe_ipv4 \<circ> snd) (nr_peers n)) \<and>
     (\<forall>(c, p) \<in> set (nr_peers n). pe_endpoint p = veth_name c (nr_id n) \<and>
        (\<exists>k. 2 \<le> k \<and> k < 255 \<and> pe_ipv4 p = net_address (nr_slot n) k @ ''/24''))"

definition nets_ok :: "eworld \<Rightarrow> bool" where
  "nets_ok w \<longleftrightarrow> distinct (map fst (ew_nets w)) \<and>
     (\<forall>f n. (f, Some n) \<in> set (ew_nets w) \<longrightarrow> f = net_file (nr_id n) \<and> net_wf n) \<and>
     (\<forall>a b n m. net_at w a = Some n \<longrightarrow> net_at w b = Some m \<longrightarrow> a \<noteq> b \<longrightarrow> nr_slot n \<noteq> nr_slot m \<and> nr_name n \<noteq> nr_name m)"

definition recs_ok :: "eworld \<Rightarrow> bool" where
  "recs_ok w \<longleftrightarrow> (\<forall>c r. rec_at w c = Some r \<longrightarrow> tr_id r = c \<and> (managed r \<longrightarrow> length (tr_networks r) \<le> 1))"

text \<open>What a network's peer entry says of the task it names.\<close>

definition peer_ok :: "net_rec \<Rightarrow> string \<Rightarrow> task_rec \<Rightarrow> bool" where
  "peer_ok n c r \<longleftrightarrow> (managed r \<longrightarrow> nr_internal n) \<and>
     (\<forall>e. (nr_name n, e) \<in> set (tr_networks r) \<longrightarrow> ep_id e = veth_name c (nr_id n))"

definition peers_ok :: "eworld \<Rightarrow> bool" where
  "peers_ok w \<longleftrightarrow> (\<forall>d n c p r. net_at w d = Some n \<longrightarrow> (c, p) \<in> set (nr_peers n) \<longrightarrow> rec_at w c = Some r \<longrightarrow> peer_ok n c r)"

text \<open>What is random has not been drawn before.\<close>

definition fresh_id :: "eworld \<Rightarrow> string \<Rightarrow> bool" where
  "fresh_id w x \<longleftrightarrow> hex_id x \<and> map_of (ew_nets w) (net_file x) = None \<and> rec_at w x = None \<and>
     (\<forall>d n. net_at w d = Some n \<longrightarrow> x \<notin> fst ` set (nr_peers n))"

definition fresh_ok :: "eworld \<Rightarrow> bool" where
  "fresh_ok w \<longleftrightarrow> distinct (ew_random w) \<and> (\<forall>x \<in> set (ew_random w). fresh_id w x)"

text \<open>A task and a network that know each other.\<close>

definition joined :: "eworld \<Rightarrow> string \<Rightarrow> string \<Rightarrow> bool" where
  "joined w cid nid \<longleftrightarrow> (\<exists>n p. net_at w nid = Some n \<and> (cid, p) \<in> set (nr_peers n)) \<and>
     (\<exists>r nm e. rec_at w cid = Some r \<and> (nm, e) \<in> set (tr_networks r) \<and> ep_id e = veth_name cid nid)"

definition host_end_ok :: "eworld \<Rightarrow> string \<Rightarrow> link \<Rightarrow> bool" where
  "host_end_ok w h l \<longleftrightarrow> (\<exists>cid nid. h = veth_name cid nid \<and> joined w cid nid \<and> lk_master l \<in> {[], bridge_name nid} \<and>
     fst (lk_pair l) \<in> {[], ns_name cid}) \<and>
     (\<exists>l'. link_at w (lk_pair l) = Some l' \<and> lk_role l' = PeerEnd \<and> lk_pair l' = ([], h))"

definition link_ok :: "eworld \<Rightarrow> string \<times> string \<Rightarrow> link \<Rightarrow> bool" where
  "link_ok w k l \<longleftrightarrow> (case lk_role l of
       HostEnd \<Rightarrow> fst k = [] \<and> host_end_ok w (snd k) l
     | BridgeLink \<Rightarrow> fst k = [] \<and> lk_master l = []
     | PeerEnd \<Rightarrow> lk_master l = [] \<and> (\<exists>l'. link_at w (lk_pair l) = Some l' \<and> lk_role l' = HostEnd \<and> lk_pair l' = k))"

definition links_ok :: "eworld \<Rightarrow> bool" where
  "links_ok w \<longleftrightarrow> distinct (map fst (ew_links w)) \<and> (\<forall>k l. link_at w k = Some l \<longrightarrow> link_ok w k l)"

text \<open>No container of the engine is named like an identifier.\<close>

definition names_ok :: "eworld \<Rightarrow> bool" where
  "names_ok w \<longleftrightarrow> (\<forall>c \<in> set (ew_natives w). \<not> hex_id (label (na_labels c) ''codex-dock.name''))"

definition einv :: "eworld \<Rightarrow> bool" where
  "einv w \<longleftrightarrow> names_ok w \<and> nets_ok w \<and> recs_ok w \<and> peers_ok w \<and> fresh_ok w \<and> links_ok w"

lemma joined_cong: "net_at w' = net_at w \<Longrightarrow> rec_at w' = rec_at w \<Longrightarrow> joined w' = joined w"
  by (simp add: fun_eq_iff joined_def)

lemma joined_faults [simp]: "joined (w\<lparr>ew_faults := fs\<rparr>) = joined w" "joined (w\<lparr>ew_links := ls\<rparr>) = joined w"
  "joined (drop_links P w) = joined w" "joined (rekey k k' l w) = joined w" "joined (w\<lparr>ew_tables := ts\<rparr>) = joined w"
  "joined (w\<lparr>ew_netns := ns\<rparr>) = joined w" "joined (w\<lparr>ew_inodes := is\<rparr>) = joined w" "joined (w\<lparr>ew_natives := cs\<rparr>) = joined w"
  by (simp_all add: fun_eq_iff joined_def)

lemma einv_cong:
  assumes "ew_nets w' = ew_nets w" and "ew_recs w' = ew_recs w" and "ew_links w' = ew_links w" and "ew_random w' = ew_random w"
    and "ew_natives w' = ew_natives w"
  shows "einv w' = einv w"
proof -
  have v: "net_at w' = net_at w" "rec_at w' = rec_at w" "link_at w' = link_at w"
    using assms by (simp_all add: fun_eq_iff net_at_def rec_at_def link_at_def)
  have j: "joined w' = joined w" using v(1,2) by (rule joined_cong)
  have "link_ok w' k l = link_ok w k l" for k l unfolding link_ok_def host_end_ok_def v(3) j by simp
  then show ?thesis
    using v assms by (simp add: einv_def nets_ok_def names_ok_def recs_ok_def peers_ok_def fresh_ok_def fresh_id_def links_ok_def)
qed

lemma einv_simps [simp]:
  "einv (w\<lparr>ew_faults := fs\<rparr>) = einv w" "einv (w\<lparr>ew_tables := ts\<rparr>) = einv w" "einv (w\<lparr>ew_netns := ns\<rparr>) = einv w"
  "einv (w\<lparr>ew_inodes := is\<rparr>) = einv w"
  by (rule einv_cong; simp)+

text \<open>Operations on links leave the records alone.\<close>

lemma einv_links:
  assumes "einv w" and "ew_nets w' = ew_nets w" and "ew_recs w' = ew_recs w" and "ew_random w' = ew_random w" and "links_ok w'"
    and "ew_natives w' = ew_natives w"
  shows "einv w'"
proof -
  have v: "net_at w' = net_at w" "rec_at w' = rec_at w" using assms by (simp_all add: fun_eq_iff net_at_def rec_at_def)
  then show ?thesis using assms by (simp add: einv_def nets_ok_def names_ok_def recs_ok_def peers_ok_def fresh_ok_def fresh_id_def)
qed

section \<open>Commands\<close>

lemma triple_ecall:
  assumes "triple P eff Q (\<lambda>_. R)" and "\<And>w fs. P (w\<lparr>ew_faults := fs\<rparr>) = P w" and "\<And>x w. Q x w \<Longrightarrow> R w"
    and "\<And>w. P w \<Longrightarrow> R w"
  shows "triple P (ecall eff) Q (\<lambda>_. R)"
proof (rule tripleI)
  fix w x w' assume p: "P w" and r: "ecall eff w = (Inr x, w')"
  from r have "\<exists>fs. eff (w\<lparr>ew_faults := fs\<rparr>) = (Inr x, w')"
    by (auto simp: ecall_def Let_def split: list.splits fault.splits intro: exI [of _ "[]"])
       (metis eworld.surjective eworld.update_convs(11))
  then obtain fs where "eff (w\<lparr>ew_faults := fs\<rparr>) = (Inr x, w')" by blast
  with triple_Inr [OF assms(1)] p assms(2) show "Q x w'" by blast
next
  fix w e w' assume p: "P w" and r: "ecall eff w = (Inl e, w')"
  have fl: "R (snd (eff (w\<lparr>ew_faults := fs\<rparr>)))" for fs
  proof -
    obtain y v where y: "eff (w\<lparr>ew_faults := fs\<rparr>) = (y, v)" by fastforce
    have "P (w\<lparr>ew_faults := fs\<rparr>)" using p assms(2) by blast
    then show ?thesis
      using y triple_Inr [OF assms(1), of "w\<lparr>ew_faults := fs\<rparr>"] triple_Inl [OF assms(1), of "w\<lparr>ew_faults := fs\<rparr>"] assms(3)
      by (cases y) fastforce+
  qed
  have self: "w = w\<lparr>ew_faults := ew_faults w\<rparr>" by simp
  show "R w'"
  proof (cases "ew_faults w")
    case Nil
    then have "w\<lparr>ew_faults := []\<rparr> = w" using self by metis
    with r fl [of "[]"] Nil show ?thesis by (simp add: ecall_def)
  next
    case (Cons f fs)
    with r fl [of fs] p assms(2,4) show ?thesis by (cases f) (auto simp: ecall_def Let_def)
  qed
qed

text \<open>Records and random numbers: what commands on links do not change.\<close>

definition disk :: "eworld \<Rightarrow> (string \<times> net_rec option) list \<times> (string \<times> task_rec) list \<times> string list" where
  "disk w = (ew_nets w, ew_recs w, ew_random w)"

definition core :: "eworld \<Rightarrow> eworld" where
  "core w = w\<lparr>ew_faults := []\<rparr>"

lemma disk_simps [simp]:
  "disk (w\<lparr>ew_faults := fs\<rparr>) = disk w" "disk (w\<lparr>ew_links := ls\<rparr>) = disk w" "disk (w\<lparr>ew_tables := ts\<rparr>) = disk w"
  "disk (w\<lparr>ew_netns := ns\<rparr>) = disk w" "disk (w\<lparr>ew_inodes := is\<rparr>) = disk w" "disk (w\<lparr>ew_natives := cs\<rparr>) = disk w"
  "disk (drop_links P w) = disk w" "disk (rekey k k' l w) = disk w"
  by (simp_all add: disk_def drop_links_def rekey_def)

lemma disk_views:
  assumes "disk w' = disk w"
  shows "net_at w' = net_at w" "rec_at w' = rec_at w" "joined w' = joined w" "ew_random w' = ew_random w" "ew_nets w' = ew_nets w"
proof -
  from assms show n: "net_at w' = net_at w" and r: "rec_at w' = rec_at w" "ew_random w' = ew_random w" "ew_nets w' = ew_nets w"
    by (simp_all add: fun_eq_iff disk_def net_at_def rec_at_def)
  from n r(1) show "joined w' = joined w" by (rule joined_cong)
qed

lemma core_views:
  assumes "core w' = core w"
  shows "disk w' = disk w" "link_at w' = link_at w" "einv w' = einv w" "ew_links w' = ew_links w" "ew_natives w' = ew_natives w"
    "ew_netns w' = ew_netns w"
proof -
  have f: "f (core x) = f x" if "\<And>x fs. f (x\<lparr>ew_faults := fs\<rparr>) = f x" for f :: "eworld \<Rightarrow> 'b" and x using that by (simp add: core_def)
  show "disk w' = disk w" using f [of disk w] f [of disk w'] assms by simp
  show "link_at w' = link_at w" using f [of link_at w] f [of link_at w'] assms by simp
  show "einv w' = einv w" using f [of einv w] f [of einv w'] assms by simp
  show "ew_links w' = ew_links w" using f [of ew_links w] f [of ew_links w'] assms by simp
  show "ew_natives w' = ew_natives w" using f [of ew_natives w] f [of ew_natives w'] assms by simp
  show "ew_netns w' = ew_netns w" using f [of ew_netns w] f [of ew_netns w'] assms by simp
qed

lemma quiet_ecall:
  assumes "\<And>w fs. v (w\<lparr>ew_faults := fs\<rparr>) = v w" and "quiet v m"
  shows "quiet v (ecall m)"
  using assms unfolding quiet_def ecall_def Let_def by (auto split: list.split fault.split)

lemma core_faults [simp]: "core (w\<lparr>ew_faults := fs\<rparr>) = core w"
  by (simp add: core_def)

lemma core_probe [simp, intro]: "quiet core probe"
  unfolding probe_def by (rule quiet_ecall) auto

lemma core_read_nets [simp, intro]: "quiet core (read_nets xs)"
  by (induction xs rule: read_nets.induct) (auto intro!: quiet_bind split: option.split)

lemma core_networks [simp, intro]: "quiet core networks"
  unfolding networks_def by (intro quiet_bind) auto

lemma core_find_network [simp, intro]: "quiet core (find_network v)"
  unfolding find_network_def by (intro quiet_bind) (auto split: list.split)

lemma core_find_native [simp, intro]: "quiet core (find_native v cs f)"
  by (induction v cs f rule: find_native.induct) (auto intro!: quiet_bind)

lemma core_load_task [simp, intro]: "quiet core (load_task bk v)"
  unfolding load_task_def by (auto intro!: quiet_bind split: option.split)

lemma core_firewall_hash [simp, intro]: "quiet core (firewall_hash bk n)"
  unfolding firewall_hash_def by (auto intro!: quiet_bind split: option.split)

lemma core_verify_network [simp, intro]: "quiet core (verify_network bk n)"
  unfolding verify_network_def by (auto intro!: quiet_bind split: option.split)

lemma core_kernel_idle [simp, intro]: "quiet core (kernel_idle r)"
  unfolding kernel_idle_def by (auto intro!: quiet_bind split: option.split simp: Let_def)

lemma core_occupants_idle [simp, intro]: "quiet core (occupants_idle recs ps)"
  by (induction recs ps rule: occupants_idle.induct) (auto intro!: quiet_bind split: option.split)

lemma core_load_all [simp, intro]: "quiet core (load_all bk cs)"
  by (induction cs) (auto intro!: quiet_bind split: prod.split)

lemma core_interface_addresses [simp, intro]: "quiet core (interface_addresses xs)"
  by (induction xs) (auto intro!: quiet_bind)

lemma core_step: "quiet core m \<Longrightarrow> m w = (r, w') \<Longrightarrow> core w' = core w"
  by (rule quietD)

lemma core_invariant: "quiet core m \<Longrightarrow> keeps (\<lambda>w. einv w \<and> disk w = d) m"
  by (rule keepsI) (metis core_step core_views(1,3) prod.collapse)

section \<open>Commands on links\<close>

lemma links_okD: "links_ok w \<Longrightarrow> link_at w k = Some l \<Longrightarrow> link_ok w k l"
  unfolding links_ok_def by blast

lemma link_ok_hostD:
  assumes "links_ok w" and "link_at w ([], h) = Some l" and "lk_role l = HostEnd"
  shows "host_end_ok w h l"
  using assms by (fastforce simp: links_ok_def link_ok_def)

lemma host_end_okD:
  assumes "host_end_ok w h l"
  obtains cid nid l' where "h = veth_name cid nid" "joined w cid nid" "lk_master l \<in> {[], bridge_name nid}"
    "fst (lk_pair l) \<in> {[], ns_name cid}" "link_at w (lk_pair l) = Some l'" "lk_role l' = PeerEnd" "lk_pair l' = ([], h)"
  using assms unfolding host_end_ok_def by blast

text \<open>What is known of an end depends on the pair of the other end only.\<close>

lemma link_ok_mono:
  assumes o: "link_ok w k l" and j: "\<And>c d. k = ([], veth_name c d) \<Longrightarrow> lk_role l = HostEnd \<Longrightarrow> joined w c d \<Longrightarrow> joined w' c d"
    and p: "\<And>y. lk_role l \<noteq> BridgeLink \<Longrightarrow> link_at w (lk_pair l) = Some y \<Longrightarrow> lk_role y \<noteq> BridgeLink \<Longrightarrow> lk_pair y = k \<Longrightarrow>
        \<exists>y'. link_at w' (lk_pair l) = Some y' \<and> lk_role y' = lk_role y \<and> lk_pair y' = lk_pair y"
  shows "link_ok w' k l"
proof (cases "lk_role l")
  case BridgeLink
  with o show ?thesis by (simp add: link_ok_def)
next
  case HostEnd
  with o have h: "fst k = []" "host_end_ok w (snd k) l" by (simp_all add: link_ok_def)
  from h(2) obtain c d y where y: "snd k = veth_name c d" "joined w c d" "lk_master l \<in> {[], bridge_name d}"
      "fst (lk_pair l) \<in> {[], ns_name c}" "link_at w (lk_pair l) = Some y" "lk_role y = PeerEnd" "lk_pair y = ([], snd k)"
    by (rule host_end_okD)
  have "k = ([], snd k)" using h(1) by (cases k) simp
  with p [OF _ y(5)] HostEnd y(6,7) obtain y' where "link_at w' (lk_pair l) = Some y'" "lk_role y' = PeerEnd" "lk_pair y' = ([], snd k)"
    by auto
  moreover have "\<exists>c d. snd k = veth_name c d \<and> joined w' c d \<and> lk_master l \<in> {[], bridge_name d} \<and> fst (lk_pair l) \<in> {[], ns_name c}"
    using y(1-4) j \<open>k = ([], snd k)\<close> HostEnd by metis
  ultimately show ?thesis using h(1) HostEnd by (simp add: link_ok_def host_end_ok_def)
next
  case PeerEnd
  with o obtain y where y: "lk_master l = []" "link_at w (lk_pair l) = Some y" "lk_role y = HostEnd" "lk_pair y = k"
    by (auto simp: link_ok_def)
  with p [OF _ y(2)] PeerEnd obtain y' where "link_at w' (lk_pair l) = Some y'" "lk_role y' = HostEnd" "lk_pair y' = k" by auto
  with y PeerEnd show ?thesis by (simp add: link_ok_def)
qed

lemma links_okI:
  assumes "distinct (map fst (ew_links w))" and "\<And>k l. link_at w k = Some l \<Longrightarrow> link_ok w k l"
  shows "links_ok w"
  using assms by (simp add: links_ok_def)

lemma links_ok_update:
  assumes ok: "links_ok w" and k: "link_at w k = Some l" and s: "lk_role l' = lk_role l" "lk_pair l' = lk_pair l"
    and m: "lk_master l' = lk_master l \<or> lk_role l = HostEnd \<and> (\<exists>cid nid. snd k = veth_name cid nid \<and> joined w cid nid \<and>
       lk_master l' \<in> {[], bridge_name nid} \<and> fst (lk_pair l) \<in> {[], ns_name cid})"
  shows "links_ok (w\<lparr>ew_links := AList.update k l' (ew_links w)\<rparr>)"
proof (rule links_okI)
  show "distinct (map fst (ew_links (w\<lparr>ew_links := AList.update k l' (ew_links w)\<rparr>)))"
    using ok by (simp add: links_ok_def distinct_update)
next
  let ?w = "w\<lparr>ew_links := AList.update k l' (ew_links w)\<rparr>"
  have pair: "\<exists>y'. link_at ?w x = Some y' \<and> lk_role y' = lk_role y \<and> lk_pair y' = lk_pair y" if "link_at w x = Some y" for x y
    using that k s by auto
  fix x y assume y: "link_at ?w x = Some y"
  show "link_ok ?w x y"
  proof (cases "x = k")
    case False
    with y have "link_at w x = Some y" by simp
    with ok have "link_ok w x y" by (rule links_okD)
    then show ?thesis by (rule link_ok_mono) (simp, rule pair)
  next
    case True
    with y have y: "y = l'" by simp
    from ok k have o: "link_ok w k l" by (rule links_okD)
    have "link_ok w k l'"
    proof (cases "lk_role l")
      case HostEnd
      with o have h: "fst k = []" "host_end_ok w (snd k) l" by (simp_all add: link_ok_def)
      have "\<exists>cid nid. snd k = veth_name cid nid \<and> joined w cid nid \<and> lk_master l' \<in> {[], bridge_name nid} \<and>
          fst (lk_pair l') \<in> {[], ns_name cid}"
        using m h(2) s unfolding host_end_ok_def by metis
      with h s HostEnd show ?thesis by (simp add: link_ok_def host_end_ok_def)
    next
      case BridgeLink
      with o m s show ?thesis by (auto simp: link_ok_def)
    next
      case PeerEnd
      with o m have "lk_master l' = []" by (auto simp: link_ok_def)
      with o PeerEnd s show ?thesis by (simp add: link_ok_def)
    qed
    then have "link_ok ?w k l'" by (rule link_ok_mono) (simp, rule pair)
    with True y show ?thesis by simp
  qed
qed

lemma links_ok_drop:
  assumes ok: "links_ok w" and closed: "\<And>k l. link_at w k = Some l \<Longrightarrow> P k \<Longrightarrow> lk_role l \<noteq> BridgeLink \<Longrightarrow> P (lk_pair l)"
  shows "links_ok (drop_links P w)"
proof (rule links_okI)
  show "distinct (map fst (ew_links (drop_links P w)))"
    using ok by (simp add: links_ok_def drop_links_def distinct_map_filter)
next
  fix k l assume kl: "link_at (drop_links P w) k = Some l"
  then have k: "link_at w k = Some l" and np: "\<not> P k" by (auto split: if_splits)
  from ok k have o: "link_ok w k l" by (rule links_okD)
  have "\<not> P (lk_pair l)" if "lk_role l \<noteq> BridgeLink"
  proof
    assume p: "P (lk_pair l)"
    obtain l2 where l2: "link_at w (lk_pair l) = Some l2" "lk_role l2 \<noteq> BridgeLink" "lk_pair l2 = k"
    proof (cases "lk_role l")
      case HostEnd
      with o have "\<exists>l'. link_at w (lk_pair l) = Some l' \<and> lk_role l' = PeerEnd \<and> lk_pair l' = ([], snd k)" "fst k = []"
        by (simp_all add: link_ok_def host_end_ok_def)
      then show thesis using that by (cases k) fastforce
    next
      case PeerEnd
      with o that show thesis by (fastforce simp: link_ok_def)
    qed (use \<open>lk_role l \<noteq> BridgeLink\<close> in simp)
    from closed [OF l2(1) p l2(2)] l2(3) np show False by simp
  qed
  then show "link_ok (drop_links P w) k l" by (intro link_ok_mono [OF o]) auto
qed

definition pairing :: "eworld \<Rightarrow> string \<Rightarrow> string \<times> string \<Rightarrow> string \<Rightarrow> bool" where
  "pairing w h k d \<longleftrightarrow> (\<exists>l. link_at w ([], h) = Some l \<and> lk_role l = HostEnd \<and> lk_pair l = k \<and> lk_master l \<in> {[], bridge_name d})"

lemma pairing_faults [simp]: "pairing (w\<lparr>ew_faults := fs\<rparr>) = pairing w"
  by (simp add: fun_eq_iff pairing_def)

lemma triple_probe:
  "(\<And>w fs. P (w\<lparr>ew_faults := fs\<rparr>) = P w) \<Longrightarrow> (\<And>w. P w \<Longrightarrow> R w) \<Longrightarrow> triple P probe (\<lambda>_. P) (\<lambda>_. R)"
  unfolding probe_def by (rule triple_ecall) (auto intro: triple_return)

lemma veth_add_triple:
  assumes "h = veth_name c d" and "h \<noteq> p"
  shows "triple (\<lambda>w. einv w \<and> joined w c d) (veth_add h p)
    (\<lambda>_ w. einv w \<and> joined w c d \<and> pairing w h ([], p) d) (\<lambda>_. einv)"
  unfolding veth_add_def
proof (rule triple_ecall)
  show "triple (\<lambda>w. einv w \<and> joined w c d) (bindIO (getIO (\<lambda>w. (link_at w ([], h), link_at w ([], p)))) (\<lambda>(a, b).
     bindIO (whenE (a \<noteq> None \<or> b \<noteq> None \<or> h = p) GExists) (\<lambda>_. updIO (\<lambda>w. w\<lparr>ew_links :=
       (([], h), \<lparr>lk_role = HostEnd, lk_alias = [], lk_master = [], lk_up = False, lk_addrs = [], lk_pair = ([], p)\<rparr>) #
       (([], p), \<lparr>lk_role = PeerEnd, lk_alias = [], lk_master = [], lk_up = False, lk_addrs = [], lk_pair = ([], h)\<rparr>) #
       ew_links w\<rparr>)))) (\<lambda>_ w. einv w \<and> joined w c d \<and> pairing w h ([], p) d) (\<lambda>_. einv)"
  proof (rule tripleI)
    fix w x w'
    assume i: "einv w \<and> joined w c d" and r: "bindIO (getIO (\<lambda>w. (link_at w ([], h), link_at w ([], p)))) (\<lambda>(a, b).
     bindIO (whenE (a \<noteq> None \<or> b \<noteq> None \<or> h = p) GExists) (\<lambda>_. updIO (\<lambda>w. w\<lparr>ew_links :=
       (([], h), \<lparr>lk_role = HostEnd, lk_alias = [], lk_master = [], lk_up = False, lk_addrs = [], lk_pair = ([], p)\<rparr>) #
       (([], p), \<lparr>lk_role = PeerEnd, lk_alias = [], lk_master = [], lk_up = False, lk_addrs = [], lk_pair = ([], h)\<rparr>) #
       ew_links w\<rparr>))) w = (Inr x, w')"
    let ?w = "w\<lparr>ew_links :=
       (([], h), \<lparr>lk_role = HostEnd, lk_alias = [], lk_master = [], lk_up = False, lk_addrs = [], lk_pair = ([], p)\<rparr>) #
       (([], p), \<lparr>lk_role = PeerEnd, lk_alias = [], lk_master = [], lk_up = False, lk_addrs = [], lk_pair = ([], h)\<rparr>) # ew_links w\<rparr>"
    from r have w': "w' = ?w" and n: "link_at w ([], h) = None" "link_at w ([], p) = None" by (auto simp: io_iffs)
    have lo: "links_ok w" using i by (simp add: einv_def)
    have "links_ok ?w"
    proof (rule links_okI)
      have "([], h) \<notin> fst ` set (ew_links w)" "([], p) \<notin> fst ` set (ew_links w)"
        using n by (auto simp: link_at_def map_of_eq_None_iff)
      with lo assms(2) show "distinct (map fst (ew_links ?w))" by (simp add: links_ok_def)
    next
      fix k l assume k: "link_at ?w k = Some l"
      consider "k = ([], h)" | "k = ([], p)" "k \<noteq> ([], h)" | "k \<noteq> ([], h)" "k \<noteq> ([], p)" "link_at w k = Some l"
        using k by (auto split: if_splits)
      then show "link_ok ?w k l"
      proof cases
        case 1
        have "\<exists>cid nid. h = veth_name cid nid \<and> joined w cid nid" using i assms(1) by blast
        moreover from 1 k have "l = \<lparr>lk_role = HostEnd, lk_alias = [], lk_master = [], lk_up = False, lk_addrs = [], lk_pair = ([], p)\<rparr>"
          by simp
        ultimately show ?thesis using 1 assms(2) by (simp add: link_ok_def host_end_ok_def)
      next
        case 2
        with k show ?thesis by (auto simp: link_ok_def)
      next
        case 3
        have o: "link_ok w k l" using links_okD [OF lo 3(3)] .
        then show ?thesis by (rule link_ok_mono) (use n in \<open>auto simp: joined_faults\<close>)
      qed
    qed
    with i have "einv ?w" using einv_links [of w ?w] by simp
    with i w' show "einv w' \<and> joined w' c d \<and> pairing w' h ([], p) d" by (simp add: pairing_def)
  qed (auto simp: io_iffs)
qed auto

lemma einv_set:
  assumes "einv w" and "links_ok (w\<lparr>ew_links := ls\<rparr>)"
  shows "einv (w\<lparr>ew_links := ls\<rparr>)"
  using assms einv_links [of w "w\<lparr>ew_links := ls\<rparr>"] by simp

lemma einv_drop: "einv w \<Longrightarrow> links_ok (drop_links P w) \<Longrightarrow> einv (drop_links P w)"
  unfolding drop_links_def by (rule einv_set)

text \<open>A change of attributes, which leaves the ends and masters alone.\<close>

lemma link_set_triple:
  assumes "\<And>l. lk_role (g l) = lk_role l" and "\<And>l. lk_pair (g l) = lk_pair l" and "\<And>l. lk_master (g l) = lk_master l"
  shows "triple (\<lambda>w. einv w \<and> joined w c d \<and> pairing w h j d) (link_set k g)
    (\<lambda>_ w. einv w \<and> joined w c d \<and> pairing w h j d) (\<lambda>_. einv)"
  unfolding link_set_def
proof (rule triple_ecall)
  show "triple (\<lambda>w. einv w \<and> joined w c d \<and> pairing w h j d) (bindIO (getIO (\<lambda>w. link_at w k))
     (\<lambda>old. case old of None \<Rightarrow> throwIO GNoDevice
     | Some l \<Rightarrow> updIO (\<lambda>w. w\<lparr>ew_links := AList.update k (g l) (ew_links w)\<rparr>)))
     (\<lambda>_ w. einv w \<and> joined w c d \<and> pairing w h j d) (\<lambda>_. einv)"
  proof (rule tripleI)
    fix w x w'
    assume i: "einv w \<and> joined w c d \<and> pairing w h j d" and r: "bindIO (getIO (\<lambda>w. link_at w k))
     (\<lambda>old. case old of None \<Rightarrow> throwIO GNoDevice
     | Some l \<Rightarrow> updIO (\<lambda>w. w\<lparr>ew_links := AList.update k (g l) (ew_links w)\<rparr>)) w = (Inr x, w')"
    then obtain l where l: "link_at w k = Some l" "w' = w\<lparr>ew_links := AList.update k (g l) (ew_links w)\<rparr>"
      by (auto simp: io_iffs split: option.splits)
    have "links_ok w'" unfolding l(2) using i assms by (intro links_ok_update [OF _ l(1)]) (simp_all add: einv_def)
    with i l have "einv w'" by (auto intro: einv_set)
    moreover have "pairing w' h j d" using i l assms by (auto simp: pairing_def)
    ultimately show "einv w' \<and> joined w' c d \<and> pairing w' h j d" using i l by simp
  qed (auto simp: io_iffs split: option.splits)
qed auto

lemma keeps_link_set:
  assumes "\<And>l. lk_role (g l) = lk_role l" and "\<And>l. lk_pair (g l) = lk_pair l" and "\<And>l. lk_master (g l) = lk_master l"
  shows "triple (\<lambda>w. einv w \<and> disk w = q) (link_set k g) (\<lambda>_ w. einv w \<and> disk w = q) (\<lambda>_ w. einv w \<and> disk w = q)"
  unfolding link_set_def
proof (rule triple_ecall)
  show "triple (\<lambda>w. einv w \<and> disk w = q) (bindIO (getIO (\<lambda>w. link_at w k))
     (\<lambda>old. case old of None \<Rightarrow> throwIO GNoDevice
     | Some l \<Rightarrow> updIO (\<lambda>w. w\<lparr>ew_links := AList.update k (g l) (ew_links w)\<rparr>))) (\<lambda>_ w. einv w \<and> disk w = q) (\<lambda>_ w. einv w \<and> disk w = q)"
  proof (rule tripleI)
    fix w x w'
    assume i: "einv w \<and> disk w = q" and r: "bindIO (getIO (\<lambda>w. link_at w k))
     (\<lambda>old. case old of None \<Rightarrow> throwIO GNoDevice
     | Some l \<Rightarrow> updIO (\<lambda>w. w\<lparr>ew_links := AList.update k (g l) (ew_links w)\<rparr>)) w = (Inr x, w')"
    then obtain l where l: "link_at w k = Some l" "w' = w\<lparr>ew_links := AList.update k (g l) (ew_links w)\<rparr>"
      by (auto simp: io_iffs split: option.splits)
    have "links_ok w'" unfolding l(2) using i assms by (intro links_ok_update [OF _ l(1)]) (simp_all add: einv_def)
    with i l show "einv w' \<and> disk w' = q" by (auto intro: einv_set)
  qed (auto simp: io_iffs split: option.splits)
qed auto

lemma link_master_triple:
  assumes "h = veth_name c d" and "fst j \<in> {[], ns_name c}"
  shows "triple (\<lambda>w. einv w \<and> joined w c d \<and> pairing w h j d) (link_set ([], h) (\<lambda>l. l\<lparr>lk_master := bridge_name d\<rparr>))
    (\<lambda>_ w. einv w \<and> joined w c d \<and> pairing w h j d) (\<lambda>_. einv)"
  unfolding link_set_def
proof (rule triple_ecall)
  show "triple (\<lambda>w. einv w \<and> joined w c d \<and> pairing w h j d) (bindIO (getIO (\<lambda>w. link_at w ([], h)))
     (\<lambda>old. case old of None \<Rightarrow> throwIO GNoDevice
     | Some l \<Rightarrow> updIO (\<lambda>w. w\<lparr>ew_links := AList.update ([], h) (l\<lparr>lk_master := bridge_name d\<rparr>) (ew_links w)\<rparr>)))
     (\<lambda>_ w. einv w \<and> joined w c d \<and> pairing w h j d) (\<lambda>_. einv)"
  proof (rule tripleI)
    fix w x w'
    assume i: "einv w \<and> joined w c d \<and> pairing w h j d" and r: "bindIO (getIO (\<lambda>w. link_at w ([], h)))
     (\<lambda>old. case old of None \<Rightarrow> throwIO GNoDevice
     | Some l \<Rightarrow> updIO (\<lambda>w. w\<lparr>ew_links := AList.update ([], h) (l\<lparr>lk_master := bridge_name d\<rparr>) (ew_links w)\<rparr>)) w = (Inr x, w')"
    then obtain l where l: "link_at w ([], h) = Some l" "w' = w\<lparr>ew_links := AList.update ([], h) (l\<lparr>lk_master := bridge_name d\<rparr>) (ew_links w)\<rparr>"
      by (auto simp: io_iffs split: option.splits)
    from i l(1) have p: "lk_role l = HostEnd" "lk_pair l = j" by (simp_all add: pairing_def)
    have "links_ok w'" unfolding l(2) using i p assms by (intro links_ok_update [OF _ l(1)]) (auto simp: einv_def)
    with i l have "einv w'" by (auto intro: einv_set)
    with i l p show "einv w' \<and> joined w' c d \<and> pairing w' h j d" by (simp add: pairing_def)
  qed (auto simp: io_iffs split: option.splits)
qed auto

lemma links_ok_rekey:
  assumes ok: "links_ok w" and h: "link_at w ([], h) = Some lh" "lk_role lh = HostEnd" "lk_pair lh = k"
    and k: "link_at w k = Some l" and k': "link_at w k' = None" and ns: "fst k' \<in> {[], ns_name c}"
    and hn: "h = veth_name c d" "joined w c d" "lk_master lh \<in> {[], bridge_name d}"
  shows "links_ok (rekey k k' l w) \<and> pairing (rekey k k' l w) h k' d"
proof -
  let ?w = "rekey k k' l w"
  from link_ok_hostD [OF ok h(1,2)] h(3) k have l: "lk_role l = PeerEnd" "lk_pair l = ([], h)" by (auto simp: host_end_ok_def)
  have kh: "k \<noteq> ([], h)" "k' \<noteq> ([], h)" using k h l k' by auto
  have H: "link_at ?w ([], h) = Some (lh\<lparr>lk_pair := k'\<rparr>)" and K: "link_at ?w k' = Some l" using l h kh by simp_all
  have other: "link_at ?w x = link_at w x" if "x \<noteq> k" "x \<noteq> k'" "x \<noteq> ([], h)" for x using that l by simp
  have "links_ok ?w"
  proof (rule links_okI)
    have e: "map fst (map (\<lambda>(x, y). if x = lk_pair l then (x, y\<lparr>lk_pair := k'\<rparr>) else (x, y)) xs) = map fst xs" for xs
      by (induction xs) auto
    moreover have "k' \<notin> fst ` set (ew_links w)" using k' by (simp add: link_at_def map_of_eq_None_iff)
    ultimately show "distinct (map fst (ew_links ?w))"
      using ok by (auto simp: rekey_def links_ok_def distinct_map_filter e simp del: map_map)
  next
    fix x y assume y: "link_at ?w x = Some y"
    consider "x = k'" | "x = ([], h)" | "x \<noteq> k'" "x \<noteq> ([], h)" "x \<noteq> k" "link_at w x = Some y"
      using y l by (auto split: if_splits)
    then show "link_ok ?w x y"
    proof cases
      case 1
      have "lk_master l = []" using links_okD [OF ok k] l by (simp add: link_ok_def)
      moreover from 1 y K have "y = l" by simp
      ultimately show ?thesis using 1 l H h(2) unfolding link_ok_def by (simp del: link_rekey)
    next
      case 2
      with y H have "y = lh\<lparr>lk_pair := k'\<rparr>" by simp
      with 2 h(2) hn ns K l show ?thesis by (auto simp: link_ok_def host_end_ok_def)
    next
      case 3
      from ok 3(4) have o: "link_ok w x y" by (rule links_okD)
      show ?thesis
      proof (rule link_ok_mono [OF o])
        fix z assume z: "link_at w (lk_pair y) = Some z" "lk_pair z = x"
        have "lk_pair y \<noteq> ([], h)" "lk_pair y \<noteq> k" "lk_pair y \<noteq> k'" using z h k l k' 3 by auto
        with other z show "\<exists>z'. link_at ?w (lk_pair y) = Some z' \<and> lk_role z' = lk_role z \<and> lk_pair z' = lk_pair z" by auto
      qed simp
    qed
  qed
  moreover have "pairing ?w h k' d" using H h(2) hn(3) by (simp add: pairing_def del: link_rekey)
  ultimately show ?thesis by blast
qed

lemma link_rename_triple:
  assumes "h = veth_name c d" and "fst k' \<in> {[], ns_name c}"
  shows "triple (\<lambda>w. einv w \<and> joined w c d \<and> pairing w h k d) (link_rename k k')
    (\<lambda>_ w. einv w \<and> joined w c d \<and> pairing w h k' d) (\<lambda>_. einv)"
  unfolding link_rename_def
proof (rule triple_ecall)
  show "triple (\<lambda>w. einv w \<and> joined w c d \<and> pairing w h k d)
     (bindIO (getIO (\<lambda>w. (link_at w k, link_at w k', map_of (ew_netns w) (fst k')))) (\<lambda>(a, b, ns).
     case a of None \<Rightarrow> throwIO GNoDevice
     | Some l \<Rightarrow> bindIO (whenE (b \<noteq> None \<or> ns = None) GExists) (\<lambda>_. updIO (rekey k k' l))))
     (\<lambda>_ w. einv w \<and> joined w c d \<and> pairing w h k' d) (\<lambda>_. einv)"
  proof (rule tripleI)
    fix w x w'
    assume i: "einv w \<and> joined w c d \<and> pairing w h k d"
      and r: "bindIO (getIO (\<lambda>w. (link_at w k, link_at w k', map_of (ew_netns w) (fst k')))) (\<lambda>(a, b, ns).
     case a of None \<Rightarrow> throwIO GNoDevice
     | Some l \<Rightarrow> bindIO (whenE (b \<noteq> None \<or> ns = None) GExists) (\<lambda>_. updIO (rekey k k' l))) w = (Inr x, w')"
    from r obtain l where l: "link_at w k = Some l" "link_at w k' = None" "w' = rekey k k' l w"
      by (auto simp: io_iffs split: option.splits)
    from i obtain lh where lh: "link_at w ([], h) = Some lh" "lk_role lh = HostEnd" "lk_pair lh = k" "lk_master lh \<in> {[], bridge_name d}"
      by (auto simp: pairing_def)
    have "links_ok w" "joined w c d" using i by (simp_all add: einv_def)
    from links_ok_rekey [OF this(1) lh(1-3) l(1,2) assms(2,1) this(2) lh(4)]
    have a: "links_ok w'" "pairing w' h k' d" using l(3) by simp_all
    with i have "einv w'" using l(3) einv_links [of w w'] by (simp add: rekey_def)
    with a i l(3) show "einv w' \<and> joined w' c d \<and> pairing w' h k' d" by simp
  qed (auto simp: io_iffs split: option.splits)
qed auto

section \<open>Removing links\<close>

text \<open>The invariant and the records as they were.\<close>

definition steady :: "(string \<times> net_rec option) list \<times> (string \<times> task_rec) list \<times> string list \<Rightarrow> eworld \<Rightarrow> bool" where
  "steady q w \<longleftrightarrow> einv w \<and> disk w = q"

lemma steady_simps [simp]:
  "steady q (w\<lparr>ew_faults := fs\<rparr>) = steady q w" "steady q (w\<lparr>ew_tables := ts\<rparr>) = steady q w"
  "steady q (w\<lparr>ew_netns := ns\<rparr>) = steady q w" "steady q (w\<lparr>ew_inodes := is\<rparr>) = steady q w"
  by (simp_all add: steady_def)

lemma steady_quiet: "quiet core m \<Longrightarrow> triple (steady q) m (\<lambda>_. steady q) (\<lambda>_. steady q)"
  unfolding steady_def by (rule tripleI) (metis core_step core_views(1,3))+

lemma steady_probe: "triple (steady q) probe (\<lambda>_. steady q) (\<lambda>_. steady q)"
  by (rule steady_quiet) simp

lemma link_pairD:
  assumes ok: "links_ok w" and k: "link_at w k = Some l" and r: "lk_role l \<noteq> BridgeLink"
  shows "\<exists>y. link_at w (lk_pair l) = Some y \<and> lk_role y \<noteq> BridgeLink \<and> lk_pair y = k"
proof (cases "lk_role l")
  case HostEnd
  with links_okD [OF ok k] have h: "fst k = []" "host_end_ok w (snd k) l" by (simp_all add: link_ok_def)
  from h(2) show ?thesis by (rule host_end_okD) (use h(1) in \<open>cases k, auto\<close>)
next
  case PeerEnd
  with links_okD [OF ok k] show ?thesis by (auto simp: link_ok_def)
qed (use r in simp)

lemma steady_drop:
  assumes "steady q w" and "\<And>k l. link_at w k = Some l \<Longrightarrow> P k \<Longrightarrow> lk_role l \<noteq> BridgeLink \<Longrightarrow> P (lk_pair l)"
  shows "steady q (drop_links P w)"
proof -
  have "links_ok (drop_links P w)"
    by (rule links_ok_drop) (use assms in \<open>auto simp: steady_def einv_def\<close>)
  with assms(1) show ?thesis by (auto simp: steady_def intro: einv_drop)
qed

lemma link_del_triple: "triple (steady q) (link_del h) (\<lambda>_ w. steady q w \<and> link_at w ([], h) = None) (\<lambda>_. steady q)"
  unfolding link_del_def
proof (rule triple_ecall)
  let ?m = "bindIO (getIO (\<lambda>w. link_at w ([], h))) (\<lambda>old. case old of None \<Rightarrow> throwIO GNoDevice
     | Some l \<Rightarrow> updIO (drop_links (\<lambda>k. k = ([], h) \<or> lk_role l \<noteq> BridgeLink \<and> k = lk_pair l)))"
  show "triple (steady q) ?m (\<lambda>_ w. steady q w \<and> link_at w ([], h) = None) (\<lambda>_. steady q)"
  proof (rule tripleI)
    fix w x w' assume i: "steady q w" and r: "?m w = (Inr x, w')"
    then obtain l where l: "link_at w ([], h) = Some l" "w' = drop_links (\<lambda>k. k = ([], h) \<or> lk_role l \<noteq> BridgeLink \<and> k = lk_pair l) w"
      by (auto simp: io_iffs split: option.splits)
    have ok: "links_ok w" using i by (simp add: steady_def einv_def)
    have "steady q w'" unfolding l(2)
    proof (rule steady_drop [OF i])
      fix k y assume k: "link_at w k = Some y" "lk_role y \<noteq> BridgeLink" and p: "k = ([], h) \<or> lk_role l \<noteq> BridgeLink \<and> k = lk_pair l"
      show "lk_pair y = ([], h) \<or> lk_role l \<noteq> BridgeLink \<and> lk_pair y = lk_pair l"
      proof (cases "k = ([], h)")
        case True
        with k l(1) show ?thesis by simp
      next
        case False
        with p k l(1) link_pairD [OF ok l(1)] show ?thesis by auto
      qed
    qed
    with l show "steady q w' \<and> link_at w' ([], h) = None" by simp
  qed (auto simp: io_iffs split: option.splits)
qed auto

lemma netns_del_triple:
  assumes "ns \<noteq> []"
  shows "triple (steady q) (netns_del ns) (\<lambda>_. steady q) (\<lambda>_. steady q)"
  unfolding netns_del_def
proof (rule triple_ecall)
  let ?P = "\<lambda>w k. fst k = ns \<or> list_ex (\<lambda>(k', l). fst k' = ns \<and> k = lk_pair l) (ew_links w)"
  let ?m = "bindIO (getIO (\<lambda>w. map_of (ew_netns w) ns)) (\<lambda>old. bindIO (whenE (old = None) GNoDevice) (\<lambda>_.
     updIO (\<lambda>w. drop_links (?P w) (w\<lparr>ew_netns := AList.delete ns (ew_netns w)\<rparr>))))"
  show "triple (steady q) ?m (\<lambda>_. steady q) (\<lambda>_. steady q)"
  proof (rule tripleI)
    fix w x w' assume i: "steady q w" and r: "?m w = (Inr x, w')"
    let ?v = "w\<lparr>ew_netns := AList.delete ns (ew_netns w)\<rparr>"
    from r have w': "w' = drop_links (?P w) ?v" by (auto simp: io_iffs)
    have ok: "links_ok w" using i by (simp add: steady_def einv_def)
    have mem: "link_at w k = Some l" if "(k, l) \<in> set (ew_links w)" for k l using that ok by (simp add: links_ok_def link_at_def)
    show "steady q w'" unfolding w'
    proof (rule steady_drop)
      show "steady q ?v" using i by simp
      fix k y assume "link_at ?v k = Some y" and p: "?P w k" and nb: "lk_role y \<noteq> BridgeLink"
      then have k: "link_at w k = Some y" by simp
      show "?P w (lk_pair y)"
      proof (cases "fst k = ns")
        case True
        with k show ?thesis by (auto simp: link_at_def list_ex_iff dest!: map_of_SomeD)
      next
        case False
        with p obtain j l where j: "(j, l) \<in> set (ew_links w)" "fst j = ns" "k = lk_pair l" by (auto simp: list_ex_iff)
        have l: "link_at w j = Some l" by (rule mem) (rule j(1))
        have "lk_role l \<noteq> BridgeLink" using links_okD [OF ok l] j(2) assms by (auto simp: link_ok_def)
        with link_pairD [OF ok l] j k have "lk_pair y = j" by auto
        with j(2) show ?thesis by simp
      qed
    qed
  qed (auto simp: io_iffs)
qed auto

lemma delete_endpoint_link_triple:
  "triple (steady q) (delete_endpoint_link n cid ep) (\<lambda>_ w. steady q w \<and> link_at w ([], ep) = None \<and> ep = veth_name cid (nr_id n))
     (\<lambda>_. steady q)"
  unfolding delete_endpoint_link_def
proof (rule triple_bind [OF triple_when [where Q = "\<lambda>_ w. steady q w \<and> ep = veth_name cid (nr_id n)"]])
  fix x
  show "triple (\<lambda>w. steady q w \<and> ep = veth_name cid (nr_id n)) (bindIO probe (\<lambda>_. bindIO (getIO (\<lambda>w. link_at w ([], ep))) (\<lambda>l. case l of
       None \<Rightarrow> returnIO ()
     | Some l \<Rightarrow> bindIO (whenE (trim_space (lk_alias l) \<noteq> veth_alias cid (nr_id n)) GForeignInterface) (\<lambda>_. link_del ep))))
     (\<lambda>_ w. steady q w \<and> link_at w ([], ep) = None \<and> ep = veth_name cid (nr_id n)) (\<lambda>_. steady q)"
  proof (rule triple_fact, erule conjunct2, rule triple_bind [where Q = "\<lambda>_. steady q"])
    show "triple (\<lambda>w. steady q w \<and> ep = veth_name cid (nr_id n)) probe (\<lambda>_. steady q) (\<lambda>_. steady q)"
      by (rule triple_pre [OF steady_probe]) simp
    assume ep: "ep = veth_name cid (nr_id n)"
    show "triple (steady q) (bindIO (getIO (\<lambda>w. link_at w ([], ep))) (\<lambda>l. case l of
       None \<Rightarrow> returnIO ()
     | Some l \<Rightarrow> bindIO (whenE (trim_space (lk_alias l) \<noteq> veth_alias cid (nr_id n)) GForeignInterface) (\<lambda>_. link_del ep)))
     (\<lambda>_ w. steady q w \<and> link_at w ([], ep) = None \<and> ep = veth_name cid (nr_id n)) (\<lambda>_. steady q)"
    proof (rule triple_bind [OF triple_get [where Q = "\<lambda>l w. steady q w \<and> link_at w ([], ep) = l"]])
      fix l
      have "triple (\<lambda>w. steady q w) (link_del ep)
        (\<lambda>_ w. steady q w \<and> link_at w ([], ep) = None \<and> ep = veth_name cid (nr_id n)) (\<lambda>_. steady q)"
        by (rule triple_post [OF link_del_triple]) (use ep in auto)
      then show "triple (\<lambda>w. steady q w \<and> link_at w ([], ep) = l) (case l of None \<Rightarrow> returnIO ()
          | Some l \<Rightarrow> bindIO (whenE (trim_space (lk_alias l) \<noteq> veth_alias cid (nr_id n)) GForeignInterface) (\<lambda>_. link_del ep))
        (\<lambda>_ w. steady q w \<and> link_at w ([], ep) = None \<and> ep = veth_name cid (nr_id n)) (\<lambda>_. steady q)"
        by (cases l) (auto intro!: triple_return triple_bind [OF triple_when [where Q = "\<lambda>_. steady q"]] simp: ep)
    qed simp
  qed
qed simp_all

lemma link_add_triple:
  assumes "lk_role l = BridgeLink" and "lk_master l = []"
  shows "triple (steady q) (link_add ([], b) l) (\<lambda>_. steady q) (\<lambda>_. steady q)"
  unfolding link_add_def
proof (rule triple_ecall)
  let ?m = "bindIO (getIO (\<lambda>w. link_at w ([], b))) (\<lambda>old. bindIO (whenE (old \<noteq> None) GExists) (\<lambda>_.
     updIO (\<lambda>w. w\<lparr>ew_links := (([], b), l) # ew_links w\<rparr>)))"
  show "triple (steady q) ?m (\<lambda>_. steady q) (\<lambda>_. steady q)"
  proof (rule tripleI)
    fix w x w' assume i: "steady q w" and r: "?m w = (Inr x, w')"
    let ?w = "w\<lparr>ew_links := (([], b), l) # ew_links w\<rparr>"
    from r have w': "w' = ?w" and n: "link_at w ([], b) = None" by (auto simp: io_iffs)
    have ok: "links_ok w" using i by (simp add: steady_def einv_def)
    have "links_ok ?w"
    proof (rule links_okI)
      show "distinct (map fst (ew_links ?w))" using ok n by (auto simp: links_ok_def link_at_def map_of_eq_None_iff)
      fix k y assume k: "link_at ?w k = Some y"
      show "link_ok ?w k y"
      proof (cases "k = ([], b)")
        case True
        with k assms show ?thesis by (simp add: link_ok_def)
      next
        case False
        with k have "link_at w k = Some y" by simp
        with ok have "link_ok w k y" by (rule links_okD)
        then show ?thesis by (rule link_ok_mono) (use n in auto)
      qed
    qed
    with i w' show "steady q w'" by (auto simp: steady_def intro: einv_set)
  qed (auto simp: io_iffs)
qed auto

lemma steady_link_set:
  assumes "\<And>l. lk_role (g l) = lk_role l" and "\<And>l. lk_pair (g l) = lk_pair l" and "\<And>l. lk_master (g l) = lk_master l"
  shows "triple (steady q) (link_set k g) (\<lambda>_. steady q) (\<lambda>_. steady q)"
proof -
  have "triple (\<lambda>w. einv w \<and> disk w = q) (link_set k g) (\<lambda>_ w. einv w \<and> disk w = q) (\<lambda>_ w. einv w \<and> disk w = q)"
    by (rule keeps_link_set) (use assms in auto)
  then show ?thesis by (simp add: steady_def [abs_def])
qed

lemma steady_nft: "triple (steady q) (nft_add t s) (\<lambda>_. steady q) (\<lambda>_. steady q)" "triple (steady q) (nft_delete t) (\<lambda>_. steady q) (\<lambda>_. steady q)"
  unfolding nft_add_def nft_delete_def
  by (rule triple_ecall, auto intro!: triple_upd triple_bind [OF triple_get] triple_bind [OF triple_when])+

end
