(* ===== verification/EngineRecords.thy ===== *)
theory EngineRecords
  imports EngineLinks
begin

text \<open>
  Reading and changing the saved records: what a lookup returns, when a published record keeps the invariant of
  \<open>EngineLinks\<close>, and the creation of networks over it.
\<close>

section \<open>Reading the records\<close>

lemma map_of_nets: "nets_ok w \<Longrightarrow> (f, c) \<in> set (ew_nets w) \<Longrightarrow> map_of (ew_nets w) f = Some c"
  by (simp add: nets_ok_def)

lemma net_at_iff: "net_at w d = Some n \<longleftrightarrow> map_of (ew_nets w) (net_file d) = Some (Some n)"
  by (simp add: net_at_def split: option.splits)

lemma net_at_wf:
  assumes "nets_ok w" and "net_at w d = Some n"
  shows "nr_id n = d" "net_wf n"
proof -
  from assms(2) have "(net_file d, Some n) \<in> set (ew_nets w)" by (simp add: net_at_iff map_of_SomeD)
  with assms(1) have "net_file d = net_file (nr_id n) \<and> net_wf n" unfolding nets_ok_def by blast
  then show "nr_id n = d" "net_wf n" by simp_all
qed

lemma read_nets_Inr:
  "read_nets xs w = (Inr ns, w') \<Longrightarrow> ns = map (the \<circ> snd) (filter (suffix ''.json'' \<circ> fst) xs) \<and>
     (\<forall>(f, c) \<in> set xs. suffix ''.json'' f \<longrightarrow> (\<exists>n. c = Some n \<and> valid_net_record f n))"
proof (induction xs arbitrary: w ns rule: read_nets.induct)
  case (2 f c rest)
  show ?case
  proof (cases "suffix ''.json'' f")
    case False
    with 2 show ?thesis by auto
  next
    case True
    with "2.prems" obtain n ms w1 where n: "c = Some n" "valid_net_record f n" "ns = n # ms" "read_nets rest w1 = (Inr ms, w')"
      by (cases c) (auto simp: io_iffs)
    from "2.IH"(2) [OF _ n(1,4)] n True show ?thesis by simp
  qed
qed simp

lemma networks_Inr:
  assumes ok: "nets_ok w" and r: "networks w = (Inr ns, w')"
  shows "n \<in> set ns \<longleftrightarrow> net_at w (nr_id n) = Some n" and "distinct (map nr_id ns)"
proof -
  let ?xs = "filter (suffix ''.json'' \<circ> fst) (ew_nets w)"
  from r obtain v where v: "core v = core w" "read_nets (ew_nets v) v = (Inr ns, w')"
    by (auto simp: networks_def io_iffs) (metis core_probe core_step)
  from core_views(1) [OF v(1)] disk_views(5) have e: "ew_nets v = ew_nets w" by blast
  from read_nets_Inr [OF v(2)] have ns: "ns = map (the \<circ> snd) ?xs"
    and va: "\<And>f c. (f, c) \<in> set ?xs \<Longrightarrow> \<exists>n. c = Some n \<and> valid_net_record f n"
    unfolding e by fastforce+
  show "n \<in> set ns \<longleftrightarrow> net_at w (nr_id n) = Some n"
  proof
    assume "n \<in> set ns"
    then obtain f c where fc: "(f, c) \<in> set ?xs" "n = the c" by (auto simp: ns)
    from va [OF fc(1)] fc(2) have "c = Some n" "f = net_file (nr_id n)" by (auto simp: valid_net_record_def)
    with fc(1) map_of_nets [OF ok] show "net_at w (nr_id n) = Some n" by (auto simp: net_at_iff)
  next
    assume "net_at w (nr_id n) = Some n"
    then have "(net_file (nr_id n), Some n) \<in> set (ew_nets w)" by (simp add: net_at_iff map_of_SomeD)
    then show "n \<in> set ns" by (force simp: ns net_file_def suffix_def)
  qed
  have "map net_file (map nr_id ns) = map fst ?xs"
    using va by (fastforce simp: ns valid_net_record_def)
  moreover have "distinct (map fst ?xs)" using ok by (simp add: nets_ok_def distinct_map_filter)
  ultimately show "distinct (map nr_id ns)" by (metis distinct_map)
qed

lemma find_network_Inr:
  assumes ok: "nets_ok w" and r: "find_network v w = (Inr n, w')"
  shows "net_at w (nr_id n) = Some n" "nr_id n = v \<or> nr_name n = v"
    "\<And>m. net_at w (nr_id m) = Some m \<Longrightarrow> nr_id m = v \<or> nr_name m = v \<Longrightarrow> m = n"
proof -
  from r obtain ns w1 where ns: "networks w = (Inr ns, w1)" "filter (\<lambda>n. nr_id n = v \<or> nr_name n = v) ns = [n]"
  proof -
    from r obtain ns w1 where n1: "networks w = (Inr ns, w1)"
      "(case filter (\<lambda>n. nr_id n = v \<or> nr_name n = v) ns of [] \<Rightarrow> throwIO GNotFound | [n] \<Rightarrow> returnIO n | _ \<Rightarrow> throwIO GAmbiguous) w1 = (Inr n, w')"
      unfolding find_network_def bindIO_Inr_iff by blast
    from n1(2) have "filter (\<lambda>n. nr_id n = v \<or> nr_name n = v) ns = [n]" by (auto split: list.splits)
    with n1(1) show thesis by (rule that)
  qed
  from ns(2) have "n \<in> set (filter (\<lambda>n. nr_id n = v \<or> nr_name n = v) ns)" by simp
  then have m: "n \<in> set ns" "nr_id n = v \<or> nr_name n = v" by simp_all
  with networks_Inr [OF ok ns(1)] show "net_at w (nr_id n) = Some n" "nr_id n = v \<or> nr_name n = v" by simp_all
  fix m assume "net_at w (nr_id m) = Some m" "nr_id m = v \<or> nr_name m = v"
  then have "m \<in> set (filter (\<lambda>n. nr_id n = v \<or> nr_name n = v) ns)" using networks_Inr [OF ok ns(1)] by simp
  with ns(2) show "m = n" by simp
qed

lemma probe_Inl: "probe u = (Inl e, u') \<Longrightarrow> e = GFault"
  by (auto simp: probe_def ecall_def Let_def returnIO_def split: list.splits fault.splits)

lemma read_nets_Inl: "read_nets xs w = (Inl e, w') \<Longrightarrow> e \<noteq> GNotFound"
proof (induction xs arbitrary: w rule: read_nets.induct)
  case (2 f c rest)
  then show ?case
    by (cases "suffix ''.json'' f")
       (auto simp: io_iffs probe_def ecall_def Let_def returnIO_def split: option.splits list.splits fault.splits)
qed simp

lemma find_network_none:
  assumes ok: "nets_ok w" and r: "find_network v w = (Inl GNotFound, w')" and n: "net_at w d = Some n"
  shows "nr_name n \<noteq> v"
proof
  assume nm: "nr_name n = v"
  from r obtain ns w1 where ns: "networks w = (Inr ns, w1)" "filter (\<lambda>n. nr_id n = v \<or> nr_name n = v) ns = []"
  proof -
    have nf: "networks w \<noteq> (Inl GNotFound, w')" using probe_Inl read_nets_Inl by (fastforce simp: networks_def io_iffs)
    with r obtain ns w1 where n1: "networks w = (Inr ns, w1)"
      "(case filter (\<lambda>n. nr_id n = v \<or> nr_name n = v) ns of [] \<Rightarrow> throwIO GNotFound | [n] \<Rightarrow> returnIO n | _ \<Rightarrow> throwIO GAmbiguous) w1
         = (Inl GNotFound, w')"
      unfolding find_network_def bindIO_Inl_iff by blast
    from n1(2) have "filter (\<lambda>n. nr_id n = v \<or> nr_name n = v) ns = []" by (auto split: list.splits)
    with n1(1) show thesis by (rule that)
  qed
  from net_at_wf [OF ok n] n networks_Inr [OF ok ns(1)] have "n \<in> set ns" by simp
  with ns(2) nm show False by (auto simp: filter_empty_conv)
qed

lemma load_task_Inr:
  assumes "recs_ok w" and "load_task bk v w = (Inr (r, c), w')"
  shows "rec_at w (tr_id r) = Some r"
proof -
  from assms(2) obtain w1 w2 f where a: "probe w = (Inr (), w1)" "find_native v (filter na_owned (ew_natives w1)) None w1 = (Inr f, w2)"
    unfolding load_task_def bindIO_Inr_iff by (auto simp: io_iffs)
  with assms(2) obtain c' where f: "f = Some c'"
    by (cases f) (auto simp: load_task_def io_iffs split: if_splits)
  with assms(2) a obtain w3 where b: "probe w2 = (Inr (), w3)" "map_of (ew_recs w3) (na_id c) = Some r" "tr_id r = na_id c"
    by (auto simp: load_task_def io_iffs split: option.splits)
  have "core w3 = core w" using a(1,2) b(1) core_step by (metis core_find_native core_probe)
  then have "rec_at w3 = rec_at w" using core_views(1) disk_views(2) by metis
  with b show ?thesis by (metis rec_at_def)
qed

section \<open>Changing a record\<close>

lemma links_ok_records:
  assumes ok: "links_ok w" and l: "ew_links w' = ew_links w"
    and j: "\<And>c d l. link_at w ([], veth_name c d) = Some l \<Longrightarrow> joined w c d \<Longrightarrow> joined w' c d"
  shows "links_ok w'"
proof (rule links_okI)
  show "distinct (map fst (ew_links w'))" using ok l by (simp add: links_ok_def)
  have e: "link_at w' = link_at w" using l by (simp add: fun_eq_iff link_at_def)
  fix k y assume "link_at w' k = Some y"
  then have k: "link_at w k = Some y" by (simp add: e)
  show "link_ok w' k y" by (rule link_ok_mono [OF links_okD [OF ok k]]) (use k j e in auto)
qed

lemma nets_ok_alt:
  "nets_ok w \<longleftrightarrow> distinct (map fst (ew_nets w)) \<and>
     (\<forall>f n. map_of (ew_nets w) f = Some (Some n) \<longrightarrow> f = net_file (nr_id n) \<and> net_wf n) \<and>
     (\<forall>a b n m. net_at w a = Some n \<longrightarrow> net_at w b = Some m \<longrightarrow> a \<noteq> b \<longrightarrow> nr_slot n \<noteq> nr_slot m \<and> nr_name n \<noteq> nr_name m)"
proof (cases "distinct (map fst (ew_nets w))")
  case True
  then show ?thesis unfolding nets_ok_def by simp
qed (simp add: nets_ok_def)

lemma einv_put_net:
  assumes i: "einv w" and wf: "net_wf n'" and d: "nr_id n' = d"
    and apart: "\<And>e m. net_at w e = Some m \<Longrightarrow> e \<noteq> d \<Longrightarrow> nr_slot m \<noteq> nr_slot n' \<and> nr_name m \<noteq> nr_name n'"
    and fresh: "d \<notin> set (ew_random w)" "\<And>x. x \<in> set (ew_random w) \<Longrightarrow> x \<notin> fst ` set (nr_peers n')"
    and peers: "\<And>c p r. (c, p) \<in> set (nr_peers n') \<Longrightarrow> rec_at w c = Some r \<Longrightarrow> peer_ok n' c r"
    and gone: "\<And>c n. net_at w d = Some n \<Longrightarrow> c \<in> fst ` set (nr_peers n) \<Longrightarrow> c \<notin> fst ` set (nr_peers n') \<Longrightarrow>
        link_at w ([], veth_name c d) = None"
  shows "einv (put_net n' w)"
proof -
  let ?w = "put_net n' w"
  have nets: "map_of (ew_nets ?w) = (map_of (ew_nets w))(net_file d \<mapsto> Some n')" using d by (simp add: put_net_def update_conv')
  have rnd: "ew_random ?w = ew_random w" and lnk: "ew_links ?w = ew_links w" by (simp_all add: put_net_def)
  have iw: "nets_ok w" "recs_ok w" "peers_ok w" "fresh_ok w" "links_ok w" using i by (simp_all add: einv_def)
  have at: "net_at ?w = (net_at w)(d \<mapsto> n')" using d by simp
  have "nets_ok ?w"
  proof -
    have "distinct (map fst (ew_nets ?w))" using iw(1) by (simp add: nets_ok_def put_net_def distinct_update)
    moreover have "f = net_file (nr_id n) \<and> net_wf n" if "map_of (ew_nets ?w) f = Some (Some n)" for f n
      using that iw(1) wf d unfolding nets nets_ok_alt by (auto split: if_splits)
    moreover have "nr_slot n \<noteq> nr_slot m \<and> nr_name n \<noteq> nr_name m" if ab: "net_at ?w a = Some n" "net_at ?w b = Some m" "a \<noteq> b" for a b n m
      using ab iw(1) apart [of b m] apart [of a n] unfolding nets_ok_def at by (auto split: if_splits)
    ultimately show ?thesis unfolding nets_ok_alt by blast
  qed
  moreover have "recs_ok ?w" using iw(2) by (simp add: recs_ok_def)
  moreover have "peers_ok ?w" using iw(3) peers unfolding peers_ok_def at by (auto split: if_splits)
  moreover have "fresh_ok ?w"
    using iw(4) fresh d by (auto simp: fresh_ok_def fresh_id_def rnd nets split: if_splits)
  moreover have "links_ok ?w"
  proof (rule links_ok_records [OF iw(5) lnk])
    fix c e l assume l: "link_at w ([], veth_name c e) = Some l" and j: "joined w c e"
    show "joined ?w c e"
    proof (cases "e = d")
      case True
      with j obtain n where n: "net_at w d = Some n" "c \<in> fst ` set (nr_peers n)" by (force simp: joined_def)
      with gone [OF n] l True have "c \<in> fst ` set (nr_peers n')" by auto
      with j True d show ?thesis by (force simp: joined_def)
    next
      case False
      with j d show ?thesis by (simp add: joined_def)
    qed
  qed
  moreover have "names_ok ?w" using i by (simp add: einv_def names_ok_def put_net_def put_rec_def)
  ultimately show ?thesis by (simp add: einv_def)
qed

lemma einv_put_rec:
  assumes i: "einv w" and c: "tr_id r' = c" and one: "managed r' \<longrightarrow> length (tr_networks r') \<le> 1" and fresh: "c \<notin> set (ew_random w)"
    and peers: "\<And>d n p. net_at w d = Some n \<Longrightarrow> (c, p) \<in> set (nr_peers n) \<Longrightarrow> peer_ok n c r'"
    and gone: "\<And>r nm e. rec_at w c = Some r \<Longrightarrow> (nm, e) \<in> set (tr_networks r) \<Longrightarrow> ep_id e \<notin> (ep_id \<circ> snd) ` set (tr_networks r') \<Longrightarrow>
        link_at w ([], ep_id e) = None"
  shows "einv (put_rec r' w)"
proof -
  let ?w = "put_rec r' w"
  have rnd: "ew_random ?w = ew_random w" and lnk: "ew_links ?w = ew_links w" and nets: "ew_nets ?w = ew_nets w"
    by (simp_all add: put_rec_def)
  have iw: "nets_ok w" "recs_ok w" "peers_ok w" "fresh_ok w" "links_ok w" using i by (simp_all add: einv_def)
  have at: "rec_at ?w = (rec_at w)(c \<mapsto> r')" using c by simp
  have "nets_ok ?w" using iw(1) by (simp add: nets_ok_def nets)
  moreover have "recs_ok ?w" using iw(2) one c unfolding recs_ok_def at by auto
  moreover have "peers_ok ?w" using iw(3) peers unfolding peers_ok_def at by auto
  moreover have "fresh_ok ?w" using iw(4) fresh c by (auto simp: fresh_ok_def fresh_id_def rnd nets)
  moreover have "links_ok ?w"
  proof (rule links_ok_records [OF iw(5) lnk])
    fix a e l assume l: "link_at w ([], veth_name a e) = Some l" and j: "joined w a e"
    show "joined ?w a e"
    proof (cases "a = c")
      case True
      with j obtain r nm x where x: "rec_at w c = Some r" "(nm, x) \<in> set (tr_networks r)" "ep_id x = veth_name c e"
        by (auto simp: joined_def)
      with gone l True have "ep_id x \<in> (ep_id \<circ> snd) ` set (tr_networks r')" by fastforce
      with j x(3) True c show ?thesis by (fastforce simp: joined_def)
    next
      case False
      with j c show ?thesis by (simp add: joined_def)
    qed
  qed
  moreover have "names_ok ?w" using i by (simp add: einv_def names_ok_def put_net_def put_rec_def)
  ultimately show ?thesis by (simp add: einv_def)
qed

lemma in_delete: "x \<in> set (AList.delete k xs) \<Longrightarrow> x \<in> set xs \<and> fst x \<noteq> k"
  by (auto simp: AList.delete_eq)

lemma einv_del_net:
  assumes i: "einv w" and e: "\<And>n. net_at w d = Some n \<Longrightarrow> nr_peers n = []"
  shows "einv (w\<lparr>ew_nets := AList.delete (net_file d) (ew_nets w)\<rparr>)"
proof -
  let ?w = "w\<lparr>ew_nets := AList.delete (net_file d) (ew_nets w)\<rparr>"
  have iw: "nets_ok w" "recs_ok w" "peers_ok w" "fresh_ok w" "links_ok w" using i by (simp_all add: einv_def)
  have nets: "map_of (ew_nets ?w) f = (if f = net_file d then None else map_of (ew_nets w) f)" for f by (simp add: delete_conv)
  have at: "net_at ?w x = (if x = d then None else net_at w x)" for x by (simp add: net_at_def delete_conv)
  have "nets_ok ?w"
    using iw(1) unfolding nets_ok_def at by (auto simp: distinct_delete dest: in_delete split: if_splits)
  moreover have "recs_ok ?w" using iw(2) by (simp add: recs_ok_def)
  moreover have "peers_ok ?w" using iw(3) unfolding peers_ok_def at by (auto split: if_splits)
  moreover have "fresh_ok ?w" using iw(4) by (auto simp: fresh_ok_def fresh_id_def delete_conv at split: if_splits)
  moreover have "links_ok ?w"
    by (rule links_ok_records [OF iw(5)]) (use e in \<open>auto simp: joined_def at\<close>)
  moreover have "names_ok ?w" using i by (simp add: einv_def names_ok_def put_net_def put_rec_def)
  ultimately show ?thesis by (simp add: einv_def)
qed

lemma einv_del_rec:
  assumes i: "einv w" and e: "\<And>d n. net_at w d = Some n \<Longrightarrow> c \<notin> fst ` set (nr_peers n)"
  shows "einv (w\<lparr>ew_recs := AList.delete c (ew_recs w)\<rparr>)"
proof -
  let ?w = "w\<lparr>ew_recs := AList.delete c (ew_recs w)\<rparr>"
  have iw: "nets_ok w" "recs_ok w" "peers_ok w" "fresh_ok w" "links_ok w" using i by (simp_all add: einv_def)
  have at: "rec_at ?w x = (if x = c then None else rec_at w x)" for x by (simp add: rec_at_def delete_conv)
  have "nets_ok ?w" using iw(1) by (simp add: nets_ok_def)
  moreover have "recs_ok ?w" using iw(2) unfolding recs_ok_def at by auto
  moreover have "peers_ok ?w" using iw(3) unfolding peers_ok_def at by auto
  moreover have "fresh_ok ?w" using iw(4) by (auto simp: fresh_ok_def fresh_id_def at)
  moreover have "links_ok ?w"
    by (rule links_ok_records [OF iw(5)]) (use e in \<open>force simp: joined_def at\<close>)+
  moreover have "names_ok ?w" using i by (simp add: einv_def names_ok_def put_net_def put_rec_def)
  ultimately show ?thesis by (simp add: einv_def)
qed

text \<open>A file is published or not when an error is returned, and published otherwise.\<close>

lemma publish_triple:
  assumes "\<And>w fs. P (w\<lparr>ew_faults := fs\<rparr>) = P w" and "\<And>w fs. Q (w\<lparr>ew_faults := fs\<rparr>) = Q w"
    and "\<And>w. P w \<Longrightarrow> Q (f w)" and "\<And>w. P w \<Longrightarrow> R w" and "\<And>w. Q w \<Longrightarrow> R w"
  shows "triple P (publish_file f) (\<lambda>_. Q) (\<lambda>_. R)"
  unfolding publish_file_def
  by (rule triple_bind [OF triple_probe [where P = P]] triple_bind [OF triple_ecall [OF triple_upd [where P = P and Q = "\<lambda>_. Q"]]]
      triple_bind [OF triple_probe [where P = Q]] triple_probe | use assms in simp)+

section \<open>Operations over the records\<close>

text \<open>The invariant, with the records as given.\<close>

definition holds :: "(string \<Rightarrow> net_rec option) \<Rightarrow> (string \<Rightarrow> task_rec option) \<Rightarrow> eworld \<Rightarrow> bool" where
  "holds \<nu> \<rho> w \<longleftrightarrow> einv w \<and> net_at w = \<nu> \<and> rec_at w = \<rho>"

lemma holds_simps [simp]:
  "holds \<nu> \<rho> (w\<lparr>ew_faults := fs\<rparr>) = holds \<nu> \<rho> w" "holds \<nu> \<rho> (w\<lparr>ew_tables := ts\<rparr>) = holds \<nu> \<rho> w"
  "holds \<nu> \<rho> (w\<lparr>ew_netns := ns\<rparr>) = holds \<nu> \<rho> w" "holds \<nu> \<rho> (w\<lparr>ew_inodes := is\<rparr>) = holds \<nu> \<rho> w"
  by (simp_all add: holds_def)

lemma holds_einv: "holds \<nu> \<rho> w \<Longrightarrow> einv w"
  by (simp add: holds_def)

lemma holds_self: "einv w \<Longrightarrow> holds (net_at w) (rec_at w) w"
  by (simp add: holds_def)

lemma triple_bind_fact:
  assumes "triple P m (\<lambda>x w. Q w \<and> B x) R" and "\<And>x. B x \<Longrightarrow> triple Q (f x) S R"
  shows "triple P (bindIO m f) S R"
  by (rule triple_bind [OF assms(1)]) (rule triple_fact, erule conjunct2, rule triple_pre [OF assms(2)], auto)

lemma triple_bind_skip:
  "triple P m (\<lambda>_. Q) R \<Longrightarrow> (\<And>x. triple Q (f x) S R) \<Longrightarrow> triple P (bindIO m f) S R"
  by (rule triple_bind)

text \<open>An operation that keeps the records keeps them as given.\<close>

lemma holds_steady:
  assumes "\<And>q. triple (steady q) m (\<lambda>x w. steady q w \<and> X x w) (\<lambda>_. steady q)"
  shows "triple (holds \<nu> \<rho>) m (\<lambda>x w. holds \<nu> \<rho> w \<and> X x w) (\<lambda>_. holds \<nu> \<rho>)"
proof (rule triple_assume)
  fix w0 assume h: "holds \<nu> \<rho> w0"
  have v: "holds \<nu> \<rho> w" if "steady (disk w0) w" for w
    using that h disk_views(1,2) [of w w0] by (simp add: holds_def steady_def)
  show "triple (\<lambda>w. w = w0) m (\<lambda>x w. holds \<nu> \<rho> w \<and> X x w) (\<lambda>_. holds \<nu> \<rho>)"
    by (rule triple_pre [OF triple_post [OF assms [of "disk w0"]]]) (use v h in \<open>auto simp: steady_def holds_def\<close>)
qed

lemma holds_steady0:
  assumes "\<And>q. triple (steady q) m (\<lambda>_. steady q) (\<lambda>_. steady q)"
  shows "triple (holds \<nu> \<rho>) m (\<lambda>_. holds \<nu> \<rho>) (\<lambda>_. einv)"
  by (rule triple_post [OF holds_steady [where X = "\<lambda>_ _. True"]]) (use assms in \<open>auto simp: holds_def\<close>)

lemma holds_quiet: "quiet core m \<Longrightarrow> triple (holds \<nu> \<rho>) m (\<lambda>_. holds \<nu> \<rho>) (\<lambda>_. einv)"
  by (rule holds_steady0) (rule steady_quiet)

lemma holds_fact:
  assumes "quiet core m" and "\<And>w x w'. holds \<nu> \<rho> w \<Longrightarrow> m w = (Inr x, w') \<Longrightarrow> B x"
  shows "triple (holds \<nu> \<rho>) m (\<lambda>x w. holds \<nu> \<rho> w \<and> B x) (\<lambda>_. einv)"
  by (rule tripleI) (use holds_quiet [OF assms(1), of \<nu> \<rho>] assms(2) in \<open>auto dest: triple_Inr triple_Inl\<close>)

lemma holds_when: "triple (holds \<nu> \<rho>) (whenE b e) (\<lambda>_ w. holds \<nu> \<rho> w \<and> \<not> b) (\<lambda>_. einv)"
  by (rule triple_when) (auto simp: holds_def)

lemma holds_throw: "triple (holds \<nu> \<rho>) (throwIO e) Q (\<lambda>_. einv)"
  by (rule triple_throw) (rule holds_einv)

lemma holds_get: "triple (holds \<nu> \<rho>) (getIO f) (\<lambda>_. holds \<nu> \<rho>) R"
  by (rule triple_get)

lemma holds_probe: "triple (holds \<nu> \<rho>) probe (\<lambda>_. holds \<nu> \<rho>) (\<lambda>_. einv)"
  by (rule holds_quiet) simp

definition listed :: "(string \<Rightarrow> net_rec option) \<Rightarrow> net_rec list \<Rightarrow> bool" where
  "listed \<nu> ns \<longleftrightarrow> (\<forall>n. n \<in> set ns \<longleftrightarrow> \<nu> (nr_id n) = Some n) \<and> distinct (map nr_id ns)"

definition found :: "(string \<Rightarrow> net_rec option) \<Rightarrow> string \<Rightarrow> net_rec \<Rightarrow> bool" where
  "found \<nu> v n \<longleftrightarrow> \<nu> (nr_id n) = Some n \<and> (nr_id n = v \<or> nr_name n = v) \<and>
     (\<forall>m. \<nu> (nr_id m) = Some m \<longrightarrow> nr_id m = v \<or> nr_name m = v \<longrightarrow> m = n)"

lemma holds_nets: "holds \<nu> \<rho> w \<Longrightarrow> nets_ok w \<and> net_at w = \<nu> \<and> recs_ok w \<and> rec_at w = \<rho>"
  by (simp add: holds_def einv_def)

lemma holds_networks: "triple (holds \<nu> \<rho>) networks (\<lambda>ns w. holds \<nu> \<rho> w \<and> listed \<nu> ns) (\<lambda>_. einv)"
proof (rule holds_fact)
  fix w ns w' assume "holds \<nu> \<rho> w" and r: "networks w = (Inr ns, w')"
  then have w: "nets_ok w" "net_at w = \<nu>" using holds_nets by blast+
  show "listed \<nu> ns" using networks_Inr [OF w(1) r] w(2) unfolding listed_def by simp
qed simp

lemma holds_find: "triple (holds \<nu> \<rho>) (find_network v) (\<lambda>n w. holds \<nu> \<rho> w \<and> found \<nu> v n) (\<lambda>_. einv)"
proof (rule holds_fact)
  fix w n w' assume "holds \<nu> \<rho> w" and r: "find_network v w = (Inr n, w')"
  then have "nets_ok w" "net_at w = \<nu>" using holds_nets by blast+
  with find_network_Inr [OF this(1) r] show "found \<nu> v n" unfolding found_def by blast
qed simp

lemma holds_load: "triple (holds \<nu> \<rho>) (load_task bk v) (\<lambda>x w. holds \<nu> \<rho> w \<and> \<rho> (tr_id (fst x)) = Some (fst x)) (\<lambda>_. einv)"
proof (rule holds_fact)
  fix w x w' assume "holds \<nu> \<rho> w" and r: "load_task bk v w = (Inr x, w')"
  then have w: "recs_ok w" "rec_at w = \<rho>" using holds_nets by blast+
  obtain r c where x: "x = (r, c)" by (cases x)
  from load_task_Inr [OF w(1)] r x w(2) show "\<rho> (tr_id (fst x)) = Some (fst x)" by auto
qed simp

lemma holds_absent:
  "triple (holds \<nu> \<rho>) (catchIO (find_network v))
     (\<lambda>x w. holds \<nu> \<rho> w \<and> (x = Inl GNotFound \<longrightarrow> (\<forall>d n. \<nu> d = Some n \<longrightarrow> nr_name n \<noteq> v))) (\<lambda>_. einv)"
proof (rule holds_fact)
  fix w x w' assume "holds \<nu> \<rho> w" and r: "catchIO (find_network v) w = (Inr x, w')"
  then have w: "nets_ok w" "net_at w = \<nu>" using holds_nets by blast+
  show "x = Inl GNotFound \<longrightarrow> (\<forall>d n. \<nu> d = Some n \<longrightarrow> nr_name n \<noteq> v)"
    using find_network_none [OF w(1)] r w(2) by (auto simp: catchIO_iff)
qed (intro quiet_catch, simp)

text \<open>Publishing a record.\<close>

lemma holds_save_network:
  assumes "\<And>w. holds \<nu> \<rho> w \<Longrightarrow> X w \<Longrightarrow> einv (put_net n w)"
    and "\<And>w fs. X (w\<lparr>ew_faults := fs\<rparr>) = X w" and "\<And>w. X (put_net n w) = X w"
  shows "triple (\<lambda>w. holds \<nu> \<rho> w \<and> X w) (save_network n) (\<lambda>_ w. holds (\<nu>(nr_id n \<mapsto> n)) \<rho> w \<and> X w) (\<lambda>_. einv)"
  unfolding save_network_def by (rule publish_triple) (use assms in \<open>auto simp: holds_def\<close>)

lemma holds_save_task:
  assumes "\<And>w. holds \<nu> \<rho> w \<Longrightarrow> X w \<Longrightarrow> einv (put_rec r w)"
    and "\<And>w fs. X (w\<lparr>ew_faults := fs\<rparr>) = X w" and "\<And>w. X (put_rec r w) = X w"
  shows "triple (\<lambda>w. holds \<nu> \<rho> w \<and> X w) (save_task r) (\<lambda>_ w. holds \<nu> (\<rho>(tr_id r \<mapsto> r)) w \<and> X w) (\<lambda>_. einv)"
  unfolding save_task_def
  by (rule triple_bind [OF triple_probe [where P = "\<lambda>w. holds \<nu> \<rho> w \<and> X w"] publish_triple]) (use assms in \<open>auto simp: holds_def\<close>)

lemma holds_views:
  assumes "holds \<nu> \<rho> w"
  shows "nets_ok w" "recs_ok w" "peers_ok w" "fresh_ok w" "links_ok w" "net_at w = \<nu>" "rec_at w = \<rho>" "einv w"
  using assms by (simp_all add: holds_def einv_def)

lemma holds_net_wf: "holds \<nu> \<rho> w \<Longrightarrow> \<nu> d = Some n \<Longrightarrow> nr_id n = d \<and> net_wf n"
  using holds_views(1,6) net_at_wf by metis

lemma holds_used:
  assumes "holds \<nu> \<rho> w" and "x \<in> set (ew_random w)"
  shows "\<nu> x = None" "\<rho> x = None" "\<nu> d = Some n \<Longrightarrow> x \<notin> fst ` set (nr_peers n)"
proof -
  from holds_views(4) [OF assms(1)] assms(2) have "fresh_id w x" by (simp add: fresh_ok_def)
  with holds_views(6,7) [OF assms(1)] show "\<nu> x = None" "\<rho> x = None" "\<nu> d = Some n \<Longrightarrow> x \<notin> fst ` set (nr_peers n)"
    by (auto simp: fresh_id_def net_at_def)
qed

lemma holds_apart:
  assumes "holds \<nu> \<rho> w" and "\<nu> a = Some n" and "\<nu> b = Some m" and "a \<noteq> b"
  shows "nr_slot n \<noteq> nr_slot m" "nr_name n \<noteq> nr_name m"
  using assms holds_views(1,6) [OF assms(1)] unfolding nets_ok_def by metis+

text \<open>A network record whose address range, name and kind stay may change its peers.\<close>

lemma put_net_changed:
  assumes h: "holds \<nu> \<rho> w" and n: "\<nu> (nr_id n) = Some n"
    and same: "nr_id n' = nr_id n" "nr_name n' = nr_name n" "nr_slot n' = nr_slot n" and wf: "net_wf n'"
    and new: "\<And>c p r. (c, p) \<in> set (nr_peers n') \<Longrightarrow> (c, p) \<in> set (nr_peers n) \<or> \<rho> c = Some r' \<and> peer_ok n' c r'"
    and old: "\<And>c r. peer_ok n c r \<Longrightarrow> peer_ok n' c r"
    and gone: "\<And>c. c \<in> fst ` set (nr_peers n) \<Longrightarrow> c \<notin> fst ` set (nr_peers n') \<Longrightarrow> link_at w ([], veth_name c (nr_id n)) = None"
  shows "einv (put_net n' w)"
proof (rule einv_put_net [OF holds_einv [OF h] wf same(1)])
  note v = holds_views [OF h]
  show "nr_slot m \<noteq> nr_slot n' \<and> nr_name m \<noteq> nr_name n'" if "net_at w e = Some m" "e \<noteq> nr_id n" for e m
    using holds_apart [OF h _ n that(2)] that(1) v(6) same by metis
  show "nr_id n \<notin> set (ew_random w)" using holds_used(1) [OF h] n by fastforce
  show "x \<notin> fst ` set (nr_peers n')" if x: "x \<in> set (ew_random w)" for x
  proof
    assume "x \<in> fst ` set (nr_peers n')"
    then obtain p where "(x, p) \<in> set (nr_peers n')" by auto
    with new have "(x, p) \<in> set (nr_peers n) \<or> \<rho> x = Some r'" by blast
    with holds_used(2) [OF h x] holds_used(3) [OF h x n] show False by force
  qed
  show "peer_ok n' c r" if "(c, p) \<in> set (nr_peers n')" "rec_at w c = Some r" for c p r
  proof (cases "(c, p) \<in> set (nr_peers n)")
    case True
    with v(3,6) n that(2) have "peer_ok n c r" unfolding peers_ok_def by metis
    then show ?thesis by (rule old)
  next
    case False
    with new [OF that(1)] that(2) v(7) show ?thesis by auto
  qed
  show "link_at w ([], veth_name c (nr_id n)) = None"
    if "net_at w (nr_id n) = Some m" "c \<in> fst ` set (nr_peers m)" "c \<notin> fst ` set (nr_peers n')" for c m
    using that n v(6) gone by auto
qed

lemma net_wf_same:
  "net_wf n \<Longrightarrow> net_wf (n\<lparr>nr_gateway := g\<rparr>)" "net_wf n \<Longrightarrow> net_wf (n\<lparr>nr_firewall := f\<rparr>)"
  by (simp_all add: net_wf_def valid_net_record_def)

lemma put_net_same:
  assumes h: "holds \<nu> \<rho> w" and n: "\<nu> (nr_id n) = Some n" and n': "n' = n\<lparr>nr_gateway := g, nr_firewall := f\<rparr>"
  shows "einv (put_net n' w)"
  by (rule put_net_changed [OF h n]) (use n' holds_net_wf [OF h n] net_wf_same in \<open>auto simp: peer_ok_def\<close>)

section \<open>Networks\<close>

lemma materialize_network_triple:
  assumes n: "\<nu> (nr_id n) = Some n"
  shows "triple (holds \<nu> \<rho>) (materialize_network bk n) (\<lambda>n' w. holds (\<nu>(nr_id n \<mapsto> n')) \<rho> w \<and> nr_id n' = nr_id n) (\<lambda>_. einv)"
  unfolding materialize_network_def
proof (rule triple_bind_skip [OF holds_steady0 [OF link_add_triple]], simp, simp,
    (rule triple_bind_skip [OF holds_steady0 [OF steady_link_set]], simp, simp, simp)+,
    rule triple_bind_fact [where Q = "holds \<nu> \<rho>" and B = "\<lambda>n1. \<exists>g. n1 = n\<lparr>nr_gateway := g\<rparr>"])
  show "triple (holds \<nu> \<rho>) (if nr_internal n then returnIO n
       else bindIO (link_set ([], nr_bridge n) (\<lambda>l. l\<lparr>lk_addrs := lk_addrs l @ [net_address (nr_slot n) 1 @ ''/24'']\<rparr>)) (\<lambda>_.
              returnIO (n\<lparr>nr_gateway := net_address (nr_slot n) 1\<rparr>)))
     (\<lambda>n1 w. holds \<nu> \<rho> w \<and> (\<exists>g. n1 = n\<lparr>nr_gateway := g\<rparr>)) (\<lambda>_. einv)"
    by (rule triple_if, rule triple_return, force intro: exI [of _ "nr_gateway n"],
        rule triple_bind_skip [OF holds_steady0 [OF steady_link_set]], auto intro: triple_return)
  fix n1 assume "\<exists>g. n1 = n\<lparr>nr_gateway := g\<rparr>"
  then obtain g where n1: "n1 = n\<lparr>nr_gateway := g\<rparr>" ..
  show "triple (holds \<nu> \<rho>) (bindIO (nft_add (net_table n1) (network_script n1)) (\<lambda>_.
     bindIO (firewall_hash bk n1) (\<lambda>h.
     let n' = n1\<lparr>nr_firewall := h\<rparr> in bindIO (save_network n') (\<lambda>_. returnIO n'))))
     (\<lambda>n' w. holds (\<nu>(nr_id n \<mapsto> n')) \<rho> w \<and> nr_id n' = nr_id n) (\<lambda>_. einv)"
  proof (rule triple_bind_skip [OF holds_steady0 [OF steady_nft(1)]], rule triple_bind_skip [OF holds_quiet], simp, simp only: Let_def)
    fix h
    have "triple (\<lambda>w. holds \<nu> \<rho> w \<and> True) (save_network (n1\<lparr>nr_firewall := h\<rparr>))
       (\<lambda>_ w. holds (\<nu>(nr_id (n1\<lparr>nr_firewall := h\<rparr>) \<mapsto> n1\<lparr>nr_firewall := h\<rparr>)) \<rho> w \<and> True) (\<lambda>_. einv)"
      by (rule holds_save_network, erule put_net_same, rule n) (use n1 in auto)
    then have s: "triple (holds \<nu> \<rho>) (save_network (n1\<lparr>nr_firewall := h\<rparr>)) (\<lambda>_ w. holds (\<nu>(nr_id n \<mapsto> n1\<lparr>nr_firewall := h\<rparr>)) \<rho> w) (\<lambda>_. einv)"
      by (simp add: n1)
    show "triple (holds \<nu> \<rho>) (bindIO (save_network (n1\<lparr>nr_firewall := h\<rparr>)) (\<lambda>_. returnIO (n1\<lparr>nr_firewall := h\<rparr>)))
       (\<lambda>n' w. holds (\<nu>(nr_id n \<mapsto> n')) \<rho> w \<and> nr_id n' = nr_id n) (\<lambda>_. einv)"
      by (rule triple_bind_skip [OF s], rule triple_return) (simp add: n1)
  qed
qed

lemma free_slot_free: "i = free_slot used host is \<Longrightarrow> i \<noteq> 0 \<Longrightarrow> i \<in> set is \<and> i \<notin> used"
  by (induction used host "is" rule: free_slot.induct) (auto split: if_splits option.splits)

lemma free_slot_range: "free_slot used host [1..254] \<noteq> 0 \<Longrightarrow> 1 \<le> free_slot used host [1..254] \<and> free_slot used host [1..254] \<le> 254"
  using free_slot_free [OF refl, of used host "[1..254]"] by auto

text \<open>A drawn identifier is fresh and never drawn again.\<close>

lemma random_id_triple:
  "triple (holds \<nu> \<rho>) random_id (\<lambda>x w. holds \<nu> \<rho> w \<and> fresh_id w x \<and> x \<notin> set (ew_random w)) (\<lambda>_. einv)"
proof (rule tripleI)
  fix w x w' assume h: "holds \<nu> \<rho> w" and r: "random_id w = (Inr x, w')"
  then obtain xs where x: "ew_random w = x # xs" "w' = w\<lparr>ew_random := xs\<rparr>" by (auto simp: random_id_def split: list.splits)
  from holds_views(4) [OF h] x(1) have f: "fresh_id w x" "x \<notin> set xs" "distinct xs" "\<forall>y \<in> set xs. fresh_id w y"
    by (simp_all add: fresh_ok_def)
  have fr: "fresh_id w' y = fresh_id w y" for y using x(2) by (simp add: fresh_id_def)
  have "fresh_ok w'" using f fr x(2) by (simp add: fresh_ok_def)
  moreover have "links_ok w'" by (rule links_ok_records [OF holds_views(5) [OF h]]) (auto simp: x(2) joined_def)
  moreover have "nets_ok w'" "recs_ok w'" "peers_ok w'"
    using holds_views(1-3) [OF h] x(2) by (simp_all add: nets_ok_def recs_ok_def peers_ok_def)
  moreover have "names_ok w'" using holds_views(8) [OF h] x(2) by (simp add: einv_def names_ok_def)
  ultimately have "holds \<nu> \<rho> w'" using holds_views(6,7) [OF h] x(2) by (simp add: holds_def einv_def)
  with f fr x(2) show "holds \<nu> \<rho> w' \<and> fresh_id w' x \<and> x \<notin> set (ew_random w')" by simp
qed (auto simp: random_id_def holds_def split: list.splits)

lemma put_net_fresh:
  assumes h: "holds \<nu> \<rho> w" and f: "fresh_id w d" "d \<notin> set (ew_random w)" and n: "nr_id n = d" "nr_peers n = []" "net_wf n"
    and new: "\<And>e m. \<nu> e = Some m \<Longrightarrow> nr_slot m \<noteq> nr_slot n \<and> nr_name m \<noteq> nr_name n"
  shows "einv (put_net n w)"
proof (rule einv_put_net [OF holds_einv [OF h] n(3,1)])
  show "nr_slot m \<noteq> nr_slot n \<and> nr_name m \<noteq> nr_name n" if "net_at w e = Some m" "e \<noteq> d" for e m
    using that(1) new holds_views(6) [OF h] by auto
  show "link_at w ([], veth_name c d) = None" if "net_at w d = Some m" for c m
    using that f(1) by (simp add: fresh_id_def net_at_def)
qed (use f n in auto)

definition unused :: "(string \<Rightarrow> net_rec option) \<Rightarrow> string \<Rightarrow> int \<Rightarrow> bool" where
  "unused \<nu> name slot \<longleftrightarrow> 1 \<le> slot \<and> slot \<le> 254 \<and> (\<forall>e m. \<nu> e = Some m \<longrightarrow> nr_slot m \<noteq> slot \<and> nr_name m \<noteq> name)"

lemma add_network_triple:
  assumes u: "unused \<nu> name slot"
  shows "triple (holds \<nu> \<rho>) (add_network bk name internal labels options slot) (\<lambda>_. einv) (\<lambda>_. einv)"
  unfolding add_network_def Let_def
proof (rule triple_bind [OF random_id_triple])
  fix nid
  let ?n = "\<lparr>nr_id = nid, nr_name = name, nr_internal = internal, nr_labels = labels, nr_options = options, nr_peers = [],
       nr_subnet = slot_subnet slot, nr_gateway = [], nr_slot = slot, nr_bridge = bridge_name nid, nr_firewall = []\<rparr>"
  let ?P = "\<lambda>w. holds \<nu> \<rho> w \<and> fresh_id w nid \<and> nid \<notin> set (ew_random w)"
  have put: "holds (\<nu>(nid \<mapsto> ?n)) \<rho> (put_net ?n w)" if w: "?P w" for w
  proof -
    have "hex_id nid" using w by (simp add: fresh_id_def)
    then have "net_wf ?n" using u by (simp add: net_wf_def valid_net_record_def unused_def)
    with w u put_net_fresh [of \<nu> \<rho> w nid ?n] have "einv (put_net ?n w)" by (simp add: unused_def)
    with w show ?thesis by (simp add: holds_def)
  qed
  have "triple ?P (save_network ?n) (\<lambda>_. holds (\<nu>(nid \<mapsto> ?n)) \<rho>) (\<lambda>_. einv)"
    unfolding save_network_def by (rule publish_triple) (use put in \<open>auto simp: fresh_id_def holds_def\<close>)
  moreover have "triple (holds (\<nu>(nid \<mapsto> ?n)) \<rho>) (bindIO (materialize_network bk ?n) (\<lambda>_. returnIO nid)) (\<lambda>_. einv) (\<lambda>_. einv)"
    by (rule triple_bind [OF materialize_network_triple]) (auto simp: holds_def intro!: triple_return)
  ultimately show "triple ?P (bindIO (save_network ?n) (\<lambda>_. bindIO (materialize_network bk ?n) (\<lambda>_. returnIO nid))) (\<lambda>_. einv) (\<lambda>_. einv)"
    by (rule triple_bind_skip)
qed

lemma core_choose_slot [simp, intro]: "quiet core (choose_slot all)"
  unfolding choose_slot_def by (auto intro!: quiet_bind split: option.split simp: Let_def)

lemma choose_slot_Inr:
  assumes "choose_slot all w = (Inr slot, w')"
  shows "1 \<le> slot \<and> slot \<le> 254 \<and> slot \<notin> nr_slot ` set all"
proof -
  from assms obtain host where s: "slot = free_slot (set (map nr_slot all)) host [1..254]" "slot \<noteq> 0"
    by (auto simp: choose_slot_def io_iffs Let_def split: option.splits)
  from free_slot_free [OF s] show ?thesis by auto
qed

lemma create_network_triple: "triple (holds \<nu> \<rho>) (create_network bk name driver internal ipv6 labels options) (\<lambda>_. einv) (\<lambda>_. einv)"
proof (rule triple_fact [where B = "\<forall>e m. \<nu> e = Some m \<longrightarrow> nr_id m = e"])
  show "holds \<nu> \<rho> w \<Longrightarrow> \<forall>e m. \<nu> e = Some m \<longrightarrow> nr_id m = e" for w using holds_net_wf by blast
  assume wf: "\<forall>e m. \<nu> e = Some m \<longrightarrow> nr_id m = e"
  let ?B = "\<forall>d n. \<nu> d = Some n \<longrightarrow> nr_name n \<noteq> name"
  have rest: "triple (holds \<nu> \<rho>) (bindIO networks (\<lambda>all. bindIO (choose_slot all) (\<lambda>slot. add_network bk name internal labels options slot)))
     (\<lambda>_. einv) (\<lambda>_. einv)" if nm: ?B
  proof (rule triple_bind_fact [OF holds_networks], rule triple_bind_fact [OF holds_fact])
    fix all slot assume l: "listed \<nu> all" and s: "1 \<le> slot \<and> slot \<le> 254 \<and> slot \<notin> nr_slot ` set all"
    have "nr_slot m \<noteq> slot" if "\<nu> e = Some m" for e m
    proof -
      from that wf have "\<nu> (nr_id m) = Some m" by blast
      with l have "m \<in> set all" by (simp add: listed_def)
      with s show ?thesis by auto
    qed
    with s nm show "triple (holds \<nu> \<rho>) (add_network bk name internal labels options slot) (\<lambda>_. einv) (\<lambda>_. einv)"
      by (intro add_network_triple) (simp add: unused_def)
  qed (simp, rule choose_slot_Inr)
  have old: "triple (holds \<nu> \<rho>) (case old of Inr _ \<Rightarrow> throwIO GExists | Inl e \<Rightarrow> whenE (e \<noteq> GNotFound) e)
     (\<lambda>_ w. holds \<nu> \<rho> w \<and> ?B) (\<lambda>_. einv)" if "old = Inl GNotFound \<longrightarrow> ?B" for old :: "engine_error + net_rec"
    using that by (cases old) (auto intro!: triple_throw triple_when simp: holds_def)
  show "triple (holds \<nu> \<rho>) (create_network bk name driver internal ipv6 labels options) (\<lambda>_. einv) (\<lambda>_. einv)"
    unfolding create_network_def
    by (rule triple_bind_skip [OF holds_quiet] triple_bind_fact [OF holds_when] triple_bind_fact [OF holds_absent]
        triple_bind_fact [OF old] rest | (auto)[1])+
qed

end
