(* ===== verification/EngineAttach.thy ===== *)
theory EngineAttach
  imports EngineRecords
begin

text \<open>
  Namespaces and endpoints: attaching a task to a network and detaching it keep the invariant wherever they stop.
\<close>

lemma einv_quiet: "quiet core m \<Longrightarrow> triple (holds \<nu> \<rho>) m (\<lambda>_. einv) (\<lambda>_. einv)"
  by (rule triple_post [OF holds_quiet]) (auto simp: holds_def)

lemma holds_ecall:
  assumes "\<And>w. holds \<nu> \<rho> w \<Longrightarrow> einv (f w)"
  shows "triple (holds \<nu> \<rho>) (ecall (updIO f)) (\<lambda>_. einv) (\<lambda>_. einv)"
  by (rule triple_ecall [OF triple_upd]) (use assms in \<open>auto simp: holds_def\<close>)

lemma triple_exists: "(\<And>x. triple (P x) m Q R) \<Longrightarrow> triple (\<lambda>w. \<exists>x. P x w) m Q R"
  by (fastforce simp: triple_def)

lemma remove_network_triple:
  assumes n: "\<nu> (nr_id n) = Some n"
  shows "triple (holds \<nu> \<rho>) (remove_network n) (\<lambda>_. einv) (\<lambda>_. einv)"
  unfolding remove_network_def
proof (rule triple_bind_fact [OF holds_when])
  assume e: "\<not> nr_peers n \<noteq> []"
  have link: "triple (holds \<nu> \<rho>) (case p of Inl e \<Rightarrow> throwIO e
       | Inr _ \<Rightarrow> (case b of None \<Rightarrow> returnIO ()
         | Some l \<Rightarrow> bindIO (whenE (trim_space (lk_alias l) \<noteq> bridge_alias (nr_id n)) GForeignBridge) (\<lambda>_. link_del (nr_bridge n))))
     (\<lambda>_. holds \<nu> \<rho>) (\<lambda>_. einv)" for p :: "engine_error + unit" and b
  proof (cases p)
    case (Inr u)
    have "triple (holds \<nu> \<rho>) (link_del (nr_bridge n)) (\<lambda>_. holds \<nu> \<rho>) (\<lambda>_. einv)"
      by (rule holds_steady0, rule triple_post [OF link_del_triple]) auto
    then show ?thesis using Inr by (cases b) (auto intro!: triple_return triple_bind_fact [OF holds_when])
  qed (simp add: holds_throw)
  have table: "triple (holds \<nu> \<rho>) (case t of Inr (Some s) \<Rightarrow> nft_delete (net_table n) | _ \<Rightarrow> returnIO ()) (\<lambda>_. holds \<nu> \<rho>) (\<lambda>_. einv)"
    for t :: "engine_error + string option"
    by (rule holds_steady0) (auto intro!: triple_return steady_nft split: sum.split option.split)
  have del: "triple (holds \<nu> \<rho>) (ecall (updIO (\<lambda>w. w\<lparr>ew_nets := AList.delete (net_file (nr_id n)) (ew_nets w)\<rparr>))) (\<lambda>_. einv) (\<lambda>_. einv)"
    by (rule holds_ecall, rule einv_del_net) (use n e in \<open>auto simp: holds_def\<close>)
  show "triple (holds \<nu> \<rho>) (bindIO (catchIO probe) (\<lambda>p. bindIO (getIO (\<lambda>w. link_at w ([], nr_bridge n))) (\<lambda>b.
     bindIO (case p of Inl e \<Rightarrow> throwIO e
       | Inr _ \<Rightarrow> (case b of None \<Rightarrow> returnIO ()
         | Some l \<Rightarrow> bindIO (whenE (trim_space (lk_alias l) \<noteq> bridge_alias (nr_id n)) GForeignBridge) (\<lambda>_. link_del (nr_bridge n)))) (\<lambda>_.
     bindIO (catchIO (bindIO probe (\<lambda>_. getIO (\<lambda>w. map_of (ew_tables w) (net_table n))))) (\<lambda>t.
     bindIO (case t of Inr (Some s) \<Rightarrow> nft_delete (net_table n) | _ \<Rightarrow> returnIO ()) (\<lambda>_.
     ecall (updIO (\<lambda>w. w\<lparr>ew_nets := AList.delete (net_file (nr_id n)) (ew_nets w)\<rparr>)))))))) (\<lambda>_. einv) (\<lambda>_. einv)"
    by (rule triple_bind_skip [OF link] triple_bind_skip [OF table] del triple_bind_skip [OF holds_get]
        triple_bind_skip [OF holds_quiet] | (auto)[1])+
qed

section \<open>Namespaces\<close>

text \<open>A record in memory that differs from the saved one in its namespace only.\<close>

definition current :: "(string \<Rightarrow> task_rec option) \<Rightarrow> task_rec \<Rightarrow> bool" where
  "current \<rho> r \<longleftrightarrow> (\<exists>i. \<rho> (tr_id r) = Some (r\<lparr>tr_netns := i\<rparr>))"

definition same_task :: "task_rec \<Rightarrow> task_rec \<Rightarrow> bool" where
  "same_task r r' \<longleftrightarrow> (\<exists>i. r' = r\<lparr>tr_netns := i\<rparr>)"

lemma same_task_simps [simp]: "same_task r (r\<lparr>tr_netns := i\<rparr>)" "same_task r r"
  unfolding same_task_def by blast (rule exI [of _ "tr_netns r"], simp)

lemma current_self [simp]: "\<rho> (tr_id r) = Some r \<Longrightarrow> current \<rho> r"
  unfolding current_def by (rule exI [of _ "tr_netns r"]) simp

lemma current_netns [simp]: "current \<rho> (r\<lparr>tr_netns := i\<rparr>) = current \<rho> r"
  by (simp add: current_def)

lemma put_rec_current:
  assumes h: "holds \<nu> \<rho> w" and c: "current \<rho> r"
  shows "einv (put_rec r w)"
proof -
  obtain i where r0: "\<rho> (tr_id r) = Some (r\<lparr>tr_netns := i\<rparr>)" using c by (auto simp: current_def)
  note v = holds_views [OF h]
  show ?thesis
  proof (rule einv_put_rec [OF holds_einv [OF h] refl])
    show "managed r \<longrightarrow> length (tr_networks r) \<le> 1"
      using v(2,7) r0 by (fastforce simp: recs_ok_def managed_def)
    show "tr_id r \<notin> set (ew_random w)" using holds_used(2) [OF h] r0 by fastforce
    show "peer_ok n (tr_id r) r" if "net_at w d = Some n" "(tr_id r, p) \<in> set (nr_peers n)" for d n p
      using that v(3,7) r0 unfolding peers_ok_def by (fastforce simp: peer_ok_def managed_def)
    show "link_at w ([], ep_id e) = None" if "rec_at w (tr_id r) = Some s" "(nm, e) \<in> set (tr_networks s)"
        "ep_id e \<notin> (ep_id \<circ> snd) ` set (tr_networks r)" for s nm e
      using that v(7) r0 by force
  qed
qed

lemma save_current_triple:
  assumes "current \<rho> r"
  shows "triple (holds \<nu> \<rho>) (save_task r) (\<lambda>_. holds \<nu> (\<rho>(tr_id r \<mapsto> r))) (\<lambda>_. einv)"
proof -
  have "triple (\<lambda>w. holds \<nu> \<rho> w \<and> True) (save_task r) (\<lambda>_ w. holds \<nu> (\<rho>(tr_id r \<mapsto> r)) w \<and> True) (\<lambda>_. einv)"
    by (rule holds_save_task) (use put_rec_current assms in auto)
  then show ?thesis by simp
qed

lemma netns_add_triple: "triple (holds \<nu> \<rho>) (netns_add ns) (\<lambda>_. holds \<nu> \<rho>) (\<lambda>_. holds \<nu> \<rho>)"
  unfolding netns_add_def
  by (rule triple_ecall)
     (auto intro!: triple_bind [OF triple_get [where Q = "\<lambda>_. holds \<nu> \<rho>"]] triple_throw triple_upd
        triple_bind [OF triple_when [where Q = "\<lambda>_. holds \<nu> \<rho>"]] split: list.split)

lemma try_namespace_triple:
  assumes c: "current \<rho> r"
  shows "triple (holds \<nu> \<rho>) (try_namespace r) (\<lambda>(r', x) w. same_task r r' \<and> einv w \<and>
     (x = None \<longrightarrow> holds \<nu> (\<rho>(tr_id r \<mapsto> r')) w)) (\<lambda>_. einv)"
  unfolding try_namespace_def
proof (rule triple_bind [OF triple_catch [where Q = "\<lambda>_. holds \<nu> \<rho>"]])
  show "triple (holds \<nu> \<rho>) (bindIO (netns_add (ns_name (tr_id r))) (\<lambda>_. bindIO probe (\<lambda>_. getIO (\<lambda>w. map_of (ew_netns w) (ns_name (tr_id r))))))
     (\<lambda>_. holds \<nu> \<rho>) (\<lambda>_. holds \<nu> \<rho>)"
    by (rule triple_bind_skip [OF netns_add_triple], rule triple_bind_skip [OF triple_probe]) (auto intro: triple_get)
  fix s :: "engine_error + (nat \<times> nat) option"
  have saved: "triple (holds \<nu> \<rho>) (bindIO (catchIO (bindIO (save_task (r\<lparr>tr_netns := i\<rparr>)) (\<lambda>_. bindIO probe (\<lambda>_. probe)))) (\<lambda>x.
           returnIO (r\<lparr>tr_netns := i\<rparr>, case x of Inl e \<Rightarrow> Some e | Inr _ \<Rightarrow> None)))
     (\<lambda>(r', x) w. same_task r r' \<and> einv w \<and> (x = None \<longrightarrow> holds \<nu> (\<rho>(tr_id r \<mapsto> r')) w)) (\<lambda>_. einv)" for i
  proof (rule triple_bind [OF triple_catch [where
        Q = "\<lambda>x w. einv w \<and> ((\<exists>u. x = Inr u) \<longrightarrow> holds \<nu> (\<rho>(tr_id r \<mapsto> r\<lparr>tr_netns := i\<rparr>)) w)"]])
    have "triple (holds \<nu> \<rho>) (save_task (r\<lparr>tr_netns := i\<rparr>)) (\<lambda>_. holds \<nu> (\<rho>(tr_id r \<mapsto> r\<lparr>tr_netns := i\<rparr>))) (\<lambda>_. einv)"
      using save_current_triple [of \<rho> "r\<lparr>tr_netns := i\<rparr>" \<nu>] c by simp
    then have "triple (holds \<nu> \<rho>) (bindIO (save_task (r\<lparr>tr_netns := i\<rparr>)) (\<lambda>_. bindIO probe (\<lambda>_. probe)))
       (\<lambda>_. holds \<nu> (\<rho>(tr_id r \<mapsto> r\<lparr>tr_netns := i\<rparr>))) (\<lambda>_. einv)"
      by (rule triple_bind_skip) (rule triple_bind_skip [OF holds_probe holds_probe])
    then show "triple (holds \<nu> \<rho>) (bindIO (save_task (r\<lparr>tr_netns := i\<rparr>)) (\<lambda>_. bindIO probe (\<lambda>_. probe)))
       (\<lambda>x w. einv w \<and> ((\<exists>u. (Inr x :: engine_error + unit) = Inr u) \<longrightarrow> holds \<nu> (\<rho>(tr_id r \<mapsto> r\<lparr>tr_netns := i\<rparr>)) w))
       (\<lambda>e w. einv w \<and> ((\<exists>u. (Inl e :: engine_error + unit) = Inr u) \<longrightarrow> holds \<nu> (\<rho>(tr_id r \<mapsto> r\<lparr>tr_netns := i\<rparr>)) w))"
      by (rule triple_post) (auto simp: holds_def)
  qed (auto intro!: triple_return split: sum.split)
  show "triple (holds \<nu> \<rho>) (case s of Inl e \<Rightarrow> returnIO (r, Some e) | Inr None \<Rightarrow> returnIO (r, Some GFault)
     | Inr (Some ident) \<Rightarrow> let r' = r\<lparr>tr_netns := ident\<rparr> in
         bindIO (catchIO (bindIO (save_task r') (\<lambda>_. bindIO probe (\<lambda>_. probe)))) (\<lambda>x.
           returnIO (r', case x of Inl e \<Rightarrow> Some e | Inr _ \<Rightarrow> None)))
     (\<lambda>(r', x) w. same_task r r' \<and> einv w \<and> (x = None \<longrightarrow> holds \<nu> (\<rho>(tr_id r \<mapsto> r')) w)) (\<lambda>_. einv)"
    using saved
    by (auto intro!: triple_return simp: holds_def Let_def split: sum.split option.split)
qed

lemma new_namespace_triple:
  assumes "current \<rho> r"
  shows "triple (holds \<nu> \<rho>) (new_namespace r) (\<lambda>r' w. holds \<nu> (\<rho>(tr_id r \<mapsto> r')) w \<and> same_task r r') (\<lambda>_. einv)"
  unfolding new_namespace_def
  by (rule triple_bind [OF try_namespace_triple [OF assms]])
     (auto intro!: triple_return triple_throw split: prod.split option.split)

lemma drop_namespace_triple: "triple (holds \<nu> \<rho>) (drop_namespace r) (\<lambda>_. holds \<nu> \<rho>) (\<lambda>_. einv)"
proof -
  have "ns_name (tr_id r) \<noteq> []" by (simp add: ns_name_def)
  then have "triple (holds \<nu> \<rho>) (netns_del (ns_name (tr_id r))) (\<lambda>_. holds \<nu> \<rho>) (\<lambda>_. einv)"
    by (intro holds_steady0 netns_del_triple)
  then show ?thesis unfolding drop_namespace_def
    by (auto intro!: triple_bind_skip [OF holds_probe] triple_bind_skip [OF holds_get] triple_return
        triple_bind_fact [OF holds_when] split: option.split)
qed

section \<open>Endpoints\<close>

lemma disk_quiet [simp, intro]:
  "quiet disk (veth_add h p)" "quiet disk (link_set k g)" "quiet disk (link_rename k k')" "quiet disk probe"
  unfolding veth_add_def link_set_def link_rename_def probe_def
  by (rule quiet_ecall, auto intro!: quiet_bind quiet_upd split: option.split prod.split)+

lemma disk_materialize_endpoint [simp, intro]: "quiet disk (materialize_endpoint n r e)"
  unfolding materialize_endpoint_def Let_def by (auto intro!: quiet_bind)

lemma materialize_endpoint_triple:
  assumes b: "nr_bridge n = bridge_name (nr_id n)"
  shows "triple (\<lambda>w. einv w \<and> (ep_id e = veth_name (tr_id r) (nr_id n) \<longrightarrow> joined w (tr_id r) (nr_id n))) (materialize_endpoint n r e)
     (\<lambda>_. einv) (\<lambda>_. einv)"
  unfolding materialize_endpoint_def Let_def
proof (rule triple_bind [OF triple_when [where
      Q = "\<lambda>_ w. (einv w \<and> joined w (tr_id r) (nr_id n)) \<and> ep_id e = veth_name (tr_id r) (nr_id n)"]],
    simp, simp, rule triple_fact, erule conjunct2)
  let ?c = "tr_id r" and ?d = "nr_id n" and ?h = "ep_id e" and ?p = "veth_peer (tr_id r) (nr_id n)" and ?ns = "ns_name (tr_id r)"
  let ?I = "\<lambda>k w. einv w \<and> joined w ?c ?d \<and> pairing w ?h k ?d"
  assume h: "ep_id e = veth_name (tr_id r) (nr_id n)"
  have np: "?h \<noteq> ?p" by (simp add: h veth_name_def veth_peer_def)
  show "triple (\<lambda>w. (einv w \<and> joined w ?c ?d) \<and> ep_id e = veth_name ?c ?d)
    (bindIO (veth_add ?h ?p) (\<lambda>_.
     bindIO (link_set ([], ?h) (\<lambda>l. l\<lparr>lk_master := nr_bridge n\<rparr>)) (\<lambda>_.
     bindIO (link_set ([], ?h) (\<lambda>l. l\<lparr>lk_alias := veth_alias ?c ?d\<rparr>)) (\<lambda>_.
     bindIO (link_rename ([], ?p) (?ns, ?p)) (\<lambda>_.
     bindIO (link_rename (?ns, ?p) (?ns, ep_iface e)) (\<lambda>_.
     bindIO (link_set (?ns, ep_iface e) (\<lambda>l. l\<lparr>lk_addrs := lk_addrs l @ [ep_ip e @ ''/24'']\<rparr>)) (\<lambda>_.
     bindIO (link_set (?ns, ep_iface e) (\<lambda>l. l\<lparr>lk_up := True\<rparr>)) (\<lambda>_.
     bindIO (link_set ([], ?h) (\<lambda>l. l\<lparr>lk_up := True\<rparr>)) (\<lambda>_.
     if nr_internal n then returnIO () else probe)))))))))
    (\<lambda>_. einv) (\<lambda>_. einv)"
  proof (rule triple_pre [where P' = "\<lambda>w. einv w \<and> joined w ?c ?d"])
    have set: "triple (?I j) (link_set k g) (\<lambda>_. ?I j) (\<lambda>_. einv)"
      if "\<And>l. lk_role (g l) = lk_role l" "\<And>l. lk_pair (g l) = lk_pair l" "\<And>l. lk_master (g l) = lk_master l" for g k j
      by (rule link_set_triple) (use that in auto)
    have fin: "triple (?I (?ns, ep_iface e)) (if nr_internal n then returnIO () else probe) (\<lambda>_. einv) (\<lambda>_. einv)"
      by (rule triple_post [where Q' = "\<lambda>_. einv" and R' = "\<lambda>_. einv"], rule triple_pre [where P' = einv])
         (auto intro!: triple_return triple_probe)
    show "triple (\<lambda>w. einv w \<and> joined w ?c ?d)
      (bindIO (veth_add ?h ?p) (\<lambda>_.
     bindIO (link_set ([], ?h) (\<lambda>l. l\<lparr>lk_master := nr_bridge n\<rparr>)) (\<lambda>_.
     bindIO (link_set ([], ?h) (\<lambda>l. l\<lparr>lk_alias := veth_alias ?c ?d\<rparr>)) (\<lambda>_.
     bindIO (link_rename ([], ?p) (?ns, ?p)) (\<lambda>_.
     bindIO (link_rename (?ns, ?p) (?ns, ep_iface e)) (\<lambda>_.
     bindIO (link_set (?ns, ep_iface e) (\<lambda>l. l\<lparr>lk_addrs := lk_addrs l @ [ep_ip e @ ''/24'']\<rparr>)) (\<lambda>_.
     bindIO (link_set (?ns, ep_iface e) (\<lambda>l. l\<lparr>lk_up := True\<rparr>)) (\<lambda>_.
     bindIO (link_set ([], ?h) (\<lambda>l. l\<lparr>lk_up := True\<rparr>)) (\<lambda>_.
     if nr_internal n then returnIO () else probe)))))))))
      (\<lambda>_. einv) (\<lambda>_. einv)"
      by (rule triple_bind_skip [OF veth_add_triple [OF h np]],
          rule triple_bind_skip [OF link_master_triple [OF h, folded b]], simp,
          rule triple_bind_skip [OF set], simp, simp, simp,
          rule triple_bind_skip [OF link_rename_triple [OF h]], simp,
          rule triple_bind_skip [OF link_rename_triple [OF h]], simp,
          rule triple_bind_skip [OF set], simp, simp, simp,
          rule triple_bind_skip [OF set], simp, simp, simp,
          rule triple_bind_skip [OF set], simp, simp, simp, rule fin)
  qed simp
qed

lemma holds_disk:
  assumes "quiet disk m" and "triple (holds \<nu> \<rho>) m (\<lambda>_. einv) (\<lambda>_. einv)"
  shows "triple (holds \<nu> \<rho>) m (\<lambda>_. holds \<nu> \<rho>) (\<lambda>_. einv)"
proof (rule tripleI)
  fix w x w' assume h: "holds \<nu> \<rho> w" and r: "m w = (Inr x, w')"
  from quietD [OF assms(1) r] disk_views(1,2) have "net_at w' = net_at w" "rec_at w' = rec_at w" by metis+
  with h triple_Inr [OF assms(2) h r] show "holds \<nu> \<rho> w'" by (simp add: holds_def)
qed (rule triple_Inl [OF assms(2)])

definition member :: "(string \<Rightarrow> net_rec option) \<Rightarrow> (string \<Rightarrow> task_rec option) \<Rightarrow> string \<Rightarrow> string \<Rightarrow> bool" where
  "member \<nu> \<rho> c d \<longleftrightarrow> (\<exists>n p. \<nu> d = Some n \<and> (c, p) \<in> set (nr_peers n)) \<and>
     (\<exists>r nm e. \<rho> c = Some r \<and> (nm, e) \<in> set (tr_networks r) \<and> ep_id e = veth_name c d)"

lemma joined_member: "holds \<nu> \<rho> w \<Longrightarrow> joined w c d = member \<nu> \<rho> c d"
  by (auto simp: holds_def joined_def member_def)

lemma holds_materialize_endpoint:
  assumes "nr_bridge n = bridge_name (nr_id n)" and "ep_id e = veth_name (tr_id r) (nr_id n) \<Longrightarrow> member \<nu> \<rho> (tr_id r) (nr_id n)"
  shows "triple (holds \<nu> \<rho>) (materialize_endpoint n r e) (\<lambda>_. holds \<nu> \<rho>) (\<lambda>_. einv)"
  by (rule holds_disk, simp, rule triple_pre [OF materialize_endpoint_triple [OF assms(1)]])
     (use assms(2) joined_member in \<open>auto simp: holds_def\<close>)

lemma free_host_Some:
  "free_host slot used ks = Some k \<Longrightarrow> k \<in> set ks \<and> net_address slot k @ ''/24'' \<notin> used"
  by (induction slot used ks rule: free_host.induct) (auto split: if_splits)

text \<open>A task's own entry among the peers is added or replaced.\<close>

lemma in_update:
  assumes "distinct (map fst xs)"
  shows "x \<in> set (AList.update k v xs) \<longleftrightarrow> x = (k, v) \<or> x \<in> set xs \<and> fst x \<noteq> k"
proof -
  obtain a b where x: "x = (a, b)" by (cases x)
  have "distinct (map fst (AList.update k v xs))" using assms by (rule distinct_update)
  from map_of_eq_Some_iff [OF this, of a b] map_of_eq_Some_iff [OF assms, of a b] x show ?thesis
    by (auto simp: update_conv split: if_splits)
qed

lemma in_updateD: "x \<in> set (AList.update k v xs) \<Longrightarrow> x = (k, v) \<or> x \<in> set xs"
  by (induction xs) (auto split: if_splits)

lemma peers_update:
  "distinct (map (g \<circ> snd) ps) \<Longrightarrow> g v \<notin> (g \<circ> snd) ` set ps \<Longrightarrow> distinct (map (g \<circ> snd) (AList.update k v ps))"
proof (induction ps)
  case (Cons a ps)
  have "g (snd a) \<notin> (g \<circ> snd) ` set (AList.update k v ps)"
    using Cons.prems by (auto simp: image_iff dest!: in_updateD)
  with Cons show ?case by (cases a) (auto simp: image_iff)
qed simp

lemma net_wf_update:
  assumes wf: "net_wf n" and p: "pe_endpoint p = veth_name c (nr_id n)" "2 \<le> k" "k < 255" "pe_ipv4 p = net_address (nr_slot n) k @ ''/24''"
    and free: "pe_ipv4 p \<notin> (pe_ipv4 \<circ> snd) ` set (nr_peers n)"
  shows "net_wf (n\<lparr>nr_peers := AList.update c p (nr_peers n)\<rparr>)"
proof -
  have d: "distinct (map fst (nr_peers n))" using wf by (simp add: net_wf_def)
  have "distinct (map (pe_ipv4 \<circ> snd) (AList.update c p (nr_peers n)))"
    by (rule peers_update) (use wf free in \<open>auto simp: net_wf_def\<close>)
  with wf p d show ?thesis
    by (auto simp: net_wf_def valid_net_record_def distinct_update in_update)
qed

lemma net_wf_delete: "net_wf n \<Longrightarrow> net_wf (n\<lparr>nr_peers := AList.delete c (nr_peers n)\<rparr>)"
proof -
  assume wf: "net_wf n"
  have "distinct (map (pe_ipv4 \<circ> snd) (AList.delete c (nr_peers n)))"
    using wf by (simp add: net_wf_def AList.delete_eq distinct_map_filter)
  with wf show ?thesis by (auto simp: net_wf_def valid_net_record_def distinct_delete dest: in_delete)
qed

section \<open>Attaching a task\<close>

lemma holds_peer_ok:
  assumes "holds \<nu> \<rho> w" and "\<nu> d = Some n" and "(c, p) \<in> set (nr_peers n)" and "\<rho> c = Some r"
  shows "peer_ok n c r"
  using assms holds_views(3,6,7) [OF assms(1)] unfolding peers_ok_def by metis

text \<open>The record of a new endpoint: the network's with the task, and the task's with the network.\<close>

lemma put_peer:
  assumes h: "holds \<nu> \<rho> w" and n: "\<nu> (nr_id n) = Some n" and r: "\<rho> (tr_id r) = Some r"
    and nm: "map_of (tr_networks r) (nr_name n) = None" and int: "managed r \<longrightarrow> nr_internal n"
    and wf: "net_wf (n\<lparr>nr_peers := AList.update (tr_id r) p (nr_peers n)\<rparr>)"
  shows "einv (put_net (n\<lparr>nr_peers := AList.update (tr_id r) p (nr_peers n)\<rparr>) w)"
proof (rule put_net_changed [OF h n _ _ _ wf, where r' = r])
  show "(c, q) \<in> set (nr_peers n) \<or> \<rho> c = Some r \<and> peer_ok (n\<lparr>nr_peers := AList.update (tr_id r) p (nr_peers n)\<rparr>) c r"
    if "(c, q) \<in> set (nr_peers (n\<lparr>nr_peers := AList.update (tr_id r) p (nr_peers n)\<rparr>))" for c q
  proof -
    from that have "(c, q) = (tr_id r, p) \<or> (c, q) \<in> set (nr_peers n)" by (auto dest: in_updateD)
    moreover have "(nr_name n, e) \<notin> set (tr_networks r)" for e using nm weak_map_of_SomeI by fastforce
    ultimately show ?thesis using r int by (auto simp: peer_ok_def)
  qed
  show "link_at w ([], veth_name c (nr_id n)) = None"
    if "c \<in> fst ` set (nr_peers n)" "c \<notin> fst ` set (nr_peers (n\<lparr>nr_peers := AList.update (tr_id r) p (nr_peers n)\<rparr>))" for c
  proof -
    have "c \<in> fst ` set (AList.update (tr_id r) p (nr_peers n))" using that(1) by (simp add: dom_update)
    with that(2) show ?thesis by simp
  qed
qed (simp_all add: peer_ok_def)

lemma put_endpoint:
  assumes h: "holds \<nu> \<rho> w" and n: "\<nu> (nr_id n) = Some n" and r: "\<rho> (tr_id r) = Some r"
    and one: "managed r \<longrightarrow> nr_internal n \<and> tr_networks r = []" and e: "ep_id e = veth_name (tr_id r) (nr_id n)"
  shows "einv (put_rec (r\<lparr>tr_networks := tr_networks r @ [(nr_name n, e)]\<rparr>) w)"
proof (rule einv_put_rec [OF holds_einv [OF h], where c = "tr_id r"])
  let ?r = "r\<lparr>tr_networks := tr_networks r @ [(nr_name n, e)]\<rparr>"
  note v = holds_views [OF h]
  show "tr_id r \<notin> set (ew_random w)" using holds_used(2) [OF h] r by fastforce
  show "peer_ok m (tr_id r) ?r" if m: "net_at w d = Some m" "(tr_id r, p) \<in> set (nr_peers m)" for d m p
  proof -
    have "peer_ok m (tr_id r) r" using holds_peer_ok [OF h _ m(2) r] m(1) v(6) by simp
    moreover have "m = n" if nm: "nr_name m = nr_name n"
    proof (cases "d = nr_id n")
      case True
      with m(1) n v(6) show ?thesis by simp
    next
      case False
      have "\<nu> d = Some m" using m(1) v(6) by simp
      from holds_apart(2) [OF h this n False] nm show ?thesis by simp
    qed
    ultimately show ?thesis using e unfolding peer_ok_def managed_def by auto
  qed
  show "link_at w ([], ep_id x) = None"
    if "rec_at w (tr_id r) = Some s" "(nm, x) \<in> set (tr_networks s)" "ep_id x \<notin> (ep_id \<circ> snd) ` set (tr_networks ?r)" for s nm x
    using that r v(7) by force
qed (use one in \<open>auto simp: managed_def\<close>)

lemma connect_triple:
  assumes r: "\<rho> (tr_id r) = Some r"
  shows "triple (holds \<nu> \<rho>) (connect value r) (\<lambda>_. einv) (\<lambda>_. einv)"
  unfolding connect_def
proof (rule triple_bind_fact [OF holds_find], rule triple_if)
  fix n assume f: "found \<nu> value n" and new: "\<not> map_of (tr_networks r) (nr_name n) \<noteq> None"
  from f have n: "\<nu> (nr_id n) = Some n" by (simp add: found_def)
  show "triple (holds \<nu> \<rho>)
    (bindIO (whenE (\<not> nr_internal n \<and> managed r) GWorkerEgress) (\<lambda>_.
     bindIO (whenE (nr_internal n \<and> tr_networks r \<noteq> [] \<and> managed r) GSecondNetwork) (\<lambda>_.
     bindIO (whenE (nr_internal n \<and> \<not> managed r \<and> label (tr_labels r) ''io.codex-dock.proxy-layout'' = []) GNotWorkerOrProxy) (\<lambda>_.
     case free_host (nr_slot n) (set (map (pe_ipv4 \<circ> snd) (nr_peers n))) [2..<255] of
       None \<Rightarrow> throwIO GNoAddress
     | Some k \<Rightarrow>
         let ip = net_address (nr_slot n) k; h = veth_name (tr_id r) (nr_id n);
             i = free_iface (set (map (ep_iface \<circ> snd) (tr_networks r))) [0..<Suc (length (tr_networks r))];
             e = \<lparr>ep_network = nr_id n, ep_id = h, ep_ip = ip, ep_gateway = nr_gateway n, ep_iface = i\<rparr>;
             r' = r\<lparr>tr_networks := tr_networks r @ [(nr_name n, e)]\<rparr>;
             n' = n\<lparr>nr_peers := AList.update (tr_id r) \<lparr>pe_name = tr_name r, pe_endpoint = h, pe_ipv4 = ip @ ''/24''\<rparr> (nr_peers n)\<rparr> in
         bindIO (save_network n') (\<lambda>_. bindIO (save_task r') (\<lambda>_. materialize_endpoint n' r' e))))))
    (\<lambda>_. einv) (\<lambda>_. einv)"
  proof (rule triple_fact [where B = "net_wf n"], use holds_net_wf n in blast,
      rule triple_bind_fact [OF holds_when], rule triple_bind_fact [OF holds_when], rule triple_bind_fact [OF holds_when])
    assume wf: "net_wf n" and g1: "\<not> (\<not> nr_internal n \<and> managed r)" and g2: "\<not> (nr_internal n \<and> tr_networks r \<noteq> [] \<and> managed r)"
    show "triple (holds \<nu> \<rho>) (case free_host (nr_slot n) (set (map (pe_ipv4 \<circ> snd) (nr_peers n))) [2..<255] of
       None \<Rightarrow> throwIO GNoAddress
     | Some k \<Rightarrow>
         let ip = net_address (nr_slot n) k; h = veth_name (tr_id r) (nr_id n);
             i = free_iface (set (map (ep_iface \<circ> snd) (tr_networks r))) [0..<Suc (length (tr_networks r))];
             e = \<lparr>ep_network = nr_id n, ep_id = h, ep_ip = ip, ep_gateway = nr_gateway n, ep_iface = i\<rparr>;
             r' = r\<lparr>tr_networks := tr_networks r @ [(nr_name n, e)]\<rparr>;
             n' = n\<lparr>nr_peers := AList.update (tr_id r) \<lparr>pe_name = tr_name r, pe_endpoint = h, pe_ipv4 = ip @ ''/24''\<rparr> (nr_peers n)\<rparr> in
         bindIO (save_network n') (\<lambda>_. bindIO (save_task r') (\<lambda>_. materialize_endpoint n' r' e)))
      (\<lambda>_. einv) (\<lambda>_. einv)"
    proof (cases "free_host (nr_slot n) (set (map (pe_ipv4 \<circ> snd) (nr_peers n))) [2..<255]")
      case None
      then show ?thesis by (simp only: option.case holds_throw)
    next
      case (Some k)
      from free_host_Some [OF Some, unfolded set_upt set_map] have k: "k \<in> {2..<255}" "net_address (nr_slot n) k @ ''/24'' \<notin> (pe_ipv4 \<circ> snd) ` set (nr_peers n)"
        by blast+
      define e where "e = \<lparr>ep_network = nr_id n, ep_id = veth_name (tr_id r) (nr_id n), ep_ip = net_address (nr_slot n) k,
         ep_gateway = nr_gateway n, ep_iface = free_iface (set (map (ep_iface \<circ> snd) (tr_networks r))) [0..<Suc (length (tr_networks r))]\<rparr>"
      define p where "p = \<lparr>pe_name = tr_name r, pe_endpoint = veth_name (tr_id r) (nr_id n), pe_ipv4 = net_address (nr_slot n) k @ ''/24''\<rparr>"
      define n' where "n' = n\<lparr>nr_peers := AList.update (tr_id r) p (nr_peers n)\<rparr>"
      define r' where "r' = r\<lparr>tr_networks := tr_networks r @ [(nr_name n, e)]\<rparr>"
      let ?\<nu> = "\<nu>(nr_id n \<mapsto> n')" and ?\<rho> = "\<rho>(tr_id r \<mapsto> r')"
      have wf': "net_wf n'" unfolding n'_def by (rule net_wf_update [OF wf]) (use k in \<open>auto simp: p_def\<close>)
      have pn: "einv (put_net n' w)" if "holds \<nu> \<rho> w" for w
        using put_peer [OF that, of n r p] n r new g1 wf' by (auto simp: n'_def)
      have "triple (\<lambda>w. holds \<nu> \<rho> w \<and> True) (save_network n') (\<lambda>_ w. holds (\<nu>(nr_id n' \<mapsto> n')) \<rho> w \<and> True) (\<lambda>_. einv)"
        by (rule holds_save_network) (use pn in auto)
      then have sn: "triple (holds \<nu> \<rho>) (save_network n') (\<lambda>_. holds ?\<nu> \<rho>) (\<lambda>_. einv)" by (simp add: n'_def)
      have pe: "einv (put_rec r' w)" if "holds ?\<nu> \<rho> w" for w
        using put_endpoint [OF that, of n' r e] r g1 g2 by (auto simp: n'_def r'_def e_def)
      have "triple (\<lambda>w. holds ?\<nu> \<rho> w \<and> True) (save_task r') (\<lambda>_ w. holds ?\<nu> (\<rho>(tr_id r' \<mapsto> r')) w \<and> True) (\<lambda>_. einv)"
        by (rule holds_save_task) (use pe in auto)
      then have st: "triple (holds ?\<nu> \<rho>) (save_task r') (\<lambda>_. holds ?\<nu> ?\<rho>) (\<lambda>_. einv)" by (simp add: r'_def)
      have "member ?\<nu> ?\<rho> (tr_id r) (nr_id n)"
      proof -
        have "(tr_id r, p) \<in> set (nr_peers n')" using wf by (simp add: n'_def net_wf_def in_update)
        moreover have "(nr_name n, e) \<in> set (tr_networks r')" "ep_id e = veth_name (tr_id r) (nr_id n)" by (simp_all add: r'_def e_def)
        moreover have "?\<nu> (nr_id n) = Some n'" "?\<rho> (tr_id r) = Some r'" by simp_all
        ultimately show ?thesis unfolding member_def by blast
      qed
      then have "triple (holds ?\<nu> ?\<rho>) (materialize_endpoint n' r' e) (\<lambda>_. holds ?\<nu> ?\<rho>) (\<lambda>_. einv)"
        by (intro holds_materialize_endpoint) (use wf' in \<open>auto simp: n'_def r'_def net_wf_def valid_net_record_def\<close>)
      then have me: "triple (holds ?\<nu> ?\<rho>) (materialize_endpoint n' r' e) (\<lambda>_. einv) (\<lambda>_. einv)"
        by (rule triple_post) (auto simp: holds_def)
      have "triple (holds \<nu> \<rho>) (bindIO (save_network n') (\<lambda>_. bindIO (save_task r') (\<lambda>_. materialize_endpoint n' r' e))) (\<lambda>_. einv) (\<lambda>_. einv)"
        by (rule triple_bind_skip [OF sn triple_bind_skip [OF st me]])
      then show ?thesis unfolding Some by (simp add: Let_def n'_def r'_def e_def p_def)
    qed
  qed
qed (rule triple_return, rule holds_einv)

section \<open>Detaching a task\<close>

lemma find_native_Some:
  "find_native v cs f w = (Inr (Some c), w') \<Longrightarrow>
     f = Some c \<or> c \<in> set cs \<and> (label (na_labels c) ''codex-dock.name'' = v \<or> 12 \<le> length v \<and> prefix v (na_id c))"
proof (induction v cs f arbitrary: w rule: find_native.induct)
  case (2 v x cs f)
  let ?m = "label (na_labels x) ''codex-dock.name'' = v \<or> 12 \<le> length v \<and> prefix v (na_id x)"
  show ?case
  proof (cases ?m)
    case True
    with "2.prems" obtain w1 where "find_native v cs (Some x) w1 = (Inr (Some c), w')" by (auto simp: io_iffs)
    from "2.IH"(1) [OF True this] True show ?thesis by auto
  next
    case False
    with "2.prems" obtain w1 where "find_native v cs f w1 = (Inr (Some c), w')" by (auto simp: io_iffs)
    from "2.IH"(2) [OF False this] show ?thesis by auto
  qed
qed simp

lemma load_task_id:
  assumes "names_ok w" and "hex_id v" and "load_task bk v w = (Inr (r, c), w')"
  shows "tr_id r = v"
proof -
  from assms(3) obtain w1 w2 f where a: "probe w = (Inr (), w1)" "find_native v (filter na_owned (ew_natives w1)) None w1 = (Inr f, w2)"
    unfolding load_task_def bindIO_Inr_iff by (auto simp: io_iffs)
  with assms(3) obtain c' where f: "f = Some c'" by (cases f) (auto simp: load_task_def io_iffs split: if_splits)
  with assms(3) a have b: "c' = c" "tr_id r = na_id c" "hex_id (tr_id r)"
    by (auto simp: load_task_def io_iffs split: option.splits)
  have nat: "ew_natives w1 = ew_natives w" using core_step [OF core_probe a(1)] core_views(5) by metis
  from find_native_Some [of v "filter na_owned (ew_natives w1)" None w1 c w2] a(2) f b(1)
  have m: "c \<in> set (ew_natives w)" "label (na_labels c) ''codex-dock.name'' = v \<or> 12 \<le> length v \<and> prefix v (na_id c)"
    using nat by auto
  from m assms(1,2) have "prefix v (na_id c)" by (auto simp: names_ok_def)
  moreover have "length v = 64" "length (na_id c) = 64" using assms(2) b by (simp_all add: hex_id_def lower_hex_n_def)
  ultimately show ?thesis using b(2) by (auto simp: prefix_def)
qed

definition cut :: "string \<Rightarrow> net_rec \<Rightarrow> net_rec" where
  "cut c n = n\<lparr>nr_peers := AList.delete c (nr_peers n)\<rparr>"

lemma cut_simps [simp]: "nr_id (cut c n) = nr_id n" "nr_peers (cut c n) = AList.delete c (nr_peers n)" "nr_name (cut c n) = nr_name n"
  by (simp_all add: cut_def)

lemma cut_absent: "map_of (nr_peers n) c = None \<Longrightarrow> cut c n = n"
  by (simp add: cut_def map_of_eq_None_iff)

lemma cut_peer: "c \<notin> fst ` set (nr_peers (cut c n))"
  by (auto dest: in_delete)

lemma put_cut:
  assumes h: "holds \<nu> \<rho> w" and n: "\<nu> (nr_id n) = Some n" and l: "link_at w ([], veth_name c (nr_id n)) = None"
  shows "einv (put_net (cut c n) w)"
proof (rule put_net_changed [OF h n, where r' = undefined])
  show "net_wf (cut c n)" unfolding cut_def by (rule net_wf_delete) (use holds_net_wf [OF h n] in simp)
  show "link_at w ([], veth_name x (nr_id n)) = None"
    if "x \<in> fst ` set (nr_peers n)" "x \<notin> fst ` set (nr_peers (cut c n))" for x
  proof (cases "x = c")
    case False
    with that have "x \<in> fst ` set (AList.delete c (nr_peers n))" by (force simp: AList.delete_eq)
    with that(2) show ?thesis by simp
  qed (simp add: l)
qed (auto simp: cut_def peer_ok_def dest: in_delete)

lemma put_detached:
  assumes h: "holds \<nu> \<rho> w" and r: "\<rho> (tr_id r) = Some r"
    and gone: "\<And>e. (nm, e) \<in> set (tr_networks r) \<Longrightarrow> link_at w ([], ep_id e) = None"
  shows "einv (put_rec (r\<lparr>tr_networks := AList.delete nm (tr_networks r)\<rparr>) w)"
proof (rule einv_put_rec [OF holds_einv [OF h], where c = "tr_id r"])
  let ?r = "r\<lparr>tr_networks := AList.delete nm (tr_networks r)\<rparr>"
  note v = holds_views [OF h]
  have "managed r \<longrightarrow> length (tr_networks r) \<le> 1" using v(2,7) r by (auto simp: recs_ok_def)
  then show "managed ?r \<longrightarrow> length (tr_networks ?r) \<le> 1"
    using length_delete_le [of nm "tr_networks r"] by (auto simp: managed_def)
  show "tr_id r \<notin> set (ew_random w)" using holds_used(2) [OF h] r by fastforce
  show "peer_ok m (tr_id r) ?r" if "net_at w d = Some m" "(tr_id r, p) \<in> set (nr_peers m)" for d m p
  proof -
    have "peer_ok m (tr_id r) r" using holds_peer_ok [OF h _ that(2) r] that(1) v(6) by simp
    then show ?thesis by (auto simp: peer_ok_def managed_def dest: in_delete)
  qed
  show "link_at w ([], ep_id e) = None"
    if e: "rec_at w (tr_id r) = Some s" "(k, e) \<in> set (tr_networks s)" "ep_id e \<notin> (ep_id \<circ> snd) ` set (tr_networks ?r)" for s k e
  proof (cases "k = nm")
    case True
    with e r v(7) gone show ?thesis by auto
  next
    case False
    with e r v(7) have "(k, e) \<in> set (tr_networks ?r)" by (auto simp: AList.delete_eq)
    with e(3) show ?thesis by force
  qed
qed simp

lemma holds_link_quiet:
  assumes "quiet core m" and "\<And>w x w'. holds \<nu> \<rho> w \<Longrightarrow> m w = (Inr x, w') \<Longrightarrow> B x"
  shows "triple (\<lambda>w. holds \<nu> \<rho> w \<and> link_at w k = None) m (\<lambda>x w. (holds \<nu> \<rho> w \<and> link_at w k = None) \<and> B x) (\<lambda>_. einv)"
proof (rule tripleI)
  fix w x w' assume h: "holds \<nu> \<rho> w \<and> link_at w k = None" and r: "m w = (Inr x, w')"
  from core_views(2) [OF core_step [OF assms(1) r]] triple_Inr [OF holds_quiet [OF assms(1)], of \<nu> \<rho> w x w'] h r assms(2)
  show "(holds \<nu> \<rho> w' \<and> link_at w' k = None) \<and> B x" by auto
next
  fix w e w' assume h: "holds \<nu> \<rho> w \<and> link_at w k = None" and r: "m w = (Inl e, w')"
  with triple_Inl [OF holds_quiet [OF assms(1)], of \<nu> \<rho> w e w'] show "einv w'" by simp
qed

lemma disconnect_triple:
  assumes n: "\<nu> (nr_id n) = Some n"
  shows "triple (holds \<nu> \<rho>) (disconnect bk n cid) (\<lambda>_ w. \<exists>\<rho>'. holds (\<nu>(nr_id n \<mapsto> cut cid n)) \<rho>' w) (\<lambda>_. einv)"
proof (cases "map_of (nr_peers n) cid")
  case None
  have same: "\<nu>(nr_id n \<mapsto> cut cid n) = \<nu>" using cut_absent [OF None] n by (simp add: fun_upd_idem)
  show ?thesis unfolding disconnect_def None same by (auto intro!: triple_return)
next
  case (Some e)
  let ?h = "veth_name cid (nr_id n)" and ?\<nu> = "\<nu>(nr_id n \<mapsto> cut cid n)"
  let ?X = "\<lambda>w. link_at w ([], ?h) = None"
  have one: "triple (holds \<nu> \<rho>) (disconnect bk n cid) (\<lambda>_ w. \<exists>\<rho>'. holds ?\<nu> \<rho>' w) (\<lambda>_. einv)"
    if po: "\<forall>r. \<rho> cid = Some r \<longrightarrow> peer_ok n cid r"
    unfolding disconnect_def Some option.case
  proof (rule triple_bind_fact [OF holds_when], rule triple_bind [where Q = "\<lambda>_ w. holds \<nu> \<rho> w \<and> ?X w"])
    assume g: "\<not> (\<not> hex_id cid \<or> pe_endpoint e \<noteq> ?h)"
    show "triple (holds \<nu> \<rho>) (delete_endpoint_link n cid (pe_endpoint e)) (\<lambda>_ w. holds \<nu> \<rho> w \<and> ?X w) (\<lambda>_. einv)"
    proof (rule triple_post [OF holds_steady])
      show "triple (steady q) (delete_endpoint_link n cid (pe_endpoint e)) (\<lambda>_ w. steady q w \<and> ?X w) (\<lambda>_. steady q)" for q
        by (rule triple_post [OF delete_endpoint_link_triple]) (use g in auto)
    qed (auto simp: holds_def)
    have "triple (\<lambda>w. holds \<nu> \<rho> w \<and> ?X w) (save_network (cut cid n)) (\<lambda>_ w. holds (\<nu>(nr_id (cut cid n) \<mapsto> cut cid n)) \<rho> w \<and> ?X w) (\<lambda>_. einv)"
      by (rule holds_save_network) (use put_cut n in auto)
    then have save: "triple (\<lambda>w. holds \<nu> \<rho> w \<and> ?X w) (save_network (n\<lparr>nr_peers := AList.delete cid (nr_peers n)\<rparr>))
        (\<lambda>_ w. holds ?\<nu> \<rho> w \<and> ?X w) (\<lambda>_. einv)" by (simp add: cut_def)
    let ?B = "\<lambda>x. \<forall>r c. x = Inr (r, c) \<longrightarrow> tr_id r = cid \<and> \<rho> cid = Some r"
    have load: "triple (\<lambda>w. holds ?\<nu> \<rho> w \<and> ?X w) (catchIO (load_task bk cid)) (\<lambda>x w. (holds ?\<nu> \<rho> w \<and> ?X w) \<and> ?B x) (\<lambda>_. einv)"
    proof (rule holds_link_quiet)
      fix w x w' assume h: "holds ?\<nu> \<rho> w" and r: "catchIO (load_task bk cid) w = (Inr x, w')"
      then have ok: "names_ok w" "recs_ok w" "rec_at w = \<rho>" by (simp_all add: holds_def einv_def)
      show "?B x"
      proof (intro allI impI)
        fix s c assume "x = Inr (s, c)"
        with r have l: "load_task bk cid w = (Inr (s, c), w')" by (simp add: catchIO_iff)
        from g have "hex_id cid" by simp
        from load_task_id [OF ok(1) this l] load_task_Inr [OF ok(2) l] ok(3) show "tr_id s = cid \<and> \<rho> cid = Some s" by auto
      qed
    qed (intro quiet_catch, simp)
    have rest: "triple (\<lambda>w. holds ?\<nu> \<rho> w \<and> ?X w) (case x of
           Inl e \<Rightarrow> whenE (e \<noteq> GNotFound) e
         | Inr (r, c) \<Rightarrow> save_task (r\<lparr>tr_networks := AList.delete (nr_name n) (tr_networks r)\<rparr>))
         (\<lambda>_ w. \<exists>\<rho>'. holds ?\<nu> \<rho>' w) (\<lambda>_. einv)" if x: "?B x" for x
    proof (cases x)
      case (Inl err)
      then show ?thesis by (auto intro!: triple_when simp: holds_def)
    next
      case (Inr y)
      obtain r c where y: "y = (r, c)" by (cases y)
      with Inr x have r: "tr_id r = cid" "\<rho> cid = Some r" by auto
      let ?r = "r\<lparr>tr_networks := AList.delete (nr_name n) (tr_networks r)\<rparr>"
      have "einv (put_rec ?r w)" if "holds ?\<nu> \<rho> w" "?X w" for w
        using put_detached [OF that(1), of r "nr_name n"] po r that(2) by (auto simp: peer_ok_def)
      then have "triple (\<lambda>w. holds ?\<nu> \<rho> w \<and> ?X w) (save_task ?r) (\<lambda>_ w. holds ?\<nu> (\<rho>(tr_id ?r \<mapsto> ?r)) w \<and> ?X w) (\<lambda>_. einv)"
        by (intro holds_save_task) auto
      then have "triple (\<lambda>w. holds ?\<nu> \<rho> w \<and> ?X w) (save_task ?r) (\<lambda>_ w. \<exists>\<rho>'. holds ?\<nu> \<rho>' w) (\<lambda>_. einv)"
        by (rule triple_post) auto
      then show ?thesis using Inr y by simp
    qed
    show "triple (\<lambda>w. holds \<nu> \<rho> w \<and> ?X w) (bindIO (save_network (n\<lparr>nr_peers := AList.delete cid (nr_peers n)\<rparr>)) (\<lambda>_.
         bindIO (catchIO (load_task bk cid)) (\<lambda>x. case x of
           Inl e \<Rightarrow> whenE (e \<noteq> GNotFound) e
         | Inr (r, c) \<Rightarrow> save_task (r\<lparr>tr_networks := AList.delete (nr_name n) (tr_networks r)\<rparr>))))
      (\<lambda>_ w. \<exists>\<rho>'. holds ?\<nu> \<rho>' w) (\<lambda>_. einv)"
      by (rule triple_bind_skip [OF save triple_bind_fact [OF load rest]])
  qed
  show ?thesis
  proof (rule triple_fact [OF _ one])
    fix w assume "holds \<nu> \<rho> w"
    from holds_peer_ok [OF this n map_of_SomeD [OF Some]] show "\<forall>r. \<rho> cid = Some r \<longrightarrow> peer_ok n cid r" by blast
  qed
qed

definition detached :: "string \<Rightarrow> (string \<Rightarrow> net_rec option) \<Rightarrow> bool" where
  "detached c \<nu> \<longleftrightarrow> (\<forall>d n. \<nu> d = Some n \<longrightarrow> c \<notin> fst ` set (nr_peers n))"

lemma disconnect_all_triple:
  "\<forall>n \<in> set ns. \<nu> (nr_id n) = Some n \<Longrightarrow> distinct (map nr_id ns) \<Longrightarrow>
   (\<And>d n. \<nu> d = Some n \<Longrightarrow> d \<notin> nr_id ` set ns \<Longrightarrow> cid \<notin> fst ` set (nr_peers n)) \<Longrightarrow>
   triple (holds \<nu> \<rho>) (disconnect_all bk cid ns) (\<lambda>_ w. \<exists>\<nu>' \<rho>'. holds \<nu>' \<rho>' w \<and> detached cid \<nu>') (\<lambda>_. einv)"
proof (induction ns arbitrary: \<nu> \<rho>)
  case Nil
  then have "detached cid \<nu>" by (auto simp: detached_def)
  then show ?case unfolding disconnect_all.simps by (intro triple_return) blast
next
  case (Cons n ns)
  let ?\<nu> = "\<nu>(nr_id n \<mapsto> cut cid n)"
  have "triple (holds ?\<nu> \<rho>') (disconnect_all bk cid ns) (\<lambda>_ w. \<exists>\<nu>' \<rho>'. holds \<nu>' \<rho>' w \<and> detached cid \<nu>') (\<lambda>_. einv)" for \<rho>'
  proof (rule Cons.IH)
    show "\<forall>m \<in> set ns. ?\<nu> (nr_id m) = Some m" 
    proof
      fix m assume m: "m \<in> set ns"
      moreover have "nr_id n \<notin> nr_id ` set ns" using Cons.prems(2) by simp
      ultimately have "nr_id m \<noteq> nr_id n" by (metis imageI)
      with m Cons.prems(1) show "?\<nu> (nr_id m) = Some m" by simp
    qed
    show "distinct (map nr_id ns)" using Cons.prems(2) by simp
    show "cid \<notin> fst ` set (nr_peers m)" if "?\<nu> d = Some m" "d \<notin> nr_id ` set ns" for d m
    proof (cases "d = nr_id n")
      case True
      with that(1) have "m = cut cid n" by simp
      then show ?thesis using cut_peer by metis
    next
      case False
      with that show ?thesis using Cons.prems(3) [of d m] by simp
    qed
  qed
  then have "triple (\<lambda>w. \<exists>\<rho>'. holds ?\<nu> \<rho>' w) (disconnect_all bk cid ns) (\<lambda>_ w. \<exists>\<nu>' \<rho>'. holds \<nu>' \<rho>' w \<and> detached cid \<nu>') (\<lambda>_. einv)"
    by (rule triple_exists)
  moreover have "\<nu> (nr_id n) = Some n" using Cons.prems(1) by simp
  ultimately show ?case unfolding disconnect_all.simps by (rule triple_bind_skip [OF disconnect_triple, rotated])
qed

lemma remove_namespace_triple:
  "triple (holds \<nu> \<rho>) (remove_namespace bk r) (\<lambda>_ w. \<exists>\<nu>' \<rho>'. holds \<nu>' \<rho>' w \<and> detached (tr_id r) \<nu>') (\<lambda>_. einv)"
  unfolding remove_namespace_def
proof (rule triple_fact [where B = "\<forall>d n. \<nu> d = Some n \<longrightarrow> nr_id n = d"], use holds_net_wf in blast,
    rule triple_bind_fact [OF holds_networks], rule triple_bind_skip [OF disconnect_all_triple])
  fix ns assume l: "listed \<nu> ns" and wf: "\<forall>d n. \<nu> d = Some n \<longrightarrow> nr_id n = d"
  from l show "\<forall>n \<in> set ns. \<nu> (nr_id n) = Some n" "distinct (map nr_id ns)" by (simp_all add: listed_def)
  show "tr_id r \<notin> fst ` set (nr_peers n)" if d: "\<nu> d = Some n" "d \<notin> nr_id ` set ns" for d n
  proof -
    from d(1) wf have i: "nr_id n = d" by blast
    with d(1) l have "n \<in> set ns" by (simp add: listed_def)
    with d(2) i show ?thesis by auto
  qed
  fix u :: unit
  have "triple (\<lambda>w. holds \<nu>' \<rho>' w \<and> detached (tr_id r) \<nu>') (drop_namespace r) (\<lambda>_ w. \<exists>\<nu>' \<rho>'. holds \<nu>' \<rho>' w \<and> detached (tr_id r) \<nu>') (\<lambda>_. einv)"
    for \<nu>' \<rho>'
  proof (rule triple_fact [where B = "detached (tr_id r) \<nu>'"], simp)
    assume "detached (tr_id r) \<nu>'"
    then show "triple (\<lambda>w. holds \<nu>' \<rho>' w \<and> detached (tr_id r) \<nu>') (drop_namespace r)
       (\<lambda>_ w. \<exists>\<nu>' \<rho>'. holds \<nu>' \<rho>' w \<and> detached (tr_id r) \<nu>') (\<lambda>_. einv)"
      by (intro triple_pre [OF triple_post [OF drop_namespace_triple [of \<nu>' \<rho>']]]) auto
  qed
  then show "triple (\<lambda>w. \<exists>\<nu>' \<rho>'. holds \<nu>' \<rho>' w \<and> detached (tr_id r) \<nu>') (drop_namespace r)
      (\<lambda>_ w. \<exists>\<nu>' \<rho>'. holds \<nu>' \<rho>' w \<and> detached (tr_id r) \<nu>') (\<lambda>_. einv)"
    by (intro triple_exists)
qed

end
