(* ===== verification/EngineRuns.thy ===== *)
theory EngineRuns
  imports EngineAttach
begin

text \<open>
  Whole operations of the engine, recovery after a restart included, and runs of them, keep the invariant.
\<close>

section \<open>Cancelling, reserving, refreshing\<close>

lemma einv_all: "(\<And>\<nu> \<rho>. triple (holds \<nu> \<rho>) m Q R) \<Longrightarrow> triple einv m Q R"
  by (rule triple_pre [OF triple_exists [where P = "\<lambda>x. holds (fst x) (snd x)"]]) (auto simp: holds_def)

lemma einv_keep: "quiet core m \<Longrightarrow> triple einv m (\<lambda>_. einv) (\<lambda>_. einv)"
  by (rule einv_all, rule einv_quiet)

lemma clear_intent_triple: "triple einv (clear_intent bk r) (\<lambda>_. einv) (\<lambda>_. einv)"
  unfolding clear_intent_def
proof (rule einv_all, rule triple_bind_skip [OF holds_quiet], simp, rule triple_bind_skip [OF remove_namespace_triple], rule triple_exists, rule triple_exists)
  fix \<nu> :: "string \<Rightarrow> net_rec option" and \<rho> :: "string \<Rightarrow> task_rec option"
  have del: "triple (holds \<nu> \<rho>) (ecall (updIO (\<lambda>w. w\<lparr>ew_recs := AList.delete (tr_id r) (ew_recs w)\<rparr>))) (\<lambda>_. einv) (\<lambda>_. einv)"
    if "detached (tr_id r) \<nu>"
    by (rule holds_ecall, rule einv_del_rec) (use that in \<open>auto simp: holds_def detached_def\<close>)
  show "triple (\<lambda>w. holds \<nu> \<rho> w \<and> detached (tr_id r) \<nu>) (bindIO probe (\<lambda>_.
      ecall (updIO (\<lambda>w. w\<lparr>ew_recs := AList.delete (tr_id r) (ew_recs w)\<rparr>)))) (\<lambda>_. einv) (\<lambda>_. einv)"
  proof (rule triple_fact, erule conjunct2, rule triple_pre)
    assume "detached (tr_id r) \<nu>"
    then show "triple (holds \<nu> \<rho>) (bindIO probe (\<lambda>_. ecall (updIO (\<lambda>w. w\<lparr>ew_recs := AList.delete (tr_id r) (ew_recs w)\<rparr>))))
        (\<lambda>_. einv) (\<lambda>_. einv)"
      by (intro triple_bind_skip [OF holds_probe] del)
  qed simp
qed

lemma einv_natives:
  assumes i: "einv w" and c: "\<forall>c \<in> set cs. \<not> hex_id (label (na_labels c) ''codex-dock.name'')"
  shows "einv (w\<lparr>ew_natives := cs\<rparr>)"
proof -
  have "links_ok (w\<lparr>ew_natives := cs\<rparr>)" by (rule links_ok_records) (use i in \<open>auto simp: einv_def joined_def\<close>)
  with i c show ?thesis
    by (simp add: einv_def nets_ok_def names_ok_def recs_ok_def peers_ok_def fresh_ok_def fresh_id_def)
qed

lemma einv_filter: "einv w \<Longrightarrow> einv (w\<lparr>ew_natives := filter P (ew_natives w)\<rparr>)"
  by (rule einv_natives) (auto simp: einv_def names_ok_def)

lemma cancel_creation_triple: "triple einv (cancel_creation bk r) (\<lambda>_. einv) (\<lambda>_. einv)"
  unfolding cancel_creation_def
proof (rule triple_bind_skip [OF einv_keep], simp, rule triple_bind_skip [OF triple_get [where Q = "\<lambda>_. einv"]], simp)
  fix c
  have del: "triple einv (ecall (updIO (\<lambda>w. w\<lparr>ew_natives := filter (\<lambda>x. na_id x \<noteq> tr_id r) (ew_natives w)\<rparr>))) (\<lambda>_. einv) (\<lambda>_. einv)"
    by (rule triple_ecall [OF triple_upd]) (auto intro: einv_filter)
  show "triple einv (case c of None \<Rightarrow> clear_intent bk r
     | Some c \<Rightarrow> bindIO (load_task bk (tr_id r)) (\<lambda>_. bindIO probe (\<lambda>_. bindIO (whenE (na_task c) GLive) (\<lambda>_.
         bindIO (ecall (updIO (\<lambda>w. w\<lparr>ew_natives := filter (\<lambda>x. na_id x \<noteq> tr_id r) (ew_natives w)\<rparr>))) (\<lambda>_.
           clear_intent bk r))))) (\<lambda>_. einv) (\<lambda>_. einv)"
    by (cases c) (auto intro!: clear_intent_triple triple_bind_skip [OF einv_keep] triple_bind_skip [OF del])
qed

lemma recover_intents_triple: "triple einv (recover_intents bk xs) (\<lambda>_. einv) (\<lambda>_. einv)"
proof (induction xs)
  case Nil
  show ?case unfolding recover_intents.simps by (rule triple_return)
next
  case (Cons x xs)
  obtain name r where x: "x = (name, r)" by (cases x)
  have one: "triple einv (if known then returnIO () else
       bindIO probe (\<lambda>_. bindIO (whenE (tr_id r \<noteq> name) GBadRecord) (\<lambda>_. clear_intent bk r))) (\<lambda>_. einv) (\<lambda>_. einv)" for known
    by (auto intro!: triple_return clear_intent_triple triple_bind_skip [OF einv_keep])
  show ?case unfolding x recover_intents.simps
    by (rule triple_bind_skip [OF einv_keep], simp, rule triple_bind_skip [OF einv_keep], simp,
        rule triple_bind_skip [OF triple_get [where Q = "\<lambda>_. einv"]], simp, rule triple_bind_skip [OF one Cons.IH])
qed

lemma triple_bind_pair:
  assumes "triple P m (\<lambda>(x, y). Q x y) R" and "\<And>x y. triple (Q x y) (f x y) S R"
  shows "triple P (bindIO m (\<lambda>(x, y). f x y)) S R"
  by (rule triple_bind [OF assms(1)]) (use assms(2) in \<open>auto split: prod.split\<close>)

lemma reserve_task_triple: "triple einv (reserve_task bk spec mode) (\<lambda>_. einv) (\<lambda>_. einv)"
  unfolding reserve_task_def Let_def
proof (rule einv_all, rule triple_bind [OF random_id_triple])
  fix \<nu> \<rho> cid
  let ?P = "\<lambda>w. holds \<nu> \<rho> w \<and> fresh_id w cid \<and> cid \<notin> set (ew_random w)"
  let ?r = "spec\<lparr>tr_id := cid, tr_networks := []\<rparr>"
  have put: "einv (put_rec ?r w)" if w: "?P w" for w
  proof (rule einv_put_rec [where c = cid])
    show "peer_ok n cid ?r" if n: "net_at w d = Some n" "(cid, p) \<in> set (nr_peers n)" for d n p
    proof -
      have "cid \<in> fst ` set (nr_peers n)" using n(2) by force
      with w n(1) have False unfolding fresh_id_def by blast
      then show ?thesis ..
    qed
  qed (use w in \<open>auto simp: holds_def fresh_id_def\<close>)
  have "triple ?P (save_task ?r) (\<lambda>_. holds \<nu> (\<rho>(cid \<mapsto> ?r))) (\<lambda>_. einv)"
    unfolding save_task_def
    by (rule triple_bind [OF triple_probe [where P = ?P] publish_triple]) (use put in \<open>auto simp: holds_def fresh_id_def\<close>)
  moreover have "triple (holds \<nu> (\<rho>(cid \<mapsto> ?r))) (bindIO (try_namespace ?r) (\<lambda>(r', x).
     bindIO (case x of None \<Rightarrow> catchIO (connect mode r') | Some e \<Rightarrow> returnIO (Inl e)) (\<lambda>y. case y of
       Inr _ \<Rightarrow> returnIO ()
     | Inl e \<Rightarrow> bindIO (catchIO (cancel_creation bk r')) (\<lambda>_. throwIO e)))) (\<lambda>_. einv) (\<lambda>_. einv)"
  proof (rule triple_bind_pair [OF try_namespace_triple], simp)
    fix r' :: task_rec and x :: "engine_error option"
    let ?Q = "\<lambda>w. same_task ?r r' \<and> einv w \<and> (x = None \<longrightarrow> holds \<nu> ((\<rho>(cid \<mapsto> ?r))(tr_id ?r \<mapsto> r')) w)"
    have "triple ?Q (case x of None \<Rightarrow> catchIO (connect mode r') | Some e \<Rightarrow> returnIO (Inl e)) (\<lambda>_. einv) (\<lambda>_. einv)"
    proof (cases x)
      case None
      have go: "triple (holds \<nu> ((\<rho>(cid \<mapsto> ?r))(tr_id ?r \<mapsto> r'))) (connect mode r') (\<lambda>_. einv) (\<lambda>_. einv)" if "same_task ?r r'"
        by (rule connect_triple) (use that in \<open>auto simp: same_task_def\<close>)
      have "triple ?Q (connect mode r') (\<lambda>_. einv) (\<lambda>_. einv)"
      proof (rule triple_fact [where B = "same_task ?r r'"])
        assume "same_task ?r r'"
        from go [OF this] show "triple ?Q (connect mode r') (\<lambda>_. einv) (\<lambda>_. einv)" by (rule triple_pre) (simp add: None)
      qed simp
      then show ?thesis unfolding None option.case by (intro triple_catch)
    qed (auto intro!: triple_return)
    moreover have "triple einv (case y of Inr _ \<Rightarrow> returnIO () | Inl e \<Rightarrow> bindIO (catchIO (cancel_creation bk r')) (\<lambda>_. throwIO e))
        (\<lambda>_. einv) (\<lambda>_. einv)" for y :: "engine_error + unit"
    proof (cases y)
      case (Inl e)
      have "triple einv (catchIO (cancel_creation bk r')) (\<lambda>_. einv) (\<lambda>_. einv)"
        by (rule triple_catch, rule cancel_creation_triple)
      then show ?thesis unfolding Inl sum.case by (rule triple_bind_skip) (rule triple_throw)
    qed (auto intro!: triple_return)
    ultimately show "triple (\<lambda>w. same_task ?r r' \<and> einv w \<and> (x = None \<longrightarrow> holds \<nu> ((\<rho>(cid \<mapsto> ?r))(tr_id ?r \<mapsto> r')) w))
      (bindIO (case x of None \<Rightarrow> catchIO (connect mode r') | Some e \<Rightarrow> returnIO (Inl e)) (\<lambda>y. case y of
       Inr _ \<Rightarrow> returnIO () | Inl e \<Rightarrow> bindIO (catchIO (cancel_creation bk r')) (\<lambda>_. throwIO e))) (\<lambda>_. einv) (\<lambda>_. einv)"
      by (rule triple_bind_skip)
  qed
  ultimately show "triple ?P (bindIO (save_task ?r) (\<lambda>_. bindIO (try_namespace ?r) (\<lambda>(r', x).
     bindIO (case x of None \<Rightarrow> catchIO (connect mode r') | Some e \<Rightarrow> returnIO (Inl e)) (\<lambda>y. case y of
       Inr _ \<Rightarrow> returnIO ()
     | Inl e \<Rightarrow> bindIO (catchIO (cancel_creation bk r')) (\<lambda>_. throwIO e))))) (\<lambda>_. einv) (\<lambda>_. einv)"
    by (rule triple_bind_skip)
qed

text \<open>An endpoint both records hold may be materialized.\<close>

lemma saved_endpoint_triple:
  assumes n: "\<nu> (nr_id n) = Some n" and r: "\<rho> (tr_id r) = Some r" and e: "(nm, e) \<in> set (tr_networks r)"
    and p: "(case map_of (nr_peers n) (tr_id r) of None \<Rightarrow> [] | Some x \<Rightarrow> pe_endpoint x) = ep_id e"
  shows "triple (holds \<nu> \<rho>) (materialize_endpoint n r e) (\<lambda>_. holds \<nu> \<rho>) (\<lambda>_. einv)"
proof (rule triple_fact [where B = "net_wf n"], use holds_net_wf n in blast, rule holds_materialize_endpoint)
  assume "net_wf n"
  then show "nr_bridge n = bridge_name (nr_id n)" by (simp add: net_wf_def valid_net_record_def)
  assume h: "ep_id e = veth_name (tr_id r) (nr_id n)"
  then obtain x where "map_of (nr_peers n) (tr_id r) = Some x" using p by (cases "map_of (nr_peers n) (tr_id r)") (auto simp: veth_name_def)
  then have "(tr_id r, x) \<in> set (nr_peers n)" by (rule map_of_SomeD)
  with n r e h show "member \<nu> \<rho> (tr_id r) (nr_id n)" unfolding member_def by blast
qed

lemma holds_delete_endpoint: "triple (holds \<nu> \<rho>) (delete_endpoint_link n c ep) (\<lambda>_. holds \<nu> \<rho>) (\<lambda>_. einv)"
  by (rule holds_steady0, rule triple_post [OF delete_endpoint_link_triple]) auto

lemma refresh_triple:
  assumes r: "\<rho> (tr_id r) = Some r"
  shows "triple (holds \<nu> \<rho>) (refresh_worker_namespace r) (\<lambda>_. einv) (\<lambda>_. einv)"
proof (cases "\<exists>name e. tr_networks r = [(name, e)] \<and> managed r")
  case True
  then obtain name e where ne: "tr_networks r = [(name, e)]" "managed r" by blast
  have m: "triple (holds \<nu> \<rho>) (bindIO (find_network name) (\<lambda>n.
            bindIO (whenE (\<not> nr_internal n \<or> (case map_of (nr_peers n) (tr_id r) of None \<Rightarrow> [] | Some p \<Rightarrow> pe_endpoint p) \<noteq> ep_id e)
              GBadEndpoint) (\<lambda>_.
            bindIO (delete_endpoint_link n (tr_id r) (ep_id e)) (\<lambda>_.
            bindIO (drop_namespace r) (\<lambda>_.
            bindIO (new_namespace r) (\<lambda>r'.
            bindIO (find_network name) (\<lambda>n'. materialize_endpoint n' r' e))))))) (\<lambda>_. einv) (\<lambda>_. einv)"
  proof (rule triple_bind_fact [OF holds_find], rule triple_bind_fact [OF holds_when], rule triple_bind_skip [OF holds_delete_endpoint],
      rule triple_bind_skip [OF drop_namespace_triple], rule triple_bind [OF new_namespace_triple])
    show "current \<rho> r" using r by simp
    fix n r'
    assume f: "found \<nu> name n"
      and g: "\<not> (\<not> nr_internal n \<or> (case map_of (nr_peers n) (tr_id r) of None \<Rightarrow> [] | Some p \<Rightarrow> pe_endpoint p) \<noteq> ep_id e)"
    let ?\<rho> = "\<rho>(tr_id r \<mapsto> r')"
    have fin: "triple (holds \<nu> ?\<rho>) (bindIO (find_network name) (\<lambda>n'. materialize_endpoint n' r' e)) (\<lambda>_. einv) (\<lambda>_. einv)"
      if s: "same_task r r'"
    proof (rule triple_bind_fact [OF holds_find])
      fix n' assume f': "found \<nu> name n'"
      with f have e: "n' = n" unfolding found_def by blast
      have r': "tr_id r' = tr_id r" "tr_networks r' = [(name, e)]" using s ne by (auto simp: same_task_def)
      have "triple (holds \<nu> ?\<rho>) (materialize_endpoint n r' e) (\<lambda>_. holds \<nu> ?\<rho>) (\<lambda>_. einv)"
        by (rule saved_endpoint_triple [where nm = name]) (use f g r' in \<open>auto simp: found_def\<close>)
      then show "triple (holds \<nu> ?\<rho>) (materialize_endpoint n' r' e) (\<lambda>_. einv) (\<lambda>_. einv)"
        unfolding e by (rule triple_post) (auto simp: holds_def)
    qed
    show "triple (\<lambda>w. holds \<nu> ?\<rho> w \<and> same_task r r') (bindIO (find_network name) (\<lambda>n'. materialize_endpoint n' r' e)) (\<lambda>_. einv) (\<lambda>_. einv)"
      by (rule triple_fact, erule conjunct2, rule triple_pre [OF fin]) auto
  qed
  show ?thesis unfolding refresh_worker_namespace_def ne(1) list.case prod.case using m ne(2) by simp
next
  case False
  then show ?thesis unfolding refresh_worker_namespace_def by (auto intro!: holds_throw split: list.split)
qed

section \<open>Recovery\<close>

lemma load_all_current:
  "load_all bk cs w = (Inr rs, w') \<Longrightarrow> recs_ok w \<Longrightarrow> \<forall>x \<in> set rs. rec_at w (tr_id (fst x)) = Some (fst x)"
proof (induction cs arbitrary: w rs)
  case (Cons c cs)
  from Cons.prems(1) obtain r x w1 w2 rs' where s: "load_task bk (na_id c) w = (Inr (r, x), w1)" "probe w1 = (Inr (), w2)"
    "load_all bk cs w2 = (Inr rs', w')" "rs = (r, na_task c) # rs'"
    by (auto simp: io_iffs split: prod.splits)
  have "core w2 = core w" using s(1,2) core_step by (metis core_load_task core_probe)
  then have e: "rec_at w2 = rec_at w" using core_views(1) disk_views(2) by metis
  with Cons.prems(2) have "recs_ok w2" by (simp add: recs_ok_def)
  from Cons.IH [OF s(3) this] load_task_Inr [OF Cons.prems(2) s(1)] e s(4) show ?case by simp
qed simp

lemma holds_load_all: "triple (holds \<nu> \<rho>) (load_all bk cs) (\<lambda>rs w. holds \<nu> \<rho> w \<and> (\<forall>x \<in> set rs. current \<rho> (fst x))) (\<lambda>_. einv)"
proof (rule holds_fact)
  fix w rs w' assume h: "holds \<nu> \<rho> w" and r: "load_all bk cs w = (Inr rs, w')"
  from load_all_current [OF r] h show "\<forall>x \<in> set rs. current \<rho> (fst x)" by (simp add: holds_def einv_def)
qed simp

lemma recover_network_triple:
  assumes n: "\<nu> (nr_id n) = Some n"
  shows "triple (holds \<nu> \<rho>) (recover_network bk recs n) (\<lambda>_ w. \<exists>n'. nr_id n' = nr_id n \<and> holds (\<nu>(nr_id n \<mapsto> n')) \<rho> w) (\<lambda>_. einv)"
  unfolding recover_network_def
proof (rule triple_bind_skip [OF holds_probe], rule triple_bind_skip [OF holds_get], rule triple_if)
  have same: "triple (holds \<nu> \<rho>) m (\<lambda>_ w. \<exists>n'. nr_id n' = nr_id n \<and> holds (\<nu>(nr_id n \<mapsto> n')) \<rho> w) (\<lambda>_. einv)"
    if "quiet core m" for m :: "unit eio"
  proof (rule triple_post [OF holds_quiet [OF that]])
    fix w assume "holds \<nu> \<rho> w"
    moreover have "\<nu>(nr_id n \<mapsto> n) = \<nu>" using n by (simp add: fun_upd_idem)
    ultimately have "nr_id n = nr_id n \<and> holds (\<nu>(nr_id n \<mapsto> n)) \<rho> w" by simp
    then show "\<exists>n'. nr_id n' = nr_id n \<and> holds (\<nu>(nr_id n \<mapsto> n')) \<rho> w" by blast
  qed
  show "triple (holds \<nu> \<rho>) (if nr_firewall n \<noteq> [] then verify_network bk n else returnIO ())
      (\<lambda>_ w. \<exists>n'. nr_id n' = nr_id n \<and> holds (\<nu>(nr_id n \<mapsto> n')) \<rho> w) (\<lambda>_. einv)"
    by (rule same) auto
  have del: "triple (holds \<nu> \<rho>) (nft_delete t) (\<lambda>_. holds \<nu> \<rho>) (\<lambda>_. einv)" for t by (rule holds_steady0, rule steady_nft)
  have table: "triple (holds \<nu> \<rho>) (case h of Inl _ \<Rightarrow> returnIO ()
         | Inr x \<Rightarrow> bindIO (whenE (nr_firewall n = [] \<or> x \<noteq> nr_firewall n) GFirewallChanged) (\<lambda>_. nft_delete (net_table n)))
      (\<lambda>_. holds \<nu> \<rho>) (\<lambda>_. einv)" for h :: "engine_error + string"
    by (cases h) (auto intro!: triple_return triple_bind_fact [OF holds_when] del)
  have fin: "triple (holds \<nu> \<rho>) (bindIO (materialize_network bk n) (\<lambda>_. returnIO ()))
      (\<lambda>_ w. \<exists>n'. nr_id n' = nr_id n \<and> holds (\<nu>(nr_id n \<mapsto> n')) \<rho> w) (\<lambda>_. einv)"
    by (rule triple_bind [OF materialize_network_triple [of \<nu> n \<rho> bk]], rule n, rule triple_return) blast
  show "triple (holds \<nu> \<rho>) (bindIO (occupants_idle recs (nr_peers n)) (\<lambda>_.
       bindIO (catchIO (firewall_hash bk n)) (\<lambda>h.
       bindIO (case h of Inl _ \<Rightarrow> returnIO ()
         | Inr x \<Rightarrow> bindIO (whenE (nr_firewall n = [] \<or> x \<noteq> nr_firewall n) GFirewallChanged) (\<lambda>_. nft_delete (net_table n))) (\<lambda>_.
       bindIO (materialize_network bk n) (\<lambda>_. returnIO ())))))
      (\<lambda>_ w. \<exists>n'. nr_id n' = nr_id n \<and> holds (\<nu>(nr_id n \<mapsto> n')) \<rho> w) (\<lambda>_. einv)"
    by (rule triple_bind_skip [OF holds_quiet], simp, rule triple_bind_skip [OF holds_quiet], intro quiet_catch, simp,
        rule triple_bind_skip [OF table fin])
qed

lemma recover_each_network:
  "\<forall>n \<in> set ns. \<nu> (nr_id n) = Some n \<Longrightarrow> distinct (map nr_id ns) \<Longrightarrow>
   triple (holds \<nu> \<rho>) (each (recover_network bk recs) ns) (\<lambda>_ w. \<exists>\<nu>'. holds \<nu>' \<rho> w) (\<lambda>_. einv)"
proof (induction ns arbitrary: \<nu>)
  case Nil
  show ?case unfolding each.simps by (rule triple_return) blast
next
  case (Cons n ns)
  have "triple (\<lambda>w. nr_id n' = nr_id n \<and> holds (\<nu>(nr_id n \<mapsto> n')) \<rho> w) (each (recover_network bk recs) ns)
     (\<lambda>_ w. \<exists>\<nu>'. holds \<nu>' \<rho> w) (\<lambda>_. einv)" for n'
  proof (rule triple_pre [OF Cons.IH [where \<nu> = "\<nu>(nr_id n \<mapsto> n')"]])
    show "\<forall>m \<in> set ns. (\<nu>(nr_id n \<mapsto> n')) (nr_id m) = Some m"
    proof
      fix m assume m: "m \<in> set ns"
      moreover have "nr_id n \<notin> nr_id ` set ns" using Cons.prems(2) by simp
      ultimately have "nr_id m \<noteq> nr_id n" by (metis imageI)
      with m Cons.prems(1) show "(\<nu>(nr_id n \<mapsto> n')) (nr_id m) = Some m" by simp
    qed
  qed (use Cons.prems(2) in \<open>auto simp: fun_upd_def\<close>)
  then have "triple (\<lambda>w. \<exists>n'. nr_id n' = nr_id n \<and> holds (\<nu>(nr_id n \<mapsto> n')) \<rho> w) (each (recover_network bk recs) ns)
     (\<lambda>_ w. \<exists>\<nu>'. holds \<nu>' \<rho> w) (\<lambda>_. einv)" by (rule triple_exists)
  moreover have "\<nu> (nr_id n) = Some n" using Cons.prems(1) by simp
  ultimately show ?case unfolding each.simps by (rule triple_bind_skip [OF recover_network_triple, rotated])
qed

lemma holds_each:
  assumes "\<And>x. x \<in> set xs \<Longrightarrow> triple (holds \<nu> \<rho>) (f x) (\<lambda>_. holds \<nu> \<rho>) (\<lambda>_. einv)"
  shows "triple (holds \<nu> \<rho>) (each f xs) (\<lambda>_. holds \<nu> \<rho>) (\<lambda>_. einv)"
  using assms
proof (induction xs)
  case (Cons x xs)
  show ?case unfolding each.simps by (rule triple_bind_skip [where Q = "holds \<nu> \<rho>"]) (use Cons in auto)
qed (auto intro: triple_return)

lemma current_upd:
  assumes "current \<rho> s" and "current \<rho> r" and "same_task r r'"
  shows "current (\<rho>(tr_id r \<mapsto> r')) s"
proof (cases "tr_id s = tr_id r")
  case True
  from assms(1,2) obtain i j where "\<rho> (tr_id s) = Some (s\<lparr>tr_netns := i\<rparr>)" "\<rho> (tr_id r) = Some (r\<lparr>tr_netns := j\<rparr>)"
    by (auto simp: current_def)
  with True have e: "s\<lparr>tr_netns := i\<rparr> = r\<lparr>tr_netns := j\<rparr>" by simp
  from assms(3) obtain k where k: "r' = r\<lparr>tr_netns := k\<rparr>" by (auto simp: same_task_def)
  have "r' = (r\<lparr>tr_netns := j\<rparr>)\<lparr>tr_netns := k\<rparr>" by (simp add: k)
  also have "\<dots> = s\<lparr>tr_netns := k\<rparr>" by (simp add: e [symmetric])
  finally have "r' = s\<lparr>tr_netns := k\<rparr>" .
  with True show ?thesis unfolding current_def by (intro exI [of _ k]) simp
next
  case False
  with assms(1) show ?thesis by (simp add: current_def)
qed

lemma restore_endpoint_triple:
  assumes r: "\<rho> (tr_id r) = Some r" and e: "p \<in> set (tr_networks r)"
  shows "triple (holds \<nu> \<rho>) (restore_endpoint r p) (\<lambda>_. holds \<nu> \<rho>) (\<lambda>_. einv)"
  unfolding restore_endpoint_def
proof (rule triple_bind_fact [OF holds_find], rule triple_bind_fact [OF holds_when])
  fix n
  assume f: "found \<nu> (fst p) n" and g: "\<not> (case map_of (nr_peers n) (tr_id r) of None \<Rightarrow> [] | Some x \<Rightarrow> pe_endpoint x) \<noteq> ep_id (snd p)"
  show "triple (holds \<nu> \<rho>) (materialize_endpoint n r (snd p)) (\<lambda>_. holds \<nu> \<rho>) (\<lambda>_. einv)"
    by (rule saved_endpoint_triple [where nm = "fst p"]) (use f g e r in \<open>auto simp: found_def\<close>)
qed

lemma recover_task_triple:
  assumes c: "current \<rho> r"
  shows "triple (holds \<nu> \<rho>) (recover_task (r, live)) (\<lambda>_ w. \<exists>\<rho>'. holds \<nu> \<rho>' w \<and> (\<forall>s. current \<rho> s \<longrightarrow> current \<rho>' s)) (\<lambda>_. einv)"
  unfolding recover_task_def prod.case
proof (rule triple_bind_skip [OF holds_probe], rule triple_bind_skip [OF holds_get])
  fix s :: "(nat \<times> nat) option"
  let ?Q = "\<lambda>_ w. \<exists>\<rho>'. holds \<nu> \<rho>' w \<and> (\<forall>s. current \<rho> s \<longrightarrow> current \<rho>' s)"
  have del: "triple (holds \<nu> \<rho>) (each (delete_saved_endpoint r) (tr_networks r)) (\<lambda>_. holds \<nu> \<rho>) (\<lambda>_. einv)"
    unfolding delete_saved_endpoint_def by (rule holds_each, rule triple_bind_fact [OF holds_find], rule holds_delete_endpoint)
  have fin: "triple (\<lambda>w. holds \<nu> (\<rho>(tr_id r \<mapsto> r')) w \<and> same_task r r')
      (each (restore_endpoint r') (sort_key (ep_iface \<circ> snd) (tr_networks r'))) ?Q (\<lambda>_. einv)" for r'
  proof (rule triple_fact, erule conjunct2)
    assume s: "same_task r r'"
    then have i: "tr_id r' = tr_id r" by (auto simp: same_task_def)
    have "triple (holds \<nu> (\<rho>(tr_id r \<mapsto> r'))) (each (restore_endpoint r') (sort_key (ep_iface \<circ> snd) (tr_networks r')))
        (\<lambda>_. holds \<nu> (\<rho>(tr_id r \<mapsto> r'))) (\<lambda>_. einv)"
      by (rule holds_each, rule restore_endpoint_triple) (use i in auto)
    then show "triple (\<lambda>w. holds \<nu> (\<rho>(tr_id r \<mapsto> r')) w \<and> same_task r r')
      (each (restore_endpoint r') (sort_key (ep_iface \<circ> snd) (tr_networks r'))) ?Q (\<lambda>_. einv)"
      by (rule triple_pre [OF triple_post]) (use current_upd [OF _ c s] in auto)
  qed
  show "triple (holds \<nu> \<rho>) (case s of Some ident \<Rightarrow> whenE (ident \<noteq> tr_netns r) GNamespaceChanged
     | None \<Rightarrow> bindIO (whenE live GLive) (\<lambda>_. bindIO (kernel_idle r) (\<lambda>_.
         bindIO (each (delete_saved_endpoint r) (tr_networks r)) (\<lambda>_. bindIO (new_namespace r) (\<lambda>r'.
           each (restore_endpoint r') (sort_key (ep_iface \<circ> snd) (tr_networks r')))))))
     ?Q (\<lambda>_. einv)"
  proof (cases s)
    case (Some ident)
    have "triple (holds \<nu> \<rho>) (whenE (ident \<noteq> tr_netns r) GNamespaceChanged) ?Q (\<lambda>_. einv)"
      by (rule triple_when) (auto simp: holds_def)
    then show ?thesis by (simp add: Some)
  next
    case None
    show ?thesis unfolding None option.case
      by (rule triple_bind_fact [OF holds_when], rule triple_bind_skip [OF holds_quiet], simp, rule triple_bind_skip [OF del],
          rule triple_bind [OF new_namespace_triple [OF c] fin])
  qed
qed

lemma recover_each_task:
  "\<forall>x \<in> set recs. current \<rho> (fst x) \<Longrightarrow> triple (holds \<nu> \<rho>) (each recover_task recs) (\<lambda>_. einv) (\<lambda>_. einv)"
proof (induction recs arbitrary: \<rho>)
  case Nil
  show ?case unfolding each.simps by (rule triple_return) (rule holds_einv)
next
  case (Cons x recs)
  obtain r live where x: "x = (r, live)" by (cases x)
  have "triple (\<lambda>w. holds \<nu> \<rho>' w \<and> (\<forall>s. current \<rho> s \<longrightarrow> current \<rho>' s)) (each recover_task recs) (\<lambda>_. einv) (\<lambda>_. einv)" for \<rho>'
    by (rule triple_fact, erule conjunct2, rule triple_pre [OF Cons.IH [where \<rho> = \<rho>']]) (use Cons.prems in auto)
  then have "triple (\<lambda>w. \<exists>\<rho>'. holds \<nu> \<rho>' w \<and> (\<forall>s. current \<rho> s \<longrightarrow> current \<rho>' s)) (each recover_task recs) (\<lambda>_. einv) (\<lambda>_. einv)"
    by (rule triple_exists)
  moreover have "current \<rho> r" using Cons.prems x by simp
  ultimately show ?case unfolding each.simps x by (rule triple_bind_skip [OF recover_task_triple, rotated])
qed

lemma recover_networks_triple: "triple (holds \<nu> \<rho>) (recover_networks bk cs) (\<lambda>_. einv) (\<lambda>_. einv)"
  unfolding recover_networks_def
proof (rule triple_bind_fact [OF holds_load_all], rule triple_bind_fact [OF holds_networks], rule triple_bind_skip [OF recover_each_network])
  fix recs :: "(task_rec \<times> bool) list" and nets
  assume l: "listed \<nu> nets" and c: "\<forall>x \<in> set recs. current \<rho> (fst x)"
  from l show "\<forall>n \<in> set nets. \<nu> (nr_id n) = Some n" "distinct (map nr_id nets)" by (simp_all add: listed_def)
  show "triple (\<lambda>w. \<exists>\<nu>'. holds \<nu>' \<rho> w) (each recover_task recs) (\<lambda>_. einv) (\<lambda>_. einv)"
    by (rule triple_exists, rule recover_each_task, rule c)
qed

lemma recover_engine_triple: "triple einv (recover_engine bk) (\<lambda>_. einv) (\<lambda>_. einv)"
  unfolding recover_engine_def
  by (rule triple_bind_skip [OF einv_keep], simp, rule triple_bind_skip [OF triple_get [where Q = "\<lambda>_. einv"]], simp,
      rule triple_bind_skip [OF einv_keep], simp, rule triple_bind_skip [OF triple_get [where Q = "\<lambda>_. einv"]], simp,
      rule triple_bind_skip [OF recover_intents_triple], rule einv_all, rule recover_networks_triple)

section \<open>Requests\<close>

lemma found_at: "found \<nu> v n \<Longrightarrow> \<nu> (nr_id n) = Some n"
  by (simp add: found_def)

lemma network_http_triple: "triple einv (network_http bk q) (\<lambda>_. einv) (\<lambda>_. einv)"
proof (rule einv_all)
  fix \<nu> \<rho>
  have ret: "triple einv (returnIO x) (\<lambda>_. einv) (\<lambda>_. einv)" for x :: "net_rec list" by (rule triple_return)
  show "triple (holds \<nu> \<rho>) (network_http bk q) (\<lambda>_. einv) (\<lambda>_. einv)"
  proof (cases q)
    case CreateNet
    then show ?thesis by (simp add: network_http_def) (rule triple_bind_skip [OF create_network_triple ret])
  next
    case ListNets
    then show ?thesis by (simp add: network_http_def) (rule einv_quiet, simp)
  next
    case (InspectNet v)
    have "triple (holds \<nu> \<rho>) (bindIO (find_network v) (\<lambda>n. bindIO (verify_network bk n) (\<lambda>_. returnIO [n]))) (\<lambda>_. einv) (\<lambda>_. einv)"
      by (rule einv_quiet) (intro quiet_bind, auto)
    with InspectNet show ?thesis by (simp add: network_http_def)
  next
    case (DeleteNet v)
    have "triple (holds \<nu> \<rho>) (bindIO (find_network v) (\<lambda>n. bindIO (remove_network n) (\<lambda>_. returnIO [] :: net_rec list eio))) (\<lambda>_. einv) (\<lambda>_. einv)"
      by (rule triple_bind_fact [OF holds_find], rule triple_bind_skip [OF remove_network_triple ret], rule found_at)
    with DeleteNet show ?thesis by (simp add: network_http_def)
  next
    case (ConnectNet v c)
    have "triple (holds \<nu> \<rho>) (bindIO (find_network v) (\<lambda>n. bindIO (load_task bk c) (\<lambda>x.
       bindIO (connect (nr_id n) (fst x)) (\<lambda>_. returnIO [] :: net_rec list eio)))) (\<lambda>_. einv) (\<lambda>_. einv)"
      by (rule triple_bind_fact [OF holds_find], rule triple_bind_fact [OF holds_load], rule triple_bind_skip [OF connect_triple ret])
    with ConnectNet show ?thesis by (simp add: network_http_def case_prod_beta')
  next
    case (DisconnectNet v c)
    have d: "triple (holds \<nu> \<rho>) (disconnect bk n cid) (\<lambda>_. einv) (\<lambda>_. einv)" if "found \<nu> v n" for n cid
      by (rule triple_post [OF disconnect_triple [where \<nu> = \<nu> and n = n, OF found_at [OF that]]]) (auto simp: holds_def)
    have "triple (holds \<nu> \<rho>) (bindIO (find_network v) (\<lambda>n. bindIO (load_task bk c) (\<lambda>x.
       bindIO (disconnect bk n (tr_id (fst x))) (\<lambda>_. returnIO [] :: net_rec list eio)))) (\<lambda>_. einv) (\<lambda>_. einv)"
      by (rule triple_bind_fact [OF holds_find], rule triple_bind_skip [OF holds_quiet], simp, rule triple_bind_skip [OF d ret])
    with DisconnectNet show ?thesis by (simp add: network_http_def case_prod_beta')
  qed
qed

fun op_ok :: "engine_op \<Rightarrow> bool" where
  "op_ok (NodeChange cs _ _ _ _) \<longleftrightarrow> list_all (\<lambda>c. \<not> hex_id (label (na_labels c) ''codex-dock.name'')) cs"
| "op_ok _ \<longleftrightarrow> True"

lemma einv_reboot: "einv w \<Longrightarrow> einv (w\<lparr>ew_links := [], ew_tables := [], ew_netns := []\<rparr>)"
proof -
  assume i: "einv w"
  have "links_ok (w\<lparr>ew_links := []\<rparr>)" by (simp add: links_ok_def link_at_def)
  with i have "einv (w\<lparr>ew_links := []\<rparr>)" by (rule einv_set)
  then show ?thesis using einv_simps(2,3) by simp
qed

lemma einv_change:
  assumes i: "einv w" and ok: "op_ok (NodeChange cs cg ifs rs fw)"
  shows "einv (w\<lparr>ew_natives := cs, ew_cgroups := cg, ew_host := ifs, ew_routes := rs, ew_forward := fw\<rparr>)"
proof -
  have "einv (w\<lparr>ew_natives := cs\<rparr>)" using einv_natives [OF i] ok by (simp add: list_all_iff)
  then show ?thesis
    by (rule iffD1 [OF einv_cong, rotated -1]) simp_all
qed

lemma engine_step_triple:
  assumes ok: "op_ok q"
  shows "triple einv (engine_step bk q) (\<lambda>_. einv) (\<lambda>_. einv)"
proof (cases q)
  case (NetRequest r)
  show ?thesis unfolding NetRequest engine_step.simps by (rule triple_bind_skip [OF network_http_triple triple_return])
next
  case (ReserveTask spec mode)
  show ?thesis unfolding ReserveTask engine_step.simps by (rule reserve_task_triple)
next
  case (RefreshTask v)
  have "triple (holds \<nu> \<rho>) (bindIO (load_task bk v) (\<lambda>x. refresh_worker_namespace (fst x))) (\<lambda>_. einv) (\<lambda>_. einv)" for \<nu> \<rho>
    by (rule triple_bind_fact [OF holds_load refresh_triple])
  then show ?thesis by (simp add: RefreshTask case_prod_beta') (rule einv_all)
next
  case (CancelTask v)
  have "triple einv (bindIO (load_task bk v) (\<lambda>x. cancel_creation bk (fst x))) (\<lambda>_. einv) (\<lambda>_. einv)"
    by (rule triple_bind_skip [OF einv_keep cancel_creation_triple]) simp
  then show ?thesis by (simp add: CancelTask case_prod_beta')
next
  case Recover
  show ?thesis unfolding Recover engine_step.simps by (rule recover_engine_triple)
next
  case (NodeChange cs cg ifs rs fw)
  show ?thesis unfolding NodeChange engine_step.simps
    by (rule triple_upd) (use einv_change ok NodeChange in blast)
next
  case NodeReboot
  show ?thesis unfolding NodeReboot engine_step.simps by (rule triple_upd) (rule einv_reboot)
qed

lemma engine_run_einv: "list_all (op_ok \<circ> snd) ops \<Longrightarrow> einv w \<Longrightarrow> einv (engine_run bk ops w)"
proof (induction bk ops w rule: engine_run.induct)
  case (2 bk fs q ops w)
  from 2(2) have q: "op_ok q" by simp
  from 2(3) have "einv (w\<lparr>ew_faults := fs\<rparr>)" by simp
  from triple_snd [OF engine_step_triple [OF q] this] 2 show ?case by simp
qed simp

end
