(* ===== verification/EngineSafety.thy ===== *)
theory EngineSafety
  imports EngineRuns
begin

text \<open>
  What the node engine's networks promise over any run of requests, restarts and recoveries with any failing
  command: subnets and addresses of networks never meet, and a worker's namespace has one interface, to an
  internal network.  Also what an inspected network has been checked for, and two states the code leaves behind.
\<close>

section \<open>Addresses\<close>

lemma dotted_inj: "show_nat a @ CHR ''.'' # x = show_nat b @ CHR ''.'' # y \<Longrightarrow> a = b \<and> x = y"
proof -
  assume e: "show_nat a @ CHR ''.'' # x = show_nat b @ CHR ''.'' # y"
  have t: "takeWhile is_digit (show_nat k @ CHR ''.'' # z) = show_nat k" for k z
    using show_nat_digits [of k] by (simp add: list_all_iff takeWhile_append2 is_digit_def)
  from e t have "show_nat a = show_nat b" by metis
  then have "a = b" by (metis dec_val_show_nat)
  with e show ?thesis by simp
qed

lemma slot_subnet_inj: "slot_subnet i = slot_subnet j \<Longrightarrow> nat i = nat j"
  using dotted_inj [of "nat i" "''0/24''" "nat j" "''0/24''"] by (simp add: slot_subnet_def)

lemma net_address_inj: "net_address i h @ ''/24'' = net_address j k @ ''/24'' \<Longrightarrow> nat i = nat j"
  using dotted_inj [of "nat i" "show_nat h @ ''/24''" "nat j" "show_nat k @ ''/24''"] by (simp add: net_address_def)

lemma peer_address:
  "net_wf n \<Longrightarrow> p \<in> snd ` set (nr_peers n) \<Longrightarrow> \<exists>k. 2 \<le> k \<and> k < 255 \<and> pe_ipv4 p = net_address (nr_slot n) k @ ''/24''"
  by (fastforce simp: net_wf_def)

lemma net_wf_slot: "net_wf n \<Longrightarrow> 1 \<le> nr_slot n \<and> nr_subnet n = slot_subnet (nr_slot n)"
  by (simp add: net_wf_def valid_net_record_def)

lemma networks_apart:
  assumes i: "einv w" and n: "net_at w a = Some n" and m: "net_at w b = Some m" and ab: "a \<noteq> b"
  shows "nr_subnet n \<noteq> nr_subnet m" "nr_name n \<noteq> nr_name m"
    "\<And>p q. p \<in> snd ` set (nr_peers n) \<Longrightarrow> q \<in> snd ` set (nr_peers m) \<Longrightarrow> pe_ipv4 p \<noteq> pe_ipv4 q"
proof -
  have ok: "nets_ok w" using i by (simp add: einv_def)
  from ok n m ab have d: "nr_slot n \<noteq> nr_slot m" "nr_name n \<noteq> nr_name m" unfolding nets_ok_def by metis+
  note wf = net_at_wf(2) [OF ok n] net_at_wf(2) [OF ok m]
  have "1 \<le> nr_slot n" "1 \<le> nr_slot m" using net_wf_slot wf by blast+
  with d(1) have s: "nat (nr_slot n) \<noteq> nat (nr_slot m)" by arith
  show "nr_name n \<noteq> nr_name m" by (rule d(2))
  have "nr_subnet n = slot_subnet (nr_slot n)" "nr_subnet m = slot_subnet (nr_slot m)" using net_wf_slot wf by blast+
  with s show "nr_subnet n \<noteq> nr_subnet m" by (metis slot_subnet_inj)
  show "pe_ipv4 p \<noteq> pe_ipv4 q" if "p \<in> snd ` set (nr_peers n)" "q \<in> snd ` set (nr_peers m)" for p q
  proof
    assume e: "pe_ipv4 p = pe_ipv4 q"
    from peer_address [OF wf(1) that(1)] obtain k where k: "pe_ipv4 p = net_address (nr_slot n) k @ ''/24''" by blast
    from peer_address [OF wf(2) that(2)] obtain j where j: "pe_ipv4 q = net_address (nr_slot m) j @ ''/24''" by blast
    have "nat (nr_slot n) = nat (nr_slot m)" by (rule net_address_inj) (use e k j in simp)
    with s show False ..
  qed
qed

section \<open>A node before the engine's first operation\<close>

definition clean_node :: "eworld \<Rightarrow> bool" where
  "clean_node w \<longleftrightarrow> ew_nets w = [] \<and> ew_recs w = [] \<and> distinct (map fst (ew_links w)) \<and>
     list_all (\<lambda>(k, l). fst k = [] \<and> lk_role l = BridgeLink \<and> lk_master l = []) (ew_links w) \<and>
     distinct (ew_random w) \<and> list_all hex_id (ew_random w) \<and>
     list_all (\<lambda>c. \<not> hex_id (label (na_labels c) ''codex-dock.name'')) (ew_natives w)"

lemma clean_einv:
  assumes "clean_node w"
  shows "einv w"
proof -
  have v: "net_at w d = None" "rec_at w d = None" for d using assms by (simp_all add: clean_node_def net_at_def rec_at_def)
  have "link_ok w k l" if "link_at w k = Some l" for k l
    using that assms map_of_SomeD [of "ew_links w" k l] by (auto simp: link_at_def link_ok_def clean_node_def list_all_iff)
  then have "links_ok w" using assms by (simp add: links_ok_def clean_node_def)
  with v assms show ?thesis
    by (auto simp: einv_def names_ok_def nets_ok_def recs_ok_def peers_ok_def fresh_ok_def fresh_id_def clean_node_def list_all_iff)
qed

lemma run_einv: "clean_node w \<Longrightarrow> list_all (op_ok \<circ> snd) ops \<Longrightarrow> einv (engine_run bk ops w)"
  by (rule engine_run_einv [OF _ clean_einv])

text \<open>The only interface in the namespace of a worker.\<close>

lemma namespace_interface:
  assumes i: "einv w" and r: "rec_at w c = Some r" "managed r" and l: "link_at w (ns_name c, f) = Some l"
    and own: "\<And>c'. rec_at w c' \<noteq> None \<Longrightarrow> ns_name c' = ns_name c \<Longrightarrow> c' = c"
  shows "\<exists>d n nm e lh. net_at w d = Some n \<and> nr_internal n \<and> c \<in> fst ` set (nr_peers n) \<and> tr_networks r = [(nm, e)] \<and>
     link_at w ([], ep_id e) = Some lh \<and> lk_master lh \<in> {[], bridge_name d} \<and> lk_pair lh = (ns_name c, f)"
proof -
  have ok: "links_ok w" "recs_ok w" "peers_ok w" using i by (simp_all add: einv_def)
  have ns: "ns_name c \<noteq> []" by (simp add: ns_name_def)
  from links_okD [OF ok(1) l] ns have "lk_role l = PeerEnd" by (cases "lk_role l") (simp_all add: link_ok_def)
  with links_okD [OF ok(1) l] obtain lh where lh: "link_at w (lk_pair l) = Some lh" "lk_role lh = HostEnd" "lk_pair lh = (ns_name c, f)"
    by (auto simp: link_ok_def)
  from links_okD [OF ok(1) lh(1)] lh(2) have h: "fst (lk_pair l) = []" "host_end_ok w (snd (lk_pair l)) lh" by (simp_all add: link_ok_def)
  from h(2) obtain c' d where cd: "snd (lk_pair l) = veth_name c' d" "joined w c' d" "lk_master lh \<in> {[], bridge_name d}"
    "fst (lk_pair lh) \<in> {[], ns_name c'}" by (rule host_end_okD)
  from cd(4) lh(3) ns have "ns_name c' = ns_name c" by simp
  moreover have "rec_at w c' \<noteq> None" using cd(2) by (auto simp: joined_def)
  ultimately have c: "c' = c" using own by blast
  from cd(2) r(1) obtain n p nm e where j: "net_at w d = Some n" "(c, p) \<in> set (nr_peers n)" "(nm, e) \<in> set (tr_networks r)" "ep_id e = veth_name c d"
    unfolding joined_def c by auto
  have "peer_ok n c r" using ok(3) j(1,2) r(1) unfolding peers_ok_def by blast
  with r(2) have int: "nr_internal n" by (simp add: peer_ok_def)
  have "length (tr_networks r) \<le> 1" using ok(2) r by (auto simp: recs_ok_def)
  with j(3) have one: "tr_networks r = [(nm, e)]" by (cases "tr_networks r") auto
  have "lk_pair l = ([], ep_id e)" using h(1) cd(1) j(4) c by (cases "lk_pair l") simp
  moreover have "c \<in> fst ` set (nr_peers n)" using j(2) by force
  ultimately show ?thesis using lh cd(3) int one j(1) by auto
qed

section \<open>Inspection and subnets\<close>

lemma probe_fields: "probe w = (r, w') \<Longrightarrow> \<exists>fs. w' = w\<lparr>ew_faults := fs\<rparr>"
proof -
  assume p: "probe w = (r, w')"
  have "w = w\<lparr>ew_faults := ew_faults w\<rparr>" by simp
  moreover have "w' = w \<or> (\<exists>fs. w' = w\<lparr>ew_faults := fs\<rparr>)"
    using p by (auto simp: probe_def ecall_def Let_def returnIO_def split: fault.splits list.splits)
  ultimately show ?thesis by blast
qed

lemma firewall_hash_Inr:
  "firewall_hash bk n w = (Inr h, w') \<Longrightarrow> \<exists>t. map_of (ew_tables w) (net_table n) = Some t \<and> h = bk_hash bk t"
  by (auto simp: firewall_hash_def io_iffs split: option.splits dest!: probe_fields)

text \<open>What a network's check has seen when it succeeds.\<close>

definition intact :: "backend \<Rightarrow> eworld \<Rightarrow> net_rec \<Rightarrow> bool" where
  "intact bk w n \<longleftrightarrow> nr_firewall n \<noteq> [] \<and>
     (case map_of (ew_tables w) (net_table n) of None \<Rightarrow> False | Some t \<Rightarrow> bk_hash bk t = nr_firewall n) \<and>
     (case link_at w ([], nr_bridge n) of None \<Rightarrow> False | Some l \<Rightarrow> trim_space (lk_alias l) = bridge_alias (nr_id n) \<and>
        \<not> (nr_internal n \<and> list_ex (\<lambda>a. case parse_prefix a of None \<Rightarrow> False | Some p \<Rightarrow> is4 (paddr p)) (lk_addrs l))) \<and>
     list_all (tracked n) (bridge_ports w (nr_bridge n))"

lemma core_tables:
  assumes "core w' = core w"
  shows "ew_tables w' = ew_tables w"
proof -
  have f: "ew_tables (core x) = ew_tables x" for x by (simp add: core_def)
  then show ?thesis using assms by metis
qed

lemma verify_intact:
  assumes "verify_network bk n w = (Inr (), w')"
  shows "intact bk w n"
proof -
  from assms obtain w1 l w2 h w3 w4 w5 where s: "probe w = (Inr (), w1)" "link_at w1 ([], nr_bridge n) = Some l"
    "trim_space (lk_alias l) = bridge_alias (nr_id n)" "firewall_hash bk n w1 = (Inr h, w2)" "nr_firewall n \<noteq> []" "nr_firewall n = h"
    "probe w2 = (Inr (), w3)" "probe w3 = (Inr (), w4)"
    "\<not> (nr_internal n \<and> list_ex (\<lambda>a. case parse_prefix a of None \<Rightarrow> False | Some p \<Rightarrow> is4 (paddr p)) (lk_addrs l))"
    "probe w4 = (Inr (), w5)" "list_all (tracked n) (bridge_ports w5 (nr_bridge n))"
    by (auto simp: verify_network_def io_iffs split: option.splits)
  have c: "core w1 = core w" "core w5 = core w"
    using s(1,4,7,8,10) core_step by (metis core_probe core_firewall_hash)+
  note v = core_views(2) [OF c(1)] core_tables [OF c(1)] core_views(4) [OF c(2)]
  have "bridge_ports w5 = bridge_ports w" using v(3) by (simp add: fun_eq_iff bridge_ports_def)
  moreover obtain t where "map_of (ew_tables w) (net_table n) = Some t" "h = bk_hash bk t"
    using firewall_hash_Inr [OF s(4)] v(2) by auto
  ultimately show ?thesis using s(2,3,5,6,9,11) v(1) by (simp add: intact_def)
qed

text \<open>The chosen subnet overlaps no address or route of the host.\<close>

lemma free_slot_apart:
  "i = free_slot used host is \<Longrightarrow> i \<noteq> 0 \<Longrightarrow> \<exists>c. parse_prefix (slot_subnet i) = Some c \<and> \<not> list_ex (\<lambda>p. prefix_overlaps p c) host"
  by (induction used host "is" rule: free_slot.induct) (auto split: if_splits option.splits)

lemma interface_addresses_host: "interface_addresses xs w = (r, w') \<Longrightarrow> \<exists>fs. w' = w\<lparr>ew_faults := fs\<rparr>"
proof (induction xs arbitrary: w)
  case Nil
  then have "w' = w\<lparr>ew_faults := ew_faults w\<rparr>" by simp
  then show ?case by blast
next
  case (Cons x xs)
  obtain y v where y: "probe w = (y, v)" by (cases "probe w")
  from probe_fields [OF y] obtain fs where v: "v = w\<lparr>ew_faults := fs\<rparr>" by blast
  show ?case
  proof (cases y)
    case (Inl e)
    with Cons.prems y v show ?thesis by (auto simp: bindIO_def)
  next
    case (Inr u)
    with Cons.prems y have "interface_addresses xs v = (r, w')" by (simp add: bindIO_def)
    from Cons.IH [OF this] v show ?thesis by auto
  qed
qed

lemma choose_slot_apart:
  assumes "choose_slot all w = (Inr slot, w')"
  shows "case ew_routes w of None \<Rightarrow> False | Some rs \<Rightarrow> (case parse_prefix (slot_subnet slot) of None \<Rightarrow> False
     | Some c \<Rightarrow> \<not> list_ex (\<lambda>p. prefix_overlaps p c) (host_prefixes (ew_host w) rs))"
proof -
  from assms obtain w1 w2 w3 rs where s: "probe w = (Inr (), w1)" "interface_addresses (ew_host w1) w1 = (Inr (), w2)" "probe w2 = (Inr (), w3)"
    "ew_routes w3 = Some rs" "slot = free_slot (set (map nr_slot all)) (host_prefixes (ew_host w1) rs) [1..254]" "slot \<noteq> 0"
    by (auto simp: choose_slot_def io_iffs Let_def split: option.splits)
  from probe_fields [OF s(1)] have e1: "ew_host w1 = ew_host w" "ew_routes w1 = ew_routes w" by auto
  from interface_addresses_host [OF s(2)] probe_fields [OF s(3)] e1 have "ew_routes w3 = ew_routes w" by auto
  with free_slot_apart [OF s(5,6)] s(4) e1 show ?thesis by auto
qed

section \<open>An attachment cut short\<close>

text \<open>An interface whose alias was never set is refused by every later removal of the endpoint.\<close>

lemma unlabelled_interface_stays:
  assumes l: "link_at w ([], ep) = Some l" and a: "trim_space (lk_alias l) \<noteq> veth_alias cid (nr_id n)"
    and r: "delete_endpoint_link n cid ep w = (x, w')"
  shows "x \<noteq> Inr () \<and> link_at w' ([], ep) = Some l"
proof (cases x)
  case (Inl e)
  with r have "w' = w \<or> (\<exists>fs. w' = w\<lparr>ew_faults := fs\<rparr>)"
    using l a by (auto simp: delete_endpoint_link_def io_iffs split: option.splits dest!: probe_fields)
  with l Inl show ?thesis by auto
next
  case (Inr u)
  with r l a have False by (auto simp: delete_endpoint_link_def io_iffs split: option.splits dest!: probe_fields)
  then show ?thesis ..
qed

section \<open>A run\<close>

definition demo_id :: "char \<Rightarrow> string" where
  "demo_id c = replicate 64 c"

definition demo_backend :: backend where
  "demo_backend = \<lparr>bk_runtime = ''kata'', bk_runc_shim = ''shim'', bk_snapshotter = ''overlayfs'', bk_hash = (\<lambda>s. CHR ''h'' # s)\<rparr>"

definition demo_node :: eworld where
  "demo_node = \<lparr>ew_nets = [], ew_recs = [], ew_natives = [], ew_links = [], ew_tables = [], ew_netns = [], ew_cgroups = [],
     ew_host = [[''192.168.1.2/24'']], ew_routes = Some [''10.253.1.0/24''], ew_forward = ''1'', ew_faults = [],
     ew_random = [demo_id CHR ''a'', demo_id CHR ''b'', demo_id CHR ''c''], ew_inodes = [5, 6, 7]\<rparr>"

definition demo_task :: task_rec where
  "demo_task = \<lparr>tr_id = [], tr_name = ''job'', tr_labels = [(''codex-dock.managed'', ''true'')], tr_networks = [],
     tr_runtime = ''kata'', tr_spec = ''spec'', tr_cgroup_parent = ''/codex-dock/job'', tr_spec_cgroup = None, tr_netns = (0, 0)\<rparr>"

definition demo_ops :: "(fault list \<times> engine_op) list" where
  "demo_ops = [([], NetRequest (CreateNet ''work'' ''bridge'' True None [] [])),
     ([], NetRequest (CreateNet ''out'' ''bridge'' False None [] [])), ([], ReserveTask demo_task ''work'')]"

definition demo_seen :: "eworld \<Rightarrow> bool" where
  "demo_seen w \<longleftrightarrow> net_at w (demo_id CHR ''a'') \<noteq> None \<and> net_at w (demo_id CHR ''b'') \<noteq> None \<and>
     map fst (ew_recs w) = [demo_id CHR ''c''] \<and> list_all (managed \<circ> snd) (ew_recs w) \<and>
     link_at w (ns_name (demo_id CHR ''c''), ''eth0'') \<noteq> None \<and>
     (case fst (network_http demo_backend (InspectNet ''work'') w) of Inr [n] \<Rightarrow> nr_name n = ''work'' | _ \<Rightarrow> False)"

lemma demo_run: "demo_seen (engine_run demo_backend demo_ops demo_node)"
  by code_simp

lemma demo_clean: "clean_node demo_node" "list_all (op_ok \<circ> snd) demo_ops"
  by code_simp+

lemma demo_slot: "fst (choose_slot [] demo_node) = Inr 2"
  by code_simp

text \<open>
  A creation that fails when the table is added has saved the record; a task is then attached to the network,
  which has no firewall.
\<close>

definition failed_ops :: "(fault list \<times> engine_op) list" where
  "failed_ops = [(replicate 17 Fine @ [Refused], NetRequest (CreateNet ''work'' ''bridge'' True None [] [])), ([], ReserveTask demo_task ''work'')]"

definition unguarded :: "eworld \<Rightarrow> bool" where
  "unguarded w \<longleftrightarrow> ew_tables w = [] \<and> map (map_option nr_firewall \<circ> snd) (ew_nets w) = [Some []] \<and>
     (case link_at w ([], veth_name (demo_id CHR ''b'') (demo_id CHR ''a'')) of None \<Rightarrow> False
      | Some l \<Rightarrow> lk_up l \<and> lk_master l = bridge_name (demo_id CHR ''a'') \<and> lk_pair l = (ns_name (demo_id CHR ''b''), ''eth0''))"

lemma failed_network_adopted: "unguarded (engine_run demo_backend failed_ops demo_node)"
  by code_simp

section \<open>Properties\<close>

text \<open>C4: 
  Over any run from a clean node, two saved networks have different names and subnets, no address is given out
  twice, within a network or between two, and each network keeps the subnet of its slot.
\<close>

theorem networks_separate:
  assumes "clean_node w" and "list_all (op_ok \<circ> snd) ops"
    and "net_at (engine_run bk ops w) a = Some n" and "net_at (engine_run bk ops w) b = Some m" and "a \<noteq> b"
  shows "nr_name n \<noteq> nr_name m \<and> nr_subnet n \<noteq> nr_subnet m \<and> nr_subnet n = slot_subnet (nr_slot n) \<and>
    distinct (map (pe_ipv4 \<circ> snd) (nr_peers n) @ map (pe_ipv4 \<circ> snd) (nr_peers m))"
proof -
  have i: "einv (engine_run bk ops w)" using assms(1,2) by (rule run_einv)
  then have wf: "net_wf n" "net_wf m" using net_at_wf(2) assms(3,4) by (auto simp: einv_def)
  note ap = networks_apart [OF i assms(3-5)]
  have "set (map (pe_ipv4 \<circ> snd) (nr_peers n)) \<inter> set (map (pe_ipv4 \<circ> snd) (nr_peers m)) = {}"
    using ap(3) by fastforce
  with wf ap(1,2) net_wf_slot [OF wf(1)] show ?thesis by (simp add: net_wf_def)
qed

theorem networks_separate_witness:
  "nr_subnet (the (net_at (engine_run demo_backend demo_ops demo_node) (demo_id CHR ''a''))) \<noteq>
   nr_subnet (the (net_at (engine_run demo_backend demo_ops demo_node) (demo_id CHR ''b'')))"
proof -
  let ?w = "engine_run demo_backend demo_ops demo_node"
  have "net_at ?w (demo_id CHR ''a'') = Some (the (net_at ?w (demo_id CHR ''a'')))"
    "net_at ?w (demo_id CHR ''b'') = Some (the (net_at ?w (demo_id CHR ''b'')))"
    using demo_run unfolding demo_seen_def by auto
  moreover have "demo_id CHR ''a'' \<noteq> demo_id CHR ''b''" by (simp add: demo_id_def)
  ultimately show ?thesis using networks_separate [OF demo_clean] by blast
qed

text \<open>C5: 
  Over any run from a clean node, an interface in the namespace of a managed worker is the only one there: its
  host end is the one endpoint of the worker's record, on the bridge of an internal network of which the worker
  is a peer (or not yet on a bridge).
\<close>

theorem worker_confined:
  assumes "clean_node w" and "list_all (op_ok \<circ> snd) ops" and "rec_at (engine_run bk ops w) c = Some r" and "managed r"
    and "link_at (engine_run bk ops w) (ns_name c, i) = Some l"
    and "\<And>c'. rec_at (engine_run bk ops w) c' \<noteq> None \<Longrightarrow> ns_name c' = ns_name c \<Longrightarrow> c' = c"
  shows "\<exists>d n nm e lh. net_at (engine_run bk ops w) d = Some n \<and> nr_internal n \<and> c \<in> fst ` set (nr_peers n) \<and>
    tr_networks r = [(nm, e)] \<and> link_at (engine_run bk ops w) ([], ep_id e) = Some lh \<and>
    lk_master lh \<in> {[], bridge_name d} \<and> lk_pair lh = (ns_name c, i)"
  by (rule namespace_interface [OF run_einv [OF assms(1,2)] assms(3-6)])

theorem worker_confined_witness:
  "\<exists>d n. net_at (engine_run demo_backend demo_ops demo_node) d = Some n \<and> nr_internal n \<and> demo_id CHR ''c'' \<in> fst ` set (nr_peers n)"
proof -
  let ?w = "engine_run demo_backend demo_ops demo_node" and ?c = "demo_id CHR ''c''"
  have s: "demo_seen ?w" by (rule demo_run)
  then have k: "map fst (ew_recs ?w) = [?c]" and l: "link_at ?w (ns_name ?c, ''eth0'') \<noteq> None" by (simp_all add: demo_seen_def)
  from k obtain r where r: "ew_recs ?w = [(?c, r)]" by (cases "ew_recs ?w") auto
  have m: "managed r" using s r by (simp add: demo_seen_def)
  have a: "rec_at ?w x = (if x = ?c then Some r else None)" for x by (simp add: rec_at_def r)
  obtain y where y: "link_at ?w (ns_name ?c, ''eth0'') = Some y" using l by auto
  have "rec_at ?w ?c = Some r" using a by simp
  from worker_confined [OF demo_clean this m y] a show ?thesis by (metis option.distinct(1))
qed

text \<open>
  A network answered to an inspection is intact: the engine's own bridge, without an IPv4 address of the host
  when it is internal, the recorded firewall, and no port but those of its peers.
\<close>

theorem inspected_network:
  assumes "network_http bk (InspectNet v) w = (Inr ns, w')"
  shows "\<exists>n. ns = [n] \<and> intact bk w n"
proof -
  from assms obtain n w1 w2 where n: "find_network v w = (Inr n, w1)" "verify_network bk n w1 = (Inr (), w2)" "ns = [n]"
    by (auto simp: network_http_def io_iffs)
  have c: "core w1 = core w" using n(1) core_step by (metis core_find_network)
  have "bridge_ports w1 = bridge_ports w" using core_views(4) [OF c] by (simp add: fun_eq_iff bridge_ports_def)
  with verify_intact [OF n(2)] core_views(2) [OF c] core_tables [OF c] n(3) show ?thesis by (simp add: intact_def)
qed

theorem inspected_network_witness:
  "\<exists>n. fst (network_http demo_backend (InspectNet ''work'') (engine_run demo_backend demo_ops demo_node)) = Inr [n] \<and>
    intact demo_backend (engine_run demo_backend demo_ops demo_node) n"
proof -
  let ?w = "engine_run demo_backend demo_ops demo_node"
  have "case fst (network_http demo_backend (InspectNet ''work'') ?w) of Inr [n] \<Rightarrow> nr_name n = ''work'' | _ \<Rightarrow> False"
    using demo_run by (simp add: demo_seen_def)
  then obtain ns w' where "network_http demo_backend (InspectNet ''work'') ?w = (Inr ns, w')"
    by (cases "network_http demo_backend (InspectNet ''work'') ?w") (auto split: sum.splits)
  with inspected_network [OF this] show ?thesis by auto
qed

text \<open>
  The slot chosen for a new network is between 1 and 254 and none of a listed network, and its subnet overlaps no
  address of the host's interfaces and no route but the default one.
\<close>

theorem subnet_free:
  assumes "fst (choose_slot all w) = Inr slot"
  shows "1 \<le> slot \<and> slot \<le> 254 \<and> slot \<notin> nr_slot ` set all \<and>
    (case ew_routes w of None \<Rightarrow> False | Some rs \<Rightarrow> (case parse_prefix (slot_subnet slot) of None \<Rightarrow> False
     | Some c \<Rightarrow> \<not> list_ex (\<lambda>p. prefix_overlaps p c) (host_prefixes (ew_host w) rs)))"
proof -
  from assms obtain w' where "choose_slot all w = (Inr slot, w')" by (cases "choose_slot all w") simp
  from choose_slot_Inr [OF this] choose_slot_apart [OF this] show ?thesis by simp
qed

theorem subnet_free_witness:
  "case parse_prefix (slot_subnet 2) of None \<Rightarrow> False
    | Some c \<Rightarrow> \<not> list_ex (\<lambda>p. prefix_overlaps p c) (host_prefixes [[''192.168.1.2/24'']] [''10.253.1.0/24''])"
  using subnet_free [OF demo_slot] unfolding demo_node_def eworld.simps option.case by blast

end
