(* ===== verification/WorkerCleanup.thy ===== *)
theory WorkerCleanup
  imports KataResources GoNetip Triples WorkerPolicy "HOL-Library.AList"
begin

text \<open>
  Removing, stopping and quarantining workers (\<open>src/internal/sandbox/cleanup.go\<close>, \<open>quarantine.go\<close>,
  \<open>restart_auth.go\<close>, \<open>git_mounts.go\<close>, \<open>policy.go\<close>; \<open>src/internal/network/kata.go\<close>, \<open>manager.go\<close>): the private
  directory of cleanup records and the resources a record names.  The container engine, the proxy and git are
  modelled by the documented effect of the calls made to them; each call consults a fault schedule and may be
  refused, or take effect although its result is an error.  An inspection shows a container either running or not:
  the paused and the transitional states of quarantine's last check are not told apart.
\<close>

section \<open>Workers, networks and cleanup records\<close>

datatype clean_error =
    XFault | XNotFound | XAmbiguous | XBadState | XBadId | XNoFile | XBadRecord | XMismatch | XUnmanaged | XRunning
  | XUnconfirmed | XOwnership | XStillThere | XBadNetwork | XUnexpectedPeer | XInUse | XExists | XBadLabel | XBadWorktree
  | XCancelled | XNoProxy | XRevoke | XUnsupported | XProxyNotRunning | XConflict | XNotAttached | XBadAddress | XBadHost
  | XRejected | XQuarantined | XRemovalPending | XLogin

record worker =
  wk_id :: string
  wk_name :: string
  wk_labels :: "(string \<times> string) list"
  wk_mounts :: "(string \<times> string) list"
  wk_env :: "string list"

record dnet =
  dn_id :: string
  dn_name :: string
  dn_driver :: string
  dn_internal :: bool
  dn_ipv6 :: bool
  dn_options :: "(string \<times> string) list"
  dn_labels :: "(string \<times> string) list"
  dn_peers :: "(string \<times> string) list"

record cleanup_record =
  cr_version :: int
  cr_endpoint :: string
  cr_id :: string
  cr_name :: string
  cr_labels :: "(string \<times> string) list"
  cr_mounts :: "(string \<times> string) list"
  cr_placeholder :: string
  cr_force :: bool

text \<open>A file of the directory: regular and private, and what it decodes to.\<close>

record cfile =
  cf_private :: bool
  cf_doc :: "cleanup_record option"

datatype dfault = Fine | Refused | Unconfirmed | Missing

record dock =
  dw_workers :: "worker list"
  dw_running :: "string list"
  dw_quarantined :: "string list"
  dw_networks :: "dnet list"
  dw_tokens :: "string list"
  dw_allocations :: "(string \<times> string) list"
  dw_trees :: "(string \<times> bool) list"
  dw_files :: "(string \<times> cfile) list"
  dw_lstat :: stat_fun
  dw_contended :: nat
  dw_live :: "bool list"
  dw_faults :: "dfault list"
  dw_fresh :: "string list"
  dw_verified :: "string list"
  dw_released :: "string list"

datatype proxy_link = Configured | Connector | NoProxy

record manager =
  mg_endpoint :: string
  mg_state_dir :: string
  mg_env :: "(string \<times> string) list"
  mg_home :: "string option"
  mg_hash :: "string \<Rightarrow> string"
  mg_euid :: int
  mg_proxy :: proxy_link
  mg_checked :: bool
  mg_network :: bool
  mg_hosts :: "string \<Rightarrow> string list option"
  mg_features :: "(string \<times> string) list"

type_synonym 'a wio = "(dock, clean_error, 'a) io"

definition dcall :: "'a wio \<Rightarrow> 'a wio" where
  "dcall eff w = (case dw_faults w of [] \<Rightarrow> eff w
     | f # fs \<Rightarrow> (let w' = w\<lparr>dw_faults := fs\<rparr> in
        case f of Fine \<Rightarrow> eff w' | Unconfirmed \<Rightarrow> (Inl XFault, snd (eff w')) | _ \<Rightarrow> (Inl XFault, w')))"

definition trial :: "unit wio" where
  "trial = dcall (returnIO ())"

text \<open>\<open>ctx.Err()\<close>, and the \<open>select\<close> that waits for it or a timer.\<close>

definition ctx_live :: "unit wio" where
  "ctx_live w = (case dw_live w of [] \<Rightarrow> (Inr (), w)
     | b # bs \<Rightarrow> (if b then (Inr (), w\<lparr>dw_live := bs\<rparr>) else (Inl XCancelled, w)))"

definition lab :: "(string \<times> string) list \<Rightarrow> string \<Rightarrow> string" where
  "lab ls k = (case map_of ls (''codex-dock.'' @ k) of None \<Rightarrow> [] | Some v \<Rightarrow> v)"

definition full_id :: "string \<Rightarrow> bool" where
  "full_id s \<longleftrightarrow> lower_hex_n 64 s"

definition plain_name :: "string \<Rightarrow> string" where
  "plain_name s = trim_prefix s ''/''"

section \<open>The state directory\<close>

definition join_path :: "string \<Rightarrow> string \<Rightarrow> string" where
  "join_path a b = path_clean (a @ ''/'' @ b)"

definition state_root :: "manager \<Rightarrow> (clean_error, string) result" where
  "state_root mg = (let root = (case map_of (mg_env mg) ''CODEX_DOCK_STATE_DIR'' of Some v \<Rightarrow> v | None \<Rightarrow> mg_state_dir mg);
       own = (\<lambda>r. join_path (join_path r ''codex-dock'') (mg_hash mg (mg_endpoint mg))) in
     if root \<noteq> [] then Inr root
     else (case map_of (mg_env mg) ''XDG_STATE_HOME'' of
        Some (c # cs) \<Rightarrow> Inr (own (c # cs))
      | _ \<Rightarrow> (case mg_home mg of None \<Rightarrow> Inl XFault | Some h \<Rightarrow> Inr (own (join_path h ''.codex-dock-state'')))))"

definition state_directory :: "manager \<Rightarrow> unit wio" where
  "state_directory mg = bindIO (liftE (state_root mg)) (\<lambda>root.
     bindIO (whenE (\<not> is_abs root \<or> path_clean root \<noteq> root \<or> root = ''/'') XBadState) (\<lambda>_.
     bindIO trial (\<lambda>_.
     bindIO (getIO dw_lstat) (\<lambda>lstat.
     whenE (first_err (trusted_step lstat (mg_euid mg) root True) (path_chain root) \<noteq> None) XBadState))))"

text \<open>The probe writes, syncs and removes a file of its own.\<close>

definition check_cleanup_state :: "manager \<Rightarrow> unit wio" where
  "check_cleanup_state mg = bindIO (state_directory mg) (\<lambda>_. bindIO trial (\<lambda>_. bindIO trial (\<lambda>_. bindIO trial (\<lambda>_. trial))))"

fun lock_loop :: "nat \<Rightarrow> unit wio" where
  "lock_loop 0 = bindIO ctx_live (\<lambda>_. trial)"
| "lock_loop (Suc n) = bindIO ctx_live (\<lambda>_. bindIO ctx_live (\<lambda>_. lock_loop n))"

definition lock_cleanup :: "manager \<Rightarrow> string \<Rightarrow> unit wio" where
  "lock_cleanup mg cid = bindIO (whenE (\<not> full_id cid) XBadId) (\<lambda>_. bindIO (state_directory mg) (\<lambda>_. bindIO trial (\<lambda>_.
     bindIO (getIO dw_contended) (\<lambda>n. bindIO (updIO (\<lambda>w. w\<lparr>dw_contended := 0\<rparr>)) (\<lambda>_. lock_loop n)))))"

section \<open>Cleanup records\<close>

definition record_file :: "string \<Rightarrow> string" where
  "record_file cid = cid @ ''.json''"

definition write_cleanup :: "manager \<Rightarrow> cleanup_record \<Rightarrow> unit wio" where
  "write_cleanup mg r = bindIO (state_directory mg) (\<lambda>_. bindIO trial (\<lambda>_. bindIO trial (\<lambda>_. bindIO trial (\<lambda>_. bindIO trial (\<lambda>_.
     bindIO (dcall (updIO (\<lambda>w. w\<lparr>dw_files := AList.update (record_file (cr_id r)) \<lparr>cf_private = True, cf_doc = Some r\<rparr> (dw_files w)\<rparr>))) (\<lambda>_.
     bindIO trial (\<lambda>_. trial)))))))"

definition read_cleanup :: "manager \<Rightarrow> string \<Rightarrow> cleanup_record wio" where
  "read_cleanup mg cid = bindIO (whenE (\<not> full_id cid) XBadId) (\<lambda>_. bindIO (state_directory mg) (\<lambda>_. bindIO trial (\<lambda>_.
     bindIO (getIO (\<lambda>w. map_of (dw_files w) (record_file cid))) (\<lambda>f. case f of
       None \<Rightarrow> throwIO XNoFile
     | Some f \<Rightarrow> bindIO (whenE (\<not> cf_private f) XBadRecord) (\<lambda>_. bindIO trial (\<lambda>_. case cf_doc f of
         None \<Rightarrow> throwIO XBadRecord
       | Some r \<Rightarrow> bindIO (whenE (cr_version r \<noteq> 1 \<or> cr_id r \<noteq> cid \<or> cr_endpoint r \<noteq> mg_endpoint mg \<or>
             lab (cr_labels r) ''managed'' \<noteq> ''true'' \<or> \<not> prefix ''/'' (cr_name r)) XMismatch) (\<lambda>_. returnIO r)))))))"

fun read_all :: "manager \<Rightarrow> string list \<Rightarrow> cleanup_record list wio" where
  "read_all mg [] = returnIO []"
| "read_all mg (f # fs) = (if \<not> suffix ''.json'' f then read_all mg fs
     else bindIO (read_cleanup mg (trim_suffix f ''.json'')) (\<lambda>r. bindIO (read_all mg fs) (\<lambda>rs. returnIO (r # rs))))"

definition pending_cleanup :: "manager \<Rightarrow> cleanup_record list wio" where
  "pending_cleanup mg = bindIO (state_directory mg) (\<lambda>_. bindIO trial (\<lambda>_. bindIO (getIO (\<lambda>w. map fst (dw_files w))) (read_all mg)))"

definition named :: "string \<Rightarrow> string \<Rightarrow> string \<Rightarrow> bool" where
  "named value i n \<longleftrightarrow> i = value \<or> plain_name n = value \<or> 12 \<le> length value \<and> prefix value i"

definition find_cleanup :: "manager \<Rightarrow> string \<Rightarrow> cleanup_record wio" where
  "find_cleanup mg value = bindIO (pending_cleanup mg) (\<lambda>rs.
     case filter (\<lambda>r. named value (cr_id r) (cr_name r)) rs of
       [] \<Rightarrow> throwIO XNotFound | [r] \<Rightarrow> returnIO r | _ \<Rightarrow> throwIO XAmbiguous)"

section \<open>Containers\<close>

definition container_inspect :: "string \<Rightarrow> worker wio" where
  "container_inspect value = bindIO trial (\<lambda>_. bindIO (getIO dw_workers) (\<lambda>ws.
     case filter (\<lambda>x. named value (wk_id x) (wk_name x)) ws of
       [] \<Rightarrow> throwIO XNotFound | [x] \<Rightarrow> returnIO x | _ \<Rightarrow> throwIO XAmbiguous))"

definition drop_worker :: "string \<Rightarrow> dock \<Rightarrow> dock" where
  "drop_worker cid w = w\<lparr>dw_workers := filter (\<lambda>x. wk_id x \<noteq> cid) (dw_workers w), dw_running := filter (\<lambda>i. i \<noteq> cid) (dw_running w),
     dw_networks := map (\<lambda>n. n\<lparr>dn_peers := filter (\<lambda>(i, a). i \<noteq> cid) (dn_peers n)\<rparr>) (dw_networks w)\<rparr>"

text \<open>A removal may be answered as not found although the container is still there.\<close>

definition container_remove :: "string \<Rightarrow> bool \<Rightarrow> unit wio" where
  "container_remove cid force w = (case dw_faults w of Missing # fs \<Rightarrow> (Inl XNotFound, w\<lparr>dw_faults := fs\<rparr>)
     | _ \<Rightarrow> dcall (bindIO (getIO (\<lambda>w. (list_ex (\<lambda>x. wk_id x = cid) (dw_workers w), cid \<in> set (dw_running w)))) (\<lambda>(there, running).
         bindIO (whenE (\<not> there) XNotFound) (\<lambda>_. bindIO (whenE (running \<and> \<not> force) XRunning) (\<lambda>_. updIO (drop_worker cid))))) w)"

fun remove_confirmed :: "nat \<Rightarrow> string \<Rightarrow> bool \<Rightarrow> unit wio" where
  "remove_confirmed 0 cid force = throwIO XUnconfirmed"
| "remove_confirmed (Suc k) cid force = bindIO (catchIO (container_remove cid force)) (\<lambda>r. case r of
     Inr _ \<Rightarrow> returnIO ()
   | Inl e \<Rightarrow> bindIO (whenE (e \<noteq> XNotFound) e) (\<lambda>_. bindIO (catchIO (container_inspect cid)) (\<lambda>v. case v of
       Inl e \<Rightarrow> whenE (e \<noteq> XNotFound) XUnconfirmed
     | Inr x \<Rightarrow> bindIO (whenE (wk_id x \<noteq> cid \<or> lab (wk_labels x) ''managed'' \<noteq> ''true'') XOwnership) (\<lambda>_.
         bindIO (whenE (k = 0) XStillThere) (\<lambda>_. bindIO ctx_live (\<lambda>_. remove_confirmed k cid force))))))"

section \<open>Networks\<close>

definition worker_network :: "string \<Rightarrow> string" where
  "worker_network name = ''dock-net-w-'' @ name"

definition network_inspect :: "string \<Rightarrow> dnet wio" where
  "network_inspect value = bindIO trial (\<lambda>_. bindIO (getIO (\<lambda>w. find (\<lambda>n. dn_id n = value \<or> dn_name n = value) (dw_networks w))) (\<lambda>n.
     case n of None \<Rightarrow> throwIO XNotFound | Some n \<Rightarrow> returnIO n))"

definition kata_network_ok :: "dnet \<Rightarrow> bool" where
  "kata_network_ok n \<longleftrightarrow> dn_driver n = ''bridge'' \<and> dn_internal n \<and>
     map_of (dn_options n) ''com.docker.network.bridge.gateway_mode_ipv4'' = Some ''isolated'' \<and>
     (dn_ipv6 n \<longrightarrow> map_of (dn_options n) ''com.docker.network.bridge.gateway_mode_ipv6'' = Some ''isolated'') \<and>
     map_of (dn_labels n) ''codex-dock.managed'' = Some ''true'' \<and> map_of (dn_labels n) ''codex-dock.isolation'' = Some ''kata''"

definition network_disconnect :: "string \<Rightarrow> string \<Rightarrow> unit wio" where
  "network_disconnect nid cid = dcall (updIO (\<lambda>w. w\<lparr>dw_networks :=
     map (\<lambda>n. if dn_id n = nid then n\<lparr>dn_peers := filter (\<lambda>(i, a). i \<noteq> cid) (dn_peers n)\<rparr> else n) (dw_networks w)\<rparr>))"

definition network_remove :: "string \<Rightarrow> unit wio" where
  "network_remove nid = dcall (bindIO (getIO (\<lambda>w. filter (\<lambda>n. dn_id n = nid) (dw_networks w))) (\<lambda>ns.
     bindIO (whenE (list_ex (\<lambda>n. dn_peers n \<noteq> []) ns) XInUse) (\<lambda>_.
     updIO (\<lambda>w. w\<lparr>dw_networks := filter (\<lambda>n. dn_id n \<noteq> nid) (dw_networks w)\<rparr>))))"

fun disconnect_each :: "string \<Rightarrow> string list \<Rightarrow> unit wio" where
  "disconnect_each nid [] = returnIO ()"
| "disconnect_each nid (c # cs) = bindIO (network_disconnect nid c) (\<lambda>_. disconnect_each nid cs)"

fun proxy_ids :: "string list \<Rightarrow> string list wio" where
  "proxy_ids [] = returnIO []"
| "proxy_ids (p # ps) = bindIO (catchIO (container_inspect p)) (\<lambda>v. case v of
     Inl e \<Rightarrow> bindIO (whenE (e \<noteq> XNotFound) e) (\<lambda>_. proxy_ids ps)
   | Inr x \<Rightarrow> bindIO (proxy_ids ps) (\<lambda>is. returnIO (wk_id x # is)))"

definition remove_kata_network :: "string \<Rightarrow> string list \<Rightarrow> unit wio" where
  "remove_kata_network nid proxies = bindIO (catchIO (network_inspect nid)) (\<lambda>v. case v of
     Inl e \<Rightarrow> whenE (e \<noteq> XNotFound) e
   | Inr n \<Rightarrow> bindIO (whenE (\<not> kata_network_ok n) XBadNetwork) (\<lambda>_. bindIO (proxy_ids proxies) (\<lambda>allowed.
       bindIO (whenE (\<not> list_all (\<lambda>(i, a). i \<in> set allowed) (dn_peers n)) XUnexpectedPeer) (\<lambda>_.
       bindIO (disconnect_each nid (map fst (dn_peers n))) (\<lambda>_. network_remove nid)))))"

definition find_network_by_name :: "string \<Rightarrow> dnet option wio" where
  "find_network_by_name name = bindIO trial (\<lambda>_. getIO (\<lambda>w. find (\<lambda>n. dn_name n = name) (dw_networks w)))"

definition remove_worker_network :: "string \<Rightarrow> unit wio" where
  "remove_worker_network name = bindIO (find_network_by_name (worker_network name)) (\<lambda>n. case n of
     None \<Rightarrow> returnIO ()
   | Some n \<Rightarrow> bindIO (catchIO (network_inspect (dn_id n))) (\<lambda>d.
       bindIO (case d of Inl _ \<Rightarrow> returnIO () | Inr d \<Rightarrow> disconnect_each (dn_id n) (map fst (dn_peers d))) (\<lambda>_.
       network_remove (dn_id n))))"

text \<open>A network of the same name is never adopted; the new one has a fresh identifier.\<close>

definition create_kata_network :: "string \<Rightarrow> string wio" where
  "create_kata_network name = bindIO (catchIO (network_inspect (worker_network name))) (\<lambda>v. case v of
     Inr _ \<Rightarrow> throwIO XExists
   | Inl e \<Rightarrow> bindIO (whenE (e \<noteq> XNotFound) e) (\<lambda>_. dcall (bindIO (getIO dw_fresh) (\<lambda>ids. case ids of
       [] \<Rightarrow> throwIO XFault
     | i # is \<Rightarrow> bindIO (updIO (\<lambda>w. w\<lparr>dw_fresh := is, dw_networks := \<lparr>dn_id = i, dn_name = worker_network name, dn_driver = ''bridge'',
           dn_internal = True, dn_ipv6 = False, dn_options = [(''com.docker.network.bridge.gateway_mode_ipv4'', ''isolated''),
           (''com.docker.network.bridge.gateway_mode_ipv6'', ''isolated'')], dn_labels = [(''codex-dock.managed'', ''true''),
           (''codex-dock.isolation'', ''kata'')], dn_peers = []\<rparr> # dw_networks w\<rparr>)) (\<lambda>_. returnIO i)))))"

definition usable_front :: "string \<Rightarrow> addr option" where
  "usable_front s = (case parse_prefix s of None \<Rightarrow> None
     | Some p \<Rightarrow> if \<not> is4 (paddr p) \<or> is_unspecified (paddr p) \<or> is_loopback (paddr p) then None else Some (paddr p))"

text \<open>The characters no host name of a proxy may contain.\<close>

definition bad_host_chars :: string where
  "bad_host_chars = '':/ '' @ [CHR 0x0D, CHR 0x0A, CHR 0x09, CHR 0x00]"

fun proxy_hosts :: "dnet \<Rightarrow> string \<Rightarrow> string list \<Rightarrow> string list \<Rightarrow> (string list \<times> string list) wio" where
  "proxy_hosts n cid allowed [] = returnIO ([], allowed)"
| "proxy_hosts n cid allowed (host # hs) =
     bindIO (container_inspect host) (\<lambda>x.
     bindIO (getIO (\<lambda>w. wk_id x \<in> set (dw_running w))) (\<lambda>running.
     bindIO (whenE (\<not> running) XProxyNotRunning) (\<lambda>_.
     bindIO (whenE (wk_id x = cid \<or> wk_id x \<in> set allowed) XConflict) (\<lambda>_.
     case map_of (dn_peers n) (wk_id x) of
       None \<Rightarrow> throwIO XNotAttached
     | Some addr \<Rightarrow> (case usable_front addr of
         None \<Rightarrow> throwIO XBadAddress
       | Some a \<Rightarrow> bindIO (whenE (host = [] \<or> contains_any host bad_host_chars) XBadHost) (\<lambda>_.
           bindIO (proxy_hosts n cid (wk_id x # allowed) hs) (\<lambda>(rest, all).
           returnIO ((host @ '':'' @ addr_string a) # rest, all))))))))"

definition kata_proxy_hosts :: "string \<Rightarrow> string \<Rightarrow> string list \<Rightarrow> string list wio" where
  "kata_proxy_hosts nid cid proxies =
     bindIO (network_inspect nid) (\<lambda>n.
     bindIO (whenE (\<not> kata_network_ok n) XBadNetwork) (\<lambda>_.
     bindIO (proxy_hosts n cid (if cid = [] then [] else [cid]) proxies) (\<lambda>(hosts, allowed).
     bindIO (whenE (\<not> list_all (\<lambda>(i, a). i \<in> set allowed) (dn_peers n)) XUnexpectedPeer) (\<lambda>_.
     returnIO (sort hosts)))))"

section \<open>Tokens, allocations and worktrees\<close>

fun placeholder_in :: "string list \<Rightarrow> string" where
  "placeholder_in [] = []"
| "placeholder_in (e # es) = (case str_cut CHR ''='' e of (k, v, ok) \<Rightarrow>
     if ok \<and> k \<in> {''CODEX_TOKEN'', ''ANTHROPIC_API_KEY'', ''CLAUDE_CODE_OAUTH_TOKEN''} \<and> prefix ''cdx-'' v then v else placeholder_in es)"

definition worker_placeholder :: "worker \<Rightarrow> string" where
  "worker_placeholder x = placeholder_in (wk_env x)"

text \<open>A proxy that cannot report a failed revocation never makes one an error.\<close>

definition revoke_worker_token :: "manager \<Rightarrow> worker \<Rightarrow> unit wio" where
  "revoke_worker_token mg x = (if worker_placeholder x = [] then returnIO ()
     else bindIO (case mg_proxy mg of Configured \<Rightarrow> returnIO () | Connector \<Rightarrow> trial | NoProxy \<Rightarrow> throwIO XNoProxy) (\<lambda>_.
       let revoke = dcall (updIO (\<lambda>w. w\<lparr>dw_tokens := filter (\<lambda>t. t \<noteq> plain_name (wk_name x)) (dw_tokens w)\<rparr>)) in
       if mg_checked mg then revoke else bindIO (catchIO revoke) (\<lambda>_. returnIO ())))"

text \<open>The node releases an allocation for its worker, or for none when no worker was bound to it yet.\<close>

definition release_allocation :: "string \<Rightarrow> string \<Rightarrow> unit wio" where
  "release_allocation a cid = dcall (updIO (\<lambda>w. w\<lparr>dw_allocations := filter (\<lambda>p. p \<noteq> (a, cid) \<and> p \<noteq> (a, [])) (dw_allocations w)\<rparr>))"

definition cleanup_worktree :: "worker \<Rightarrow> unit wio" where
  "cleanup_worktree x = (let path = lab (wk_labels x) ''worktree'' in
     if path = [] then returnIO ()
     else bindIO (whenE (\<not> is_abs path \<or> path_clean path \<noteq> path \<or> path = ''/'') XBadWorktree) (\<lambda>_.
       bindIO (whenE (\<not> list_ex (\<lambda>(t, s). t = ''/workspace'' \<and> s = path) (wk_mounts x)) XBadWorktree) (\<lambda>_.
       bindIO (catchIO trial) (\<lambda>p. bindIO (getIO (\<lambda>w. map_of (dw_trees w) path)) (\<lambda>t.
       if p = Inr () \<and> t = None then returnIO ()
       else bindIO trial (\<lambda>_. bindIO (whenE (t \<noteq> Some True) XBadWorktree) (\<lambda>_.
         dcall (updIO (\<lambda>w. w\<lparr>dw_trees := AList.delete path (dw_trees w)\<rparr>)))))))))"

section \<open>Removal\<close>

definition kept_labels :: "string list" where
  "kept_labels = map (\<lambda>k. ''codex-dock.'' @ k) [''managed'', ''isolation'', ''runtime'', ''proxy-hosts'', ''allocation'', ''verified-profile'',
     ''network-id'', ''worktree'', ''proxy-admin-url'', ''proxy-container-url'', ''token-ttl'']"

definition saved_labels :: "(string \<times> string) list \<Rightarrow> (string \<times> string) list" where
  "saved_labels ls = List.map_filter (\<lambda>k. map_option (\<lambda>v. (k, v)) (map_of ls k)) kept_labels"

definition record_of :: "manager \<Rightarrow> worker \<Rightarrow> bool \<Rightarrow> cleanup_record" where
  "record_of mg x force = \<lparr>cr_version = 1, cr_endpoint = mg_endpoint mg, cr_id = wk_id x, cr_name = wk_name x, cr_labels = saved_labels (wk_labels x),
     cr_mounts = wk_mounts x, cr_placeholder = worker_placeholder x, cr_force = force\<rparr>"

definition record_inspection :: "cleanup_record \<Rightarrow> worker" where
  "record_inspection r = \<lparr>wk_id = cr_id r, wk_name = cr_name r, wk_labels = cr_labels r, wk_mounts = cr_mounts r,
     wk_env = [''CODEX_TOKEN='' @ cr_placeholder r]\<rparr>"

definition removal_record :: "manager \<Rightarrow> string \<Rightarrow> bool \<Rightarrow> cleanup_record wio" where
  "removal_record mg value force = bindIO (catchIO (container_inspect value)) (\<lambda>v. case v of
     Inl e \<Rightarrow> bindIO (whenE (e \<noteq> XNotFound) e) (\<lambda>_. find_cleanup mg value)
   | Inr x \<Rightarrow> bindIO (whenE (lab (wk_labels x) ''managed'' \<noteq> ''true'') XUnmanaged) (\<lambda>_. returnIO (record_of mg x force)))"

definition release_resources :: "manager \<Rightarrow> cleanup_record \<Rightarrow> unit wio" where
  "release_resources mg r =
     (if lab (cr_labels r) ''isolation'' = ''kata'' then
        (case mg_hosts mg (lab (cr_labels r) ''proxy-hosts'') of
           None \<Rightarrow> throwIO XBadLabel
         | Some proxies \<Rightarrow> bindIO (remove_kata_network (lab (cr_labels r) ''network-id'') proxies) (\<lambda>_.
             if lab (cr_labels r) ''allocation'' \<noteq> [] then release_allocation (lab (cr_labels r) ''allocation'') (cr_id r) else returnIO ()))
      else if mg_network mg then remove_worker_network (plain_name (cr_name r)) else returnIO ())"

text \<open>What runs while the lock of the worker is held.\<close>

definition remove_locked :: "manager \<Rightarrow> cleanup_record \<Rightarrow> bool \<Rightarrow> unit wio" where
  "remove_locked mg r0 force =
     bindIO (catchIO (read_cleanup mg (cr_id r0))) (\<lambda>saved.
     bindIO (case saved of Inr s \<Rightarrow> returnIO (s\<lparr>cr_force := cr_force s \<or> force\<rparr>)
       | Inl e \<Rightarrow> bindIO (whenE (e \<noteq> XNoFile) e) (\<lambda>_. returnIO r0)) (\<lambda>r.
     bindIO (write_cleanup mg r) (\<lambda>_.
     bindIO (remove_confirmed 3 (cr_id r) (cr_force r)) (\<lambda>_.
     bindIO (catchIO (revoke_worker_token mg (record_inspection r))) (\<lambda>revoked.
     bindIO (release_resources mg r) (\<lambda>_.
     bindIO (cleanup_worktree (record_inspection r)) (\<lambda>_.
     bindIO (case revoked of Inl _ \<Rightarrow> throwIO XRevoke | Inr _ \<Rightarrow> returnIO ()) (\<lambda>_.
     bindIO (state_directory mg) (\<lambda>_.
     bindIO (dcall (bindIO (getIO (\<lambda>w. map_of (dw_files w) (record_file (cr_id r)))) (\<lambda>f. bindIO (whenE (f = None) XNoFile) (\<lambda>_.
       updIO (\<lambda>w. w\<lparr>dw_files := AList.delete (record_file (cr_id r)) (dw_files w)\<rparr>))))) (\<lambda>_.
     bindIO trial (\<lambda>_. trial)))))))))))"

definition remove_durably :: "manager \<Rightarrow> string \<Rightarrow> bool \<Rightarrow> unit wio" where
  "remove_durably mg value force = bindIO (removal_record mg value force) (\<lambda>r.
     bindIO (lock_cleanup mg (cr_id r)) (\<lambda>_. remove_locked mg r force))"

text \<open>Every pending record is retried; the failures are joined.\<close>

fun retry_each :: "manager \<Rightarrow> bool \<Rightarrow> cleanup_record list \<Rightarrow> bool wio" where
  "retry_each mg force [] = returnIO True"
| "retry_each mg force (r # rs) = bindIO (catchIO (remove_durably mg (cr_id r) (force \<or> cr_force r))) (\<lambda>x.
     bindIO (retry_each mg force rs) (\<lambda>ok. returnIO (ok \<and> x = Inr ())))"

definition retry_cleanup :: "manager \<Rightarrow> bool \<Rightarrow> unit wio" where
  "retry_cleanup mg force = bindIO (pending_cleanup mg) (\<lambda>rs. bindIO (retry_each mg force rs) (\<lambda>ok. whenE (\<not> ok) XUnconfirmed))"

text \<open>A listed worker is found by any prefix of its identifier, before any later one is by its name.\<close>

definition resolve_id :: "string \<Rightarrow> string wio" where
  "resolve_id v = bindIO trial (\<lambda>_. bindIO (getIO dw_workers) (\<lambda>ws.
     case find (\<lambda>x. lab (wk_labels x) ''managed'' = ''true'' \<and> (prefix v (wk_id x) \<or> plain_name (wk_name x) = v)) ws of
       None \<Rightarrow> throwIO XNotFound | Some x \<Rightarrow> returnIO (wk_id x)))"

definition remove_by_name :: "manager \<Rightarrow> string \<Rightarrow> bool \<Rightarrow> unit wio" where
  "remove_by_name mg name force = bindIO (catchIO (resolve_id name)) (\<lambda>v. case v of
     Inr i \<Rightarrow> remove_durably mg i force
   | Inl e \<Rightarrow> bindIO (find_cleanup mg name) (\<lambda>r. remove_durably mg (cr_id r) force))"

section \<open>Stopping and quarantine\<close>

definition container_stop :: "string \<Rightarrow> unit wio" where
  "container_stop cid = dcall (updIO (\<lambda>w. w\<lparr>dw_running := filter (\<lambda>i. i \<noteq> cid) (dw_running w)\<rparr>))"

definition kata_allocation :: "worker \<Rightarrow> string option" where
  "kata_allocation x = (if lab (wk_labels x) ''isolation'' = ''kata'' \<and> lab (wk_labels x) ''allocation'' \<noteq> []
     then Some (lab (wk_labels x) ''allocation'') else None)"

text \<open>\<open>errors.Join\<close> of two results.\<close>

definition both :: "(clean_error, unit) result \<Rightarrow> (clean_error, unit) result \<Rightarrow> unit wio" where
  "both a b = (case a of Inl e \<Rightarrow> throwIO e | Inr _ \<Rightarrow> liftE b)"

definition stop_context :: "manager \<Rightarrow> string \<Rightarrow> unit wio" where
  "stop_context mg value = bindIO (container_inspect value) (\<lambda>x. bindIO (lock_cleanup mg (wk_id x)) (\<lambda>_.
     bindIO (catchIO (revoke_worker_token mg x)) (\<lambda>revoked. bindIO (container_stop (wk_id x)) (\<lambda>_.
     bindIO (case kata_allocation x of None \<Rightarrow> returnIO (Inr ()) | Some a \<Rightarrow> catchIO (release_allocation a (wk_id x))) (\<lambda>released.
     both revoked released)))))"

text \<open>The node stops an idle worker unless it has been active since.\<close>

definition stop_idle :: "manager \<Rightarrow> bool \<Rightarrow> string \<Rightarrow> bool wio" where
  "stop_idle mg active cid = bindIO (lock_cleanup mg cid) (\<lambda>_. bindIO (container_inspect cid) (\<lambda>x.
     bindIO (catchIO (if active then bindIO trial (\<lambda>_. returnIO False) else bindIO (container_stop (wk_id x)) (\<lambda>_. returnIO True))) (\<lambda>stopped.
     if stopped = Inr False then returnIO False
     else bindIO (catchIO (revoke_worker_token mg x)) (\<lambda>revoked. case stopped of
         Inl e \<Rightarrow> throwIO e
       | Inr _ \<Rightarrow> bindIO (if lab (wk_labels x) ''isolation'' = ''kata'' then catchIO (release_allocation (lab (wk_labels x) ''allocation'') (wk_id x))
             else returnIO (Inr ())) (\<lambda>released. bindIO (both released revoked) (\<lambda>_. returnIO True))))))"

definition quarantine_context :: "manager \<Rightarrow> string \<Rightarrow> unit wio" where
  "quarantine_context mg value = bindIO (container_inspect value) (\<lambda>x.
     bindIO (whenE (lab (wk_labels x) ''managed'' \<noteq> ''true'' \<or> lab (wk_labels x) ''isolation'' \<notin> {''kata'', ''runc''}) XUnmanaged) (\<lambda>_.
     bindIO trial (\<lambda>_. bindIO (whenE ((''cxd.quarantine'', ''1'') \<notin> set (mg_features mg)) XUnsupported) (\<lambda>_.
     bindIO (lock_cleanup mg (wk_id x)) (\<lambda>_.
     bindIO (catchIO (dcall (updIO (\<lambda>w. w\<lparr>dw_running := filter (\<lambda>i. i \<noteq> wk_id x) (dw_running w),
       dw_quarantined := wk_id x # dw_quarantined w\<rparr>)))) (\<lambda>stopped.
     bindIO (catchIO (revoke_worker_token mg x)) (\<lambda>revoked.
     bindIO (liftE stopped) (\<lambda>_.
     bindIO (container_inspect (wk_id x)) (\<lambda>c.
     bindIO (getIO (\<lambda>w. wk_id x \<notin> set (dw_running w) \<and> wk_id x \<in> set (dw_quarantined w))) (\<lambda>confirmed.
     bindIO (whenE (wk_id c \<noteq> wk_id x \<or> \<not> confirmed) XUnconfirmed) (\<lambda>_.
     bindIO (case kata_allocation x of None \<Rightarrow> returnIO (Inr ()) | Some a \<Rightarrow> catchIO (release_allocation a (wk_id x))) (\<lambda>released.
     both released revoked))))))))))))"

section \<open>Lifecycle\<close>

text \<open>What an inspection reports: labels and times that do not parse are absent.\<close>

record worker_view =
  wv_running :: bool
  wv_status :: string
  wv_created :: "int option"
  wv_finished :: "int option"
  wv_activity :: "int option"
  wv_executions :: "int option"

datatype reaping = Keep | BadView | StopLifetime | StopIdle | RemoveExpired

definition reap_decision :: "int \<Rightarrow> lifecycle \<Rightarrow> worker_view \<Rightarrow> reaping" where
  "reap_decision now p v = (case wv_created v of None \<Rightarrow> BadView | Some created \<Rightarrow>
     if wv_running v then
       if 0 < max_lifetime p \<and> max_lifetime p \<le> now - created then StopLifetime
       else if 0 < idle_timeout p then
         (case (wv_activity v, wv_executions v) of
            (Some active, Some n) \<Rightarrow>
              if n < 0 then BadView else if n = 0 \<and> idle_timeout p \<le> now - active then StopIdle else Keep
          | _ \<Rightarrow> BadView)
       else Keep
     else if wv_status v = ''exited'' \<and> 0 < retention p then
       (case wv_finished v of None \<Rightarrow> BadView | Some f \<Rightarrow> if retention p \<le> now - f then RemoveExpired else Keep)
     else Keep)"

definition reap_act :: "manager \<Rightarrow> bool \<Rightarrow> string \<Rightarrow> reaping \<Rightarrow> bool wio" where
  "reap_act mg active cid d = (case d of
     StopIdle \<Rightarrow> stop_idle mg active cid
   | StopLifetime \<Rightarrow> bindIO (stop_context mg cid) (\<lambda>_. returnIO True)
   | RemoveExpired \<Rightarrow> bindIO (remove_durably mg cid False) (\<lambda>_. returnIO True)
   | _ \<Rightarrow> returnIO False)"

end
