(* ===== verification/WorkerSafety.thy ===== *)
theory WorkerSafety
  imports WorkerCleanup
begin

text \<open>
  A worker is never lost: over any interleaving of removals, retries, stops and quarantines, with any failing call,
  each worker is still there, or a record of what it holds is on disk, or everything it held is released.
\<close>

section \<open>Operations that only release\<close>

definition shrunk :: "dock \<Rightarrow> dock \<Rightarrow> bool" where
  "shrunk w w' \<longleftrightarrow> set (dw_workers w') \<subseteq> set (dw_workers w) \<and> set (dw_tokens w') \<subseteq> set (dw_tokens w) \<and>
     (\<lambda>n. (dn_id n, dn_name n)) ` set (dw_networks w') \<subseteq> (\<lambda>n. (dn_id n, dn_name n)) ` set (dw_networks w) \<and>
     set (dw_allocations w') \<subseteq> set (dw_allocations w) \<and> fst ` set (dw_trees w') \<subseteq> fst ` set (dw_trees w) \<and>
     (distinct (map dn_name (dw_networks w)) \<longrightarrow> distinct (map dn_name (dw_networks w')))"

definition tidy :: "dock \<Rightarrow> dock \<Rightarrow> bool" where
  "tidy w w' \<longleftrightarrow> shrunk w w' \<and> dw_workers w' = dw_workers w \<and> dw_files w' = dw_files w"

definition follows :: "(dock \<Rightarrow> dock \<Rightarrow> bool) \<Rightarrow> 'a wio \<Rightarrow> bool" where
  "follows R m \<longleftrightarrow> (\<forall>w. R w (snd (m w)))"

lemma shrunk_refl [simp]: "shrunk w w"
  by (simp add: shrunk_def)

lemma tidy_refl [simp]: "tidy w w"
  by (simp add: tidy_def)

lemma shrunk_trans: "shrunk w w1 \<Longrightarrow> shrunk w1 w2 \<Longrightarrow> shrunk w w2"
  unfolding shrunk_def by (elim conjE, intro conjI) ((erule (1) subset_trans)+, blast)

lemma tidy_trans: "tidy w w1 \<Longrightarrow> tidy w1 w2 \<Longrightarrow> tidy w w2"
  by (auto simp: tidy_def intro: shrunk_trans)

lemma shrunk_simps [simp]:
  "shrunk (w\<lparr>dw_faults := fs\<rparr>) w' = shrunk w w'" "shrunk w (w'\<lparr>dw_faults := fs\<rparr>) = shrunk w w'"
  "shrunk w (w'\<lparr>dw_live := bs\<rparr>) = shrunk w w'" "shrunk w (w'\<lparr>dw_contended := n\<rparr>) = shrunk w w'"
  "shrunk w (w'\<lparr>dw_running := rs\<rparr>) = shrunk w w'" "shrunk w (w'\<lparr>dw_quarantined := qs\<rparr>) = shrunk w w'"
  "shrunk w (w'\<lparr>dw_files := fl\<rparr>) = shrunk w w'"
  by (simp_all add: shrunk_def)

lemma tidy_simps [simp]:
  "tidy (w\<lparr>dw_faults := fs\<rparr>) w' = tidy w w'" "tidy w (w'\<lparr>dw_faults := fs\<rparr>) = tidy w w'"
  "tidy w (w'\<lparr>dw_live := bs\<rparr>) = tidy w w'" "tidy w (w'\<lparr>dw_contended := n\<rparr>) = tidy w w'"
  "tidy w (w'\<lparr>dw_running := rs\<rparr>) = tidy w w'" "tidy w (w'\<lparr>dw_quarantined := qs\<rparr>) = tidy w w'"
  by (simp_all add: tidy_def)

lemma followsD: "follows R m \<Longrightarrow> m w = (r, w') \<Longrightarrow> R w w'"
  by (metis follows_def snd_conv)

lemma follows_bind:
  assumes "\<And>w w1 w2. R w w1 \<Longrightarrow> R w1 w2 \<Longrightarrow> R w w2" and "follows R m" and "\<And>x. follows R (f x)"
  shows "follows R (bindIO m f)"
  unfolding follows_def
proof
  fix w
  obtain r w1 where m: "m w = (r, w1)" by fastforce
  have a: "R w w1" using assms(2) m by (rule followsD)
  show "R w (snd (bindIO m f w))"
  proof (cases r)
    case (Inl e)
    with m a show ?thesis by (simp add: bindIO_def)
  next
    case (Inr x)
    have "R w1 (snd (f x w1))" using assms(3) by (simp add: follows_def)
    with m a Inr assms(1) show ?thesis by (simp add: bindIO_def)
  qed
qed

lemma tidies_bind [intro!]: "follows tidy m \<Longrightarrow> (\<And>x. follows tidy (f x)) \<Longrightarrow> follows tidy (bindIO m f)"
  by (rule follows_bind [where R = tidy]) (rule tidy_trans)

lemma shrinks_bind [intro!]: "follows shrunk m \<Longrightarrow> (\<And>x. follows shrunk (f x)) \<Longrightarrow> follows shrunk (bindIO m f)"
  by (rule follows_bind [where R = shrunk]) (rule shrunk_trans)

lemma follows_unit [simp, intro]:
  "follows tidy (returnIO x)" "follows tidy (throwIO e)" "follows tidy (liftE r)" "follows tidy (getIO f)" "follows tidy (whenE b e)"
  "follows shrunk (returnIO x)" "follows shrunk (throwIO e)" "follows shrunk (liftE r)" "follows shrunk (getIO f)" "follows shrunk (whenE b e)"
  by (simp_all add: follows_def whenE_def)

lemma follows_pair [simp, intro]: "follows tidy (Pair y)" "follows shrunk (Pair y)"
  by (simp_all add: follows_def)

lemma follows_catch [intro!]: "follows R m \<Longrightarrow> follows R (catchIO m)"
  by (auto simp: follows_def catchIO_def split: prod.splits) (metis snd_conv)

lemma tidies_shrinks: "follows tidy m \<Longrightarrow> follows shrunk m"
  by (auto simp: follows_def tidy_def)

lemma follows_upd: "(\<And>w. R w (f w)) \<Longrightarrow> follows R (updIO f)"
  by (simp add: follows_def)

lemma follows_dcall:
  assumes "\<And>w fs w'. R (w\<lparr>dw_faults := fs\<rparr>) w' = R w w'" and "\<And>w. R w w" and "follows R m"
  shows "follows R (dcall m)"
  unfolding follows_def
proof
  fix w
  have s: "R w (snd (m (w\<lparr>dw_faults := fs\<rparr>)))" for fs using assms by (metis follows_def)
  have n: "R w (snd (m w))" using assms(3) by (simp add: follows_def)
  have "R w (w\<lparr>dw_faults := fs\<rparr>)" for fs using assms(1,2) by metis
  with s n show "R w (snd (dcall m w))" by (auto simp: dcall_def Let_def split: list.split dfault.split)
qed

lemma tidies_dcall [intro!]: "follows tidy m \<Longrightarrow> follows tidy (dcall m)"
  by (rule follows_dcall) auto

lemma shrinks_dcall [intro!]: "follows shrunk m \<Longrightarrow> follows shrunk (dcall m)"
  by (rule follows_dcall) auto

lemma tidies_trial [simp, intro]: "follows tidy trial" "follows tidy ctx_live"
  unfolding trial_def by auto (simp add: follows_def ctx_live_def split: list.split)

lemma tidies_directory [simp, intro]: "follows tidy (state_directory mg)"
  unfolding state_directory_def by auto

lemma tidies_loop [simp, intro]: "follows tidy (lock_loop n)"
  by (induction n) auto

lemma tidies_lock [simp, intro]: "follows tidy (lock_cleanup mg cid)"
  unfolding lock_cleanup_def by (auto intro!: follows_upd)

lemma tidies_read [simp, intro]: "follows tidy (read_cleanup mg cid)"
  unfolding read_cleanup_def by (auto split: option.split)

lemma tidies_read_all [simp, intro]: "follows tidy (read_all mg fs)"
  by (induction fs) auto

lemma tidies_find [simp, intro]: "follows tidy (pending_cleanup mg)" "follows tidy (find_cleanup mg v)"
proof -
  show p: "follows tidy (pending_cleanup mg)" unfolding pending_cleanup_def by auto
  then show "follows tidy (find_cleanup mg v)" unfolding find_cleanup_def by (auto split: list.split)
qed

lemma tidies_inspect [simp, intro]: "follows tidy (container_inspect v)" "follows tidy (network_inspect v)"
  unfolding container_inspect_def network_inspect_def by (auto split: list.split option.split)

lemma tidies_resolve [simp, intro]: "follows tidy (resolve_id v)"
  unfolding resolve_id_def by (auto split: option.split)

lemma tidies_network_disconnect [simp, intro]: "follows tidy (network_disconnect nid cid)"
  unfolding network_disconnect_def by (auto intro!: follows_upd simp: tidy_def shrunk_def comp_def if_distrib [of dn_name] cong: if_cong)

lemma tidies_network_remove [simp, intro]: "follows tidy (network_remove nid)"
  unfolding network_remove_def by (auto intro!: follows_upd simp: tidy_def shrunk_def distinct_map_filter)

lemma tidies_disconnect_each [simp, intro]: "follows tidy (disconnect_each nid cs)"
  by (induction cs) auto

lemma tidies_proxy_ids [simp, intro]: "follows tidy (proxy_ids ps)"
  by (induction ps) (auto split: sum.split)

lemma tidies_kata_network [simp, intro]: "follows tidy (remove_kata_network nid ps)"
  unfolding remove_kata_network_def by (auto split: sum.split)

lemma tidies_worker_network [simp, intro]: "follows tidy (remove_worker_network name)"
  unfolding remove_worker_network_def find_network_by_name_def by (auto split: option.split sum.split)

lemma tidies_revoke [simp, intro]: "follows tidy (revoke_worker_token mg x)"
proof -
  have "follows tidy (updIO (\<lambda>w. w\<lparr>dw_tokens := filter (\<lambda>t. t \<noteq> n) (dw_tokens w)\<rparr>))" for n
    by (auto intro!: follows_upd simp: tidy_def shrunk_def)
  then show ?thesis unfolding revoke_worker_token_def Let_def by (auto split: proxy_link.split)
qed

lemma tidies_release [simp, intro]: "follows tidy (release_allocation a cid)"
  unfolding release_allocation_def by (auto intro!: follows_upd simp: tidy_def shrunk_def)

lemma delete_dom: "fst ` set (AList.delete k xs) \<subseteq> fst ` set xs"
  by (rule AList.dom_delete_subset)

lemma tidies_worktree [simp, intro]: "follows tidy (cleanup_worktree x)"
proof -
  have "follows tidy (updIO (\<lambda>w. w\<lparr>dw_trees := AList.delete p (dw_trees w)\<rparr>))" for p
    by (rule follows_upd) (simp add: tidy_def shrunk_def delete_dom)
  then show ?thesis unfolding cleanup_worktree_def Let_def by auto
qed

lemma tidies_resources [simp, intro]: "follows tidy (release_resources mg r)"
  unfolding release_resources_def by (auto split: option.split)

lemma tidies_both [simp, intro]: "follows tidy (both a b)"
  unfolding both_def by (auto split: sum.split)

lemma tidies_stop [simp, intro]: "follows tidy (container_stop cid)"
  unfolding container_stop_def by (auto intro!: follows_upd)

lemma tidies_stop_context [simp, intro]: "follows tidy (stop_context mg v)"
  unfolding stop_context_def by (auto split: option.split)

lemma tidies_stop_idle [simp, intro]: "follows tidy (stop_idle mg active cid)"
  unfolding stop_idle_def by (auto split: sum.split)

lemma tidies_quarantine [simp, intro]: "follows tidy (quarantine_context mg v)"
proof -
  have "follows tidy (updIO (\<lambda>w. w\<lparr>dw_running := filter (\<lambda>i. i \<noteq> c) (dw_running w), dw_quarantined := c # dw_quarantined w\<rparr>))" for c
    by (auto intro!: follows_upd)
  then show ?thesis unfolding quarantine_context_def by (auto split: option.split)
qed

lemma tidies_removal_record [simp, intro]: "follows tidy (removal_record mg v force)"
  unfolding removal_record_def by (auto split: sum.split)

section \<open>What a worker holds\<close>

text \<open>
  \<open>token_gone\<close>, \<open>network_gone\<close> and so \<open>released\<close> carry the exemptions of the code: a manager whose proxy reports no
  failure, a worker whose environment shows no placeholder and a manager without a network manager release less.  They
  serve the invariant only; what a worker is promised is \<open>fully_released\<close>, which has none, for the workers a manager
  can release (\<open>releasable\<close>).
\<close>

definition matches :: "manager \<Rightarrow> worker \<Rightarrow> cleanup_record \<Rightarrow> bool" where
  "matches mg c r \<longleftrightarrow> r\<lparr>cr_force := False\<rparr> = record_of mg c False"

definition token_gone :: "manager \<Rightarrow> worker \<Rightarrow> dock \<Rightarrow> bool" where
  "token_gone mg c w \<longleftrightarrow> (mg_checked mg \<and> worker_placeholder c \<noteq> [] \<longrightarrow> plain_name (wk_name c) \<notin> set (dw_tokens w))"

definition network_gone :: "manager \<Rightarrow> worker \<Rightarrow> dock \<Rightarrow> bool" where
  "network_gone mg c w \<longleftrightarrow>
     (if lab (wk_labels c) ''isolation'' = ''kata''
      then lab (wk_labels c) ''network-id'' \<notin> dn_id ` set (dw_networks w) \<and>
        (lab (wk_labels c) ''allocation'' \<noteq> [] \<longrightarrow> (lab (wk_labels c) ''allocation'', wk_id c) \<notin> set (dw_allocations w))
      else mg_network mg \<longrightarrow> worker_network (plain_name (wk_name c)) \<notin> dn_name ` set (dw_networks w))"

definition tree_gone :: "worker \<Rightarrow> dock \<Rightarrow> bool" where
  "tree_gone c w \<longleftrightarrow> (lab (wk_labels c) ''worktree'' \<noteq> [] \<longrightarrow> lab (wk_labels c) ''worktree'' \<notin> fst ` set (dw_trees w))"

definition absent :: "worker \<Rightarrow> dock \<Rightarrow> bool" where
  "absent c w \<longleftrightarrow> wk_id c \<notin> wk_id ` set (dw_workers w)"

definition released :: "manager \<Rightarrow> worker \<Rightarrow> dock \<Rightarrow> bool" where
  "released mg c w \<longleftrightarrow> absent c w \<and> token_gone mg c w \<and> network_gone mg c w \<and> tree_gone c w"

definition recorded :: "manager \<Rightarrow> worker \<Rightarrow> dock \<Rightarrow> bool" where
  "recorded mg c w \<longleftrightarrow> (\<exists>r. map_of (dw_files w) (record_file (wk_id c)) = Some \<lparr>cf_private = True, cf_doc = Some r\<rparr> \<and> matches mg c r)"

text \<open>Nothing of the worker is left: its container, its token, its network (of a Kata worker the front its label names, with
  the allocation; of a runc worker the network named after it) and the worktree its label names.\<close>

definition fully_released :: "worker \<Rightarrow> dock \<Rightarrow> bool" where
  "fully_released c w \<longleftrightarrow> wk_id c \<notin> wk_id ` set (dw_workers w) \<and> plain_name (wk_name c) \<notin> set (dw_tokens w) \<and>
     (if lab (wk_labels c) ''isolation'' = ''kata''
      then lab (wk_labels c) ''network-id'' \<notin> dn_id ` set (dw_networks w) \<and>
        (lab (wk_labels c) ''allocation'' \<noteq> [] \<longrightarrow> (lab (wk_labels c) ''allocation'', wk_id c) \<notin> set (dw_allocations w))
      else worker_network (plain_name (wk_name c)) \<notin> dn_name ` set (dw_networks w)) \<and>
     (lab (wk_labels c) ''worktree'' \<noteq> [] \<longrightarrow> lab (wk_labels c) ''worktree'' \<notin> fst ` set (dw_trees w))"

text \<open>The manager can revoke the token of the worker, if it has one: its proxy reports failures, and the environment of the
  container shows the placeholder.  It can release a runc worker's network only with a network manager.\<close>

definition revocable :: "manager \<Rightarrow> dock \<Rightarrow> worker \<Rightarrow> bool" where
  "revocable mg w c \<longleftrightarrow> (plain_name (wk_name c) \<in> set (dw_tokens w) \<longrightarrow> mg_checked mg \<and> worker_placeholder c \<noteq> [])"

definition releasable :: "manager \<Rightarrow> dock \<Rightarrow> worker \<Rightarrow> bool" where
  "releasable mg w c \<longleftrightarrow> revocable mg w c \<and> (mg_network mg \<or> lab (wk_labels c) ''isolation'' = ''kata'')"

lemma revocable_gone:
  assumes "revocable mg w c" and "shrunk w w'" and "token_gone mg c w'"
  shows "plain_name (wk_name c) \<notin> set (dw_tokens w')"
  using assms by (auto simp: revocable_def shrunk_def token_gone_def)

lemma released_fully:
  assumes "releasable mg w c" and "shrunk w w'" and "released mg c w'"
  shows "fully_released c w'"
  using revocable_gone [of mg w c w'] assms
  by (auto simp: releasable_def released_def fully_released_def absent_def network_gone_def tree_gone_def split: if_splits)

lemma gone_shrunk:
  assumes "shrunk w w'"
  shows "token_gone mg c w \<Longrightarrow> token_gone mg c w'" "network_gone mg c w \<Longrightarrow> network_gone mg c w'" "tree_gone c w \<Longrightarrow> tree_gone c w'"
    "absent c w \<Longrightarrow> absent c w'" "released mg c w \<Longrightarrow> released mg c w'"
proof -
  have sub: "set (dw_tokens w') \<subseteq> set (dw_tokens w)" "set (dw_allocations w') \<subseteq> set (dw_allocations w)"
    "fst ` set (dw_trees w') \<subseteq> fst ` set (dw_trees w)" "set (dw_workers w') \<subseteq> set (dw_workers w)"
    "(\<lambda>n. (dn_id n, dn_name n)) ` set (dw_networks w') \<subseteq> (\<lambda>n. (dn_id n, dn_name n)) ` set (dw_networks w)"
    using assms unfolding shrunk_def by blast+
  have n: "dn_id ` set (dw_networks w') \<subseteq> dn_id ` set (dw_networks w)" "dn_name ` set (dw_networks w') \<subseteq> dn_name ` set (dw_networks w)"
    using image_mono [OF sub(5), of fst] image_mono [OF sub(5), of snd] by (simp_all add: image_image)
  show t: "token_gone mg c w \<Longrightarrow> token_gone mg c w'" using sub(1) unfolding token_gone_def by blast
  show k: "network_gone mg c w \<Longrightarrow> network_gone mg c w'" using sub(2) n unfolding network_gone_def by (auto split: if_splits)
  show r: "tree_gone c w \<Longrightarrow> tree_gone c w'" using sub(3) unfolding tree_gone_def by blast
  show a: "absent c w \<Longrightarrow> absent c w'" using sub(4) unfolding absent_def by blast
  show "released mg c w \<Longrightarrow> released mg c w'" using t k r a unfolding released_def by blast
qed

lemma recorded_tidy: "tidy w w' \<Longrightarrow> recorded mg c w' = recorded mg c w"
  by (simp add: recorded_def tidy_def)

section \<open>The invariant\<close>

text \<open>The workers there were: distinct full identifiers, managed, and none named like an identifier.\<close>

definition fleet :: "worker list \<Rightarrow> bool" where
  "fleet cs \<longleftrightarrow> distinct (map wk_id cs) \<and> list_all (\<lambda>c. full_id (wk_id c) \<and> lab (wk_labels c) ''managed'' = ''true'' \<and>
     prefix ''/'' (wk_name c) \<and> \<not> full_id (plain_name (wk_name c))) cs"

definition winv :: "manager \<Rightarrow> worker list \<Rightarrow> dock \<Rightarrow> bool" where
  "winv mg cs w \<longleftrightarrow> distinct (map dn_name (dw_networks w)) \<and> set (dw_workers w) \<subseteq> set cs \<and> distinct (map wk_id (dw_workers w)) \<and>
     (\<forall>f x. map_of (dw_files w) f = Some x \<longrightarrow> (\<exists>c r. c \<in> set cs \<and> f = record_file (wk_id c) \<and> x = \<lparr>cf_private = True, cf_doc = Some r\<rparr> \<and> matches mg c r)) \<and>
     (\<forall>c \<in> set cs. map_of (dw_files w) (record_file (wk_id c)) = None \<longrightarrow> c \<in> set (dw_workers w) \<or> released mg c w)"

lemma record_file_inj [simp]: "record_file a = record_file b \<longleftrightarrow> a = b"
  by (simp add: record_file_def)

lemma fleet_id: "fleet cs \<Longrightarrow> c \<in> set cs \<Longrightarrow> d \<in> set cs \<Longrightarrow> wk_id c = wk_id d \<Longrightarrow> c = d"
  unfolding fleet_def distinct_map by (elim conjE) (rule inj_onD)

lemma matches_fields:
  assumes "matches mg c r"
  shows "cr_id r = wk_id c" "cr_name r = wk_name c" "cr_labels r = saved_labels (wk_labels c)" "cr_mounts r = wk_mounts c"
    "cr_placeholder r = worker_placeholder c" "cr_version r = 1" "cr_endpoint r = mg_endpoint mg"
proof -
  have e: "r\<lparr>cr_force := False\<rparr> = record_of mg c False" using assms by (simp add: matches_def)
  show "cr_id r = wk_id c" using arg_cong [OF e, of cr_id] by (simp add: record_of_def)
  show "cr_name r = wk_name c" using arg_cong [OF e, of cr_name] by (simp add: record_of_def)
  show "cr_labels r = saved_labels (wk_labels c)" using arg_cong [OF e, of cr_labels] by (simp add: record_of_def)
  show "cr_mounts r = wk_mounts c" using arg_cong [OF e, of cr_mounts] by (simp add: record_of_def)
  show "cr_placeholder r = worker_placeholder c" using arg_cong [OF e, of cr_placeholder] by (simp add: record_of_def)
  show "cr_version r = 1" using arg_cong [OF e, of cr_version] by (simp add: record_of_def)
  show "cr_endpoint r = mg_endpoint mg" using arg_cong [OF e, of cr_endpoint] by (simp add: record_of_def)
qed

lemma matches_force [simp]: "matches mg c (r\<lparr>cr_force := f\<rparr>) = matches mg c r"
  by (simp add: matches_def)

lemma matches_record [simp]: "matches mg c (record_of mg c f)"
  by (simp add: matches_def record_of_def)

lemma map_filter_lookup:
  "distinct ks \<Longrightarrow> map_of (List.map_filter (\<lambda>k. map_option (\<lambda>v. (k, v)) (g k)) ks) k = (if k \<in> set ks then g k else None)"
  by (induction ks) (auto simp: map_filter_simps split: option.split)

lemma kept_distinct: "distinct kept_labels"
  by code_simp

lemma saved_lab:
  assumes "''codex-dock.'' @ k \<in> set kept_labels"
  shows "lab (saved_labels ls) k = lab ls k"
  unfolding lab_def saved_labels_def using assms map_filter_lookup [OF kept_distinct, of "map_of ls" "''codex-dock.'' @ k"] by simp

lemma saved_labs [simp]:
  "lab (saved_labels ls) ''managed'' = lab ls ''managed''" "lab (saved_labels ls) ''isolation'' = lab ls ''isolation''"
  "lab (saved_labels ls) ''proxy-hosts'' = lab ls ''proxy-hosts''" "lab (saved_labels ls) ''allocation'' = lab ls ''allocation''"
  "lab (saved_labels ls) ''network-id'' = lab ls ''network-id''" "lab (saved_labels ls) ''worktree'' = lab ls ''worktree''"
  by (rule saved_lab, simp add: kept_labels_def)+

text \<open>The placeholder a record holds is the one its inspection shows.\<close>

lemma placeholder_prefix: "placeholder_in es = [] \<or> prefix ''cdx-'' (placeholder_in es)"
  by (induction es) (auto split: prod.split)

lemma inspection_placeholder:
  assumes "matches mg c r"
  shows "worker_placeholder (record_inspection r) = worker_placeholder c"
proof -
  have "worker_placeholder c = [] \<or> prefix ''cdx-'' (worker_placeholder c)" unfolding worker_placeholder_def by (rule placeholder_prefix)
  then show ?thesis using matches_fields(5) [OF assms]
    by (auto simp: worker_placeholder_def record_inspection_def)
qed

lemma winv_tidy:
  assumes "winv mg cs w" and t: "tidy w w'"
  shows "winv mg cs w'"
proof -
  have e: "dw_workers w' = dw_workers w" "dw_files w' = dw_files w" and s: "shrunk w w'" using t by (simp_all add: tidy_def)
  have "distinct (map dn_name (dw_networks w)) \<Longrightarrow> distinct (map dn_name (dw_networks w'))" using s by (simp add: shrunk_def)
  then show ?thesis using assms(1) gone_shrunk(5) [OF s] unfolding winv_def e by blast
qed

lemma tidy_triple:
  assumes "follows tidy m" and "\<And>w w'. tidy w w' \<Longrightarrow> P w \<Longrightarrow> P w'"
  shows "triple P m (\<lambda>_. P) (\<lambda>_. P)"
  by (rule tripleI) (use assms followsD in blast)+

lemma tidy_fact:
  assumes "follows tidy m" and "\<And>w w'. tidy w w' \<Longrightarrow> P w \<Longrightarrow> P w'" and "\<And>w x w'. P w \<Longrightarrow> m w = (Inr x, w') \<Longrightarrow> B x w'"
    and "\<And>w. P w \<Longrightarrow> R w"
  shows "triple P m (\<lambda>x w. P w \<and> B x w) (\<lambda>_. R)"
  by (rule tripleI) (use assms followsD in blast)+

section \<open>What the steps have done when they succeed\<close>

lemma trial_dcall: "dcall (updIO f) w = (Inr x, w') \<Longrightarrow> \<exists>fs. w' = f (w\<lparr>dw_faults := fs\<rparr>)"
proof -
  assume d: "dcall (updIO f) w = (Inr x, w')"
  have "w = w\<lparr>dw_faults := dw_faults w\<rparr>" by simp
  moreover have "w' = f w \<or> (\<exists>fs. w' = f (w\<lparr>dw_faults := fs\<rparr>))"
    using d by (auto simp: dcall_def Let_def split: list.splits dfault.splits)
  ultimately show ?thesis by metis
qed

lemma revoke_gone:
  assumes "revoke_worker_token mg x w = (Inr u, w')" and "worker_placeholder x = worker_placeholder c" and "wk_name x = wk_name c"
  shows "token_gone mg c w'"
proof (cases "worker_placeholder x = [] \<or> \<not> mg_checked mg")
  case True
  with assms(2) show ?thesis by (auto simp: token_gone_def)
next
  case False
  let ?f = "\<lambda>w. w\<lparr>dw_tokens := filter (\<lambda>t. t \<noteq> plain_name (wk_name x)) (dw_tokens w)\<rparr>"
  from False assms(1) obtain w1 where "dcall (updIO ?f) w1 = (Inr u, w')"
    by (auto simp: revoke_worker_token_def Let_def io_iffs)
  from trial_dcall [OF this] assms(3) show ?thesis by (auto simp: token_gone_def)
qed

lemma dcall_inner: "dcall m w = (Inr x, w') \<Longrightarrow> \<exists>fs. m (w\<lparr>dw_faults := fs\<rparr>) = (Inr x, w')"
proof -
  assume d: "dcall m w = (Inr x, w')"
  have "w = w\<lparr>dw_faults := dw_faults w\<rparr>" by simp
  moreover have "m w = (Inr x, w') \<or> (\<exists>fs. m (w\<lparr>dw_faults := fs\<rparr>) = (Inr x, w'))"
    using d by (auto simp: dcall_def Let_def split: list.splits dfault.splits)
  ultimately show ?thesis by metis
qed

lemma network_removed:
  assumes "network_remove nid w = (Inr u, w')"
  shows "nid \<notin> dn_id ` set (dw_networks w')"
  using dcall_inner [OF assms [unfolded network_remove_def]] by (auto simp: io_iffs)

lemma trial_state: "trial w = (r, w') \<Longrightarrow> \<exists>fs. w' = w\<lparr>dw_faults := fs\<rparr>"
proof -
  assume d: "trial w = (r, w')"
  have "w = w\<lparr>dw_faults := dw_faults w\<rparr>" by simp
  moreover have "w' = w \<or> (\<exists>fs. w' = w\<lparr>dw_faults := fs\<rparr>)"
    using d by (auto simp: trial_def dcall_def returnIO_def Let_def split: list.splits dfault.splits)
  ultimately show ?thesis by metis
qed

lemma network_inspect_state: "network_inspect v w = (r, w') \<Longrightarrow> dw_networks w' = dw_networks w"
  by (cases r) (auto simp: network_inspect_def io_iffs split: option.splits dest!: trial_state)

lemma network_inspect_none:
  "network_inspect v w = (Inl XNotFound, w') \<Longrightarrow> v \<notin> dn_id ` set (dw_networks w) \<and> v \<notin> dn_name ` set (dw_networks w)"
  by (auto simp: network_inspect_def io_iffs find_None_iff trial_def dcall_def returnIO_def Let_def split: option.splits list.splits dfault.splits)

lemma kata_network_gone:
  assumes "remove_kata_network nid ps w = (Inr u, w')"
  shows "nid \<notin> dn_id ` set (dw_networks w')"
proof -
  from assms obtain v w1 where v: "network_inspect nid w = (v, w1)"
    "(case v of Inl e \<Rightarrow> whenE (e \<noteq> XNotFound) e
     | Inr n \<Rightarrow> bindIO (whenE (\<not> kata_network_ok n) XBadNetwork) (\<lambda>_. bindIO (proxy_ids ps) (\<lambda>allowed.
       bindIO (whenE (\<not> list_all (\<lambda>(i, a). i \<in> set allowed) (dn_peers n)) XUnexpectedPeer) (\<lambda>_.
       bindIO (disconnect_each nid (map fst (dn_peers n))) (\<lambda>_. network_remove nid))))) w1 = (Inr u, w')"
    by (auto simp: remove_kata_network_def io_iffs)
  show ?thesis
  proof (cases v)
    case (Inl e)
    with v have "e = XNotFound" "w' = w1" by (auto simp: whenE_def split: if_splits)
    with v(1) Inl network_inspect_none network_inspect_state show ?thesis by metis
  next
    case (Inr n)
    with v(2) obtain w2 where "network_remove nid w2 = (Inr u, w')" by (auto simp: io_iffs)
    then show ?thesis by (rule network_removed)
  qed
qed

end
