(* ===== verification/WorkerRemoval.thy ===== *)
theory WorkerRemoval
  imports WorkerSafety
begin

text \<open>
  The steps of a removal and what each leaves: the record written first, the container confirmed absent, and the
  token, network, allocation and worktree the record names released before the record goes.
\<close>

section \<open>What the steps have done when they succeed\<close>

lemma disconnect_names: "network_disconnect nid c w = (r, w') \<Longrightarrow> map dn_name (dw_networks w') = map dn_name (dw_networks w)"
  by (auto simp: network_disconnect_def dcall_def Let_def comp_def if_distrib [of dn_name] split: list.splits dfault.splits cong: if_cong)

lemma disconnect_each_names: "disconnect_each nid cs w = (r, w') \<Longrightarrow> map dn_name (dw_networks w') = map dn_name (dw_networks w)"
proof (induction cs arbitrary: w r)
  case (Cons c cs)
  then show ?case by (cases r) (auto simp: io_iffs dest: disconnect_names Cons.IH)
qed simp

lemma disconnect_ids: "network_disconnect nid c w = (r, w') \<Longrightarrow> map (\<lambda>n. (dn_id n, dn_name n)) (dw_networks w') = map (\<lambda>n. (dn_id n, dn_name n)) (dw_networks w)"
  by (auto simp: network_disconnect_def dcall_def Let_def split: list.splits dfault.splits)

lemma disconnect_each_ids:
  "disconnect_each nid cs w = (r, w') \<Longrightarrow> map (\<lambda>n. (dn_id n, dn_name n)) (dw_networks w') = map (\<lambda>n. (dn_id n, dn_name n)) (dw_networks w)"
proof (induction cs arbitrary: w r)
  case (Cons c cs)
  then show ?case by (cases r) (auto simp: io_iffs dest: disconnect_ids Cons.IH)
qed simp

lemma removed_name:
  assumes "network_remove nid w = (Inr u, w')" and "distinct (map dn_name (dw_networks w))"
    and "(nid, k) \<in> (\<lambda>n. (dn_id n, dn_name n)) ` set (dw_networks w)"
  shows "k \<notin> dn_name ` set (dw_networks w')"
proof -
  obtain n where n: "n \<in> set (dw_networks w)" "dn_id n = nid" "dn_name n = k" using assms(3) by auto
  have "set (dw_networks w') \<subseteq> {m \<in> set (dw_networks w). dn_id m \<noteq> nid}"
    using dcall_inner [OF assms(1) [unfolded network_remove_def]] by (auto simp: io_iffs)
  moreover have "m = n" if "m \<in> set (dw_networks w)" "dn_name m = k" for m
    using assms(2) n that inj_onD [of dn_name "set (dw_networks w)" m n] unfolding distinct_map by simp
  ultimately show ?thesis using n by blast
qed

lemma worker_network_gone:
  assumes "remove_worker_network name w = (Inr u, w')" and "distinct (map dn_name (dw_networks w))"
  shows "worker_network name \<notin> dn_name ` set (dw_networks w')"
proof -
  let ?k = "worker_network name" and ?ids = "\<lambda>w. map (\<lambda>n. (dn_id n, dn_name n)) (dw_networks w)"
  have names: "map dn_name (dw_networks v) = map snd (?ids v)" for v by simp
  from assms(1) obtain w1 where t: "trial w = (Inr (), w1)" and
    f: "(case find (\<lambda>n. dn_name n = ?k) (dw_networks w1) of None \<Rightarrow> returnIO () | Some n \<Rightarrow> bindIO (catchIO (network_inspect (dn_id n))) (\<lambda>d.
       bindIO (case d of Inl _ \<Rightarrow> returnIO () | Inr d \<Rightarrow> disconnect_each (dn_id n) (map fst (dn_peers d))) (\<lambda>_.
       network_remove (dn_id n)))) w1 = (Inr u, w')"
    by (auto simp: remove_worker_network_def find_network_by_name_def io_iffs)
  have n1: "dw_networks w1 = dw_networks w" using trial_state [OF t] by auto
  show ?thesis
  proof (cases "find (\<lambda>n. dn_name n = ?k) (dw_networks w1)")
    case None
    with f have "w' = w1" by simp
    with None n1 show ?thesis by (auto simp: find_None_iff)
  next
    case (Some n)
    with f obtain d w2 w3 x where i: "network_inspect (dn_id n) w1 = (d, w2)" and
      c: "(case d of Inl _ \<Rightarrow> returnIO () | Inr d \<Rightarrow> disconnect_each (dn_id n) (map fst (dn_peers d))) w2 = (Inr x, w3)" and
      r: "network_remove (dn_id n) w3 = (Inr u, w')"
      by (auto simp: io_iffs)
    have n2: "?ids w2 = ?ids w" using network_inspect_state [OF i] n1 by simp
    have n3: "?ids w3 = ?ids w2" using c by (cases d) (auto dest: disconnect_each_ids)
    have "n \<in> set (dw_networks w)" "dn_name n = ?k" using Some n1 by (auto simp: find_Some_iff)
    then have "(dn_id n, ?k) \<in> set (?ids w)" by force
    moreover have "distinct (map dn_name (dw_networks w3))" using assms(2) n2 n3 by (simp only: names)
    ultimately show ?thesis using removed_name [OF r] n2 n3 by (metis set_map)
  qed
qed

lemma allocation_gone: "release_allocation a i w = (Inr u, w') \<Longrightarrow> (a, i) \<notin> set (dw_allocations w')"
  using trial_dcall [of "\<lambda>w. w\<lparr>dw_allocations := filter (\<lambda>p. p \<noteq> (a, i) \<and> p \<noteq> (a, [])) (dw_allocations w)\<rparr>" w u w']
  by (auto simp: release_allocation_def)

lemma resources_gone:
  assumes "release_resources mg r w = (Inr u, w')" and "matches mg c r" and "distinct (map dn_name (dw_networks w))"
  shows "network_gone mg c w'"
proof (cases "lab (wk_labels c) ''isolation'' = ''kata''")
  case True
  note m = matches_fields [OF assms(2)]
  have "release_resources mg r = (case mg_hosts mg (lab (wk_labels c) ''proxy-hosts'') of None \<Rightarrow> throwIO XBadLabel
    | Some ps \<Rightarrow> bindIO (remove_kata_network (lab (wk_labels c) ''network-id'') ps) (\<lambda>_.
        if lab (wk_labels c) ''allocation'' \<noteq> [] then release_allocation (lab (wk_labels c) ''allocation'') (wk_id c) else returnIO ()))"
    by (simp only: release_resources_def m saved_labs True simp_thms if_True)
  with assms(1) obtain ps w1 x where k: "remove_kata_network (lab (wk_labels c) ''network-id'') ps w = (Inr x, w1)" and
    a: "(if lab (wk_labels c) ''allocation'' \<noteq> [] then release_allocation (lab (wk_labels c) ''allocation'') (wk_id c) else returnIO ()) w1 = (Inr u, w')"
    by (cases "mg_hosts mg (lab (wk_labels c) ''proxy-hosts'')") (auto simp: io_iffs)
  have n: "lab (wk_labels c) ''network-id'' \<notin> dn_id ` set (dw_networks w1)" by (rule kata_network_gone [OF k])
  have "follows shrunk (if lab (wk_labels c) ''allocation'' \<noteq> [] then release_allocation (lab (wk_labels c) ''allocation'') (wk_id c) else returnIO ())"
    by (auto intro: tidies_shrinks)
  from followsD [OF this a] have "(\<lambda>n. (dn_id n, dn_name n)) ` set (dw_networks w') \<subseteq> (\<lambda>n. (dn_id n, dn_name n)) ` set (dw_networks w1)"
    by (simp add: shrunk_def)
  from image_mono [OF this, of fst] have "dn_id ` set (dw_networks w') \<subseteq> dn_id ` set (dw_networks w1)" by (simp add: image_image)
  with n a show ?thesis using True by (auto simp: network_gone_def dest: allocation_gone split: if_splits)
next
  case False
  with assms worker_network_gone matches_fields [OF assms(2)] show ?thesis
    by (auto simp: release_resources_def network_gone_def split: if_splits)
qed

lemma tree_update: "dcall (updIO (\<lambda>w. w\<lparr>dw_trees := AList.delete p (dw_trees w)\<rparr>)) w = (Inr u, w') \<Longrightarrow> p \<notin> fst ` set (dw_trees w')"
  using trial_dcall [of "\<lambda>w. w\<lparr>dw_trees := AList.delete p (dw_trees w)\<rparr>" w u w'] by (auto simp: AList.delete_eq)

lemma worktree_gone:
  assumes "cleanup_worktree x w = (Inr u, w')" and "lab (wk_labels x) ''worktree'' = lab (wk_labels c) ''worktree''"
  shows "tree_gone c w'"
  using assms by (auto simp: cleanup_worktree_def tree_gone_def Let_def io_iffs map_of_eq_None_iff dest: tree_update split: if_splits)

section \<open>A removal\<close>

lemma triple_dcall:
  assumes "triple P m Q (\<lambda>_. R)" and "\<And>w fs. P (w\<lparr>dw_faults := fs\<rparr>) = P w" and "\<And>x w. Q x w \<Longrightarrow> R w" and "\<And>w. P w \<Longrightarrow> R w"
  shows "triple P (dcall m) Q (\<lambda>_. R)"
proof -
  have "case m v of (Inr x, w') \<Rightarrow> Q x w' | (Inl e, w') \<Rightarrow> R w'" if "P v" for v using assms(1) that by (simp add: triple_def)
  moreover have "R (snd (m v))" if "P v" for v using triple_snd [of P m R] that assms(1,3) by (metis triple_post)
  ultimately show ?thesis
    using assms(2,4) by (auto simp: triple_def dcall_def Let_def split: list.split dfault.split)
qed

lemma winv_faults [simp]: "winv mg cs (w\<lparr>dw_faults := fs\<rparr>) = winv mg cs w"
  by (simp add: winv_def released_def absent_def token_gone_def network_gone_def tree_gone_def)

lemma recorded_faults [simp]: "recorded mg c (w\<lparr>dw_faults := fs\<rparr>) = recorded mg c w"
  by (simp add: recorded_def)

lemma released_faults [simp]: "released mg c (w\<lparr>dw_faults := fs\<rparr>) = released mg c w"
  by (simp add: released_def absent_def token_gone_def network_gone_def tree_gone_def)

lemma released_files [simp]: "released mg c (w\<lparr>dw_files := fs\<rparr>) = released mg c w"
  by (simp add: released_def absent_def token_gone_def network_gone_def tree_gone_def)

lemma read_file:
  assumes "read_cleanup mg cid w = (Inr r, w')"
  shows "\<exists>f. map_of (dw_files w) (record_file cid) = Some f \<and> cf_doc f = Some r"
proof -
  from assms obtain w1 w2 f where d: "state_directory mg w = (Inr (), w1)" and t: "trial w1 = (Inr (), w2)" and
    f: "(case map_of (dw_files w2) (record_file cid) of None \<Rightarrow> throwIO XNoFile
     | Some f \<Rightarrow> bindIO (whenE (\<not> cf_private f) XBadRecord) (\<lambda>_. bindIO trial (\<lambda>_. case cf_doc f of
         None \<Rightarrow> throwIO XBadRecord
       | Some r \<Rightarrow> bindIO (whenE (cr_version r \<noteq> 1 \<or> cr_id r \<noteq> cid \<or> cr_endpoint r \<noteq> mg_endpoint mg \<or>
             lab (cr_labels r) ''managed'' \<noteq> ''true'' \<or> \<not> prefix ''/'' (cr_name r)) XMismatch) (\<lambda>_. returnIO r)))) w2 = (Inr r, w')"
    by (auto simp: read_cleanup_def io_iffs)
  have "dw_files w2 = dw_files w" using followsD [OF tidies_directory d] trial_state [OF t] by (auto simp: tidy_def)
  with f show ?thesis by (auto simp: io_iffs split: option.splits)
qed

lemma read_matches:
  assumes "winv mg cs w" and "fleet cs" and "c \<in> set cs" and "read_cleanup mg (wk_id c) w = (Inr r, w')"
  shows "matches mg c r"
proof -
  obtain f where f: "map_of (dw_files w) (record_file (wk_id c)) = Some f" "cf_doc f = Some r" using read_file [OF assms(4)] by blast
  with assms(1) obtain d where d: "d \<in> set cs" "wk_id c = wk_id d" "matches mg d r" by (fastforce simp: winv_def)
  with fleet_id [OF assms(2,3) d(1,2)] show ?thesis by simp
qed

lemma keeps_both: "tidy w w' \<Longrightarrow> winv mg cs w \<and> recorded mg c w \<Longrightarrow> winv mg cs w' \<and> recorded mg c w'"
  by (auto simp: recorded_tidy dest: winv_tidy)

lemma keeps_triple:
  assumes "follows tidy m"
  shows "triple (\<lambda>w. winv mg cs w \<and> recorded mg c w) m (\<lambda>_ w. winv mg cs w \<and> recorded mg c w) (\<lambda>_. winv mg cs)"
proof -
  have "triple (\<lambda>w. winv mg cs w \<and> recorded mg c w) m (\<lambda>_ w. winv mg cs w \<and> recorded mg c w) (\<lambda>_ w. winv mg cs w \<and> recorded mg c w)"
    using assms by (rule tidy_triple) (rule keeps_both)
  then show ?thesis by (rule triple_post) auto
qed

lemma write_triple:
  assumes "c \<in> set cs" and "matches mg c r"
  shows "triple (winv mg cs) (write_cleanup mg r) (\<lambda>_ w. winv mg cs w \<and> recorded mg c w) (\<lambda>_. winv mg cs)"
proof -
  let ?f = "\<lambda>w. w\<lparr>dw_files := AList.update (record_file (cr_id r)) \<lparr>cf_private = True, cf_doc = Some r\<rparr> (dw_files w)\<rparr>"
  have id: "cr_id r = wk_id c" using assms(2) by (rule matches_fields)
  have u: "winv mg cs (?f w) \<and> recorded mg c (?f w)" if "winv mg cs w" for w
    using that assms by (auto simp: winv_def recorded_def id AList.update_conv')
  have i: "triple (winv mg cs) m (\<lambda>_. winv mg cs) (\<lambda>_. winv mg cs)" if "follows tidy m" for m :: "unit wio"
    using that by (rule tidy_triple) (rule winv_tidy)
  have d: "triple (winv mg cs) (dcall (updIO ?f)) (\<lambda>_ w. winv mg cs w \<and> recorded mg c w) (\<lambda>_. winv mg cs)"
    by (rule triple_dcall) (use u in \<open>auto intro: triple_upd\<close>)
  show ?thesis unfolding write_cleanup_def
    by (rule triple_bind [OF i [OF tidies_directory]] triple_bind [OF i [OF tidies_trial(1)]] triple_bind [OF d]
        triple_bind [OF keeps_triple [OF tidies_trial(1)]] keeps_triple [OF tidies_trial(1)])+
qed

lemma drop_keeps:
  assumes "winv mg cs w" and "recorded mg c w" and "fleet cs" and "c \<in> set cs"
  shows "winv mg cs (drop_worker (wk_id c) w) \<and> recorded mg c (drop_worker (wk_id c) w) \<and> absent c (drop_worker (wk_id c) w)"
proof -
  let ?d = "drop_worker (wk_id c)"
  have s: "shrunk w (?d w)" by (auto simp: shrunk_def drop_worker_def comp_def image_image)
  have f: "dw_files (?d w) = dw_files w" by (simp add: drop_worker_def)
  have n: "map dn_name (dw_networks (?d w)) = map dn_name (dw_networks w)" by (simp add: drop_worker_def)
  have x: "dw_workers (?d w) = filter (\<lambda>x. wk_id x \<noteq> wk_id c) (dw_workers w)" by (simp add: drop_worker_def)
  have "map_of (dw_files w) (record_file (wk_id c)) \<noteq> None" using assms(2) by (auto simp: recorded_def)
  with assms(1) gone_shrunk(5) [OF s] have "winv mg cs (?d w)"
    unfolding winv_def f n x by (auto simp: distinct_map_filter)
  with assms(2) show ?thesis by (auto simp: recorded_def absent_def f x)
qed

lemma removed_triple:
  assumes "fleet cs" and "c \<in> set cs"
  shows "triple (\<lambda>w. winv mg cs w \<and> recorded mg c w) (container_remove (wk_id c) force)
     (\<lambda>_ w. winv mg cs w \<and> recorded mg c w \<and> absent c w) (\<lambda>_ w. winv mg cs w \<and> recorded mg c w)"
proof -
  let ?P = "\<lambda>w. winv mg cs w \<and> recorded mg c w" and ?c = "wk_id c"
  let ?m = "dcall (bindIO (getIO (\<lambda>w. (list_ex (\<lambda>x. wk_id x = ?c) (dw_workers w), ?c \<in> set (dw_running w)))) (\<lambda>(there, running).
         bindIO (whenE (\<not> there) XNotFound) (\<lambda>_. bindIO (whenE (running \<and> \<not> force) XRunning) (\<lambda>_. updIO (drop_worker ?c)))))"
  have "triple ?P ?m (\<lambda>_ w. ?P w \<and> absent c w) (\<lambda>_. ?P)"
    by (rule triple_dcall) (use drop_keeps [OF _ _ assms] in \<open>auto intro!: tripleI simp: io_iffs\<close>)
  moreover have "container_remove ?c force = (\<lambda>w. case dw_faults w of Missing # fs \<Rightarrow> (Inl XNotFound, w\<lparr>dw_faults := fs\<rparr>) | _ \<Rightarrow> ?m w)"
    by (rule ext) (simp add: container_remove_def)
  ultimately show ?thesis by (auto simp: triple_def split: list.split dfault.split)
qed

lemma trial_error: "trial w = (Inl e, w') \<Longrightarrow> e = XFault"
  by (auto simp: trial_def dcall_def returnIO_def Let_def split: list.splits dfault.splits)

lemma inspect_none:
  assumes "container_inspect v w = (Inl XNotFound, w')"
  shows "v \<notin> wk_id ` set (dw_workers w')"
proof -
  let ?l = "\<lambda>w. filter (\<lambda>x. named v (wk_id x) (wk_name x)) (dw_workers w)"
  from assms trial_error obtain w1 where l: "(case ?l w1 of [] \<Rightarrow> throwIO XNotFound | [x] \<Rightarrow> returnIO x | _ \<Rightarrow> throwIO XAmbiguous) w1 = (Inl XNotFound, w')"
    by (auto simp: container_inspect_def io_iffs)
  then have "?l w1 = []" by (cases "?l w1" rule: remdups_adj.cases) auto
  moreover from this l have "w1 = w'" by simp
  ultimately show ?thesis by (auto simp: filter_empty_conv named_def)
qed

lemma confirmed_triple:
  assumes "fleet cs" and "c \<in> set cs"
  shows "triple (\<lambda>w. winv mg cs w \<and> recorded mg c w) (remove_confirmed k (wk_id c) force)
     (\<lambda>_ w. winv mg cs w \<and> recorded mg c w \<and> absent c w) (\<lambda>_. winv mg cs)"
proof (induction k)
  case 0
  show ?case by (simp add: triple_def)
next
  case (Suc k)
  let ?P = "\<lambda>w. winv mg cs w \<and> recorded mg c w" and ?c = "wk_id c"
  have i: "triple ?P (catchIO (container_inspect ?c)) (\<lambda>v w. ?P w \<and> (v = Inl XNotFound \<longrightarrow> absent c w)) (\<lambda>_. winv mg cs)"
  proof (rule triple_catch, rule tripleI)
    fix w x w' assume "?P w" and m: "container_inspect ?c w = (Inr x, w')"
    with keeps_both [OF followsD [OF tidies_inspect(1) m]] show "?P w' \<and> (Inr x = Inl XNotFound \<longrightarrow> absent c w')" by simp
  next
    fix w e w' assume "?P w" and m: "container_inspect ?c w = (Inl e, w')"
    with keeps_both [OF followsD [OF tidies_inspect(1) m]] inspect_none [of ?c w w']
    show "?P w' \<and> (Inl e = (Inl XNotFound :: clean_error + worker) \<longrightarrow> absent c w')" by (simp add: absent_def)
  qed
  have v: "triple (\<lambda>w. ?P w \<and> (v = Inl XNotFound \<longrightarrow> absent c w)) (case v of
       Inl e \<Rightarrow> whenE (e \<noteq> XNotFound) XUnconfirmed
     | Inr x \<Rightarrow> bindIO (whenE (wk_id x \<noteq> ?c \<or> lab (wk_labels x) ''managed'' \<noteq> ''true'') XOwnership) (\<lambda>_.
         bindIO (whenE (k = 0) XStillThere) (\<lambda>_. bindIO ctx_live (\<lambda>_. remove_confirmed k ?c force))))
     (\<lambda>_ w. ?P w \<and> absent c w) (\<lambda>_. winv mg cs)" for v
  proof (cases v)
    case (Inl e)
    then show ?thesis by (auto simp: triple_def whenE_def)
  next
    case (Inr x)
    have w: "triple ?P (whenE b e) (\<lambda>_. ?P) (\<lambda>_. winv mg cs)" for b e by (rule triple_when) auto
    have "triple ?P (bindIO (whenE (wk_id x \<noteq> ?c \<or> lab (wk_labels x) ''managed'' \<noteq> ''true'') XOwnership) (\<lambda>_.
         bindIO (whenE (k = 0) XStillThere) (\<lambda>_. bindIO ctx_live (\<lambda>_. remove_confirmed k ?c force)))) (\<lambda>_ w. ?P w \<and> absent c w) (\<lambda>_. winv mg cs)"
      by (rule triple_bind [OF w] triple_bind [OF keeps_triple [OF tidies_trial(2)]] Suc.IH [folded conj_assoc])+
    with Inr show ?thesis by simp
  qed
  have r: "triple (\<lambda>w. ?P w \<and> (r = Inr () \<longrightarrow> absent c w)) (case r of
     Inr _ \<Rightarrow> returnIO ()
   | Inl e \<Rightarrow> bindIO (whenE (e \<noteq> XNotFound) e) (\<lambda>_. bindIO (catchIO (container_inspect ?c)) (\<lambda>v. case v of
       Inl e \<Rightarrow> whenE (e \<noteq> XNotFound) XUnconfirmed
     | Inr x \<Rightarrow> bindIO (whenE (wk_id x \<noteq> ?c \<or> lab (wk_labels x) ''managed'' \<noteq> ''true'') XOwnership) (\<lambda>_.
         bindIO (whenE (k = 0) XStillThere) (\<lambda>_. bindIO ctx_live (\<lambda>_. remove_confirmed k ?c force))))))
     (\<lambda>_ w. ?P w \<and> absent c w) (\<lambda>_. winv mg cs)" for r
  proof (cases r)
    case (Inl e)
    have "triple ?P (whenE (e \<noteq> XNotFound) e) (\<lambda>_. ?P) (\<lambda>_. winv mg cs)" by (rule triple_when) auto
    then have "triple ?P (bindIO (whenE (e \<noteq> XNotFound) e) (\<lambda>_. bindIO (catchIO (container_inspect ?c)) (\<lambda>v. case v of
       Inl e \<Rightarrow> whenE (e \<noteq> XNotFound) XUnconfirmed
     | Inr x \<Rightarrow> bindIO (whenE (wk_id x \<noteq> ?c \<or> lab (wk_labels x) ''managed'' \<noteq> ''true'') XOwnership) (\<lambda>_.
         bindIO (whenE (k = 0) XStillThere) (\<lambda>_. bindIO ctx_live (\<lambda>_. remove_confirmed k ?c force))))))
       (\<lambda>_ w. ?P w \<and> absent c w) (\<lambda>_. winv mg cs)"
      by (rule triple_bind [OF _ triple_bind [OF i v]])
    with Inl show ?thesis by (simp only: sum.case) (rule triple_pre, assumption, simp)
  qed (auto simp: triple_def)
  have "triple ?P (catchIO (container_remove ?c force)) (\<lambda>r w. ?P w \<and> (r = Inr () \<longrightarrow> absent c w)) (\<lambda>_. winv mg cs)"
    by (rule triple_catch, rule triple_post [OF removed_triple [OF assms]]) auto
  from triple_bind [OF this r] show ?case by (simp only: remove_confirmed.simps conj_assoc)
qed

lemma gone_tidy:
  assumes "tidy w w'"
  shows "token_gone mg c w \<Longrightarrow> token_gone mg c w'" "network_gone mg c w \<Longrightarrow> network_gone mg c w'" "tree_gone c w \<Longrightarrow> tree_gone c w'"
    "absent c w \<Longrightarrow> absent c w'" "released mg c w \<Longrightarrow> released mg c w'"
  using gone_shrunk [of w w'] assms by (auto simp: tidy_def)

definition pending :: "manager \<Rightarrow> worker list \<Rightarrow> worker \<Rightarrow> bool \<Rightarrow> bool \<Rightarrow> bool \<Rightarrow> dock \<Rightarrow> bool" where
  "pending mg cs c t n g w \<longleftrightarrow> winv mg cs w \<and> recorded mg c w \<and> absent c w \<and>
     (t \<longrightarrow> token_gone mg c w) \<and> (n \<longrightarrow> network_gone mg c w) \<and> (g \<longrightarrow> tree_gone c w)"

lemma pending_tidy: "tidy w w' \<Longrightarrow> pending mg cs c t n g w \<Longrightarrow> pending mg cs c t n g w'"
  unfolding pending_def using keeps_both [of w w' mg cs c] gone_tidy [of w w'] by blast

lemma pending_winv: "pending mg cs c t n g w \<Longrightarrow> winv mg cs w"
  by (simp add: pending_def)

lemma pending_fact:
  assumes "follows tidy m" and "\<And>w x w'. winv mg cs w \<Longrightarrow> m w = (Inr x, w') \<Longrightarrow> B x w'"
  shows "triple (pending mg cs c t n g) m (\<lambda>x w. pending mg cs c t n g w \<and> B x w) (\<lambda>_. winv mg cs)"
  by (rule tidy_fact [OF assms(1) pending_tidy]) (use assms(2) pending_winv in blast)+

lemma pending_keeps:
  assumes "follows tidy m"
  shows "triple (pending mg cs c t n g) m (\<lambda>_. pending mg cs c t n g) (\<lambda>_. winv mg cs)"
  by (rule triple_post [OF pending_fact [OF assms, where B = "\<lambda>_ _. True"]]) auto

lemma forget_triple:
  assumes "cr_id r = wk_id c" and "fleet cs" and "c \<in> set cs"
  shows "triple (pending mg cs c True True True)
    (dcall (bindIO (getIO (\<lambda>w. map_of (dw_files w) (record_file (cr_id r)))) (\<lambda>f. bindIO (whenE (f = None) XNoFile) (\<lambda>_.
       updIO (\<lambda>w. w\<lparr>dw_files := AList.delete (record_file (cr_id r)) (dw_files w)\<rparr>)))))
    (\<lambda>_ w. winv mg cs w \<and> released mg c w) (\<lambda>_. winv mg cs)"
proof (rule triple_dcall)
  let ?f = "\<lambda>w. w\<lparr>dw_files := AList.delete (record_file (cr_id r)) (dw_files w)\<rparr>"
  have u: "winv mg cs (?f w) \<and> released mg c (?f w)" if "pending mg cs c True True True w" for w
  proof -
    have w: "winv mg cs w" and x: "released mg c w" using that by (auto simp: pending_def released_def)
    have o: "d \<in> set cs \<Longrightarrow> record_file (wk_id d) = record_file (cr_id r) \<Longrightarrow> released mg d w" for d
      using x fleet_id [OF assms(2) _ assms(3), of d] assms(1) by simp
    have "winv mg cs (?f w)"
      using w o unfolding winv_def by (auto simp: AList.delete_conv' split: if_splits)
    with x show ?thesis by simp
  qed
  then show "triple (pending mg cs c True True True)
    (bindIO (getIO (\<lambda>w. map_of (dw_files w) (record_file (cr_id r)))) (\<lambda>f. bindIO (whenE (f = None) XNoFile) (\<lambda>_. updIO ?f)))
    (\<lambda>_ w. winv mg cs w \<and> released mg c w) (\<lambda>_. winv mg cs)"
    by (intro tripleI) (auto simp: io_iffs dest: pending_winv)
qed (simp_all add: pending_def absent_def token_gone_def network_gone_def tree_gone_def)

lemma locked_triple:
  assumes "fleet cs" and "c \<in> set cs" and "matches mg c r0"
  shows "triple (winv mg cs) (remove_locked mg r0 force) (\<lambda>_ w. winv mg cs w \<and> released mg c w) (\<lambda>_. winv mg cs)"
proof -
  have id: "cr_id r0 = wk_id c" using assms(3) by (rule matches_fields)
  have rd: "triple (winv mg cs) (catchIO (read_cleanup mg (cr_id r0))) (\<lambda>v w. winv mg cs w \<and> (\<forall>s. v = Inr s \<longrightarrow> matches mg c s)) (\<lambda>_. winv mg cs)"
  proof (rule triple_catch, rule tripleI)
    fix w s w' assume w: "winv mg cs w" and m: "read_cleanup mg (cr_id r0) w = (Inr s, w')"
    from read_matches [OF w assms(1,2) m [unfolded id]] winv_tidy [OF w followsD [OF tidies_read m]]
    show "winv mg cs w' \<and> (\<forall>t. Inr s = (Inr t :: clean_error + cleanup_record) \<longrightarrow> matches mg c t)" by simp
  next
    fix w e w' assume w: "winv mg cs w" and m: "read_cleanup mg (cr_id r0) w = (Inl e, w')"
    from winv_tidy [OF w followsD [OF tidies_read m]]
    show "winv mg cs w' \<and> (\<forall>t. Inl e = (Inr t :: clean_error + cleanup_record) \<longrightarrow> matches mg c t)" by simp
  qed
  have pick: "triple (\<lambda>w. winv mg cs w \<and> (\<forall>s. v = Inr s \<longrightarrow> matches mg c s))
     (case v of Inr s \<Rightarrow> returnIO (s\<lparr>cr_force := cr_force s \<or> force\<rparr>) | Inl e \<Rightarrow> bindIO (whenE (e \<noteq> XNoFile) e) (\<lambda>_. returnIO r0))
     (\<lambda>r w. winv mg cs w \<and> matches mg c r) (\<lambda>_. winv mg cs)" for v
    using assms(3) by (cases v) (auto simp: triple_def whenE_def bindIO_def)
  have rest: "triple (winv mg cs) (bindIO (write_cleanup mg r) (\<lambda>_.
     bindIO (remove_confirmed 3 (cr_id r) (cr_force r)) (\<lambda>_.
     bindIO (catchIO (revoke_worker_token mg (record_inspection r))) (\<lambda>revoked.
     bindIO (release_resources mg r) (\<lambda>_.
     bindIO (cleanup_worktree (record_inspection r)) (\<lambda>_.
     bindIO (case revoked of Inl _ \<Rightarrow> throwIO XRevoke | Inr _ \<Rightarrow> returnIO ()) (\<lambda>_.
     bindIO (state_directory mg) (\<lambda>_.
     bindIO (dcall (bindIO (getIO (\<lambda>w. map_of (dw_files w) (record_file (cr_id r)))) (\<lambda>f. bindIO (whenE (f = None) XNoFile) (\<lambda>_.
       updIO (\<lambda>w. w\<lparr>dw_files := AList.delete (record_file (cr_id r)) (dw_files w)\<rparr>))))) (\<lambda>_.
     bindIO trial (\<lambda>_. trial))))))))))
     (\<lambda>_ w. winv mg cs w \<and> released mg c w) (\<lambda>_. winv mg cs)" if m: "matches mg c r" for r
  proof -
    have id: "cr_id r = wk_id c" using m by (rule matches_fields)
    have x: "wk_name (record_inspection r) = wk_name c" "worker_placeholder (record_inspection r) = worker_placeholder c"
      "lab (wk_labels (record_inspection r)) ''worktree'' = lab (wk_labels c) ''worktree''"
      using m inspection_placeholder matches_fields by (simp_all add: record_inspection_def)
    have c: "triple (\<lambda>w. winv mg cs w \<and> recorded mg c w) (remove_confirmed 3 (cr_id r) (cr_force r))
       (\<lambda>_. pending mg cs c False False False) (\<lambda>_. winv mg cs)"
      unfolding id by (rule triple_post [OF confirmed_triple [OF assms(1,2)]]) (auto simp: pending_def)
    have t: "triple (pending mg cs c False False False) (catchIO (revoke_worker_token mg (record_inspection r)) :: (clean_error, unit) result wio)
       (\<lambda>v. pending mg cs c (v = Inr ()) False False) (\<lambda>_. winv mg cs)"
      by (rule triple_post [OF pending_fact [where B = "\<lambda>v w. v = Inr () \<longrightarrow> token_gone mg c w"]])
        (use revoke_gone x in \<open>auto simp: pending_def catchIO_iff\<close>)
    have n: "triple (pending mg cs c b False False) (release_resources mg r) (\<lambda>_. pending mg cs c b True False) (\<lambda>_. winv mg cs)" for b
      by (rule triple_post [OF pending_fact [where B = "\<lambda>_. network_gone mg c"]])
        (use resources_gone [OF _ m] in \<open>auto simp: pending_def winv_def\<close>)
    have g: "triple (pending mg cs c b True False) (cleanup_worktree (record_inspection r)) (\<lambda>_. pending mg cs c b True True) (\<lambda>_. winv mg cs)" for b
      by (rule triple_post [OF pending_fact [where B = "\<lambda>_. tree_gone c"]])
        (use worktree_gone x in \<open>auto simp: pending_def\<close>)
    have o: "triple (pending mg cs c (v = Inr ()) True True) (case v of Inl _ \<Rightarrow> throwIO XRevoke | Inr _ \<Rightarrow> returnIO ())
       (\<lambda>_. pending mg cs c True True True) (\<lambda>_. winv mg cs)" for v :: "(clean_error, unit) result"
      by (cases v) (auto simp: triple_def pending_def)
    have k: "triple (\<lambda>w. winv mg cs w \<and> released mg c w) trial (\<lambda>_ w. winv mg cs w \<and> released mg c w) (\<lambda>_. winv mg cs)"
      by (rule triple_post [OF tidy_triple [OF tidies_trial(1), of "\<lambda>w. winv mg cs w \<and> released mg c w"]])
        (use winv_tidy gone_tidy(5) in auto)
    show ?thesis
      by (rule triple_bind [OF write_triple [OF assms(2) m]] triple_bind [OF c] triple_bind [OF t] triple_bind [OF n] triple_bind [OF g]
        triple_bind [OF o] triple_bind [OF pending_keeps [OF tidies_directory]] triple_bind [OF forget_triple [OF id assms(1,2)]] triple_bind [OF k] k)+
  qed
  have "triple (\<lambda>w. winv mg cs w \<and> matches mg c r) m S (\<lambda>_. winv mg cs)" if "matches mg c r \<Longrightarrow> triple (winv mg cs) m S (\<lambda>_. winv mg cs)" for r S and m :: "unit wio"
    using that by (auto simp: triple_def)
  from triple_bind [OF rd triple_bind [OF pick this [OF rest]]] show ?thesis
    unfolding remove_locked_def by simp
qed

end
