(* ===== verification/WorkerRuns.thy ===== *)
theory WorkerRuns
  imports WorkerRemoval
begin

text \<open>
  Runs: removals that begin and finish in any order, with stops, quarantines, reaping, restarts and attached peers
  in between, under any schedule of failing calls.
\<close>

section \<open>Removals as a whole\<close>

lemma inspect_worker:
  "container_inspect v w = (Inr x, w') \<Longrightarrow> x \<in> set (dw_workers w) \<and> named v (wk_id x) (wk_name x) \<and> dw_workers w' = dw_workers w"
proof -
  assume m: "container_inspect v w = (Inr x, w')"
  let ?l = "\<lambda>w. filter (\<lambda>x. named v (wk_id x) (wk_name x)) (dw_workers w)"
  from m obtain w1 where t: "trial w = (Inr (), w1)" and
    l: "(case ?l w1 of [] \<Rightarrow> throwIO XNotFound | [x] \<Rightarrow> returnIO x | _ \<Rightarrow> throwIO XAmbiguous) w1 = (Inr x, w')"
    by (auto simp: container_inspect_def io_iffs)
  from l have "?l w1 = [x] \<and> w' = w1" by (cases "?l w1" rule: remdups_adj.cases) auto
  then have "set (?l w1) = {x}" by simp
  moreover have "dw_workers w1 = dw_workers w" using trial_state [OF t] by auto
  ultimately show ?thesis using \<open>?l w1 = [x] \<and> w' = w1\<close> by auto
qed

lemma read_all_read:
  assumes "read_all mg fs w = (Inr rs, w')" and "r \<in> set rs"
  shows "\<exists>cid w1 w2. tidy w w1 \<and> read_cleanup mg cid w1 = (Inr r, w2)"
  using assms
proof (induction fs arbitrary: w rs)
  case (Cons f fs)
  show ?case
  proof (cases "suffix ''.json'' f")
    case False
    with Cons.prems Cons.IH show ?thesis by simp
  next
    case True
    with Cons.prems(1) obtain s w1 ss where s: "read_cleanup mg (trim_suffix f ''.json'') w = (Inr s, w1)"
      "read_all mg fs w1 = (Inr ss, w')" "rs = s # ss" by (auto simp: io_iffs)
    show ?thesis
    proof (cases "r = s")
      case True
      with s(1) show ?thesis using tidy_refl by blast
    next
      case False
      with Cons.IH [OF s(2)] Cons.prems(2) s(3) tidy_trans [OF followsD [OF tidies_read s(1)]] show ?thesis by force
    qed
  qed
qed simp

lemma read_file_id: "read_cleanup mg cid w = (Inr r, w') \<Longrightarrow> cr_id r = cid"
  by (auto simp: read_cleanup_def io_iffs split: option.splits)

lemma pending_read:
  assumes "winv mg cs w" and "fleet cs" and "pending_cleanup mg w = (Inr rs, w')" and "r \<in> set rs"
  shows "\<exists>c \<in> set cs. matches mg c r"
proof -
  from assms(3) obtain w1 w2 where d: "state_directory mg w = (Inr (), w1)" "trial w1 = (Inr (), w2)" "read_all mg (map fst (dw_files w2)) w2 = (Inr rs, w')"
    by (auto simp: pending_cleanup_def io_iffs)
  have t: "tidy w w2" using followsD [OF tidies_directory d(1)] followsD [OF tidies_trial(1) d(2)] by (rule tidy_trans)
  from read_all_read [OF d(3) assms(4)] obtain cid w3 w4 where r: "tidy w2 w3" "read_cleanup mg cid w3 = (Inr r, w4)" by blast
  have w3: "winv mg cs w3" using winv_tidy [OF assms(1) tidy_trans [OF t r(1)]] .
  from read_file [OF r(2)] obtain f where f: "map_of (dw_files w3) (record_file cid) = Some f" "cf_doc f = Some r" by blast
  with w3 show ?thesis by (fastforce simp: winv_def)
qed

lemma find_read:
  assumes "winv mg cs w" and "fleet cs" and "find_cleanup mg v w = (Inr r, w')"
  shows "\<exists>c \<in> set cs. matches mg c r \<and> named v (wk_id c) (wk_name c)"
proof -
  let ?l = "filter (\<lambda>r. named v (cr_id r) (cr_name r))"
  from assms(3) obtain rs w1 where p: "pending_cleanup mg w = (Inr rs, w1)" and
    l: "(case ?l rs of [] \<Rightarrow> throwIO XNotFound | [r] \<Rightarrow> returnIO r | _ \<Rightarrow> throwIO XAmbiguous) w1 = (Inr r, w')"
    by (auto simp: find_cleanup_def io_iffs)
  from l have "?l rs = [r]" by (cases "?l rs" rule: remdups_adj.cases) auto
  then have "set (?l rs) = {r}" by simp
  then have "r \<in> set rs" "named v (cr_id r) (cr_name r)" by auto
  with pending_read [OF assms(1,2) p] matches_fields(1,2) show ?thesis by metis
qed

lemma removal_record_matches:
  assumes "winv mg cs w" and "fleet cs" and "removal_record mg v force w = (Inr r, w')"
  shows "\<exists>c \<in> set cs. matches mg c r \<and> named v (wk_id c) (wk_name c)"
proof -
  from assms(3) obtain x w1 where i: "container_inspect v w = (x, w1)" and
    r: "(case x of Inl e \<Rightarrow> bindIO (whenE (e \<noteq> XNotFound) e) (\<lambda>_. find_cleanup mg v)
   | Inr x \<Rightarrow> bindIO (whenE (lab (wk_labels x) ''managed'' \<noteq> ''true'') XUnmanaged) (\<lambda>_. returnIO (record_of mg x force))) w1 = (Inr r, w')"
    by (auto simp: removal_record_def io_iffs)
  have w1: "winv mg cs w1" by (rule winv_tidy [OF assms(1) followsD [OF tidies_inspect(1) i]])
  show ?thesis
  proof (cases x)
    case (Inl e)
    with r find_read [OF w1 assms(2)] show ?thesis by (auto simp: io_iffs)
  next
    case (Inr y)
    with r have "r = record_of mg y force" by (auto simp: io_iffs)
    moreover have "y \<in> set cs" "named v (wk_id y) (wk_name y)" using inspect_worker [OF i [unfolded Inr]] assms(1) by (auto simp: winv_def)
    ultimately show ?thesis by (metis matches_record)
  qed
qed

lemma begun_triple:
  assumes "fleet cs" and "c \<in> set cs" and "matches mg c r"
  shows "triple (winv mg cs) (bindIO (lock_cleanup mg (cr_id r)) (\<lambda>_. remove_locked mg r force)) (\<lambda>_ w. winv mg cs w \<and> released mg c w) (\<lambda>_. winv mg cs)"
  using tidy_triple [OF tidies_lock, of "winv mg cs" mg "cr_id r"] winv_tidy locked_triple [OF assms]
  by (auto intro: triple_bind)

lemma durable_triple:
  assumes "fleet cs"
  shows "triple (winv mg cs) (remove_durably mg v force) (\<lambda>_ w. winv mg cs w \<and> (\<exists>c \<in> set cs. named v (wk_id c) (wk_name c) \<and> released mg c w)) (\<lambda>_. winv mg cs)"
proof -
  have r: "triple (winv mg cs) (removal_record mg v force) (\<lambda>r w. winv mg cs w \<and> (\<exists>c \<in> set cs. matches mg c r \<and> named v (wk_id c) (wk_name c))) (\<lambda>_. winv mg cs)"
    by (rule tripleI) (use winv_tidy followsD [OF tidies_removal_record] removal_record_matches [OF _ assms] in blast)+
  have b: "triple (\<lambda>w. winv mg cs w \<and> (\<exists>c \<in> set cs. matches mg c r \<and> named v (wk_id c) (wk_name c)))
     (bindIO (lock_cleanup mg (cr_id r)) (\<lambda>_. remove_locked mg r force))
     (\<lambda>_ w. winv mg cs w \<and> (\<exists>c \<in> set cs. named v (wk_id c) (wk_name c) \<and> released mg c w)) (\<lambda>_. winv mg cs)" for r
  proof (rule tripleI)
    fix w x w' assume p: "winv mg cs w \<and> (\<exists>c \<in> set cs. matches mg c r \<and> named v (wk_id c) (wk_name c))"
      and m: "bindIO (lock_cleanup mg (cr_id r)) (\<lambda>_. remove_locked mg r force) w = (Inr x, w')"
    then obtain c where c: "c \<in> set cs" "matches mg c r" "named v (wk_id c) (wk_name c)" by blast
    from triple_Inr [OF begun_triple [OF assms c(1,2)] _ m] p c
    show "winv mg cs w' \<and> (\<exists>c \<in> set cs. named v (wk_id c) (wk_name c) \<and> released mg c w')" by blast
  next
    fix w e w' assume p: "winv mg cs w \<and> (\<exists>c \<in> set cs. matches mg c r \<and> named v (wk_id c) (wk_name c))"
      and m: "bindIO (lock_cleanup mg (cr_id r)) (\<lambda>_. remove_locked mg r force) w = (Inl e, w')"
    then obtain c where c: "c \<in> set cs" "matches mg c r" by blast
    from triple_Inl [OF begun_triple [OF assms c] _ m] p show "winv mg cs w'" by blast
  qed
  from triple_bind [OF r b] show ?thesis unfolding remove_durably_def .
qed

lemma durable_keeps: "fleet cs \<Longrightarrow> triple (winv mg cs) (remove_durably mg v force) (\<lambda>_. winv mg cs) (\<lambda>_. winv mg cs)"
  by (rule triple_post [OF durable_triple]) auto

lemma tidy_keeps: "follows tidy m \<Longrightarrow> triple (winv mg cs) m (\<lambda>_. winv mg cs) (\<lambda>_. winv mg cs)"
  by (rule tidy_triple) (auto intro: winv_tidy)

lemma retry_each_keeps: "fleet cs \<Longrightarrow> triple (winv mg cs) (retry_each mg force rs) (\<lambda>_. winv mg cs) (\<lambda>_. winv mg cs)"
proof (induction rs)
  case (Cons r rs)
  have u: "triple (winv mg cs) (returnIO y :: bool wio) (\<lambda>_. winv mg cs) (\<lambda>_. winv mg cs)" for y by (rule tidy_keeps) auto
  have "triple (winv mg cs) (catchIO (remove_durably mg (cr_id r) (force \<or> cr_force r))) (\<lambda>_. winv mg cs) (\<lambda>_. winv mg cs)"
    by (rule triple_catch) (rule durable_keeps [OF Cons.prems])
  from triple_bind [OF this triple_bind [OF Cons.IH [OF Cons.prems] u]] show ?case by simp
qed (auto intro: tidy_keeps)

lemma retry_keeps: "fleet cs \<Longrightarrow> triple (winv mg cs) (retry_cleanup mg force) (\<lambda>_. winv mg cs) (\<lambda>_. winv mg cs)"
  unfolding retry_cleanup_def
  by (rule triple_bind [OF tidy_keeps [OF tidies_find(1)]], rule triple_bind [OF retry_each_keeps], assumption, rule tidy_keeps, auto)

lemma by_name_keeps:
  assumes "fleet cs"
  shows "triple (winv mg cs) (remove_by_name mg v force) (\<lambda>_. winv mg cs) (\<lambda>_. winv mg cs)"
proof -
  have "triple (winv mg cs) (catchIO (resolve_id v) :: (clean_error, string) result wio) (\<lambda>_. winv mg cs) (\<lambda>_. winv mg cs)"
    by (rule tidy_keeps) auto
  moreover have "triple (winv mg cs) (case x of Inr i \<Rightarrow> remove_durably mg i force
     | Inl e \<Rightarrow> bindIO (find_cleanup mg v) (\<lambda>r. remove_durably mg (cr_id r) force)) (\<lambda>_. winv mg cs) (\<lambda>_. winv mg cs)" for x :: "(clean_error, string) result"
    by (cases x) (simp_all add: durable_keeps [OF assms] triple_bind [OF tidy_keeps [OF tidies_find(2)] durable_keeps [OF assms]])
  ultimately show ?thesis unfolding remove_by_name_def by (rule triple_bind)
qed

lemma reap_keeps:
  assumes "fleet cs"
  shows "triple (winv mg cs) (reap_act mg active cid d) (\<lambda>_. winv mg cs) (\<lambda>_. winv mg cs)"
proof -
  have u: "triple (winv mg cs) (returnIO y :: bool wio) (\<lambda>_. winv mg cs) (\<lambda>_. winv mg cs)" for y by (rule tidy_keeps) auto
  show ?thesis unfolding reap_act_def
    using u triple_bind [OF durable_keeps [OF assms] u] triple_bind [OF tidy_keeps [OF tidies_stop_context] u]
      tidy_keeps [OF tidies_stop_idle]
    by (cases d) simp_all
qed

section \<open>Runs\<close>

text \<open>
  What happens to the dock: a removal reads the worker or its record (\<open>WBegin\<close>) and later takes the lock and goes on
  (\<open>WFinish\<close>, the removals under way being numbered), so that others run in between; what the host and the other
  clients do; and the schedule of failing calls, contended locks and cancellations.
\<close>

datatype wevent =
    WBegin string bool
  | WFinish nat
  | WRemove string bool
  | WRetry bool
  | WStop string
  | WQuarantine string
  | WReap bool string reaping
  | WRunning "string list"
  | WAttach string string string
  | WSchedule "dfault list" nat "bool list"

fun worker_step :: "manager \<Rightarrow> wevent \<Rightarrow> dock \<times> (cleanup_record \<times> bool) list \<Rightarrow> dock \<times> (cleanup_record \<times> bool) list" where
  "worker_step mg (WBegin v force) (w, ps) = (case removal_record mg v force w of
     (Inl e, w') \<Rightarrow> (w', ps) | (Inr r, w') \<Rightarrow> (w', ps @ [(r, force)]))"
| "worker_step mg (WFinish i) (w, ps) = (if i < length ps then
     (case ps ! i of (r, force) \<Rightarrow> (snd (bindIO (lock_cleanup mg (cr_id r)) (\<lambda>_. remove_locked mg r force) w), take i ps @ drop (Suc i) ps))
     else (w, ps))"
| "worker_step mg (WRemove v force) (w, ps) = (snd (remove_by_name mg v force w), ps)"
| "worker_step mg (WRetry force) (w, ps) = (snd (retry_cleanup mg force w), ps)"
| "worker_step mg (WStop v) (w, ps) = (snd (stop_context mg v w), ps)"
| "worker_step mg (WQuarantine v) (w, ps) = (snd (quarantine_context mg v w), ps)"
| "worker_step mg (WReap active cid d) (w, ps) = (snd (reap_act mg active cid d w), ps)"
| "worker_step mg (WRunning is) (w, ps) = (w\<lparr>dw_running := is\<rparr>, ps)"
| "worker_step mg (WAttach nid i a) (w, ps) =
     (w\<lparr>dw_networks := map (\<lambda>n. if dn_id n = nid then n\<lparr>dn_peers := (i, a) # dn_peers n\<rparr> else n) (dw_networks w)\<rparr>, ps)"
| "worker_step mg (WSchedule fs n live) (w, ps) = (w\<lparr>dw_faults := fs, dw_contended := n, dw_live := live\<rparr>, ps)"

definition worker_run :: "manager \<Rightarrow> wevent list \<Rightarrow> dock \<times> (cleanup_record \<times> bool) list \<Rightarrow> dock \<times> (cleanup_record \<times> bool) list" where
  "worker_run mg es s = fold (worker_step mg) es s"

definition run_inv :: "manager \<Rightarrow> worker list \<Rightarrow> dock \<times> (cleanup_record \<times> bool) list \<Rightarrow> bool" where
  "run_inv mg cs s \<longleftrightarrow> winv mg cs (fst s) \<and> (\<forall>(r, force) \<in> set (snd s). \<exists>c \<in> set cs. matches mg c r)"

lemma keeps_snd: "triple (winv mg cs) m (\<lambda>_. winv mg cs) (\<lambda>_. winv mg cs) \<Longrightarrow> winv mg cs w \<Longrightarrow> winv mg cs (snd (m w))"
  by (rule triple_snd)

lemma Ball_mono: "\<forall>x \<in> A. P x \<Longrightarrow> B \<subseteq> A \<Longrightarrow> \<forall>x \<in> B. P x"
  by (auto dest: subsetD)

lemma step_inv:
  assumes "fleet cs" and "run_inv mg cs s"
  shows "run_inv mg cs (worker_step mg e s)"
proof -
  obtain w ps where s: "s = (w, ps)" by (cases s)
  have w: "winv mg cs w" and p: "\<forall>(r, force) \<in> set ps. \<exists>c \<in> set cs. matches mg c r" using assms(2) by (auto simp: run_inv_def s)
  have k: "run_inv mg cs (snd (m w), ps)" if "triple (winv mg cs) m (\<lambda>_. winv mg cs) (\<lambda>_. winv mg cs)" for m :: "'a wio"
    using keeps_snd [OF that w] p by (simp add: run_inv_def)
  have t: "run_inv mg cs (w', ps)" if "tidy w w'" for w' using winv_tidy [OF w that] p by (simp add: run_inv_def)
  show ?thesis unfolding s
  proof (cases e)
    case (WBegin v force)
    obtain x w' where m: "removal_record mg v force w = (x, w')" by (cases "removal_record mg v force w")
    have w': "winv mg cs w'" by (rule winv_tidy [OF w followsD [OF tidies_removal_record m]])
    show "run_inv mg cs (worker_step mg e (w, ps))"
    proof (cases x)
      case (Inl err)
      with m w' p WBegin show ?thesis by (simp add: run_inv_def)
    next
      case (Inr r)
      with removal_record_matches [OF w assms(1) m [unfolded Inr]] m w' p WBegin show ?thesis by (auto simp: run_inv_def)
    qed
  next
    case (WFinish i)
    show "run_inv mg cs (worker_step mg e (w, ps))"
    proof (cases "i < length ps")
      case False
      with WFinish assms(2) s show ?thesis by simp
    next
      case True
      obtain r force where r: "ps ! i = (r, force)" by (cases "ps ! i")
      from bspec [OF p nth_mem [OF True]] r obtain c where c: "c \<in> set cs" "matches mg c r" by auto
      have q: "triple (winv mg cs) (bindIO (lock_cleanup mg (cr_id r)) (\<lambda>_. remove_locked mg r force)) (\<lambda>_. winv mg cs) (\<lambda>_. winv mg cs)"
        by (rule triple_post [OF begun_triple [OF assms(1) c]]) auto
      have "set (take i ps @ drop (Suc i) ps) \<subseteq> set ps" by (auto dest: in_set_takeD in_set_dropD)
      with p have d: "\<forall>(r, force) \<in> set (take i ps @ drop (Suc i) ps). \<exists>c \<in> set cs. matches mg c r" by (rule Ball_mono)
      have e: "worker_step mg e (w, ps) = (snd (bindIO (lock_cleanup mg (cr_id r)) (\<lambda>_. remove_locked mg r force) w), take i ps @ drop (Suc i) ps)"
        using True r WFinish by simp
      show ?thesis unfolding e run_inv_def fst_conv snd_conv using keeps_snd [OF q w] d by (rule conjI)
    qed
  next
    case (WRemove v force)
    then show "run_inv mg cs (worker_step mg e (w, ps))" using k [OF by_name_keeps [OF assms(1)]] by simp
  next
    case (WRetry force)
    then show "run_inv mg cs (worker_step mg e (w, ps))" using k [OF retry_keeps [OF assms(1)]] by simp
  next
    case (WStop v)
    then show "run_inv mg cs (worker_step mg e (w, ps))" using k [OF tidy_keeps [OF tidies_stop_context]] by simp
  next
    case (WQuarantine v)
    then show "run_inv mg cs (worker_step mg e (w, ps))" using k [OF tidy_keeps [OF tidies_quarantine]] by simp
  next
    case (WReap active cid d)
    then show "run_inv mg cs (worker_step mg e (w, ps))" using k [OF reap_keeps [OF assms(1)]] by simp
  next
    case (WRunning ids)
    then show "run_inv mg cs (worker_step mg e (w, ps))" using t by simp
  next
    case (WAttach nid i a)
    then show "run_inv mg cs (worker_step mg e (w, ps))"
      by (simp, intro t) (auto simp: tidy_def shrunk_def comp_def if_distrib [of dn_name] cong: if_cong)
  next
    case (WSchedule fs n live)
    then show "run_inv mg cs (worker_step mg e (w, ps))" by (simp, intro t) (simp add: tidy_def)
  qed
qed

text \<open>Nothing in a run gives a worker, a token, a network, an allocation or a worktree.\<close>

lemmas shrinks_tidies [simp, intro] = tidies_inspect [THEN tidies_shrinks] tidies_trial [THEN tidies_shrinks] tidies_find [THEN tidies_shrinks]
  tidies_resolve [THEN tidies_shrinks] tidies_lock [THEN tidies_shrinks] tidies_removal_record [THEN tidies_shrinks]
  tidies_stop_context [THEN tidies_shrinks] tidies_stop_idle [THEN tidies_shrinks] tidies_quarantine [THEN tidies_shrinks]

lemma shrinks_remove [simp, intro]: "follows shrunk (container_remove c f)"
proof -
  let ?m = "dcall (bindIO (getIO (\<lambda>w. (list_ex (\<lambda>x. wk_id x = c) (dw_workers w), c \<in> set (dw_running w)))) (\<lambda>(there, running).
         bindIO (whenE (\<not> there) XNotFound) (\<lambda>_. bindIO (whenE (running \<and> \<not> f) XRunning) (\<lambda>_. updIO (drop_worker c)))))"
  have "follows shrunk ?m"
    by (auto intro!: follows_upd simp: shrunk_def drop_worker_def comp_def if_distrib [of dn_name] cong: if_cong split: prod.split)
  then show ?thesis unfolding container_remove_def follows_def by (auto split: list.split dfault.split)
qed

lemma shrinks_write [simp, intro]: "follows shrunk (write_cleanup mg r)"
  unfolding write_cleanup_def by (auto intro: tidies_shrinks intro!: follows_upd)

lemma shrinks_confirmed [simp, intro]: "follows shrunk (remove_confirmed n c f)"
  by (induction n) (auto split: sum.split)

lemma shrinks_locked [simp, intro]: "follows shrunk (remove_locked mg r f)" "follows shrunk (bindIO (lock_cleanup mg d) (\<lambda>_. remove_locked mg r f))"
proof -
  show "follows shrunk (remove_locked mg r f)" unfolding remove_locked_def
    by (auto intro: tidies_shrinks intro!: follows_upd split: sum.split)
  then show "follows shrunk (bindIO (lock_cleanup mg d) (\<lambda>_. remove_locked mg r f))" by (auto intro: tidies_shrinks)
qed

lemma shrinks_durably [simp, intro]: "follows shrunk (remove_durably mg v f)"
  unfolding remove_durably_def by (auto intro: tidies_shrinks)

lemma shrinks_each [simp, intro]: "follows shrunk (retry_each mg f rs)"
  by (induction rs) auto

lemma shrinks_retry [simp, intro]: "follows shrunk (retry_cleanup mg f)" "follows shrunk (remove_by_name mg v f)"
  unfolding retry_cleanup_def remove_by_name_def by (auto split: sum.split)

lemma shrinks_reap [simp, intro]: "follows shrunk (reap_act mg active cid d)"
  unfolding reap_act_def by (auto split: reaping.split)

lemma follows_snd: "follows R m \<Longrightarrow> R w (snd (m w))"
  by (simp add: follows_def)

lemma step_shrinks: "shrunk (fst s) (fst (worker_step mg e s))"
proof -
  obtain w ps where s: "s = (w, ps)" by (cases s)
  show ?thesis unfolding s
  proof (cases e)
    case (WBegin v f)
    have "shrunk w (snd (removal_record mg v f w))" by (rule follows_snd) simp
    with WBegin show "shrunk (fst (w, ps)) (fst (worker_step mg e (w, ps)))" by (cases "removal_record mg v f w") (auto split: sum.split)
  next
    case (WFinish i)
    with follows_snd [OF shrinks_locked(2)] show "shrunk (fst (w, ps)) (fst (worker_step mg e (w, ps)))" by (simp split: prod.split)
  next
    case (WAttach nid i a)
    then show "shrunk (fst (w, ps)) (fst (worker_step mg e (w, ps)))"
      by (simp add: shrunk_def comp_def if_distrib [of dn_name] cong: if_cong) auto
  qed (simp_all add: follows_snd)
qed

lemma run_shrinks: "shrunk (fst s) (fst (worker_run mg es s))"
  unfolding worker_run_def
proof (induction es arbitrary: s)
  case (Cons e es)
  from shrunk_trans [OF step_shrinks Cons.IH] show ?case by simp
qed simp

lemma run_keeps: "fleet cs \<Longrightarrow> run_inv mg cs s \<Longrightarrow> run_inv mg cs (worker_run mg es s)"
  unfolding worker_run_def by (induction es arbitrary: s) (simp_all add: step_inv)


lemma start_inv:
  assumes "dw_workers w = cs" and "fleet cs" and "dw_files w = []" and "distinct (map dn_name (dw_networks w))"
  shows "run_inv mg cs (w, [])"
  using assms by (auto simp: run_inv_def winv_def fleet_def)

end
