(* ===== verification/WorkerGuards.thy ===== *)
theory WorkerGuards
  imports WorkerRuns
begin

text \<open>
  What removal and quarantine promise: an unexpected peer stops the removal of a Kata network, the front of a Kata
  worker has only the peers it may have, a quarantine is reported only when it is confirmed, no worker is lost over
  any run, and a removal that succeeds is complete.
\<close>

section \<open>Kata networks\<close>

abbreviation seen :: "dock \<Rightarrow> worker list \<times> dnet list \<times> string list" where
  "seen w \<equiv> (dw_workers w, dw_networks w, dw_running w)"

lemma seen_pair [simp, intro]: "quiet seen (Pair y)"
  by (simp add: quiet_def)

lemma seen_trial [simp, intro]: "quiet seen trial"
  unfolding quiet_def
proof
  fix w
  obtain r w' where "trial w = (r, w')" by fastforce
  with trial_state [OF this] show "seen (snd (trial w)) = seen w" by auto
qed

lemma seen_inspect [simp, intro]: "quiet seen (container_inspect v)" "quiet seen (network_inspect v)"
  unfolding container_inspect_def network_inspect_def by (auto intro!: quiet_bind split: list.split option.split)

lemma inspect_found:
  assumes "network_inspect v w = (Inr n, w')"
  shows "find (\<lambda>n. dn_id n = v \<or> dn_name n = v) (dw_networks w) = Some n"
proof -
  let ?f = "\<lambda>w. find (\<lambda>n. dn_id n = v \<or> dn_name n = v) (dw_networks w)"
  from assms obtain w1 where t: "trial w = (Inr (), w1)" and f: "(case ?f w1 of None \<Rightarrow> throwIO XNotFound | Some n \<Rightarrow> returnIO n) w1 = (Inr n, w')"
    by (auto simp: network_inspect_def io_iffs)
  have "?f w1 = Some n" using f by (cases "?f w1") auto
  moreover have "dw_networks w1 = dw_networks w" using trial_state [OF t] by auto
  ultimately show ?thesis by simp
qed

lemma seen_proxy_ids [simp, intro]: "quiet seen (proxy_ids ps)"
  by (induction ps) (auto intro!: quiet_bind quiet_catch split: sum.split)

lemma proxy_ids_named:
  "proxy_ids ps w = (Inr is, w') \<Longrightarrow> i \<in> set is \<Longrightarrow> list_ex (\<lambda>x. wk_id x = i \<and> list_ex (\<lambda>p. named p (wk_id x) (wk_name x)) ps) (dw_workers w)"
proof (induction ps arbitrary: w "is")
  case (Cons p ps)
  from Cons.prems(1) obtain v w1 where v: "container_inspect p w = (v, w1)" and
    r: "(case v of Inl e \<Rightarrow> bindIO (whenE (e \<noteq> XNotFound) e) (\<lambda>_. proxy_ids ps)
     | Inr x \<Rightarrow> bindIO (proxy_ids ps) (\<lambda>is. returnIO (wk_id x # is))) w1 = (Inr is, w')"
    by (auto simp: io_iffs)
  have w1: "dw_workers w1 = dw_workers w" using quietD [OF seen_inspect(1) v] by simp
  show ?case
  proof (cases v)
    case (Inl e)
    with r have "proxy_ids ps w1 = (Inr is, w')" by (auto simp: io_iffs)
    from Cons.IH [OF this Cons.prems(2)] w1 show ?thesis by (auto simp: list_ex_iff)
  next
    case (Inr x)
    with r obtain js where j: "proxy_ids ps w1 = (Inr js, w')" "is = wk_id x # js" by (auto simp: io_iffs)
    show ?thesis
    proof (cases "i = wk_id x")
      case True
      with inspect_worker [OF v [unfolded Inr]] show ?thesis by (auto simp: list_ex_iff)
    next
      case False
      with Cons.IH [OF j(1)] j(2) Cons.prems(2) w1 show ?thesis by (auto simp: list_ex_iff)
    qed
  qed
qed simp

text \<open>C28: The network of a Kata worker is not touched while an unexpected peer is attached to it: if some endpoint belongs to no
  worker the given proxy names select, the removal fails and every network is as it was.\<close>

theorem kata_network_guarded:
  assumes "find (\<lambda>n. dn_id n = nid \<or> dn_name n = nid) (dw_networks w) = Some n" and "(i, a) \<in> set (dn_peers n)"
    and "\<not> list_ex (\<lambda>x. wk_id x = i \<and> list_ex (\<lambda>p. named p (wk_id x) (wk_name x)) ps) (dw_workers w)"
  shows "isl (fst (remove_kata_network nid ps w)) \<and> dw_networks (snd (remove_kata_network nid ps w)) = dw_networks w"
proof -
  obtain v w1 where v: "network_inspect nid w = (v, w1)" by fastforce
  have w1: "seen w1 = seen w" using quietD [OF seen_inspect(2) v] .
  show ?thesis
  proof (cases v)
    case (Inl e)
    have "e \<noteq> XNotFound" using network_inspect_none [of nid w w1] v Inl assms(1) by (auto simp: find_Some_iff)
    with v Inl w1 show ?thesis by (simp add: remove_kata_network_def bindIO_def catchIO_def whenE_def)
  next
    case (Inr m)
    have m: "m = n" using inspect_found [of nid w m w1] v Inr assms(1) by simp
    obtain x w2 where p: "proxy_ids ps w1 = (x, w2)" by fastforce
    have w2: "seen w2 = seen w" using quietD [OF seen_proxy_ids p] w1 by simp
    show ?thesis
    proof (cases "kata_network_ok n")
      case False
      with v Inr m w1 show ?thesis by (simp add: remove_kata_network_def bindIO_def catchIO_def whenE_def)
    next
      case True
      show ?thesis
      proof (cases x)
        case (Inl e)
        with True v Inr m p w2 show ?thesis by (simp add: remove_kata_network_def bindIO_def catchIO_def whenE_def)
      next
        case (Inr ids)
        have "i \<notin> set ids" using proxy_ids_named [OF p [unfolded Inr]] assms(3) w1 by auto
        then have "\<not> list_all (\<lambda>(i, a). i \<in> set ids) (dn_peers n)" using assms(2) by (auto simp: list_all_iff)
        with Inr True v \<open>v = Inr m\<close> m p w2 show ?thesis by (simp add: remove_kata_network_def bindIO_def catchIO_def whenE_def)
      qed
    qed
  qed
qed

lemma proxy_hosts_allowed:
  "proxy_hosts n cid allowed ps w = (Inr (xs, all), w') \<Longrightarrow> i \<in> set all \<Longrightarrow> i \<in> set allowed \<or>
     i \<in> set (dw_running w) \<and> (\<exists>x \<in> set (dw_workers w). wk_id x = i \<and> (\<exists>p \<in> set ps. named p (wk_id x) (wk_name x)))"
proof (induction ps arbitrary: w allowed xs)
  case (Cons p ps)
  from Cons.prems(1) obtain x w1 where x: "container_inspect p w = (Inr x, w1)" "wk_id x \<in> set (dw_running w1)" and
    c: "(case map_of (dn_peers n) (wk_id x) of
       None \<Rightarrow> throwIO XNotAttached
     | Some addr \<Rightarrow> (case usable_front addr of
         None \<Rightarrow> throwIO XBadAddress
       | Some a \<Rightarrow> bindIO (whenE (p = [] \<or> contains_any p bad_host_chars) XBadHost) (\<lambda>_.
           bindIO (proxy_hosts n cid (wk_id x # allowed) ps) (\<lambda>(rest, all).
           returnIO ((p @ '':'' @ addr_string a) # rest, all))))) w1 = (Inr (xs, all), w')"
    by (auto simp: io_iffs)
  from c obtain addr where "map_of (dn_peers n) (wk_id x) = Some addr" by (cases "map_of (dn_peers n) (wk_id x)") auto
  with c obtain ys where r: "proxy_hosts n cid (wk_id x # allowed) ps w1 = (Inr (ys, all), w')"
    by (cases "usable_front addr") (auto simp: io_iffs)
  have w1: "seen w1 = seen w" using quietD [OF seen_inspect(1) x(1)] .
  from Cons.IH [OF r Cons.prems(2)] inspect_worker [OF x(1)] x(2) w1 show ?case by auto
qed simp

lemma proxy_hosts_addressed:
  "proxy_hosts n cid allowed ps w = (Inr (xs, all), w') \<Longrightarrow> h \<in> set xs \<Longrightarrow>
     \<exists>p \<in> set ps. \<exists>x \<in> set (dw_workers w). named p (wk_id x) (wk_name x) \<and> wk_id x \<in> set (dw_running w) \<and>
       (\<exists>addr a. (wk_id x, addr) \<in> set (dn_peers n) \<and> usable_front addr = Some a \<and> h = p @ '':'' @ addr_string a)"
proof (induction ps arbitrary: w allowed xs)
  case (Cons p ps)
  from Cons.prems(1) obtain x w1 where x: "container_inspect p w = (Inr x, w1)" "wk_id x \<in> set (dw_running w1)" and
    c: "(case map_of (dn_peers n) (wk_id x) of
       None \<Rightarrow> throwIO XNotAttached
     | Some addr \<Rightarrow> (case usable_front addr of
         None \<Rightarrow> throwIO XBadAddress
       | Some a \<Rightarrow> bindIO (whenE (p = [] \<or> contains_any p bad_host_chars) XBadHost) (\<lambda>_.
           bindIO (proxy_hosts n cid (wk_id x # allowed) ps) (\<lambda>(rest, all).
           returnIO ((p @ '':'' @ addr_string a) # rest, all))))) w1 = (Inr (xs, all), w')"
    by (auto simp: io_iffs)
  from c obtain addr where addr: "map_of (dn_peers n) (wk_id x) = Some addr" by (cases "map_of (dn_peers n) (wk_id x)") auto
  with c obtain a ys where a: "usable_front addr = Some a" and r: "proxy_hosts n cid (wk_id x # allowed) ps w1 = (Inr (ys, all), w')"
    and xs: "xs = (p @ '':'' @ addr_string a) # ys"
    by (cases "usable_front addr") (auto simp: io_iffs)
  have w1: "seen w1 = seen w" using quietD [OF seen_inspect(1) x(1)] .
  show ?case
  proof (cases "h \<in> set ys")
    case True
    from Cons.IH [OF r True] w1 show ?thesis by auto
  next
    case False
    with xs Cons.prems(2) have "h = p @ '':'' @ addr_string a" by simp
    with inspect_worker [OF x(1)] x(2) w1 map_of_SomeD [OF addr] a show ?thesis by auto
  qed
qed simp

text \<open>C29: When the front of a Kata worker is reported usable, the network its label selects (the first whose identifier or name it
  is) is a managed internal bridge with an isolated gateway, every endpoint attached to that network is the worker's own or that
  of a running container one of the proxy names selects, and every address reported is the usable address of such a proxy on
  that network.\<close>

theorem kata_front_confined:
  assumes "kata_proxy_hosts nid cid ps w = (Inr hosts, w')"
  shows "\<exists>n. find (\<lambda>n. dn_id n = nid \<or> dn_name n = nid) (dw_networks w) = Some n \<and>
     dn_driver n = ''bridge'' \<and> dn_internal n \<and>
     map_of (dn_options n) ''com.docker.network.bridge.gateway_mode_ipv4'' = Some ''isolated'' \<and>
     (dn_ipv6 n \<longrightarrow> map_of (dn_options n) ''com.docker.network.bridge.gateway_mode_ipv6'' = Some ''isolated'') \<and>
     map_of (dn_labels n) ''codex-dock.managed'' = Some ''true'' \<and> map_of (dn_labels n) ''codex-dock.isolation'' = Some ''kata'' \<and>
     (\<forall>(i, a) \<in> set (dn_peers n). i = cid \<or>
       i \<in> set (dw_running w) \<and> (\<exists>x \<in> set (dw_workers w). wk_id x = i \<and> (\<exists>p \<in> set ps. named p (wk_id x) (wk_name x)))) \<and>
     (\<forall>h \<in> set hosts. \<exists>p \<in> set ps. \<exists>x \<in> set (dw_workers w). named p (wk_id x) (wk_name x) \<and> wk_id x \<in> set (dw_running w) \<and>
       (\<exists>addr a. (wk_id x, addr) \<in> set (dn_peers n) \<and> usable_front addr = Some a \<and> h = p @ '':'' @ addr_string a))"
proof -
  from assms obtain n w1 xs all w2 where i: "network_inspect nid w = (Inr n, w1)" and k: "kata_network_ok n" and
    h: "proxy_hosts n cid (if cid = [] then [] else [cid]) ps w1 = (Inr (xs, all), w2)" and l: "list_all (\<lambda>(i, a). i \<in> set all) (dn_peers n)"
    and s: "hosts = sort xs"
    by (auto simp: kata_proxy_hosts_def io_iffs simp del: proxy_hosts.simps)
  have w1: "dw_workers w1 = dw_workers w" "dw_running w1 = dw_running w" using quietD [OF seen_inspect(2) i] by simp_all
  have p: "i = cid \<or> i \<in> set (dw_running w) \<and> (\<exists>x \<in> set (dw_workers w). wk_id x = i \<and> (\<exists>p \<in> set ps. named p (wk_id x) (wk_name x)))"
    if "(i, a) \<in> set (dn_peers n)" for i a
    using proxy_hosts_allowed [OF h, of i] l that unfolding w1 by (auto simp: list_all_iff split: if_splits)
  have a: "\<forall>g \<in> set hosts. \<exists>p \<in> set ps. \<exists>x \<in> set (dw_workers w). named p (wk_id x) (wk_name x) \<and> wk_id x \<in> set (dw_running w) \<and>
       (\<exists>addr a. (wk_id x, addr) \<in> set (dn_peers n) \<and> usable_front addr = Some a \<and> g = p @ '':'' @ addr_string a)"
    using proxy_hosts_addressed [OF h] s unfolding w1 by simp
  show ?thesis by (rule exI [of _ n]) (use inspect_found [OF i] k p a in \<open>auto simp: kata_network_ok_def\<close>)
qed

section \<open>Quarantine\<close>

text \<open>C31: A quarantine that succeeds has stopped the named worker, marked it quarantined, revoked its token and released its
  allocation, even when an earlier step failed without being reported.  The hypothesis: if a worker of that name has a token, the
  manager's proxy reports failed revocations and the environment of the container shows the placeholder; without either, the
  code reports success with the token still valid (\<open>quarantine_keeps_hidden_token\<close>).\<close>

theorem quarantine_confirmed:
  assumes "quarantine_context mg v w = (Inr (), w')" and "\<forall>x \<in> set (dw_workers w). named v (wk_id x) (wk_name x) \<longrightarrow> revocable mg w x"
  shows "\<exists>x \<in> set (dw_workers w). named v (wk_id x) (wk_name x) \<and> wk_id x \<notin> set (dw_running w') \<and>
     wk_id x \<in> set (dw_quarantined w') \<and> plain_name (wk_name x) \<notin> set (dw_tokens w') \<and>
     (\<forall>a. kata_allocation x = Some a \<longrightarrow> (a, wk_id x) \<notin> set (dw_allocations w'))"
proof -
  let ?free = "(\<lambda>x. case kata_allocation x of None \<Rightarrow> returnIO (Inr ()) | Some a \<Rightarrow> catchIO (release_allocation a (wk_id x))) ::
     worker \<Rightarrow> (clean_error, unit) result wio"
  from assms obtain x w1 w2 w3 revoked w4 w5 released w6 where x: "container_inspect v w = (Inr x, w1)"
    and r: "revoke_worker_token mg x w2 = (revoked, w3)" and c: "container_inspect (wk_id x) w3 = (w4, w5)"
    and q: "wk_id x \<notin> set (dw_running w5)" "wk_id x \<in> set (dw_quarantined w5)"
    and a: "?free x w5 = (Inr released, w6)" and b: "both released revoked w6 = (Inr (), w')"
    by (auto simp: quarantine_context_def io_iffs)
  have e: "revoked = Inr ()" "released = Inr ()" "w' = w6" using b by (cases released; cases revoked; simp add: both_def)+
  have t: "token_gone mg x w3" using revoke_gone [of mg x w2 "()" w3 x] r e(1) by simp
  have t5: "token_gone mg x w5" using gone_tidy(1) [OF followsD [OF tidies_inspect(1) c] t] .
  have f: "follows tidy (?free x)" by (auto split: option.split)
  have k: "dw_running w6 = dw_running w5" "dw_quarantined w6 = dw_quarantined w5"
    using a by (cases "kata_allocation x"; auto simp: catchIO_iff release_allocation_def dcall_def Let_def split: list.splits dfault.splits)+
  have g: "\<forall>a. kata_allocation x = Some a \<longrightarrow> (a, wk_id x) \<notin> set (dw_allocations w6)"
    using a e(2) by (auto simp: catchIO_iff dest: allocation_gone)
  have "token_gone mg x w'" using gone_tidy(1) [OF followsD [OF f a] t5] e(3) by simp
  moreover have "shrunk w w'" using followsD [OF tidies_quarantine assms(1)] by (simp add: tidy_def)
  ultimately have "plain_name (wk_name x) \<notin> set (dw_tokens w')"
    using revocable_gone [of mg w x w'] assms(2) inspect_worker [OF x] by blast
  with inspect_worker [OF x] q k g e(3) show ?thesis by auto
qed

section \<open>Removal\<close>

text \<open>C6: No worker is lost: from a dock whose workers \<open>cs\<close> have no record yet, after any removals, retries, stops, quarantines and
  reaping, interleaved in any order and with any calls failing, taking effect unreported, or cancelled, each worker that the
  manager can release still exists, or the directory holds the record that says what it had, or its container, its token, its
  network, its allocation and its worktree are all gone.  A manager can release a worker when it has a network manager or the worker
  is a Kata one, and when a token the worker has shows in its environment and the proxy reports failed revocations; for the
  others the code keeps less (\<open>reaped_network_stays\<close>, \<open>quarantine_keeps_hidden_token\<close>).\<close>

theorem worker_accounted:
  assumes "fleet cs" and "dw_workers w = cs" and "dw_files w = []" and "distinct (map dn_name (dw_networks w))"
    and "c \<in> set cs" and "releasable mg w c" and "worker_run mg es (w, []) = (w', ps)"
  shows "c \<in> set (dw_workers w') \<or> recorded mg c w' \<or> fully_released c w'"
proof -
  have i: "winv mg cs w'" using run_keeps [OF assms(1) start_inv [OF assms(2,1,3,4)], of mg es] assms(7) by (simp add: run_inv_def)
  have s: "shrunk w w'" using run_shrinks [of "(w, [])" mg es] assms(7) by simp
  show ?thesis
  proof (cases "map_of (dw_files w') (record_file (wk_id c))")
    case None
    with i assms(5) released_fully [OF assms(6) s] show ?thesis by (auto simp: winv_def)
  next
    case (Some x)
    with i obtain d r where "d \<in> set cs" "wk_id c = wk_id d" "x = \<lparr>cf_private = True, cf_doc = Some r\<rparr>" "matches mg d r"
      by (fastforce simp: winv_def)
    with fleet_id [OF assms(1,5), of d] Some have "recorded mg c w'" by (auto simp: recorded_def)
    then show ?thesis by blast
  qed
qed

text \<open>C27: A removal that succeeds, at any point of such a run, has removed one of the workers it names completely: its container, its
  token, its network, its allocation and its worktree, when the manager can release the workers (as in C6).\<close>

theorem removal_complete:
  assumes "fleet cs" and "dw_workers w = cs" and "dw_files w = []" and "distinct (map dn_name (dw_networks w))"
    and "\<forall>c \<in> set cs. releasable mg w c"
    and "worker_run mg es (w, []) = (w1, ps)" and "remove_durably mg v force w1 = (Inr (), w')"
  shows "\<exists>c \<in> set cs. named v (wk_id c) (wk_name c) \<and> fully_released c w'"
proof -
  have i: "winv mg cs w1" using run_keeps [OF assms(1) start_inv [OF assms(2,1,3,4)], of mg es] assms(6) by (simp add: run_inv_def)
  have "shrunk w w'" using shrunk_trans run_shrinks [of "(w, [])" mg es] followsD [OF shrinks_durably assms(7)] assms(6) by simp
  with triple_Inr [OF durable_triple [OF assms(1)] i assms(7)] assms(5) released_fully show ?thesis by blast
qed

section \<open>A sample dock\<close>

definition sample_worker :: worker where
  "sample_worker = \<lparr>wk_id = replicate 64 CHR ''a'', wk_name = ''/w1'', wk_labels = [(''codex-dock.managed'', ''true''),
     (''codex-dock.isolation'', ''kata''), (''codex-dock.proxy-hosts'', ''proxy''), (''codex-dock.network-id'', ''n1''),
     (''codex-dock.allocation'', ''al''), (''codex-dock.worktree'', ''/t/w1'')], wk_mounts = [(''/workspace'', ''/t/w1'')],
     wk_env = [''CODEX_TOKEN=cdx-1'']\<rparr>"

definition sample_proxy :: worker where
  "sample_proxy = \<lparr>wk_id = replicate 64 CHR ''b'', wk_name = ''/proxy'', wk_labels = [(''codex-dock.managed'', ''true'')],
     wk_mounts = [], wk_env = []\<rparr>"

definition sample_manager :: manager where
  "sample_manager = \<lparr>mg_endpoint = ''unix:///run/docker.sock'', mg_state_dir = ''/s'', mg_env = [], mg_home = None, mg_hash = (\<lambda>s. s),
     mg_euid = 0, mg_proxy = Configured, mg_checked = True, mg_network = True, mg_hosts = (\<lambda>s. Some [s]), mg_features = [(''cxd.quarantine'', ''1'')]\<rparr>"

definition sample_front :: dnet where
  "sample_front = \<lparr>dn_id = ''n1'', dn_name = ''dock-net-w-w1'', dn_driver = ''bridge'', dn_internal = True, dn_ipv6 = False,
     dn_options = [(''com.docker.network.bridge.gateway_mode_ipv4'', ''isolated'')],
     dn_labels = [(''codex-dock.managed'', ''true''), (''codex-dock.isolation'', ''kata'')],
     dn_peers = [(replicate 64 CHR ''a'', ''10.0.0.3/24''), (replicate 64 CHR ''b'', ''10.0.0.2/24'')]\<rparr>"

definition sample_dock :: dock where
  "sample_dock = \<lparr>dw_workers = [sample_worker, sample_proxy], dw_running = [replicate 64 CHR ''a'', replicate 64 CHR ''b''], dw_quarantined = [],
     dw_networks = [sample_front], dw_tokens = [''w1''], dw_allocations = [(''al'', replicate 64 CHR ''a'')], dw_trees = [(''/t/w1'', True)],
     dw_files = [], dw_lstat = (\<lambda>p. Inr \<lparr>ns_kind = DirNode, ns_uid = 0, ns_perm = 448, ns_sticky = False, ns_file = p\<rparr>),
     dw_contended = 0, dw_live = [], dw_faults = [], dw_fresh = [], dw_verified = [], dw_released = []\<rparr>"

lemma sample_fleet: "fleet [sample_worker, sample_proxy]"
  by code_simp

text \<open>A removal whose container removal takes effect but is reported failed, while a second one has begun.\<close>

definition sample_events :: "wevent list" where
  "sample_events = [WBegin ''w1'' True, WBegin ''w1'' False, WSchedule (replicate 13 Fine @ [Unconfirmed]) 0 [], WFinish 0]"

abbreviation sample_after :: "dock \<times> (cleanup_record \<times> bool) list" where
  "sample_after \<equiv> worker_run sample_manager sample_events (sample_dock, [])"

lemma sample_facts: "dw_workers sample_dock = [sample_worker, sample_proxy]" "dw_files sample_dock = []"
    "distinct (map dn_name (dw_networks sample_dock))" "sample_worker \<in> set [sample_worker, sample_proxy]"
  by code_simp+

text \<open>The run above: the container is gone, and the record says so; its token is still valid.\<close>

lemma sample_recorded:
  "sample_worker \<notin> set (dw_workers (fst sample_after)) \<and> \<not> fully_released sample_worker (fst sample_after)"
  by code_simp

lemma sample_releasable: "\<forall>c \<in> set [sample_worker, sample_proxy]. releasable sample_manager sample_dock c"
  by code_simp

theorem worker_accounted_witness: "recorded sample_manager sample_worker (fst sample_after)"
proof -
  have "releasable sample_manager sample_dock sample_worker" using sample_releasable by simp
  from worker_accounted [OF sample_fleet sample_facts this prod.collapse [symmetric]] sample_recorded show ?thesis by blast
qed

lemma sample_finished: "fst (remove_durably sample_manager ''w1'' False (fst sample_after)) = Inr ()"
  by code_simp

theorem removal_complete_witness:
  "\<exists>c \<in> set [sample_worker, sample_proxy]. named ''w1'' (wk_id c) (wk_name c) \<and>
     fully_released c (snd (remove_durably sample_manager ''w1'' False (fst sample_after)))"
proof -
  have "remove_durably sample_manager ''w1'' False (fst sample_after) =
      (Inr (), snd (remove_durably sample_manager ''w1'' False (fst sample_after)))"
    using sample_finished by (metis prod.collapse)
  from removal_complete [OF sample_fleet sample_facts(1-3) sample_releasable prod.collapse [symmetric] this] show ?thesis .
qed

text \<open>The worker itself is still attached to its network, so the network is not removed from under it.\<close>

lemma sample_peer: "find (\<lambda>n. dn_id n = ''n1'' \<or> dn_name n = ''n1'') (dw_networks sample_dock) = Some sample_front"
    "(replicate 64 CHR ''a'', ''10.0.0.3/24'') \<in> set (dn_peers sample_front)"
    "\<not> list_ex (\<lambda>x. wk_id x = replicate 64 CHR ''a'' \<and> list_ex (\<lambda>p. named p (wk_id x) (wk_name x)) [''proxy'']) (dw_workers sample_dock)"
  by code_simp+

theorem kata_network_guarded_witness: "dw_networks (snd (remove_kata_network ''n1'' [''proxy''] sample_dock)) = [sample_front]"
  using kata_network_guarded [OF sample_peer] by (simp add: sample_dock_def)

lemma sample_hosts: "fst (kata_proxy_hosts ''n1'' (replicate 64 CHR ''a'') [''proxy''] sample_dock) = Inr [''proxy:10.0.0.2'']"
  by code_simp

theorem kata_front_confined_witness:
  "find (\<lambda>n. dn_id n = ''n1'' \<or> dn_name n = ''n1'') (dw_networks sample_dock) = Some sample_front \<and> dn_internal sample_front \<and>
   fst ` set (dn_peers sample_front) \<subseteq> {replicate 64 CHR ''a'', replicate 64 CHR ''b''} \<and>
   (\<exists>x \<in> set (dw_workers sample_dock). wk_id x = replicate 64 CHR ''b'' \<and> named ''proxy'' (wk_id x) (wk_name x))"
proof -
  have "kata_proxy_hosts ''n1'' (replicate 64 CHR ''a'') [''proxy''] sample_dock =
      (Inr [''proxy:10.0.0.2''], snd (kata_proxy_hosts ''n1'' (replicate 64 CHR ''a'') [''proxy''] sample_dock))"
    using sample_hosts by (metis prod.collapse)
  from kata_front_confined [OF this] sample_peer(1) have
    "dn_internal sample_front" and p: "\<forall>(i, a) \<in> set (dn_peers sample_front). i = replicate 64 CHR ''a'' \<or>
       i \<in> set (dw_running sample_dock) \<and> (\<exists>x \<in> set (dw_workers sample_dock). wk_id x = i \<and> (\<exists>p \<in> set [''proxy'']. named p (wk_id x) (wk_name x)))"
    by auto
  moreover from p have "\<exists>x \<in> set (dw_workers sample_dock). wk_id x = replicate 64 CHR ''b'' \<and> named ''proxy'' (wk_id x) (wk_name x)"
    by (simp add: sample_front_def)
  ultimately show ?thesis using sample_peer(1) by (simp add: sample_front_def)
qed

lemma sample_quarantined: "fst (quarantine_context sample_manager ''w1'' sample_dock) = Inr ()"
  by code_simp

theorem quarantine_confirmed_witness:
  "\<exists>x \<in> set (dw_workers sample_dock). named ''w1'' (wk_id x) (wk_name x) \<and>
     wk_id x \<notin> set (dw_running (snd (quarantine_context sample_manager ''w1'' sample_dock))) \<and>
     plain_name (wk_name x) \<notin> set (dw_tokens (snd (quarantine_context sample_manager ''w1'' sample_dock)))"
proof -
  have q: "quarantine_context sample_manager ''w1'' sample_dock = (Inr (), snd (quarantine_context sample_manager ''w1'' sample_dock))"
    using sample_quarantined by (metis prod.collapse)
  have "\<forall>x \<in> set (dw_workers sample_dock). named ''w1'' (wk_id x) (wk_name x) \<longrightarrow> revocable sample_manager sample_dock x" by code_simp
  from quarantine_confirmed [OF q this] show ?thesis by blast
qed

text \<open>Without the placeholder in the environment, or with a proxy that reports no failures, a quarantine succeeds with the token of
  the worker still valid.\<close>

lemma quarantine_keeps_hidden_token:
  "let hidden = sample_dock\<lparr>dw_workers := [sample_worker\<lparr>wk_env := []\<rparr>, sample_proxy]\<rparr>; (r, w') = quarantine_context sample_manager ''w1'' hidden
   in r = Inr () \<and> dw_tokens w' = [''w1'']"
  "let failing = sample_dock\<lparr>dw_faults := replicate 6 Fine @ [Refused]\<rparr>;
       (r, w') = quarantine_context (sample_manager\<lparr>mg_checked := False\<rparr>) ''w1'' failing
   in r = Inr () \<and> dw_tokens w' = [''w1'']"
  by code_simp+

text \<open>The manager that reaping builds has no network manager: removing an expired runc worker succeeds, and leaves its network and
  no record of it.\<close>

lemma reaped_network_stays:
  "let c = sample_worker\<lparr>wk_labels := [(''codex-dock.managed'', ''true''), (''codex-dock.isolation'', ''runc'')]\<rparr>;
       net = sample_front\<lparr>dn_name := worker_network ''w1'', dn_peers := []\<rparr>;
       w = sample_dock\<lparr>dw_workers := [c, sample_proxy], dw_running := [], dw_networks := [net]\<rparr>;
       (r, w') = reap_act (sample_manager\<lparr>mg_network := False\<rparr>) False (wk_id c) RemoveExpired w
   in r = Inr True \<and> dw_workers w' = [sample_proxy] \<and> dw_files w' = [] \<and> dw_networks w' = [net]"
  by code_simp

text \<open>A record outlives its worker's name: when a removal is left pending and a new worker takes the name, finishing the old
  removal revokes the token of the new one.\<close>

definition sample_successor :: worker where
  "sample_successor = sample_worker\<lparr>wk_id := replicate 64 CHR ''c''\<rparr>"

lemma stale_cleanup_hits_successor:
  "let w = (fst sample_after)\<lparr>dw_workers := [sample_successor, sample_proxy], dw_tokens := [''w1'']\<rparr>;
       (r, w') = retry_cleanup sample_manager False w
   in dw_workers w' = [sample_successor, sample_proxy] \<and> dw_tokens w' = []"
  by code_simp


text \<open>A worker is resolved by any prefix of another's identifier before its own name: here the worker \<open>b\<close> is named, and the
  proxy is removed.\<close>

lemma name_hits_other_id:
  "let b = sample_worker\<lparr>wk_name := ''/b''\<rparr>; w = sample_dock\<lparr>dw_workers := [sample_proxy, b]\<rparr>
   in dw_workers (snd (remove_by_name sample_manager ''b'' True w)) = [b]"
  by code_simp

end
