(* ===== verification/WorkerConfig.thy ===== *)
theory WorkerConfig
  imports WorkerPolicy KataResources "HOL-Library.AList"
begin

text \<open>
  The configuration of a worker (\<open>src/internal/sandbox/runtime.go\<close>, \<open>manager.go\<close>, \<open>kata_gate.go\<close>,
  \<open>kata_validation.go\<close>, \<open>temporary.go\<close>, \<open>compatibility.go\<close>, \<open>authentication.go\<close>, \<open>packages.go\<close>): how it is
  built from the options of a run, and how a created worker and its guest are checked against it.  URLs, JSON and
  symbolic links are read by parameters.
\<close>

datatype config_error =
    CRuntime | CRegistration | CNotLinux | CUnregistered | CNotKata | CResourceProfile | CResolve | CProtectedSource | CTrustedTarget
  | CNoImage | CNoCommand | CIdentityMismatch | CNoBootstrap | CLimits | CPolicy policy_error | CHidesMount | CRestricted | CNestedTmpfs
  | CTmpfsChanged | CTmpfsUntracked | CNoLauncher | CRootfsChanged | CSecurity | CExposed | CNetworkName | CNoNetwork
  | CUnexpectedNetwork | CBadProxies | CHostsChanged | CProbe | CNoBootId | CGuestLimits | CStartedEarly | CGuestPolicy string
  | CGuestCaps | CGuestIdentity | CRootGuest | COtherUser | CObservations | CNoOwner | CEndpoint string | CNotAttached | CNoEgress
  | CJvm | CLoginUser | CLoginHost | CLoginEndpoint | CRequest | CModelPolicy | CLabelLimit

definition refuseE :: "bool \<Rightarrow> 'e \<Rightarrow> ('e, unit) result" where
  "refuseE b e = (if b then Inl e else Inr ())"

section \<open>Runtimes\<close>

definition default_kata_runtime :: string where
  "default_kata_runtime = ''io.containerd.kata.v2''"

definition registration_chars :: string where
  "registration_chars = '' /'' @ [CHR 0x5C, CHR 0x0D, CHR 0x0A, CHR 0x09, CHR 0x00]"

definition resolve_runtime :: "string \<Rightarrow> string \<Rightarrow> (config_error, string \<times> string) result" where
  "resolve_runtime isolation registration =
     (let i = (if isolation = [] then ''kata'' else isolation) in
      if i = ''kata'' then
        (let r = (if registration = [] then default_kata_runtime else registration) in
         if r = ''runc'' \<or> contains_any r registration_chars then Inl CRegistration else Inr (i, r))
      else if i = ''runc'' then Inr (i, ''runc'') else Inl CRuntime)"

definition path_base :: "string \<Rightarrow> string" where
  "path_base p = (if p = [] then ''.'' else
     (let q = rev (dropWhile (\<lambda>c. c = CHR ''/'') (rev p)) in
      if q = [] then ''/'' else rev (takeWhile (\<lambda>c. c \<noteq> CHR ''/'') (rev q))))"

definition kata_shim :: string where
  "kata_shim = ''containerd-shim-kata-v2''"

text \<open>The path and type of each registered runtime, as the node reports them.\<close>

definition validate_runtime :: "string \<Rightarrow> (string \<times> string \<times> string) list \<Rightarrow> string \<Rightarrow> string \<Rightarrow> config_error option" where
  "validate_runtime os runtimes isolation registration =
     (if os \<noteq> ''linux'' then Some CNotLinux
      else case map_of runtimes registration of None \<Rightarrow> Some CUnregistered
      | Some (path, ty) \<Rightarrow>
          if isolation \<noteq> ''kata'' then None
          else if path \<noteq> [] \<and> path_base path \<noteq> kata_shim \<and> path \<noteq> default_kata_runtime then Some CNotKata
          else if ty \<noteq> [] \<and> ty \<noteq> default_kata_runtime \<and> path_base ty \<noteq> kata_shim then Some CNotKata
          else if registration \<noteq> default_kata_runtime \<and> path = [] \<and> ty = [] then Some CNotKata
          else None)"

section \<open>Containers\<close>

record bind =
  bd_source :: string
  bd_target :: string
  bd_read_only :: bool

record host_config =
  hc_network :: string
  hc_mounts :: "bind list"
  hc_cap_drop :: "string list"
  hc_cap_add :: "string list"
  hc_security :: "string list"
  hc_privileged :: bool
  hc_pids :: "int option"
  hc_memory :: int
  hc_swap :: int
  hc_nano_cpus :: int
  hc_cgroup_parent :: string
  hc_runtime :: string
  hc_extra_hosts :: "string list"
  hc_dns :: "string list"
  hc_ports :: "string list"
  hc_publish_all :: bool
  hc_read_only_root :: bool
  hc_tmpfs :: "(string \<times> string) list"
  hc_masked :: "string list"
  hc_read_only_paths :: "string list"

record container_config =
  cc_image :: string
  cc_env :: "string list"
  cc_dir :: string
  cc_labels :: "(string \<times> string) list"
  cc_user :: string
  cc_interactive :: bool
  cc_entrypoint :: "string list"
  cc_cmd :: "string list"

definition build_host_config :: "bind list \<Rightarrow> string \<Rightarrow> host_config" where
  "build_host_config mounts net = \<lparr>hc_network = net, hc_mounts = mounts, hc_cap_drop = [''ALL''], hc_cap_add = [],
     hc_security = [''no-new-privileges:true''], hc_privileged = False, hc_pids = Some 512, hc_memory = 0, hc_swap = 0, hc_nano_cpus = 0,
     hc_cgroup_parent = [], hc_runtime = [], hc_extra_hosts = [], hc_dns = [], hc_ports = [], hc_publish_all = False,
     hc_read_only_root = False, hc_tmpfs = [], hc_masked = [], hc_read_only_paths = []\<rparr>"

definition apply_runtime :: "string \<Rightarrow> string \<Rightarrow> string list \<Rightarrow> host_config \<Rightarrow> host_config" where
  "apply_runtime isolation registration hosts hc =
     (let hc = hc\<lparr>hc_runtime := registration\<rparr> in
      if isolation = ''kata'' then hc\<lparr>hc_extra_hosts := hosts, hc_dns := [''127.0.0.1'']\<rparr> else hc)"

definition build_mounts :: "bool \<Rightarrow> string \<Rightarrow> bool \<Rightarrow> bind list \<Rightarrow> bind list" where
  "build_mounts login workspace read_only extra =
     (if login then [] else \<lparr>bd_source = workspace, bd_target = ''/workspace'', bd_read_only = read_only\<rparr> # extra)"

section \<open>The node and its protected files\<close>

record knode =
  kn_protected :: "string list"
  kn_launcher :: string
  kn_stamp :: string
  kn_parent :: "string \<Rightarrow> string option"

definition guest_guard :: string where "guest_guard = ''/run/codex-dock-guard''"
definition guest_control :: string where "guest_control = ''/run/codex-dock-control''"

definition trusted_targets :: "string list" where
  "trusted_targets = [guest_guard, guest_control, ''/proc'', ''/sys'', ''/dev'']"

definition source_overlaps :: "string \<Rightarrow> string \<Rightarrow> bool" where
  "source_overlaps source p \<longleftrightarrow> source = p \<or> prefix (source @ ''/'') p \<or> prefix (p @ ''/'') source"

definition target_overlaps :: "string \<Rightarrow> string \<Rightarrow> bool" where
  "target_overlaps d t \<longleftrightarrow> d = t \<or> prefix (trim_suffix d ''/'' @ ''/'') t \<or> prefix (t @ ''/'') d"

definition protect_mount :: "(string \<Rightarrow> string option) \<Rightarrow> knode \<Rightarrow> bind \<Rightarrow> config_error option" where
  "protect_mount resolve node b = (case resolve (bd_source b) of None \<Rightarrow> Some CResolve
     | Some source \<Rightarrow>
         if list_ex (source_overlaps source) (kn_protected node) then Some CProtectedSource
         else if list_ex (target_overlaps (path_clean (bd_target b))) trusted_targets then Some CTrustedTarget
         else None)"

definition protect_mounts :: "(string \<Rightarrow> string option) \<Rightarrow> knode \<Rightarrow> bind list \<Rightarrow> config_error option" where
  "protect_mounts resolve node bs = first_err (protect_mount resolve node) bs"

definition bootstrap_config :: "knode \<Rightarrow> string list option \<Rightarrow> string \<Rightarrow> resource_profile \<Rightarrow> string \<Rightarrow>
     container_config \<times> host_config \<Rightarrow> (config_error, container_config \<times> host_config) result" where
  "bootstrap_config node entrypoint allocation profile parent = (\<lambda>(c, h). case entrypoint of None \<Rightarrow> Inl CNoImage
     | Some img \<Rightarrow>
       (let command = (if cc_entrypoint c \<noteq> [] then cc_entrypoint c else img) @ cc_cmd c in
        if command = [] then Inl CNoCommand
        else Inr (c\<lparr>cc_entrypoint := [guest_guard, ''wait'', allocation], cc_cmd := command,
              cc_labels := AList.update ''codex-dock.verified-profile'' (kn_stamp node) (AList.update ''codex-dock.allocation'' allocation (cc_labels c))\<rparr>,
            h\<lparr>hc_mounts := hc_mounts h @ [\<lparr>bd_source = kn_launcher node, bd_target = guest_guard, bd_read_only = True\<rparr>],
              hc_tmpfs := AList.update guest_control ''rw,noexec,nosuid,nodev,size=1048576,mode=1777'' (hc_tmpfs h),
              hc_memory := rp_guest profile, hc_swap := rp_guest profile, hc_nano_cpus := rp_cpus profile * 1000000000,
              hc_pids := Some (rp_pids profile), hc_cgroup_parent := parent\<rparr>)))"

section \<open>Temporary filesystems of a worker\<close>

definition storage_fits :: "bind list \<Rightarrow> string list \<Rightarrow> bool \<Rightarrow> temp_storage \<Rightarrow> config_error option" where
  "storage_fits binds denied read_only v =
     (if list_ex (\<lambda>b. let target = path_clean (bd_target b) in
          ts_target v = target \<or> prefix (ts_target v @ ''/'') target \<or> bd_read_only b \<and> paths_overlap (ts_target v) target) binds
      then Some CHidesMount
      else if list_ex (paths_overlap (ts_target v)) denied then Some CRestricted
      else if read_only \<and> list_ex (\<lambda>t. ts_target v \<noteq> t \<and> prefix (ts_target v @ ''/'') t) [''/tmp'', ''/var/tmp''] then Some CNestedTmpfs
      else None)"

definition validate_topology :: "temp_storage list \<Rightarrow> bind list \<Rightarrow> string list \<Rightarrow> bool \<Rightarrow> config_error option" where
  "validate_topology storage binds denied read_only = first_err (storage_fits binds denied read_only) storage"

definition saved_storage_label :: "(string \<times> string) list \<Rightarrow> string" where
  "saved_storage_label ls = (case map_of ls ''codex-dock.temporary-storage'' of None \<Rightarrow> [] | Some v \<Rightarrow> v)"

definition default_tmpfs :: "(string \<times> string) list" where
  "default_tmpfs = map (\<lambda>t. (t, ''rw,nosuid,nodev,size=268435456,mode=1777'')) [''/tmp'', ''/var/tmp'']"

definition allowed_tmpfs :: "bool \<Rightarrow> temp_storage list \<Rightarrow> string list" where
  "allowed_tmpfs read_only storage = guest_control # (if read_only then [''/tmp'', ''/var/tmp''] else []) @ map ts_target storage"

definition validate_saved_storage ::
  "(string \<Rightarrow> (policy_error, temp_storage list) result) \<Rightarrow> (string \<times> string) list \<Rightarrow> host_config \<Rightarrow> 64 word \<Rightarrow> (config_error, temp_storage list) result" where
  "validate_saved_storage parse labels h guest =
     (case parse (saved_storage_label labels) of Inl e \<Rightarrow> Inl (CPolicy e)
      | Inr storage \<Rightarrow>
         if storage = [] then Inr []
         else case validate_budget storage guest of Some e \<Rightarrow> Inl (CPolicy e)
         | None \<Rightarrow> (case validate_topology storage (hc_mounts h) (hc_masked h @ hc_read_only_paths h) (hc_read_only_root h) of Some e \<Rightarrow> Inl e
           | None \<Rightarrow>
             if \<not> list_all (\<lambda>v. map_of (hc_tmpfs h) (ts_target v) = Some (mount_options v)) storage then Inl CTmpfsChanged
             else if \<not> list_all (\<lambda>(t, x). t \<in> set (allowed_tmpfs (hc_read_only_root h) storage)) (hc_tmpfs h) then Inl CTmpfsUntracked
             else Inr storage))"

section \<open>Checking a Kata worker\<close>

text \<open>An inspection: the networks are absent, or give each endpoint's network identifier.\<close>

record inspection =
  in_id :: string
  in_name :: string
  in_config :: container_config
  in_host :: host_config
  in_running :: bool
  in_networks :: "(string \<times> string option) list option"

definition label_of :: "(string \<times> string) list \<Rightarrow> string \<Rightarrow> string" where
  "label_of ls k = (case map_of ls (''codex-dock.'' @ k) of None \<Rightarrow> [] | Some v \<Rightarrow> v)"

definition tmpfs_of :: "host_config \<Rightarrow> string \<Rightarrow> string" where
  "tmpfs_of h t = (case map_of (hc_tmpfs h) t of None \<Rightarrow> [] | Some v \<Rightarrow> v)"

definition launcher_bind :: "knode \<Rightarrow> bind \<Rightarrow> bool" where
  "launcher_bind node b \<longleftrightarrow> bd_target b = guest_guard \<and> bd_source b = kn_launcher node \<and> bd_read_only b"

definition validate_identity :: "knode \<Rightarrow> inspection \<Rightarrow> (config_error, unit) result" where
  "validate_identity node v = (let ls = cc_labels (in_config v); h = in_host v; a = label_of ls ''allocation'' in
     bindE (refuseE (label_of ls ''isolation'' \<noteq> ''kata'' \<or> hc_runtime h \<noteq> label_of ls ''runtime'') CIdentityMismatch) (\<lambda>_.
     refuseE (label_of ls ''verified-profile'' \<noteq> kn_stamp node \<or> kn_parent node a \<noteq> Some (hc_cgroup_parent h) \<or>
       cc_entrypoint (in_config v) \<noteq> [guest_guard, ''wait'', a]) CNoBootstrap))"

definition validate_limits :: "resource_profile option \<Rightarrow> host_config \<Rightarrow> (config_error, unit) result" where
  "validate_limits profile h = (case profile of None \<Rightarrow> Inl CResourceProfile
     | Some p \<Rightarrow> refuseE (hc_memory h \<noteq> rp_guest p \<or> hc_swap h \<noteq> rp_guest p \<or> hc_nano_cpus h \<noteq> rp_cpus p * 1000000000 \<or>
         hc_pids h \<noteq> Some (rp_pids p)) CLimits)"

definition validate_mounts :: "(string \<Rightarrow> string option) \<Rightarrow> knode \<Rightarrow> inspection \<Rightarrow> (config_error, unit) result" where
  "validate_mounts resolve node v = (let h = in_host v in
     case protect_mounts resolve node (filter (\<lambda>b. \<not> launcher_bind node b) (hc_mounts h)) of Some e \<Rightarrow> Inl e
     | None \<Rightarrow>
       bindE (refuseE (\<not> list_ex (launcher_bind node) (hc_mounts h) \<or> tmpfs_of h guest_control = []) CNoLauncher) (\<lambda>_.
       refuseE (label_of (cc_labels (in_config v)) ''read-only-rootfs'' = ''true'' \<and>
         (\<not> hc_read_only_root h \<or> tmpfs_of h ''/tmp'' = [] \<or> tmpfs_of h ''/var/tmp'' = [])) CRootfsChanged))"

definition validate_security :: "host_config \<Rightarrow> (config_error, unit) result" where
  "validate_security h =
     bindE (refuseE (hc_privileged h \<or> hc_cap_add h \<noteq> [] \<or> ''ALL'' \<notin> set (hc_cap_drop h) \<or> ''no-new-privileges:true'' \<notin> set (hc_security h)) CSecurity) (\<lambda>_.
     refuseE (hc_dns h \<noteq> [''127.0.0.1''] \<or> hc_ports h \<noteq> [] \<or> hc_publish_all h) CExposed)"

definition endpoint_ok :: "inspection \<Rightarrow> string \<Rightarrow> string \<times> string option \<Rightarrow> bool" where
  "endpoint_ok v net = (\<lambda>(name, e). name = hc_network (in_host v) \<and>
     (case e of None \<Rightarrow> False | Some i \<Rightarrow> (i = [] \<or> i = net) \<and> \<not> (in_running v \<and> i = [])))"

definition validate_network :: "inspection \<Rightarrow> (config_error, unit) result" where
  "validate_network v = (let net = label_of (cc_labels (in_config v)) ''network-id'' in
     bindE (refuseE (hc_network (in_host v) \<noteq> ''dock-net-w-'' @ trim_prefix (in_name v) ''/'') CNetworkName) (\<lambda>_.
     bindE (refuseE (net = []) CNoNetwork) (\<lambda>_.
     case in_networks v of None \<Rightarrow> Inr ()
     | Some ns \<Rightarrow> refuseE ((in_running v \<and> length ns \<noteq> 1) \<or> \<not> list_all (endpoint_ok v net) ns) CUnexpectedNetwork)))"

text \<open>
  \<open>hosts\<close> gives the front addresses of the proxies, of a network and a worker (\<open>KataProxyHosts\<close>); \<open>profiles\<close> a resource
  profile by name; \<open>names\<close> decodes the label of the proxies.
\<close>

definition validate_kata_worker ::
  "(string \<Rightarrow> string option) \<Rightarrow> knode \<Rightarrow> (string \<Rightarrow> resource_profile option) \<Rightarrow>
   (string \<Rightarrow> (policy_error, temp_storage list) result) \<Rightarrow> (string \<Rightarrow> string list option) \<Rightarrow>
   (string \<Rightarrow> string \<Rightarrow> string list \<Rightarrow> string list option) \<Rightarrow> inspection \<Rightarrow> (config_error, unit) result" where
  "validate_kata_worker resolve node profiles parse names hosts v = (let ls = cc_labels (in_config v); h = in_host v in
     bindE (validate_identity node v) (\<lambda>_.
     let p = profiles (label_of ls ''resource-profile'') in
     bindE (validate_limits p h) (\<lambda>_.
     bindE (validate_saved_storage parse ls h (word_of_int (rp_guest (the p)))) (\<lambda>_.
     bindE (validate_mounts resolve node v) (\<lambda>_.
     bindE (validate_security h) (\<lambda>_.
     bindE (validate_network v) (\<lambda>_.
     case names (label_of ls ''proxy-hosts'') of None \<Rightarrow> Inl CBadProxies
     | Some ps \<Rightarrow> (case hosts (label_of ls ''network-id'') (in_id v) ps of None \<Rightarrow> Inl CUnexpectedNetwork
       | Some actual \<Rightarrow> refuseE (actual \<noteq> sort (hc_extra_hosts h)) CHostsChanged))))))))"

section \<open>Checking a guest\<close>

text \<open>The probe of the guest, decoded: its entries by name; an absent entry is empty.\<close>

definition probe_field :: "(string \<times> string) list \<Rightarrow> string \<Rightarrow> string" where
  "probe_field probe k = (case map_of probe k of None \<Rightarrow> [] | Some v \<Rightarrow> v)"

definition status_fields :: "string \<Rightarrow> (string \<times> string list) list" where
  "status_fields status = fold (\<lambda>line acc. case str_cut CHR '':'' line of (k, v, ok) \<Rightarrow> if ok then AList.update k (GoStrings.fields v) acc else acc)
     (split_on CHR 0x0A status) []"

definition status_of :: "(string \<times> string list) list \<Rightarrow> string \<Rightarrow> string list" where
  "status_of fs k = (case map_of fs k of None \<Rightarrow> [] | Some v \<Rightarrow> v)"

definition hex_digit_val :: "char \<Rightarrow> nat" where
  "hex_digit_val c = (if is_digit c then digit_val c else 10 + (of_char (lower_char c) - 97))"

definition parse_hex64 :: "string \<Rightarrow> nat option" where
  "parse_hex64 s = (if s \<noteq> [] \<and> list_all is_hex s \<and> foldl (\<lambda>n c. 16 * n + hex_digit_val c) 0 s < 2 ^ 64
     then Some (foldl (\<lambda>n c. 16 * n + hex_digit_val c) 0 s) else None)"

definition guest_identity :: "(string \<times> string list) list \<Rightarrow> string \<Rightarrow> (config_error, unit) result" where
  "guest_identity fs key = (let vs = status_of fs key in
     bindE (refuseE (length vs \<noteq> 4) CGuestIdentity) (\<lambda>_.
     bindE (refuseE (\<not> list_all (\<lambda>v. v = hd vs) vs) CGuestIdentity) (\<lambda>_.
     refuseE (key = ''Uid'' \<and> hd vs = ''0'') CRootGuest)))"

definition configured_user :: "(string \<times> string list) list \<Rightarrow> string list \<Rightarrow> (config_error, unit) result" where
  "configured_user fs parts =
     bindE (case parse_uint 32 (hd parts) of None \<Rightarrow> Inr () | Some n \<Rightarrow> refuseE (hd (status_of fs ''Uid'') \<noteq> show_nat n) COtherUser) (\<lambda>_.
     if length parts \<noteq> 2 then Inr ()
     else case parse_uint 32 (parts ! 1) of None \<Rightarrow> Inr () | Some n \<Rightarrow> refuseE (hd (status_of fs ''Gid'') \<noteq> show_nat n) COtherUser)"

definition waiting_mark :: "string \<Rightarrow> string" where
  "waiting_mark nonce = [CHR 0x00] @ ''wait'' @ [CHR 0x00] @ nonce @ [CHR 0x00]"

definition capability_sets :: "string list" where
  "capability_sets = [''CapInh'', ''CapPrm'', ''CapEff'', ''CapBnd'', ''CapAmb'']"

definition verify_guest :: "(string \<times> string) list option \<Rightarrow> string \<Rightarrow> string \<Rightarrow> string \<Rightarrow> bool \<Rightarrow> resource_profile \<Rightarrow> (config_error, unit) result" where
  "verify_guest data nonce host_boot user waiting p = (case data of None \<Rightarrow> Inl CProbe
     | Some probe \<Rightarrow> (let fs = status_fields (probe_field probe ''status'') in
       bindE (refuseE (probe_field probe ''boot_id'' = [] \<or> probe_field probe ''boot_id'' = trim_space host_boot) CNoBootId) (\<lambda>_.
       bindE (refuseE (probe_field probe ''pids'' \<noteq> show_int (rp_pids p) \<or> probe_field probe ''memory'' \<noteq> show_int (rp_guest p) \<or>
         probe_field probe ''cpu'' \<noteq> cpu_quota p) CGuestLimits) (\<lambda>_.
       bindE (refuseE (waiting \<and> \<not> sublist (waiting_mark nonce) (probe_field probe ''cmdline'')) CStartedEarly) (\<lambda>_.
       bindE (case first_err (\<lambda>(k, want). if status_of fs k = [want] then None else Some (CGuestPolicy k)) [(''NoNewPrivs'', ''1''), (''Seccomp'', ''2'')]
         of Some e \<Rightarrow> Inl e | None \<Rightarrow> Inr ()) (\<lambda>_.
       bindE (refuseE (\<not> list_all (\<lambda>k. case status_of fs k of [v] \<Rightarrow> parse_hex64 v = Some 0 | _ \<Rightarrow> False) capability_sets) CGuestCaps) (\<lambda>_.
       bindE (guest_identity fs ''Uid'') (\<lambda>_.
       bindE (guest_identity fs ''Gid'') (\<lambda>_.
       configured_user fs (split_on CHR '':'' user))))))))))"

text \<open>The observations the bootstrap reports, and the owner of the last \<open>Uid\<close> and \<open>Gid\<close> lines that have four values.\<close>

text \<open>\<open>strconv.ParseUint\<close> with its error ignored: a number out of range is the largest one.\<close>

definition parse_saturated :: "string \<Rightarrow> nat" where
  "parse_saturated s = (case parse_uint 32 s of Some n \<Rightarrow> n
     | None \<Rightarrow> if s \<noteq> [] \<and> list_all is_digit s then 2 ^ 32 - 1 else 0)"

definition owner_step :: "string \<Rightarrow> nat option \<times> nat option \<Rightarrow> nat option \<times> nat option" where
  "owner_step line = (\<lambda>(uid, gid). case str_cut CHR '':'' line of (k, v, ok) \<Rightarrow>
     (let vs = GoStrings.fields v in
      if \<not> ok \<or> length vs \<noteq> 4 then (uid, gid)
      else if k = ''Uid'' then (if parse_saturated (hd vs) \<noteq> 0 then Some (parse_saturated (hd vs)) else None, gid)
      else if k = ''Gid'' then (uid, parse_uint 32 (hd vs)) else (uid, gid)))"

definition guest_owner :: "string \<Rightarrow> nat option \<times> nat option" where
  "guest_owner status = fold owner_step (split_on CHR 0x0A status) (None, None)"

definition zero_observation :: observation where
  "zero_observation = \<lparr>ob_target = [], ob_filesystem = 0, ob_max_bytes = 0, ob_uid = 0, ob_gid = 0, ob_mode = 0, ob_flags = 0\<rparr>"

definition verify_temporary_guest :: "(string \<times> string) list option \<Rightarrow> (string \<Rightarrow> observation list option) \<Rightarrow> temp_storage list \<Rightarrow> bool \<Rightarrow>
     (config_error, unit) result" where
  "verify_temporary_guest data decode storage initial =
     (if storage = [] then Inr () else case data of None \<Rightarrow> Inl CProbe
      | Some probe \<Rightarrow> (case decode (probe_field probe ''temporary_storage'') of None \<Rightarrow> Inl CObservations
        | Some obs \<Rightarrow>
          bindE (refuseE (length obs \<noteq> length storage) CObservations) (\<lambda>_.
          case guest_owner (probe_field probe ''status'') of
            (Some uid, Some gid) \<Rightarrow>
              bindE (refuseE (\<not> distinct (map ob_target obs)) CObservations) (\<lambda>_.
              case first_err (\<lambda>spec. validate_observation spec
                  (case find (\<lambda>ob. ob_target ob = ts_target spec) obs of None \<Rightarrow> zero_observation | Some ob \<Rightarrow> ob)
                  (of_nat uid) (of_nat gid) initial) storage of
                Some e \<Rightarrow> Inl (CPolicy e) | None \<Rightarrow> Inr ())
          | _ \<Rightarrow> Inl CNoOwner)))"

end
