(* ===== verification/WorkerEnv.thy ===== *)
theory WorkerEnv
  imports WorkerConfig
begin

text \<open>
  The environment, the labels and the login configuration of a worker (\<open>src/internal/sandbox/manager.go\<close>,
  \<open>compatibility.go\<close>, \<open>authentication.go\<close>, \<open>packages.go\<close>; \<open>src/internal/agentconfig/claude.go\<close>).  \<open>net/url\<close>
  is a parameter: what a URL parses to, and how one prints.
\<close>

section \<open>Packages\<close>

record package =
  pk_manager :: string
  pk_name :: string

definition detect_manager :: "string \<Rightarrow> string" where
  "detect_manager n = (if prefix ''@'' n then ''npm''
     else if list_ex (\<lambda>op. sublist op n) [''=='', ''>='', ''<='', ''~='', ''!=''] then ''pip'' else ''apt'')"

definition parse_package :: "string \<Rightarrow> package" where
  "parse_package spec = (case str_cut CHR '':'' spec of (m, n, found) \<Rightarrow>
     if found then \<lparr>pk_manager = to_lower m, pk_name = n\<rparr> else \<lparr>pk_manager = detect_manager spec, pk_name = spec\<rparr>)"

text \<open>The part of a line before \<open>" #"\<close>.\<close>

fun before_comment :: "string \<Rightarrow> string" where
  "before_comment s = (if prefix '' #'' s then [] else case s of [] \<Rightarrow> [] | c # cs \<Rightarrow> c # before_comment cs)"

definition package_line :: "string \<Rightarrow> package option" where
  "package_line raw = (let line = trim_space raw in
     if line = [] \<or> prefix ''#'' line then None
     else Some (parse_package (if sublist '' #'' line then trim_space (before_comment line) else line)))"

definition load_packages :: "string list \<Rightarrow> package list" where
  "load_packages ls = List.map_filter package_line ls"

definition install_part :: "string \<Rightarrow> string \<Rightarrow> string list \<Rightarrow> string" where
  "install_part before after names = (if names = [] then [] else before @ join_with '' '' names @ after @ [CHR 0x0A])"

definition install_script :: "package list \<Rightarrow> string" where
  "install_script ps = (if ps = [] then [] else
     ''set -e'' @ [CHR 0x0A] @
     install_part ''apt-get update -qq && apt-get install -y --no-install-recommends '' '' && rm -rf /var/lib/apt/lists/*''
       (map pk_name (filter (\<lambda>p. pk_manager p \<notin> {''pip'', ''npm''}) ps)) @
     install_part ''pip3 install --quiet '' [] (map pk_name (filter (\<lambda>p. pk_manager p = ''pip'') ps)) @
     install_part ''npm install -g --quiet '' [] (map pk_name (filter (\<lambda>p. pk_manager p = ''npm'') ps)))"

section \<open>Options of a run\<close>

record run_options =
  ro_login :: bool
  ro_runtime :: string
  ro_image :: string
  ro_user :: string
  ro_agent :: string
  ro_shell_type :: string
  ro_exec :: string
  ro_task :: string
  ro_direct :: bool
  ro_args :: "string list"
  ro_model :: string
  ro_approval :: string
  ro_agents_md :: string
  ro_watch :: bool
  ro_no_internet :: bool
  ro_read_only_root :: bool
  ro_provider :: string
  ro_model_policy :: "string option"
  ro_identity :: "string option"
  ro_token_ttl :: int
  ro_ssh :: bool
  ro_jvm :: bool
  ro_ca :: string
  ro_branch :: string
  ro_worktree :: string
  ro_request :: "(string \<times> string) option"
  ro_allocation :: string
  ro_image_id :: string
  ro_storage :: "temp_storage list"
  ro_lifecycle :: lifecycle
  ro_filesystem :: filesystem

text \<open>The proxy of a run, as its client reports it.\<close>

record worker_proxy =
  wp_endpoint :: string
  wp_admin :: string
  wp_oauth :: bool
  wp_anthropic :: bool
  wp_anthropic_oauth :: bool
  wp_policy_active :: bool
  wp_profile :: string
  wp_connection :: string

record parsed_url =
  pu_scheme :: string
  pu_user :: bool
  pu_hostname :: string
  pu_port :: string
  pu_path :: string
  pu_query :: string
  pu_fragment :: string

section \<open>Endpoints of the proxies\<close>

definition endpoint_host :: "(string \<Rightarrow> parsed_url option) \<Rightarrow> string \<Rightarrow> string" where
  "endpoint_host parse e = (case parse e of None \<Rightarrow> [] | Some u \<Rightarrow> pu_hostname u)"

fun host_address :: "string \<Rightarrow> string list \<Rightarrow> string option" where
  "host_address host [] = None"
| "host_address host (entry # es) = (case str_cut CHR '':'' entry of (name, ip, ok) \<Rightarrow>
     if ok \<and> name = host then Some ip else host_address host es)"

definition kata_endpoint :: "(string \<Rightarrow> parsed_url option) \<Rightarrow> (parsed_url \<Rightarrow> string) \<Rightarrow> string \<Rightarrow> string list \<Rightarrow> (config_error, string) result" where
  "kata_endpoint parse print e hosts = (if hosts = [] then Inr e
     else case parse e of None \<Rightarrow> Inl (CEndpoint e)
     | Some u \<Rightarrow> if pu_hostname u = [] then Inl (CEndpoint e)
         else (case host_address (pu_hostname u) hosts of None \<Rightarrow> Inl CNotAttached
           | Some ip \<Rightarrow> Inr (print (u\<lparr>pu_hostname := ip\<rparr>))))"

definition dedupe_nonempty :: "string list \<Rightarrow> string list" where
  "dedupe_nonempty xs = fold (\<lambda>x acc. if x = [] \<or> x \<in> set acc then acc else acc @ [x]) xs []"

definition proxy_container_names :: "(string \<Rightarrow> parsed_url option) \<Rightarrow> worker_proxy option \<Rightarrow> string \<Rightarrow> bool \<Rightarrow> string list" where
  "proxy_container_names parse proxy http_url no_internet = dedupe_nonempty
     ((case proxy of None \<Rightarrow> [] | Some p \<Rightarrow> [endpoint_host parse (wp_endpoint p)]) @
      (if no_internet then [] else [endpoint_host parse http_url]))"

text \<open>The endpoints of a proxy carry no credentials, queries or fragments.\<close>

definition plain_endpoint :: "(string \<Rightarrow> parsed_url option) \<Rightarrow> string \<Rightarrow> bool" where
  "plain_endpoint parse e \<longleftrightarrow> e = [] \<or> (case parse e of None \<Rightarrow> False
     | Some u \<Rightarrow> \<not> pu_user u \<and> pu_query u = [] \<and> pu_fragment u = [])"

section \<open>The environment\<close>

definition claude_env :: "(string \<Rightarrow> parsed_url option) \<Rightarrow> string \<Rightarrow> string \<Rightarrow> bool \<Rightarrow> (config_error, string list) result" where
  "claude_env parse endpoint placeholder oauth = (case parse endpoint of None \<Rightarrow> Inl (CEndpoint endpoint)
     | Some u \<Rightarrow>
        if pu_scheme u \<notin> {''http'', ''https''} \<or> (pu_hostname u = [] \<and> pu_port u = []) \<or> pu_user u \<or> pu_query u \<noteq> [] \<or> pu_fragment u \<noteq> [] \<or>
           contains_any endpoint [CHR 0x00, CHR 0x0D, CHR 0x0A] then Inl (CEndpoint endpoint)
        else Inr [''ANTHROPIC_BASE_URL='' @ endpoint,
          ''ANTHROPIC_API_KEY='' @ (if oauth then [] else placeholder), ''CLAUDE_CODE_OAUTH_TOKEN='' @ (if oauth then placeholder else []),
          ''ANTHROPIC_AUTH_TOKEN='', ''ANTHROPIC_PROFILE='', ''CLAUDE_CODE_OAUTH_REFRESH_TOKEN='', ''CLAUDE_CODE_OAUTH_SCOPES='',
          ''CLAUDE_CODE_USE_BEDROCK='', ''CLAUDE_CODE_USE_VERTEX='', ''CLAUDE_CODE_USE_FOUNDRY='',
          ''CLAUDE_CODE_DISABLE_NONESSENTIAL_TRAFFIC=1''])"

definition base_env :: "run_options \<Rightarrow> string list" where
  "base_env opt = [''CODEX_DOCK_VERIFIED_KATA=0'', ''CODEX_SANDBOX=1'', ''DOCK_AGENT='' @ ro_agent opt,
     ''DOCK_SHELL='' @ (if ro_shell_type opt = [] then ''bash'' else ro_shell_type opt)]"

definition want_codex :: "run_options \<Rightarrow> bool" where
  "want_codex opt \<longleftrightarrow> ro_agent opt \<in> {''codex'', []} \<and> ro_provider opt \<in> {[], ''openai''}"

definition want_claude :: "run_options \<Rightarrow> bool" where
  "want_claude opt \<longleftrightarrow> ro_agent opt \<in> {''claude'', []} \<and> ro_provider opt \<in> {[], ''anthropic''}"

definition codex_env :: "worker_proxy \<Rightarrow> run_options \<Rightarrow> string \<Rightarrow> string \<Rightarrow> string list" where
  "codex_env p opt url token = (if \<not> want_codex opt then [] else
     (if ro_model_policy opt \<noteq> None \<or> wp_policy_active p then [''CODEX_DOCK_CODEX_HTTP=1''] else []) @
     [''CODEX_AUTH_PROXY_URL='' @ url, ''CODEX_TOKEN='' @ token, ''OPENAI_BASE_URL='' @ url @ ''/v1''] @
     (if wp_oauth p then [''CODEX_REFRESH_TOKEN_URL_OVERRIDE='' @ url @ ''/oauth/token?cdx='' @ token] else []))"

definition egress_env :: "(string \<Rightarrow> parsed_url option) \<Rightarrow> string \<Rightarrow> string \<Rightarrow> string list" where
  "egress_env parse url egress = (let no = join_with '','' (dedupe_nonempty [endpoint_host parse url, endpoint_host parse egress, ''localhost'', ''127.0.0.1'']) in
     map (\<lambda>k. k @ egress) [''HTTP_PROXY='', ''HTTPS_PROXY='', ''http_proxy='', ''https_proxy=''] @ [''NO_PROXY='' @ no, ''no_proxy='' @ no])"

definition proxy_env :: "(string \<Rightarrow> parsed_url option) \<Rightarrow> (parsed_url \<Rightarrow> string) \<Rightarrow> string \<Rightarrow> string list \<Rightarrow> worker_proxy \<Rightarrow> run_options \<Rightarrow> string \<Rightarrow>
     (config_error, string list) result" where
  "proxy_env parse print http_url hosts p opt token =
     bindE (kata_endpoint parse print (wp_endpoint p) hosts) (\<lambda>url.
     bindE (if want_claude opt \<and> wp_anthropic p then claude_env parse (url @ ''/anthropic'') token (wp_anthropic_oauth p) else Inr []) (\<lambda>claude.
     bindE (if ro_no_internet opt then Inr []
            else bindE (if http_url = [] then Inr url else kata_endpoint parse print http_url hosts) (\<lambda>egress. Inr (egress_env parse url egress))) (\<lambda>net.
     Inr (codex_env p opt url token @ claude @ net))))"

definition task_env :: "(string list \<Rightarrow> string) \<Rightarrow> run_options \<Rightarrow> string \<Rightarrow> string list" where
  "task_env json opt script =
     (if ro_watch opt then [''CHOKIDAR_USEPOLLING=true'', ''CHOKIDAR_INTERVAL=1000'', ''WATCHPACK_POLLING=1000''] else []) @
     (if ro_exec opt \<noteq> [] then [''DOCK_EXEC_CMD='' @ ro_exec opt] else []) @
     (if ro_task opt \<noteq> [] then [''CODEX_TASK='' @ ro_task opt] else []) @
     (if ro_direct opt then [''DOCK_DIRECT_AGENT=1''] else []) @
     (if ro_args opt \<noteq> [] then [''DOCK_AGENT_ARGS_JSON='' @ json (ro_args opt)] else []) @
     (if ro_model opt \<noteq> [] then [''CODEX_MODEL='' @ ro_model opt] else []) @
     (if ro_approval opt \<notin> {[], ''suggest''} then [''CODEX_APPROVAL_MODE='' @ ro_approval opt] else []) @
     (if ro_agents_md opt \<noteq> [] then [''CODEX_AGENTS_MD='' @ ro_agents_md opt] else []) @
     (if script \<noteq> [] then [''CODEX_INSTALL_SCRIPT='' @ script] else []) @
     (if ro_user opt \<noteq> [] \<or> ro_read_only_root opt then [''HOME=/var/tmp/codex-home''] else []) @
     (if ro_read_only_root opt then [''XDG_CACHE_HOME=/var/tmp/codex-home/.cache''] else [])"

text \<open>The value of the last entry with a key.\<close>

definition last_entry :: "string \<Rightarrow> string list \<Rightarrow> string" where
  "last_entry key env = fold (\<lambda>e acc. if prefix key e then trim_prefix e key else acc) env []"

definition compatibility_env :: "(string \<Rightarrow> parsed_url option) \<Rightarrow> run_options \<Rightarrow> string list \<Rightarrow> (config_error, string list) result" where
  "compatibility_env parse opt env = (let endpoint = last_entry ''HTTP_PROXY='' env; no = last_entry ''NO_PROXY='' env in
     bindE (refuseE ((ro_ssh opt \<or> ro_jvm opt) \<and> endpoint = []) CNoEgress) (\<lambda>_.
     bindE (if \<not> ro_jvm opt then Inr [] else case parse endpoint of None \<Rightarrow> Inl CJvm
       | Some u \<Rightarrow> if pu_hostname u = [] \<or> pu_port u = [] then Inl CJvm
           else Inr [''JAVA_TOOL_OPTIONS=-Dhttp.proxyHost='' @ pu_hostname u @ '' -Dhttp.proxyPort='' @ pu_port u @ '' -Dhttps.proxyHost='' @ pu_hostname u @
             '' -Dhttps.proxyPort='' @ pu_port u @ '' -Dhttp.nonProxyHosts='' @ map (\<lambda>c. if c = CHR '','' then CHR ''|'' else c) no]) (\<lambda>jvm.
     Inr (env @ (if ro_ssh opt then [''DOCK_SSH_PROXY=1''] else []) @ jvm @
       (if ro_ca opt \<noteq> [] then [''DOCK_CA_BUNDLE=/run/cxd-custom-ca.pem''] else [])))))"

definition build_env :: "(string \<Rightarrow> parsed_url option) \<Rightarrow> (parsed_url \<Rightarrow> string) \<Rightarrow> (string list \<Rightarrow> string) \<Rightarrow> string \<Rightarrow> string list \<Rightarrow> worker_proxy option \<Rightarrow>
     run_options \<Rightarrow> string \<Rightarrow> string \<Rightarrow> (config_error, string list) result" where
  "build_env parse print json http_url hosts proxy opt token script =
     bindE (case proxy of None \<Rightarrow> Inr [] | Some p \<Rightarrow> proxy_env parse print http_url hosts p opt token) (\<lambda>env.
     compatibility_env parse opt (base_env opt @ env @ task_env json opt script))"

section \<open>Labels\<close>

text \<open>How the saved policies are encoded.\<close>

record label_codec =
  lb_storage :: "temp_storage list \<Rightarrow> string"
  lb_lifecycle :: "lifecycle \<Rightarrow> string"
  lb_filesystem :: "filesystem \<Rightarrow> string"

definition request_labels :: "run_options \<Rightarrow> (config_error, (string \<times> string) list) result" where
  "request_labels opt = (case ro_request opt of None \<Rightarrow> Inr []
     | Some (key, fingerprint) \<Rightarrow>
        if length key \<noteq> 64 \<or> length fingerprint \<noteq> 64 \<or> length (ro_allocation opt) \<noteq> 32 \<or> \<not> hex_decodes (key @ fingerprint @ ro_allocation opt)
        then Inl CRequest else Inr [(''codex-dock.request-key'', key), (''codex-dock.request-fingerprint'', fingerprint)])"

definition proxy_labels :: "worker_proxy option \<Rightarrow> run_options \<Rightarrow> (config_error, (string \<times> string) list) result" where
  "proxy_labels proxy opt = (case proxy of None \<Rightarrow> Inr []
     | Some p \<Rightarrow>
        bindE (case ro_model_policy opt of None \<Rightarrow> Inr []
          | Some e \<Rightarrow> if 4096 < length e + length ''codex-dock.token-model-policy'' then Inl CModelPolicy
              else Inr [(''codex-dock.token-model-policy'', e)]) (\<lambda>policy.
        Inr ((if wp_profile p \<noteq> [] then [(''codex-dock.auth-profile'', wp_profile p), (''codex-dock.auth-profile-connection'', wp_connection p)] else []) @
          [(''codex-dock.proxy-container-url'', wp_endpoint p), (''codex-dock.proxy-admin-url'', wp_admin p), (''codex-dock.token-ttl'', show_int (ro_token_ttl opt))] @
          policy @ (case ro_identity opt of None \<Rightarrow> [] | Some e \<Rightarrow> [(''codex-dock.token-identity'', e)]))))"

definition policy_labels :: "label_codec \<Rightarrow> run_options \<Rightarrow> (config_error, (string \<times> string) list) result" where
  "policy_labels lb opt = (let f = ro_filesystem opt; fs = lb_filesystem lb f in
     bindE (if deny_read f = [] \<and> deny_write f = [] then Inr [] else if 4096 < length fs then Inl CLabelLimit else Inr [(''codex-dock.filesystem'', fs)]) (\<lambda>restricted.
     Inr ((if ro_storage opt \<noteq> [] then [(''codex-dock.temporary-storage'', lb_storage lb (ro_storage opt))] else []) @
       (if ro_lifecycle opt \<noteq> \<lparr>max_lifetime = 0, idle_timeout = 0, retention = 0\<rparr> then [(''codex-dock.lifecycle'', lb_lifecycle lb (ro_lifecycle opt))] else []) @
       restricted)))"

definition run_labels :: "label_codec \<Rightarrow> worker_proxy option \<Rightarrow> string \<Rightarrow> string \<Rightarrow> string \<Rightarrow> run_options \<Rightarrow> (config_error, (string \<times> string) list) result" where
  "run_labels lb proxy isolation registration profile opt =
     bindE (request_labels opt) (\<lambda>request. bindE (proxy_labels proxy opt) (\<lambda>proxied. bindE (policy_labels lb opt) (\<lambda>policy.
     Inr ([(''codex-dock.managed'', ''true''), (''codex-dock.branch'', ro_branch opt), (''codex-dock.task'', ro_task opt),
       (''codex-dock.isolation'', isolation), (''codex-dock.runtime'', registration), (''codex-dock.resource-profile'', profile)] @
       request @ (if ro_worktree opt \<noteq> [] then [(''codex-dock.worktree'', ro_worktree opt)] else []) @ proxied @
       (if ro_image_id opt \<noteq> [] then [(''codex-dock.image-id'', ro_image_id opt)] else []) @
       (if ro_read_only_root opt then [(''codex-dock.read-only-rootfs'', ''true'')] else []) @ policy))))"

section \<open>Login sessions\<close>

definition login_user_ok :: "string \<Rightarrow> bool" where
  "login_user_ok user \<longleftrightarrow> (case str_cut CHR '':'' user of (uid, gid, ok) \<Rightarrow>
     ok \<and> list_all (\<lambda>raw. case parse_uint 32 raw of None \<Rightarrow> False | Some n \<Rightarrow> n \<noteq> 0) [uid, gid])"

definition login_home :: string where "login_home = ''/var/tmp/codex-home''"

definition configure_login :: "(string \<Rightarrow> parsed_url option) \<Rightarrow> (parsed_url \<Rightarrow> string) \<Rightarrow> string \<Rightarrow> string list \<Rightarrow> run_options \<Rightarrow>
     container_config \<times> host_config \<Rightarrow> (config_error, container_config) result" where
  "configure_login parse print endpoint hosts opt = (\<lambda>(c, h).
     bindE (refuseE (\<not> login_user_ok (ro_user opt)) CLoginUser) (\<lambda>_.
     bindE (refuseE (\<not> ro_read_only_root opt \<or> ro_runtime opt \<noteq> ''kata'' \<or> hc_mounts h \<noteq> []) CLoginHost) (\<lambda>_.
     bindE (kata_endpoint parse print endpoint hosts) (\<lambda>proxy.
     case parse proxy of None \<Rightarrow> Inl CLoginEndpoint
     | Some u \<Rightarrow>
        if pu_scheme u \<noteq> ''http'' \<or> pu_hostname u = [] \<or> pu_user u \<or> pu_query u \<noteq> [] \<or> pu_fragment u \<noteq> [] \<or> pu_path u \<noteq> [] then Inl CLoginEndpoint
        else Inr (c\<lparr>cc_labels := AList.update ''codex-dock.authentication-session'' ''true'' (cc_labels c), cc_entrypoint := [''/bin/sleep''],
          cc_cmd := [''900''], cc_dir := login_home,
          cc_env := [''HOME='' @ login_home, ''XDG_CONFIG_HOME='' @ login_home @ ''/.config'', ''XDG_CACHE_HOME='' @ login_home @ ''/.cache'',
            ''CODEX_HOME='' @ login_home @ ''/.codex'', ''CLAUDE_CONFIG_DIR='' @ login_home @ ''/.claude'',
            ''CLAUDE_CODE_DISABLE_NONESSENTIAL_TRAFFIC=1'', ''DISABLE_AUTOUPDATER=1'', ''BROWSER=/bin/true''] @
            map (\<lambda>k. k @ proxy) [''HTTP_PROXY='', ''HTTPS_PROXY='', ''http_proxy='', ''https_proxy=''] @
            [''NO_PROXY=localhost,127.0.0.1'', ''no_proxy=localhost,127.0.0.1'']\<rparr>)))))"

section \<open>The configuration of a run\<close>

text \<open>The configuration before the bootstrap is put around the command.\<close>

definition worker_host :: "run_options \<Rightarrow> bind list \<Rightarrow> string \<Rightarrow> string \<Rightarrow> string \<Rightarrow> string list \<Rightarrow> host_config" where
  "worker_host opt mounts net isolation registration hosts =
     (let h = build_host_config mounts net;
          h = h\<lparr>hc_masked := deny_read (ro_filesystem opt), hc_read_only_paths := deny_write (ro_filesystem opt)\<rparr>;
          h = (if ro_read_only_root opt then h\<lparr>hc_read_only_root := True, hc_tmpfs := default_tmpfs\<rparr> else h);
          h = apply_runtime isolation registration hosts h in
      h\<lparr>hc_tmpfs := fold (\<lambda>v. AList.update (ts_target v) (mount_options v)) (ro_storage opt) (hc_tmpfs h)\<rparr>)"

definition shell_binary :: "string \<Rightarrow> string" where
  "shell_binary t = (if t = ''zsh'' then ''/bin/zsh'' else ''/bin/bash'')"

definition worker_container :: "run_options \<Rightarrow> bool \<Rightarrow> bool \<Rightarrow> (string \<times> string) list \<Rightarrow> string list \<Rightarrow> container_config" where
  "worker_container opt detach shell labels env = \<lparr>cc_image = ro_image opt, cc_env = env, cc_dir = ''/workspace'', cc_labels = labels,
     cc_user = ro_user opt, cc_interactive = \<not> detach, cc_entrypoint = (if shell then [shell_binary (ro_shell_type opt)] else []),
     cc_cmd = (if \<not> shell \<and> \<not> ro_login opt then [''/entrypoint.sh''] else [])\<rparr>"

section \<open>Names and commands\<close>

text \<open>\<open>names\<close> and \<open>suffix_at\<close> give what each call of the generators returns; \<open>taken\<close> is asked about each candidate.\<close>

definition pick_unique_name :: "(nat \<Rightarrow> string) \<Rightarrow> (nat \<Rightarrow> string) \<Rightarrow> (string \<Rightarrow> bool) \<Rightarrow> nat \<Rightarrow> string" where
  "pick_unique_name names suffix_at taken n =
     (case find (\<lambda>s. \<not> taken s) (map names [0..<n]) of Some s \<Rightarrow> s
      | None \<Rightarrow> (let base = names n in
          case find (\<lambda>s. \<not> taken s) (map (\<lambda>i. base @ ''-'' @ suffix_at i) [0..<n]) of Some s \<Rightarrow> s
          | None \<Rightarrow> base @ ''-'' @ suffix_at n))"

definition build_codex_args :: "run_options \<Rightarrow> string list" where
  "build_codex_args opt = ''codex'' #
     (if ro_approval opt = ''auto-edit'' then [''--ask-for-approval'', ''on-request'']
      else if ro_approval opt = ''full-auto'' then [''--ask-for-approval'', ''never'']
      else if ro_approval opt = ''danger'' then [''--dangerously-bypass-approvals-and-sandbox''] else []) @
     (if ro_model opt \<noteq> [] then [''--model'', ro_model opt] else []) @ (if ro_task opt \<noteq> [] then [ro_task opt] else [])"

end
