(* ===== verification/WorkerChecks.thy ===== *)
theory WorkerChecks
  imports WorkerEnv WorkerCleanup
begin

text \<open>
  What the configuration of a worker guarantees: the one a run builds passes the check every start repeats, accepted
  mounts stay away from protected files, and a token issued to a worker can be found again to revoke it.
\<close>

section \<open>Mounts\<close>

text \<open>Containment of absolute paths: the path itself and everything under it.  Everything is below the root directory.\<close>

definition below :: "string \<Rightarrow> string \<Rightarrow> bool" where
  "below x p \<longleftrightarrow> x = p \<or> prefix (if p = ''/'' then p else p @ ''/'') x"

lemma below_prefix: "below x p \<Longrightarrow> prefix p x"
  by (auto simp: below_def dest: append_prefixD split: if_splits)

lemma below_step: "prefix a b \<Longrightarrow> below x a \<Longrightarrow> prefix b x \<Longrightarrow> below b a"
  by (cases "a = b") (auto simp: below_def prefix_def append_eq_Cons_conv Cons_eq_append_conv split: if_splits)

text \<open>Two directories above one path lie above each other.\<close>

lemma below_comparable: "below x a \<Longrightarrow> below x b \<Longrightarrow> below a b \<or> below b a"
  using below_prefix below_step prefix_same_cases by metis

text \<open>The code's comparisons are this containment, except that a source is compared with the root directory.\<close>

lemma source_overlaps_below: "s \<noteq> ''/'' \<Longrightarrow> p \<noteq> ''/'' \<Longrightarrow> source_overlaps s p \<longleftrightarrow> below s p \<or> below p s"
  by (auto simp: source_overlaps_def below_def)

lemma split_on_parts: "w \<in> set (split_on c s) \<Longrightarrow> c \<notin> set w"
  by (induction s arbitrary: w) (auto split: if_splits list.splits)

lemma clean_parts_words: "w \<in> set (clean_parts rooted stk ws) \<Longrightarrow> (\<forall>v \<in> set stk. v \<noteq> [] \<and> CHR ''/'' \<notin> set v) \<Longrightarrow>
    (\<forall>v \<in> set ws. CHR ''/'' \<notin> set v) \<Longrightarrow> w \<noteq> [] \<and> CHR ''/'' \<notin> set w"
  by (induction rooted stk ws rule: clean_parts.induct) (auto split: if_splits list.splits)

lemma join_with_last: "ws \<noteq> [] \<Longrightarrow> last ws \<noteq> [] \<Longrightarrow> join_with sep ws \<noteq> [] \<and> last (join_with sep ws) = last (last ws)"
  by (induction sep ws rule: join_with.induct) (auto split: if_splits)

text \<open>A clean path ends in a slash only when it is the root directory.\<close>

lemma path_clean_slash: "suffix ''/'' (path_clean p) \<Longrightarrow> path_clean p = ''/''"
proof -
  let ?ws = "clean_parts (is_abs p) [] (split_on CHR ''/'' p)"
  have w: "w \<noteq> [] \<and> CHR ''/'' \<notin> set w" if "w \<in> set ?ws" for w
    using clean_parts_words [OF that] split_on_parts by auto
  assume s: "suffix ''/'' (path_clean p)"
  show "path_clean p = ''/''"
  proof (cases "?ws = []")
    case False
    then have l: "last ?ws \<noteq> []" "CHR ''/'' \<notin> set (last ?ws)" using w last_in_set by blast+
    have "join_with ''/'' ?ws \<noteq> []" "last (join_with ''/'' ?ws) \<noteq> CHR ''/''"
      using join_with_last [OF False l(1), of "''/''"] l last_in_set by metis+
    then have "last (path_clean p) \<noteq> CHR ''/''" by (cases "is_abs p") (simp_all add: path_clean_def)
    with s show ?thesis by (auto simp: suffix_def)
  qed (use s in \<open>auto simp: path_clean_def suffix_def split: if_splits\<close>)
qed

lemma target_overlaps_below:
  "t \<in> set trusted_targets \<Longrightarrow> below (path_clean d) t \<or> below t (path_clean d) \<Longrightarrow> target_overlaps (path_clean d) t"
  using path_clean_slash [of d]
  by (cases "path_clean d = ''/''")
    (auto simp: target_overlaps_def below_def trim_suffix_def trusted_targets_def guest_guard_def guest_control_def)

lemma protect_mounts_None: "protect_mounts resolve node bs = None \<longleftrightarrow> (\<forall>b \<in> set bs. protect_mount resolve node b = None)"
  by (simp add: protect_mounts_def first_err_None_iff)

lemma protect_mount_None:
  "protect_mount resolve node b = None \<longleftrightarrow> (\<exists>s. resolve (bd_source b) = Some s \<and>
     \<not> list_ex (source_overlaps s) (kn_protected node) \<and> \<not> list_ex (target_overlaps (path_clean (bd_target b))) trusted_targets)"
  by (auto simp: protect_mount_def split: option.split)

text \<open>C33: No file is shared through an accepted mount.  No path lies below the target of the mount and below a path the guest is
  verified through; and no path lies below its resolved source and below a protected path of the node, provided neither of
  these two is the root directory itself, which the code's comparison of sources does not see (the lemma after this one).\<close>

theorem mounts_separate:
  assumes "protect_mounts resolve node bs = None" and "b \<in> set bs" and "resolve (bd_source b) = Some s"
    and "s \<noteq> ''/''" and "''/'' \<notin> set (kn_protected node)"
  shows "\<not> (list_ex (\<lambda>p. below x s \<and> below x p) (kn_protected node)) \<and>
     \<not> (list_ex (\<lambda>t. below x (path_clean (bd_target b)) \<and> below x t) trusted_targets)"
proof -
  have m: "\<not> list_ex (source_overlaps s) (kn_protected node)" "\<not> list_ex (target_overlaps (path_clean (bd_target b))) trusted_targets"
    using assms(1-3) by (auto simp: protect_mounts_None protect_mount_None)
  have "\<not> (below x s \<and> below x p)" if p: "p \<in> set (kn_protected node)" for p
  proof -
    have "p \<noteq> ''/''" using p assms(5) by auto
    then show ?thesis
      using m(1) p below_comparable [of x s p] source_overlaps_below [OF assms(4)] by (auto simp: list_ex_iff)
  qed
  moreover have "\<not> (below x (path_clean (bd_target b)) \<and> below x t)" if "t \<in> set trusted_targets" for t
    using m(2) that below_comparable [of x "path_clean (bd_target b)" t] target_overlaps_below [OF that] by (auto simp: list_ex_iff)
  ultimately show ?thesis by (auto simp: list_ex_iff)
qed

text \<open>The exception: the root directory of the host, with every protected path below it, is accepted as a source.\<close>

lemma root_source_unprotected:
  "protect_mounts Some \<lparr>kn_protected = [''/var/lib/codex-dock''], kn_launcher = ''/l'', kn_stamp = ''s'', kn_parent = Some\<rparr>
     [\<lparr>bd_source = ''/'', bd_target = ''/host'', bd_read_only = False\<rparr>] = None"
  by code_simp

section \<open>The configuration a run builds\<close>

definition kata_labels :: "(string \<times> string) list \<Rightarrow> string \<Rightarrow> string \<Rightarrow> (string \<times> string) list" where
  "kata_labels ls net proxies = AList.update ''codex-dock.proxy-hosts'' proxies (AList.update ''codex-dock.network-id'' net ls)"

lemma run_labels_fixed:
  assumes "run_labels lb proxy isolation registration profile opt = Inr ls"
  shows "map_of ls ''codex-dock.isolation'' = Some isolation" "map_of ls ''codex-dock.runtime'' = Some registration"
    "map_of ls ''codex-dock.resource-profile'' = Some profile" "map_of ls ''codex-dock.managed'' = Some ''true''"
  using assms by (auto simp: run_labels_def result_simps)

lemma request_keys: "request_labels opt = Inr rs \<Longrightarrow> fst ` set rs \<subseteq> {''codex-dock.request-key'', ''codex-dock.request-fingerprint''}"
  by (auto simp: request_labels_def split: option.splits if_splits)

lemma proxy_keys: "proxy_labels proxy opt = Inr rs \<Longrightarrow>
   fst ` set rs \<subseteq> {''codex-dock.auth-profile'', ''codex-dock.auth-profile-connection'', ''codex-dock.proxy-container-url'',
     ''codex-dock.proxy-admin-url'', ''codex-dock.token-ttl'', ''codex-dock.token-model-policy'', ''codex-dock.token-identity''}"
  by (auto simp: proxy_labels_def result_simps split: option.splits if_splits)

lemma not_key: "fst ` set rs \<subseteq> K \<Longrightarrow> k \<notin> K \<Longrightarrow> map_of rs k = None"
  by (auto simp: map_of_eq_None_iff)

lemma run_labels_storage:
  assumes "run_labels lb proxy isolation registration profile opt = Inr ls"
  shows "map_of ls ''codex-dock.temporary-storage'' = (if ro_storage opt = [] then None else Some (lb_storage lb (ro_storage opt)))"
    "map_of ls ''codex-dock.read-only-rootfs'' = (if ro_read_only_root opt then Some ''true'' else None)"
proof -
  from assms [unfolded run_labels_def bindE_Inr_iff sum.inject] obtain rq px po where r: "request_labels opt = Inr rq" "proxy_labels proxy opt = Inr px" "policy_labels lb opt = Inr po" and
    ls: "[(''codex-dock.managed'', ''true''), (''codex-dock.branch'', ro_branch opt), (''codex-dock.task'', ro_task opt),
       (''codex-dock.isolation'', isolation), (''codex-dock.runtime'', registration), (''codex-dock.resource-profile'', profile)] @
       rq @ (if ro_worktree opt \<noteq> [] then [(''codex-dock.worktree'', ro_worktree opt)] else []) @ px @
       (if ro_image_id opt \<noteq> [] then [(''codex-dock.image-id'', ro_image_id opt)] else []) @
       (if ro_read_only_root opt then [(''codex-dock.read-only-rootfs'', ''true'')] else []) @ po = ls"
    by blast
  have n: "map_of rq ''codex-dock.temporary-storage'' = None" "map_of rq ''codex-dock.read-only-rootfs'' = None"
    by (rule not_key [OF request_keys [OF r(1)]], simp)+
  have m: "map_of px ''codex-dock.temporary-storage'' = None" "map_of px ''codex-dock.read-only-rootfs'' = None"
    by (rule not_key [OF proxy_keys [OF r(2)]], simp)+
  have p: "map_of po ''codex-dock.temporary-storage'' = (if ro_storage opt = [] then None else Some (lb_storage lb (ro_storage opt)))"
    "map_of po ''codex-dock.read-only-rootfs'' = None"
    using r(3) by (auto simp: policy_labels_def Let_def result_simps split: if_splits)
  show "map_of ls ''codex-dock.temporary-storage'' = (if ro_storage opt = [] then None else Some (lb_storage lb (ro_storage opt)))"
    unfolding ls [symmetric] using n(1) m(1) p(1) by (simp add: map_add_def)
  show "map_of ls ''codex-dock.read-only-rootfs'' = (if ro_read_only_root opt then Some ''true'' else None)"
    unfolding ls [symmetric] using n(2) m(2) p(2) by (simp add: map_add_def)
qed


lemma storage_tmpfs:
  "distinct (map ts_target vs) \<Longrightarrow> v \<in> set vs \<Longrightarrow>
   map_of (fold (\<lambda>v. AList.update (ts_target v) (mount_options v)) vs ts) (ts_target v) = Some (mount_options v)"
proof (induction vs arbitrary: ts)
  case (Cons u vs)
  have k: "ts_target u \<notin> ts_target ` set ws \<Longrightarrow> map_of (fold (\<lambda>v. AList.update (ts_target v) (mount_options v)) ws us) (ts_target u) = map_of us (ts_target u)" for ws us
    by (induction ws arbitrary: us) (auto simp: AList.update_conv')
  from Cons show ?case by (cases "v = u") (auto simp: k AList.update_conv')
qed simp

lemma storage_tmpfs_keys:
  "fst ` set (fold (\<lambda>v. AList.update (ts_target v) (mount_options v)) vs ts) = fst ` set ts \<union> ts_target ` set vs"
  by (induction vs arbitrary: ts) (auto simp: AList.dom_update)

lemma storage_tmpfs_some:
  "map_of ts k = Some x \<Longrightarrow> x \<noteq> [] \<Longrightarrow> \<exists>y. map_of (fold (\<lambda>v. AList.update (ts_target v) (mount_options v)) vs ts) k = Some y \<and> y \<noteq> []"
proof (induction vs arbitrary: ts x)
  case (Cons u vs)
  have "mount_options u \<noteq> []" by (simp add: mount_options_def)
  with Cons.IH [of "AList.update (ts_target u) (mount_options u) ts"] Cons.prems show ?case
    by (cases "k = ts_target u") (auto simp: AList.update_conv')
qed simp


lemma refuseE_iff [result_simps]: "refuseE b e = Inr u \<longleftrightarrow> \<not> b" "refuseE b e = Inl e' \<longleftrightarrow> b \<and> e' = e"
  by (auto simp: refuseE_def)

lemma refuseE_simps [simp]: "refuseE False e = Inr ()" "refuseE True e = Inl e"
  by (simp_all add: refuseE_def)

lemma worker_host_fields [simp]:
  "hc_network (worker_host opt ms net isol reg hs) = net" "hc_mounts (worker_host opt ms net isol reg hs) = ms"
  "hc_cap_drop (worker_host opt ms net isol reg hs) = [''ALL'']" "hc_cap_add (worker_host opt ms net isol reg hs) = []"
  "hc_security (worker_host opt ms net isol reg hs) = [''no-new-privileges:true'']" "\<not> hc_privileged (worker_host opt ms net isol reg hs)"
  "hc_runtime (worker_host opt ms net isol reg hs) = reg" "hc_ports (worker_host opt ms net isol reg hs) = []"
  "\<not> hc_publish_all (worker_host opt ms net isol reg hs)" "hc_read_only_root (worker_host opt ms net isol reg hs) = ro_read_only_root opt"
  "hc_masked (worker_host opt ms net isol reg hs) = deny_read (ro_filesystem opt)"
  "hc_read_only_paths (worker_host opt ms net isol reg hs) = deny_write (ro_filesystem opt)"
  "hc_extra_hosts (worker_host opt ms net ''kata'' reg hs) = hs" "hc_dns (worker_host opt ms net ''kata'' reg hs) = [''127.0.0.1'']"
  by (simp_all add: worker_host_def build_host_config_def apply_runtime_def Let_def)

lemma worker_host_tmpfs: "hc_tmpfs (worker_host opt ms net isol reg hs) =
   fold (\<lambda>v. AList.update (ts_target v) (mount_options v)) (ro_storage opt) (if ro_read_only_root opt then default_tmpfs else [])"
  by (simp add: worker_host_def build_host_config_def apply_runtime_def Let_def)

lemma bootstrap_fields:
  assumes "bootstrap_config node (Some img) alloc p parent (c0, h0) = Inr (c, h)"
  shows "cc_entrypoint c = [guest_guard, ''wait'', alloc]"
    "cc_labels c = AList.update ''codex-dock.verified-profile'' (kn_stamp node) (AList.update ''codex-dock.allocation'' alloc (cc_labels c0))"
    "h = h0\<lparr>hc_mounts := hc_mounts h0 @ [\<lparr>bd_source = kn_launcher node, bd_target = guest_guard, bd_read_only = True\<rparr>],
       hc_tmpfs := AList.update guest_control ''rw,noexec,nosuid,nodev,size=1048576,mode=1777'' (hc_tmpfs h0),
       hc_memory := rp_guest p, hc_swap := rp_guest p, hc_nano_cpus := rp_cpus p * 1000000000, hc_pids := Some (rp_pids p), hc_cgroup_parent := parent\<rparr>"
  using assms by (auto simp: bootstrap_config_def Let_def split: if_splits)

lemma built_labels:
  assumes "run_labels lb proxy ''kata'' reg profile opt = Inr ls0" and "l = label_of (AList.update ''codex-dock.verified-profile'' stamp
     (AList.update ''codex-dock.allocation'' alloc (kata_labels ls0 net enc)))"
  shows "l ''isolation'' = ''kata''" "l ''runtime'' = reg" "l ''resource-profile'' = profile" "l ''allocation'' = alloc"
    "l ''verified-profile'' = stamp" "l ''network-id'' = net" "l ''proxy-hosts'' = enc" "l ''read-only-rootfs'' = (if ro_read_only_root opt then ''true'' else [])"
  unfolding assms(2) using run_labels_fixed [OF assms(1)] run_labels_storage [OF assms(1)]
  by (simp_all add: label_of_def kata_labels_def AList.update_conv')

lemma built_storage_label:
  assumes "run_labels lb proxy ''kata'' reg profile opt = Inr ls0"
  shows "saved_storage_label (AList.update ''codex-dock.verified-profile'' stamp (AList.update ''codex-dock.allocation'' alloc (kata_labels ls0 net enc)))
    = (if ro_storage opt = [] then [] else lb_storage lb (ro_storage opt))"
  using run_labels_storage [OF assms] by (simp add: saved_storage_label_def kata_labels_def AList.update_conv')

lemma entry_away: "entry_ok v \<Longrightarrow> t \<in> set protected_paths \<Longrightarrow> \<not> paths_overlap (ts_target v) t"
  by (auto simp: entry_ok_def list_ex_iff)

lemma built_topology:
  assumes "validate_topology vs ms ds ro = None" and "list_all entry_ok vs"
  shows "validate_topology vs (ms @ [\<lparr>bd_source = s, bd_target = guest_guard, bd_read_only = True\<rparr>]) ds ro = None"
proof -
  have c: "path_clean guest_guard = guest_guard" by code_simp
  have g: "\<not> paths_overlap (ts_target v) guest_guard" if "v \<in> set vs" for v
    by (rule entry_away) (use that assms(2) in \<open>auto simp: list_all_iff protected_paths_def guest_guard_def\<close>)
  have "storage_fits (ms @ [\<lparr>bd_source = s, bd_target = guest_guard, bd_read_only = True\<rparr>]) ds ro v = None" if "v \<in> set vs" for v
    using assms(1) g [OF that] that c
    by (auto simp: validate_topology_def first_err_None_iff storage_fits_def Let_def paths_overlap_def split: if_splits)
  then show ?thesis by (simp add: validate_topology_def first_err_None_iff)
qed

lemma built_saved_storage:
  assumes r: "run_labels lb proxy ''kata'' reg profile opt = Inr ls0" and n: "normalize_temporary (lb_storage lb) inp = Inr (ro_storage opt)"
    and b: "validate_budget (ro_storage opt) guest = None"
    and t: "validate_topology (ro_storage opt) ms (deny_read (ro_filesystem opt) @ deny_write (ro_filesystem opt)) (ro_read_only_root opt) = None"
    and p: "parse (lb_storage lb (ro_storage opt)) = Inr (ro_storage opt)" "parse [] = Inr []"
    and c: "bootstrap_config node (Some img) alloc rp parent (worker_container opt detach shell (kata_labels ls0 net enc) env,
       worker_host opt ms name ''kata'' reg addresses) = Inr (c, h)"
  shows "validate_saved_storage parse (cc_labels c) h guest = Inr (ro_storage opt)"
proof -
  note f = bootstrap_fields [OF c] and s = normalize_temporary_Inr [OF n]
  have l: "saved_storage_label (cc_labels c) = (if ro_storage opt = [] then [] else lb_storage lb (ro_storage opt))"
    using built_storage_label [OF r] by (simp add: f(2) worker_container_def)
  have d: "distinct (map ts_target (ro_storage opt))"
    using s(2) unfolding disjoint_targets_set distinct_map inj_on_def by (metis paths_overlap_refl)
  have g: "ts_target v \<noteq> guest_control" if "v \<in> set (ro_storage opt)" for v
    using entry_away [of v guest_control] that s(3) by (auto simp: list_all_iff protected_paths_def guest_control_def)
  have m: "list_all (\<lambda>v. map_of (hc_tmpfs h) (ts_target v) = Some (mount_options v)) (ro_storage opt)"
    using g storage_tmpfs [OF d] by (auto simp: f(3) list_all_iff AList.update_conv' worker_host_tmpfs)
  have "fst ` set (hc_tmpfs h) \<subseteq> set (allowed_tmpfs (ro_read_only_root opt) (ro_storage opt))"
    by (auto simp: f(3) AList.dom_update worker_host_tmpfs storage_tmpfs_keys allowed_tmpfs_def default_tmpfs_def)
  then have a: "list_all (\<lambda>(t, x). t \<in> set (allowed_tmpfs (ro_read_only_root opt) (ro_storage opt))) (hc_tmpfs h)" by (auto simp: list_all_iff)
  show ?thesis
    using p b built_topology [OF t s(3)] m a by (simp add: validate_saved_storage_def l f(3))
qed


lemma built_mounts:
  assumes p: "protect_mounts resolve node ms = None"
    and c: "bootstrap_config node (Some img) alloc rp parent (worker_container opt detach shell (kata_labels ls0 net enc) env,
       worker_host opt ms name ''kata'' reg addresses) = Inr (c, h)"
    and l: "label_of (cc_labels c) ''read-only-rootfs'' = (if ro_read_only_root opt then ''true'' else [])"
    and v: "in_config v = c" "in_host v = h"
  shows "validate_mounts resolve node v = Inr ()"
proof -
  note f = bootstrap_fields [OF c]
  let ?l = "\<lparr>bd_source = kn_launcher node, bd_target = guest_guard, bd_read_only = True\<rparr>"
  have m: "hc_mounts h = ms @ [?l]" by (simp add: f(3))
  have "protect_mounts resolve node (filter (\<lambda>b. \<not> launcher_bind node b) (ms @ [?l])) = None"
    using p by (auto simp: protect_mounts_None launcher_bind_def)
  moreover have "list_ex (launcher_bind node) (ms @ [?l])" by (simp add: launcher_bind_def)
  moreover have "tmpfs_of h guest_control \<noteq> []" by (simp add: tmpfs_of_def f(3) AList.update_conv')
  moreover have "tmpfs_of h t \<noteq> []" if ro: "ro_read_only_root opt" and t: "t \<in> {''/tmp'', ''/var/tmp''}" for t
  proof -
    have "\<exists>x. map_of default_tmpfs t = Some x \<and> x \<noteq> []" using t by (auto simp: default_tmpfs_def)
    then obtain y where "map_of (hc_tmpfs (worker_host opt ms name ''kata'' reg addresses)) t = Some y" "y \<noteq> []"
      using storage_tmpfs_some [of default_tmpfs t _ "ro_storage opt"] ro by (auto simp: worker_host_tmpfs)
    then show ?thesis using t by (auto simp: tmpfs_of_def f(3) AList.update_conv' guest_control_def)
  qed
  moreover have "hc_read_only_root h = ro_read_only_root opt" by (simp add: f(3))
  ultimately show ?thesis using l by (simp add: validate_mounts_def v m Let_def)
qed

text \<open>What the check asks of the attachments of a worker whose network has the recorded identifier.\<close>

lemma built_network:
  assumes "hc_network (in_host v) = worker_network name" and "in_name v = ''/'' @ name"
    and "label_of (cc_labels (in_config v)) ''network-id'' = net" and "net \<noteq> []"
  shows "validate_network v = Inr () \<longleftrightarrow> (case in_networks v of None \<Rightarrow> True
      | Some ns \<Rightarrow> (in_running v \<longrightarrow> length ns = 1) \<and>
          list_all (\<lambda>(n, e). n = worker_network name \<and> (e = Some net \<or> \<not> in_running v \<and> e = Some [])) ns)"
proof -
  have "endpoint_ok v net = (\<lambda>(n, e). n = worker_network name \<and> (e = Some net \<or> \<not> in_running v \<and> e = Some []))"
    using assms(1,4) by (auto simp: endpoint_ok_def fun_eq_iff split: option.splits)
  then show ?thesis
    using assms by (auto simp: validate_network_def Let_def worker_network_def trim_prefix_def result_simps refuseE_iff split: option.splits)
qed

text \<open>C32: The configuration a run builds for a Kata worker, with restrictions, temporary filesystems, a read-only root and further
  mounts in any combination a run accepts, passes the check repeated at its creation and at every start exactly when its
  attachments allow it, as long as the node, the profile and the addresses of the proxies are those of the run.  A running
  worker must be attached to one network, its own, under the recorded identifier; one that does not run may be attached to
  no network, and to its own also before the engine has given the endpoint an identifier.\<close>

theorem built_worker_validates:
  assumes "run_labels lb proxy ''kata'' reg (rp_name p) opt = Inr ls"
    and "normalize_temporary (lb_storage lb) inp = Inr (ro_storage opt)"
    and "validate_budget (ro_storage opt) (word_of_int (rp_guest p)) = None"
    and "validate_topology (ro_storage opt) ms (deny_read (ro_filesystem opt) @ deny_write (ro_filesystem opt)) (ro_read_only_root opt) = None"
    and "protect_mounts resolve node ms = None"
    and "bootstrap_config node (Some img) alloc p parent (worker_container opt detach shell (kata_labels ls net enc) env,
       worker_host opt ms (worker_network name) ''kata'' reg addresses) = Inr (c, h)"
    and "kn_parent node alloc = Some parent" and "profiles (rp_name p) = Some p"
    and "parse (lb_storage lb (ro_storage opt)) = Inr (ro_storage opt)" and "parse [] = Inr []"
    and "names enc = Some ps" and "hosts net i ps = Some (sort addresses)" and "net \<noteq> []"
  shows "validate_kata_worker resolve node profiles parse names hosts
     \<lparr>in_id = i, in_name = ''/'' @ name, in_config = c, in_host = h, in_running = running, in_networks = nets\<rparr> = Inr () \<longleftrightarrow>
     (case nets of None \<Rightarrow> True
      | Some ns \<Rightarrow> (running \<longrightarrow> length ns = 1) \<and>
          list_all (\<lambda>(n, e). n = worker_network name \<and> (e = Some net \<or> \<not> running \<and> e = Some [])) ns)"
proof -
  let ?v = "\<lparr>in_id = i, in_name = ''/'' @ name, in_config = c, in_host = h, in_running = running, in_networks = nets\<rparr>"
  note f = bootstrap_fields [OF assms(6)]
  have l: "cc_labels c = AList.update ''codex-dock.verified-profile'' (kn_stamp node) (AList.update ''codex-dock.allocation'' alloc (kata_labels ls net enc))"
    using f(2) by (simp add: worker_container_def)
  note b = built_labels [OF assms(1) refl, of "kn_stamp node" alloc net enc, folded l]
  have "validate_identity node ?v = Inr ()"
    by (simp add: validate_identity_def Let_def b f(1) f(3) assms(7))
  moreover have "validate_limits (profiles (rp_name p)) h = Inr ()"
    by (simp add: validate_limits_def assms(8) f(3))
  moreover have "validate_saved_storage parse (cc_labels c) h (word_of_int (rp_guest p)) = Inr (ro_storage opt)"
    by (rule built_saved_storage [OF assms(1-4) assms(9,10) assms(6)])
  moreover have "validate_mounts resolve node ?v = Inr ()"
    by (rule built_mounts [OF assms(5,6)]) (simp_all add: b)
  moreover have "validate_security h = Inr ()" by (simp add: validate_security_def f(3))
  moreover have n: "hc_network (in_host ?v) = worker_network name" "in_name ?v = ''/'' @ name"
    "label_of (cc_labels (in_config ?v)) ''network-id'' = net" by (simp_all add: b f(3))
  have "validate_network ?v = Inr () \<longleftrightarrow> (case nets of None \<Rightarrow> True
      | Some ns \<Rightarrow> (running \<longrightarrow> length ns = 1) \<and>
          list_all (\<lambda>(n, e). n = worker_network name \<and> (e = Some net \<or> \<not> running \<and> e = Some [])) ns)"
    using built_network [of ?v name net, OF n] assms(13) by (cases nets) simp_all
  ultimately show ?thesis
    using assms(8,11,12) by (auto simp: validate_kata_worker_def Let_def b f(3) result_simps)
qed

section \<open>Tokens\<close>

lemma placeholder_append: "placeholder_in (xs @ ys) = (if placeholder_in xs = [] then placeholder_in ys else placeholder_in xs)"
proof (induction xs)
  case (Cons x xs)
  have "\<not> prefix ''cdx-'' []" by simp
  with Cons show ?case by (auto split: prod.split)
qed simp

lemma placeholder_base: "placeholder_in (base_env opt) = []"
  by (simp add: base_env_def)

lemma placeholder_codex:
  "prefix ''cdx-'' token \<Longrightarrow> placeholder_in (codex_env p opt url token) = (if want_codex opt then token else [])"
  by (simp add: codex_env_def)

lemma placeholder_claude:
  assumes "prefix ''cdx-'' token" and "claude_env parse e token oauth = Inr env"
  shows "placeholder_in env = token"
  using assms by (auto simp: claude_env_def split: option.splits if_splits)

lemma codex_independent: "\<not> want_codex opt \<Longrightarrow> codex_env p opt url token = []"
  by (simp add: codex_env_def)

lemma compatibility_extends: "compatibility_env parse opt env = Inr env' \<Longrightarrow> \<exists>more. env' = env @ more"
  by (auto simp: compatibility_env_def Let_def result_simps)

lemma token_neq: "prefix ''cdx-'' token \<Longrightarrow> token \<noteq> []"
  by auto

text \<open>C34: The token of a worker can be found again in its environment, so that a stop or a removal revokes it; where it cannot be
  found, the environment does not depend on it at all.\<close>

theorem placeholder_recovered:
  assumes "prefix ''cdx-'' token" and "build_env parse print json http_url hosts proxy opt token script = Inr env"
  shows "placeholder_in env = token \<or>
     (\<forall>token'. build_env parse print json http_url hosts proxy opt token' script = Inr env)"
proof (cases proxy)
  case None
  with assms(2) show ?thesis by (simp add: build_env_def)
next
  case (Some p)
  with assms(2) obtain mid where mid: "proxy_env parse print http_url hosts p opt token = Inr mid"
    and c: "compatibility_env parse opt (base_env opt @ mid @ task_env json opt script) = Inr env"
    by (auto simp: build_env_def result_simps)
  from mid obtain url claude net where u: "kata_endpoint parse print (wp_endpoint p) hosts = Inr url"
    and cl: "(if want_claude opt \<and> wp_anthropic p then claude_env parse (url @ ''/anthropic'') token (wp_anthropic_oauth p) else Inr []) = Inr claude"
    and m: "mid = codex_env p opt url token @ claude @ net"
    by (auto simp: proxy_env_def result_simps simp del: split_paired_Ex split del: if_split)
  obtain more where e: "env = base_env opt @ mid @ task_env json opt script @ more" using compatibility_extends [OF c] by auto
  show ?thesis
  proof (cases "want_codex opt")
    case True
    with assms(1) have "placeholder_in env = token" by (simp add: e m placeholder_append placeholder_base placeholder_codex token_neq)
    then show ?thesis ..
  next
    case False
    note codex = codex_independent [OF False]
    show ?thesis
    proof (cases "want_claude opt \<and> wp_anthropic p")
      case True
      with cl have "placeholder_in claude = token" using placeholder_claude [OF assms(1)] by simp
      with assms(1) have "placeholder_in env = token" by (simp add: e m placeholder_append placeholder_base codex token_neq)
      then show ?thesis ..
    next
      case no: False
      have "proxy_env parse print http_url hosts p opt token' = proxy_env parse print http_url hosts p opt token" for token'
        unfolding proxy_env_def codex if_not_P [OF no] ..
      then have "\<forall>token'. build_env parse print json http_url hosts proxy opt token' script = Inr env"
        using assms(2) unfolding build_env_def Some option.case by metis
      then show ?thesis ..
    qed
  qed
qed

text \<open>A token that is issued to a worker and not put into its environment is not revoked with the worker.\<close>

lemma token_outside_environment:
  "build_env (\<lambda>s. None) (\<lambda>u. []) (\<lambda>a. []) [] [] (Some p) opt token script = Inr env \<Longrightarrow>
   \<not> want_codex opt \<Longrightarrow> \<not> wp_anthropic p \<Longrightarrow> ro_no_internet opt \<Longrightarrow> \<not> ro_ssh opt \<Longrightarrow> \<not> ro_jvm opt \<Longrightarrow>
   \<exists>more. env = base_env opt @ task_env (\<lambda>a. []) opt script @ more"
  by (auto simp: build_env_def proxy_env_def kata_endpoint_def codex_env_def result_simps dest!: compatibility_extends)


section \<open>A sample run\<close>

definition sample_opts :: run_options where
  "sample_opts = \<lparr>ro_login = False, ro_runtime = ''kata'', ro_image = ''img'', ro_user = ''1000:1000'', ro_agent = ''codex'', ro_shell_type = [],
     ro_exec = [], ro_task = ''t'', ro_direct = False, ro_args = [], ro_model = [], ro_approval = [], ro_agents_md = [], ro_watch = False,
     ro_no_internet = True, ro_read_only_root = True, ro_provider = [], ro_model_policy = None, ro_identity = None, ro_token_ttl = 3600,
     ro_ssh = False, ro_jvm = False, ro_ca = [], ro_branch = [], ro_worktree = [], ro_request = None, ro_allocation = [], ro_image_id = [],
     ro_storage = [\<lparr>ts_target = ''/cache'', ts_max_bytes = 4096, ts_medium = ''memory'', ts_lifetime = ''vm'', ts_executable = False\<rparr>],
     ro_lifecycle = \<lparr>max_lifetime = 0, idle_timeout = 60, retention = 0\<rparr>,
     ro_filesystem = \<lparr>deny_read = [''/workspace/secret''], deny_write = []\<rparr>\<rparr>"

definition sample_codec :: label_codec where
  "sample_codec = \<lparr>lb_storage = (\<lambda>vs. ''[storage]''), lb_lifecycle = (\<lambda>l. ''{}''), lb_filesystem = (\<lambda>f. ''{fs}'')\<rparr>"

definition sample_knode :: knode where
  "sample_knode = \<lparr>kn_protected = [''/var/lib/codex-dock''], kn_launcher = ''/opt/guard'', kn_stamp = ''stamp'', kn_parent = (\<lambda>a. Some (''/dock/'' @ a))\<rparr>"

definition sample_res :: resource_profile where
  "sample_res = \<lparr>rp_name = ''wide'', rp_cpus = 2, rp_guest = 2 * 2 ^ 30, rp_host = 3 * 2 ^ 30, rp_pids = 512\<rparr>"

definition sample_binds :: "bind list" where
  "sample_binds = build_mounts False ''/home/u/p'' False [\<lparr>bd_source = ''/data'', bd_target = ''/data'', bd_read_only = True\<rparr>]"

definition sample_labels :: "(string \<times> string) list" where
  "sample_labels = projr (run_labels sample_codec None ''kata'' ''io.containerd.kata.v2'' ''wide'' sample_opts)"

definition sample_boot :: "(config_error, container_config \<times> host_config) result" where
  "sample_boot = bootstrap_config sample_knode (Some [''/entry'']) ''al'' sample_res ''/dock/al''
     (worker_container sample_opts True False (kata_labels sample_labels ''net1'' ''[proxy]'') [''A=b''],
      worker_host sample_opts sample_binds (worker_network ''w1'') ''kata'' ''io.containerd.kata.v2'' [''proxy:10.0.0.2''])"

lemma projr_Inr: "\<not> isl x \<Longrightarrow> x = Inr (projr x)"
  by (cases x) auto

lemma sample_run:
  "\<not> isl (run_labels sample_codec None ''kata'' ''io.containerd.kata.v2'' (rp_name sample_res) sample_opts)"
  "normalize_temporary (lb_storage sample_codec) (ro_storage sample_opts) = Inr (ro_storage sample_opts)"
  "validate_budget (ro_storage sample_opts) (word_of_int (rp_guest sample_res)) = None"
  "validate_topology (ro_storage sample_opts) sample_binds (deny_read (ro_filesystem sample_opts) @ deny_write (ro_filesystem sample_opts))
     (ro_read_only_root sample_opts) = None"
  "protect_mounts Some sample_knode sample_binds = None"
  "\<not> isl sample_boot"
  "sort [''proxy:10.0.0.2''] = [''proxy:10.0.0.2'']"
  by code_simp+

theorem built_worker_validates_witness:
  "validate_kata_worker Some sample_knode (\<lambda>n. Some sample_res) (\<lambda>s. Inr (if s = [] then [] else ro_storage sample_opts)) (\<lambda>s. Some [''proxy''])
     (\<lambda>net i ps. Some [''proxy:10.0.0.2'']) \<lparr>in_id = ''c1'', in_name = ''/'' @ ''w1'', in_config = fst (projr sample_boot), in_host = snd (projr sample_boot),
       in_running = True, in_networks = Some [(worker_network ''w1'', Some ''net1'')]\<rparr> = Inr ()"
proof -
  have l: "run_labels sample_codec None ''kata'' ''io.containerd.kata.v2'' (rp_name sample_res) sample_opts = Inr sample_labels"
    using projr_Inr [OF sample_run(1)] by (simp add: sample_labels_def sample_res_def)
  have b: "bootstrap_config sample_knode (Some [''/entry'']) ''al'' sample_res ''/dock/al''
     (worker_container sample_opts True False (kata_labels sample_labels ''net1'' ''[proxy]'') [''A=b''],
      worker_host sample_opts sample_binds (worker_network ''w1'') ''kata'' ''io.containerd.kata.v2'' [''proxy:10.0.0.2''])
     = Inr (fst (projr sample_boot), snd (projr sample_boot))"
    using projr_Inr [OF sample_run(6)] unfolding sample_boot_def by simp
  show ?thesis
    by (subst built_worker_validates [OF l sample_run(2-5) b, where ps = "[''proxy'']"])
      (simp_all add: sample_knode_def sample_codec_def sample_run(7))
qed

theorem mounts_separate_witness:
  "\<not> (list_ex (\<lambda>p. below ''/data/x'' ''/data'' \<and> below ''/data/x'' p) (kn_protected sample_knode)) \<and>
     \<not> (list_ex (\<lambda>t. below ''/data/x'' (path_clean ''/data'') \<and> below ''/data/x'' t) trusted_targets)"
proof -
  have b: "\<lparr>bd_source = ''/data'', bd_target = ''/data'', bd_read_only = True\<rparr> \<in> set sample_binds" by (simp add: sample_binds_def build_mounts_def)
  show ?thesis using mounts_separate [OF sample_run(5) b, of "''/data''" "''/data/x''"] by (simp add: sample_knode_def)
qed

definition sample_url :: parsed_url where
  "sample_url = \<lparr>pu_scheme = ''http'', pu_user = False, pu_hostname = ''proxy'', pu_port = ''8080'', pu_path = [], pu_query = [], pu_fragment = []\<rparr>"

definition sample_proxy_client :: worker_proxy where
  "sample_proxy_client = \<lparr>wp_endpoint = ''http://proxy:8080'', wp_admin = [], wp_oauth = True, wp_anthropic = True, wp_anthropic_oauth = True,
     wp_policy_active = False, wp_profile = [], wp_connection = []\<rparr>"

definition sample_env :: "string \<Rightarrow> (config_error, string list) result" where
  "sample_env token = build_env (\<lambda>s. Some sample_url) (\<lambda>u. ''http://'' @ pu_hostname u) (\<lambda>a. []) [] [''proxy:10.0.0.2''] (Some sample_proxy_client)
     sample_opts token []"

lemma sample_env_built: "\<not> isl (sample_env ''cdx-1'')" "sample_env ''cdx-2'' \<noteq> sample_env ''cdx-1''"
  by code_simp+

theorem placeholder_recovered_witness: "placeholder_in (projr (sample_env ''cdx-1'')) = ''cdx-1''"
proof -
  have p: "prefix ''cdx-'' ''cdx-1''" by simp
  have e: "build_env (\<lambda>s. Some sample_url) (\<lambda>u. ''http://'' @ pu_hostname u) (\<lambda>a. []) [] [''proxy:10.0.0.2''] (Some sample_proxy_client)
     sample_opts ''cdx-1'' [] = Inr (projr (sample_env ''cdx-1''))"
    using projr_Inr [OF sample_env_built(1)] by (simp add: sample_env_def)
  have "\<not> (\<forall>token'. sample_env token' = Inr (projr (sample_env ''cdx-1'')))"
    using sample_env_built projr_Inr [OF sample_env_built(1)] by metis
  with placeholder_recovered [OF p e] show ?thesis unfolding sample_env_def by blast
qed

end
