(* ===== verification/WorkerLaunch.thy ===== *)
theory WorkerLaunch
  imports WorkerChecks WorkerGuards
begin

text \<open>
  Starting workers (\<open>src/internal/sandbox/manager.go\<close> \<open>RunContext\<close>, \<open>StartContext\<close>; \<open>restart_auth.go\<close>; \<open>kata_gate.go\<close>
  \<open>verifyKataGuest\<close>; \<open>environment.go\<close>): the order in which a network, a token, an allocation, a container and its
  guest come to be, and what a failed launch takes back.
\<close>

section \<open>The node and the guests\<close>

text \<open>
  What the execution host reports: the inspection of a container, the probe of its guest, the resource profiles, and how the
  labels decode.  \<open>hs_profile\<close> is the authentication profile of the proxy and its connection, \<open>hs_environment\<close> whether a retained environment
  decodes.
\<close>

record host_site =
  hs_node :: knode
  hs_resolve :: "string \<Rightarrow> string option"
  hs_profiles :: "string \<Rightarrow> resource_profile option"
  hs_storage :: "string \<Rightarrow> (policy_error, temp_storage list) result"
  hs_names :: "string \<Rightarrow> string list option"
  hs_inspect :: "string \<Rightarrow> inspection option"
  hs_probe :: "string \<Rightarrow> (string \<times> string) list option"
  hs_observations :: "string \<Rightarrow> observation list option"
  hs_boot :: string
  hs_token_labels :: "(string \<times> string) list \<Rightarrow> bool"
  hs_profile :: "string \<times> string"
  hs_ready :: nat
  hs_environment :: "string \<Rightarrow> bool"

definition lift_config :: "(config_error, 'a) result \<Rightarrow> 'a wio" where
  "lift_config r = (case r of Inl e \<Rightarrow> throwIO XRejected | Inr x \<Rightarrow> returnIO x)"

definition found :: "'a option \<Rightarrow> 'a wio" where
  "found x = (case x of None \<Rightarrow> throwIO XNotFound | Some y \<Rightarrow> returnIO y)"

text \<open>Every check but the last, then the addresses of the proxies as they are now.\<close>

definition validate_worker :: "host_site \<Rightarrow> string \<Rightarrow> unit wio" where
  "validate_worker hs cid = bindIO trial (\<lambda>_. bindIO (found (hs_inspect hs cid)) (\<lambda>v.
     let ls = cc_labels (in_config v); expected = sort (hc_extra_hosts (in_host v)) in
     bindIO (lift_config (validate_kata_worker (hs_resolve hs) (hs_node hs) (hs_profiles hs) (hs_storage hs) (hs_names hs)
       (\<lambda>_ _ _. Some expected) v)) (\<lambda>_.
     bindIO (found (hs_names hs (label_of ls ''proxy-hosts''))) (\<lambda>ps.
     bindIO (kata_proxy_hosts (label_of ls ''network-id'') cid ps) (\<lambda>actual. whenE (actual \<noteq> expected) XRejected)))))"

definition verify_kata_guest :: "host_site \<Rightarrow> string \<Rightarrow> bool \<Rightarrow> unit wio" where
  "verify_kata_guest hs cid waiting = bindIO trial (\<lambda>_. bindIO (found (hs_inspect hs cid)) (\<lambda>v.
     let ls = cc_labels (in_config v) in
     bindIO (whenE (label_of ls ''verified-profile'' \<noteq> kn_stamp (hs_node hs)) XRejected) (\<lambda>_.
     bindIO trial (\<lambda>_. bindIO trial (\<lambda>_.
     bindIO (case hs_storage hs (saved_storage_label ls) of Inl e \<Rightarrow> throwIO XRejected | Inr s \<Rightarrow> returnIO s) (\<lambda>storage.
     bindIO trial (\<lambda>_.
     bindIO (found (hs_profiles hs (label_of ls ''resource-profile''))) (\<lambda>p.
     bindIO (lift_config (verify_guest (hs_probe hs cid) (label_of ls ''allocation'') (hs_boot hs) (cc_user (in_config v)) waiting p)) (\<lambda>_.
     bindIO (lift_config (verify_temporary_guest (hs_probe hs cid) (hs_observations hs) storage waiting)) (\<lambda>_.
     updIO (\<lambda>w. w\<lparr>dw_verified := cid # dw_verified w\<rparr>)))))))))))"

section \<open>Tokens\<close>

definition profile_unchanged :: "string \<times> string \<Rightarrow> (string \<times> string) list \<Rightarrow> bool" where
  "profile_unchanged = (\<lambda>(current, connection) ls. let saved = lab ls ''auth-profile''; saved_connection = lab ls ''auth-profile-connection'' in
     (saved = [] \<and> saved_connection = [] \<and> current = []) \<or>
     \<not> (saved = [] \<or> saved_connection = [] \<or> saved \<noteq> current \<or> saved_connection \<noteq> connection))"

definition restore_worker_token :: "host_site \<Rightarrow> manager \<Rightarrow> worker \<Rightarrow> unit wio" where
  "restore_worker_token hs mg x = (if worker_placeholder x = [] then returnIO ()
     else bindIO (case mg_proxy mg of Configured \<Rightarrow> returnIO () | Connector \<Rightarrow> trial | NoProxy \<Rightarrow> throwIO XNoProxy) (\<lambda>_.
       bindIO (whenE (\<not> profile_unchanged (hs_profile hs) (wk_labels x) \<or> \<not> hs_token_labels hs (wk_labels x)) XRejected) (\<lambda>_.
       dcall (updIO (\<lambda>w. w\<lparr>dw_tokens := plain_name (wk_name x) # dw_tokens w\<rparr>)))))"

section \<open>Containers\<close>

definition ensure_worker_network :: "string \<Rightarrow> unit wio" where
  "ensure_worker_network name = bindIO (find_network_by_name (worker_network name)) (\<lambda>n. case n of Some _ \<Rightarrow> returnIO ()
   | None \<Rightarrow> dcall (bindIO (getIO dw_fresh) (\<lambda>ids. case ids of [] \<Rightarrow> throwIO XFault
     | i # is \<Rightarrow> updIO (\<lambda>w. w\<lparr>dw_fresh := is, dw_networks := \<lparr>dn_id = i, dn_name = worker_network name, dn_driver = ''bridge'', dn_internal = True,
         dn_ipv6 = False, dn_options = [], dn_labels = [(''codex-dock.managed'', ''true'')], dn_peers = []\<rparr> # dw_networks w\<rparr>))))"

text \<open>An endpoint is added with the address the engine gives it.\<close>

fun connect_proxies :: "string \<Rightarrow> (string \<Rightarrow> string) \<Rightarrow> string list \<Rightarrow> unit wio" where
  "connect_proxies name address [] = returnIO ()"
| "connect_proxies name address (p # ps) =
     bindIO (dcall (bindIO (getIO (\<lambda>w. filter (\<lambda>x. named p (wk_id x) (wk_name x)) (dw_workers w))) (\<lambda>xs. case xs of
       [x] \<Rightarrow> updIO (\<lambda>w. w\<lparr>dw_networks := map (\<lambda>n. if dn_name n = worker_network name \<and> wk_id x \<notin> fst ` set (dn_peers n)
           then n\<lparr>dn_peers := (wk_id x, address p) # dn_peers n\<rparr> else n) (dw_networks w)\<rparr>)
     | _ \<Rightarrow> throwIO XNotFound))) (\<lambda>_. connect_proxies name address ps)"

definition container_create :: "string \<Rightarrow> (string \<times> string) list \<Rightarrow> (string \<times> string) list \<Rightarrow> string list \<Rightarrow> string wio" where
  "container_create name labels mounts env = dcall (bindIO (getIO (\<lambda>w. (dw_fresh w, list_ex (\<lambda>x. plain_name (wk_name x) = name) (dw_workers w)))) (\<lambda>(ids, taken).
     bindIO (whenE taken XExists) (\<lambda>_. case ids of [] \<Rightarrow> throwIO XFault
     | i # is \<Rightarrow> bindIO (updIO (\<lambda>w. w\<lparr>dw_fresh := is, dw_workers := dw_workers w @ [\<lparr>wk_id = i, wk_name = CHR ''/'' # name, wk_labels = labels,
         wk_mounts = mounts, wk_env = env\<rparr>]\<rparr>)) (\<lambda>_. returnIO i))))"

text \<open>A container that starts is no longer verified, and its command not yet released.\<close>

definition container_start :: "string \<Rightarrow> unit wio" where
  "container_start cid = dcall (updIO (\<lambda>w. w\<lparr>dw_running := cid # dw_running w, dw_verified := filter (\<lambda>i. i \<noteq> cid) (dw_verified w),
     dw_released := filter (\<lambda>i. i \<noteq> cid) (dw_released w)\<rparr>))"

definition release_command :: "string \<Rightarrow> unit wio" where
  "release_command cid = dcall (updIO (\<lambda>w. w\<lparr>dw_released := cid # dw_released w\<rparr>))"

fun wait_environment :: "nat \<Rightarrow> string \<Rightarrow> unit wio" where
  "wait_environment 0 cid = trial"
| "wait_environment (Suc n) cid = bindIO (catchIO trial) (\<lambda>_. bindIO ctx_live (\<lambda>_. bindIO (container_inspect cid) (\<lambda>x.
     bindIO (getIO (\<lambda>w. wk_id x \<in> set (dw_running w))) (\<lambda>running. bindIO (whenE (\<not> running) XUnconfirmed) (\<lambda>_. wait_environment n cid)))))"

section \<open>A launch\<close>

text \<open>
  The launch after its options are checked: its name, labels, mounts, the environment for given proxy addresses and token, its
  proxies, allocation, and whether it only creates, has a proxy, and waits for the environment.
\<close>

record launch =
  ln_name :: string
  ln_kata :: bool
  ln_labels :: "(config_error, (string \<times> string) list) result"
  ln_mounts :: "(string \<times> string) list"
  ln_env :: "string list \<Rightarrow> string \<Rightarrow> (config_error, string list) result"
  ln_proxies :: "string list"
  ln_address :: "string \<Rightarrow> string"
  ln_encoded :: string
  ln_allocation :: string
  ln_token :: string
  ln_proxy :: bool
  ln_create_only :: bool
  ln_waits :: bool

text \<open>The variables the deferred cleanup of \<open>RunContext\<close> reads.\<close>

record progress =
  pg_id :: string
  pg_network :: string
  pg_allocation :: string
  pg_token :: bool

type_synonym 'a lio = "(dock \<times> progress, clean_error, 'a) io"

definition on_dock :: "'a wio \<Rightarrow> 'a lio" where
  "on_dock m = (\<lambda>(w, p). case m w of (r, w') \<Rightarrow> (r, (w', p)))"

definition set_progress :: "(progress \<Rightarrow> progress) \<Rightarrow> unit lio" where
  "set_progress f = updIO (\<lambda>(w, p). (w, f p))"

definition launch_network :: "manager \<Rightarrow> launch \<Rightarrow> (string \<times> string) list \<Rightarrow> ((string \<times> string) list \<times> string list) lio" where
  "launch_network mg ln labels =
     (if ln_kata ln then
        bindIO (on_dock (create_kata_network (ln_name ln))) (\<lambda>net.
        bindIO (set_progress (\<lambda>p. p\<lparr>pg_network := net\<rparr>)) (\<lambda>_.
        bindIO (on_dock (connect_proxies (ln_name ln) (ln_address ln) (ln_proxies ln))) (\<lambda>_.
        bindIO (on_dock (kata_proxy_hosts net [] (ln_proxies ln))) (\<lambda>hosts.
        returnIO (kata_labels labels net (ln_encoded ln), hosts)))))
      else if mg_network mg then
        bindIO (on_dock (ensure_worker_network (ln_name ln))) (\<lambda>_.
        bindIO (on_dock (connect_proxies (ln_name ln) (ln_address ln) (ln_proxies ln))) (\<lambda>_. returnIO (labels, [])))
      else returnIO (labels, []))"

text \<open>A Kata worker gets a placeholder that is not valid yet; any other gets a token.\<close>

definition launch_token :: "launch \<Rightarrow> unit lio" where
  "launch_token ln =
     bindIO (set_progress (\<lambda>p. p\<lparr>pg_token := ln_proxy ln \<and> \<not> ln_kata ln\<rparr>)) (\<lambda>_.
     if \<not> ln_proxy ln then returnIO () else if ln_kata ln then on_dock trial
     else on_dock (dcall (updIO (\<lambda>w. w\<lparr>dw_tokens := ln_name ln # dw_tokens w\<rparr>))))"

definition launch_reserve :: "launch \<Rightarrow> (string \<times> string) list \<Rightarrow> (string \<times> string) list lio" where
  "launch_reserve ln labels = (if \<not> ln_kata ln then returnIO labels
     else bindIO (set_progress (\<lambda>p. p\<lparr>pg_allocation := ln_allocation ln\<rparr>)) (\<lambda>_. bindIO (on_dock trial) (\<lambda>_.
       bindIO (on_dock (dcall (updIO (\<lambda>w. w\<lparr>dw_allocations := (ln_allocation ln, []) # dw_allocations w\<rparr>)))) (\<lambda>_.
       returnIO (AList.update ''codex-dock.allocation'' (ln_allocation ln) labels)))))"

definition launch_start :: "host_site \<Rightarrow> manager \<Rightarrow> launch \<Rightarrow> string \<Rightarrow> unit lio" where
  "launch_start hs mg ln cid =
     bindIO (on_dock (container_start cid)) (\<lambda>_.
     bindIO (if \<not> ln_kata ln then returnIO () else
       bindIO (on_dock (validate_worker hs cid)) (\<lambda>_. bindIO (on_dock (verify_kata_guest hs cid True)) (\<lambda>_.
       bindIO (on_dock (container_inspect cid)) (\<lambda>x. bindIO (set_progress (\<lambda>p. p\<lparr>pg_token := ln_proxy ln\<rparr>)) (\<lambda>_.
       bindIO (on_dock (restore_worker_token hs mg x)) (\<lambda>_. on_dock (release_command cid))))))) (\<lambda>_.
     if ln_waits ln then on_dock (wait_environment (hs_ready hs) cid) else returnIO ()))"

definition launch_body :: "host_site \<Rightarrow> manager \<Rightarrow> launch \<Rightarrow> string lio" where
  "launch_body hs mg ln =
     bindIO (on_dock (check_cleanup_state mg)) (\<lambda>_.
     bindIO (on_dock (lift_config (ln_labels ln))) (\<lambda>ls.
     bindIO (launch_network mg ln ls) (\<lambda>(ls, hosts).
     bindIO (launch_token ln) (\<lambda>_.
     bindIO (on_dock (lift_config (ln_env ln hosts (ln_token ln)))) (\<lambda>env.
     bindIO (launch_reserve ln ls) (\<lambda>ls.
     bindIO (on_dock (container_create (ln_name ln) ls (ln_mounts ln) env)) (\<lambda>cid.
     bindIO (set_progress (\<lambda>p. p\<lparr>pg_id := cid\<rparr>)) (\<lambda>_.
     bindIO (on_dock (lock_cleanup mg cid)) (\<lambda>_.
     bindIO (if ln_kata ln then on_dock (validate_worker hs cid) else returnIO ()) (\<lambda>_.
     if ln_create_only ln then bindIO (on_dock ctx_live) (\<lambda>_. returnIO cid)
     else bindIO (launch_start hs mg ln cid) (\<lambda>_. returnIO cid)))))))))))"

text \<open>The deferred cleanup: the identifier it returns is of a container that could not be removed.\<close>

definition launch_cleanup :: "manager \<Rightarrow> launch \<Rightarrow> progress \<Rightarrow> string wio" where
  "launch_cleanup mg ln p =
     bindIO (if pg_token p \<and> ln_proxy ln then catchIO (dcall (updIO (\<lambda>w. w\<lparr>dw_tokens := filter (\<lambda>t. t \<noteq> ln_name ln) (dw_tokens w)\<rparr>)))
       else returnIO (Inr ())) (\<lambda>_.
     if pg_id p \<noteq> [] then bindIO (catchIO (remove_durably mg (pg_id p) True)) (\<lambda>r. returnIO (case r of Inl e \<Rightarrow> pg_id p | Inr _ \<Rightarrow> []))
     else bindIO (if pg_network p \<noteq> [] then catchIO (remove_kata_network (pg_network p) (ln_proxies ln)) else returnIO (Inr ())) (\<lambda>_.
       bindIO (if pg_allocation p \<noteq> [] then catchIO (release_allocation (pg_allocation p) (pg_id p)) else returnIO (Inr ())) (\<lambda>_. returnIO [])))"

definition run_context :: "host_site \<Rightarrow> manager \<Rightarrow> launch \<Rightarrow> dock \<Rightarrow> (string \<times> clean_error option) \<times> dock" where
  "run_context hs mg ln w =
     (case launch_body hs mg ln (w, \<lparr>pg_id = [], pg_network = [], pg_allocation = [], pg_token = False\<rparr>) of
        (Inr cid, (w', p)) \<Rightarrow> ((cid, None), w')
      | (Inl e, (w', p)) \<Rightarrow> (case launch_cleanup mg ln p w' of (r, w'') \<Rightarrow> ((case r of Inl _ \<Rightarrow> [] | Inr cid \<Rightarrow> cid, Some e), w'')))"

section \<open>Starting a worker again\<close>

text \<open>The readiness path a worker keeps in its environment; it is empty where there is none.\<close>

definition ready_step :: "(string \<Rightarrow> bool) \<Rightarrow> string \<Rightarrow> string \<Rightarrow> (clean_error, string) result" where
  "ready_step decodes value ready =
     (if prefix ''DOCK_ENVIRONMENT_JSON='' value \<and> \<not> decodes (trim_prefix value ''DOCK_ENVIRONMENT_JSON='') then Inl XRejected
      else Inr (if prefix ''DOCK_ENVIRONMENT_READY='' value then trim_prefix value ''DOCK_ENVIRONMENT_READY='' else ready))"

definition retained_ready :: "(string \<Rightarrow> bool) \<Rightarrow> string list \<Rightarrow> (clean_error, string) result" where
  "retained_ready decodes env = bindE (fold (\<lambda>value r. bindE r (ready_step decodes value)) env (Inr [])) (\<lambda>ready.
     if ready \<noteq> [] \<and> (path_dir ready \<noteq> ''/var/tmp'' \<or> \<not> prefix ''cxd-ready-'' (path_base ready)) then Inl XRejected else Inr ready)"

definition start_checks :: "host_site \<Rightarrow> manager \<Rightarrow> worker \<Rightarrow> unit wio" where
  "start_checks hs mg x =
     bindIO (whenE (lab (wk_labels x) ''managed'' \<noteq> ''true'') XUnmanaged) (\<lambda>_.
     bindIO (catchIO (read_cleanup mg (wk_id x))) (\<lambda>r.
     bindIO (case r of Inr _ \<Rightarrow> throwIO XRemovalPending | Inl e \<Rightarrow> whenE (e \<noteq> XNoFile) e) (\<lambda>_.
     bindIO (getIO (\<lambda>w. wk_id x \<in> set (dw_quarantined w))) (\<lambda>q.
     bindIO (whenE q XQuarantined) (\<lambda>_.
     if lab (wk_labels x) ''isolation'' = ''kata'' then bindIO trial (\<lambda>_. validate_worker hs (wk_id x)) else returnIO ())))))"

definition start_guest :: "host_site \<Rightarrow> manager \<Rightarrow> bool \<Rightarrow> worker \<Rightarrow> unit wio" where
  "start_guest hs mg waits x =
     bindIO (validate_worker hs (wk_id x)) (\<lambda>_. bindIO (verify_kata_guest hs (wk_id x) True) (\<lambda>_.
     bindIO (restore_worker_token hs mg x) (\<lambda>_.
     bindIO (if waits then trial else returnIO ()) (\<lambda>_. release_command (wk_id x)))))"

definition start_failed :: "manager \<Rightarrow> worker \<Rightarrow> unit wio" where
  "start_failed mg x = bindIO (catchIO (revoke_worker_token mg x)) (\<lambda>_. bindIO (catchIO (container_stop (wk_id x))) (\<lambda>_.
     bindIO (catchIO (release_allocation (lab (wk_labels x) ''allocation'') (wk_id x))) (\<lambda>_. returnIO ())))"

definition start_boot :: "host_site \<Rightarrow> manager \<Rightarrow> bool \<Rightarrow> worker \<Rightarrow> unit wio" where
  "start_boot hs mg waits x = (let kata = (lab (wk_labels x) ''isolation'' = ''kata'') in
     bindIO (catchIO (container_start (wk_id x))) (\<lambda>started. case started of
       Inl e \<Rightarrow> bindIO (catchIO (revoke_worker_token mg x)) (\<lambda>_. throwIO e)
     | Inr _ \<Rightarrow> bindIO (if kata then start_guest hs mg waits x else returnIO ()) (\<lambda>_.
         if waits then wait_environment (hs_ready hs) (wk_id x) else returnIO ())))"

definition start_context :: "host_site \<Rightarrow> manager \<Rightarrow> string \<Rightarrow> unit wio" where
  "start_context hs mg value =
     bindIO (container_inspect value) (\<lambda>x0.
     bindIO (whenE (lab (wk_labels x0) ''managed'' \<noteq> ''true'') XUnmanaged) (\<lambda>_.
     bindIO (whenE (lab (wk_labels x0) ''authentication-session'' = ''true'') XLogin) (\<lambda>_.
     bindIO (lock_cleanup mg (wk_id x0)) (\<lambda>_.
     bindIO (container_inspect (wk_id x0)) (\<lambda>x.
     bindIO (start_checks hs mg x) (\<lambda>_.
     bindIO (getIO (\<lambda>w. wk_id x \<in> set (dw_running w))) (\<lambda>running.
     let kata = (lab (wk_labels x) ''isolation'' = ''kata'') in
     if running then (if kata then verify_kata_guest hs (wk_id x) False else returnIO ())
     else bindIO (liftE (if kata then retained_ready (hs_environment hs) (wk_env x) else Inr [])) (\<lambda>ready.
       bindIO (if kata then bindIO trial (\<lambda>_. dcall (updIO (\<lambda>w. w\<lparr>dw_allocations := (lab (wk_labels x) ''allocation'', wk_id x) # dw_allocations w\<rparr>)))
         else restore_worker_token hs mg x) (\<lambda>_.
       bindIO (catchIO (start_boot hs mg (ready \<noteq> []) x)) (\<lambda>r. case r of
         Inr _ \<Rightarrow> returnIO ()
       | Inl e \<Rightarrow> bindIO (if kata then start_failed mg x else returnIO ()) (\<lambda>_. throwIO e)))))))))))"

end
