(* ===== verification/WorkerStarts.thy ===== *)
theory WorkerStarts
  imports WorkerLaunch
begin

text \<open>
  What starting workers promises: no command runs in a Kata guest that was not verified since it booted, and no worker that is
  quarantined or being removed is started.
\<close>

section \<open>Operations that start nothing\<close>

definition calm :: "dock \<Rightarrow> dock \<Rightarrow> bool" where
  "calm w w' \<longleftrightarrow> dw_verified w' = dw_verified w \<and> dw_released w' = dw_released w \<and> set (dw_faults w') \<subseteq> set (dw_faults w) \<and>
     set (dw_workers w') \<subseteq> set (dw_workers w) \<and> set (dw_running w') \<subseteq> set (dw_running w)"

lemma calm_refl [simp]: "calm w w"
  by (simp add: calm_def)

lemma calm_trans: "calm w w1 \<Longrightarrow> calm w1 w2 \<Longrightarrow> calm w w2"
  by (auto simp: calm_def)

lemma calm_simps [simp]:
  "calm w (w'\<lparr>dw_live := bs\<rparr>) = calm w w'" "calm w (w'\<lparr>dw_contended := n\<rparr>) = calm w w'"
  "calm w (w'\<lparr>dw_quarantined := qs\<rparr>) = calm w w'" "calm w (w'\<lparr>dw_files := fl\<rparr>) = calm w w'"
  "calm w (w'\<lparr>dw_tokens := ts\<rparr>) = calm w w'" "calm w (w'\<lparr>dw_networks := ns\<rparr>) = calm w w'"
  "calm w (w'\<lparr>dw_allocations := al\<rparr>) = calm w w'" "calm w (w'\<lparr>dw_trees := tr\<rparr>) = calm w w'"
  "calm w (w'\<lparr>dw_fresh := fr\<rparr>) = calm w w'"
  by (simp_all add: calm_def)

lemma calms_bind [intro!]: "follows calm m \<Longrightarrow> (\<And>x. follows calm (f x)) \<Longrightarrow> follows calm (bindIO m f)"
  by (rule follows_bind [where R = calm]) (rule calm_trans)

lemma calms_unit [simp, intro]:
  "follows calm (returnIO x)" "follows calm (throwIO e)" "follows calm (liftE r)" "follows calm (getIO f)" "follows calm (whenE b e)" "follows calm (Pair y)"
  by (simp_all add: follows_def whenE_def)

lemma calms_dcall [intro!]:
  assumes "follows calm m"
  shows "follows calm (dcall m)"
  unfolding follows_def
proof
  fix w
  have s: "calm w (snd (m (w\<lparr>dw_faults := fs\<rparr>)))" if "set fs \<subseteq> set (dw_faults w)" for fs
  proof -
    have "calm w (w\<lparr>dw_faults := fs\<rparr>)" using that by (simp add: calm_def)
    moreover have "calm (w\<lparr>dw_faults := fs\<rparr>) (snd (m (w\<lparr>dw_faults := fs\<rparr>)))" using assms by (simp add: follows_def)
    ultimately show ?thesis by (rule calm_trans)
  qed
  have n: "calm w (snd (m w))" using assms by (simp add: follows_def)
  show "calm w (snd (dcall m w))"
  proof (cases "dw_faults w")
    case Nil
    then show ?thesis using n by (simp add: dcall_def)
  next
    case (Cons f fs)
    then have "set fs \<subseteq> set (dw_faults w)" by auto
    with s have "calm w (snd (m (w\<lparr>dw_faults := fs\<rparr>)))" "calm w (w\<lparr>dw_faults := fs\<rparr>)" by (auto simp: calm_def)
    with Cons show ?thesis by (cases f) (auto simp: dcall_def Let_def)
  qed
qed

lemma calms_upd: "(\<And>w. calm w (f w)) \<Longrightarrow> follows calm (updIO f)"
  by (rule follows_upd)

lemma calms_trial [simp, intro]: "follows calm trial" "follows calm ctx_live"
  unfolding trial_def by auto (simp add: follows_def ctx_live_def split: list.split)

lemma calms_directory [simp, intro]: "follows calm (state_directory mg)" "follows calm (check_cleanup_state mg)"
  unfolding check_cleanup_state_def state_directory_def by auto

lemma calms_loop [simp, intro]: "follows calm (lock_loop n)"
  by (induction n) auto

lemma calms_lock [simp, intro]: "follows calm (lock_cleanup mg cid)"
  unfolding lock_cleanup_def by (auto intro!: calms_upd)

lemma calms_write [simp, intro]: "follows calm (write_cleanup mg r)"
  unfolding write_cleanup_def by (auto intro!: calms_upd)

lemma calms_read [simp, intro]: "follows calm (read_cleanup mg cid)"
  unfolding read_cleanup_def by (auto split: option.split)

lemma calms_read_all [simp, intro]: "follows calm (read_all mg fs)"
  by (induction fs) auto

lemma calms_pending [simp, intro]: "follows calm (pending_cleanup mg)"
  unfolding pending_cleanup_def by auto

lemma calms_find [simp, intro]: "follows calm (find_cleanup mg v)"
  unfolding find_cleanup_def by (auto split: list.split)

lemma calms_inspect [simp, intro]: "follows calm (container_inspect v)" "follows calm (network_inspect v)" "follows calm (resolve_id v)"
  unfolding container_inspect_def network_inspect_def resolve_id_def by (auto split: list.split option.split)

lemma calms_network [simp, intro]: "follows calm (network_disconnect nid cid)" "follows calm (network_remove nid)" "follows calm (find_network_by_name nm)"
  unfolding network_disconnect_def network_remove_def find_network_by_name_def by (auto intro!: calms_upd)

lemma calms_disconnect_each [simp, intro]: "follows calm (disconnect_each nid cs)"
  by (induction cs) auto

lemma calms_proxy_ids [simp, intro]: "follows calm (proxy_ids ps)"
  by (induction ps) (auto split: sum.split)

lemma calms_remove_network [simp, intro]: "follows calm (remove_kata_network nid ps)" "follows calm (remove_worker_network name)"
  unfolding remove_kata_network_def remove_worker_network_def by (auto split: option.split sum.split)

lemma calms_create_network [simp, intro]: "follows calm (create_kata_network name)" "follows calm (ensure_worker_network name)"
  unfolding create_kata_network_def ensure_worker_network_def by (auto intro!: calms_upd split: option.split sum.split list.split)

lemma calms_connect [simp, intro]: "follows calm (connect_proxies name address ps)"
  by (induction ps) (auto intro!: calms_upd split: list.split)

lemma calms_proxy_hosts [simp, intro]: "follows calm (proxy_hosts n cid al ps)"
  by (induction ps arbitrary: al) (auto split: option.split prod.split)

lemma calms_kata_hosts [simp, intro]: "follows calm (kata_proxy_hosts nid cid ps)"
  unfolding kata_proxy_hosts_def by (auto split: prod.split)

lemma calms_tokens [simp, intro]: "follows calm (revoke_worker_token mg x)" "follows calm (restore_worker_token hs mg x)"
  unfolding revoke_worker_token_def restore_worker_token_def Let_def by (auto intro!: calms_upd split: proxy_link.split)

lemma calms_release [simp, intro]: "follows calm (release_allocation a cid)"
  unfolding release_allocation_def by (auto intro!: calms_upd)

lemma calms_worktree [simp, intro]: "follows calm (cleanup_worktree x)"
  unfolding cleanup_worktree_def Let_def by (auto intro!: calms_upd)

lemma calms_resources [simp, intro]: "follows calm (release_resources mg r)"
  unfolding release_resources_def by (auto split: option.split)

lemma calms_both [simp, intro]: "follows calm (both a b)"
  unfolding both_def by (auto split: sum.split)

lemma calms_stop [simp, intro]: "follows calm (container_stop cid)"
  unfolding container_stop_def by (auto intro!: calms_upd simp: calm_def)

lemma calms_remove [simp, intro]: "follows calm (container_remove cid force)"
proof -
  let ?m = "dcall (bindIO (getIO (\<lambda>w. (list_ex (\<lambda>x. wk_id x = cid) (dw_workers w), cid \<in> set (dw_running w)))) (\<lambda>(there, running).
         bindIO (whenE (\<not> there) XNotFound) (\<lambda>_. bindIO (whenE (running \<and> \<not> force) XRunning) (\<lambda>_. updIO (drop_worker cid)))))"
  have "follows calm (updIO (drop_worker cid))" by (rule calms_upd) (auto simp: calm_def drop_worker_def)
  then have "follows calm ?m" by (auto split: prod.split)
  then have m: "calm w (snd (?m w))" for w by (simp add: follows_def)
  show ?thesis
    unfolding follows_def
  proof
    fix w
    show "calm w (snd (container_remove cid force w))"
    proof (cases "\<exists>fs. dw_faults w = Missing # fs")
      case True
      then obtain fs where fs: "dw_faults w = Missing # fs" by blast
      then have "set fs \<subseteq> set (dw_faults w)" by auto
      with fs show ?thesis by (simp add: container_remove_def calm_def)
    next
      case False
      then have "container_remove cid force w = ?m w" by (auto simp: container_remove_def split: list.split dfault.split)
      with m show ?thesis by simp
    qed
  qed
qed

lemma calms_confirmed [simp, intro]: "follows calm (remove_confirmed k cid force)"
  by (induction k) (auto split: sum.split)

lemma calms_removal_record [simp, intro]: "follows calm (removal_record mg v force)"
  unfolding removal_record_def by (auto split: sum.split)

lemma calms_locked [simp, intro]: "follows calm (remove_locked mg r force)"
  unfolding remove_locked_def by (auto intro!: calms_upd split: sum.split)

lemma calms_durably [simp, intro]: "follows calm (remove_durably mg v force)"
  unfolding remove_durably_def by auto

lemma calms_retry_each [simp, intro]: "follows calm (retry_each mg force rs)"
  by (induction rs) auto

lemma calms_retry [simp, intro]: "follows calm (retry_cleanup mg force)" "follows calm (remove_by_name mg v force)"
  unfolding retry_cleanup_def remove_by_name_def by (auto split: sum.split)

lemma calms_stop_context [simp, intro]: "follows calm (stop_context mg v)"
  unfolding stop_context_def by (auto split: option.split)

lemma calms_stop_idle [simp, intro]: "follows calm (stop_idle mg active cid)"
  unfolding stop_idle_def by (auto split: sum.split)

lemma calms_quarantine [simp, intro]: "follows calm (quarantine_context mg v)"
  unfolding quarantine_context_def by (auto intro!: calms_upd simp: calm_def split: option.split)

lemma calms_reap [simp, intro]: "follows calm (reap_act mg active cid d)"
  unfolding reap_act_def by (auto split: reaping.split)

lemma calms_wait [simp, intro]: "follows calm (wait_environment n cid)"
  by (induction n) auto

lemma calms_config [simp, intro]: "follows calm (lift_config r)" "follows calm (found x)"
  unfolding lift_config_def found_def by (auto split: sum.split option.split)

lemma calms_validate [simp, intro]: "follows calm (validate_worker hs cid)"
  unfolding validate_worker_def Let_def by auto

lemma calms_start_checks [simp, intro]: "follows calm (start_checks hs mg x)"
  unfolding start_checks_def by (auto split: sum.split)

lemma calms_start_failed [simp, intro]: "follows calm (start_failed mg x)"
  unfolding start_failed_def by auto

lemma calms_cleanup [simp, intro]: "follows calm (launch_cleanup mg ln p)"
  unfolding launch_cleanup_def by (auto intro!: calms_upd)

section \<open>Commands run in verified guests\<close>

text \<open>What the check of a guest establishes, apart from its command not having run: the node is the one that was verified, and the
  guest itself is within its limits and without privileges.\<close>

definition guest_ok :: "host_site \<Rightarrow> string \<Rightarrow> bool" where
  "guest_ok hs cid \<longleftrightarrow> (case hs_inspect hs cid of None \<Rightarrow> False | Some v \<Rightarrow> (let ls = cc_labels (in_config v) in
     label_of ls ''verified-profile'' = kn_stamp (hs_node hs) \<and>
     (case hs_profiles hs (label_of ls ''resource-profile'') of None \<Rightarrow> False
      | Some p \<Rightarrow> verify_guest (hs_probe hs cid) (label_of ls ''allocation'') (hs_boot hs) (cc_user (in_config v)) False p = Inr ())))"

definition commands_attested :: "host_site \<Rightarrow> dock \<Rightarrow> bool" where
  "commands_attested hs w \<longleftrightarrow> set (dw_released w) \<subseteq> set (dw_verified w) \<and> (\<forall>i \<in> set (dw_verified w). guest_ok hs i)"

lemma verify_guest_later: "verify_guest data nonce boot user waiting p = Inr () \<Longrightarrow> verify_guest data nonce boot user False p = Inr ()"
  by (auto simp: verify_guest_def Let_def refuseE_def bindE_Inr_iff split: option.splits if_splits sum.splits)

lemma verified_ok:
  assumes "verify_kata_guest hs cid waiting w = (Inr u, w')"
  shows "guest_ok hs cid"
proof -
  from assms obtain v p where "hs_inspect hs cid = Some v" and l: "label_of (cc_labels (in_config v)) ''verified-profile'' = kn_stamp (hs_node hs)"
    and "hs_profiles hs (label_of (cc_labels (in_config v)) ''resource-profile'') = Some p"
    and g: "verify_guest (hs_probe hs cid) (label_of (cc_labels (in_config v)) ''allocation'') (hs_boot hs) (cc_user (in_config v)) waiting p = Inr ()"
    by (auto simp: verify_kata_guest_def found_def lift_config_def Let_def io_iffs split: option.splits sum.splits)
  with verify_guest_later [OF g] show ?thesis by (simp add: guest_ok_def Let_def)
qed

lemma attested_calm: "calm w w' \<Longrightarrow> commands_attested hs w \<Longrightarrow> commands_attested hs w'"
  by (simp add: commands_attested_def calm_def)

lemma calm_triple:
  assumes "follows calm m" and "\<And>w w'. calm w w' \<Longrightarrow> P w \<Longrightarrow> P w'"
  shows "triple P m (\<lambda>_. P) (\<lambda>_. P)"
  by (rule tripleI) (use assms followsD in blast)+

lemma attested_keeps: "follows calm m \<Longrightarrow> triple (commands_attested hs) m (\<lambda>_. commands_attested hs) (\<lambda>_. commands_attested hs)"
  by (rule tripleI) (use attested_calm followsD in blast)+

lemma attested_faults [simp]: "commands_attested hs (w\<lparr>dw_faults := fs\<rparr>) = commands_attested hs w"
  by (simp add: commands_attested_def)

lemma attested_dcall: "(\<And>w. commands_attested hs w \<Longrightarrow> commands_attested hs (f w)) \<Longrightarrow> triple (commands_attested hs) (dcall (updIO f)) (\<lambda>_. commands_attested hs) (\<lambda>_. commands_attested hs)"
  by (rule triple_dcall) (auto intro: triple_upd)

lemma attested_start: "triple (commands_attested hs) (container_start cid) (\<lambda>_. commands_attested hs) (\<lambda>_. commands_attested hs)"
  unfolding container_start_def by (rule attested_dcall) (auto simp: commands_attested_def)

lemma calm_guests:
  "follows calm m \<Longrightarrow> triple (\<lambda>w. dw_verified w = vs \<and> dw_released w = rs) m (\<lambda>_ w. dw_verified w = vs \<and> dw_released w = rs)
     (\<lambda>_ w. dw_verified w = vs \<and> dw_released w = rs)"
  by (rule calm_triple) (auto simp: calm_def)

lemma verified_exact:
  "triple (\<lambda>w. dw_verified w = vs \<and> dw_released w = rs) (verify_kata_guest hs cid waiting)
     (\<lambda>_ w. dw_verified w = cid # vs \<and> dw_released w = rs) (\<lambda>_ w. dw_verified w = vs \<and> dw_released w = rs)"
  unfolding verify_kata_guest_def Let_def
  by ((rule triple_bind [OF calm_guests], (auto split: sum.split)[1])+, rule triple_upd) simp

lemma verified_passes:
  assumes "commands_attested hs w" and m: "verify_kata_guest hs cid waiting w = (Inr u, w')"
  shows "commands_attested hs w' \<and> cid \<in> set (dw_verified w')"
proof -
  have "dw_verified w' = cid # dw_verified w \<and> dw_released w' = dw_released w"
    by (rule triple_Inr [OF verified_exact _ m]) simp
  with assms(1) verified_ok [OF m] show ?thesis by (auto simp: commands_attested_def)
qed

lemma verified_fails:
  assumes "commands_attested hs w" and m: "verify_kata_guest hs cid waiting w = (Inl e, w')"
  shows "commands_attested hs w'"
proof -
  have "dw_verified w' = dw_verified w \<and> dw_released w' = dw_released w"
    by (rule triple_Inl [OF verified_exact _ m]) simp
  with assms(1) show ?thesis by (simp add: commands_attested_def)
qed

lemma verified_triple: "triple (commands_attested hs) (verify_kata_guest hs cid waiting) (\<lambda>_ w. commands_attested hs w \<and> cid \<in> set (dw_verified w)) (\<lambda>_. commands_attested hs)"
  by (rule tripleI) (rule verified_passes verified_fails; assumption)+

lemma verified_keeps: "triple (commands_attested hs) (verify_kata_guest hs cid waiting) (\<lambda>_. commands_attested hs) (\<lambda>_. commands_attested hs)"
  by (rule triple_post [OF verified_triple]) auto

lemma verified_calm:
  assumes "follows calm m"
  shows "triple (\<lambda>w. commands_attested hs w \<and> cid \<in> set (dw_verified w)) m (\<lambda>_ w. commands_attested hs w \<and> cid \<in> set (dw_verified w)) (\<lambda>_. commands_attested hs)"
proof -
  let ?P = "\<lambda>w. commands_attested hs w \<and> cid \<in> set (dw_verified w)"
  have "triple ?P m (\<lambda>_. ?P) (\<lambda>_. ?P)" using assms by (rule calm_triple) (auto simp: commands_attested_def calm_def)
  then show ?thesis by (rule triple_post) auto
qed

lemma released_triple: "triple (\<lambda>w. commands_attested hs w \<and> cid \<in> set (dw_verified w)) (release_command cid) (\<lambda>_. commands_attested hs) (\<lambda>_. commands_attested hs)"
  unfolding release_command_def by (rule triple_dcall) (auto intro!: triple_upd simp: commands_attested_def)

lemma guest_keeps: "triple (commands_attested hs) (start_guest hs mg waits x) (\<lambda>_. commands_attested hs) (\<lambda>_. commands_attested hs)"
  unfolding start_guest_def
  by (rule triple_bind [OF attested_keeps [OF calms_validate]], rule triple_bind [OF verified_triple],
      rule triple_bind [OF verified_calm [OF calms_tokens(2)]], rule triple_bind [OF verified_calm], auto intro: released_triple)

lemma boot_keeps: "triple (commands_attested hs) (start_boot hs mg waits x) (\<lambda>_. commands_attested hs) (\<lambda>_. commands_attested hs)"
proof -
  have r: "triple (commands_attested hs) (case started of
       Inl e \<Rightarrow> bindIO (catchIO (revoke_worker_token mg x)) (\<lambda>_. throwIO e)
     | Inr _ \<Rightarrow> bindIO (if kata then start_guest hs mg waits x else returnIO ()) (\<lambda>_. if waits then wait_environment (hs_ready hs) (wk_id x) else returnIO ()))
     (\<lambda>_. commands_attested hs) (\<lambda>_. commands_attested hs)" for started :: "(clean_error, unit) result" and kata
  proof (cases started)
    case (Inl e)
    have "follows calm (bindIO (catchIO (revoke_worker_token mg x)) (\<lambda>_. throwIO e))" by auto
    from attested_keeps [OF this] Inl show ?thesis by simp
  next
    case (Inr u)
    have g: "triple (commands_attested hs) (if kata then start_guest hs mg waits x else returnIO ()) (\<lambda>_. commands_attested hs) (\<lambda>_. commands_attested hs)"
      using guest_keeps by (simp add: triple_def)
    have "follows calm (if waits then wait_environment (hs_ready hs) (wk_id x) else returnIO ())" by auto
    from triple_bind [OF g attested_keeps [OF this]] Inr show ?thesis by simp
  qed
  have "triple (commands_attested hs) (catchIO (container_start (wk_id x))) (\<lambda>_. commands_attested hs) (\<lambda>_. commands_attested hs)"
    by (rule triple_catch) (rule attested_start)
  from triple_bind [OF this r] show ?thesis unfolding start_boot_def Let_def by simp
qed

lemma start_keeps: "triple (commands_attested hs) (start_context hs mg v) (\<lambda>_. commands_attested hs) (\<lambda>_. commands_attested hs)"
proof -
  have b: "triple (commands_attested hs) (bindIO (catchIO (start_boot hs mg waits x)) (\<lambda>r. case r of
         Inr _ \<Rightarrow> returnIO () | Inl e \<Rightarrow> bindIO (if kata then start_failed mg x else returnIO ()) (\<lambda>_. throwIO e))) (\<lambda>_. commands_attested hs) (\<lambda>_. commands_attested hs)" for x kata waits
  proof (rule triple_bind [OF triple_catch])
    show "triple (commands_attested hs) (start_boot hs mg waits x) (\<lambda>_. commands_attested hs) (\<lambda>_. commands_attested hs)" by (rule boot_keeps)
    show "triple (commands_attested hs) (case r of Inr _ \<Rightarrow> returnIO () | Inl e \<Rightarrow> bindIO (if kata then start_failed mg x else returnIO ()) (\<lambda>_. throwIO e))
       (\<lambda>_. commands_attested hs) (\<lambda>_. commands_attested hs)" for r :: "(clean_error, unit) result"
      by (rule attested_keeps) (auto split: sum.split)
  qed
  have c: "follows calm (if kata then bindIO trial (\<lambda>_. dcall (updIO (\<lambda>w. w\<lparr>dw_allocations := (lab (wk_labels x) ''allocation'', wk_id x) # dw_allocations w\<rparr>)))
         else restore_worker_token hs mg x)" for kata x
    by (auto intro!: calms_upd)
  have f: "triple (commands_attested hs) (if running then (if kata then verify_kata_guest hs (wk_id x) False else returnIO ())
     else bindIO (liftE (if kata then retained_ready (hs_environment hs) (wk_env x) else Inr [])) (\<lambda>ready.
       bindIO (if kata then bindIO trial (\<lambda>_. dcall (updIO (\<lambda>w. w\<lparr>dw_allocations := (lab (wk_labels x) ''allocation'', wk_id x) # dw_allocations w\<rparr>)))
         else restore_worker_token hs mg x) (\<lambda>_.
       bindIO (catchIO (start_boot hs mg (ready \<noteq> []) x)) (\<lambda>r. case r of
         Inr _ \<Rightarrow> returnIO () | Inl e \<Rightarrow> bindIO (if kata then start_failed mg x else returnIO ()) (\<lambda>_. throwIO e))))) (\<lambda>_. commands_attested hs) (\<lambda>_. commands_attested hs)" for running kata x
  proof (cases running)
    case True
    then show ?thesis using verified_keeps by (simp add: triple_def)
  next
    case False
    show ?thesis unfolding if_not_P [OF False] by (rule triple_bind [OF attested_keeps [OF calms_unit(3)]], rule triple_bind [OF attested_keeps [OF c] b])
  qed
  show ?thesis unfolding start_context_def Let_def
    by ((rule triple_bind [OF attested_keeps], (auto)[1])+, rule f)
qed


section \<open>Launches\<close>

lemma on_dock_triple:
  assumes "triple P m Q R"
  shows "triple (\<lambda>s. P (fst s)) (on_dock m) (\<lambda>x s. Q x (fst s)) (\<lambda>e s. R e (fst s))"
proof (rule tripleI)
  fix s x s' assume p: "P (fst s)" and m: "on_dock m s = (Inr x, s')"
  obtain r w' where r: "m (fst s) = (r, w')" by fastforce
  with m have "r = Inr x" "s' = (w', snd s)" by (auto simp: on_dock_def split: prod.splits)
  with triple_Inr [OF assms p] r show "Q x (fst s')" by simp
next
  fix s e s' assume p: "P (fst s)" and m: "on_dock m s = (Inl e, s')"
  obtain r w' where r: "m (fst s) = (r, w')" by fastforce
  with m have "r = Inl e" "s' = (w', snd s)" by (auto simp: on_dock_def split: prod.splits)
  with triple_Inl [OF assms p] r show "R e (fst s')" by simp
qed

abbreviation launch_steady :: "host_site \<Rightarrow> 'a lio \<Rightarrow> bool" where
  "launch_steady hs m \<equiv> triple (\<lambda>s. commands_attested hs (fst s)) m (\<lambda>_ s. commands_attested hs (fst s)) (\<lambda>_ s. commands_attested hs (fst s))"

lemma steady_dock [intro!]: "follows calm m \<Longrightarrow> launch_steady hs (on_dock m)"
  by (rule on_dock_triple) (rule attested_keeps)

lemma steady_bind [intro!]: "launch_steady hs m \<Longrightarrow> (\<And>x. launch_steady hs (f x)) \<Longrightarrow> launch_steady hs (bindIO m f)"
  by (rule triple_bind)

lemma steady_unit [simp, intro]: "launch_steady hs (returnIO x)" "launch_steady hs (throwIO e)" "launch_steady hs (Pair y)" "launch_steady hs (set_progress f)"
  by (auto simp: triple_def set_progress_def split: sum.split)

lemma steady_create: "launch_steady hs (on_dock (container_create name labels mounts env))"
proof (rule on_dock_triple)
  have "triple (commands_attested hs) (bindIO (getIO (\<lambda>w. (dw_fresh w, list_ex (\<lambda>x. plain_name (wk_name x) = name) (dw_workers w)))) (\<lambda>(ids, taken).
     bindIO (whenE taken XExists) (\<lambda>_. case ids of [] \<Rightarrow> throwIO XFault
     | i # is \<Rightarrow> bindIO (updIO (\<lambda>w. w\<lparr>dw_fresh := is, dw_workers := dw_workers w @ [\<lparr>wk_id = i, wk_name = CHR ''/'' # name, wk_labels = labels,
         wk_mounts = mounts, wk_env = env\<rparr>]\<rparr>)) (\<lambda>_. returnIO i)))) (\<lambda>_. commands_attested hs) (\<lambda>_. commands_attested hs)"
    by (rule tripleI) (auto simp: io_iffs commands_attested_def split: list.splits prod.splits)
  then show "triple (commands_attested hs) (container_create name labels mounts env) (\<lambda>_. commands_attested hs) (\<lambda>_. commands_attested hs)"
    unfolding container_create_def by (rule triple_dcall) auto
qed

lemma steady_network: "launch_steady hs (launch_network mg ln labels)"
  unfolding launch_network_def by (auto split: prod.split)

lemma steady_token: "launch_steady hs (launch_token ln)"
  unfolding launch_token_def by (auto intro!: calms_upd)

lemma steady_reserve: "launch_steady hs (launch_reserve ln labels)"
  unfolding launch_reserve_def by (auto intro!: calms_upd)


lemma steady_start: "launch_steady hs (launch_start hs mg ln cid)"
proof -
  let ?V = "\<lambda>s :: dock \<times> progress. commands_attested hs (fst s) \<and> cid \<in> set (dw_verified (fst s))" and ?A = "\<lambda>s :: dock \<times> progress. commands_attested hs (fst s)"
  have v: "triple ?V (on_dock m) (\<lambda>_. ?V) (\<lambda>_. ?A)" if "follows calm m" for m :: "'a wio"
    by (rule on_dock_triple [OF verified_calm [OF that]])
  have p: "triple ?V (set_progress f) (\<lambda>_. ?V) (\<lambda>_. ?A)" for f by (auto simp: triple_def set_progress_def)
  have k: "launch_steady hs (bindIO (on_dock (validate_worker hs cid)) (\<lambda>_. bindIO (on_dock (verify_kata_guest hs cid True)) (\<lambda>_.
       bindIO (on_dock (container_inspect cid)) (\<lambda>x. bindIO (set_progress (\<lambda>p. p\<lparr>pg_token := ln_proxy ln\<rparr>)) (\<lambda>_.
       bindIO (on_dock (restore_worker_token hs mg x)) (\<lambda>_. on_dock (release_command cid)))))))"
    by (rule triple_bind [OF steady_dock [OF calms_validate]], rule triple_bind [OF on_dock_triple [OF verified_triple]],
        rule triple_bind [OF v [OF calms_inspect(1)]], rule triple_bind [OF p], rule triple_bind [OF v [OF calms_tokens(2)]],
        rule on_dock_triple [OF released_triple])
  have s: "launch_steady hs (on_dock (container_start cid))" by (rule on_dock_triple [OF attested_start])
  have b: "launch_steady hs (if \<not> ln_kata ln then returnIO () else bindIO (on_dock (validate_worker hs cid)) (\<lambda>_. bindIO (on_dock (verify_kata_guest hs cid True)) (\<lambda>_.
       bindIO (on_dock (container_inspect cid)) (\<lambda>x. bindIO (set_progress (\<lambda>p. p\<lparr>pg_token := ln_proxy ln\<rparr>)) (\<lambda>_.
       bindIO (on_dock (restore_worker_token hs mg x)) (\<lambda>_. on_dock (release_command cid)))))))"
    using k steady_unit(1) by (cases "ln_kata ln") (simp_all only: simp_thms if_True if_False)
  have e: "launch_steady hs (if ln_waits ln then on_dock (wait_environment (hs_ready hs) cid) else returnIO ())" by auto
  show ?thesis unfolding launch_start_def by (rule triple_bind [OF s triple_bind [OF b e]])
qed

lemma steady_body: "launch_steady hs (launch_body hs mg ln)"
  unfolding launch_body_def
  by (auto intro!: steady_network steady_token steady_reserve steady_create steady_start split: prod.split)

lemma run_attested: "commands_attested hs w \<Longrightarrow> commands_attested hs (snd (run_context hs mg ln w))"
proof -
  assume w: "commands_attested hs w"
  let ?p = "\<lparr>pg_id = [], pg_network = [], pg_allocation = [], pg_token = False\<rparr>"
  obtain r w1 p where b: "launch_body hs mg ln (w, ?p) = (r, (w1, p))" by (cases "launch_body hs mg ln (w, ?p)") auto
  have w1: "commands_attested hs w1" using triple_snd [OF steady_body [of hs mg ln], of "(w, ?p)"] w b by simp
  then have "commands_attested hs (snd (launch_cleanup mg ln p w1))" using triple_snd [OF attested_keeps [OF calms_cleanup]] by simp
  with w1 b show ?thesis by (cases r) (auto simp: run_context_def split: prod.split)
qed

section \<open>Runs with launches and starts\<close>

datatype lifecycle_event = LOther wevent | LLaunch launch | LStart string

fun lifecycle_step :: "host_site \<Rightarrow> manager \<Rightarrow> lifecycle_event \<Rightarrow> dock \<times> (cleanup_record \<times> bool) list \<Rightarrow> dock \<times> (cleanup_record \<times> bool) list" where
  "lifecycle_step hs mg (LOther e) s = worker_step mg e s"
| "lifecycle_step hs mg (LLaunch ln) (w, ps) = (snd (run_context hs mg ln w), ps)"
| "lifecycle_step hs mg (LStart v) (w, ps) = (snd (start_context hs mg v w), ps)"

definition lifecycle_run :: "host_site \<Rightarrow> manager \<Rightarrow> lifecycle_event list \<Rightarrow> dock \<times> (cleanup_record \<times> bool) list \<Rightarrow> dock \<times> (cleanup_record \<times> bool) list" where
  "lifecycle_run hs mg es s = fold (lifecycle_step hs mg) es s"

lemma worker_step_attested: "commands_attested hs (fst s) \<Longrightarrow> commands_attested hs (fst (worker_step mg e s))"
proof -
  assume a: "commands_attested hs (fst s)"
  obtain w ps where s: "s = (w, ps)" by (cases s)
  have k: "commands_attested hs (snd (m w))" if "follows calm m" for m :: "'a wio"
    using triple_snd [OF attested_keeps [OF that]] a s by simp
  show ?thesis
  proof (cases e)
    case (WBegin v force)
    have "commands_attested hs (snd (removal_record mg v force w))" by (rule k) simp
    with WBegin s show ?thesis by (auto split: prod.split sum.split)
  next
    case (WFinish i)
    have "commands_attested hs (snd (bindIO (lock_cleanup mg (cr_id r)) (\<lambda>_. remove_locked mg r force) w))" for r force by (rule k) auto
    with WFinish s a show ?thesis by (auto split: prod.split)
  next
    case (WRunning ids)
    with a s show ?thesis by (simp add: commands_attested_def)
  next
    case (WAttach nid i b)
    with a s show ?thesis by (simp add: commands_attested_def)
  next
    case (WSchedule fs n live)
    with a s show ?thesis by (simp add: commands_attested_def)
  next
    case (WRemove v force)
    with s k [OF calms_retry(2)] show ?thesis by simp
  next
    case (WRetry force)
    with s k [OF calms_retry(1)] show ?thesis by simp
  next
    case (WStop v)
    with s k [OF calms_stop_context] show ?thesis by simp
  next
    case (WQuarantine v)
    with s k [OF calms_quarantine] show ?thesis by simp
  next
    case (WReap active cid d)
    with s k [OF calms_reap] show ?thesis by simp
  qed
qed

lemma lifecycle_attested: "commands_attested hs (fst s) \<Longrightarrow> commands_attested hs (fst (lifecycle_run hs mg es s))"
proof -
  have t: "commands_attested hs (fst s) \<Longrightarrow> commands_attested hs (fst (lifecycle_step hs mg e s))" for e s
  proof -
    assume a: "commands_attested hs (fst s)"
    obtain w ps where s: "s = (w, ps)" by (cases s)
    show "commands_attested hs (fst (lifecycle_step hs mg e s))"
    proof (cases e)
      case (LOther x)
      with a worker_step_attested show ?thesis by simp
    next
      case (LLaunch ln)
      with a s run_attested show ?thesis by simp
    next
      case (LStart v)
      with a s triple_snd [OF start_keeps] show ?thesis by simp
    qed
  qed
  then show "commands_attested hs (fst s) \<Longrightarrow> commands_attested hs (fst (lifecycle_run hs mg es s))"
    unfolding lifecycle_run_def by (induction es arbitrary: s) simp_all
qed


section \<open>What may start\<close>

abbreviation kept :: "dock \<Rightarrow> (string \<times> cfile) list \<times> string list" where
  "kept w \<equiv> (dw_files w, dw_quarantined w)"

lemma kept_pair [simp, intro]: "quiet kept (Pair y)"
  by (simp add: quiet_def)

lemma kept_trial [simp, intro]: "quiet kept trial" "quiet kept ctx_live"
proof -
  show "quiet kept trial"
    unfolding quiet_def
  proof
    fix w
    obtain r w' where t: "trial w = (r, w')" by fastforce
    with trial_state [OF t] show "kept (snd (trial w)) = kept w" by auto
  qed
  show "quiet kept ctx_live" by (simp add: quiet_def ctx_live_def split: list.split)
qed

lemma kept_directory [simp, intro]: "quiet kept (state_directory mg)"
  unfolding state_directory_def by (auto intro!: quiet_bind)

lemma kept_loop [simp, intro]: "quiet kept (lock_loop n)"
  by (induction n) (auto intro!: quiet_bind)

lemma kept_lock [simp, intro]: "quiet kept (lock_cleanup mg cid)"
  unfolding lock_cleanup_def by (auto intro!: quiet_bind quiet_upd)

lemma kept_read [simp, intro]: "quiet kept (read_cleanup mg cid)"
  unfolding read_cleanup_def by (auto intro!: quiet_bind split: option.split)

lemma kept_inspect [simp, intro]: "quiet kept (container_inspect v)" "quiet kept (network_inspect v)"
  unfolding container_inspect_def network_inspect_def by (auto intro!: quiet_bind split: list.split option.split)

lemma kept_proxy_hosts [simp, intro]: "quiet kept (proxy_hosts n cid al ps)"
  by (induction ps arbitrary: al) (auto intro!: quiet_bind split: option.split prod.split)

lemma kept_validate [simp, intro]: "quiet kept (validate_worker hs cid)"
  unfolding validate_worker_def kata_proxy_hosts_def lift_config_def found_def Let_def
  by (auto intro!: quiet_bind split: prod.split sum.split option.split)

lemma directory_error: "state_directory mg w = (Inl e, w') \<Longrightarrow> e \<noteq> XNoFile"
  by (auto simp: state_directory_def state_root_def Let_def io_iffs liftE_def split: if_splits option.splits list.splits dest: trial_error)

lemma read_no_file:
  assumes "read_cleanup mg cid w = (Inl XNoFile, w')"
  shows "map_of (dw_files w) (record_file cid) = None"
proof (rule ccontr)
  assume n: "map_of (dw_files w) (record_file cid) \<noteq> None"
  from assms directory_error trial_error obtain w1 w2 where d: "state_directory mg w = (Inr (), w1)" and t: "trial w1 = (Inr (), w2)" and
    f: "(case map_of (dw_files w2) (record_file cid) of None \<Rightarrow> throwIO XNoFile
     | Some f \<Rightarrow> bindIO (whenE (\<not> cf_private f) XBadRecord) (\<lambda>_. bindIO trial (\<lambda>_. case cf_doc f of
         None \<Rightarrow> throwIO XBadRecord
       | Some r \<Rightarrow> bindIO (whenE (cr_version r \<noteq> 1 \<or> cr_id r \<noteq> cid \<or> cr_endpoint r \<noteq> mg_endpoint mg \<or>
             lab (cr_labels r) ''managed'' \<noteq> ''true'' \<or> \<not> prefix ''/'' (cr_name r)) XMismatch) (\<lambda>_. returnIO r)))) w2 = (Inl XNoFile, w')"
    by (fastforce simp: read_cleanup_def io_iffs)
  have "dw_files w2 = dw_files w" using quietD [OF kept_directory d] quietD [OF kept_trial(1) t] by simp
  with n obtain c where "map_of (dw_files w2) (record_file cid) = Some c" by auto
  with f trial_error show False by (auto simp: io_iffs split: option.splits)
qed

lemma checks_pass:
  assumes "start_checks hs mg x w = (Inr u, w')"
  shows "wk_id x \<notin> set (dw_quarantined w) \<and> map_of (dw_files w) (record_file (wk_id x)) = None"
proof -
  from assms obtain r w1 w2 where r: "read_cleanup mg (wk_id x) w = (r, w1)" and
    c: "(case r of Inr _ \<Rightarrow> throwIO XRemovalPending | Inl e \<Rightarrow> whenE (e \<noteq> XNoFile) e) w1 = (Inr (), w2)" and q: "wk_id x \<notin> set (dw_quarantined w2)"
    by (auto simp: start_checks_def io_iffs)
  from c have "r = Inl XNoFile" "w2 = w1" by (cases r; auto simp: whenE_def split: if_splits)+
  with r read_no_file q quietD [OF kept_read r] show ?thesis by simp
qed

definition grows :: "string \<Rightarrow> dock \<Rightarrow> dock \<Rightarrow> bool" where
  "grows c w w' \<longleftrightarrow> set (dw_running w') \<subseteq> insert c (set (dw_running w))"

lemma grows_bind [intro!]: "follows (grows c) m \<Longrightarrow> (\<And>x. follows (grows c) (f x)) \<Longrightarrow> follows (grows c) (bindIO m f)"
  by (rule follows_bind [where R = "grows c"]) (auto simp: grows_def)

lemma grows_calm: "follows calm m \<Longrightarrow> follows (grows c) m"
  by (auto simp: follows_def calm_def grows_def)

lemma grows_dcall: "follows (grows c) m \<Longrightarrow> follows (grows c) (dcall m)"
  by (rule follows_dcall) (auto simp: grows_def)

lemma grows_simps [simp]:
  "grows c w w" "grows c w (w\<lparr>dw_running := c # dw_running w, dw_verified := vs, dw_released := rs\<rparr>)" "grows c w (w\<lparr>dw_released := rs\<rparr>)"
  "grows c w (w\<lparr>dw_verified := vs\<rparr>)" "grows c w (w\<lparr>dw_allocations := al\<rparr>)"
  unfolding grows_def by (simp_all add: subset_insertI)

lemmas grows_ops [simp, intro!] = calms_unit [THEN grows_calm] calms_trial [THEN grows_calm] calms_tokens [THEN grows_calm]
  calms_validate [THEN grows_calm] calms_wait [THEN grows_calm] calms_config [THEN grows_calm] calms_inspect [THEN grows_calm]
  calms_start_failed [THEN grows_calm]

lemma grows_start [simp, intro!]: "follows (grows c) (container_start c)" "follows (grows c) (release_command c)"
  unfolding container_start_def release_command_def by (rule grows_dcall, rule follows_upd, simp)+

lemma grows_verify [simp, intro!]: "follows (grows c) (verify_kata_guest hs cid waiting)"
proof -
  have "follows (grows c) (updIO (\<lambda>w. w\<lparr>dw_verified := cid # dw_verified w\<rparr>))" by (rule follows_upd) simp
  then show ?thesis unfolding verify_kata_guest_def Let_def by (auto split: sum.split)
qed

lemma grows_boot: "follows (grows (wk_id x)) (start_boot hs mg waits x)"
  unfolding start_boot_def start_guest_def Let_def
  by (auto intro!: follows_catch split: sum.split)


text \<open>C26: A worker that is quarantined, or whose removal is pending, is never started: if a start leaves a container running that was
  not running before, the container was neither quarantined nor named by a cleanup record.\<close>

theorem start_guarded:
  assumes "start_context hs mg v w = (r, w')" and "i \<in> set (dw_running w')" and "i \<notin> set (dw_running w)"
  shows "i \<notin> set (dw_quarantined w) \<and> map_of (dw_files w) (record_file i) = None"
proof -
  let ?A = "\<lambda>s. set (dw_running s) \<subseteq> set (dw_running w) \<and> kept s = kept w"
  let ?Q = "\<lambda>s. i \<in> set (dw_running s) \<longrightarrow> i \<notin> set (dw_quarantined w) \<and> map_of (dw_files w) (record_file i) = None"
  let ?B = "\<lambda>c s. set (dw_running s) \<subseteq> insert c (set (dw_running w)) \<and> c \<notin> set (dw_quarantined w) \<and> map_of (dw_files w) (record_file c) = None"
  have q: "?A s \<Longrightarrow> ?Q s" "?B c s \<Longrightarrow> ?Q s" for c s using assms(3) by auto
  have a: "triple ?A m (\<lambda>_. ?A) (\<lambda>_. ?Q)" if "follows calm m" "quiet kept m" for m :: "'a wio"
    by (rule tripleI) (use followsD [OF that(1)] quietD [OF that(2)] q(1) in \<open>fastforce simp: calm_def\<close>)+
  have b: "triple (?B c) m (\<lambda>_. ?Q) (\<lambda>_. ?Q)" if "follows (grows c) m" for c and m :: "'a wio"
    by (rule tripleI) (use followsD [OF that] q(2) in \<open>fastforce simp: grows_def\<close>)+
  have c: "triple ?A (start_checks hs mg x) (\<lambda>_. ?B (wk_id x)) (\<lambda>_. ?Q)" for x
  proof (rule tripleI)
    fix s u s' assume p: "?A s" and m: "start_checks hs mg x s = (Inr u, s')"
    from checks_pass [OF m] followsD [OF calms_start_checks m] p show "?B (wk_id x) s'" by (auto simp: calm_def)
  next
    fix s e s' assume p: "?A s" and m: "start_checks hs mg x s = (Inl e, s')"
    from followsD [OF calms_start_checks m] p assms(3) show "?Q s'" by (auto simp: calm_def)
  qed
  have f: "follows (grows (wk_id x)) (bindIO (getIO (\<lambda>w. wk_id x \<in> set (dw_running w))) (\<lambda>running.
     if running then (if lab (wk_labels x) ''isolation'' = ''kata'' then verify_kata_guest hs (wk_id x) False else returnIO ())
     else bindIO (liftE (if lab (wk_labels x) ''isolation'' = ''kata'' then retained_ready (hs_environment hs) (wk_env x) else Inr [])) (\<lambda>ready.
       bindIO (if lab (wk_labels x) ''isolation'' = ''kata'' then bindIO trial (\<lambda>_. dcall (updIO (\<lambda>w. w\<lparr>dw_allocations := (lab (wk_labels x) ''allocation'', wk_id x) # dw_allocations w\<rparr>)))
         else restore_worker_token hs mg x) (\<lambda>_.
       bindIO (catchIO (start_boot hs mg (ready \<noteq> []) x)) (\<lambda>r. case r of
         Inr _ \<Rightarrow> returnIO ()
       | Inl e \<Rightarrow> bindIO (if lab (wk_labels x) ''isolation'' = ''kata'' then start_failed mg x else returnIO ()) (\<lambda>_. throwIO e))))))" for x
    by (auto intro!: follows_catch grows_boot grows_dcall follows_upd split: sum.split)
  have t: "triple ?A (start_context hs mg v) (\<lambda>_. ?Q) (\<lambda>_. ?Q)"
    unfolding start_context_def Let_def
    by (rule triple_bind [OF a [OF calms_inspect(1) kept_inspect(1)]], rule triple_bind [OF a], simp, simp, rule triple_bind [OF a], simp, simp,
        rule triple_bind [OF a [OF calms_lock kept_lock]], rule triple_bind [OF a [OF calms_inspect(1) kept_inspect(1)]],
        rule triple_bind [OF c], rule b, rule f)
  have "?Q (snd (start_context hs mg v w))" by (rule triple_snd [OF t]) simp
  with assms(1,2) show ?thesis by simp
qed

text \<open>C25: In every sequence of launches, starts, stops, removals, quarantines and reaps, with any failures, a Kata container whose
  command was released was verified since its last start, and its guest passes the check of a guest.\<close>

theorem command_released_attested:
  assumes "dw_released w = []" and "dw_verified w = []" and "lifecycle_run hs mg es (w, []) = (w', ps)" and "i \<in> set (dw_released w')"
  shows "i \<in> set (dw_verified w') \<and> guest_ok hs i"
proof -
  have "commands_attested hs w" using assms(1,2) by (simp add: commands_attested_def)
  with lifecycle_attested [of hs "(w, [])" mg es] assms(3,4) show ?thesis by (auto simp: commands_attested_def)
qed

section \<open>A sample site\<close>

text \<open>The container a run builds for the sample options, without its temporary filesystem, and a guest that answers the probe.\<close>

definition sample_inspection :: inspection where
  "sample_inspection = (let opt = sample_opts\<lparr>ro_storage := []\<rparr>;
     ls = projr (run_labels sample_codec None ''kata'' ''io.containerd.kata.v2'' ''wide'' opt);
     b = projr (bootstrap_config sample_knode (Some [''/entry'']) ''al'' sample_res ''/dock/al''
       (worker_container opt True False (kata_labels ls ''n1'' ''proxy'') [''CODEX_TOKEN=cdx-1''],
        worker_host opt sample_binds (worker_network ''w1'') ''kata'' ''io.containerd.kata.v2'' [''proxy:10.0.0.2'']))
   in \<lparr>in_id = replicate 64 CHR ''a'', in_name = ''/w1'', in_config = fst b, in_host = snd b, in_running = False, in_networks = None\<rparr>)"

definition sample_guest_probe :: "(string \<times> string) list" where
  "sample_guest_probe = [(''boot_id'', ''guest''), (''pids'', ''512''), (''memory'', show_int (2 * 2 ^ 30)), (''cpu'', ''200000 100000''),
     (''cmdline'', ''guard'' @ waiting_mark ''al''),
     (''status'', concat (map (\<lambda>l. l @ [CHR 0x0A]) [''Uid: 1000 1000 1000 1000'', ''Gid: 1000 1000 1000 1000'', ''CapInh: 0'', ''CapPrm: 0'',
       ''CapEff: 0'', ''CapBnd: 0'', ''CapAmb: 0'', ''NoNewPrivs: 1'', ''Seccomp: 2'']))]"

definition sample_site :: host_site where
  "sample_site = \<lparr>hs_node = sample_knode, hs_resolve = Some, hs_profiles = (\<lambda>n. if n = ''wide'' then Some sample_res else None),
     hs_storage = (\<lambda>s. Inr []), hs_names = (\<lambda>s. Some [s]),
     hs_inspect = (\<lambda>i. if i = replicate 64 CHR ''a'' then Some sample_inspection else None), hs_probe = (\<lambda>i. Some sample_guest_probe),
     hs_observations = (\<lambda>s. None), hs_boot = ''host'', hs_token_labels = (\<lambda>ls. True), hs_profile = ([], []), hs_ready = 3,
     hs_environment = (\<lambda>s. True)\<rparr>"

text \<open>The sample dock with its worker stopped, and without its token and allocation.\<close>

definition sample_stopped :: dock where
  "sample_stopped = sample_dock\<lparr>dw_running := [replicate 64 CHR ''b''], dw_tokens := [], dw_allocations := []\<rparr>"

lemma sample_worker_valid: "validate_kata_worker Some sample_knode (hs_profiles sample_site) (\<lambda>s. Inr []) (\<lambda>s. Some [s])
   (\<lambda>net i ps. Some [''proxy:10.0.0.2'']) sample_inspection = Inr ()"
  by code_simp

lemma sample_guest_ok: "guest_ok sample_site (replicate 64 CHR ''a'')"
  by code_simp

lemma sample_start_runs:
  "replicate 64 CHR ''a'' \<in> set (dw_running (snd (start_context sample_site sample_manager ''w1'' sample_stopped)))"
  "replicate 64 CHR ''a'' \<in> set (dw_released (snd (start_context sample_site sample_manager ''w1'' sample_stopped)))"
  by code_simp+

theorem start_guarded_witness:
  "replicate 64 CHR ''a'' \<notin> set (dw_quarantined sample_stopped) \<and>
   map_of (dw_files sample_stopped) (record_file (replicate 64 CHR ''a'')) = None"
proof -
  have "replicate 64 CHR ''a'' \<notin> set (dw_running sample_stopped)" by code_simp
  from start_guarded [OF prod.collapse [symmetric] sample_start_runs(1) this] show ?thesis .
qed

theorem command_released_attested_witness:
  "replicate 64 CHR ''a'' \<in> set (dw_verified (fst (lifecycle_run sample_site sample_manager [LStart ''w1''] (sample_stopped, []))))"
proof -
  have "replicate 64 CHR ''a'' \<in> set (dw_released (fst (lifecycle_run sample_site sample_manager [LStart ''w1''] (sample_stopped, []))))"
    using sample_start_runs(2) by (simp add: lifecycle_run_def)
  moreover have "dw_released sample_stopped = []" "dw_verified sample_stopped = []" by (simp_all add: sample_stopped_def sample_dock_def)
  ultimately show ?thesis using command_released_attested [OF _ _ prod.collapse [symmetric]] by blast
qed

text \<open>A launch of a worker that is not in a guest, under the name of another worker: it takes the other's network, gets a token under
  its name, fails to create the container, and then revokes by that name the token of the worker that is still there.\<close>

definition sample_launch :: launch where
  "sample_launch = \<lparr>ln_name = ''w1'', ln_kata = False, ln_labels = Inr [], ln_mounts = [], ln_env = (\<lambda>hosts token. Inr []), ln_proxies = [],
     ln_address = (\<lambda>p. ''10.0.0.2/24''), ln_encoded = ''[]'', ln_allocation = [], ln_token = ''cdx-2'', ln_proxy = True, ln_create_only = False,
     ln_waits = False\<rparr>"

lemma collision_revokes_other:
  "let (r, w) = run_context sample_site sample_manager sample_launch sample_dock
   in r = ([], Some XExists) \<and> dw_workers w = dw_workers sample_dock \<and> dw_tokens sample_dock = [''w1''] \<and> dw_tokens w = []"
  by code_simp

end
