(* ===== verification/Spec2Isabelle.thy ===== *)
theory Spec2Isabelle
  imports Prelude GoStrings GoNetip NetworkPolicy WorkerEgress WorkerPolicy PolicyEvents CredentialStore Identity
    TokenProxy TokenSafety HttpModel AdminApi Broker ModelAuth OAuthRefresh ReverseProxy AuthSources ProxyServer
    Triples KataResources KataManifest KataGuard KataLedger KataProcs KataRelease KataInventory KataLaunch KataNode CredentialVault VaultSafety EngineNetwork EngineLinks EngineRecords EngineAttach EngineRuns EngineSafety
    WorkerCleanup WorkerSafety WorkerRemoval WorkerRuns WorkerGuards WorkerConfig WorkerEnv WorkerChecks WorkerLaunch WorkerStarts
begin

text \<open>
  This library models the security core of codex-dock (Go): the code that decides what an isolated worker may reach, which
  credentials leave the host on its behalf, on which attested node it runs, and what is taken back when it ends.

  \<^bold>\<open>Parts and how they interact.\<close>  A worker's traffic goes through an authentication and egress proxy.  The egress side
  compiles network rules into checks of a destination (\<open>src/internal/networkpolicy\<close>), narrowed per worker by presets
  (\<open>src/internal/workeregress\<close>).  The authentication side (\<open>src/internal/authproxy\<close>) knows each worker by a token; it
  authenticates a request, checks its model and route, injects the host's credentials and forwards the request to a fixed
  upstream.  Credentials come from the host's own login or from a credential store (\<open>src/pkg/cxd/credentialstore\<close>), plain or
  encrypted, and are refreshed at their issuer.  Workers of the Kata isolation run on a node whose guard
  (\<open>src/internal/kataguard\<close>) attests the sealed assets, reserves a cgroup per worker, attests the processes in it and releases
  it; the engine of that node (\<open>src/internal/engine\<close>) gives each worker a network of its own.  The sandbox manager
  (\<open>src/internal/sandbox\<close>, \<open>src/internal/network\<close>) ties these together: it builds the configuration of a worker, launches,
  starts, stops, quarantines and removes it, and keeps a record of an unfinished removal on disk.

  \<^bold>\<open>Theories and sources.\<close>
  \<^item> \<open>Prelude\<close>, \<open>GoStrings\<close>, \<open>GoNetip\<close>, \<open>Triples\<close>: errors as sums, the fallible state monad \<open>io\<close> and its triples, and the
    parts of Go's standard library the source uses (\<open>strings\<close>, \<open>strconv\<close>, \<open>path\<close>, \<open>net/netip\<close>).
  \<^item> \<open>NetworkPolicy\<close>: \<open>networkpolicy/policy.go\<close>, \<open>dialer.go\<close>, \<open>explain.go\<close>; \<open>WorkerEgress\<close>: the policies, presets and
    proxy of \<open>workeregress\<close>; \<open>WorkerPolicy\<close>: \<open>workerpolicy\<close>; \<open>PolicyEvents\<close>: the bounded event store.
  \<^item> \<open>CredentialStore\<close>: records and the file store; \<open>CredentialVault\<close>, \<open>VaultSafety\<close>: sealed records and the encrypted store;
    \<open>Identity\<close>: identities and model policies.
  \<^item> \<open>TokenProxy\<close>, \<open>TokenSafety\<close>: tokens, leases and revocation of \<open>authproxy\<close>, as operations and as a transition system;
    \<open>HttpModel\<close>, \<open>AdminApi\<close>, \<open>Broker\<close>, \<open>ModelAuth\<close>, \<open>OAuthRefresh\<close>, \<open>ReverseProxy\<close>, \<open>AuthSources\<close>, \<open>ProxyServer\<close>: requests,
    the handlers and the construction of the proxy.
  \<^item> \<open>KataResources\<close>: \<open>resources.go\<close>, \<open>profile_registry.go\<close> and trusted paths; \<open>KataManifest\<close>: \<open>manifest.go\<close>,
    \<open>guest_policy.go\<close>; \<open>KataGuard\<close>: construction and validation in \<open>host_linux.go\<close>; \<open>KataLedger\<close>: \<open>ledger_linux.go\<close>;
    \<open>KataProcs\<close>: verification, \<open>retire_linux.go\<close>, \<open>abort_linux.go\<close>; \<open>KataRelease\<close>: the release; \<open>KataInventory\<close>:
    \<open>inventory.go\<close>, \<open>inventory_linux.go\<close>; \<open>KataLaunch\<close>: \<open>launch.go\<close>; \<open>KataNode\<close>: \<open>broker.go\<close>, service and client.
  \<^item> \<open>EngineNetwork\<close>, \<open>EngineLinks\<close>, \<open>EngineRecords\<close>, \<open>EngineAttach\<close>, \<open>EngineRuns\<close>, \<open>EngineSafety\<close>: \<open>engine/network.go\<close>,
    \<open>network_recovery.go\<close>, \<open>intents.go\<close>, \<open>recovery.go\<close>: subnets, links and firewall rules of the networks, their records,
    and runs of their operations.
  \<^item> \<open>WorkerConfig\<close>: \<open>sandbox/runtime.go\<close>, \<open>kata_gate.go\<close>, \<open>kata_validation.go\<close>, \<open>temporary.go\<close> and the mounts of
    \<open>manager.go\<close>; \<open>WorkerEnv\<close>: the environment and labels; \<open>WorkerChecks\<close>: what a built configuration satisfies.
  \<^item> \<open>WorkerCleanup\<close>: \<open>cleanup.go\<close>, \<open>quarantine.go\<close>, \<open>network/kata.go\<close> and the stopping and reaping of workers;
    \<open>WorkerSafety\<close>, \<open>WorkerRemoval\<close>, \<open>WorkerRuns\<close>, \<open>WorkerGuards\<close>: the invariant of removals, its preservation, runs, and
    the properties.
  \<^item> \<open>WorkerLaunch\<close>: \<open>RunContext\<close> after its options are checked, \<open>StartContext\<close>, \<open>restart_auth.go\<close>, \<open>environment.go\<close>;
    \<open>WorkerStarts\<close>: runs with launches and starts.

  \<^bold>\<open>How state and effects are modelled.\<close>  Structs are records, errors are values of datatypes, maps are association lists or
  functions, and stateful code passes its state: \<open>io\<close> operations map a world to a result and a world.  What the code cannot
  control is a schedule in the world: which call fails, before or after its effect, when a context has ended, how often a lock
  is taken.  The theorems quantify over all schedules, so an invariant that is kept is kept wherever a call fails.  The file
  stores, the Kata node, the engine of the node and the dock of the sandbox manager are such worlds.  Runs are lists of events,
  among them the halves of an operation that another may come between; the token proxy is a transition system whose reachable
  states \<open>proxy_run\<close> gives.

  \<^bold>\<open>Groups of lemmas.\<close>  Each theory gives its operations, then what each branch of them does, then the invariant and that every
  operation keeps it, then the properties.  In \<open>NetworkPolicy\<close> the compiled checks refine the rules and the domain index equals
  a scan.  In \<open>CredentialStore\<close> saving is a compare-and-swap for the locale \<open>credential_store\<close>, interpreted on the file store;
  \<open>TokenSafety\<close> uses that contract, and \<open>VaultSafety\<close> shows that what an encrypted store writes is encrypted to its recipient and
  that no record of it is lost.  In \<open>TokenSafety\<close> authentication is exact and revocation permanent over all runs; in the handlers a request is sent only
  when authorized.  In the Kata theories \<open>node_ok\<close> (every record acceptable, no cgroup without its record, at most the node's
  maximum) is kept by every operation of the service.  In the engine theories the subnets of networks stay disjoint and the
  firewall confines each worker to its network.  In the worker theories each worker that its manager can release exists, or is
  recorded, or is released with all it held (what the code leaves behind for the others are the lemmas
  \<open>reaped_network_stays\<close> and \<open>quarantine_keeps_hidden_token\<close>); the configuration that is built is one the later checks
  accept; and no command runs in a guest that was not verified.

  \<^bold>\<open>Bounds and fuel.\<close>  Loops are structural recursion over the list the code ranges over, or over the number of failed attempts
  of the schedule (locks), the attempts the code makes (three for a confirmed removal) or the polls before a timeout.  The
  waiting loop of a release, which need not end, is a partial function, and \<open>KataRelease\<close> shows exactly when it returns.
  Machine integers are kept at their width where wrap-around matters (event sequence numbers, storage budgets, token lifetimes,
  address bits).

  \<^bold>\<open>Parameters.\<close>  Hashes, ciphers, decoders of JSON, TOML and ELF, random bytes, upstream answers, the answers of the container
  engine and of guests, the kernel's reading of a written control file and what the rest of the node does during a pause are
  arguments or fields of the world.  Hypotheses on them are stated in the theorem that needs them and have a witness.

  \<^bold>\<open>Not modelled.\<close>  Byte streams after the headers of a proxied connection, TLS, preemption inside an operation beyond the
  halves named above, the command line and terminal (\<open>src/cmd\<close>, \<open>src/internal/ui\<close>), the client library
  (\<open>src/pkg/cxd\<close> outside the stores and identities), the tasks, images and streams of the node's engine, commands, files, jobs
  and terminals of running workers, the listing and logs of workers, image builds, onboarding, templates and configuration
  files: they are mostly calls of the engine, of the terminal or of files, and the decisions modelled here are the ones they
  rely on.
\<close>

end
